(* ===== verification/Prelude.thy ===== *)
theory Prelude
  imports Main "HOL-Library.Word" "HOL-Library.AList" "HOL-Library.Sublist" "HOL-Library.Multiset"
    "HOL-Library.List_Lexorder" "HOL-Library.Char_ord"
begin

text \<open>
  The vocabulary every component shares: bytes, Python exceptions as values, results and byte
  stream readers, and the list, \<open>struct\<close> and dictionary facts the component proofs rest on.
  A Python exception does not undo what was read before it was raised, so a reader returns the
  rest of the stream beside its result whether or not it failed.
\<close>

unbundle bit_operations_syntax

named_theorems rd_simps \<open>evaluation of readers and results\<close>
named_theorems codec_rt \<open>a decoder applied to what the encoder wrote\<close>
named_theorems consumes_intros \<open>a reader leaves a suffix of its stream and never runs out of fuel\<close>

section \<open>Bytes, exceptions, results\<close>

type_synonym byte = "8 word"
type_synonym bytes = "byte list"

text \<open>
  The exceptions the program raises or lets through. \<open>HWWErr msg code\<close> is the hierarchy of
  \<open>hwilib/errors.py\<close>; the others are Python's own. \<open>OutOfFuel\<close> is no exception of Python: it is
  the value of a loop whose fuel ran out, and the loops are shown never to return it.
\<close>

datatype exn =
    HWWErr string int
  | ValueErr string
  | StructErr
  | IndexErr
  | KeyErr
  | TypeErr
  | OverflowErr
  | AssertionErr
  | ImportErr string
  | RuntimeErr string
  | OtherErr string
  | OutOfFuel

type_synonym 'a result = "exn + 'a"

definition res_bind :: "'a result \<Rightarrow> ('a \<Rightarrow> 'b result) \<Rightarrow> 'b result" where
  "res_bind m f = (case m of Inl e \<Rightarrow> Inl e | Inr x \<Rightarrow> f x)"

lemma res_bind_simps [simp]:
  "res_bind (Inl e) f = Inl e"
  "res_bind (Inr x) f = f x"
  by (simp_all add: res_bind_def)

lemma res_bind_eq_Inr [simp]:
  "res_bind m f = Inr y \<longleftrightarrow> (\<exists>x. m = Inr x \<and> f x = Inr y)"
  by (cases m) simp_all

lemma res_bind_eq_Inl:
  "res_bind m f = Inl e \<longleftrightarrow> m = Inl e \<or> (\<exists>x. m = Inr x \<and> f x = Inl e)"
  by (cases m) simp_all

lemma res_bind_assoc: "res_bind (res_bind m f) g = res_bind m (\<lambda>x. res_bind (f x) g)"
  by (cases m) simp_all

lemma res_bind_cong [fundef_cong]:
  "m = m' \<Longrightarrow> (\<And>x. m' = Inr x \<Longrightarrow> f x = f' x) \<Longrightarrow> res_bind m f = res_bind m' f'"
  by (cases m') simp_all

text \<open>A loop that runs a fallible body over a list and collects the results.\<close>

fun res_map :: "('a \<Rightarrow> 'b result) \<Rightarrow> 'a list \<Rightarrow> 'b list result" where
  "res_map f [] = Inr []"
| "res_map f (x # xs) = res_bind (f x) (\<lambda>y. res_bind (res_map f xs) (\<lambda>ys. Inr (y # ys)))"

lemma res_map_cong [fundef_cong]:
  "xs = ys \<Longrightarrow> (\<And>x. x \<in> set ys \<Longrightarrow> f x = g x) \<Longrightarrow> res_map f xs = res_map g ys"
proof (induction ys arbitrary: xs)
  case Nil
  then show ?case by simp
next
  case (Cons y ys)
  then have "res_map f ys = res_map g ys" by simp
  with Cons.prems show ?case by simp
qed

lemma res_map_Inr: "(\<And>x. x \<in> set xs \<Longrightarrow> f x = Inr (g x)) \<Longrightarrow> res_map f xs = Inr (map g xs)"
  by (induction xs) simp_all

lemma res_map_length: "res_map f xs = Inr ys \<Longrightarrow> length ys = length xs"
  by (induction xs arbitrary: ys) auto

lemma res_map_append:
  "res_map f (xs @ ys) = res_bind (res_map f xs) (\<lambda>us. res_bind (res_map f ys) (\<lambda>vs. Inr (us @ vs)))"
  by (induction xs) (auto simp: res_bind_assoc res_bind_def split: sum.splits)

text \<open>A loop that threads a state through a fallible body; it stops at the first exception.\<close>

fun res_fold :: "('a \<Rightarrow> 's \<Rightarrow> 's result) \<Rightarrow> 'a list \<Rightarrow> 's \<Rightarrow> 's result" where
  "res_fold f [] s = Inr s"
| "res_fold f (x # xs) s = res_bind (f x s) (res_fold f xs)"

lemma res_fold_append [simp]:
  "res_fold f (xs @ ys) s = res_bind (res_fold f xs s) (res_fold f ys)"
  by (induction xs arbitrary: s) (simp_all add: res_bind_def split: sum.splits)

lemma res_fold_invariant:
  assumes "\<And>x s s'. x \<in> set xs \<Longrightarrow> P s \<Longrightarrow> f x s = Inr s' \<Longrightarrow> P s'"
    and "P s" and "res_fold f xs s = Inr s'"
  shows "P s'"
  using assms by (induction xs arbitrary: s) auto

section \<open>Readers of a byte stream\<close>

text \<open>
  \<open>BytesIO\<close> and \<open>BufferedReader\<close> objects are the bytes not read yet. A reader returns its result
  and what is left.
\<close>

type_synonym 'a reader = "bytes \<Rightarrow> 'a result \<times> bytes"

definition rd_ret :: "'a \<Rightarrow> 'a reader" where
  "rd_ret x s = (Inr x, s)"

definition rd_fail :: "exn \<Rightarrow> 'a reader" where
  "rd_fail e s = (Inl e, s)"

definition rd_bind :: "'a reader \<Rightarrow> ('a \<Rightarrow> 'b reader) \<Rightarrow> 'b reader" where
  "rd_bind m f s = (case m s of (Inl e, s') \<Rightarrow> (Inl e, s') | (Inr x, s') \<Rightarrow> f x s')"

text \<open>A pure result inside a reader.\<close>

definition rd_lift :: "'a result \<Rightarrow> 'a reader" where
  "rd_lift r s = (r, s)"

text \<open>
  \<open>f.read(n)\<close> returns at most \<open>n\<close> bytes, fewer at the end of the stream, and raises
  \<open>OverflowError\<close> when \<open>n\<close> does not fit a \<open>Py_ssize_t\<close>. \<open>f.read()\<close> returns the rest.
\<close>

definition py_read :: "nat \<Rightarrow> bytes reader" where
  "py_read n s = (if n < 2 ^ 63 then (Inr (take n s), drop n s) else (Inl OverflowErr, s))"

definition py_read_all :: "bytes reader" where
  "py_read_all s = (Inr s, [])"

lemma rd_ret_apply [simp, rd_simps]: "rd_ret x s = (Inr x, s)"
  by (simp add: rd_ret_def)

lemma rd_fail_apply [simp, rd_simps]: "rd_fail e s = (Inl e, s)"
  by (simp add: rd_fail_def)

lemma rd_lift_apply [simp, rd_simps]: "rd_lift r s = (r, s)"
  by (simp add: rd_lift_def)

lemma rd_bind_Inr [rd_simps]: "m s = (Inr x, s') \<Longrightarrow> rd_bind m f s = f x s'"
  by (simp add: rd_bind_def)

lemma rd_bind_Inl [rd_simps]: "m s = (Inl e, s') \<Longrightarrow> rd_bind m f s = (Inl e, s')"
  by (simp add: rd_bind_def)

lemma rd_bind_ret [simp]: "rd_bind (rd_ret x) f = f x"
  by (rule ext) (simp add: rd_bind_def)

lemma rd_bind_fail [simp]: "rd_bind (rd_fail e) f = rd_fail e"
  by (rule ext) (simp add: rd_bind_def)

lemma rd_bind_lift [simp]:
  "rd_bind (rd_lift (Inr x)) f = f x"
  "rd_bind (rd_lift (Inl e)) f = rd_fail e"
  by (rule ext, simp add: rd_bind_def)+

lemma rd_bind_eq_Inr:
  "rd_bind m f s = (Inr y, s'') \<longleftrightarrow> (\<exists>x s'. m s = (Inr x, s') \<and> f x s' = (Inr y, s''))"
  by (auto simp: rd_bind_def split: prod.splits sum.splits)

lemma rd_bind_cong [fundef_cong]:
  "m = m' \<Longrightarrow> (\<And>x s s'. m' s = (Inr x, s') \<Longrightarrow> f x s' = f' x s') \<Longrightarrow> s = t
    \<Longrightarrow> rd_bind m f s = rd_bind m' f' t"
  by (auto simp: rd_bind_def split: prod.splits sum.splits)

lemma rd_bind_assoc: "rd_bind (rd_bind m f) g = rd_bind m (\<lambda>x. rd_bind (f x) g)"
  by (rule ext) (simp add: rd_bind_def split: prod.splits sum.splits)

text \<open>\<open>[c() for _ in range(n)]\<close> with a reader for a body.\<close>

fun rd_rep :: "nat \<Rightarrow> 'a reader \<Rightarrow> 'a list reader" where
  "rd_rep 0 m = rd_ret []"
| "rd_rep (Suc n) m = rd_bind m (\<lambda>x. rd_bind (rd_rep n m) (\<lambda>xs. rd_ret (x # xs)))"

lemma rd_rep_length: "rd_rep n m s = (Inr xs, s') \<Longrightarrow> length xs = n"
  by (induction n arbitrary: s xs) (auto simp: rd_bind_eq_Inr)

lemma rd_rep_all:
  assumes "\<And>s x s'. m s = (Inr x, s') \<Longrightarrow> P x" and "rd_rep n m s = (Inr xs, s')"
  shows "list_all P xs"
  using assms(2) by (induction n arbitrary: s xs) (auto simp: rd_bind_eq_Inr rd_ret_def dest: assms(1))

lemma rd_rep_concat:
  assumes "\<And>x rest. x \<in> set xs \<Longrightarrow> m (enc x @ rest) = (Inr x, rest)"
  shows "rd_rep (length xs) m (concat (map enc xs) @ rest) = (Inr xs, rest)"
  using assms
proof (induction xs)
  case Nil
  then show ?case by simp
next
  case (Cons x xs)
  then have "m (enc x @ concat (map enc xs) @ rest) = (Inr x, concat (map enc xs) @ rest)"
    by simp
  with Cons show ?case by (simp add: rd_bind_def)
qed

subsection \<open>Readers consume a prefix\<close>

text \<open>
  What the termination of the reading loops needs of a reader: it leaves a suffix of its stream
  and its exception, if any, is not the fuel marker.
\<close>

definition consumes :: "'a reader \<Rightarrow> bool" where
  "consumes m \<longleftrightarrow> (\<forall>s. suffix (snd (m s)) s \<and> fst (m s) \<noteq> Inl OutOfFuel)"

lemma consumesD:
  "consumes m \<Longrightarrow> m s = (r, s') \<Longrightarrow> suffix s' s"
  "consumes m \<Longrightarrow> m s = (r, s') \<Longrightarrow> r \<noteq> Inl OutOfFuel"
  "consumes m \<Longrightarrow> m s = (r, s') \<Longrightarrow> length s' \<le> length s"
  by (metis consumes_def fst_conv snd_conv suffix_length_le)+

lemma consumes_ret [consumes_intros, simp]: "consumes (rd_ret x)"
  by (simp add: consumes_def)

lemma consumes_fail [consumes_intros]: "e \<noteq> OutOfFuel \<Longrightarrow> consumes (rd_fail e)"
  by (simp add: consumes_def)

lemma consumes_lift [consumes_intros]: "r \<noteq> Inl OutOfFuel \<Longrightarrow> consumes (rd_lift r)"
  by (simp add: consumes_def)

lemma consumes_bind [consumes_intros]:
  "consumes m \<Longrightarrow> (\<And>x. consumes (f x)) \<Longrightarrow> consumes (rd_bind m f)"
  unfolding consumes_def rd_bind_def
  by (auto split: prod.splits sum.splits) (metis fst_conv snd_conv suffix_order.trans)+

lemma consumes_if [consumes_intros]:
  "consumes m \<Longrightarrow> consumes m' \<Longrightarrow> consumes (if b then m else m')"
  by simp

lemma consumes_read [consumes_intros]: "consumes (py_read n)"
  by (simp add: consumes_def py_read_def suffix_drop)

lemma consumes_read_all [consumes_intros]: "consumes py_read_all"
  by (simp add: consumes_def py_read_all_def)

lemma consumes_rep [consumes_intros]: "consumes m \<Longrightarrow> consumes (rd_rep n m)"
  by (induction n) (auto intro!: consumes_intros)

lemma consumes_split_prod [consumes_intros]:
  "(\<And>a b. consumes (f a b)) \<Longrightarrow> consumes (case p of (a, b) \<Rightarrow> f a b)"
  by (cases p) simp

section \<open>Little-endian and big-endian integers\<close>

text \<open>A byte is read as a natural number; the simplifier keeps \<open>int (unat b)\<close> as it is.\<close>

declare of_nat_unat [simp del]

lemma of_nat_unat_byte [simp]: "(of_nat (unat (b :: byte)) :: byte) = b"
  by (simp add: of_nat_unat)

fun le_bytes :: "nat \<Rightarrow> nat \<Rightarrow> bytes" where
  "le_bytes 0 x = []"
| "le_bytes (Suc n) x = of_nat (x mod 256) # le_bytes n (x div 256)"

fun le_val :: "bytes \<Rightarrow> nat" where
  "le_val [] = 0"
| "le_val (b # bs) = unat b + 256 * le_val bs"

definition be_bytes :: "nat \<Rightarrow> nat \<Rightarrow> bytes" where
  "be_bytes n x = rev (le_bytes n x)"

definition be_val :: "bytes \<Rightarrow> nat" where
  "be_val bs = le_val (rev bs)"

lemma length_le_bytes [simp]: "length (le_bytes n x) = n"
  by (induction n arbitrary: x) simp_all

lemma length_be_bytes [simp]: "length (be_bytes n x) = n"
  by (simp add: be_bytes_def)

lemma unat_byte_less [simp]: "unat (b :: byte) < 256"
proof -
  have "unat b < 2 ^ LENGTH(8)" by (rule unsigned_less)
  then show ?thesis by simp
qed

lemma unat_byte_of_nat [simp]: "unat (of_nat x :: byte) = x mod 256"
  by (simp add: unat_of_nat)

lemma byte_of_int:
  assumes "0 \<le> i" and "i < 256"
  shows "unat (of_int i :: byte) = nat i" "int (unat (of_int i :: byte)) = i"
proof -
  have "(of_int i :: byte) = of_nat (nat i)" using assms(1) by simp
  then show "unat (of_int i :: byte) = nat i"
    using assms by (simp only: unat_byte_of_nat) simp
  then show "int (unat (of_int i :: byte)) = i" using assms(1) by simp
qed

lemma le_val_le_bytes [simp]: "le_val (le_bytes n x) = x mod 256 ^ n"
proof (induction n arbitrary: x)
  case 0
  then show ?case by simp
next
  case (Suc n)
  have "x mod 256 + 256 * (x div 256 mod 256 ^ n) = x mod (256 * 256 ^ n)"
    by (simp add: mod_mult2_eq)
  with Suc show ?case by simp
qed

lemma le_val_less: "le_val bs < 256 ^ length bs"
proof (induction bs)
  case Nil
  then show ?case by simp
next
  case (Cons b bs)
  have "unat b < 256" by simp
  with Cons have "unat b + 256 * le_val bs < 256 + 256 * (256 ^ length bs - 1)"
    by (intro add_less_le_mono) auto
  also have "\<dots> = 256 * 256 ^ length bs"
    by (simp add: algebra_simps)
  finally show ?case by simp
qed

lemma le_bytes_le_val [simp]: "le_bytes (length bs) (le_val bs) = bs"
proof (induction bs)
  case Nil
  then show ?case by simp
next
  case (Cons b bs)
  have m: "(unat b + 256 * le_val bs) mod 256 = unat b" by simp
  have d: "(unat b + 256 * le_val bs) div 256 = le_val bs" by simp
  show ?case
    by (simp add: m d Cons)
qed

lemma le_val_append: "le_val (xs @ ys) = le_val xs + 256 ^ length xs * le_val ys"
  by (induction xs) (simp_all add: algebra_simps)

lemma be_val_be_bytes [simp]: "be_val (be_bytes n x) = x mod 256 ^ n"
  by (simp add: be_val_def be_bytes_def)

lemma be_val_less: "be_val bs < 256 ^ length bs"
  using le_val_less [of "rev bs"] by (simp add: be_val_def)

lemma be_bytes_be_val [simp]: "be_bytes (length bs) (be_val bs) = bs"
  using le_bytes_le_val [of "rev bs"] by (simp add: be_val_def be_bytes_def)

lemma be_val_Nil [simp]: "be_val [] = 0"
  by (simp add: be_val_def)

lemma be_val_Cons [simp]: "be_val (b # bs) = unat b * 256 ^ length bs + be_val bs"
  by (simp add: be_val_def le_val_append)

lemma be_val_dropWhile [simp]: "be_val (dropWhile (\<lambda>b. b = 0) r) = be_val r"
  by (induction r) simp_all

lemma be_val_append: "be_val (xs @ ys) = be_val xs * 256 ^ length ys + be_val ys"
  by (simp add: be_val_def le_val_append)

section \<open>\<open>struct.pack\<close> and \<open>struct.unpack\<close>\<close>

text \<open>
  \<open>struct.pack\<close> raises \<open>struct.error\<close> when the value is out of the format's range, and
  \<open>struct.unpack\<close> when the buffer has another length than the format.
\<close>

definition pack_le :: "nat \<Rightarrow> int \<Rightarrow> bytes result" where
  "pack_le n x = (if 0 \<le> x \<and> x < 256 ^ n then Inr (le_bytes n (nat x)) else Inl StructErr)"

definition unpack_le :: "nat \<Rightarrow> bytes \<Rightarrow> int result" where
  "unpack_le n bs = (if length bs = n then Inr (int (le_val bs)) else Inl StructErr)"

definition pack_les :: "nat \<Rightarrow> int \<Rightarrow> bytes result" where
  "pack_les n x = (if - (256 ^ n div 2) \<le> x \<and> x < 256 ^ n div 2
     then Inr (le_bytes n (nat (x mod 256 ^ n))) else Inl StructErr)"

definition unpack_les :: "nat \<Rightarrow> bytes \<Rightarrow> int result" where
  "unpack_les n bs = (if length bs = n
     then Inr (let v = int (le_val bs) in if v < 256 ^ n div 2 then v else v - 256 ^ n)
     else Inl StructErr)"

definition pack_be :: "nat \<Rightarrow> int \<Rightarrow> bytes result" where
  "pack_be n x = (if 0 \<le> x \<and> x < 256 ^ n then Inr (be_bytes n (nat x)) else Inl StructErr)"

definition unpack_be :: "nat \<Rightarrow> bytes \<Rightarrow> int result" where
  "unpack_be n bs = (if length bs = n then Inr (int (be_val bs)) else Inl StructErr)"

lemma pack_le_eq_Inr [simp]:
  "pack_le n x = Inr bs \<longleftrightarrow> 0 \<le> x \<and> x < 256 ^ n \<and> bs = le_bytes n (nat x)"
  by (auto simp: pack_le_def)

lemma pack_les_eq_Inr [simp]:
  "pack_les n x = Inr bs \<longleftrightarrow> - (256 ^ n div 2) \<le> x \<and> x < 256 ^ n div 2
     \<and> bs = le_bytes n (nat (x mod 256 ^ n))"
  by (auto simp: pack_les_def)

lemma pack_be_eq_Inr [simp]:
  "pack_be n x = Inr bs \<longleftrightarrow> 0 \<le> x \<and> x < 256 ^ n \<and> bs = be_bytes n (nat x)"
  by (auto simp: pack_be_def)

lemma unpack_le_bounds: "unpack_le n bs = Inr x \<Longrightarrow> 0 \<le> x \<and> x < 256 ^ n"
proof -
  assume a: "unpack_le n bs = Inr x"
  then have l: "length bs = n" and x: "x = int (le_val bs)"
    by (auto simp: unpack_le_def split: if_splits)
  have "int (le_val bs) < int (256 ^ n)"
    using le_val_less [of bs] l by (simp only: of_nat_less_iff)
  with x show ?thesis by simp
qed

lemma unpack_be_bounds: "unpack_be n bs = Inr x \<Longrightarrow> 0 \<le> x \<and> x < 256 ^ n"
proof -
  assume a: "unpack_be n bs = Inr x"
  then have l: "length bs = n" and x: "x = int (be_val bs)"
    by (auto simp: unpack_be_def split: if_splits)
  have "int (be_val bs) < int (256 ^ n)"
    using be_val_less [of bs] l by (simp only: of_nat_less_iff)
  with x show ?thesis by simp
qed

lemma nat_less_pow: "0 \<le> x \<Longrightarrow> x < 256 ^ n \<Longrightarrow> nat x < 256 ^ n"
  by (simp only: nat_less_iff of_nat_power of_nat_numeral)

lemma unpack_pack_le [codec_rt]:
  "0 \<le> x \<Longrightarrow> x < 256 ^ n \<Longrightarrow> unpack_le n (le_bytes n (nat x)) = Inr x"
  using nat_less_pow [of x n] by (simp add: unpack_le_def)

lemma unpack_pack_be [codec_rt]:
  "0 \<le> x \<Longrightarrow> x < 256 ^ n \<Longrightarrow> unpack_be n (be_bytes n (nat x)) = Inr x"
  using nat_less_pow [of x n] by (simp add: unpack_be_def)

lemma unpack_pack_les [codec_rt]:
  assumes "- (256 ^ n div 2) \<le> x" and "x < 256 ^ n div 2" and "0 < n"
  shows "unpack_les n (le_bytes n (nat (x mod 256 ^ n))) = Inr x"
proof -
  let ?M = "256 ^ n :: int"
  obtain k where "n = Suc k" using assms(3) by (cases n) auto
  then have M: "0 < ?M" and ev: "2 * (?M div 2) = ?M" by simp_all
  have "0 \<le> x mod ?M" "x mod ?M < ?M"
    using M by simp_all
  then have nm: "int (nat (x mod ?M) mod 256 ^ n) = x mod ?M"
    using nat_less_pow [of "x mod ?M" n] by simp
  show ?thesis
  proof (cases "0 \<le> x")
    case True
    then have "x mod ?M = x" using assms(2) ev by simp
    with nm assms(2) show ?thesis
      by (simp add: unpack_les_def Let_def)
  next
    case False
    then have "(x + ?M) mod ?M = x + ?M" using assms(1) ev M by (intro mod_pos_pos_trivial) auto
    then have "x mod ?M = x + ?M" by simp
    with nm False assms(1) ev show ?thesis
      by (auto simp add: unpack_les_def Let_def)
  qed
qed

text \<open>\<open>struct.unpack(fmt, f.read(n))[0]\<close>, little-endian, unsigned and signed.\<close>

definition rd_unpack :: "nat \<Rightarrow> int reader" where
  "rd_unpack n = rd_bind (py_read n) (\<lambda>b. rd_lift (unpack_le n b))"

definition rd_unpack_s :: "nat \<Rightarrow> int reader" where
  "rd_unpack_s n = rd_bind (py_read n) (\<lambda>b. rd_lift (unpack_les n b))"

lemma consumes_unpack [consumes_intros]: "consumes (rd_unpack n)" "consumes (rd_unpack_s n)"
  unfolding rd_unpack_def rd_unpack_s_def
  by (auto intro!: consumes_intros simp: unpack_le_def unpack_les_def split: if_splits)

lemma py_read_append [rd_simps]:
  "n = length a \<Longrightarrow> n < 2 ^ 63 \<Longrightarrow> py_read n (a @ s) = (Inr a, s)"
  by (simp add: py_read_def)

lemma rd_unpack_append [rd_simps]:
  "n = length a \<Longrightarrow> n < 2 ^ 63 \<Longrightarrow> rd_unpack n (a @ s) = (unpack_le n a, s)"
  by (simp add: rd_unpack_def rd_bind_def py_read_append)

lemma rd_unpack_s_append [rd_simps]:
  "n = length a \<Longrightarrow> n < 2 ^ 63 \<Longrightarrow> rd_unpack_s n (a @ s) = (unpack_les n a, s)"
  by (simp add: rd_unpack_s_def rd_bind_def py_read_append)

text \<open>Pieces appended to a result one after the other, as \<open>r += \<dots>\<close> does; the first exception wins.\<close>

definition res_concat :: "bytes result list \<Rightarrow> bytes result" where
  "res_concat ms = res_bind (res_map (\<lambda>m. m) ms) (\<lambda>bs. Inr (concat bs))"

lemma res_concat_simps [simp]:
  "res_concat [] = Inr []"
  "res_concat (Inr b # ms) = res_bind (res_concat ms) (\<lambda>r. Inr (b @ r))"
  "res_concat (Inl e # ms) = Inl e"
  by (simp_all add: res_concat_def res_bind_assoc)

lemma res_concat_Cons: "res_concat (m # ms) = res_bind m (\<lambda>b. res_bind (res_concat ms) (\<lambda>r. Inr (b @ r)))"
  by (simp add: res_concat_def res_bind_assoc)

lemma res_concat_single: "res_concat [m] = m"
  by (cases m) simp_all

lemma res_concat_append:
  "res_concat (ms @ ns) = res_bind (res_concat ms) (\<lambda>a. res_bind (res_concat ns) (\<lambda>b. Inr (a @ b)))"
  by (induction ms) (auto simp: res_concat_Cons res_bind_assoc res_bind_def split: sum.splits)

lemma res_concat_map_Inr:
  "(\<And>x. x \<in> set xs \<Longrightarrow> f x = Inr (g x)) \<Longrightarrow> res_concat (map f xs) = Inr (concat (map g xs))"
  by (induction xs) simp_all

section \<open>Sequences\<close>

text \<open>\<open>xs[a:b]\<close> for indices that are not negative, and \<open>xs[i]\<close> with its \<open>IndexError\<close>.\<close>

definition py_slice :: "nat \<Rightarrow> nat \<Rightarrow> 'a list \<Rightarrow> 'a list" where
  "py_slice a b xs = take (b - a) (drop a xs)"

definition py_nth :: "'a list \<Rightarrow> nat \<Rightarrow> 'a result" where
  "py_nth xs i = (if i < length xs then Inr (xs ! i) else Inl IndexErr)"

text \<open>\<open>xs[i]\<close> for any integer \<open>i\<close>: a negative index counts from the end.\<close>

definition py_index :: "'a list \<Rightarrow> int \<Rightarrow> 'a result" where
  "py_index xs i =
     (if 0 \<le> i then py_nth xs (nat i)
      else if - i \<le> int (length xs) then py_nth xs (nat (int (length xs) + i))
      else Inl IndexErr)"

lemma py_index_nat [simp]: "py_index xs (int i) = py_nth xs i"
  by (simp add: py_index_def)

text \<open>\<open>xs[:-n]\<close> and \<open>xs[-n:]\<close> for positive \<open>n\<close>.\<close>

definition drop_end :: "nat \<Rightarrow> 'a list \<Rightarrow> 'a list" where
  "drop_end n xs = take (length xs - n) xs"

definition take_end :: "nat \<Rightarrow> 'a list \<Rightarrow> 'a list" where
  "take_end n xs = drop (length xs - n) xs"

lemma drop_end_append [simp]: "n = length ys \<Longrightarrow> drop_end n (xs @ ys) = xs"
  by (simp add: drop_end_def)

lemma take_end_append [simp]: "n = length ys \<Longrightarrow> take_end n (xs @ ys) = ys"
  by (simp add: take_end_def)

lemma drop_end_take_end: "drop_end n xs @ take_end n xs = xs"
  by (simp add: drop_end_def take_end_def)

lemma py_nth_simps [simp]:
  "i < length xs \<Longrightarrow> py_nth xs i = Inr (xs ! i)"
  "length xs \<le> i \<Longrightarrow> py_nth xs i = Inl IndexErr"
  by (simp_all add: py_nth_def)

lemma length_eq_Cons_conv: "length xs = Suc n \<longleftrightarrow> (\<exists>y ys. xs = y # ys \<and> length ys = n)"
  by (cases xs) auto

section \<open>Dictionaries\<close>

text \<open>
  A Python dictionary keeps the order of insertion, which the serializers observe, so it is an
  association list: \<open>d[k] = v\<close> is \<open>AList.update\<close>, which overwrites in place or appends,
  \<open>k in d\<close> is membership in the keys, \<open>d.get(k)\<close> is \<open>map_of\<close>. \<open>sorted(d.items())\<close> orders by the
  key alone because the keys are distinct.
\<close>

type_synonym ('k, 'v) dict = "('k \<times> 'v) list"

abbreviation dict_keys :: "('k, 'v) dict \<Rightarrow> 'k list" where
  "dict_keys d \<equiv> map fst d"

definition dict_has :: "('k, 'v) dict \<Rightarrow> 'k \<Rightarrow> bool" where
  "dict_has d k \<longleftrightarrow> k \<in> set (dict_keys d)"

definition dict_ok :: "('k, 'v) dict \<Rightarrow> bool" where
  "dict_ok d \<longleftrightarrow> distinct (dict_keys d)"

definition sorted_items :: "('k::linorder, 'v) dict \<Rightarrow> ('k, 'v) dict" where
  "sorted_items d = sort_key fst d"

lemma dict_ok_Nil [simp]: "dict_ok []"
  by (simp add: dict_ok_def)

lemma dict_has_Nil [simp]: "\<not> dict_has [] k"
  by (simp add: dict_has_def)

lemma dict_ok_update [simp]: "dict_ok d \<Longrightarrow> dict_ok (AList.update k v d)"
  by (simp add: dict_ok_def distinct_update)

lemma update_fresh: "\<not> dict_has d k \<Longrightarrow> AList.update k v d = d @ [(k, v)]"
  by (induction d) (auto simp: dict_has_def)

lemma dict_has_append [simp]: "dict_has (d @ e) k \<longleftrightarrow> dict_has d k \<or> dict_has e k"
  by (auto simp: dict_has_def)

lemma dict_has_Cons [simp]: "dict_has ((k', v) # d) k \<longleftrightarrow> k' = k \<or> dict_has d k"
  by (auto simp: dict_has_def)

lemma dict_has_update [simp]: "dict_has (AList.update k v d) k' \<longleftrightarrow> k = k' \<or> dict_has d k'"
  by (auto simp: dict_has_def dom_update)

lemma sorted_items_sorted [simp]: "sorted (dict_keys (sorted_items d))"
  by (simp add: sorted_items_def)

lemma set_sorted_items [simp]: "set (sorted_items d) = set d"
  by (simp add: sorted_items_def)

lemma mset_sorted_items [simp]: "mset (sorted_items d) = mset d"
  by (simp add: sorted_items_def)

lemma dict_ok_sorted_items [simp]: "dict_ok (sorted_items d) = dict_ok d"
  unfolding dict_ok_def by (metis mset_eq_imp_distinct_iff mset_map mset_sorted_items)

lemma sorted_items_id: "sorted (dict_keys d) \<Longrightarrow> sorted_items d = d"
  by (simp add: sorted_items_def sorted_sort_id sort_key_id_if_sorted)

lemma map_of_sorted_items: "dict_ok d \<Longrightarrow> map_of (sorted_items d) = map_of d"
  by (rule map_of_eqI) (auto simp: dict_ok_def dom_map_of_conv_image_fst
      map_of_eq_Some_iff [of d] map_of_eq_Some_iff [of "sorted_items d"]
      dict_ok_sorted_items [unfolded dict_ok_def] intro!: map_of_eqI)

end
