(* ===== verification/Errors.thy ===== *)
theory Errors
  imports Prelude
begin

text \<open>
  \<open>hwilib/errors.py\<close>: the error codes, the exception classes and \<open>handle_errors\<close>, which turns an
  exception into the dictionary the command line prints.
\<close>

section \<open>Error codes\<close>

definition NO_DEVICE_TYPE :: int where "NO_DEVICE_TYPE = - 1"
definition MISSING_ARGUMENTS :: int where "MISSING_ARGUMENTS = - 2"
definition DEVICE_CONN_ERROR :: int where "DEVICE_CONN_ERROR = - 3"
definition UNKNOWN_DEVICE_TYPE :: int where "UNKNOWN_DEVICE_TYPE = - 4"
definition INVALID_TX :: int where "INVALID_TX = - 5"
definition NO_PASSWORD :: int where "NO_PASSWORD = - 6"
definition BAD_ARGUMENT :: int where "BAD_ARGUMENT = - 7"
definition NOT_IMPLEMENTED :: int where "NOT_IMPLEMENTED = - 8"
definition UNAVAILABLE_ACTION :: int where "UNAVAILABLE_ACTION = - 9"
definition DEVICE_ALREADY_INIT :: int where "DEVICE_ALREADY_INIT = - 10"
definition DEVICE_ALREADY_UNLOCKED :: int where "DEVICE_ALREADY_UNLOCKED = - 11"
definition DEVICE_NOT_READY :: int where "DEVICE_NOT_READY = - 12"
definition UNKNOWN_ERROR :: int where "UNKNOWN_ERROR = - 13"
definition ACTION_CANCELED :: int where "ACTION_CANCELED = - 14"
definition DEVICE_BUSY :: int where "DEVICE_BUSY = - 15"
definition NEED_TO_BE_ROOT :: int where "NEED_TO_BE_ROOT = - 16"
definition HELP_TEXT :: int where "HELP_TEXT = - 17"
definition DEVICE_NOT_INITIALIZED :: int where "DEVICE_NOT_INITIALIZED = - 18"
definition INVALID_POLICY :: int where "INVALID_POLICY = - 19"

lemmas error_codes = NO_DEVICE_TYPE_def MISSING_ARGUMENTS_def DEVICE_CONN_ERROR_def
  UNKNOWN_DEVICE_TYPE_def INVALID_TX_def NO_PASSWORD_def BAD_ARGUMENT_def NOT_IMPLEMENTED_def
  UNAVAILABLE_ACTION_def DEVICE_ALREADY_INIT_def DEVICE_ALREADY_UNLOCKED_def DEVICE_NOT_READY_def
  UNKNOWN_ERROR_def ACTION_CANCELED_def DEVICE_BUSY_def NEED_TO_BE_ROOT_def HELP_TEXT_def
  DEVICE_NOT_INITIALIZED_def INVALID_POLICY_def

section \<open>Exception classes\<close>

definition NoPasswordError :: "string \<Rightarrow> exn" where
  "NoPasswordError msg = HWWErr msg NO_PASSWORD"

definition UnavailableActionError :: "string \<Rightarrow> exn" where
  "UnavailableActionError msg = HWWErr msg UNAVAILABLE_ACTION"

definition DeviceAlreadyInitError :: "string \<Rightarrow> exn" where
  "DeviceAlreadyInitError msg = HWWErr msg DEVICE_ALREADY_INIT"

definition DeviceNotReadyError :: "string \<Rightarrow> exn" where
  "DeviceNotReadyError msg = HWWErr msg DEVICE_NOT_READY"

definition DeviceAlreadyUnlockedError :: "string \<Rightarrow> exn" where
  "DeviceAlreadyUnlockedError msg = HWWErr msg DEVICE_ALREADY_UNLOCKED"

definition UnknownDeviceError :: "string \<Rightarrow> exn" where
  "UnknownDeviceError msg = HWWErr msg UNKNOWN_DEVICE_TYPE"

definition NotImplementedError :: "string \<Rightarrow> exn" where
  "NotImplementedError msg = HWWErr msg NOT_IMPLEMENTED"

definition PSBTSerializationError :: "string \<Rightarrow> exn" where
  "PSBTSerializationError msg = HWWErr msg INVALID_TX"

definition BadArgumentError :: "string \<Rightarrow> exn" where
  "BadArgumentError msg = HWWErr msg BAD_ARGUMENT"

definition DeviceFailureError :: "string \<Rightarrow> exn" where
  "DeviceFailureError msg = HWWErr msg UNKNOWN_ERROR"

definition ActionCanceledError :: "string \<Rightarrow> exn" where
  "ActionCanceledError msg = HWWErr msg ACTION_CANCELED"

definition DeviceConnectionError :: "string \<Rightarrow> exn" where
  "DeviceConnectionError msg = HWWErr msg DEVICE_CONN_ERROR"

definition DeviceBusyError :: "string \<Rightarrow> exn" where
  "DeviceBusyError msg = HWWErr msg DEVICE_BUSY"

definition NeedsRootError :: "string \<Rightarrow> exn" where
  "NeedsRootError msg = HWWErr msg NEED_TO_BE_ROOT"

definition InvalidPolicyError :: "string \<Rightarrow> exn" where
  "InvalidPolicyError msg = HWWErr msg INVALID_POLICY"

lemmas error_classes = NoPasswordError_def UnavailableActionError_def DeviceAlreadyInitError_def
  DeviceNotReadyError_def DeviceAlreadyUnlockedError_def UnknownDeviceError_def
  NotImplementedError_def PSBTSerializationError_def BadArgumentError_def DeviceFailureError_def
  ActionCanceledError_def DeviceConnectionError_def DeviceBusyError_def NeedsRootError_def
  InvalidPolicyError_def

lemma error_classes_not_fuel [simp]:
  "PSBTSerializationError msg \<noteq> OutOfFuel" "BadArgumentError msg \<noteq> OutOfFuel"
  by (simp_all add: error_classes)

section \<open>Values of the result dictionaries\<close>

text \<open>The values the commands put into the dictionaries they return.\<close>

datatype pyval = VStr string | VInt int | VBool bool | VList "pyval list"

text \<open>\<open>str(e)\<close>; the texts Python's own exceptions carry are shortened.\<close>

fun exn_str :: "exn \<Rightarrow> string" where
  "exn_str (HWWErr msg code) = msg"
| "exn_str (ValueErr msg) = msg"
| "exn_str (ImportErr msg) = msg"
| "exn_str (RuntimeErr msg) = msg"
| "exn_str (OtherErr msg) = msg"
| "exn_str StructErr = ''struct.error''"
| "exn_str IndexErr = ''index out of range''"
| "exn_str KeyErr = ''KeyError''"
| "exn_str TypeErr = ''TypeError''"
| "exn_str OverflowErr = ''OverflowError''"
| "exn_str AssertionErr = []"
| "exn_str OutOfFuel = []"

text \<open>
  \<open>handle_errors\<close> is a context manager around a block: its argument \<open>body\<close> is how the block ended,
  its result the dictionary after the block.
\<close>

definition handle_errors ::
    "string option \<Rightarrow> (string, pyval) dict \<Rightarrow> int \<Rightarrow> unit result \<Rightarrow> (string, pyval) dict" where
  "handle_errors msg result code body =
     (let pre = (case msg of None \<Rightarrow> [] | Some m \<Rightarrow> m @ '' '')
      in case body of
           Inr _ \<Rightarrow> result
         | Inl (HWWErr m c) \<Rightarrow>
             AList.update ''code'' (VInt c) (AList.update ''error'' (VStr (pre @ m)) result)
         | Inl e \<Rightarrow>
             AList.update ''code'' (VInt code) (AList.update ''error'' (VStr (pre @ exn_str e)) result))"

text \<open>
  \<open>handle_errors\<close> reports every exception the block raised and nothing else: after a normal
  end the dictionary is unchanged; after an \<open>HWWError\<close> it holds the prefixed message and the
  exception's own code; after any other exception the prefixed \<open>str(e)\<close> and the default code; the
  other entries are kept.
\<close>

theorem handle_errors_reports:
  "map_of (handle_errors msg result code (Inr u)) = map_of result
   \<and> map_of (handle_errors msg result code (Inl e)) =
      (map_of result)(
        ''error'' \<mapsto> VStr ((case msg of None \<Rightarrow> [] | Some m \<Rightarrow> m @ '' '') @ exn_str e),
        ''code'' \<mapsto> VInt (case e of HWWErr m c \<Rightarrow> c | _ \<Rightarrow> code))"
  by (cases e) (simp_all add: handle_errors_def update_conv')

end
