(* ===== verification/PyLib.thy ===== *)
theory PyLib
  imports Prelude
begin

text \<open>
  The parts of Python's string, \<open>binascii\<close> and \<open>base64\<close> libraries the program calls, as
  executable definitions, with their round trips. A \<open>str\<close> is a list of characters; the program
  handles ASCII text, and so does the model.
\<close>

section \<open>Finding, splitting, joining\<close>

text \<open>\<open>s.find(c)\<close> and \<open>s.rfind(c)\<close> for a single character; \<open>None\<close> is Python's \<open>-1\<close>.\<close>

fun list_index :: "'a \<Rightarrow> 'a list \<Rightarrow> nat option" where
  "list_index x [] = None"
| "list_index x (y # ys) = (if x = y then Some 0 else map_option Suc (list_index x ys))"

fun list_rindex :: "'a \<Rightarrow> 'a list \<Rightarrow> nat option" where
  "list_rindex x [] = None"
| "list_rindex x (y # ys) = (case list_rindex x ys of
     Some i \<Rightarrow> Some (Suc i) | None \<Rightarrow> if x = y then Some 0 else None)"

lemma list_index_None [simp]: "list_index x xs = None \<longleftrightarrow> x \<notin> set xs"
  by (induction xs) auto

lemma list_index_notin [simp]: "x \<notin> set xs \<Longrightarrow> list_index x xs = None"
  by simp

lemma list_index_Some:
  "list_index x xs = Some i \<Longrightarrow> i < length xs \<and> xs ! i = x \<and> x \<notin> set (take i xs)"
  by (induction xs arbitrary: i) (auto split: if_splits)

lemma list_index_nth: "distinct xs \<Longrightarrow> i < length xs \<Longrightarrow> list_index (xs ! i) xs = Some i"
proof (induction xs arbitrary: i)
  case Nil
  then show ?case by simp
next
  case (Cons x xs)
  then show ?case by (cases i) auto
qed

lemma list_index_append_not_in: "x \<notin> set xs \<Longrightarrow> list_index x (xs @ x # ys) = Some (length xs)"
  by (induction xs) auto

lemma list_rindex_append_not_in: "x \<notin> set ys \<Longrightarrow> list_rindex x (xs @ x # ys) = Some (length xs)"
proof -
  assume "x \<notin> set ys"
  then have "list_rindex x ys = None" by (induction ys) auto
  then show ?thesis by (induction xs) auto
qed

lemma list_rindex_Some:
  "list_rindex x xs = Some i \<Longrightarrow> i < length xs \<and> xs ! i = x \<and> x \<notin> set (drop (Suc i) xs)"
proof (induction xs arbitrary: i)
  case Nil
  then show ?case by simp
next
  case (Cons y ys)
  have "list_rindex x ys = None \<Longrightarrow> x \<notin> set ys"
    by (induction ys) (auto split: option.splits if_splits)
  with Cons show ?case by (auto split: option.splits if_splits)
qed

fun py_split :: "char \<Rightarrow> string \<Rightarrow> string list" where
  "py_split c [] = [[]]"
| "py_split c (x # xs) = (if x = c then [] # py_split c xs
     else (case py_split c xs of w # ws \<Rightarrow> (x # w) # ws | [] \<Rightarrow> [[x]]))"

fun py_join :: "string \<Rightarrow> string list \<Rightarrow> string" where
  "py_join sep [] = []"
| "py_join sep [w] = w"
| "py_join sep (w # ws) = w @ sep @ py_join sep ws"

lemma py_split_nonempty [simp]: "py_split c s \<noteq> []"
  by (induction s) (auto split: list.splits)

lemma py_split_no_sep [simp]: "c \<notin> set s \<Longrightarrow> py_split c s = [s]"
  by (induction s) auto

lemma py_split_append_sep:
  "c \<notin> set w \<Longrightarrow> py_split c (w @ c # s) = w # py_split c s"
  by (induction w) auto

lemma py_split_join:
  assumes "ws \<noteq> []" and "\<forall>w\<in>set ws. c \<notin> set w"
  shows "py_split c (py_join [c] ws) = ws"
  using assms by (induction "[c]" ws rule: py_join.induct) (auto simp: py_split_append_sep)

lemma py_join_Cons: "ws \<noteq> [] \<Longrightarrow> py_join sep (w # ws) = w @ sep @ py_join sep ws"
  by (cases ws) simp_all

section \<open>White space and case\<close>

definition is_space :: "char \<Rightarrow> bool" where
  "is_space c \<longleftrightarrow> (let n = of_char c :: nat in (9 \<le> n \<and> n \<le> 13) \<or> (28 \<le> n \<and> n \<le> 32))"

definition py_strip :: "string \<Rightarrow> string" where
  "py_strip s = rev (dropWhile is_space (rev (dropWhile is_space s)))"

lemma py_strip_id: "\<forall>c\<in>set s. \<not> is_space c \<Longrightarrow> py_strip s = s"
proof -
  assume a: "\<forall>c\<in>set s. \<not> is_space c"
  have d: "dropWhile is_space t = t" if "\<forall>c\<in>set t. \<not> is_space c" for t
    using that by (cases t) auto
  from a show ?thesis by (simp add: py_strip_def d)
qed

definition lower_char :: "char \<Rightarrow> char" where
  "lower_char c = (if 65 \<le> (of_char c :: nat) \<and> (of_char c :: nat) \<le> 90
     then char_of ((of_char c :: nat) + 32) else c)"

definition upper_char :: "char \<Rightarrow> char" where
  "upper_char c = (if 97 \<le> (of_char c :: nat) \<and> (of_char c :: nat) \<le> 122
     then char_of ((of_char c :: nat) - 32) else c)"

definition py_lower :: "string \<Rightarrow> string" where
  "py_lower s = map lower_char s"

definition py_upper :: "string \<Rightarrow> string" where
  "py_upper s = map upper_char s"

definition not_upper :: "char \<Rightarrow> bool" where
  "not_upper c \<longleftrightarrow> \<not> (65 \<le> (of_char c :: nat) \<and> (of_char c :: nat) \<le> 90)"

lemma lower_char_id [simp]: "not_upper c \<Longrightarrow> lower_char c = c"
  by (auto simp: lower_char_def not_upper_def)

lemma py_lower_id: "\<forall>c\<in>set s. not_upper c \<Longrightarrow> py_lower s = s"
  by (simp add: py_lower_def map_idI)

lemma py_lower_append [simp]: "py_lower (s @ t) = py_lower s @ py_lower t"
  by (simp add: py_lower_def)

lemma length_py_lower [simp]: "length (py_lower s) = length s"
  by (simp add: py_lower_def)

section \<open>Decimal numbers\<close>

definition digit_char :: "nat \<Rightarrow> char" where
  "digit_char d = char_of (48 + d)"

definition digit_val :: "char \<Rightarrow> nat option" where
  "digit_val c = (let n = of_char c :: nat in if 48 \<le> n \<and> n \<le> 57 then Some (n - 48) else None)"

lemma digit_val_digit_char [simp]: "d < 10 \<Longrightarrow> digit_val (digit_char d) = Some d"
  by (simp add: digit_val_def digit_char_def Let_def)

lemma digit_val_less: "digit_val c = Some d \<Longrightarrow> d < 10"
  by (auto simp: digit_val_def Let_def split: if_splits)

text \<open>\<open>str(n)\<close>.\<close>

fun show_nat :: "nat \<Rightarrow> string" where
  "show_nat n = (if n < 10 then [digit_char n] else show_nat (n div 10) @ [digit_char (n mod 10)])"

declare show_nat.simps [simp del]

definition show_int :: "int \<Rightarrow> string" where
  "show_int i = (if i < 0 then CHR ''-'' # show_nat (nat (- i)) else show_nat (nat i))"

text \<open>
  \<open>int(s)\<close>: white space around, a sign, decimal digits, single underscores between digits;
  anything else raises \<open>ValueError\<close>.
\<close>

fun digits_val :: "nat \<Rightarrow> bool \<Rightarrow> string \<Rightarrow> nat option" where
  "digits_val acc prev [] = (if prev then Some acc else None)"
| "digits_val acc prev (c # cs) = (case digit_val c of
     Some d \<Rightarrow> digits_val (10 * acc + d) True cs
   | None \<Rightarrow> if c = CHR ''_'' \<and> prev then digits_val acc False cs else None)"

definition py_int :: "string \<Rightarrow> int result" where
  "py_int s =
     (let t = py_strip s;
          (sgn, ds) = (case t of
             c # cs \<Rightarrow> if c = CHR ''-'' then (- 1, cs) else if c = CHR ''+'' then (1, cs) else (1, t)
           | [] \<Rightarrow> (1, t))
      in case digits_val 0 False ds of
           Some n \<Rightarrow> Inr (sgn * int n)
         | None \<Rightarrow> Inl (ValueErr ''invalid literal for int()''))"

definition is_digit :: "char \<Rightarrow> bool" where
  "is_digit c \<longleftrightarrow> digit_val c \<noteq> None"

lemma is_digit_digit_char [simp]: "d < 10 \<Longrightarrow> is_digit (digit_char d)"
  by (simp add: is_digit_def)

lemma show_nat_digits: "\<forall>c\<in>set (show_nat n). is_digit c"
proof (induction n rule: show_nat.induct)
  case (1 n)
  then show ?case by (subst show_nat.simps) auto
qed

lemma show_nat_nonempty [simp]: "show_nat n \<noteq> []"
  by (subst show_nat.simps) simp

lemma digits_val_snoc:
  "digits_val acc p xs = Some m \<Longrightarrow> d < 10 \<Longrightarrow> digits_val acc p (xs @ [digit_char d]) = Some (10 * m + d)"
  by (induction acc p xs rule: digits_val.induct) (auto split: option.splits if_splits)

lemma digits_val_show_nat [simp]: "digits_val 0 p (show_nat n) = Some n"
proof (induction n rule: show_nat.induct)
  case (1 n)
  show ?case
  proof (cases "n < 10")
    case True
    then show ?thesis by (subst show_nat.simps) simp
  next
    case False
    with 1 have "digits_val 0 p (show_nat (n div 10)) = Some (n div 10)" by simp
    then have "digits_val 0 p (show_nat (n div 10) @ [digit_char (n mod 10)]) = Some n"
      by (subst digits_val_snoc) auto
    with False show ?thesis by (subst show_nat.simps) simp
  qed
qed

lemma is_digit_not_space: "is_digit c \<Longrightarrow> \<not> is_space c"
  by (auto simp: is_digit_def digit_val_def is_space_def Let_def split: if_splits)

lemma is_digit_not [simp]: "\<not> is_digit CHR ''-''" "\<not> is_digit CHR ''+''"
  "\<not> is_digit CHR ''/''" "\<not> is_digit CHR ''h''" "\<not> is_digit CHR 0x27" "\<not> is_digit CHR '';''"
  "\<not> is_digit CHR ''<''" "\<not> is_digit CHR ''>''" "\<not> is_digit CHR ''m''" "\<not> is_digit CHR ''*''"
  "\<not> is_digit CHR '',''" "\<not> is_digit CHR '']''"  "\<not> is_digit CHR '')''" "\<not> is_digit CHR ''(''"
  "\<not> is_digit CHR ''{''" "\<not> is_digit CHR ''}''" "\<not> is_digit CHR ''#''" "\<not> is_digit CHR ''[''"
  by (simp_all add: is_digit_def digit_val_def)

lemma py_int_digits:
  assumes "\<forall>c\<in>set s. is_digit c" and "digits_val 0 False s = Some n"
  shows "py_int s = Inr (int n)"
proof -
  have "py_strip s = s" using assms(1) by (intro py_strip_id) (auto dest: is_digit_not_space)
  moreover have "s = [] \<or> (\<exists>c cs. s = c # cs \<and> c \<noteq> CHR ''-'' \<and> c \<noteq> CHR ''+'')"
    using assms(1) by (cases s) auto
  ultimately show ?thesis using assms(2) by (auto simp: py_int_def)
qed

lemma py_int_show_nat [simp]: "py_int (show_nat n) = Inr (int n)"
  by (rule py_int_digits) (simp_all add: show_nat_digits)

lemma show_nat_inj: "show_nat m = show_nat n \<longleftrightarrow> m = n"
  by (metis digits_val_show_nat option.inject)

section \<open>Hexadecimal\<close>

definition hex_digits :: string where
  "hex_digits = ''0123456789abcdef''"

definition hex_char :: "nat \<Rightarrow> char" where
  "hex_char n = hex_digits ! n"

definition hex_val :: "char \<Rightarrow> nat option" where
  "hex_val c = list_index (lower_char c) hex_digits"

text \<open>\<open>binascii.hexlify(b).decode()\<close> and \<open>binascii.unhexlify(s)\<close>, whose error is a \<open>ValueError\<close>.\<close>

fun hexlify :: "bytes \<Rightarrow> string" where
  "hexlify [] = []"
| "hexlify (b # bs) = hex_char (unat b div 16) # hex_char (unat b mod 16) # hexlify bs"

fun unhexlify :: "string \<Rightarrow> bytes result" where
  "unhexlify [] = Inr []"
| "unhexlify [c] = Inl (ValueErr ''Odd-length string'')"
| "unhexlify (c # d # s) = (case (hex_val c, hex_val d) of
     (Some x, Some y) \<Rightarrow> res_bind (unhexlify s) (\<lambda>bs. Inr (of_nat (16 * x + y) # bs))
   | _ \<Rightarrow> Inl (ValueErr ''Non-hexadecimal digit found''))"

lemma hex_digits_facts: "length hex_digits = 16" "distinct hex_digits"
  by (simp_all add: hex_digits_def)

lemma hex_char_cases: "n < 16 \<Longrightarrow> hex_char n \<in> set hex_digits"
  by (simp add: hex_char_def hex_digits_facts)

lemma hex_digits_lower: "c \<in> set hex_digits \<Longrightarrow> not_upper c"
  by (auto simp: hex_digits_def not_upper_def)

lemma hex_val_hex_char [simp]: "n < 16 \<Longrightarrow> hex_val (hex_char n) = Some n"
  using hex_digits_lower [OF hex_char_cases, of n]
  by (simp add: hex_val_def) (simp add: hex_char_def list_index_nth hex_digits_facts)

lemma hexlify_length [simp]: "length (hexlify bs) = 2 * length bs"
  by (induction bs) simp_all

lemma byte_div_16: "unat (b :: byte) div 16 < 16"
  using unat_byte_less [of b] by (simp add: div_less_iff_less_mult)

lemma byte_hex_join: "(of_nat (16 * (unat (b :: byte) div 16) + unat b mod 16) :: byte) = b"
  by (simp only: mult_div_mod_eq of_nat_unat_byte)

lemma unhexlify_hexlify [simp, codec_rt]: "unhexlify (hexlify bs) = Inr bs"
  by (induction bs) (simp_all add: byte_div_16 byte_hex_join del: of_nat_add of_nat_mult)

lemma hexlify_chars: "c \<in> set (hexlify bs) \<Longrightarrow> c \<in> set hex_digits"
  by (induction bs) (auto intro: hex_char_cases simp: byte_div_16)

lemma unhexlify_length: "unhexlify s = Inr bs \<Longrightarrow> length s = 2 * length bs"
  by (induction s arbitrary: bs rule: unhexlify.induct) (auto split: option.splits)

section \<open>Base 64\<close>

definition b64_alphabet :: string where
  "b64_alphabet = ''ABCDEFGHIJKLMNOPQRSTUVWXYZabcdefghijklmnopqrstuvwxyz0123456789+/''"

definition b64_char :: "nat \<Rightarrow> char" where
  "b64_char n = b64_alphabet ! n"

text \<open>Three bytes become four characters of six bits each.\<close>

fun b64encode :: "bytes \<Rightarrow> string" where
  "b64encode [] = []"
| "b64encode [a] = [b64_char (unat a div 4), b64_char (unat a mod 4 * 16), CHR ''='', CHR ''='']"
| "b64encode [a, b] = [b64_char (unat a div 4), b64_char (unat a mod 4 * 16 + unat b div 16),
     b64_char (unat b mod 16 * 4), CHR ''='']"
| "b64encode (a # b # c # s) = [b64_char (unat a div 4), b64_char (unat a mod 4 * 16 + unat b div 16),
     b64_char (unat b mod 16 * 4 + unat c div 64), b64_char (unat c mod 64)] @ b64encode s"

text \<open>
  \<open>base64.b64decode(s)\<close> is \<open>binascii.a2b_base64\<close> in its lenient mode: a character outside the
  alphabet is skipped, and padding that completes a group of four ends the data. \<open>q\<close> is the
  position in the group, \<open>l\<close> the bits left of the last character, \<open>p\<close> the padding seen.
\<close>

fun b64_dec :: "nat \<Rightarrow> nat \<Rightarrow> nat \<Rightarrow> string \<Rightarrow> bytes result" where
  "b64_dec q l p [] = (if q = 0 then Inr [] else Inl (ValueErr ''Incorrect padding''))"
| "b64_dec q l p (ch # cs) =
     (if ch = CHR ''='' then
        (if 2 \<le> q \<and> 4 \<le> q + Suc p then Inr []
         else b64_dec q l (if 2 \<le> q then Suc p else p) cs)
      else case list_index ch b64_alphabet of
        None \<Rightarrow> b64_dec q l p cs
      | Some v \<Rightarrow>
          (if q = 0 then b64_dec 1 v 0 cs
           else if q = 1 then res_bind (b64_dec 2 (v mod 16) 0 cs) (\<lambda>r. Inr (of_nat (l * 4 + v div 16) # r))
           else if q = 2 then res_bind (b64_dec 3 (v mod 4) 0 cs) (\<lambda>r. Inr (of_nat (l * 16 + v div 4) # r))
           else res_bind (b64_dec 0 0 0 cs) (\<lambda>r. Inr (of_nat (l * 64 + v) # r))))"

definition b64decode :: "string \<Rightarrow> bytes result" where
  "b64decode s = b64_dec 0 0 0 s"

lemma length_b64_alphabet: "length b64_alphabet = 64"
  by (simp add: b64_alphabet_def)

lemma distinct_b64_alphabet: "distinct b64_alphabet"
  by (simp add: b64_alphabet_def)

lemma b64_index [simp]: "n < 64 \<Longrightarrow> list_index (b64_char n) b64_alphabet = Some n"
  by (simp add: b64_char_def list_index_nth length_b64_alphabet distinct_b64_alphabet)

lemma b64_char_in: "n < 64 \<Longrightarrow> b64_char n \<in> set b64_alphabet"
  by (simp add: b64_char_def length_b64_alphabet)

lemma b64_char_not_pad [simp]: "n < 64 \<Longrightarrow> b64_char n \<noteq> CHR ''=''"
  using b64_char_in [of n] by (auto simp: b64_alphabet_def)

lemma b64_dec_char:
  assumes "n < 64"
  shows "b64_dec 0 l p (b64_char n # cs) = b64_dec 1 n 0 cs"
    and "b64_dec (Suc 0) l p (b64_char n # cs) =
      res_bind (b64_dec 2 (n mod 16) 0 cs) (\<lambda>r. Inr (of_nat (l * 4 + n div 16) # r))"
    and "b64_dec 2 l p (b64_char n # cs) =
      res_bind (b64_dec 3 (n mod 4) 0 cs) (\<lambda>r. Inr (of_nat (l * 16 + n div 4) # r))"
    and "b64_dec 3 l p (b64_char n # cs) =
      res_bind (b64_dec 0 0 0 cs) (\<lambda>r. Inr (of_nat (l * 64 + n) # r))"
  using assms by simp_all

lemma b64_sextets:
  "unat (a :: byte) div 4 < 64" "unat a mod 4 * 16 < 64"
  "unat a mod 4 * 16 + unat (b :: byte) div 16 < 64" "unat b mod 16 * 4 < 64"
  "unat b mod 16 * 4 + unat (c :: byte) div 64 < 64" "unat c mod 64 < 64"
proof -
  have "unat a div 4 < 64" "unat a mod 4 < 4" "unat b div 16 < 16" "unat b mod 16 < 16"
    "unat c div 64 < 4"
    using unat_byte_less [of a] unat_byte_less [of b] unat_byte_less [of c]
    by (simp_all add: div_less_iff_less_mult)
  then show "unat a div 4 < 64" "unat a mod 4 * 16 < 64" "unat a mod 4 * 16 + unat b div 16 < 64"
    "unat b mod 16 * 4 < 64" "unat b mod 16 * 4 + unat c div 64 < 64" "unat c mod 64 < 64"
    by simp_all
qed

lemma b64_joins:
  "unat (a :: byte) div 4 * 4 + (unat a mod 4 * 16) div 16 = unat a"
  "unat a div 4 * 4 + (unat a mod 4 * 16 + unat (b :: byte) div 16) div 16 = unat a"
  "(unat a mod 4 * 16 + unat b div 16) mod 16 * 16 + (unat b mod 16 * 4) div 4 = unat b"
  "(unat a mod 4 * 16 + unat b div 16) mod 16 * 16 + (unat b mod 16 * 4 + unat (c :: byte) div 64) div 4 = unat b"
  "(unat b mod 16 * 4 + unat c div 64) mod 4 * 64 + unat c mod 64 = unat c"
proof -
  have "unat b div 16 < 16" "unat c div 64 < 4"
    using unat_byte_less [of b] unat_byte_less [of c] by (simp_all add: div_less_iff_less_mult)
  then show "unat a div 4 * 4 + (unat a mod 4 * 16) div 16 = unat a"
    "unat a div 4 * 4 + (unat a mod 4 * 16 + unat b div 16) div 16 = unat a"
    "(unat a mod 4 * 16 + unat b div 16) mod 16 * 16 + (unat b mod 16 * 4) div 4 = unat b"
    "(unat a mod 4 * 16 + unat b div 16) mod 16 * 16 + (unat b mod 16 * 4 + unat c div 64) div 4 = unat b"
    "(unat b mod 16 * 4 + unat c div 64) mod 4 * 64 + unat c mod 64 = unat c"
    by simp_all
qed

lemma b64_dec_pad:
  "b64_dec 2 l 0 (CHR ''='' # CHR ''='' # cs) = Inr []"
  "b64_dec 3 l 0 (CHR ''='' # cs) = Inr []"
  by simp_all

lemma b64decode_b64encode [simp, codec_rt]: "b64decode (b64encode bs) = Inr bs"
proof -
  have "b64_dec 0 l p (b64encode bs) = Inr bs" for l p
    by (induction bs arbitrary: l p rule: b64encode.induct)
      (simp_all only: b64encode.simps append.simps b64_dec_char [OF b64_sextets(1)]
        b64_dec_char [OF b64_sextets(2)] b64_dec_char [OF b64_sextets(3)]
        b64_dec_char [OF b64_sextets(4)] b64_dec_char [OF b64_sextets(5)]
        b64_dec_char [OF b64_sextets(6)] One_nat_def b64_dec_pad b64_joins res_bind_simps
        of_nat_unat_byte b64_dec.simps(1) if_True refl)
  then show ?thesis by (simp add: b64decode_def)
qed

lemma b64encode_chars: "c \<in> set (b64encode bs) \<Longrightarrow> c = CHR ''='' \<or> c \<in> set b64_alphabet"
  by (induction bs rule: b64encode.induct)
    (auto intro: b64_char_in [OF b64_sextets(1)] b64_char_in [OF b64_sextets(2)]
      b64_char_in [OF b64_sextets(3)] b64_char_in [OF b64_sextets(4)]
      b64_char_in [OF b64_sextets(5)] b64_char_in [OF b64_sextets(6)])

lemma py_strip_b64encode [simp]: "py_strip (b64encode bs) = b64encode bs"
proof (rule py_strip_id, rule ballI)
  fix c assume "c \<in> set (b64encode bs)"
  then have "c = CHR ''='' \<or> c \<in> set b64_alphabet" by (rule b64encode_chars)
  then show "\<not> is_space c" by (auto simp: b64_alphabet_def is_space_def)
qed

end
