(* ===== verification/Common.thy ===== *)
theory Common
  imports Errors PyLib
begin

text \<open>
  \<open>hwilib/common.py\<close>: the chains and address types, and the hashes built from the library's. The
  hash functions of \<open>hashlib\<close> and \<open>hmac\<close> are a parameter of the model.
\<close>

section \<open>Enumerations\<close>

datatype Chain = MAIN | TEST | REGTEST | SIGNET | TESTNET4

datatype AddressType = LEGACY | WIT | SH_WIT | TAP

text \<open>\<open>list(AddressType)\<close> iterates the members in the order of their definition.\<close>

instantiation AddressType :: enum
begin
definition "enum_AddressType = [LEGACY, WIT, SH_WIT, TAP]"
definition "enum_all_AddressType P \<longleftrightarrow> P LEGACY \<and> P WIT \<and> P SH_WIT \<and> P TAP"
definition "enum_ex_AddressType P \<longleftrightarrow> P LEGACY \<or> P WIT \<or> P SH_WIT \<or> P TAP"
instance
proof
  show "(UNIV :: AddressType set) = set enum_class.enum"
    using AddressType.exhaust by (auto simp: enum_AddressType_def)
  show "distinct (enum_class.enum :: AddressType list)"
    by (simp add: enum_AddressType_def)
  show "enum_class.enum_all P = Ball UNIV P" for P :: "AddressType \<Rightarrow> bool"
    by (auto simp: enum_all_AddressType_def) (metis AddressType.exhaust)
  show "enum_class.enum_ex P = Bex UNIV P" for P :: "AddressType \<Rightarrow> bool"
    by (auto simp: enum_ex_AddressType_def) (metis AddressType.exhaust)
qed
end

instantiation Chain :: enum
begin
definition "enum_Chain = [MAIN, TEST, REGTEST, SIGNET, TESTNET4]"
definition "enum_all_Chain P \<longleftrightarrow> P MAIN \<and> P TEST \<and> P REGTEST \<and> P SIGNET \<and> P TESTNET4"
definition "enum_ex_Chain P \<longleftrightarrow> P MAIN \<or> P TEST \<or> P REGTEST \<or> P SIGNET \<or> P TESTNET4"
instance
proof
  show "(UNIV :: Chain set) = set enum_class.enum"
    using Chain.exhaust by (auto simp: enum_Chain_def)
  show "distinct (enum_class.enum :: Chain list)"
    by (simp add: enum_Chain_def)
  show "enum_class.enum_all P = Ball UNIV P" for P :: "Chain \<Rightarrow> bool"
    by (auto simp: enum_all_Chain_def) (metis Chain.exhaust)
  show "enum_class.enum_ex P = Bex UNIV P" for P :: "Chain \<Rightarrow> bool"
    by (auto simp: enum_ex_Chain_def) (metis Chain.exhaust)
qed
end

text \<open>The member's name in the source, \<open>str\<close> (the name in lower case) and \<open>argparse\<close>.\<close>

fun chain_name :: "Chain \<Rightarrow> string" where
  "chain_name MAIN = ''MAIN''"
| "chain_name TEST = ''TEST''"
| "chain_name REGTEST = ''REGTEST''"
| "chain_name SIGNET = ''SIGNET''"
| "chain_name TESTNET4 = ''TESTNET4''"

fun addrtype_name :: "AddressType \<Rightarrow> string" where
  "addrtype_name LEGACY = ''LEGACY''"
| "addrtype_name WIT = ''WIT''"
| "addrtype_name SH_WIT = ''SH_WIT''"
| "addrtype_name TAP = ''TAP''"

definition chain_str :: "Chain \<Rightarrow> string" where
  "chain_str c = py_lower (chain_name c)"

definition addrtype_str :: "AddressType \<Rightarrow> string" where
  "addrtype_str a = py_lower (addrtype_name a)"

text \<open>
  \<open>Chain[s.upper()]\<close> looks the member up by name; without one, \<open>argparse\<close> returns the string itself
  (here \<open>Inl\<close>), which \<open>argparse\<close>'s choices then refuse.
\<close>

definition chain_argparse :: "string \<Rightarrow> string + Chain" where
  "chain_argparse s = (case find (\<lambda>c. chain_name c = py_upper s) enum_class.enum of
     Some c \<Rightarrow> Inr c | None \<Rightarrow> Inl s)"

definition addrtype_argparse :: "string \<Rightarrow> string + AddressType" where
  "addrtype_argparse s = (case find (\<lambda>a. addrtype_name a = py_upper s) enum_class.enum of
     Some a \<Rightarrow> Inr a | None \<Rightarrow> Inl s)"

lemma chain_argparse_chain_str [codec_rt]: "chain_argparse (chain_str c) = Inr c"
proof -
  have "\<forall>c. chain_argparse (chain_str c) = Inr c" by code_simp
  then show ?thesis ..
qed

lemma addrtype_argparse_addrtype_str [codec_rt]: "addrtype_argparse (addrtype_str a) = Inr a"
proof -
  have "\<forall>a. addrtype_argparse (addrtype_str a) = Inr a" by code_simp
  then show ?thesis ..
qed

section \<open>Hash functions\<close>

text \<open>
  What the code calls of \<open>hashlib\<close> and \<open>hmac\<close>. What it relies on is the length of the digests.
\<close>

record crypto =
  sha256 :: "bytes \<Rightarrow> bytes"
  ripemd160 :: "bytes \<Rightarrow> bytes"
  hmac_sha512 :: "bytes \<Rightarrow> bytes \<Rightarrow> bytes"

definition crypto_ok :: "crypto \<Rightarrow> bool" where
  "crypto_ok cr \<longleftrightarrow> (\<forall>b. length (sha256 cr b) = 32) \<and> (\<forall>b. length (ripemd160 cr b) = 20)
     \<and> (\<forall>k b. length (hmac_sha512 cr k b) = 64)"

definition hash256 :: "crypto \<Rightarrow> bytes \<Rightarrow> bytes" where
  "hash256 cr s = sha256 cr (sha256 cr s)"

definition hash160 :: "crypto \<Rightarrow> bytes \<Rightarrow> bytes" where
  "hash160 cr s = ripemd160 cr (sha256 cr s)"

lemma length_hash256 [simp]: "crypto_ok cr \<Longrightarrow> length (hash256 cr s) = 32"
  by (simp add: crypto_ok_def hash256_def)

lemma length_hash160 [simp]: "crypto_ok cr \<Longrightarrow> length (hash160 cr s) = 20"
  by (simp add: crypto_ok_def hash160_def)

lemma length_hmac [simp]: "crypto_ok cr \<Longrightarrow> length (hmac_sha512 cr k s) = 64"
  by (simp add: crypto_ok_def)

text \<open>
  A concrete parameter with the right lengths, for the witnesses: the digests are the first bytes
  of the message, padded with zeros.
\<close>

definition pad_to :: "nat \<Rightarrow> bytes \<Rightarrow> bytes" where
  "pad_to n b = take n (b @ replicate n 0)"

definition pad_crypto :: crypto where
  "pad_crypto = \<lparr>sha256 = pad_to 32, ripemd160 = pad_to 20, hmac_sha512 = (\<lambda>k b. pad_to 64 (k @ b))\<rparr>"

lemma length_pad_to [simp]: "length (pad_to n b) = n"
  by (simp add: pad_to_def min_def)

lemma crypto_ok_pad_crypto [simp]: "crypto_ok pad_crypto"
  by (simp add: crypto_ok_def pad_crypto_def)

end
