(* ===== verification/Serialize.thy ===== *)
theory Serialize
  imports Common
begin

text \<open>
  \<open>hwilib/_serialize.py\<close>: Bitcoin's compact sizes, strings, 256 bit integers and vectors, and the
  two signature encodings. The interface every serializable object offers, a writer and a reader
  with a round trip, is the locale \<open>codec\<close>; vectors of any such object are derived from it.
\<close>

section \<open>Compact sizes and strings\<close>

definition ser_compact_size :: "int \<Rightarrow> bytes result" where
  "ser_compact_size sz =
     (if sz < 253 then pack_le 1 sz
      else if sz < 0x10000 then res_concat [pack_le 1 253, pack_le 2 sz]
      else if sz < 0x100000000 then res_concat [pack_le 1 254, pack_le 4 sz]
      else res_concat [pack_le 1 255, pack_le 8 sz])"

definition deser_compact_size :: "int reader" where
  "deser_compact_size =
     rd_bind (rd_unpack 1) (\<lambda>nit.
       if nit = 253 then rd_unpack 2
       else if nit = 254 then rd_unpack 4
       else if nit = 255 then rd_unpack 8
       else rd_ret nit)"

definition deser_string :: "bytes reader" where
  "deser_string = rd_bind deser_compact_size (\<lambda>nit. py_read (nat nit))"

definition ser_string :: "bytes \<Rightarrow> bytes result" where
  "ser_string s = res_concat [ser_compact_size (int (length s)), Inr s]"

section \<open>256 bit integers\<close>

text \<open>The loops over \<open>range(8)\<close> as recursions on the index and on the number of rounds left.\<close>

fun deser_uint256_loop :: "nat \<Rightarrow> nat \<Rightarrow> int \<Rightarrow> int reader" where
  "deser_uint256_loop i 0 r = rd_ret r"
| "deser_uint256_loop i (Suc k) r =
     rd_bind (rd_unpack 4) (\<lambda>t. deser_uint256_loop (Suc i) k (r + push_bit (i * 32) t))"

definition deser_uint256 :: "int reader" where
  "deser_uint256 = deser_uint256_loop 0 8 0"

fun ser_uint256_loop :: "nat \<Rightarrow> int \<Rightarrow> bytes \<Rightarrow> bytes result" where
  "ser_uint256_loop 0 u rs = Inr rs"
| "ser_uint256_loop (Suc k) u rs =
     res_bind (pack_le 4 (u AND 0xFFFFFFFF)) (\<lambda>b. ser_uint256_loop k (drop_bit 32 u) (rs @ b))"

definition ser_uint256 :: "int \<Rightarrow> bytes result" where
  "ser_uint256 u = ser_uint256_loop 8 u []"

text \<open>\<open>struct.unpack("<IIIIIIII", s[:32])\<close> fails unless there are 32 bytes.\<close>

fun uint256_words :: "nat \<Rightarrow> nat \<Rightarrow> bytes \<Rightarrow> int \<Rightarrow> int" where
  "uint256_words i 0 s r = r"
| "uint256_words i (Suc k) s r =
     uint256_words (Suc i) k (drop 4 s) (r + push_bit (i * 32) (int (le_val (take 4 s))))"

definition uint256_from_str :: "bytes \<Rightarrow> int result" where
  "uint256_from_str s =
     (let t = py_slice 0 32 s in if length t = 32 then Inr (uint256_words 0 8 t 0) else Inl StructErr)"

section \<open>Vectors\<close>

definition deser_vector :: "'a reader \<Rightarrow> 'a list reader" where
  "deser_vector c = rd_bind deser_compact_size (\<lambda>nit. rd_rep (nat nit) c)"

definition ser_vector :: "('a \<Rightarrow> bytes result) \<Rightarrow> 'a list \<Rightarrow> bytes result" where
  "ser_vector ser v = res_concat (ser_compact_size (int (length v)) # map ser v)"

definition deser_string_vector :: "bytes list reader" where
  "deser_string_vector = rd_bind deser_compact_size (\<lambda>nit. rd_rep (nat nit) deser_string)"

definition ser_string_vector :: "bytes list \<Rightarrow> bytes result" where
  "ser_string_vector v = res_concat (ser_compact_size (int (length v)) # map ser_string v)"

section \<open>Signatures\<close>

definition ser_sig_der :: "bytes \<Rightarrow> bytes \<Rightarrow> bytes result" where
  "ser_sig_der r s =
     (let r = dropWhile (\<lambda>b. b = 0) r; s = dropWhile (\<lambda>b. b = 0) s in
      res_bind (py_nth r 0) (\<lambda>first.
      let r = (if first AND 128 \<noteq> 0 then 0 # r else r) in
      res_bind (py_nth s 0) (\<lambda>first.
      let s = (if first AND 128 \<noteq> 0 then 0 # s else s);
          total_len = length r + length s + 4
      in res_concat [Inr [0x30], pack_le 1 (int total_len),
           Inr [2], pack_le 1 (int (length r)), Inr r,
           Inr [2], pack_le 1 (int (length s)), Inr s, Inr [1]])))"

definition ser_sig_compact :: "bytes \<Rightarrow> bytes \<Rightarrow> bytes \<Rightarrow> bytes result" where
  "ser_sig_compact r s recid =
     res_bind (unpack_le 1 recid) (\<lambda>rec.
     res_bind (pack_le 1 (27 + 4 + rec)) (\<lambda>prefix. Inr (prefix @ r @ s)))"

section \<open>The interface of a serializable object\<close>

text \<open>
  \<open>Serializable\<close> and \<open>Deserializable\<close> of the source: a writer, a reader and the values for which
  the reader takes back exactly what the writer wrote.
\<close>

locale codec =
  fixes enc :: "'a \<Rightarrow> bytes result"
    and dec :: "'a reader"
    and ok :: "'a \<Rightarrow> bool"
  assumes enc_ok: "ok x \<Longrightarrow> \<exists>bs. enc x = Inr bs"
    and round_trip: "ok x \<Longrightarrow> enc x = Inr bs \<Longrightarrow> dec (bs @ rest) = (Inr x, rest)"
begin

definition encoding :: "'a \<Rightarrow> bytes" where
  "encoding x = (case enc x of Inr bs \<Rightarrow> bs | Inl _ \<Rightarrow> [])"

lemma enc_encoding: "ok x \<Longrightarrow> enc x = Inr (encoding x)"
  using enc_ok [of x] by (auto simp: encoding_def)

lemma dec_encoding: "ok x \<Longrightarrow> dec (encoding x @ rest) = (Inr x, rest)"
  by (rule round_trip) (auto intro: enc_encoding)

lemma prefix_free:
  assumes "ok x" "ok y" "enc x = Inr a" "enc y = Inr b" "a @ r = b @ s"
  shows "x = y \<and> r = s"
  using round_trip [OF assms(1,3), of r] round_trip [OF assms(2,4), of s] assms(5) by simp

lemma rep_encodings:
  "list_all ok xs \<Longrightarrow> rd_rep (length xs) dec (concat (map encoding xs) @ rest) = (Inr xs, rest)"
  by (rule rd_rep_concat) (auto simp: list_all_iff dec_encoding)

lemma concat_encodings:
  "list_all ok xs \<Longrightarrow> res_concat (map enc xs) = Inr (concat (map encoding xs))"
  by (rule res_concat_map_Inr) (auto simp: list_all_iff enc_encoding)

end

subsection \<open>Compact sizes\<close>

definition compact_ok :: "int \<Rightarrow> bool" where
  "compact_ok n \<longleftrightarrow> 0 \<le> n \<and> n < 2 ^ 64"

lemma pack_byte [simp]:
  assumes "0 \<le> n" and "n < 256"
  shows "pack_le 1 n = Inr [of_nat (nat n)]" "pack_le (Suc 0) n = Inr [of_nat (nat n)]"
proof -
  note a = assms
  from a have "nat n < 256" by simp
  then have "le_bytes 1 (nat n) = [of_nat (nat n)]" by simp
  with a show "pack_le 1 n = Inr [of_nat (nat n)]" by (simp add: pack_le_def del: le_bytes.simps)
  then show "pack_le (Suc 0) n = Inr [of_nat (nat n)]" by simp
qed

lemma rd_unpack_byte [simp]:
  "rd_unpack 1 (b # s) = (Inr (int (unat b)), s)"
  "rd_unpack (Suc 0) (b # s) = (Inr (int (unat b)), s)"
  using rd_unpack_append [of 1 "[b]" s] by (simp_all add: unpack_le_def)

lemma rd_unpack_le_bytes [simp]:
  "0 \<le> x \<Longrightarrow> x < 256 ^ n \<Longrightarrow> n < 2 ^ 63 \<Longrightarrow> rd_unpack n (le_bytes n (nat x) @ s) = (Inr x, s)"
  by (simp add: rd_unpack_append unpack_pack_le)

lemma deser_ser_compact_size [codec_rt]:
  assumes "compact_ok n" and "ser_compact_size n = Inr bs"
  shows "deser_compact_size (bs @ rest) = (Inr n, rest)"
proof -
  consider "0 \<le> n" "n < 253" | "253 \<le> n" "n < 0x10000" | "0x10000 \<le> n" "n < 0x100000000"
    | "0x100000000 \<le> n" "n < 2 ^ 64"
    using assms(1) unfolding compact_ok_def by linarith
  then show ?thesis
  proof cases
    case 1
    then have "bs = [of_nat (nat n)]" using assms(2) by (simp add: ser_compact_size_def)
    moreover have "int (unat (of_nat (nat n) :: byte)) = n"
      by (simp only: unat_byte_of_nat) (use 1 in simp)
    ultimately show ?thesis using 1
      by (simp add: deser_compact_size_def rd_bind_def)
  next
    case 2
    then have "bs = 253 # le_bytes 2 (nat n)"
      using assms(2) by (auto simp: ser_compact_size_def pack_le_def split: if_splits)
    with 2 show ?thesis
      by (simp add: deser_compact_size_def rd_bind_def del: le_bytes.simps)
  next
    case 3
    then have "bs = 254 # le_bytes 4 (nat n)"
      using assms(2) by (auto simp: ser_compact_size_def pack_le_def split: if_splits)
    with 3 show ?thesis
      by (simp add: deser_compact_size_def rd_bind_def del: le_bytes.simps)
  next
    case 4
    then have "bs = 255 # le_bytes 8 (nat n)"
      using assms(2) by (auto simp: ser_compact_size_def pack_le_def split: if_splits)
    with 4 show ?thesis
      by (simp add: deser_compact_size_def rd_bind_def del: le_bytes.simps)
  qed
qed

lemma ser_compact_size_ok: "(\<exists>bs. ser_compact_size n = Inr bs) \<longleftrightarrow> compact_ok n"
  by (auto simp: ser_compact_size_def compact_ok_def pack_le_def split: if_splits)

interpretation compact: codec ser_compact_size deser_compact_size compact_ok
  by unfold_locales (auto simp: ser_compact_size_ok intro: deser_ser_compact_size)

lemma ser_compact_size_nonempty: "ser_compact_size n = Inr bs \<Longrightarrow> bs \<noteq> []"
  by (auto simp: ser_compact_size_def pack_le_def split: if_splits)

lemma consumes_compact_size [consumes_intros]: "consumes deser_compact_size"
  unfolding deser_compact_size_def by (intro consumes_intros)

lemma consumes_string [consumes_intros]: "consumes deser_string"
  unfolding deser_string_def by (intro consumes_intros)

lemma deser_compact_size_bounds:
  assumes "deser_compact_size s = (Inr n, s')"
  shows "compact_ok n"
proof -
  obtain k m where "unpack_le k m = Inr n" and "k \<in> {1, 2, 4, 8}"
    using assms by (auto simp: deser_compact_size_def rd_unpack_def rd_bind_eq_Inr split: if_splits)
  then show ?thesis
    using unpack_le_bounds [of k m n] by (auto simp: compact_ok_def)
qed

text \<open>A compact size that was read took at least one byte, and reading an empty stream fails.\<close>

lemma deser_compact_size_shorter:
  assumes "deser_compact_size s = (Inr n, s')"
  shows "length s' < length s"
proof -
  obtain x s1 where x: "rd_unpack 1 s = (Inr x, s1)"
    and r: "(if x = 253 then rd_unpack 2 else if x = 254 then rd_unpack 4
      else if x = 255 then rd_unpack 8 else rd_ret x) s1 = (Inr n, s')"
    using assms by (auto simp: deser_compact_size_def rd_bind_eq_Inr)
  have "length s1 < length s"
    using x by (cases s) (auto simp: rd_unpack_def rd_bind_def py_read_def unpack_le_def)
  moreover have "consumes (if x = 253 then rd_unpack 2 else if x = 254 then rd_unpack 4
      else if x = 255 then rd_unpack 8 else rd_ret x)"
    by (intro consumes_intros)
  from consumesD(3) [OF this r] have "length s' \<le> length s1" .
  ultimately show ?thesis by simp
qed

lemma deser_string_shorter: "deser_string s = (Inr b, s') \<Longrightarrow> length s' < length s"
  by (auto simp: deser_string_def rd_bind_eq_Inr py_read_def split: if_splits
      dest!: deser_compact_size_shorter)

subsection \<open>Strings\<close>

definition string_ok :: "bytes \<Rightarrow> bool" where
  "string_ok s \<longleftrightarrow> length s < 2 ^ 63"

lemma string_ok_compact: "string_ok s \<Longrightarrow> compact_ok (int (length s))"
  by (simp add: string_ok_def compact_ok_def)

interpretation str: codec ser_string deser_string string_ok
proof unfold_locales
  fix s assume "string_ok s"
  then show "\<exists>bs. ser_string s = Inr bs"
    using ser_compact_size_ok [of "int (length s)"] by (auto simp: ser_string_def string_ok_compact)
next
  fix s bs rest assume ok: "string_ok s" and enc: "ser_string s = Inr bs"
  then obtain l where l: "ser_compact_size (int (length s)) = Inr l" and bs: "bs = l @ s"
    by (auto simp: ser_string_def res_concat_Cons)
  have "deser_compact_size (l @ s @ rest) = (Inr (int (length s)), s @ rest)"
    using l ok by (intro compact.round_trip) (auto simp: string_ok_compact)
  then show "deser_string (bs @ rest) = (Inr s, rest)"
    using bs ok by (simp add: deser_string_def rd_bind_def py_read_append string_ok_def)
qed

lemmas [codec_rt] = str.dec_encoding str.enc_encoding compact.dec_encoding compact.enc_encoding

subsection \<open>256 bit integers\<close>

definition uint256_ok :: "int \<Rightarrow> bool" where
  "uint256_ok u \<longleftrightarrow> 0 \<le> u \<and> u < 2 ^ 256"

lemma le_bytes_add: "le_bytes (a + b) x = le_bytes a x @ le_bytes b (x div 256 ^ a)"
  by (induction a arbitrary: x) (simp_all add: div_mult2_eq)

lemma le_bytes_mod: "le_bytes a (x mod 256 ^ a) = le_bytes a x"
proof -
  have "le_val (le_bytes a x) = x mod 256 ^ a" by simp
  then show ?thesis using le_bytes_le_val [of "le_bytes a x"] by simp
qed

lemma ser_uint256_loop_eq:
  "ser_uint256_loop k u rs = Inr (rs @ le_bytes (4 * k) (nat (u mod 2 ^ (32 * k))))"
proof (induction k arbitrary: u rs)
  case 0
  then show ?case by simp
next
  case (Suc k)
  have a: "u AND 0xFFFFFFFF = u mod 2 ^ 32"
    using take_bit_eq_mask [of 32 u] by (simp add: mask_eq_exp_minus_1 take_bit_eq_mod)
  have p: "pack_le 4 (u mod 2 ^ 32) = Inr (le_bytes 4 (nat (u mod 2 ^ 32)))"
    by (simp add: pack_le_def)
  have e: "u mod 2 ^ (32 * Suc k) = u mod 2 ^ 32 + 2 ^ 32 * (u div 2 ^ 32 mod 2 ^ (32 * k))"
    using zmod_zmult2_eq [of "2 ^ (32 * k)" u "2 ^ 32"] by (simp add: power_add)
  let ?x = "nat (u mod 2 ^ 32)" and ?y = "nat (u div 2 ^ 32 mod 2 ^ (32 * k))"
  have x: "?x < 256 ^ 4" by (simp add: nat_less_iff)
  have n: "nat (u mod 2 ^ (32 * Suc k)) = ?x + 256 ^ 4 * ?y"
    by (simp only: e) (simp add: nat_add_distrib nat_mult_distrib)
  have "le_bytes (4 + 4 * k) (?x + 256 ^ 4 * ?y) = le_bytes 4 ?x @ le_bytes (4 * k) ?y"
    using x le_bytes_mod [of 4 "?x + 256 ^ 4 * ?y"] le_bytes_mod [of 4 ?x]
    by (simp add: le_bytes_add del: le_bytes.simps power_numeral)
  then have "le_bytes 4 ?x @ le_bytes (4 * k) ?y = le_bytes (4 * Suc k) (nat (u mod 2 ^ (32 * Suc k)))"
    by (metis n mult_Suc_right)
  then show ?case
    by (simp only: ser_uint256_loop.simps a p res_bind_simps Suc drop_bit_eq_div append.assoc)
qed

lemma ser_uint256_eq: "ser_uint256 u = Inr (le_bytes 32 (nat (u mod 2 ^ 256)))"
  by (simp add: ser_uint256_def ser_uint256_loop_eq del: le_bytes.simps)

lemma deser_uint256_loop_eq:
  "length bs = 4 * k \<Longrightarrow>
    deser_uint256_loop i k r (bs @ rest) = (Inr (r + 2 ^ (32 * i) * int (le_val bs)), rest)"
proof (induction k arbitrary: i r bs)
  case 0
  then show ?case by simp
next
  case (Suc k)
  let ?a = "take 4 bs" and ?b = "drop 4 bs"
  have a: "length ?a = 4" and b: "length ?b = 4 * k" using Suc.prems by simp_all
  have v: "le_val bs = le_val ?a + 2 ^ 32 * le_val ?b"
    using le_val_append [of ?a ?b] a by simp
  have "rd_unpack 4 (?a @ ?b @ rest) = (Inr (int (le_val ?a)), ?b @ rest)"
    using a by (simp add: rd_unpack_append unpack_le_def)
  then have "rd_unpack 4 (bs @ rest) = (Inr (int (le_val ?a)), ?b @ rest)"
    by (metis append.assoc append_take_drop_id)
  then show ?case
    using Suc.IH [OF b] by (simp add: rd_bind_def v push_bit_eq_mult power_add algebra_simps)
qed

lemma deser_uint256_loop_bound:
  "deser_uint256_loop i k r s = (Inr u, s') \<Longrightarrow> \<exists>v. 0 \<le> v \<and> v < 2 ^ (32 * k) \<and> u = r + 2 ^ (32 * i) * v"
proof (induction k arbitrary: i r s)
  case 0
  then show ?case by (intro exI [of _ 0]) (simp add: rd_ret_def)
next
  case (Suc k)
  then obtain t s1 where t: "rd_unpack 4 s = (Inr t, s1)"
    and rest: "deser_uint256_loop (Suc i) k (r + push_bit (i * 32) t) s1 = (Inr u, s')"
    by (auto simp: rd_bind_eq_Inr)
  have b: "0 \<le> t" "t < 2 ^ 32" using t unpack_le_bounds [of 4] by (auto simp: rd_unpack_def rd_bind_eq_Inr)
  from Suc.IH [OF rest] obtain v where v: "0 \<le> v" "v < 2 ^ (32 * k)"
    "u = r + push_bit (i * 32) t + 2 ^ (32 * Suc i) * v" by blast
  have "v + 1 \<le> 2 ^ (32 * k)" using v(2) by simp
  then have "2 ^ 32 * (v + 1) \<le> 2 ^ 32 * 2 ^ (32 * k)" by (rule mult_left_mono) simp
  then have "t + 2 ^ 32 * v < 2 ^ (32 * Suc k)" using b(2) by (simp add: power_add algebra_simps)
  moreover have "u = r + 2 ^ (32 * i) * (t + 2 ^ 32 * v)"
    using v(3) by (simp add: push_bit_eq_mult power_add algebra_simps)
  ultimately show ?case using b(1) v(1) by (intro exI [of _ "t + 2 ^ 32 * v"]) simp
qed

lemma uint256_words_eq:
  "length bs = 4 * k \<Longrightarrow> uint256_words i k bs r = r + 2 ^ (32 * i) * int (le_val bs)"
proof (induction k arbitrary: i r bs)
  case 0
  then show ?case by simp
next
  case (Suc k)
  have v: "le_val bs = le_val (take 4 bs) + 2 ^ 32 * le_val (drop 4 bs)"
    using le_val_append [of "take 4 bs" "drop 4 bs"] Suc.prems by simp
  show ?case
    using Suc.IH [of "drop 4 bs"] Suc.prems
    by (simp add: v push_bit_eq_mult power_add algebra_simps)
qed

lemma uint256_from_str_eq: "length s = 32 \<Longrightarrow> uint256_from_str s = Inr (int (le_val s))"
  by (simp add: uint256_from_str_def py_slice_def uint256_words_eq)

lemma deser_uint256_eq: "length bs = 32 \<Longrightarrow> deser_uint256 (bs @ rest) = (Inr (int (le_val bs)), rest)"
  by (simp add: deser_uint256_def deser_uint256_loop_eq)

lemma ser_uint256_val:
  assumes "uint256_ok u" and "ser_uint256 u = Inr bs"
  shows "length bs = 32 \<and> int (le_val bs) = u"
proof -
  have "u mod 2 ^ 256 = u" and "nat u < 256 ^ 32"
    using assms(1) by (simp_all add: uint256_ok_def nat_less_iff)
  then have "bs = le_bytes 32 (nat u)"
    using assms(2) by (metis ser_uint256_eq sum.inject(2))
  then show ?thesis
    using \<open>nat u < 256 ^ 32\<close> assms(1) by (simp add: uint256_ok_def del: le_bytes.simps)
qed

lemma deser_uint256_ok: "deser_uint256 s = (Inr u, s') \<Longrightarrow> uint256_ok u"
  using deser_uint256_loop_bound [of 0 8 0 s u s'] by (auto simp: deser_uint256_def uint256_ok_def)

lemma deser_vector_all:
  assumes "\<And>s x s'. c s = (Inr x, s') \<Longrightarrow> P x" and "deser_vector c s = (Inr xs, s')"
  shows "list_all P xs"
  using rd_rep_all [of c P] assms by (auto simp: deser_vector_def rd_bind_eq_Inr)

interpretation uint256: codec ser_uint256 deser_uint256 uint256_ok
proof unfold_locales
  fix u show "\<exists>bs. ser_uint256 u = Inr bs" by (simp only: ser_uint256_eq sum.inject) blast
next
  fix u bs rest assume "uint256_ok u" "ser_uint256 u = Inr bs"
  from ser_uint256_val [OF this] show "deser_uint256 (bs @ rest) = (Inr u, rest)"
    by (simp add: deser_uint256_eq)
qed

text \<open>Reading from a string and from a stream agree.\<close>

lemma uint256_from_str_ser [codec_rt]:
  "uint256_ok u \<Longrightarrow> ser_uint256 u = Inr bs \<Longrightarrow> uint256_from_str bs = Inr u"
  by (simp add: ser_uint256_val uint256_from_str_eq)

lemma consumes_uint256_loop: "consumes (deser_uint256_loop i k r)"
  by (induction k arbitrary: i r) (auto intro!: consumes_intros)

lemma consumes_uint256 [consumes_intros]: "consumes deser_uint256"
  by (simp add: deser_uint256_def consumes_uint256_loop)

subsection \<open>Vectors of serializable objects\<close>

lemma consumes_vector [consumes_intros]: "consumes c \<Longrightarrow> consumes (deser_vector c)"
  unfolding deser_vector_def by (intro consumes_intros)

lemma consumes_string_vector [consumes_intros]: "consumes deser_string_vector"
  unfolding deser_string_vector_def by (intro consumes_intros)

context codec
begin

definition vector_ok :: "'a list \<Rightarrow> bool" where
  "vector_ok xs \<longleftrightarrow> length xs < 2 ^ 64 \<and> list_all ok xs"

lemma ser_vector_eq:
  "vector_ok xs \<Longrightarrow> ser_vector enc xs =
     Inr (compact.encoding (int (length xs)) @ concat (map encoding xs))"
  by (simp add: ser_vector_def vector_ok_def res_concat_Cons compact.enc_encoding compact_ok_def
      concat_encodings)

lemma vector_round_trip:
  assumes "vector_ok xs" and "ser_vector enc xs = Inr bs"
  shows "deser_vector dec (bs @ rest) = (Inr xs, rest)"
proof -
  have bs: "bs = compact.encoding (int (length xs)) @ concat (map encoding xs)"
    using assms ser_vector_eq by simp
  have "compact_ok (int (length xs))" "list_all ok xs"
    using assms(1) by (simp_all add: vector_ok_def compact_ok_def)
  then show ?thesis
    by (simp add: bs deser_vector_def rd_bind_def compact.dec_encoding rep_encodings)
qed

lemma vector_codec: "codec (ser_vector enc) (deser_vector dec) vector_ok"
  by unfold_locales (auto simp: ser_vector_eq intro: vector_round_trip)

end

text \<open>The vectors of strings of the source are the vectors of the string codec.\<close>

lemma string_vector_eq:
  "ser_string_vector = ser_vector ser_string" "deser_string_vector = deser_vector deser_string"
  by (simp_all add: fun_eq_iff ser_string_vector_def ser_vector_def deser_string_vector_def
      deser_vector_def)

interpretation str_vec: codec ser_string_vector deser_string_vector str.vector_ok
  unfolding string_vector_eq by (rule str.vector_codec)

section \<open>Properties\<close>

text \<open>The length of the compact size of \<open>n\<close>.\<close>

lemma ser_compact_size_length:
  "ser_compact_size n = Inr bs \<Longrightarrow>
     length bs = (if n < 253 then 1 else if n < 0x10000 then 3 else if n < 0x100000000 then 5 else 9)"
  by (auto simp: ser_compact_size_def pack_le_def split: if_splits)

lemma deser_compact_size_consumed:
  assumes "deser_compact_size s = (Inr n, rest)" and "ser_compact_size n = Inr bs"
  shows "length bs + length rest \<le> length s"
proof -
  obtain b s1 where s: "s = b # s1"
    using deser_compact_size_shorter [OF assms(1)] by (cases s) auto
  have n: "length bs = (if n < 253 then 1 else if n < 0x10000 then 3 else if n < 0x100000000 then 5 else 9)"
    by (rule ser_compact_size_length [OF assms(2)])
  have rd: "k + length rest = length s1 \<and> n < 256 ^ k" if "rd_unpack k s1 = (Inr n, rest)" for k
    using that by (auto simp: rd_unpack_def rd_bind_eq_Inr py_read_def unpack_le_def split: if_splits)
      (metis le_val_less length_take min.absorb2 of_nat_less_iff of_nat_numeral of_nat_power)
  have "unat b < 253 \<or> unat b = 253 \<or> unat b = 254 \<or> unat b = 255"
    using unat_byte_less [of b] by linarith
  then show ?thesis
    using assms(1) n rd [of 2] rd [of 4] rd [of 8]
    by (auto simp: s deser_compact_size_def rd_bind_def split: if_splits)
qed

text \<open>
  Bitcoin's compact size. Every integer of \<open>[0, 2\<^sup>6\<^sup>4)\<close> is written and read back with the rest of the
  stream untouched, and no encoding that reads as this integer is shorter than the one written.
\<close>

theorem compact_size_round_trip:
  assumes "0 \<le> n" and "n < 2 ^ 64"
  shows "\<exists>bs. ser_compact_size n = Inr bs \<and> deser_compact_size (bs @ rest) = (Inr n, rest)
    \<and> (\<forall>s t. deser_compact_size s = (Inr n, t) \<longrightarrow> length bs + length t \<le> length s)"
proof -
  have ok: "compact_ok n" using assms by (simp add: compact_ok_def)
  have "ser_compact_size n = Inr (compact.encoding n)" using ok by (rule compact.enc_encoding)
  moreover have "deser_compact_size (compact.encoding n @ rest) = (Inr n, rest)"
    using ok by (rule compact.dec_encoding)
  ultimately show ?thesis using deser_compact_size_consumed by blast
qed

theorem compact_size_round_trip_witness:
  "\<exists>bs. ser_compact_size 70000 = Inr bs \<and> deser_compact_size (bs @ [7]) = (Inr 70000, [7])
    \<and> (\<forall>s t. deser_compact_size s = (Inr 70000, t) \<longrightarrow> length bs + length t \<le> length s)"
  by (rule compact_size_round_trip) simp_all

subsection \<open>DER signatures\<close>

text \<open>
  The content of a DER integer: big-endian, not negative (the top bit clear) and with no byte that
  could be left out.
\<close>

definition der_int :: "bytes \<Rightarrow> nat \<Rightarrow> bool" where
  "der_int c v \<longleftrightarrow> c \<noteq> [] \<and> be_val c = v \<and> unat (hd c) < 128
     \<and> (\<forall>b bs. c = 0 # b # bs \<longrightarrow> 128 \<le> unat b)"

lemma top_bit: "(b :: byte) AND 128 \<noteq> 0 \<longleftrightarrow> 128 \<le> unat b"
proof -
  have "b AND 128 = 0 \<longleftrightarrow> \<not> bit b 7"
    using and_exp_eq_0_iff_not_bit [of b 7] by simp
  also have "bit b 7 \<longleftrightarrow> bit (unat b) 7"
    by (simp add: bit_unsigned_iff)
  also have "\<dots> \<longleftrightarrow> odd (unat b div 128)"
    using bit_iff_odd [of "unat b" 7] by simp
  also have "unat b div 128 < 2"
    using unat_byte_less [of b] by (simp add: div_less_iff_less_mult)
  then have "odd (unat b div 128) \<longleftrightarrow> 128 \<le> unat b"
    by (cases "unat b div 128") auto
  finally show ?thesis by blast
qed

definition der_content :: "bytes \<Rightarrow> bytes" where
  "der_content r = (let r = dropWhile (\<lambda>b. b = 0) r in if hd r AND 128 \<noteq> 0 then 0 # r else r)"

lemma be_val_nonzero: "be_val r \<noteq> 0 \<Longrightarrow> dropWhile (\<lambda>b. b = 0) r \<noteq> []"
  by (induction r) auto

lemma der_int_content:
  assumes "be_val r \<noteq> 0"
  shows "der_int (der_content r) (be_val r)"
proof -
  obtain b bs where d: "dropWhile (\<lambda>b. b = 0) r = b # bs"
    using be_val_nonzero [OF assms] by (cases "dropWhile (\<lambda>b. b = 0) r") auto
  have "b \<noteq> 0" using d by (metis (mono_tags, lifting) dropWhile_eq_Cons_conv)
  moreover have "be_val (b # bs) = be_val r" using d by (metis be_val_dropWhile)
  ultimately show ?thesis
    using top_bit [of b] by (auto simp: der_int_def der_content_def d Let_def)
qed

lemma ser_sig_der_eq:
  assumes "be_val r \<noteq> 0" and "be_val s \<noteq> 0"
    and "length (der_content r) + length (der_content s) + 4 < 256"
  shows "ser_sig_der r s = Inr ([0x30, of_nat (length (der_content r) + length (der_content s) + 4),
    2, of_nat (length (der_content r))] @ der_content r
    @ [2, of_nat (length (der_content s))] @ der_content s @ [1])"
proof -
  have "dropWhile (\<lambda>b. b = 0) r \<noteq> []" "dropWhile (\<lambda>b. b = 0) s \<noteq> []"
    using assms be_val_nonzero by blast+
  then have "ser_sig_der r s = res_concat [Inr [0x30],
      pack_le 1 (int (length (der_content r) + length (der_content s) + 4)),
      Inr [2], pack_le 1 (int (length (der_content r))), Inr (der_content r),
      Inr [2], pack_le 1 (int (length (der_content s))), Inr (der_content s), Inr [1]]"
    by (simp add: ser_sig_der_def der_content_def Let_def hd_conv_nth)
  with assms(3) show ?thesis by (simp del: of_nat_add)
qed

text \<open>
  The DER encoding of an ECDSA signature. For \<open>r\<close> and \<open>s\<close> that are not zero (leading zero bytes
  allowed) the output is a DER sequence of two integers with these values, each in its unique
  shortest form with the sign bit clear, correct lengths, and the sighash byte at the end.
\<close>

theorem ser_sig_der_canonical:
  assumes "be_val r \<noteq> 0" and "be_val s \<noteq> 0" and "length r \<le> 33" and "length s \<le> 33"
  shows "\<exists>cr cs. der_int cr (be_val r) \<and> der_int cs (be_val s) \<and>
    ser_sig_der r s = Inr ([0x30, of_nat (length cr + length cs + 4), 2, of_nat (length cr)] @ cr
      @ [2, of_nat (length cs)] @ cs @ [1])"
proof -
  have "length (der_content t) \<le> Suc (length t)" for t
    using length_dropWhile_le [of "\<lambda>b. b = 0" t] by (simp add: der_content_def Let_def)
  from this [of r] this [of s] have "length (der_content r) + length (der_content s) + 4 < 256"
    using assms(3,4) by simp
  then show ?thesis
    using assms(1,2) ser_sig_der_eq der_int_content by blast
qed

theorem ser_sig_der_canonical_witness:
  "\<exists>cr cs. der_int cr 200 \<and> der_int cs 7 \<and>
    ser_sig_der [0, 0, 200] [7] = Inr ([0x30, of_nat (length cr + length cs + 4), 2, of_nat (length cr)] @ cr
      @ [2, of_nat (length cs)] @ cs @ [1])"
  using ser_sig_der_canonical [of "[0, 0, 200]" "[7]"] by simp

end
