(* ===== verification/Script.thy ===== *)
theory Script
  imports Serialize
begin

text \<open>
  \<open>hwilib/_script.py\<close>: the classes of output scripts and the multisig parser. An index past the end
  of the script raises \<open>IndexError\<close>, which only \<open>is_opreturn\<close> and \<open>parse_multisig\<close> can do: the other
  predicates test the length first.
\<close>

section \<open>Script classes\<close>

definition is_opreturn :: "bytes \<Rightarrow> bool result" where
  "is_opreturn script = res_bind (py_nth script 0) (\<lambda>b. Inr (b = 0x6a))"

definition is_p2sh :: "bytes \<Rightarrow> bool" where
  "is_p2sh script \<longleftrightarrow>
     length script = 23 \<and> script ! 0 = 0xa9 \<and> script ! 1 = 0x14 \<and> script ! 22 = 0x87"

definition is_p2pkh :: "bytes \<Rightarrow> bool" where
  "is_p2pkh script \<longleftrightarrow>
     length script = 25 \<and> script ! 0 = 0x76 \<and> script ! 1 = 0xa9 \<and> script ! 2 = 0x14
     \<and> script ! 23 = 0x88 \<and> script ! 24 = 0xac"

definition is_p2pk :: "bytes \<Rightarrow> bool" where
  "is_p2pk script \<longleftrightarrow>
     (length script = 35 \<or> length script = 67) \<and> (script ! 0 = 0x21 \<or> script ! 0 = 0x41)
     \<and> last script = 0xac"

definition is_witness :: "bytes \<Rightarrow> bool \<times> int \<times> bytes" where
  "is_witness script =
     (if length script < 4 \<or> 42 < length script then (False, 0, [])
      else if script ! 0 \<noteq> 0 \<and> (unat (script ! 0) < 81 \<or> 96 < unat (script ! 0)) then (False, 0, [])
      else if unat (script ! 1) + 2 = length script then
        (True, if script ! 0 \<noteq> 0 then int (unat (script ! 0)) - 0x50 else 0, drop 2 script)
      else (False, 0, []))"

definition is_p2wpkh :: "bytes \<Rightarrow> bool" where
  "is_p2wpkh script = (case is_witness script of (is_wit, wit_ver, wit_prog) \<Rightarrow>
     if \<not> is_wit then False else if wit_ver \<noteq> 0 then False else length wit_prog = 20)"

definition is_p2wsh :: "bytes \<Rightarrow> bool" where
  "is_p2wsh script = (case is_witness script of (is_wit, wit_ver, wit_prog) \<Rightarrow>
     if \<not> is_wit then False else if wit_ver \<noteq> 0 then False else length wit_prog = 32)"

definition is_p2tr :: "bytes \<Rightarrow> bool" where
  "is_p2tr script = (case is_witness script of (is_wit, wit_ver, wit_prog) \<Rightarrow>
     if \<not> is_wit then False else if wit_ver \<noteq> 1 then False else length wit_prog = 32)"

section \<open>Multisig scripts\<close>

text \<open>The loop over the keys: \<open>Inr\<close> the keys and the offset of the first byte that starts no key.\<close>

function multisig_keys :: "bytes \<Rightarrow> nat \<Rightarrow> bytes list \<Rightarrow> (bytes list \<times> nat) result" where
  "multisig_keys script offset pubkeys =
     (if length script \<le> offset then Inl IndexErr
      else if script ! offset \<noteq> 33 then Inr (pubkeys, offset)
      else multisig_keys script (offset + 1 + 33)
             (pubkeys @ [py_slice (offset + 1) (offset + 1 + 33) script]))"
  by pat_completeness auto
termination
  by (relation "measure (\<lambda>(script, offset, _). length script - offset)") auto

declare multisig_keys.simps [simp del]

definition parse_multisig :: "bytes \<Rightarrow> (int \<times> bytes list) option result" where
  "parse_multisig script =
     res_bind (py_nth script 0) (\<lambda>b.
     let m = int (unat b) - 80 in
     if m < 1 \<or> 15 < m then Inr None
     else
       res_bind (multisig_keys script 1 []) (\<lambda>(pubkeys, offset).
       res_bind (py_nth script offset) (\<lambda>b.
       let n = int (unat b) - 80 in
       if n \<noteq> int (length pubkeys) then Inr None
       else
         res_bind (py_nth script (offset + 1)) (\<lambda>op_cms.
         if op_cms \<noteq> 174 then Inr None else Inr (Some (m, pubkeys))))))"

section \<open>Shapes of the classes\<close>

lemma nth_0_1_conv:
  "length xs = Suc (Suc n) \<Longrightarrow> xs ! 0 = a \<Longrightarrow> xs ! 1 = b \<Longrightarrow> \<exists>ys. xs = a # b # ys \<and> length ys = n"
  by (cases xs; cases "tl xs") auto

lemma is_witness_iff:
  "is_witness script = (True, v, prog) \<longleftrightarrow>
     (\<exists>op. script = op # of_nat (length prog) # prog \<and> 2 \<le> length prog \<and> length prog \<le> 40
        \<and> (op = 0 \<and> v = 0 \<or> 1 \<le> v \<and> v \<le> 16 \<and> op = of_int (80 + v)))"
  (is "?l \<longleftrightarrow> ?r")
proof
  assume l: ?l
  then obtain op len where s: "script = op # len # prog"
    by (cases script; cases "tl script") (auto simp: is_witness_def split: if_splits)
  have "unat len = length prog" and b: "2 \<le> length prog" "length prog \<le> 40"
    using l s by (auto simp: is_witness_def split: if_splits)
  then have "len = of_nat (length prog)" by (metis of_nat_unat_byte)
  note len = this b
  moreover have "op = 0 \<and> v = 0 \<or> 1 \<le> v \<and> v \<le> 16 \<and> op = of_int (80 + v)"
  proof (cases "op = 0")
    case True
    then show ?thesis using l s by (auto simp: is_witness_def split: if_splits)
  next
    case False
    then have v: "v = int (unat op) - 80" and b: "81 \<le> unat op" "unat op \<le> 96"
      using l s by (auto simp: is_witness_def split: if_splits)
    have "1 \<le> v" "v \<le> 16" using v b by linarith+
    moreover have "80 + v = int (unat op)" using v by simp
    then have "op = of_int (80 + v)" by (simp del: of_int_add)
    ultimately show ?thesis by blast
  qed
  ultimately show ?r using s by blast
next
  assume ?r
  then obtain op where s: "script = op # of_nat (length prog) # prog" "2 \<le> length prog" "length prog \<le> 40"
    and op: "op = 0 \<and> v = 0 \<or> 1 \<le> v \<and> v \<le> 16 \<and> op = of_int (80 + v)" by blast
  have u: "int (unat op) = 80 + v \<and> op \<noteq> 0" if "1 \<le> v" "v \<le> 16" "op = of_int (80 + v)"
  proof -
    have "int (unat op) = 80 + v" using that byte_of_int(2) [of "80 + v"] by simp
    moreover from this that have "op \<noteq> 0" by auto
    ultimately show ?thesis by simp
  qed
  have "unat (of_nat (length prog) :: byte) = length prog"
    using s(3) by (simp only: unat_byte_of_nat) simp
  with op show ?l
  proof (elim disjE conjE)
    assume v: "1 \<le> v" "v \<le> 16" "op = of_int (80 + v)"
    from u [OF v] v(1,2) have "int (unat op) - 80 = v" "81 \<le> unat op" "unat op \<le> 96" "op \<noteq> 0" by auto
    with s \<open>unat (of_nat (length prog) :: byte) = length prog\<close> show ?l
      by (simp add: is_witness_def)
  qed (use s in \<open>simp add: is_witness_def\<close>)
qed

lemma is_p2wpkh_iff: "is_p2wpkh s \<longleftrightarrow> (\<exists>h. length h = 20 \<and> s = [0, 20] @ h)"
proof -
  have "is_p2wpkh s \<longleftrightarrow> (\<exists>h. is_witness s = (True, 0, h) \<and> length h = 20)"
    by (cases "is_witness s") (auto simp: is_p2wpkh_def)
  then show ?thesis by (auto simp: is_witness_iff)
qed

lemma is_p2wsh_iff: "is_p2wsh s \<longleftrightarrow> (\<exists>h. length h = 32 \<and> s = [0, 32] @ h)"
proof -
  have "is_p2wsh s \<longleftrightarrow> (\<exists>h. is_witness s = (True, 0, h) \<and> length h = 32)"
    by (cases "is_witness s") (auto simp: is_p2wsh_def)
  then show ?thesis by (auto simp: is_witness_iff)
qed

lemma is_p2tr_iff: "is_p2tr s \<longleftrightarrow> (\<exists>h. length h = 32 \<and> s = [0x51, 32] @ h)"
proof -
  have "is_p2tr s \<longleftrightarrow> (\<exists>h. is_witness s = (True, 1, h) \<and> length h = 32)"
    by (cases "is_witness s") (auto simp: is_p2tr_def)
  then show ?thesis by (auto simp: is_witness_iff)
qed

section \<open>Properties of the classes\<close>

text \<open>
  The shapes the classifiers accept, exactly: a P2SH script is \<open>HASH160 <20> EQUAL\<close>, a P2PKH
  script \<open>DUP HASH160 <20> EQUALVERIFY CHECKSIG\<close>, and the witness programs are the version byte,
  a push of 20 or 32 bytes and nothing else.
\<close>

theorem script_class_shapes:
  "(is_p2sh s \<longleftrightarrow> (\<exists>h. length h = 20 \<and> s = [0xa9, 0x14] @ h @ [0x87]))
   \<and> (is_p2pkh s \<longleftrightarrow> (\<exists>h. length h = 20 \<and> s = [0x76, 0xa9, 0x14] @ h @ [0x88, 0xac]))
   \<and> (is_p2wpkh s \<longleftrightarrow> (\<exists>h. length h = 20 \<and> s = [0, 20] @ h))
   \<and> (is_p2wsh s \<longleftrightarrow> (\<exists>h. length h = 32 \<and> s = [0, 32] @ h))
   \<and> (is_p2tr s \<longleftrightarrow> (\<exists>h. length h = 32 \<and> s = [0x51, 32] @ h))"
proof -
  have sh: "\<exists>h. length h = 20 \<and> s = [0xa9, 0x14] @ h @ [0x87]" if p: "is_p2sh s"
  proof -
    from p obtain a b t where "s = a # b # t" "length t = 21"
      unfolding is_p2sh_def by (cases s; cases "tl s") auto
    moreover from this obtain h c where "t = h @ [c]" "length h = 20"
      by (cases t rule: rev_exhaust) auto
    ultimately show ?thesis using p by (auto simp: is_p2sh_def nth_append)
  qed
  have pkh: "\<exists>h. length h = 20 \<and> s = [0x76, 0xa9, 0x14] @ h @ [0x88, 0xac]" if p: "is_p2pkh s"
  proof -
    from p obtain a b c t where "s = a # b # c # t" "length t = 22"
      unfolding is_p2pkh_def by (cases s; cases "tl s"; cases "tl (tl s)") auto
    moreover from this obtain u d where "t = u @ [d]" "length u = 21"
      by (cases t rule: rev_exhaust) auto
    moreover from this obtain h e where "u = h @ [e]" "length h = 20"
      by (cases u rule: rev_exhaust) auto
    ultimately show ?thesis using p by (auto simp: is_p2pkh_def nth_append)
  qed
  have "is_p2sh ([0xa9, 0x14] @ h @ [0x87])" and "is_p2pkh ([0x76, 0xa9, 0x14] @ h @ [0x88, 0xac])"
    if "length h = 20" for h
    using that by (simp_all add: is_p2sh_def is_p2pkh_def nth_append)
  then show ?thesis
    using sh pkh is_p2wpkh_iff is_p2wsh_iff is_p2tr_iff by blast
qed

text \<open>
  the classes exclude each other: a script is of at most one of the classes P2SH, P2PKH, P2PK and
  witness program, and a witness program of at most one of P2WPKH, P2WSH and P2TR.
\<close>

theorem script_classes_disjoint:
  "length (filter (\<lambda>b. b) [is_p2sh s, is_p2pkh s, is_p2pk s, fst (is_witness s)]) \<le> 1
   \<and> length (filter (\<lambda>b. b) [is_p2wpkh s, is_p2wsh s, is_p2tr s]) \<le> 1"
proof -
  have w: "s ! 0 = 0 \<or> (81 \<le> unat (s ! 0) \<and> unat (s ! 0) \<le> 96)" if "fst (is_witness s)"
    using that by (auto simp: is_witness_def split: if_splits)
  have "\<not> (is_p2sh s \<and> is_p2pkh s)" "\<not> (is_p2sh s \<and> is_p2pk s)" "\<not> (is_p2pkh s \<and> is_p2pk s)"
    by (auto simp: is_p2sh_def is_p2pkh_def is_p2pk_def)
  moreover have "\<not> (is_p2sh s \<and> fst (is_witness s))" "\<not> (is_p2pkh s \<and> fst (is_witness s))"
    "\<not> (is_p2pk s \<and> fst (is_witness s))"
    using w by (auto simp: is_p2sh_def is_p2pkh_def is_p2pk_def)
  moreover have "\<not> (is_p2wpkh s \<and> is_p2wsh s)" "\<not> (is_p2wpkh s \<and> is_p2tr s)" "\<not> (is_p2wsh s \<and> is_p2tr s)"
    by (auto simp: is_p2wpkh_iff is_p2wsh_iff is_p2tr_iff)
  ultimately show ?thesis by auto
qed

section \<open>Properties of the multisig parser\<close>

text \<open>The script \<open>m <key> \<dots> <key> n CHECKMULTISIG\<close>.\<close>

definition key_pushes :: "bytes list \<Rightarrow> bytes" where
  "key_pushes keys = concat (map (\<lambda>k. 33 # k) keys)"

definition multisig_script :: "int \<Rightarrow> bytes list \<Rightarrow> bytes" where
  "multisig_script m keys = of_int (80 + m) # key_pushes keys @ [of_nat (80 + length keys), 174]"

text \<open>The loop as a structural recursion on what is left of the script.\<close>

fun read_pushes :: "bytes \<Rightarrow> (bytes list \<times> bytes) result" where
  "read_pushes [] = Inl IndexErr"
| "read_pushes (b # u) = (if b \<noteq> 33 then Inr ([], b # u)
     else res_bind (read_pushes (drop 33 u)) (\<lambda>(ks, rest). Inr (take 33 u # ks, rest)))"

lemma read_pushes_Inr:
  assumes "read_pushes t = Inr (ks, rest)"
  shows "t = key_pushes ks @ rest \<and> (\<forall>k\<in>set ks. length k = 33) \<and> rest \<noteq> []"
  using assms
proof (induction t arbitrary: ks rest rule: read_pushes.induct)
  case 1
  then show ?case by simp
next
  case (2 b u)
  show ?case
  proof (cases "b = 33")
    case True
    with 2 obtain ks' where ks: "ks = take 33 u # ks'" and r: "read_pushes (drop 33 u) = Inr (ks', rest)"
      by auto
    then have IH: "drop 33 u = key_pushes ks' @ rest" "\<forall>k\<in>set ks'. length k = 33" "rest \<noteq> []"
      using 2 True by blast+
    then have "33 < length u" by (metis append_is_Nil_conv drop_all not_le)
    with IH ks True show ?thesis
      by (simp add: key_pushes_def flip: IH(1)) (metis append_take_drop_id)
  qed (use 2 in \<open>auto simp: key_pushes_def\<close>)
qed

lemma read_pushes_key_pushes:
  assumes "\<forall>k\<in>set keys. length k = 33" and "b \<noteq> 33"
  shows "read_pushes (key_pushes keys @ b # post) = Inr (keys, b # post)"
  using assms by (induction keys) (simp_all add: key_pushes_def)

lemma multisig_keys_eq:
  "multisig_keys s off acc =
     res_bind (read_pushes (drop off s)) (\<lambda>(ks, rest). Inr (acc @ ks, length s - length rest))"
proof (induction s off acc rule: multisig_keys.induct)
  case (1 s off acc)
  show ?case
  proof (cases "off < length s")
    case True
    then have d: "drop off s = s ! off # drop (Suc off) s" by (simp add: Cons_nth_drop_Suc)
    have sl: "py_slice (Suc off) (34 + off) s = take 33 (drop (Suc off) s)"
      by (simp add: py_slice_def)
    show ?thesis
      using 1 True by (subst multisig_keys.simps)
        (auto simp: d sl res_bind_def split: sum.splits)
  qed (subst multisig_keys.simps, simp)
qed

lemma parse_multisig_Inr:
  assumes "parse_multisig s = Inr (Some (m, keys))"
  shows "1 \<le> m \<and> m \<le> 15 \<and> (\<forall>k\<in>set keys. length k = 33) \<and> (\<exists>t. s = multisig_script m keys @ t)"
proof -
  obtain b u where s: "s = b # u" and m: "m = int (unat b) - 80" "1 \<le> m" "m \<le> 15"
    using assms by (cases s) (auto simp: parse_multisig_def Let_def split: if_splits)
  obtain rest where r: "read_pushes u = Inr (keys, rest)"
    using assms s by (auto simp: parse_multisig_def Let_def multisig_keys_eq split: if_splits)
  note u = read_pushes_Inr [OF r]
  then obtain n more where rest: "rest = n # more" by (cases rest) auto
  have r2: "read_pushes (key_pushes keys @ n # more) = Inr (keys, n # more)"
    using r u rest by simp
  have s2: "s = b # key_pushes keys @ n # more" using s u rest by simp
  have n: "int (unat n) - 80 = int (length keys)" and "py_nth (n # more) 1 = Inr 174"
    using assms m by (auto simp: s2 parse_multisig_def Let_def multisig_keys_eq r2 nth_append
        py_nth_def split: if_splits)
  then obtain t where t: "more = 174 # t" by (cases more) auto
  have "of_int (80 + m) = b" using m(1) by simp
  moreover have "unat n = 80 + length keys" using n by linarith
  then have "of_nat (80 + length keys) = n" by (metis of_nat_unat_byte)
  ultimately show ?thesis
    using u m by (auto simp: multisig_script_def s rest t simp del: of_int_add of_nat_add)
qed

text \<open>
  \<open>parse_multisig\<close> inverts the script it describes: for \<open>1 \<le> m \<le> 15\<close> and up to 15 keys of 33 bytes
  it returns \<open>m\<close> and the keys in order. Conversely a script it accepts starts with that script; what
  follows \<open>CHECKMULTISIG\<close> is not looked at.
\<close>

theorem parse_multisig_correct:
  "(1 \<le> m \<and> m \<le> 15 \<and> length keys \<le> 15 \<and> (\<forall>k\<in>set keys. length k = 33) \<longrightarrow>
      parse_multisig (multisig_script m keys @ rest) = Inr (Some (m, keys)))
   \<and> (parse_multisig s = Inr (Some (m', keys')) \<longrightarrow>
      1 \<le> m' \<and> m' \<le> 15 \<and> (\<forall>k\<in>set keys'. length k = 33) \<and> (\<exists>t. s = multisig_script m' keys' @ t))"
proof (intro conjI impI)
  assume a: "1 \<le> m \<and> m \<le> 15 \<and> length keys \<le> 15 \<and> (\<forall>k\<in>set keys. length k = 33)"
  let ?b = "of_nat (80 + length keys) :: byte"
  have nb: "unat ?b = 80 + length keys" using a by (simp only: unat_byte_of_nat) simp
  then have b: "?b \<noteq> 33" by (simp add: word_unat_eq_iff del: of_nat_add)
  have m: "int (unat (of_int (80 + m) :: byte)) = 80 + m" using a byte_of_int(2) [of "80 + m"] by simp
  show "parse_multisig (multisig_script m keys @ rest) = Inr (Some (m, keys))"
    using a b nb m read_pushes_key_pushes [of keys ?b "174 # rest"]
    by (simp add: parse_multisig_def multisig_script_def multisig_keys_eq nth_append
        del: of_int_add of_nat_add)
next
  assume "parse_multisig s = Inr (Some (m', keys'))"
  from parse_multisig_Inr [OF this]
  show "1 \<le> m'" "m' \<le> 15" "\<forall>k\<in>set keys'. length k = 33" "\<exists>t. s = multisig_script m' keys' @ t"
    by blast+
qed

theorem parse_multisig_correct_witness:
  "parse_multisig (multisig_script 1 [replicate 33 2, replicate 33 3] @ [9])
     = Inr (Some (1, [replicate 33 2, replicate 33 3]))"
  using parse_multisig_correct [of 1 "[replicate 33 2, replicate 33 3]" "[9]"] by simp

end
