(* ===== verification/Base58.thy ===== *)
theory Base58
  imports Common
begin

text \<open>
  \<open>hwilib/_base58.py\<close>: Base 58 with and without checksum, and the accessors for extended keys in
  that form. The checksum is the first four bytes of \<open>hash256\<close>, with \<open>hashlib\<close> a parameter.
\<close>

section \<open>Positional numbers\<close>

text \<open>The digits of a number, most significant first, none for zero; and the value of digits.\<close>

fun digs :: "nat \<Rightarrow> nat \<Rightarrow> nat list" where
  "digs B n = (if n = 0 \<or> B < 2 then [] else digs B (n div B) @ [n mod B])"

declare digs.simps [simp del]

definition bval :: "nat \<Rightarrow> nat list \<Rightarrow> nat" where
  "bval B ds = foldl (\<lambda>a d. a * B + d) 0 ds"

lemma bval_Nil [simp]: "bval B [] = 0"
  by (simp add: bval_def)

lemma bval_snoc [simp]: "bval B (ds @ [d]) = bval B ds * B + d"
  by (simp add: bval_def)

lemma bval_Cons: "bval B (d # ds) = d * B ^ length ds + bval B ds"
proof (induction ds rule: rev_induct)
  case Nil
  then show ?case by (simp add: bval_def)
next
  case (snoc x ds)
  have "bval B (d # ds @ [x]) = bval B (d # ds) * B + x"
    using bval_snoc [of B "d # ds" x] by simp
  with snoc show ?case by (simp add: algebra_simps)
qed

lemma bval_append: "bval B (xs @ ys) = bval B xs * B ^ length ys + bval B ys"
  by (induction xs) (simp_all add: bval_Cons algebra_simps power_add)

lemma bval_zeros [simp]: "bval B (replicate k 0 @ ds) = bval B ds"
  by (induction k) (simp_all add: bval_Cons)

lemma bval_zeros' [simp]: "bval B (replicate k 0) = 0"
  using bval_zeros [of B k "[]"] by simp

lemma digs_0 [simp]: "digs B 0 = []"
  by (simp add: digs.simps)

lemma digs_eq_Nil [simp]: "2 \<le> B \<Longrightarrow> digs B n = [] \<longleftrightarrow> n = 0"
  by (subst digs.simps) auto

lemma bval_digs [simp]: "2 \<le> B \<Longrightarrow> bval B (digs B n) = n"
proof (induction B n rule: digs.induct)
  case (1 B n)
  then show ?case by (subst digs.simps) auto
qed

lemma digs_less: "2 \<le> B \<Longrightarrow> d \<in> set (digs B n) \<Longrightarrow> d < B"
proof (induction B n rule: digs.induct)
  case (1 B n)
  then show ?case by (subst (asm) (2) digs.simps) (auto split: if_splits)
qed

lemma hd_digs: "2 \<le> B \<Longrightarrow> 0 < n \<Longrightarrow> hd (digs B n) \<noteq> 0"
proof (induction B n rule: digs.induct)
  case (1 B n)
  show ?case
  proof (cases "n < B")
    case True
    with 1 show ?thesis by (subst digs.simps) simp
  next
    case False
    then have "0 < n div B" using 1 by (simp add: div_greater_zero_iff)
    with 1 False show ?thesis by (subst digs.simps) (auto simp: hd_append)
  qed
qed

lemma digs_hd: "2 \<le> B \<Longrightarrow> digs B n \<noteq> [] \<Longrightarrow> hd (digs B n) \<noteq> 0"
  using hd_digs [of B n] by (cases "n = 0") auto

lemma digs_bval:
  assumes "2 \<le> B" and "\<forall>d\<in>set ds. d < B" and "ds \<noteq> [] \<Longrightarrow> hd ds \<noteq> 0"
  shows "digs B (bval B ds) = ds"
  using assms
proof (induction ds rule: rev_induct)
  case Nil
  then show ?case by simp
next
  case (snoc d ds)
  then have IH: "digs B (bval B ds) = ds" by (cases ds) auto
  have "bval B ds \<noteq> 0" if "ds \<noteq> []"
    using IH that by (metis digs_0)
  then have "bval B ds * B + d \<noteq> 0"
    using snoc.prems by (cases "ds = []") auto
  moreover have "(bval B ds * B + d) div B = bval B ds" "(bval B ds * B + d) mod B = d"
    using snoc.prems by simp_all
  moreover have "\<not> B < 2" using snoc.prems(1) by simp
  ultimately show ?case using IH by (subst digs.simps) (simp only: bval_snoc if_False simp_thms)
qed

lemma be_val_bval: "be_val bs = bval 256 (map unat bs)"
  by (induction bs) (simp_all add: bval_Cons)

section \<open>Encoding\<close>

definition b58_digits :: string where
  "b58_digits = ''123456789ABCDEFGHJKLMNPQRSTUVWXYZabcdefghijkmnopqrstuvwxyz''"

text \<open>\<open>int(h, 16)\<close> for the digits \<open>hexlify\<close> writes, and the division loop, which appends to \<open>temp\<close>.\<close>

definition int_of_hex :: "string \<Rightarrow> nat" where
  "int_of_hex h = foldl (\<lambda>a c. a * 16 + (case hex_val c of Some d \<Rightarrow> d | None \<Rightarrow> 0)) 0 h"

fun b58_loop :: "nat \<Rightarrow> string \<Rightarrow> string" where
  "b58_loop n temp = (if 0 < n then b58_loop (n div 58) (temp @ [b58_digits ! (n mod 58)]) else temp)"

declare b58_loop.simps [simp del]

definition b58_encode :: "bytes \<Rightarrow> string" where
  "b58_encode b =
     (let n = int_of_hex (CHR ''0'' # hexlify b);
          res = rev (b58_loop n []);
          pad = length (takeWhile (\<lambda>c. c = 0) b)
      in replicate pad (b58_digits ! 0) @ res)"

section \<open>Decoding\<close>

fun b58_value :: "nat \<Rightarrow> string \<Rightarrow> nat result" where
  "b58_value n [] = Inr n"
| "b58_value n (c # s) = (case list_index c b58_digits of
     None \<Rightarrow> Inl (BadArgumentError (''Character '' @ [c] @ '' is not a valid base58 character''))
   | Some digit \<Rightarrow> b58_value (n * 58 + digit) s)"

text \<open>\<open>'%x' % n\<close>.\<close>

fun show_hex :: "nat \<Rightarrow> string" where
  "show_hex n = (if n < 16 then [hex_char n] else show_hex (n div 16) @ [hex_char (n mod 16)])"

declare show_hex.simps [simp del]

definition b58_decode :: "string \<Rightarrow> bytes result" where
  "b58_decode s =
     (if s = [] then Inr []
      else res_bind (b58_value 0 s) (\<lambda>n.
        let h = show_hex n; h = (if length h mod 2 \<noteq> 0 then CHR ''0'' # h else h) in
        res_bind (unhexlify h) (\<lambda>res.
        let pad = length (takeWhile (\<lambda>c. c = b58_digits ! 0) (butlast s)) in
        Inr (replicate pad 0 @ res))))"

definition decode_check :: "crypto \<Rightarrow> string \<Rightarrow> bytes result" where
  "decode_check cr s =
     res_bind (b58_decode s) (\<lambda>data.
     let payload = drop_end 4 data; checksum = take_end 4 data; calc_checksum = hash256 cr payload in
     if checksum \<noteq> take 4 calc_checksum then Inl (ValueErr ''Invalid checksum'') else Inr payload)"

definition encode_check :: "crypto \<Rightarrow> bytes \<Rightarrow> string" where
  "encode_check cr b =
     (let checksum = py_slice 0 4 (hash256 cr b); data = b @ checksum in b58_encode data)"

section \<open>Extended keys in Base 58\<close>

definition get_xpub_fingerprint :: "string \<Rightarrow> bytes result" where
  "get_xpub_fingerprint s = res_bind (b58_decode s) (\<lambda>data. Inr (py_slice 5 9 data))"

definition get_xpub_fingerprint_hex :: "string \<Rightarrow> string result" where
  "get_xpub_fingerprint_hex xpub =
     res_bind (b58_decode xpub) (\<lambda>data. Inr (hexlify (py_slice 5 9 data)))"

definition to_address :: "crypto \<Rightarrow> bytes \<Rightarrow> bytes \<Rightarrow> string" where
  "to_address cr b version =
     (let data = version @ b; checksum = py_slice 0 4 (hash256 cr data) in b58_encode (data @ checksum))"

text \<open>\<open>data[-37:-4]\<close> is the last 37 bytes without the last 4.\<close>

definition xpub_to_pub_hex :: "string \<Rightarrow> string result" where
  "xpub_to_pub_hex xpub =
     res_bind (b58_decode xpub) (\<lambda>data.
     Inr (hexlify (py_slice (length data - 37) (length data - 4) data)))"

definition xpub_to_xonly_pub_hex :: "string \<Rightarrow> string result" where
  "xpub_to_xonly_pub_hex xpub =
     res_bind (b58_decode xpub) (\<lambda>data.
     Inr (hexlify (py_slice (length data - 36) (length data - 4) data)))"

definition xpub_main_2_test :: "crypto \<Rightarrow> string \<Rightarrow> string result" where
  "xpub_main_2_test cr xpub =
     res_bind (b58_decode xpub) (\<lambda>data.
     let test_data = [0x04, 0x35, 0x87, 0xCF] @ py_slice 4 (length data - 4) data;
         checksum = py_slice 0 4 (hash256 cr test_data)
     in Inr (b58_encode (test_data @ checksum)))"

section \<open>Correctness of the digit loops\<close>

definition b58_char :: "nat \<Rightarrow> char" where
  "b58_char d = b58_digits ! d"

lemma b58_digits_facts: "length b58_digits = 58" "distinct b58_digits" "b58_digits ! 0 = CHR ''1''"
  by (simp_all add: b58_digits_def)

lemma b58_index_char [simp]: "d < 58 \<Longrightarrow> list_index (b58_char d) b58_digits = Some d"
  by (simp add: b58_char_def list_index_nth b58_digits_facts)

lemma b58_char_0 [simp]: "b58_char 0 = CHR ''1''"
  by (simp add: b58_char_def b58_digits_facts)

lemma b58_char_eq_1 [simp]: "d < 58 \<Longrightarrow> b58_char d = CHR ''1'' \<longleftrightarrow> d = 0"
  by (metis b58_char_0 b58_index_char option.inject zero_less_numeral)

lemma b58_loop_eq: "b58_loop n temp = temp @ rev (map b58_char (digs 58 n))"
proof (induction n temp rule: b58_loop.induct)
  case (1 n temp)
  then show ?case
    by (subst b58_loop.simps, subst digs.simps) (auto simp: b58_char_def)
qed

lemma int_of_hex_snoc: "int_of_hex (h @ [c]) = int_of_hex h * 16 + (case hex_val c of Some d \<Rightarrow> d | None \<Rightarrow> 0)"
  by (simp add: int_of_hex_def)

lemma int_of_hex_append2:
  "int_of_hex (xs @ [hex_char (unat (b::byte) div 16), hex_char (unat b mod 16)]) = int_of_hex xs * 256 + unat b"
proof -
  have "int_of_hex (xs @ [hex_char (unat b div 16), hex_char (unat b mod 16)])
      = (int_of_hex xs * 16 + unat b div 16) * 16 + unat b mod 16"
    using int_of_hex_snoc [of "xs @ [hex_char (unat b div 16)]" "hex_char (unat b mod 16)"]
    by (simp add: int_of_hex_snoc byte_div_16)
  also have "\<dots> = int_of_hex xs * 256 + (unat b div 16 * 16 + unat b mod 16)" by simp
  finally show ?thesis by (simp only: div_mult_mod_eq)
qed

lemma hexlify_append [simp]: "hexlify (xs @ ys) = hexlify xs @ hexlify ys"
  by (induction xs) simp_all

lemma int_of_hex_hexlify: "int_of_hex (CHR ''0'' # hexlify bs) = be_val bs"
proof (induction bs rule: rev_induct)
  case Nil
  then show ?case by (simp add: int_of_hex_def hex_val_def hex_digits_def lower_char_def)
next
  case (snoc b bs)
  have "int_of_hex (CHR ''0'' # hexlify (bs @ [b]))
      = int_of_hex ((CHR ''0'' # hexlify bs) @ [hex_char (unat b div 16), hex_char (unat b mod 16)])"
    by simp
  also have "\<dots> = be_val bs * 256 + unat b" by (simp only: int_of_hex_append2 snoc)
  finally show ?case by (simp add: be_val_append)
qed

lemma b58_encode_eq:
  "b58_encode b = replicate (length (takeWhile (\<lambda>c. c = 0) b)) CHR ''1'' @ map b58_char (digs 58 (be_val b))"
  by (simp add: b58_encode_def int_of_hex_hexlify b58_loop_eq b58_digits_facts rev_map del: hexlify.simps)

lemma b58_value_digits:
  "\<forall>d\<in>set ds. d < 58 \<Longrightarrow> b58_value n (map b58_char ds) = Inr (n * 58 ^ length ds + bval 58 ds)"
  by (induction ds arbitrary: n) (simp_all add: bval_Cons algebra_simps)

lemma show_hex_eq: "show_hex n = (if n = 0 then ''0'' else map hex_char (digs 16 n))"
proof (induction n rule: show_hex.induct)
  case (1 n)
  have z: "hex_char 0 = CHR ''0''" by (simp add: hex_char_def hex_digits_def)
  show ?case
  proof (cases "n < 16")
    case True
    then show ?thesis
      using z by (simp add: show_hex.simps [of n] digs.simps [of 16 n])
  next
    case False
    then have "show_hex (n div 16) = map hex_char (digs 16 (n div 16))"
      using 1 by (simp add: div_greater_zero_iff)
    with False show ?thesis
      by (simp add: show_hex.simps [of n] digs.simps [of 16 n])
  qed
qed

text \<open>Bytes with a first byte that is not zero are determined by their value.\<close>

definition min_bytes :: "nat \<Rightarrow> bytes" where
  "min_bytes n = map of_nat (digs 256 n)"

lemma min_bytes_be_val: "bs = [] \<or> hd bs \<noteq> 0 \<Longrightarrow> min_bytes (be_val bs) = bs"
proof -
  assume a: "bs = [] \<or> hd bs \<noteq> 0"
  have "digs 256 (bval 256 (map unat bs)) = map unat bs"
    using a by (intro digs_bval) (auto simp: hd_map unat_eq_0)
  then show ?thesis by (simp add: min_bytes_def be_val_bval comp_def)
qed

lemma length_min_bytes_pos: "0 < n \<Longrightarrow> min_bytes n \<noteq> [] \<and> hd (min_bytes n) \<noteq> 0"
proof -
  assume n: "0 < n"
  then obtain d ds where ds: "digs 256 n = d # ds" by (cases "digs 256 n") auto
  have "d \<noteq> 0" using hd_digs [OF _ n, of 256] ds by simp
  moreover have "d < 256" using digs_less [of 256 d n] ds by simp
  ultimately have "(of_nat d :: byte) \<noteq> 0"
    by (simp add: word_unat_eq_iff unat_of_nat)
  with ds show ?thesis by (simp add: min_bytes_def)
qed

lemma be_val_min_bytes [simp]: "be_val (min_bytes n) = n"
proof -
  have "map (\<lambda>d. unat (of_nat d :: byte)) (digs 256 n) = map (\<lambda>d. d) (digs 256 n)"
    by (rule map_cong) (auto simp: unat_of_nat dest: digs_less [rotated])
  then show ?thesis by (simp add: be_val_bval min_bytes_def comp_def)
qed

text \<open>Unhexlifying the padded hexadecimal digits of a number gives its shortest bytes.\<close>

lemma unhexlify_map_hex_char:
  "\<forall>d\<in>set ds. d < 16 \<Longrightarrow> even (length ds) \<Longrightarrow>
     \<exists>bs. unhexlify (map hex_char ds) = Inr bs \<and> be_val bs = bval 16 ds \<and> length ds = 2 * length bs
       \<and> (ds \<noteq> [] \<longrightarrow> unat (hd bs) = 16 * hd ds + hd (tl ds))"
proof (induction ds rule: induct_list012)
  case 1
  then show ?case by simp
next
  case (2 x)
  then show ?case by simp
next
  case (3 x y ds)
  then obtain bs where bs: "unhexlify (map hex_char ds) = Inr bs" "be_val bs = bval 16 ds"
    "length ds = 2 * length bs" by auto
  have xy: "x < 16" "y < 16" using 3 by auto
  then have u: "unat (of_nat (16 * x + y) :: byte) = 16 * x + y"
    by (simp only: unat_byte_of_nat) simp
  have p: "(16::nat) ^ length ds = 256 ^ length bs"
    by (simp add: bs(3) power_mult)
  have "bval 16 (x # y # ds) = (16 * x + y) * 256 ^ length bs + be_val bs"
    using bs(2) p by (simp add: bval_Cons algebra_simps)
  with bs u xy show ?case by (simp del: of_nat_add of_nat_mult)
qed

lemma unhexlify_show_hex:
  assumes h: "h = (if length (show_hex n) mod 2 \<noteq> 0 then CHR ''0'' # show_hex n else show_hex n)"
  shows "unhexlify h = Inr (if n = 0 then [0] else min_bytes n)"
proof (cases "n = 0")
  case True
  then show ?thesis
    by (simp add: h show_hex_eq hex_val_def hex_digits_def lower_char_def)
next
  case False
  have z: "hex_char 0 = CHR ''0''" by (simp add: hex_char_def hex_digits_def)
  define ds where "ds = (if odd (length (digs 16 n)) then 0 # digs 16 n else digs 16 n)"
  have hds: "h = map hex_char ds"
    using False z by (auto simp: h show_hex_eq ds_def odd_iff_mod_2_eq_one)
  have "\<forall>d\<in>set ds. d < 16" "even (length ds)" "bval 16 ds = n"
    by (auto simp: ds_def bval_Cons dest: digs_less [rotated])
  then obtain bs where bs: "unhexlify (map hex_char ds) = Inr bs" "be_val bs = n"
    "length ds = 2 * length bs" "ds \<noteq> [] \<longrightarrow> unat (hd bs) = 16 * hd ds + hd (tl ds)"
    using unhexlify_map_hex_char [of ds] by auto
  have ne: "digs 16 n \<noteq> []" "hd (digs 16 n) \<noteq> 0" using False hd_digs [of 16 n] by auto
  then have "ds \<noteq> []" by (auto simp: ds_def)
  with bs(4) ne have "unat (hd bs) \<noteq> 0" by (auto simp: ds_def)
  then have "hd bs \<noteq> 0" by auto
  then have "bs = min_bytes n" using min_bytes_be_val [of bs] bs(2) by simp
  with False bs(1) hds show ?thesis by simp
qed

lemma b58_decode_eq:
  assumes "\<forall>d\<in>set ds. d < 58" and "ds = [] \<or> hd ds \<noteq> 0"
  shows "b58_decode (replicate z CHR ''1'' @ map b58_char ds)
    = Inr (replicate z 0 @ min_bytes (bval 58 ds))"
proof -
  let ?s = "replicate z CHR ''1'' @ map b58_char ds"
  have s: "?s = map b58_char (replicate z 0 @ ds)" by simp
  have "b58_value 0 ?s = Inr (bval 58 ds)"
    unfolding s using assms(1) by (subst b58_value_digits) auto
  moreover have nz: "bval 58 ds = 0 \<longleftrightarrow> ds = []"
    using digs_bval [of 58 ds] assms by auto
  moreover have "length (takeWhile (\<lambda>c. c = CHR ''1'') (butlast ?s)) = (if ds = [] then z - 1 else z)"
  proof (cases ds)
    case Nil
    have "butlast (replicate z CHR ''1'') = replicate (z - 1) CHR ''1''"
      by (cases z) (simp_all flip: replicate_append_same)
    with Nil show ?thesis by simp
  next
    case (Cons d ds')
    then have "takeWhile (\<lambda>c. c = CHR ''1'') (butlast (map b58_char ds)) = []"
      using assms by (cases ds') auto
    with Cons show ?thesis by (simp add: butlast_append takeWhile_append)
  qed
  moreover have "replicate (z - 1) 0 @ [0] = (replicate z 0 :: bytes)" if "z \<noteq> 0"
    using that by (metis Suc_pred' gr0I replicate_Suc replicate_append_same)
  ultimately show ?thesis
    using unhexlify_show_hex [OF refl, of "bval 58 ds"]
    by (auto simp: b58_decode_def b58_digits_facts Let_def min_bytes_def)
qed

section \<open>Properties\<close>

text \<open>A byte string splits into its leading zeros and bytes without leading zero; so does a Base 58 string.\<close>

lemma leading_zeros:
  "bs = replicate (length (takeWhile (\<lambda>c. c = 0) bs)) 0 @ dropWhile (\<lambda>c. c = (0::byte)) bs"
  by (induction bs) auto

lemma leading_ones:
  "s = replicate (length (takeWhile (\<lambda>c. c = CHR ''1'') s)) CHR ''1'' @ dropWhile (\<lambda>c. c = CHR ''1'') s"
  by (induction s) auto

lemma hd_dropWhile_zero: "dropWhile (\<lambda>c. c = 0) bs = [] \<or> hd (dropWhile (\<lambda>c. c = (0::byte)) bs) \<noteq> 0"
  using hd_dropWhile [of "\<lambda>c. c = 0" bs] by blast

lemma b58_decode_encode [codec_rt]: "b58_decode (b58_encode b) = Inr b"
proof -
  let ?z = "length (takeWhile (\<lambda>c. c = 0) b)" and ?r = "dropWhile (\<lambda>c. c = 0) b"
  have v: "be_val ?r = be_val b" by (rule be_val_dropWhile)
  have "b58_decode (b58_encode b) = Inr (replicate ?z 0 @ min_bytes (bval 58 (digs 58 (be_val b))))"
    unfolding b58_encode_eq
  proof (rule b58_decode_eq)
    show "\<forall>d\<in>set (digs 58 (be_val b)). d < 58" by (simp add: digs_less)
    show "digs 58 (be_val b) = [] \<or> hd (digs 58 (be_val b)) \<noteq> 0"
      using digs_hd [of 58 "be_val b"] by linarith
  qed
  also have "min_bytes (bval 58 (digs 58 (be_val b))) = ?r"
    using min_bytes_be_val [OF hd_dropWhile_zero, of b] by (simp add: v)
  also have "replicate ?z 0 @ ?r = b" by (rule leading_zeros [symmetric])
  finally show ?thesis .
qed

lemma b58_chars:
  "set t \<subseteq> set b58_digits \<Longrightarrow> \<exists>ds. t = map b58_char ds \<and> (\<forall>d\<in>set ds. d < 58)"
proof (induction t)
  case (Cons c t)
  then obtain ds where "t = map b58_char ds" "\<forall>d\<in>set ds. d < 58" by auto
  moreover obtain d where "d < 58" "c = b58_char d"
    using Cons.prems by (auto simp: in_set_conv_nth b58_char_def b58_digits_facts)
  ultimately show ?case by (intro exI [of _ "d # ds"]) simp
qed simp

lemma b58_encode_decode:
  assumes "set s \<subseteq> set b58_digits"
  shows "\<exists>b. b58_decode s = Inr b \<and> b58_encode b = s"
proof -
  let ?z = "length (takeWhile (\<lambda>c. c = CHR ''1'') s)" and ?t = "dropWhile (\<lambda>c. c = CHR ''1'') s"
  have "set ?t \<subseteq> set b58_digits" using assms set_dropWhileD by fastforce
  then obtain ds where t: "?t = map b58_char ds" and lt: "\<forall>d\<in>set ds. d < 58"
    using b58_chars by blast
  have hd: "ds = [] \<or> hd ds \<noteq> 0"
  proof (cases ds)
    case (Cons d ds')
    then have "b58_char d \<noteq> CHR ''1''"
      using hd_dropWhile [of "\<lambda>c. c = CHR ''1''" s] t by auto
    then have "d \<noteq> 0" by (metis b58_char_0)
    with Cons show ?thesis by simp
  qed simp
  let ?b = "replicate ?z 0 @ min_bytes (bval 58 ds)"
  have s: "s = replicate ?z CHR ''1'' @ map b58_char ds" using leading_ones [of s] t by simp
  then have dec: "b58_decode s = Inr ?b" using b58_decode_eq [OF lt hd, of ?z] by simp
  have d: "digs 58 (bval 58 ds) = ds" using lt hd by (intro digs_bval) auto
  have bz: "be_val (replicate k 0 @ bs) = be_val bs" for k bs
    by (induction k) simp_all
  have "length (takeWhile (\<lambda>c. c = 0) ?b) = ?z"
  proof (cases "bval 58 ds = 0")
    case True
    then show ?thesis by (simp add: min_bytes_def)
  next
    case False
    then have "min_bytes (bval 58 ds) \<noteq> []" "hd (min_bytes (bval 58 ds)) \<noteq> 0"
      using length_min_bytes_pos by auto
    then show ?thesis by (cases "min_bytes (bval 58 ds)") (auto simp: takeWhile_append)
  qed
  then have "b58_encode ?b = s"
    using s by (simp add: b58_encode_eq bz d)
  with dec show ?thesis by blast
qed

lemma b58_value_invalid: "\<not> set s \<subseteq> set b58_digits \<Longrightarrow> \<exists>m. b58_value n s = Inl (BadArgumentError m)"
proof (induction s arbitrary: n)
  case (Cons c s)
  show ?case
  proof (cases "list_index c b58_digits")
    case (Some d)
    then have "c \<in> set b58_digits" by (metis list_index_None option.distinct(1))
    with Cons Some show ?thesis by auto
  qed auto
qed simp

lemma b58_decode_Inr: "b58_decode s = Inr d \<Longrightarrow> b58_encode d = s"
proof -
  assume d: "b58_decode s = Inr d"
  have "b58_decode s = Inl e" if "b58_value 0 s = Inl e" "s \<noteq> []" for e
    using that by (simp add: b58_decode_def)
  then have "set s \<subseteq> set b58_digits"
    using b58_value_invalid [of s 0] d by (cases "s = []") fastforce+
  from b58_encode_decode [OF this] d show ?thesis by auto
qed

text \<open>
  Base 58 is a bijection between byte strings and strings over its alphabet: decoding what was
  encoded gives back every byte, leading zeros included; a string over the alphabet decodes to bytes
  that encode to this string; any other string raises \<open>BadArgumentError\<close>.
\<close>

theorem base58_bijection:
  "b58_decode (b58_encode b) = Inr b
   \<and> (if set s \<subseteq> set b58_digits then \<exists>b'. b58_decode s = Inr b' \<and> b58_encode b' = s
      else \<exists>m. b58_decode s = Inl (BadArgumentError m))"
proof -
  have "\<exists>m. b58_decode s = Inl (BadArgumentError m)" if "\<not> set s \<subseteq> set b58_digits"
    using b58_value_invalid [OF that, of 0] that by (auto simp: b58_decode_def)
  then show ?thesis using b58_decode_encode b58_encode_decode by auto
qed

lemma b58_encode_inj: "b58_encode a = b58_encode b \<longleftrightarrow> a = b"
  by (metis b58_decode_encode sum.inject(2))

lemma encode_check_eq: "crypto_ok cr \<Longrightarrow> encode_check cr b = b58_encode (b @ take 4 (hash256 cr b))"
  by (simp add: encode_check_def py_slice_def)

text \<open>
  Base58Check. What \<open>encode_check\<close> wrote, \<open>decode_check\<close> accepts and returns; and the only string
  for which \<open>decode_check\<close> returns a payload is the one \<open>encode_check\<close> writes for it, so every change of
  payload or checksum that is not a collision of the four bytes is refused.
\<close>

theorem base58check_round_trip:
  assumes "crypto_ok cr"
  shows "decode_check cr (encode_check cr b) = Inr b
    \<and> (decode_check cr s = Inr p \<longrightarrow> s = encode_check cr p)"
proof
  have l: "length (take 4 (hash256 cr b)) = 4" using assms by simp
  show "decode_check cr (encode_check cr b) = Inr b"
    using l by (simp add: encode_check_eq assms decode_check_def codec_rt Let_def)
  show "decode_check cr s = Inr p \<longrightarrow> s = encode_check cr p"
  proof
    assume c: "decode_check cr s = Inr p"
    then obtain d where d: "b58_decode s = Inr d" and p: "p = drop_end 4 d" "take_end 4 d = take 4 (hash256 cr p)"
      by (auto simp: decode_check_def Let_def split: if_splits)
    then have "p @ take 4 (hash256 cr p) = d" by (metis drop_end_take_end)
    moreover have "b58_encode d = s" using b58_decode_Inr [OF d] by simp
    ultimately show "s = encode_check cr p" by (simp add: encode_check_eq assms)
  qed
qed

theorem base58check_round_trip_witness:
  "decode_check pad_crypto (encode_check pad_crypto [1, 2]) = Inr [1, 2]"
  using base58check_round_trip [OF crypto_ok_pad_crypto, of "[1, 2]"] by simp

text \<open>The accessors on the string of an extended key of 78 bytes.\<close>

lemma xpub_accessors_eq:
  assumes "crypto_ok cr" and "length d = 78"
  shows "b58_decode (encode_check cr d) = Inr (d @ take 4 (hash256 cr d))"
    and "length (d @ take 4 (hash256 cr d)) = 82"
  using assms by (simp_all add: encode_check_eq codec_rt)

text \<open>
  on the Base58Check form of a serialized extended key (78 bytes) the accessors return what their
  names say: bytes 5 to 8 are the parent fingerprint, the last 33 bytes the public key and the last
  32 its x coordinate; and the conversion to testnet replaces the four version bytes, keeps the rest
  and renews the checksum.
\<close>

theorem xpub_accessors:
  assumes "crypto_ok cr" and "length d = 78" and "x = encode_check cr d"
  shows "get_xpub_fingerprint x = Inr (py_slice 5 9 d)
    \<and> get_xpub_fingerprint_hex x = Inr (hexlify (py_slice 5 9 d))
    \<and> xpub_to_pub_hex x = Inr (hexlify (drop 45 d))
    \<and> xpub_to_xonly_pub_hex x = Inr (hexlify (drop 46 d))
    \<and> xpub_main_2_test cr x = Inr (encode_check cr ([0x04, 0x35, 0x87, 0xCF] @ drop 4 d))"
  using xpub_accessors_eq [OF assms(1,2)] assms
  by (simp add: get_xpub_fingerprint_def get_xpub_fingerprint_hex_def xpub_to_pub_hex_def
      xpub_to_xonly_pub_hex_def xpub_main_2_test_def py_slice_def encode_check_def)

theorem xpub_accessors_witness:
  "get_xpub_fingerprint (encode_check pad_crypto (replicate 78 7)) = Inr (replicate 4 7)"
  using xpub_accessors [OF crypto_ok_pad_crypto, of "replicate 78 7"] by (simp add: py_slice_def)

end
