(* ===== verification/Checksum.thy ===== *)
theory Checksum
  imports Prelude
begin

text \<open>
  The registers behind the checksums of Bech32 strings and of descriptors: both shift in five bits at
  a time and add a generator for each bit shifted out. What makes them notice an error is proved once.
\<close>

lemma xor_cancel:
  "a XOR b = a XOR c \<longleftrightarrow> b = c" "b XOR a = c XOR a \<longleftrightarrow> b = c" "a XOR b = 0 \<longleftrightarrow> a = (b :: int)"
  by (auto simp: bit_eq_iff bit_simps)

lemma XOR_below:
  assumes "0 \<le> a" and "a < 2 ^ n" and "0 \<le> b" and "b < 2 ^ n"
  shows "0 \<le> a XOR b \<and> a XOR b < (2 :: int) ^ n"
  using assms by (simp add: XOR_upper)

lemma int_div_less_mult: "s < 32 * 2 ^ n \<Longrightarrow> s div 2 ^ n < (32 :: int)"
proof (rule ccontr)
  assume s: "s < 32 * 2 ^ n" and "\<not> s div 2 ^ n < 32"
  then have "32 * 2 ^ n \<le> s div 2 ^ n * 2 ^ n" by (intro mult_right_mono) simp_all
  also have "\<dots> \<le> s"
  proof -
    have "0 \<le> s mod 2 ^ n" by (rule pos_mod_sign) simp
    then show ?thesis using div_mult_mod_eq [of s "2 ^ n"] by linarith
  qed
  finally show False using s by simp
qed

definition five_bit :: "int \<Rightarrow> bool" where
  "five_bit v \<longleftrightarrow> 0 \<le> v \<and> v < 32"

definition register_ok :: "nat \<Rightarrow> int \<Rightarrow> bool" where
  "register_ok n s \<longleftrightarrow> 0 \<le> s \<and> s < 2 ^ (n + 5)"

locale checksum_register =
  fixes n :: nat
    and gen :: "int \<Rightarrow> int"
    and step :: "int \<Rightarrow> int \<Rightarrow> int"
  assumes step_eq: "step s v = gen (drop_bit n s) XOR push_bit 5 (take_bit n s) XOR v"
    and gen_xor: "gen (a XOR b) = gen a XOR gen b"
    and gen_low: "0 \<le> t \<Longrightarrow> t < 32 \<Longrightarrow> take_bit 5 (gen t) = 0 \<Longrightarrow> t = 0"
    and gen_bound: "0 \<le> t \<Longrightarrow> t < 32 \<Longrightarrow> 0 \<le> gen t \<and> gen t < 2 ^ (n + 5)"
begin

lemma five_bit_register: "five_bit v \<Longrightarrow> register_ok n v"
proof -
  have "(32 :: int) \<le> 2 ^ (n + 5)" by (simp add: power_add)
  then show "five_bit v \<Longrightarrow> register_ok n v" by (auto simp: five_bit_def register_ok_def)
qed

lemma top_bits:
  assumes "register_ok n s"
  shows "0 \<le> drop_bit n s \<and> drop_bit n s < 32"
proof -
  have "s < 32 * 2 ^ n" using assms by (simp add: register_ok_def power_add)
  then have "s div 2 ^ n < 32" by (rule int_div_less_mult)
  then show ?thesis using assms by (simp add: register_ok_def drop_bit_eq_div pos_imp_zdiv_nonneg_iff)
qed

lemma step_ok:
  assumes "register_ok n s" and "five_bit v"
  shows "register_ok n (step s v)"
proof -
  have "take_bit n s < 2 ^ n" by (rule take_bit_int_less_exp)
  then have "0 \<le> push_bit 5 (take_bit n s) \<and> push_bit 5 (take_bit n s) < 2 ^ (n + 5)"
    by (simp add: push_bit_eq_mult power_add)
  then show ?thesis
    using gen_bound top_bits [OF assms(1)] five_bit_register [OF assms(2)] XOR_below
    unfolding step_eq register_ok_def by metis
qed

text \<open>A step loses nothing of the state: the generators are independent in their low five bits.\<close>

lemma step_inj:
  assumes s: "register_ok n s" "register_ok n s'" and eq: "step s v = step s' v"
  shows "s = s'"
proof -
  define d where "d = s XOR s'"
  have d: "register_ok n d" using s XOR_below [of s "n + 5" s'] by (auto simp: d_def register_ok_def)
  have z: "gen (drop_bit n d) XOR push_bit 5 (take_bit n d) = 0"
  proof -
    have "gen (drop_bit n s) XOR push_bit 5 (take_bit n s) = gen (drop_bit n s') XOR push_bit 5 (take_bit n s')"
      using eq by (simp only: step_eq xor_cancel flip: xor.assoc)
    moreover have "gen (drop_bit n d) XOR push_bit 5 (take_bit n d)
        = (gen (drop_bit n s) XOR push_bit 5 (take_bit n s)) XOR (gen (drop_bit n s') XOR push_bit 5 (take_bit n s'))"
      by (simp only: d_def drop_bit_xor take_bit_xor push_bit_xor gen_xor xor.assoc xor.left_commute)
    ultimately show ?thesis by simp
  qed
  have "take_bit 5 (gen (drop_bit n d)) = take_bit 5 (gen (drop_bit n d) XOR push_bit 5 (take_bit n d))"
    by (rule bit_eqI) (auto simp: bit_simps)
  then have "take_bit 5 (gen (drop_bit n d)) = 0" unfolding z by simp
  then have hi: "drop_bit n d = 0" using gen_low top_bits [OF d] by blast
  have "gen 0 = 0" using gen_xor [of 0 0] by simp
  with z hi have "take_bit n d = 0" by (simp add: push_bit_eq_mult)
  with hi have "d = 0" using bits_ident [of n d] by simp
  then show ?thesis by (simp only: d_def xor_cancel)
qed

lemma fold_ok: "register_ok n s \<Longrightarrow> list_all five_bit vs \<Longrightarrow> register_ok n (foldl step s vs)"
  by (induction vs arbitrary: s) (simp_all add: step_ok)

lemma fold_inj:
  "list_all five_bit vs \<Longrightarrow> register_ok n s \<Longrightarrow> register_ok n s' \<Longrightarrow> s \<noteq> s' \<Longrightarrow> foldl step s vs \<noteq> foldl step s' vs"
proof (induction vs arbitrary: s s')
  case (Cons v vs)
  then have "step s v \<noteq> step s' v" using step_inj by blast
  with Cons step_ok show ?case by simp
qed simp

lemma value_changes: "v \<noteq> w \<Longrightarrow> step s v \<noteq> step s w"
  by (simp only: step_eq xor_cancel not_False_eq_True)

text \<open>
  While the difference of two states stays below the bits that are shifted out, a step shifts it up by five bits, and
  the values shifted in cannot cancel it.
\<close>

lemma step_difference:
  assumes "0 \<le> s XOR s'" and "s XOR s' < 2 ^ n"
  shows "step s v XOR step s' w = push_bit 5 (s XOR s') XOR (v XOR w)"
proof -
  have hi: "drop_bit n (s XOR s') = 0" using assms by (simp add: drop_bit_eq_div)
  have lo: "take_bit n (s XOR s') = s XOR s'" by (rule take_bit_int_eq_self) (use assms in simp_all)
  have "step s v XOR step s' w = gen (drop_bit n (s XOR s')) XOR push_bit 5 (take_bit n (s XOR s')) XOR (v XOR w)"
    by (simp only: step_eq drop_bit_xor take_bit_xor push_bit_xor gen_xor xor.assoc xor.left_commute)
  moreover have "gen 0 = 0" using gen_xor [of 0 0] by simp
  ultimately show ?thesis unfolding hi lo by simp
qed

lemma step_pair:
  assumes "0 \<le> s XOR s'" and "s XOR s' < 2 ^ n" and "five_bit v" and "five_bit w" and "step s v = step s' w"
  shows "s = s' \<and> v = w"
proof -
  have "push_bit 5 (s XOR s') XOR (v XOR w) = 0" using step_difference [OF assms(1, 2), of v w] assms(5) by simp
  then have d: "push_bit 5 (s XOR s') = v XOR w" by (simp only: xor_cancel)
  have "0 \<le> v XOR w" "v XOR w < 2 ^ 5" using XOR_below [of v 5 w] assms(3, 4) by (simp_all add: five_bit_def)
  then have "v XOR w = take_bit 5 (v XOR w)" by (rule take_bit_int_eq_self [symmetric])
  also have "\<dots> = 0" unfolding d [symmetric] by (rule bit_eqI) (auto simp: bit_simps)
  finally have "v = w" by (simp only: xor_cancel)
  moreover from this d have "s = s'" by (simp add: push_bit_eq_mult xor_cancel)
  ultimately show ?thesis by simp
qed

text \<open>One value replaced by another always changes the final state.\<close>

lemma replaced_value:
  assumes "register_ok n s" and "list_all five_bit (xs @ v # ys)" and "five_bit w" and "v \<noteq> w"
  shows "foldl step s (xs @ v # ys) \<noteq> foldl step s (xs @ w # ys)"
proof -
  have xs: "register_ok n (foldl step s xs)" using assms by (intro fold_ok) simp_all
  have "foldl step (step (foldl step s xs) v) ys \<noteq> foldl step (step (foldl step s xs) w) ys"
    using assms xs value_changes by (intro fold_inj step_ok) simp_all
  then show ?thesis by simp
qed

end

end
