(* ===== verification/Bech32.thy ===== *)
theory Bech32
  imports Base58 Checksum
begin

text \<open>
  \<open>hwilib/_bech32.py\<close>: the Bech32 and Bech32m checksums, the regrouping of bits and segwit
  addresses. The integers of the source are integers here; the triples and pairs of \<open>None\<close> it returns
  on failure are the \<open>None\<close> of an option.
\<close>

section \<open>The checksum\<close>

definition CHARSET :: string where
  "CHARSET = ''qpzry9x8gf2tvdw0s3jn54khce6mua7l''"

definition BECH32_CONST :: int where "BECH32_CONST = 1"
definition BECH32M_CONST :: int where "BECH32M_CONST = 0x2bc830a3"

datatype Encoding = BECH32 | BECH32M

definition generator :: "int list" where
  "generator = [0x3b6a57b2, 0x26508e6d, 0x1ea119fa, 0x3d4233dd, 0x2a1462b3]"

text \<open>The inner loop over \<open>range(5)\<close>: from the index \<open>i\<close> on, over the generators left.\<close>

fun polymod_gen :: "nat \<Rightarrow> int list \<Rightarrow> int \<Rightarrow> int \<Rightarrow> int" where
  "polymod_gen i [] tp chk = chk"
| "polymod_gen i (g # gs) tp chk =
     polymod_gen (Suc i) gs tp (chk XOR (if drop_bit i tp AND 1 \<noteq> 0 then g else 0))"

definition polymod_step :: "int \<Rightarrow> int \<Rightarrow> int" where
  "polymod_step chk v =
     (let tp = drop_bit 25 chk
      in polymod_gen 0 generator tp (push_bit 5 (chk AND 0x1ffffff) XOR v))"

definition bech32_polymod :: "int list \<Rightarrow> int" where
  "bech32_polymod values = foldl polymod_step 1 values"

definition ord :: "char \<Rightarrow> int" where
  "ord c = of_char c"

definition bech32_hrp_expand :: "string \<Rightarrow> int list" where
  "bech32_hrp_expand hrp = map (\<lambda>x. drop_bit 5 (ord x)) hrp @ [0] @ map (\<lambda>x. ord x AND 31) hrp"

definition bech32_verify_checksum :: "string \<Rightarrow> int list \<Rightarrow> Encoding option" where
  "bech32_verify_checksum hrp data =
     (let check = bech32_polymod (bech32_hrp_expand hrp @ data)
      in if check = BECH32_CONST then Some BECH32
         else if check = BECH32M_CONST then Some BECH32M else None)"

definition bech32_create_checksum :: "Encoding \<Rightarrow> string \<Rightarrow> int list \<Rightarrow> int list" where
  "bech32_create_checksum encoding hrp data =
     (let values = bech32_hrp_expand hrp @ data;
          const = (if encoding = BECH32M then BECH32M_CONST else BECH32_CONST);
          polymod = bech32_polymod (values @ [0, 0, 0, 0, 0, 0]) XOR const
      in map (\<lambda>i. drop_bit (5 * (5 - i)) polymod AND 31) [0..<6])"

section \<open>Strings\<close>

definition bech32_encode :: "Encoding \<Rightarrow> string \<Rightarrow> int list \<Rightarrow> string result" where
  "bech32_encode encoding hrp data =
     (let combined = data @ bech32_create_checksum encoding hrp data
      in res_bind (res_map (py_index CHARSET) combined) (\<lambda>s. Inr (hrp @ ''1'' @ s)))"

definition bech32_decode :: "string \<Rightarrow> (Encoding \<times> string \<times> int list) option" where
  "bech32_decode bech =
     (if (\<exists>x\<in>set bech. ord x < 33 \<or> 126 < ord x) \<or> (py_lower bech \<noteq> bech \<and> py_upper bech \<noteq> bech) then None
      else
        let bech = py_lower bech in
        case list_rindex CHR ''1'' bech of
          None \<Rightarrow> None
        | Some pos \<Rightarrow>
            if pos < 1 \<or> length bech < pos + 7 \<or> 90 < length bech then None
            else if \<not> (\<forall>x\<in>set (drop (pos + 1) bech). x \<in> set CHARSET) then None
            else
              let hrp = take pos bech;
                  data = map (\<lambda>x. case list_index x CHARSET of Some i \<Rightarrow> int i | None \<Rightarrow> - 1) (drop (pos + 1) bech)
              in case bech32_verify_checksum hrp data of
                   None \<Rightarrow> None
                 | Some encoding \<Rightarrow> Some (encoding, hrp, drop_end 6 data))"

section \<open>Regrouping bits\<close>

text \<open>
  The inner loop of \<open>convertbits\<close> emits groups while there are enough bits; with \<open>tobits = 0\<close>, which no
  caller passes, it would not end, and the model stops.
\<close>

function emit_groups :: "nat \<Rightarrow> int \<Rightarrow> int \<Rightarrow> nat \<Rightarrow> int list \<Rightarrow> nat \<times> int list" where
  "emit_groups tobits maxv acc bits ret =
     (if tobits \<le> bits \<and> 0 < tobits
      then emit_groups tobits maxv acc (bits - tobits) (ret @ [drop_bit (bits - tobits) acc AND maxv])
      else (bits, ret))"
  by pat_completeness auto
termination
  by (relation "measure (\<lambda>(tobits, maxv, acc, bits, ret). bits)") auto

declare emit_groups.simps [simp del]

fun convertbits_loop ::
    "nat \<Rightarrow> nat \<Rightarrow> int list \<Rightarrow> int \<Rightarrow> nat \<Rightarrow> int list \<Rightarrow> (int \<times> nat \<times> int list) option" where
  "convertbits_loop frombits tobits [] acc bits ret = Some (acc, bits, ret)"
| "convertbits_loop frombits tobits (v # data) acc bits ret =
     (if v < 0 \<or> drop_bit frombits v \<noteq> 0 then None
      else
        let acc = (push_bit frombits acc OR v) AND (2 ^ (frombits + tobits - 1) - 1);
            (bits, ret) = emit_groups tobits (2 ^ tobits - 1) acc (bits + frombits) ret
        in convertbits_loop frombits tobits data acc bits ret)"

definition convertbits :: "int list \<Rightarrow> nat \<Rightarrow> nat \<Rightarrow> bool \<Rightarrow> int list option" where
  "convertbits data frombits tobits pad =
     (case convertbits_loop frombits tobits data 0 0 [] of
        None \<Rightarrow> None
      | Some (acc, bits, ret) \<Rightarrow>
          if pad then
            (if bits \<noteq> 0 then Some (ret @ [push_bit (tobits - bits) acc AND (2 ^ tobits - 1)]) else Some ret)
          else if frombits \<le> bits \<or> push_bit (tobits - bits) acc AND (2 ^ tobits - 1) \<noteq> 0 then None
          else Some ret)"

section \<open>Segwit addresses\<close>

definition segwit_decode :: "string \<Rightarrow> string \<Rightarrow> (int \<times> int list) option result" where
  "segwit_decode hrp addr =
     (case bech32_decode addr of
        None \<Rightarrow> Inr None
      | Some (encoding, hrpgot, data) \<Rightarrow>
          if hrpgot \<noteq> hrp then Inr None
          else
            case convertbits (drop 1 data) 5 8 False of
              None \<Rightarrow> Inr None
            | Some decoded \<Rightarrow>
                if length decoded < 2 \<or> 40 < length decoded then Inr None
                else
                  res_bind (py_nth data 0) (\<lambda>ver.
                  if 16 < ver then Inr None
                  else if ver = 0 \<and> length decoded \<noteq> 20 \<and> length decoded \<noteq> 32 then Inr None
                  else if (ver = 0 \<and> encoding \<noteq> BECH32) \<or> (ver \<noteq> 0 \<and> encoding \<noteq> BECH32M) then Inr None
                  else Inr (Some (ver, decoded))))"

definition segwit_encode :: "string \<Rightarrow> int \<Rightarrow> bytes \<Rightarrow> string option result" where
  "segwit_encode hrp witver witprog =
     (let encoding = (if witver = 0 then BECH32 else BECH32M)
      in case convertbits (map (\<lambda>b. int (unat b)) witprog) 8 5 True of
           None \<Rightarrow> Inr None
         | Some conv_bits \<Rightarrow>
             res_bind (bech32_encode encoding hrp (witver # conv_bits)) (\<lambda>ret.
             res_bind (segwit_decode hrp ret) (\<lambda>d. if d = None then Inr None else Inr (Some ret))))"

section \<open>The checksum is linear\<close>

text \<open>The effect of the five generators, as a function of the top bits.\<close>

definition gen_of :: "int \<Rightarrow> int" where
  "gen_of tp = polymod_gen 0 generator tp 0"

lemma polymod_gen_xor: "polymod_gen i gs tp (a XOR b) = polymod_gen i gs tp a XOR b"
  by (induction gs arbitrary: i a b) (simp_all add: xor.assoc xor.commute xor.left_commute)

lemma polymod_step_eq:
  "polymod_step chk v = gen_of (drop_bit 25 chk) XOR push_bit 5 (take_bit 25 chk) XOR v"
proof -
  have m: "chk AND 0x1ffffff = take_bit 25 chk"
    by (simp add: take_bit_eq_mask mask_eq_exp_minus_1)
  have "polymod_gen 0 generator t (0 XOR x) = gen_of t XOR x" for t x
    by (simp only: polymod_gen_xor gen_of_def)
  then show ?thesis by (simp add: polymod_step_def m Let_def xor.assoc)
qed

text \<open>A difference below bit 25 passes through a step as a shift.\<close>

lemma polymod_step_low:
  assumes "0 \<le> d" and "d < 2 ^ 25"
  shows "polymod_step (s XOR d) (v XOR w) = polymod_step s v XOR (push_bit 5 d XOR w)"
proof -
  have "drop_bit 25 d = 0" "take_bit 25 d = d"
    using assms by (simp_all add: drop_bit_eq_div take_bit_int_eq_self)
  then show ?thesis
    by (simp add: polymod_step_eq drop_bit_xor take_bit_xor push_bit_xor xor.assoc xor.commute xor.left_commute)
qed

text \<open>The value six groups of five bits form.\<close>

definition pack5 :: "int list \<Rightarrow> int" where
  "pack5 ws = foldl (\<lambda>d w. push_bit 5 d XOR w) 0 ws"

lemma pack5_bound: "list_all five_bit ws \<Longrightarrow> 0 \<le> pack5 ws \<and> pack5 ws < 32 ^ length ws"
proof (induction ws rule: rev_induct)
  case Nil
  then show ?case by (simp add: pack5_def)
next
  case (snoc w ws)
  then have IH: "0 \<le> pack5 ws" "pack5 ws < 32 ^ length ws" and w: "0 \<le> w" "w < 32"
    by (simp_all add: five_bit_def)
  have e: "pack5 (ws @ [w]) = (pack5 ws * 32) XOR w" by (simp add: pack5_def push_bit_eq_mult)
  have p: "(32 :: int) ^ length (ws @ [w]) = 2 ^ (5 * length ws + 5)"
    by (simp add: power_add power_mult)
  have "pack5 ws * 32 < 32 ^ length (ws @ [w])" using IH by simp
  moreover have "w < 32 ^ length (ws @ [w])"
  proof -
    have "w < 32 * 1" using w by simp
    also have "\<dots> \<le> 32 * 32 ^ length ws" by (intro mult_left_mono) simp_all
    finally show ?thesis by simp
  qed
  ultimately show ?case
    unfolding e p using IH w XOR_upper [of "pack5 ws * 32" "5 * length ws + 5" w] by simp
qed

lemma polymod_append_low:
  assumes "list_all five_bit ws" and "length ws \<le> 6"
  shows "foldl polymod_step s ws = foldl polymod_step s (replicate (length ws) 0) XOR pack5 ws"
  using assms
proof (induction ws rule: rev_induct)
  case Nil
  then show ?case by (simp add: pack5_def)
next
  case (snoc w ws)
  let ?z = "foldl polymod_step s (replicate (length ws) 0)"
  have b: "0 \<le> pack5 ws" "pack5 ws < 32 ^ length ws"
    using pack5_bound snoc.prems by auto
  have "(32 :: int) ^ length ws \<le> 32 ^ 5" using snoc.prems by (intro power_increasing) auto
  with b have "pack5 ws < 2 ^ 25" by simp
  then have "polymod_step (?z XOR pack5 ws) (0 XOR w) = polymod_step ?z 0 XOR (push_bit 5 (pack5 ws) XOR w)"
    using b by (intro polymod_step_low) auto
  moreover have "foldl polymod_step s (replicate (length (ws @ [w])) 0) = polymod_step ?z 0"
    by (simp flip: replicate_append_same)
  ultimately show ?case
    using snoc by (simp add: pack5_def)
qed

lemma pack5_checksum:
  assumes "0 \<le> p" and "p < 2 ^ 30"
  shows "pack5 (map (\<lambda>i. drop_bit (5 * (5 - i)) p AND 31) [0..<6]) = p"
proof -
  have m: "x AND 31 = take_bit 5 x" for x :: int
    by (simp add: take_bit_eq_mask mask_eq_exp_minus_1)
  have step: "push_bit 5 (drop_bit (5 + k) p) XOR take_bit 5 (drop_bit k p) = drop_bit k p" for k
  proof -
    have "push_bit 5 (drop_bit 5 q) XOR take_bit 5 q = q" for q :: int
      by (rule bit_eqI) (auto simp: bit_simps)
    from this [of "drop_bit k p"] show ?thesis by (simp add: drop_bit_drop_bit add.commute)
  qed
  have tp: "take_bit 5 (drop_bit 25 p) = drop_bit 25 p"
    using assms by (intro take_bit_int_eq_self) (simp_all add: drop_bit_eq_div div_less_iff_less_mult)
  have l: "[0..<6] = [0, 1, 2, 3, 4, 5 :: nat]" by (simp add: upt_conv_Cons)
  show ?thesis
    using step [of 20] step [of 15] step [of 10] step [of 5] step [of 0] tp
    by (simp add: l pack5_def m)
qed

lemma polymod_gen_bound:
  assumes "\<forall>g\<in>set gs. 0 \<le> g \<and> g < 2 ^ 30" and "0 \<le> c" and "c < 2 ^ 30"
  shows "0 \<le> polymod_gen i gs t c \<and> polymod_gen i gs t c < 2 ^ 30"
  using assms
proof (induction gs arbitrary: i c)
  case Nil
  then show ?case by simp
next
  case (Cons g gs)
  let ?h = "if drop_bit i t AND 1 \<noteq> 0 then g else 0"
  have "0 \<le> ?h" "?h < 2 ^ 30" using Cons.prems by auto
  then have "0 \<le> c XOR ?h \<and> c XOR ?h < 2 ^ 30" using Cons.prems by (intro XOR_below) auto
  with Cons show ?case by simp
qed

lemma polymod_step_bound:
  assumes "0 \<le> v" and "v < 2 ^ 30"
  shows "0 \<le> polymod_step s v \<and> polymod_step s v < 2 ^ 30"
proof -
  have g: "\<forall>g\<in>set generator. 0 \<le> g \<and> g < 2 ^ 30" by (simp add: generator_def)
  have m: "s AND 0x1ffffff = take_bit 25 s"
    by (simp add: take_bit_eq_mask mask_eq_exp_minus_1)
  have "take_bit 25 s < 2 ^ 25" by (rule take_bit_int_less_exp)
  then have "0 \<le> push_bit 5 (take_bit 25 s) \<and> push_bit 5 (take_bit 25 s) < 2 ^ 30"
    by (simp add: push_bit_eq_mult)
  then have "0 \<le> push_bit 5 (take_bit 25 s) XOR v \<and> push_bit 5 (take_bit 25 s) XOR v < 2 ^ 30"
    using assms by (intro XOR_below) auto
  then show ?thesis
    unfolding polymod_step_def Let_def m by (intro polymod_gen_bound [OF g]) auto
qed

lemma polymod_bound:
  assumes "0 \<le> s" and "s < 2 ^ 30" and "list_all five_bit vs"
  shows "0 \<le> foldl polymod_step s vs \<and> foldl polymod_step s vs < 2 ^ 30"
  using assms
proof (induction vs arbitrary: s)
  case Nil
  then show ?case by simp
next
  case (Cons v vs)
  then have "0 \<le> polymod_step s v \<and> polymod_step s v < 2 ^ 30"
    by (intro polymod_step_bound) (auto simp: five_bit_def)
  with Cons show ?case by simp
qed

lemma five_bit_and [simp]: "five_bit (x AND 31)"
proof -
  have "x AND 31 = take_bit 5 x" by (simp add: take_bit_eq_mask mask_eq_exp_minus_1)
  then show ?thesis using take_bit_int_less_exp [of 5 x] by (simp add: five_bit_def)
qed

lemma ord_bounds [simp]: "0 \<le> ord c" "ord c < 256"
  by (simp_all add: ord_def of_char_def)

lemma five_bit_hrp_expand [simp]: "list_all five_bit (bech32_hrp_expand hrp)"
proof -
  have "five_bit (drop_bit 5 (ord c))" for c
  proof -
    have "ord c div 32 < 32" "0 \<le> ord c div 32"
      using ord_bounds [of c] by (simp_all add: div_less_iff_less_mult del: ord_bounds)
    then show ?thesis by (simp add: five_bit_def drop_bit_eq_div)
  qed
  moreover have "five_bit 0" by (simp add: five_bit_def)
  ultimately show ?thesis by (auto simp: bech32_hrp_expand_def list_all_iff)
qed

lemma five_bit_zeros [simp]: "list_all five_bit (replicate n 0)"
  by (simp add: five_bit_def list_all_iff)

text \<open>The remainder of a message padded with six zero groups, and the constant of its encoding.\<close>

definition bech32_const :: "Encoding \<Rightarrow> int" where
  "bech32_const encoding = (if encoding = BECH32M then BECH32M_CONST else BECH32_CONST)"

definition bech32_residue :: "Encoding \<Rightarrow> string \<Rightarrow> int list \<Rightarrow> int" where
  "bech32_residue encoding hrp data =
     bech32_polymod (bech32_hrp_expand hrp @ data @ replicate 6 0) XOR bech32_const encoding"

lemma residue_bound:
  assumes "list_all five_bit data"
  shows "0 \<le> bech32_residue e hrp data \<and> bech32_residue e hrp data < 2 ^ 30"
proof -
  have c: "0 \<le> bech32_const e" "bech32_const e < 2 ^ 30"
    by (simp_all add: bech32_const_def BECH32_CONST_def BECH32M_CONST_def)
  have "0 \<le> bech32_polymod (bech32_hrp_expand hrp @ data @ replicate 6 0)
      \<and> bech32_polymod (bech32_hrp_expand hrp @ data @ replicate 6 0) < 2 ^ 30"
    unfolding bech32_polymod_def using assms
    by (intro polymod_bound) simp_all
  with c show ?thesis unfolding bech32_residue_def by (intro XOR_below) auto
qed

lemma create_checksum_eq:
  "bech32_create_checksum e hrp data = map (\<lambda>i. drop_bit (5 * (5 - i)) (bech32_residue e hrp data) AND 31) [0..<6]"
  by (simp add: bech32_create_checksum_def bech32_residue_def bech32_const_def Let_def numeral_eq_Suc)

lemma create_checksum_facts [simp]:
  "length (bech32_create_checksum e hrp data) = 6"
  "list_all five_bit (bech32_create_checksum e hrp data)"
  by (simp_all add: create_checksum_eq list_all_iff)

lemma verify_checksum_iff:
  assumes d: "list_all five_bit data" and c: "list_all five_bit cs" and l: "length cs = 6"
  shows "bech32_verify_checksum hrp (data @ cs) = Some e \<longleftrightarrow> pack5 cs = bech32_residue e hrp data"
proof -
  let ?s = "foldl polymod_step 1 (bech32_hrp_expand hrp @ data)"
  let ?z = "foldl polymod_step ?s (replicate 6 0)"
  have "foldl polymod_step ?s cs = ?z XOR pack5 cs"
    using polymod_append_low [OF c, of ?s] l by simp
  then have p: "bech32_polymod (bech32_hrp_expand hrp @ data @ cs) = ?z XOR pack5 cs"
    by (simp add: bech32_polymod_def)
  have r: "bech32_residue e hrp data = ?z XOR bech32_const e"
    by (simp add: bech32_residue_def bech32_polymod_def)
  have x: "?z XOR pack5 cs = k \<longleftrightarrow> pack5 cs = ?z XOR k" for k
    using xor_cancel(1) [of ?z "pack5 cs" "?z XOR k"] by (simp flip: xor.assoc)
  have ne: "BECH32_CONST \<noteq> BECH32M_CONST" by (simp add: BECH32_CONST_def BECH32M_CONST_def)
  show ?thesis
    unfolding bech32_verify_checksum_def append_assoc p r x [symmetric] Let_def bech32_const_def
    using ne by (cases e) auto
qed

section \<open>Strings and their parts\<close>

text \<open>Numbers as digit lists, over the integers.\<close>

definition ival :: "int \<Rightarrow> int list \<Rightarrow> int" where
  "ival B ds = foldl (\<lambda>a d. a * B + d) 0 ds"

lemma ival_Nil [simp]: "ival B [] = 0"
  by (simp add: ival_def)

lemma ival_snoc [simp]: "ival B (ds @ [d]) = ival B ds * B + d"
  by (simp add: ival_def)

definition digits_below :: "int \<Rightarrow> int list \<Rightarrow> bool" where
  "digits_below B ds \<longleftrightarrow> (\<forall>d\<in>set ds. 0 \<le> d \<and> d < B)"

lemma digits_below_append [simp]:
  "digits_below B (xs @ ys) \<longleftrightarrow> digits_below B xs \<and> digits_below B ys"
  "digits_below B []"
  "digits_below B (d # ys) \<longleftrightarrow> 0 \<le> d \<and> d < B \<and> digits_below B ys"
  by (auto simp: digits_below_def)

lemma five_bits_below: "list_all five_bit ds \<longleftrightarrow> digits_below 32 ds"
  by (auto simp: digits_below_def five_bit_def list_all_iff)

lemma ival_inj:
  assumes "digits_below B xs" and "digits_below B ys" and "length xs = length ys"
    and "ival B xs = ival B ys"
  shows "xs = ys"
  using assms
proof (induction xs arbitrary: ys rule: rev_induct)
  case Nil
  then show ?case by simp
next
  case (snoc x xs)
  then obtain zs y where ys: "ys = zs @ [y]" by (cases ys rule: rev_cases) auto
  have b: "0 \<le> x" "x < B" "0 \<le> y" "y < B" and e: "ival B xs * B + x = ival B zs * B + y"
    using snoc.prems ys by auto
  have "x = y" using arg_cong [OF e, of "\<lambda>t. t mod B"] b by simp
  with e b have "ival B xs = ival B zs" by simp
  with snoc ys \<open>x = y\<close> show ?case by simp
qed

lemma pack5_ival: "list_all five_bit ws \<Longrightarrow> pack5 ws = ival 32 ws"
proof (induction ws rule: rev_induct)
  case Nil
  then show ?case by (simp add: pack5_def)
next
  case (snoc w ws)
  then have w: "take_bit 5 w = w" by (simp add: five_bit_def take_bit_int_eq_self)
  have "push_bit 5 (pack5 ws) XOR take_bit 5 w = push_bit 5 (pack5 ws) OR take_bit 5 w"
    by (rule bit_eqI) (auto simp: bit_simps)
  also have "\<dots> = push_bit 5 (pack5 ws) + take_bit 5 w"
    by (rule disjunctive_add [symmetric]) (auto simp: bit_simps)
  finally show ?case using snoc w by (simp add: pack5_def push_bit_eq_mult)
qed

lemma pack5_inj:
  "list_all five_bit xs \<Longrightarrow> list_all five_bit ys \<Longrightarrow> length xs = length ys \<Longrightarrow> pack5 xs = pack5 ys \<Longrightarrow> xs = ys"
  using ival_inj [of 32 xs ys] by (simp add: pack5_ival five_bits_below)

lemma verify_checksum_create:
  assumes d: "list_all five_bit data" and c: "list_all five_bit cs" and l: "length cs = 6"
  shows "bech32_verify_checksum hrp (data @ cs) = Some e \<longleftrightarrow> cs = bech32_create_checksum e hrp data"
proof -
  have "pack5 (bech32_create_checksum e hrp data) = bech32_residue e hrp data"
    unfolding create_checksum_eq using residue_bound [OF d] by (intro pack5_checksum) auto
  then show ?thesis
    using verify_checksum_iff [OF assms] pack5_inj [OF c] l by (metis create_checksum_facts)
qed

definition printable :: "char \<Rightarrow> bool" where
  "printable c \<longleftrightarrow> 33 \<le> ord c \<and> ord c \<le> 126"

lemma charset_facts: "length CHARSET = 32" "distinct CHARSET"
  by (simp_all add: CHARSET_def)

lemma charset_chars: "c \<in> set CHARSET \<Longrightarrow> printable c \<and> lower_char c = c \<and> c \<noteq> CHR ''1''"
  by (auto simp: CHARSET_def printable_def ord_def lower_char_def)

definition char_of_five :: "int \<Rightarrow> char" where
  "char_of_five d = CHARSET ! nat d"

definition five_of_char :: "char \<Rightarrow> int" where
  "five_of_char x = (case list_index x CHARSET of Some i \<Rightarrow> int i | None \<Rightarrow> - 1)"

lemma char_of_five_in: "five_bit d \<Longrightarrow> char_of_five d \<in> set CHARSET"
  by (auto simp: char_of_five_def five_bit_def charset_facts intro!: nth_mem)

lemma five_of_char_of_five: "five_bit d \<Longrightarrow> five_of_char (char_of_five d) = d"
  using list_index_nth [of CHARSET "nat d"]
  by (simp add: char_of_five_def five_of_char_def five_bit_def charset_facts nat_less_iff)

lemma char_of_five_of_char:
  assumes "x \<in> set CHARSET"
  shows "char_of_five (five_of_char x) = x \<and> five_bit (five_of_char x)"
proof -
  obtain i where i: "list_index x CHARSET = Some i"
    using assms by (cases "list_index x CHARSET") auto
  with list_index_Some [OF i] show ?thesis
    by (simp add: char_of_five_def five_of_char_def five_bit_def charset_facts)
qed

lemma five_chars_inverse:
  "list_all five_bit ds \<Longrightarrow> map five_of_char (map char_of_five ds) = ds"
  "set s \<subseteq> set CHARSET \<Longrightarrow> map char_of_five (map five_of_char s) = s \<and> list_all five_bit (map five_of_char s)"
  by (induction ds) (simp_all add: five_of_char_of_five, induction s, simp_all add: char_of_five_of_char)

lemma bech32_encode_eq:
  assumes "list_all five_bit data"
  shows "bech32_encode e hrp data
    = Inr (hrp @ ''1'' @ map char_of_five (data @ bech32_create_checksum e hrp data))"
proof -
  let ?c = "data @ bech32_create_checksum e hrp data"
  have "res_map (py_index CHARSET) ?c = Inr (map char_of_five ?c)"
  proof (rule res_map_Inr)
    fix d assume "d \<in> set ?c"
    then have "five_bit d" using assms create_checksum_facts(2) [of e hrp data] by (auto simp: list_all_iff)
    then show "py_index CHARSET d = Inr (char_of_five d)"
      by (simp add: py_index_def py_nth_def nat_less_iff char_of_five_def five_bit_def charset_facts)
  qed
  then show ?thesis by (simp add: bech32_encode_def Let_def)
qed

text \<open>
  The strings that decode, with a lower-case representative: a human-readable part of printable
  characters without capitals, five-bit data, and at most 90 characters in all.
\<close>

definition bech32_ok :: "string \<Rightarrow> int list \<Rightarrow> bool" where
  "bech32_ok hrp data \<longleftrightarrow> hrp \<noteq> [] \<and> list_all (\<lambda>c. printable c \<and> lower_char c = c) hrp
     \<and> list_all five_bit data \<and> length hrp + length data + 7 \<le> 90"

lemma py_lower_fix: "py_lower s = s \<longleftrightarrow> (\<forall>c\<in>set s. lower_char c = c)"
  by (induction s) (auto simp: py_lower_def)

lemma ord_nat: "ord c = int (of_char c :: nat)"
  by (simp add: ord_def of_nat_of_char)

lemma printable_nat: "printable c \<longleftrightarrow> 33 \<le> (of_char c :: nat) \<and> (of_char c :: nat) \<le> 126"
  by (simp add: printable_def ord_nat del: of_nat_of_char)

lemma lower_char_printable [simp]: "printable (lower_char c) = printable c"
  by (auto simp: printable_nat lower_char_def)

lemma lower_char_idem [simp]: "lower_char (lower_char c) = lower_char c"
  by (simp add: lower_char_def)

lemma py_lower_lower [simp]: "py_lower (py_lower s) = py_lower s"
  by (simp add: py_lower_def)

text \<open>What decoding does once the case of the string is settled.\<close>

definition decode_lower :: "string \<Rightarrow> (Encoding \<times> string \<times> int list) option" where
  "decode_lower bech =
     (case list_rindex CHR ''1'' bech of
        None \<Rightarrow> None
      | Some pos \<Rightarrow>
          if pos < 1 \<or> length bech < pos + 7 \<or> 90 < length bech then None
          else if \<not> set (drop (pos + 1) bech) \<subseteq> set CHARSET then None
          else
            let data = map five_of_char (drop (pos + 1) bech)
            in case bech32_verify_checksum (take pos bech) data of
                 None \<Rightarrow> None
               | Some encoding \<Rightarrow> Some (encoding, take pos bech, drop_end 6 data))"

lemma bech32_decode_eq:
  "bech32_decode s = (if \<not> list_all printable s \<or> (py_lower s \<noteq> s \<and> py_upper s \<noteq> s) then None
     else decode_lower (py_lower s))"
proof -
  have p: "(\<exists>x\<in>set s. ord x < 33 \<or> 126 < ord x) \<longleftrightarrow> \<not> list_all printable s"
    unfolding list_all_iff printable_def by (metis not_le)
  show ?thesis
    unfolding bech32_decode_def p decode_lower_def Let_def five_of_char_def [abs_def] subset_iff Ball_def
    by (rule refl)
qed

lemma bech32_decode_cond:
  "bech32_decode s = (if \<not> list_all printable s \<or> (py_lower s \<noteq> s \<and> py_upper s \<noteq> s) then None
     else bech32_decode (py_lower s))"
proof -
  have "list_all printable (py_lower s) = list_all printable s" by (simp add: py_lower_def list_all_iff)
  then show ?thesis unfolding bech32_decode_eq [of s] bech32_decode_eq [of "py_lower s"] by simp
qed

lemma bech32_decode_encode:
  assumes ok: "bech32_ok hrp data" and enc: "bech32_encode e hrp data = Inr s"
  shows "bech32_decode s = Some (e, hrp, data)"
proof -
  let ?cs = "bech32_create_checksum e hrp data"
  let ?w = "map char_of_five (data @ ?cs)"
  have d: "list_all five_bit data" and five: "list_all five_bit (data @ ?cs)" and ne: "hrp \<noteq> []"
    using ok by (simp_all add: bech32_ok_def)
  have s: "s = hrp @ CHR ''1'' # ?w" using enc bech32_encode_eq [OF d] by simp
  have w: "\<forall>c\<in>set ?w. c \<in> set CHARSET" using five char_of_five_in by (auto simp: list_all_iff)
  then have wc: "\<forall>c\<in>set ?w. printable c \<and> lower_char c = c \<and> c \<noteq> CHR ''1''"
    using charset_chars by blast
  have one: "printable (CHR ''1'')" "lower_char (CHR ''1'') = CHR ''1''"
    by (simp_all add: printable_nat lower_char_def)
  have pr: "list_all printable s" and low: "py_lower s = s"
    unfolding s py_lower_fix list_all_iff using ok wc one by (auto simp: bech32_ok_def list_all_iff)
  have r: "list_rindex (CHR ''1'') s = Some (length hrp)"
    unfolding s using wc by (intro list_rindex_append_not_in) blast
  have "map five_of_char ?w = data @ ?cs" using five_chars_inverse(1) [OF five] .
  then have m: "map five_of_char (drop (length hrp + 1) s) = data @ ?cs" by (simp add: s)
  have v: "bech32_verify_checksum hrp (data @ ?cs) = Some e"
    using verify_checksum_create [OF d, of ?cs] by simp
  have l: "length s = length hrp + 7 + length data" "length s \<le> 90" "1 \<le> length hrp"
    using ok ne by (simp_all add: s bech32_ok_def Suc_le_eq)
  have all: "set (drop (length hrp + 1) s) \<subseteq> set CHARSET" using w by (auto simp: s)
  have t: "take (length hrp) s = hrp" by (simp add: s)
  show ?thesis
    unfolding bech32_decode_eq low decode_lower_def r using pr l all m v t ne by simp
qed

lemma bech32_decode_parts:
  assumes dec: "bech32_decode s = Some (e, hrp, data)" and low: "py_lower s = s"
  shows "bech32_ok hrp data \<and> bech32_encode e hrp data = Inr s"
proof -
  have pr: "list_all printable s"
    using dec by (auto simp: bech32_decode_eq split: if_splits)
  obtain pos where r: "list_rindex (CHR ''1'') s = Some pos" and p: "1 \<le> pos" "pos + 7 \<le> length s" "length s \<le> 90"
    and ch: "set (drop (pos + 1) s) \<subseteq> set CHARSET" and hrp: "hrp = take pos s"
    and v: "bech32_verify_checksum hrp (map five_of_char (drop (pos + 1) s)) = Some e"
    and data: "data = drop_end 6 (map five_of_char (drop (pos + 1) s))"
    using dec low pr
    by (auto simp: bech32_decode_eq decode_lower_def Let_def split: if_splits option.splits)
  let ?t = "drop (pos + 1) s" and ?ds = "map five_of_char (drop (pos + 1) s)"
  have s: "s = hrp @ CHR ''1'' # ?t"
    using list_rindex_Some [OF r] hrp id_take_nth_drop [of pos s] by simp
  have inv: "map char_of_five ?ds = ?t" "list_all five_bit ?ds"
    using five_chars_inverse(2) [OF ch] by auto
  have split: "?ds = data @ take_end 6 ?ds" using data by (simp only: drop_end_take_end)
  have five: "list_all five_bit data" "list_all five_bit (take_end 6 ?ds)"
    using inv(2) split by (metis list_all_append)+
  have "length (take_end 6 ?ds) = 6" using p by (simp add: take_end_def)
  with v split have "take_end 6 ?ds = bech32_create_checksum e hrp data"
    using verify_checksum_create [OF five] by metis
  with split have "data @ bech32_create_checksum e hrp data = ?ds" by simp
  then have "bech32_encode e hrp data = Inr s"
    using bech32_encode_eq [OF five(1), of e hrp] inv(1) s by simp
  moreover have "bech32_ok hrp data"
    using pr low p five(1) by (auto simp: bech32_ok_def hrp data drop_end_def py_lower_fix list_all_iff
        dest: in_set_takeD)
  ultimately show ?thesis by simp
qed

text \<open>
  C10: bech32_decode accepts exactly what bech32_encode writes, in one case throughout. A string
  decodes to an encoding, a human-readable part and data if and only if it is not of mixed case and its
  lower-case form is the encoding of that part and data, the part being non-empty, printable and without
  capitals, the data five-bit values and the whole at most 90 characters long. So the checksum of an
  encoded string verifies, no two lower-case strings decode alike, and there is nothing else it accepts.
\<close>

theorem bech32_decode_iff:
  "bech32_decode s = Some (e, hrp, data) \<longleftrightarrow>
     (py_lower s = s \<or> py_upper s = s) \<and> bech32_ok hrp data \<and> bech32_encode e hrp data = Inr (py_lower s)"
proof
  assume d: "bech32_decode s = Some (e, hrp, data)"
  then have "bech32_decode (py_lower s) = Some (e, hrp, data)" "py_lower s = s \<or> py_upper s = s"
    using bech32_decode_cond [of s] by (auto split: if_splits)
  with bech32_decode_parts [of "py_lower s"] show "(py_lower s = s \<or> py_upper s = s) \<and> bech32_ok hrp data
      \<and> bech32_encode e hrp data = Inr (py_lower s)" by simp
next
  assume a: "(py_lower s = s \<or> py_upper s = s) \<and> bech32_ok hrp data \<and> bech32_encode e hrp data = Inr (py_lower s)"
  then have d: "bech32_decode (py_lower s) = Some (e, hrp, data)" using bech32_decode_encode by blast
  then have "list_all printable (py_lower s)"
    using bech32_decode_cond [of "py_lower s"] by (auto split: if_splits)
  then have "list_all printable s" by (simp add: py_lower_def list_all_iff)
  with a d show "bech32_decode s = Some (e, hrp, data)" using bech32_decode_cond [of s] by simp
qed

section \<open>A wrong character is noticed\<close>

text \<open>
  The five generators are independent in their low five bits, so a step of the checksum loses nothing
  of the state: two states that differ still differ after the same value.
\<close>

lemma gen_of_low: "0 \<le> t \<Longrightarrow> t < 32 \<Longrightarrow> take_bit 5 (gen_of t) = 0 \<Longrightarrow> t = 0"
proof -
  assume a: "0 \<le> t" "t < 32" "take_bit 5 (gen_of t) = 0"
  have "list_all (\<lambda>i. take_bit 5 (gen_of (int i)) \<noteq> 0) [1..<32]"
    by code_simp
  moreover have "int (nat t) = t" using a by simp
  ultimately have "nat t \<notin> set [1..<32]" using a(3) unfolding list_all_iff by metis
  with a show ?thesis by auto
qed

lemma gen_of_xor: "gen_of (a XOR b) = gen_of a XOR gen_of b"
proof -
  have "polymod_gen i gs (a XOR b) (c XOR d) = polymod_gen i gs a c XOR polymod_gen i gs b d" for i gs c d
  proof (induction gs arbitrary: i c d)
    case Nil
    then show ?case by simp
  next
    case (Cons g gs)
    have o: "(x AND 1 \<noteq> 0) = odd x" for x :: int by (simp add: and_one_eq odd_iff_mod_2_eq_one)
    have "(if odd (drop_bit i (a XOR b)) then g else 0)
        = (if odd (drop_bit i a) then g else 0) XOR (if odd (drop_bit i b) then g else 0)"
      by (simp add: drop_bit_xor even_xor_iff)
    then have "(c XOR d) XOR (if odd (drop_bit i (a XOR b)) then g else 0)
        = (c XOR (if odd (drop_bit i a) then g else 0)) XOR (d XOR (if odd (drop_bit i b) then g else 0))"
      by (simp add: xor.assoc xor.commute xor.left_commute)
    with Cons show ?case by (simp only: polymod_gen.simps o)
  qed
  from this [of 0 generator 0 0] show ?thesis by (simp add: gen_of_def)
qed

lemma gen_of_bound: "0 \<le> gen_of t \<and> gen_of t < 2 ^ 30"
  unfolding gen_of_def by (rule polymod_gen_bound) (simp_all add: generator_def)

interpretation bech: checksum_register 25 gen_of polymod_step
  by unfold_locales (use polymod_step_eq gen_of_xor gen_of_low gen_of_bound in auto)

text \<open>
  One wrong data character is always detected: if the values after the separator pass the check
  for an encoding, then with any single value replaced by another five-bit value they do not pass the
  check for that encoding.
\<close>

theorem single_error_detected:
  assumes "list_all five_bit data" and "bech32_verify_checksum hrp data = Some e"
    and "i < length data" and "five_bit v" and "v \<noteq> data ! i"
  shows "bech32_verify_checksum hrp (data[i := v]) \<noteq> Some e"
proof
  assume bad: "bech32_verify_checksum hrp (data[i := v]) = Some e"
  let ?xs = "bech32_hrp_expand hrp @ take i data" and ?ys = "drop (Suc i) data"
  have d: "bech32_hrp_expand hrp @ data = ?xs @ data ! i # ?ys" "bech32_hrp_expand hrp @ data[i := v] = ?xs @ v # ?ys"
    using assms(3) by (simp_all add: upd_conv_take_nth_drop) (simp add: id_take_nth_drop [symmetric])
  have five: "list_all five_bit (?xs @ data ! i # ?ys)" using assms(1, 3) five_bit_hrp_expand [of hrp]
    unfolding list_all_iff by (auto dest: in_set_takeD in_set_dropD)
  have "foldl polymod_step 1 (?xs @ data ! i # ?ys) \<noteq> foldl polymod_step 1 (?xs @ v # ?ys)"
    using five assms(4, 5) by (intro bech.replaced_value) (auto simp: register_ok_def)
  moreover have "bech32_polymod (bech32_hrp_expand hrp @ data) = bech32_polymod (bech32_hrp_expand hrp @ data[i := v])"
    using assms(2) bad by (auto simp: bech32_verify_checksum_def Let_def split: if_splits)
  ultimately show False unfolding bech32_polymod_def d by blast
qed

theorem single_error_detected_witness:
  "bech32_verify_checksum ''bc'' ([0, 1, 2, 20, 7, 22, 14, 5, 25] [1 := 17]) \<noteq> Some BECH32"
proof (rule single_error_detected)
  show "bech32_verify_checksum ''bc'' [0, 1, 2, 20, 7, 22, 14, 5, 25] = Some BECH32" by code_simp
qed (simp_all add: five_bit_def)

section \<open>Regrouping is a change of base\<close>

text \<open>
  The number read so far is the number written so far, shifted by the bits not written yet, plus the
  low bits of the accumulator.
\<close>

definition conv_value :: "nat \<Rightarrow> int \<Rightarrow> nat \<Rightarrow> int list \<Rightarrow> int" where
  "conv_value t acc bits ret = ival (2 ^ t) ret * 2 ^ bits + take_bit bits acc"

lemma take_bit_split: "take_bit (n + m) a = take_bit n (drop_bit m a) * 2 ^ m + take_bit m (a :: int)"
proof -
  have "take_bit (n + m) a = push_bit m (take_bit n (drop_bit m a)) OR take_bit m a"
    by (rule bit_eqI) (auto simp: bit_simps)
  also have "\<dots> = push_bit m (take_bit n (drop_bit m a)) + take_bit m a"
    by (rule disjunctive_add [symmetric]) (auto simp: bit_simps)
  finally show ?thesis by (simp add: push_bit_eq_mult)
qed

lemma and_maxv: "a AND (2 ^ t - 1) = take_bit t (a :: int)"
  by (simp add: take_bit_eq_mask mask_eq_exp_minus_1)

lemma emit_groups_spec:
  assumes "0 < t" and "emit_groups t (2 ^ t - 1) acc bits ret = (bits', ret')" and "digits_below (2 ^ t) ret"
  shows "bits' < t \<and> t * length ret' + bits' = t * length ret + bits \<and> digits_below (2 ^ t) ret'
    \<and> conv_value t acc bits' ret' = conv_value t acc bits ret"
  using assms(2, 3)
proof (induction bits arbitrary: ret rule: less_induct)
  case (less bits)
  show ?case
  proof (cases "t \<le> bits")
    case False
    with less.prems show ?thesis by (subst (asm) emit_groups.simps) simp
  next
    case True
    let ?g = "take_bit t (drop_bit (bits - t) acc)"
    have e: "emit_groups t (2 ^ t - 1) acc (bits - t) (ret @ [?g]) = (bits', ret')"
      using less.prems(1) True assms(1) by (subst (asm) emit_groups.simps) (simp add: and_maxv)
    have "(2 :: int) ^ bits = 2 ^ t * 2 ^ (bits - t)" using True by (simp flip: power_add)
    moreover have "take_bit bits acc = ?g * 2 ^ (bits - t) + take_bit (bits - t) acc"
      using take_bit_split [of t "bits - t" acc] True by simp
    ultimately have v: "conv_value t acc (bits - t) (ret @ [?g]) = conv_value t acc bits ret"
      by (simp add: conv_value_def algebra_simps)
    have "digits_below (2 ^ t) (ret @ [?g])"
      using less.prems(2) by (simp add: take_bit_int_less_exp)
    from less.IH [OF _ e this] True assms(1) v show ?thesis by (simp add: algebra_simps)
  qed
qed

lemma convertbits_loop_spec:
  assumes "0 < t" and "digits_below (2 ^ f) data" and "digits_below (2 ^ t) ret" and "bits < t"
  shows "\<exists>acc' bits' ret'. convertbits_loop f t data acc bits ret = Some (acc', bits', ret') \<and> bits' < t
    \<and> t * length ret' + bits' = t * length ret + bits + f * length data \<and> digits_below (2 ^ t) ret'
    \<and> conv_value t acc' bits' ret' = foldl (\<lambda>a d. a * 2 ^ f + d) (conv_value t acc bits ret) data"
  using assms(2-4)
proof (induction data arbitrary: acc bits ret)
  case Nil
  then show ?case by simp
next
  case (Cons v data)
  have v: "0 \<le> v" "v < 2 ^ f" using Cons.prems by auto
  then have dv: "drop_bit f v = 0" "take_bit f v = v"
    by (simp_all add: drop_bit_eq_div take_bit_int_eq_self)
  let ?acc = "(push_bit f acc OR v) AND (2 ^ (f + t - 1) - 1)"
  obtain b1 r1 where e: "emit_groups t (2 ^ t - 1) ?acc (bits + f) ret = (b1, r1)"
    by (cases "emit_groups t (2 ^ t - 1) ?acc (bits + f) ret")
  note sp = emit_groups_spec [OF assms(1) e Cons.prems(2)]
  have "take_bit (bits + f) ?acc = take_bit (bits + f) (push_bit f acc OR take_bit f v)"
    unfolding and_maxv using Cons.prems(3) dv by (simp add: min_absorb1)
  also have "\<dots> = push_bit f (take_bit bits acc) OR take_bit f v"
    by (rule bit_eqI) (auto simp: bit_simps)
  also have "\<dots> = push_bit f (take_bit bits acc) + take_bit f v"
    by (rule disjunctive_add [symmetric]) (auto simp: bit_simps)
  finally have "take_bit (bits + f) ?acc = take_bit bits acc * 2 ^ f + v"
    using dv by (simp add: push_bit_eq_mult)
  then have c: "conv_value t ?acc (bits + f) ret = conv_value t acc bits ret * 2 ^ f + v"
    by (simp add: conv_value_def power_add algebra_simps)
  have "convertbits_loop f t (v # data) acc bits ret = convertbits_loop f t data ?acc b1 r1"
    using v dv e by (simp add: Let_def)
  moreover have "\<exists>acc' bits' ret'. convertbits_loop f t data ?acc b1 r1 = Some (acc', bits', ret') \<and> bits' < t
    \<and> t * length ret' + bits' = t * length r1 + b1 + f * length data \<and> digits_below (2 ^ t) ret'
    \<and> conv_value t acc' bits' ret' = foldl (\<lambda>a d. a * 2 ^ f + d) (conv_value t ?acc b1 r1) data"
    using Cons.prems sp by (intro Cons.IH) auto
  ultimately show ?case using sp c by (auto simp: algebra_simps)
qed

lemma foldl_ival: "foldl (\<lambda>a d. a * 2 ^ f + d) 0 data = ival (2 ^ f) data"
  by (simp add: ival_def)

lemma push_take_bit:
  assumes "b \<le> t"
  shows "push_bit (t - b) acc AND (2 ^ t - 1) = take_bit b acc * (2 :: int) ^ (t - b)"
proof -
  have "take_bit t (push_bit (t - b) acc) = push_bit (t - b) (take_bit b acc)"
    using assms by (simp add: take_bit_push_bit)
  then show ?thesis by (simp only: and_maxv push_bit_eq_mult)
qed

text \<open>With padding the number is shifted up to a whole number of groups; without, it is the same number.\<close>

lemma convertbits_pad:
  assumes "0 < t" and "digits_below (2 ^ f) data"
  shows "\<exists>ret k. convertbits data f t True = Some ret \<and> digits_below (2 ^ t) ret \<and> k < t
    \<and> t * length ret = f * length data + k \<and> ival (2 ^ t) ret = ival (2 ^ f) data * 2 ^ k"
proof -
  obtain acc b ret where c: "convertbits_loop f t data 0 0 [] = Some (acc, b, ret)" "b < t"
    "t * length ret + b = f * length data" "digits_below (2 ^ t) ret"
    "conv_value t acc b ret = ival (2 ^ f) data"
    using convertbits_loop_spec [OF assms, of "[]" 0 0] assms(1) by (auto simp: conv_value_def foldl_ival)
  show ?thesis
  proof (cases "b = 0")
    case True
    with c have "convertbits data f t True = Some ret" by (simp add: convertbits_def)
    moreover have "ival (2 ^ t) ret = ival (2 ^ f) data * 2 ^ 0" using c(5) True by (simp add: conv_value_def)
    ultimately show ?thesis using True c(3, 4) assms(1) by (intro exI [of _ ret] exI [of _ 0]) simp
  next
    case False
    let ?r = "ret @ [take_bit b acc * 2 ^ (t - b)]"
    have r: "convertbits data f t True = Some ?r"
      using c False push_take_bit [of b t acc] by (simp add: convertbits_def)
    have p: "(2 :: int) ^ t = 2 ^ b * 2 ^ (t - b)" using c(2) by (simp flip: power_add)
    have "take_bit b acc * 2 ^ (t - b) < 2 ^ b * 2 ^ (t - b)"
      by (intro mult_strict_right_mono take_bit_int_less_exp) simp
    then have "digits_below (2 ^ t) ?r" using c(4) p by simp
    moreover have "ival (2 ^ t) ?r = ival (2 ^ f) data * 2 ^ (t - b)"
      unfolding c(5) [symmetric] conv_value_def by (simp add: p algebra_simps)
    moreover have "t * length ?r = f * length data + (t - b)" using c(2, 3) by (simp add: algebra_simps)
    ultimately show ?thesis using r False c(2) by (intro exI [of _ ?r] exI [of _ "t - b"]) simp
  qed
qed

lemma convertbits_nopad:
  assumes "0 < t" and "digits_below (2 ^ f) data"
  shows "convertbits data f t False = Some ret \<longleftrightarrow>
    (\<exists>b. b < t \<and> b < f \<and> digits_below (2 ^ t) ret \<and> t * length ret + b = f * length data
       \<and> ival (2 ^ f) data = ival (2 ^ t) ret * 2 ^ b)"
proof -
  obtain acc b r where c: "convertbits_loop f t data 0 0 [] = Some (acc, b, r)" "b < t"
    "t * length r + b = f * length data" "digits_below (2 ^ t) r"
    "conv_value t acc b r = ival (2 ^ f) data"
    using convertbits_loop_spec [OF assms, of "[]" 0 0] assms(1) by (auto simp: conv_value_def foldl_ival)
  have "convertbits data f t False = (if f \<le> b \<or> take_bit b acc \<noteq> 0 then None else Some r)"
    using c push_take_bit [of b t acc] by (simp add: convertbits_def)
  moreover have uniq: "b' = b \<and> ret = r \<and> take_bit b acc = 0"
    if "b' < t" "digits_below (2 ^ t) ret" "t * length ret + b' = f * length data"
      "ival (2 ^ f) data = ival (2 ^ t) ret * 2 ^ b'" for b'
  proof -
    have e: "t * length ret + b' = t * length r + b" using that c by simp
    have "(t * length ret + b') mod t = b'" "(t * length r + b) mod t = b"
      using that(1) c(2) by (simp_all only: mod_mult_self4 mod_less)
    with e have bb: "b' = b" by simp
    with e assms(1) have l: "length ret = length r" by simp
    have m: "ival (2 ^ t) ret * 2 ^ b = ival (2 ^ t) r * 2 ^ b + take_bit b acc"
      using that(4) c(5) bb by (simp add: conv_value_def)
    have "take_bit b acc mod 2 ^ b = take_bit b acc" by (simp add: take_bit_int_less_exp)
    with arg_cong [OF m, of "\<lambda>x. x mod 2 ^ b"] have z: "take_bit b acc = 0" by simp
    with m have "ival (2 ^ t) ret = ival (2 ^ t) r" by simp
    with that(2) c(4) l have "ret = r" by (intro ival_inj)
    with bb z show ?thesis by simp
  qed
  moreover have "b < f \<Longrightarrow> take_bit b acc = 0 \<Longrightarrow> b < t \<and> b < f \<and> digits_below (2 ^ t) r
      \<and> t * length r + b = f * length data \<and> ival (2 ^ f) data = ival (2 ^ t) r * 2 ^ b"
    using c by (simp add: conv_value_def)
  ultimately show ?thesis by (metis not_le option.distinct(1) option.inject)
qed

lemma mod_unique: "(t :: nat) * l + b = t * l' + b' \<Longrightarrow> b < t \<Longrightarrow> b' < t \<Longrightarrow> b = b' \<and> l = l'"
proof -
  assume e: "t * l + b = t * l' + b'" and b: "b < t" "b' < t"
  have "(t * l + b) mod t = b" "(t * l' + b') mod t = b'"
    using b by (simp_all only: mod_mult_self4 mod_less)
  with e have "b = b'" by simp
  with e b show ?thesis by simp
qed

lemma convertbits_8_5_8:
  assumes "digits_below 256 p"
  shows "(\<exists>r. convertbits p 8 5 True = Some r \<and> digits_below 32 r \<and> convertbits r 5 8 False = Some p
    \<and> 5 * length r \<le> 8 * length p + 4)"
proof -
  obtain r k where r: "convertbits p 8 5 True = Some r" "digits_below (2 ^ 5) r" "k < 5"
    "5 * length r = 8 * length p + k" "ival (2 ^ 5) r = ival (2 ^ 8) p * 2 ^ k"
    using convertbits_pad [of 5 8 p] assms by auto
  have "convertbits r 5 8 False = Some p"
    by (subst convertbits_nopad) (use r assms in \<open>auto intro!: exI [of _ k]\<close>)
  with r show ?thesis by auto
qed

lemma convertbits_5_8_5:
  assumes "digits_below 32 r" and "convertbits r 5 8 False = Some p"
  shows "convertbits p 8 5 True = Some r"
proof -
  obtain b where b: "b < 5" "digits_below (2 ^ 8) p" "8 * length p + b = 5 * length r"
    "ival (2 ^ 5) r = ival (2 ^ 8) p * 2 ^ b"
    using convertbits_nopad [of 8 5 r p] assms by auto
  obtain r' k where r': "convertbits p 8 5 True = Some r'" "digits_below (2 ^ 5) r'" "k < 5"
    "5 * length r' = 8 * length p + k" "ival (2 ^ 5) r' = ival (2 ^ 8) p * 2 ^ k"
    using convertbits_pad [of 5 8 p] b(2) by auto
  have "5 * length r' + b = 5 * length r + k" using b(3) r'(4) by simp
  from mod_unique [OF this b(1) r'(3)] have kb: "k = b" and l: "length r' = length r" by auto
  then have "r' = r" using b(4) r'(2) r'(5) [unfolded kb] assms(1) by (intro ival_inj [of "2 ^ 5"]) auto
  with r' show ?thesis by simp
qed

section \<open>Segwit addresses round trip\<close>

definition ints_of :: "bytes \<Rightarrow> int list" where
  "ints_of bs = map (\<lambda>b. int (unat b)) bs"

lemma ints_of_below [simp]: "digits_below 256 (ints_of bs)"
  by (simp add: ints_of_def digits_below_def)

lemma length_ints_of [simp]: "length (ints_of bs) = length bs"
  by (simp add: ints_of_def)

lemma segwit_decode_iff:
  "segwit_decode hrp s = Inr (Some (v, p)) \<longleftrightarrow>
     (\<exists>e rest. bech32_decode s = Some (e, hrp, v # rest) \<and> convertbits rest 5 8 False = Some p
        \<and> 2 \<le> length p \<and> length p \<le> 40 \<and> v \<le> 16 \<and> (v = 0 \<longrightarrow> length p = 20 \<or> length p = 32)
        \<and> e = (if v = 0 then BECH32 else BECH32M))"
proof (cases "bech32_decode s")
  case None
  then show ?thesis by (simp add: segwit_decode_def)
next
  case (Some x)
  obtain e h data where x: "x = (e, h, data)" by (cases x)
  show ?thesis
  proof (cases data)
    case Nil
    then show ?thesis using Some x by (simp add: segwit_decode_def convertbits_def)
  next
    case (Cons d rest)
    then show ?thesis using Some x by (auto simp: segwit_decode_def not_less split: option.splits)
  qed
qed

text \<open>
  C11: segwit encoding and decoding are inverse, for a witness version that is not negative: the encoder
  returns an address for a program if and only if the address has no capitals and decodes, for the
  same human-readable part, to that version and that program. In particular the padding bits and the
  checksum variant an address may carry are unique.
\<close>

theorem segwit_round_trip:
  assumes "0 \<le> v"
  shows "segwit_encode hrp v prog = Inr (Some s) \<longleftrightarrow>
    py_lower s = s \<and> segwit_decode hrp s = Inr (Some (v, map (\<lambda>b. int (unat b)) prog))"
proof -
  let ?p = "ints_of prog" and ?e = "if v = 0 then BECH32 else BECH32M"
  obtain r where r: "convertbits ?p 8 5 True = Some r" "digits_below 32 r" "convertbits r 5 8 False = Some ?p"
    using convertbits_8_5_8 [of ?p] by auto
  have enc: "segwit_encode hrp v prog = res_bind (bech32_encode ?e hrp (v # r)) (\<lambda>ret.
      res_bind (segwit_decode hrp ret) (\<lambda>d. if d = None then Inr None else Inr (Some ret)))"
    using r(1) by (simp add: segwit_encode_def ints_of_def)
  have "segwit_encode hrp v prog = Inr (Some s) \<longleftrightarrow> py_lower s = s \<and> segwit_decode hrp s = Inr (Some (v, ?p))"
  proof
    assume "segwit_encode hrp v prog = Inr (Some s)"
    then obtain v' p' where w: "bech32_encode ?e hrp (v # r) = Inr s" "segwit_decode hrp s = Inr (Some (v', p'))"
      unfolding enc by (auto split: if_splits)
    then obtain e' rest where d: "bech32_decode s = Some (e', hrp, v' # rest)"
      using segwit_decode_iff by blast
    have "v < 32"
      using w(1) assms by (cases "v < 32") (auto simp: bech32_encode_def py_index_def py_nth_def nat_less_iff charset_facts Let_def)
    then have five: "list_all five_bit (v # r)"
      using r(2) assms by (simp add: five_bits_below five_bit_def)
    note p1 = d [unfolded bech32_decode_iff]
    have s: "s = hrp @ ''1'' @ map char_of_five ((v # r) @ bech32_create_checksum ?e hrp (v # r))"
      using w(1) bech32_encode_eq [OF five] by simp
    have "length (py_lower s) = length hrp + 1 + length (v' # rest) + 6"
      using p1 bech32_encode_eq [of "v' # rest" e' hrp] by (simp add: bech32_ok_def)
    then have ok: "bech32_ok hrp (v # r)"
      using p1 five by (simp add: s bech32_ok_def)
    from bech32_decode_encode [OF this w(1)] have dd: "bech32_decode s = Some (?e, hrp, v # r)" .
    with d have "v' = v" "rest = r" by auto
    moreover from dd have "bech32_encode ?e hrp (v # r) = Inr (py_lower s)" unfolding bech32_decode_iff by simp
    ultimately show "py_lower s = s \<and> segwit_decode hrp s = Inr (Some (v, ?p))"
      using w d r(3) segwit_decode_iff [of hrp s v' p'] by auto
  next
    assume a: "py_lower s = s \<and> segwit_decode hrp s = Inr (Some (v, ?p))"
    then obtain rest where d: "bech32_decode s = Some (?e, hrp, v # rest)" "convertbits rest 5 8 False = Some ?p"
      using segwit_decode_iff by auto
    then have "bech32_encode ?e hrp (v # rest) = Inr s" "digits_below 32 rest"
      using a unfolding bech32_decode_iff by (auto simp: bech32_ok_def five_bits_below)
    with convertbits_5_8_5 [OF _ d(2)] r(1) a show "segwit_encode hrp v prog = Inr (Some s)"
      unfolding enc by simp
  qed
  then show ?thesis by (simp add: ints_of_def)
qed

theorem segwit_round_trip_witness:
  "segwit_decode ''bc'' ''bc1pqurswpc8qurswpc8qurswpc8qurswpc8qurswpc8qurswpc8qurssvw8hu''
     = Inr (Some (1, replicate 32 7))"
proof -
  have "segwit_encode ''bc'' 1 (replicate 32 7)
      = Inr (Some ''bc1pqurswpc8qurswpc8qurswpc8qurswpc8qurswpc8qurswpc8qurssvw8hu'')"
    by code_simp
  then show ?thesis
    using segwit_round_trip [of 1 "''bc''" "replicate 32 7"
      "''bc1pqurswpc8qurswpc8qurswpc8qurswpc8qurswpc8qurswpc8qurssvw8hu''"] by simp
qed

text \<open>
  every witness program the standards allow has an address: version 0 with 20 or 32 bytes, versions
  1 to 16 with 2 to 40 bytes, under any printable human-readable part without capitals of at most 18
  characters; and decoding the address gives the program back.
\<close>

theorem segwit_encode_total:
  assumes "hrp \<noteq> []" and "list_all (\<lambda>c. printable c \<and> lower_char c = c) hrp" and "length hrp \<le> 18"
    and "0 \<le> v" and "v \<le> 16" and "2 \<le> length prog" and "length prog \<le> 40"
    and "v = 0 \<longrightarrow> length prog = 20 \<or> length prog = 32"
  shows "\<exists>s. segwit_encode hrp v prog = Inr (Some s)
    \<and> segwit_decode hrp s = Inr (Some (v, map (\<lambda>b. int (unat b)) prog))"
proof -
  let ?p = "ints_of prog" and ?e = "if v = 0 then BECH32 else BECH32M"
  obtain r where r: "convertbits ?p 8 5 True = Some r" "digits_below 32 r" "convertbits r 5 8 False = Some ?p"
    "5 * length r \<le> 8 * length prog + 4"
    using convertbits_8_5_8 [of ?p] by auto
  have five: "list_all five_bit (v # r)" using r(2) assms by (simp add: five_bits_below five_bit_def)
  then obtain s where s: "bech32_encode ?e hrp (v # r) = Inr s" using bech32_encode_eq by blast
  have "bech32_ok hrp (v # r)" using assms five r(4) by (simp add: bech32_ok_def)
  from bech32_decode_encode [OF this s] have "bech32_decode s = Some (?e, hrp, v # r)" .
  then have d: "segwit_decode hrp s = Inr (Some (v, ?p))"
    using assms r(3) segwit_decode_iff [of hrp s v ?p] by auto
  moreover have "segwit_encode hrp v prog = Inr (Some s)"
    using r(1) s d by (simp add: segwit_encode_def ints_of_def)
  ultimately show ?thesis by (simp add: ints_of_def)
qed

theorem segwit_encode_total_witness:
  "\<exists>s. segwit_encode ''tb'' 0 (replicate 20 9) = Inr (Some s)
     \<and> segwit_decode ''tb'' s = Inr (Some (0, map (\<lambda>b. int (unat b)) (replicate 20 (9 :: byte))))"
  by (rule segwit_encode_total) (simp_all add: printable_nat lower_char_def)

end
