(* ===== verification/Tx.thy ===== *)
theory Tx
  imports Script Serialize
begin

text \<open>
  \<open>hwilib/tx.py\<close>: the transaction objects. An object is a record of its attributes; a method that
  changes the object returns the changed record. \<open>deserialize\<close> either returns the read object or
  raises, and what it leaves in the object when it raises is not kept, because every caller lets the
  exception through.
\<close>

section \<open>Fixed-width fields\<close>

definition u32_ok :: "int \<Rightarrow> bool" where
  "u32_ok x \<longleftrightarrow> 0 \<le> x \<and> x < 2 ^ 32"

definition i32_ok :: "int \<Rightarrow> bool" where
  "i32_ok x \<longleftrightarrow> - (2 ^ 31) \<le> x \<and> x < 2 ^ 31"

definition i64_ok :: "int \<Rightarrow> bool" where
  "i64_ok x \<longleftrightarrow> - (2 ^ 63) \<le> x \<and> x < 2 ^ 63"

interpretation u32: codec "pack_le 4" "rd_unpack 4" u32_ok
proof unfold_locales
  fix x assume "u32_ok x"
  then show "\<exists>bs. pack_le 4 x = Inr bs" by (simp add: u32_ok_def)
next
  fix x bs rest assume "u32_ok x" "pack_le 4 x = Inr bs"
  then show "rd_unpack 4 (bs @ rest) = (Inr x, rest)"
    by (auto simp: rd_unpack_append unpack_pack_le)
qed

interpretation i32: codec "pack_les 4" "rd_unpack_s 4" i32_ok
proof unfold_locales
  fix x assume "i32_ok x"
  then show "\<exists>bs. pack_les 4 x = Inr bs" by (simp add: i32_ok_def)
next
  fix x bs rest assume "i32_ok x" "pack_les 4 x = Inr bs"
  then show "rd_unpack_s 4 (bs @ rest) = (Inr x, rest)"
    using unpack_pack_les [of 4 x] by (auto simp: rd_unpack_s_append)
qed

interpretation i64: codec "pack_les 8" "rd_unpack_s 8" i64_ok
proof unfold_locales
  fix x assume "i64_ok x"
  then show "\<exists>bs. pack_les 8 x = Inr bs" by (simp add: i64_ok_def)
next
  fix x bs rest assume "i64_ok x" "pack_les 8 x = Inr bs"
  then show "rd_unpack_s 8 (bs @ rest) = (Inr x, rest)"
    using unpack_pack_les [of 8 x] by (auto simp: rd_unpack_s_append)
qed

section \<open>Outpoints, inputs and outputs\<close>

record COutPoint =
  op_hash :: int
  op_n :: int

definition COutPoint_new :: COutPoint where
  "COutPoint_new = \<lparr>op_hash = 0, op_n = 0xffffffff\<rparr>"

definition outpoint_deserialize :: "COutPoint reader" where
  "outpoint_deserialize =
     rd_bind deser_uint256 (\<lambda>h. rd_bind (rd_unpack 4) (\<lambda>n. rd_ret \<lparr>op_hash = h, op_n = n\<rparr>))"

definition outpoint_serialize :: "COutPoint \<Rightarrow> bytes result" where
  "outpoint_serialize p = res_concat [ser_uint256 (op_hash p), pack_le 4 (op_n p)]"

record CTxIn =
  prevout :: COutPoint
  scriptSig :: bytes
  nSequence :: int

definition txin_new :: "COutPoint option \<Rightarrow> bytes \<Rightarrow> int \<Rightarrow> CTxIn" where
  "txin_new outpoint sig sq =
     \<lparr>prevout = (case outpoint of None \<Rightarrow> COutPoint_new | Some p \<Rightarrow> p), scriptSig = sig, nSequence = sq\<rparr>"

definition txin_deserialize :: "CTxIn reader" where
  "txin_deserialize =
     rd_bind outpoint_deserialize (\<lambda>p.
     rd_bind deser_string (\<lambda>s.
     rd_bind (rd_unpack 4) (\<lambda>q. rd_ret \<lparr>prevout = p, scriptSig = s, nSequence = q\<rparr>)))"

definition txin_serialize :: "CTxIn \<Rightarrow> bytes result" where
  "txin_serialize i =
     res_concat [outpoint_serialize (prevout i), ser_string (scriptSig i), pack_le 4 (nSequence i)]"

record CTxOut =
  nValue :: int
  scriptPubKey :: bytes

definition txout_new :: "int \<Rightarrow> bytes \<Rightarrow> CTxOut" where
  "txout_new v spk = \<lparr>nValue = v, scriptPubKey = spk\<rparr>"

definition txout_deserialize :: "CTxOut reader" where
  "txout_deserialize =
     rd_bind (rd_unpack_s 8) (\<lambda>v. rd_bind deser_string (\<lambda>s. rd_ret \<lparr>nValue = v, scriptPubKey = s\<rparr>))"

definition txout_serialize :: "CTxOut \<Rightarrow> bytes result" where
  "txout_serialize out = res_concat [pack_les 8 (nValue out), ser_string (scriptPubKey out)]"

definition txout_is_opreturn :: "CTxOut \<Rightarrow> bool result" where
  "txout_is_opreturn out = is_opreturn (scriptPubKey out)"

definition txout_is_p2sh :: "CTxOut \<Rightarrow> bool" where
  "txout_is_p2sh out = is_p2sh (scriptPubKey out)"

definition txout_is_p2wsh :: "CTxOut \<Rightarrow> bool" where
  "txout_is_p2wsh out = is_p2wsh (scriptPubKey out)"

definition txout_is_p2pkh :: "CTxOut \<Rightarrow> bool" where
  "txout_is_p2pkh out = is_p2pkh (scriptPubKey out)"

definition txout_is_p2pk :: "CTxOut \<Rightarrow> bool" where
  "txout_is_p2pk out = is_p2pk (scriptPubKey out)"

definition txout_is_witness :: "CTxOut \<Rightarrow> bool \<times> int \<times> bytes" where
  "txout_is_witness out = is_witness (scriptPubKey out)"

section \<open>Witnesses\<close>

record CScriptWitness =
  stack :: "bytes list"

definition script_witness_is_null :: "CScriptWitness \<Rightarrow> bool" where
  "script_witness_is_null w \<longleftrightarrow> stack w = []"

record CTxInWitness =
  scriptWitness :: CScriptWitness

definition CTxInWitness_new :: CTxInWitness where
  "CTxInWitness_new = \<lparr>scriptWitness = \<lparr>stack = []\<rparr>\<rparr>"

definition inwit_deserialize :: "CTxInWitness reader" where
  "inwit_deserialize = rd_bind deser_string_vector (\<lambda>st. rd_ret \<lparr>scriptWitness = \<lparr>stack = st\<rparr>\<rparr>)"

definition inwit_serialize :: "CTxInWitness \<Rightarrow> bytes result" where
  "inwit_serialize w = ser_string_vector (stack (scriptWitness w))"

definition inwit_is_null :: "CTxInWitness \<Rightarrow> bool" where
  "inwit_is_null w = script_witness_is_null (scriptWitness w)"

record CTxWitness =
  vtxinwit :: "CTxInWitness list"

text \<open>One element is read for each the object already holds; the length is not on the wire.\<close>

definition txwit_deserialize :: "CTxWitness \<Rightarrow> CTxWitness reader" where
  "txwit_deserialize w =
     rd_bind (rd_rep (length (vtxinwit w)) inwit_deserialize) (\<lambda>ws. rd_ret \<lparr>vtxinwit = ws\<rparr>)"

definition txwit_serialize :: "CTxWitness \<Rightarrow> bytes result" where
  "txwit_serialize w = res_concat (map inwit_serialize (vtxinwit w))"

definition txwit_is_null :: "CTxWitness \<Rightarrow> bool" where
  "txwit_is_null w \<longleftrightarrow> list_all inwit_is_null (vtxinwit w)"

section \<open>Transactions\<close>

record CTransaction =
  nVersion :: int
  vin :: "CTxIn list"
  vout :: "CTxOut list"
  wit :: CTxWitness
  nLockTime :: int
  tx_sha256 :: "int option"
  tx_hash :: "bytes option"

definition CTransaction_new :: CTransaction where
  "CTransaction_new = \<lparr>nVersion = 1, vin = [], vout = [], wit = \<lparr>vtxinwit = []\<rparr>, nLockTime = 0,
     tx_sha256 = None, tx_hash = None\<rparr>"

definition tx_deserialize :: "CTransaction \<Rightarrow> CTransaction reader" where
  "tx_deserialize self =
     rd_bind (rd_unpack_s 4) (\<lambda>ver.
     rd_bind (deser_vector txin_deserialize) (\<lambda>ins.
     rd_bind
       (if length ins = 0 then
          rd_bind (rd_unpack 1) (\<lambda>flags.
          if flags \<noteq> 0 then
            rd_bind (deser_vector txin_deserialize) (\<lambda>ins.
            rd_bind (deser_vector txout_deserialize) (\<lambda>outs. rd_ret (flags, ins, outs)))
          else rd_ret (flags, ins, vout self))
        else rd_bind (deser_vector txout_deserialize) (\<lambda>outs. rd_ret (0, ins, outs)))
       (\<lambda>(flags, ins, outs).
     rd_bind
       (if flags \<noteq> 0
        then txwit_deserialize \<lparr>vtxinwit = replicate (length ins) CTxInWitness_new\<rparr>
        else rd_ret (wit self)) (\<lambda>w.
     rd_bind (rd_unpack 4) (\<lambda>lock.
     rd_ret \<lparr>nVersion = ver, vin = ins, vout = outs, wit = w, nLockTime = lock,
       tx_sha256 = None, tx_hash = None\<rparr>)))))"

definition tx_deserialize_without_witness :: "CTransaction reader" where
  "tx_deserialize_without_witness =
     rd_bind (rd_unpack_s 4) (\<lambda>ver.
     rd_bind (deser_vector txin_deserialize) (\<lambda>ins.
     rd_bind (deser_vector txout_deserialize) (\<lambda>outs.
     rd_bind (rd_unpack 4) (\<lambda>lock.
     rd_ret \<lparr>nVersion = ver, vin = ins, vout = outs, wit = \<lparr>vtxinwit = []\<rparr>, nLockTime = lock,
       tx_sha256 = None, tx_hash = None\<rparr>))))"

definition tx_serialize_without_witness :: "CTransaction \<Rightarrow> bytes result" where
  "tx_serialize_without_witness tx =
     res_concat [pack_les 4 (nVersion tx), ser_vector txin_serialize (vin tx),
       ser_vector txout_serialize (vout tx), pack_le 4 (nLockTime tx)]"

text \<open>
  When there is a witness, its list is cut or padded to the length of the inputs before it is written,
  in the object itself. \<open>ser_vector([])\<close> is the marker byte.
\<close>

definition pad_witness :: "CTransaction \<Rightarrow> CTransaction" where
  "pad_witness tx =
     (if length (vtxinwit (wit tx)) \<noteq> length (vin tx)
      then let ws = take (length (vin tx)) (vtxinwit (wit tx))
           in tx\<lparr>wit := \<lparr>vtxinwit = ws @ replicate (length (vin tx) - length ws) CTxInWitness_new\<rparr>\<rparr>
      else tx)"

definition tx_serialize_with_witness :: "CTransaction \<Rightarrow> bytes result \<times> CTransaction" where
  "tx_serialize_with_witness tx =
     (let flags = (if txwit_is_null (wit tx) then 0 else 1 :: int);
          front = res_concat
            ([pack_les 4 (nVersion tx)]
             @ (if flags \<noteq> 0 then [ser_vector txin_serialize [], pack_le 1 flags] else [])
             @ [ser_vector txin_serialize (vin tx), ser_vector txout_serialize (vout tx)])
      in case front of
           Inl e \<Rightarrow> (Inl e, tx)
         | Inr r \<Rightarrow>
             if flags AND 1 \<noteq> 0 then
               let tx = pad_witness tx
               in (res_concat [Inr r, txwit_serialize (wit tx), pack_le 4 (nLockTime tx)], tx)
             else (res_concat [Inr r, pack_le 4 (nLockTime tx)], tx))"

definition tx_serialize :: "CTransaction \<Rightarrow> bytes result" where
  "tx_serialize tx = tx_serialize_without_witness tx"

text \<open>\<open>calc_sha256\<close> returns \<open>None\<close> unless the witness is asked for, and caches the transaction id.\<close>

definition tx_calc_sha256 :: "crypto \<Rightarrow> bool \<Rightarrow> CTransaction \<Rightarrow> int option result \<times> CTransaction" where
  "tx_calc_sha256 cr with_witness tx =
     (if with_witness then
        (case tx_serialize_with_witness tx of
           (Inl e, tx) \<Rightarrow> (Inl e, tx)
         | (Inr b, tx) \<Rightarrow> (res_bind (uint256_from_str (hash256 cr b)) (\<lambda>u. Inr (Some u)), tx))
      else
        case (if tx_sha256 tx = None
              then res_bind (tx_serialize_without_witness tx) (\<lambda>b.
                   res_bind (uint256_from_str (hash256 cr b)) (\<lambda>u. Inr (tx\<lparr>tx_sha256 := Some u\<rparr>)))
              else Inr tx) of
          Inl e \<Rightarrow> (Inl e, tx)
        | Inr tx \<Rightarrow>
            (case tx_serialize tx of
               Inl e \<Rightarrow> (Inl e, tx)
             | Inr b \<Rightarrow> (Inr None, tx\<lparr>tx_hash := Some (hash256 cr b)\<rparr>)))"

definition tx_rehash :: "crypto \<Rightarrow> CTransaction \<Rightarrow> unit result \<times> CTransaction" where
  "tx_rehash cr tx =
     (case tx_calc_sha256 cr False (tx\<lparr>tx_sha256 := None\<rparr>) of
        (r, tx) \<Rightarrow> (res_bind r (\<lambda>_. Inr ()), tx))"

definition tx_is_null :: "CTransaction \<Rightarrow> bool" where
  "tx_is_null tx \<longleftrightarrow> length (vin tx) = 0 \<and> length (vout tx) = 0"

section \<open>Every object is a codec\<close>

lemmas tx_codecs = u32.enc_encoding u32.dec_encoding i32.enc_encoding i32.dec_encoding
  i64.enc_encoding i64.dec_encoding uint256.enc_encoding uint256.dec_encoding
  str.enc_encoding str.dec_encoding str_vec.enc_encoding str_vec.dec_encoding

definition outpoint_ok :: "COutPoint \<Rightarrow> bool" where
  "outpoint_ok p \<longleftrightarrow> uint256_ok (op_hash p) \<and> u32_ok (op_n p)"

interpretation outpoint: codec outpoint_serialize outpoint_deserialize outpoint_ok
  by unfold_locales
    (auto simp: outpoint_ok_def outpoint_serialize_def outpoint_deserialize_def res_concat_Cons rd_bind_def tx_codecs)

definition txin_ok :: "CTxIn \<Rightarrow> bool" where
  "txin_ok i \<longleftrightarrow> outpoint_ok (prevout i) \<and> string_ok (scriptSig i) \<and> u32_ok (nSequence i)"

interpretation txin: codec txin_serialize txin_deserialize txin_ok
  by unfold_locales
    (auto simp: txin_ok_def txin_serialize_def txin_deserialize_def res_concat_Cons rd_bind_def tx_codecs
      outpoint.enc_encoding outpoint.dec_encoding)

definition txout_ok :: "CTxOut \<Rightarrow> bool" where
  "txout_ok out \<longleftrightarrow> i64_ok (nValue out) \<and> string_ok (scriptPubKey out)"

interpretation txout: codec txout_serialize txout_deserialize txout_ok
  by unfold_locales
    (auto simp: txout_ok_def txout_serialize_def txout_deserialize_def res_concat_Cons rd_bind_def tx_codecs)

definition inwit_ok :: "CTxInWitness \<Rightarrow> bool" where
  "inwit_ok w \<longleftrightarrow> str.vector_ok (stack (scriptWitness w))"

interpretation inwit: codec inwit_serialize inwit_deserialize inwit_ok
  by unfold_locales
    (auto simp: inwit_ok_def inwit_serialize_def inwit_deserialize_def rd_bind_def tx_codecs)

interpretation txins: codec "ser_vector txin_serialize" "deser_vector txin_deserialize" txin.vector_ok
  by (rule txin.vector_codec)

interpretation txouts: codec "ser_vector txout_serialize" "deser_vector txout_deserialize" txout.vector_ok
  by (rule txout.vector_codec)

text \<open>The witness list is a sequence without a length.\<close>

lemma txwit_round_trip:
  assumes "list_all inwit_ok (vtxinwit w)" and "length (vtxinwit w0) = length (vtxinwit w)"
  shows "\<exists>bs. txwit_serialize w = Inr bs \<and> (\<forall>rest. txwit_deserialize w0 (bs @ rest) = (Inr w, rest))"
  using assms inwit.rep_encodings [OF assms(1)]
  by (simp add: txwit_serialize_def txwit_deserialize_def inwit.concat_encodings rd_bind_def)

lemmas tx_vectors = txins.enc_encoding txins.dec_encoding txouts.enc_encoding txouts.dec_encoding

text \<open>The transactions whose fields fit the wire format.\<close>

definition tx_ok :: "CTransaction \<Rightarrow> bool" where
  "tx_ok tx \<longleftrightarrow> i32_ok (nVersion tx) \<and> txin.vector_ok (vin tx) \<and> txout.vector_ok (vout tx)
     \<and> list_all inwit_ok (vtxinwit (wit tx)) \<and> u32_ok (nLockTime tx)"

lemma tx_without_witness_eq:
  "tx_ok tx \<Longrightarrow> tx_serialize_without_witness tx = Inr (i32.encoding (nVersion tx)
     @ txins.encoding (vin tx) @ txouts.encoding (vout tx) @ u32.encoding (nLockTime tx))"
  by (simp add: tx_ok_def tx_serialize_without_witness_def res_concat_Cons tx_codecs tx_vectors)

lemma deserialize_without_witness_eq:
  "tx_ok tx \<Longrightarrow> tx_deserialize_without_witness (i32.encoding (nVersion tx)
     @ txins.encoding (vin tx) @ txouts.encoding (vout tx) @ u32.encoding (nLockTime tx) @ rest)
   = (Inr (tx\<lparr>wit := \<lparr>vtxinwit = []\<rparr>, tx_sha256 := None, tx_hash := None\<rparr>), rest)"
  by (simp add: tx_ok_def tx_deserialize_without_witness_def rd_bind_def tx_codecs tx_vectors)

lemma consumes_tx [consumes_intros]:
  "consumes outpoint_deserialize" "consumes txin_deserialize" "consumes txout_deserialize"
  "consumes inwit_deserialize" "consumes (txwit_deserialize w)"
  "consumes (tx_deserialize t)" "consumes tx_deserialize_without_witness"
  unfolding outpoint_deserialize_def txin_deserialize_def txout_deserialize_def inwit_deserialize_def
    txwit_deserialize_def tx_deserialize_def tx_deserialize_without_witness_def
  by (intro consumes_intros)+

text \<open>
  the regular serialization of a transaction, and the reader that expects no witness, are inverse:
  a transaction whose fields fit the wire format is written, reading it takes back exactly the bytes
  written, and gives the same transaction without its witness and caches. The bytes do not depend on
  the witness.
\<close>

theorem tx_round_trip_without_witness:
  assumes "tx_ok tx"
  shows "\<exists>bs. tx_serialize tx = Inr bs
    \<and> (\<forall>rest. tx_deserialize_without_witness (bs @ rest)
         = (Inr (tx\<lparr>wit := \<lparr>vtxinwit = []\<rparr>, tx_sha256 := None, tx_hash := None\<rparr>), rest))
    \<and> (\<forall>w. tx_serialize (tx\<lparr>wit := w\<rparr>) = Inr bs)"
proof -
  have "tx_serialize (tx\<lparr>wit := w\<rparr>) = tx_serialize tx" for w
    by (simp add: tx_serialize_def tx_serialize_without_witness_def)
  then show ?thesis
    using assms by (simp add: tx_serialize_def tx_without_witness_eq deserialize_without_witness_eq)
qed

definition example_tx :: CTransaction where
  "example_tx = \<lparr>nVersion = 2, vin = [txin_new None [1, 2] 0xfffffffd], vout = [txout_new 5000 [0x51]],
     wit = \<lparr>vtxinwit = [\<lparr>scriptWitness = \<lparr>stack = [[3], []]\<rparr>\<rparr>]\<rparr>, nLockTime = 7, tx_sha256 = None, tx_hash = None\<rparr>"

lemma example_tx_ok: "tx_ok example_tx"
  by (simp add: tx_ok_def example_tx_def txin_new_def txout_new_def COutPoint_new_def txin.vector_ok_def
      txout.vector_ok_def str.vector_ok_def inwit_ok_def txin_ok_def txout_ok_def outpoint_ok_def
      uint256_ok_def u32_ok_def i32_ok_def i64_ok_def string_ok_def)

theorem tx_round_trip_without_witness_witness:
  "\<exists>bs. tx_serialize example_tx = Inr bs \<and> tx_deserialize_without_witness (bs @ [9])
     = (Inr (example_tx\<lparr>wit := \<lparr>vtxinwit = []\<rparr>, tx_sha256 := None, tx_hash := None\<rparr>), [9])"
  using tx_round_trip_without_witness [OF example_tx_ok] by blast

lemma empty_vectors: "txins.encoding [] = [0]" "txouts.encoding [] = [0]"
  by (simp_all add: txins.encoding_def txouts.encoding_def ser_vector_def ser_compact_size_def res_concat_Cons)

lemma rd_unpack_one: "rd_unpack 1 (b # s) = (Inr (int (unat b)), s)"
  using rd_unpack_append [of 1 "[b]" s] by (simp add: unpack_le_def)

lemma inwit_ok_new [simp]: "inwit_ok CTxInWitness_new"
  by (simp add: inwit_ok_def CTxInWitness_new_def str.vector_ok_def)

lemma pad_witness_facts:
  assumes "tx_ok tx"
  shows "tx_ok (pad_witness tx)" "length (vtxinwit (wit (pad_witness tx))) = length (vin tx)"
    "nVersion (pad_witness tx) = nVersion tx" "vin (pad_witness tx) = vin tx" "vout (pad_witness tx) = vout tx"
    "nLockTime (pad_witness tx) = nLockTime tx"
  using assms by (auto simp: pad_witness_def tx_ok_def Let_def list_all_iff dest: in_set_takeD)

lemma with_witness_null:
  "txwit_is_null (wit tx) \<Longrightarrow> tx_serialize_with_witness tx = (tx_serialize_without_witness tx, tx)"
  by (cases "pack_les 4 (nVersion tx)"; cases "ser_vector txin_serialize (vin tx)";
      cases "ser_vector txout_serialize (vout tx)"; cases "pack_le 4 (nLockTime tx)")
    (simp_all add: tx_serialize_with_witness_def tx_serialize_without_witness_def res_concat_Cons
      del: pack_le_eq_Inr pack_les_eq_Inr)

lemma with_witness_eq:
  assumes ok: "tx_ok tx" and w: "\<not> txwit_is_null (wit tx)"
    and b: "txwit_serialize (wit (pad_witness tx)) = Inr b"
  shows "tx_serialize_with_witness tx = (Inr (i32.encoding (nVersion tx) @ [0, 1]
     @ txins.encoding (vin tx) @ txouts.encoding (vout tx) @ b @ u32.encoding (nLockTime tx)), pad_witness tx)"
proof -
  have v: "txin.vector_ok []" by (simp add: txin.vector_ok_def)
  have "ser_vector txin_serialize [] = Inr [0]"
    using txins.enc_encoding [OF v] by (simp add: empty_vectors)
  then show ?thesis
    using ok w b by (simp add: tx_ok_def tx_serialize_with_witness_def res_concat_Cons tx_codecs tx_vectors
        Let_def pad_witness_facts)
qed

text \<open>What reading back gives: the witness list is as long as the inputs, or empty if there is nothing in it.\<close>

definition tx_normal :: "CTransaction \<Rightarrow> CTransaction" where
  "tx_normal tx = (if txwit_is_null (wit tx) then tx\<lparr>wit := \<lparr>vtxinwit = []\<rparr>\<rparr> else pad_witness tx)
     \<lparr>tx_sha256 := None, tx_hash := None\<rparr>"

lemma tx_round_trip_with_witness_lemma:
  assumes ok: "tx_ok tx" and marker: "vin tx = [] \<Longrightarrow> vout tx = [] \<or> \<not> txwit_is_null (wit tx)"
  shows "\<exists>bs. fst (tx_serialize_with_witness tx) = Inr bs
    \<and> (\<forall>rest. tx_deserialize CTransaction_new (bs @ rest) = (Inr (tx_normal tx), rest))
    \<and> (txwit_is_null (wit tx) \<longrightarrow> tx_serialize tx = Inr bs)"
proof (cases "txwit_is_null (wit tx)")
  case True
  let ?bs = "i32.encoding (nVersion tx) @ txins.encoding (vin tx) @ txouts.encoding (vout tx)
     @ u32.encoding (nLockTime tx)"
  have "tx_deserialize CTransaction_new (?bs @ rest) = (Inr (tx_normal tx), rest)" for rest
  proof (cases "vin tx = []")
    case vin: True
    then have "vout tx = []" using marker True by blast
    with ok True vin show ?thesis
      using txins.dec_encoding [of "[]"] rd_unpack_one [of 0]
      by (simp add: tx_ok_def tx_deserialize_def rd_bind_def tx_codecs tx_normal_def empty_vectors CTransaction_new_def)
  next
    case False
    with ok True show ?thesis
      by (simp add: tx_ok_def tx_deserialize_def rd_bind_def tx_codecs tx_vectors tx_normal_def CTransaction_new_def)
  qed
  then show ?thesis
    using ok True by (intro exI [of _ ?bs]) (simp add: with_witness_null tx_without_witness_eq tx_serialize_def)
next
  case False
  let ?tx = "pad_witness tx" and ?w0 = "\<lparr>vtxinwit = replicate (length (vin tx)) CTxInWitness_new\<rparr>"
  note pad = pad_witness_facts [OF ok]
  obtain b where b: "txwit_serialize (wit ?tx) = Inr b"
    "\<And>rest. txwit_deserialize ?w0 (b @ rest) = (Inr (wit ?tx), rest)"
    using txwit_round_trip [of "wit ?tx" ?w0] pad by (auto simp: tx_ok_def)
  let ?bs = "i32.encoding (nVersion tx) @ [0, 1] @ txins.encoding (vin tx) @ txouts.encoding (vout tx)
     @ b @ u32.encoding (nLockTime tx)"
  have v: "txin.vector_ok []" by (simp add: txin.vector_ok_def)
  have "deser_vector txin_deserialize (0 # s) = (Inr [], s)" for s
    using txins.dec_encoding [OF v, of s] by (simp add: empty_vectors)
  moreover have "rd_unpack 1 (1 # s) = (Inr 1, s)" for s using rd_unpack_one [of 1 s] by simp
  ultimately have "tx_deserialize CTransaction_new (?bs @ rest) = (Inr (tx_normal tx), rest)" for rest
    using ok False b(2) pad
    by (cases "pad_witness tx") (simp add: tx_ok_def tx_deserialize_def rd_bind_def tx_codecs tx_vectors tx_normal_def)
  then show ?thesis
    using with_witness_eq [OF ok False b(1)] False by (intro exI [of _ ?bs]) simp
qed

text \<open>
  C6: the serialization with witness and the general reader are inverse: for a transaction whose fields
  fit the wire format, and which has an input if it has an output (a transaction without inputs reads
  as the segwit marker), reading takes back exactly the bytes written and gives the same transaction,
  its witness list cut or padded to one entry for each input, or empty when it holds nothing; in that
  case the bytes are those of the regular serialization.
\<close>

theorem tx_round_trip_with_witness:
  assumes ok: "tx_ok tx" and marker: "vin tx = [] \<Longrightarrow> vout tx = [] \<or> \<not> txwit_is_null (wit tx)"
  shows "\<exists>bs. fst (tx_serialize_with_witness tx) = Inr bs
    \<and> (\<forall>rest. tx_deserialize CTransaction_new (bs @ rest) = (Inr (tx_normal tx), rest))
    \<and> (txwit_is_null (wit tx) \<longrightarrow> tx_serialize tx = Inr bs)"
  using assms by (rule tx_round_trip_with_witness_lemma)

theorem tx_round_trip_with_witness_witness:
  "\<exists>bs. fst (tx_serialize_with_witness example_tx) = Inr bs
     \<and> tx_deserialize CTransaction_new (bs @ [9]) = (Inr (tx_normal example_tx), [9])"
  using tx_round_trip_with_witness [OF example_tx_ok] by (auto simp: example_tx_def)

lemma tx_rehash_ok:
  assumes "crypto_ok cr" and "tx_ok tx"
  shows "fst (tx_rehash cr tx) = Inr ()"
    and "tx_hash (snd (tx_rehash cr tx)) = Some (hash256 cr (case tx_serialize_without_witness tx of Inr b \<Rightarrow> b | Inl _ \<Rightarrow> []))"
proof -
  obtain bs where bs: "tx_serialize_without_witness tx = Inr bs" using tx_without_witness_eq [OF assms(2)] by blast
  have same: "tx_serialize_without_witness (tx\<lparr>tx_sha256 := c\<rparr>) = Inr bs" for c
    using bs by (simp add: tx_serialize_without_witness_def)
  have "uint256_from_str (hash256 cr bs) = Inr (int (le_val (hash256 cr bs)))"
    using assms(1) by (intro uint256_from_str_eq) simp
  then show "fst (tx_rehash cr tx) = Inr ()"
    and "tx_hash (snd (tx_rehash cr tx)) = Some (hash256 cr (case tx_serialize_without_witness tx of Inr b \<Rightarrow> b | Inl _ \<Rightarrow> []))"
    using same bs by (simp_all add: tx_rehash_def tx_calc_sha256_def tx_serialize_def)
qed

text \<open>
  Rehash computes the transaction id: whatever the caches held, afterwards hash is the double
  SHA-256 of the serialization without witness and sha256 the same 32 bytes as an integer, so changing
  the witness does not change them; calc_sha256 without rehash keeps a cached integer, and asked for the
  hash with witness it returns that hash and leaves the caches as they are.
\<close>

theorem tx_rehash_txid:
  assumes "crypto_ok cr" and "tx_ok tx"
  shows "\<exists>bs u. tx_serialize_without_witness tx = Inr bs \<and> ser_uint256 u = Inr (hash256 cr bs)
    \<and> (\<forall>w c h. tx_rehash cr (tx\<lparr>wit := w, tx_sha256 := c, tx_hash := h\<rparr>)
         = (Inr (), tx\<lparr>wit := w, tx_sha256 := Some u, tx_hash := Some (hash256 cr bs)\<rparr>))
    \<and> (\<forall>c. tx_calc_sha256 cr False (tx\<lparr>tx_sha256 := Some c\<rparr>)
         = (Inr None, tx\<lparr>tx_sha256 := Some c, tx_hash := Some (hash256 cr bs)\<rparr>))
    \<and> (\<forall>v. fst (tx_calc_sha256 cr True tx) = Inr v \<longrightarrow>
         (\<exists>ws. fst (tx_serialize_with_witness tx) = Inr ws \<and> v = Some (int (le_val (hash256 cr ws))))
         \<and> tx_sha256 (snd (tx_calc_sha256 cr True tx)) = tx_sha256 tx
         \<and> tx_hash (snd (tx_calc_sha256 cr True tx)) = tx_hash tx)"
proof -
  obtain bs where bs: "tx_serialize_without_witness tx = Inr bs" using tx_without_witness_eq [OF assms(2)] by blast
  define u where "u = int (le_val (hash256 cr bs))"
  have h: "uint256_from_str (hash256 cr b) = Inr (int (le_val (hash256 cr b)))" for b
    using assms(1) by (intro uint256_from_str_eq) simp
  have u: "ser_uint256 u = Inr (hash256 cr bs)"
  proof -
    have l: "length (hash256 cr bs) = 32" using assms(1) by simp
    then have "le_val (hash256 cr bs) < 2 ^ 256" using le_val_less [of "hash256 cr bs"] by simp
    then have "u mod 2 ^ 256 = u" by (simp add: u_def)
    then show ?thesis using le_bytes_le_val [of "hash256 cr bs"] l by (simp add: ser_uint256_eq u_def)
  qed
  have same: "tx_serialize_without_witness (tx\<lparr>wit := w, tx_sha256 := c, tx_hash := h\<rparr>) = Inr bs" for w c h
    using bs by (simp add: tx_serialize_without_witness_def)
  have p: "tx_sha256 (snd (tx_serialize_with_witness t)) = tx_sha256 t
      \<and> tx_hash (snd (tx_serialize_with_witness t)) = tx_hash t" for t
    by (auto simp: tx_serialize_with_witness_def pad_witness_def Let_def split: sum.splits)
  show ?thesis
    apply (rule exI [of _ bs], rule exI [of _ u])
    using bs u same h p [of tx]
    by (auto simp: tx_rehash_def tx_calc_sha256_def tx_serialize_def u_def tx_serialize_without_witness_def
        split: prod.splits sum.splits)
qed

theorem tx_rehash_txid_witness:
  "\<exists>bs u. tx_serialize_without_witness example_tx = Inr bs \<and> ser_uint256 u = Inr (hash256 pad_crypto bs)
    \<and> tx_rehash pad_crypto example_tx
         = (Inr (), example_tx\<lparr>tx_sha256 := Some u, tx_hash := Some (hash256 pad_crypto bs)\<rparr>)"
proof -
  have e: "example_tx = example_tx\<lparr>wit := wit example_tx, tx_sha256 := None, tx_hash := None\<rparr>"
    by (simp add: example_tx_def)
  have f: "example_tx\<lparr>wit := wit example_tx, tx_sha256 := a, tx_hash := b\<rparr> = example_tx\<lparr>tx_sha256 := a, tx_hash := b\<rparr>" for a b
    by simp
  show ?thesis using tx_rehash_txid [OF crypto_ok_pad_crypto example_tx_ok] e f by metis
qed

end
