(* ===== verification/Key.thy ===== *)
theory Key
  imports Base58
begin

text \<open>
  \<open>hwilib/key.py\<close>: arithmetic on the curve secp256k1, BIP 32 extended keys, key origins, derivation
  paths as strings and BIP 44 paths. Integers are Python's unbounded integers.
\<close>

section \<open>Hardened indexes\<close>

definition HARDENED_FLAG :: int where
  "HARDENED_FLAG = 2 ^ 31"

definition harden :: "int \<Rightarrow> int" where
  "harden x = x OR HARDENED_FLAG"

definition is_hardened :: "int \<Rightarrow> bool" where
  "is_hardened i \<longleftrightarrow> i AND HARDENED_FLAG \<noteq> 0"

section \<open>The curve\<close>

definition EC_p :: int where
  "EC_p = 0xFFFFFFFFFFFFFFFFFFFFFFFFFFFFFFFFFFFFFFFFFFFFFFFFFFFFFFFEFFFFFC2F"

definition EC_n :: int where
  "EC_n = 0xFFFFFFFFFFFFFFFFFFFFFFFFFFFFFFFEBAAEDCE6AF48A03BBFD25E8CD0364141"

type_synonym Point = "(int \<times> int) option"

definition EC_G :: Point where
  "EC_G = Some (0x79BE667EF9DCBBAC55A06295CE870B07029BFCDB2DCE28D959F2815B16F81798,
     0x483ADA7726A3C4655DA4FBFC0E1108A8FD17B448A68554199C47D08FFB10D4B8)"

text \<open>\<open>pow(a, e, m)\<close>, by repeated squaring.\<close>

fun py_pow :: "int \<Rightarrow> nat \<Rightarrow> int \<Rightarrow> int" where
  "py_pow a e m =
     (if e = 0 then 1 mod m
      else let r = py_pow (a * a mod m) (e div 2) m in if odd e then a * r mod m else r)"

declare py_pow.simps [simp del]

definition point_add :: "Point \<Rightarrow> Point \<Rightarrow> Point" where
  "point_add p1 p2 =
     (case p1 of None \<Rightarrow> p2 | Some (x1, y1) \<Rightarrow>
      case p2 of None \<Rightarrow> p1 | Some (x2, y2) \<Rightarrow>
        if x1 = x2 \<and> y1 \<noteq> y2 then None
        else
          let lam = (if (x1, y1) = (x2, y2)
                     then (3 * x1 * x1 * py_pow (2 * y1) (nat (EC_p - 2)) EC_p) mod EC_p
                     else ((y2 - y1) * py_pow (x2 - x1) (nat (EC_p - 2)) EC_p) mod EC_p);
              x3 = (lam * lam - x1 - x2) mod EC_p
          in Some (x3, (lam * (x1 - x3) - y1) mod EC_p))"

text \<open>The loop over \<open>range(256)\<close>, from bit \<open>i\<close> on with \<open>k\<close> rounds left.\<close>

fun point_mul_loop :: "nat \<Rightarrow> nat \<Rightarrow> Point \<Rightarrow> int \<Rightarrow> Point \<Rightarrow> Point" where
  "point_mul_loop i 0 p n r = r"
| "point_mul_loop i (Suc k) p n r =
     (let r = (if drop_bit i n AND 1 \<noteq> 0 then point_add r p else r); p = point_add p p
      in point_mul_loop (Suc i) k p n r)"

definition point_mul :: "Point \<Rightarrow> int \<Rightarrow> Point" where
  "point_mul p n = point_mul_loop 0 256 p n None"

definition deserialize_point :: "bytes \<Rightarrow> Point result" where
  "deserialize_point b =
     (let x = int (be_val (drop 1 b));
          y = py_pow ((x * x * x + 7) mod EC_p) (nat ((EC_p + 1) div 4)) EC_p
      in res_bind (py_nth b 0) (\<lambda>b0.
         let y = (if y AND 1 \<noteq> int (unat b0) AND 1 then EC_p - y else y) in Inr (Some (x, y))))"

text \<open>\<open>int(s, 16)\<close> of what \<open>hexlify\<close> returned: only the empty string is no number.\<close>

definition py_int16 :: "string \<Rightarrow> int result" where
  "py_int16 s = (if s = [] then Inl (ValueErr ''invalid literal for int() with base 16'') else Inr (int (int_of_hex s)))"

text \<open>The chained assignments overwrite \<open>point_bytes\<close> before the second slice is taken.\<close>

definition bytes_to_point :: "bytes \<Rightarrow> Point result" where
  "bytes_to_point point_bytes =
     res_bind (py_nth point_bytes 0) (\<lambda>header.
     if header = 4 then
       let x = py_slice 1 33 point_bytes; point_bytes = x;
           y = py_slice 33 65 point_bytes; point_bytes = y
       in res_bind (py_int16 (hexlify x)) (\<lambda>xi. res_bind (py_int16 (hexlify y)) (\<lambda>yi. Inr (Some (xi, yi))))
     else deserialize_point point_bytes)"

definition int_to_bytes32 :: "int \<Rightarrow> bytes result" where
  "int_to_bytes32 x = (if 0 \<le> x \<and> x < 256 ^ 32 then Inr (be_bytes 32 (nat x)) else Inl OverflowErr)"

definition point_to_bytes :: "Point \<Rightarrow> bytes result" where
  "point_to_bytes p =
     (case p of
        None \<Rightarrow> Inl (ValueErr ''Cannot convert None to bytes'')
      | Some (x, y) \<Rightarrow> res_bind (int_to_bytes32 x) (\<lambda>xb. Inr ((if y AND 1 \<noteq> 0 then 3 else 2) # xb)))"

section \<open>Extended keys\<close>

definition MAINNET_PUBLIC :: bytes where "MAINNET_PUBLIC = [0x04, 0x88, 0xB2, 0x1E]"
definition MAINNET_PRIVATE :: bytes where "MAINNET_PRIVATE = [0x04, 0x88, 0xAD, 0xE4]"
definition TESTNET_PUBLIC :: bytes where "TESTNET_PUBLIC = [0x04, 0x35, 0x87, 0xCF]"
definition TESTNET_PRIVATE :: bytes where "TESTNET_PRIVATE = [0x04, 0x35, 0x83, 0x94]"

record ExtendedKey =
  xk_version :: bytes
  xk_is_testnet :: bool
  xk_is_private :: bool
  xk_depth :: int
  xk_parent_fingerprint :: bytes
  xk_child_num :: int
  xk_chaincode :: bytes
  xk_pubkey :: bytes
  xk_privkey :: "bytes option"

definition ExtendedKey_new ::
    "bytes \<Rightarrow> int \<Rightarrow> bytes \<Rightarrow> int \<Rightarrow> bytes \<Rightarrow> bytes option \<Rightarrow> bytes \<Rightarrow> ExtendedKey" where
  "ExtendedKey_new version depth parent_fingerprint child_num chaincode privkey pubkey =
     \<lparr>xk_version = version,
      xk_is_testnet = (version = TESTNET_PUBLIC \<or> version = TESTNET_PRIVATE),
      xk_is_private = (version = MAINNET_PRIVATE \<or> version = TESTNET_PRIVATE),
      xk_depth = depth, xk_parent_fingerprint = parent_fingerprint, xk_child_num = child_num,
      xk_chaincode = chaincode, xk_pubkey = pubkey, xk_privkey = privkey\<rparr>"

definition xk_from_bytes :: "bytes \<Rightarrow> ExtendedKey result" where
  "xk_from_bytes data =
     (let version = py_slice 0 4 data in
      if version \<notin> set [MAINNET_PRIVATE, MAINNET_PUBLIC, TESTNET_PRIVATE, TESTNET_PUBLIC]
      then Inl (BadArgumentError (''Extended key magic of '' @ hexlify version @ '' is invalid''))
      else
        let is_private = (version = MAINNET_PRIVATE \<or> version = TESTNET_PRIVATE) in
        res_bind (py_nth data 4) (\<lambda>depth.
        let parent_fingerprint = py_slice 5 9 data in
        res_bind (unpack_be 4 (py_slice 9 13 data)) (\<lambda>child_num.
        let chaincode = py_slice 13 45 data in
        if is_private then
          let privkey = drop 46 data in
          res_bind (point_to_bytes (point_mul EC_G (int (be_val privkey)))) (\<lambda>pubkey.
          Inr (ExtendedKey_new version (int (unat depth)) parent_fingerprint child_num chaincode (Some privkey) pubkey))
        else
          let pubkey = py_slice 45 78 data in
          Inr (ExtendedKey_new version (int (unat depth)) parent_fingerprint child_num chaincode None pubkey))))"

definition xk_deserialize :: "string \<Rightarrow> ExtendedKey result" where
  "xk_deserialize xpub = res_bind (b58_decode xpub) (\<lambda>d. let data = drop_end 4 d in xk_from_bytes data)"

definition xk_serialize :: "ExtendedKey \<Rightarrow> bytes result" where
  "xk_serialize self =
     res_bind (res_concat [Inr (xk_version self), pack_be 1 (xk_depth self), Inr (xk_parent_fingerprint self),
       pack_be 4 (xk_child_num self), Inr (xk_chaincode self)]) (\<lambda>r.
     if xk_is_private self then
       (case xk_privkey self of
          None \<Rightarrow> Inl (ValueErr ''Somehow we are private but don't have a privkey'')
        | Some k \<Rightarrow> Inr (r @ [0] @ k))
     else Inr (r @ xk_pubkey self))"

definition xk_to_string :: "crypto \<Rightarrow> ExtendedKey \<Rightarrow> string result" where
  "xk_to_string cr self =
     res_bind (xk_serialize self) (\<lambda>data.
     let checksum = py_slice 0 4 (hash256 cr data) in Inr (b58_encode (data @ checksum)))"

definition xk_get_printable_dict :: "ExtendedKey \<Rightarrow> (string, pyval) dict" where
  "xk_get_printable_dict self =
     [(''testnet'', VBool (xk_is_testnet self)),
      (''private'', VBool (xk_is_private self)),
      (''depth'', VInt (xk_depth self)),
      (''parent_fingerprint'', VStr (hexlify (xk_parent_fingerprint self))),
      (''child_num'', VInt (xk_child_num self)),
      (''chaincode'', VStr (hexlify (xk_chaincode self)))]
     @ (case xk_privkey self of Some k \<Rightarrow> if xk_is_private self then [(''privkey'', VStr (hexlify k))] else [] | None \<Rightarrow> [])
     @ [(''pubkey'', VStr (hexlify (xk_pubkey self)))]"

definition derive_pub :: "crypto \<Rightarrow> int \<Rightarrow> ExtendedKey \<Rightarrow> ExtendedKey result" where
  "derive_pub cr i self =
     (if is_hardened i then Inl (ValueErr ''Index cannot be larger than 2^31'')
      else
        res_bind (pack_be 4 i) (\<lambda>ib.
        let data = xk_pubkey self @ ib;
            Ihmac = hmac_sha512 cr (xk_chaincode self) data;
            Il = py_slice 0 32 Ihmac; Ir = drop 32 Ihmac in
        res_bind (py_int16 (hexlify Il)) (\<lambda>Il_int.
        res_bind (bytes_to_point (xk_pubkey self)) (\<lambda>K.
        let child_pubkey = point_add (point_mul EC_G Il_int) K in
        res_bind (point_to_bytes child_pubkey) (\<lambda>pubkey.
        let chaincode = Ir; fingerprint = py_slice 0 4 (hash160 cr (xk_pubkey self)) in
        Inr (ExtendedKey_new (if xk_is_testnet self then TESTNET_PUBLIC else MAINNET_PUBLIC)
          (xk_depth self + 1) fingerprint i chaincode None pubkey))))))"

definition derive_pub_path :: "crypto \<Rightarrow> int list \<Rightarrow> ExtendedKey \<Rightarrow> ExtendedKey result" where
  "derive_pub_path cr path self = res_fold (\<lambda>i key. derive_pub cr i key) path self"

section \<open>Derivation paths\<close>

definition ends_hardened :: "string \<Rightarrow> bool" where
  "ends_hardened x \<longleftrightarrow> x \<noteq> [] \<and> (last x = CHR ''h'' \<or> last x = CHR 0x27)"

definition str_to_harden :: "string \<Rightarrow> int result" where
  "str_to_harden x =
     (if prefix ''-'' x then res_bind (py_int x) (\<lambda>i. Inr (harden \<bar>i\<bar>))
      else if ends_hardened x then res_bind (py_int (drop_end 1 x)) (\<lambda>i. Inr (harden i))
      else py_int x)"

definition parse_index :: "bool \<Rightarrow> string \<Rightarrow> bool \<Rightarrow> (int list \<times> bool) result" where
  "parse_index allow_multipath x seen_multipath =
     (if prefix ''<'' x then
        (if seen_multipath then Inl (ValueErr ''Cannot have multiple multipath specifiers'')
         else if \<not> allow_multipath then Inl (ValueErr (''Multipath specifier not allowed: '' @ x))
         else if \<not> suffix ''>'' x
         then Inl (ValueErr (''Invalid multipath specification, missing trailing '' @ [CHR 0x27] @ ''>'' @ [CHR 0x27] @ '': '' @ x))
         else
           let mp = py_split (CHR '';'') (py_slice 1 (length x - 1) x) in
           if length mp < 2
           then Inl (ValueErr (''Invalid multipath specification, less than 2 indexes specified: '' @ x))
           else res_bind (res_map str_to_harden mp) (\<lambda>ps. Inr (ps, True)))
      else res_bind (str_to_harden x) (\<lambda>i. Inr ([i], seen_multipath)))"

fun parse_indices :: "bool \<Rightarrow> string list \<Rightarrow> bool \<Rightarrow> int list list result" where
  "parse_indices allow_multipath [] seen_multipath = Inr []"
| "parse_indices allow_multipath (x # n) seen_multipath =
     res_bind (parse_index allow_multipath x seen_multipath) (\<lambda>(idx, seen_multipath).
     res_bind (parse_indices allow_multipath n seen_multipath) (\<lambda>path. Inr (idx # path)))"

text \<open>Only \<open>ValueError\<close> can occur in the loop, and it is passed on.\<close>

definition parse_path_str :: "string \<Rightarrow> bool \<Rightarrow> int list list result" where
  "parse_path_str nstr allow_multipath =
     (if nstr = [] then Inr []
      else let n = py_split (CHR ''/'') nstr; n = (if hd n = ''m'' then tl n else n)
           in parse_indices allow_multipath n False)"

definition parse_path :: "string \<Rightarrow> int list result" where
  "parse_path nstr = res_bind (parse_path_str nstr False) (res_map (\<lambda>i. py_nth i 0))"

definition parse_multipath :: "string \<Rightarrow> int list list result" where
  "parse_multipath s = parse_path_str s True"

definition index_to_str :: "string \<Rightarrow> int \<Rightarrow> string" where
  "index_to_str hardened_char i =
     (let hardened = is_hardened i; i = i AND NOT HARDENED_FLAG; out = show_int i
      in if hardened then out @ hardened_char else out)"

definition path_to_string_multi :: "int list list \<Rightarrow> string \<Rightarrow> string" where
  "path_to_string_multi path hardened_char =
     concat (map (\<lambda>mp.
       if length mp = 1 then ''/'' @ index_to_str hardened_char (hd mp)
       else ''/<'' @ py_join '';'' (map (index_to_str hardened_char) mp) @ ''>'') path)"

definition path_to_string :: "int list \<Rightarrow> string \<Rightarrow> string" where
  "path_to_string path hardened_char = path_to_string_multi (map (\<lambda>i. [i]) path) hardened_char"

definition multipath_to_string :: "int list list \<Rightarrow> string \<Rightarrow> string" where
  "multipath_to_string path hardened_char = path_to_string_multi path hardened_char"

section \<open>Key origins\<close>

record KeyOriginInfo =
  ko_fingerprint :: bytes
  ko_path :: "int list"

text \<open>\<open>struct.unpack("<" + "I" * (len(s) // 4), s)\<close>.\<close>

fun unpack_words :: "nat \<Rightarrow> bytes \<Rightarrow> int list" where
  "unpack_words 0 s = []"
| "unpack_words (Suc k) s = int (le_val (take 4 s)) # unpack_words k (drop 4 s)"

definition keyorigin_deserialize :: "bytes \<Rightarrow> KeyOriginInfo result" where
  "keyorigin_deserialize s =
     (let fingerprint = py_slice 0 4 s; s = drop 4 s in
      if length s \<noteq> 4 * (length s div 4) then Inl StructErr
      else Inr \<lparr>ko_fingerprint = fingerprint, ko_path = unpack_words (length s div 4) s\<rparr>)"

definition keyorigin_serialize :: "KeyOriginInfo \<Rightarrow> bytes result" where
  "keyorigin_serialize self = res_concat (Inr (ko_fingerprint self) # map (pack_le 4) (ko_path self))"

definition keyorigin_to_string :: "KeyOriginInfo \<Rightarrow> string \<Rightarrow> string" where
  "keyorigin_to_string self hardened_char =
     hexlify (ko_fingerprint self) @ path_to_string (ko_path self) hardened_char"

definition keyorigin_from_string :: "string \<Rightarrow> KeyOriginInfo result" where
  "keyorigin_from_string s =
     (let s = py_lower s; entries = py_split (CHR ''/'') s in
      res_bind (unhexlify (py_slice 0 8 s)) (\<lambda>fingerprint.
      if 1 < length entries
      then res_bind (parse_path (drop 9 s)) (\<lambda>path. Inr \<lparr>ko_fingerprint = fingerprint, ko_path = path\<rparr>)
      else Inr \<lparr>ko_fingerprint = fingerprint, ko_path = []\<rparr>))"

definition get_derivation_path :: "KeyOriginInfo \<Rightarrow> string" where
  "get_derivation_path self = ''m'' @ path_to_string (ko_path self) ''h''"

definition get_full_int_list :: "KeyOriginInfo \<Rightarrow> int list result" where
  "get_full_int_list self = res_bind (unpack_le 4 (ko_fingerprint self)) (\<lambda>x. Inr (x # ko_path self))"

section \<open>BIP 44\<close>

fun get_bip44_purpose :: "AddressType \<Rightarrow> int" where
  "get_bip44_purpose LEGACY = 44"
| "get_bip44_purpose SH_WIT = 49"
| "get_bip44_purpose WIT = 84"
| "get_bip44_purpose TAP = 86"

definition get_bip44_chain :: "Chain \<Rightarrow> int" where
  "get_bip44_chain chain = (if chain = MAIN then 0 else 1)"

definition get_addrtype_from_bip44_purpose :: "int \<Rightarrow> AddressType option" where
  "get_addrtype_from_bip44_purpose index =
     (let purpose = index AND NOT HARDENED_FLAG in
      if purpose = 44 then Some LEGACY
      else if purpose = 49 then Some SH_WIT
      else if purpose = 84 then Some WIT
      else if purpose = 86 then Some TAP
      else None)"

definition is_standard_path :: "int list \<Rightarrow> AddressType \<Rightarrow> Chain \<Rightarrow> bool" where
  "is_standard_path path addrtype chain =
     (if length path \<noteq> 5 then False
      else if \<not> is_hardened (path ! 0) \<or> \<not> is_hardened (path ! 1) \<or> \<not> is_hardened (path ! 2) then False
      else if is_hardened (path ! 3) \<or> is_hardened (path ! 4) then False
      else case get_addrtype_from_bip44_purpose (path ! 0) of
        None \<Rightarrow> False
      | Some computed_addrtype \<Rightarrow>
          if computed_addrtype \<noteq> addrtype then False
          else if path ! 1 \<noteq> harden (get_bip44_chain chain) then False
          else if path ! 3 \<notin> {0, 1} then False
          else True)"

section \<open>The hardened bit\<close>

lemma is_hardened_bit: "is_hardened i \<longleftrightarrow> bit i 31"
  unfolding is_hardened_def HARDENED_FLAG_def by (metis and_exp_eq_0_iff_not_bit)

lemma harden_set_bit: "harden i = Bit_Operations.set_bit 31 i"
  by (simp add: harden_def HARDENED_FLAG_def set_bit_eq_or)

lemma clear_unset_bit: "i AND NOT HARDENED_FLAG = unset_bit 31 i"
  by (simp add: HARDENED_FLAG_def unset_bit_eq_and_not)

lemma is_hardened_harden [simp]: "is_hardened (harden i)"
  by (simp add: is_hardened_bit harden_set_bit bit_simps)

lemma harden_clear: "is_hardened i \<Longrightarrow> harden (i AND NOT HARDENED_FLAG) = i"
  unfolding is_hardened_bit clear_unset_bit harden_set_bit by (rule bit_eqI) (auto simp: bit_simps)

lemma clear_id: "\<not> is_hardened i \<Longrightarrow> i AND NOT HARDENED_FLAG = i"
  unfolding is_hardened_bit clear_unset_bit by (rule bit_eqI) (auto simp: bit_simps)

lemma clear_nonneg [simp]: "0 \<le> i AND NOT HARDENED_FLAG \<longleftrightarrow> 0 \<le> i"
  by (simp add: clear_unset_bit)

lemma harden_eq: "0 \<le> i \<Longrightarrow> i < 2 ^ 31 \<Longrightarrow> harden i = i + 2 ^ 31"
proof -
  assume "0 \<le> i" "i < 2 ^ 31"
  then have "take_bit 31 i = i" by (intro take_bit_int_eq_self)
  then have "bit i m \<Longrightarrow> m < 31" for m by (metis bit_take_bit_iff)
  then have "\<not> bit i m \<or> \<not> bit (2 ^ 31 :: int) m" for m by (metis bit_exp_iff less_irrefl)
  then have "i OR 2 ^ 31 = i + 2 ^ 31" by (rule disjunctive_add [symmetric])
  then show ?thesis by (simp add: harden_def HARDENED_FLAG_def)
qed

lemma not_hardened_small: "0 \<le> i \<Longrightarrow> i < 2 ^ 31 \<Longrightarrow> \<not> is_hardened i"
proof -
  assume "0 \<le> i" "i < 2 ^ 31"
  then have "take_bit 31 i = i" by (intro take_bit_int_eq_self)
  then show ?thesis unfolding is_hardened_bit by (metis bit_take_bit_iff less_irrefl)
qed

section \<open>Points and their encodings\<close>

lemma py_pow_eq: "0 < m \<Longrightarrow> py_pow a e m = a ^ e mod m"
proof (induction a e m rule: py_pow.induct)
  case (1 a e m)
  show ?case
  proof (cases "e = 0")
    case True
    then show ?thesis by (simp add: py_pow.simps)
  next
    case False
    then have IH: "py_pow (a * a mod m) (e div 2) m = (a * a) ^ (e div 2) mod m"
      using 1 by (simp add: power_mod)
    have sq: "(a * a) ^ k = a ^ (2 * k)" for k by (simp add: power_mult power2_eq_square)
    show ?thesis
    proof (cases "odd e")
      case True
      then have "a * (a * a) ^ (e div 2) = a ^ e"
        unfolding sq by (metis odd_two_times_div_two_succ power_Suc Suc_eq_plus1)
      then show ?thesis using False True IH by (subst py_pow.simps) (simp add: mod_mult_right_eq)
    next
      case even: False
      then have "(a * a) ^ (e div 2) = a ^ e" unfolding sq by simp
      then show ?thesis using False even IH by (subst py_pow.simps) simp
    qed
  qed
qed

lemma EC_p_pos: "0 < EC_p" "odd EC_p" "EC_p < 2 ^ 256"
  by (simp_all add: EC_p_def)

text \<open>The points whose x coordinate fits 32 bytes.\<close>

definition point_fits :: "Point \<Rightarrow> bool" where
  "point_fits p \<longleftrightarrow> (case p of None \<Rightarrow> True | Some (x, y) \<Rightarrow> 0 \<le> x \<and> x < 2 ^ 256)"

lemma point_fits_add: "point_fits p \<Longrightarrow> point_fits q \<Longrightarrow> point_fits (point_add p q)"
proof -
  assume a: "point_fits p" "point_fits q"
  have "0 \<le> z mod EC_p \<and> z mod EC_p < 2 ^ 256" for z
    using EC_p_pos pos_mod_bound [of EC_p z] pos_mod_sign [of EC_p z] by linarith
  with a show ?thesis by (auto simp: point_add_def point_fits_def Let_def split: option.splits)
qed

lemma point_fits_mul_loop:
  "point_fits p \<Longrightarrow> point_fits r \<Longrightarrow> point_fits (point_mul_loop i k p n r)"
  by (induction i k p n r rule: point_mul_loop.induct) (simp add: Let_def point_fits_add)+

lemma point_fits_mul [simp]: "point_fits (point_mul EC_G n)"
  unfolding point_mul_def by (rule point_fits_mul_loop) (simp_all add: point_fits_def EC_G_def)

lemma point_to_bytes_fits:
  "point_fits p \<Longrightarrow> (case p of None \<Rightarrow> point_to_bytes p = Inl (ValueErr ''Cannot convert None to bytes'')
     | Some (x, y) \<Rightarrow> \<exists>b. point_to_bytes p = Inr b \<and> length b = 33 \<and> (hd b = 2 \<or> hd b = 3))"
  by (auto simp: point_fits_def point_to_bytes_def int_to_bytes32_def split: option.splits)

lemma deserialize_point_compressed:
  assumes "length b = 33" and "hd b = 2 \<or> hd b = 3"
  shows "\<exists>x y. deserialize_point b = Inr (Some (x, y)) \<and> point_to_bytes (Some (x, y)) = Inr b
    \<and> point_fits (Some (x, y))"
proof -
  obtain h r where b: "b = h # r" and l: "length r = 32" using assms by (cases b) auto
  define x where "x = int (be_val r)"
  define y0 where "y0 = py_pow ((x * x * x + 7) mod EC_p) (nat ((EC_p + 1) div 4)) EC_p"
  define y where "y = (if y0 AND 1 \<noteq> int (unat h) AND 1 then EC_p - y0 else y0)"
  have d: "deserialize_point b = Inr (Some (x, y))"
    by (simp add: deserialize_point_def b x_def y0_def y_def Let_def)
  have par: "odd (if (y AND 1) \<noteq> int k AND 1 then EC_p - y else y) \<longleftrightarrow> odd k" for y k
    using EC_p_pos(2) by (cases "odd y"; cases "odd k") (simp_all add: and_one_eq mod2_eq_if)
  have "odd y \<longleftrightarrow> odd (unat h)"
    unfolding y_def by (rule par)
  moreover have "h = 2 \<or> h = 3" using assms(2) b by simp
  moreover have "odd (unat (3 :: byte))" "even (unat (2 :: byte))" by simp_all
  ultimately have h: "(if y AND 1 \<noteq> 0 then 3 else 2) = h"
    unfolding and_one_eq mod2_eq_if by (cases "odd y") auto
  have "be_val r < 256 ^ 32" using be_val_less [of r] l by simp
  then have "int (be_val r) < int (256 ^ 32)" by (simp only: of_nat_less_iff)
  then have x: "0 \<le> x" "x < 256 ^ 32" by (simp_all add: x_def)
  have "be_bytes 32 (nat x) = r" using be_bytes_be_val [of r] l by (simp add: x_def)
  then have "point_to_bytes (Some (x, y)) = Inr b"
    using x h by (simp add: point_to_bytes_def int_to_bytes32_def b)
  moreover have "point_fits (Some (x, y))" using x by (simp add: point_fits_def)
  ultimately show ?thesis using d by blast
qed

text \<open>
  The encodings of points. A compressed point of 33 bytes with header 2 or 3 is always read, whether
  or not it is on the curve, and writing the point gives the same bytes; a point that is read back keeps
  its x coordinate and the parity of y. Bytes with the header 4 of an uncompressed point are always
  refused with ValueError.
\<close>

theorem point_encodings:
  "(length b = 33 \<and> (hd b = 2 \<or> hd b = 3) \<longrightarrow>
      (\<exists>P. bytes_to_point b = Inr P \<and> point_to_bytes P = Inr b))
   \<and> (b \<noteq> [] \<and> hd b = 4 \<longrightarrow> (\<exists>m. bytes_to_point b = Inl (ValueErr m)))"
proof -
  have "\<exists>P. bytes_to_point b = Inr P \<and> point_to_bytes P = Inr b" if "length b = 33" "hd b = 2 \<or> hd b = 3"
  proof -
    have "b \<noteq> []" "hd b \<noteq> 4" using that by auto
    then have "bytes_to_point b = deserialize_point b" by (cases b) (simp_all add: bytes_to_point_def)
    with deserialize_point_compressed [OF that] show ?thesis by auto
  qed
  moreover have "\<exists>m. bytes_to_point b = Inl (ValueErr m)" if "b \<noteq> []" "hd b = 4"
  proof -
    have "py_slice 33 65 (py_slice 1 33 b) = []" by (simp add: py_slice_def)
    with that show ?thesis
      by (cases b) (auto simp: bytes_to_point_def py_int16_def Let_def)
  qed
  ultimately show ?thesis by blast
qed

theorem point_encodings_witness:
  "(\<exists>P. bytes_to_point (2 # replicate 32 7) = Inr P \<and> point_to_bytes P = Inr (2 # replicate 32 7))
   \<and> (\<exists>m. bytes_to_point (4 # replicate 64 7) = Inl (ValueErr m))"
  using point_encodings [of "2 # replicate 32 7"] point_encodings [of "4 # replicate 64 7"] by simp

section \<open>Extended keys round trip\<close>

lemma versions_distinct:
  "length MAINNET_PUBLIC = 4" "length TESTNET_PUBLIC = 4" "length MAINNET_PRIVATE = 4" "length TESTNET_PRIVATE = 4"
  "MAINNET_PUBLIC \<noteq> MAINNET_PRIVATE" "MAINNET_PUBLIC \<noteq> TESTNET_PRIVATE"
  "TESTNET_PUBLIC \<noteq> MAINNET_PRIVATE" "TESTNET_PUBLIC \<noteq> TESTNET_PRIVATE" "MAINNET_PUBLIC \<noteq> TESTNET_PUBLIC"
  by (simp_all add: MAINNET_PUBLIC_def TESTNET_PUBLIC_def MAINNET_PRIVATE_def TESTNET_PRIVATE_def)

lemma ExtendedKey_new_public:
  "xk_is_private (ExtendedKey_new (if t then TESTNET_PUBLIC else MAINNET_PUBLIC) d f i ch pr pk) = False"
  "xk_is_testnet (ExtendedKey_new (if t then TESTNET_PUBLIC else MAINNET_PUBLIC) d f i ch pr pk) = t"
  "\<not> xk_is_private (ExtendedKey_new TESTNET_PUBLIC d f i ch pr pk)" "xk_is_testnet (ExtendedKey_new TESTNET_PUBLIC d f i ch pr pk)"
  "\<not> xk_is_private (ExtendedKey_new MAINNET_PUBLIC d f i ch pr pk)" "\<not> xk_is_testnet (ExtendedKey_new MAINNET_PUBLIC d f i ch pr pk)"
  "xk_depth (ExtendedKey_new v d f i ch pr pk) = d"
  "xk_parent_fingerprint (ExtendedKey_new v d f i ch pr pk) = f"
  "xk_child_num (ExtendedKey_new v d f i ch pr pk) = i"
  "xk_chaincode (ExtendedKey_new v d f i ch pr pk) = ch"
  "xk_privkey (ExtendedKey_new v d f i ch pr pk) = pr"
  "xk_pubkey (ExtendedKey_new v d f i ch pr pk) = pk"
  using versions_distinct by (auto simp: ExtendedKey_new_def)

text \<open>The pieces of a serialized extended key.\<close>

lemma xk_pieces:
  assumes "length data = 78"
  shows "data = py_slice 0 4 data @ [data ! 4] @ py_slice 5 9 data @ py_slice 9 13 data
      @ py_slice 13 45 data @ py_slice 45 78 data"
    and "data = py_slice 0 4 data @ [data ! 4] @ py_slice 5 9 data @ py_slice 9 13 data
      @ py_slice 13 45 data @ [data ! 45] @ drop 46 data"
proof -
  have one: "[data ! k] = take 1 (drop k data)" if "k < 78" for k
    using that assms by (simp add: take_Suc_conv_app_nth take_Suc hd_drop_conv_nth)
  have step: "take a xs @ drop a xs = xs" for a and xs :: bytes by simp
  have full: "py_slice 45 78 data = drop 45 data" using assms by (simp add: py_slice_def)
  have j: "take k (drop m data) @ drop (k + m) data = drop m data" for k m
    by (metis append_take_drop_id drop_drop)
  show "data = py_slice 0 4 data @ [data ! 4] @ py_slice 5 9 data @ py_slice 9 13 data
      @ py_slice 13 45 data @ py_slice 45 78 data"
    using j [of 4 0] j [of 1 4] j [of 4 5] j [of 4 9] j [of 32 13] one [of 4]
    by (simp add: full) (simp add: py_slice_def)
  show "data = py_slice 0 4 data @ [data ! 4] @ py_slice 5 9 data @ py_slice 9 13 data
      @ py_slice 13 45 data @ [data ! 45] @ drop 46 data"
    using j [of 4 0] j [of 1 4] j [of 4 5] j [of 4 9] j [of 32 13] j [of 1 45] one [of 4] one [of 45]
    by (simp add: py_slice_def)
qed

lemma pack_be_byte: "pack_be (Suc 0) (int (unat b)) = Inr [b]"
proof -
  have "be_bytes 1 (unat b) = [b]" by (simp add: be_bytes_def)
  then show ?thesis using unat_byte_less [of b] by (simp add: pack_be_def)
qed

lemma pack_unpack_be: "unpack_be n bs = Inr x \<Longrightarrow> pack_be n x = Inr bs"
  using unpack_be_bounds [of n bs x] by (auto simp: unpack_be_def split: if_splits)

lemma xk_serialize_from_bytes:
  assumes "length data = 78" and k: "xk_from_bytes data = Inr k \<and> (xk_is_private k \<longrightarrow> data ! 45 = 0)"
  shows "xk_serialize k = Inr data"
proof -
  have "length (py_slice 9 13 data) = 4" using assms by (simp add: py_slice_def)
  then obtain cn where cn: "unpack_be 4 (py_slice 9 13 data) = Inr cn" by (simp add: unpack_be_def)
  have pk: "pack_be 4 cn = Inr (py_slice 9 13 data)" by (rule pack_unpack_be [OF cn])
  show ?thesis
  proof (cases "take 4 data = MAINNET_PRIVATE \<or> take 4 data = TESTNET_PRIVATE")
    case True
    then obtain pub where p: "k = ExtendedKey_new (take 4 data) (int (unat (data ! 4))) (py_slice 5 9 data) cn
        (py_slice 13 45 data) (Some (drop 46 data)) pub"
      using k assms cn by (auto simp: xk_from_bytes_def Let_def py_slice_def)
    then have "data ! 45 = 0" using k True by (auto simp: ExtendedKey_new_def)
    then show ?thesis
      using True pk xk_pieces(2) [OF assms(1)]
      by (simp add: p xk_serialize_def ExtendedKey_new_def res_concat_Cons pack_be_byte del: pack_be_eq_Inr)
        (simp add: py_slice_def)
  next
    case False
    then have p: "k = ExtendedKey_new (take 4 data) (int (unat (data ! 4))) (py_slice 5 9 data) cn
        (py_slice 13 45 data) None (py_slice 45 78 data)"
      using k assms cn by (auto simp: xk_from_bytes_def Let_def py_slice_def split: if_splits)
    then show ?thesis
      using False pk xk_pieces(1) [OF assms(1)]
      by (simp add: p xk_serialize_def ExtendedKey_new_def res_concat_Cons pack_be_byte del: pack_be_eq_Inr)
        (simp add: py_slice_def)
  qed
qed

lemma xk_string_deserialize:
  assumes "xk_serialize k = Inr data" and "xk_from_bytes data = Inr k" and "crypto_ok cr"
  shows "xk_to_string cr k = Inr (b58_encode (data @ take 4 (hash256 cr data)))"
    and "xk_deserialize (b58_encode (data @ take 4 (hash256 cr data))) = Inr k"
  using assms by (simp_all add: xk_to_string_def xk_deserialize_def py_slice_def b58_decode_encode)

text \<open>
  C8: reading and writing an extended key. From 78 bytes with a public version the reader always gets a
  key, and from those with a private version the key whose public part belongs to the private one, or an
  error when the private key is 0 modulo the group order; writing the key gives the bytes back, provided
  the padding byte before a private key is 0; and the Base58Check string of the key reads back as the key.
\<close>

theorem extended_key_round_trip:
  assumes "length data = 78" and "crypto_ok cr"
  shows "(take 4 data = MAINNET_PUBLIC \<or> take 4 data = TESTNET_PUBLIC \<longrightarrow> (\<exists>k. xk_from_bytes data = Inr k))
    \<and> (\<forall>k. xk_from_bytes data = Inr k \<and> (xk_is_private k \<longrightarrow> data ! 45 = 0) \<longrightarrow>
         xk_serialize k = Inr data
         \<and> (\<exists>s. xk_to_string cr k = Inr s \<and> xk_deserialize s = Inr k))"
proof (intro conjI impI allI)
  have l: "length (py_slice 9 13 data) = 4" using assms by (simp add: py_slice_def)
  then obtain cn where cn: "unpack_be 4 (py_slice 9 13 data) = Inr cn" by (simp add: unpack_be_def)
  show "\<exists>k. xk_from_bytes data = Inr k"
    if "take 4 data = MAINNET_PUBLIC \<or> take 4 data = TESTNET_PUBLIC"
    using that assms cn versions_distinct by (auto simp: xk_from_bytes_def Let_def py_slice_def)
  fix k assume k: "xk_from_bytes data = Inr k \<and> (xk_is_private k \<longrightarrow> data ! 45 = 0)"
  show ser: "xk_serialize k = Inr data" by (rule xk_serialize_from_bytes [OF assms(1) k])
  show "\<exists>s. xk_to_string cr k = Inr s \<and> xk_deserialize s = Inr k"
    using xk_string_deserialize [OF ser _ assms(2)] k by blast
qed

theorem extended_key_round_trip_witness:
  "\<exists>k s. xk_from_bytes (TESTNET_PUBLIC @ replicate 74 9) = Inr k
     \<and> xk_to_string pad_crypto k = Inr s \<and> xk_deserialize s = Inr k"
proof -
  let ?d = "TESTNET_PUBLIC @ replicate 74 9"
  have l: "length ?d = 78" and v: "take 4 ?d = TESTNET_PUBLIC" by (simp_all add: versions_distinct)
  have "\<not> xk_is_private k" if "xk_from_bytes ?d = Inr k" for k
    using that v versions_distinct by (auto simp: xk_from_bytes_def ExtendedKey_new_def Let_def py_slice_def split: if_splits)
  with extended_key_round_trip [OF l crypto_ok_pad_crypto] v show ?thesis by blast
qed

section \<open>Public derivation\<close>

text \<open>A public key of the form derivation works on.\<close>

definition pub_ok :: "bytes \<Rightarrow> bool" where
  "pub_ok b \<longleftrightarrow> length b = 33 \<and> (hd b = 2 \<or> hd b = 3)"

lemma py_int16_hexlify: "b \<noteq> [] \<Longrightarrow> py_int16 (hexlify b) = Inr (int (be_val b))"
proof -
  have "int_of_hex (CHR ''0'' # hexlify b) = int_of_hex (hexlify b)"
    by (simp add: int_of_hex_def hex_val_def hex_digits_def lower_char_def)
  then show "b \<noteq> [] \<Longrightarrow> py_int16 (hexlify b) = Inr (int (be_val b))"
    by (cases b) (simp_all add: py_int16_def int_of_hex_hexlify del: hexlify.simps, simp)
qed

lemma pub_ok_point:
  assumes "pub_ok b"
  obtains K where "bytes_to_point b = Inr (Some K)" and "point_to_bytes (Some K) = Inr b" and "point_fits (Some K)"
proof -
  have "b \<noteq> []" "hd b \<noteq> 4" using assms by (auto simp: pub_ok_def)
  then have "bytes_to_point b = deserialize_point b" by (cases b) (simp_all add: bytes_to_point_def)
  with deserialize_point_compressed [of b] assms that show ?thesis by (auto simp: pub_ok_def)
qed

text \<open>The point of a child: the sum of the generator times the left half of the HMAC and of the point of the parent.\<close>

definition child_hmac :: "crypto \<Rightarrow> ExtendedKey \<Rightarrow> int \<Rightarrow> bytes" where
  "child_hmac cr k i = hmac_sha512 cr (xk_chaincode k) (xk_pubkey k @ be_bytes 4 (nat i))"

definition child_point :: "crypto \<Rightarrow> ExtendedKey \<Rightarrow> int \<Rightarrow> int \<times> int \<Rightarrow> Point" where
  "child_point cr k i K = point_add (point_mul EC_G (int (be_val (take 32 (child_hmac cr k i))))) (Some K)"

lemma derive_pub_eq:
  assumes "crypto_ok cr" and "0 \<le> i" and "i < 2 ^ 31" and "bytes_to_point (xk_pubkey k) = Inr (Some K)"
  shows "derive_pub cr i k = res_bind (point_to_bytes (child_point cr k i K)) (\<lambda>pubkey. Inr (ExtendedKey_new
       (if xk_is_testnet k then TESTNET_PUBLIC else MAINNET_PUBLIC) (xk_depth k + 1)
       (take 4 (hash160 cr (xk_pubkey k))) i (drop 32 (child_hmac cr k i)) None pubkey))"
proof -
  have "length (take 32 (child_hmac cr k i)) = 32" using assms(1) by (simp add: child_hmac_def crypto_ok_def)
  then have "take 32 (child_hmac cr k i) \<noteq> []" by force
  then have "py_int16 (hexlify (take 32 (child_hmac cr k i))) = Inr (int (be_val (take 32 (child_hmac cr k i))))"
    by (rule py_int16_hexlify)
  moreover have "pack_be 4 i = Inr (be_bytes 4 (nat i))" using assms(2, 3) by (simp add: pack_be_def)
  ultimately show ?thesis
    using not_hardened_small [OF assms(2, 3)] assms(4)
    by (simp add: derive_pub_def py_slice_def Let_def child_point_def child_hmac_def del: pack_be_eq_Inr)
qed

lemma child_point_fits: "point_fits (Some K) \<Longrightarrow> point_fits (child_point cr k i K)"
  unfolding child_point_def by (intro point_fits_add) simp_all

lemma derive_pub_cases:
  assumes "crypto_ok cr" and "pub_ok (xk_pubkey k)" and "0 \<le> i" and "i < 2 ^ 31"
  obtains K where "bytes_to_point (xk_pubkey k) = Inr (Some K)" and "point_to_bytes (Some K) = Inr (xk_pubkey k)"
    and "child_point cr k i K = None" and "derive_pub cr i k = Inl (ValueErr ''Cannot convert None to bytes'')"
  | K C pub where "bytes_to_point (xk_pubkey k) = Inr (Some K)" and "point_to_bytes (Some K) = Inr (xk_pubkey k)"
    and "child_point cr k i K = Some C" and "point_to_bytes (Some C) = Inr pub" and "pub_ok pub"
    and "derive_pub cr i k = Inr (ExtendedKey_new
       (if xk_is_testnet k then TESTNET_PUBLIC else MAINNET_PUBLIC) (xk_depth k + 1)
       (take 4 (hash160 cr (xk_pubkey k))) i (drop 32 (child_hmac cr k i)) None pub)"
proof -
  obtain K where K: "bytes_to_point (xk_pubkey k) = Inr (Some K)" "point_to_bytes (Some K) = Inr (xk_pubkey k)" "point_fits (Some K)"
    using pub_ok_point [OF assms(2)] .
  note d = derive_pub_eq [OF assms(1, 3, 4) K(1)]
  show ?thesis
  proof (cases "child_point cr k i K")
    case None
    then show ?thesis using that(1) [OF K(1, 2)] d by (simp add: point_to_bytes_def)
  next
    case (Some C)
    then obtain pub where "point_to_bytes (Some C) = Inr pub" "pub_ok pub"
      using point_to_bytes_fits [OF child_point_fits [OF K(3), of cr k i]] by (cases C) (auto simp: pub_ok_def)
    then show ?thesis using that(2) [OF K(1, 2) Some] d Some by simp
  qed
qed

text \<open>
  C7: public derivation. A hardened index is refused with ValueError; an index that does not fit 32 bits
  is refused by the packing. For any other index of a key whose public key is compressed, its bytes encode a point
  K, and the point of the child is, in the arithmetic of the code, the sum of K and of the generator times the left half
  of the HMAC over the parent's public key and the index. Derivation raises the ValueError for the point at infinity
  exactly when that is the sum; otherwise it returns the key whose public key encodes the sum: one
  level deeper, with the child number asked for, the fingerprint of the parent's public key, the right
  half of the HMAC as chain code, on the same network, without a private key, and again compressed.
\<close>

theorem derive_pub_child:
  assumes "crypto_ok cr" and "pub_ok (xk_pubkey k)"
  shows "(is_hardened i \<longrightarrow> derive_pub cr i k = Inl (ValueErr ''Index cannot be larger than 2^31''))
    \<and> (\<not> is_hardened i \<and> \<not> (0 \<le> i \<and> i < 2 ^ 31) \<longrightarrow> derive_pub cr i k = Inl StructErr)
    \<and> (0 \<le> i \<and> i < 2 ^ 31 \<longrightarrow>
        (\<exists>K. bytes_to_point (xk_pubkey k) = Inr (Some K) \<and> point_to_bytes (Some K) = Inr (xk_pubkey k)
          \<and> (let I = hmac_sha512 cr (xk_chaincode k) (xk_pubkey k @ be_bytes 4 (nat i)) in
             case point_add (point_mul EC_G (int (be_val (take 32 I)))) (Some K) of
               None \<Rightarrow> derive_pub cr i k = Inl (ValueErr ''Cannot convert None to bytes'')
             | Some C \<Rightarrow> (\<exists>c. derive_pub cr i k = Inr c \<and> point_to_bytes (Some C) = Inr (xk_pubkey c)
                 \<and> xk_depth c = xk_depth k + 1 \<and> xk_child_num c = i
                 \<and> xk_parent_fingerprint c = take 4 (hash160 cr (xk_pubkey k)) \<and> xk_chaincode c = drop 32 I
                 \<and> xk_is_testnet c = xk_is_testnet k \<and> \<not> xk_is_private c \<and> xk_privkey c = None
                 \<and> pub_ok (xk_pubkey c)))))"
proof (intro conjI impI)
  show "derive_pub cr i k = Inl (ValueErr ''Index cannot be larger than 2^31'')" if "is_hardened i"
    using that by (simp add: derive_pub_def)
  show "derive_pub cr i k = Inl StructErr" if a: "\<not> is_hardened i \<and> \<not> (0 \<le> i \<and> i < 2 ^ 31)"
  proof -
    have "\<not> (0 \<le> i \<and> i < 256 ^ 4)"
    proof
      assume b: "0 \<le> i \<and> i < 256 ^ 4"
      then have "i div 2 ^ 31 = 1" using a by (intro int_div_pos_eq [of _ _ _ "i - 2 ^ 31"]) auto
      then have "drop_bit 31 i = 1" by (simp add: drop_bit_eq_div)
      then have "bit i 31" by (simp add: bit_iff_odd_drop_bit)
      with a show False by (simp add: is_hardened_bit)
    qed
    then have "pack_be 4 i = Inl StructErr" by (auto simp: pack_be_def)
    with a show ?thesis by (simp add: derive_pub_def)
  qed
  assume "0 \<le> i \<and> i < 2 ^ 31"
  then have i: "0 \<le> i" "i < 2 ^ 31" by simp_all
  show "\<exists>K. bytes_to_point (xk_pubkey k) = Inr (Some K) \<and> point_to_bytes (Some K) = Inr (xk_pubkey k)
          \<and> (let I = hmac_sha512 cr (xk_chaincode k) (xk_pubkey k @ be_bytes 4 (nat i)) in
             case point_add (point_mul EC_G (int (be_val (take 32 I)))) (Some K) of
               None \<Rightarrow> derive_pub cr i k = Inl (ValueErr ''Cannot convert None to bytes'')
             | Some C \<Rightarrow> (\<exists>c. derive_pub cr i k = Inr c \<and> point_to_bytes (Some C) = Inr (xk_pubkey c)
                 \<and> xk_depth c = xk_depth k + 1 \<and> xk_child_num c = i
                 \<and> xk_parent_fingerprint c = take 4 (hash160 cr (xk_pubkey k)) \<and> xk_chaincode c = drop 32 I
                 \<and> xk_is_testnet c = xk_is_testnet k \<and> \<not> xk_is_private c \<and> xk_privkey c = None
                 \<and> pub_ok (xk_pubkey c)))"
    unfolding Let_def child_hmac_def [symmetric] child_point_def [symmetric]
    by (rule derive_pub_cases [OF assms i])
      (intro exI conjI, assumption+, simp add: ExtendedKey_new_public del: if_split)+
qed

text \<open>
  In the witness the left half of the HMAC is 1, so the child's point is the sum of the generator and of the
  parent's point, which differ in their x coordinates.
\<close>

lemma point_mul_loop_zero: "drop_bit i n = 0 \<Longrightarrow> point_mul_loop i k p n r = r"
  by (induction i k p n r rule: point_mul_loop.induct) (simp_all add: Let_def drop_bit_Suc drop_bit_half)

lemma point_mul_one: "point_mul p 1 = p"
proof -
  have "point_mul p 1 = point_mul_loop (Suc 0) 255 (point_add p p) 1 (point_add None p)"
    using point_mul_loop.simps(2) [of 0 255 p 1 None] by (simp add: point_mul_def Let_def eval_nat_numeral)
  then show ?thesis by (simp add: point_mul_loop_zero point_add_def)
qed

definition one_crypto :: crypto where
  "one_crypto = pad_crypto\<lparr>hmac_sha512 := (\<lambda>k b. replicate 31 0 @ [1] @ replicate 32 8)\<rparr>"

theorem derive_pub_child_witness:
  "\<exists>K C c. bytes_to_point (2 # replicate 32 7) = Inr (Some K) \<and> point_add EC_G (Some K) = Some C
    \<and> derive_pub one_crypto 5 (ExtendedKey_new TESTNET_PUBLIC 2 [0, 0, 0, 0] 0 (replicate 32 1) None (2 # replicate 32 7)) = Inr c
    \<and> point_to_bytes (Some C) = Inr (xk_pubkey c) \<and> xk_depth c = 3 \<and> xk_chaincode c = replicate 32 8"
proof -
  let ?k = "ExtendedKey_new TESTNET_PUBLIC 2 [0, 0, 0, 0] 0 (replicate 32 1) None (2 # replicate 32 7)"
  have cr: "crypto_ok one_crypto" using crypto_ok_pad_crypto by (simp add: crypto_ok_def one_crypto_def)
  have pk: "xk_pubkey ?k = 2 # replicate 32 7" by (simp add: ExtendedKey_new_def)
  have pub: "pub_ok (xk_pubkey ?k)" by (simp add: pub_ok_def pk)
  have half: "int (be_val (take 32 (hmac_sha512 one_crypto a b))) = 1" "drop 32 (hmac_sha512 one_crypto a b) = replicate 32 8" for a b
    by (simp_all add: one_crypto_def eval_nat_numeral be_val_def)
  obtain K where K: "bytes_to_point (2 # replicate 32 7) = Inr (Some K)" "point_to_bytes (Some K) = Inr (2 # replicate 32 7)"
    by (rule pub_ok_point [OF pub [unfolded pk]])
  have "fst K \<noteq> 0x79BE667EF9DCBBAC55A06295CE870B07029BFCDB2DCE28D959F2815B16F81798"
  proof
    assume "fst K = 0x79BE667EF9DCBBAC55A06295CE870B07029BFCDB2DCE28D959F2815B16F81798"
    then have "be_bytes 32 0x79BE667EF9DCBBAC55A06295CE870B07029BFCDB2DCE28D959F2815B16F81798 = replicate 32 7"
      using K(2) by (cases K) (simp add: point_to_bytes_def int_to_bytes32_def)
    then have "be_val (be_bytes 32 0x79BE667EF9DCBBAC55A06295CE870B07029BFCDB2DCE28D959F2815B16F81798) = be_val (replicate 32 7)"
      by (simp only:)
    moreover have "odd (be_val (replicate 31 7 @ [7]))" by (simp add: be_val_append)
    moreover have "(replicate 32 7 :: bytes) = replicate 31 7 @ [7]" by (simp add: replicate_append_same numeral_eq_Suc)
    ultimately show False by simp
  qed
  then obtain C where C: "point_add EC_G (Some K) = Some C" by (cases K) (auto simp: point_add_def EC_G_def Let_def)
  have "0 \<le> (5 :: int) \<and> 5 < (2 :: int) ^ 31" by simp
  from derive_pub_child [OF cr pub, of 5, THEN conjunct2, THEN conjunct2, rule_format, OF this]
  obtain K' where K': "bytes_to_point (xk_pubkey ?k) = Inr (Some K')"
    "case point_add (point_mul EC_G 1) (Some K') of
       None \<Rightarrow> derive_pub one_crypto 5 ?k = Inl (ValueErr ''Cannot convert None to bytes'')
     | Some C \<Rightarrow> (\<exists>c. derive_pub one_crypto 5 ?k = Inr c \<and> point_to_bytes (Some C) = Inr (xk_pubkey c)
         \<and> xk_depth c = xk_depth ?k + 1 \<and> xk_child_num c = 5
         \<and> xk_parent_fingerprint c = take 4 (hash160 one_crypto (xk_pubkey ?k)) \<and> xk_chaincode c = replicate 32 8
         \<and> xk_is_testnet c = xk_is_testnet ?k \<and> \<not> xk_is_private c \<and> xk_privkey c = None \<and> pub_ok (xk_pubkey c))"
    unfolding half Let_def by (elim exE conjE) (rule that)
  have "K' = K" using K(1) K'(1) unfolding pk by simp
  moreover have "xk_depth ?k + 1 = 3" by (simp add: ExtendedKey_new_def)
  ultimately obtain c where "derive_pub one_crypto 5 ?k = Inr c" "point_to_bytes (Some C) = Inr (xk_pubkey c)"
    "xk_depth c = 3" "xk_chaincode c = replicate 32 8"
    using K'(2) C unfolding point_mul_one by auto
  with K(1) C show ?thesis by blast
qed

lemma derive_pub_Inr:
  assumes "crypto_ok cr" and "pub_ok (xk_pubkey k)" and "derive_pub cr i k = Inr c"
  shows "0 \<le> i \<and> i < 2 ^ 31 \<and> pub_ok (xk_pubkey c) \<and> xk_depth c = xk_depth k + 1
    \<and> xk_is_testnet c = xk_is_testnet k \<and> xk_child_num c = i \<and> \<not> xk_is_private c \<and> xk_privkey c = None"
proof -
  have "is_hardened i \<Longrightarrow> derive_pub cr i k = Inl (ValueErr ''Index cannot be larger than 2^31'')"
    by (simp add: derive_pub_def)
  with assms(3) have nh: "\<not> is_hardened i" by auto
  have "0 \<le> i \<and> i < 2 ^ 31"
  proof (rule ccontr)
    assume a: "\<not> (0 \<le> i \<and> i < 2 ^ 31)"
    from assms(3) nh have "0 \<le> i \<and> i < 256 ^ 4" by (auto simp: derive_pub_def Let_def)
    with a have "i div 2 ^ 31 = 1" by (intro int_div_pos_eq [of _ _ _ "i - 2 ^ 31"]) auto
    then have "bit i 31" by (simp add: bit_iff_odd_drop_bit drop_bit_eq_div)
    with nh show False by (simp add: is_hardened_bit)
  qed
  then have i: "0 \<le> i" "i < 2 ^ 31" by simp_all
  show ?thesis
    by (rule derive_pub_cases [OF assms(1, 2) i]) (use assms(3) i in \<open>auto simp: ExtendedKey_new_public simp del: if_split\<close>)
qed

lemma derive_pub_path_append:
  "derive_pub_path cr (p @ q) k = res_bind (derive_pub_path cr p k) (derive_pub_path cr q)"
  by (simp add: derive_pub_path_def [abs_def])

text \<open>
  Derivation along a path is derivation along its parts, one after the other; when it returns a
  key, every index of the path was unhardened and below 2^31, and the key is as many levels deeper as the
  path is long, on the same network, numbered by the last index and without a private key, with a
  compressed public key from which derivation goes on.
\<close>

theorem derive_pub_path_walk:
  assumes "crypto_ok cr" and "pub_ok (xk_pubkey k)"
  shows "derive_pub_path cr (path @ rest) k = res_bind (derive_pub_path cr path k) (derive_pub_path cr rest)
    \<and> (\<forall>c. derive_pub_path cr path k = Inr c \<longrightarrow>
        list_all (\<lambda>i. 0 \<le> i \<and> i < 2 ^ 31) path \<and> pub_ok (xk_pubkey c)
        \<and> xk_depth c = xk_depth k + int (length path) \<and> xk_is_testnet c = xk_is_testnet k
        \<and> (path \<noteq> [] \<longrightarrow> xk_child_num c = last path \<and> \<not> xk_is_private c \<and> xk_privkey c = None))"
proof (intro conjI allI impI derive_pub_path_append)
  fix c assume c: "derive_pub_path cr path k = Inr c"
  have "list_all (\<lambda>i. 0 \<le> i \<and> i < 2 ^ 31) path \<and> pub_ok (xk_pubkey c)
        \<and> xk_depth c = xk_depth k + int (length path) \<and> xk_is_testnet c = xk_is_testnet k
        \<and> (path \<noteq> [] \<longrightarrow> xk_child_num c = last path \<and> \<not> xk_is_private c \<and> xk_privkey c = None)"
    using c
  proof (induction path arbitrary: c rule: rev_induct)
    case Nil
    then show ?case using assms by (simp add: derive_pub_path_def)
  next
    case (snoc i path)
    then obtain m where m: "derive_pub_path cr path k = Inr m" and d: "derive_pub cr i m = Inr c"
      by (auto simp: derive_pub_path_append) (auto simp: derive_pub_path_def)
    from snoc.IH [OF m] derive_pub_Inr [OF assms(1) _ d] show ?case by auto
  qed
  then show "list_all (\<lambda>i. 0 \<le> i \<and> i < 2 ^ 31) path" "pub_ok (xk_pubkey c)"
    "xk_depth c = xk_depth k + int (length path)" "xk_is_testnet c = xk_is_testnet k"
    "path \<noteq> [] \<Longrightarrow> xk_child_num c = last path" "path \<noteq> [] \<Longrightarrow> \<not> xk_is_private c"
    "path \<noteq> [] \<Longrightarrow> xk_privkey c = None" by auto
qed

theorem derive_pub_path_walk_witness:
  "derive_pub_path pad_crypto ([] @ [harden 1]) (ExtendedKey_new MAINNET_PUBLIC 0 [0, 0, 0, 0] 0 (replicate 32 1) None (2 # replicate 32 7))
     = Inl (ValueErr ''Index cannot be larger than 2^31'')"
  using derive_pub_path_walk [OF crypto_ok_pad_crypto, of "ExtendedKey_new MAINNET_PUBLIC 0 [0, 0, 0, 0] 0
    (replicate 32 1) None (2 # replicate 32 7)" "[]" "[harden 1]"]
  by (simp add: pub_ok_def ExtendedKey_new_def derive_pub_path_def derive_pub_def)

section \<open>Path strings round trip\<close>

definition hardened_marks :: "string set" where
  "hardened_marks = {''h'', [CHR 0x27]}"

lemma index_to_str_cases:
  assumes "0 \<le> i"
  shows "index_to_str hc i = show_nat (nat (i AND NOT HARDENED_FLAG)) @ (if is_hardened i then hc else [])"
  using assms by (simp add: index_to_str_def show_int_def Let_def not_less)

lemma index_chars:
  assumes "0 \<le> i" and "hc \<in> hardened_marks" and "c \<in> set (index_to_str hc i)"
  shows "is_digit c \<or> c = CHR ''h'' \<or> c = CHR 0x27"
  using assms show_nat_digits by (auto simp: index_to_str_cases hardened_marks_def split: if_splits)

lemma str_to_harden_index [codec_rt]:
  assumes "0 \<le> i" and "hc \<in> hardened_marks"
  shows "str_to_harden (index_to_str hc i) = Inr i"
proof -
  let ?n = "nat (i AND NOT HARDENED_FLAG)"
  have d: "\<forall>c\<in>set (show_nat ?n). is_digit c" by (rule show_nat_digits)
  obtain c cs where s: "show_nat ?n = c # cs" by (cases "show_nat ?n") auto
  with d have "is_digit c" by simp
  then have c: "c \<noteq> CHR ''-''" by auto
  show ?thesis
  proof (cases "is_hardened i")
    case True
    then obtain m where x: "index_to_str hc i = show_nat ?n @ [m]" and m: "m = CHR ''h'' \<or> m = CHR 0x27"
      using assms by (auto simp: index_to_str_cases hardened_marks_def)
    have "\<not> prefix ''-'' (show_nat ?n @ [m])" using s c by simp
    moreover have "ends_hardened (show_nat ?n @ [m])" using m by (auto simp: ends_hardened_def)
    ultimately show ?thesis
      using True assms(1) by (simp add: x str_to_harden_def harden_clear show_nat_nonempty [THEN not_sym])
  next
    case False
    have l: "is_digit (last (show_nat ?n))" using d by simp
    have "\<not> ends_hardened (show_nat ?n)" using l by (auto simp: ends_hardened_def)
    moreover have "\<not> prefix ''-'' (show_nat ?n)" using s c by simp
    ultimately show ?thesis
      using False assms by (simp add: index_to_str_cases str_to_harden_def clear_id)
  qed
qed

lemma show_nat_hd_digit: "0 \<le> i \<Longrightarrow> \<exists>c cs. index_to_str hc i = c # cs \<and> is_digit c"
  using show_nat_digits [of "nat (i AND NOT HARDENED_FLAG)"]
  by (cases "show_nat (nat (i AND NOT HARDENED_FLAG))") (auto simp: index_to_str_cases)

definition path_seg :: "string \<Rightarrow> int list \<Rightarrow> string" where
  "path_seg hc mp = (if length mp = 1 then index_to_str hc (hd mp)
     else ''<'' @ py_join '';'' (map (index_to_str hc) mp) @ ''>'')"

lemma path_to_string_segs:
  "path_to_string_multi path hc = concat (map (\<lambda>s. CHR ''/'' # s) (map (path_seg hc) path))"
  by (simp add: path_to_string_multi_def path_seg_def cong: map_cong) (induction path, auto)

text \<open>The paths that can be written: non-empty choices of indexes that are not negative, at most one of
  them a choice of several.\<close>

definition multi_count :: "int list list \<Rightarrow> nat" where
  "multi_count path = length (filter (\<lambda>mp. length mp \<noteq> 1) path)"

definition path_ok :: "int list list \<Rightarrow> bool" where
  "path_ok path \<longleftrightarrow> list_all (\<lambda>mp. mp \<noteq> [] \<and> list_all (\<lambda>i. 0 \<le> i) mp) path \<and> multi_count path \<le> 1"

lemma set_py_join: "set (py_join sep ws) \<subseteq> set sep \<union> \<Union> (set ` set ws)"
  by (induction sep ws rule: py_join.induct) auto

lemma path_seg_no_slash:
  assumes "list_all (\<lambda>i. 0 \<le> i) mp" and "mp \<noteq> []" and "hc \<in> hardened_marks"
  shows "CHR ''/'' \<notin> set (path_seg hc mp)"
proof -
  have i: "CHR ''/'' \<notin> set (index_to_str hc i)" if "i \<in> set mp" for i
    using index_chars [of i hc "CHR ''/''"] that assms by (auto simp: list_all_iff)
  then have "CHR ''/'' \<notin> set (py_join '';'' (map (index_to_str hc) mp))"
    using set_py_join [of "'';''" "map (index_to_str hc) mp"] by auto
  with i assms(2) show ?thesis by (cases mp) (auto simp: path_seg_def)
qed

lemma py_split_segs:
  "CHR ''/'' \<notin> set w \<Longrightarrow> \<forall>s\<in>set ss. CHR ''/'' \<notin> set s \<Longrightarrow>
   py_split (CHR ''/'') (w @ concat (map (\<lambda>s. CHR ''/'' # s) ss)) = w # ss"
proof (induction ss arbitrary: w)
  case Nil
  then show ?case by simp
next
  case (Cons s ss)
  then show ?case using py_split_append_sep [of "CHR ''/''" w] by simp
qed

lemma parse_index_seg:
  assumes "list_all (\<lambda>i. 0 \<le> i) mp" and "mp \<noteq> []" and hc: "hc \<in> hardened_marks"
    and "length mp \<noteq> 1 \<Longrightarrow> multi \<and> \<not> seen"
  shows "parse_index multi (path_seg hc mp) seen = Inr (mp, seen \<or> length mp \<noteq> 1)"
proof (cases "length mp = 1")
  case True
  then obtain i where mp: "mp = [i]" by (auto simp: length_Suc_conv)
  with assms obtain c cs where x: "index_to_str hc i = c # cs" "is_digit c"
    using show_nat_hd_digit [of i hc] by auto
  then have "\<not> prefix ''<'' (c # cs)" by auto
  with x str_to_harden_index [of i hc] assms mp show ?thesis
    by (simp add: path_seg_def parse_index_def)
next
  case False
  let ?ws = "map (index_to_str hc) mp" and ?x = "path_seg hc mp"
  have x: "?x = CHR ''<'' # py_join '';'' ?ws @ ''>''" using False by (simp add: path_seg_def)
  have "\<forall>w\<in>set ?ws. CHR '';'' \<notin> set w"
    using index_chars [of _ hc "CHR '';''"] assms by (auto simp: list_all_iff)
  then have sp: "py_split (CHR '';'') (py_slice 1 (length ?x - 1) ?x) = ?ws"
    unfolding x using assms(2) by (simp add: py_slice_def py_split_join)
  have "res_map str_to_harden ?ws = Inr mp"
  proof -
    have "res_map str_to_harden (map (index_to_str hc) xs) = Inr xs" if "list_all (\<lambda>i. 0 \<le> i) xs" for xs
      using that by (induction xs) (simp_all add: str_to_harden_index hc)
    with assms(1) show ?thesis by blast
  qed
  moreover have "prefix ''<'' ?x" "suffix ''>'' ?x" "2 \<le> length mp"
    using False assms(2) by (simp_all add: x suffix_def) (cases mp; simp add: Suc_le_eq)+
  ultimately show ?thesis
    using False assms(4) sp by (simp add: parse_index_def Let_def)
qed

lemma parse_indices_segs:
  assumes "list_all (\<lambda>mp. mp \<noteq> [] \<and> list_all (\<lambda>i. 0 \<le> i) mp) path" and hc: "hc \<in> hardened_marks"
    and "multi_count path + (if seen then 1 else 0) \<le> 1" and "0 < multi_count path \<Longrightarrow> multi"
  shows "parse_indices multi (map (path_seg hc) path) seen = Inr path"
  using assms(1, 3, 4)
proof (induction path arbitrary: seen)
  case Nil
  then show ?case by simp
next
  case (Cons mp path)
  have "parse_index multi (path_seg hc mp) seen = Inr (mp, seen \<or> length mp \<noteq> 1)"
    using Cons.prems hc by (intro parse_index_seg) (auto simp: multi_count_def split: if_splits)
  moreover have "parse_indices multi (map (path_seg hc) path) (seen \<or> length mp \<noteq> 1) = Inr path"
    using Cons.prems by (intro Cons.IH) (auto simp: multi_count_def split: if_splits)
  ultimately show ?case by simp
qed

lemma parse_path_str_segs:
  assumes "path_ok path" and hc: "hc \<in> hardened_marks" and m: "0 < multi_count path \<Longrightarrow> multi"
  shows "parse_path_str (''m'' @ path_to_string_multi path hc) multi = Inr path"
    and "path \<noteq> [] \<Longrightarrow> parse_path_str (tl (path_to_string_multi path hc)) multi = Inr path"
proof -
  have ok: "list_all (\<lambda>mp. mp \<noteq> [] \<and> list_all (\<lambda>i. 0 \<le> i) mp) path" "multi_count path \<le> 1"
    using assms(1) by (simp_all add: path_ok_def)
  have ns: "\<forall>s\<in>set (map (path_seg hc) path). CHR ''/'' \<notin> set s"
    using ok(1) path_seg_no_slash hc by (auto simp: list_all_iff)
  have r: "parse_indices multi (map (path_seg hc) path) False = Inr path"
    using ok hc m by (intro parse_indices_segs) auto
  have "py_split (CHR ''/'') (''m'' @ path_to_string_multi path hc) = ''m'' # map (path_seg hc) path"
    unfolding path_to_string_segs using ns by (intro py_split_segs) auto
  then show "parse_path_str (''m'' @ path_to_string_multi path hc) multi = Inr path"
    using r by (simp add: parse_path_str_def)
  assume "path \<noteq> []"
  then obtain mp path' where p: "path = mp # path'" by (cases path) auto
  have t: "tl (path_to_string_multi path hc)
      = path_seg hc mp @ concat (map (\<lambda>s. CHR ''/'' # s) (map (path_seg hc) path'))"
    by (simp add: path_to_string_segs p)
  have s: "py_split (CHR ''/'') (tl (path_to_string_multi path hc)) = map (path_seg hc) path"
    unfolding t using ns by (subst py_split_segs) (auto simp: p)
  have h: "path_seg hc mp \<noteq> []" "path_seg hc mp \<noteq> ''m''"
  proof -
    have "mp \<noteq> []" "list_all (\<lambda>i. 0 \<le> i) mp" using ok(1) p by auto
    then show "path_seg hc mp \<noteq> []" "path_seg hc mp \<noteq> ''m''"
      using show_nat_hd_digit [of "hd mp" hc] by (cases mp; auto simp: path_seg_def)+
  qed
  then have "tl (path_to_string_multi path hc) \<noteq> []" by (simp add: t)
  with s r h(2) show "parse_path_str (tl (path_to_string_multi path hc)) multi = Inr path"
    by (simp add: parse_path_str_def p)
qed

text \<open>
  C9: derivation paths as strings. A path whose indexes are not negative, whether or not they fit 32
  bits, with at most one choice between several indexes, is written with either hardened mark and parsed
  back to itself: after "m" and without the leading slash, by parse_multipath; and a path without choices
  by parse_path.
\<close>

theorem path_string_round_trip:
  assumes "path_ok path" and "hc = ''h'' \<or> hc = [CHR 0x27]"
  shows "parse_multipath (''m'' @ multipath_to_string path hc) = Inr path
    \<and> (path \<noteq> [] \<longrightarrow> parse_multipath (tl (multipath_to_string path hc)) = Inr path)
    \<and> (list_all (\<lambda>i. 0 \<le> i) p \<longrightarrow> parse_path (''m'' @ path_to_string p hc) = Inr p)"
proof (intro conjI impI)
  have hc: "hc \<in> hardened_marks" using assms(2) by (auto simp: hardened_marks_def)
  show "parse_multipath (''m'' @ multipath_to_string path hc) = Inr path"
    unfolding parse_multipath_def multipath_to_string_def by (rule parse_path_str_segs(1) [OF assms(1) hc]) simp
  show "parse_multipath (tl (multipath_to_string path hc)) = Inr path" if "path \<noteq> []"
    unfolding parse_multipath_def multipath_to_string_def by (rule parse_path_str_segs(2) [OF assms(1) hc _ that]) simp
  assume p: "list_all (\<lambda>i. 0 \<le> i) p"
  have m: "multi_count (map (\<lambda>i. [i]) p) = 0" by (induction p) (simp_all add: multi_count_def)
  with p have "path_ok (map (\<lambda>i. [i]) p)" by (simp add: path_ok_def list_all_iff)
  then have "parse_path_str (''m'' @ path_to_string p hc) False = Inr (map (\<lambda>i. [i]) p)"
    unfolding path_to_string_def by (rule parse_path_str_segs(1) [OF _ hc]) (simp add: m)
  moreover have "res_map (\<lambda>i. py_nth i 0) (map (\<lambda>i. [i]) p) = Inr p"
    by (induction p) simp_all
  ultimately show "parse_path (''m'' @ path_to_string p hc) = Inr p" by (simp add: parse_path_def)
qed

theorem path_string_round_trip_witness:
  "parse_multipath (''m'' @ multipath_to_string [[harden 48], [0, 1], [5]] [CHR 0x27]) = Inr [[harden 48], [0, 1], [5]]
   \<and> parse_path (''m'' @ path_to_string [7, 2] [CHR 0x27]) = Inr [7, 2]"
proof -
  have "0 \<le> harden 48" by (simp add: harden_eq)
  then have "path_ok [[harden 48], [0, 1], [5]]" by (simp add: path_ok_def multi_count_def)
  from path_string_round_trip [OF this, of "[CHR 0x27]" "[7, 2]"] show ?thesis by simp
qed

section \<open>Key origins round trip\<close>

lemma unpack_words_pack:
  assumes "list_all (\<lambda>i. 0 \<le> i \<and> i < 2 ^ 32) p"
  shows "res_concat (map (pack_le 4) p) = Inr (concat (map (\<lambda>i. le_bytes 4 (nat i)) p))"
    and "unpack_words (length p) (concat (map (\<lambda>i. le_bytes 4 (nat i)) p)) = p"
    and "length (concat (map (\<lambda>i. le_bytes 4 (nat i)) p)) = 4 * length p"
proof -
  show "res_concat (map (pack_le 4) p) = Inr (concat (map (\<lambda>i. le_bytes 4 (nat i)) p))"
    using assms by (intro res_concat_map_Inr) (auto simp: list_all_iff)
  show "unpack_words (length p) (concat (map (\<lambda>i. le_bytes 4 (nat i)) p)) = p"
    using assms by (induction p) auto
  show "length (concat (map (\<lambda>i. le_bytes 4 (nat i)) p)) = 4 * length p"
    by (induction p) auto
qed

definition keyorigin_ok :: "KeyOriginInfo \<Rightarrow> bool" where
  "keyorigin_ok ko \<longleftrightarrow> length (ko_fingerprint ko) = 4 \<and> list_all (\<lambda>i. 0 \<le> i \<and> i < 2 ^ 32) (ko_path ko)"

lemma keyorigin_serialize_ok:
  assumes "keyorigin_ok ko"
  shows "keyorigin_serialize ko = Inr (ko_fingerprint ko @ concat (map (\<lambda>i. le_bytes 4 (nat i)) (ko_path ko)))"
    and "keyorigin_deserialize (ko_fingerprint ko @ concat (map (\<lambda>i. le_bytes 4 (nat i)) (ko_path ko))) = Inr ko"
  using assms unpack_words_pack [of "ko_path ko"]
  by (simp_all add: keyorigin_ok_def keyorigin_serialize_def keyorigin_deserialize_def py_slice_def)

lemma keyorigin_deserialize_serialize:
  assumes "keyorigin_deserialize s = Inr ko" and "4 \<le> length s"
  shows "keyorigin_serialize ko = Inr s \<and> keyorigin_ok ko"
proof -
  have w: "concat (map (\<lambda>i. le_bytes 4 (nat i)) (unpack_words k t)) = t
      \<and> list_all (\<lambda>i. 0 \<le> i \<and> i < 2 ^ 32) (unpack_words k t)" if "length t = 4 * k" for k t
    using that
  proof (induction k arbitrary: t)
    case 0
    then show ?case by simp
  next
    case (Suc k)
    have l: "length (take 4 t) = 4" using Suc.prems by simp
    have "le_val (take 4 t) < 256 ^ 4" using le_val_less [of "take 4 t"] l by simp
    then have "int (le_val (take 4 t)) < 2 ^ 32" by simp
    moreover have "le_bytes 4 (le_val (take 4 t)) = take 4 t" using le_bytes_le_val [of "take 4 t"] l by simp
    ultimately show ?case using Suc by simp
  qed
  let ?t = "drop 4 s"
  have e: "length ?t = 4 * (length ?t div 4)" and ko: "ko = \<lparr>ko_fingerprint = take 4 s, ko_path = unpack_words (length ?t div 4) ?t\<rparr>"
    using assms(1) by (auto simp: keyorigin_deserialize_def Let_def py_slice_def split: if_splits)
  from w [OF e] have ok: "keyorigin_ok ko" using assms(2) by (simp add: ko keyorigin_ok_def)
  from keyorigin_serialize_ok(1) [OF ok] w [OF e] show ?thesis using ok by (simp add: ko)
qed

text \<open>The characters of paths and origins.\<close>

definition path_char :: "char \<Rightarrow> bool" where
  "path_char c \<longleftrightarrow> c \<in> set ''/<>;h'' \<or> c = CHR 0x27 \<or> is_digit c"

lemma path_seg_chars:
  assumes "list_all (\<lambda>i. 0 \<le> i) mp" and "mp \<noteq> []" and "hc \<in> hardened_marks" and "c \<in> set (path_seg hc mp)"
  shows "path_char c"
proof -
  have ix: "path_char c" if "i \<in> set mp" "c \<in> set (index_to_str hc i)" for i
    using index_chars [of i hc c] that assms(1, 3) by (auto simp: list_all_iff path_char_def)
  have "c \<in> set ''<>;'' \<or> (\<exists>i\<in>set mp. c \<in> set (index_to_str hc i))"
    using assms(2, 4) set_py_join [of "'';''" "map (index_to_str hc) mp"]
    by (cases mp) (auto simp: path_seg_def split: if_split_asm)
  with ix show ?thesis by (auto simp: path_char_def)
qed

lemma path_string_chars:
  assumes "list_all (\<lambda>mp. mp \<noteq> [] \<and> list_all (\<lambda>i. 0 \<le> i) mp) path" and "hc \<in> hardened_marks"
    and "c \<in> set (path_to_string_multi path hc)"
  shows "path_char c"
proof -
  have "c = CHR ''/'' \<or> (\<exists>mp\<in>set path. c \<in> set (path_seg hc mp))"
    using assms(3) by (auto simp: path_to_string_segs split: if_split_asm)
  with assms(1, 2) show ?thesis by (auto simp: list_all_iff path_char_def dest: path_seg_chars [rotated 3])
qed

lemma origin_string_chars:
  assumes "keyorigin_ok ko" and "hc \<in> hardened_marks" and "c \<in> set (keyorigin_to_string ko hc)"
  shows "path_char c \<or> c \<in> set hex_digits"
proof -
  have "c \<in> set (hexlify (ko_fingerprint ko)) \<or> c \<in> set (path_to_string_multi (map (\<lambda>i. [i]) (ko_path ko)) hc)"
    using assms(3) by (auto simp: keyorigin_to_string_def path_to_string_def)
  moreover have "list_all (\<lambda>mp. mp \<noteq> [] \<and> list_all (\<lambda>i. 0 \<le> i) mp) (map (\<lambda>i. [i]) (ko_path ko))"
    using assms(1) by (auto simp: keyorigin_ok_def list_all_iff)
  ultimately show ?thesis using path_string_chars [OF _ assms(2)] hexlify_chars by blast
qed

lemma keyorigin_from_to_string:
  assumes "keyorigin_ok ko" and hc: "hc \<in> hardened_marks"
  shows "keyorigin_from_string (keyorigin_to_string ko hc) = Inr ko"
proof -
  let ?path = "map (\<lambda>i. [i]) (ko_path ko)" and ?h = "hexlify (ko_fingerprint ko)"
  let ?p = "path_to_string (ko_path ko) hc"
  have l: "length ?h = 8" and nn: "list_all (\<lambda>i. 0 \<le> i) (ko_path ko)"
    using assms(1) by (auto simp: keyorigin_ok_def list_all_iff)
  have m: "multi_count ?path = 0" by (simp add: multi_count_def)
  have ok: "path_ok ?path" using nn m by (simp add: path_ok_def list_all_iff)
  have seg: "?p = concat (map (\<lambda>s. CHR ''/'' # s) (map (path_seg hc) ?path))"
    by (simp add: path_to_string_def path_to_string_segs)
  have lower: "not_upper c" if "c \<in> set ?p" for c
  proof -
    have "path_char c"
      using that nn hc by (intro path_string_chars [of ?path hc c]) (auto simp: path_to_string_def list_all_iff)
    then show ?thesis by (auto simp: path_char_def not_upper_def is_digit_def digit_val_def Let_def split: if_splits)
  qed
  then have low: "py_lower (?h @ ?p) = ?h @ ?p"
    using hexlify_chars hex_digits_lower by (intro py_lower_id) auto
  have "CHR ''/'' \<notin> set ?h" using hexlify_chars [of "CHR ''/''"] by (auto simp: hex_digits_def)
  then have sp: "py_split (CHR ''/'') (?h @ ?p) = ?h # map (path_seg hc) ?path"
    unfolding seg using path_seg_no_slash hc nn by (intro py_split_segs) (auto simp: list_all_iff)
  have "parse_path (drop 9 (?h @ ?p)) = Inr (ko_path ko)" if "ko_path ko \<noteq> []"
  proof -
    have "length (ko_fingerprint ko) = 4" using assms(1) by (simp add: keyorigin_ok_def)
    then have "drop 9 (?h @ ?p) = drop 1 ?p" by simp
    then have "drop 9 (?h @ ?p) = tl (path_to_string_multi ?path hc)"
      by (simp add: path_to_string_def drop_Suc)
    moreover have "parse_path_str (tl (path_to_string_multi ?path hc)) False = Inr ?path"
      using that m by (intro parse_path_str_segs(2) [OF ok hc]) auto
    moreover have "res_map (\<lambda>i. py_nth i 0) (map (\<lambda>i. [i]) p) = Inr p" for p :: "int list"
      by (induction p) simp_all
    ultimately show ?thesis by (simp add: parse_path_def)
  qed
  moreover have "py_slice 0 8 (?h @ ?p) = ?h" using l by (simp add: py_slice_def)
  ultimately show ?thesis
    unfolding keyorigin_from_string_def keyorigin_to_string_def low Let_def sp
    by (cases "ko_path ko = []") simp_all
qed

text \<open>
  Key origins. The byte form of a key origin with a fingerprint of four bytes and indexes of 32 bits
  reads back as that origin, and every byte string of at least four bytes that is read is the form of
  the origin it gives. The string form, with either hardened mark, parses back to the origin.
\<close>

theorem key_origin_round_trip:
  "(keyorigin_ok ko \<longrightarrow> (\<exists>s. keyorigin_serialize ko = Inr s \<and> keyorigin_deserialize s = Inr ko))
   \<and> (keyorigin_deserialize s = Inr ko \<and> 4 \<le> length s \<longrightarrow> keyorigin_serialize ko = Inr s)
   \<and> (keyorigin_ok ko \<and> (hc = ''h'' \<or> hc = [CHR 0x27]) \<longrightarrow>
        keyorigin_from_string (keyorigin_to_string ko hc) = Inr ko)"
proof (intro conjI impI)
  show "\<exists>s. keyorigin_serialize ko = Inr s \<and> keyorigin_deserialize s = Inr ko" if "keyorigin_ok ko"
    using keyorigin_serialize_ok [OF that] by blast
  show "keyorigin_serialize ko = Inr s" if "keyorigin_deserialize s = Inr ko \<and> 4 \<le> length s"
    using that keyorigin_deserialize_serialize by blast
  assume "keyorigin_ok ko \<and> (hc = ''h'' \<or> hc = [CHR 0x27])"
  then show "keyorigin_from_string (keyorigin_to_string ko hc) = Inr ko"
    by (intro keyorigin_from_to_string) (auto simp: hardened_marks_def)
qed

theorem key_origin_round_trip_witness:
  "keyorigin_from_string (keyorigin_to_string \<lparr>ko_fingerprint = [1, 2, 3, 4], ko_path = [44, 0]\<rparr> ''h'')
     = Inr \<lparr>ko_fingerprint = [1, 2, 3, 4], ko_path = [44, 0]\<rparr>"
  using key_origin_round_trip [of "\<lparr>ko_fingerprint = [1, 2, 3, 4], ko_path = [44, 0]\<rparr>" "[]" "''h''"]
  by (simp add: keyorigin_ok_def)

section \<open>Standard paths\<close>

lemma purpose_inverse: "get_addrtype_from_bip44_purpose (harden (get_bip44_purpose a)) = Some a"
proof -
  have "\<forall>a. get_addrtype_from_bip44_purpose (harden (get_bip44_purpose a)) = Some a" by code_simp
  then show ?thesis ..
qed

lemma purpose_unique:
  "is_hardened i \<Longrightarrow> get_addrtype_from_bip44_purpose i = Some a \<Longrightarrow> i = harden (get_bip44_purpose a)"
  using harden_clear [of i] by (auto simp: get_addrtype_from_bip44_purpose_def Let_def split: if_splits)

text \<open>
  Is_standard_path accepts exactly the BIP 44 paths: purpose of the address type, coin type of the
  chain and an account, all hardened, then 0 or 1 and an index, unhardened; the purpose determines the
  address type.
\<close>

theorem is_standard_path_iff:
  "is_standard_path path addrtype chain \<longleftrightarrow>
     (\<exists>account change index. path = [harden (get_bip44_purpose addrtype), harden (get_bip44_chain chain),
         account, change, index]
       \<and> is_hardened account \<and> (change = 0 \<or> change = 1) \<and> \<not> is_hardened index)"
proof
  assume s: "is_standard_path path addrtype chain"
  then have "length path = 5" by (auto simp: is_standard_path_def split: if_splits)
  then obtain a b c d e where p: "path = [a, b, c, d, e]"
    by (auto simp: numeral_eq_Suc length_Suc_conv)
  from s have "is_hardened a" "get_addrtype_from_bip44_purpose a = Some addrtype"
    "b = harden (get_bip44_chain chain)" "is_hardened c" "d \<in> {0, 1}" "\<not> is_hardened e"
    by (auto simp: is_standard_path_def p split: if_splits option.splits)
  with purpose_unique [of a addrtype] show "\<exists>account change index. path = [harden (get_bip44_purpose addrtype),
      harden (get_bip44_chain chain), account, change, index]
      \<and> is_hardened account \<and> (change = 0 \<or> change = 1) \<and> \<not> is_hardened index"
    by (auto simp: p)
next
  have "\<not> is_hardened 0" "\<not> is_hardened 1" by (simp_all add: not_hardened_small)
  moreover assume "\<exists>account change index. path = [harden (get_bip44_purpose addrtype), harden (get_bip44_chain chain),
      account, change, index] \<and> is_hardened account \<and> (change = 0 \<or> change = 1) \<and> \<not> is_hardened index"
  ultimately show "is_standard_path path addrtype chain"
    by (auto simp: is_standard_path_def purpose_inverse)
qed

end
