(* ===== verification/Psbt_Map.thy ===== *)
theory Psbt_Map
  imports Tx Key
begin

text \<open>
  What the three kinds of maps of \<open>hwilib/psbt.py\<close> share: the loop that reads key-value pairs up to the
  separator, the two checks nearly every field makes on its key, and the key paths. The loop is a
  client of a handler for one pair; what it needs of the handler is the locale \<open>kv_handler\<close>.
\<close>

section \<open>The read loop\<close>

text \<open>
  \<open>while True\<close>: a key that cannot be read, for whatever reason, and an empty key end the map; any other
  key goes to the handler, which reads the value, and is then remembered in \<open>key_lookup\<close>. Every round
  reads at least a byte, so as many rounds as there are bytes, and one, are enough.
\<close>

fun kv_loop :: "nat \<Rightarrow> (bytes \<Rightarrow> bytes set \<Rightarrow> 'm \<Rightarrow> 'm reader) \<Rightarrow> bytes set \<Rightarrow> 'm \<Rightarrow> 'm reader" where
  "kv_loop 0 h key_lookup m f = (Inl OutOfFuel, f)"
| "kv_loop (Suc fuel) h key_lookup m f =
     (case deser_string f of
        (Inl e, f) \<Rightarrow> (Inr m, f)
      | (Inr key, f) \<Rightarrow>
          if length key = 0 then (Inr m, f)
          else rd_bind (h key key_lookup m) (kv_loop fuel h (insert key key_lookup)) f)"

definition kv_run :: "(bytes \<Rightarrow> bytes set \<Rightarrow> 'm \<Rightarrow> 'm reader) \<Rightarrow> bytes set \<Rightarrow> 'm \<Rightarrow> 'm reader" where
  "kv_run h key_lookup m f = kv_loop (Suc (length f)) h key_lookup m f"

section \<open>Parts of the handlers\<close>

text \<open>The type of a key is the compact size at its front: \<open>deser_compact_size(BytesIO(key))\<close>.\<close>

definition key_type_of :: "bytes \<Rightarrow> int result" where
  "key_type_of key = fst (deser_compact_size key)"

text \<open>The checks on the key of a field that occurs once: not seen before, and only the type.\<close>

definition check_single :: "string \<Rightarrow> string \<Rightarrow> bytes \<Rightarrow> bytes set \<Rightarrow> unit result" where
  "check_single dup longer key key_lookup =
     (if key \<in> key_lookup then Inl (PSBTSerializationError dup)
      else if length key \<noteq> 1 then Inl (PSBTSerializationError longer)
      else Inr ())"

text \<open>A field checks its key, reads its value with \<open>deser_string\<close> and stores what it makes of it.\<close>

definition kv_field :: "unit result \<Rightarrow> (bytes \<Rightarrow> 'm result) \<Rightarrow> 'm reader" where
  "kv_field check store = rd_bind (rd_lift check) (\<lambda>_. rd_bind deser_string (\<lambda>v. rd_lift (store v)))"

definition DeserializeHDKeypath ::
    "bytes \<Rightarrow> (bytes, KeyOriginInfo) dict \<Rightarrow> nat list \<Rightarrow> (bytes, KeyOriginInfo) dict reader" where
  "DeserializeHDKeypath key hd_keypaths expected_sizes =
     (let pubkey = drop 1 key in
      kv_field
        (if length key \<notin> set expected_sizes
         then Inl (PSBTSerializationError (''Size of key was not the expected size for the type partial signature pubkey. Length: ''
                @ show_nat (length key)))
         else if dict_has hd_keypaths pubkey
         then Inl (PSBTSerializationError ''Duplicate key, input partial signature for pubkey already provided'')
         else Inr ())
        (\<lambda>v. res_bind (keyorigin_deserialize v) (\<lambda>origin. Inr (AList.update pubkey origin hd_keypaths))))"

definition SerializeHDKeypath :: "(bytes, KeyOriginInfo) dict \<Rightarrow> bytes \<Rightarrow> bytes result" where
  "SerializeHDKeypath hd_keypaths type =
     res_concat (map (\<lambda>(pubkey, path).
       res_concat [ser_string (type @ pubkey), res_bind (keyorigin_serialize path) ser_string])
       (sorted_items hd_keypaths))"

text \<open>A pair as it is written, and the list of pairs of a map.\<close>

definition ser_pair :: "bytes result \<Rightarrow> bytes result \<Rightarrow> bytes result" where
  "ser_pair k v = res_concat [res_bind k ser_string, res_bind v ser_string]"

text \<open>The pieces appended to \<open>r\<close>, in order; a piece that is left out is the empty list.\<close>

definition ser_typed :: "int \<Rightarrow> bytes \<Rightarrow> bytes result \<Rightarrow> bytes result" where
  "ser_typed key_type keydata v = ser_pair (res_concat [ser_compact_size key_type, Inr keydata]) v"

definition ser_unless_empty :: "int \<Rightarrow> bytes \<Rightarrow> bytes result list" where
  "ser_unless_empty key_type v = (if length v \<noteq> 0 then [ser_typed key_type [] (Inr v)] else [])"

definition ser_option :: "int \<Rightarrow> (int \<Rightarrow> bytes result) \<Rightarrow> int option \<Rightarrow> bytes result list" where
  "ser_option key_type enc v = (case v of None \<Rightarrow> [] | Some x \<Rightarrow> [ser_typed key_type [] (enc x)])"

text \<open>
  \<open>for i in range(0, num_hashes): leaf_hashes.add(vs.read(32))\<close>, then the key origin from the rest. At
  the end of the value a read returns fewer bytes, down to none, and is added all the same.
\<close>

definition deser_tap_keypath :: "bytes \<Rightarrow> (bytes set \<times> KeyOriginInfo) result" where
  "deser_tap_keypath value =
     fst (rd_bind deser_compact_size (\<lambda>num_hashes.
          rd_bind (rd_rep (nat num_hashes) (py_read 32)) (\<lambda>hs.
          rd_bind py_read_all (\<lambda>rest.
          rd_lift (res_bind (keyorigin_deserialize rest) (\<lambda>origin. Inr (set hs, origin)))))) value)"

text \<open>
  A set is iterated in an order Python does not fix: the order is a parameter \<open>it\<close>, of which only
  \<open>iteration_ok\<close> is used.
\<close>

definition iteration_ok :: "(bytes set \<Rightarrow> bytes list) \<Rightarrow> bool" where
  "iteration_ok it \<longleftrightarrow> (\<forall>S. finite S \<longrightarrow> set (it S) = S \<and> distinct (it S))"

definition ser_tap_keypath :: "(bytes set \<Rightarrow> bytes list) \<Rightarrow> bytes set \<times> KeyOriginInfo \<Rightarrow> bytes result" where
  "ser_tap_keypath it p =
     (case p of (leaf_hashes, origin) \<Rightarrow>
        res_concat ([ser_compact_size (int (card leaf_hashes))] @ map Inr (it leaf_hashes) @ [keyorigin_serialize origin]))"

text \<open>\<open>pubkeys_cat[i: i + 33]\<close> for \<open>i\<close> in steps of 33.\<close>

fun split33 :: "nat \<Rightarrow> bytes \<Rightarrow> bytes list" where
  "split33 0 b = []"
| "split33 (Suc n) b = (if b = [] then [] else take 33 b # split33 n (drop 33 b))"

definition deser_participants :: "bytes \<Rightarrow> bytes list result" where
  "deser_participants pubkeys_cat =
     (if length pubkeys_cat = 0
      then Inl (PSBTSerializationError ''The list of compressed pubkeys for Musig2 cannot be empty'')
      else if length pubkeys_cat mod 33 \<noteq> 0
      then Inl (PSBTSerializationError ''The compressed pubkeys for Musig2 must be exactly 33 bytes long'')
      else Inr (split33 (length pubkeys_cat) pubkeys_cat))"

section \<open>The handler and its client\<close>

text \<open>
  A handler of pairs leaves a suffix of the stream, and its errors are Python's. The loop then ends, and
  reads a list of written pairs one by one.
\<close>

definition pair_bytes :: "bytes \<times> bytes \<Rightarrow> bytes" where
  "pair_bytes p = str.encoding (fst p) @ str.encoding (snd p)"

definition pair_ok :: "bytes \<times> bytes \<Rightarrow> bool" where
  "pair_ok p \<longleftrightarrow> fst p \<noteq> [] \<and> string_ok (fst p) \<and> string_ok (snd p)"

lemma str_encoding_nonempty: "string_ok s \<Longrightarrow> str.encoding s \<noteq> []"
  using str.enc_encoding [of s] ser_compact_size_nonempty
  by (auto simp: ser_string_def res_concat_Cons)

lemma consumes_field [consumes_intros]:
  "check \<noteq> Inl OutOfFuel \<Longrightarrow> (\<And>v. store v \<noteq> Inl OutOfFuel) \<Longrightarrow> consumes (kv_field check store)"
  unfolding kv_field_def by (intro consumes_intros) simp_all

lemma kv_field_value:
  "string_ok v \<Longrightarrow> kv_field (Inr u) store (str.encoding v @ rest) = (store v, rest)"
  by (simp add: kv_field_def rd_bind_def str.dec_encoding)

lemma kv_field_Inr:
  "kv_field check store f = (Inr m, f') \<Longrightarrow> check = Inr () \<and> (\<exists>v. store v = Inr m)"
  by (cases check) (auto simp: kv_field_def rd_bind_eq_Inr)

lemma kv_field_elim:
  assumes "kv_field check store f = (Inr m', f')"
  obtains v where "check = Inr ()" "store v = Inr m'"
  using kv_field_Inr [OF assms] by blast

locale kv_handler =
  fixes h :: "bytes \<Rightarrow> bytes set \<Rightarrow> 'm \<Rightarrow> 'm reader"
  assumes consumes_handler: "consumes (h key key_lookup m)"
begin

lemma loop_fuel:
  "length f < fuel \<Longrightarrow> length f < fuel' \<Longrightarrow> kv_loop fuel h L m f = kv_loop fuel' h L m f"
proof (induction fuel arbitrary: fuel' L m f)
  case 0
  then show ?case by simp
next
  case (Suc fuel)
  obtain n where n: "fuel' = Suc n" using Suc.prems(2) by (cases fuel') auto
  obtain r f1 where d: "deser_string f = (r, f1)" by (cases "deser_string f")
  show ?case
  proof (cases r)
    case (Inl e)
    then show ?thesis by (simp add: n d)
  next
    case (Inr key)
    then have l: "length f1 < length f" using d deser_string_shorter by blast
    obtain r2 f2 where h: "h key L m f1 = (r2, f2)" by (cases "h key L m f1")
    have "length f2 \<le> length f1" using consumesD(3) [OF consumes_handler h] .
    then have "kv_loop fuel h L' m' f2 = kv_loop n h L' m' f2" for L' m'
      using Suc.prems l n by (intro Suc.IH) auto
    then show ?thesis by (simp add: n d Inr rd_bind_def h split: sum.splits)
  qed
qed

lemma run_unfold:
  "kv_run h L m f = (case deser_string f of
      (Inl e, f) \<Rightarrow> (Inr m, f)
    | (Inr key, f) \<Rightarrow> if key = [] then (Inr m, f) else rd_bind (h key L m) (kv_run h (insert key L)) f)"
proof -
  obtain r f1 where d: "deser_string f = (r, f1)" by (cases "deser_string f")
  show ?thesis
  proof (cases r)
    case (Inl e)
    then show ?thesis by (simp add: kv_run_def d)
  next
    case (Inr key)
    then have l: "length f1 < length f" using d deser_string_shorter by blast
    obtain r2 f2 where h: "h key L m f1 = (r2, f2)" by (cases "h key L m f1")
    have "length f2 \<le> length f1" using consumesD(3) [OF consumes_handler h] .
    then have "kv_loop (length f) h L' m' f2 = kv_loop (Suc (length f2)) h L' m' f2" for L' m'
      using l by (intro loop_fuel) auto
    then show ?thesis by (simp add: kv_run_def d Inr rd_bind_def h split: sum.splits)
  qed
qed

lemma consumes_run: "consumes (kv_run h L m)"
proof -
  have "suffix (snd (kv_run h L m f)) f \<and> fst (kv_run h L m f) \<noteq> Inl OutOfFuel" for f
  proof (induction "length f" arbitrary: f L m rule: less_induct)
    case less
    obtain r f1 where d: "deser_string f = (r, f1)" by (cases "deser_string f")
    have s1: "suffix f1 f" using consumesD(1) [OF consumes_string d] .
    show ?case
    proof (cases r)
      case (Inl e)
      then show ?thesis using s1 by (subst (1 2) run_unfold) (simp add: d)
    next
      case (Inr key)
      obtain r2 f2 where h: "h key L m f1 = (r2, f2)" by (cases "h key L m f1")
      have s2: "suffix f2 f1" and r2: "r2 \<noteq> Inl OutOfFuel"
        using consumesD(1,2) [OF consumes_handler h] by auto
      have "length f2 < length f"
        using suffix_length_le [OF s2] d Inr deser_string_shorter by fastforce
      then have "suffix (snd (kv_run h L' m' f2)) f2 \<and> fst (kv_run h L' m' f2) \<noteq> Inl OutOfFuel" for L' m'
        by (rule less)
      moreover have "suffix f2 f" using s2 s1 by (rule suffix_order.trans)
      ultimately show ?thesis
        using s1 r2 by (subst (1 2) run_unfold) (auto simp: d Inr rd_bind_def h split: sum.splits
          intro: suffix_order.trans [of _ f2])
    qed
  qed
  then show ?thesis by (simp add: consumes_def)
qed

lemma loop_total: "length f < fuel \<Longrightarrow> fst (kv_loop fuel h L m f) \<noteq> Inl OutOfFuel"
  using loop_fuel [of f fuel "Suc (length f)"] consumes_run [of L m] by (simp add: kv_run_def consumes_def)

text \<open>What every accepted pair preserves, the loop preserves.\<close>

lemma run_invariant:
  assumes step: "\<And>key L m f m' f'. P m \<Longrightarrow> h key L m f = (Inr m', f') \<Longrightarrow> P m'"
    and "P m" and "kv_run h L m f = (Inr m', f')"
  shows "P m'"
  using assms(2, 3)
proof (induction "length f" arbitrary: f L m rule: less_induct)
  case less
  obtain r f1 where d: "deser_string f = (r, f1)" by (cases "deser_string f")
  show ?case
  proof (cases r)
    case (Inl e)
    then show ?thesis using less.prems d by (simp add: run_unfold [of L m f])
  next
    case (Inr key)
    obtain r2 f2 where h: "h key L m f1 = (r2, f2)" by (cases "h key L m f1")
    have "length f2 < length f"
      using consumesD(3) [OF consumes_handler h] d Inr deser_string_shorter by fastforce
    then show ?thesis
      using less step [OF less.prems(1), of key L f1] d Inr h
      by (cases "key = []"; cases r2) (auto simp: run_unfold [of L m f] rd_bind_def)
  qed
qed

text \<open>A map that has been read up to its separator.\<close>

lemma run_separator: "kv_run h L m (0 # f) = (Inr m, f)"
proof -
  have "str.encoding [] = [0]"
    by (simp add: str.encoding_def ser_string_def ser_compact_size_def res_concat_Cons)
  then have "deser_string (0 # f) = (Inr [], f)" using str.dec_encoding [of "[]" f] by (simp add: string_ok_def)
  then show ?thesis by (subst run_unfold) simp
qed

text \<open>Reading a list of written pairs takes the map from one value to another.\<close>

definition runs :: "bytes set \<Rightarrow> 'm \<Rightarrow> (bytes \<times> bytes) list \<Rightarrow> 'm \<Rightarrow> bool" where
  "runs L m ps m' \<longleftrightarrow> (\<forall>f. kv_run h L m (concat (map pair_bytes ps) @ f) = kv_run h (L \<union> fst ` set ps) m' f)"

lemma runs_Nil [simp]: "runs L m [] m"
  by (simp add: runs_def)

lemma runs_append:
  "runs L m ps m' \<Longrightarrow> runs (L \<union> fst ` set ps) m' qs m'' \<Longrightarrow> runs L m (ps @ qs) m''"
  by (simp add: runs_def Un_assoc image_Un)

lemma runs_pair:
  assumes "pair_ok (k, v)" and "\<And>f. h k L m (str.encoding v @ f) = (Inr m', f)"
  shows "runs L m [(k, v)] m'"
proof -
  have "kv_run h L m (str.encoding k @ str.encoding v @ f) = kv_run h (insert k L) m' f" for f
    using assms by (subst run_unfold) (simp add: pair_ok_def str.dec_encoding rd_bind_def)
  then show ?thesis by (simp add: runs_def pair_bytes_def)
qed

text \<open>A family of pairs, one for each item of a dictionary: each takes the map one item further.\<close>

lemma runs_items:
  assumes "\<And>done x L'. x \<in> set xs \<Longrightarrow> \<exists>more. xs = done @ x # more \<Longrightarrow> L' = L \<union> (fst \<circ> pair) ` set done
      \<Longrightarrow> pair_ok (pair x) \<and> (\<forall>f. h (fst (pair x)) L' (m done) (str.encoding (snd (pair x)) @ f) = (Inr (m (done @ [x])), f))"
  shows "runs L (m []) (map pair xs) (m xs)"
  using assms
proof (induction xs rule: rev_induct)
  case Nil
  then show ?case by simp
next
  case (snoc x xs)
  have "runs L (m []) (map pair xs) (m xs)"
  proof (rule snoc.IH)
    fix "done" y L' assume a: "y \<in> set xs" "\<exists>more. xs = done @ y # more" "L' = L \<union> (fst \<circ> pair) ` set done"
    then obtain more where "xs = done @ y # more" by blast
    then have "\<exists>more. xs @ [x] = done @ y # more" by auto
    then show "pair_ok (pair y) \<and> (\<forall>f. h (fst (pair y)) L' (m done) (str.encoding (snd (pair y)) @ f) = (Inr (m (done @ [y])), f))"
      using a by (intro snoc.prems) auto
  qed
  moreover have "pair_ok (pair x) \<and> (\<forall>f. h (fst (pair x)) (L \<union> (fst \<circ> pair) ` set xs) (m xs)
      (str.encoding (snd (pair x)) @ f) = (Inr (m (xs @ [x])), f))"
    by (rule snoc.prems) auto
  then have "runs (L \<union> fst ` set (map pair xs)) (m xs) [pair x] (m (xs @ [x]))"
    using runs_pair [of "fst (pair x)" "snd (pair x)" _ "m xs" "m (xs @ [x])"] by (simp add: image_comp)
  ultimately show ?case using runs_append by fastforce
qed

lemma runs_read:
  "runs {} m ps m' \<Longrightarrow> kv_run h {} m (concat (map pair_bytes ps) @ 0 # f) = (Inr m', f)"
  by (simp add: runs_def run_separator)

text \<open>
  Writer and reader together: the pieces \<open>ms\<close> of the writer succeed and are a list of pairs, and reading
  these takes the map from \<open>m\<close> to \<open>m'\<close>, whatever keys with types in \<open>T\<close> have been seen; afterwards the
  types seen are in \<open>T'\<close>.
\<close>

definition chunk :: "byte set \<Rightarrow> 'm \<Rightarrow> bytes result list \<Rightarrow> byte set \<Rightarrow> 'm \<Rightarrow> bool" where
  "chunk T m ms T' m' \<longleftrightarrow>
     (\<exists>ps. res_concat ms = Inr (concat (map pair_bytes ps))
       \<and> (\<forall>L. hd ` L \<subseteq> T \<longrightarrow> runs L m ps m' \<and> hd ` (L \<union> fst ` set ps) \<subseteq> T'))"

lemma chunk_Nil: "T \<subseteq> T' \<Longrightarrow> chunk T m [] T' m"
  unfolding chunk_def by (intro exI [of _ "[]"]) auto

lemma chunk_append:
  assumes "chunk T m ms T1 m1" and "chunk T1 m1 ns T2 m2"
  shows "chunk T m (ms @ ns) T2 m2"
proof -
  obtain ps where p: "res_concat ms = Inr (concat (map pair_bytes ps))"
    "\<And>L. hd ` L \<subseteq> T \<Longrightarrow> runs L m ps m1 \<and> hd ` (L \<union> fst ` set ps) \<subseteq> T1"
    using assms(1) by (auto simp: chunk_def)
  obtain qs where q: "res_concat ns = Inr (concat (map pair_bytes qs))"
    "\<And>L. hd ` L \<subseteq> T1 \<Longrightarrow> runs L m1 qs m2 \<and> hd ` (L \<union> fst ` set qs) \<subseteq> T2"
    using assms(2) by (auto simp: chunk_def)
  have "runs L m (ps @ qs) m2 \<and> hd ` (L \<union> fst ` set (ps @ qs)) \<subseteq> T2" if "hd ` L \<subseteq> T" for L
    using p(2) [OF that] q(2) [of "L \<union> fst ` set ps"] runs_append by (auto simp: image_Un Un_assoc)
  moreover have "res_concat (ms @ ns) = Inr (concat (map pair_bytes (ps @ qs)))"
    using p(1) q(1) by (simp add: res_concat_append)
  ultimately show ?thesis unfolding chunk_def by blast
qed

lemma chunk_single:
  assumes "n = int (unat t)" and "unat t < 253" and "t \<notin> T" and "v = Inr b" and "string_ok b"
    and "\<And>L f. [t] \<notin> L \<Longrightarrow> h [t] L m (str.encoding b @ f) = (Inr m', f)"
  shows "chunk T m [ser_typed n [] v] (insert t T) m'"
proof -
  have c: "ser_compact_size n = Inr [t]" using assms(1, 2) by (simp add: ser_compact_size_def pack_byte)
  have s: "ser_typed n [] v = Inr (pair_bytes ([t], b))"
    using assms(4, 5) by (simp add: ser_typed_def ser_pair_def c pair_bytes_def res_concat_Cons
        str.enc_encoding string_ok_def)
  have "runs L m [([t], b)] m' \<and> hd ` (L \<union> fst ` set [([t], b)]) \<subseteq> insert t T" if "hd ` L \<subseteq> T" for L
  proof -
    have "[t] \<notin> L" using that assms(3) by force
    then show ?thesis
      using assms(5, 6) that by (auto intro!: runs_pair simp: pair_ok_def string_ok_def)
  qed
  then show ?thesis unfolding chunk_def by (intro exI [of _ "[([t], b)]"]) (simp add: s)
qed

lemma chunk_unless_empty:
  assumes "n = int (unat t)" and "unat t < 253" and "t \<notin> T" and "string_ok b" and "b = [] \<Longrightarrow> m' = m"
    and "\<And>L f. [t] \<notin> L \<Longrightarrow> b \<noteq> [] \<Longrightarrow> h [t] L m (str.encoding b @ f) = (Inr m', f)"
  shows "chunk T m (ser_unless_empty n b) (insert t T) m'"
proof (cases "b = []")
  case True
  then show ?thesis using assms(5) chunk_Nil [of T "insert t T" m] by (auto simp: ser_unless_empty_def)
next
  case False
  then show ?thesis using assms by (auto simp: ser_unless_empty_def intro!: chunk_single)
qed

lemma chunk_option:
  assumes "n = int (unat t)" and "unat t < 253" and "t \<notin> T" and "x = None \<Longrightarrow> m' = m"
    and "\<And>y. x = Some y \<Longrightarrow> \<exists>b. enc y = Inr b \<and> string_ok b
        \<and> (\<forall>L f. [t] \<notin> L \<longrightarrow> h [t] L m (str.encoding b @ f) = (Inr m', f))"
  shows "chunk T m (ser_option n enc x) (insert t T) m'"
proof (cases x)
  case None
  then show ?thesis using assms(4) chunk_Nil [of T "insert t T" m] by (auto simp: ser_option_def)
next
  case (Some y)
  then show ?thesis using assms by (auto simp: ser_option_def intro!: chunk_single)
qed

text \<open>The pairs of a list of items whose keys are all of one type and new.\<close>

lemma chunk_items:
  assumes n: "n = int (unat t)" "unat t < 253" and T: "t \<notin> T" and d: "distinct (map kd xs)"
    and step: "\<And>done x more L. xs = done @ x # more \<Longrightarrow> t # kd x \<notin> L \<Longrightarrow>
        string_ok (t # kd x) \<and> val x = Inr (b x) \<and> string_ok (b x)
        \<and> (\<forall>f. h (t # kd x) L (m done) (str.encoding (b x) @ f) = (Inr (m (done @ [x])), f))"
  shows "chunk T (m []) (map (\<lambda>x. ser_typed n (kd x) (val x)) xs) (insert t T) (m xs)"
proof -
  let ?pair = "\<lambda>x. (t # kd x, b x)"
  have c: "ser_compact_size n = Inr [t]" using n by (simp add: ser_compact_size_def pack_byte)
  have ok: "string_ok (t # kd x) \<and> val x = Inr (b x) \<and> string_ok (b x)" if x: "x \<in> set xs" for x
  proof -
    obtain "done" more where "xs = done @ x # more" using split_list [OF x] by blast
    from step [OF this, of "{}"] show ?thesis by simp
  qed
  have "res_concat (map (\<lambda>x. ser_typed n (kd x) (val x)) xs) = Inr (concat (map (\<lambda>x. pair_bytes (?pair x)) xs))"
    using ok by (intro res_concat_map_Inr)
      (simp add: ser_typed_def ser_pair_def c pair_bytes_def res_concat_Cons str.enc_encoding)
  moreover have "runs L (m []) (map ?pair xs) (m xs)" if L: "hd ` L \<subseteq> T" for L
  proof (rule runs_items)
    fix "done" x L' assume x: "x \<in> set xs" "\<exists>more. xs = done @ x # more" and L': "L' = L \<union> (fst \<circ> ?pair) ` set done"
    then obtain more where xs: "xs = done @ x # more" by blast
    have "t # kd x \<notin> L" using L T by force
    moreover have "t # kd x \<notin> (fst \<circ> ?pair) ` set done" using d by (auto simp: xs)
    ultimately show "pair_ok (?pair x) \<and> (\<forall>f. h (fst (?pair x)) L' (m done)
        (str.encoding (snd (?pair x)) @ f) = (Inr (m (done @ [x])), f))"
      using step [OF xs, of L'] by (simp add: L' pair_ok_def)
  qed
  moreover have "hd ` (L \<union> fst ` set (map ?pair xs)) \<subseteq> insert t T" if "hd ` L \<subseteq> T" for L
    using that by auto
  ultimately show ?thesis
    unfolding chunk_def by (intro exI [of _ "map ?pair xs"]) (simp add: comp_def)
qed

text \<open>A dictionary with one pair for each entry.\<close>

lemma chunk_dict:
  assumes "n = int (unat t)" "unat t < 253" and "t \<notin> T" and "dict_ok xs" and "inj_on kd (set (dict_keys xs))"
    and step: "\<And>k v d L. (k, v) \<in> set xs \<Longrightarrow> t # kd k \<notin> L \<Longrightarrow> \<not> dict_has d k \<Longrightarrow>
        string_ok (t # kd k) \<and> (\<exists>b. val v = Inr b \<and> string_ok b
        \<and> (\<forall>f. h (t # kd k) L (m d) (str.encoding b @ f) = (Inr (m (d @ [(k, v)])), f)))"
  shows "chunk T (m []) (map (\<lambda>(k, v). ser_typed n (kd k) (val v)) xs) (insert t T) (m xs)"
proof -
  have "map (\<lambda>x. kd (fst x)) xs = map kd (dict_keys xs)" by simp
  moreover have "distinct (map kd (dict_keys xs))"
    using assms(4, 5) by (simp add: distinct_map dict_ok_def del: map_map)
  ultimately have d: "distinct (map (\<lambda>x. kd (fst x)) xs)" by (simp add: comp_def)
  have "chunk T (m []) (map (\<lambda>x. ser_typed n (kd (fst x)) (val (snd x))) xs) (insert t T) (m xs)"
  proof (rule chunk_items [OF assms(1-3) d])
    fix "done" x more L assume xs: "xs = done @ x # more" and L: "t # kd (fst x) \<notin> L"
    obtain k v where x: "x = (k, v)" by (cases x)
    have "\<not> dict_has done k" using assms(4) by (auto simp: xs x dict_ok_def dict_has_def)
    from step [OF _ _ this, of v L] L xs x
    show "string_ok (t # kd (fst x)) \<and> val (snd x) = Inr (case val (snd x) of Inr b \<Rightarrow> b | Inl _ \<Rightarrow> [])
        \<and> string_ok (case val (snd x) of Inr b \<Rightarrow> b | Inl _ \<Rightarrow> [])
        \<and> (\<forall>f. h (t # kd (fst x)) L (m done) (str.encoding (case val (snd x) of Inr b \<Rightarrow> b | Inl _ \<Rightarrow> []) @ f)
             = (Inr (m (done @ [x])), f))"
      by auto
  qed
  then show ?thesis by (simp add: case_prod_unfold)
qed

text \<open>The unknown pairs, written as they were read.\<close>

lemma chunk_pairs:
  assumes dok: "dict_ok xs" and ok: "\<And>x. x \<in> set xs \<Longrightarrow> pair_ok x"
    and step: "\<And>k v d L f. (k, v) \<in> set xs \<Longrightarrow> \<not> dict_has d k \<Longrightarrow>
        h k L (m d) (str.encoding v @ f) = (Inr (m (d @ [(k, v)])), f)"
  shows "chunk T (m []) (map (\<lambda>(key, v). ser_pair (Inr key) (Inr v)) xs) UNIV (m xs)"
proof -
  have "runs L (m []) (map (\<lambda>x. x) xs) (m xs)" for L
  proof (rule runs_items)
    fix "done" x L' assume x: "x \<in> set xs" "\<exists>more. xs = done @ x # more"
    then obtain more where xs: "xs = done @ x # more" by blast
    have "\<not> dict_has done (fst x)" using dok by (auto simp: xs dict_ok_def dict_has_def)
    then show "pair_ok x \<and> (\<forall>f. h (fst x) L' (m done) (str.encoding (snd x) @ f) = (Inr (m (done @ [x])), f))"
      using step [of "fst x" "snd x" "done"] ok [OF x(1)] x(1) by simp
  qed
  moreover have "res_concat (map (\<lambda>(key, v). ser_pair (Inr key) (Inr v)) xs) = Inr (concat (map pair_bytes xs))"
    using ok by (intro res_concat_map_Inr)
      (auto simp: ser_pair_def res_concat_Cons pair_bytes_def pair_ok_def str.enc_encoding)
  ultimately show ?thesis unfolding chunk_def by (intro exI [of _ xs]) simp
qed

text \<open>A whole map: the pieces and the separator.\<close>

lemma chunk_read:
  assumes "chunk {} m ms T m'"
  shows "\<exists>bs. res_concat (ms @ [Inr [0]]) = Inr bs \<and> (\<forall>f. kv_run h {} m (bs @ f) = (Inr m', f))"
proof -
  obtain ps where "res_concat ms = Inr (concat (map pair_bytes ps))" "runs {} m ps m'"
    using assms by (auto simp: chunk_def)
  then show ?thesis using runs_read by (simp add: res_concat_append)
qed

end

text \<open>
  A handler whose accepted pairs have a string for a value reads exactly that string. If it also keeps
  track of the keys it has accepted and refuses them, a map that is read has no key twice.
\<close>

locale kv_strings = kv_handler h for h :: "bytes \<Rightarrow> bytes set \<Rightarrow> 'm \<Rightarrow> 'm reader" +
  fixes seen :: "bytes set \<Rightarrow> 'm \<Rightarrow> bool"
  assumes value_read: "string_ok v \<Longrightarrow> h key L m (str.encoding v @ f) = (Inr m', f') \<Longrightarrow> f' = f"
    and refuses_seen: "seen L m \<Longrightarrow> h key L m f = (Inr m', f') \<Longrightarrow> key \<notin> L \<and> seen (insert key L) m'"
begin

lemma run_distinct:
  assumes "seen L m" and "list_all pair_ok ps"
    and "kv_run h L m (concat (map pair_bytes ps) @ f) = (Inr m', f')"
  shows "distinct (map fst ps) \<and> L \<inter> fst ` set ps = {}"
  using assms
proof (induction ps arbitrary: L m)
  case Nil
  then show ?case by simp
next
  case (Cons p ps)
  obtain k v where p: "p = (k, v)" by (cases p)
  have ok: "pair_ok (k, v)" "list_all pair_ok ps" using Cons.prems(2) p by auto
  let ?rest = "concat (map pair_bytes ps) @ f"
  have "kv_run h L m (str.encoding k @ str.encoding v @ ?rest)
      = rd_bind (h k L m) (kv_run h (insert k L)) (str.encoding v @ ?rest)"
    using ok(1) by (subst run_unfold) (simp add: pair_ok_def str.dec_encoding)
  moreover have "kv_run h L m (str.encoding k @ str.encoding v @ ?rest) = (Inr m', f')"
    using Cons.prems(3) unfolding p pair_bytes_def by simp
  ultimately have "rd_bind (h k L m) (kv_run h (insert k L)) (str.encoding v @ ?rest) = (Inr m', f')"
    by (rule trans [OF sym])
  then obtain m1 f1 where h: "h k L m (str.encoding v @ ?rest) = (Inr m1, f1)"
    and rest: "kv_run h (insert k L) m1 f1 = (Inr m', f')" by (auto simp: rd_bind_eq_Inr)
  have "f1 = ?rest" using value_read [OF _ h] ok(1) by (simp add: pair_ok_def)
  with rest have "kv_run h (insert k L) m1 ?rest = (Inr m', f')" by simp
  from Cons.IH [OF _ ok(2) this] refuses_seen [OF Cons.prems(1) h] show ?case by (auto simp: p)
qed

end

lemma kv_field_reads:
  "string_ok v \<Longrightarrow> kv_field check store (str.encoding v @ f) = (Inr m', f') \<Longrightarrow> f' = f"
  by (cases check) (auto simp: kv_field_def rd_bind_def str.dec_encoding)

end
