(* ===== verification/Psbt_Input.thy ===== *)
theory Psbt_Input
  imports Psbt_Map
begin

text \<open>
  \<open>PartiallySignedInput\<close> of \<open>hwilib/psbt.py\<close>: its attributes as a record, one definition for each branch
  of the read loop, the writer, and the queries.
\<close>

section \<open>The input map\<close>

record PartiallySignedInput =
  pi_non_witness_utxo :: "CTransaction option"
  pi_witness_utxo :: "CTxOut option"
  pi_partial_sigs :: "(bytes, bytes) dict"
  pi_sighash :: "int option"
  pi_redeem_script :: bytes
  pi_witness_script :: bytes
  pi_hd_keypaths :: "(bytes, KeyOriginInfo) dict"
  pi_final_script_sig :: bytes
  pi_final_script_witness :: CTxInWitness
  pi_prev_txid :: bytes
  pi_prev_out :: "int option"
  pi_sequence :: "int option"
  pi_time_locktime :: "int option"
  pi_height_locktime :: "int option"
  pi_tap_key_sig :: bytes
  pi_tap_script_sigs :: "(bytes \<times> bytes, bytes) dict"
  pi_tap_scripts :: "(bytes \<times> int, bytes set) dict"
  pi_tap_bip32_paths :: "(bytes, bytes set \<times> KeyOriginInfo) dict"
  pi_tap_internal_key :: bytes
  pi_tap_merkle_root :: bytes
  pi_musig2_participant_pubkeys :: "(bytes, bytes list) dict"
  pi_musig2_pub_nonces :: "(bytes \<times> bytes \<times> bytes option, bytes) dict"
  pi_musig2_partial_sigs :: "(bytes \<times> bytes \<times> bytes option, bytes) dict"
  pi_unknown :: "(bytes, bytes) dict"
  pi_version :: int

definition psbt_input_new :: "int \<Rightarrow> PartiallySignedInput" where
  "psbt_input_new version =
     \<lparr>pi_non_witness_utxo = None, pi_witness_utxo = None, pi_partial_sigs = [], pi_sighash = None,
      pi_redeem_script = [], pi_witness_script = [], pi_hd_keypaths = [], pi_final_script_sig = [],
      pi_final_script_witness = CTxInWitness_new, pi_prev_txid = [], pi_prev_out = None, pi_sequence = None,
      pi_time_locktime = None, pi_height_locktime = None, pi_tap_key_sig = [], pi_tap_script_sigs = [],
      pi_tap_scripts = [], pi_tap_bip32_paths = [], pi_tap_internal_key = [], pi_tap_merkle_root = [],
      pi_musig2_participant_pubkeys = [], pi_musig2_pub_nonces = [], pi_musig2_partial_sigs = [],
      pi_unknown = [], pi_version = version\<rparr>"

definition psbt_input_set_null :: "PartiallySignedInput \<Rightarrow> PartiallySignedInput" where
  "psbt_input_set_null self = self
     \<lparr>pi_non_witness_utxo := None, pi_witness_utxo := None, pi_partial_sigs := [], pi_sighash := None,
      pi_redeem_script := [], pi_witness_script := [], pi_hd_keypaths := [], pi_final_script_sig := [],
      pi_final_script_witness := CTxInWitness_new, pi_tap_key_sig := [], pi_tap_script_sigs := [],
      pi_tap_scripts := [], pi_tap_bip32_paths := [], pi_tap_internal_key := [], pi_tap_merkle_root := [],
      pi_prev_txid := [], pi_prev_out := None, pi_sequence := None, pi_time_locktime := None,
      pi_height_locktime := None, pi_musig2_participant_pubkeys := [], pi_musig2_pub_nonces := [],
      pi_musig2_partial_sigs := [], pi_unknown := []\<rparr>"

section \<open>Queries\<close>

definition has_fingerprint :: "PartiallySignedInput \<Rightarrow> bytes \<Rightarrow> bool" where
  "has_fingerprint self fingerprint \<longleftrightarrow>
     list_ex (\<lambda>(_, origin). ko_fingerprint origin = fingerprint) (pi_hd_keypaths self)
     \<or> list_ex (\<lambda>(_, _, origin). ko_fingerprint origin = fingerprint) (pi_tap_bip32_paths self)"

text \<open>The two loops return at the first key that qualifies.\<close>

definition has_signature :: "PartiallySignedInput \<Rightarrow> bytes \<Rightarrow> bool" where
  "has_signature self fingerprint =
     (if list_ex (\<lambda>(pubkey, origin). ko_fingerprint origin = fingerprint
           \<and> dict_has (pi_partial_sigs self) pubkey) (pi_hd_keypaths self)
      then True
      else list_ex (\<lambda>(pubkey, leaf_hashes, origin).
             if ko_fingerprint origin \<noteq> fingerprint then False
             else if leaf_hashes = {} \<and> pi_tap_key_sig self \<noteq> [] then True
             else \<exists>leaf_hash\<in>leaf_hashes. dict_has (pi_tap_script_sigs self) (pubkey, leaf_hash))
           (pi_tap_bip32_paths self))"

section \<open>The fields of the read loop\<close>

definition in_non_witness_utxo :: "crypto \<Rightarrow> bytes \<Rightarrow> bytes set \<Rightarrow> PartiallySignedInput \<Rightarrow> PartiallySignedInput reader" where
  "in_non_witness_utxo cr key key_lookup self =
     kv_field (check_single ''Duplicate Key, input non witness utxo already provided''
         ''non witness utxo key is more than one byte type'' key key_lookup)
       (\<lambda>v. res_bind (fst (tx_deserialize CTransaction_new v)) (\<lambda>tx.
            case tx_rehash cr tx of (r, tx) \<Rightarrow>
              res_bind r (\<lambda>_. Inr (self\<lparr>pi_non_witness_utxo := Some tx\<rparr>))))"

definition in_witness_utxo :: "bytes \<Rightarrow> bytes set \<Rightarrow> PartiallySignedInput \<Rightarrow> PartiallySignedInput reader" where
  "in_witness_utxo key key_lookup self =
     kv_field (check_single ''Duplicate Key, input witness utxo already provided''
         ''witness utxo key is more than one byte type'' key key_lookup)
       (\<lambda>v. res_bind (fst (txout_deserialize v)) (\<lambda>out. Inr (self\<lparr>pi_witness_utxo := Some out\<rparr>)))"

definition in_partial_sig :: "bytes \<Rightarrow> bytes set \<Rightarrow> PartiallySignedInput \<Rightarrow> PartiallySignedInput reader" where
  "in_partial_sig key key_lookup self =
     (let pubkey = drop 1 key in
      kv_field
        (if length key \<noteq> 34 \<and> length key \<noteq> 66
         then Inl (PSBTSerializationError ''Size of key was not the expected size for the type partial signature pubkey'')
         else if dict_has (pi_partial_sigs self) pubkey
         then Inl (PSBTSerializationError ''Duplicate key, input partial signature for pubkey already provided'')
         else Inr ())
        (\<lambda>sig. Inr (self\<lparr>pi_partial_sigs := AList.update pubkey sig (pi_partial_sigs self)\<rparr>)))"

definition in_sighash_type :: "bytes \<Rightarrow> bytes set \<Rightarrow> PartiallySignedInput \<Rightarrow> PartiallySignedInput reader" where
  "in_sighash_type key key_lookup self =
     kv_field (check_single ''Duplicate key, input sighash type already provided''
         ''sighash key is more than one byte type'' key key_lookup)
       (\<lambda>v. res_bind (unpack_le 4 v) (\<lambda>x. Inr (self\<lparr>pi_sighash := Some x\<rparr>)))"

definition in_redeem_script :: "bytes \<Rightarrow> bytes set \<Rightarrow> PartiallySignedInput \<Rightarrow> PartiallySignedInput reader" where
  "in_redeem_script key key_lookup self =
     kv_field (check_single ''Duplicate key, input redeemScript already provided''
         ''redeemScript key is more than one byte type'' key key_lookup)
       (\<lambda>v. Inr (self\<lparr>pi_redeem_script := v\<rparr>))"

definition in_witness_script :: "bytes \<Rightarrow> bytes set \<Rightarrow> PartiallySignedInput \<Rightarrow> PartiallySignedInput reader" where
  "in_witness_script key key_lookup self =
     kv_field (check_single ''Duplicate key, input witnessScript already provided''
         ''witnessScript key is more than one byte type'' key key_lookup)
       (\<lambda>v. Inr (self\<lparr>pi_witness_script := v\<rparr>))"

definition in_bip32_derivation :: "bytes \<Rightarrow> bytes set \<Rightarrow> PartiallySignedInput \<Rightarrow> PartiallySignedInput reader" where
  "in_bip32_derivation key key_lookup self =
     rd_bind (DeserializeHDKeypath key (pi_hd_keypaths self) [34, 66])
       (\<lambda>d. rd_ret (self\<lparr>pi_hd_keypaths := d\<rparr>))"

definition in_final_scriptsig :: "bytes \<Rightarrow> bytes set \<Rightarrow> PartiallySignedInput \<Rightarrow> PartiallySignedInput reader" where
  "in_final_scriptsig key key_lookup self =
     kv_field (check_single ''Duplicate key, input final scriptSig already provided''
         ''final scriptSig key is more than one byte type'' key key_lookup)
       (\<lambda>v. Inr (self\<lparr>pi_final_script_sig := v\<rparr>))"

definition in_final_scriptwitness :: "bytes \<Rightarrow> bytes set \<Rightarrow> PartiallySignedInput \<Rightarrow> PartiallySignedInput reader" where
  "in_final_scriptwitness key key_lookup self =
     kv_field (check_single ''Duplicate key, input final scriptWitness already provided''
         ''final scriptWitness key is more than one byte type'' key key_lookup)
       (\<lambda>v. res_bind (fst (inwit_deserialize v)) (\<lambda>w. Inr (self\<lparr>pi_final_script_witness := w\<rparr>)))"

text \<open>Fields of PSBT version 2 check the version before the key.\<close>

definition check_v2 :: "int \<Rightarrow> string \<Rightarrow> unit result \<Rightarrow> unit result" where
  "check_v2 version name check =
     (if version = 0 then Inl (PSBTSerializationError (name @ '' is not allowed in PSBTv0'')) else check)"

definition in_previous_txid :: "bytes \<Rightarrow> bytes set \<Rightarrow> PartiallySignedInput \<Rightarrow> PartiallySignedInput reader" where
  "in_previous_txid key key_lookup self =
     kv_field (check_v2 (pi_version self) ''PSBT_IN_PREVIOUS_TXID''
         (check_single ''Duplicate key, input previous txid is already provided''
           ''Previous txid key is more than one byte type'' key key_lookup))
       (\<lambda>txid. if length txid \<noteq> 32 then Inl (PSBTSerializationError ''Previous txid is not 32 bytes'')
          else Inr (self\<lparr>pi_prev_txid := txid\<rparr>))"

definition in_output_index :: "bytes \<Rightarrow> bytes set \<Rightarrow> PartiallySignedInput \<Rightarrow> PartiallySignedInput reader" where
  "in_output_index key key_lookup self =
     kv_field (check_v2 (pi_version self) ''PSBT_IN_OUTPUT_INDEX''
         (check_single ''Duplicate key, input previous output index is already provided''
           ''Previous output index key is more than one byte type'' key key_lookup))
       (\<lambda>v. if length v \<noteq> 4 then Inl (PSBTSerializationError ''Previous output index is not 4 bytes'')
          else res_bind (unpack_le 4 v) (\<lambda>x. Inr (self\<lparr>pi_prev_out := Some x\<rparr>)))"

definition in_sequence :: "bytes \<Rightarrow> bytes set \<Rightarrow> PartiallySignedInput \<Rightarrow> PartiallySignedInput reader" where
  "in_sequence key key_lookup self =
     kv_field (check_v2 (pi_version self) ''PSBT_IN_SEQUENCE''
         (check_single ''Duplicate key, input sequence is already provided''
           ''Input sequence key is more than one byte type'' key key_lookup))
       (\<lambda>v. if length v \<noteq> 4 then Inl (PSBTSerializationError ''Input sequence is not 4 bytes'')
          else res_bind (unpack_le 4 v) (\<lambda>x. Inr (self\<lparr>pi_sequence := Some x\<rparr>)))"

definition in_required_time_locktime :: "bytes \<Rightarrow> bytes set \<Rightarrow> PartiallySignedInput \<Rightarrow> PartiallySignedInput reader" where
  "in_required_time_locktime key key_lookup self =
     kv_field (check_v2 (pi_version self) ''PSBT_IN_REQUIRED_TIME_LOCKTIME''
         (check_single ''Duplicate key, input required time based locktime is already provided''
           ''Input time based locktime key is more than one byte type'' key key_lookup))
       (\<lambda>v. if length v \<noteq> 4 then Inl (PSBTSerializationError ''Input time based locktime is not 4 bytes'')
          else res_bind (unpack_le 4 v) (\<lambda>time_locktime.
            if time_locktime < 500000000
            then Inl (PSBTSerializationError ''Input time based locktime is less than 500000000'')
            else Inr (self\<lparr>pi_time_locktime := Some time_locktime\<rparr>)))"

definition in_required_height_locktime :: "bytes \<Rightarrow> bytes set \<Rightarrow> PartiallySignedInput \<Rightarrow> PartiallySignedInput reader" where
  "in_required_height_locktime key key_lookup self =
     kv_field (check_v2 (pi_version self) ''PSBT_IN_REQUIRED_HEIGHT_LOCKTIME''
         (check_single ''Duplicate key, input required height based locktime index is already provided''
           ''Input height based locktime key is more than one byte type'' key key_lookup))
       (\<lambda>v. if length v \<noteq> 4 then Inl (PSBTSerializationError ''Input height based locktime is not 4 bytes'')
          else res_bind (unpack_le 4 v) (\<lambda>height_locktime.
            if height_locktime = 0 \<or> 500000000 \<le> height_locktime
            then Inl (PSBTSerializationError ''Input height based locktime is not greater than 0 and less than 500000000'')
            else Inr (self\<lparr>pi_height_locktime := Some height_locktime\<rparr>)))"

definition in_tap_key_sig :: "bytes \<Rightarrow> bytes set \<Rightarrow> PartiallySignedInput \<Rightarrow> PartiallySignedInput reader" where
  "in_tap_key_sig key key_lookup self =
     kv_field (check_single ''Duplicate key, input Taproot key signature already provided''
         ''Input Taproot key signature key is more than one byte type'' key key_lookup)
       (\<lambda>v. if length v < 64
          then Inl (PSBTSerializationError ''Input Taproot key path signature is shorter than 64 bytes'')
          else if 65 < length v
          then Inl (PSBTSerializationError ''Input Taproot key path signature is longer than 65 bytes'')
          else Inr (self\<lparr>pi_tap_key_sig := v\<rparr>))"

text \<open>A field that may occur for several keys of one length checks that the key is new and as long.\<close>

definition check_keyed :: "string \<Rightarrow> string \<Rightarrow> nat list \<Rightarrow> bytes \<Rightarrow> bytes set \<Rightarrow> unit result" where
  "check_keyed dup wrong sizes key key_lookup =
     (if key \<in> key_lookup then Inl (PSBTSerializationError dup)
      else if length key \<notin> set sizes then Inl (PSBTSerializationError wrong)
      else Inr ())"

definition in_tap_script_sig :: "bytes \<Rightarrow> bytes set \<Rightarrow> PartiallySignedInput \<Rightarrow> PartiallySignedInput reader" where
  "in_tap_script_sig key key_lookup self =
     (let xonly = py_slice 1 33 key; script_hash = py_slice 33 65 key in
      kv_field (check_keyed ''Duplicate key, input Taproot script signature already provided''
          ''Input Taproot script signature key is not 65 bytes'' [65] key key_lookup)
        (\<lambda>sig. if length sig < 64
           then Inl (PSBTSerializationError ''Input Taproot script path signature is shorter than 64 bytes'')
           else if 65 < length sig
           then Inl (PSBTSerializationError ''Input Taproot script path signature is longer than 65 bytes'')
           else Inr (self\<lparr>pi_tap_script_sigs := AList.update (xonly, script_hash) sig (pi_tap_script_sigs self)\<rparr>)))"

definition in_tap_leaf_script :: "bytes \<Rightarrow> bytes set \<Rightarrow> PartiallySignedInput \<Rightarrow> PartiallySignedInput reader" where
  "in_tap_leaf_script key key_lookup self =
     kv_field
       (if key \<in> key_lookup
        then Inl (PSBTSerializationError ''Duplicate key, input Taproot leaf script already provided'')
        else if length key < 34
        then Inl (PSBTSerializationError ''Input Taproot leaf script key is not at least 34 bytes'')
        else if (length key - 2) mod 32 \<noteq> 0
        then Inl (PSBTSerializationError (''Input Taproot leaf script key'' @ [CHR 0x27] @ ''s control block is not valid''))
        else Inr ())
       (\<lambda>script. if length script = 0
          then Inl (PSBTSerializationError ''Input Taproot leaf script cannot be empty'')
          else
            let leaf_script = (butlast script, int (unat (last script)));
                scripts = (if \<not> dict_has (pi_tap_scripts self) leaf_script
                           then AList.update leaf_script {} (pi_tap_scripts self) else pi_tap_scripts self);
                old = (case map_of scripts leaf_script of Some S \<Rightarrow> S | None \<Rightarrow> {})
            in Inr (self\<lparr>pi_tap_scripts := AList.update leaf_script (insert (drop 1 key) old) scripts\<rparr>))"

definition in_tap_bip32_derivation :: "bytes \<Rightarrow> bytes set \<Rightarrow> PartiallySignedInput \<Rightarrow> PartiallySignedInput reader" where
  "in_tap_bip32_derivation key key_lookup self =
     (let xonly = py_slice 1 33 key in
      kv_field (check_keyed ''Duplicate key, input Taproot BIP 32 keypath already provided''
          ''Input Taproot BIP 32 keypath key is not 33 bytes'' [33] key key_lookup)
        (\<lambda>value. res_bind (deser_tap_keypath value) (\<lambda>p.
           Inr (self\<lparr>pi_tap_bip32_paths := AList.update xonly p (pi_tap_bip32_paths self)\<rparr>))))"

definition in_tap_internal_key :: "bytes \<Rightarrow> bytes set \<Rightarrow> PartiallySignedInput \<Rightarrow> PartiallySignedInput reader" where
  "in_tap_internal_key key key_lookup self =
     kv_field (check_single ''Duplicate key, input Taproot internal key already provided''
         ''Input Taproot internal key key is more than one byte type'' key key_lookup)
       (\<lambda>v. if length v \<noteq> 32 then Inl (PSBTSerializationError ''Input Taproot internal key is not 32 bytes'')
          else Inr (self\<lparr>pi_tap_internal_key := v\<rparr>))"

definition in_tap_merkle_root :: "bytes \<Rightarrow> bytes set \<Rightarrow> PartiallySignedInput \<Rightarrow> PartiallySignedInput reader" where
  "in_tap_merkle_root key key_lookup self =
     kv_field (check_single ''Duplicate key, input Taproot merkle root already provided''
         ''Input Taproot merkle root key is more than one byte type'' key key_lookup)
       (\<lambda>v. if length v \<noteq> 32 then Inl (PSBTSerializationError ''Input Taproot merkle root is not 32 bytes'')
          else Inr (self\<lparr>pi_tap_merkle_root := v\<rparr>))"

definition in_musig2_participant_pubkeys :: "bytes \<Rightarrow> bytes set \<Rightarrow> PartiallySignedInput \<Rightarrow> PartiallySignedInput reader" where
  "in_musig2_participant_pubkeys key key_lookup self =
     kv_field (check_keyed ''Duplicate key, input Musig2 participant pubkeys already provided''
         ''Input Musig2 aggregate compressed pubkey is not 33 bytes'' [1 + 33] key key_lookup)
       (\<lambda>v. res_bind (deser_participants v) (\<lambda>pubkeys.
          Inr (self\<lparr>pi_musig2_participant_pubkeys :=
            AList.update (drop 1 key) pubkeys (pi_musig2_participant_pubkeys self)\<rparr>)))"

text \<open>The key of a nonce or of a partial signature: two public keys and, if there is more, a leaf hash.\<close>

definition musig2_key :: "bytes \<Rightarrow> bytes \<times> bytes \<times> bytes option" where
  "musig2_key key =
     (let providing_pubkey = py_slice 1 (1 + 33) key;
          aggregate_pubkey = py_slice (1 + 33) (1 + 33 + 33) key;
          tapleaf_hash = (if length key = 1 + 33 + 33 then None else Some (drop (1 + 33 + 33) key))
      in (providing_pubkey, aggregate_pubkey, tapleaf_hash))"

definition in_musig2_pub_nonce :: "bytes \<Rightarrow> bytes set \<Rightarrow> PartiallySignedInput \<Rightarrow> PartiallySignedInput reader" where
  "in_musig2_pub_nonce key key_lookup self =
     kv_field (check_keyed ''Duplicate key, Musig2 public nonce already provided''
         ''Invalid key length for Musig2 public nonce'' [1 + 33 + 33, 1 + 33 + 33 + 32] key key_lookup)
       (\<lambda>v. if length v \<noteq> 66
          then Inl (PSBTSerializationError ''The length of the public nonces in Musig2 must be exactly 66 bytes'')
          else Inr (self\<lparr>pi_musig2_pub_nonces := AList.update (musig2_key key) v (pi_musig2_pub_nonces self)\<rparr>))"

definition in_musig2_partial_sig :: "bytes \<Rightarrow> bytes set \<Rightarrow> PartiallySignedInput \<Rightarrow> PartiallySignedInput reader" where
  "in_musig2_partial_sig key key_lookup self =
     kv_field (check_keyed ''Duplicate key, Musig2 partial signature already provided''
         ''Invalid key length for Musig2 partial signature'' [1 + 33 + 33, 1 + 33 + 33 + 32] key key_lookup)
       (\<lambda>v. if length v \<noteq> 32
          then Inl (PSBTSerializationError ''The length of the partial signature in Musig2 must be exactly 32 bytes'')
          else Inr (self\<lparr>pi_musig2_partial_sigs := AList.update (musig2_key key) v (pi_musig2_partial_sigs self)\<rparr>))"

definition in_unknown :: "bytes \<Rightarrow> bytes set \<Rightarrow> PartiallySignedInput \<Rightarrow> PartiallySignedInput reader" where
  "in_unknown key key_lookup self =
     kv_field
       (if dict_has (pi_unknown self) key
        then Inl (PSBTSerializationError ''Duplicate key, key for unknown value already provided'')
        else Inr ())
       (\<lambda>v. Inr (self\<lparr>pi_unknown := AList.update key v (pi_unknown self)\<rparr>))"

definition in_field :: "crypto \<Rightarrow> bytes \<Rightarrow> bytes set \<Rightarrow> PartiallySignedInput \<Rightarrow> PartiallySignedInput reader" where
  "in_field cr key key_lookup self =
     rd_bind (rd_lift (key_type_of key)) (\<lambda>key_type.
     if key_type = 0x00 then in_non_witness_utxo cr key key_lookup self
     else if key_type = 0x01 then in_witness_utxo key key_lookup self
     else if key_type = 0x02 then in_partial_sig key key_lookup self
     else if key_type = 0x03 then in_sighash_type key key_lookup self
     else if key_type = 0x04 then in_redeem_script key key_lookup self
     else if key_type = 0x05 then in_witness_script key key_lookup self
     else if key_type = 0x06 then in_bip32_derivation key key_lookup self
     else if key_type = 0x07 then in_final_scriptsig key key_lookup self
     else if key_type = 0x08 then in_final_scriptwitness key key_lookup self
     else if key_type = 0x0e then in_previous_txid key key_lookup self
     else if key_type = 0x0f then in_output_index key key_lookup self
     else if key_type = 0x10 then in_sequence key key_lookup self
     else if key_type = 0x11 then in_required_time_locktime key key_lookup self
     else if key_type = 0x12 then in_required_height_locktime key key_lookup self
     else if key_type = 0x13 then in_tap_key_sig key key_lookup self
     else if key_type = 0x14 then in_tap_script_sig key key_lookup self
     else if key_type = 0x15 then in_tap_leaf_script key key_lookup self
     else if key_type = 0x16 then in_tap_bip32_derivation key key_lookup self
     else if key_type = 0x17 then in_tap_internal_key key key_lookup self
     else if key_type = 0x18 then in_tap_merkle_root key key_lookup self
     else if key_type = 0x1a then in_musig2_participant_pubkeys key key_lookup self
     else if key_type = 0x1b then in_musig2_pub_nonce key key_lookup self
     else if key_type = 0x1c then in_musig2_partial_sig key key_lookup self
     else in_unknown key key_lookup self)"

definition in_required :: "PartiallySignedInput \<Rightarrow> unit result" where
  "in_required self =
     (if 2 \<le> pi_version self then
        if length (pi_prev_txid self) = 0 then Inl (PSBTSerializationError ''Previous TXID is required in PSBTv2'')
        else if pi_prev_out self = None
        then Inl (PSBTSerializationError (''Previous output'' @ [CHR 0x27] @ ''s index is required in PSBTv2''))
        else Inr ()
      else Inr ())"

definition psbt_input_deserialize :: "crypto \<Rightarrow> PartiallySignedInput \<Rightarrow> PartiallySignedInput reader" where
  "psbt_input_deserialize cr self =
     rd_bind (kv_run (in_field cr) {} self) (\<lambda>self.
     rd_bind (rd_lift (in_required self)) (\<lambda>_. rd_ret self))"

section \<open>The writer\<close>

definition musig2_keydata :: "bytes \<times> bytes \<times> bytes option \<Rightarrow> bytes" where
  "musig2_keydata k = (case k of (pk, aggpk, tapleaf_hash) \<Rightarrow>
     pk @ aggpk @ (case tapleaf_hash of None \<Rightarrow> [] | Some h \<Rightarrow> h))"

text \<open>The part that is written only while the input is not final.\<close>

definition psbt_input_serialize_open :: "(bytes set \<Rightarrow> bytes list) \<Rightarrow> PartiallySignedInput \<Rightarrow> bytes result list" where
  "psbt_input_serialize_open it self =
     map (\<lambda>(pubkey, sig). ser_typed 0x02 pubkey (Inr sig)) (sorted_items (pi_partial_sigs self))
     @ ser_option 0x03 (pack_le 4) (pi_sighash self)
     @ ser_unless_empty 0x04 (pi_redeem_script self)
     @ ser_unless_empty 0x05 (pi_witness_script self)
     @ [res_bind (ser_compact_size 0x06) (SerializeHDKeypath (pi_hd_keypaths self))]
     @ ser_unless_empty 0x13 (pi_tap_key_sig self)
     @ map (\<lambda>((xonly, leaf_hash), sig). ser_typed 0x14 (xonly @ leaf_hash) (Inr sig)) (pi_tap_script_sigs self)
     @ concat (map (\<lambda>((script, leaf_ver), control_blocks).
         map (\<lambda>control_block. ser_typed 0x15 control_block
           (res_concat [Inr script, pack_le 1 leaf_ver])) (it control_blocks)) (pi_tap_scripts self))
     @ map (\<lambda>(xonly, p). ser_typed 0x16 xonly (ser_tap_keypath it p)) (pi_tap_bip32_paths self)
     @ ser_unless_empty 0x17 (pi_tap_internal_key self)
     @ ser_unless_empty 0x18 (pi_tap_merkle_root self)"

definition psbt_input_serialize_v2 :: "PartiallySignedInput \<Rightarrow> bytes result list" where
  "psbt_input_serialize_v2 self =
     (if 2 \<le> pi_version self then
        ser_unless_empty 0x0e (pi_prev_txid self)
        @ ser_option 0x0f (pack_le 4) (pi_prev_out self)
        @ ser_option 0x10 (pack_le 4) (pi_sequence self)
        @ ser_option 0x11 (pack_le 4) (pi_time_locktime self)
        @ ser_option 0x12 (pack_le 4) (pi_height_locktime self)
      else [])"

definition psbt_input_is_open :: "PartiallySignedInput \<Rightarrow> bool" where
  "psbt_input_is_open self \<longleftrightarrow> length (pi_final_script_sig self) = 0 \<and> inwit_is_null (pi_final_script_witness self)"

text \<open>
  Writing the previous transaction may pad its witness list, which stays so in the object: the second
  result is the input after the call.
\<close>

definition psbt_input_serialize ::
    "(bytes set \<Rightarrow> bytes list) \<Rightarrow> PartiallySignedInput \<Rightarrow> bytes result \<times> PartiallySignedInput" where
  "psbt_input_serialize it self =
     (let utxo = (case pi_non_witness_utxo self of None \<Rightarrow> None | Some tx \<Rightarrow> Some (tx_serialize_with_witness tx));
          r = res_concat (
            (case utxo of None \<Rightarrow> [] | Some (tx, _) \<Rightarrow> [ser_typed 0x00 [] tx])
            @ (case pi_witness_utxo self of None \<Rightarrow> [] | Some out \<Rightarrow> [ser_typed 0x01 [] (txout_serialize out)])
            @ (if psbt_input_is_open self then psbt_input_serialize_open it self else [])
            @ ser_unless_empty 0x07 (pi_final_script_sig self)
            @ (if \<not> inwit_is_null (pi_final_script_witness self)
               then [ser_typed 0x08 [] (inwit_serialize (pi_final_script_witness self))] else [])
            @ map (\<lambda>(pk, pubkeys). ser_typed 0x1a pk (Inr (concat pubkeys))) (pi_musig2_participant_pubkeys self)
            @ map (\<lambda>(k, pubnonce). ser_typed 0x1b (musig2_keydata k) (Inr pubnonce)) (pi_musig2_pub_nonces self)
            @ map (\<lambda>(k, partial_sig). ser_typed 0x1c (musig2_keydata k) (Inr partial_sig)) (pi_musig2_partial_sigs self)
            @ psbt_input_serialize_v2 self
            @ map (\<lambda>(key, v). ser_pair (Inr key) (Inr v)) (sorted_items (pi_unknown self))
            @ [Inr [0]])
      in (r, case utxo of None \<Rightarrow> self | Some (_, tx) \<Rightarrow> self\<lparr>pi_non_witness_utxo := Some tx\<rparr>))"

section \<open>The handler\<close>

lemma unpack_not_fuel [simp]: "unpack_le n v \<noteq> Inl OutOfFuel" "unpack_les n v \<noteq> Inl OutOfFuel"
  by (simp_all add: unpack_le_def unpack_les_def)

lemma res_bind_not_fuel [simp]:
  "m \<noteq> Inl OutOfFuel \<Longrightarrow> (\<And>x. f x \<noteq> Inl OutOfFuel) \<Longrightarrow> res_bind m f \<noteq> Inl OutOfFuel"
  by (cases m) auto

lemma consumes_fst [simp]: "consumes m \<Longrightarrow> fst (m s) \<noteq> Inl OutOfFuel"
  by (simp add: consumes_def)

lemma checks_not_fuel [simp]:
  "check_single d l k L \<noteq> Inl OutOfFuel" "check_keyed d l n k L \<noteq> Inl OutOfFuel"
  "c \<noteq> Inl OutOfFuel \<Longrightarrow> check_v2 v nm c \<noteq> Inl OutOfFuel"
  by (simp_all add: check_single_def check_keyed_def check_v2_def)

lemma key_type_not_fuel [simp]: "key_type_of key \<noteq> Inl OutOfFuel"
  by (simp add: key_type_of_def consumes_compact_size)

lemma keyorigin_not_fuel [simp]: "keyorigin_deserialize v \<noteq> Inl OutOfFuel"
  by (simp add: keyorigin_deserialize_def Let_def)

lemma tap_keypath_not_fuel [simp]: "deser_tap_keypath v \<noteq> Inl OutOfFuel"
  unfolding deser_tap_keypath_def by (intro consumes_fst consumes_intros) simp_all

lemma participants_not_fuel [simp]: "deser_participants v \<noteq> Inl OutOfFuel"
  by (simp add: deser_participants_def)

lemma rehash_not_fuel: "fst (tx_rehash cr tx) \<noteq> Inl OutOfFuel"
proof -
  have u: "uint256_from_str b \<noteq> Inl OutOfFuel" for b by (simp add: uint256_from_str_def Let_def)
  have c: "ser_compact_size n \<noteq> Inl OutOfFuel" for n
    by (auto simp: ser_compact_size_def res_concat_Cons pack_le_def)
  have rc: "list_all (\<lambda>m. m \<noteq> Inl OutOfFuel) ms \<Longrightarrow> res_concat ms \<noteq> Inl OutOfFuel" for ms
    by (induction ms) (auto simp: res_concat_Cons)
  have st: "ser_string b \<noteq> Inl OutOfFuel" for b using c by (auto simp: ser_string_def intro!: rc)
  have p: "pack_le n x \<noteq> Inl OutOfFuel" "pack_les n x \<noteq> Inl OutOfFuel" for n x
    by (simp_all add: pack_le_def pack_les_def)
  have u2: "ser_uint256 x \<noteq> Inl OutOfFuel" for x by (simp add: ser_uint256_eq)
  have "outpoint_serialize o1 \<noteq> Inl OutOfFuel" for o1 using u2 p by (auto simp: outpoint_serialize_def intro!: rc)
  then have "txin_serialize i \<noteq> Inl OutOfFuel" "txout_serialize out \<noteq> Inl OutOfFuel" for i out
    using st p by (auto simp: txin_serialize_def txout_serialize_def intro!: rc)
  then have "tx_serialize_without_witness t \<noteq> Inl OutOfFuel" for t
    using p c by (auto simp: tx_serialize_without_witness_def ser_vector_def list_all_iff intro!: rc)
  then show ?thesis
    using u by (auto simp: tx_rehash_def tx_calc_sha256_def tx_serialize_def split: prod.splits sum.splits if_splits)
qed

lemma consumes_DeserializeHDKeypath [consumes_intros]: "consumes (DeserializeHDKeypath key d sizes)"
  unfolding DeserializeHDKeypath_def Let_def by (intro consumes_intros) simp_all

lemmas in_fields = in_witness_utxo_def in_partial_sig_def in_sighash_type_def in_redeem_script_def
  in_witness_script_def in_bip32_derivation_def in_final_scriptsig_def in_final_scriptwitness_def
  in_previous_txid_def in_output_index_def in_sequence_def in_required_time_locktime_def
  in_required_height_locktime_def in_tap_key_sig_def in_tap_script_sig_def in_tap_leaf_script_def
  in_tap_bip32_derivation_def in_tap_internal_key_def in_tap_merkle_root_def
  in_musig2_participant_pubkeys_def in_musig2_pub_nonce_def in_musig2_partial_sig_def in_unknown_def

lemma consumes_utxo: "consumes (in_non_witness_utxo cr key L m)"
  unfolding in_non_witness_utxo_def
proof (rule consumes_field)
  fix v
  have "(case tx_rehash cr tx of (r, tx) \<Rightarrow> res_bind r (\<lambda>_. Inr (m\<lparr>pi_non_witness_utxo := Some tx\<rparr>))) \<noteq> Inl OutOfFuel" for tx
    using rehash_not_fuel [of cr tx] by (auto split: prod.splits)
  moreover have "fst (tx_deserialize CTransaction_new v) \<noteq> Inl OutOfFuel" by (simp add: consumes_tx)
  ultimately show "res_bind (fst (tx_deserialize CTransaction_new v)) (\<lambda>tx. case tx_rehash cr tx of (r, tx) \<Rightarrow>
      res_bind r (\<lambda>_. Inr (m\<lparr>pi_non_witness_utxo := Some tx\<rparr>))) \<noteq> Inl OutOfFuel"
    by (intro res_bind_not_fuel)
qed simp

lemma consumes_in_fields:
  "consumes (in_witness_utxo key L m)" "consumes (in_partial_sig key L m)" "consumes (in_sighash_type key L m)"
  "consumes (in_redeem_script key L m)" "consumes (in_witness_script key L m)" "consumes (in_bip32_derivation key L m)"
  "consumes (in_final_scriptsig key L m)" "consumes (in_final_scriptwitness key L m)"
  "consumes (in_previous_txid key L m)" "consumes (in_output_index key L m)" "consumes (in_sequence key L m)"
  "consumes (in_required_time_locktime key L m)" "consumes (in_required_height_locktime key L m)"
  "consumes (in_tap_key_sig key L m)" "consumes (in_tap_script_sig key L m)" "consumes (in_tap_leaf_script key L m)"
  "consumes (in_tap_bip32_derivation key L m)" "consumes (in_tap_internal_key key L m)"
  "consumes (in_tap_merkle_root key L m)" "consumes (in_musig2_participant_pubkeys key L m)"
  "consumes (in_musig2_pub_nonce key L m)" "consumes (in_musig2_partial_sig key L m)" "consumes (in_unknown key L m)"
  unfolding in_fields Let_def
  by (intro consumes_intros; simp add: consumes_tx)+

interpretation input_map: kv_handler "in_field cr" for cr
proof unfold_locales
  fix key L m
  show "consumes (in_field cr key L m)"
    unfolding in_field_def
    by (intro consumes_bind consumes_lift consumes_if consumes_utxo consumes_in_fields) simp
qed

section \<open>One field written and read back\<close>

lemma key_type_of_typed: "unat t < 253 \<Longrightarrow> key_type_of (t # r) = Inr (int (unat t))"
  by (simp add: key_type_of_def deser_compact_size_def rd_bind_def)

lemmas in_field_simps = in_field_def rd_bind_def key_type_of_typed kv_field_value check_single_def
  check_keyed_def check_v2_def in_non_witness_utxo_def in_fields

text \<open>The values a field can hold: what fits the wire format and what the reader's checks let through.\<close>

definition result_ok :: "('a \<Rightarrow> bool) \<Rightarrow> 'a result \<Rightarrow> bool" where
  "result_ok P r \<longleftrightarrow> (case r of Inl _ \<Rightarrow> False | Inr x \<Rightarrow> P x)"

definition utxo_ok :: "CTransaction \<Rightarrow> bool" where
  "utxo_ok tx \<longleftrightarrow> tx_ok tx \<and> (vin tx = [] \<longrightarrow> vout tx = [] \<or> \<not> txwit_is_null (wit tx))
     \<and> result_ok string_ok (fst (tx_serialize_with_witness tx))"

definition hd_keypaths_ok :: "nat list \<Rightarrow> (bytes, KeyOriginInfo) dict \<Rightarrow> bool" where
  "hd_keypaths_ok sizes d \<longleftrightarrow> dict_ok d
     \<and> list_all (\<lambda>(k, ko). Suc (length k) \<in> set sizes \<and> length k < 2 ^ 62 \<and> keyorigin_ok ko \<and> length (ko_path ko) < 2 ^ 60) d"

definition tap_keypaths_ok :: "(bytes, bytes set \<times> KeyOriginInfo) dict \<Rightarrow> bool" where
  "tap_keypaths_ok d \<longleftrightarrow> dict_ok d
     \<and> list_all (\<lambda>(k, hs, ko). length k = 32 \<and> finite hs \<and> (\<forall>x\<in>hs. length x = 32) \<and> card hs < 2 ^ 50
          \<and> keyorigin_ok ko \<and> length (ko_path ko) < 2 ^ 60) d"

definition tap_scripts_ok :: "(bytes \<times> int, bytes set) dict \<Rightarrow> bool" where
  "tap_scripts_ok d \<longleftrightarrow> dict_ok d
     \<and> list_all (\<lambda>((s, v), cbs). length s < 2 ^ 62 \<and> 0 \<le> v \<and> v < 256 \<and> finite cbs \<and> cbs \<noteq> {}
          \<and> (\<forall>cb\<in>cbs. 33 \<le> length cb \<and> (length cb - 1) mod 32 = 0 \<and> length cb < 2 ^ 62)) d
     \<and> (\<forall>x\<in>set d. \<forall>y\<in>set d. x \<noteq> y \<longrightarrow> snd x \<inter> snd y = {})"

definition participants_ok :: "(bytes, bytes list) dict \<Rightarrow> bool" where
  "participants_ok d \<longleftrightarrow> dict_ok d
     \<and> list_all (\<lambda>(k, ps). length k = 33 \<and> ps \<noteq> [] \<and> list_all (\<lambda>p. length p = 33) ps \<and> length ps < 2 ^ 50) d"

definition musig2_ok :: "nat \<Rightarrow> (bytes \<times> bytes \<times> bytes option, bytes) dict \<Rightarrow> bool" where
  "musig2_ok n d \<longleftrightarrow> dict_ok d
     \<and> list_all (\<lambda>((pk, agg, leaf), v). length pk = 33 \<and> length agg = 33
          \<and> (case leaf of None \<Rightarrow> True | Some l \<Rightarrow> length l = 32) \<and> length v = n) d"

definition unknown_ok :: "int set \<Rightarrow> (bytes, bytes) dict \<Rightarrow> bool" where
  "unknown_ok known d \<longleftrightarrow> dict_ok d
     \<and> list_all (\<lambda>(k, v). pair_ok (k, v) \<and> result_ok (\<lambda>t. t \<notin> known) (key_type_of k)) d"

definition in_known_types :: "int set" where
  "in_known_types = {0x00, 0x01, 0x02, 0x03, 0x04, 0x05, 0x06, 0x07, 0x08, 0x0e, 0x0f, 0x10, 0x11, 0x12,
     0x13, 0x14, 0x15, 0x16, 0x17, 0x18, 0x1a, 0x1b, 0x1c}"

definition psbt_input_ok :: "PartiallySignedInput \<Rightarrow> bool" where
  "psbt_input_ok m \<longleftrightarrow>
     pred_option utxo_ok (pi_non_witness_utxo m)
     \<and> pred_option (\<lambda>out. txout_ok out \<and> length (scriptPubKey out) < 2 ^ 60) (pi_witness_utxo m)
     \<and> dict_ok (pi_partial_sigs m)
     \<and> list_all (\<lambda>(k, v). (length k = 33 \<or> length k = 65) \<and> string_ok v) (pi_partial_sigs m)
     \<and> pred_option u32_ok (pi_sighash m)
     \<and> string_ok (pi_redeem_script m) \<and> string_ok (pi_witness_script m)
     \<and> hd_keypaths_ok [34, 66] (pi_hd_keypaths m)
     \<and> string_ok (pi_final_script_sig m)
     \<and> inwit_ok (pi_final_script_witness m)
     \<and> result_ok string_ok (inwit_serialize (pi_final_script_witness m))
     \<and> (2 \<le> pi_version m \<longrightarrow> length (pi_prev_txid m) = 32 \<and> pi_prev_out m \<noteq> None
          \<and> pred_option u32_ok (pi_prev_out m) \<and> pred_option u32_ok (pi_sequence m)
          \<and> pred_option (\<lambda>t. 500000000 \<le> t \<and> t < 2 ^ 32) (pi_time_locktime m)
          \<and> pred_option (\<lambda>t. 0 < t \<and> t < 500000000) (pi_height_locktime m))
     \<and> length (pi_tap_key_sig m) \<in> {0, 64, 65}
     \<and> dict_ok (pi_tap_script_sigs m)
     \<and> list_all (\<lambda>((x, l), s). length x = 32 \<and> length l = 32 \<and> length s \<in> {64, 65}) (pi_tap_script_sigs m)
     \<and> tap_scripts_ok (pi_tap_scripts m)
     \<and> tap_keypaths_ok (pi_tap_bip32_paths m)
     \<and> length (pi_tap_internal_key m) \<in> {0, 32} \<and> length (pi_tap_merkle_root m) \<in> {0, 32}
     \<and> participants_ok (pi_musig2_participant_pubkeys m)
     \<and> musig2_ok 66 (pi_musig2_pub_nonces m) \<and> musig2_ok 32 (pi_musig2_partial_sigs m)
     \<and> unknown_ok in_known_types (pi_unknown m)"

text \<open>
  What reading back gives: dictionaries the writer sorts are sorted, the previous transaction is hashed
  and its witness list normal, a final input has lost the fields that are only written before, and an
  input of version 0 those of version 2.
\<close>

definition psbt_input_normal :: "crypto \<Rightarrow> PartiallySignedInput \<Rightarrow> PartiallySignedInput" where
  "psbt_input_normal cr m =
     (let opn = psbt_input_is_open m; v2 = (2 \<le> pi_version m) in
      \<lparr>pi_non_witness_utxo = map_option (\<lambda>tx. snd (tx_rehash cr (tx_normal tx))) (pi_non_witness_utxo m),
       pi_witness_utxo = pi_witness_utxo m,
       pi_partial_sigs = (if opn then sorted_items (pi_partial_sigs m) else []),
       pi_sighash = (if opn then pi_sighash m else None),
       pi_redeem_script = (if opn then pi_redeem_script m else []),
       pi_witness_script = (if opn then pi_witness_script m else []),
       pi_hd_keypaths = (if opn then sorted_items (pi_hd_keypaths m) else []),
       pi_final_script_sig = pi_final_script_sig m,
       pi_final_script_witness = pi_final_script_witness m,
       pi_prev_txid = (if v2 then pi_prev_txid m else []),
       pi_prev_out = (if v2 then pi_prev_out m else None),
       pi_sequence = (if v2 then pi_sequence m else None),
       pi_time_locktime = (if v2 then pi_time_locktime m else None),
       pi_height_locktime = (if v2 then pi_height_locktime m else None),
       pi_tap_key_sig = (if opn then pi_tap_key_sig m else []),
       pi_tap_script_sigs = (if opn then pi_tap_script_sigs m else []),
       pi_tap_scripts = (if opn then pi_tap_scripts m else []),
       pi_tap_bip32_paths = (if opn then pi_tap_bip32_paths m else []),
       pi_tap_internal_key = (if opn then pi_tap_internal_key m else []),
       pi_tap_merkle_root = (if opn then pi_tap_merkle_root m else []),
       pi_musig2_participant_pubkeys = pi_musig2_participant_pubkeys m,
       pi_musig2_pub_nonces = pi_musig2_pub_nonces m,
       pi_musig2_partial_sigs = pi_musig2_partial_sigs m,
       pi_unknown = sorted_items (pi_unknown m),
       pi_version = pi_version m\<rparr>)"

text \<open>The fields that occur once.\<close>

lemma in_read_single:
  assumes "string_ok v"
  shows "[4] \<notin> L \<Longrightarrow> in_field cr [4] L m (str.encoding v @ f) = (Inr (m\<lparr>pi_redeem_script := v\<rparr>), f)"
    and "[5] \<notin> L \<Longrightarrow> in_field cr [5] L m (str.encoding v @ f) = (Inr (m\<lparr>pi_witness_script := v\<rparr>), f)"
    and "[7] \<notin> L \<Longrightarrow> in_field cr [7] L m (str.encoding v @ f) = (Inr (m\<lparr>pi_final_script_sig := v\<rparr>), f)"
    and "[0x13] \<notin> L \<Longrightarrow> length v \<in> {64, 65} \<Longrightarrow>
      in_field cr [0x13] L m (str.encoding v @ f) = (Inr (m\<lparr>pi_tap_key_sig := v\<rparr>), f)"
    and "[0x17] \<notin> L \<Longrightarrow> length v = 32 \<Longrightarrow>
      in_field cr [0x17] L m (str.encoding v @ f) = (Inr (m\<lparr>pi_tap_internal_key := v\<rparr>), f)"
    and "[0x18] \<notin> L \<Longrightarrow> length v = 32 \<Longrightarrow>
      in_field cr [0x18] L m (str.encoding v @ f) = (Inr (m\<lparr>pi_tap_merkle_root := v\<rparr>), f)"
    and "[0x0e] \<notin> L \<Longrightarrow> length v = 32 \<Longrightarrow> pi_version m \<noteq> 0 \<Longrightarrow>
      in_field cr [0x0e] L m (str.encoding v @ f) = (Inr (m\<lparr>pi_prev_txid := v\<rparr>), f)"
  using assms by (auto simp: in_field_simps)

lemma u32_bytes:
  assumes "u32_ok x"
  shows "pack_le 4 x = Inr (le_bytes 4 (nat x))" "string_ok (le_bytes 4 (nat x))"
    "unpack_le 4 (le_bytes 4 (nat x)) = Inr x"
  using assms by (simp_all add: u32_ok_def string_ok_def unpack_pack_le)

lemma in_read_u32:
  assumes "u32_ok x"
  shows "[3] \<notin> L \<Longrightarrow> in_field cr [3] L m (str.encoding (le_bytes 4 (nat x)) @ f) = (Inr (m\<lparr>pi_sighash := Some x\<rparr>), f)"
    and "[0x0f] \<notin> L \<Longrightarrow> pi_version m \<noteq> 0 \<Longrightarrow>
      in_field cr [0x0f] L m (str.encoding (le_bytes 4 (nat x)) @ f) = (Inr (m\<lparr>pi_prev_out := Some x\<rparr>), f)"
    and "[0x10] \<notin> L \<Longrightarrow> pi_version m \<noteq> 0 \<Longrightarrow>
      in_field cr [0x10] L m (str.encoding (le_bytes 4 (nat x)) @ f) = (Inr (m\<lparr>pi_sequence := Some x\<rparr>), f)"
    and "[0x11] \<notin> L \<Longrightarrow> pi_version m \<noteq> 0 \<Longrightarrow> 500000000 \<le> x \<Longrightarrow>
      in_field cr [0x11] L m (str.encoding (le_bytes 4 (nat x)) @ f) = (Inr (m\<lparr>pi_time_locktime := Some x\<rparr>), f)"
    and "[0x12] \<notin> L \<Longrightarrow> pi_version m \<noteq> 0 \<Longrightarrow> 0 < x \<Longrightarrow> x < 500000000 \<Longrightarrow>
      in_field cr [0x12] L m (str.encoding (le_bytes 4 (nat x)) @ f) = (Inr (m\<lparr>pi_height_locktime := Some x\<rparr>), f)"
  using u32_bytes [OF assms] by (auto simp: in_field_simps simp del: le_bytes.simps)

lemma in_read_utxo:
  assumes "crypto_ok cr" and "utxo_ok tx" and "fst (tx_serialize_with_witness tx) = Inr b" and "[0] \<notin> L"
  shows "in_field cr [0] L m (str.encoding b @ f)
    = (Inr (m\<lparr>pi_non_witness_utxo := Some (snd (tx_rehash cr (tx_normal tx)))\<rparr>), f)"
proof -
  have ok: "tx_ok tx" "string_ok b" "vin tx = [] \<Longrightarrow> vout tx = [] \<or> \<not> txwit_is_null (wit tx)"
    using assms(2, 3) by (auto simp: utxo_ok_def result_ok_def)
  have "tx_deserialize CTransaction_new (b @ []) = (Inr (tx_normal tx), [])"
    using tx_round_trip_with_witness_lemma [OF ok(1,3)] assms(3) by (metis sum.inject(2))
  then have d: "fst (tx_deserialize CTransaction_new b) = Inr (tx_normal tx)" by simp
  have "tx_ok (tx_normal tx)" using ok(1) pad_witness_facts(1) by (auto simp: tx_normal_def tx_ok_def)
  then have "fst (tx_rehash cr (tx_normal tx)) = Inr ()"
    using tx_rehash_ok [OF assms(1)] by blast
  then obtain t where "tx_rehash cr (tx_normal tx) = (Inr (), t)"
    by (cases "tx_rehash cr (tx_normal tx)") auto
  with d show ?thesis using assms(4) ok(2) by (simp add: in_field_simps)
qed

lemma in_read_witness_utxo:
  assumes "txout_ok out" and "string_ok (txout.encoding out)" and "[1] \<notin> L"
  shows "in_field cr [1] L m (str.encoding (txout.encoding out) @ f) = (Inr (m\<lparr>pi_witness_utxo := Some out\<rparr>), f)"
  using assms txout.dec_encoding [OF assms(1), of "[]"] by (simp add: in_field_simps)

lemma in_read_final_witness:
  assumes "inwit_ok w" and "string_ok (inwit.encoding w)" and "[8] \<notin> L"
  shows "in_field cr [8] L m (str.encoding (inwit.encoding w) @ f) = (Inr (m\<lparr>pi_final_script_witness := w\<rparr>), f)"
  using assms inwit.dec_encoding [OF assms(1), of "[]"] by (simp add: in_field_simps)

text \<open>The fields with one pair for each item.\<close>

lemma keyorigin_bytes:
  assumes "keyorigin_ok ko" and "length (ko_path ko) < 2 ^ 60"
  shows "\<exists>b. keyorigin_serialize ko = Inr b \<and> string_ok b \<and> length b = 4 + 4 * length (ko_path ko)
    \<and> keyorigin_deserialize b = Inr ko"
  using keyorigin_serialize_ok [OF assms(1)] unpack_words_pack(3) [of "ko_path ko"] assms
  by (auto simp: string_ok_def keyorigin_ok_def)

lemma in_read_partial_sig:
  assumes "length k = 33 \<or> length k = 65" and "string_ok v" and "\<not> dict_has d k"
  shows "in_field cr (2 # k) L (m\<lparr>pi_partial_sigs := d\<rparr>) (str.encoding v @ f)
    = (Inr (m\<lparr>pi_partial_sigs := d @ [(k, v)]\<rparr>), f)"
  using assms by (auto simp: in_field_simps update_fresh)

lemma in_read_keypath:
  assumes "length k = 33 \<or> length k = 65" and "string_ok b" and "keyorigin_deserialize b = Inr ko" and "\<not> dict_has d k"
  shows "in_field cr (6 # k) L (m\<lparr>pi_hd_keypaths := d\<rparr>) (str.encoding b @ f)
    = (Inr (m\<lparr>pi_hd_keypaths := d @ [(k, ko)]\<rparr>), f)"
  using assms by (auto simp: in_field_simps DeserializeHDKeypath_def update_fresh)

lemma in_read_tap_script_sig:
  assumes "length x = 32" and "length l = 32" and "length v = 64 \<or> length v = 65"
    and "\<not> dict_has d (x, l)" and "0x14 # x @ l \<notin> L"
  shows "in_field cr (0x14 # x @ l) L (m\<lparr>pi_tap_script_sigs := d\<rparr>) (str.encoding v @ f)
    = (Inr (m\<lparr>pi_tap_script_sigs := d @ [((x, l), v)]\<rparr>), f)"
  using assms by (auto simp: in_field_simps update_fresh py_slice_def string_ok_def)

lemma in_read_tap_keypath:
  assumes "length x = 32" and "string_ok b" and "deser_tap_keypath b = Inr p"
    and "\<not> dict_has d x" and "0x16 # x \<notin> L"
  shows "in_field cr (0x16 # x) L (m\<lparr>pi_tap_bip32_paths := d\<rparr>) (str.encoding b @ f)
    = (Inr (m\<lparr>pi_tap_bip32_paths := d @ [(x, p)]\<rparr>), f)"
  using assms by (auto simp: in_field_simps update_fresh py_slice_def)

lemma in_read_participants:
  assumes "length x = 33" and "string_ok b" and "deser_participants b = Inr ps"
    and "\<not> dict_has d x" and "0x1a # x \<notin> L"
  shows "in_field cr (0x1a # x) L (m\<lparr>pi_musig2_participant_pubkeys := d\<rparr>) (str.encoding b @ f)
    = (Inr (m\<lparr>pi_musig2_participant_pubkeys := d @ [(x, ps)]\<rparr>), f)"
  using assms by (auto simp: in_field_simps update_fresh)

lemma musig2_key_keydata:
  "length pk = 33 \<Longrightarrow> length agg = 33 \<Longrightarrow> (case leaf of None \<Rightarrow> True | Some l \<Rightarrow> length l = 32) \<Longrightarrow>
     musig2_key (t # musig2_keydata (pk, agg, leaf)) = (pk, agg, leaf)
     \<and> length (musig2_keydata (pk, agg, leaf)) \<in> {66, 98}"
  by (auto simp: musig2_key_def musig2_keydata_def py_slice_def split: option.splits)

lemma in_read_musig2:
  assumes "musig2_key (t # kd) = k" and "length kd = 66 \<or> length kd = 98" and "\<not> dict_has d k" and "t # kd \<notin> L"
  shows "t = 0x1b \<Longrightarrow> length v = 66 \<Longrightarrow> in_field cr (t # kd) L (m\<lparr>pi_musig2_pub_nonces := d\<rparr>) (str.encoding v @ f)
      = (Inr (m\<lparr>pi_musig2_pub_nonces := d @ [(k, v)]\<rparr>), f)"
    and "t = 0x1c \<Longrightarrow> length v = 32 \<Longrightarrow> in_field cr (t # kd) L (m\<lparr>pi_musig2_partial_sigs := d\<rparr>) (str.encoding v @ f)
      = (Inr (m\<lparr>pi_musig2_partial_sigs := d @ [(k, v)]\<rparr>), f)"
  using assms by (auto simp: in_field_simps update_fresh string_ok_def)

text \<open>A leaf script enters the set of its control blocks, or opens the set.\<close>

definition add_leaf :: "(bytes \<times> int) \<times> bytes \<Rightarrow> (bytes \<times> int, bytes set) dict \<Rightarrow> (bytes \<times> int, bytes set) dict" where
  "add_leaf x d = (case x of (k, cb) \<Rightarrow>
     (case map_of d k of None \<Rightarrow> d @ [(k, {cb})] | Some S \<Rightarrow> AList.update k (insert cb S) d))"

lemma map_of_dict_has: "map_of d k = None \<longleftrightarrow> \<not> dict_has d k"
  by (simp add: dict_has_def map_of_eq_None_iff)

lemma update_append: "AList.update k v (d @ [(k, w)]) = (if dict_has d k then AList.update k v d @ [(k, w)] else d @ [(k, v)])"
  by (induction d) (auto simp: dict_has_def)

lemma in_read_tap_leaf:
  assumes "33 \<le> length cb" and "(length cb - 1) mod 32 = 0" and "string_ok (s @ [b])" and "0x15 # cb \<notin> L"
  shows "in_field cr (0x15 # cb) L (m\<lparr>pi_tap_scripts := d\<rparr>) (str.encoding (s @ [b]) @ f)
    = (Inr (m\<lparr>pi_tap_scripts := add_leaf ((s, int (unat b)), cb) d\<rparr>), f)"
proof -
  let ?k = "(s, int (unat b))"
  have "in_tap_leaf_script (0x15 # cb) L (m\<lparr>pi_tap_scripts := d\<rparr>) (str.encoding (s @ [b]) @ f)
      = (Inr (m\<lparr>pi_tap_scripts := add_leaf (?k, cb) d\<rparr>), f)"
  proof (cases "map_of d ?k")
    case None
    then have n: "\<not> dict_has d ?k" by (simp add: map_of_dict_has)
    then have "map_of (d @ [(?k, {})]) ?k = Some {}" using None by (simp add: map_add_def)
    with n None show ?thesis
      using assms by (simp add: in_tap_leaf_script_def kv_field_value add_leaf_def update_fresh update_append Let_def)
  next
    case (Some S)
    then have "dict_has d ?k" by (metis map_of_dict_has option.distinct(1))
    with Some show ?thesis
      using assms by (simp add: in_tap_leaf_script_def kv_field_value add_leaf_def Let_def)
  qed
  then show ?thesis by (simp add: in_field_def rd_bind_def key_type_of_typed)
qed

lemma in_read_unknown:
  assumes "string_ok v" and "key_type_of k = Inr t" and "t \<notin> in_known_types" and "\<not> dict_has d k"
  shows "in_field cr k L (m\<lparr>pi_unknown := d\<rparr>) (str.encoding v @ f) = (Inr (m\<lparr>pi_unknown := d @ [(k, v)]\<rparr>), f)"
  using assms by (simp add: in_field_def rd_bind_def in_known_types_def in_unknown_def kv_field_value update_fresh)

section \<open>Round trips of the composite values\<close>

lemma tap_keypath_round_trip:
  assumes it: "iteration_ok it" and hs: "finite hs" "\<forall>x\<in>hs. length x = 32" "card hs < 2 ^ 50"
    and ko: "keyorigin_ok ko" "length (ko_path ko) < 2 ^ 60"
  shows "\<exists>b. ser_tap_keypath it (hs, ko) = Inr b \<and> string_ok b \<and> deser_tap_keypath b = Inr (hs, ko)"
proof -
  obtain kb where kb: "keyorigin_serialize ko = Inr kb" "length kb = 4 + 4 * length (ko_path ko)"
    "keyorigin_deserialize kb = Inr ko" using keyorigin_bytes [OF ko] by blast
  have i: "set (it hs) = hs" "distinct (it hs)" using it hs(1) by (auto simp: iteration_ok_def)
  then have l: "length (it hs) = card hs" by (metis distinct_card)
  have ok: "compact_ok (int (card hs))" using hs(3) by (simp add: compact_ok_def)
  have "res_concat (map Inr xs @ [Inr kb]) = Inr (concat xs @ kb)" for xs by (induction xs) simp_all
  then have s: "ser_tap_keypath it (hs, ko) = Inr (compact.encoding (int (card hs)) @ concat (it hs) @ kb)"
    using ok by (simp add: ser_tap_keypath_def kb compact.enc_encoding)
  have "rd_rep (length (it hs)) (py_read 32) (concat (map (\<lambda>x. x) (it hs)) @ kb) = (Inr (it hs), kb)"
    using i hs(2) by (intro rd_rep_concat) (auto simp: py_read_def)
  then have "deser_tap_keypath (compact.encoding (int (card hs)) @ concat (it hs) @ kb) = Inr (hs, ko)"
    using ok l i kb(3) by (simp add: deser_tap_keypath_def rd_bind_def compact.dec_encoding py_read_all_def)
  moreover have "length (concat (it hs)) = 32 * card hs"
  proof -
    have "\<forall>x\<in>set xs. length x = 32 \<Longrightarrow> length (concat xs) = 32 * length xs" for xs :: "bytes list"
      by (induction xs) auto
    then show ?thesis using i(1) hs(2) l by metis
  qed
  moreover have "length (compact.encoding (int (card hs))) \<le> 9"
    using ser_compact_size_length [OF compact.enc_encoding [OF ok]] by simp
  ultimately show ?thesis using s kb(2) ko(2) hs(3) by (auto simp: string_ok_def)
qed

lemma split33_concat:
  "list_all (\<lambda>p. length p = 33) ps \<Longrightarrow> length ps \<le> n \<Longrightarrow> split33 n (concat ps) = ps"
proof (induction ps arbitrary: n)
  case Nil
  then show ?case by (cases n) simp_all
next
  case (Cons p ps)
  then obtain k where n: "n = Suc k" by (cases n) auto
  have "p \<noteq> []" "length p = 33" using Cons.prems by auto
  then show ?case using Cons n by simp
qed

lemma participants_round_trip:
  assumes "list_all (\<lambda>p. length p = 33) ps" and "ps \<noteq> []" and "length ps < 2 ^ 50"
  shows "string_ok (concat ps) \<and> deser_participants (concat ps) = Inr ps"
proof -
  have l: "length (concat ps) = 33 * length ps" using assms(1) by (induction ps) auto
  have "split33 (length (concat ps)) (concat ps) = ps"
    using assms(1) l by (intro split33_concat) auto
  then show ?thesis using assms(2, 3) l by (auto simp: deser_participants_def string_ok_def)
qed

text \<open>The leaf scripts, one item for each control block.\<close>

definition flat_leaves :: "(bytes set \<Rightarrow> bytes list) \<Rightarrow> (bytes \<times> int, bytes set) dict \<Rightarrow> ((bytes \<times> int) \<times> bytes) list" where
  "flat_leaves it d = concat (map (\<lambda>(k, cbs). map (Pair k) (it cbs)) d)"

lemma fold_add_leaf_same:
  "\<not> dict_has d k \<Longrightarrow> fold add_leaf (map (Pair k) ys) (d @ [(k, A)]) = d @ [(k, A \<union> set ys)]"
proof (induction ys arbitrary: A)
  case Nil
  then show ?case by simp
next
  case (Cons y ys)
  have "map_of (d @ [(k, A)]) k = Some A"
    using Cons.prems by (simp add: map_add_def flip: map_of_dict_has)
  then have "add_leaf (k, y) (d @ [(k, A)]) = d @ [(k, insert y A)]"
    using Cons.prems by (simp add: add_leaf_def update_append)
  with Cons show ?case by (simp add: insert_commute)
qed

lemma fold_add_leaf_flat:
  assumes "iteration_ok it" and "tap_scripts_ok d"
  shows "fold add_leaf (flat_leaves it d) [] = d"
proof -
  have "dict_ok xs \<Longrightarrow> (\<forall>(k, cbs)\<in>set xs. finite cbs \<and> cbs \<noteq> {}) \<Longrightarrow> fold add_leaf (flat_leaves it xs) [] = xs" for xs
  proof (induction xs rule: rev_induct)
    case Nil
    then show ?case by (simp add: flat_leaves_def)
  next
    case (snoc x xs)
    obtain k S where x: "x = (k, S)" by (cases x)
    have S: "finite S" "S \<noteq> {}" using snoc.prems x by auto
    then have it: "set (it S) = S" "it S \<noteq> []" using assms(1) by (auto simp: iteration_ok_def)
    then obtain y ys where ys: "it S = y # ys" by (cases "it S") auto
    have n: "\<not> dict_has xs k" using snoc.prems(1) by (auto simp: x dict_ok_def dict_has_def)
    have "add_leaf (k, y) xs = xs @ [(k, {y})]"
      using n by (simp add: add_leaf_def map_of_dict_has [THEN iffD2])
    then have "fold add_leaf (map (Pair k) (it S)) xs = xs @ [(k, S)]"
      using fold_add_leaf_same [OF n, of ys "{y}"] it(1) by (simp add: ys)
    moreover have "fold add_leaf (flat_leaves it xs) [] = xs"
      using snoc by (auto simp: dict_ok_def)
    ultimately show ?case by (simp add: flat_leaves_def x)
  qed
  with assms(2) show ?thesis by (auto simp: tap_scripts_ok_def list_all_iff)
qed

lemma flat_leaves_distinct:
  assumes "iteration_ok it" and "tap_scripts_ok d"
  shows "distinct (map snd (flat_leaves it d))"
proof -
  have fin: "finite S" if "(k, S) \<in> set d" for k S using that assms(2) by (auto simp: tap_scripts_ok_def list_all_iff)
  then have it: "set (it S) = S \<and> distinct (it S)" if "(k, S) \<in> set d" for k S
    using that assms(1) by (auto simp: iteration_ok_def)
  have "map snd (flat_leaves it d) = concat (map (\<lambda>(k, S). it S) d)"
    by (simp add: flat_leaves_def map_concat comp_def case_prod_unfold)
  moreover have "distinct xs \<Longrightarrow> set xs \<subseteq> set d \<Longrightarrow> distinct (concat (map (\<lambda>(k, S). it S) xs))" for xs
  proof (induction xs)
    case Nil
    then show ?case by simp
  next
    case (Cons x xs)
    obtain k S where x: "x = (k, S)" by (cases x)
    have "S \<inter> snd y = {}" if "y \<in> set xs" for y
    proof -
      have "x \<noteq> y" "x \<in> set d" "y \<in> set d" using Cons.prems that by auto
      then have "snd x \<inter> snd y = {}" using assms(2) unfolding tap_scripts_ok_def by blast
      then show ?thesis by (simp add: x)
    qed
    moreover have "set (it S) = S" using it [of k S] Cons.prems x by simp
    moreover have "set (it (snd y)) = snd y" if "y \<in> set xs" for y
      using it [of "fst y" "snd y"] Cons.prems that by auto
    ultimately have "set (it S) \<inter> (\<Union>y\<in>set xs. set (it (snd y))) = {}" by auto
    moreover have "distinct (it S)" using it [of k S] Cons.prems x by simp
    moreover have "distinct (concat (map (\<lambda>(k, S). it S) xs))" using Cons by simp
    ultimately show ?case by (simp add: x case_prod_unfold)
  qed
  moreover have "distinct d" using assms(2) by (auto simp: tap_scripts_ok_def dict_ok_def distinct_map)
  ultimately show ?thesis by simp
qed

section \<open>The fields as parts of the map\<close>

abbreviation in_chunk where "in_chunk cr \<equiv> kv_handler.chunk (in_field cr)"

lemmas in_chunk_append = input_map.chunk_append
lemmas in_chunk_Nil = input_map.chunk_Nil

lemma in_chunk_utxo:
  assumes "0x00 \<notin> T" and "crypto_ok cr" and "pred_option utxo_ok u" and "pi_non_witness_utxo m = None"
  shows "in_chunk cr T m
    (case map_option tx_serialize_with_witness u of None \<Rightarrow> [] | Some (tx, _) \<Rightarrow> [ser_typed 0x00 [] tx]) (insert 0x00 T)
    (m\<lparr>pi_non_witness_utxo := map_option (\<lambda>tx. snd (tx_rehash cr (tx_normal tx))) u\<rparr>)"
proof (cases u)
  case None
  moreover have "m\<lparr>pi_non_witness_utxo := None\<rparr> = m" using assms(4) by simp
  ultimately show ?thesis using in_chunk_Nil [of T "insert 0 T" cr m] by auto
next
  case (Some tx)
  then have ok: "utxo_ok tx" using assms(3) by simp
  then obtain b where b: "fst (tx_serialize_with_witness tx) = Inr b" "string_ok b"
    by (auto simp: utxo_ok_def result_ok_def split: sum.splits)
  then show ?thesis
    using Some assms(1) in_read_utxo [OF assms(2) ok b(1)]
    by (auto split: prod.splits intro!: input_map.chunk_single)
qed

lemma in_chunk_witness_utxo:
  assumes "0x01 \<notin> T" and "pred_option (\<lambda>out. txout_ok out \<and> length (scriptPubKey out) < 2 ^ 60) u" and "pi_witness_utxo m = None"
  shows "in_chunk cr T m (case u of None \<Rightarrow> [] | Some out \<Rightarrow> [ser_typed 0x01 [] (txout_serialize out)]) (insert 0x01 T)
    (m\<lparr>pi_witness_utxo := u\<rparr>)"
proof (cases u)
  case None
  moreover have "m\<lparr>pi_witness_utxo := None\<rparr> = m" using assms(3) by simp
  ultimately show ?thesis using in_chunk_Nil [of T "insert 1 T" cr m] by auto
next
  case (Some out)
  then have ok: "txout_ok out" "length (scriptPubKey out) < 2 ^ 60" using assms(2) by auto
  obtain l where l: "ser_compact_size (int (length (scriptPubKey out))) = Inr l"
    using ser_compact_size_ok ok(2) by (metis compact_ok_def of_nat_0_le_iff string_ok_compact txout_ok_def ok(1))
  have "txout.encoding out = le_bytes 8 (nat (nValue out mod 256 ^ 8)) @ l @ scriptPubKey out"
    using txout.enc_encoding [OF ok(1)] l ok(1)
    by (auto simp: txout_serialize_def ser_string_def res_concat_Cons)
  then have s: "string_ok (txout.encoding out)"
    using ok(2) ser_compact_size_length [OF l] by (auto simp: string_ok_def)
  show ?thesis
    using Some assms(1) in_read_witness_utxo [OF ok(1) s] s txout.enc_encoding [OF ok(1)]
    by (auto intro!: input_map.chunk_single)
qed

lemma in_chunk_once:
  shows "0x04 \<notin> T \<Longrightarrow> string_ok v \<Longrightarrow> pi_redeem_script m = [] \<Longrightarrow>
      in_chunk cr T m (ser_unless_empty 0x04 v) (insert 0x04 T) (m\<lparr>pi_redeem_script := v\<rparr>)"
    and "0x05 \<notin> T \<Longrightarrow> string_ok v \<Longrightarrow> pi_witness_script m = [] \<Longrightarrow>
      in_chunk cr T m (ser_unless_empty 0x05 v) (insert 0x05 T) (m\<lparr>pi_witness_script := v\<rparr>)"
    and "0x07 \<notin> T \<Longrightarrow> string_ok v \<Longrightarrow> pi_final_script_sig m = [] \<Longrightarrow>
      in_chunk cr T m (ser_unless_empty 0x07 v) (insert 0x07 T) (m\<lparr>pi_final_script_sig := v\<rparr>)"
    and "0x13 \<notin> T \<Longrightarrow> length v \<in> {0, 64, 65} \<Longrightarrow> pi_tap_key_sig m = [] \<Longrightarrow>
      in_chunk cr T m (ser_unless_empty 0x13 v) (insert 0x13 T) (m\<lparr>pi_tap_key_sig := v\<rparr>)"
    and "0x17 \<notin> T \<Longrightarrow> length v \<in> {0, 32} \<Longrightarrow> pi_tap_internal_key m = [] \<Longrightarrow>
      in_chunk cr T m (ser_unless_empty 0x17 v) (insert 0x17 T) (m\<lparr>pi_tap_internal_key := v\<rparr>)"
    and "0x18 \<notin> T \<Longrightarrow> length v \<in> {0, 32} \<Longrightarrow> pi_tap_merkle_root m = [] \<Longrightarrow>
      in_chunk cr T m (ser_unless_empty 0x18 v) (insert 0x18 T) (m\<lparr>pi_tap_merkle_root := v\<rparr>)"
    and "0x0e \<notin> T \<Longrightarrow> length v = 32 \<Longrightarrow> pi_version m \<noteq> 0 \<Longrightarrow> pi_prev_txid m = [] \<Longrightarrow>
      in_chunk cr T m (ser_unless_empty 0x0e v) (insert 0x0e T) (m\<lparr>pi_prev_txid := v\<rparr>)"
  by (rule input_map.chunk_unless_empty; force simp: in_read_single string_ok_def)+

lemma in_chunk_u32:
  shows "0x03 \<notin> T \<Longrightarrow> pred_option u32_ok x \<Longrightarrow> pi_sighash m = None \<Longrightarrow>
      in_chunk cr T m (ser_option 0x03 (pack_le 4) x) (insert 0x03 T) (m\<lparr>pi_sighash := x\<rparr>)"
    and "0x0f \<notin> T \<Longrightarrow> pred_option u32_ok x \<Longrightarrow> pi_version m \<noteq> 0 \<Longrightarrow> pi_prev_out m = None \<Longrightarrow>
      in_chunk cr T m (ser_option 0x0f (pack_le 4) x) (insert 0x0f T) (m\<lparr>pi_prev_out := x\<rparr>)"
    and "0x10 \<notin> T \<Longrightarrow> pred_option u32_ok x \<Longrightarrow> pi_version m \<noteq> 0 \<Longrightarrow> pi_sequence m = None \<Longrightarrow>
      in_chunk cr T m (ser_option 0x10 (pack_le 4) x) (insert 0x10 T) (m\<lparr>pi_sequence := x\<rparr>)"
    and "0x11 \<notin> T \<Longrightarrow> pred_option (\<lambda>t. 500000000 \<le> t \<and> t < 2 ^ 32) x \<Longrightarrow> pi_version m \<noteq> 0 \<Longrightarrow> pi_time_locktime m = None \<Longrightarrow>
      in_chunk cr T m (ser_option 0x11 (pack_le 4) x) (insert 0x11 T) (m\<lparr>pi_time_locktime := x\<rparr>)"
    and "0x12 \<notin> T \<Longrightarrow> pred_option (\<lambda>t. 0 < t \<and> t < 500000000) x \<Longrightarrow> pi_version m \<noteq> 0 \<Longrightarrow> pi_height_locktime m = None \<Longrightarrow>
      in_chunk cr T m (ser_option 0x12 (pack_le 4) x) (insert 0x12 T) (m\<lparr>pi_height_locktime := x\<rparr>)"
proof -
  have u: "u32_ok y" if "500000000 \<le> y \<and> y < 2 ^ 32 \<or> 0 < y \<and> y < 500000000" for y
    using that by (auto simp: u32_ok_def)
  show "0x03 \<notin> T \<Longrightarrow> pred_option u32_ok x \<Longrightarrow> pi_sighash m = None \<Longrightarrow>
      in_chunk cr T m (ser_option 0x03 (pack_le 4) x) (insert 0x03 T) (m\<lparr>pi_sighash := x\<rparr>)"
    by (rule input_map.chunk_option) (auto simp: u32_bytes in_read_u32 simp del: le_bytes.simps)
  show "0x0f \<notin> T \<Longrightarrow> pred_option u32_ok x \<Longrightarrow> pi_version m \<noteq> 0 \<Longrightarrow> pi_prev_out m = None \<Longrightarrow>
      in_chunk cr T m (ser_option 0x0f (pack_le 4) x) (insert 0x0f T) (m\<lparr>pi_prev_out := x\<rparr>)"
    by (rule input_map.chunk_option) (auto simp: u32_bytes in_read_u32 simp del: le_bytes.simps)
  show "0x10 \<notin> T \<Longrightarrow> pred_option u32_ok x \<Longrightarrow> pi_version m \<noteq> 0 \<Longrightarrow> pi_sequence m = None \<Longrightarrow>
      in_chunk cr T m (ser_option 0x10 (pack_le 4) x) (insert 0x10 T) (m\<lparr>pi_sequence := x\<rparr>)"
    by (rule input_map.chunk_option) (auto simp: u32_bytes in_read_u32 simp del: le_bytes.simps)
  show "0x11 \<notin> T \<Longrightarrow> pred_option (\<lambda>t. 500000000 \<le> t \<and> t < 2 ^ 32) x \<Longrightarrow> pi_version m \<noteq> 0 \<Longrightarrow> pi_time_locktime m = None \<Longrightarrow>
      in_chunk cr T m (ser_option 0x11 (pack_le 4) x) (insert 0x11 T) (m\<lparr>pi_time_locktime := x\<rparr>)"
    by (rule input_map.chunk_option) (auto simp: u u32_bytes in_read_u32 simp del: le_bytes.simps)
  show "0x12 \<notin> T \<Longrightarrow> pred_option (\<lambda>t. 0 < t \<and> t < 500000000) x \<Longrightarrow> pi_version m \<noteq> 0 \<Longrightarrow> pi_height_locktime m = None \<Longrightarrow>
      in_chunk cr T m (ser_option 0x12 (pack_le 4) x) (insert 0x12 T) (m\<lparr>pi_height_locktime := x\<rparr>)"
    by (rule input_map.chunk_option) (auto simp: u u32_bytes in_read_u32 simp del: le_bytes.simps)
qed

lemma list_all_pairD: "list_all (\<lambda>(k, v). P k v) d \<Longrightarrow> (k, v) \<in> set d \<Longrightarrow> P k v"
  by (auto simp: list_all_iff)

lemma in_chunk_partial_sigs:
  assumes "0x02 \<notin> T" and "dict_ok d" and ok: "list_all (\<lambda>(k, v). (length k = 33 \<or> length k = 65) \<and> string_ok v) d"
    and "pi_partial_sigs m = []"
  shows "in_chunk cr T m (map (\<lambda>(pubkey, sig). ser_typed 0x02 pubkey (Inr sig)) (sorted_items d)) (insert 0x02 T)
    (m\<lparr>pi_partial_sigs := sorted_items d\<rparr>)"
proof -
  have "in_chunk cr T (m\<lparr>pi_partial_sigs := []\<rparr>) (map (\<lambda>(pubkey, sig). ser_typed 0x02 pubkey (Inr sig)) (sorted_items d))
      (insert 0x02 T) (m\<lparr>pi_partial_sigs := sorted_items d\<rparr>)"
  proof (rule input_map.chunk_dict)
    fix k v L and d' :: "(bytes, bytes) dict" assume "(k, v) \<in> set (sorted_items d)" "\<not> dict_has d' k"
    moreover have "length k = 33 \<or> length k = 65" "string_ok v"
      using list_all_pairD [OF ok, of k v] calculation(1) by auto
    ultimately show "string_ok (0x02 # k) \<and> (\<exists>b. Inr v = Inr b \<and> string_ok b
        \<and> (\<forall>f. in_field cr (0x02 # k) L (m\<lparr>pi_partial_sigs := d'\<rparr>) (str.encoding b @ f)
             = (Inr (m\<lparr>pi_partial_sigs := d' @ [(k, v)]\<rparr>), f)))"
      using in_read_partial_sig by (auto simp: string_ok_def)
  qed (use assms in auto)
  moreover have "m\<lparr>pi_partial_sigs := []\<rparr> = m" using assms(4) by simp
  ultimately show ?thesis by simp
qed

lemma ser_keypath_typed:
  "ser_compact_size n = Inr [t] \<Longrightarrow> res_concat [res_bind (ser_compact_size n) (SerializeHDKeypath d)]
     = res_concat (map (\<lambda>(k, ko). ser_typed n k (keyorigin_serialize ko)) (sorted_items d))"
  by (simp add: SerializeHDKeypath_def ser_typed_def ser_pair_def res_concat_single)

lemma in_chunk_keypaths:
  assumes "0x06 \<notin> T" and ok: "hd_keypaths_ok [34, 66] d" and "pi_hd_keypaths m = []"
  shows "in_chunk cr T m [res_bind (ser_compact_size 0x06) (SerializeHDKeypath d)] (insert 0x06 T)
    (m\<lparr>pi_hd_keypaths := sorted_items d\<rparr>)"
proof -
  have "in_chunk cr T (m\<lparr>pi_hd_keypaths := []\<rparr>) (map (\<lambda>(k, ko). ser_typed 0x06 k (keyorigin_serialize ko)) (sorted_items d))
      (insert 0x06 T) (m\<lparr>pi_hd_keypaths := sorted_items d\<rparr>)"
  proof (rule input_map.chunk_dict)
    fix k v L and d' :: "(bytes, KeyOriginInfo) dict" assume a: "(k, v) \<in> set (sorted_items d)" "\<not> dict_has d' k"
    have "(length k = 33 \<or> length k = 65) \<and> keyorigin_ok v \<and> length (ko_path v) < 2 ^ 60"
      using ok a(1) by (auto simp: hd_keypaths_ok_def list_all_iff)
    with keyorigin_bytes [of v] obtain b where "keyorigin_serialize v = Inr b" "string_ok b"
      "keyorigin_deserialize b = Inr v" "length k = 33 \<or> length k = 65" by blast
    then show "string_ok (0x06 # k) \<and> (\<exists>b. keyorigin_serialize v = Inr b \<and> string_ok b
        \<and> (\<forall>f. in_field cr (0x06 # k) L (m\<lparr>pi_hd_keypaths := d'\<rparr>) (str.encoding b @ f)
             = (Inr (m\<lparr>pi_hd_keypaths := d' @ [(k, v)]\<rparr>), f)))"
      using in_read_keypath [OF _ _ _ a(2)] by (auto simp: string_ok_def)
  qed (use assms in \<open>auto simp: hd_keypaths_ok_def\<close>)
  moreover have "m\<lparr>pi_hd_keypaths := []\<rparr> = m" using assms(3) by simp
  moreover have "ser_compact_size 6 = Inr [6]" by (simp add: ser_compact_size_def)
  ultimately show ?thesis using ser_keypath_typed [of 6 6 d] by (simp add: input_map.chunk_def)
qed

lemma in_chunk_tap_script_sigs:
  assumes "0x14 \<notin> T" and "dict_ok d"
    and ok: "list_all (\<lambda>((x, l), s). length x = 32 \<and> length l = 32 \<and> length s \<in> {64, 65}) d"
    and "pi_tap_script_sigs m = []"
  shows "in_chunk cr T m (map (\<lambda>((xonly, leaf_hash), sig). ser_typed 0x14 (xonly @ leaf_hash) (Inr sig)) d) (insert 0x14 T)
    (m\<lparr>pi_tap_script_sigs := d\<rparr>)"
proof -
  let ?kd = "\<lambda>(x, l). x @ l :: bytes"
  have inj: "inj_on ?kd (set (dict_keys d))"
  proof (rule inj_onI)
    fix a b assume ab: "a \<in> set (dict_keys d)" "b \<in> set (dict_keys d)" "?kd a = ?kd b"
    then have "length (fst a) = 32" "length (fst b) = 32" using ok by (auto simp: list_all_iff)
    with ab(3) show "a = b" by (cases a, cases b) simp
  qed
  have "in_chunk cr T (m\<lparr>pi_tap_script_sigs := []\<rparr>) (map (\<lambda>(k, sig). ser_typed 0x14 (?kd k) (Inr sig)) d)
      (insert 0x14 T) (m\<lparr>pi_tap_script_sigs := d\<rparr>)"
  proof (rule input_map.chunk_dict)
    fix k v L and d' :: "(bytes \<times> bytes, bytes) dict" assume a: "(k, v) \<in> set d" "0x14 # ?kd k \<notin> L" "\<not> dict_has d' k"
    obtain x l where k: "k = (x, l)" by (cases k)
    have l: "length x = 32" "length l = 32" "length v = 64 \<or> length v = 65" using ok a(1) by (auto simp: k list_all_iff)
    then show "string_ok (0x14 # ?kd k) \<and> (\<exists>b. Inr v = Inr b \<and> string_ok b
        \<and> (\<forall>f. in_field cr (0x14 # ?kd k) L (m\<lparr>pi_tap_script_sigs := d'\<rparr>) (str.encoding b @ f)
             = (Inr (m\<lparr>pi_tap_script_sigs := d' @ [(k, v)]\<rparr>), f)))"
      using in_read_tap_script_sig [OF l] a by (auto simp: k string_ok_def)
  qed (use assms inj in auto)
  moreover have "m\<lparr>pi_tap_script_sigs := []\<rparr> = m" using assms(4) by simp
  ultimately show ?thesis by (simp add: case_prod_unfold)
qed

definition leaf_byte :: "int \<Rightarrow> byte" where
  "leaf_byte v = of_nat (nat v)"

lemma leaf_byte:
  assumes "0 \<le> v" and "v < 256"
  shows "pack_le 1 v = Inr [leaf_byte v]" "pack_le (Suc 0) v = Inr [leaf_byte v]" "int (unat (leaf_byte v)) = v"
proof -
  have "unat (leaf_byte v) = nat v mod 256" unfolding leaf_byte_def by (rule unat_byte_of_nat)
  then show "int (unat (leaf_byte v)) = v" using assms by (simp only:) simp
  show "pack_le 1 v = Inr [leaf_byte v]" "pack_le (Suc 0) v = Inr [leaf_byte v]"
    unfolding leaf_byte_def using pack_byte [OF assms] by blast+
qed

lemma in_chunk_tap_scripts:
  assumes "0x15 \<notin> T" and it: "iteration_ok it" and ok: "tap_scripts_ok d" and "pi_tap_scripts m = []"
  shows "in_chunk cr T m (concat (map (\<lambda>((script, leaf_ver), control_blocks).
         map (\<lambda>control_block. ser_typed 0x15 control_block
           (res_concat [Inr script, pack_le 1 leaf_ver])) (it control_blocks)) d)) (insert 0x15 T)
    (m\<lparr>pi_tap_scripts := d\<rparr>)"
proof -
  let ?flat = "flat_leaves it d" and ?val = "\<lambda>x. res_concat [Inr (fst (fst x)), pack_le 1 (snd (fst x))]"
  have "in_chunk cr T (m\<lparr>pi_tap_scripts := fold add_leaf [] []\<rparr>) (map (\<lambda>x. ser_typed 0x15 (snd x) (?val x)) ?flat) (insert 0x15 T)
      (m\<lparr>pi_tap_scripts := fold add_leaf ?flat []\<rparr>)"
  proof (rule input_map.chunk_items)
    show "distinct (map snd ?flat)" using flat_leaves_distinct [OF it ok] .
    fix "done" x more L assume xs: "?flat = done @ x # more" and L: "0x15 # snd x \<notin> L"
    obtain s v cb where x: "x = ((s, v), cb)" by (metis prod.exhaust)
    have "x \<in> set ?flat" by (simp add: xs)
    then obtain S where S: "((s, v), S) \<in> set d" "cb \<in> set (it S)" by (auto simp: flat_leaves_def x)
    then have fin: "finite S" and v: "0 \<le> v" "v < 256" and s: "length s < 2 ^ 62"
      and cbs: "\<forall>cb\<in>S. 33 \<le> length cb \<and> (length cb - 1) mod 32 = 0 \<and> length cb < 2 ^ 62"
      using ok by (auto simp: tap_scripts_ok_def list_all_iff)
    then have "cb \<in> S" using it S(2) by (auto simp: iteration_ok_def)
    with cbs have cb: "33 \<le> length cb" "(length cb - 1) mod 32 = 0" "length cb < 2 ^ 62" by auto
    have "?val x = Inr (s @ [leaf_byte v])" using leaf_byte(1) [OF v] by (simp add: x del: pack_byte pack_le_eq_Inr)
    moreover have "int (unat (leaf_byte v)) = v" by (rule leaf_byte(3) [OF v])
    moreover have "string_ok (s @ [leaf_byte v])" "string_ok (0x15 # cb)" using s cb(3) by (simp_all add: string_ok_def)
    ultimately show "string_ok (0x15 # snd x) \<and> ?val x = Inr (fst (fst x) @ [leaf_byte (snd (fst x))])
        \<and> string_ok (fst (fst x) @ [leaf_byte (snd (fst x))])
        \<and> (\<forall>f. in_field cr (0x15 # snd x) L (m\<lparr>pi_tap_scripts := fold add_leaf done []\<rparr>)
             (str.encoding (fst (fst x) @ [leaf_byte (snd (fst x))]) @ f)
             = (Inr (m\<lparr>pi_tap_scripts := fold add_leaf (done @ [x]) []\<rparr>), f))"
      using in_read_tap_leaf [OF cb(1,2), of s "leaf_byte v" L] L by (simp add: x)
  qed (use assms in auto)
  moreover have "map (\<lambda>x. ser_typed 0x15 (snd x) (?val x)) ?flat = concat (map (\<lambda>((script, leaf_ver), control_blocks).
         map (\<lambda>control_block. ser_typed 0x15 control_block
           (res_concat [Inr script, pack_le 1 leaf_ver])) (it control_blocks)) d)"
    by (simp add: flat_leaves_def map_concat comp_def case_prod_unfold)
  moreover have "m\<lparr>pi_tap_scripts := []\<rparr> = m" using assms(4) by simp
  ultimately show ?thesis using fold_add_leaf_flat [OF it ok] by simp
qed

lemma in_chunk_tap_keypaths:
  assumes "0x16 \<notin> T" and it: "iteration_ok it" and ok: "tap_keypaths_ok d" and "pi_tap_bip32_paths m = []"
  shows "in_chunk cr T m (map (\<lambda>(xonly, p). ser_typed 0x16 xonly (ser_tap_keypath it p)) d) (insert 0x16 T)
    (m\<lparr>pi_tap_bip32_paths := d\<rparr>)"
proof -
  have "in_chunk cr T (m\<lparr>pi_tap_bip32_paths := []\<rparr>) (map (\<lambda>(xonly, p). ser_typed 0x16 xonly (ser_tap_keypath it p)) d)
      (insert 0x16 T) (m\<lparr>pi_tap_bip32_paths := d\<rparr>)"
  proof (rule input_map.chunk_dict)
    fix k v L and d' :: "(bytes, bytes set \<times> KeyOriginInfo) dict" assume a: "(k, v) \<in> set d" "0x16 # k \<notin> L" "\<not> dict_has d' k"
    obtain hs ko where v: "v = (hs, ko)" by (cases v)
    have o: "length k = 32 \<and> finite hs \<and> (\<forall>x\<in>hs. length x = 32) \<and> card hs < 2 ^ 50
          \<and> keyorigin_ok ko \<and> length (ko_path ko) < 2 ^ 60"
      using ok a(1) by (auto simp: tap_keypaths_ok_def list_all_iff v)
    then obtain b where "ser_tap_keypath it v = Inr b" "string_ok b" "deser_tap_keypath b = Inr v"
      using tap_keypath_round_trip [OF it, of hs ko] by (auto simp: v)
    then show "string_ok (0x16 # k) \<and> (\<exists>b. ser_tap_keypath it v = Inr b \<and> string_ok b
        \<and> (\<forall>f. in_field cr (0x16 # k) L (m\<lparr>pi_tap_bip32_paths := d'\<rparr>) (str.encoding b @ f)
             = (Inr (m\<lparr>pi_tap_bip32_paths := d' @ [(k, v)]\<rparr>), f)))"
      using in_read_tap_keypath [OF _ _ _ a(3) a(2)] o by (auto simp: string_ok_def)
  qed (use assms in \<open>auto simp: tap_keypaths_ok_def\<close>)
  moreover have "m\<lparr>pi_tap_bip32_paths := []\<rparr> = m" using assms(4) by simp
  ultimately show ?thesis by simp
qed

lemma in_chunk_participants:
  assumes "0x1a \<notin> T" and ok: "participants_ok d" and "pi_musig2_participant_pubkeys m = []"
  shows "in_chunk cr T m (map (\<lambda>(pk, pubkeys). ser_typed 0x1a pk (Inr (concat pubkeys))) d) (insert 0x1a T)
    (m\<lparr>pi_musig2_participant_pubkeys := d\<rparr>)"
proof -
  have "in_chunk cr T (m\<lparr>pi_musig2_participant_pubkeys := []\<rparr>) (map (\<lambda>(pk, pubkeys). ser_typed 0x1a pk (Inr (concat pubkeys))) d)
      (insert 0x1a T) (m\<lparr>pi_musig2_participant_pubkeys := d\<rparr>)"
  proof (rule input_map.chunk_dict)
    fix k v L and d' :: "(bytes, bytes list) dict" assume a: "(k, v) \<in> set d" "0x1a # k \<notin> L" "\<not> dict_has d' k"
    have o: "length k = 33 \<and> v \<noteq> [] \<and> list_all (\<lambda>p. length p = 33) v \<and> length v < 2 ^ 50"
      using ok a(1) by (auto simp: participants_ok_def list_all_iff)
    with participants_round_trip [of v] in_read_participants [OF _ _ _ a(3) a(2)]
    show "string_ok (0x1a # k) \<and> (\<exists>b. Inr (concat v) = Inr b \<and> string_ok b
        \<and> (\<forall>f. in_field cr (0x1a # k) L (m\<lparr>pi_musig2_participant_pubkeys := d'\<rparr>) (str.encoding b @ f)
             = (Inr (m\<lparr>pi_musig2_participant_pubkeys := d' @ [(k, v)]\<rparr>), f)))"
      by (auto simp: string_ok_def)
  qed (use assms in \<open>auto simp: participants_ok_def\<close>)
  moreover have "m\<lparr>pi_musig2_participant_pubkeys := []\<rparr> = m" using assms(3) by simp
  ultimately show ?thesis by simp
qed

lemma musig2_keys:
  assumes "musig2_ok n d" and "(k, v) \<in> set d"
  shows "musig2_key (t # musig2_keydata k) = k \<and> length (musig2_keydata k) \<in> {66, 98} \<and> length v = n"
proof -
  obtain p g l where k: "k = (p, g, l)" by (metis prod.exhaust)
  have "length p = 33 \<and> length g = 33 \<and> (case l of None \<Rightarrow> True | Some l \<Rightarrow> length l = 32) \<and> length v = n"
    using assms by (fastforce simp: musig2_ok_def list_all_iff k)
  then show ?thesis using musig2_key_keydata k by simp
qed

lemma musig2_inj:
  assumes "musig2_ok n d"
  shows "inj_on musig2_keydata (set (dict_keys d))"
proof (rule inj_onI)
  fix x y assume a: "x \<in> set (dict_keys d)" "y \<in> set (dict_keys d)" "musig2_keydata x = musig2_keydata y"
  have "musig2_key (0 # musig2_keydata x) = x" "musig2_key (0 # musig2_keydata y) = y"
    using musig2_keys [OF assms] a(1, 2) by fastforce+
  with a(3) show "x = y" by metis
qed

lemma in_chunk_musig2:
  shows "0x1b \<notin> T \<Longrightarrow> musig2_ok 66 d \<Longrightarrow> pi_musig2_pub_nonces m = [] \<Longrightarrow>
      in_chunk cr T m (map (\<lambda>(k, v). ser_typed 0x1b (musig2_keydata k) (Inr v)) d) (insert 0x1b T) (m\<lparr>pi_musig2_pub_nonces := d\<rparr>)"
    and "0x1c \<notin> T \<Longrightarrow> musig2_ok 32 d \<Longrightarrow> pi_musig2_partial_sigs m = [] \<Longrightarrow>
      in_chunk cr T m (map (\<lambda>(k, v). ser_typed 0x1c (musig2_keydata k) (Inr v)) d) (insert 0x1c T) (m\<lparr>pi_musig2_partial_sigs := d\<rparr>)"
proof -
  assume m: "0x1b \<notin> T" "musig2_ok 66 d" "pi_musig2_pub_nonces m = []"
  have "in_chunk cr T (m\<lparr>pi_musig2_pub_nonces := []\<rparr>) (map (\<lambda>(k, v). ser_typed 0x1b (musig2_keydata k) (Inr v)) d)
      (insert 0x1b T) (m\<lparr>pi_musig2_pub_nonces := d\<rparr>)"
  proof (rule input_map.chunk_dict)
    show "inj_on musig2_keydata (set (dict_keys d))" using musig2_inj m by blast
    fix k v L and d' :: "(bytes \<times> bytes \<times> bytes option, bytes) dict" assume a: "(k, v) \<in> set d" "0x1b # musig2_keydata k \<notin> L" "\<not> dict_has d' k"
    from musig2_keys [OF m(2) a(1), of "0x1b"] in_read_musig2(1) [OF _ _ a(3) a(2), of v]
    show "string_ok (0x1b # musig2_keydata k) \<and> (\<exists>b. Inr v = Inr b \<and> string_ok b
        \<and> (\<forall>f. in_field cr (0x1b # musig2_keydata k) L (m\<lparr>pi_musig2_pub_nonces := d'\<rparr>) (str.encoding b @ f)
             = (Inr (m\<lparr>pi_musig2_pub_nonces := d' @ [(k, v)]\<rparr>), f)))"
      by (auto simp: string_ok_def)
  qed (use m in \<open>auto simp: musig2_ok_def\<close>)
  moreover have "m\<lparr>pi_musig2_pub_nonces := []\<rparr> = m" using m(3) by simp
  ultimately show "in_chunk cr T m (map (\<lambda>(k, v). ser_typed 0x1b (musig2_keydata k) (Inr v)) d) (insert 0x1b T)
      (m\<lparr>pi_musig2_pub_nonces := d\<rparr>)" by simp
next
  assume m: "0x1c \<notin> T" "musig2_ok 32 d" "pi_musig2_partial_sigs m = []"
  have "in_chunk cr T (m\<lparr>pi_musig2_partial_sigs := []\<rparr>) (map (\<lambda>(k, v). ser_typed 0x1c (musig2_keydata k) (Inr v)) d)
      (insert 0x1c T) (m\<lparr>pi_musig2_partial_sigs := d\<rparr>)"
  proof (rule input_map.chunk_dict)
    show "inj_on musig2_keydata (set (dict_keys d))" using musig2_inj m by blast
    fix k v L and d' :: "(bytes \<times> bytes \<times> bytes option, bytes) dict" assume a: "(k, v) \<in> set d" "0x1c # musig2_keydata k \<notin> L" "\<not> dict_has d' k"
    from musig2_keys [OF m(2) a(1), of "0x1c"] in_read_musig2(2) [OF _ _ a(3) a(2), of v]
    show "string_ok (0x1c # musig2_keydata k) \<and> (\<exists>b. Inr v = Inr b \<and> string_ok b
        \<and> (\<forall>f. in_field cr (0x1c # musig2_keydata k) L (m\<lparr>pi_musig2_partial_sigs := d'\<rparr>) (str.encoding b @ f)
             = (Inr (m\<lparr>pi_musig2_partial_sigs := d' @ [(k, v)]\<rparr>), f)))"
      by (auto simp: string_ok_def)
  qed (use m in \<open>auto simp: musig2_ok_def\<close>)
  moreover have "m\<lparr>pi_musig2_partial_sigs := []\<rparr> = m" using m(3) by simp
  ultimately show "in_chunk cr T m (map (\<lambda>(k, v). ser_typed 0x1c (musig2_keydata k) (Inr v)) d) (insert 0x1c T)
      (m\<lparr>pi_musig2_partial_sigs := d\<rparr>)" by simp
qed

lemma in_chunk_final_witness:
  assumes "0x08 \<notin> T" and "inwit_ok w" and "result_ok string_ok (inwit_serialize w)"
    and "pi_final_script_witness m = CTxInWitness_new"
  shows "in_chunk cr T m (if \<not> inwit_is_null w then [ser_typed 0x08 [] (inwit_serialize w)] else []) (insert 0x08 T)
    (m\<lparr>pi_final_script_witness := w\<rparr>)"
proof (cases "inwit_is_null w")
  case True
  then have "w = CTxInWitness_new"
    by (cases w, cases "scriptWitness w") (simp add: inwit_is_null_def script_witness_is_null_def CTxInWitness_new_def)
  moreover have "m\<lparr>pi_final_script_witness := CTxInWitness_new\<rparr> = m" using assms(4) by (metis PartiallySignedInput.surjective PartiallySignedInput.update_convs(9))
  ultimately show ?thesis using True in_chunk_Nil [of T "insert 8 T" cr m] by auto
next
  case False
  have "string_ok (inwit.encoding w)" using assms(3) inwit.enc_encoding [OF assms(2)] by (simp add: result_ok_def)
  then show ?thesis
    using False assms in_read_final_witness inwit.enc_encoding [OF assms(2)]
    by (auto intro!: input_map.chunk_single)
qed

lemma unknown_okD:
  "unknown_ok known d \<Longrightarrow> dict_ok (sorted_items d)"
  "unknown_ok known d \<Longrightarrow> x \<in> set (sorted_items d) \<Longrightarrow> pair_ok x"
  "unknown_ok known d \<Longrightarrow> (k, v) \<in> set (sorted_items d) \<Longrightarrow>
     string_ok v \<and> (\<exists>t. key_type_of k = Inr t \<and> t \<notin> known)"
  by (auto simp: unknown_ok_def list_all_iff pair_ok_def result_ok_def split: sum.splits)

lemma in_chunk_unknown:
  assumes ok: "unknown_ok in_known_types d" and "pi_unknown m = []"
  shows "in_chunk cr T m (map (\<lambda>(key, v). ser_pair (Inr key) (Inr v)) (sorted_items d)) UNIV
    (m\<lparr>pi_unknown := sorted_items d\<rparr>)"
proof -
  have "in_chunk cr T (m\<lparr>pi_unknown := []\<rparr>) (map (\<lambda>(key, v). ser_pair (Inr key) (Inr v)) (sorted_items d)) UNIV
      (m\<lparr>pi_unknown := sorted_items d\<rparr>)"
    using unknown_okD [OF ok] in_read_unknown by (intro input_map.chunk_pairs) (assumption, blast+)
  moreover have "m\<lparr>pi_unknown := []\<rparr> = m" using assms(2) by simp
  ultimately show ?thesis by simp
qed

lemmas in_chunk_open_fields =
  in_chunk_append [OF in_chunk_partial_sigs in_chunk_append [OF in_chunk_u32(1)
  in_chunk_append [OF in_chunk_once(1) in_chunk_append [OF in_chunk_once(2)
  in_chunk_append [OF in_chunk_keypaths in_chunk_append [OF in_chunk_once(4)
  in_chunk_append [OF in_chunk_tap_script_sigs in_chunk_append [OF in_chunk_tap_scripts
  in_chunk_append [OF in_chunk_tap_keypaths in_chunk_append [OF in_chunk_once(5) in_chunk_once(6)]]]]]]]]]]

lemma psbt_input_okD:
  assumes "psbt_input_ok m"
  shows "pred_option utxo_ok (pi_non_witness_utxo m)"
    "pred_option (\<lambda>out. txout_ok out \<and> length (scriptPubKey out) < 2 ^ 60) (pi_witness_utxo m)"
    "dict_ok (pi_partial_sigs m)"
    "list_all (\<lambda>(k, v). (length k = 33 \<or> length k = 65) \<and> string_ok v) (pi_partial_sigs m)"
    "pred_option u32_ok (pi_sighash m)" "string_ok (pi_redeem_script m)" "string_ok (pi_witness_script m)"
    "hd_keypaths_ok [34, 66] (pi_hd_keypaths m)" "string_ok (pi_final_script_sig m)"
    "inwit_ok (pi_final_script_witness m)" "result_ok string_ok (inwit_serialize (pi_final_script_witness m))"
    "length (pi_tap_key_sig m) \<in> {0, 64, 65}" "dict_ok (pi_tap_script_sigs m)"
    "list_all (\<lambda>((x, l), s). length x = 32 \<and> length l = 32 \<and> length s \<in> {64, 65}) (pi_tap_script_sigs m)"
    "tap_scripts_ok (pi_tap_scripts m)" "tap_keypaths_ok (pi_tap_bip32_paths m)"
    "length (pi_tap_internal_key m) \<in> {0, 32}" "length (pi_tap_merkle_root m) \<in> {0, 32}"
    "participants_ok (pi_musig2_participant_pubkeys m)"
    "musig2_ok 66 (pi_musig2_pub_nonces m)" "musig2_ok 32 (pi_musig2_partial_sigs m)"
    "unknown_ok in_known_types (pi_unknown m)"
  using assms unfolding psbt_input_ok_def by blast+

lemma psbt_input_okD_v2:
  assumes "psbt_input_ok m" and "2 \<le> pi_version m"
  shows "length (pi_prev_txid m) = 32" "pi_prev_out m \<noteq> None"
    "pred_option u32_ok (pi_prev_out m)" "pred_option u32_ok (pi_sequence m)"
    "pred_option (\<lambda>t. 500000000 \<le> t \<and> t < 2 ^ 32) (pi_time_locktime m)"
    "pred_option (\<lambda>t. 0 < t \<and> t < 500000000) (pi_height_locktime m)"
  using assms unfolding psbt_input_ok_def by blast+

lemma in_chunk_open:
  assumes m: "m = (psbt_input_new v)\<lparr>pi_non_witness_utxo := u, pi_witness_utxo := w\<rparr>"
    and ok: "psbt_input_ok x" and it: "iteration_ok it"
  shows "in_chunk cr {0x01, 0x00} m (psbt_input_serialize_open it x)
      {0x18, 0x17, 0x16, 0x15, 0x14, 0x13, 0x06, 0x05, 0x04, 0x03, 0x02, 0x01, 0x00}
      (m\<lparr>pi_partial_sigs := sorted_items (pi_partial_sigs x), pi_sighash := pi_sighash x,
         pi_redeem_script := pi_redeem_script x, pi_witness_script := pi_witness_script x,
         pi_hd_keypaths := sorted_items (pi_hd_keypaths x), pi_tap_key_sig := pi_tap_key_sig x,
         pi_tap_script_sigs := pi_tap_script_sigs x, pi_tap_scripts := pi_tap_scripts x,
         pi_tap_bip32_paths := pi_tap_bip32_paths x, pi_tap_internal_key := pi_tap_internal_key x,
         pi_tap_merkle_root := pi_tap_merkle_root x\<rparr>)"
  unfolding psbt_input_serialize_open_def
  by (rule in_chunk_open_fields; (rule psbt_input_okD [OF ok] it | simp add: m psbt_input_new_def))

lemmas in_chunk_v2_fields =
  in_chunk_append [OF in_chunk_once(7) in_chunk_append [OF in_chunk_u32(2)
  in_chunk_append [OF in_chunk_u32(3) in_chunk_append [OF in_chunk_u32(4) in_chunk_u32(5)]]]]

lemma in_chunk_v2:
  assumes "2 \<le> pi_version x" and ok: "psbt_input_ok x" and "pi_version m = pi_version x"
    and "T \<inter> {0x0e, 0x0f, 0x10, 0x11, 0x12} = {}"
    and "pi_prev_txid m = []" "pi_prev_out m = None" "pi_sequence m = None" "pi_time_locktime m = None" "pi_height_locktime m = None"
  shows "in_chunk cr T m (psbt_input_serialize_v2 x) (insert 0x12 (insert 0x11 (insert 0x10 (insert 0x0f (insert 0x0e T)))))
      (m\<lparr>pi_prev_txid := pi_prev_txid x, pi_prev_out := pi_prev_out x, pi_sequence := pi_sequence x,
         pi_time_locktime := pi_time_locktime x, pi_height_locktime := pi_height_locktime x\<rparr>)"
  unfolding psbt_input_serialize_v2_def if_P [OF assms(1)]
  by (rule in_chunk_v2_fields; (rule psbt_input_okD_v2 [OF ok assms(1)] | use assms in \<open>simp; fail\<close>))

lemma in_chunk_open_if:
  assumes m: "m = (psbt_input_new v)\<lparr>pi_non_witness_utxo := u, pi_witness_utxo := w\<rparr>"
    and ok: "psbt_input_ok x" and it: "iteration_ok it"
  shows "in_chunk cr {0x01, 0x00} m (if psbt_input_is_open x then psbt_input_serialize_open it x else [])
      {0x18, 0x17, 0x16, 0x15, 0x14, 0x13, 0x06, 0x05, 0x04, 0x03, 0x02, 0x01, 0x00}
      (if psbt_input_is_open x then
       m\<lparr>pi_partial_sigs := sorted_items (pi_partial_sigs x), pi_sighash := pi_sighash x,
         pi_redeem_script := pi_redeem_script x, pi_witness_script := pi_witness_script x,
         pi_hd_keypaths := sorted_items (pi_hd_keypaths x), pi_tap_key_sig := pi_tap_key_sig x,
         pi_tap_script_sigs := pi_tap_script_sigs x, pi_tap_scripts := pi_tap_scripts x,
         pi_tap_bip32_paths := pi_tap_bip32_paths x, pi_tap_internal_key := pi_tap_internal_key x,
         pi_tap_merkle_root := pi_tap_merkle_root x\<rparr> else m)"
  using in_chunk_open [OF assms, of cr] by (auto intro: in_chunk_Nil)

lemma in_chunk_v2_if:
  assumes ok: "psbt_input_ok x" and "pi_version m = pi_version x" and "T \<inter> {0x0e, 0x0f, 0x10, 0x11, 0x12} = {}"
    and "pi_prev_txid m = []" "pi_prev_out m = None" "pi_sequence m = None" "pi_time_locktime m = None" "pi_height_locktime m = None"
  shows "in_chunk cr T m (psbt_input_serialize_v2 x) (insert 0x12 (insert 0x11 (insert 0x10 (insert 0x0f (insert 0x0e T)))))
      (if 2 \<le> pi_version x then
       m\<lparr>pi_prev_txid := pi_prev_txid x, pi_prev_out := pi_prev_out x, pi_sequence := pi_sequence x,
         pi_time_locktime := pi_time_locktime x, pi_height_locktime := pi_height_locktime x\<rparr> else m)"
proof (cases "2 \<le> pi_version x")
  case True
  with in_chunk_v2 [OF True assms] show ?thesis by simp
next
  case False
  then show ?thesis using in_chunk_Nil [of T "insert 0x12 (insert 0x11 (insert 0x10 (insert 0x0f (insert 0x0e T))))" cr m]
    by (auto simp: psbt_input_serialize_v2_def)
qed

lemmas in_chunk_all_fields =
  in_chunk_append [OF in_chunk_utxo in_chunk_append [OF in_chunk_witness_utxo
  in_chunk_append [OF in_chunk_open_if in_chunk_append [OF in_chunk_once(3)
  in_chunk_append [OF in_chunk_final_witness in_chunk_append [OF in_chunk_participants
  in_chunk_append [OF in_chunk_musig2(1) in_chunk_append [OF in_chunk_musig2(2)
  in_chunk_append [OF in_chunk_v2_if in_chunk_unknown]]]]]]]]]

lemma psbt_input_read_back:
  assumes cr: "crypto_ok cr" and it: "iteration_ok it" and ok: "psbt_input_ok x"
  shows "\<exists>bs. fst (psbt_input_serialize it x) = Inr bs
    \<and> (\<forall>f. psbt_input_deserialize cr (psbt_input_new (pi_version x)) (bs @ f) = (Inr (psbt_input_normal cr x), f))"
proof -
  let ?utxo = "map_option tx_serialize_with_witness (pi_non_witness_utxo x)"
  let ?ms = "(case ?utxo of None \<Rightarrow> [] | Some (tx, _) \<Rightarrow> [ser_typed 0x00 [] tx])
            @ (case pi_witness_utxo x of None \<Rightarrow> [] | Some out \<Rightarrow> [ser_typed 0x01 [] (txout_serialize out)])
            @ (if psbt_input_is_open x then psbt_input_serialize_open it x else [])
            @ ser_unless_empty 0x07 (pi_final_script_sig x)
            @ (if \<not> inwit_is_null (pi_final_script_witness x)
               then [ser_typed 0x08 [] (inwit_serialize (pi_final_script_witness x))] else [])
            @ map (\<lambda>(pk, pubkeys). ser_typed 0x1a pk (Inr (concat pubkeys))) (pi_musig2_participant_pubkeys x)
            @ map (\<lambda>(k, pubnonce). ser_typed 0x1b (musig2_keydata k) (Inr pubnonce)) (pi_musig2_pub_nonces x)
            @ map (\<lambda>(k, partial_sig). ser_typed 0x1c (musig2_keydata k) (Inr partial_sig)) (pi_musig2_partial_sigs x)
            @ psbt_input_serialize_v2 x
            @ map (\<lambda>(key, v). ser_pair (Inr key) (Inr v)) (sorted_items (pi_unknown x))"
  have "in_chunk cr {} (psbt_input_new (pi_version x)) ?ms UNIV (psbt_input_normal cr x)"
  proof -
    have "\<exists>m'. in_chunk cr {} (psbt_input_new (pi_version x)) ?ms UNIV m' \<and> m' = psbt_input_normal cr x"
      by (rule exI, rule conjI, rule in_chunk_all_fields;
          (rule refl psbt_input_okD [OF ok] ok it cr | simp add: psbt_input_new_def psbt_input_normal_def Let_def))
    then show ?thesis by simp
  qed
  from input_map.chunk_read [OF this] obtain bs where "res_concat (?ms @ [Inr [0]]) = Inr bs"
    "\<And>f. kv_run (in_field cr) {} (psbt_input_new (pi_version x)) (bs @ f) = (Inr (psbt_input_normal cr x), f)"
    by blast
  moreover have "in_required (psbt_input_normal cr x) = Inr ()"
    using psbt_input_okD_v2 [OF ok] by (auto simp: in_required_def psbt_input_normal_def Let_def)
  moreover have "fst (psbt_input_serialize it x) = res_concat (?ms @ [Inr [0]])"
    by (simp add: psbt_input_serialize_def Let_def map_option_case)
  ultimately show ?thesis by (intro exI [of _ bs]) (simp add: psbt_input_deserialize_def rd_bind_def)
qed

section \<open>Properties\<close>

text \<open>
  PSBT inputs round trip. An input whose fields fit the format is written without an error, in
  whatever order sets are iterated; a fresh input of the same version reads back exactly the bytes written
  and becomes the input in normal form: dictionaries the writer sorts are sorted, the previous
  transaction is hashed, a final input has lost the fields only an open one carries, and an input of
  version 0 those of version 2.
\<close>

theorem psbt_input_round_trip:
  assumes "crypto_ok cr" and "iteration_ok it" and "psbt_input_ok x"
  shows "\<exists>bs. fst (psbt_input_serialize it x) = Inr bs
    \<and> (\<forall>f. psbt_input_deserialize cr (psbt_input_new (pi_version x)) (bs @ f) = (Inr (psbt_input_normal cr x), f))"
  using assms by (rule psbt_input_read_back)

definition example_input :: PartiallySignedInput where
  "example_input = (psbt_input_new 2)\<lparr>pi_witness_utxo := Some (txout_new 5000 [0x51]),
     pi_partial_sigs := [(replicate 33 3, [7]), (replicate 33 2, [8])], pi_sighash := Some 1,
     pi_hd_keypaths := [(replicate 33 2, \<lparr>ko_fingerprint = [1, 2, 3, 4], ko_path = [84, 0]\<rparr>)],
     pi_prev_txid := replicate 32 9, pi_prev_out := Some 3, pi_height_locktime := Some 500,
     pi_tap_scripts := [(([0x51], 0xc0), {replicate 33 5})],
     pi_tap_bip32_paths := [(replicate 32 6, ({replicate 32 1}, \<lparr>ko_fingerprint = [1, 2, 3, 4], ko_path = [86]\<rparr>))],
     pi_musig2_pub_nonces := [((replicate 33 2, replicate 33 3, None), replicate 66 1)],
     pi_unknown := [([0xfc, 1], [2, 3])]\<rparr>"

lemma iteration_ok_sorted: "iteration_ok sorted_list_of_set"
  by (simp add: iteration_ok_def)

lemma example_input_ok: "psbt_input_ok example_input"
  unfolding psbt_input_ok_def
  by (intro conjI; simp add: example_input_def psbt_input_new_def txout_new_def txout_ok_def i64_ok_def string_ok_def
      u32_ok_def dict_ok_def hd_keypaths_ok_def keyorigin_ok_def CTxInWitness_new_def inwit_ok_def
      str.vector_ok_def inwit_serialize_def ser_string_vector_def ser_compact_size_def res_concat_Cons result_ok_def
      tap_scripts_ok_def tap_keypaths_ok_def participants_ok_def musig2_ok_def unknown_ok_def pair_ok_def
      key_type_of_typed in_known_types_def)

theorem psbt_input_round_trip_witness:
  "\<exists>bs. fst (psbt_input_serialize sorted_list_of_set example_input) = Inr bs
    \<and> psbt_input_deserialize pad_crypto (psbt_input_new 2) (bs @ [1]) = (Inr (psbt_input_normal pad_crypto example_input), [1])"
  using psbt_input_round_trip [OF crypto_ok_pad_crypto iteration_ok_sorted example_input_ok]
  by (auto simp: example_input_def psbt_input_new_def)

text \<open>What the checks of the reader establish, whatever the bytes.\<close>

definition psbt_input_inv :: "PartiallySignedInput \<Rightarrow> bool" where
  "psbt_input_inv m \<longleftrightarrow>
     dict_ok (pi_partial_sigs m) \<and> list_all (\<lambda>(k, v). length k = 33 \<or> length k = 65) (pi_partial_sigs m)
     \<and> dict_ok (pi_hd_keypaths m) \<and> list_all (\<lambda>(k, v). length k = 33 \<or> length k = 65) (pi_hd_keypaths m)
     \<and> pred_option (\<lambda>x. 0 \<le> x \<and> x < 2 ^ 32) (pi_sighash m)
     \<and> length (pi_tap_key_sig m) \<in> {0, 64, 65}
     \<and> dict_ok (pi_tap_script_sigs m)
     \<and> list_all (\<lambda>((x, l), s). length x = 32 \<and> length l = 32 \<and> length s \<in> {64, 65}) (pi_tap_script_sigs m)
     \<and> dict_ok (pi_tap_scripts m)
     \<and> dict_ok (pi_tap_bip32_paths m) \<and> list_all (\<lambda>(k, v). length k = 32) (pi_tap_bip32_paths m)
     \<and> length (pi_tap_internal_key m) \<in> {0, 32} \<and> length (pi_tap_merkle_root m) \<in> {0, 32}
     \<and> dict_ok (pi_musig2_participant_pubkeys m)
     \<and> list_all (\<lambda>(k, ps). length k = 33 \<and> ps \<noteq> []) (pi_musig2_participant_pubkeys m)
     \<and> dict_ok (pi_musig2_pub_nonces m) \<and> list_all (\<lambda>(k, v). length v = 66) (pi_musig2_pub_nonces m)
     \<and> dict_ok (pi_musig2_partial_sigs m) \<and> list_all (\<lambda>(k, v). length v = 32) (pi_musig2_partial_sigs m)
     \<and> dict_ok (pi_unknown m)
     \<and> length (pi_prev_txid m) \<in> {0, 32}
     \<and> pred_option (\<lambda>n. 0 \<le> n \<and> n < 2 ^ 32) (pi_prev_out m) \<and> pred_option (\<lambda>n. 0 \<le> n \<and> n < 2 ^ 32) (pi_sequence m)
     \<and> pred_option (\<lambda>t. 500000000 \<le> t \<and> t < 2 ^ 32) (pi_time_locktime m)
     \<and> pred_option (\<lambda>t. 0 < t \<and> t < 500000000) (pi_height_locktime m)
     \<and> (pi_version m = 0 \<longrightarrow> pi_prev_txid m = [] \<and> pi_prev_out m = None \<and> pi_sequence m = None
          \<and> pi_time_locktime m = None \<and> pi_height_locktime m = None)"

lemma list_all_update:
  "list_all P d \<Longrightarrow> P (k, v) \<Longrightarrow> list_all P (AList.update k v d)"
  by (induction d) auto

lemma check_Inr [simp]:
  "check_single d l k L = Inr u \<longleftrightarrow> k \<notin> L \<and> length k = 1"
  "check_keyed d l n k L = Inr u \<longleftrightarrow> k \<notin> L \<and> length k \<in> set n"
  "check_v2 v nm c = Inr u \<longleftrightarrow> v \<noteq> 0 \<and> c = Inr u"
  by (auto simp: check_single_def check_keyed_def check_v2_def)

lemma deser_participants_nonempty: "deser_participants v = Inr ps \<Longrightarrow> ps \<noteq> []"
  by (cases v) (auto simp: deser_participants_def split: if_splits)

text \<open>What an accepted pair does to the input: one rule for each branch of the loop.\<close>

inductive in_effect :: "bytes set \<Rightarrow> bytes \<Rightarrow> PartiallySignedInput \<Rightarrow> PartiallySignedInput \<Rightarrow> bool" where
  non_witness_utxo: "k \<notin> L \<Longrightarrow> in_effect L k m (m\<lparr>pi_non_witness_utxo := Some x\<rparr>)"
| witness_utxo: "k \<notin> L \<Longrightarrow> in_effect L k m (m\<lparr>pi_witness_utxo := Some x\<rparr>)"
| partial_sig: "\<not> dict_has (pi_partial_sigs m) (drop 1 k) \<Longrightarrow> length k \<in> {34, 66} \<Longrightarrow> key_type_of k = Inr 0x02 \<Longrightarrow>
    in_effect L k m (m\<lparr>pi_partial_sigs := AList.update (drop 1 k) x (pi_partial_sigs m)\<rparr>)"
| sighash: "k \<notin> L \<Longrightarrow> 0 \<le> x \<Longrightarrow> x < 2 ^ 32 \<Longrightarrow> in_effect L k m (m\<lparr>pi_sighash := Some x\<rparr>)"
| redeem_script: "k \<notin> L \<Longrightarrow> in_effect L k m (m\<lparr>pi_redeem_script := x\<rparr>)"
| witness_script: "k \<notin> L \<Longrightarrow> in_effect L k m (m\<lparr>pi_witness_script := x\<rparr>)"
| keypath: "\<not> dict_has (pi_hd_keypaths m) (drop 1 k) \<Longrightarrow> length k \<in> {34, 66} \<Longrightarrow> key_type_of k = Inr 0x06 \<Longrightarrow>
    in_effect L k m (m\<lparr>pi_hd_keypaths := AList.update (drop 1 k) x (pi_hd_keypaths m)\<rparr>)"
| final_script_sig: "k \<notin> L \<Longrightarrow> in_effect L k m (m\<lparr>pi_final_script_sig := x\<rparr>)"
| final_script_witness: "k \<notin> L \<Longrightarrow> in_effect L k m (m\<lparr>pi_final_script_witness := x\<rparr>)"
| prev_txid: "k \<notin> L \<Longrightarrow> pi_version m \<noteq> 0 \<Longrightarrow> length x = 32 \<Longrightarrow> in_effect L k m (m\<lparr>pi_prev_txid := x\<rparr>)"
| prev_out: "k \<notin> L \<Longrightarrow> pi_version m \<noteq> 0 \<Longrightarrow> 0 \<le> x \<Longrightarrow> x < 2 ^ 32 \<Longrightarrow> in_effect L k m (m\<lparr>pi_prev_out := Some x\<rparr>)"
| sequence: "k \<notin> L \<Longrightarrow> pi_version m \<noteq> 0 \<Longrightarrow> 0 \<le> x \<Longrightarrow> x < 2 ^ 32 \<Longrightarrow> in_effect L k m (m\<lparr>pi_sequence := Some x\<rparr>)"
| time_locktime: "k \<notin> L \<Longrightarrow> pi_version m \<noteq> 0 \<Longrightarrow> 500000000 \<le> x \<Longrightarrow> x < 2 ^ 32 \<Longrightarrow>
    in_effect L k m (m\<lparr>pi_time_locktime := Some x\<rparr>)"
| height_locktime: "k \<notin> L \<Longrightarrow> pi_version m \<noteq> 0 \<Longrightarrow> 0 < x \<Longrightarrow> x < 500000000 \<Longrightarrow>
    in_effect L k m (m\<lparr>pi_height_locktime := Some x\<rparr>)"
| tap_key_sig: "k \<notin> L \<Longrightarrow> length x \<in> {64, 65} \<Longrightarrow> in_effect L k m (m\<lparr>pi_tap_key_sig := x\<rparr>)"
| tap_script_sig: "k \<notin> L \<Longrightarrow> length k = 65 \<Longrightarrow> length x \<in> {64, 65} \<Longrightarrow>
    in_effect L k m (m\<lparr>pi_tap_script_sigs := AList.update (py_slice 1 33 k, py_slice 33 65 k) x (pi_tap_script_sigs m)\<rparr>)"
| tap_leaf_script: "k \<notin> L \<Longrightarrow> (dict_ok (pi_tap_scripts m) \<Longrightarrow> dict_ok d) \<Longrightarrow> in_effect L k m (m\<lparr>pi_tap_scripts := d\<rparr>)"
| tap_keypath: "k \<notin> L \<Longrightarrow> length k = 33 \<Longrightarrow>
    in_effect L k m (m\<lparr>pi_tap_bip32_paths := AList.update (py_slice 1 33 k) x (pi_tap_bip32_paths m)\<rparr>)"
| tap_internal_key: "k \<notin> L \<Longrightarrow> length x = 32 \<Longrightarrow> in_effect L k m (m\<lparr>pi_tap_internal_key := x\<rparr>)"
| tap_merkle_root: "k \<notin> L \<Longrightarrow> length x = 32 \<Longrightarrow> in_effect L k m (m\<lparr>pi_tap_merkle_root := x\<rparr>)"
| participants: "k \<notin> L \<Longrightarrow> length k = 34 \<Longrightarrow> ps \<noteq> [] \<Longrightarrow>
    in_effect L k m (m\<lparr>pi_musig2_participant_pubkeys := AList.update (drop 1 k) ps (pi_musig2_participant_pubkeys m)\<rparr>)"
| pub_nonce: "k \<notin> L \<Longrightarrow> length x = 66 \<Longrightarrow>
    in_effect L k m (m\<lparr>pi_musig2_pub_nonces := AList.update (musig2_key k) x (pi_musig2_pub_nonces m)\<rparr>)"
| musig2_sig: "k \<notin> L \<Longrightarrow> length x = 32 \<Longrightarrow>
    in_effect L k m (m\<lparr>pi_musig2_partial_sigs := AList.update (musig2_key k) x (pi_musig2_partial_sigs m)\<rparr>)"
| unknown: "\<not> dict_has (pi_unknown m) k \<Longrightarrow> key_type_of k = Inr t \<Longrightarrow> t \<notin> in_known_types \<Longrightarrow>
    in_effect L k m (m\<lparr>pi_unknown := AList.update k x (pi_unknown m)\<rparr>)"

lemma effect_utxo:
  "in_non_witness_utxo cr k L m f = (Inr m', f') \<Longrightarrow> in_effect L k m m'"
  unfolding in_non_witness_utxo_def
  by (elim kv_field_elim) (auto simp: case_prod_unfold intro: in_effect.intros)

lemma effect_height_locktime:
  assumes "in_required_height_locktime k L m f = (Inr m', f')"
  shows "in_effect L k m m'"
proof -
  from assms obtain v x where x: "unpack_le 4 v = Inr x" "x \<noteq> 0" "x < 500000000" "pi_version m \<noteq> 0" "k \<notin> L"
    "m' = m\<lparr>pi_height_locktime := Some x\<rparr>"
    unfolding in_required_height_locktime_def
    by (elim kv_field_elim) (simp only: check_Inr split: if_split_asm, auto simp: not_le split: if_splits)
  then have "0 < x" using unpack_le_bounds [OF x(1)] by simp
  with x show ?thesis by (auto intro: in_effect.intros)
qed

lemma effect_tap_script_sig:
  assumes "in_tap_script_sig k L m f = (Inr m', f')"
  shows "in_effect L k m m'"
proof -
  from assms obtain v where k: "length k = 65" "k \<notin> L" and v: "(if length v < 64
           then Inl (PSBTSerializationError ''Input Taproot script path signature is shorter than 64 bytes'')
           else if 65 < length v
           then Inl (PSBTSerializationError ''Input Taproot script path signature is longer than 65 bytes'')
           else Inr (m\<lparr>pi_tap_script_sigs := AList.update (py_slice 1 33 k, py_slice 33 65 k) v (pi_tap_script_sigs m)\<rparr>)) = Inr m'"
    unfolding in_tap_script_sig_def Let_def by (elim kv_field_elim) simp
  then have "length v \<in> {64, 65}" and "m' = m\<lparr>pi_tap_script_sigs :=
      AList.update (py_slice 1 33 k, py_slice 33 65 k) v (pi_tap_script_sigs m)\<rparr>"
    by (simp_all split: if_split_asm, linarith)
  from in_effect.tap_script_sig [OF k(2,1) this(1)] this(2) show ?thesis by simp
qed

lemma effect_tap_leaf_script:
  assumes "in_tap_leaf_script key L m f = (Inr m', f')"
  shows "in_effect L key m m'"
proof -
  from assms obtain v where L: "key \<notin> L" and v: "(if length v = 0
        then Inl (PSBTSerializationError ''Input Taproot leaf script cannot be empty'')
        else
          let leaf_script = (butlast v, int (unat (last v)));
              scripts = (if \<not> dict_has (pi_tap_scripts m) leaf_script
                         then AList.update leaf_script {} (pi_tap_scripts m) else pi_tap_scripts m);
              old = (case map_of scripts leaf_script of Some S \<Rightarrow> S | None \<Rightarrow> {})
          in Inr (m\<lparr>pi_tap_scripts := AList.update leaf_script (insert (drop 1 key) old) scripts\<rparr>)) = Inr m'"
    unfolding in_tap_leaf_script_def by (elim kv_field_elim) (simp split: if_split_asm)
  define k where "k = (butlast v, int (unat (last v)))"
  define d where "d = (if \<not> dict_has (pi_tap_scripts m) k then AList.update k {} (pi_tap_scripts m) else pi_tap_scripts m)"
  have "length v \<noteq> 0" using v by auto
  then have "m' = m\<lparr>pi_tap_scripts := AList.update k (insert (drop 1 key)
        (case map_of d k of Some S \<Rightarrow> S | None \<Rightarrow> {})) d\<rparr>"
    using v unfolding Let_def k_def [symmetric] d_def [symmetric] by simp
  moreover have "dict_ok (pi_tap_scripts m) \<Longrightarrow> dict_ok d" by (simp add: d_def)
  ultimately show ?thesis using L by (auto intro!: in_effect.tap_leaf_script)
qed

lemma in_field_effect:
  assumes "in_field cr k L m f = (Inr m', f')"
  shows "in_effect L k m m'"
proof -
  obtain t where t: "key_type_of k = Inr t" using assms by (auto simp: in_field_def rd_bind_eq_Inr)
  show ?thesis
    using assms t unfolding in_field_def rd_bind_eq_Inr
    by (elim exE conjE) (simp only: rd_lift_apply prod.inject t sum.inject split: if_split_asm;
      (erule effect_utxo effect_height_locktime effect_tap_script_sig effect_tap_leaf_script |
       (simp only: in_fields DeserializeHDKeypath_def Let_def rd_bind_eq_Inr; (elim exE conjE)?;
        drule kv_field_Inr;
        auto split: if_splits dest!: unpack_le_bounds deser_participants_nonempty
          intro: in_effect.intros simp: t in_known_types_def simp del: One_nat_def)))
qed

lemma in_effect_inv:
  "in_effect L k m m' \<Longrightarrow> psbt_input_inv m \<Longrightarrow> psbt_input_inv m' \<and> pi_version m' = pi_version m"
  by (induction rule: in_effect.induct) (auto simp: psbt_input_inv_def list_all_update py_slice_def)

lemmas in_field_inv = in_effect_inv [OF in_field_effect]

lemma psbt_input_inv_new: "psbt_input_inv (psbt_input_new v)"
  by (simp add: psbt_input_inv_def psbt_input_new_def dict_ok_def)

lemma psbt_input_deserialize_inv:
  assumes "psbt_input_inv m" and "psbt_input_deserialize cr m f = (Inr m', f')"
  shows "psbt_input_inv m' \<and> pi_version m' = pi_version m
    \<and> (2 \<le> pi_version m \<longrightarrow> length (pi_prev_txid m') = 32 \<and> pi_prev_out m' \<noteq> None)"
proof -
  have r: "kv_run (in_field cr) {} m f = (Inr m', f')" and q: "in_required m' = Inr ()"
    using assms(2) by (auto simp: psbt_input_deserialize_def rd_bind_eq_Inr)
  have "psbt_input_inv m' \<and> pi_version m' = pi_version m"
    by (rule input_map.run_invariant [OF _ _ r, where P = "\<lambda>x. psbt_input_inv x \<and> pi_version x = pi_version m"])
      (use in_field_inv assms(1) in auto)
  with q show ?thesis by (auto simp: in_required_def psbt_input_inv_def split: if_splits)
qed

text \<open>
  what the reader of inputs accepts is well-formed, whatever the bytes: public keys of partial
  signatures and key paths are 33 or 65 bytes long and occur once, Taproot signatures are 64 or 65
  bytes, x-only keys, leaf hashes and roots 32, Musig2 nonces 66 and partial signatures 32; required
  locktimes are on their side of 500000000; an input of version 0 has none of the fields of version 2,
  and one of version 2 or more has the outpoint it spends.
\<close>

theorem psbt_input_reader_sound:
  assumes "psbt_input_deserialize cr (psbt_input_new v) f = (Inr m, f')"
  shows "psbt_input_inv m \<and> pi_version m = v
    \<and> (2 \<le> v \<longrightarrow> length (pi_prev_txid m) = 32 \<and> pi_prev_out m \<noteq> None)"
  using psbt_input_deserialize_inv [OF psbt_input_inv_new assms] by (simp add: psbt_input_new_def)

theorem psbt_input_reader_sound_witness:
  "\<exists>m. psbt_input_deserialize pad_crypto (psbt_input_new 0) [1, 3, 4, 1, 0, 0, 0, 0] = (Inr m, [])
     \<and> psbt_input_inv m \<and> pi_version m = 0"
proof -
  have "\<exists>m. psbt_input_deserialize pad_crypto (psbt_input_new 0) [1, 3, 4, 1, 0, 0, 0, 0] = (Inr m, [])"
    by (simp add: psbt_input_deserialize_def kv_run_def deser_string_def deser_compact_size_def rd_bind_def
        py_read_def in_field_simps unpack_le_def kv_field_def in_required_def psbt_input_new_def)
  with psbt_input_reader_sound [of pad_crypto 0] show ?thesis by blast
qed

text \<open>
  The read loop of an input ends: any number of rounds greater than the bytes left gives the same
  result, the loop never runs out of them, and the reader leaves a suffix of the stream even when it
  raises an exception.
\<close>

theorem psbt_input_reader_ends:
  "(\<forall>fuel. length f < fuel \<longrightarrow> kv_loop fuel (in_field cr) {} m f = kv_run (in_field cr) {} m f)
   \<and> fst (psbt_input_deserialize cr m f) \<noteq> Inl OutOfFuel \<and> suffix (snd (psbt_input_deserialize cr m f)) f"
proof -
  have "consumes (psbt_input_deserialize cr m)"
    unfolding psbt_input_deserialize_def
    by (intro consumes_intros input_map.consumes_run) (simp add: in_required_def)
  moreover have "kv_loop fuel (in_field cr) {} m f = kv_run (in_field cr) {} m f" if "length f < fuel" for fuel
    using input_map.loop_fuel [OF that, of "Suc (length f)"] by (simp add: kv_run_def)
  ultimately show ?thesis by (simp add: consumes_def)
qed

theorem psbt_input_reader_ends_witness:
  "kv_loop 100 (in_field pad_crypto) {} (psbt_input_new 0) [1, 3, 4, 1, 0, 0, 0, 0]
     = kv_run (in_field pad_crypto) {} (psbt_input_new 0) [1, 3, 4, 1, 0, 0, 0, 0]"
  using psbt_input_reader_ends [of "[1, 3, 4, 1, 0, 0, 0, 0]" pad_crypto "psbt_input_new 0"] by simp

text \<open>The keys seen: either in \<open>key_lookup\<close>, or in the dictionary of their field.\<close>

definition in_seen :: "bytes set \<Rightarrow> PartiallySignedInput \<Rightarrow> bool" where
  "in_seen L m \<longleftrightarrow> (\<forall>k\<in>L. \<forall>t. key_type_of k = Inr t \<longrightarrow>
      (t = 0x02 \<longrightarrow> dict_has (pi_partial_sigs m) (drop 1 k))
      \<and> (t = 0x06 \<longrightarrow> dict_has (pi_hd_keypaths m) (drop 1 k))
      \<and> (t \<notin> in_known_types \<longrightarrow> dict_has (pi_unknown m) k))"

lemma in_effect_fresh: "in_effect L k m m' \<Longrightarrow> in_seen L m \<Longrightarrow> k \<notin> L"
  by (induction rule: in_effect.induct) (auto simp: in_seen_def)

lemma in_effect_grows:
  "in_effect L k m m' \<Longrightarrow> (dict_has (pi_partial_sigs m) x \<longrightarrow> dict_has (pi_partial_sigs m') x)
     \<and> (dict_has (pi_hd_keypaths m) x \<longrightarrow> dict_has (pi_hd_keypaths m') x)
     \<and> (dict_has (pi_unknown m) x \<longrightarrow> dict_has (pi_unknown m') x)"
  by (induction rule: in_effect.induct) (auto simp: dict_has_update)

lemma in_field_records:
  assumes "in_field cr key L m f = (Inr m', f')" and t: "key_type_of key = Inr t"
  shows "(t = 0x02 \<longrightarrow> dict_has (pi_partial_sigs m') (drop 1 key))
    \<and> (t = 0x06 \<longrightarrow> dict_has (pi_hd_keypaths m') (drop 1 key))
    \<and> (t \<notin> in_known_types \<longrightarrow> dict_has (pi_unknown m') key)"
proof (intro conjI impI)
  assume "t = 0x02"
  then have "in_partial_sig key L m f = (Inr m', f')" using assms by (simp add: in_field_def rd_bind_def)
  then show "dict_has (pi_partial_sigs m') (drop 1 key)"
    unfolding in_partial_sig_def Let_def by (auto dest!: kv_field_Inr simp: dict_has_update split: if_splits)
next
  assume "t = 0x06"
  then have "in_bip32_derivation key L m f = (Inr m', f')" using assms by (simp add: in_field_def rd_bind_def)
  then show "dict_has (pi_hd_keypaths m') (drop 1 key)"
    unfolding in_bip32_derivation_def DeserializeHDKeypath_def rd_bind_eq_Inr Let_def
    by (auto dest!: kv_field_Inr simp: dict_has_update split: if_splits)
next
  assume "t \<notin> in_known_types"
  then have "in_unknown key L m f = (Inr m', f')"
    using assms by (simp add: in_field_def rd_bind_def in_known_types_def)
  then show "dict_has (pi_unknown m') key"
    unfolding in_unknown_def by (auto dest!: kv_field_Inr simp: dict_has_update)
qed

lemma in_field_seen:
  assumes seen: "in_seen L m" and h: "in_field cr key L m f = (Inr m', f')"
  shows "in_seen (insert key L) m'"
  unfolding in_seen_def
proof (intro ballI allI impI)
  fix k u assume k: "k \<in> insert key L" and u: "key_type_of k = Inr u"
  show "(u = 0x02 \<longrightarrow> dict_has (pi_partial_sigs m') (drop 1 k))
      \<and> (u = 0x06 \<longrightarrow> dict_has (pi_hd_keypaths m') (drop 1 k))
      \<and> (u \<notin> in_known_types \<longrightarrow> dict_has (pi_unknown m') k)"
  proof (cases "k = key")
    case True
    with in_field_records [OF h, of u] u show ?thesis by blast
  next
    case False
    with k u seen in_effect_grows [OF in_field_effect [OF h]] show ?thesis unfolding in_seen_def by blast
  qed
qed

lemma in_field_reads:
  "string_ok v \<Longrightarrow> in_field cr key L m (str.encoding v @ f) = (Inr m', f') \<Longrightarrow> f' = f"
  unfolding in_field_def in_fields in_non_witness_utxo_def DeserializeHDKeypath_def rd_bind_eq_Inr Let_def
  by (elim exE conjE) (simp only: rd_lift_apply prod.inject rd_bind_eq_Inr split: if_split_asm;
    (elim exE conjE)?; hypsubst?; drule (1) kv_field_reads; simp)

interpretation input_strings: kv_strings "in_field cr" in_seen for cr
proof unfold_locales
  fix key L m m' and f f' :: bytes
  assume a: "in_seen L m" "in_field cr key L m f = (Inr m', f')"
  show "key \<notin> L \<and> in_seen (insert key L) m'"
    using in_effect_fresh [OF in_field_effect [OF a(2)] a(1)] in_field_seen [OF a] by blast
qed (rule in_field_reads)

text \<open>
  No key occurs twice in an input. Whatever the pairs, if the reader accepts a stream that starts
  with them, their keys are distinct: BIP 174 requires a duplicate key to be an error.
\<close>

theorem psbt_input_keys_distinct:
  assumes "list_all pair_ok ps"
    and "psbt_input_deserialize cr (psbt_input_new v) (concat (map pair_bytes ps) @ f) = (Inr m, f')"
  shows "distinct (map fst ps)"
  using input_strings.run_distinct [OF _ assms(1)] assms(2)
  by (fastforce simp: psbt_input_deserialize_def rd_bind_eq_Inr in_seen_def)

theorem psbt_input_keys_distinct_witness:
  "distinct (map fst [([3::byte], [1::byte, 0, 0, 0]), ([4], [7])])"
proof -
  let ?ps = "[([3::byte], [1::byte, 0, 0, 0]), ([4], [7])]"
  have e: "str.encoding [3] = [1, 3]" "str.encoding [1, 0, 0, 0] = [4, 1, 0, 0, 0]" "str.encoding [4] = [1, 4]"
      "str.encoding [7] = [1, 7]"
    by (simp_all add: str.encoding_def ser_string_def ser_compact_size_def res_concat_Cons)
  have "list_all pair_ok ?ps" by (simp add: pair_ok_def string_ok_def)
  moreover have "\<exists>m. psbt_input_deserialize pad_crypto (psbt_input_new 0) (concat (map pair_bytes ?ps) @ [0]) = (Inr m, [])"
    by (simp add: pair_bytes_def e psbt_input_deserialize_def kv_run_def deser_string_def deser_compact_size_def rd_bind_def
        py_read_def in_field_simps unpack_le_def kv_field_def in_required_def psbt_input_new_def)
  ultimately show ?thesis using psbt_input_keys_distinct [of ?ps pad_crypto 0 "[0]"] by blast
qed

end
