(* ===== verification/Psbt_Output.thy ===== *)
theory Psbt_Output
  imports Psbt_Input
begin

text \<open>
  \<open>PartiallySignedOutput\<close> of \<open>hwilib/psbt.py\<close>, built like the inputs: a record, one definition for each
  branch of the read loop, the writer, and \<open>get_txout\<close>.
\<close>

section \<open>The output map\<close>

record PartiallySignedOutput =
  po_redeem_script :: bytes
  po_witness_script :: bytes
  po_hd_keypaths :: "(bytes, KeyOriginInfo) dict"
  po_amount :: "int option"
  po_script :: bytes
  po_tap_internal_key :: bytes
  po_tap_tree :: bytes
  po_tap_bip32_paths :: "(bytes, bytes set \<times> KeyOriginInfo) dict"
  po_musig2_participant_pubkeys :: "(bytes, bytes list) dict"
  po_unknown :: "(bytes, bytes) dict"
  po_version :: int

definition psbt_output_new :: "int \<Rightarrow> PartiallySignedOutput" where
  "psbt_output_new version =
     \<lparr>po_redeem_script = [], po_witness_script = [], po_hd_keypaths = [], po_amount = None, po_script = [],
      po_tap_internal_key = [], po_tap_tree = [], po_tap_bip32_paths = [],
      po_musig2_participant_pubkeys = [], po_unknown = [], po_version = version\<rparr>"

definition psbt_output_set_null :: "PartiallySignedOutput \<Rightarrow> PartiallySignedOutput" where
  "psbt_output_set_null self = self
     \<lparr>po_redeem_script := [], po_witness_script := [], po_hd_keypaths := [], po_tap_internal_key := [],
      po_tap_tree := [], po_tap_bip32_paths := [], po_amount := None, po_script := [],
      po_musig2_participant_pubkeys := [], po_unknown := []\<rparr>"

section \<open>The fields of the read loop\<close>

definition out_redeem_script :: "bytes \<Rightarrow> bytes set \<Rightarrow> PartiallySignedOutput \<Rightarrow> PartiallySignedOutput reader" where
  "out_redeem_script key key_lookup self =
     kv_field (check_single ''Duplicate key, output redeemScript already provided''
         ''Output redeemScript key is more than one byte type'' key key_lookup)
       (\<lambda>v. Inr (self\<lparr>po_redeem_script := v\<rparr>))"

definition out_witness_script :: "bytes \<Rightarrow> bytes set \<Rightarrow> PartiallySignedOutput \<Rightarrow> PartiallySignedOutput reader" where
  "out_witness_script key key_lookup self =
     kv_field (check_single ''Duplicate key, output witnessScript already provided''
         ''Output witnessScript key is more than one byte type'' key key_lookup)
       (\<lambda>v. Inr (self\<lparr>po_witness_script := v\<rparr>))"

definition out_bip32_derivation :: "bytes \<Rightarrow> bytes set \<Rightarrow> PartiallySignedOutput \<Rightarrow> PartiallySignedOutput reader" where
  "out_bip32_derivation key key_lookup self =
     rd_bind (DeserializeHDKeypath key (po_hd_keypaths self) [34, 66])
       (\<lambda>d. rd_ret (self\<lparr>po_hd_keypaths := d\<rparr>))"

definition out_amount :: "bytes \<Rightarrow> bytes set \<Rightarrow> PartiallySignedOutput \<Rightarrow> PartiallySignedOutput reader" where
  "out_amount key key_lookup self =
     kv_field (check_v2 (po_version self) ''PSBT_OUT_AMOUNT''
         (check_single ''Duplicate key, output amount already provided''
           ''Output amount key is more than one byte type'' key key_lookup))
       (\<lambda>v. if length v \<noteq> 8 then Inl (PSBTSerializationError ''Output amount is not 8 bytes'')
          else res_bind (unpack_les 8 v) (\<lambda>x. Inr (self\<lparr>po_amount := Some x\<rparr>)))"

definition out_script :: "bytes \<Rightarrow> bytes set \<Rightarrow> PartiallySignedOutput \<Rightarrow> PartiallySignedOutput reader" where
  "out_script key key_lookup self =
     kv_field (check_v2 (po_version self) ''PSBT_OUT_SCRIPT''
         (check_single ''Duplicate key, output script already provided''
           ''Output script key is more than one byte type'' key key_lookup))
       (\<lambda>v. Inr (self\<lparr>po_script := v\<rparr>))"

definition out_tap_internal_key :: "bytes \<Rightarrow> bytes set \<Rightarrow> PartiallySignedOutput \<Rightarrow> PartiallySignedOutput reader" where
  "out_tap_internal_key key key_lookup self =
     kv_field (check_single ''Duplicate key, output Taproot internal key already provided''
         ''Output Taproot internal key key is more than one byte type'' key key_lookup)
       (\<lambda>v. if length v \<noteq> 32 then Inl (PSBTSerializationError ''Output Taproot internal key is not 32 bytes'')
          else Inr (self\<lparr>po_tap_internal_key := v\<rparr>))"

definition out_tap_tree :: "bytes \<Rightarrow> bytes set \<Rightarrow> PartiallySignedOutput \<Rightarrow> PartiallySignedOutput reader" where
  "out_tap_tree key key_lookup self =
     kv_field (check_single ''Duplicate key, output Taproot tree already provided''
         ''Output Taproot tree key is more than one byte type'' key key_lookup)
       (\<lambda>v. Inr (self\<lparr>po_tap_tree := v\<rparr>))"

definition out_tap_bip32_derivation :: "bytes \<Rightarrow> bytes set \<Rightarrow> PartiallySignedOutput \<Rightarrow> PartiallySignedOutput reader" where
  "out_tap_bip32_derivation key key_lookup self =
     (let xonly = py_slice 1 33 key in
      kv_field (check_keyed ''Duplicate key, output Taproot BIP 32 keypath already provided''
          ''Output Taproot BIP 32 keypath key is not 33 bytes'' [33] key key_lookup)
        (\<lambda>value. res_bind (deser_tap_keypath value) (\<lambda>p.
           Inr (self\<lparr>po_tap_bip32_paths := AList.update xonly p (po_tap_bip32_paths self)\<rparr>))))"

definition out_musig2_participant_pubkeys ::
    "bytes \<Rightarrow> bytes set \<Rightarrow> PartiallySignedOutput \<Rightarrow> PartiallySignedOutput reader" where
  "out_musig2_participant_pubkeys key key_lookup self =
     kv_field (check_keyed ''Duplicate key, output Musig2 participant pubkeys already provided''
         ''Output Musig2 aggregate compressed pubkey is not 33 bytes'' [1 + 33] key key_lookup)
       (\<lambda>v. res_bind (deser_participants v) (\<lambda>pubkeys.
          Inr (self\<lparr>po_musig2_participant_pubkeys :=
            AList.update (drop 1 key) pubkeys (po_musig2_participant_pubkeys self)\<rparr>)))"

definition out_unknown :: "bytes \<Rightarrow> bytes set \<Rightarrow> PartiallySignedOutput \<Rightarrow> PartiallySignedOutput reader" where
  "out_unknown key key_lookup self =
     kv_field
       (if dict_has (po_unknown self) key
        then Inl (PSBTSerializationError ''Duplicate key, key for unknown value already provided'')
        else Inr ())
       (\<lambda>v. Inr (self\<lparr>po_unknown := AList.update key v (po_unknown self)\<rparr>))"

definition out_field :: "bytes \<Rightarrow> bytes set \<Rightarrow> PartiallySignedOutput \<Rightarrow> PartiallySignedOutput reader" where
  "out_field key key_lookup self =
     rd_bind (rd_lift (key_type_of key)) (\<lambda>key_type.
     if key_type = 0x00 then out_redeem_script key key_lookup self
     else if key_type = 0x01 then out_witness_script key key_lookup self
     else if key_type = 0x02 then out_bip32_derivation key key_lookup self
     else if key_type = 0x03 then out_amount key key_lookup self
     else if key_type = 0x04 then out_script key key_lookup self
     else if key_type = 0x05 then out_tap_internal_key key key_lookup self
     else if key_type = 0x06 then out_tap_tree key key_lookup self
     else if key_type = 0x07 then out_tap_bip32_derivation key key_lookup self
     else if key_type = 0x08 then out_musig2_participant_pubkeys key key_lookup self
     else out_unknown key key_lookup self)"

definition out_required :: "PartiallySignedOutput \<Rightarrow> unit result" where
  "out_required self =
     (if 2 \<le> po_version self then
        if po_amount self = None then Inl (PSBTSerializationError ''PSBT_OUTPUT_AMOUNT is required in PSBTv2'')
        else if length (po_script self) = 0
        then Inl (PSBTSerializationError ''PSBT_OUTPUT_SCRIPT is required in PSBTv2'')
        else Inr ()
      else Inr ())"

definition psbt_output_deserialize :: "PartiallySignedOutput \<Rightarrow> PartiallySignedOutput reader" where
  "psbt_output_deserialize self =
     rd_bind (kv_run out_field {} self) (\<lambda>self.
     rd_bind (rd_lift (out_required self)) (\<lambda>_. rd_ret self))"

section \<open>The writer\<close>

definition psbt_output_serialize :: "(bytes set \<Rightarrow> bytes list) \<Rightarrow> PartiallySignedOutput \<Rightarrow> bytes result" where
  "psbt_output_serialize it self = res_concat (
     ser_unless_empty 0x00 (po_redeem_script self)
     @ ser_unless_empty 0x01 (po_witness_script self)
     @ [res_bind (ser_compact_size 0x02) (SerializeHDKeypath (po_hd_keypaths self))]
     @ (if 2 \<le> po_version self
        then ser_option 0x03 (pack_les 8) (po_amount self) @ ser_unless_empty 0x04 (po_script self)
        else [])
     @ ser_unless_empty 0x05 (po_tap_internal_key self)
     @ ser_unless_empty 0x06 (po_tap_tree self)
     @ map (\<lambda>(xonly, p). ser_typed 0x07 xonly (ser_tap_keypath it p)) (po_tap_bip32_paths self)
     @ map (\<lambda>(pk, pubkeys). ser_typed 0x08 pk (Inr (concat pubkeys))) (po_musig2_participant_pubkeys self)
     @ map (\<lambda>(key, v). ser_pair (Inr key) (Inr v)) (sorted_items (po_unknown self))
     @ [Inr [0]])"

definition get_txout :: "PartiallySignedOutput \<Rightarrow> CTxOut result" where
  "get_txout self =
     (case po_amount self of
        None \<Rightarrow> Inl AssertionErr
      | Some amount \<Rightarrow> if length (po_script self) = 0 then Inl AssertionErr
          else Inr (txout_new amount (po_script self)))"

section \<open>The handler\<close>

lemmas out_fields = out_redeem_script_def out_witness_script_def out_bip32_derivation_def out_amount_def
  out_script_def out_tap_internal_key_def out_tap_tree_def out_tap_bip32_derivation_def
  out_musig2_participant_pubkeys_def out_unknown_def

lemma consumes_out_fields:
  "consumes (out_redeem_script key L m)" "consumes (out_witness_script key L m)"
  "consumes (out_bip32_derivation key L m)" "consumes (out_amount key L m)" "consumes (out_script key L m)"
  "consumes (out_tap_internal_key key L m)" "consumes (out_tap_tree key L m)"
  "consumes (out_tap_bip32_derivation key L m)" "consumes (out_musig2_participant_pubkeys key L m)"
  "consumes (out_unknown key L m)"
  unfolding out_fields Let_def
  by (intro consumes_intros; simp)+

interpretation output_map: kv_handler out_field
proof unfold_locales
  fix key L m
  show "consumes (out_field key L m)"
    unfolding out_field_def
    by (intro consumes_bind consumes_lift consumes_if consumes_out_fields) simp
qed

lemmas out_field_simps = out_field_def rd_bind_def key_type_of_typed kv_field_value check_single_def
  check_keyed_def check_v2_def out_fields

section \<open>Writing and reading back\<close>

definition out_known_types :: "int set" where
  "out_known_types = {0x00, 0x01, 0x02, 0x03, 0x04, 0x05, 0x06, 0x07, 0x08}"

text \<open>The outputs the format can hold.\<close>

definition psbt_output_ok :: "PartiallySignedOutput \<Rightarrow> bool" where
  "psbt_output_ok m \<longleftrightarrow>
     string_ok (po_redeem_script m) \<and> string_ok (po_witness_script m)
     \<and> hd_keypaths_ok [34, 66] (po_hd_keypaths m)
     \<and> (2 \<le> po_version m \<longrightarrow> po_amount m \<noteq> None \<and> pred_option i64_ok (po_amount m)
          \<and> po_script m \<noteq> [] \<and> string_ok (po_script m))
     \<and> length (po_tap_internal_key m) \<in> {0, 32} \<and> string_ok (po_tap_tree m)
     \<and> tap_keypaths_ok (po_tap_bip32_paths m) \<and> participants_ok (po_musig2_participant_pubkeys m)
     \<and> unknown_ok out_known_types (po_unknown m)"

text \<open>What reading back gives: sorted dictionaries, and no fields of version 2 in an older output.\<close>

definition psbt_output_normal :: "PartiallySignedOutput \<Rightarrow> PartiallySignedOutput" where
  "psbt_output_normal m = m
     \<lparr>po_hd_keypaths := sorted_items (po_hd_keypaths m), po_unknown := sorted_items (po_unknown m),
      po_amount := (if 2 \<le> po_version m then po_amount m else None),
      po_script := (if 2 \<le> po_version m then po_script m else [])\<rparr>"

lemma out_read_single:
  assumes "string_ok v"
  shows "[0] \<notin> L \<Longrightarrow> out_field [0] L m (str.encoding v @ f) = (Inr (m\<lparr>po_redeem_script := v\<rparr>), f)"
    and "[1] \<notin> L \<Longrightarrow> out_field [1] L m (str.encoding v @ f) = (Inr (m\<lparr>po_witness_script := v\<rparr>), f)"
    and "[4] \<notin> L \<Longrightarrow> po_version m \<noteq> 0 \<Longrightarrow>
      out_field [4] L m (str.encoding v @ f) = (Inr (m\<lparr>po_script := v\<rparr>), f)"
    and "[5] \<notin> L \<Longrightarrow> length v = 32 \<Longrightarrow>
      out_field [5] L m (str.encoding v @ f) = (Inr (m\<lparr>po_tap_internal_key := v\<rparr>), f)"
    and "[6] \<notin> L \<Longrightarrow> out_field [6] L m (str.encoding v @ f) = (Inr (m\<lparr>po_tap_tree := v\<rparr>), f)"
  using assms by (auto simp: out_field_simps)

lemma out_read_amount:
  assumes "i64_ok x" and "[3] \<notin> L" and "po_version m \<noteq> 0"
  shows "out_field [3] L m (str.encoding (le_bytes 8 (nat (x mod 256 ^ 8))) @ f) = (Inr (m\<lparr>po_amount := Some x\<rparr>), f)"
proof -
  have "unpack_les 8 (le_bytes 8 (nat (x mod 256 ^ 8))) = Inr x" "string_ok (le_bytes 8 (nat (x mod 256 ^ 8)))"
    using assms(1) unpack_pack_les [of 8 x] by (simp_all add: i64_ok_def string_ok_def del: le_bytes.simps)
  with assms(2, 3) show ?thesis by (simp add: out_field_simps del: le_bytes.simps)
qed

lemma out_read_items:
  shows "length k = 33 \<or> length k = 65 \<Longrightarrow> string_ok b \<Longrightarrow> keyorigin_deserialize b = Inr ko \<Longrightarrow> \<not> dict_has d k \<Longrightarrow>
      out_field (2 # k) L (m\<lparr>po_hd_keypaths := d\<rparr>) (str.encoding b @ f) = (Inr (m\<lparr>po_hd_keypaths := d @ [(k, ko)]\<rparr>), f)"
    and "length x = 32 \<Longrightarrow> string_ok b \<Longrightarrow> deser_tap_keypath b = Inr p \<Longrightarrow> \<not> dict_has e x \<Longrightarrow> 7 # x \<notin> L \<Longrightarrow>
      out_field (7 # x) L (m\<lparr>po_tap_bip32_paths := e\<rparr>) (str.encoding b @ f) = (Inr (m\<lparr>po_tap_bip32_paths := e @ [(x, p)]\<rparr>), f)"
    and "length x = 33 \<Longrightarrow> string_ok b \<Longrightarrow> deser_participants b = Inr ps \<Longrightarrow> \<not> dict_has g x \<Longrightarrow> 8 # x \<notin> L \<Longrightarrow>
      out_field (8 # x) L (m\<lparr>po_musig2_participant_pubkeys := g\<rparr>) (str.encoding b @ f)
        = (Inr (m\<lparr>po_musig2_participant_pubkeys := g @ [(x, ps)]\<rparr>), f)"
    and "string_ok v \<Longrightarrow> key_type_of k = Inr t \<Longrightarrow> t \<notin> out_known_types \<Longrightarrow> \<not> dict_has u k \<Longrightarrow>
      out_field k L (m\<lparr>po_unknown := u\<rparr>) (str.encoding v @ f) = (Inr (m\<lparr>po_unknown := u @ [(k, v)]\<rparr>), f)"
  by (auto simp: out_field_simps DeserializeHDKeypath_def update_fresh py_slice_def out_known_types_def)

abbreviation out_chunk where "out_chunk \<equiv> kv_handler.chunk out_field"

lemmas out_chunk_append = output_map.chunk_append
lemmas out_chunk_Nil = output_map.chunk_Nil

lemma out_chunk_once:
  shows "0x00 \<notin> T \<Longrightarrow> string_ok v \<Longrightarrow> po_redeem_script m = [] \<Longrightarrow>
      out_chunk T m (ser_unless_empty 0x00 v) (insert 0x00 T) (m\<lparr>po_redeem_script := v\<rparr>)"
    and "0x01 \<notin> T \<Longrightarrow> string_ok v \<Longrightarrow> po_witness_script m = [] \<Longrightarrow>
      out_chunk T m (ser_unless_empty 0x01 v) (insert 0x01 T) (m\<lparr>po_witness_script := v\<rparr>)"
    and "0x04 \<notin> T \<Longrightarrow> string_ok v \<Longrightarrow> po_version m \<noteq> 0 \<Longrightarrow> po_script m = [] \<Longrightarrow>
      out_chunk T m (ser_unless_empty 0x04 v) (insert 0x04 T) (m\<lparr>po_script := v\<rparr>)"
    and "0x05 \<notin> T \<Longrightarrow> length v \<in> {0, 32} \<Longrightarrow> po_tap_internal_key m = [] \<Longrightarrow>
      out_chunk T m (ser_unless_empty 0x05 v) (insert 0x05 T) (m\<lparr>po_tap_internal_key := v\<rparr>)"
    and "0x06 \<notin> T \<Longrightarrow> string_ok v \<Longrightarrow> po_tap_tree m = [] \<Longrightarrow>
      out_chunk T m (ser_unless_empty 0x06 v) (insert 0x06 T) (m\<lparr>po_tap_tree := v\<rparr>)"
  by (rule output_map.chunk_unless_empty; force simp: out_read_single string_ok_def)+

lemma out_chunk_amount:
  assumes "0x03 \<notin> T" and "pred_option i64_ok x" and "po_version m \<noteq> 0" and "po_amount m = None"
  shows "out_chunk T m (ser_option 0x03 (pack_les 8) x) (insert 0x03 T) (m\<lparr>po_amount := x\<rparr>)"
proof (rule output_map.chunk_option)
  fix y assume "x = Some y"
  then have y: "i64_ok y" using assms(2) by simp
  then have "pack_les 8 y = Inr (le_bytes 8 (nat (y mod 256 ^ 8)))" by (simp add: i64_ok_def del: le_bytes.simps)
  then show "\<exists>b. pack_les 8 y = Inr b \<and> string_ok b
      \<and> (\<forall>L f. [3] \<notin> L \<longrightarrow> out_field [3] L m (str.encoding b @ f) = (Inr (m\<lparr>po_amount := x\<rparr>), f))"
    using out_read_amount [OF y] assms(3) \<open>x = Some y\<close> by (auto simp: string_ok_def simp del: le_bytes.simps)
qed (use assms in simp_all)

lemma out_chunk_keypaths:
  assumes "0x02 \<notin> T" and ok: "hd_keypaths_ok [34, 66] d" and "po_hd_keypaths m = []"
  shows "out_chunk T m [res_bind (ser_compact_size 0x02) (SerializeHDKeypath d)] (insert 0x02 T)
    (m\<lparr>po_hd_keypaths := sorted_items d\<rparr>)"
proof -
  have "out_chunk T (m\<lparr>po_hd_keypaths := []\<rparr>) (map (\<lambda>(k, ko). ser_typed 0x02 k (keyorigin_serialize ko)) (sorted_items d))
      (insert 0x02 T) (m\<lparr>po_hd_keypaths := sorted_items d\<rparr>)"
  proof (rule output_map.chunk_dict)
    fix k v L and d' :: "(bytes, KeyOriginInfo) dict" assume a: "(k, v) \<in> set (sorted_items d)" "\<not> dict_has d' k"
    have "(length k = 33 \<or> length k = 65) \<and> keyorigin_ok v \<and> length (ko_path v) < 2 ^ 60"
      using ok a(1) by (auto simp: hd_keypaths_ok_def list_all_iff)
    with keyorigin_bytes [of v] obtain b where "keyorigin_serialize v = Inr b" "string_ok b"
      "keyorigin_deserialize b = Inr v" "length k = 33 \<or> length k = 65" by blast
    then show "string_ok (0x02 # k) \<and> (\<exists>b. keyorigin_serialize v = Inr b \<and> string_ok b
        \<and> (\<forall>f. out_field (0x02 # k) L (m\<lparr>po_hd_keypaths := d'\<rparr>) (str.encoding b @ f)
             = (Inr (m\<lparr>po_hd_keypaths := d' @ [(k, v)]\<rparr>), f)))"
      using out_read_items(1) [OF _ _ _ a(2)] by (auto simp: string_ok_def)
  qed (use assms in \<open>auto simp: hd_keypaths_ok_def\<close>)
  moreover have "m\<lparr>po_hd_keypaths := []\<rparr> = m" using assms(3) by simp
  moreover have "ser_compact_size 2 = Inr [2]" by (simp add: ser_compact_size_def)
  ultimately show ?thesis using ser_keypath_typed [of 2 2 d] by (simp add: output_map.chunk_def)
qed

lemma out_chunk_tap_keypaths:
  assumes "0x07 \<notin> T" and it: "iteration_ok it" and ok: "tap_keypaths_ok d" and "po_tap_bip32_paths m = []"
  shows "out_chunk T m (map (\<lambda>(xonly, p). ser_typed 0x07 xonly (ser_tap_keypath it p)) d) (insert 0x07 T)
    (m\<lparr>po_tap_bip32_paths := d\<rparr>)"
proof -
  have "out_chunk T (m\<lparr>po_tap_bip32_paths := []\<rparr>) (map (\<lambda>(xonly, p). ser_typed 0x07 xonly (ser_tap_keypath it p)) d)
      (insert 0x07 T) (m\<lparr>po_tap_bip32_paths := d\<rparr>)"
  proof (rule output_map.chunk_dict)
    fix k v L and d' :: "(bytes, bytes set \<times> KeyOriginInfo) dict"
    assume a: "(k, v) \<in> set d" "0x07 # k \<notin> L" "\<not> dict_has d' k"
    obtain hs ko where v: "v = (hs, ko)" by (cases v)
    have o: "length k = 32 \<and> finite hs \<and> (\<forall>x\<in>hs. length x = 32) \<and> card hs < 2 ^ 50
          \<and> keyorigin_ok ko \<and> length (ko_path ko) < 2 ^ 60"
      using ok a(1) by (auto simp: tap_keypaths_ok_def list_all_iff v)
    then obtain b where "ser_tap_keypath it v = Inr b" "string_ok b" "deser_tap_keypath b = Inr v"
      using tap_keypath_round_trip [OF it, of hs ko] by (auto simp: v)
    then show "string_ok (0x07 # k) \<and> (\<exists>b. ser_tap_keypath it v = Inr b \<and> string_ok b
        \<and> (\<forall>f. out_field (0x07 # k) L (m\<lparr>po_tap_bip32_paths := d'\<rparr>) (str.encoding b @ f)
             = (Inr (m\<lparr>po_tap_bip32_paths := d' @ [(k, v)]\<rparr>), f)))"
      using out_read_items(2) [OF _ _ _ a(3) a(2)] o by (auto simp: string_ok_def)
  qed (use assms in \<open>auto simp: tap_keypaths_ok_def\<close>)
  moreover have "m\<lparr>po_tap_bip32_paths := []\<rparr> = m" using assms(4) by simp
  ultimately show ?thesis by simp
qed

lemma out_chunk_participants:
  assumes "0x08 \<notin> T" and ok: "participants_ok d" and "po_musig2_participant_pubkeys m = []"
  shows "out_chunk T m (map (\<lambda>(pk, pubkeys). ser_typed 0x08 pk (Inr (concat pubkeys))) d) (insert 0x08 T)
    (m\<lparr>po_musig2_participant_pubkeys := d\<rparr>)"
proof -
  have "out_chunk T (m\<lparr>po_musig2_participant_pubkeys := []\<rparr>) (map (\<lambda>(pk, pubkeys). ser_typed 0x08 pk (Inr (concat pubkeys))) d)
      (insert 0x08 T) (m\<lparr>po_musig2_participant_pubkeys := d\<rparr>)"
  proof (rule output_map.chunk_dict)
    fix k v L and d' :: "(bytes, bytes list) dict" assume a: "(k, v) \<in> set d" "0x08 # k \<notin> L" "\<not> dict_has d' k"
    have o: "length k = 33 \<and> v \<noteq> [] \<and> list_all (\<lambda>p. length p = 33) v \<and> length v < 2 ^ 50"
      using ok a(1) by (auto simp: participants_ok_def list_all_iff)
    with participants_round_trip [of v] out_read_items(3) [OF _ _ _ a(3) a(2)]
    show "string_ok (0x08 # k) \<and> (\<exists>b. Inr (concat v) = Inr b \<and> string_ok b
        \<and> (\<forall>f. out_field (0x08 # k) L (m\<lparr>po_musig2_participant_pubkeys := d'\<rparr>) (str.encoding b @ f)
             = (Inr (m\<lparr>po_musig2_participant_pubkeys := d' @ [(k, v)]\<rparr>), f)))"
      by (auto simp: string_ok_def)
  qed (use assms in \<open>auto simp: participants_ok_def\<close>)
  moreover have "m\<lparr>po_musig2_participant_pubkeys := []\<rparr> = m" using assms(3) by simp
  ultimately show ?thesis by simp
qed

lemma out_chunk_unknown:
  assumes ok: "unknown_ok out_known_types d" and "po_unknown m = []"
  shows "out_chunk T m (map (\<lambda>(key, v). ser_pair (Inr key) (Inr v)) (sorted_items d)) UNIV
    (m\<lparr>po_unknown := sorted_items d\<rparr>)"
proof -
  have "out_chunk T (m\<lparr>po_unknown := []\<rparr>) (map (\<lambda>(key, v). ser_pair (Inr key) (Inr v)) (sorted_items d)) UNIV
      (m\<lparr>po_unknown := sorted_items d\<rparr>)"
    using unknown_okD [OF ok] out_read_items(4) by (intro output_map.chunk_pairs) (assumption, blast+)
  moreover have "m\<lparr>po_unknown := []\<rparr> = m" using assms(2) by simp
  ultimately show ?thesis by simp
qed

lemma psbt_output_okD:
  assumes "psbt_output_ok m"
  shows "string_ok (po_redeem_script m)" "string_ok (po_witness_script m)"
    "hd_keypaths_ok [34, 66] (po_hd_keypaths m)" "length (po_tap_internal_key m) \<in> {0, 32}"
    "string_ok (po_tap_tree m)" "tap_keypaths_ok (po_tap_bip32_paths m)"
    "participants_ok (po_musig2_participant_pubkeys m)" "unknown_ok out_known_types (po_unknown m)"
    "2 \<le> po_version m \<Longrightarrow> po_amount m \<noteq> None" "2 \<le> po_version m \<Longrightarrow> pred_option i64_ok (po_amount m)"
    "2 \<le> po_version m \<Longrightarrow> po_script m \<noteq> []" "2 \<le> po_version m \<Longrightarrow> string_ok (po_script m)"
  using assms unfolding psbt_output_ok_def by blast+

lemma out_chunk_v2:
  assumes "psbt_output_ok x" and "po_version m = po_version x" and "{0x03, 0x04} \<inter> T = {}"
    and "po_amount m = None" "po_script m = []"
  shows "out_chunk T m
    (if 2 \<le> po_version x then ser_option 0x03 (pack_les 8) (po_amount x) @ ser_unless_empty 0x04 (po_script x) else [])
    (insert 0x04 (insert 0x03 T))
    (m\<lparr>po_amount := if 2 \<le> po_version x then po_amount x else None,
       po_script := if 2 \<le> po_version x then po_script x else []\<rparr>)"
proof (cases "2 \<le> po_version x")
  case True
  note fields = out_chunk_append [OF out_chunk_amount out_chunk_once(3)]
  show ?thesis
    unfolding if_P [OF True]
    by (rule fields; (rule psbt_output_okD(10,12) [OF assms(1) True] | use assms True in \<open>simp; fail\<close>))
next
  case False
  moreover have "m\<lparr>po_amount := None, po_script := []\<rparr> = m" using assms(4, 5) by simp
  ultimately show ?thesis using out_chunk_Nil [of T "insert 0x04 (insert 0x03 T)" m] by auto
qed

lemmas out_chunk_all_fields =
  out_chunk_append [OF out_chunk_once(1) out_chunk_append [OF out_chunk_once(2)
  out_chunk_append [OF out_chunk_keypaths out_chunk_append [OF out_chunk_v2
  out_chunk_append [OF out_chunk_once(4) out_chunk_append [OF out_chunk_once(5)
  out_chunk_append [OF out_chunk_tap_keypaths out_chunk_append [OF out_chunk_participants out_chunk_unknown]]]]]]]]

lemma psbt_output_read_back:
  assumes it: "iteration_ok it" and ok: "psbt_output_ok x"
  shows "\<exists>bs. psbt_output_serialize it x = Inr bs
    \<and> (\<forall>f. psbt_output_deserialize (psbt_output_new (po_version x)) (bs @ f) = (Inr (psbt_output_normal x), f))"
proof -
  let ?ms = "ser_unless_empty 0x00 (po_redeem_script x) @ ser_unless_empty 0x01 (po_witness_script x)
     @ [res_bind (ser_compact_size 0x02) (SerializeHDKeypath (po_hd_keypaths x))]
     @ (if 2 \<le> po_version x
        then ser_option 0x03 (pack_les 8) (po_amount x) @ ser_unless_empty 0x04 (po_script x) else [])
     @ ser_unless_empty 0x05 (po_tap_internal_key x) @ ser_unless_empty 0x06 (po_tap_tree x)
     @ map (\<lambda>(xonly, p). ser_typed 0x07 xonly (ser_tap_keypath it p)) (po_tap_bip32_paths x)
     @ map (\<lambda>(pk, pubkeys). ser_typed 0x08 pk (Inr (concat pubkeys))) (po_musig2_participant_pubkeys x)
     @ map (\<lambda>(key, v). ser_pair (Inr key) (Inr v)) (sorted_items (po_unknown x))"
  have "\<exists>m'. out_chunk {} (psbt_output_new (po_version x)) ?ms UNIV m' \<and> m' = psbt_output_normal x"
    by (rule exI, rule conjI, rule out_chunk_all_fields;
        (rule psbt_output_okD [OF ok] ok it | simp add: psbt_output_new_def psbt_output_normal_def))
  then have "out_chunk {} (psbt_output_new (po_version x)) ?ms UNIV (psbt_output_normal x)" by simp
  from output_map.chunk_read [OF this] obtain bs where "res_concat (?ms @ [Inr [0]]) = Inr bs"
    "\<And>f. kv_run out_field {} (psbt_output_new (po_version x)) (bs @ f) = (Inr (psbt_output_normal x), f)"
    by blast
  moreover have "out_required (psbt_output_normal x) = Inr ()"
    using psbt_output_okD(9,11) [OF ok] by (auto simp: out_required_def psbt_output_normal_def)
  ultimately show ?thesis
    by (intro exI [of _ bs]) (simp add: psbt_output_serialize_def psbt_output_deserialize_def rd_bind_def)
qed

section \<open>Properties\<close>

text \<open>
  PSBT outputs round trip. An output whose fields fit the format is written without an error, and
  a fresh output of the same version reads back exactly the bytes written and becomes the output in normal
  form: key paths and unknown pairs sorted, amount and script only from version 2 on.
\<close>

theorem psbt_output_round_trip:
  assumes "iteration_ok it" and "psbt_output_ok x"
  shows "\<exists>bs. psbt_output_serialize it x = Inr bs
    \<and> (\<forall>f. psbt_output_deserialize (psbt_output_new (po_version x)) (bs @ f) = (Inr (psbt_output_normal x), f))"
  by (rule psbt_output_read_back [OF assms])

definition example_output :: PartiallySignedOutput where
  "example_output = (psbt_output_new 2)\<lparr>po_amount := Some 1000, po_script := [0x51], po_redeem_script := [1, 2],
     po_hd_keypaths := [(replicate 33 2, \<lparr>ko_fingerprint = [1, 2, 3, 4], ko_path = [84, 0]\<rparr>)],
     po_tap_bip32_paths := [(replicate 32 6, ({replicate 32 1}, \<lparr>ko_fingerprint = [1, 2, 3, 4], ko_path = [86]\<rparr>))],
     po_tap_internal_key := replicate 32 6, po_unknown := [([0xfc, 1], [2, 3])]\<rparr>"

lemma example_output_ok: "psbt_output_ok example_output"
  unfolding psbt_output_ok_def
  by (intro conjI; simp add: example_output_def psbt_output_new_def i64_ok_def string_ok_def
      dict_ok_def hd_keypaths_ok_def keyorigin_ok_def u32_ok_def tap_keypaths_ok_def participants_ok_def unknown_ok_def
      pair_ok_def key_type_of_typed out_known_types_def result_ok_def)

theorem psbt_output_round_trip_witness:
  "\<exists>bs. psbt_output_serialize sorted_list_of_set example_output = Inr bs
    \<and> psbt_output_deserialize (psbt_output_new 2) (bs @ [1]) = (Inr (psbt_output_normal example_output), [1])"
  using psbt_output_round_trip [OF iteration_ok_sorted example_output_ok]
  by (auto simp: example_output_def psbt_output_new_def)

text \<open>What an accepted pair does to the output: one rule for each branch of the loop.\<close>

inductive out_effect :: "bytes set \<Rightarrow> bytes \<Rightarrow> PartiallySignedOutput \<Rightarrow> PartiallySignedOutput \<Rightarrow> bool" where
  redeem: "k \<notin> L \<Longrightarrow> out_effect L k m (m\<lparr>po_redeem_script := v\<rparr>)"
| witness: "k \<notin> L \<Longrightarrow> out_effect L k m (m\<lparr>po_witness_script := v\<rparr>)"
| keypath: "\<not> dict_has (po_hd_keypaths m) (drop 1 k) \<Longrightarrow> length k \<in> {34, 66} \<Longrightarrow> key_type_of k = Inr 0x02 \<Longrightarrow>
    out_effect L k m (m\<lparr>po_hd_keypaths := AList.update (drop 1 k) origin (po_hd_keypaths m)\<rparr>)"
| amount: "k \<notin> L \<Longrightarrow> po_version m \<noteq> 0 \<Longrightarrow> - (2 ^ 63) \<le> x \<Longrightarrow> x < 2 ^ 63 \<Longrightarrow> out_effect L k m (m\<lparr>po_amount := Some x\<rparr>)"
| script: "k \<notin> L \<Longrightarrow> po_version m \<noteq> 0 \<Longrightarrow> out_effect L k m (m\<lparr>po_script := v\<rparr>)"
| internal: "k \<notin> L \<Longrightarrow> length v = 32 \<Longrightarrow> out_effect L k m (m\<lparr>po_tap_internal_key := v\<rparr>)"
| tree: "k \<notin> L \<Longrightarrow> out_effect L k m (m\<lparr>po_tap_tree := v\<rparr>)"
| tap_keypath: "k \<notin> L \<Longrightarrow> length k = 33 \<Longrightarrow>
    out_effect L k m (m\<lparr>po_tap_bip32_paths := AList.update (py_slice 1 33 k) p (po_tap_bip32_paths m)\<rparr>)"
| participants: "k \<notin> L \<Longrightarrow> length k = 34 \<Longrightarrow> ps \<noteq> [] \<Longrightarrow>
    out_effect L k m (m\<lparr>po_musig2_participant_pubkeys := AList.update (drop 1 k) ps (po_musig2_participant_pubkeys m)\<rparr>)"
| unknown: "\<not> dict_has (po_unknown m) k \<Longrightarrow> key_type_of k = Inr t \<Longrightarrow> t \<notin> out_known_types \<Longrightarrow>
    out_effect L k m (m\<lparr>po_unknown := AList.update k v (po_unknown m)\<rparr>)"

lemma unpack_les_bounds: "unpack_les 8 v = Inr x \<Longrightarrow> - (2 ^ 63) \<le> x \<and> x < 2 ^ 63"
proof -
  assume u: "unpack_les 8 v = Inr x"
  then have "length v = 8" by (simp add: unpack_les_def split: if_splits)
  with le_val_less [of v] have "int (le_val v) < 2 ^ 64" by simp
  with u \<open>length v = 8\<close> show ?thesis by (auto simp: unpack_les_def Let_def split: if_splits)
qed

lemma out_field_effect:
  assumes "out_field k L m f = (Inr m', f')"
  shows "out_effect L k m m'"
proof -
  obtain t where t: "key_type_of k = Inr t" using assms by (auto simp: out_field_def rd_bind_eq_Inr)
  show ?thesis
    using assms t unfolding out_field_def out_fields DeserializeHDKeypath_def rd_bind_eq_Inr Let_def
    by (elim exE conjE) (simp only: rd_lift_apply prod.inject t sum.inject rd_bind_eq_Inr split: if_split_asm;
      (elim exE conjE)?; drule kv_field_Inr;
      auto split: if_splits dest!: unpack_les_bounds deser_participants_nonempty
        intro: out_effect.intros simp: t out_known_types_def simp del: One_nat_def)
qed

definition psbt_output_inv :: "PartiallySignedOutput \<Rightarrow> bool" where
  "psbt_output_inv m \<longleftrightarrow>
     dict_ok (po_hd_keypaths m) \<and> list_all (\<lambda>(k, v). length k = 33 \<or> length k = 65) (po_hd_keypaths m)
     \<and> pred_option (\<lambda>x. - (2 ^ 63) \<le> x \<and> x < 2 ^ 63) (po_amount m)
     \<and> length (po_tap_internal_key m) \<in> {0, 32}
     \<and> dict_ok (po_tap_bip32_paths m) \<and> list_all (\<lambda>(k, v). length k = 32) (po_tap_bip32_paths m)
     \<and> dict_ok (po_musig2_participant_pubkeys m)
     \<and> list_all (\<lambda>(k, ps). length k = 33 \<and> ps \<noteq> []) (po_musig2_participant_pubkeys m)
     \<and> dict_ok (po_unknown m)
     \<and> (po_version m = 0 \<longrightarrow> po_amount m = None \<and> po_script m = [])"

lemma out_effect_inv:
  "out_effect L k m m' \<Longrightarrow> psbt_output_inv m \<Longrightarrow> psbt_output_inv m' \<and> po_version m' = po_version m"
  by (induction rule: out_effect.induct) (auto simp: psbt_output_inv_def list_all_update py_slice_def)

definition out_seen :: "bytes set \<Rightarrow> PartiallySignedOutput \<Rightarrow> bool" where
  "out_seen L m \<longleftrightarrow> (\<forall>k\<in>L. \<forall>t. key_type_of k = Inr t \<longrightarrow>
      (t = 0x02 \<longrightarrow> dict_has (po_hd_keypaths m) (drop 1 k))
      \<and> (t \<notin> out_known_types \<longrightarrow> dict_has (po_unknown m) k))"

lemma out_effect_fresh: "out_effect L k m m' \<Longrightarrow> out_seen L m \<Longrightarrow> k \<notin> L"
  by (induction rule: out_effect.induct) (auto simp: out_seen_def)

lemma out_effect_grows:
  "out_effect L k m m' \<Longrightarrow> (dict_has (po_hd_keypaths m) x \<longrightarrow> dict_has (po_hd_keypaths m') x)
     \<and> (dict_has (po_unknown m) x \<longrightarrow> dict_has (po_unknown m') x)"
  by (induction rule: out_effect.induct) (auto simp: dict_has_update)

lemma out_field_records:
  assumes "out_field key L m f = (Inr m', f')" and t: "key_type_of key = Inr t"
  shows "(t = 0x02 \<longrightarrow> dict_has (po_hd_keypaths m') (drop 1 key))
    \<and> (t \<notin> out_known_types \<longrightarrow> dict_has (po_unknown m') key)"
proof (intro conjI impI)
  assume "t = 0x02"
  then have "out_bip32_derivation key L m f = (Inr m', f')" using assms by (simp add: out_field_def rd_bind_def)
  then show "dict_has (po_hd_keypaths m') (drop 1 key)"
    unfolding out_bip32_derivation_def DeserializeHDKeypath_def rd_bind_eq_Inr Let_def
    by (auto dest!: kv_field_Inr simp: dict_has_update split: if_splits)
next
  assume "t \<notin> out_known_types"
  then have "out_unknown key L m f = (Inr m', f')"
    using assms by (simp add: out_field_def rd_bind_def out_known_types_def)
  then show "dict_has (po_unknown m') key"
    unfolding out_unknown_def by (auto dest!: kv_field_Inr simp: dict_has_update)
qed

lemma out_field_seen:
  assumes seen: "out_seen L m" and h: "out_field key L m f = (Inr m', f')"
  shows "out_seen (insert key L) m'"
  unfolding out_seen_def
proof (intro ballI allI impI)
  fix k u assume k: "k \<in> insert key L" and u: "key_type_of k = Inr u"
  show "(u = 0x02 \<longrightarrow> dict_has (po_hd_keypaths m') (drop 1 k)) \<and> (u \<notin> out_known_types \<longrightarrow> dict_has (po_unknown m') k)"
  proof (cases "k = key")
    case True
    with out_field_records [OF h, of u] u show ?thesis by blast
  next
    case False
    with k u seen out_effect_grows [OF out_field_effect [OF h]] show ?thesis unfolding out_seen_def by blast
  qed
qed

lemma out_field_reads:
  "string_ok v \<Longrightarrow> out_field key L m (str.encoding v @ f) = (Inr m', f') \<Longrightarrow> f' = f"
  unfolding out_field_def out_fields DeserializeHDKeypath_def rd_bind_eq_Inr Let_def
  by (elim exE conjE) (simp only: rd_lift_apply prod.inject rd_bind_eq_Inr split: if_split_asm;
    (elim exE conjE)?; hypsubst?; drule (1) kv_field_reads; simp)

interpretation output_strings: kv_strings out_field out_seen
proof unfold_locales
  fix key L m m' and f f' :: bytes
  assume a: "out_seen L m" "out_field key L m f = (Inr m', f')"
  show "key \<notin> L \<and> out_seen (insert key L) m'"
    using out_effect_fresh [OF out_field_effect [OF a(2)] a(1)] out_field_seen [OF a] by blast
qed (rule out_field_reads)

lemma psbt_output_deserialize_inv:
  assumes "psbt_output_deserialize (psbt_output_new v) f = (Inr m, f')"
  shows "psbt_output_inv m \<and> po_version m = v \<and> (2 \<le> v \<longrightarrow> po_amount m \<noteq> None \<and> po_script m \<noteq> [])"
proof -
  have r: "kv_run out_field {} (psbt_output_new v) f = (Inr m, f')" and q: "out_required m = Inr ()"
    using assms by (auto simp: psbt_output_deserialize_def rd_bind_eq_Inr)
  have "psbt_output_inv m \<and> po_version m = v"
  proof (rule output_map.run_invariant [OF _ _ r, where P = "\<lambda>x. psbt_output_inv x \<and> po_version x = v"])
    show "psbt_output_inv (psbt_output_new v) \<and> po_version (psbt_output_new v) = v"
      by (simp add: psbt_output_inv_def psbt_output_new_def dict_ok_def)
  qed (use out_effect_inv [OF out_field_effect] in blast)
  with q show ?thesis by (auto simp: out_required_def split: if_splits)
qed

text \<open>
  what the reader of outputs accepts is well-formed and has no key twice: key paths belong to keys of
  33 or 65 bytes, x-only keys are 32 bytes long, the amount is a signed 64-bit integer; an output of version
  0 has neither amount nor script, and one of version 2 or more has both; and if the stream starts with
  the pairs \<open>ps\<close>, their keys are distinct.
\<close>

theorem psbt_output_reader_sound:
  assumes "psbt_output_deserialize (psbt_output_new v) (concat (map pair_bytes ps) @ f) = (Inr m, f')"
    and "list_all pair_ok ps"
  shows "psbt_output_inv m \<and> po_version m = v \<and> (2 \<le> v \<longrightarrow> po_amount m \<noteq> None \<and> po_script m \<noteq> [])
    \<and> distinct (map fst ps)"
proof -
  obtain m1 f1 where "kv_run out_field {} (psbt_output_new v) (concat (map pair_bytes ps) @ f) = (Inr m1, f1)"
    using assms(1) by (auto simp: psbt_output_deserialize_def rd_bind_eq_Inr)
  then have "distinct (map fst ps)"
    using output_strings.run_distinct [OF _ assms(2), of "{}"] by (simp add: out_seen_def)
  with psbt_output_deserialize_inv [OF assms(1)] show ?thesis by simp
qed

theorem psbt_output_reader_sound_witness:
  "\<exists>m. psbt_output_deserialize (psbt_output_new 0) [1, 0, 2, 7, 8, 1, 1, 1, 9, 0] = (Inr m, [])
     \<and> psbt_output_inv m \<and> distinct (map fst [([0::byte], [7::byte, 8]), ([1], [9])])"
proof -
  let ?ps = "[([0::byte], [7::byte, 8]), ([1], [9])]"
  have e: "concat (map pair_bytes ?ps) @ [0] = [1, 0, 2, 7, 8, 1, 1, 1, 9, 0]"
    by (simp add: pair_bytes_def str.encoding_def ser_string_def ser_compact_size_def res_concat_Cons)
  have "\<exists>m. psbt_output_deserialize (psbt_output_new 0) [1, 0, 2, 7, 8, 1, 1, 1, 9, 0] = (Inr m, [])"
    by (simp add: psbt_output_deserialize_def kv_run_def deser_string_def deser_compact_size_def rd_bind_def
        py_read_def out_field_simps kv_field_def out_required_def psbt_output_new_def)
  then obtain m where m: "psbt_output_deserialize (psbt_output_new 0) (concat (map pair_bytes ?ps) @ [0]) = (Inr m, [])"
    unfolding e by blast
  from psbt_output_reader_sound [OF this] m show ?thesis
    unfolding e by (auto simp: pair_ok_def string_ok_def)
qed

end
