(* ===== verification/Psbt.thy ===== *)
theory Psbt
  imports Psbt_Output
begin

text \<open>
  The class \<open>PSBT\<close> of \<open>hwilib/psbt.py\<close>: the global map, the reader and writer of whole PSBTs, the
  fields of version 2 filled in from the unsigned transaction and back, and the lock time.
\<close>

section \<open>The object\<close>

record PSBT =
  ps_tx :: CTransaction
  ps_inputs :: "PartiallySignedInput list"
  ps_outputs :: "PartiallySignedOutput list"
  ps_unknown :: "(bytes, bytes) dict"
  ps_xpub :: "(bytes, KeyOriginInfo) dict"
  ps_tx_version :: "int option"
  ps_fallback_locktime :: "int option"
  ps_tx_modifiable :: "int option"
  ps_version :: int
  ps_explicit_version :: bool

definition PSBT_new :: "CTransaction option \<Rightarrow> PSBT" where
  "PSBT_new tx =
     \<lparr>ps_tx = (case tx of Some tx \<Rightarrow> tx | None \<Rightarrow> CTransaction_new), ps_inputs = [], ps_outputs = [],
      ps_unknown = [], ps_xpub = [], ps_tx_version = None, ps_fallback_locktime = None,
      ps_tx_modifiable = None, ps_version = 0, ps_explicit_version = False\<rparr>"

text \<open>While the global map is read there are three local variables beside the object.\<close>

record PSBT_loop = PSBT +
  lp_input_count :: "int option"
  lp_output_count :: "int option"
  lp_found_unsigned_tx :: bool

definition psbt_loop_start :: "PSBT \<Rightarrow> PSBT_loop" where
  "psbt_loop_start self = PSBT.extend self
     (PSBT_loop.fields None None False)"

section \<open>The global map\<close>

definition check_global :: "string \<Rightarrow> string \<Rightarrow> bytes \<Rightarrow> bytes set \<Rightarrow> unit result" where
  "check_global dup longer key key_lookup =
     (if key \<in> key_lookup then Inl (PSBTSerializationError dup)
      else if 1 < length key then Inl (PSBTSerializationError longer)
      else Inr ())"

definition gl_unsigned_tx :: "bytes \<Rightarrow> bytes set \<Rightarrow> PSBT_loop \<Rightarrow> PSBT_loop reader" where
  "gl_unsigned_tx key key_lookup self =
     kv_field (check_global ''Duplicate key, unsigned tx already provided''
         ''Global unsigned tx key is more than one byte type'' key key_lookup)
       (\<lambda>v. case tx_deserialize_without_witness v of
          (Inl e, tx_bytes) \<Rightarrow> Inl (PSBTSerializationError ''Global unsigned tx is invalid'')
        | (Inr tx, tx_bytes) \<Rightarrow>
            if 0 < length (take 1 tx_bytes)
            then Inl (PSBTSerializationError ''Global unsigned tx is not serialized without witness'')
            else if list_ex (\<lambda>txin. length (scriptSig txin) \<noteq> 0 \<or> \<not> txwit_is_null (wit tx)) (vin tx)
            then Inl (PSBTSerializationError ''Unsigned tx does not have empty scriptSigs and scriptWitnesses'')
            else Inr (self\<lparr>ps_tx := tx, lp_found_unsigned_tx := True\<rparr>))"

definition gl_xpub :: "bytes \<Rightarrow> bytes set \<Rightarrow> PSBT_loop \<Rightarrow> PSBT_loop reader" where
  "gl_xpub key key_lookup self =
     rd_bind (DeserializeHDKeypath key (ps_xpub self) [79]) (\<lambda>d. rd_ret (self\<lparr>ps_xpub := d\<rparr>))"

definition gl_tx_version :: "bytes \<Rightarrow> bytes set \<Rightarrow> PSBT_loop \<Rightarrow> PSBT_loop reader" where
  "gl_tx_version key key_lookup self =
     kv_field (check_global ''Duplicate key, global transaction version is already provided''
         ''Global transaction version key is more than one byte type'' key key_lookup)
       (\<lambda>v. if length v \<noteq> 4 then Inl (PSBTSerializationError ''Global transaction version is not 4 bytes'')
          else res_bind (unpack_le 4 v) (\<lambda>x. Inr (self\<lparr>ps_tx_version := Some x\<rparr>)))"

definition gl_fallback_locktime :: "bytes \<Rightarrow> bytes set \<Rightarrow> PSBT_loop \<Rightarrow> PSBT_loop reader" where
  "gl_fallback_locktime key key_lookup self =
     kv_field (check_global ''Duplicate key, global fallback locktime is already provided''
         ''Global fallback locktime key is more than one byte type'' key key_lookup)
       (\<lambda>v. if length v \<noteq> 4 then Inl (PSBTSerializationError ''Global fallback locktime is not 4 bytes'')
          else res_bind (unpack_le 4 v) (\<lambda>x. Inr (self\<lparr>ps_fallback_locktime := Some x\<rparr>)))"

text \<open>The two counts are read from the stream itself: the length of the value is read and ignored.\<close>

definition gl_count :: "unit result \<Rightarrow> (int \<Rightarrow> PSBT_loop) \<Rightarrow> PSBT_loop reader" where
  "gl_count check store =
     rd_bind (rd_lift check) (\<lambda>_. rd_bind deser_compact_size (\<lambda>_. rd_bind deser_compact_size (\<lambda>n. rd_ret (store n))))"

definition gl_input_count :: "bytes \<Rightarrow> bytes set \<Rightarrow> PSBT_loop \<Rightarrow> PSBT_loop reader" where
  "gl_input_count key key_lookup self =
     gl_count (check_global ''Duplicate key, global input count is already provided''
         ''Global input count key is more than one byte type'' key key_lookup)
       (\<lambda>n. self\<lparr>lp_input_count := Some n\<rparr>)"

definition gl_output_count :: "bytes \<Rightarrow> bytes set \<Rightarrow> PSBT_loop \<Rightarrow> PSBT_loop reader" where
  "gl_output_count key key_lookup self =
     gl_count (check_global ''Duplicate key, global output count is already provided''
         ''Global output count key is more than one byte type'' key key_lookup)
       (\<lambda>n. self\<lparr>lp_output_count := Some n\<rparr>)"

definition gl_tx_modifiable :: "bytes \<Rightarrow> bytes set \<Rightarrow> PSBT_loop \<Rightarrow> PSBT_loop reader" where
  "gl_tx_modifiable key key_lookup self =
     kv_field (check_global ''Duplicate key, global tx modifiable flags is already provided''
         ''Global tx modifiable flags key is more than one byte type'' key key_lookup)
       (\<lambda>v. if length v \<noteq> 1 then Inl (PSBTSerializationError ''Global tx modifiable flags is not 1 bytes'')
          else res_bind (unpack_le 1 v) (\<lambda>x. Inr (self\<lparr>ps_tx_modifiable := Some x\<rparr>)))"

definition gl_version :: "bytes \<Rightarrow> bytes set \<Rightarrow> PSBT_loop \<Rightarrow> PSBT_loop reader" where
  "gl_version key key_lookup self =
     kv_field (check_global ''Duplicate key, global PSBT version is already provided''
         ''Global PSBT version key is more than one byte type'' key key_lookup)
       (\<lambda>v. if length v \<noteq> 4 then Inl (PSBTSerializationError ''Global PSBT version is not 1 bytes'')
          else res_bind (unpack_le 4 v) (\<lambda>x. Inr (self\<lparr>ps_version := x, ps_explicit_version := True\<rparr>)))"

definition gl_unknown :: "bytes \<Rightarrow> bytes set \<Rightarrow> PSBT_loop \<Rightarrow> PSBT_loop reader" where
  "gl_unknown key key_lookup self =
     kv_field
       (if dict_has (ps_unknown self) key
        then Inl (PSBTSerializationError ''Duplicate key, key for unknown value already provided'')
        else Inr ())
       (\<lambda>v. Inr (self\<lparr>ps_unknown := AList.update key v (ps_unknown self)\<rparr>))"

definition gl_field :: "bytes \<Rightarrow> bytes set \<Rightarrow> PSBT_loop \<Rightarrow> PSBT_loop reader" where
  "gl_field key key_lookup self =
     rd_bind (rd_lift (key_type_of key)) (\<lambda>key_type.
     if key_type = 0x00 then gl_unsigned_tx key key_lookup self
     else if key_type = 0x01 then gl_xpub key key_lookup self
     else if key_type = 0x02 then gl_tx_version key key_lookup self
     else if key_type = 0x03 then gl_fallback_locktime key key_lookup self
     else if key_type = 0x04 then gl_input_count key key_lookup self
     else if key_type = 0x05 then gl_output_count key key_lookup self
     else if key_type = 0x06 then gl_tx_modifiable key key_lookup self
     else if key_type = 0xFB then gl_version key key_lookup self
     else gl_unknown key key_lookup self)"

text \<open>The checks after the loop.\<close>

definition version_constraints :: "PSBT_loop \<Rightarrow> unit result" where
  "version_constraints self =
     (let err = (\<lambda>msg. Inl (PSBTSerializationError msg)) in
      if ps_version self = 0 then
        if \<not> lp_found_unsigned_tx self then err ''No unsigned transaction was provided''
        else if ps_tx_version self \<noteq> None then err ''PSBT_GLOBAL_TX_VERSION is not allowed in PSBTv0''
        else if ps_fallback_locktime self \<noteq> None then err ''PSBT_GLOBAL_FALLBACK_LOCKTIME is not allowed in PSBTv0''
        else if lp_input_count self \<noteq> None then err ''PSBT_GLOBAL_INPUT_COUNT is not allowed in PSBTv0''
        else if lp_output_count self \<noteq> None then err ''PSBT_GLOBAL_OUTPUT_COUNT is not allowed in PSBTv0''
        else if ps_tx_modifiable self \<noteq> None then err ''PSBT_GLOBAL_TX_MODIFIABLE is not allowed in PSBTv0''
        else Inr ()
      else if ps_version self = 1 then err ''There is no PSBT version 1''
      else if 2 \<le> ps_version self then
        if ps_tx_version self = None then err ''PSBT_GLOBAL_TX_VERSION is required in PSBTv2''
        else if lp_input_count self = None then err ''PSBT_GLOBAL_INPUT_COUNT is required in PSBTv2''
        else if lp_output_count self = None then err ''PSBT_GLOBAL_OUTPUT_COUNT is required in PSBTv2''
        else if lp_found_unsigned_tx self then err ''PSBT_GLOBAL_UNSIGNED_TX is not allowed in PSBTv2''
        else Inr ()
      else Inr ())"

section \<open>Inputs and outputs\<close>

text \<open>The previous transaction of an input must be the one its outpoint names.\<close>

definition check_utxo :: "crypto \<Rightarrow> PSBT \<Rightarrow> nat \<Rightarrow> PartiallySignedInput \<Rightarrow> PartiallySignedInput result" where
  "check_utxo cr self i psbt_in =
     res_bind
       (if 2 \<le> ps_version self then Inr (pi_prev_txid psbt_in)
        else res_bind (py_nth (vin (ps_tx self)) i) (\<lambda>txin. ser_uint256 (op_hash (prevout txin))))
       (\<lambda>prev_txid.
     case pi_non_witness_utxo psbt_in of
       None \<Rightarrow> Inr psbt_in
     | Some utxo \<Rightarrow>
         (case tx_rehash cr utxo of (r, utxo) \<Rightarrow> res_bind r (\<lambda>_.
            if tx_hash utxo \<noteq> Some prev_txid
            then Inl (PSBTSerializationError ''Non-witness UTXO does not match outpoint hash'')
            else Inr (psbt_in\<lparr>pi_non_witness_utxo := Some utxo\<rparr>))))"

text \<open>
  \<open>for i in range(count)\<close>, which ends early at the end of the stream; \<open>n\<close> rounds are left.
\<close>

fun read_inputs :: "crypto \<Rightarrow> nat \<Rightarrow> nat \<Rightarrow> PSBT \<Rightarrow> PSBT reader" where
  "read_inputs cr 0 i self f = (Inr self, f)"
| "read_inputs cr (Suc n) i self f =
     (if f = [] then (Inr self, f)
      else rd_bind (psbt_input_deserialize cr (psbt_input_new (ps_version self))) (\<lambda>psbt_in.
           rd_bind (rd_lift (check_utxo cr self i psbt_in)) (\<lambda>psbt_in.
           read_inputs cr n (Suc i) (self\<lparr>ps_inputs := ps_inputs self @ [psbt_in]\<rparr>))) f)"

fun read_outputs :: "nat \<Rightarrow> PSBT \<Rightarrow> PSBT reader" where
  "read_outputs 0 self f = (Inr self, f)"
| "read_outputs (Suc n) self f =
     (if f = [] then (Inr self, f)
      else rd_bind (psbt_output_deserialize (psbt_output_new (ps_version self))) (\<lambda>out.
           read_outputs n (self\<lparr>ps_outputs := ps_outputs self @ [out]\<rparr>)) f)"

section \<open>The fields of version 2 from a transaction\<close>

fun setup_inputs :: "CTxIn list \<Rightarrow> PartiallySignedInput list \<Rightarrow> PartiallySignedInput list result" where
  "setup_inputs [] ins = Inr ins"
| "setup_inputs (txin # txins) [] = Inl IndexErr"
| "setup_inputs (txin # txins) (psbt_in # ins) =
     res_bind (ser_uint256 (op_hash (prevout txin))) (\<lambda>prev_txid.
     res_bind (setup_inputs txins ins) (\<lambda>ins.
     Inr (psbt_in\<lparr>pi_prev_txid := prev_txid, pi_prev_out := Some (op_n (prevout txin)),
       pi_sequence := Some (nSequence txin)\<rparr> # ins)))"

fun setup_outputs :: "CTxOut list \<Rightarrow> PartiallySignedOutput list \<Rightarrow> PartiallySignedOutput list result" where
  "setup_outputs [] outs = Inr outs"
| "setup_outputs (txout # txouts) [] = Inl IndexErr"
| "setup_outputs (txout # txouts) (psbt_out # outs) =
     res_bind (setup_outputs txouts outs) (\<lambda>outs.
     Inr (psbt_out\<lparr>po_amount := Some (nValue txout), po_script := scriptPubKey txout\<rparr> # outs))"

definition setup_from_tx :: "CTransaction \<Rightarrow> PSBT \<Rightarrow> PSBT result" where
  "setup_from_tx tx self =
     res_bind (setup_inputs (vin tx) (ps_inputs self)) (\<lambda>ins.
     res_bind (setup_outputs (vout tx) (ps_outputs self)) (\<lambda>outs.
     Inr (self\<lparr>ps_tx_version := Some (nVersion tx), ps_fallback_locktime := Some (nLockTime tx),
       ps_inputs := ins, ps_outputs := outs\<rparr>)))"

definition cache_unsigned_tx_pieces :: "PSBT \<Rightarrow> PSBT result" where
  "cache_unsigned_tx_pieces self = (if ps_version self = 0 then setup_from_tx (ps_tx self) self else Inr self)"

section \<open>Reading a PSBT\<close>

definition psbt_magic :: bytes where
  "psbt_magic = [0x70, 0x73, 0x62, 0x74, 0xff]"

text \<open>The input and output maps: as many as the counts say or, without counts, the transaction has.\<close>

definition psbt_read_maps :: "crypto \<Rightarrow> PSBT_loop \<Rightarrow> PSBT reader" where
  "psbt_read_maps cr lp =
     (let self = PSBT.truncate lp;
          input_count = (case lp_input_count lp of None \<Rightarrow> length (vin (ps_tx self)) | Some n \<Rightarrow> nat n);
          output_count = (case lp_output_count lp of None \<Rightarrow> length (vout (ps_tx self)) | Some n \<Rightarrow> nat n) in
      rd_bind (read_inputs cr input_count 0 self) (\<lambda>self.
      if length (ps_inputs self) \<noteq> input_count
      then rd_fail (PSBTSerializationError ''Inputs provided does not match the number of inputs in transaction'')
      else
        rd_bind (read_outputs output_count self) (\<lambda>self.
        if length (ps_outputs self) \<noteq> output_count
        then rd_fail (PSBTSerializationError ''Outputs provided does not match the number of outputs in transaction'')
        else rd_lift (cache_unsigned_tx_pieces self))))"

text \<open>The reader of the decoded bytes: magic, global map, version checks, inputs, outputs.\<close>

definition psbt_read :: "crypto \<Rightarrow> PSBT \<Rightarrow> PSBT reader" where
  "psbt_read cr self =
     rd_bind (py_read 5) (\<lambda>magic.
     if magic \<noteq> psbt_magic then rd_fail (PSBTSerializationError ''invalid magic'')
     else
       rd_bind (kv_run gl_field {} (psbt_loop_start self)) (\<lambda>lp.
       rd_bind (rd_lift (version_constraints lp)) (\<lambda>_. psbt_read_maps cr lp)))"

definition psbt_deserialize :: "crypto \<Rightarrow> PSBT \<Rightarrow> string \<Rightarrow> PSBT result" where
  "psbt_deserialize cr self psbt =
     res_bind (b64decode (py_strip psbt)) (\<lambda>psbt_bytes. fst (psbt_read cr self psbt_bytes))"

section \<open>Writing a PSBT\<close>

text \<open>The global map, without the unsigned transaction and the separator.\<close>

definition psbt_serialize_v2 :: "PSBT \<Rightarrow> bytes result list" where
  "psbt_serialize_v2 self =
     (if 2 \<le> ps_version self then
        [ser_typed 0x02 [] (case ps_tx_version self of None \<Rightarrow> Inl AssertionErr | Some x \<Rightarrow> pack_le 4 x)]
        @ ser_option 0x03 (pack_le 4) (ps_fallback_locktime self)
        @ [ser_typed 0x04 [] (ser_compact_size (int (length (ps_inputs self)))),
           ser_typed 0x05 [] (ser_compact_size (int (length (ps_outputs self))))]
        @ ser_option 0x06 (pack_le 1) (ps_tx_modifiable self)
      else [])"

text \<open>
  Writing may pad the witness list of the transactions, which stays so in the objects: the object after
  the call is the second result.
\<close>

definition psbt_serialize :: "(bytes set \<Rightarrow> bytes list) \<Rightarrow> PSBT \<Rightarrow> (string \<times> PSBT) result" where
  "psbt_serialize it self =
     (let tx = tx_serialize_with_witness (ps_tx self);
          ins = map (psbt_input_serialize it) (ps_inputs self) in
      res_bind (res_concat (
        [Inr psbt_magic]
        @ (if ps_version self = 0
           then [res_bind (ser_compact_size 0x00) ser_string,
                 res_bind (fst tx) (\<lambda>tx. ser_compact_size (int (length tx))), fst tx]
           else [])
        @ [res_bind (ser_compact_size 0x01) (SerializeHDKeypath (ps_xpub self))]
        @ psbt_serialize_v2 self
        @ (if 0 < ps_version self \<or> ps_explicit_version self
           then [ser_typed 0xFB [] (pack_le 4 (ps_version self))] else [])
        @ map (\<lambda>(key, v). ser_pair (Inr key) (Inr v)) (sorted_items (ps_unknown self))
        @ [Inr [0]]
        @ map fst ins
        @ map (psbt_output_serialize it) (ps_outputs self))) (\<lambda>r.
      Inr (b64encode r, self\<lparr>ps_tx := (if ps_version self = 0 then snd tx else ps_tx self),
        ps_inputs := map snd ins\<rparr>)))"

section \<open>The lock time and the unsigned transaction\<close>

text \<open>One round of the loop on the pair of the time lock and the height lock.\<close>

definition lock_time_step ::
    "PartiallySignedInput \<Rightarrow> int option \<times> int option \<Rightarrow> (int option \<times> int option) result" where
  "lock_time_step psbt_in locks =
     (case locks of (time_lock, height_lock) \<Rightarrow>
      res_bind
        (if pi_time_locktime psbt_in \<noteq> None \<and> pi_height_locktime psbt_in = None then
           if time_lock = None
           then Inl (PSBTSerializationError ''Cannot require both time and height locktimes'')
           else Inr (time_lock, None)
         else if pi_time_locktime psbt_in = None \<and> pi_height_locktime psbt_in \<noteq> None then
           if height_lock = None
           then Inl (PSBTSerializationError ''Cannot require both time and height locktimes'')
           else Inr (None, height_lock)
         else Inr (time_lock, height_lock))
        (\<lambda>(time_lock, height_lock).
      Inr (case (time_lock, pi_time_locktime psbt_in) of (Some a, Some b) \<Rightarrow> Some (max a b) | _ \<Rightarrow> time_lock,
           case (height_lock, pi_height_locktime psbt_in) of (Some a, Some b) \<Rightarrow> Some (max a b) | _ \<Rightarrow> height_lock)))"

definition compute_lock_time :: "PSBT \<Rightarrow> int result" where
  "compute_lock_time self =
     res_bind (res_fold lock_time_step (ps_inputs self) (Some 0, Some 0)) (\<lambda>(time_lock, height_lock).
     Inr (if (case height_lock of Some h \<Rightarrow> 0 < h | None \<Rightarrow> False) then the height_lock
          else if (case time_lock of Some t \<Rightarrow> 0 < t | None \<Rightarrow> False) then the time_lock
          else case ps_fallback_locktime self of Some l \<Rightarrow> l | None \<Rightarrow> 0))"

definition unsigned_input :: "PartiallySignedInput \<Rightarrow> CTxIn result" where
  "unsigned_input psbt_in =
     (case pi_prev_out psbt_in of
        None \<Rightarrow> Inl AssertionErr
      | Some n \<Rightarrow>
          let sq = (case pi_sequence psbt_in of Some x \<Rightarrow> x | None \<Rightarrow> 0xffffffff) in
          res_bind (uint256_from_str (pi_prev_txid psbt_in)) (\<lambda>h.
          Inr (txin_new (Some \<lparr>op_hash = h, op_n = n\<rparr>) [] sq)))"

definition unsigned_output :: "PartiallySignedOutput \<Rightarrow> CTxOut result" where
  "unsigned_output psbt_out =
     (case po_amount psbt_out of
        None \<Rightarrow> Inl AssertionErr
      | Some amount \<Rightarrow> Inr (txout_new amount (po_script psbt_out)))"

definition get_unsigned_tx :: "crypto \<Rightarrow> PSBT \<Rightarrow> CTransaction result" where
  "get_unsigned_tx cr self =
     (if ps_version self = 0 then Inr (ps_tx self)
      else
        case ps_tx_version self of
          None \<Rightarrow> Inl AssertionErr
        | Some tx_version \<Rightarrow>
            res_bind (compute_lock_time self) (\<lambda>lock.
            res_bind (res_map unsigned_input (ps_inputs self)) (\<lambda>ins.
            res_bind (res_map unsigned_output (ps_outputs self)) (\<lambda>outs.
            case tx_rehash cr (CTransaction_new\<lparr>nVersion := tx_version, nLockTime := lock,
                vin := ins, vout := outs\<rparr>) of
              (r, tx) \<Rightarrow> res_bind r (\<lambda>_. Inr tx)))))"

definition convert_version :: "int \<Rightarrow> PSBT \<Rightarrow> PSBT" where
  "convert_version version self = self
     \<lparr>ps_version := version,
      ps_inputs := map (\<lambda>psbt_in. psbt_in\<lparr>pi_version := version\<rparr>) (ps_inputs self),
      ps_outputs := map (\<lambda>psbt_out. psbt_out\<lparr>po_version := version\<rparr>) (ps_outputs self)\<rparr>"

definition convert_to_v2 :: "PSBT \<Rightarrow> PSBT" where
  "convert_to_v2 self = convert_version 2 self"

definition convert_to_v0 :: "crypto \<Rightarrow> PSBT \<Rightarrow> PSBT result" where
  "convert_to_v0 cr self =
     res_bind (get_unsigned_tx cr self) (\<lambda>tx.
     Inr ((convert_version 0 self)\<lparr>ps_tx := tx, ps_explicit_version := False\<rparr>))"

section \<open>The lock time\<close>

definition needs_time :: "PartiallySignedInput \<Rightarrow> bool" where
  "needs_time p \<longleftrightarrow> pi_time_locktime p \<noteq> None \<and> pi_height_locktime p = None"

definition needs_height :: "PartiallySignedInput \<Rightarrow> bool" where
  "needs_height p \<longleftrightarrow> pi_time_locktime p = None \<and> pi_height_locktime p \<noteq> None"

definition max_lock :: "(PartiallySignedInput \<Rightarrow> int option) \<Rightarrow> PartiallySignedInput list \<Rightarrow> int \<Rightarrow> int" where
  "max_lock field ins start = fold max (List.map_filter field ins) start"

lemma max_lock_simps [simp]:
  "max_lock field [] a = a"
  "max_lock field (p # ins) a = (case field p of None \<Rightarrow> max_lock field ins a | Some b \<Rightarrow> max_lock field ins (max a b))"
  by (simp_all add: max_lock_def max.commute split: option.splits)

lemma max_lock_fold:
  assumes "\<not> (t = None \<and> h = None)"
  shows "res_fold lock_time_step ins (t, h) =
    (if (h = None \<or> list_ex needs_time ins) \<and> (t = None \<or> list_ex needs_height ins)
     then Inl (PSBTSerializationError ''Cannot require both time and height locktimes'')
     else Inr (if list_ex needs_height ins then None else map_option (max_lock pi_time_locktime ins) t,
               if list_ex needs_time ins then None else map_option (max_lock pi_height_locktime ins) h))"
  using assms
proof (induction ins arbitrary: t h)
  case Nil
  then show ?case by (cases t; cases h) simp_all
next
  case (Cons p ins)
  show ?case
    using Cons.prems
    by (cases t; cases h; cases "pi_time_locktime p"; cases "pi_height_locktime p")
      (simp_all add: lock_time_step_def [of p] Cons.IH needs_time_def [of p] needs_height_def [of p])
qed

text \<open>
  C5: the lock time is the one of BIP 370. If some input requires a time and no height, and another a height
  and no time, there is an error. Otherwise, if every input with a requirement accepts a height, the
  lock time is the greatest height required; if not, the greatest time; and without requirements the
  fallback, or 0. The order of the inputs does not matter.
\<close>

theorem compute_lock_time_bip370:
  "compute_lock_time self =
    (let ins = ps_inputs self;
         height = max_lock pi_height_locktime ins 0; time = max_lock pi_time_locktime ins 0 in
     if list_ex needs_time ins \<and> list_ex needs_height ins
     then Inl (PSBTSerializationError ''Cannot require both time and height locktimes'')
     else if \<not> list_ex needs_time ins \<and> 0 < height then Inr height
     else if \<not> list_ex needs_height ins \<and> 0 < time then Inr time
     else Inr (case ps_fallback_locktime self of Some l \<Rightarrow> l | None \<Rightarrow> 0))"
  unfolding compute_lock_time_def by (subst max_lock_fold) (simp_all add: Let_def)

section \<open>The handler of the global map\<close>

lemmas gl_fields = gl_unsigned_tx_def gl_xpub_def gl_tx_version_def gl_fallback_locktime_def
  gl_input_count_def gl_output_count_def gl_tx_modifiable_def gl_version_def gl_unknown_def

lemma check_global_not_fuel [simp]: "check_global d l k L \<noteq> Inl OutOfFuel"
  by (simp add: check_global_def)

lemma check_global_Inr [simp]: "check_global d l k L = Inr u \<longleftrightarrow> k \<notin> L \<and> length k \<le> 1"
  by (auto simp: check_global_def)

lemma consumes_count [consumes_intros]: "check \<noteq> Inl OutOfFuel \<Longrightarrow> consumes (gl_count check store)"
  unfolding gl_count_def by (intro consumes_intros) simp_all

lemma consumes_gl_fields:
  "consumes (gl_unsigned_tx key L m)" "consumes (gl_xpub key L m)" "consumes (gl_tx_version key L m)"
  "consumes (gl_fallback_locktime key L m)" "consumes (gl_input_count key L m)" "consumes (gl_output_count key L m)"
  "consumes (gl_tx_modifiable key L m)" "consumes (gl_version key L m)" "consumes (gl_unknown key L m)"
  unfolding gl_fields Let_def
  by (intro consumes_intros; simp split: prod.splits sum.splits)+

interpretation global_map: kv_handler gl_field
proof unfold_locales
  fix key L m
  show "consumes (gl_field key L m)"
    unfolding gl_field_def
    by (intro consumes_bind consumes_lift consumes_if consumes_gl_fields) simp
qed

text \<open>What an accepted pair does.\<close>

inductive gl_effect :: "bytes \<Rightarrow> PSBT_loop \<Rightarrow> PSBT_loop \<Rightarrow> bool" where
  unsigned_tx: "tx_deserialize_without_witness v = (Inr tx, []) \<Longrightarrow> list_all (\<lambda>txin. scriptSig txin = []) (vin tx) \<Longrightarrow>
    gl_effect k m (m\<lparr>ps_tx := tx, lp_found_unsigned_tx := True\<rparr>)"
| xpub: "length k = 79 \<Longrightarrow> gl_effect k m (m\<lparr>ps_xpub := AList.update (drop 1 k) origin (ps_xpub m)\<rparr>)"
| tx_version: "0 \<le> x \<Longrightarrow> x < 2 ^ 32 \<Longrightarrow> gl_effect k m (m\<lparr>ps_tx_version := Some x\<rparr>)"
| fallback: "0 \<le> x \<Longrightarrow> x < 2 ^ 32 \<Longrightarrow> gl_effect k m (m\<lparr>ps_fallback_locktime := Some x\<rparr>)"
| input_count: "gl_effect k m (m\<lparr>lp_input_count := Some x\<rparr>)"
| output_count: "gl_effect k m (m\<lparr>lp_output_count := Some x\<rparr>)"
| modifiable: "0 \<le> x \<Longrightarrow> x < 2 ^ 8 \<Longrightarrow> gl_effect k m (m\<lparr>ps_tx_modifiable := Some x\<rparr>)"
| version: "0 \<le> x \<Longrightarrow> x < 2 ^ 32 \<Longrightarrow> gl_effect k m (m\<lparr>ps_version := x, ps_explicit_version := True\<rparr>)"
| unknown: "gl_effect k m (m\<lparr>ps_unknown := AList.update k v (ps_unknown m)\<rparr>)"

lemma effect_unsigned_tx:
  assumes "gl_unsigned_tx k L m f = (Inr m', f')"
  shows "gl_effect k m m'"
proof -
  obtain v where v: "(case tx_deserialize_without_witness v of
          (Inl e, tx_bytes) \<Rightarrow> Inl (PSBTSerializationError ''Global unsigned tx is invalid'')
        | (Inr tx, tx_bytes) \<Rightarrow>
            if 0 < length (take 1 tx_bytes)
            then Inl (PSBTSerializationError ''Global unsigned tx is not serialized without witness'')
            else if list_ex (\<lambda>txin. length (scriptSig txin) \<noteq> 0 \<or> \<not> txwit_is_null (wit tx)) (vin tx)
            then Inl (PSBTSerializationError ''Unsigned tx does not have empty scriptSigs and scriptWitnesses'')
            else Inr (m\<lparr>ps_tx := tx, lp_found_unsigned_tx := True\<rparr>)) = Inr m'"
    using assms unfolding gl_unsigned_tx_def by (rule kv_field_elim)
  obtain r rest where d: "tx_deserialize_without_witness v = (r, rest)" by (cases "tx_deserialize_without_witness v")
  with v obtain tx where r: "r = Inr tx" by (cases r) auto
  have "rest = []" "list_all (\<lambda>txin. scriptSig txin = []) (vin tx)" "m' = m\<lparr>ps_tx := tx, lp_found_unsigned_tx := True\<rparr>"
    using v by (auto simp: d r list_ex_iff list_all_iff split: if_splits)
  with d r show ?thesis by (auto intro: gl_effect.intros)
qed

lemma gl_field_effect:
  assumes "gl_field k L m f = (Inr m', f')"
  shows "gl_effect k m m'"
proof -
  obtain t where t: "key_type_of k = Inr t" using assms by (auto simp: gl_field_def rd_bind_eq_Inr)
  show ?thesis
    using assms t unfolding gl_field_def rd_bind_eq_Inr
    by (elim exE conjE) (simp only: rd_lift_apply prod.inject t sum.inject split: if_split_asm;
      (erule effect_unsigned_tx |
       (simp only: gl_fields DeserializeHDKeypath_def gl_count_def Let_def rd_bind_eq_Inr; (elim exE conjE)?;
        (drule kv_field_Inr)?;
        auto split: if_splits dest!: unpack_le_bounds intro: gl_effect.intros simp: t simp del: One_nat_def)))
qed

section \<open>What the reader establishes\<close>

text \<open>The previous transaction an input carries hashes to the id given.\<close>

definition utxo_matches :: "crypto \<Rightarrow> bytes \<Rightarrow> PartiallySignedInput \<Rightarrow> bool" where
  "utxo_matches cr txid p \<longleftrightarrow>
     (case pi_non_witness_utxo p of
        None \<Rightarrow> True
      | Some utxo \<Rightarrow> result_ok (\<lambda>b. hash256 cr b = txid) (tx_serialize_without_witness utxo))"

lemma rehash_id:
  assumes "tx_rehash cr tx = (Inr u, tx')"
  shows "\<exists>b. tx_serialize_without_witness tx' = Inr b \<and> tx_hash tx' = Some (hash256 cr b)"
proof -
  have "tx_serialize_without_witness (tx\<lparr>tx_sha256 := a\<rparr>) = tx_serialize_without_witness tx"
    "tx_serialize_without_witness (tx\<lparr>tx_sha256 := a, tx_hash := b\<rparr>) = tx_serialize_without_witness tx" for a b
    by (simp_all add: tx_serialize_without_witness_def)
  then show ?thesis
    using assms by (auto simp: tx_rehash_def tx_calc_sha256_def tx_serialize_def split: sum.splits)
qed

definition outpoint_txid :: "PSBT \<Rightarrow> nat \<Rightarrow> PartiallySignedInput \<Rightarrow> bytes \<Rightarrow> bool" where
  "outpoint_txid self i p txid \<longleftrightarrow>
     (if 2 \<le> ps_version self then txid = pi_prev_txid p
      else i < length (vin (ps_tx self)) \<and> ser_uint256 (op_hash (prevout (vin (ps_tx self) ! i))) = Inr txid)"

lemma check_utxo_ok:
  assumes "check_utxo cr self i p = Inr p'"
  shows "(\<exists>u. p' = p\<lparr>pi_non_witness_utxo := u\<rparr>) \<and> (\<exists>txid. outpoint_txid self i p txid \<and> utxo_matches cr txid p')"
proof -
  obtain txid where txid: "outpoint_txid self i p txid"
    and r: "(case pi_non_witness_utxo p of None \<Rightarrow> Inr p
     | Some utxo \<Rightarrow> (case tx_rehash cr utxo of (r, utxo) \<Rightarrow> res_bind r (\<lambda>_.
            if tx_hash utxo \<noteq> Some txid
            then Inl (PSBTSerializationError ''Non-witness UTXO does not match outpoint hash'')
            else Inr (p\<lparr>pi_non_witness_utxo := Some utxo\<rparr>)))) = Inr p'"
    using assms by (auto simp: check_utxo_def outpoint_txid_def py_nth_def split: if_splits)
  show ?thesis
  proof (cases "pi_non_witness_utxo p")
    case None
    with r have "p' = p" by simp
    with txid None show ?thesis by (intro conjI exI [of _ None]) (auto simp: utxo_matches_def)
  next
    case (Some utxo)
    then obtain u where u: "tx_rehash cr utxo = (Inr (), u)" "tx_hash u = Some txid" "p' = p\<lparr>pi_non_witness_utxo := Some u\<rparr>"
      using r by (auto split: prod.splits if_splits)
    from rehash_id [OF u(1)] u(2,3) txid show ?thesis
      by (auto simp: utxo_matches_def result_ok_def)
  qed
qed

definition input_read :: "crypto \<Rightarrow> PSBT \<Rightarrow> nat \<Rightarrow> PartiallySignedInput \<Rightarrow> bool" where
  "input_read cr self i p \<longleftrightarrow> psbt_input_inv p \<and> pi_version p = ps_version self
     \<and> (2 \<le> ps_version self \<longrightarrow> length (pi_prev_txid p) = 32 \<and> pi_prev_out p \<noteq> None)
     \<and> (\<exists>txid. outpoint_txid self i p txid \<and> utxo_matches cr txid p)"

lemma input_inv_utxo: "psbt_input_inv (p\<lparr>pi_non_witness_utxo := u\<rparr>) = psbt_input_inv p"
  by (simp add: psbt_input_inv_def)

lemma input_read_cong:
  "ps_version a = ps_version b \<Longrightarrow> ps_tx a = ps_tx b \<Longrightarrow> input_read cr a i p = input_read cr b i p"
  by (simp add: input_read_def outpoint_txid_def)

lemma read_inputs_ok:
  assumes "read_inputs cr n i self f = (Inr self', f')"
  shows "\<exists>ins. self' = self\<lparr>ps_inputs := ps_inputs self @ ins\<rparr> \<and> (\<forall>k<length ins. input_read cr self (i + k) (ins ! k))"
  using assms
proof (induction n arbitrary: i self f)
  case 0
  then show ?case by (intro exI [of _ "[]"]) simp
next
  case (Suc n)
  show ?case
  proof (cases "f = []")
    case True
    with Suc.prems show ?thesis by (intro exI [of _ "[]"]) simp
  next
    case False
    then obtain p0 p f1 where p0: "psbt_input_deserialize cr (psbt_input_new (ps_version self)) f = (Inr p0, f1)"
      and p: "check_utxo cr self i p0 = Inr p"
      and rest: "read_inputs cr n (Suc i) (self\<lparr>ps_inputs := ps_inputs self @ [p]\<rparr>) f1 = (Inr self', f')"
      using Suc.prems by (auto simp: rd_bind_eq_Inr)
    let ?self = "self\<lparr>ps_inputs := ps_inputs self @ [p]\<rparr>"
    from Suc.IH [OF rest] obtain ins where ins: "self' = self\<lparr>ps_inputs := ps_inputs self @ p # ins\<rparr>"
      "\<forall>k<length ins. input_read cr ?self (Suc i + k) (ins ! k)"
      by auto
    have "psbt_input_inv p0 \<and> pi_version p0 = ps_version self
        \<and> (2 \<le> ps_version self \<longrightarrow> length (pi_prev_txid p0) = 32 \<and> pi_prev_out p0 \<noteq> None)"
      using psbt_input_deserialize_inv [OF psbt_input_inv_new p0] by (simp add: psbt_input_new_def)
    moreover obtain u txid where "p = p0\<lparr>pi_non_witness_utxo := u\<rparr>" "outpoint_txid self i p0 txid" "utxo_matches cr txid p"
      using check_utxo_ok [OF p] by blast
    moreover from this have "outpoint_txid self i p txid" by (simp add: outpoint_txid_def)
    ultimately have "input_read cr self i p"
      unfolding input_read_def by (intro conjI exI [of _ txid]) (simp_all add: input_inv_utxo)
    moreover have "input_read cr self (Suc i + k) (ins ! k)" if "k < length ins" for k
      using ins(2) that input_read_cong [of ?self self cr "Suc i + k" "ins ! k"] by simp
    ultimately have "\<forall>k<length (p # ins). input_read cr self (i + k) ((p # ins) ! k)"
      by (auto simp: less_Suc_eq_0_disj)
    with ins(1) show ?thesis by (intro exI [of _ "p # ins"]) simp
  qed
qed

lemma read_outputs_ok:
  assumes "read_outputs n self f = (Inr self', f')"
  shows "\<exists>outs. self' = self\<lparr>ps_outputs := ps_outputs self @ outs\<rparr>
    \<and> list_all (\<lambda>p. psbt_output_inv p \<and> po_version p = ps_version self
          \<and> (2 \<le> ps_version self \<longrightarrow> po_amount p \<noteq> None \<and> po_script p \<noteq> [])) outs"
  using assms
proof (induction n arbitrary: self f)
  case 0
  then show ?case by (intro exI [of _ "[]"]) simp
next
  case (Suc n)
  show ?case
  proof (cases "f = []")
    case True
    with Suc.prems show ?thesis by (intro exI [of _ "[]"]) simp
  next
    case False
    then obtain p f1 where p: "psbt_output_deserialize (psbt_output_new (ps_version self)) f = (Inr p, f1)"
      and rest: "read_outputs n (self\<lparr>ps_outputs := ps_outputs self @ [p]\<rparr>) f1 = (Inr self', f')"
      using Suc.prems by (auto simp: rd_bind_eq_Inr)
    from Suc.IH [OF rest] obtain outs where "self' = self\<lparr>ps_outputs := ps_outputs self @ p # outs\<rparr>"
      "list_all (\<lambda>p. psbt_output_inv p \<and> po_version p = ps_version self
          \<and> (2 \<le> ps_version self \<longrightarrow> po_amount p \<noteq> None \<and> po_script p \<noteq> [])) outs"
      by auto
    with psbt_output_deserialize_inv [OF p] show ?thesis by (intro exI [of _ "p # outs"]) simp
  qed
qed

text \<open>A transaction without signatures, as the reader without witness leaves it.\<close>

definition unsigned_tx :: "CTransaction \<Rightarrow> bool" where
  "unsigned_tx tx \<longleftrightarrow> list_all (\<lambda>txin. scriptSig txin = [] \<and> uint256_ok (op_hash (prevout txin))
       \<and> u32_ok (op_n (prevout txin)) \<and> u32_ok (nSequence txin)) (vin tx)
     \<and> list_all (\<lambda>txout. i64_ok (nValue txout)) (vout tx)
     \<and> vtxinwit (wit tx) = [] \<and> tx_sha256 tx = None \<and> tx_hash tx = None"

lemma rd_unpack_range: "rd_unpack 4 f = (Inr x, f') \<Longrightarrow> u32_ok x"
  by (auto simp: rd_unpack_def rd_bind_eq_Inr u32_ok_def dest!: unpack_le_bounds)

lemma rd_unpack_s_range: "rd_unpack_s 8 f = (Inr x, f') \<Longrightarrow> i64_ok x"
  by (auto simp: rd_unpack_s_def rd_bind_eq_Inr i64_ok_def dest!: unpack_les_bounds)

lemma txin_deserialize_ok:
  "txin_deserialize f = (Inr txin, f') \<Longrightarrow> uint256_ok (op_hash (prevout txin)) \<and> u32_ok (op_n (prevout txin)) \<and> u32_ok (nSequence txin)"
  by (auto simp: txin_deserialize_def outpoint_deserialize_def rd_bind_eq_Inr dest: deser_uint256_ok rd_unpack_range)

lemma txout_deserialize_ok: "txout_deserialize f = (Inr txout, f') \<Longrightarrow> i64_ok (nValue txout)"
  by (auto simp: txout_deserialize_def rd_bind_eq_Inr dest: rd_unpack_s_range)

lemma unsigned_tx_read:
  assumes "tx_deserialize_without_witness f = (Inr tx, f')" and "list_all (\<lambda>txin. scriptSig txin = []) (vin tx)"
  shows "unsigned_tx tx"
proof -
  obtain g g' h h' where r: "deser_vector txin_deserialize g = (Inr (vin tx), g')" "deser_vector txout_deserialize h = (Inr (vout tx), h')"
    using assms(1) by (auto simp: tx_deserialize_without_witness_def rd_bind_eq_Inr)
  have "list_all (\<lambda>txin. uint256_ok (op_hash (prevout txin)) \<and> u32_ok (op_n (prevout txin)) \<and> u32_ok (nSequence txin)) (vin tx)"
    by (rule deser_vector_all [OF _ r(1)]) (rule txin_deserialize_ok)
  moreover have "list_all (\<lambda>txout. i64_ok (nValue txout)) (vout tx)"
    by (rule deser_vector_all [OF _ r(2)]) (rule txout_deserialize_ok)
  ultimately show ?thesis using assms
    by (auto simp: unsigned_tx_def list_all_iff tx_deserialize_without_witness_def rd_bind_eq_Inr)
qed

text \<open>The invariant of the loop over the global map, from a new object.\<close>

definition gl_inv :: "PSBT_loop \<Rightarrow> bool" where
  "gl_inv m \<longleftrightarrow> ps_inputs m = [] \<and> ps_outputs m = [] \<and> 0 \<le> ps_version m
     \<and> unsigned_tx (ps_tx m)
     \<and> dict_ok (ps_xpub m) \<and> list_all (\<lambda>(k, v). length k = 78) (ps_xpub m) \<and> dict_ok (ps_unknown m)"

lemma gl_effect_inv: "gl_effect k m m' \<Longrightarrow> gl_inv m \<Longrightarrow> gl_inv m'"
  by (induction rule: gl_effect.induct) (auto simp: gl_inv_def list_all_update dest: unsigned_tx_read)

lemma gl_inv_start: "gl_inv (psbt_loop_start (PSBT_new None))"
  by (simp add: gl_inv_def psbt_loop_start_def PSBT.defs PSBT_loop.defs PSBT_new_def CTransaction_new_def unsigned_tx_def dict_ok_def)

text \<open>The fields of version 2 are those of a transaction.\<close>

definition input_pieces :: "CTxIn \<Rightarrow> PartiallySignedInput \<Rightarrow> bool" where
  "input_pieces txin i \<longleftrightarrow> ser_uint256 (op_hash (prevout txin)) = Inr (pi_prev_txid i)
     \<and> pi_prev_out i = Some (op_n (prevout txin)) \<and> pi_sequence i = Some (nSequence txin)"

definition output_pieces :: "CTxOut \<Rightarrow> PartiallySignedOutput \<Rightarrow> bool" where
  "output_pieces txout out \<longleftrightarrow> po_amount out = Some (nValue txout) \<and> po_script out = scriptPubKey txout"

definition tx_pieces :: "CTransaction \<Rightarrow> PSBT \<Rightarrow> bool" where
  "tx_pieces tx p \<longleftrightarrow> ps_tx_version p = Some (nVersion tx) \<and> ps_fallback_locktime p = Some (nLockTime tx)
     \<and> list_all2 input_pieces (vin tx) (ps_inputs p) \<and> list_all2 output_pieces (vout tx) (ps_outputs p)"

text \<open>
  The invariant of a PSBT that has been read: every part agrees with the version and with the
  transaction, and every input spends an output of the previous transaction it carries.
\<close>

definition input_inv :: "crypto \<Rightarrow> int \<Rightarrow> PartiallySignedInput \<Rightarrow> bool" where
  "input_inv cr v i \<longleftrightarrow> pi_version i = v \<and> length (pi_prev_txid i) = 32 \<and> pi_prev_out i \<noteq> None
     \<and> pred_option u32_ok (pi_prev_out i) \<and> pred_option u32_ok (pi_sequence i)
     \<and> utxo_matches cr (pi_prev_txid i) i
     \<and> pred_option (\<lambda>t. 500000000 \<le> t \<and> t < 2 ^ 32) (pi_time_locktime i)
     \<and> pred_option (\<lambda>t. 0 < t \<and> t < 500000000) (pi_height_locktime i)
     \<and> (v = 0 \<longrightarrow> pi_time_locktime i = None \<and> pi_height_locktime i = None)"

definition psbt_inv :: "crypto \<Rightarrow> PSBT \<Rightarrow> bool" where
  "psbt_inv cr p \<longleftrightarrow>
     (ps_version p = 0 \<or> 2 \<le> ps_version p) \<and> ps_tx_version p \<noteq> None
     \<and> (ps_version p = 0 \<longrightarrow> unsigned_tx (ps_tx p) \<and> tx_pieces (ps_tx p) p \<and> ps_tx_modifiable p = None)
     \<and> list_all (input_inv cr (ps_version p)) (ps_inputs p)
     \<and> list_all (\<lambda>out. po_version out = ps_version p \<and> po_amount out \<noteq> None \<and> pred_option i64_ok (po_amount out)
       \<and> (2 \<le> ps_version p \<longrightarrow> po_script out \<noteq> [])) (ps_outputs p)"

lemma setup_inputs_nth:
  "length txins = length ins \<Longrightarrow> \<exists>r. setup_inputs txins ins = Inr r \<and> length r = length ins
     \<and> (\<forall>k<length ins. \<exists>h. ser_uint256 (op_hash (prevout (txins ! k))) = Inr h
          \<and> r ! k = (ins ! k)\<lparr>pi_prev_txid := h, pi_prev_out := Some (op_n (prevout (txins ! k))),
               pi_sequence := Some (nSequence (txins ! k))\<rparr>)"
proof (induction txins ins rule: setup_inputs.induct)
  case (3 txin txins p ins)
  have u: "\<exists>h. ser_uint256 (op_hash (prevout txin)) = Inr h" by (simp only: ser_uint256_eq sum.inject) blast
  then obtain h where h: "ser_uint256 (op_hash (prevout txin)) = Inr h" by blast
  from 3 h obtain r where r: "setup_inputs txins ins = Inr r" "length r = length ins"
    "\<forall>k<length ins. \<exists>h. ser_uint256 (op_hash (prevout (txins ! k))) = Inr h
          \<and> r ! k = (ins ! k)\<lparr>pi_prev_txid := h, pi_prev_out := Some (op_n (prevout (txins ! k))),
               pi_sequence := Some (nSequence (txins ! k))\<rparr>" by auto
  then show ?case using h by (auto simp: less_Suc_eq_0_disj)
qed simp_all

lemma setup_outputs_nth:
  "length txouts = length outs \<Longrightarrow> \<exists>r. setup_outputs txouts outs = Inr r \<and> length r = length outs
     \<and> (\<forall>k<length outs. r ! k = (outs ! k)\<lparr>po_amount := Some (nValue (txouts ! k)), po_script := scriptPubKey (txouts ! k)\<rparr>)"
proof (induction txouts outs rule: setup_outputs.induct)
  case (3 txout txouts p outs)
  then obtain r where "setup_outputs txouts outs = Inr r" "length r = length outs"
    "\<forall>k<length outs. r ! k = (outs ! k)\<lparr>po_amount := Some (nValue (txouts ! k)), po_script := scriptPubKey (txouts ! k)\<rparr>"
    by auto
  then show ?case by (auto simp: less_Suc_eq_0_disj)
qed simp_all

lemma input_inv_parts:
  "psbt_input_inv p \<Longrightarrow> pred_option (\<lambda>t. 500000000 \<le> t \<and> t < 2 ^ 32) (pi_time_locktime p)
     \<and> pred_option (\<lambda>t. 0 < t \<and> t < 500000000) (pi_height_locktime p)
     \<and> (pi_version p = 0 \<longrightarrow> pi_time_locktime p = None \<and> pi_height_locktime p = None)
     \<and> pred_option u32_ok (pi_prev_out p) \<and> pred_option u32_ok (pi_sequence p)"
  unfolding psbt_input_inv_def u32_ok_def by blast

lemma ser_uint256_length: "ser_uint256 u = Inr h \<Longrightarrow> length h = 32"
  by (auto simp: ser_uint256_eq simp del: le_bytes.simps)

text \<open>The maps read for a global map, and what the fields filled in make of them.\<close>

lemma truncate_simps:
  "ps_version (PSBT.truncate lp) = ps_version lp" "ps_tx (PSBT.truncate lp) = ps_tx lp"
  "ps_tx_version (PSBT.truncate lp) = ps_tx_version lp" "ps_inputs (PSBT.truncate lp) = ps_inputs lp"
  "ps_tx_modifiable (PSBT.truncate lp) = ps_tx_modifiable lp" "ps_outputs (PSBT.truncate lp) = ps_outputs lp"
  by (simp_all add: PSBT.defs)

lemma read_maps_parts:
  assumes "gl_inv lp" and "psbt_read_maps cr lp f = (Inr p, f')"
  obtains self where "ps_version self = ps_version lp" "ps_tx self = ps_tx lp"
    "ps_tx_version self = ps_tx_version lp" "ps_tx_modifiable self = ps_tx_modifiable lp"
    "length (ps_inputs self) = (case lp_input_count lp of None \<Rightarrow> length (vin (ps_tx lp)) | Some n \<Rightarrow> nat n)"
    "length (ps_outputs self) = (case lp_output_count lp of None \<Rightarrow> length (vout (ps_tx lp)) | Some n \<Rightarrow> nat n)"
    "\<forall>k<length (ps_inputs self). input_read cr self k (ps_inputs self ! k)"
    "list_all (\<lambda>out. psbt_output_inv out \<and> po_version out = ps_version self
          \<and> (2 \<le> ps_version self \<longrightarrow> po_amount out \<noteq> None \<and> po_script out \<noteq> [])) (ps_outputs self)"
    "cache_unsigned_tx_pieces self = Inr p"
proof -
  have e: "ps_inputs lp = []" "ps_outputs lp = []" using assms(1) by (simp_all add: gl_inv_def)
  obtain s1 f1 s2 f2 where
    r: "read_inputs cr (case lp_input_count lp of None \<Rightarrow> length (vin (ps_tx lp)) | Some n \<Rightarrow> nat n) 0
         (PSBT.truncate lp) f = (Inr s1, f1)"
    and l: "length (ps_inputs s1) = (case lp_input_count lp of None \<Rightarrow> length (vin (ps_tx lp)) | Some n \<Rightarrow> nat n)"
    and o: "read_outputs (case lp_output_count lp of None \<Rightarrow> length (vout (ps_tx lp)) | Some n \<Rightarrow> nat n) s1 f1 = (Inr s2, f2)"
    and m: "length (ps_outputs s2) = (case lp_output_count lp of None \<Rightarrow> length (vout (ps_tx lp)) | Some n \<Rightarrow> nat n)"
    and c: "cache_unsigned_tx_pieces s2 = Inr p"
    using assms(2) unfolding psbt_read_maps_def Let_def truncate_simps rd_bind_eq_Inr
    by (auto simp: rd_bind_eq_Inr split: if_split_asm)
  from read_inputs_ok [OF r] obtain ins where s1: "s1 = (PSBT.truncate lp)\<lparr>ps_inputs := ins\<rparr>"
    and i: "\<forall>k<length ins. input_read cr (PSBT.truncate lp) k (ins ! k)"
    by (auto simp: truncate_simps e)
  from read_outputs_ok [OF o] obtain outs where s2: "s2 = s1\<lparr>ps_outputs := outs\<rparr>"
    and q: "list_all (\<lambda>p. psbt_output_inv p \<and> po_version p = ps_version s1
          \<and> (2 \<le> ps_version s1 \<longrightarrow> po_amount p \<noteq> None \<and> po_script p \<noteq> [])) outs"
    by (auto simp: s1 truncate_simps e)
  have "input_read cr s2 k (ins ! k)" if "k < length ins" for k
    using i that input_read_cong [of s2 "PSBT.truncate lp" cr k "ins ! k"] by (simp add: s1 s2)
  then show ?thesis using that [of s2] l m q c by (simp add: s1 s2 truncate_simps)
qed

lemma cached_input:
  assumes "input_read cr self k p" and "ps_version self = 0"
    and "ser_uint256 (op_hash (prevout (vin (ps_tx self) ! k))) = Inr h"
    and q: "q = p\<lparr>pi_prev_txid := h, pi_prev_out := Some n, pi_sequence := Some sq\<rparr>" and "u32_ok n" "u32_ok sq"
  shows "input_inv cr 0 q"
proof -
  have "utxo_matches cr h p" using assms(1-3) by (auto simp: input_read_def outpoint_txid_def)
  then have "utxo_matches cr h q" by (simp add: utxo_matches_def q)
  moreover have "pi_time_locktime p = None" "pi_height_locktime p = None" "pi_version p = 0"
    using assms(1, 2) input_inv_parts [of p] by (auto simp: input_read_def)
  ultimately show ?thesis using ser_uint256_length [OF assms(3)] assms(5, 6) by (simp add: q input_inv_def)
qed

lemma maps_inv_v0:
  assumes g: "gl_inv lp" and v0: "ps_version lp = 0" "lp_input_count lp = None" "lp_output_count lp = None"
      "ps_tx_modifiable lp = None"
    and maps: "psbt_read_maps cr lp f = (Inr p, f')"
  shows "psbt_inv cr p"
proof -
  from maps obtain self where v: "ps_version self = ps_version lp" "ps_tx self = ps_tx lp"
      "ps_tx_modifiable self = ps_tx_modifiable lp"
    and li: "length (ps_inputs self) = (case lp_input_count lp of None \<Rightarrow> length (vin (ps_tx lp)) | Some n \<Rightarrow> nat n)"
    and lo: "length (ps_outputs self) = (case lp_output_count lp of None \<Rightarrow> length (vout (ps_tx lp)) | Some n \<Rightarrow> nat n)"
    and ins: "\<forall>k<length (ps_inputs self). input_read cr self k (ps_inputs self ! k)"
    and outs: "list_all (\<lambda>out. psbt_output_inv out \<and> po_version out = ps_version self
          \<and> (2 \<le> ps_version self \<longrightarrow> po_amount out \<noteq> None \<and> po_script out \<noteq> [])) (ps_outputs self)"
    and cache: "cache_unsigned_tx_pieces self = Inr p"
    by (rule read_maps_parts [OF g])
  let ?tx = "ps_tx self"
  have l: "length (vin ?tx) = length (ps_inputs self)" "length (vout ?tx) = length (ps_outputs self)"
    using v0 li lo v by simp_all
  obtain ri where ri: "setup_inputs (vin ?tx) (ps_inputs self) = Inr ri" "length ri = length (ps_inputs self)"
    "\<forall>k<length (ps_inputs self). \<exists>h. ser_uint256 (op_hash (prevout (vin ?tx ! k))) = Inr h
        \<and> ri ! k = (ps_inputs self ! k)\<lparr>pi_prev_txid := h, pi_prev_out := Some (op_n (prevout (vin ?tx ! k))),
             pi_sequence := Some (nSequence (vin ?tx ! k))\<rparr>"
    using setup_inputs_nth [OF l(1)] by blast
  obtain ro where ro: "setup_outputs (vout ?tx) (ps_outputs self) = Inr ro" "length ro = length (ps_outputs self)"
    "\<forall>k<length (ps_outputs self). ro ! k = (ps_outputs self ! k)\<lparr>po_amount := Some (nValue (vout ?tx ! k)),
             po_script := scriptPubKey (vout ?tx ! k)\<rparr>"
    using setup_outputs_nth [OF l(2)] by blast
  have p: "p = self\<lparr>ps_tx_version := Some (nVersion ?tx), ps_fallback_locktime := Some (nLockTime ?tx),
      ps_inputs := ri, ps_outputs := ro\<rparr>"
    using cache v0 v ri(1) ro(1) by (simp add: cache_unsigned_tx_pieces_def setup_from_tx_def)
  have i: "input_inv cr 0 (ri ! k) \<and> input_pieces (vin ?tx ! k) (ri ! k)" if "k < length ri" for k
  proof -
    have k: "k < length (ps_inputs self)" using that ri(2) by simp
    with ri(3) obtain h where h: "ser_uint256 (op_hash (prevout (vin ?tx ! k))) = Inr h"
      "ri ! k = (ps_inputs self ! k)\<lparr>pi_prev_txid := h, pi_prev_out := Some (op_n (prevout (vin ?tx ! k))),
             pi_sequence := Some (nSequence (vin ?tx ! k))\<rparr>" by blast
    have "input_read cr self k (ps_inputs self ! k)" using ins k by blast
    moreover have "u32_ok (op_n (prevout (vin ?tx ! k)))" "u32_ok (nSequence (vin ?tx ! k))"
      using g v(2) l(1) k by (simp_all add: gl_inv_def unsigned_tx_def list_all_length)
    ultimately show ?thesis using cached_input [OF _ _ h] v0 v h by (simp add: input_pieces_def)
  qed
  have o: "po_version (ro ! k) = 0 \<and> output_pieces (vout ?tx ! k) (ro ! k) \<and> i64_ok (nValue (vout ?tx ! k))" if "k < length ro" for k
    using ro outs v0 v that g l(2) by (simp add: list_all_length output_pieces_def gl_inv_def unsigned_tx_def)
  have "tx_pieces ?tx p"
    using i o l ri(2) ro(2) by (simp add: tx_pieces_def p list_all2_conv_all_nth)
  then show ?thesis
    using i o v0 v g by (auto simp: psbt_inv_def p gl_inv_def list_all_length output_pieces_def)
qed

lemma maps_inv_v2:
  assumes g: "gl_inv lp" and v2: "2 \<le> ps_version lp" "ps_tx_version lp \<noteq> None"
    and maps: "psbt_read_maps cr lp f = (Inr p, f')"
  shows "psbt_inv cr p"
proof -
  from maps obtain self where v: "ps_version self = ps_version lp" "ps_tx_version self = ps_tx_version lp"
    and ins: "\<forall>k<length (ps_inputs self). input_read cr self k (ps_inputs self ! k)"
    and outs: "list_all (\<lambda>out. psbt_output_inv out \<and> po_version out = ps_version self
          \<and> (2 \<le> ps_version self \<longrightarrow> po_amount out \<noteq> None \<and> po_script out \<noteq> [])) (ps_outputs self)"
    and cache: "cache_unsigned_tx_pieces self = Inr p"
    by (rule read_maps_parts [OF g])
  have p: "p = self" using cache v v2 by (simp add: cache_unsigned_tx_pieces_def)
  have "input_inv cr (ps_version self) i" if i: "input_read cr self k i" for i k
    using input_inv_parts [of i] i v2 v by (simp add: input_read_def outpoint_txid_def input_inv_def)
  with ins have "list_all (input_inv cr (ps_version self)) (ps_inputs self)"
    unfolding list_all_length by blast
  then show ?thesis using v2 v outs by (auto simp: psbt_inv_def p list_all_iff psbt_output_inv_def i64_ok_def)
qed

lemma psbt_read_inv:
  assumes "psbt_read cr (PSBT_new None) f = (Inr p, f')"
  shows "psbt_inv cr p"
proof -
  obtain f1 f2 lp where r: "kv_run gl_field {} (psbt_loop_start (PSBT_new None)) f1 = (Inr lp, f2)"
    and c: "version_constraints lp = Inr ()" and maps: "psbt_read_maps cr lp f2 = (Inr p, f')"
    using assms unfolding psbt_read_def rd_bind_eq_Inr by (auto simp: rd_bind_eq_Inr split: if_split_asm)
  have g: "gl_inv lp"
    by (rule global_map.run_invariant [where P = gl_inv, OF _ gl_inv_start r])
      (use gl_effect_inv gl_field_effect in blast)
  then have "0 \<le> ps_version lp" by (simp add: gl_inv_def)
  then consider "ps_version lp = 0" "lp_input_count lp = None" "lp_output_count lp = None" "ps_tx_modifiable lp = None"
    | "2 \<le> ps_version lp" "ps_tx_version lp \<noteq> None"
    using c by (auto simp: version_constraints_def Let_def split: if_split_asm)
  then show ?thesis using maps_inv_v0 [OF g _ _ _ _ maps] maps_inv_v2 [OF g _ _ maps] by cases blast+
qed

lemma psbt_deserialize_inv: "psbt_deserialize cr (PSBT_new None) s = Inr p \<Longrightarrow> psbt_inv cr p"
  using psbt_read_inv by (auto simp: psbt_deserialize_def) (metis prod.collapse)

end
