(* ===== verification/Psbt_Round_Trip.thy ===== *)
theory Psbt_Round_Trip
  imports Psbt
begin

text \<open>
  Writing a PSBT and reading it back, with what follows for the unsigned transaction and for the previous
  transactions the inputs carry.
\<close>

section \<open>One global field written and read back\<close>

lemmas gl_field_simps = gl_field_def rd_bind_def key_type_of_typed kv_field_value check_global_def gl_fields

definition gl_known_types :: "int set" where
  "gl_known_types = {0x00, 0x01, 0x02, 0x03, 0x04, 0x05, 0x06, 0xFB}"

lemma gl_read_u32:
  assumes "u32_ok x"
  shows "[2] \<notin> L \<Longrightarrow> gl_field [2] L m (str.encoding (le_bytes 4 (nat x)) @ f) = (Inr (m\<lparr>ps_tx_version := Some x\<rparr>), f)"
    and "[3] \<notin> L \<Longrightarrow> gl_field [3] L m (str.encoding (le_bytes 4 (nat x)) @ f) = (Inr (m\<lparr>ps_fallback_locktime := Some x\<rparr>), f)"
    and "[0xFB] \<notin> L \<Longrightarrow> gl_field [0xFB] L m (str.encoding (le_bytes 4 (nat x)) @ f)
      = (Inr (m\<lparr>ps_version := x, ps_explicit_version := True\<rparr>), f)"
  using u32_bytes [OF assms] by (simp_all add: gl_field_simps del: le_bytes.simps)

lemma gl_read_modifiable:
  assumes "0 \<le> x" and "x < 256" and "[6] \<notin> L"
  shows "gl_field [6] L m (str.encoding (le_bytes 1 (nat x)) @ f) = (Inr (m\<lparr>ps_tx_modifiable := Some x\<rparr>), f)"
  using assms unpack_pack_le [of x 1] by (simp add: gl_field_simps string_ok_def del: le_bytes.simps)

lemma compact_string:
  assumes "compact_ok n"
  shows "string_ok (compact.encoding n)"
    and "str.encoding (compact.encoding n) = compact.encoding (int (length (compact.encoding n))) @ compact.encoding n"
    and "compact_ok (int (length (compact.encoding n)))"
proof -
  have "length (compact.encoding n) \<le> 9"
    using ser_compact_size_length [OF compact.enc_encoding [OF assms]] by simp
  then show ok: "string_ok (compact.encoding n)" and c: "compact_ok (int (length (compact.encoding n)))"
    by (simp_all add: string_ok_def compact_ok_def)
  show "str.encoding (compact.encoding n) = compact.encoding (int (length (compact.encoding n))) @ compact.encoding n"
    using str.enc_encoding [OF ok] c by (simp add: ser_string_def res_concat_Cons compact.enc_encoding)
qed

lemma gl_read_count:
  assumes "compact_ok n"
  shows "[4] \<notin> L \<Longrightarrow> gl_field [4] L m (str.encoding (compact.encoding n) @ f) = (Inr (m\<lparr>lp_input_count := Some n\<rparr>), f)"
    and "[5] \<notin> L \<Longrightarrow> gl_field [5] L m (str.encoding (compact.encoding n) @ f) = (Inr (m\<lparr>lp_output_count := Some n\<rparr>), f)"
  using compact_string [OF assms] assms
  by (simp_all add: gl_field_simps gl_count_def compact.dec_encoding)

lemma gl_read_items:
  shows "length k = 78 \<Longrightarrow> string_ok b \<Longrightarrow> keyorigin_deserialize b = Inr ko \<Longrightarrow> \<not> dict_has d k \<Longrightarrow>
      gl_field (1 # k) L (m\<lparr>ps_xpub := d\<rparr>) (str.encoding b @ f) = (Inr (m\<lparr>ps_xpub := d @ [(k, ko)]\<rparr>), f)"
    and "string_ok v \<Longrightarrow> key_type_of k' = Inr t \<Longrightarrow> t \<notin> gl_known_types \<Longrightarrow> \<not> dict_has u k' \<Longrightarrow>
      gl_field k' L (m\<lparr>ps_unknown := u\<rparr>) (str.encoding v @ f) = (Inr (m\<lparr>ps_unknown := u @ [(k', v)]\<rparr>), f)"
  by (auto simp: gl_field_simps DeserializeHDKeypath_def update_fresh gl_known_types_def)

text \<open>A transaction as the unsigned one of a PSBT of version 0.\<close>

definition unsigned_ok :: "CTransaction \<Rightarrow> bool" where
  "unsigned_ok tx \<longleftrightarrow> tx_ok tx \<and> txwit_is_null (wit tx) \<and> list_all (\<lambda>txin. scriptSig txin = []) (vin tx)
     \<and> result_ok string_ok (tx_serialize_without_witness tx)"

definition without_witness :: "CTransaction \<Rightarrow> CTransaction" where
  "without_witness tx = tx\<lparr>wit := \<lparr>vtxinwit = []\<rparr>, tx_sha256 := None, tx_hash := None\<rparr>"

lemma gl_read_unsigned_tx:
  assumes ok: "unsigned_ok tx" and b: "tx_serialize_without_witness tx = Inr b" and "[0] \<notin> L"
  shows "gl_field [0] L m (str.encoding b @ f)
    = (Inr (m\<lparr>ps_tx := without_witness tx, lp_found_unsigned_tx := True\<rparr>), f)"
proof -
  have "tx_ok tx" "string_ok b" "list_all (\<lambda>txin. scriptSig txin = []) (vin tx)"
    using ok b by (auto simp: unsigned_ok_def result_ok_def)
  then have "tx_deserialize_without_witness b = (Inr (without_witness tx), [])"
    using deserialize_without_witness_eq [of tx "[]"] b tx_without_witness_eq [of tx]
    by (simp add: without_witness_def)
  then show ?thesis
    using \<open>string_ok b\<close> \<open>list_all _ _\<close> assms(3)
    by (auto simp: gl_field_simps without_witness_def list_ex_iff list_all_iff txwit_is_null_def)
qed

section \<open>The fields as parts of the global map\<close>

abbreviation gl_chunk where "gl_chunk \<equiv> kv_handler.chunk gl_field"

lemmas gl_chunk_append = global_map.chunk_append
lemmas gl_chunk_Nil = global_map.chunk_Nil

lemma gl_chunk_unsigned_tx:
  assumes "0x00 \<notin> T" and ok: "unsigned_ok tx"
  shows "gl_chunk T m [res_bind (ser_compact_size 0x00) ser_string,
      res_bind (fst (tx_serialize_with_witness tx)) (\<lambda>tx. ser_compact_size (int (length tx))), fst (tx_serialize_with_witness tx)]
    (insert 0x00 T) (m\<lparr>ps_tx := without_witness tx, lp_found_unsigned_tx := True\<rparr>)"
proof -
  obtain b where b: "tx_serialize_without_witness tx = Inr b" "string_ok b"
    using ok by (auto simp: unsigned_ok_def result_ok_def split: sum.splits)
  have w: "fst (tx_serialize_with_witness tx) = Inr b"
    using ok b by (simp add: with_witness_null unsigned_ok_def)
  have "gl_chunk T m [ser_typed 0x00 [] (Inr b)] (insert 0x00 T) (m\<lparr>ps_tx := without_witness tx, lp_found_unsigned_tx := True\<rparr>)"
    using gl_read_unsigned_tx [OF ok b(1)] assms(1) b(2) by (intro global_map.chunk_single) simp_all
  moreover have "res_concat [ser_typed 0x00 [] (Inr b)]
      = res_concat [res_bind (ser_compact_size 0x00) ser_string, ser_compact_size (int (length b)), Inr b]"
    using string_ok_compact [OF b(2)]
    by (simp add: ser_typed_def ser_pair_def ser_string_def res_concat_Cons res_concat_single compact.enc_encoding
        ser_compact_size_def [of 0] ser_compact_size_def [of 1])
  ultimately show ?thesis by (simp add: w global_map.chunk_def)
qed

lemma gl_chunk_xpub:
  assumes "0x01 \<notin> T" and ok: "hd_keypaths_ok [79] d" and "ps_xpub m = []"
  shows "gl_chunk T m [res_bind (ser_compact_size 0x01) (SerializeHDKeypath d)] (insert 0x01 T)
    (m\<lparr>ps_xpub := sorted_items d\<rparr>)"
proof -
  have "gl_chunk T (m\<lparr>ps_xpub := []\<rparr>) (map (\<lambda>(k, ko). ser_typed 0x01 k (keyorigin_serialize ko)) (sorted_items d))
      (insert 0x01 T) (m\<lparr>ps_xpub := sorted_items d\<rparr>)"
  proof (rule global_map.chunk_dict)
    fix k v L and d' :: "(bytes, KeyOriginInfo) dict" assume a: "(k, v) \<in> set (sorted_items d)" "\<not> dict_has d' k"
    have "length k = 78 \<and> keyorigin_ok v \<and> length (ko_path v) < 2 ^ 60"
      using ok a(1) by (auto simp: hd_keypaths_ok_def list_all_iff)
    with keyorigin_bytes [of v] obtain b where "keyorigin_serialize v = Inr b" "string_ok b"
      "keyorigin_deserialize b = Inr v" "length k = 78" by blast
    then show "string_ok (0x01 # k) \<and> (\<exists>b. keyorigin_serialize v = Inr b \<and> string_ok b
        \<and> (\<forall>f. gl_field (0x01 # k) L (m\<lparr>ps_xpub := d'\<rparr>) (str.encoding b @ f)
             = (Inr (m\<lparr>ps_xpub := d' @ [(k, v)]\<rparr>), f)))"
      using gl_read_items(1) [OF _ _ _ a(2)] by (auto simp: string_ok_def)
  qed (use assms in \<open>auto simp: hd_keypaths_ok_def\<close>)
  moreover have "m\<lparr>ps_xpub := []\<rparr> = m" using assms(3) by simp
  moreover have "ser_compact_size 1 = Inr [1]" by (simp add: ser_compact_size_def)
  ultimately show ?thesis using ser_keypath_typed [of 1 1 d] by (simp add: global_map.chunk_def)
qed

lemma gl_chunk_u32:
  shows "0x02 \<notin> T \<Longrightarrow> u32_ok x \<Longrightarrow> y = Some x \<Longrightarrow>
      gl_chunk T m [ser_typed 0x02 [] (case y of None \<Rightarrow> Inl AssertionErr | Some x \<Rightarrow> pack_le 4 x)] (insert 0x02 T)
        (m\<lparr>ps_tx_version := y\<rparr>)"
    and "0xFB \<notin> T \<Longrightarrow> u32_ok x \<Longrightarrow>
      gl_chunk T m [ser_typed 0xFB [] (pack_le 4 x)] (insert 0xFB T) (m\<lparr>ps_version := x, ps_explicit_version := True\<rparr>)"
  by (rule global_map.chunk_single [where b = "le_bytes 4 (nat x)"];
      simp add: u32_bytes gl_read_u32 del: le_bytes.simps)+

lemma gl_chunk_count:
  shows "0x04 \<notin> T \<Longrightarrow> compact_ok n \<Longrightarrow>
      gl_chunk T m [ser_typed 0x04 [] (ser_compact_size n)] (insert 0x04 T) (m\<lparr>lp_input_count := Some n\<rparr>)"
    and "0x05 \<notin> T \<Longrightarrow> compact_ok n \<Longrightarrow>
      gl_chunk T m [ser_typed 0x05 [] (ser_compact_size n)] (insert 0x05 T) (m\<lparr>lp_output_count := Some n\<rparr>)"
  by (rule global_map.chunk_single [where b = "compact.encoding n"];
      simp add: gl_read_count compact_string(1) compact.enc_encoding)+

lemma gl_chunk_fallback:
  "0x03 \<notin> T \<Longrightarrow> pred_option u32_ok x \<Longrightarrow> ps_fallback_locktime m = None \<Longrightarrow>
      gl_chunk T m (ser_option 0x03 (pack_le 4) x) (insert 0x03 T) (m\<lparr>ps_fallback_locktime := x\<rparr>)"
  by (rule global_map.chunk_option) (auto simp: u32_bytes gl_read_u32 simp del: le_bytes.simps)

lemma gl_chunk_modifiable:
  assumes "0x06 \<notin> T" and "pred_option (\<lambda>x. 0 \<le> x \<and> x < 256) x" and "ps_tx_modifiable m = None"
  shows "gl_chunk T m (ser_option 0x06 (pack_le 1) x) (insert 0x06 T) (m\<lparr>ps_tx_modifiable := x\<rparr>)"
proof (rule global_map.chunk_option)
  fix y assume "x = Some y"
  then have y: "0 \<le> y" "y < 256" using assms(2) by auto
  have "pack_le 1 y = Inr (le_bytes 1 (nat y)) \<and> string_ok (le_bytes 1 (nat y))
      \<and> (\<forall>L f. [6] \<notin> L \<longrightarrow> gl_field [6] L m (str.encoding (le_bytes 1 (nat y)) @ f) = (Inr (m\<lparr>ps_tx_modifiable := Some y\<rparr>), f))"
    using y gl_read_modifiable [OF y] by (simp add: pack_le_def string_ok_def)
  with \<open>x = Some y\<close> show "\<exists>b. pack_le 1 y = Inr b \<and> string_ok b
      \<and> (\<forall>L f. [6] \<notin> L \<longrightarrow> gl_field [6] L m (str.encoding b @ f) = (Inr (m\<lparr>ps_tx_modifiable := x\<rparr>), f))"
    by blast
qed (use assms in simp_all)

lemma gl_chunk_unknown:
  assumes ok: "unknown_ok gl_known_types d" and "ps_unknown m = []"
  shows "gl_chunk T m (map (\<lambda>(key, v). ser_pair (Inr key) (Inr v)) (sorted_items d)) UNIV
    (m\<lparr>ps_unknown := sorted_items d\<rparr>)"
proof -
  have "gl_chunk T (m\<lparr>ps_unknown := []\<rparr>) (map (\<lambda>(key, v). ser_pair (Inr key) (Inr v)) (sorted_items d)) UNIV
      (m\<lparr>ps_unknown := sorted_items d\<rparr>)"
    using unknown_okD [OF ok] gl_read_items(2) by (intro global_map.chunk_pairs) (assumption, blast+)
  moreover have "m\<lparr>ps_unknown := []\<rparr> = m" using assms(2) by simp
  ultimately show ?thesis by simp
qed

section \<open>The PSBTs the format can hold\<close>

definition psbt_ok :: "crypto \<Rightarrow> PSBT \<Rightarrow> bool" where
  "psbt_ok cr p \<longleftrightarrow>
     (ps_version p = 0 \<or> 2 \<le> ps_version p) \<and> ps_version p < 2 ^ 32
     \<and> (ps_version p = 0 \<longrightarrow> unsigned_ok (ps_tx p)
          \<and> list_all2 (\<lambda>txin i. \<forall>h. ser_uint256 (op_hash (prevout txin)) = Inr h \<longrightarrow> utxo_matches cr h i)
              (vin (ps_tx p)) (ps_inputs p)
          \<and> length (ps_outputs p) = length (vout (ps_tx p)))
     \<and> (2 \<le> ps_version p \<longrightarrow> ps_tx_version p \<noteq> None \<and> pred_option u32_ok (ps_tx_version p)
          \<and> pred_option u32_ok (ps_fallback_locktime p) \<and> pred_option (\<lambda>x. 0 \<le> x \<and> x < 256) (ps_tx_modifiable p)
          \<and> compact_ok (int (length (ps_inputs p))) \<and> compact_ok (int (length (ps_outputs p)))
          \<and> list_all (\<lambda>i. utxo_matches cr (pi_prev_txid i) i) (ps_inputs p))
     \<and> hd_keypaths_ok [79] (ps_xpub p) \<and> unknown_ok gl_known_types (ps_unknown p)
     \<and> list_all (\<lambda>i. psbt_input_ok i \<and> pi_version i = ps_version p) (ps_inputs p)
     \<and> list_all (\<lambda>out. psbt_output_ok out \<and> po_version out = ps_version p) (ps_outputs p)"

text \<open>The global map that is read back, and the whole PSBT before the fields of version 2 are filled in.\<close>

definition gl_normal :: "PSBT \<Rightarrow> PSBT_loop" where
  "gl_normal p =
     (let v2 = (2 \<le> ps_version p) in
      \<lparr>ps_tx = (if v2 then CTransaction_new else without_witness (ps_tx p)), ps_inputs = [], ps_outputs = [],
       ps_unknown = sorted_items (ps_unknown p), ps_xpub = sorted_items (ps_xpub p),
       ps_tx_version = (if v2 then ps_tx_version p else None),
       ps_fallback_locktime = (if v2 then ps_fallback_locktime p else None),
       ps_tx_modifiable = (if v2 then ps_tx_modifiable p else None),
       ps_version = ps_version p, ps_explicit_version = (0 < ps_version p \<or> ps_explicit_version p),
       lp_input_count = (if v2 then Some (int (length (ps_inputs p))) else None),
       lp_output_count = (if v2 then Some (int (length (ps_outputs p))) else None),
       lp_found_unsigned_tx = (\<not> v2)\<rparr>)"

definition psbt_normal :: "crypto \<Rightarrow> PSBT \<Rightarrow> PSBT" where
  "psbt_normal cr p = (PSBT.truncate (gl_normal p))
     \<lparr>ps_inputs := map (psbt_input_normal cr) (ps_inputs p), ps_outputs := map psbt_output_normal (ps_outputs p)\<rparr>"

lemma psbt_okD:
  assumes "psbt_ok cr p"
  shows "hd_keypaths_ok [79] (ps_xpub p)" "unknown_ok gl_known_types (ps_unknown p)" "u32_ok (ps_version p)"
    "ps_version p = 0 \<Longrightarrow> unsigned_ok (ps_tx p)"
    "2 \<le> ps_version p \<Longrightarrow> \<exists>x. ps_tx_version p = Some x \<and> u32_ok x"
    "2 \<le> ps_version p \<Longrightarrow> pred_option u32_ok (ps_fallback_locktime p)"
    "2 \<le> ps_version p \<Longrightarrow> pred_option (\<lambda>x. 0 \<le> x \<and> x < 256) (ps_tx_modifiable p)"
    "2 \<le> ps_version p \<Longrightarrow> compact_ok (int (length (ps_inputs p)))"
    "2 \<le> ps_version p \<Longrightarrow> compact_ok (int (length (ps_outputs p)))"
  using assms by (auto simp: psbt_ok_def u32_ok_def)

definition gl_pieces :: "PSBT \<Rightarrow> bytes result list" where
  "gl_pieces p =
     (if ps_version p = 0
      then [res_bind (ser_compact_size 0x00) ser_string,
            res_bind (fst (tx_serialize_with_witness (ps_tx p))) (\<lambda>tx. ser_compact_size (int (length tx))),
            fst (tx_serialize_with_witness (ps_tx p))] else [])
     @ [res_bind (ser_compact_size 0x01) (SerializeHDKeypath (ps_xpub p))]
     @ psbt_serialize_v2 p
     @ (if 0 < ps_version p \<or> ps_explicit_version p then [ser_typed 0xFB [] (pack_le 4 (ps_version p))] else [])
     @ map (\<lambda>(key, v). ser_pair (Inr key) (Inr v)) (sorted_items (ps_unknown p))"

lemmas gl_v2_fields = gl_chunk_append [OF gl_chunk_u32(1) gl_chunk_append [OF gl_chunk_fallback
  gl_chunk_append [OF gl_chunk_count(1) gl_chunk_append [OF gl_chunk_count(2) gl_chunk_modifiable]]]]

lemma gl_chunk_v2:
  assumes ok: "psbt_ok cr p" and v: "2 \<le> ps_version p" and "T \<inter> {0x02, 0x03, 0x04, 0x05, 0x06} = {}"
    and "ps_fallback_locktime m = None" "ps_tx_modifiable m = None"
  shows "gl_chunk T m (psbt_serialize_v2 p) (insert 0x06 (insert 0x05 (insert 0x04 (insert 0x03 (insert 0x02 T)))))
    (m\<lparr>ps_tx_version := ps_tx_version p, ps_fallback_locktime := ps_fallback_locktime p,
       lp_input_count := Some (int (length (ps_inputs p))), lp_output_count := Some (int (length (ps_outputs p))),
       ps_tx_modifiable := ps_tx_modifiable p\<rparr>)"
proof -
  obtain x where x: "ps_tx_version p = Some x" "u32_ok x" using psbt_okD(5) [OF ok v] by blast
  have pieces: "psbt_serialize_v2 p =
      [ser_typed 0x02 [] (case ps_tx_version p of None \<Rightarrow> Inl AssertionErr | Some x \<Rightarrow> pack_le 4 x)]
      @ ser_option 0x03 (pack_le 4) (ps_fallback_locktime p)
      @ [ser_typed 0x04 [] (ser_compact_size (int (length (ps_inputs p))))]
      @ [ser_typed 0x05 [] (ser_compact_size (int (length (ps_outputs p))))]
      @ ser_option 0x06 (pack_le 1) (ps_tx_modifiable p)"
    using v by (simp add: psbt_serialize_v2_def)
  show ?thesis
    unfolding pieces
    by (rule gl_v2_fields; (rule x psbt_okD(6-9) [OF ok v] | use assms in \<open>simp; fail\<close>))
qed

lemma gl_chunk_version:
  assumes "0xFB \<notin> T" and "u32_ok v" and "ps_version m = 0" and "\<not> ps_explicit_version m"
  shows "gl_chunk T m (if 0 < v \<or> e then [ser_typed 0xFB [] (pack_le 4 v)] else []) (insert 0xFB T)
    (m\<lparr>ps_version := v, ps_explicit_version := (0 < v \<or> e)\<rparr>)"
proof (cases "0 < v \<or> e")
  case True
  then show ?thesis using gl_chunk_u32(2) [OF assms(1, 2)] by simp
next
  case False
  then have "m\<lparr>ps_version := v, ps_explicit_version := (0 < v \<or> e)\<rparr> = m"
    using assms by (simp add: u32_ok_def)
  with False gl_chunk_Nil [of T "insert 0xFB T" m] show ?thesis by auto
qed

lemmas gl_all_v0 = gl_chunk_append [OF gl_chunk_unsigned_tx gl_chunk_append [OF gl_chunk_xpub
  gl_chunk_append [OF gl_chunk_version gl_chunk_unknown]]]

lemmas gl_all_v2 = gl_chunk_append [OF gl_chunk_xpub gl_chunk_append [OF gl_chunk_v2
  gl_chunk_append [OF gl_chunk_version gl_chunk_unknown]]]

lemmas loop_start_simps = psbt_loop_start_def PSBT.defs PSBT_loop.defs PSBT_new_def

lemma gl_chunk_all:
  assumes ok: "psbt_ok cr p"
  shows "gl_chunk {} (psbt_loop_start (PSBT_new None)) (gl_pieces p) UNIV (gl_normal p)"
proof (cases "2 \<le> ps_version p")
  case True
  have pieces: "gl_pieces p = [res_bind (ser_compact_size 0x01) (SerializeHDKeypath (ps_xpub p))]
     @ psbt_serialize_v2 p
     @ (if 0 < ps_version p \<or> ps_explicit_version p then [ser_typed 0xFB [] (pack_le 4 (ps_version p))] else [])
     @ map (\<lambda>(key, v). ser_pair (Inr key) (Inr v)) (sorted_items (ps_unknown p))"
    using True by (simp add: gl_pieces_def)
  have "\<exists>m. gl_chunk {} (psbt_loop_start (PSBT_new None)) (gl_pieces p) UNIV m \<and> m = gl_normal p"
    unfolding pieces
    by (rule exI, rule conjI, rule gl_all_v2;
        (rule psbt_okD(1-3) [OF ok] ok True | use True in \<open>simp add: loop_start_simps gl_normal_def Let_def; fail\<close>))
  then show ?thesis by simp
next
  case False
  then have v: "ps_version p = 0" using ok by (auto simp: psbt_ok_def)
  have pieces: "gl_pieces p = [res_bind (ser_compact_size 0x00) ser_string,
            res_bind (fst (tx_serialize_with_witness (ps_tx p))) (\<lambda>tx. ser_compact_size (int (length tx))),
            fst (tx_serialize_with_witness (ps_tx p))]
     @ [res_bind (ser_compact_size 0x01) (SerializeHDKeypath (ps_xpub p))]
     @ (if 0 < ps_version p \<or> ps_explicit_version p then [ser_typed 0xFB [] (pack_le 4 (ps_version p))] else [])
     @ map (\<lambda>(key, v). ser_pair (Inr key) (Inr v)) (sorted_items (ps_unknown p))"
    using v by (simp add: gl_pieces_def psbt_serialize_v2_def)
  have "\<exists>m. gl_chunk {} (psbt_loop_start (PSBT_new None)) (gl_pieces p) UNIV m \<and> m = gl_normal p"
    unfolding pieces
    by (rule exI, rule conjI, rule gl_all_v0;
        (rule psbt_okD(1-3) [OF ok] psbt_okD(4) [OF ok v] | use v in \<open>simp add: loop_start_simps gl_normal_def Let_def; fail\<close>))
  then show ?thesis by simp
qed

section \<open>The maps of the inputs and outputs\<close>

lemma rehash_idem:
  assumes "crypto_ok cr" and "tx_ok tx"
  shows "tx_rehash cr (snd (tx_rehash cr tx)) = tx_rehash cr tx"
proof -
  obtain b where b: "tx_serialize_without_witness tx = Inr b" using tx_without_witness_eq [OF assms(2)] by blast
  have same: "tx_serialize_without_witness (tx\<lparr>tx_sha256 := c\<rparr>) = Inr b"
    "tx_serialize_without_witness (tx\<lparr>tx_sha256 := c, tx_hash := h\<rparr>) = Inr b"
    "tx_serialize_without_witness (tx\<lparr>tx_hash := h, tx_sha256 := c\<rparr>) = Inr b" for c h
    using b by (simp_all add: tx_serialize_without_witness_def)
  have "uint256_from_str (hash256 cr b) = Inr (int (le_val (hash256 cr b)))"
    using assms(1) by (intro uint256_from_str_eq) simp
  then show ?thesis
    using same by (simp add: tx_rehash_def tx_calc_sha256_def tx_serialize_def)
qed

lemma utxo_checked:
  assumes cr: "crypto_ok cr" and ok: "psbt_input_ok x" and h: "outpoint_txid self i (psbt_input_normal cr x) h"
    and m: "utxo_matches cr h x"
  shows "check_utxo cr self i (psbt_input_normal cr x) = Inr (psbt_input_normal cr x)"
proof -
  have h': "(if 2 \<le> ps_version self then Inr (pi_prev_txid (psbt_input_normal cr x))
        else res_bind (py_nth (vin (ps_tx self)) i) (\<lambda>txin. ser_uint256 (op_hash (prevout txin)))) = Inr h"
    using h by (auto simp: outpoint_txid_def py_nth_def)
  show ?thesis
  proof (cases "pi_non_witness_utxo x")
    case None
    then show ?thesis unfolding check_utxo_def h' by (simp add: psbt_input_normal_def Let_def)
  next
    case (Some tx)
    let ?t = "tx_normal tx"
    have "utxo_ok tx" using ok Some by (simp add: psbt_input_ok_def)
    then have t: "tx_ok tx" by (simp add: utxo_ok_def)
    then have n: "tx_ok ?t" using pad_witness_facts(1) by (auto simp: tx_normal_def tx_ok_def)
    have s: "tx_serialize_without_witness ?t = tx_serialize_without_witness tx"
      by (simp add: tx_normal_def tx_serialize_without_witness_def pad_witness_def Let_def)
    have u: "pi_non_witness_utxo (psbt_input_normal cr x) = Some (snd (tx_rehash cr ?t))"
      using Some by (simp add: psbt_input_normal_def Let_def)
    have nn: "(psbt_input_normal cr x)\<lparr>pi_non_witness_utxo := Some (snd (tx_rehash cr ?t))\<rparr> = psbt_input_normal cr x"
      using Some by (simp add: psbt_input_normal_def Let_def)
    have "fst (tx_rehash cr ?t) = Inr ()" "tx_hash (snd (tx_rehash cr ?t)) = Some h"
      using tx_rehash_ok [OF cr n] m Some s by (auto simp: utxo_matches_def result_ok_def split: sum.splits)
    with rehash_idem [OF cr n] show ?thesis
      unfolding check_utxo_def h'
      using nn by (cases "tx_rehash cr ?t") (simp add: u)
  qed
qed

definition input_bytes :: "(bytes set \<Rightarrow> bytes list) \<Rightarrow> PartiallySignedInput \<Rightarrow> bytes" where
  "input_bytes it x = (case fst (psbt_input_serialize it x) of Inr b \<Rightarrow> b | Inl _ \<Rightarrow> [])"

definition output_bytes :: "(bytes set \<Rightarrow> bytes list) \<Rightarrow> PartiallySignedOutput \<Rightarrow> bytes" where
  "output_bytes it x = (case psbt_output_serialize it x of Inr b \<Rightarrow> b | Inl _ \<Rightarrow> [])"

lemma input_bytes:
  assumes "crypto_ok cr" and "iteration_ok it" and "psbt_input_ok x"
  shows "fst (psbt_input_serialize it x) = Inr (input_bytes it x)"
    and "psbt_input_deserialize cr (psbt_input_new (pi_version x)) (input_bytes it x @ f) = (Inr (psbt_input_normal cr x), f)"
    and "input_bytes it x \<noteq> []"
proof -
  obtain b where b: "fst (psbt_input_serialize it x) = Inr b"
    "\<And>f. psbt_input_deserialize cr (psbt_input_new (pi_version x)) (b @ f) = (Inr (psbt_input_normal cr x), f)"
    using psbt_input_read_back [OF assms] by blast
  then show "fst (psbt_input_serialize it x) = Inr (input_bytes it x)"
    and "psbt_input_deserialize cr (psbt_input_new (pi_version x)) (input_bytes it x @ f) = (Inr (psbt_input_normal cr x), f)"
    by (simp_all add: input_bytes_def)
  show "input_bytes it x \<noteq> []"
  proof
    assume "input_bytes it x = []"
    with b have "psbt_input_deserialize cr (psbt_input_new (pi_version x)) [0] = (Inr (psbt_input_normal cr x), [0])"
      by (metis append_Nil input_bytes_def old.sum.simps(6))
    moreover have "kv_run (in_field cr) {} (psbt_input_new (pi_version x)) [0] = (Inr (psbt_input_new (pi_version x)), [])"
      by (rule input_map.run_separator)
    ultimately show False by (simp add: psbt_input_deserialize_def rd_bind_def split: sum.splits)
  qed
qed

lemma output_bytes:
  assumes "iteration_ok it" and "psbt_output_ok x"
  shows "psbt_output_serialize it x = Inr (output_bytes it x)"
    and "psbt_output_deserialize (psbt_output_new (po_version x)) (output_bytes it x @ f) = (Inr (psbt_output_normal x), f)"
    and "output_bytes it x \<noteq> []"
proof -
  obtain b where b: "psbt_output_serialize it x = Inr b"
    "\<And>f. psbt_output_deserialize (psbt_output_new (po_version x)) (b @ f) = (Inr (psbt_output_normal x), f)"
    using psbt_output_read_back [OF assms] by blast
  then show "psbt_output_serialize it x = Inr (output_bytes it x)"
    and "psbt_output_deserialize (psbt_output_new (po_version x)) (output_bytes it x @ f) = (Inr (psbt_output_normal x), f)"
    by (simp_all add: output_bytes_def)
  show "output_bytes it x \<noteq> []"
  proof
    assume "output_bytes it x = []"
    with b have "psbt_output_deserialize (psbt_output_new (po_version x)) [0] = (Inr (psbt_output_normal x), [0])"
      by (metis append_Nil output_bytes_def old.sum.simps(6))
    moreover have "kv_run out_field {} (psbt_output_new (po_version x)) [0] = (Inr (psbt_output_new (po_version x)), [])"
      by (rule output_map.run_separator)
    ultimately show False by (simp add: psbt_output_deserialize_def rd_bind_def split: sum.splits)
  qed
qed

definition utxo_fits :: "crypto \<Rightarrow> PSBT \<Rightarrow> nat \<Rightarrow> PartiallySignedInput \<Rightarrow> bool" where
  "utxo_fits cr self i x \<longleftrightarrow> (\<exists>h. outpoint_txid self i (psbt_input_normal cr x) h \<and> utxo_matches cr h x)"

lemma utxo_fits_cong:
  "ps_version a = ps_version b \<Longrightarrow> ps_tx a = ps_tx b \<Longrightarrow> utxo_fits cr a = utxo_fits cr b"
  by (simp add: utxo_fits_def outpoint_txid_def fun_eq_iff)

lemma read_inputs_concat:
  assumes cr: "crypto_ok cr" and it: "iteration_ok it"
    and "list_all (\<lambda>x. psbt_input_ok x \<and> pi_version x = ps_version self) xs"
    and "\<forall>k<length xs. utxo_fits cr self (i + k) (xs ! k)"
  shows "read_inputs cr (length xs) i self (concat (map (input_bytes it) xs) @ f)
    = (Inr (self\<lparr>ps_inputs := ps_inputs self @ map (psbt_input_normal cr) xs\<rparr>), f)"
  using assms(3, 4)
proof (induction xs arbitrary: i self)
  case Nil
  then show ?case by simp
next
  case (Cons x xs)
  let ?self = "self\<lparr>ps_inputs := ps_inputs self @ [psbt_input_normal cr x]\<rparr>"
  have x: "psbt_input_ok x" "pi_version x = ps_version self" using Cons.prems(1) by auto
  note b = input_bytes [OF cr it x(1)]
  have "utxo_fits cr self i x" using Cons.prems(2) [rule_format, of 0] by simp
  then have "check_utxo cr self i (psbt_input_normal cr x) = Inr (psbt_input_normal cr x)"
    using utxo_checked [OF cr x(1)] by (auto simp: utxo_fits_def)
  moreover have "read_inputs cr (length xs) (Suc i) ?self (concat (map (input_bytes it) xs) @ f)
      = (Inr (?self\<lparr>ps_inputs := ps_inputs ?self @ map (psbt_input_normal cr) xs\<rparr>), f)"
  proof (rule Cons.IH)
    show "\<forall>k<length xs. utxo_fits cr ?self (Suc i + k) (xs ! k)"
      using Cons.prems(2) utxo_fits_cong [of ?self self] by force
  qed (use Cons.prems(1) in simp)
  ultimately show ?case
    using b(2) [of "concat (map (input_bytes it) xs) @ f"] b(3) by (simp add: rd_bind_def x(2))
qed

lemma read_outputs_concat:
  assumes it: "iteration_ok it" and "list_all (\<lambda>x. psbt_output_ok x \<and> po_version x = ps_version self) xs"
  shows "read_outputs (length xs) self (concat (map (output_bytes it) xs) @ f)
    = (Inr (self\<lparr>ps_outputs := ps_outputs self @ map psbt_output_normal xs\<rparr>), f)"
  using assms(2)
proof (induction xs arbitrary: self)
  case (Cons x xs)
  let ?self = "self\<lparr>ps_outputs := ps_outputs self @ [psbt_output_normal x]\<rparr>"
  have x: "psbt_output_ok x" "po_version x = ps_version self" using Cons.prems by auto
  note b = output_bytes [OF it x(1)]
  have "read_outputs (length xs) ?self (concat (map (output_bytes it) xs) @ f)
      = (Inr (?self\<lparr>ps_outputs := ps_outputs ?self @ map psbt_output_normal xs\<rparr>), f)"
    by (rule Cons.IH) (use Cons.prems in simp)
  then show ?case
    using b(2) [of "concat (map (output_bytes it) xs) @ f"] b(3) by (simp add: rd_bind_def x(2))
qed simp

section \<open>Whole PSBTs\<close>

lemma version_constraints_normal:
  assumes "psbt_ok cr p"
  shows "version_constraints (gl_normal p) = Inr ()"
  using assms by (auto simp: psbt_ok_def version_constraints_def gl_normal_def Let_def)

lemma utxo_fits_normal:
  assumes ok: "psbt_ok cr p" and k: "k < length (ps_inputs p)"
  shows "utxo_fits cr (PSBT.truncate (gl_normal p)) k (ps_inputs p ! k)"
proof (cases "2 \<le> ps_version p")
  case True
  then show ?thesis
    using ok k by (auto simp: psbt_ok_def list_all_length utxo_fits_def outpoint_txid_def truncate_simps gl_normal_def
        psbt_input_normal_def Let_def)
next
  case False
  then have v: "ps_version p = 0" using ok by (auto simp: psbt_ok_def)
  then have "list_all2 (\<lambda>txin i. \<forall>h. ser_uint256 (op_hash (prevout txin)) = Inr h \<longrightarrow> utxo_matches cr h i)
      (vin (ps_tx p)) (ps_inputs p)" using ok by (auto simp: psbt_ok_def)
  moreover obtain h where "ser_uint256 (op_hash (prevout (vin (ps_tx p) ! k))) = Inr h"
    by (simp only: ser_uint256_eq sum.inject)
  ultimately show ?thesis
    using k v by (auto simp: list_all2_conv_all_nth utxo_fits_def outpoint_txid_def truncate_simps gl_normal_def
        without_witness_def Let_def)
qed

lemma read_maps_back:
  assumes cr: "crypto_ok cr" and it: "iteration_ok it" and ok: "psbt_ok cr p"
  shows "psbt_read_maps cr (gl_normal p) (concat (map (input_bytes it) (ps_inputs p))
      @ concat (map (output_bytes it) (ps_outputs p)))
    = (cache_unsigned_tx_pieces (psbt_normal cr p), [])"
proof -
  let ?self = "PSBT.truncate (gl_normal p)"
  have v: "ps_version ?self = ps_version p" "ps_inputs ?self = []" "ps_outputs ?self = []"
    by (simp_all add: truncate_simps gl_normal_def Let_def)
  have n: "(case lp_input_count (gl_normal p) of None \<Rightarrow> length (vin (ps_tx ?self)) | Some n \<Rightarrow> nat n) = length (ps_inputs p)"
    "(case lp_output_count (gl_normal p) of None \<Rightarrow> length (vout (ps_tx ?self)) | Some n \<Rightarrow> nat n) = length (ps_outputs p)"
    using ok by (auto simp: psbt_ok_def gl_normal_def Let_def truncate_simps without_witness_def list_all2_conv_all_nth)
  have i: "read_inputs cr (length (ps_inputs p)) 0 ?self (concat (map (input_bytes it) (ps_inputs p)) @ f)
      = (Inr (?self\<lparr>ps_inputs := map (psbt_input_normal cr) (ps_inputs p)\<rparr>), f)" for f
    using read_inputs_concat [OF cr it, of ?self "ps_inputs p" 0 f] ok utxo_fits_normal [OF ok] v
    by (simp add: psbt_ok_def)
  let ?self' = "?self\<lparr>ps_inputs := map (psbt_input_normal cr) (ps_inputs p)\<rparr>"
  have o: "read_outputs (length (ps_outputs p)) ?self' (concat (map (output_bytes it) (ps_outputs p)))
      = (Inr (psbt_normal cr p), [])"
    using read_outputs_concat [OF it, of ?self' "ps_outputs p" "[]"] ok v by (simp add: psbt_ok_def psbt_normal_def)
  have l: "length (ps_inputs ?self') = length (ps_inputs p)" "length (ps_outputs (psbt_normal cr p)) = length (ps_outputs p)"
    by (simp_all add: psbt_normal_def)
  show ?thesis
    unfolding psbt_read_maps_def Let_def n rd_bind_def i prod.case sum.case l(1) simp_thms if_False o l(2)
    by (simp add: rd_lift_def)
qed

lemma psbt_pieces:
  assumes cr: "crypto_ok cr" and it: "iteration_ok it" and ok: "psbt_ok cr p"
  shows "\<exists>bs. res_concat ([Inr psbt_magic] @ gl_pieces p @ [Inr [0]] @ map (fst \<circ> psbt_input_serialize it) (ps_inputs p)
        @ map (psbt_output_serialize it) (ps_outputs p)) = Inr bs
    \<and> psbt_read cr (PSBT_new None) bs = (cache_unsigned_tx_pieces (psbt_normal cr p), [])"
proof -
  obtain g where g: "res_concat (gl_pieces p @ [Inr [0]]) = Inr g"
    "\<And>f. kv_run gl_field {} (psbt_loop_start (PSBT_new None)) (g @ f) = (Inr (gl_normal p), f)"
    using global_map.chunk_read [OF gl_chunk_all [OF ok]] by blast
  let ?i = "concat (map (input_bytes it) (ps_inputs p))" and ?o = "concat (map (output_bytes it) (ps_outputs p))"
  have i: "res_concat (map (fst \<circ> psbt_input_serialize it) (ps_inputs p)) = Inr ?i"
    by (rule res_concat_map_Inr) (use ok input_bytes(1) [OF cr it] in \<open>auto simp: psbt_ok_def list_all_iff\<close>)
  have o: "res_concat (map (psbt_output_serialize it) (ps_outputs p)) = Inr ?o"
    by (rule res_concat_map_Inr) (use ok output_bytes(1) [OF it] in \<open>auto simp: psbt_ok_def list_all_iff\<close>)
  have "res_concat ([Inr psbt_magic] @ (gl_pieces p @ [Inr [0]]) @ map (fst \<circ> psbt_input_serialize it) (ps_inputs p)
        @ map (psbt_output_serialize it) (ps_outputs p)) = Inr (psbt_magic @ g @ ?i @ ?o)"
    by (simp only: res_concat_append [of "gl_pieces p @ [Inr [0]]"] res_concat_append [of "[Inr psbt_magic]"]
        res_concat_append [of "map (fst \<circ> psbt_input_serialize it) (ps_inputs p)"] g i o res_bind_simps res_concat_single)
  moreover have "psbt_read cr (PSBT_new None) (psbt_magic @ g @ ?i @ ?o) = (cache_unsigned_tx_pieces (psbt_normal cr p), [])"
    using g(2) [of "?i @ ?o"] version_constraints_normal [OF ok] read_maps_back [OF assms]
    by (simp add: psbt_read_def rd_bind_def py_read_def psbt_magic_def)
  ultimately show ?thesis by simp
qed

lemma cache_normal_ok:
  assumes ok: "psbt_ok cr p"
  shows "\<exists>q. cache_unsigned_tx_pieces (psbt_normal cr p) = Inr q"
proof (cases "2 \<le> ps_version p")
  case True
  then show ?thesis by (simp add: cache_unsigned_tx_pieces_def psbt_normal_def truncate_simps gl_normal_def Let_def)
next
  case False
  then have v: "ps_version p = 0" using ok by (auto simp: psbt_ok_def)
  then have l: "length (vin (ps_tx p)) = length (ps_inputs p)" "length (vout (ps_tx p)) = length (ps_outputs p)"
    using ok by (auto simp: psbt_ok_def list_all2_conv_all_nth)
  let ?q = "psbt_normal cr p"
  have q: "ps_tx ?q = without_witness (ps_tx p)" "length (ps_inputs ?q) = length (ps_inputs p)"
    "length (ps_outputs ?q) = length (ps_outputs p)" "ps_version ?q = 0"
    using v by (simp_all add: psbt_normal_def truncate_simps gl_normal_def Let_def)
  then obtain a b where "setup_inputs (vin (ps_tx ?q)) (ps_inputs ?q) = Inr a"
    "setup_outputs (vout (ps_tx ?q)) (ps_outputs ?q) = Inr b"
    using setup_inputs_nth [of "vin (ps_tx ?q)" "ps_inputs ?q"] setup_outputs_nth [of "vout (ps_tx ?q)" "ps_outputs ?q"] l
    by (auto simp: without_witness_def)
  then show ?thesis using q by (simp add: cache_unsigned_tx_pieces_def setup_from_tx_def)
qed

lemma psbt_read_back:
  assumes "crypto_ok cr" and "iteration_ok it" and ok: "psbt_ok cr p"
  shows "\<exists>s p' q. psbt_serialize it p = Inr (s, p')
    \<and> psbt_deserialize cr (PSBT_new None) s = Inr q \<and> cache_unsigned_tx_pieces (psbt_normal cr p) = Inr q"
proof -
  obtain bs where b: "res_concat ([Inr psbt_magic] @ gl_pieces p @ [Inr [0]] @ map (fst \<circ> psbt_input_serialize it) (ps_inputs p)
        @ map (psbt_output_serialize it) (ps_outputs p)) = Inr bs"
    "psbt_read cr (PSBT_new None) bs = (cache_unsigned_tx_pieces (psbt_normal cr p), [])"
    using psbt_pieces [OF assms] by blast
  obtain q where q: "cache_unsigned_tx_pieces (psbt_normal cr p) = Inr q" using cache_normal_ok [OF ok] by blast
  have "\<exists>p'. psbt_serialize it p = Inr (b64encode bs, p')"
    using b(1) unfolding psbt_serialize_def Let_def gl_pieces_def append_assoc map_map by (simp only: res_bind_simps) blast
  with b(2) q show ?thesis by (auto simp: psbt_deserialize_def)
qed

end
