(* ===== verification/Psbt_Spec.thy ===== *)
theory Psbt_Spec
  imports Psbt_Round_Trip
begin

text \<open>
  What readers and writers of whole PSBTs guarantee: the round trip, the invariant of every accepted PSBT, the
  previous transactions bound to the outpoints, and the conversions between the versions.
\<close>

text \<open>
  C1: a PSBT of version 0 or 2 whose parts fit the format, and whose previous transactions are those its
  outpoints name, is written without an exception, whatever the order in which Python iterates over its
  sets, and a fresh PSBT reads the string back without an exception and becomes the PSBT in normal form
  (dictionaries sorted by key, transactions rehashed), with the fields of version 2 filled in for version 0.
\<close>

theorem psbt_round_trip:
  assumes "crypto_ok cr" and "iteration_ok it" and "psbt_ok cr p"
  shows "\<exists>s p' q. psbt_serialize it p = Inr (s, p')
    \<and> psbt_deserialize cr (PSBT_new None) s = Inr q \<and> cache_unsigned_tx_pieces (psbt_normal cr p) = Inr q"
  by (rule psbt_read_back [OF assms])

text \<open>An example of version 0: the input carries the transaction it spends.\<close>

definition example_psbt :: PSBT where
  "example_psbt = (PSBT_new (Some \<lparr>nVersion = 2, vin = [txin_new (Some \<lparr>op_hash = 1, op_n = 0\<rparr>) [] 0xfffffffd],
       vout = [txout_new 4000 [0x51]], wit = \<lparr>vtxinwit = []\<rparr>, nLockTime = 7, tx_sha256 = None, tx_hash = None\<rparr>))
     \<lparr>ps_inputs := [(psbt_input_new 0)\<lparr>pi_non_witness_utxo := Some CTransaction_new\<rparr>],
      ps_outputs := [(psbt_output_new 0)\<lparr>po_redeem_script := [1, 2]\<rparr>],
      ps_unknown := [([0xfc, 1], [2, 3])]\<rparr>"

lemma example_unsigned: "unsigned_ok (ps_tx example_psbt)"
proof -
  have "\<exists>b. ser_uint256 1 = Inr b \<and> length b = 32" by (simp add: ser_uint256_eq del: le_bytes.simps)
  then obtain b where b: "ser_uint256 1 = Inr b" "length b = 32" by blast
  show ?thesis
    unfolding unsigned_ok_def
    by (intro conjI; simp add: example_psbt_def PSBT_new_def tx_ok_def txin_new_def txout_new_def txin.vector_ok_def
        txout.vector_ok_def txin_ok_def txout_ok_def outpoint_ok_def uint256_ok_def u32_ok_def i32_ok_def i64_ok_def
        string_ok_def txwit_is_null_def result_ok_def tx_serialize_without_witness_def ser_vector_def
        ser_compact_size_def txin_serialize_def outpoint_serialize_def txout_serialize_def b pack_le_def pack_les_def
        res_concat_Cons ser_string_def del: le_bytes.simps)
qed

lemma example_input_fits: "psbt_input_ok (ps_inputs example_psbt ! 0)"
  unfolding psbt_input_ok_def
  by (intro conjI; simp add: example_psbt_def psbt_input_new_def utxo_ok_def tx_ok_def CTransaction_new_def i32_ok_def
      txin.vector_ok_def txout.vector_ok_def u32_ok_def txwit_is_null_def tx_serialize_with_witness_def pad_witness_def
      ser_vector_def ser_compact_size_def pack_le_def pack_les_def tx_serialize_without_witness_def
      string_ok_def dict_ok_def hd_keypaths_ok_def CTxInWitness_new_def inwit_ok_def
      str.vector_ok_def inwit_serialize_def ser_string_vector_def res_concat_Cons result_ok_def
      tap_scripts_ok_def tap_keypaths_ok_def participants_ok_def musig2_ok_def unknown_ok_def del: le_bytes.simps)

lemma example_output_fits: "psbt_output_ok (ps_outputs example_psbt ! 0)"
  unfolding psbt_output_ok_def
  by (intro conjI; simp add: example_psbt_def psbt_output_new_def string_ok_def
      dict_ok_def hd_keypaths_ok_def tap_keypaths_ok_def participants_ok_def unknown_ok_def result_ok_def)

lemma le_bytes_zero: "le_bytes n 0 = replicate n 0"
  by (induction n) simp_all

lemma le_bytes_one: "le_bytes (Suc n) 1 = 1 # replicate n 0"
  by (simp add: le_bytes_zero)

lemma example_utxo: "utxo_matches pad_crypto (1 # replicate 31 0) (ps_inputs example_psbt ! 0)"
  "ser_uint256 1 = Inr (1 # replicate 31 0)"
proof -
  have l: "le_bytes 4 1 = [1, 0, 0, 0]" "le_bytes 4 0 = [0, 0, 0, 0]"
    using le_bytes_one [of 3] le_bytes_zero [of 4] by (simp_all add: numeral_nat del: le_bytes.simps)
  have "pack_les 4 1 = Inr (le_bytes 4 1)" "pack_le 4 0 = Inr (le_bytes 4 0)" "pack_le 1 0 = Inr [0]"
    by (simp_all add: pack_les_def pack_le_def del: le_bytes.simps) (simp add: le_bytes_zero)
  then have p: "pack_les 4 1 = Inr [1, 0, 0, 0]" "pack_le 4 0 = Inr [0, 0, 0, 0]" "ser_compact_size 0 = Inr [0]"
    unfolding l by (simp_all add: ser_compact_size_def)
  have "replicate 9 (0 :: byte) = [0, 0, 0, 0, 0, 0, 0, 0, 0]" by (simp add: numeral_nat)
  then have "tx_serialize_without_witness CTransaction_new = Inr (1 # replicate 9 0)"
    by (simp add: tx_serialize_without_witness_def CTransaction_new_def ser_vector_def p)
  moreover have "pad_to 32 (1 # replicate n 0) = 1 # replicate 31 0" for n
    unfolding pad_to_def append_Cons replicate_add [symmetric] by simp
  ultimately show "utxo_matches pad_crypto (1 # replicate 31 0) (ps_inputs example_psbt ! 0)"
    by (simp add: utxo_matches_def example_psbt_def psbt_input_new_def result_ok_def hash256_def pad_crypto_def)
  have "(32 :: nat) = Suc 31" by simp
  then show "ser_uint256 1 = Inr (1 # replicate 31 0)"
    using le_bytes_one [of 31] by (simp add: ser_uint256_eq)
qed

lemma example_psbt_ok: "psbt_ok pad_crypto example_psbt"
  using example_unsigned example_input_fits example_output_fits example_utxo
  unfolding psbt_ok_def
  by (intro conjI; simp add: example_psbt_def PSBT_new_def psbt_input_new_def psbt_output_new_def txin_new_def
      hd_keypaths_ok_def unknown_ok_def dict_ok_def pair_ok_def key_type_of_typed gl_known_types_def string_ok_def result_ok_def)

theorem psbt_round_trip_witness:
  "\<exists>s p' q. psbt_serialize sorted_list_of_set example_psbt = Inr (s, p')
    \<and> psbt_deserialize pad_crypto (PSBT_new None) s = Inr q
    \<and> cache_unsigned_tx_pieces (psbt_normal pad_crypto example_psbt) = Inr q"
  by (rule psbt_round_trip [OF crypto_ok_pad_crypto iteration_ok_sorted example_psbt_ok])

text \<open>What the string of the example is read as: an input that carries its transaction.\<close>

lemma example_accepted:
  "\<exists>s q. psbt_deserialize pad_crypto (PSBT_new None) s = Inr q \<and> ps_version q = 0 \<and> length (ps_inputs q) = 1
     \<and> pi_non_witness_utxo (ps_inputs q ! 0) \<noteq> None"
proof -
  obtain s q where s: "psbt_deserialize pad_crypto (PSBT_new None) s = Inr q"
    and q: "cache_unsigned_tx_pieces (psbt_normal pad_crypto example_psbt) = Inr q"
    using psbt_read_back [OF crypto_ok_pad_crypto iteration_ok_sorted example_psbt_ok] by blast
  have "ps_version q = 0 \<and> length (ps_inputs q) = 1 \<and> pi_non_witness_utxo (ps_inputs q ! 0) \<noteq> None"
    using q by (auto simp: cache_unsigned_tx_pieces_def setup_from_tx_def psbt_normal_def gl_normal_def example_psbt_def
        PSBT_new_def PSBT.defs without_witness_def psbt_input_normal_def Let_def psbt_input_new_def split: if_splits)
  with s show ?thesis by blast
qed

section \<open>What acceptance means\<close>

text \<open>
  C3: whatever string is accepted, the PSBT is of version 0 or at least 2, has a transaction version, and
  its inputs and outputs are of the same version. Each input has an outpoint, a 32-byte id and an output index of 32
  bits, the sequence number, if there is one, has 32 bits, and a required lock time, if there is one, is in its range:
  a time from 500000000 up and below 2^32, a height below 500000000 and not zero. A previous transaction it carries is
  the one with the id. Each output has an amount, a signed 64-bit integer, and from version 2 on a script. In
  version 0 there are no required lock times and no modifiable flags, the transaction has no signatures, there are as
  many inputs and outputs as it has, and the fields of version 2 are those of the transaction.
\<close>

theorem psbt_reader_sound:
  assumes "psbt_deserialize cr (PSBT_new None) s = Inr p"
  shows "psbt_inv cr p"
  by (rule psbt_deserialize_inv [OF assms])

theorem psbt_reader_sound_witness:
  "\<exists>s q. psbt_deserialize pad_crypto (PSBT_new None) s = Inr q \<and> psbt_inv pad_crypto q"
  using example_accepted psbt_reader_sound by blast

text \<open>
  C2: a previous transaction in an accepted PSBT is the one the input spends: the double SHA-256 of its
  serialization without witness is the id of the outpoint, in version 0 the one in the unsigned transaction.
\<close>

theorem psbt_utxo_committed:
  assumes "psbt_deserialize cr (PSBT_new None) s = Inr p" and "i < length (ps_inputs p)"
    and "pi_non_witness_utxo (ps_inputs p ! i) = Some utxo"
  shows "\<exists>b. tx_serialize_without_witness utxo = Inr b \<and> pi_prev_txid (ps_inputs p ! i) = hash256 cr b
    \<and> (ps_version p = 0 \<longrightarrow> ser_uint256 (op_hash (prevout (vin (ps_tx p) ! i))) = Inr (hash256 cr b))"
proof -
  have inv: "psbt_inv cr p" by (rule psbt_deserialize_inv [OF assms(1)])
  then have "utxo_matches cr (pi_prev_txid (ps_inputs p ! i)) (ps_inputs p ! i)"
    using assms(2) by (simp add: psbt_inv_def list_all_length input_inv_def)
  then obtain b where b: "tx_serialize_without_witness utxo = Inr b" "hash256 cr b = pi_prev_txid (ps_inputs p ! i)"
    using assms(3) by (auto simp: utxo_matches_def result_ok_def split: sum.splits)
  have "ps_version p = 0 \<Longrightarrow> ser_uint256 (op_hash (prevout (vin (ps_tx p) ! i))) = Inr (pi_prev_txid (ps_inputs p ! i))"
    using inv assms(2) by (simp add: psbt_inv_def tx_pieces_def list_all2_conv_all_nth input_pieces_def)
  with b show ?thesis by auto
qed

theorem psbt_utxo_committed_witness:
  "\<exists>s p utxo b. psbt_deserialize pad_crypto (PSBT_new None) s = Inr p \<and> pi_non_witness_utxo (ps_inputs p ! 0) = Some utxo
     \<and> tx_serialize_without_witness utxo = Inr b \<and> pi_prev_txid (ps_inputs p ! 0) = hash256 pad_crypto b"
proof -
  obtain s p where s: "psbt_deserialize pad_crypto (PSBT_new None) s = Inr p" "length (ps_inputs p) = 1"
    "pi_non_witness_utxo (ps_inputs p ! 0) \<noteq> None"
    using example_accepted by blast
  then obtain utxo where "pi_non_witness_utxo (ps_inputs p ! 0) = Some utxo" by blast
  with psbt_utxo_committed [OF s(1) _ this] s show ?thesis by auto
qed

section \<open>Conversions\<close>

lemma unsigned_input_pieces:
  assumes "input_pieces txin i" and "scriptSig txin = []" and "uint256_ok (op_hash (prevout txin))"
  shows "unsigned_input (i\<lparr>pi_version := v\<rparr>) = Inr txin"
proof -
  have h: "ser_uint256 (op_hash (prevout txin)) = Inr (pi_prev_txid i)" using assms(1) by (simp add: input_pieces_def)
  then have "uint256_from_str (pi_prev_txid i) = Inr (op_hash (prevout txin))"
    using ser_uint256_val [OF assms(3) h] ser_uint256_length [OF h] by (simp add: uint256_from_str_eq)
  then show ?thesis
    using assms(1, 2) by (simp add: unsigned_input_def input_pieces_def txin_new_def)
qed

lemma unsigned_output_pieces: "output_pieces txout out \<Longrightarrow> unsigned_output (out\<lparr>po_version := v\<rparr>) = Inr txout"
  by (simp add: unsigned_output_def output_pieces_def txout_new_def)

lemma res_map_list_all2: "list_all2 (\<lambda>y x. f x = Inr y) ys xs \<Longrightarrow> res_map f xs = Inr ys"
  by (induction rule: list_all2_induct) simp_all

lemma no_locks_fold:
  "list_all (\<lambda>i. pi_time_locktime i = None \<and> pi_height_locktime i = None) ins \<Longrightarrow> res_fold lock_time_step ins locks = Inr locks"
  by (induction ins) (auto simp: lock_time_step_def split: prod.splits option.splits)

lemma unsigned_tx_of_v2:
  assumes inv: "psbt_inv cr p" and v: "ps_version p = 0"
  shows "get_unsigned_tx cr (convert_to_v2 p) = (case tx_rehash cr (ps_tx p) of (r, tx) \<Rightarrow> res_bind r (\<lambda>_. Inr tx))"
proof -
  let ?q = "convert_to_v2 p" and ?tx = "ps_tx p"
  have u: "unsigned_tx ?tx" and t: "tx_pieces ?tx p" using inv v by (simp_all add: psbt_inv_def)
  have "list_all2 (\<lambda>txin i. unsigned_input (i\<lparr>pi_version := 2\<rparr>) = Inr txin) (vin ?tx) (ps_inputs p)"
    using u t by (auto simp: unsigned_tx_def tx_pieces_def list_all_length list_all2_conv_all_nth unsigned_input_pieces)
  then have i: "res_map unsigned_input (ps_inputs ?q) = Inr (vin ?tx)"
    by (intro res_map_list_all2) (simp add: convert_to_v2_def convert_version_def list_all2_map2)
  have "list_all2 (\<lambda>txout out. unsigned_output (out\<lparr>po_version := 2\<rparr>) = Inr txout) (vout ?tx) (ps_outputs p)"
    using t by (auto simp: tx_pieces_def list_all2_conv_all_nth unsigned_output_pieces)
  then have o: "res_map unsigned_output (ps_outputs ?q) = Inr (vout ?tx)"
    by (intro res_map_list_all2) (simp add: convert_to_v2_def convert_version_def list_all2_map2)
  have "list_all (\<lambda>i. pi_time_locktime i = None \<and> pi_height_locktime i = None) (ps_inputs ?q)"
    using inv v by (simp add: psbt_inv_def list_all_length input_inv_def convert_to_v2_def convert_version_def)
  then have l: "compute_lock_time ?q = Inr (nLockTime ?tx)"
    using t by (simp add: compute_lock_time_def no_locks_fold tx_pieces_def convert_to_v2_def convert_version_def)
  have "CTransaction_new\<lparr>nVersion := nVersion ?tx, nLockTime := nLockTime ?tx, vin := vin ?tx, vout := vout ?tx\<rparr> = ?tx"
    using u by (simp add: unsigned_tx_def CTransaction_new_def)
  moreover have "ps_version ?q = 2" "ps_tx_version ?q = Some (nVersion ?tx)"
    using t by (simp_all add: convert_to_v2_def convert_version_def tx_pieces_def)
  ultimately show ?thesis by (simp add: get_unsigned_tx_def l i o)
qed

text \<open>
  C4: an accepted PSBT of version 0, converted to version 2, still stands for its transaction: the unsigned
  transaction built from the fields is the one that was read, rehashed; and converting back restores the PSBT.
\<close>

theorem psbt_conversions:
  assumes "psbt_deserialize cr (PSBT_new None) s = Inr p" and "ps_version p = 0"
  shows "(case tx_rehash cr (ps_tx p) of (r, tx) \<Rightarrow>
      get_unsigned_tx cr (convert_to_v2 p) = res_bind r (\<lambda>_. Inr tx)
      \<and> convert_to_v0 cr (convert_to_v2 p) = res_bind r (\<lambda>_. Inr (p\<lparr>ps_tx := tx, ps_explicit_version := False\<rparr>)))"
proof -
  have inv: "psbt_inv cr p" by (rule psbt_deserialize_inv [OF assms(1)])
  obtain r tx where r: "tx_rehash cr (ps_tx p) = (r, tx)" by fastforce
  have u: "get_unsigned_tx cr (convert_to_v2 p) = res_bind r (\<lambda>_. Inr tx)"
    using unsigned_tx_of_v2 [OF inv assms(2)] r by simp
  have "map (\<lambda>i. i\<lparr>pi_version := 0\<rparr>) (ps_inputs p) = ps_inputs p" "map (\<lambda>i. i\<lparr>po_version := 0\<rparr>) (ps_outputs p) = ps_outputs p"
    using inv assms(2) by (auto simp: psbt_inv_def list_all_iff input_inv_def intro!: map_idI)
  then have "convert_version 0 (convert_to_v2 p) = p"
    using assms(2) by (simp add: convert_to_v2_def convert_version_def comp_def)
  then show ?thesis by (simp add: convert_to_v0_def u r res_bind_assoc)
qed

theorem psbt_conversions_witness:
  "\<exists>s p. psbt_deserialize pad_crypto (PSBT_new None) s = Inr p \<and> (case tx_rehash pad_crypto (ps_tx p) of (r, tx) \<Rightarrow>
     get_unsigned_tx pad_crypto (convert_to_v2 p) = res_bind r (\<lambda>_. Inr tx))"
proof -
  obtain s p where s: "psbt_deserialize pad_crypto (PSBT_new None) s = Inr p" "ps_version p = 0"
    using example_accepted by blast
  from psbt_conversions [OF s] s show ?thesis by (intro exI [of _ s] exI [of _ p]) (auto split: prod.splits)
qed

section \<open>The reader ends\<close>

lemma consumes_psbt_input: "consumes (psbt_input_deserialize cr m)"
  unfolding psbt_input_deserialize_def by (intro consumes_intros input_map.consumes_run) (simp add: in_required_def)

lemma consumes_psbt_output: "consumes (psbt_output_deserialize m)"
  unfolding psbt_output_deserialize_def by (intro consumes_intros output_map.consumes_run) (simp add: out_required_def)

lemma consumes_loops:
  shows "consumes (read_inputs cr n i self)" and "consumes (read_outputs n self)"
proof -
  have c: "consumes (\<lambda>f. if f = [] then (Inr self, f) else m f)" if "consumes m" for m and self :: 'a
    using that by (simp add: consumes_def)
  have check: "check_utxo cr self i p \<noteq> Inl OutOfFuel" for self i p
  proof -
    have "(case tx_rehash cr u of (r, u) \<Rightarrow> res_bind r (\<lambda>_.
            if tx_hash u \<noteq> Some t
            then Inl (PSBTSerializationError ''Non-witness UTXO does not match outpoint hash'')
            else Inr (p\<lparr>pi_non_witness_utxo := Some u\<rparr>))) \<noteq> Inl OutOfFuel" for u t
      using rehash_not_fuel [of cr u] by (auto split: prod.splits)
    then show ?thesis
      unfolding check_utxo_def
      by (intro res_bind_not_fuel) (auto simp: py_nth_def ser_uint256_eq split: option.splits)
  qed
  show "consumes (read_inputs cr n i self)"
  proof (induction n arbitrary: i self)
    case 0
    then show ?case by (simp add: consumes_def)
  next
    case (Suc n)
    show ?case unfolding read_inputs.simps
      by (intro c consumes_intros consumes_psbt_input Suc check)
  qed
  show "consumes (read_outputs n self)"
  proof (induction n arbitrary: self)
    case 0
    then show ?case by (simp add: consumes_def)
  next
    case (Suc n)
    show ?case unfolding read_outputs.simps by (intro c consumes_intros consumes_psbt_output Suc)
  qed
qed

lemma b64decode_not_fuel: "b64decode s \<noteq> Inl OutOfFuel"
proof -
  have "b64_dec q l p s \<noteq> Inl OutOfFuel" for q l p
    by (induction q l p s rule: b64_dec.induct) (auto split: option.splits)
  then show ?thesis by (simp add: b64decode_def)
qed

lemma cache_not_fuel: "cache_unsigned_tx_pieces p \<noteq> Inl OutOfFuel"
proof -
  have "setup_inputs a b \<noteq> Inl OutOfFuel" for a b
    by (induction a b rule: setup_inputs.induct) (simp_all add: ser_uint256_eq del: le_bytes.simps)
  moreover have "setup_outputs a b \<noteq> Inl OutOfFuel" for a b
    by (induction a b rule: setup_outputs.induct) simp_all
  ultimately show ?thesis by (simp add: cache_unsigned_tx_pieces_def setup_from_tx_def)
qed

text \<open>
  The reader of whole PSBTs returns, with a PSBT or an exception, on every string, whatever counts
  the global map claims.
\<close>

theorem psbt_reader_ends: "psbt_deserialize cr p s \<noteq> Inl OutOfFuel"
proof -
  have maps: "consumes (psbt_read_maps cr lp)" for lp
    unfolding psbt_read_maps_def Let_def
    by (intro consumes_intros consumes_loops) (simp_all add: cache_not_fuel)
  have "consumes (psbt_read cr p)"
    unfolding psbt_read_def
    by (intro consumes_intros global_map.consumes_run maps) (simp_all add: version_constraints_def Let_def)
  then show ?thesis
    unfolding psbt_deserialize_def by (intro res_bind_not_fuel b64decode_not_fuel) simp
qed

end
