(* ===== verification/Effects.thy ===== *)
theory Effects
  imports Prelude
begin

text \<open>
  Operations on a state that may raise: what the commands do to a device, a tree of nodes or a transport.
\<close>

section \<open>Operations with a state and exceptions\<close>

text \<open>An exception does not undo what was done to the state before.\<close>

type_synonym ('s, 'a) io = "'s \<Rightarrow> 'a result \<times> 's"

definition io_ret :: "'a \<Rightarrow> ('s, 'a) io" where
  "io_ret x s = (Inr x, s)"

definition io_fail :: "exn \<Rightarrow> ('s, 'a) io" where
  "io_fail e s = (Inl e, s)"

definition io_lift :: "'a result \<Rightarrow> ('s, 'a) io" where
  "io_lift r s = (r, s)"

definition io_bind :: "('s, 'a) io \<Rightarrow> ('a \<Rightarrow> ('s, 'b) io) \<Rightarrow> ('s, 'b) io" where
  "io_bind m f s = (case m s of (Inl e, s') \<Rightarrow> (Inl e, s') | (Inr x, s') \<Rightarrow> f x s')"

text \<open>A block whose exceptions of some kind are caught.\<close>

definition io_catch :: "('s, 'a) io \<Rightarrow> (exn \<Rightarrow> bool) \<Rightarrow> ('s, 'a) io \<Rightarrow> ('s, 'a) io" where
  "io_catch m caught handler s =
     (case m s of (Inl e, s') \<Rightarrow> if caught e then handler s' else (Inl e, s') | (Inr x, s') \<Rightarrow> (Inr x, s'))"

fun io_map :: "('a \<Rightarrow> ('s, 'b) io) \<Rightarrow> 'a list \<Rightarrow> ('s, 'b list) io" where
  "io_map f [] = io_ret []"
| "io_map f (x # xs) = io_bind (f x) (\<lambda>y. io_bind (io_map f xs) (\<lambda>ys. io_ret (y # ys)))"

lemma io_simps [simp]:
  "io_ret x s = (Inr x, s)"
  "io_fail e s = (Inl e, s)"
  "io_lift r s = (r, s)"
  by (simp_all add: io_ret_def io_fail_def io_lift_def)

lemma io_bind_simps:
  "m s = (Inr x, s') \<Longrightarrow> io_bind m f s = f x s'"
  "m s = (Inl e, s') \<Longrightarrow> io_bind m f s = (Inl e, s')"
  by (simp_all add: io_bind_def)

lemma io_bind_known [simp]:
  "io_bind (io_ret x) f = f x"
  "io_bind (io_lift (Inr x)) f = f x"
  "io_bind (io_lift (Inl e)) f = io_fail e"
  "io_bind (io_fail e) f = io_fail e"
  by (rule ext, simp add: io_bind_def)+

lemma io_bind_Inr:
  "io_bind m f s = (Inr y, s'') \<longleftrightarrow> (\<exists>x s'. m s = (Inr x, s') \<and> f x s' = (Inr y, s''))"
  by (auto simp: io_bind_def split: prod.splits sum.splits)

lemma io_bind_assoc: "io_bind (io_bind m f) g = io_bind m (\<lambda>x. io_bind (f x) g)"
  by (rule ext) (simp add: io_bind_def split: prod.splits sum.splits)

end
