(* ===== verification/Descriptor.thy ===== *)
theory Descriptor
  imports Key Checksum
begin

text \<open>
  \<open>hwilib/descriptor.py\<close>: the checksum of descriptors, key expressions, the descriptor classes with
  their strings, and the parser.
\<close>

section \<open>The checksum\<close>

definition PolyMod :: "int \<Rightarrow> int \<Rightarrow> int" where
  "PolyMod c val =
     (let c0 = drop_bit 35 c;
          c = push_bit 5 (c AND 0x7ffffffff) XOR val;
          c = (if c0 AND 1 \<noteq> 0 then c XOR 0xf5dee51989 else c);
          c = (if c0 AND 2 \<noteq> 0 then c XOR 0xa9fdca3312 else c);
          c = (if c0 AND 4 \<noteq> 0 then c XOR 0x1bab10e32d else c);
          c = (if c0 AND 8 \<noteq> 0 then c XOR 0x3706b1677a else c);
          c = (if c0 AND 16 \<noteq> 0 then c XOR 0x644d626ffd else c)
      in c)"

definition INPUT_CHARSET :: string where
  "INPUT_CHARSET = ''0123456789()[],'' @ [CHR 0x27] @ ''/*abcdefgh@:$%{}''
     @ ''IJKLMNOPQRSTUVWXYZ&+-.;<=>?!^_|~'' @ ''ijklmnopqrstuvwxyzABCDEFGH`#'' @ [CHR 0x22, CHR 0x5C] @ '' ''"

definition CHECKSUM_CHARSET :: string where
  "CHECKSUM_CHARSET = ''qpzry9x8gf2tvdw0s3jn54khce6mua7l''"

text \<open>The loop over the characters; \<open>None\<close> where the code returns the empty string.\<close>

fun checksum_loop :: "string \<Rightarrow> int \<Rightarrow> int \<Rightarrow> nat \<Rightarrow> (int \<times> int \<times> nat) option" where
  "checksum_loop [] c cls clscount = Some (c, cls, clscount)"
| "checksum_loop (ch # desc) c cls clscount =
     (case list_index ch INPUT_CHARSET of
        None \<Rightarrow> None
      | Some pos \<Rightarrow>
          let c = PolyMod c (int pos AND 31);
              cls = cls * 3 + drop_bit 5 (int pos);
              clscount = clscount + 1
          in if clscount = 3 then checksum_loop desc (PolyMod c cls) 0 0
             else checksum_loop desc c cls clscount)"

definition DescriptorChecksum :: "string \<Rightarrow> string" where
  "DescriptorChecksum desc =
     (case checksum_loop desc 1 0 0 of
        None \<Rightarrow> []
      | Some (c, cls, clscount) \<Rightarrow>
          let c = (if 0 < clscount then PolyMod c cls else c);
              c = foldl PolyMod c (replicate 8 0);
              c = c XOR 1
          in map (\<lambda>j. CHECKSUM_CHARSET ! nat (drop_bit (5 * (7 - j)) c AND 31)) [0..<8])"

definition AddChecksum :: "string \<Rightarrow> string" where
  "AddChecksum desc = desc @ ''#'' @ DescriptorChecksum desc"

section \<open>Key expressions\<close>

record PubkeyProvider =
  pp_origin :: "KeyOriginInfo option"
  pp_pubkey :: string
  pp_deriv_path :: "int list list option"
  pp_expr_index :: nat
  pp_ranged :: bool
  pp_multipath_len :: nat
  pp_extkey :: "ExtendedKey option"

text \<open>The constructor takes the string for hex when \<open>unhexlify\<close> does, else for an extended key.\<close>

definition PubkeyProvider_new ::
    "KeyOriginInfo option \<Rightarrow> string \<Rightarrow> int list list option \<Rightarrow> nat \<Rightarrow> bool \<Rightarrow> PubkeyProvider result" where
  "PubkeyProvider_new origin pubkey deriv_path expr_index ranged =
     (let multipath_len = (case deriv_path of
            None \<Rightarrow> 1
          | Some p \<Rightarrow> if 0 < length p then Max (set (map length p)) else 1) in
      res_bind
        (case unhexlify pubkey of
           Inr b \<Rightarrow> Inr None
         | Inl e \<Rightarrow> res_bind (xk_deserialize pubkey) (\<lambda>k. Inr (Some k)))
        (\<lambda>extkey. Inr \<lparr>pp_origin = origin, pp_pubkey = pubkey, pp_deriv_path = deriv_path,
           pp_expr_index = expr_index, pp_ranged = ranged, pp_multipath_len = multipath_len, pp_extkey = extkey\<rparr>))"

text \<open>\<open>s.index(c)\<close>, which raises where \<open>find\<close> returns -1.\<close>

definition str_index :: "char \<Rightarrow> string \<Rightarrow> nat result" where
  "str_index c s = (case list_index c s of None \<Rightarrow> Inl (ValueErr ''substring not found'') | Some i \<Rightarrow> Inr i)"

text \<open>The key and the path after it.\<close>

definition parse_key_path :: "KeyOriginInfo option \<Rightarrow> string \<Rightarrow> nat \<Rightarrow> PubkeyProvider result" where
  "parse_key_path origin s key_expr_index =
     (case list_index CHR ''/'' s of
        None \<Rightarrow> PubkeyProvider_new origin s None key_expr_index False
      | Some slash_idx \<Rightarrow>
          let pubkey = take slash_idx s;
              path_str = drop (slash_idx + 1) s;
              ranged = suffix ''*'' path_str;
              path_str = (if ranged then drop_end 2 path_str else path_str)
          in res_bind
               (if 0 < length path_str then res_bind (parse_multipath path_str) (\<lambda>p. Inr (Some p)) else Inr None)
               (\<lambda>deriv_path. PubkeyProvider_new origin pubkey deriv_path key_expr_index ranged))"

definition PubkeyProvider_parse :: "string \<Rightarrow> nat \<Rightarrow> PubkeyProvider result" where
  "PubkeyProvider_parse s key_expr_index =
     res_bind (py_nth s 0) (\<lambda>c.
     if c = CHR ''['' then
       res_bind (str_index CHR '']'' s) (\<lambda>end.
       res_bind (keyorigin_from_string (py_slice 1 end s)) (\<lambda>origin.
       parse_key_path (Some origin) (drop (end + 1) s) key_expr_index))
     else parse_key_path None s key_expr_index)"

text \<open>\<open>if self.deriv_path\<close> holds for a path that is there and not empty.\<close>

definition deriv_steps :: "PubkeyProvider \<Rightarrow> int list list" where
  "deriv_steps self = (case pp_deriv_path self of None \<Rightarrow> [] | Some p \<Rightarrow> p)"

definition pp_to_string :: "string \<Rightarrow> PubkeyProvider \<Rightarrow> string" where
  "pp_to_string hardened_char self =
     (case pp_origin self of None \<Rightarrow> [] | Some origin \<Rightarrow> ''['' @ keyorigin_to_string origin hardened_char @ '']'')
     @ pp_pubkey self
     @ (if deriv_steps self \<noteq> [] then multipath_to_string (deriv_steps self) hardened_char else [])
     @ (if pp_ranged self then ''/*'' else [])"

definition get_deriv_path :: "PubkeyProvider \<Rightarrow> int \<Rightarrow> int \<Rightarrow> int list result" where
  "get_deriv_path self pos multipath_pos =
     res_bind (res_map (\<lambda>p. if length p = 1 then py_nth p 0 else py_index p multipath_pos) (deriv_steps self)) (\<lambda>path.
     Inr (if pp_ranged self then path @ [pos] else path))"

definition get_pubkey_bytes :: "crypto \<Rightarrow> PubkeyProvider \<Rightarrow> int \<Rightarrow> int \<Rightarrow> bytes result" where
  "get_pubkey_bytes cr self pos multipath_pos =
     (case pp_extkey self of
        Some extkey \<Rightarrow>
          if pp_deriv_path self \<noteq> None then
            res_bind (get_deriv_path self pos multipath_pos) (\<lambda>path.
            res_bind (derive_pub_path cr path extkey) (\<lambda>child_key. Inr (xk_pubkey child_key)))
          else Inr (xk_pubkey extkey)
      | None \<Rightarrow> unhexlify (pp_pubkey self))"

definition get_full_derivation_path :: "PubkeyProvider \<Rightarrow> int \<Rightarrow> int \<Rightarrow> string result" where
  "get_full_derivation_path self pos multipath_pos =
     (let path = (case pp_origin self of Some origin \<Rightarrow> get_derivation_path origin | None \<Rightarrow> ''m/'') in
      res_bind
        (if deriv_steps self \<noteq> []
         then res_bind (get_deriv_path self pos multipath_pos) (\<lambda>p. Inr (path @ path_to_string p ''h''))
         else Inr path)
        (\<lambda>path. Inr (if pp_ranged self then path @ show_int pos else path)))"

definition get_full_derivation_int_list :: "PubkeyProvider \<Rightarrow> int \<Rightarrow> int \<Rightarrow> int list result" where
  "get_full_derivation_int_list self pos multipath_pos =
     res_bind (case pp_origin self of Some origin \<Rightarrow> get_full_int_list origin | None \<Rightarrow> Inr []) (\<lambda>path.
     res_bind
       (if deriv_steps self \<noteq> []
        then res_bind (get_deriv_path self pos multipath_pos) (\<lambda>p. Inr (path @ p))
        else Inr path)
       (\<lambda>path. Inr (if pp_ranged self then path @ [pos] else path)))"

definition get_bip388_placeholder :: "PubkeyProvider \<Rightarrow> string result" where
  "get_bip388_placeholder self =
     (if \<not> pp_ranged self then Inl (InvalidPolicyError ''BIP 388 requires all pubkeys to be ranged'')
      else if 2 < pp_multipath_len self
      then Inl (InvalidPolicyError ''BIP 388 requires all multipath specifiers to be exactly 2 elements'')
      else
        let deriv_path = (if deriv_steps self \<noteq> [] then multipath_to_string (deriv_steps self) [CHR 0x27] else []);
            deriv_path = (if pp_ranged self then deriv_path @ ''/*'' else deriv_path)
        in Inr (''@'' @ show_nat (pp_expr_index self) @ deriv_path))"

definition get_bip388_key_info :: "PubkeyProvider \<Rightarrow> string" where
  "get_bip388_key_info self =
     (case pp_origin self of None \<Rightarrow> [] | Some origin \<Rightarrow> ''['' @ keyorigin_to_string origin [CHR 0x27] @ '']'')
     @ pp_pubkey self"

text \<open>Python compares strings character by character.\<close>

fun str_less :: "string \<Rightarrow> string \<Rightarrow> bool" where
  "str_less s [] = False"
| "str_less [] (d # t) = True"
| "str_less (c # s) (d # t) = (if c = d then str_less s t else (of_char c :: nat) < of_char d)"

definition pp_less :: "PubkeyProvider \<Rightarrow> PubkeyProvider \<Rightarrow> bool" where
  "pp_less self other = str_less (pp_pubkey self) (pp_pubkey other)"

section \<open>Descriptors\<close>

text \<open>The classes with the fields of their constructors.\<close>

datatype Descriptor =
    PKDescriptor PubkeyProvider
  | PKHDescriptor PubkeyProvider
  | WPKHDescriptor PubkeyProvider
  | MultisigDescriptor "PubkeyProvider list" int bool
  | SHDescriptor Descriptor
  | WSHDescriptor Descriptor
  | TRDescriptor PubkeyProvider "Descriptor list" "nat list"

fun pubkeys :: "Descriptor \<Rightarrow> PubkeyProvider list" where
  "pubkeys (PKDescriptor p) = [p]"
| "pubkeys (PKHDescriptor p) = [p]"
| "pubkeys (WPKHDescriptor p) = [p]"
| "pubkeys (MultisigDescriptor ps thresh is_sorted) = ps"
| "pubkeys (SHDescriptor d) = []"
| "pubkeys (WSHDescriptor d) = []"
| "pubkeys (TRDescriptor p ds depths) = [p]"

fun subdescriptors :: "Descriptor \<Rightarrow> Descriptor list" where
  "subdescriptors (SHDescriptor d) = [d]"
| "subdescriptors (WSHDescriptor d) = [d]"
| "subdescriptors (TRDescriptor p ds depths) = ds"
| "subdescriptors d = []"

fun descriptor_name :: "Descriptor \<Rightarrow> string" where
  "descriptor_name (PKDescriptor p) = ''pk''"
| "descriptor_name (PKHDescriptor p) = ''pkh''"
| "descriptor_name (WPKHDescriptor p) = ''wpkh''"
| "descriptor_name (MultisigDescriptor ps thresh is_sorted) = (if is_sorted then ''sortedmulti'' else ''multi'')"
| "descriptor_name (SHDescriptor d) = ''sh''"
| "descriptor_name (WSHDescriptor d) = ''wsh''"
| "descriptor_name (TRDescriptor p ds depths) = ''tr''"

fun get_address_type :: "Descriptor \<Rightarrow> AddressType option" where
  "get_address_type (PKHDescriptor p) = Some LEGACY"
| "get_address_type (WPKHDescriptor p) = Some WIT"
| "get_address_type (SHDescriptor d) = (if get_address_type d = Some WIT then Some SH_WIT else Some LEGACY)"
| "get_address_type (WSHDescriptor d) = Some WIT"
| "get_address_type (TRDescriptor p ds depths) = Some TAP"
| "get_address_type d = None"

text \<open>
  The braces of the script tree, written while the leaves are: \<open>path\<close> says for each depth whether the right
  branch is being written. It is a stack, here with its top first. \<open>open_path\<close> and \<open>close_path\<close> are the two
  inner loops.
\<close>

function open_path :: "nat \<Rightarrow> bool list \<Rightarrow> string \<times> bool list" where
  "open_path depth path =
     (if length path \<le> depth then
        (case open_path depth (False # path) of (r, path') \<Rightarrow> ((if path \<noteq> [] then ''{'' else []) @ r, path'))
      else ([], path))"
  by pat_completeness auto
termination
  by (relation "measure (\<lambda>(depth, path). Suc depth - length path)") auto

declare open_path.simps [simp del]

fun close_path :: "bool list \<Rightarrow> string \<times> bool list" where
  "close_path (True # path) = (case close_path path of (r, path') \<Rightarrow> (CHR ''}'' # r, path'))"
| "close_path path = ([], path)"

fun mark_right :: "bool list \<Rightarrow> bool list" where
  "mark_right (b # path) = True # path"
| "mark_right [] = []"

fun tree_string :: "bool list \<Rightarrow> nat list \<Rightarrow> string result list \<Rightarrow> string result" where
  "tree_string path [] leaves = Inr []"
| "tree_string path (depth # depths) [] = Inl IndexErr"
| "tree_string path (depth # depths) (leaf # leaves) =
     (case open_path depth path of (opening, path) \<Rightarrow>
      res_bind leaf (\<lambda>s.
      case close_path path of (closing, path) \<Rightarrow>
      res_bind (tree_string (mark_right path) depths leaves) (\<lambda>r.
      Inr ('','' @ opening @ s @ closing @ r))))"

fun to_string_no_checksum :: "string \<Rightarrow> Descriptor \<Rightarrow> string result" where
  "to_string_no_checksum hc (MultisigDescriptor ps thresh is_sorted) =
     Inr ((if is_sorted then ''sortedmulti'' else ''multi'') @ ''('' @ show_int thresh @ '',''
       @ py_join '','' (map (pp_to_string hc) ps) @ '')'')"
| "to_string_no_checksum hc (TRDescriptor p ds depths) =
     res_bind (tree_string [] depths (map (to_string_no_checksum hc) ds)) (\<lambda>r.
     Inr (''tr('' @ pp_to_string hc p @ r @ '')''))"
| "to_string_no_checksum hc (SHDescriptor d) =
     res_bind (to_string_no_checksum hc d) (\<lambda>s. Inr (''sh('' @ s @ '')''))"
| "to_string_no_checksum hc (WSHDescriptor d) =
     res_bind (to_string_no_checksum hc d) (\<lambda>s. Inr (''wsh('' @ s @ '')''))"
| "to_string_no_checksum hc (PKDescriptor p) = Inr (''pk('' @ pp_to_string hc p @ '')'')"
| "to_string_no_checksum hc (PKHDescriptor p) = Inr (''pkh('' @ pp_to_string hc p @ '')'')"
| "to_string_no_checksum hc (WPKHDescriptor p) = Inr (''wpkh('' @ pp_to_string hc p @ '')'')"

definition to_string :: "string \<Rightarrow> Descriptor \<Rightarrow> string result" where
  "to_string hc d = res_bind (to_string_no_checksum hc d) (\<lambda>s. Inr (AddChecksum s))"

fun get_bip388_template :: "Descriptor \<Rightarrow> string result" where
  "get_bip388_template (MultisigDescriptor ps thresh is_sorted) =
     res_bind (res_map get_bip388_placeholder ps) (\<lambda>ks.
     Inr ((if is_sorted then ''sortedmulti'' else ''multi'') @ ''('' @ show_int thresh @ '','' @ py_join '','' ks @ '')''))"
| "get_bip388_template (TRDescriptor p ds depths) =
     res_bind (get_bip388_placeholder p) (\<lambda>k.
     res_bind (tree_string [] depths (map get_bip388_template ds)) (\<lambda>r.
     Inr (''tr('' @ k @ r @ '')'')))"
| "get_bip388_template (SHDescriptor d) = res_bind (get_bip388_template d) (\<lambda>s. Inr (''sh('' @ s @ '')''))"
| "get_bip388_template (WSHDescriptor d) = res_bind (get_bip388_template d) (\<lambda>s. Inr (''wsh('' @ s @ '')''))"
| "get_bip388_template (PKDescriptor p) = res_bind (get_bip388_placeholder p) (\<lambda>k. Inr (''pk('' @ k @ '')''))"
| "get_bip388_template (PKHDescriptor p) = res_bind (get_bip388_placeholder p) (\<lambda>k. Inr (''pkh('' @ k @ '')''))"
| "get_bip388_template (WPKHDescriptor p) = res_bind (get_bip388_placeholder p) (\<lambda>k. Inr (''wpkh('' @ k @ '')''))"

fun get_pubkey_providers :: "Descriptor \<Rightarrow> PubkeyProvider list" where
  "get_pubkey_providers (SHDescriptor d) = get_pubkey_providers d"
| "get_pubkey_providers (WSHDescriptor d) = get_pubkey_providers d"
| "get_pubkey_providers (TRDescriptor p ds depths) = p # concat (map get_pubkey_providers ds)"
| "get_pubkey_providers (MultisigDescriptor ps thresh is_sorted) = ps"
| "get_pubkey_providers (PKDescriptor p) = [p]"
| "get_pubkey_providers (PKHDescriptor p) = [p]"
| "get_pubkey_providers (WPKHDescriptor p) = [p]"

text \<open>\<open>derive\<close> changes every key of a deep copy, in order; the first exception wins.\<close>

definition derive_key :: "int \<Rightarrow> int \<Rightarrow> PubkeyProvider \<Rightarrow> PubkeyProvider result" where
  "derive_key pos multipath_index pubkey =
     res_bind (get_deriv_path pubkey pos multipath_index) (\<lambda>path.
     Inr (pubkey\<lparr>pp_deriv_path := (if path = [] then None else Some (map (\<lambda>step. [step]) path)),
       pp_ranged := False, pp_multipath_len := 1\<rparr>))"

fun derive :: "int \<Rightarrow> int \<Rightarrow> Descriptor \<Rightarrow> Descriptor result" where
  "derive pos mi (PKDescriptor p) = res_bind (derive_key pos mi p) (\<lambda>p. Inr (PKDescriptor p))"
| "derive pos mi (PKHDescriptor p) = res_bind (derive_key pos mi p) (\<lambda>p. Inr (PKHDescriptor p))"
| "derive pos mi (WPKHDescriptor p) = res_bind (derive_key pos mi p) (\<lambda>p. Inr (WPKHDescriptor p))"
| "derive pos mi (MultisigDescriptor ps thresh is_sorted) =
     res_bind (res_map (derive_key pos mi) ps) (\<lambda>ps. Inr (MultisigDescriptor ps thresh is_sorted))"
| "derive pos mi (SHDescriptor d) = res_bind (derive pos mi d) (\<lambda>d. Inr (SHDescriptor d))"
| "derive pos mi (WSHDescriptor d) = res_bind (derive pos mi d) (\<lambda>d. Inr (WSHDescriptor d))"
| "derive pos mi (TRDescriptor p ds depths) =
     res_bind (derive_key pos mi p) (\<lambda>p.
     res_bind (res_map (derive pos mi) ds) (\<lambda>ds. Inr (TRDescriptor p ds depths)))"

end
