(* ===== verification/Descriptor_Parser.thy ===== *)
theory Descriptor_Parser
  imports Descriptor
begin

text \<open>
  The parser of \<open>hwilib/descriptor.py\<close>: function expressions, the tree of a \<open>tr()\<close> descriptor, and the
  recursive descent over the contexts.
\<close>

section \<open>Pieces of an expression\<close>

definition get_func_expr :: "string \<Rightarrow> (string \<times> string) result" where
  "get_func_expr s =
     (case (list_index CHR ''('' s, list_rindex CHR '')'' s) of
        (Some start, Some end) \<Rightarrow> Inr (py_slice 0 start s, py_slice (start + 1) end s)
      | _ \<Rightarrow> Inl (ValueErr ''A matching pair of parentheses cannot be found''))"

definition get_const :: "char \<Rightarrow> string \<Rightarrow> string result" where
  "get_const const s =
     res_bind (py_nth s 0) (\<lambda>c.
     if c \<noteq> const
     then Inl (ValueErr (''Expected '' @ [CHR 0x27, const, CHR 0x27] @ '' but got '' @ [CHR 0x27, c, CHR 0x27]))
     else Inr (drop 1 s))"

text \<open>\<open>get_expr\<close> splits before the first comma or closing bracket outside brackets.\<close>

fun split_expr :: "nat \<Rightarrow> string \<Rightarrow> string \<times> string" where
  "split_expr level [] = ([], [])"
| "split_expr level (c # s) =
     (if c = CHR ''('' \<or> c = CHR ''{'' then map_prod ((#) c) id (split_expr (level + 1) s)
      else if 0 < level \<and> (c = CHR '')'' \<or> c = CHR ''}'') then map_prod ((#) c) id (split_expr (level - 1) s)
      else if level = 0 \<and> (c = CHR '')'' \<or> c = CHR ''}'' \<or> c = CHR '','') then ([], c # s)
      else map_prod ((#) c) id (split_expr level s))"

definition get_expr :: "string \<Rightarrow> string \<times> string" where
  "get_expr s = split_expr 0 s"

definition parse_pubkey :: "string \<Rightarrow> nat \<Rightarrow> (PubkeyProvider \<times> string \<times> nat) result" where
  "parse_pubkey expr key_expr_index =
     (let (key, next_expr) =
        (case list_index CHR '','' expr of
           None \<Rightarrow> (expr, [])
         | Some comma_idx \<Rightarrow> (take comma_idx expr, drop (comma_idx + 1) expr)) in
      res_bind (PubkeyProvider_parse key key_expr_index) (\<lambda>p. Inr (p, next_expr, key_expr_index + 1)))"

lemma parse_pubkey_shorter:
  "parse_pubkey expr i = Inr (p, rest, j) \<Longrightarrow> expr \<noteq> [] \<Longrightarrow> length rest < length expr"
  by (auto simp: parse_pubkey_def split: option.splits dest: list_index_Some)

text \<open>Key expressions of several paths must have as many as the others.\<close>

definition merge_multipath :: "nat option \<Rightarrow> PubkeyProvider \<Rightarrow> nat option result" where
  "merge_multipath multipath_len pub =
     (if 1 < pp_multipath_len pub then
        case multipath_len of
          None \<Rightarrow> Inr (Some (pp_multipath_len pub))
        | Some n \<Rightarrow> if n \<noteq> pp_multipath_len pub then Inl (ValueErr ''Mismatched multipath paths'') else Inr multipath_len
      else Inr multipath_len)"

section \<open>Multisig\<close>

text \<open>\<open>while expr\<close>: the keys of a multisig.\<close>

function parse_keys :: "string \<Rightarrow> nat \<Rightarrow> nat option \<Rightarrow> (PubkeyProvider list \<times> nat) result" where
  "parse_keys expr key_expr_index multipath_len =
     (if expr = [] then Inr ([], key_expr_index)
      else
        case parse_pubkey expr key_expr_index of
          Inl e \<Rightarrow> Inl e
        | Inr (pubkey, expr', key_expr_index) \<Rightarrow>
            res_bind (merge_multipath multipath_len pubkey) (\<lambda>multipath_len.
            res_bind (parse_keys expr' key_expr_index multipath_len) (\<lambda>(ps, key_expr_index).
            Inr (pubkey # ps, key_expr_index))))"
  by pat_completeness auto
termination
  by (relation "measure (\<lambda>(expr, i, m). length expr)") (auto dest: parse_pubkey_shorter)

declare parse_keys.simps [simp del]

datatype ParseContext = TOP | P2SH | P2WSH | P2TR

definition parse_multi :: "bool \<Rightarrow> string \<Rightarrow> ParseContext \<Rightarrow> nat \<Rightarrow> (Descriptor \<times> nat) result" where
  "parse_multi is_sorted expr ctx key_expr_index =
     res_bind (str_index CHR '','' expr) (\<lambda>comma_idx.
     res_bind (py_int (take comma_idx expr)) (\<lambda>thresh.
     res_bind (parse_keys (drop (comma_idx + 1) expr) key_expr_index None) (\<lambda>(pubkeys, key_expr_index).
     let n = length pubkeys in
     if n = 0 \<or> 16 < n
     then Inl (ValueErr (''Cannot have '' @ show_nat n @ '' keys in a multisig; must have between 1 and 16 keys, inclusive''))
     else if thresh < 1
     then Inl (ValueErr (''Multisig threshold cannot be '' @ show_int thresh @ '', must be at least 1''))
     else if int n < thresh
     then Inl (ValueErr (''Multisig threshold cannot be larger than the number of keys; threshold is ''
            @ show_int thresh @ '' but only '' @ show_nat n @ '' keys specified''))
     else if ctx = TOP \<and> 3 < n
     then Inl (ValueErr ''Cannot have {} pubkeys in bare multisig: only at most 3 pubkeys'')
     else Inr (MultisigDescriptor pubkeys thresh is_sorted, key_expr_index))))"

section \<open>The script tree\<close>

definition MAX_TAPROOT_NODES :: nat where "MAX_TAPROOT_NODES = 128"

text \<open>
  \<open>branches\<close> is a stack, with its top first. The end of the string is an \<open>IndexError\<close>, which the loop over
  the opening braces does not catch.
\<close>

fun open_braces :: "string \<Rightarrow> bool list \<Rightarrow> (string \<times> bool list) result" where
  "open_braces [] branches = Inl IndexErr"
| "open_braces (c # expr) branches =
     (if c = CHR ''{'' then
        if MAX_TAPROOT_NODES < length (False # branches)
        then Inl (ValueErr ''tr() supports at most {MAX_TAPROOT_NODES} nesting levels'')
        else open_braces expr (False # branches)
      else Inr (c # expr, branches))"

fun close_braces :: "string \<Rightarrow> bool list \<Rightarrow> (string \<times> bool list) result" where
  "close_braces expr (True # branches) = res_bind (get_const CHR ''}'' expr) (\<lambda>expr. close_braces expr branches)"
| "close_braces expr branches = Inr (expr, branches)"

text \<open>After the closing braces the top of a stack that is not empty is a left branch, whose right sibling follows.\<close>

fun next_branch :: "string \<Rightarrow> bool list \<Rightarrow> (string \<times> bool list) result" where
  "next_branch expr [] = Inr (expr, [])"
| "next_branch expr (b # branches) = res_bind (get_const CHR '','' expr) (\<lambda>expr. Inr (expr, True # branches))"

lemma get_const_Inr: "get_const c s = Inr s' \<longleftrightarrow> s = c # s'"
  by (cases s) (auto simp: get_const_def)

lemma open_braces_shorter: "open_braces expr br = Inr (expr', br') \<Longrightarrow> length expr' \<le> length expr"
  by (induction expr br rule: open_braces.induct) (auto split: if_splits)

lemma close_braces_shorter: "close_braces expr br = Inr (expr', br') \<Longrightarrow> length expr' \<le> length expr"
  by (induction expr br rule: close_braces.induct) (auto simp: get_const_Inr)

lemma split_expr_append: "fst (split_expr level s) @ snd (split_expr level s) = s"
  by (induction level s rule: split_expr.induct) auto

text \<open>
  One round of the loop over the leaves: the leaf with its depth, and the state of the loop after it. The parser of
  the leaves is an argument. The loop ends when \<open>branches\<close> is empty.
\<close>

definition tree_step ::
    "(string \<Rightarrow> nat \<Rightarrow> (Descriptor \<times> nat) result) \<Rightarrow> string \<Rightarrow> bool list \<Rightarrow> nat option \<Rightarrow> nat
     \<Rightarrow> ((Descriptor \<times> nat) \<times> string \<times> bool list \<times> nat option \<times> nat) result" where
  "tree_step parse_leaf expr branches multipath_len key_expr_index =
     res_bind (open_braces expr branches) (\<lambda>(expr, branches).
     let (sarg, expr) = get_expr expr in
     res_bind (parse_leaf sarg key_expr_index) (\<lambda>(subdesc, key_expr_index).
     res_bind (res_fold (\<lambda>pub m. merge_multipath m pub) (pubkeys subdesc) multipath_len) (\<lambda>multipath_len.
     let leaf = (subdesc, length branches) in
     res_bind (close_braces expr branches) (\<lambda>(expr, branches).
     res_bind (next_branch expr branches) (\<lambda>(expr, branches).
     Inr (leaf, expr, branches, multipath_len, key_expr_index))))))"

lemma next_branch_Inr:
  "next_branch expr br = Inr (expr', br') \<longleftrightarrow>
     (case br of [] \<Rightarrow> expr' = expr \<and> br' = [] | b # bs \<Rightarrow> expr = CHR '','' # expr' \<and> br' = True # bs)"
  by (cases br) (auto simp: get_const_Inr)

lemma tree_step_Inr:
  "tree_step pl expr br m i = Inr (leaf, expr', br', m', i') \<longleftrightarrow>
     (\<exists>e1 b1 d e3 b3. open_braces expr br = Inr (e1, b1) \<and> pl (fst (get_expr e1)) i = Inr (d, i')
       \<and> res_fold (\<lambda>pub m. merge_multipath m pub) (pubkeys d) m = Inr m' \<and> leaf = (d, length b1)
       \<and> close_braces (snd (get_expr e1)) b1 = Inr (e3, b3) \<and> next_branch e3 b3 = Inr (expr', br'))"
  unfolding tree_step_def case_prod_unfold Let_def by auto

lemma tree_step_shorter:
  assumes "tree_step pl expr br m i = Inr (leaf, expr', br', m', i')" and "br' \<noteq> []"
  shows "length expr' < length expr"
proof -
  obtain e1 b1 e3 b3 where o: "open_braces expr br = Inr (e1, b1)"
    and c: "close_braces (snd (get_expr e1)) b1 = Inr (e3, b3)" and l: "next_branch e3 b3 = Inr (expr', br')"
    using assms(1) by (auto simp: tree_step_Inr)
  have "length (snd (get_expr e1)) \<le> length e1"
    using split_expr_append [of 0 e1] by (metis get_expr_def le_add2 length_append)
  moreover have "e3 = CHR '','' # expr'" using l assms(2) by (cases b3) (auto simp: get_const_Inr)
  ultimately show ?thesis using open_braces_shorter [OF o] close_braces_shorter [OF c] by simp
qed

function parse_tree ::
    "(string \<Rightarrow> nat \<Rightarrow> (Descriptor \<times> nat) result) \<Rightarrow> string \<Rightarrow> bool list \<Rightarrow> nat option \<Rightarrow> nat
     \<Rightarrow> ((Descriptor \<times> nat) list \<times> nat) result" where
  "parse_tree parse_leaf expr branches multipath_len key_expr_index =
     (case tree_step parse_leaf expr branches multipath_len key_expr_index of
        Inl e \<Rightarrow> Inl e
      | Inr (leaf, expr, branches, multipath_len, key_expr_index) \<Rightarrow>
          if branches = [] then Inr ([leaf], key_expr_index)
          else res_bind (parse_tree parse_leaf expr branches multipath_len key_expr_index) (\<lambda>(leaves, key_expr_index).
               Inr (leaf # leaves, key_expr_index)))"
  by pat_completeness auto
termination
  by (relation "measure (\<lambda>(pl, expr, br, m, i). length expr)") (auto dest: tree_step_shorter)

declare parse_tree.simps [simp del]

section \<open>The descent\<close>

text \<open>How far a context is from the innermost one.\<close>

fun context_rank :: "ParseContext \<Rightarrow> nat" where
  "context_rank TOP = 3"
| "context_rank P2SH = 2"
| "context_rank P2WSH = 1"
| "context_rank P2TR = 0"

function (sequential) parse_descriptor_ctx :: "string \<Rightarrow> ParseContext \<Rightarrow> nat \<Rightarrow> (Descriptor \<times> nat) result" where
  "parse_descriptor_ctx desc ctx key_expr_index =
     (case get_func_expr desc of
        Inl e \<Rightarrow> Inl e
      | Inr (func, expr) \<Rightarrow>
        if func = ''pk'' then
          res_bind (parse_pubkey expr key_expr_index) (\<lambda>(pubkey, expr, key_expr_index).
          if expr \<noteq> [] then Inl (ValueErr ''more than one pubkey in pk descriptor'')
          else Inr (PKDescriptor pubkey, key_expr_index))
        else if func = ''pkh'' then
          if \<not> (ctx = TOP \<or> ctx = P2SH \<or> ctx = P2WSH)
          then Inl (ValueErr ''Can only have pkh at top level, in sh(), or in wsh()'')
          else
            res_bind (parse_pubkey expr key_expr_index) (\<lambda>(pubkey, expr, key_expr_index).
            if expr \<noteq> [] then Inl (ValueErr ''More than one pubkey in pkh descriptor'')
            else Inr (PKHDescriptor pubkey, key_expr_index))
        else if func = ''sortedmulti'' \<or> func = ''multi'' then
          if \<not> (ctx = TOP \<or> ctx = P2SH \<or> ctx = P2WSH)
          then Inl (ValueErr ''Can only have multi/sortedmulti at top level, in sh(), or in wsh()'')
          else parse_multi (func = ''sortedmulti'') expr ctx key_expr_index
        else if func = ''wpkh'' then
          if \<not> (ctx = TOP \<or> ctx = P2SH)
          then Inl (ValueErr ''Can only have wpkh() at top level or inside sh()'')
          else
            res_bind (parse_pubkey expr key_expr_index) (\<lambda>(pubkey, expr, key_expr_index).
            if expr \<noteq> [] then Inl (ValueErr ''More than one pubkey in pkh descriptor'')
            else Inr (WPKHDescriptor pubkey, key_expr_index))
        else if func = ''sh'' then
          if ctx \<noteq> TOP then Inl (ValueErr ''Can only have sh() at top level'')
          else
            res_bind (parse_descriptor_ctx expr P2SH key_expr_index) (\<lambda>(subdesc, key_expr_index).
            Inr (SHDescriptor subdesc, key_expr_index))
        else if func = ''wsh'' then
          if \<not> (ctx = TOP \<or> ctx = P2SH)
          then Inl (ValueErr ''Can only have wsh() at top level or inside sh()'')
          else
            res_bind (parse_descriptor_ctx expr P2WSH key_expr_index) (\<lambda>(subdesc, key_expr_index).
            Inr (WSHDescriptor subdesc, key_expr_index))
        else if func = ''tr'' then
          if ctx \<noteq> TOP then Inl (ValueErr ''Can only have tr at top level'')
          else
            res_bind (parse_pubkey expr key_expr_index) (\<lambda>(internal_key, expr, key_expr_index).
            let multipath_len = (if 1 < pp_multipath_len internal_key then Some (pp_multipath_len internal_key) else None) in
            if expr = [] then Inr (TRDescriptor internal_key [] [], key_expr_index)
            else
              res_bind (parse_tree (\<lambda>sarg i. parse_descriptor_ctx sarg P2TR i) expr [] multipath_len key_expr_index)
                (\<lambda>(leaves, key_expr_index).
              Inr (TRDescriptor internal_key (map fst leaves) (map snd leaves), key_expr_index)))
        else if ctx = P2SH then Inl (ValueErr ''A function is needed within P2SH'')
        else if ctx = P2WSH then Inl (ValueErr ''A function is needed within P2WSH'')
        else Inl (ValueErr (func @ '' is not a valid descriptor function'')))"
  by pat_completeness auto
termination
  by (relation "measure (\<lambda>(desc, ctx, i). context_rank ctx)") auto

declare parse_descriptor_ctx.simps [simp del]

definition parse_descriptor :: "string \<Rightarrow> Descriptor result" where
  "parse_descriptor desc =
     res_bind
       (case list_index CHR ''#'' desc of
          None \<Rightarrow> Inr desc
        | Some i \<Rightarrow>
            let checksum = drop (i + 1) desc;
                desc = take i desc;
                computed = DescriptorChecksum desc
            in if computed \<noteq> checksum
               then Inl (ValueErr (''The checksum does not match; Got '' @ checksum @ '', expected '' @ computed))
               else Inr desc)
       (\<lambda>desc. res_bind (parse_descriptor_ctx desc TOP 0) (\<lambda>(d, i). Inr d))"

end
