(* ===== verification/Descriptor_Shape.thy ===== *)
theory Descriptor_Shape
  imports Descriptor_Parser
begin

text \<open>
  The grammar of descriptors as a specification: which descriptors may stand in which context, the script
  tree behind the list of depths, and that the parser accepts nothing else.
\<close>

section \<open>Script trees\<close>

text \<open>
  The class \<open>TRDescriptor\<close> keeps the leaves of the script tree with their depths, in order. The tree itself is
  the specification.
\<close>

datatype script_tree = Script | Branch script_tree script_tree

fun tree_depths :: "nat \<Rightarrow> script_tree \<Rightarrow> nat list" where
  "tree_depths k Script = [k]"
| "tree_depths k (Branch l r) = tree_depths (Suc k) l @ tree_depths (Suc k) r"

definition tree_shaped :: "nat list \<Rightarrow> bool" where
  "tree_shaped depths \<longleftrightarrow> depths = [] \<or> (\<exists>t. depths = tree_depths 0 t)"

lemma tree_depths_nonempty [simp]: "tree_depths k t \<noteq> []"
  by (induction t arbitrary: k) simp_all

section \<open>Shapes\<close>

text \<open>Keys with several paths have as many of them as the others.\<close>

definition same_paths :: "PubkeyProvider list \<Rightarrow> bool" where
  "same_paths ps \<longleftrightarrow> (\<exists>n. list_all (\<lambda>p. 1 < pp_multipath_len p \<longrightarrow> pp_multipath_len p = n) ps)"

text \<open>The descriptors that may stand in a context, whose keys have the property given.\<close>

fun descriptor_shape :: "(PubkeyProvider \<Rightarrow> bool) \<Rightarrow> ParseContext \<Rightarrow> Descriptor \<Rightarrow> bool" where
  "descriptor_shape K ctx (PKDescriptor p) = K p"
| "descriptor_shape K ctx (PKHDescriptor p) = (ctx \<in> {TOP, P2SH, P2WSH} \<and> K p)"
| "descriptor_shape K ctx (WPKHDescriptor p) = (ctx \<in> {TOP, P2SH} \<and> K p)"
| "descriptor_shape K ctx (MultisigDescriptor ps thresh is_sorted) =
     (ctx \<in> {TOP, P2SH, P2WSH} \<and> length ps \<in> {1..16} \<and> 1 \<le> thresh \<and> thresh \<le> int (length ps)
       \<and> (ctx = TOP \<longrightarrow> length ps \<le> 3) \<and> list_all K ps \<and> same_paths ps)"
| "descriptor_shape K ctx (SHDescriptor d) = (ctx = TOP \<and> descriptor_shape K P2SH d)"
| "descriptor_shape K ctx (WSHDescriptor d) = (ctx \<in> {TOP, P2SH} \<and> descriptor_shape K P2WSH d)"
| "descriptor_shape K ctx (TRDescriptor p ds depths) =
     (ctx = TOP \<and> K p \<and> list_all (descriptor_shape K P2TR) ds \<and> same_paths (p # concat (map pubkeys ds))
       \<and> length depths = length ds \<and> tree_shaped depths \<and> list_all (\<lambda>d. d \<le> MAX_TAPROOT_NODES) depths)"

text \<open>The keys are numbered in the order of the string.\<close>

definition keys_numbered :: "nat \<Rightarrow> PubkeyProvider list \<Rightarrow> bool" where
  "keys_numbered i ps \<longleftrightarrow> map pp_expr_index ps = [i..<i + length ps]"

lemma keys_numbered_simps [simp]:
  "keys_numbered i []"
  "keys_numbered i (p # ps) \<longleftrightarrow> pp_expr_index p = i \<and> keys_numbered (Suc i) ps"
  "keys_numbered i (ps @ qs) \<longleftrightarrow> keys_numbered i ps \<and> keys_numbered (i + length ps) qs"
proof -
  show [simp]: "keys_numbered i []" for i by (simp add: keys_numbered_def)
  show cons [simp]: "keys_numbered i (p # ps) \<longleftrightarrow> pp_expr_index p = i \<and> keys_numbered (Suc i) ps" for i p ps
  proof -
    have "[i..<i + length (p # ps)] = i # [Suc i..<Suc i + length ps]" by (simp add: upt_conv_Cons del: upt_Suc)
    then show ?thesis by (auto simp: keys_numbered_def)
  qed
  show "keys_numbered i (ps @ qs) \<longleftrightarrow> keys_numbered i ps \<and> keys_numbered (i + length ps) qs"
    by (induction ps arbitrary: i) simp_all
qed

text \<open>A key as the constructor makes it.\<close>

definition key_made :: "PubkeyProvider \<Rightarrow> bool" where
  "key_made p \<longleftrightarrow> PubkeyProvider_new (pp_origin p) (pp_pubkey p) (pp_deriv_path p) (pp_expr_index p) (pp_ranged p) = Inr p"

lemma PubkeyProvider_new_made:
  "PubkeyProvider_new origin pubkey path i ranged = Inr p \<Longrightarrow> key_made p \<and> pp_expr_index p = i"
  by (auto simp: PubkeyProvider_new_def key_made_def Let_def split: sum.splits)

section \<open>The keys read are made by the constructor and numbered\<close>

lemma parse_key_path_made: "parse_key_path origin s i = Inr p \<Longrightarrow> key_made p \<and> pp_expr_index p = i"
  unfolding parse_key_path_def Let_def
  by (cases "list_index CHR ''/'' s") (auto dest: PubkeyProvider_new_made split: if_split_asm)

lemma PubkeyProvider_parse_made:
  "PubkeyProvider_parse s i = Inr p \<Longrightarrow> key_made p \<and> pp_expr_index p = i"
  by (auto simp: PubkeyProvider_parse_def dest: parse_key_path_made split: if_split_asm)

lemma parse_pubkey_made:
  "parse_pubkey s i = Inr (p, rest, j) \<Longrightarrow> key_made p \<and> pp_expr_index p = i \<and> j = Suc i"
  by (auto simp: parse_pubkey_def split: option.splits dest: PubkeyProvider_parse_made)

text \<open>What the merges of the multipath lengths check.\<close>

definition merge_all :: "PubkeyProvider list \<Rightarrow> nat option \<Rightarrow> nat option result" where
  "merge_all ps m = res_fold (\<lambda>pub m. merge_multipath m pub) ps m"

definition paths_agree :: "nat option \<Rightarrow> PubkeyProvider list \<Rightarrow> bool" where
  "paths_agree m ps \<longleftrightarrow>
     (\<exists>n. (m = None \<or> m = Some n) \<and> list_all (\<lambda>p. 1 < pp_multipath_len p \<longrightarrow> pp_multipath_len p = n) ps)"

lemma merge_multipath_Inr:
  "merge_multipath m p = Inr m' \<longleftrightarrow>
     (if 1 < pp_multipath_len p then (m = None \<or> m = Some (pp_multipath_len p)) \<and> m' = Some (pp_multipath_len p) else m' = m)"
  by (auto simp: merge_multipath_def split: option.splits)

lemma paths_agree_Cons:
  "paths_agree m (p # ps) \<longleftrightarrow>
     (if 1 < pp_multipath_len p
      then (m = None \<or> m = Some (pp_multipath_len p)) \<and> paths_agree (Some (pp_multipath_len p)) ps
      else paths_agree m ps)"
  by (cases "1 < pp_multipath_len p") (auto simp: paths_agree_def)

lemma merge_all_iff: "(\<exists>m'. merge_all ps m = Inr m') \<longleftrightarrow> paths_agree m ps"
proof (induction ps arbitrary: m)
  case Nil
  then show ?case by (auto simp: merge_all_def paths_agree_def)
next
  case (Cons p ps)
  have "(\<exists>m'. merge_all (p # ps) m = Inr m') \<longleftrightarrow> (\<exists>m1. merge_multipath m p = Inr m1 \<and> paths_agree m1 ps)"
    using Cons.IH by (auto simp: merge_all_def)
  also have "\<dots> \<longleftrightarrow> paths_agree m (p # ps)"
    by (auto simp: merge_multipath_Inr paths_agree_Cons)
  finally show ?case .
qed

lemma merge_all_append: "merge_all (ps @ qs) m = res_bind (merge_all ps m) (merge_all qs)"
  by (simp add: merge_all_def [abs_def] res_fold_append)

lemma parse_keys_made:
  "parse_keys expr i m = Inr (ps, j) \<Longrightarrow>
     list_all key_made ps \<and> keys_numbered i ps \<and> j = i + length ps \<and> (\<exists>m'. merge_all ps m = Inr m')"
proof (induction expr i m arbitrary: ps j rule: parse_keys.induct)
  case (1 expr i m)
  show ?case
  proof (cases "expr = []")
    case True
    with 1 show ?thesis by (simp add: parse_keys.simps merge_all_def)
  next
    case False
    obtain p rest i' m' qs where p: "parse_pubkey expr i = Inr (p, rest, i')" and m: "merge_multipath m p = Inr m'"
      and q: "parse_keys rest i' m' = Inr (qs, j)" and ps: "ps = p # qs"
      using 1(2) False by (subst (asm) parse_keys.simps) (auto split: sum.splits)
    from 1(1) [OF False p _ _ m q] parse_pubkey_made [OF p] m show ?thesis by (auto simp: ps merge_all_def)
  qed
qed

section \<open>The loop over the leaves reads a tree\<close>

lemma open_braces_Inr:
  "open_braces expr br = Inr (expr', br') \<Longrightarrow>
     \<exists>n. br' = replicate n False @ br \<and> (length br \<le> MAX_TAPROOT_NODES \<longrightarrow> length br' \<le> MAX_TAPROOT_NODES)"
proof (induction expr br rule: open_braces.induct)
  case (2 c expr br)
  show ?case
  proof (cases "c = CHR ''{''")
    case True
    with 2 obtain n where "br' = replicate n False @ False # br" "length br' \<le> MAX_TAPROOT_NODES"
      by (auto split: if_splits)
    then show ?thesis by (intro exI [of _ "Suc n"]) (simp add: replicate_app_Cons_same)
  next
    case False
    with 2 show ?thesis by (intro exI [of _ 0]) simp
  qed
qed simp

lemma close_braces_Inr: "close_braces expr br = Inr (expr', br') \<Longrightarrow> br' = dropWhile id br"
  by (induction expr br rule: close_braces.induct) auto

lemma tree_step_parts:
  assumes "tree_step pl expr br m i = Inr (leaf, expr', br', m', i')"
  shows "\<exists>n d. leaf = (d, n + length br) \<and> (length br \<le> MAX_TAPROOT_NODES \<longrightarrow> n + length br \<le> MAX_TAPROOT_NODES)
     \<and> (\<exists>s. pl s i = Inr (d, i')) \<and> merge_all (pubkeys d) m = Inr m'
     \<and> (case dropWhile id (replicate n False @ br) of [] \<Rightarrow> br' = [] | b # bs \<Rightarrow> br' = True # bs)"
proof -
  obtain e1 b1 d e3 b3 where o: "open_braces expr br = Inr (e1, b1)" and p: "pl (fst (get_expr e1)) i = Inr (d, i')"
    and m: "merge_all (pubkeys d) m = Inr m'" and l: "leaf = (d, length b1)"
    and c: "close_braces (snd (get_expr e1)) b1 = Inr (e3, b3)" and b: "next_branch e3 b3 = Inr (expr', br')"
    using assms by (auto simp: tree_step_Inr merge_all_def)
  obtain n where n: "b1 = replicate n False @ br" "length br \<le> MAX_TAPROOT_NODES \<longrightarrow> length b1 \<le> MAX_TAPROOT_NODES"
    using open_braces_Inr [OF o] by blast
  have "case dropWhile id b1 of [] \<Rightarrow> br' = [] | b # bs \<Rightarrow> br' = True # bs"
    using b unfolding close_braces_Inr [OF c, symmetric] by (cases b3) auto
  moreover have "leaf = (d, n + length br)" "length br \<le> MAX_TAPROOT_NODES \<longrightarrow> n + length br \<le> MAX_TAPROOT_NODES"
    using l n by simp_all
  moreover have "\<exists>s. pl s i = Inr (d, i')" using p by blast
  ultimately show ?thesis using m unfolding n(1) by blast
qed

text \<open>The depths a state of the loop can still read: those that complete the branches left open.\<close>

inductive completes :: "bool list \<Rightarrow> nat list \<Rightarrow> bool" where
  last: "dropWhile id (replicate n False @ br) = [] \<Longrightarrow> completes br [n + length br]"
| more: "dropWhile id (replicate n False @ br) = b # bs \<Longrightarrow> completes (True # bs) ds \<Longrightarrow> completes br ((n + length br) # ds)"

definition completes_rest :: "bool list \<Rightarrow> nat list \<Rightarrow> bool" where
  "completes_rest br ds \<longleftrightarrow> (case dropWhile id br of [] \<Rightarrow> ds = [] | b # bs \<Rightarrow> completes (True # bs) ds)"

lemma completes_rest_simps [simp]:
  "completes_rest (True # br) ds = completes_rest br ds"
  "completes_rest (False # br) ds = completes (True # br) ds"
  "completes_rest [] ds \<longleftrightarrow> ds = []"
  by (simp_all add: completes_rest_def)

lemma completes_cases:
  assumes "completes br ds"
  obtains n ds' where "ds = (n + length br) # ds'" "completes_rest (replicate n False @ br) ds'"
  using assms by cases (auto simp: completes_rest_def)

lemma completes_tree: "completes br ds \<Longrightarrow> \<exists>t ds'. ds = tree_depths (length br) t @ ds' \<and> completes_rest br ds'"
proof (induction ds arbitrary: br rule: length_induct)
  case (1 ds)
  have climb: "\<exists>t ds'. tree_depths (n + length br) t1 @ ds1 = tree_depths (length br) t @ ds' \<and> completes_rest br ds'"
    if "completes_rest (replicate n False @ br) ds1" and "length ds1 < length ds" for n t1 ds1
    using that
  proof (induction n arbitrary: t1 ds1)
    case 0
    then show ?case by auto
  next
    case (Suc n)
    then have "completes (True # replicate n False @ br) ds1" by simp
    with 1 Suc.prems(2) obtain t2 ds2 where t2: "ds1 = tree_depths (Suc (n + length br)) t2 @ ds2"
      "completes_rest (replicate n False @ br) ds2" by fastforce
    with Suc.IH [OF t2(2), of "Branch t1 t2"] Suc.prems(2) show ?case by simp
  qed
  from \<open>completes br ds\<close> obtain n ds' where n: "ds = (n + length br) # ds'" "completes_rest (replicate n False @ br) ds'"
    by (rule completes_cases)
  from climb [OF n(2), of Script] n(1) show ?case by simp
qed

lemma completes_shaped: "completes [] ds \<Longrightarrow> tree_shaped ds"
  using completes_tree [of "[]" ds] by (auto simp: tree_shaped_def)

lemma parse_tree_sound:
  assumes "parse_tree pl expr br m i = Inr (leaves, j)"
    and "\<And>s i d j. pl s i = Inr (d, j) \<Longrightarrow>
        Q d \<and> keys_numbered i (get_pubkey_providers d) \<and> j = i + length (get_pubkey_providers d)"
  shows "list_all Q (map fst leaves) \<and> completes br (map snd leaves) \<and> leaves \<noteq> []
    \<and> keys_numbered i (concat (map get_pubkey_providers (map fst leaves)))
    \<and> j = i + length (concat (map get_pubkey_providers (map fst leaves)))
    \<and> (\<exists>m'. merge_all (concat (map pubkeys (map fst leaves))) m = Inr m')
    \<and> (length br \<le> MAX_TAPROOT_NODES \<longrightarrow> list_all (\<lambda>d. d \<le> MAX_TAPROOT_NODES) (map snd leaves))"
  using assms
proof (induction pl expr br m i arbitrary: leaves j rule: parse_tree.induct)
  case (1 pl expr br m i)
  note pl = 1(3)
  obtain leaf expr' br' m' i' where s: "tree_step pl expr br m i = Inr (leaf, expr', br', m', i')"
    using 1(2) by (subst (asm) parse_tree.simps) (auto split: sum.splits)
  obtain n d where d: "leaf = (d, n + length br)" "length br \<le> MAX_TAPROOT_NODES \<longrightarrow> n + length br \<le> MAX_TAPROOT_NODES"
    "\<exists>s. pl s i = Inr (d, i')" "merge_all (pubkeys d) m = Inr m'"
    "case dropWhile id (replicate n False @ br) of [] \<Rightarrow> br' = [] | b # bs \<Rightarrow> br' = True # bs"
    using tree_step_parts [OF s] by blast
  obtain s where "pl s i = Inr (d, i')" using d(3) by blast
  then have q: "Q d" "keys_numbered i (get_pubkey_providers d)" "i' = i + length (get_pubkey_providers d)"
    using pl by auto
  show ?case
  proof (cases "br' = []")
    case True
    then have "leaves = [leaf]" "j = i'"
      using 1(2) s by (subst (asm) parse_tree.simps, simp)+
    moreover have "completes br [n + length br]"
      using d(5) True by (intro completes.last) (auto split: list.splits)
    ultimately show ?thesis using d q by (simp add: merge_all_append)
  next
    case False
    then obtain ls where ls: "parse_tree pl expr' br' m' i' = Inr (ls, j)" "leaves = leaf # ls"
      using 1(2) s by (subst (asm) parse_tree.simps) auto
    obtain b bs where b: "dropWhile id (replicate n False @ br) = b # bs" "br' = True # bs"
      using d(5) False by (auto split: list.splits)
    have "length (b # bs) \<le> n + length br"
      using length_dropWhile_le [of id "replicate n False @ br"] b(1) by simp
    moreover note 1(1) [OF s refl refl refl refl False ls(1) pl]
    moreover from this have "completes br ((n + length br) # map snd ls)"
      using b by (intro completes.more) auto
    ultimately show ?thesis using d q by (auto simp: ls(2) b(2) merge_all_append add.assoc)
  qed
qed

text \<open>Every descriptor that is parsed has the shape its context allows.\<close>

lemma parse_multi_sound:
  assumes "parse_multi is_sorted expr ctx i = Inr (d, j)" and "ctx \<in> {TOP, P2SH, P2WSH}"
  shows "descriptor_shape key_made ctx d \<and> keys_numbered i (get_pubkey_providers d)
    \<and> j = i + length (get_pubkey_providers d)"
proof -
  obtain e ps thresh where k: "parse_keys e i None = Inr (ps, j)" and d: "d = MultisigDescriptor ps thresh is_sorted"
    and b: "\<not> (length ps = 0 \<or> 16 < length ps)" "\<not> thresh < 1" "\<not> int (length ps) < thresh" "\<not> (ctx = TOP \<and> 3 < length ps)"
    using assms(1) unfolding parse_multi_def Let_def by (auto split: if_split_asm)
  have "same_paths ps" using parse_keys_made [OF k] by (auto simp: merge_all_iff paths_agree_def same_paths_def)
  with parse_keys_made [OF k] b assms(2) show ?thesis by (auto simp: d Suc_le_eq)
qed

lemma parse_descriptor_ctx_sound:
  "parse_descriptor_ctx desc ctx i = Inr (d, j) \<Longrightarrow>
     descriptor_shape key_made ctx d \<and> keys_numbered i (get_pubkey_providers d) \<and> j = i + length (get_pubkey_providers d)"
proof (induction desc ctx i arbitrary: d j rule: parse_descriptor_ctx.induct)
  case (1 desc ctx i)
  obtain func expr where f: "get_func_expr desc = Inr (func, expr)"
    using 1(4) by (subst (asm) parse_descriptor_ctx.simps) (auto split: sum.splits)
  note step = 1(4) [unfolded parse_descriptor_ctx.simps [of desc ctx i] f sum.case prod.case]
  consider "func = ''pk''" | "func = ''pkh''" | "func = ''sortedmulti'' \<or> func = ''multi''" | "func = ''wpkh''"
    | "func = ''sh''" | "func = ''wsh''" | "func = ''tr''"
    using step by (auto split: if_split_asm)
  then show ?case
  proof cases
    case 1
    with step show ?thesis by (auto dest: parse_pubkey_made split: if_split_asm)
  next
    case 2
    with step show ?thesis by (auto dest: parse_pubkey_made split: if_split_asm)
  next
    case 3
    then have "func \<noteq> ''pk''" "func \<noteq> ''pkh''" by auto
    with 3 step show ?thesis using parse_multi_sound by (auto split: if_split_asm)
  next
    case 4
    with step show ?thesis by (auto dest: parse_pubkey_made split: if_split_asm)
  next
    case 5
    then obtain d' where d: "ctx = TOP" "parse_descriptor_ctx expr P2SH i = Inr (d', j)" "d = SHDescriptor d'"
      using step by (auto split: if_split_asm)
    from 1(1) [OF f refl _ _ _ _ _ _ d(2)] 5 d show ?thesis by simp
  next
    case 6
    then obtain d' where d: "ctx \<in> {TOP, P2SH}" "parse_descriptor_ctx expr P2WSH i = Inr (d', j)" "d = WSHDescriptor d'"
      using step by (auto split: if_split_asm)
    from 1(2) [OF f refl _ _ _ _ _ _ _ d(2)] 6 d show ?thesis by auto
  next
    case 7
    then obtain p e i1 where p: "parse_pubkey expr i = Inr (p, e, i1)" and t: "ctx = TOP"
      using step by (auto split: if_split_asm)
    note k = parse_pubkey_made [OF p]
    let ?m = "if 1 < pp_multipath_len p then Some (pp_multipath_len p) else None"
    show ?thesis
    proof (cases "e = []")
      case True
      then have "d = TRDescriptor p [] []" "j = i1" using 7 step p t by (auto split: if_split_asm)
      with k t show ?thesis by (auto simp: tree_shaped_def same_paths_def)
    next
      case False
      then obtain leaves where l: "parse_tree (\<lambda>s i. parse_descriptor_ctx s P2TR i) e [] ?m i1 = Inr (leaves, j)"
        and d: "d = TRDescriptor p (map fst leaves) (map snd leaves)"
        using 7 step p t by (auto simp: Let_def split: if_split_asm)
      have IH: "descriptor_shape key_made P2TR d \<and> keys_numbered i (get_pubkey_providers d)
          \<and> j = i + length (get_pubkey_providers d)" if "parse_descriptor_ctx s P2TR i = Inr (d, j)" for s i d j
        using 1(3) [OF f refl _ _ _ _ _ _ _ _ p refl refl refl False that] 7 t by simp
      let ?ds = "map fst leaves"
      have s: "list_all (descriptor_shape key_made P2TR) ?ds \<and> completes [] (map snd leaves)
          \<and> keys_numbered i1 (concat (map get_pubkey_providers ?ds)) \<and> j = i1 + length (concat (map get_pubkey_providers ?ds))
          \<and> (\<exists>m'. merge_all (concat (map pubkeys ?ds)) ?m = Inr m') \<and> list_all (\<lambda>d. d \<le> MAX_TAPROOT_NODES) (map snd leaves)"
        using parse_tree_sound [OF l, of "descriptor_shape key_made P2TR"] IH by fastforce
      then obtain m' where "merge_all (concat (map pubkeys (map fst leaves))) ?m = Inr m'" by blast
      then have "paths_agree ?m (concat (map pubkeys (map fst leaves)))" using merge_all_iff by blast
      then have "paths_agree None (p # concat (map pubkeys (map fst leaves)))" by (auto simp: paths_agree_Cons split: if_splits)
      then have "same_paths (p # concat (map pubkeys (map fst leaves)))" by (simp add: paths_agree_def same_paths_def)
      moreover have "tree_shaped (map snd leaves)" using s completes_shaped by blast
      ultimately show ?thesis using s k t by (auto simp: d)
    qed
  qed
qed

end
