(* ===== verification/Descriptor_Checksum.thy ===== *)
theory Descriptor_Checksum
  imports Descriptor_Parser
begin

text \<open>
  What the checksum of a descriptor notices.
\<close>

definition desc_gen :: "int \<Rightarrow> int" where
  "desc_gen t = (if odd t then 0xf5dee51989 else 0) XOR (if bit t 1 then 0xa9fdca3312 else 0)
     XOR (if bit t 2 then 0x1bab10e32d else 0) XOR (if bit t 3 then 0x3706b1677a else 0)
     XOR (if bit t 4 then 0x644d626ffd else 0)"

lemma PolyMod_eq: "PolyMod c v = desc_gen (drop_bit 35 c) XOR push_bit 5 (take_bit 35 c) XOR v"
proof -
  have m: "c AND 0x7ffffffff = take_bit 35 c" by (simp add: take_bit_eq_mask mask_eq_exp_minus_1)
  have b: "(t AND 1 \<noteq> 0) = odd t" "(t AND 2 \<noteq> 0) = bit t 1" "(t AND 4 \<noteq> 0) = bit t 2" "(t AND 8 \<noteq> 0) = bit t 3"
    "(t AND 16 \<noteq> 0) = bit t 4" for t :: int
    using and_exp_eq_0_iff_not_bit [of t 0] and_exp_eq_0_iff_not_bit [of t 1] and_exp_eq_0_iff_not_bit [of t 2]
      and_exp_eq_0_iff_not_bit [of t 3] and_exp_eq_0_iff_not_bit [of t 4] by (simp_all add: bit_0)
  have i: "(if p then x XOR g else x) = x XOR (if p then g else 0)" for p and x g :: int by simp
  show ?thesis
    unfolding PolyMod_def Let_def m b i desc_gen_def by (simp only: xor.assoc xor.commute xor.left_commute)
qed

lemma desc_gen_xor: "desc_gen (a XOR b) = desc_gen a XOR desc_gen b"
proof -
  have i: "(if p \<noteq> q then g else 0) = (if p then g else 0) XOR (if q then g else (0 :: int))" for p q g by simp
  have "odd (a XOR b) = (odd a \<noteq> odd b)" by (simp add: even_xor_iff)
  then show ?thesis
    unfolding desc_gen_def bit_xor_iff i by (simp only: i xor.assoc xor.commute xor.left_commute)
qed

interpretation desc: checksum_register 35 desc_gen PolyMod
proof unfold_locales
  fix t :: int assume t: "0 \<le> t" "t < 32"
  have all: "list_all (\<lambda>i. desc_gen (int i) < 2 ^ 40 \<and> 0 \<le> desc_gen (int i)
      \<and> (take_bit 5 (desc_gen (int i)) = 0 \<longrightarrow> i = 0)) [0..<32]"
    by code_simp
  have "nat t \<in> set [0..<32]" using t by auto
  with all have "desc_gen (int (nat t)) < 2 ^ 40 \<and> 0 \<le> desc_gen (int (nat t))
      \<and> (take_bit 5 (desc_gen (int (nat t))) = 0 \<longrightarrow> nat t = 0)"
    unfolding list_all_iff by blast
  with t show "0 \<le> desc_gen t \<and> desc_gen t < 2 ^ (35 + 5)" and "take_bit 5 (desc_gen t) = 0 \<Longrightarrow> t = 0"
    by simp_all
qed (simp_all add: PolyMod_eq desc_gen_xor)

lemma charset_length: "length INPUT_CHARSET = 95" "distinct INPUT_CHARSET" "length CHECKSUM_CHARSET = 32" "distinct CHECKSUM_CHARSET"
  by (simp_all add: INPUT_CHARSET_def CHECKSUM_CHARSET_def)

lemma charset_pos: "list_index ch INPUT_CHARSET = Some pos \<Longrightarrow> pos div 32 < 3 \<and> five_bit (int pos AND 31)"
proof -
  assume "list_index ch INPUT_CHARSET = Some pos"
  then have "pos < 95" using list_index_Some charset_length(1) by metis
  moreover have "int pos AND 31 = take_bit 5 (int pos)" by (simp add: take_bit_eq_mask mask_eq_exp_minus_1)
  moreover have "take_bit 5 (int pos) < 2 ^ 5" by (rule take_bit_int_less_exp)
  ultimately show ?thesis by (simp add: five_bit_def div_less_iff_less_mult)
qed

text \<open>The state after the characters and the last class symbol.\<close>

definition checksum_state :: "string \<Rightarrow> int \<Rightarrow> int \<Rightarrow> nat \<Rightarrow> int option" where
  "checksum_state desc c cls n =
     map_option (\<lambda>(c, cls, n). if 0 < n then PolyMod c cls else c) (checksum_loop desc c cls n)"

lemma checksum_state_simps:
  "checksum_state [] c cls n = Some (if 0 < n then PolyMod c cls else c)"
  "list_index ch INPUT_CHARSET = Some pos \<Longrightarrow> checksum_state (ch # desc) c cls n =
     (let c' = PolyMod c (int pos AND 31); cls' = cls * 3 + int (pos div 32) in
      if n = 2 then checksum_state desc (PolyMod c' cls') 0 0 else checksum_state desc c' cls' (n + 1))"
  by (simp_all add: checksum_state_def Let_def drop_bit_eq_div zdiv_int)

text \<open>The class symbol collects at most three classes, so it is a value of five bits.\<close>

definition class_ok :: "int \<Rightarrow> nat \<Rightarrow> bool" where
  "class_ok cls n \<longleftrightarrow> n < 3 \<and> 0 \<le> cls \<and> cls < 3 ^ n"

lemma class_ok_five: "class_ok cls n \<Longrightarrow> five_bit cls"
proof -
  assume a: "class_ok cls n"
  then have "(3 :: int) ^ n \<le> 3 ^ 2" by (intro power_increasing) (simp_all add: class_ok_def)
  with a show ?thesis by (auto simp: class_ok_def five_bit_def)
qed

lemma class_ok_step:
  assumes "class_ok cls n" and "list_index ch INPUT_CHARSET = Some pos"
  shows "n = 2 \<Longrightarrow> five_bit (cls * 3 + int (pos div 32))"
    and "n \<noteq> 2 \<Longrightarrow> class_ok (cls * 3 + int (pos div 32)) (n + 1)"
  using assms charset_pos [OF assms(2)] by (auto simp: class_ok_def five_bit_def)

lemma checksum_state_differs:
  assumes "set desc \<subseteq> set INPUT_CHARSET" and "register_ok 35 c" "register_ok 35 c'" and "class_ok cls n" and "c \<noteq> c'"
  shows "checksum_state desc c cls n \<noteq> checksum_state desc c' cls n"
  using assms
proof (induction desc arbitrary: c c' cls n)
  case Nil
  then show ?case using desc.step_inj by (auto simp: checksum_state_simps)
next
  case (Cons ch desc)
  then obtain pos where pos: "list_index ch INPUT_CHARSET = Some pos" by (cases "list_index ch INPUT_CHARSET") auto
  note five = charset_pos [OF pos]
  let ?c = "PolyMod c (int pos AND 31)" and ?c' = "PolyMod c' (int pos AND 31)" and ?cls = "cls * 3 + int (pos div 32)"
  have d: "?c \<noteq> ?c'" "register_ok 35 ?c" "register_ok 35 ?c'"
    using Cons.prems desc.step_inj five by (auto intro: desc.step_ok)
  show ?case
  proof (cases "n = 2")
    case True
    then have "five_bit ?cls" using class_ok_step(1) [OF Cons.prems(4) pos] by simp
    then have "PolyMod ?c ?cls \<noteq> PolyMod ?c' ?cls" "register_ok 35 (PolyMod ?c ?cls)" "register_ok 35 (PolyMod ?c' ?cls)"
      using d desc.step_inj by (auto intro: desc.step_ok)
    moreover have "class_ok 0 0" by (simp add: class_ok_def)
    ultimately show ?thesis using Cons True pos by (simp add: checksum_state_simps)
  next
    case False
    then show ?thesis
      using Cons d class_ok_step(2) [OF Cons.prems(4) pos] pos by (simp add: checksum_state_simps)
  qed
qed

text \<open>
  Within a group of three characters the low five bits of the characters go into the register one after the other and
  their classes into the class symbol, which follows at the end of the group. The difference of two registers is at
  most fifteen bits long then, and the class symbols cannot cancel it.
\<close>

definition near :: "nat \<Rightarrow> int \<Rightarrow> int \<Rightarrow> bool" where
  "near n c c' \<longleftrightarrow> register_ok 35 c \<and> register_ok 35 c' \<and> c XOR c' < 2 ^ (5 * n)"

lemma near_less:
  assumes "near n c c'" and "n \<le> 3"
  shows "0 \<le> c XOR c'" and "c XOR c' < 2 ^ 35"
proof -
  show "0 \<le> c XOR c'" using assms(1) by (simp add: near_def register_ok_def)
  have "c XOR c' < 2 ^ (5 * n)" using assms(1) by (simp add: near_def)
  also have "(2 :: int) ^ (5 * n) \<le> 2 ^ 35" using assms(2) by (intro power_increasing) simp_all
  finally show "c XOR c' < 2 ^ 35" .
qed

lemma near_step:
  assumes "near n c c'" and "n \<le> 2" and "five_bit v"
  shows "near (n + 1) (PolyMod c v) (PolyMod c' v)"
proof -
  have "PolyMod c v XOR PolyMod c' v = push_bit 5 (c XOR c')"
    using desc.step_difference [OF near_less [OF assms(1)], of v v] assms(2) by simp
  then show ?thesis using assms by (simp add: near_def desc.step_ok push_bit_eq_mult power_add)
qed

lemma near_class:
  assumes "near n c c'" and "n \<le> 3" and "five_bit v" and "five_bit w" and "(c, v) \<noteq> (c', w)"
  shows "PolyMod c v \<noteq> PolyMod c' w" and "register_ok 35 (PolyMod c v)" and "register_ok 35 (PolyMod c' w)"
  using desc.step_pair [OF near_less [OF assms(1, 2)] assms(3, 4)] assms by (auto simp: near_def desc.step_ok)

lemma checksum_group_differs:
  assumes "set desc \<subseteq> set INPUT_CHARSET" and "near n c c'" and "class_ok cls n" and "class_ok cls' n" and "(c, cls) \<noteq> (c', cls')"
  shows "checksum_state desc c cls n \<noteq> checksum_state desc c' cls' n"
  using assms
proof (induction desc arbitrary: c c' cls cls' n)
  case Nil
  have "n \<le> 3" using Nil(3) by (simp add: class_ok_def)
  have "n \<noteq> 0"
  proof
    assume "n = 0"
    then have "cls = 0" "cls' = 0" using Nil(3, 4) by (simp_all add: class_ok_def)
    moreover have "c XOR c' < 1" using Nil(2) \<open>n = 0\<close> by (simp add: near_def)
    then have "c XOR c' = 0" using near_less(1) [OF Nil(2) \<open>n \<le> 3\<close>] by linarith
    then have "c = c'" by (simp only: xor_cancel)
    ultimately show False using Nil(5) by simp
  qed
  then show ?case
    using near_class(1) [OF Nil(2) \<open>n \<le> 3\<close> class_ok_five [OF Nil(3)] class_ok_five [OF Nil(4)] Nil(5)] by (simp add: checksum_state_simps)
next
  case (Cons ch desc)
  then obtain pos where pos: "list_index ch INPUT_CHARSET = Some pos" by (cases "list_index ch INPUT_CHARSET") auto
  let ?v = "int pos AND 31" and ?t = "int (pos div 32)"
  have v: "five_bit ?v" using charset_pos [OF pos] by simp
  have n: "n \<le> 2" using Cons.prems(3) by (simp add: class_ok_def)
  have d: "near (n + 1) (PolyMod c ?v) (PolyMod c' ?v)" by (rule near_step [OF Cons.prems(2) n v])
  have ne: "(PolyMod c ?v, cls * 3 + ?t) \<noteq> (PolyMod c' ?v, cls' * 3 + ?t)"
    using Cons.prems(2, 5) v desc.step_inj by (auto simp: near_def)
  show ?case
  proof (cases "n = 2")
    case True
    note five = class_ok_step(1) [OF Cons.prems(3) pos True] class_ok_step(1) [OF Cons.prems(4) pos True]
    have "class_ok 0 0" by (simp add: class_ok_def)
    then show ?thesis
      using checksum_state_differs near_class [OF d _ five ne] Cons.prems(1) True pos by (simp add: checksum_state_simps)
  next
    case False
    then show ?thesis
      using Cons.IH [OF _ d _ _ ne] Cons.prems(1) class_ok_step(2) [OF Cons.prems(3) pos] class_ok_step(2) [OF Cons.prems(4) pos] pos
      by (simp add: checksum_state_simps)
  qed
qed

lemma charset_split: "pos = 32 * (pos div 32) + nat (int pos AND 31)"
proof -
  have "int pos AND 31 = take_bit 5 (int pos)" by (simp add: take_bit_eq_mask mask_eq_exp_minus_1)
  also have "\<dots> = int (pos mod 32)" by (simp add: take_bit_eq_mod zmod_int)
  finally have "nat (int pos AND 31) = pos mod 32" by simp
  then show ?thesis by simp
qed

lemma checksum_state_replaced:
  assumes "set (a @ x # y # b) \<subseteq> set INPUT_CHARSET" and "register_ok 35 c" and "class_ok cls n" and "x \<noteq> y"
  shows "checksum_state (a @ x # b) c cls n \<noteq> checksum_state (a @ y # b) c cls n"
  using assms(1-3)
proof (induction a arbitrary: c cls n)
  case Nil
  obtain i j where x: "list_index x INPUT_CHARSET = Some i" and y: "list_index y INPUT_CHARSET = Some j"
    using Nil(1) by (cases "list_index x INPUT_CHARSET"; cases "list_index y INPUT_CHARSET") auto
  have "i \<noteq> j" using x y assms(4) list_index_Some by metis
  let ?v = "int i AND 31" and ?w = "int j AND 31" and ?s = "cls * 3 + int (i div 32)" and ?t = "cls * 3 + int (j div 32)"
  have five: "five_bit ?v" "five_bit ?w" using charset_pos [OF x] charset_pos [OF y] by simp_all
  have ne: "(PolyMod c ?v, ?s) \<noteq> (PolyMod c ?w, ?t)"
  proof
    assume "(PolyMod c ?v, ?s) = (PolyMod c ?w, ?t)"
    then have "?v = ?w" "i div 32 = j div 32" using desc.value_changes by auto
    then show False using charset_split [of i] charset_split [of j] \<open>i \<noteq> j\<close> by simp
  qed
  have "PolyMod c ?v XOR PolyMod c ?w = ?v XOR ?w" using desc.step_difference [of c c ?v ?w] by simp
  then have "PolyMod c ?v XOR PolyMod c ?w < 2 ^ 5" using XOR_below [of ?v 5 ?w] five by (simp add: five_bit_def)
  also have "(2 :: int) ^ 5 \<le> 2 ^ (5 * (n + 1))" by (intro power_increasing) simp_all
  finally have d: "near (n + 1) (PolyMod c ?v) (PolyMod c ?w)" using Nil(2) five by (simp add: near_def desc.step_ok)
  show ?case
  proof (cases "n = 2")
    case True
    note symbols = class_ok_step(1) [OF Nil(3) x True] class_ok_step(1) [OF Nil(3) y True]
    have "class_ok 0 0" by (simp add: class_ok_def)
    then show ?thesis
      using checksum_state_differs near_class [OF d _ symbols ne] Nil(1) True x y by (simp add: checksum_state_simps)
  next
    case False
    then show ?thesis
      using checksum_group_differs [OF _ d _ _ ne] Nil(1) class_ok_step(2) [OF Nil(3) x] class_ok_step(2) [OF Nil(3) y] x y
      by (simp add: checksum_state_simps)
  qed
next
  case (Cons ch a)
  then obtain pos where pos: "list_index ch INPUT_CHARSET = Some pos" by (cases "list_index ch INPUT_CHARSET") auto
  have r: "register_ok 35 (PolyMod c (int pos AND 31))"
    using Cons.prems charset_pos [OF pos] by (auto intro: desc.step_ok)
  show ?case
  proof (cases "n = 2")
    case True
    have "class_ok 0 0" by (simp add: class_ok_def)
    moreover have "register_ok 35 (PolyMod (PolyMod c (int pos AND 31)) (cls * 3 + int (pos div 32)))"
      using r class_ok_step(1) [OF Cons.prems(3) pos True] by (rule desc.step_ok)
    ultimately show ?thesis using Cons.IH Cons.prems True pos by (simp add: checksum_state_simps)
  next
    case False
    then show ?thesis
      using Cons.IH Cons.prems r class_ok_step(2) [OF Cons.prems(3) pos] pos by (simp add: checksum_state_simps)
  qed
qed

definition checksum_chars :: "int \<Rightarrow> string" where
  "checksum_chars c = map (\<lambda>j. CHECKSUM_CHARSET ! nat (drop_bit (5 * (7 - j)) c AND 31)) [0..<8]"

lemma DescriptorChecksum_eq:
  "DescriptorChecksum desc = (case checksum_state desc 1 0 0 of None \<Rightarrow> []
     | Some c \<Rightarrow> checksum_chars (foldl PolyMod c (replicate 8 0) XOR 1))"
  by (simp add: DescriptorChecksum_def checksum_state_def checksum_chars_def Let_def split: option.splits prod.splits)

lemma checksum_chars_inj:
  assumes "register_ok 35 c" and "register_ok 35 c'" and eq: "checksum_chars c = checksum_chars c'"
  shows "c = c'"
proof -
  have and31: "x AND 31 = take_bit 5 x" for x :: int by (simp add: take_bit_eq_mask mask_eq_exp_minus_1)
  have five: "take_bit 5 (drop_bit (5 * q) c) = take_bit 5 (drop_bit (5 * q) c')" if "q < 8" for q
  proof -
    let ?d = "\<lambda>c. nat (take_bit 5 (drop_bit (5 * q) c))"
    have "checksum_chars c ! (7 - q) = CHECKSUM_CHARSET ! ?d c" "checksum_chars c' ! (7 - q) = CHECKSUM_CHARSET ! ?d c'"
      using that nth_upt [of 0 "7 - q" 8] unfolding checksum_chars_def and31 by simp_all
    then have "CHECKSUM_CHARSET ! ?d c = CHECKSUM_CHARSET ! ?d c'" using eq by simp
    moreover have "?d x < 32" for x using take_bit_int_less_exp [of 5 "drop_bit (5 * q) x"] by simp
    ultimately have "?d c = ?d c'" using charset_length(3, 4) by (simp add: nth_eq_iff_index_eq)
    then show ?thesis by (simp only: nat_eq_iff take_bit_nonnegative) (simp add: eq_nat_nat_iff)
  qed
  have "bit c k = bit c' k" if "k < 40" for k
  proof -
    have "bit x k = bit (take_bit 5 (drop_bit (5 * (k div 5)) x)) (k mod 5)" for x :: int
      by (simp add: bit_take_bit_iff bit_drop_bit_eq)
    moreover have "k div 5 < 8" using that by (simp add: div_less_iff_less_mult)
    ultimately show ?thesis using five [of "k div 5"] by simp
  qed
  then have "take_bit 40 c = take_bit 40 c'" by (intro bit_eqI) (auto simp: bit_take_bit_iff)
  then show ?thesis using assms(1, 2) by (simp add: register_ok_def take_bit_int_eq_self)
qed

lemma checksum_state_ok:
  assumes "checksum_state desc c cls n = Some c'" and "register_ok 35 c" and "class_ok cls n"
  shows "register_ok 35 c'"
  using assms
proof (induction desc arbitrary: c cls n)
  case Nil
  then show ?case using class_ok_five by (auto simp: checksum_state_simps intro: desc.step_ok split: if_splits)
next
  case (Cons ch desc)
  then obtain pos where pos: "list_index ch INPUT_CHARSET = Some pos"
    by (cases "list_index ch INPUT_CHARSET") (auto simp: checksum_state_def)
  have r: "register_ok 35 (PolyMod c (int pos AND 31))"
    using Cons.prems charset_pos [OF pos] by (auto intro: desc.step_ok)
  have z: "class_ok 0 0" by (simp add: class_ok_def)
  show ?case
  proof (cases "n = 2")
    case True
    with Cons.prems pos have "checksum_state desc (PolyMod (PolyMod c (int pos AND 31)) (cls * 3 + int (pos div 32))) 0 0 = Some c'"
      by (simp add: checksum_state_simps Let_def)
    then show ?thesis by (rule Cons.IH) (use r z class_ok_step(1) [OF Cons.prems(3) pos True] in \<open>auto intro: desc.step_ok\<close>)
  next
    case False
    with Cons.prems pos have "checksum_state desc (PolyMod c (int pos AND 31)) (cls * 3 + int (pos div 32)) (n + 1) = Some c'"
      by (simp add: checksum_state_simps Let_def)
    then show ?thesis by (rule Cons.IH) (use r class_ok_step(2) [OF Cons.prems(3) pos False] in auto)
  qed
qed

lemma checksum_total: "set desc \<subseteq> set INPUT_CHARSET \<Longrightarrow> \<exists>c'. checksum_state desc c cls n = Some c'"
proof (induction desc arbitrary: c cls n)
  case Nil
  then show ?case by (simp add: checksum_state_simps)
next
  case (Cons ch desc)
  then obtain pos where "list_index ch INPUT_CHARSET = Some pos" by (cases "list_index ch INPUT_CHARSET") auto
  with Cons show ?case by (simp add: checksum_state_simps Let_def)
qed

lemma checksum_differs:
  assumes s: "set (a @ x # y # b) \<subseteq> set INPUT_CHARSET"
    and xy: "x \<noteq> y"
  shows "DescriptorChecksum (a @ x # b) \<noteq> DescriptorChecksum (a @ y # b)"
proof -
  have one: "register_ok 35 1" "class_ok 0 0" "five_bit 0" "list_all five_bit (replicate 8 0)"
    by (simp_all add: register_ok_def class_ok_def five_bit_def list_all_iff)
  obtain c where c: "checksum_state (a @ x # b) 1 0 0 = Some c"
    using s checksum_total [of "a @ x # b" 1 0 0] by auto
  obtain c' where c': "checksum_state (a @ y # b) 1 0 0 = Some c'"
    using s checksum_total [of "a @ y # b" 1 0 0] by auto
  have "c \<noteq> c'" using checksum_state_replaced [OF s one(1, 2) xy] c c' by simp
  moreover have r: "register_ok 35 c" "register_ok 35 c'"
    using checksum_state_ok [OF c one(1, 2)] checksum_state_ok [OF c' one(1, 2)] .
  ultimately have "foldl PolyMod c (replicate 8 0) \<noteq> foldl PolyMod c' (replicate 8 0)"
    using one(4) by (intro desc.fold_inj)
  moreover have "register_ok 35 (foldl PolyMod c (replicate 8 0) XOR 1)" if "register_ok 35 c" for c
    using desc.fold_ok [OF that one(4)] one(1) XOR_below [of _ 40 1] by (auto simp: register_ok_def)
  ultimately have "checksum_chars (foldl PolyMod c (replicate 8 0) XOR 1) \<noteq> checksum_chars (foldl PolyMod c' (replicate 8 0) XOR 1)"
    using checksum_chars_inj r by (metis xor_cancel(2))
  then show ?thesis by (simp add: DescriptorChecksum_eq c c')
qed

text \<open>A character outside the character set leaves no checksum at all.\<close>

lemma checksum_refused: "\<not> set desc \<subseteq> set INPUT_CHARSET \<Longrightarrow> DescriptorChecksum desc = []"
proof -
  have "\<not> set desc \<subseteq> set INPUT_CHARSET \<Longrightarrow> checksum_loop desc c cls n = None" for c cls n
  proof (induction desc arbitrary: c cls n)
    case (Cons ch desc)
    show ?case
    proof (cases "list_index ch INPUT_CHARSET")
      case (Some pos)
      then have "ch \<in> set INPUT_CHARSET" by (metis list_index_None option.distinct(1))
      then show ?thesis using Cons Some by (simp add: Let_def)
    qed simp
  qed simp
  then show "\<not> set desc \<subseteq> set INPUT_CHARSET \<Longrightarrow> DescriptorChecksum desc = []" by (simp add: DescriptorChecksum_def)
qed

lemma checksum_size: "length (DescriptorChecksum desc) \<le> 8" "set desc \<subseteq> set INPUT_CHARSET \<Longrightarrow> length (DescriptorChecksum desc) = 8"
  using checksum_total [of desc 1 0 0] by (auto simp: DescriptorChecksum_eq checksum_chars_def split: option.split)

text \<open>A descriptor with the wrong checksum is refused, whatever else is in it.\<close>

lemma wrong_checksum:
  assumes "CHR ''#'' \<notin> set body" and "cs \<noteq> DescriptorChecksum body"
  shows "\<exists>msg. parse_descriptor (body @ ''#'' @ cs) = Inl (ValueErr msg)"
  using assms list_index_append_not_in [OF assms(1), of cs] by (auto simp: parse_descriptor_def Let_def)

text \<open>
  C16: a typo in a descriptor with a checksum is noticed. When any one character of the body is replaced by any
  other, within the character set or not, or when the checksum is replaced by anything else (so when any of its
  characters is), the parser raises the ValueError of a checksum that does not match.
\<close>

theorem descriptor_typo_detected:
  assumes "set (a @ x # b) \<subseteq> set INPUT_CHARSET" and "CHR ''#'' \<notin> set (a @ x # b)"
  shows "(\<forall>y. y \<noteq> x \<longrightarrow> (\<exists>msg. parse_descriptor (a @ y # b @ ''#'' @ DescriptorChecksum (a @ x # b)) = Inl (ValueErr msg)))
    \<and> (\<forall>cs. cs \<noteq> DescriptorChecksum (a @ x # b) \<longrightarrow> (\<exists>msg. parse_descriptor (a @ x # b @ ''#'' @ cs) = Inl (ValueErr msg)))"
proof (intro conjI allI impI)
  fix y assume y: "y \<noteq> x"
  let ?cs = "DescriptorChecksum (a @ x # b)"
  show "\<exists>msg. parse_descriptor (a @ y # b @ ''#'' @ ?cs) = Inl (ValueErr msg)"
  proof (cases "y = CHR ''#''")
    case True
    have "length (b @ ''#'' @ ?cs) > 8" using checksum_size(2) [OF assms(1)] by simp
    then have "b @ ''#'' @ ?cs \<noteq> DescriptorChecksum a" using checksum_size(1) [of a] by (metis not_le)
    then show ?thesis using wrong_checksum [of a "b @ ''#'' @ ?cs"] assms(2) True by simp
  next
    case False
    have "?cs \<noteq> DescriptorChecksum (a @ y # b)"
    proof (cases "y \<in> set INPUT_CHARSET")
      case True
      then show ?thesis using checksum_differs [of a x y b] assms(1) y by simp
    next
      case False
      then have "DescriptorChecksum (a @ y # b) = []" by (intro checksum_refused) simp
      then show ?thesis using checksum_size(2) [OF assms(1)] by auto
    qed
    then show ?thesis using wrong_checksum [of "a @ y # b" ?cs] assms(2) False by simp
  qed
next
  fix cs assume "cs \<noteq> DescriptorChecksum (a @ x # b)"
  then show "\<exists>msg. parse_descriptor (a @ x # b @ ''#'' @ cs) = Inl (ValueErr msg)"
    using wrong_checksum [OF assms(2)] by simp
qed

theorem descriptor_typo_detected_witness:
  "(\<exists>msg. parse_descriptor (''pkh(02'' @ CHR ''g'' # ''a)'' @ ''#'' @ DescriptorChecksum (''pkh(02'' @ CHR ''6'' # ''a)'')) = Inl (ValueErr msg))
    \<and> (\<exists>msg. parse_descriptor (''pkh(02'' @ CHR ''6'' # ''a)'' @ ''#'' @ ''qqqqqqq'') = Inl (ValueErr msg))"
proof -
  let ?a = "''pkh(02''" and ?b = "''a)''"
  have body: "set (?a @ CHR ''6'' # ?b) \<subseteq> set INPUT_CHARSET" "CHR ''#'' \<notin> set (?a @ CHR ''6'' # ?b)"
    by (simp_all add: INPUT_CHARSET_def)
  note typo = descriptor_typo_detected [OF body]
  have "CHR ''g'' \<noteq> CHR ''6''" by simp
  from conjunct1 [OF typo, rule_format, OF this]
  have "\<exists>msg. parse_descriptor (?a @ CHR ''g'' # ?b @ ''#'' @ DescriptorChecksum (?a @ CHR ''6'' # ?b)) = Inl (ValueErr msg)" .
  moreover have "''qqqqqqq'' \<noteq> DescriptorChecksum (?a @ CHR ''6'' # ?b)"
  proof
    assume "''qqqqqqq'' = DescriptorChecksum (?a @ CHR ''6'' # ?b)"
    then have "length ''qqqqqqq'' = 8" using checksum_size(2) [OF body(1)] by (simp only:)
    then show False by simp
  qed
  from conjunct2 [OF typo, rule_format, OF this]
  have "\<exists>msg. parse_descriptor (?a @ CHR ''6'' # ?b @ ''#'' @ ''qqqqqqq'') = Inl (ValueErr msg)" .
  ultimately show ?thesis ..
qed

end
