(* ===== verification/Descriptor_Round_Trip.thy ===== *)
theory Descriptor_Round_Trip
  imports Descriptor_Shape Descriptor_Checksum
begin

text \<open>
  Descriptors written and parsed back, and what follows for the descriptors the parser accepts.
\<close>

section \<open>Key expressions\<close>

text \<open>A character that ends neither a key expression nor an origin.\<close>

definition inner_char :: "char \<Rightarrow> bool" where
  "inner_char c \<longleftrightarrow> c \<notin> set ''()[]{},#*''"

lemma inner_char_path: "path_char c \<Longrightarrow> inner_char c"
  by (auto simp: path_char_def inner_char_def)

lemma inner_char_hex: "c \<in> set hex_digits \<Longrightarrow> inner_char c"
  by (auto simp: hex_digits_def inner_char_def)

text \<open>The characters with a meaning in descriptors.\<close>

definition delimiters :: "char set" where
  "delimiters = set ''()[]{},/#''"

definition key_ok :: "PubkeyProvider \<Rightarrow> bool" where
  "key_ok p \<longleftrightarrow> key_made p \<and> pp_pubkey p \<noteq> [] \<and> set (pp_pubkey p) \<inter> delimiters = {}
     \<and> pred_option keyorigin_ok (pp_origin p) \<and> pred_option (\<lambda>path. path \<noteq> [] \<and> path_ok path) (pp_deriv_path p)"

text \<open>What the string of a key does not contain.\<close>

definition plain :: "string \<Rightarrow> bool" where
  "plain s \<longleftrightarrow> list_all (\<lambda>c. c \<notin> set ''(){},#'') s"

lemma plain_simps [simp]:
  "plain []" "plain (c # s) \<longleftrightarrow> c \<notin> set ''(){},#'' \<and> plain s" "plain (s @ t) \<longleftrightarrow> plain s \<and> plain t"
  by (simp_all add: plain_def)

lemma plain_notin: "plain s \<Longrightarrow> c \<in> set ''(){},#'' \<Longrightarrow> c \<notin> set s"
  by (auto simp: plain_def list_all_iff)

lemma plain_inner: "list_all inner_char s \<Longrightarrow> plain s"
  by (auto simp: plain_def inner_char_def elim!: list.pred_mono_strong)

lemma key_string_plain:
  assumes "key_ok p" and "hc \<in> hardened_marks"
  shows "plain (pp_to_string hc p)"
proof -
  have "plain (pp_pubkey p)" using assms(1) by (fastforce simp: key_ok_def delimiters_def plain_def list_all_iff)
  moreover have "plain (keyorigin_to_string ko hc)" if "pp_origin p = Some ko" for ko
  proof -
    have "keyorigin_ok ko" using assms(1) that by (simp add: key_ok_def)
    then show ?thesis
      using origin_string_chars [OF _ assms(2)] inner_char_path inner_char_hex
      by (intro plain_inner) (auto simp: list_all_iff)
  qed
  moreover have "plain (multipath_to_string path hc)" if "pp_deriv_path p = Some path" for path
  proof -
    have "path_ok path" using assms(1) that by (simp add: key_ok_def)
    then show ?thesis
      using path_string_chars [OF _ assms(2)] inner_char_path
      by (intro plain_inner) (auto simp: list_all_iff multipath_to_string_def path_ok_def)
  qed
  ultimately show ?thesis by (auto simp: pp_to_string_def deriv_steps_def split: option.splits)
qed

lemma parse_key_path_string:
  assumes p: "key_ok p" and hc: "hc \<in> hardened_marks" and "pp_origin p = origin"
  shows "parse_key_path origin (pp_pubkey p
           @ (if deriv_steps p \<noteq> [] then multipath_to_string (deriv_steps p) hc else [])
           @ (if pp_ranged p then ''/*'' else [])) (pp_expr_index p) = Inr p"
proof -
  have slash: "CHR ''/'' \<notin> set (pp_pubkey p)" using p by (auto simp: key_ok_def delimiters_def)
  have new: "PubkeyProvider_new origin (pp_pubkey p) (pp_deriv_path p) (pp_expr_index p) (pp_ranged p) = Inr p"
    using p assms(3) by (simp add: key_ok_def key_made_def)
  show ?thesis
  proof (cases "pp_deriv_path p")
    case None
    with new slash show ?thesis
      by (cases "pp_ranged p") (simp_all add: deriv_steps_def parse_key_path_def list_index_append_not_in suffix_def drop_end_def)
  next
    case (Some path)
    then have ok: "path \<noteq> []" "path_ok path" using p by (simp_all add: key_ok_def)
    define t where "t = tl (path_to_string_multi path hc)"
    have s: "multipath_to_string path hc = CHR ''/'' # t"
      using ok(1) by (cases path) (simp_all add: t_def multipath_to_string_def path_to_string_segs)
    have t: "parse_multipath t = Inr path"
      unfolding parse_multipath_def t_def by (rule parse_path_str_segs(2) [OF ok(2) hc _ ok(1)]) simp
    have "c \<noteq> CHR ''*''" if "c \<in> set t" for c
    proof -
      have "c \<in> set (path_to_string_multi path hc)" using s that by (simp add: multipath_to_string_def)
      then have "path_char c" using path_string_chars hc ok(2) by (auto simp: path_ok_def)
      then show ?thesis by (auto simp: path_char_def)
    qed
    then have "CHR ''*'' \<notin> set t" by blast
    then have st: "\<not> suffix ''*'' t" by (auto simp: suffix_def)
    have t0: "t \<noteq> []" using t ok(1) by (auto simp: parse_multipath_def parse_path_str_def)
    show ?thesis
      using new slash Some ok t t0 st
      by (cases "pp_ranged p") (simp_all add: deriv_steps_def s parse_key_path_def list_index_append_not_in Let_def suffix_def drop_end_def)
  qed
qed

text \<open>A key is read back from its string, whatever it is numbered.\<close>

lemma key_origin_string:
  assumes "keyorigin_ok ko" and "hc \<in> hardened_marks"
  shows "keyorigin_from_string (keyorigin_to_string ko hc) = Inr ko"
    and "CHR '']'' \<notin> set (keyorigin_to_string ko hc)"
proof -
  show "keyorigin_from_string (keyorigin_to_string ko hc) = Inr ko"
    by (rule keyorigin_from_to_string [OF assms])
  show "CHR '']'' \<notin> set (keyorigin_to_string ko hc)"
    using origin_string_chars [OF assms, of "CHR '']''"] by (auto simp: path_char_def hex_digits_def)
qed

lemma PubkeyProvider_parse_string:
  assumes "key_ok p" and "hc \<in> hardened_marks"
  shows "PubkeyProvider_parse (pp_to_string hc p) (pp_expr_index p) = Inr p" and "pp_to_string hc p \<noteq> []"
proof -
  show "pp_to_string hc p \<noteq> []" using assms(1) by (simp add: pp_to_string_def key_ok_def)
  note path = parse_key_path_string [OF assms]
  show "PubkeyProvider_parse (pp_to_string hc p) (pp_expr_index p) = Inr p"
  proof (cases "pp_origin p")
    case None
    obtain c cs where "pp_pubkey p = c # cs" "c \<noteq> CHR ''[''"
      using assms(1) by (cases "pp_pubkey p") (auto simp: key_ok_def delimiters_def)
    with path [OF None] None show ?thesis by (simp add: PubkeyProvider_parse_def pp_to_string_def)
  next
    case (Some ko)
    then have "keyorigin_ok ko" using assms(1) by (simp add: key_ok_def)
    with path [OF Some] Some assms(2) show ?thesis
      by (simp add: PubkeyProvider_parse_def pp_to_string_def str_index_def list_index_append_not_in py_slice_def key_origin_string)
  qed
qed

lemma parse_pubkey_string:
  assumes "key_ok p" and "hc \<in> hardened_marks" and "pp_expr_index p = i"
  shows "parse_pubkey (pp_to_string hc p) i = Inr (p, [], Suc i)"
    and "parse_pubkey (pp_to_string hc p @ CHR '','' # rest) i = Inr (p, rest, Suc i)"
  using PubkeyProvider_parse_string [OF assms(1, 2)] plain_notin [OF key_string_plain [OF assms(1, 2)], of "CHR '',''"] assms(3)
  by (simp_all add: parse_pubkey_def list_index_append_not_in)

lemma parse_keys_string:
  assumes "hc \<in> hardened_marks"
  shows "list_all key_ok ps \<Longrightarrow> keys_numbered i ps \<Longrightarrow> merge_all ps m = Inr m' \<Longrightarrow>
    parse_keys (py_join '','' (map (pp_to_string hc) ps)) i m = Inr (ps, i + length ps)"
proof (induction ps arbitrary: i m)
  case Nil
  then show ?case by (simp add: parse_keys.simps)
next
  case (Cons p ps)
  obtain m1 where m: "merge_multipath m p = Inr m1" "merge_all ps m1 = Inr m'"
    using Cons.prems(3) by (auto simp: merge_all_def)
  let ?s = "py_join '','' (map (pp_to_string hc) ps)"
  have "parse_pubkey (py_join '','' (map (pp_to_string hc) (p # ps))) i = Inr (p, ?s, Suc i)"
    using Cons.prems parse_pubkey_string [OF _ assms, of p i] by (cases "ps = []") (simp_all add: py_join_Cons)
  moreover have "py_join '','' (map (pp_to_string hc) (p # ps)) \<noteq> []"
    using Cons.prems PubkeyProvider_parse_string(2) [OF _ assms, of p] by (cases "ps = []") (simp_all add: py_join_Cons)
  ultimately show ?case using Cons m by (subst parse_keys.simps) simp
qed

section \<open>Function expressions\<close>

lemma get_func_expr_string: "CHR ''('' \<notin> set name \<Longrightarrow> get_func_expr (name @ CHR ''('' # s @ '')'') = Inr (name, s)"
  using list_rindex_append_not_in [of "CHR '')''" "[]" "name @ CHR ''('' # s"]
  by (simp add: get_func_expr_def list_index_append_not_in py_slice_def)

lemma parse_multi_string:
  assumes "descriptor_shape key_ok ctx (MultisigDescriptor ps thresh is_sorted)" and "hc \<in> hardened_marks"
    and "keys_numbered i ps"
  shows "parse_multi is_sorted (show_int thresh @ CHR '','' # py_join '','' (map (pp_to_string hc) ps)) ctx i
     = Inr (MultisigDescriptor ps thresh is_sorted, i + length ps)"
proof -
  have thresh: "show_int thresh = show_nat (nat thresh)" "int (nat thresh) = thresh"
    using assms(1) by (simp_all add: show_int_def)
  have comma: "CHR '','' \<notin> set (show_nat (nat thresh))"
    using show_nat_digits by fastforce
  have "paths_agree None ps" using assms(1) by (simp add: same_paths_def paths_agree_def)
  then obtain m' where "merge_all ps None = Inr m'" using merge_all_iff by blast
  with assms have "parse_keys (py_join '','' (map (pp_to_string hc) ps)) i None = Inr (ps, i + length ps)"
    by (intro parse_keys_string) auto
  then show ?thesis
    using assms(1) comma by (auto simp: parse_multi_def str_index_def list_index_append_not_in thresh Let_def)
qed

section \<open>The text of a script tree\<close>

definition leaf_count :: "script_tree \<Rightarrow> nat" where
  "leaf_count t = length (tree_depths 0 t)"

lemma length_tree_depths [simp]: "length (tree_depths k t) = leaf_count t"
proof -
  have "length (tree_depths k t) = length (tree_depths l t)" for k l
    by (induction t arbitrary: k l) (simp_all, metis)
  then show ?thesis by (simp add: leaf_count_def)
qed

lemma leaf_count_simps [simp]:
  "leaf_count Script = 1" "leaf_count (Branch l r) = leaf_count l + leaf_count r"
  by (simp_all add: leaf_count_def [of Script] leaf_count_def [of "Branch l r"])

lemma tree_depths_ge: "d \<in> set (tree_depths k t) \<Longrightarrow> k \<le> d"
  by (induction t arbitrary: k) (auto dest: Suc_leD)

text \<open>The braces of a tree around the texts of its leaves.\<close>

fun tree_text :: "script_tree \<Rightarrow> string list \<Rightarrow> string" where
  "tree_text Script leaves = hd leaves"
| "tree_text (Branch l r) leaves =
     ''{'' @ tree_text l (take (leaf_count l) leaves) @ '','' @ tree_text r (drop (leaf_count l) leaves) @ ''}''"

lemma open_path_full: "length path = Suc d \<Longrightarrow> open_path d path = ([], path)"
  by (simp add: open_path.simps)

text \<open>The writer opens one level at a time.\<close>

lemma tree_string_open:
  assumes "length path \<le> d" and "tree_string (False # path) (d # ds) leaves = Inr (CHR '','' # s)"
  shows "tree_string path (d # ds) leaves = Inr ('','' @ (if path \<noteq> [] then ''{'' else []) @ s)"
proof -
  have "open_path d path = (case open_path d (False # path) of (r, path') \<Rightarrow> ((if path \<noteq> [] then ''{'' else []) @ r, path'))"
    using assms(1) by (simp add: open_path.simps [of d path])
  then show ?thesis
    using assms(2) by (cases leaves) (auto split: prod.splits)
qed

lemma tree_string_tree:
  assumes "length path = Suc k" and "length leaves = leaf_count t"
    and "tree_string (mark_right (snd (close_path path))) ds ls = Inr r"
  shows "tree_string path (tree_depths k t @ ds) (map Inr leaves @ ls) = Inr (CHR '','' # tree_text t leaves @ fst (close_path path) @ r)"
  using assms
proof (induction t arbitrary: k path leaves ds ls r)
  case Script
  then obtain leaf where "leaves = [leaf]" by (cases leaves) auto
  with Script show ?case by (simp add: open_path_full case_prod_unfold)
next
  case (Branch t1 t2)
  let ?l = "take (leaf_count t1) leaves" and ?r = "drop (leaf_count t1) leaves"
  have len: "length ?l = leaf_count t1" "length ?r = leaf_count t2" using Branch.prems(2) by simp_all
  have "snd (close_path (True # path)) = snd (close_path path)" "fst (close_path (True # path)) = CHR ''}'' # fst (close_path path)"
    by (simp_all split: prod.splits)
  with Branch.prems have "tree_string (True # path) (tree_depths (Suc k) t2 @ ds) (map Inr ?r @ ls)
      = Inr (CHR '','' # tree_text t2 ?r @ ''}'' @ fst (close_path path) @ r)"
    using Branch.IH(2) [of "True # path" "Suc k" ?r ds ls r] len by simp
  then have "tree_string (False # path) (tree_depths (Suc k) t1 @ tree_depths (Suc k) t2 @ ds) (map Inr ?l @ map Inr ?r @ ls)
      = Inr (CHR '','' # tree_text t1 ?l @ CHR '','' # tree_text t2 ?r @ ''}'' @ fst (close_path path) @ r)"
    using Branch.prems(1) len by (subst Branch.IH(1)) auto
  moreover have "map Inr ?l @ map Inr ?r @ ls = map Inr leaves @ ls"
    by (metis append.assoc append_take_drop_id map_append)
  moreover obtain d ds1 where d: "tree_depths (Suc k) t1 = d # ds1" by (cases "tree_depths (Suc k) t1") auto
  moreover have "length path \<le> d" "path \<noteq> []" using tree_depths_ge [of d "Suc k" t1] d Branch.prems(1) by auto
  ultimately show ?case using tree_string_open [of path d] by simp
qed

lemma tree_string_whole:
  assumes "length leaves = leaf_count t"
  shows "tree_string [] (tree_depths 0 t) (map Inr leaves) = Inr (CHR '','' # tree_text t leaves)"
proof -
  obtain d ds where d: "tree_depths 0 t = d # ds" by (cases "tree_depths 0 t") auto
  have "tree_string [False] (tree_depths 0 t @ []) (map Inr leaves @ []) = Inr (CHR '','' # tree_text t leaves @ fst (close_path [False]) @ [])"
    using assms by (intro tree_string_tree) auto
  then show ?thesis using tree_string_open [of "[]" d ds "map Inr leaves"] d by simp
qed

section \<open>Reading a script tree\<close>

text \<open>The leaves are \<open>pk\<close> descriptors, the only ones that may stand in a tree.\<close>

definition leaf_text :: "string \<Rightarrow> PubkeyProvider \<Rightarrow> string" where
  "leaf_text hc p = ''pk('' @ pp_to_string hc p @ '')''"

lemma split_expr_plain: "plain s \<Longrightarrow> split_expr level (s @ rest) = map_prod ((@) s) id (split_expr level rest)"
  by (cases "split_expr level rest", induction s) auto

definition ends_expr :: "string \<Rightarrow> bool" where
  "ends_expr rest \<longleftrightarrow> (case rest of [] \<Rightarrow> True | c # s \<Rightarrow> c \<in> set '',}'')"

lemma get_expr_leaf:
  assumes "key_ok p" and "hc \<in> hardened_marks" and "ends_expr rest"
  shows "get_expr (leaf_text hc p @ rest) = (leaf_text hc p, rest)"
proof -
  have "split_expr 0 rest = ([], rest)" using assms(3) by (cases rest) (auto simp: ends_expr_def)
  then show ?thesis
    using split_expr_plain [OF key_string_plain [OF assms(1, 2)], of 1 "CHR '')'' # rest"]
    by (simp add: get_expr_def leaf_text_def)
qed

text \<open>What is left of the loop after a subtree.\<close>

definition parse_rest ::
    "(string \<Rightarrow> nat \<Rightarrow> (Descriptor \<times> nat) result) \<Rightarrow> string \<Rightarrow> bool list \<Rightarrow> nat option \<Rightarrow> nat
     \<Rightarrow> ((Descriptor \<times> nat) list \<times> nat) result" where
  "parse_rest pl expr br m i =
     res_bind (close_braces expr br) (\<lambda>(expr, br).
     res_bind (next_branch expr br) (\<lambda>(expr, br).
     if br = [] then Inr ([], i) else parse_tree pl expr br m i))"

lemma parse_rest_simps [simp]:
  "parse_rest pl expr [] m i = Inr ([], i)"
  "parse_rest pl (CHR ''}'' # expr) (True # br) m i = parse_rest pl expr br m i"
  "parse_rest pl (CHR '','' # expr) (False # br) m i = parse_tree pl expr (True # br) m i"
  by (simp_all add: parse_rest_def get_const_def)

lemma parse_tree_bind:
  "parse_tree pl expr br m i =
     res_bind (tree_step pl expr br m i) (\<lambda>(leaf, expr, br, m, i).
     res_bind (if br = [] then Inr ([], i) else parse_tree pl expr br m i) (\<lambda>(leaves, j). Inr (leaf # leaves, j)))"
  by (subst parse_tree.simps) (simp split: sum.splits prod.splits)

lemma parse_tree_open:
  "length br < MAX_TAPROOT_NODES \<Longrightarrow> parse_tree pl (CHR ''{'' # expr) br m i = parse_tree pl expr (False # br) m i"
  by (simp add: parse_tree.simps [of pl "CHR ''{'' # expr"] parse_tree.simps [of pl expr] tree_step_def)

lemma parse_tree_leaf:
  assumes "key_ok p" and "hc \<in> hardened_marks" and "ends_expr rest"
    and "pl (leaf_text hc p) i = Inr (PKDescriptor p, Suc i)" and "merge_multipath m p = Inr m'"
  shows "parse_tree pl (leaf_text hc p @ rest) br m i
     = res_bind (parse_rest pl rest br m' (Suc i)) (\<lambda>(leaves, j). Inr ((PKDescriptor p, length br) # leaves, j))"
proof -
  have "open_braces (leaf_text hc p @ rest) br = Inr (leaf_text hc p @ rest, br)" by (simp add: leaf_text_def)
  then show ?thesis
    using assms(4, 5) get_expr_leaf [OF assms(1-3)]
    by (subst parse_tree_bind) (simp add: tree_step_def parse_rest_def res_bind_assoc case_prod_unfold cong: if_cong)
qed

lemma parse_tree_text:
  assumes "hc \<in> hardened_marks"
    and "\<And>p i. p \<in> set ps \<Longrightarrow> pp_expr_index p = i \<Longrightarrow> pl (leaf_text hc p) i = Inr (PKDescriptor p, Suc i)"
    and "length ps = leaf_count t" and "list_all key_ok ps" and "keys_numbered i ps" and "merge_all ps m = Inr m'"
    and "list_all (\<lambda>d. d \<le> MAX_TAPROOT_NODES) (tree_depths (length br) t)" and "ends_expr rest"
  shows "parse_tree pl (tree_text t (map (leaf_text hc) ps) @ rest) br m i
     = res_bind (parse_rest pl rest br m' (i + length ps)) (\<lambda>(leaves, j).
       Inr (zip (map PKDescriptor ps) (tree_depths (length br) t) @ leaves, j))"
  using assms(2-)
proof (induction t arbitrary: ps br m m' i rest)
  case Script
  then obtain p where p: "ps = [p]" by (cases ps) auto
  with Script have "merge_multipath m p = Inr m'" by (simp add: merge_all_def)
  then have "parse_tree pl (leaf_text hc p @ rest) br m i
     = res_bind (parse_rest pl rest br m' (Suc i)) (\<lambda>(leaves, j). Inr ((PKDescriptor p, length br) # leaves, j))"
    using Script p assms(1) by (intro parse_tree_leaf) auto
  then show ?case by (simp add: p)
next
  case (Branch t1 t2)
  let ?n = "leaf_count t1" and ?text = "\<lambda>t ps. tree_text t (map (leaf_text hc) ps)"
  define p1 p2 where "p1 = take ?n ps" and "p2 = drop ?n ps"
  have ps: "ps = p1 @ p2" "length p1 = leaf_count t1" "length p2 = leaf_count t2"
    using Branch.prems(2) by (simp_all add: p1_def p2_def)
  then have str: "?text (Branch t1 t2) ps = CHR ''{'' # ?text t1 p1 @ CHR '','' # ?text t2 p2 @ ''}''" by simp
  obtain m1 where m1: "merge_all p1 m = Inr m1" "merge_all p2 m1 = Inr m'"
    using Branch.prems(5) by (auto simp: ps(1) merge_all_append)
  obtain d where d: "d \<in> set (tree_depths (Suc (length br)) t1)" by (cases "tree_depths (Suc (length br)) t1") auto
  then have "d \<le> MAX_TAPROOT_NODES" using Branch.prems(6) by (simp add: list_all_iff)
  then have br: "length br < MAX_TAPROOT_NODES" using tree_depths_ge [OF d] by simp
  let ?rest1 = "CHR '','' # ?text t2 p2 @ CHR ''}'' # rest"
  have left: "parse_tree pl (?text t1 p1 @ ?rest1) (False # br) m i
     = res_bind (parse_rest pl ?rest1 (False # br) m1 (i + length p1)) (\<lambda>(leaves, j).
       Inr (zip (map PKDescriptor p1) (tree_depths (length (False # br)) t1) @ leaves, j))"
    using Branch.prems m1 ps by (intro Branch.IH(1)) (auto simp: ends_expr_def)
  have right: "parse_tree pl (?text t2 p2 @ CHR ''}'' # rest) (True # br) m1 (i + length p1)
     = res_bind (parse_rest pl (CHR ''}'' # rest) (True # br) m' (i + length p1 + length p2)) (\<lambda>(leaves, j).
       Inr (zip (map PKDescriptor p2) (tree_depths (length (True # br)) t2) @ leaves, j))"
    using Branch.prems m1 ps by (intro Branch.IH(2)) (auto simp: ends_expr_def)
  have "parse_tree pl (?text (Branch t1 t2) ps @ rest) br m i = parse_tree pl (?text t1 p1 @ ?rest1) (False # br) m i"
    using br unfolding str by (simp add: parse_tree_open)
  also have "\<dots> = res_bind (parse_rest pl rest br m' (i + length ps)) (\<lambda>(leaves, j).
       Inr (zip (map PKDescriptor ps) (tree_depths (length br) (Branch t1 t2)) @ leaves, j))"
    using ps left right by (cases "parse_rest pl rest br m' (i + length ps)") (auto simp: add.assoc)
  finally show ?case .
qed

section \<open>Descriptors\<close>

lemmas func_exprs =
  get_func_expr_string [of "''pk''", simplified] get_func_expr_string [of "''pkh''", simplified]
  get_func_expr_string [of "''wpkh''", simplified] get_func_expr_string [of "''multi''", simplified]
  get_func_expr_string [of "''sortedmulti''", simplified] get_func_expr_string [of "''sh''", simplified]
  get_func_expr_string [of "''wsh''", simplified] get_func_expr_string [of "''tr''", simplified]

lemma shape_leaf: "descriptor_shape K P2TR d \<longleftrightarrow> (\<exists>p. d = PKDescriptor p \<and> K p)"
  by (cases d) auto

lemma shape_leaves: "list_all (descriptor_shape K P2TR) ds \<Longrightarrow> \<exists>ps. ds = map PKDescriptor ps \<and> list_all K ps"
proof (induction ds)
  case (Cons d ds)
  then obtain p ps where "d = PKDescriptor p" "K p" "ds = map PKDescriptor ps" "list_all K ps" by (auto simp: shape_leaf)
  then show ?case by (intro exI [of _ "p # ps"]) simp
qed simp

lemma parse_leaf_text:
  assumes "key_ok p" and "hc \<in> hardened_marks" and "pp_expr_index p = i"
  shows "parse_descriptor_ctx (leaf_text hc p) ctx i = Inr (PKDescriptor p, Suc i)"
  using parse_pubkey_string [OF assms] by (subst parse_descriptor_ctx.simps) (simp add: leaf_text_def func_exprs)

lemma tree_text_chars:
  "length leaves = leaf_count t \<Longrightarrow> set (tree_text t leaves) \<subseteq> set ''{,}'' \<union> \<Union> (set ` set leaves)"
proof (induction t arbitrary: leaves)
  case Script
  then show ?case by (cases leaves) auto
next
  case (Branch t1 t2)
  have "set (take (leaf_count t1) leaves) \<subseteq> set leaves" "set (drop (leaf_count t1) leaves) \<subseteq> set leaves"
    by (rule set_take_subset, rule set_drop_subset)
  then show ?case
    using Branch.prems Branch.IH(1) [of "take (leaf_count t1) leaves"] Branch.IH(2) [of "drop (leaf_count t1) leaves"] by fastforce
qed

lemma tree_text_nonempty: "length ps = leaf_count t \<Longrightarrow> tree_text t (map (leaf_text hc) ps) \<noteq> []"
  by (cases t; cases ps) (auto simp: leaf_text_def)

lemma tr_string:
  assumes shape: "descriptor_shape key_ok ctx (TRDescriptor p ds depths)" and hc: "hc \<in> hardened_marks"
    and num: "keys_numbered i (get_pubkey_providers (TRDescriptor p ds depths))"
  shows "\<exists>s. to_string_no_checksum hc (TRDescriptor p ds depths) = Inr s \<and> CHR ''#'' \<notin> set s
    \<and> parse_descriptor_ctx s ctx i = Inr (TRDescriptor p ds depths, i + length (get_pubkey_providers (TRDescriptor p ds depths)))"
proof -
  obtain ps where ps: "ds = map PKDescriptor ps" "list_all key_ok ps" using shape shape_leaves by auto
  have p: "key_ok p" "pp_expr_index p = i" and pn: "keys_numbered (Suc i) ps" and ctx: "ctx = TOP"
    using shape num by (simp_all add: ps(1) comp_def)
  note key = parse_pubkey_string [OF p(1) hc p(2)] and plain = plain_notin [OF key_string_plain [OF _ hc], of _ "CHR ''#''"]
  have leaves: "map (to_string_no_checksum hc) ds = map Inr (map (leaf_text hc) ps)" by (simp add: ps(1) leaf_text_def)
  show ?thesis
  proof (cases "depths = []")
    case True
    then have "ps = []" using shape by (simp add: ps(1))
    with True key(1) plain [OF p(1)] ctx show ?thesis
      by (simp add: ps(1) parse_descriptor_ctx.simps [of _ TOP] func_exprs)
  next
    case False
    then obtain t where t: "depths = tree_depths 0 t" "length ps = leaf_count t"
      using shape by (auto simp: tree_shaped_def ps(1))
    let ?T = "tree_text t (map (leaf_text hc) ps)"
      and ?m = "if 1 < pp_multipath_len p then Some (pp_multipath_len p) else None"
    have "paths_agree None (p # ps)" using shape by (simp add: same_paths_def paths_agree_def ps(1) comp_def)
    then have "paths_agree ?m ps" by (auto simp: paths_agree_Cons split: if_splits)
    then obtain m' where m': "merge_all ps ?m = Inr m'" using merge_all_iff by blast
    have "parse_tree (\<lambda>sarg i. parse_descriptor_ctx sarg P2TR i) (?T @ []) [] ?m (Suc i)
      = res_bind (parse_rest (\<lambda>sarg i. parse_descriptor_ctx sarg P2TR i) [] [] m' (Suc i + length ps)) (\<lambda>(leaves, j).
        Inr (zip (map PKDescriptor ps) (tree_depths (length ([] :: bool list)) t) @ leaves, j))"
      using shape t ps(2) pn m' hc
      by (intro parse_tree_text) (auto simp: ends_expr_def list_all_iff intro!: parse_leaf_text)
    then have parse: "parse_tree (\<lambda>sarg i. parse_descriptor_ctx sarg P2TR i) ?T [] ?m (Suc i)
      = Inr (zip (map PKDescriptor ps) depths, Suc i + length ps)"
      by (simp add: t(1))
    have "tree_string [] depths (map (to_string_no_checksum hc) ds) = Inr (CHR '','' # ?T)"
      unfolding leaves t(1) using t(2) by (intro tree_string_whole) simp
    moreover have "CHR ''#'' \<notin> set ?T"
      using tree_text_chars [of "map (leaf_text hc) ps" t] t(2) plain ps(2)
      by (auto simp: leaf_text_def list_all_iff split: if_split_asm)
    ultimately show ?thesis
      using get_func_expr_string [of "''tr''" "pp_to_string hc p @ CHR '','' # ?T"]
        parse key(2) [of ?T] plain [OF p(1)] ctx t tree_text_nonempty [of ps t hc]
      by (simp add: parse_descriptor_ctx.simps [of _ TOP] func_exprs Let_def ps(1) comp_def)
  qed
qed

lemma descriptor_string:
  assumes "hc \<in> hardened_marks"
  shows "descriptor_shape key_ok ctx d \<Longrightarrow> keys_numbered i (get_pubkey_providers d) \<Longrightarrow>
    \<exists>s. to_string_no_checksum hc d = Inr s \<and> CHR ''#'' \<notin> set s
      \<and> parse_descriptor_ctx s ctx i = Inr (d, i + length (get_pubkey_providers d))"
proof (induction d arbitrary: ctx i)
  case (TRDescriptor p ds depths)
  then show ?case using tr_string assms by blast
next
  case (MultisigDescriptor ps thresh is_sorted)
  note parse = parse_multi_string [OF MultisigDescriptor(1) assms, of i]
  have "CHR ''#'' \<notin> set (py_join '','' (map (pp_to_string hc) ps))"
    using set_py_join [of "'',''" "map (pp_to_string hc) ps"] MultisigDescriptor(1)
      plain_notin [OF key_string_plain [OF _ assms], of _ "CHR ''#''"] by (auto simp: list_all_iff)
  moreover have "CHR ''#'' \<notin> set (show_int thresh)"
    using show_nat_digits MultisigDescriptor(1) by (fastforce simp: show_int_def)
  moreover note get_func_expr_string [of "if is_sorted then ''sortedmulti'' else ''multi''"
    "show_int thresh @ CHR '','' # py_join '','' (map (pp_to_string hc) ps)"]
  ultimately show ?case
    using parse MultisigDescriptor by (cases is_sorted) (simp_all add: parse_descriptor_ctx.simps [of _ ctx])
next
  case (SHDescriptor d)
  then show ?case by (fastforce simp: parse_descriptor_ctx.simps [of _ TOP] func_exprs)
next
  case (WSHDescriptor d)
  then obtain s where "to_string_no_checksum hc d = Inr s" "CHR ''#'' \<notin> set s"
    "parse_descriptor_ctx s P2WSH i = Inr (d, i + length (get_pubkey_providers d))" by fastforce
  with WSHDescriptor(2) show ?case by (auto simp: parse_descriptor_ctx.simps [of _ ctx] func_exprs)
next
  case (PKDescriptor p)
  then show ?case
    using parse_leaf_text [OF _ assms] plain_notin [OF key_string_plain [OF _ assms], of p "CHR ''#''"]
    by (auto simp: leaf_text_def)
qed (auto simp: parse_descriptor_ctx.simps [of _ TOP] parse_descriptor_ctx.simps [of _ P2SH] parse_descriptor_ctx.simps [of _ P2WSH]
      func_exprs parse_pubkey_string assms plain_notin [OF key_string_plain [OF _ assms], of _ "CHR ''#''"])

lemma descriptor_read_back:
  assumes "hc \<in> hardened_marks" and "descriptor_shape key_ok TOP d" and "keys_numbered 0 (get_pubkey_providers d)"
  shows "\<exists>s. to_string_no_checksum hc d = Inr s \<and> parse_descriptor s = Inr d
    \<and> to_string hc d = Inr (AddChecksum s) \<and> parse_descriptor (AddChecksum s) = Inr d"
proof -
  from descriptor_string [OF assms] obtain s where "to_string_no_checksum hc d = Inr s"
    "CHR ''#'' \<notin> set s" "parse_descriptor_ctx s TOP 0 = Inr (d, length (get_pubkey_providers d))" by auto
  then show ?thesis
    by (simp add: to_string_def AddChecksum_def parse_descriptor_def list_index_append_not_in)
qed

end
