(* ===== verification/Descriptor_Spec.thy ===== *)
theory Descriptor_Spec
  imports Descriptor_Round_Trip
begin

text \<open>
  What the rest of the program can rely on: the round trip of descriptors, what the parser accepts, what
  \<open>derive\<close> does to the keys, and the template of a wallet policy.
\<close>

section \<open>Round trip\<close>

text \<open>An example with a key tree, origins and paths.\<close>

definition example_key :: "nat \<Rightarrow> PubkeyProvider" where
  "example_key i = \<lparr>pp_origin = Some \<lparr>ko_fingerprint = [1, 2, 3, 4], ko_path = [86]\<rparr>, pp_pubkey = ''02aa'',
     pp_deriv_path = (if i = 0 then Some [[0, 1], [5]] else None), pp_expr_index = i, pp_ranged = (i \<noteq> 1),
     pp_multipath_len = (if i = 0 then 2 else 1), pp_extkey = None\<rparr>"

definition example_tr :: Descriptor where
  "example_tr = TRDescriptor (example_key 0) [PKDescriptor (example_key 1), PKDescriptor (example_key 2), PKDescriptor (example_key 3)] [1, 2, 2]"

lemma example_tr_ok: "descriptor_shape key_ok TOP example_tr" "keys_numbered 0 (get_pubkey_providers example_tr)"
proof -
  have k: "key_ok (example_key i)" for i
    by (simp add: key_ok_def example_key_def key_made_def PubkeyProvider_new_def keyorigin_ok_def path_ok_def
        multi_count_def delimiters_def hex_val_def lower_char_def hex_digits_def)
  have "tree_shaped [1, 2, 2]"
    unfolding tree_shaped_def by (rule disjI2, rule exI [of _ "Branch Script (Branch Script Script)"]) simp
  moreover have "same_paths (map example_key [0, 1, 2, 3])"
    unfolding same_paths_def by (rule exI [of _ 2]) (simp add: example_key_def)
  ultimately show "descriptor_shape key_ok TOP example_tr" "keys_numbered 0 (get_pubkey_providers example_tr)"
    using k by (simp_all add: example_tr_def MAX_TAPROOT_NODES_def) (simp add: example_key_def)
qed

text \<open>
  C12: round trip of descriptors. Every descriptor whose parts may stand where they do, whose keys are numbered
  in order and of which each key has a well-formed origin and path, is written without error with either
  hardened mark, and the parser reads the same object back, from the string with the checksum and from the one
  without: all functions, multisigs, and script trees of any shape within the bound on their depth.
\<close>

theorem descriptor_round_trip:
  assumes "descriptor_shape key_ok TOP d" and "keys_numbered 0 (get_pubkey_providers d)"
    and "hc = ''h'' \<or> hc = [CHR 0x27]"
  shows "\<exists>s. to_string_no_checksum hc d = Inr s \<and> parse_descriptor s = Inr d
    \<and> to_string hc d = Inr (AddChecksum s) \<and> parse_descriptor (AddChecksum s) = Inr d"
  using assms by (intro descriptor_read_back) (auto simp: hardened_marks_def)

theorem descriptor_round_trip_witness:
  "\<exists>s. to_string_no_checksum [CHR 0x27] example_tr = Inr s \<and> parse_descriptor s = Inr example_tr
    \<and> to_string [CHR 0x27] example_tr = Inr (AddChecksum s) \<and> parse_descriptor (AddChecksum s) = Inr example_tr"
  by (rule descriptor_round_trip [OF example_tr_ok]) simp

section \<open>What the parser accepts\<close>

lemma parse_descriptor_accepts:
  assumes "parse_descriptor s = Inr d"
  obtains body where "CHR ''#'' \<notin> set body" "s = body \<or> s = AddChecksum body"
    "parse_descriptor_ctx body TOP 0 = Inr (d, length (get_pubkey_providers d))"
proof (cases "list_index CHR ''#'' s")
  case None
  with assms obtain i where "parse_descriptor_ctx s TOP 0 = Inr (d, i)" by (auto simp: parse_descriptor_def)
  with parse_descriptor_ctx_sound [OF this] None that [of s] show ?thesis by simp
next
  case (Some i)
  then have i: "i < length s" "s ! i = CHR ''#''" "CHR ''#'' \<notin> set (take i s)" using list_index_Some by metis+
  with Some assms obtain j where p: "parse_descriptor_ctx (take i s) TOP 0 = Inr (d, j)"
    and c: "DescriptorChecksum (take i s) = drop (Suc i) s"
    by (auto simp: parse_descriptor_def Let_def split: if_split_asm)
  have "s = AddChecksum (take i s)" using i id_take_nth_drop [OF i(1)] by (simp add: AddChecksum_def c)
  with parse_descriptor_ctx_sound [OF p] p i(3) that show ?thesis by auto
qed

text \<open>
  C13: soundness of the parser. Whatever string it accepts is a body without "#", alone or followed by "#" and
  exactly the checksum of the body; the descriptor obeys the grammar (which function may stand at the top, inside
  sh(), wsh() and tr(), one to sixteen keys of a multisig and at most three outside a script, the threshold
  between one and their number, equal numbers of multipath choices, leaves whose depths are those of a binary tree
  of depth at most 128); and its keys are made by the constructor and numbered from zero in order.
\<close>

theorem parse_descriptor_sound:
  assumes "parse_descriptor s = Inr d"
  shows "descriptor_shape key_made TOP d \<and> keys_numbered 0 (get_pubkey_providers d)
    \<and> (\<exists>body. CHR ''#'' \<notin> set body \<and> (s = body \<or> s = body @ ''#'' @ DescriptorChecksum body))"
  using assms
proof (rule parse_descriptor_accepts)
  fix body
  assume "CHR ''#'' \<notin> set body" "s = body \<or> s = AddChecksum body"
    and "parse_descriptor_ctx body TOP 0 = Inr (d, length (get_pubkey_providers d))"
  then show ?thesis using parse_descriptor_ctx_sound by (auto simp: AddChecksum_def)
qed

theorem parse_descriptor_sound_witness:
  "\<exists>d s. parse_descriptor s = Inr d \<and> descriptor_shape key_made TOP d"
proof -
  obtain s where s: "parse_descriptor s = Inr example_tr"
    using descriptor_read_back [OF _ example_tr_ok, of "''h''"] by (auto simp: hardened_marks_def)
  from s parse_descriptor_sound [OF s] show ?thesis by blast
qed

section \<open>Derivation\<close>

lemma derive_providers:
  "derive pos mi d = Inr d' \<Longrightarrow> res_map (derive_key pos mi) (get_pubkey_providers d) = Inr (get_pubkey_providers d')"
proof (induction pos mi d arbitrary: d' rule: derive.induct)
  case (7 pos mi p ds depths)
  then obtain p' ds' where p: "derive_key pos mi p = Inr p'" and ds: "res_map (derive pos mi) ds = Inr ds'"
    and d': "d' = TRDescriptor p' ds' depths" by auto
  have "res_map (derive_key pos mi) (concat (map get_pubkey_providers ds)) = Inr (concat (map get_pubkey_providers ds'))"
    using ds 7(1) [OF p]
  proof (induction ds arbitrary: ds')
    case (Cons d ds)
    then show ?case by (fastforce simp: res_map_append)
  qed simp
  with p d' show ?case by simp
qed auto

lemma derive_address_type:
  "derive pos mi d = Inr d' \<Longrightarrow> get_address_type d' = get_address_type d \<and> descriptor_name d' = descriptor_name d"
  by (induction pos mi d arbitrary: d' rule: derive.induct) auto

lemma derive_key_Inr:
  "derive_key pos mi p = Inr p' \<longleftrightarrow> (\<exists>path. get_deriv_path p pos mi = Inr path
     \<and> p' = p\<lparr>pp_deriv_path := (if path = [] then None else Some (map (\<lambda>step. [step]) path)),
          pp_ranged := False, pp_multipath_len := 1\<rparr>)"
  by (auto simp: derive_key_def)

lemma derived_path:
  assumes "derive_key pos mi p = Inr p'"
  shows "get_deriv_path p' pos' mi' = get_deriv_path p pos mi"
proof -
  obtain path where path: "get_deriv_path p pos mi = Inr path" and p': "deriv_steps p' = map (\<lambda>step. [step]) path" "\<not> pp_ranged p'"
    using assms by (auto simp: derive_key_Inr deriv_steps_def)
  have "res_map (\<lambda>s. if length s = 1 then py_nth s 0 else py_index s mi') (map (\<lambda>step. [step]) path) = Inr path"
    by (induction path) simp_all
  with p' have "get_deriv_path p' pos' mi' = Inr path" by (simp add: get_deriv_path_def)
  with path show ?thesis by simp
qed

lemma derive_key_again:
  assumes "derive_key pos mi p = Inr p'"
  shows "derive_key pos' mi' p' = Inr p'"
  using assms derived_path [OF assms] by (auto simp: derive_key_Inr)

lemma res_map_fixed:
  "res_map f xs = Inr ys \<Longrightarrow> (\<And>x y. x \<in> set xs \<Longrightarrow> f x = Inr y \<Longrightarrow> g y = Inr y) \<Longrightarrow> res_map g ys = Inr ys"
proof (induction xs arbitrary: ys)
  case (Cons x xs)
  then obtain y zs where ys: "ys = y # zs" "f x = Inr y" "res_map f xs = Inr zs" by auto
  have "g y = Inr y" using Cons.prems(2) [of x y] ys(2) by simp
  moreover have "res_map g zs = Inr zs" using Cons.IH [OF ys(3)] Cons.prems(2) by (meson list.set_intros(2))
  ultimately show ?case by (simp add: ys(1))
qed simp

lemma derive_again: "derive pos mi d = Inr d' \<Longrightarrow> derive pos' mi' d' = Inr d'"
proof (induction pos mi d arbitrary: d' rule: derive.induct)
  case (4 pos mi ps thresh is_sorted)
  have "res_map (derive_key pos' mi') qs = Inr qs" if "res_map (derive_key pos mi) ps = Inr qs" for qs
    using that derive_key_again by (rule res_map_fixed)
  with 4 show ?case by auto
next
  case (7 pos mi p ds depths)
  then obtain p' ds' where p: "derive_key pos mi p = Inr p'" and ds: "res_map (derive pos mi) ds = Inr ds'"
    and d': "d' = TRDescriptor p' ds' depths" by auto
  have "res_map (derive pos' mi') ds' = Inr ds'" using ds 7(1) [OF p] by (rule res_map_fixed)
  with derive_key_again [OF p] d' show ?case by simp
qed (auto intro: derive_key_again)

text \<open>The key that \<open>get_pubkey_bytes\<close> gives for a position, except for one case that has the next lemma.\<close>

lemma derived_pubkey:
  assumes "derive_key pos mi p = Inr p'" and "\<not> (pp_ranged p \<and> pp_deriv_path p = None)"
  shows "get_pubkey_bytes cr p' pos' mi' = get_pubkey_bytes cr p pos mi"
proof -
  obtain path where path: "get_deriv_path p pos mi = Inr path"
    and p': "p' = p\<lparr>pp_deriv_path := (if path = [] then None else Some (map (\<lambda>step. [step]) path)),
      pp_ranged := False, pp_multipath_len := 1\<rparr>"
    using assms(1) by (auto simp: derive_key_Inr)
  have "get_deriv_path p' pos' mi' = Inr path" using derived_path [OF assms(1)] path by simp
  moreover have "path = []" if "pp_deriv_path p = None" using that assms(2) path by (simp add: get_deriv_path_def deriv_steps_def)
  ultimately show ?thesis using path
    by (cases "pp_extkey p") (auto simp: get_pubkey_bytes_def p' derive_pub_path_def)
qed

text \<open>That case is the key that is ranged directly below the extended key: derived, it is a child; before, the parent.\<close>

lemma derived_ranged_pubkey:
  assumes "derive_key pos mi p = Inr p'" and "pp_ranged p" and "pp_deriv_path p = None"
  shows "(case pp_extkey p of
      None \<Rightarrow> get_pubkey_bytes cr p' pos' mi' = get_pubkey_bytes cr p pos mi
    | Some k \<Rightarrow> get_pubkey_bytes cr p pos mi = Inr (xk_pubkey k)
        \<and> get_pubkey_bytes cr p' pos' mi' = res_bind (derive_pub cr pos k) (\<lambda>child. Inr (xk_pubkey child)))"
proof -
  have "get_deriv_path p pos mi = Inr [pos]" using assms(2, 3) by (simp add: get_deriv_path_def deriv_steps_def)
  then have "p' = p\<lparr>pp_deriv_path := Some [[pos]], pp_ranged := False, pp_multipath_len := 1\<rparr>"
    "get_deriv_path p' pos' mi' = Inr [pos]"
    using assms(1) derived_path [OF assms(1)] by (auto simp: derive_key_Inr)
  then show ?thesis using assms(3)
    by (cases "pp_extkey p"; cases "derive_pub cr pos (the (pp_extkey p))") (auto simp: get_pubkey_bytes_def derive_pub_path_def)
qed

definition derived_from :: "crypto \<Rightarrow> int \<Rightarrow> int \<Rightarrow> PubkeyProvider \<Rightarrow> PubkeyProvider \<Rightarrow> bool" where
  "derived_from cr pos mi p p' \<longleftrightarrow> \<not> pp_ranged p' \<and> pp_multipath_len p' = 1 \<and> pp_origin p' = pp_origin p
     \<and> pp_pubkey p' = pp_pubkey p \<and> pp_expr_index p' = pp_expr_index p
     \<and> (\<forall>pos' mi'. get_deriv_path p' pos' mi' = get_deriv_path p pos mi
       \<and> (if pp_ranged p \<and> pp_deriv_path p = None \<and> pp_extkey p \<noteq> None
          then get_pubkey_bytes cr p pos mi = Inr (xk_pubkey (the (pp_extkey p)))
            \<and> get_pubkey_bytes cr p' pos' mi' = res_bind (derive_pub cr pos (the (pp_extkey p))) (\<lambda>child. Inr (xk_pubkey child))
          else get_pubkey_bytes cr p' pos' mi' = get_pubkey_bytes cr p pos mi))"

lemma derive_key_from:
  assumes "derive_key pos mi p = Inr p'"
  shows "derived_from cr pos mi p p'"
proof -
  have "\<not> pp_ranged p'" "pp_multipath_len p' = 1" "pp_origin p' = pp_origin p" "pp_pubkey p' = pp_pubkey p"
    "pp_expr_index p' = pp_expr_index p"
    using assms by (auto simp: derive_key_Inr)
  moreover have "get_pubkey_bytes cr p' pos' mi' = get_pubkey_bytes cr p pos mi"
    if "\<not> (pp_ranged p \<and> pp_deriv_path p = None \<and> pp_extkey p \<noteq> None)" for pos' mi'
    using that derived_pubkey [OF assms] derived_ranged_pubkey [OF assms, of cr pos' mi']
    by (cases "pp_ranged p \<and> pp_deriv_path p = None") auto
  moreover have "get_pubkey_bytes cr p pos mi = Inr (xk_pubkey k)
      \<and> get_pubkey_bytes cr p' pos' mi' = res_bind (derive_pub cr pos k) (\<lambda>child. Inr (xk_pubkey child))"
    if "pp_ranged p" "pp_deriv_path p = None" "pp_extkey p = Some k" for k pos' mi'
    using derived_ranged_pubkey [OF assms that(1, 2), of cr pos' mi'] that(3) by simp
  ultimately show ?thesis using derived_path [OF assms] by (auto simp: derived_from_def)
qed

lemma res_map_related: "res_map f xs = Inr ys \<Longrightarrow> (\<And>x y. f x = Inr y \<Longrightarrow> R x y) \<Longrightarrow> list_all2 R xs ys"
  by (induction xs arbitrary: ys) auto

text \<open>
  C14: derivation. A descriptor derived at a position and a multipath index is of the same function and address
  type; its keys are in order those of the original, no longer ranged and with one path, which is the path the
  original has at that position; and deriving again changes nothing. Their public keys are those of the original at
  that position, except for a key that is ranged directly below its extended key, as in xpub/*: there the original
  gives the public key of the extended key itself at every position, and the derived key gives that of its child at
  the position, or the error of the derivation of the child.
\<close>

theorem derive_correct:
  assumes "derive pos mi d = Inr d'"
  shows "descriptor_name d' = descriptor_name d \<and> get_address_type d' = get_address_type d
    \<and> list_all2 (derived_from cr pos mi) (get_pubkey_providers d) (get_pubkey_providers d')
    \<and> derive pos' mi' d' = Inr d'"
  using derive_address_type [OF assms] derive_again [OF assms] derive_key_from
    res_map_related [OF derive_providers [OF assms], of "derived_from cr pos mi"] by blast

definition example_ranged :: PubkeyProvider where
  "example_ranged = (example_key 2)\<lparr>pp_deriv_path := None, pp_ranged := True,
     pp_extkey := Some (ExtendedKey_new TESTNET_PUBLIC 2 [0, 0, 0, 0] 0 (replicate 32 1) None (2 # replicate 32 7))\<rparr>"

theorem derive_correct_witness:
  "(\<exists>d'. derive 7 1 example_tr = Inr d' \<and> derive 0 0 d' = Inr d')
   \<and> (\<exists>q. derive 7 1 (WPKHDescriptor example_ranged) = Inr (WPKHDescriptor q)
      \<and> get_pubkey_bytes one_crypto example_ranged 7 1 = Inr (2 # replicate 32 7)
      \<and> get_pubkey_bytes one_crypto q 0 0
        = res_bind (derive_pub one_crypto 7 (the (pp_extkey example_ranged))) (\<lambda>child. Inr (xk_pubkey child)))"
proof
  have "\<exists>d'. derive 7 1 example_tr = Inr d'"
    by (simp add: example_tr_def example_key_def derive_key_def get_deriv_path_def deriv_steps_def py_index_def)
  then obtain d' where "derive 7 1 example_tr = Inr d'" by blast
  from this derive_correct [OF this] show "\<exists>d'. derive 7 1 example_tr = Inr d' \<and> derive 0 0 d' = Inr d'" by blast
  have "\<exists>q. derive 7 1 (WPKHDescriptor example_ranged) = Inr (WPKHDescriptor q)"
    by (simp add: example_ranged_def derive_key_def get_deriv_path_def deriv_steps_def)
  then obtain q where q: "derive 7 1 (WPKHDescriptor example_ranged) = Inr (WPKHDescriptor q)" by blast
  from derive_correct [OF q, of one_crypto] have "derived_from one_crypto 7 1 example_ranged q" by simp
  moreover have "pp_ranged example_ranged" "pp_deriv_path example_ranged = None" "pp_extkey example_ranged \<noteq> None"
    "xk_pubkey (the (pp_extkey example_ranged)) = 2 # replicate 32 7"
    by (simp_all add: example_ranged_def ExtendedKey_new_def)
  ultimately have "get_pubkey_bytes one_crypto example_ranged 7 1 = Inr (2 # replicate 32 7)
      \<and> get_pubkey_bytes one_crypto q 0 0
        = res_bind (derive_pub one_crypto 7 (the (pp_extkey example_ranged))) (\<lambda>child. Inr (xk_pubkey child))"
    by (simp only: derived_from_def simp_thms if_True)
  with q show "\<exists>q. derive 7 1 (WPKHDescriptor example_ranged) = Inr (WPKHDescriptor q)
      \<and> get_pubkey_bytes one_crypto example_ranged 7 1 = Inr (2 # replicate 32 7)
      \<and> get_pubkey_bytes one_crypto q 0 0
        = res_bind (derive_pub one_crypto 7 (the (pp_extkey example_ranged))) (\<lambda>child. Inr (xk_pubkey child))" by blast
qed

section \<open>Wallet policies\<close>

text \<open>The form of a descriptor, around the strings of its keys.\<close>

fun write_descriptor :: "(PubkeyProvider \<Rightarrow> string result) \<Rightarrow> Descriptor \<Rightarrow> string result" where
  "write_descriptor key (MultisigDescriptor ps thresh is_sorted) =
     res_bind (res_map key ps) (\<lambda>ks.
     Inr (descriptor_name (MultisigDescriptor ps thresh is_sorted) @ ''('' @ show_int thresh @ '','' @ py_join '','' ks @ '')''))"
| "write_descriptor key (TRDescriptor p ds depths) =
     res_bind (key p) (\<lambda>k. res_bind (tree_string [] depths (map (write_descriptor key) ds)) (\<lambda>r. Inr (''tr('' @ k @ r @ '')'')))"
| "write_descriptor key (SHDescriptor d) = res_bind (write_descriptor key d) (\<lambda>s. Inr (''sh('' @ s @ '')''))"
| "write_descriptor key (WSHDescriptor d) = res_bind (write_descriptor key d) (\<lambda>s. Inr (''wsh('' @ s @ '')''))"
| "write_descriptor key (PKDescriptor p) = res_bind (key p) (\<lambda>k. Inr (''pk('' @ k @ '')''))"
| "write_descriptor key (PKHDescriptor p) = res_bind (key p) (\<lambda>k. Inr (''pkh('' @ k @ '')''))"
| "write_descriptor key (WPKHDescriptor p) = res_bind (key p) (\<lambda>k. Inr (''wpkh('' @ k @ '')''))"

lemma template_written: "get_bip388_template d = write_descriptor get_bip388_placeholder d"
  by (induction d) (simp_all cong: map_cong)

lemma string_written: "to_string_no_checksum hc d = write_descriptor (\<lambda>p. Inr (pp_to_string hc p)) d"
proof (induction d)
  case (MultisigDescriptor ps thresh is_sorted)
  then show ?case by (simp add: res_map_Inr [of ps _ "pp_to_string hc"])
qed (simp_all cong: map_cong)

lemma placeholder_Inr:
  "get_bip388_placeholder p = Inr s \<longleftrightarrow> pp_ranged p \<and> pp_multipath_len p \<le> 2
     \<and> (\<exists>suffix. s = ''@'' @ show_nat (pp_expr_index p) @ suffix \<and> pp_to_string [CHR 0x27] p = get_bip388_key_info p @ suffix)"
  by (auto simp: get_bip388_placeholder_def pp_to_string_def get_bip388_key_info_def Let_def split: if_splits)

text \<open>
  C15: BIP 388. The template of a descriptor is its string with each key replaced by its placeholder. A key has a
  placeholder exactly when it is ranged and has at most two paths, and the placeholder is "@" with the number of
  the key and what follows the key information in the string of the key: with the key information in place of
  the placeholders a template is the descriptor.
\<close>

theorem bip388_template:
  "get_bip388_template d = write_descriptor get_bip388_placeholder d
   \<and> to_string_no_checksum [CHR 0x27] d = write_descriptor (\<lambda>p. Inr (pp_to_string [CHR 0x27] p)) d
   \<and> (get_bip388_placeholder p = Inr s \<longleftrightarrow> pp_ranged p \<and> pp_multipath_len p \<le> 2
     \<and> (\<exists>suffix. s = ''@'' @ show_nat (pp_expr_index p) @ suffix \<and> pp_to_string [CHR 0x27] p = get_bip388_key_info p @ suffix))"
  using template_written string_written placeholder_Inr by blast

section \<open>Divergences\<close>

text \<open>Text after a script tree is ignored: a second leaf outside braces is dropped.\<close>

lemma tr_rest_ignored:
  assumes "key_ok p" and "hc \<in> hardened_marks"
    and "pl (leaf_text hc p) i = Inr (PKDescriptor p, Suc i)" and "merge_multipath m p = Inr m'"
  shows "parse_tree pl (leaf_text hc p @ CHR '','' # rest) [] m i = Inr ([(PKDescriptor p, 0)], Suc i)"
  using parse_tree_leaf [where rest = "CHR '','' # rest" and br = "[]"] assms by (simp add: ends_expr_def)

text \<open>The position is appended a second time to the full path of a ranged key with a path.\<close>

lemma full_int_list_twice:
  assumes "pp_ranged p" and "deriv_steps p \<noteq> []" and "pp_origin p = None" and "get_deriv_path p pos mi = Inr path"
  shows "\<exists>steps. path = steps @ [pos] \<and> get_full_derivation_int_list p pos mi = Inr (steps @ [pos, pos])"
  using assms by (auto simp: get_full_derivation_int_list_def get_deriv_path_def)

end
