(* ===== verification/Registration.thy ===== *)
theory Registration
  imports Descriptor_Spec Serialize
begin

text \<open>
  The class \<open>RegisteredDescriptor\<close> of \<open>hwilib/descriptor.py\<close>: a descriptor registered with a device, as a Base 64
  string. The name and the type of the device are any text, so here a \<open>str\<close> is a list of code points. The
  parser of descriptors is modelled on ASCII text; what it does on other text is a parameter of the reader.
\<close>

section \<open>UTF-8\<close>

text \<open>\<open>str.encode()\<close>, a code point at a time. Surrogates cannot be encoded.\<close>

definition utf8_char :: "nat \<Rightarrow> bytes result" where
  "utf8_char n =
     (if n < 0x80 then Inr [of_nat n]
      else if n < 0x800 then Inr [of_nat (0xC0 + n div 64), of_nat (0x80 + n mod 64)]
      else if 0xD800 \<le> n \<and> n < 0xE000 then Inl (ValueErr ''surrogates not allowed'')
      else if n < 0x10000
      then Inr [of_nat (0xE0 + n div 4096), of_nat (0x80 + n div 64 mod 64), of_nat (0x80 + n mod 64)]
      else Inr [of_nat (0xF0 + n div 262144), of_nat (0x80 + n div 4096 mod 64), of_nat (0x80 + n div 64 mod 64),
             of_nat (0x80 + n mod 64)])"

definition utf8_encode :: "nat list \<Rightarrow> bytes result" where
  "utf8_encode s = res_concat (map utf8_char s)"

text \<open>\<open>bytes.decode()\<close>: the continuation bytes, one code point, and all of them.\<close>

fun utf8_tail :: "nat \<Rightarrow> nat \<Rightarrow> bytes \<Rightarrow> (nat \<times> bytes) option" where
  "utf8_tail 0 acc s = Some (acc, s)"
| "utf8_tail (Suc k) acc [] = None"
| "utf8_tail (Suc k) acc (b # s) =
     (if 0x80 \<le> unat b \<and> unat b < 0xC0 then utf8_tail k (acc * 64 + (unat b - 0x80)) s else None)"

fun utf8_next :: "bytes \<Rightarrow> (nat \<times> bytes) option" where
  "utf8_next [] = None"
| "utf8_next (b # s) =
     (let n = unat b in
      if n < 0x80 then Some (n, s)
      else if 0xC2 \<le> n \<and> n < 0xE0 then utf8_tail 1 (n - 0xC0) s
      else if 0xE0 \<le> n \<and> n < 0xF0 then
        (case utf8_tail 2 (n - 0xE0) s of
           Some (c, s') \<Rightarrow> if 0x800 \<le> c \<and> \<not> (0xD800 \<le> c \<and> c < 0xE000) then Some (c, s') else None
         | None \<Rightarrow> None)
      else if 0xF0 \<le> n \<and> n < 0xF5 then
        (case utf8_tail 3 (n - 0xF0) s of
           Some (c, s') \<Rightarrow> if 0x10000 \<le> c \<and> c < 0x110000 then Some (c, s') else None
         | None \<Rightarrow> None)
      else None)"

lemma utf8_tail_length: "utf8_tail k acc s = Some (c, s') \<Longrightarrow> length s = k + length s'"
  by (induction k acc s rule: utf8_tail.induct) (auto split: if_splits)

lemma utf8_next_shorter: "utf8_next s = Some (c, s') \<Longrightarrow> length s' < length s"
  by (cases s) (auto simp: Let_def dest: utf8_tail_length split: if_splits option.splits)

function utf8_decode :: "bytes \<Rightarrow> nat list result" where
  "utf8_decode s =
     (if s = [] then Inr []
      else
        case utf8_next s of
          None \<Rightarrow> Inl (ValueErr ''codec can't decode bytes'')
        | Some (c, s') \<Rightarrow> res_bind (utf8_decode s') (\<lambda>cs. Inr (c # cs)))"
  by pat_completeness auto
termination
  by (relation "measure length") (auto dest: utf8_next_shorter)

declare utf8_decode.simps [simp del]

text \<open>Unicode's scalar values, which are the code points with an encoding.\<close>

definition scalar :: "nat \<Rightarrow> bool" where
  "scalar n \<longleftrightarrow> n < 0xD800 \<or> 0xE000 \<le> n \<and> n < 0x110000"

lemma utf8_tail_numeral [simp]:
  "utf8_tail (numeral k) acc (b # s) =
     (if 0x80 \<le> unat b \<and> unat b < 0xC0 then utf8_tail (pred_numeral k) (acc * 64 + (unat b - 0x80)) s else None)"
  by (simp add: numeral_eq_Suc)

lemma unat_byte: "n < 256 \<Longrightarrow> unat (of_nat n :: byte) = n"
  by (simp add: unat_of_nat)

lemma utf8_next_four:
  assumes "a < 5" and "b < 64" and "c < 64" and "d < 64" and "n = ((a * 64 + b) * 64 + c) * 64 + d"
    and "0x10000 \<le> n" and "n < 0x110000"
  shows "utf8_next (of_nat (0xF0 + a) # of_nat (0x80 + b) # of_nat (0x80 + c) # of_nat (0x80 + d) # rest) = Some (n, rest)"
  using assms by (simp add: unat_byte Let_def del: of_nat_add)

lemma utf8_next_char:
  assumes "scalar n"
  shows "\<exists>bs. utf8_char n = Inr bs \<and> utf8_next (bs @ rest) = Some (n, rest)"
proof -
  have rec: "n div 64 * 64 + n mod 64 = n" "n div 4096 * 64 + n div 64 mod 64 = n div 64"
    "n div 262144 * 64 + n div 4096 mod 64 = n div 4096"
    using div_mult2_eq [of n 64 64] div_mult2_eq [of n 4096 64] by simp_all
  consider "n < 0x80" | "0x80 \<le> n" "n < 0x800" | "0x800 \<le> n" "n < 0x10000" | "0x10000 \<le> n" by linarith
  then show ?thesis
  proof cases
    case 1
    then show ?thesis by (simp add: utf8_char_def unat_byte)
  next
    case 2
    then have "n div 64 < 32" by auto
    with 2 rec show ?thesis by (simp add: utf8_char_def unat_byte Let_def del: of_nat_add)
  next
    case 3
    then have "n div 4096 < 16" by auto
    moreover have "\<not> (55296 \<le> n \<and> n < 57344)" using assms by (auto simp: scalar_def)
    ultimately show ?thesis using 3 rec by (simp add: utf8_char_def unat_byte Let_def del: of_nat_add)
  next
    case 4
    then have "n < 0x110000" using assms by (auto simp: scalar_def)
    moreover from this have "n div 262144 < 5" by simp
    ultimately have "utf8_next (of_nat (0xF0 + n div 262144) # of_nat (0x80 + n div 4096 mod 64)
        # of_nat (0x80 + n div 64 mod 64) # of_nat (0x80 + n mod 64) # rest) = Some (n, rest)"
      using 4 rec by (intro utf8_next_four) simp_all
    with 4 show ?thesis by (simp add: utf8_char_def del: utf8_next.simps)
  qed
qed

lemma utf8_decode_encode:
  assumes "list_all scalar s"
  shows "\<exists>bs. utf8_encode s = Inr bs \<and> utf8_decode bs = Inr s"
  using assms
proof (induction s)
  case Nil
  then show ?case by (simp add: utf8_encode_def utf8_decode.simps)
next
  case (Cons n s)
  then obtain bs where bs: "utf8_encode s = Inr bs" "utf8_decode bs = Inr s" by auto
  from utf8_next_char [of n bs] Cons.prems obtain b where b: "utf8_char n = Inr b" "utf8_next (b @ bs) = Some (n, bs)" by auto
  then have "b @ bs \<noteq> []" by auto
  with b bs show ?case by (simp add: utf8_encode_def res_concat_Cons utf8_decode.simps [of "b @ bs"])
qed

section \<open>Registered descriptors\<close>

record RegisteredDescriptor =
  rd_version :: int
  rd_name :: "nat list"
  rd_descriptor :: Descriptor
  rd_device_type :: "nat list"
  rd_registration :: bytes

definition RegisteredDescriptor_new :: "nat list \<Rightarrow> Descriptor \<Rightarrow> nat list \<Rightarrow> bytes \<Rightarrow> RegisteredDescriptor" where
  "RegisteredDescriptor_new name descriptor device_type registration =
     \<lparr>rd_version = 1, rd_name = name, rd_descriptor = descriptor, rd_device_type = device_type, rd_registration = registration\<rparr>"

definition code_points :: "string \<Rightarrow> nat list" where
  "code_points s = map of_char s"

definition parse_text :: "(nat list \<Rightarrow> Descriptor result) \<Rightarrow> nat list \<Rightarrow> Descriptor result" where
  "parse_text parse_other s = (if list_all (\<lambda>n. n < 128) s then parse_descriptor (map char_of s) else parse_other s)"

definition registered_serialize :: "RegisteredDescriptor \<Rightarrow> string result" where
  "registered_serialize self =
     res_bind (ser_compact_size (rd_version self)) (\<lambda>version.
     res_bind (utf8_encode (rd_name self)) (\<lambda>name.
     res_bind (ser_string name) (\<lambda>name.
     res_bind (to_string ''h'' (rd_descriptor self)) (\<lambda>descriptor.
     res_bind (utf8_encode (code_points descriptor)) (\<lambda>descriptor.
     res_bind (ser_string descriptor) (\<lambda>descriptor.
     res_bind (utf8_encode (rd_device_type self)) (\<lambda>device_type.
     res_bind (ser_string device_type) (\<lambda>device_type.
     res_bind (ser_string (rd_registration self)) (\<lambda>registration.
     Inr (b64encode ([0x72, 0x64, 0x65, 0x73, 0x63] @ version @ name @ descriptor @ device_type @ registration)))))))))))"

definition registered_read :: "(nat list \<Rightarrow> Descriptor result) \<Rightarrow> RegisteredDescriptor reader" where
  "registered_read parse_other =
     rd_bind (py_read 5) (\<lambda>magic.
     if magic \<noteq> [0x72, 0x64, 0x65, 0x73, 0x63] then rd_fail (BadArgumentError ''Policy has invalid magic bytes'')
     else
       rd_bind deser_compact_size (\<lambda>version.
       if version \<noteq> 1 then rd_fail (BadArgumentError ''Serialized policy registration has unknown version number'')
       else
         rd_bind deser_string (\<lambda>name. rd_bind (rd_lift (utf8_decode name)) (\<lambda>name.
         rd_bind deser_string (\<lambda>descriptor. rd_bind (rd_lift (res_bind (utf8_decode descriptor) (parse_text parse_other))) (\<lambda>descriptor.
         rd_bind deser_string (\<lambda>device_type. rd_bind (rd_lift (utf8_decode device_type)) (\<lambda>device_type.
         rd_bind deser_string (\<lambda>registration.
         rd_ret (RegisteredDescriptor_new name descriptor device_type registration))))))))))"

definition registered_deserialize :: "(nat list \<Rightarrow> Descriptor result) \<Rightarrow> string \<Rightarrow> RegisteredDescriptor result" where
  "registered_deserialize parse_other policy =
     res_bind (b64decode (py_strip policy)) (\<lambda>policy_bytes. fst (registered_read parse_other policy_bytes))"

section \<open>The string of a descriptor is ASCII when its keys are\<close>

definition ascii :: "string \<Rightarrow> bool" where
  "ascii s \<longleftrightarrow> list_all (\<lambda>c. (of_char c :: nat) < 128) s"

lemma ascii_simps [simp]:
  "ascii []" "ascii (c # s) \<longleftrightarrow> (of_char c :: nat) < 128 \<and> ascii s" "ascii (s @ t) \<longleftrightarrow> ascii s \<and> ascii t"
  by (simp_all add: ascii_def)

lemma ascii_py_join: "ascii sep \<Longrightarrow> list_all ascii ws \<Longrightarrow> ascii (py_join sep ws)"
  by (induction sep ws rule: py_join.induct) auto

lemma ascii_digit: "is_digit c \<Longrightarrow> (of_char c :: nat) < 128"
  by (auto simp: is_digit_def digit_val_def Let_def split: if_splits)

lemma ascii_show_nat [simp]: "ascii (show_nat n)"
  using show_nat_digits ascii_digit by (auto simp: ascii_def list_all_iff)

lemma ascii_show_int [simp]: "ascii (show_int i)"
  by (simp add: show_int_def)

lemma ascii_open_path: "open_path d path = (s, path') \<Longrightarrow> ascii s"
  by (induction d path arbitrary: s rule: open_path.induct) (subst (asm) (2) open_path.simps, auto split: if_splits prod.splits)

lemma ascii_close_path: "close_path path = (s, path') \<Longrightarrow> ascii s"
  by (induction path arbitrary: s rule: close_path.induct) (auto split: prod.splits)

lemma ascii_tree_string:
  "tree_string path depths leaves = Inr r \<Longrightarrow> (\<And>s. Inr s \<in> set leaves \<Longrightarrow> ascii s) \<Longrightarrow> ascii r"
proof (induction path depths leaves arbitrary: r rule: tree_string.induct)
  case (3 path depth depths leaf leaves)
  obtain op1 path1 where op: "open_path depth path = (op1, path1)" by fastforce
  obtain cl1 path2 where cl: "close_path path1 = (cl1, path2)" by fastforce
  from 3(2) op cl obtain s r' where s: "leaf = Inr s" "tree_string (mark_right path2) depths leaves = Inr r'"
    "r = CHR '','' # op1 @ s @ cl1 @ r'" by auto
  have "ascii r'" using 3(1) [OF op [symmetric] s(1) cl [symmetric] s(2)] 3(3) by simp
  moreover have "ascii s" using 3(3) s(1) by simp
  ultimately show ?case using ascii_open_path [OF op] ascii_close_path [OF cl] s(3) by simp
qed auto

lemma ascii_written:
  "write_descriptor key d = Inr s \<Longrightarrow> (\<And>p k. p \<in> set (get_pubkey_providers d) \<Longrightarrow> key p = Inr k \<Longrightarrow> ascii k) \<Longrightarrow> ascii s"
proof (induction key d arbitrary: s rule: write_descriptor.induct)
  case (1 key ps thresh is_sorted)
  then obtain ks where ks: "res_map key ps = Inr ks" by auto
  have "list_all ascii ks" using ks 1(2)
  proof (induction ps arbitrary: ks)
    case (Cons p ps)
    then obtain k ks' where k: "key p = Inr k" "res_map key ps = Inr ks'" "ks = k # ks'" by auto
    with Cons.IH [OF k(2)] Cons.prems(2) show ?case by (metis get_pubkey_providers.simps(4) list.pred_inject(2) list.set_intros)
  qed simp
  with 1(1) ks show ?case by (auto simp: ascii_py_join)
next
  case (2 key p ds depths)
  then obtain k r where "key p = Inr k" "tree_string [] depths (map (write_descriptor key) ds) = Inr r" "s = ''tr('' @ k @ r @ '')''"
    by auto
  moreover have "ascii r"
  proof (rule ascii_tree_string [OF calculation(2)])
    fix t assume "Inr t \<in> set (map (write_descriptor key) ds)"
    then obtain d where d: "d \<in> set ds" "write_descriptor key d = Inr t" by (metis imageE set_map)
    show "ascii t"
      by (rule 2(1) [OF calculation(1) d]) (use 2(3) d(1) in \<open>auto\<close>)
  qed
  moreover have "ascii k" using 2(3) [of p k] calculation(1) by simp
  ultimately show ?case by simp
qed auto

lemma ascii_key_string:
  assumes "key_ok p" and "hc \<in> hardened_marks" and "ascii (pp_pubkey p)"
  shows "ascii (pp_to_string hc p)"
proof -
  have path: "(of_char c :: nat) < 128" if "path_char c \<or> c \<in> set hex_digits" for c
    using that ascii_digit by (auto simp: path_char_def hex_digits_def)
  have "ascii (keyorigin_to_string ko hc)" if "pp_origin p = Some ko" for ko
  proof -
    have "keyorigin_ok ko" using assms(1) that by (simp add: key_ok_def)
    then show ?thesis using origin_string_chars [OF _ assms(2)] path by (auto simp: ascii_def list_all_iff)
  qed
  moreover have "ascii (multipath_to_string mp hc)" if "pp_deriv_path p = Some mp" for mp
  proof -
    have "path_ok mp" using assms(1) that by (simp add: key_ok_def)
    then show ?thesis
      using path_string_chars [OF _ assms(2)] path by (auto simp: ascii_def list_all_iff multipath_to_string_def path_ok_def)
  qed
  ultimately show ?thesis using assms(3) by (auto simp: pp_to_string_def deriv_steps_def split: option.splits)
qed

lemma shape_keys: "descriptor_shape K ctx d \<Longrightarrow> list_all K (get_pubkey_providers d)"
proof (induction K ctx d rule: descriptor_shape.induct)
  case (7 K ctx p ds depths)
  then show ?case by (auto simp: list_all_iff)
qed auto

lemma ascii_checksum: "ascii (DescriptorChecksum s)"
proof -
  have "ascii CHECKSUM_CHARSET" by (simp add: CHECKSUM_CHARSET_def)
  moreover have "nat (x AND 31) < length CHECKSUM_CHARSET" for x :: int
  proof -
    have "x AND 31 = x mod 32" using take_bit_eq_mask [of 5 x] by (simp add: mask_eq_exp_minus_1 take_bit_eq_mod)
    then show ?thesis by (simp add: CHECKSUM_CHARSET_def nat_less_iff)
  qed
  ultimately show ?thesis
    by (auto simp: DescriptorChecksum_def ascii_def list_all_length Let_def split: option.splits)
qed

section \<open>Round trip\<close>

lemma utf8_length: "utf8_encode s = Inr bs \<Longrightarrow> length bs \<le> 4 * length s"
proof (induction s arbitrary: bs)
  case (Cons n s)
  then obtain b bs' where "utf8_char n = Inr b" "utf8_encode s = Inr bs'" "bs = b @ bs'"
    by (auto simp: utf8_encode_def res_concat_Cons)
  moreover from this have "length b \<le> 4" by (auto simp: utf8_char_def split: if_split_asm)
  ultimately show ?case using Cons.IH by fastforce
qed (simp add: utf8_encode_def)

text \<open>A string field of the record: text, its encoding, and the stream with its length.\<close>

lemma text_field:
  assumes "list_all scalar s" and "length s < 2 ^ 60"
  shows "\<exists>b bs. utf8_encode s = Inr b \<and> ser_string b = Inr bs \<and> utf8_decode b = Inr s
    \<and> (\<forall>rest. deser_string (bs @ rest) = (Inr b, rest))"
proof -
  obtain b where b: "utf8_encode s = Inr b" "utf8_decode b = Inr s" using utf8_decode_encode assms(1) by blast
  have "string_ok b" using utf8_length [OF b(1)] assms(2) by (simp add: string_ok_def)
  then show ?thesis using b str.enc_encoding [of b] str.dec_encoding [of b] by blast
qed

definition registered_ok :: "RegisteredDescriptor \<Rightarrow> bool" where
  "registered_ok rd \<longleftrightarrow> rd_version rd = 1 \<and> list_all scalar (rd_name rd) \<and> list_all scalar (rd_device_type rd)
     \<and> length (rd_name rd) < 2 ^ 60 \<and> length (rd_device_type rd) < 2 ^ 60 \<and> length (rd_registration rd) < 2 ^ 60
     \<and> descriptor_shape key_ok TOP (rd_descriptor rd) \<and> keys_numbered 0 (get_pubkey_providers (rd_descriptor rd))
     \<and> list_all (\<lambda>p. ascii (pp_pubkey p)) (get_pubkey_providers (rd_descriptor rd))
     \<and> (\<forall>s. to_string ''h'' (rd_descriptor rd) = Inr s \<longrightarrow> length s < 2 ^ 60)"

lemma descriptor_text:
  assumes "registered_ok rd"
  shows "\<exists>s. to_string ''h'' (rd_descriptor rd) = Inr s \<and> list_all scalar (code_points s) \<and> length (code_points s) < 2 ^ 60
    \<and> parse_text parse_other (code_points s) = Inr (rd_descriptor rd)"
proof -
  let ?d = "rd_descriptor rd"
  have h: "''h'' \<in> hardened_marks" by (simp add: hardened_marks_def)
  have ok: "descriptor_shape key_ok TOP ?d" "keys_numbered 0 (get_pubkey_providers ?d)"
    and keys: "list_all (\<lambda>p. ascii (pp_pubkey p)) (get_pubkey_providers ?d)"
    and len: "\<And>s. to_string ''h'' ?d = Inr s \<Longrightarrow> length s < 2 ^ 60"
    using assms by (simp_all add: registered_ok_def)
  from descriptor_read_back [OF h ok] obtain body where body: "to_string_no_checksum ''h'' ?d = Inr body"
    and s: "to_string ''h'' ?d = Inr (AddChecksum body)" "parse_descriptor (AddChecksum body) = Inr ?d" by blast
  have "ascii body"
  proof (rule ascii_written [OF body [unfolded string_written]])
    fix p k assume "p \<in> set (get_pubkey_providers ?d)" "Inr (pp_to_string ''h'' p) = (Inr k :: string result)"
    then show "ascii k" using ascii_key_string [OF _ h] shape_keys [OF ok(1)] keys by (auto simp: list_all_iff)
  qed
  then have "ascii (AddChecksum body)" by (simp add: AddChecksum_def ascii_checksum)
  then have "list_all (\<lambda>n. n < 128) (code_points (AddChecksum body))" by (simp add: ascii_def code_points_def list.pred_map comp_def)
  moreover from this have "list_all scalar (code_points (AddChecksum body))" by (rule list.pred_mono_strong) (simp add: scalar_def)
  moreover have "map char_of (code_points (AddChecksum body)) = AddChecksum body" by (simp add: code_points_def comp_def)
  ultimately show ?thesis using s len [OF s(1)] by (simp add: parse_text_def code_points_def)
qed

lemma registered_deserialize_b64: "registered_deserialize parse_other (b64encode b) = fst (registered_read parse_other b)"
  by (simp add: registered_deserialize_def)

text \<open>
  C17: a registered descriptor of version 1, with a well-formed descriptor and any name and type of device that have
  an encoding, is written without error and read back, whatever the parser does on text outside ASCII.
\<close>

theorem registration_round_trip:
  assumes "registered_ok rd"
  shows "\<exists>s. registered_serialize rd = Inr s \<and> registered_deserialize parse_other s = Inr rd"
proof -
  obtain s where s: "to_string ''h'' (rd_descriptor rd) = Inr s" "list_all scalar (code_points s)" "length (code_points s) < 2 ^ 60"
    "parse_text parse_other (code_points s) = Inr (rd_descriptor rd)" using descriptor_text [OF assms] by blast
  have ok: "rd_version rd = 1" "list_all scalar (rd_name rd)" "length (rd_name rd) < 2 ^ 60"
    "list_all scalar (rd_device_type rd)" "length (rd_device_type rd) < 2 ^ 60" "string_ok (rd_registration rd)"
    using assms by (simp_all add: registered_ok_def string_ok_def)
  obtain v where v: "ser_compact_size 1 = Inr v" "\<And>rest. deser_compact_size (v @ rest) = (Inr 1, rest)"
    using compact.enc_encoding [of 1] compact.dec_encoding [of 1] by (simp add: compact_ok_def)
  obtain n ns where n: "utf8_encode (rd_name rd) = Inr n" "ser_string n = Inr ns" "utf8_decode n = Inr (rd_name rd)"
    "\<And>rest. deser_string (ns @ rest) = (Inr n, rest)" using text_field [OF ok(2, 3)] by blast
  obtain d ds where d: "utf8_encode (code_points s) = Inr d" "ser_string d = Inr ds" "utf8_decode d = Inr (code_points s)"
    "\<And>rest. deser_string (ds @ rest) = (Inr d, rest)" using text_field [OF s(2, 3)] by blast
  obtain t ts where t: "utf8_encode (rd_device_type rd) = Inr t" "ser_string t = Inr ts" "utf8_decode t = Inr (rd_device_type rd)"
    "\<And>rest. deser_string (ts @ rest) = (Inr t, rest)" using text_field [OF ok(4, 5)] by blast
  obtain r where r: "ser_string (rd_registration rd) = Inr r" "\<And>rest. deser_string (r @ rest) = (Inr (rd_registration rd), rest)"
    using str.enc_encoding [OF ok(6)] str.dec_encoding [OF ok(6)] by blast
  let ?m = "[0x72, 0x64, 0x65, 0x73, 0x63] :: bytes"
  have "registered_serialize rd = Inr (b64encode (?m @ v @ ns @ ds @ ts @ r))"
    by (simp add: registered_serialize_def ok(1) v n s(1) d t r)
  moreover have "registered_read parse_other (?m @ v @ ns @ ds @ ts @ r @ []) = (Inr rd, [])"
    using ok(1) py_read_append [of 5 ?m] by (simp add: registered_read_def rd_bind_def v n d t r s(4) RegisteredDescriptor_new_def del: append_Cons append_Nil2)
  then have "registered_deserialize parse_other (b64encode (?m @ v @ ns @ ds @ ts @ r)) = Inr rd"
    by (simp only: registered_deserialize_b64 append_Nil2 fst_conv)
  with calculation show ?thesis by blast
qed

definition example_registration :: RegisteredDescriptor where
  "example_registration = RegisteredDescriptor_new [0x48, 0xE9, 0x20AC, 0x1F511]
     (WPKHDescriptor \<lparr>pp_origin = None, pp_pubkey = ''02aa'', pp_deriv_path = None, pp_expr_index = 0, pp_ranged = False,
        pp_multipath_len = 1, pp_extkey = None\<rparr>) [0x6C] [1, 2]"

lemma length_checksum: "length (DescriptorChecksum s) \<le> 8"
  by (auto simp: DescriptorChecksum_def Let_def split: option.splits)

theorem registration_round_trip_witness:
  "\<exists>s. registered_serialize example_registration = Inr s \<and> registered_deserialize (\<lambda>_. Inl TypeErr) s = Inr example_registration"
proof (rule registration_round_trip)
  show "registered_ok example_registration"
    using length_checksum [of "''wpkh(02aa)''"]
    by (simp add: registered_ok_def example_registration_def RegisteredDescriptor_new_def scalar_def key_ok_def key_made_def
        PubkeyProvider_new_def delimiters_def hex_val_def lower_char_def hex_digits_def pp_to_string_def deriv_steps_def
        to_string_def AddChecksum_def)
qed

end
