(* ===== verification/Client.thy ===== *)
theory Client
  imports Effects Registration Psbt
begin

text \<open>
  \<open>hwilib/hwwclient.py\<close>: the client of a device. The methods a driver has to implement exchange messages with
  hardware; they are a parameter, one function for each method, on a state of the device that the program does not
  see. What the base class keeps itself, the chain and the cache of extended keys, is the record \<open>client\<close>.
\<close>

section \<open>Drivers\<close>

text \<open>The methods of a driver.\<close>

record 'w driver =
  drv_pubkey_at_path :: "string \<Rightarrow> ('w, ExtendedKey) io"
  drv_master_fingerprint :: "('w, bytes) io"
  drv_can_sign_taproot :: "('w, bool) io"
  drv_sign_tx :: "PSBT \<Rightarrow> RegisteredDescriptor list \<Rightarrow> ('w, PSBT) io"
  drv_sign_message :: "string \<Rightarrow> string \<Rightarrow> ('w, string) io"
  drv_singlesig_address :: "string \<Rightarrow> AddressType \<Rightarrow> ('w, string) io"
  drv_multisig_address :: "AddressType \<Rightarrow> Descriptor \<Rightarrow> ('w, string) io"
  drv_policy_address :: "RegisteredDescriptor \<Rightarrow> int \<Rightarrow> int \<Rightarrow> ('w, string) io"
  drv_setup_device :: "string \<Rightarrow> string \<Rightarrow> ('w, bool) io"
  drv_wipe_device :: "('w, bool) io"
  drv_restore_device :: "string \<Rightarrow> int \<Rightarrow> ('w, bool) io"
  drv_backup_device :: "string \<Rightarrow> string \<Rightarrow> ('w, bool) io"
  drv_prompt_pin :: "('w, bool) io"
  drv_send_pin :: "string \<Rightarrow> ('w, bool) io"
  drv_toggle_passphrase :: "('w, bool) io"
  drv_register_descriptor :: "nat list \<Rightarrow> Descriptor \<Rightarrow> ('w, RegisteredDescriptor) io"
  drv_close :: "('w, unit) io"

text \<open>The attributes of the base class that the commands use, and the device behind it.\<close>

record 'w client =
  cl_chain :: Chain
  cl_xpub_cache :: "(string, string) dict"
  cl_device :: 'w

definition client_new :: "Chain \<Rightarrow> 'w \<Rightarrow> 'w client" where
  "client_new chain w = \<lparr>cl_chain = chain, cl_xpub_cache = [], cl_device = w\<rparr>"

text \<open>A method of the driver called on the client.\<close>

definition on_device :: "('w, 'a) io \<Rightarrow> ('w client, 'a) io" where
  "on_device m c = (case m (cl_device c) of (r, w) \<Rightarrow> (r, c\<lparr>cl_device := w\<rparr>))"

text \<open>The methods the base class implements; a driver may override the second.\<close>

definition get_master_xpub :: "'w driver \<Rightarrow> AddressType \<Rightarrow> int \<Rightarrow> ('w client, ExtendedKey) io" where
  "get_master_xpub drv addrtype account c =
     (let path = ''m/'' @ show_int (get_bip44_purpose addrtype) @ ''h/'' @ show_int (get_bip44_chain (cl_chain c)) @ ''h/''
           @ show_int account @ ''h''
      in on_device (drv_pubkey_at_path drv path) c)"

definition base_master_fingerprint :: "'w driver \<Rightarrow> ('w, bytes) io" where
  "base_master_fingerprint drv =
     io_bind (drv_pubkey_at_path drv ''m/0h'') (\<lambda>k. io_ret (xk_parent_fingerprint k))"

end
