(* ===== verification/Commands.thy ===== *)
theory Commands
  imports Client
begin

text \<open>
  \<open>hwilib/commands.py\<close>: the commands on a client, as operations on its state. A dictionary that is returned is a
  dictionary of \<open>pyval\<close>s.
\<close>

section \<open>Keys, transactions and messages\<close>

definition getmasterxpub :: "crypto \<Rightarrow> 'w driver \<Rightarrow> AddressType \<Rightarrow> int \<Rightarrow> ('w client, (string, pyval) dict) io" where
  "getmasterxpub cr drv addrtype account =
     io_bind (get_master_xpub drv addrtype account) (\<lambda>k.
     io_bind (io_lift (xk_to_string cr k)) (\<lambda>xpub. io_ret [(''xpub'', VStr xpub)]))"

text \<open>The set of registrations is handed to the driver in the order of the arguments; its objects are all different.\<close>

definition signtx ::
    "crypto \<Rightarrow> (nat list \<Rightarrow> Descriptor result) \<Rightarrow> (bytes set \<Rightarrow> bytes list) \<Rightarrow> 'w driver \<Rightarrow> string \<Rightarrow> string list option
     \<Rightarrow> ('w client, (string, pyval) dict) io" where
  "signtx cr parse_other it drv psbt registrations =
     io_bind (io_lift (psbt_deserialize cr (PSBT_new None) psbt)) (\<lambda>tx.
     io_bind (io_lift (res_map (registered_deserialize parse_other) (case registrations of None \<Rightarrow> [] | Some rs \<Rightarrow> rs))) (\<lambda>registered.
     io_bind (on_device (drv_sign_tx drv tx registered)) (\<lambda>signed.
     io_bind (io_lift (psbt_serialize it signed)) (\<lambda>(result, signed).
     io_ret [(''psbt'', VStr result), (''signed'', VBool (result \<noteq> psbt))]))))"

text \<open>\<open>dict.update\<close> inserts the entries of the other dictionary in order.\<close>

definition dict_update :: "('k, 'v) dict \<Rightarrow> ('k, 'v) dict \<Rightarrow> ('k, 'v) dict" where
  "dict_update d other = foldl (\<lambda>d (k, v). AList.update k v d) d other"

definition getxpub :: "crypto \<Rightarrow> 'w driver \<Rightarrow> string \<Rightarrow> bool \<Rightarrow> ('w client, (string, pyval) dict) io" where
  "getxpub cr drv path expert =
     io_bind (on_device (drv_pubkey_at_path drv path)) (\<lambda>xpub.
     io_bind (io_lift (xk_to_string cr xpub)) (\<lambda>s.
     let result = [(''xpub'', VStr s)] in
     io_ret (if expert then dict_update result (xk_get_printable_dict xpub) else result)))"

definition signmessage :: "'w driver \<Rightarrow> string \<Rightarrow> string \<Rightarrow> ('w client, (string, pyval) dict) io" where
  "signmessage drv message path =
     io_bind (on_device (drv_sign_message drv message path)) (\<lambda>sig. io_ret [(''signature'', VStr sig)])"

section \<open>Descriptors of a client\<close>

text \<open>
  The loop for the last hardened step of the path, from its end: \<open>i\<close> is the variable of the loop, unbound before the
  first round, and \<open>k\<close> the next value of the counter.
\<close>

fun hardened_loop :: "nat option \<Rightarrow> nat \<Rightarrow> int list \<Rightarrow> nat option" where
  "hardened_loop i k [] = i"
| "hardened_loop i k (p # ps) = (if is_hardened p then Some k else hardened_loop (Some k) (k - 1) ps)"

definition origin_length :: "int list \<Rightarrow> nat result" where
  "origin_length parsed_path =
     (case hardened_loop None (length parsed_path - 1) (rev parsed_path) of
        None \<Rightarrow> Inl (OtherErr ''UnboundLocalError'')
      | Some i \<Rightarrow> Inr (i + 1))"

definition descriptor_path :: "Chain \<Rightarrow> string option \<Rightarrow> bool \<Rightarrow> AddressType \<Rightarrow> int \<Rightarrow> int list result" where
  "descriptor_path chain path internal addr_type account =
     (case path of
        None \<Rightarrow> Inr [harden (get_bip44_purpose addr_type), harden (get_bip44_chain chain), harden account, if internal then 1 else 0]
      | Some p \<Rightarrow>
          if p = [] then Inr [harden (get_bip44_purpose addr_type), harden (get_bip44_chain chain), harden account, if internal then 1 else 0]
          else if hd p \<noteq> CHR ''m'' then Inl (BadArgumentError ''Path must start with m/'')
          else if last p \<noteq> CHR ''*'' then Inl (BadArgumentError ''Path must end with /*'')
          else parse_path (drop_end 2 p))"

text \<open>The key at a path, from the cache or from the device.\<close>

definition cached_xpub :: "crypto \<Rightarrow> 'w driver \<Rightarrow> string \<Rightarrow> ('w client, string) io" where
  "cached_xpub cr drv path_base c =
     (case map_of (cl_xpub_cache c) path_base of
        Some xpub \<Rightarrow> (Inr xpub, c)
      | None \<Rightarrow>
          io_bind (on_device (drv_pubkey_at_path drv path_base)) (\<lambda>k.
          io_bind (io_lift (xk_to_string cr k)) (\<lambda>xpub c.
          (Inr xpub, c\<lparr>cl_xpub_cache := AList.update path_base xpub (cl_xpub_cache c)\<rparr>))) c)"

definition wrap_descriptor :: "'w driver \<Rightarrow> AddressType \<Rightarrow> PubkeyProvider \<Rightarrow> ('w client, Descriptor) io" where
  "wrap_descriptor drv addr_type pubkey =
     (case addr_type of
        LEGACY \<Rightarrow> io_ret (PKHDescriptor pubkey)
      | SH_WIT \<Rightarrow> io_ret (SHDescriptor (WPKHDescriptor pubkey))
      | WIT \<Rightarrow> io_ret (WPKHDescriptor pubkey)
      | TAP \<Rightarrow>
          io_bind (on_device (drv_can_sign_taproot drv)) (\<lambda>can.
          if \<not> can then io_fail (UnavailableActionError ''Device does not support Taproot'')
          else io_ret (TRDescriptor pubkey [] [])))"

definition getdescriptor ::
    "crypto \<Rightarrow> 'w driver \<Rightarrow> bytes \<Rightarrow> string option \<Rightarrow> bool \<Rightarrow> AddressType \<Rightarrow> int \<Rightarrow> ('w client, Descriptor) io" where
  "getdescriptor cr drv master_fpr path internal addr_type account c =
     io_bind (io_lift (descriptor_path (cl_chain c) path internal addr_type account)) (\<lambda>parsed_path.
     io_bind (io_lift (origin_length parsed_path)) (\<lambda>i.
     let origin = \<lparr>ko_fingerprint = master_fpr, ko_path = take i parsed_path\<rparr>;
         path_base = get_derivation_path origin;
         path_suffix = map (\<lambda>p. [p]) (drop i parsed_path) in
     io_bind (cached_xpub cr drv path_base) (\<lambda>xpub.
     io_bind (io_lift (PubkeyProvider_new (Some origin) xpub (Some path_suffix) 0 True)) (\<lambda>pubkey.
     wrap_descriptor drv addr_type pubkey)))) c"

definition getkeypool_inner ::
    "crypto \<Rightarrow> 'w driver \<Rightarrow> string option \<Rightarrow> int \<Rightarrow> int \<Rightarrow> bool \<Rightarrow> bool \<Rightarrow> int \<Rightarrow> AddressType
     \<Rightarrow> ('w client, (string, pyval) dict list) io" where
  "getkeypool_inner cr drv path start end internal keypool account addr_type =
     io_bind (on_device (drv_master_fingerprint drv)) (\<lambda>master_fpr.
     io_bind (getdescriptor cr drv master_fpr path internal addr_type account) (\<lambda>desc.
     io_bind (io_lift (to_string ''h'' desc)) (\<lambda>s.
     io_ret [[(''desc'', VStr s), (''range'', VList [VInt start, VInt end]), (''timestamp'', VStr ''now''),
        (''internal'', VBool internal), (''keypool'', VBool keypool), (''active'', VBool keypool), (''watchonly'', VBool True)]])))"

definition getkeypool ::
    "crypto \<Rightarrow> 'w driver \<Rightarrow> string option \<Rightarrow> int \<Rightarrow> int \<Rightarrow> bool \<Rightarrow> bool \<Rightarrow> int \<Rightarrow> AddressType \<Rightarrow> bool
     \<Rightarrow> ('w client, (string, pyval) dict list) io" where
  "getkeypool cr drv path start end internal keypool account addr_type addr_all =
     io_bind (on_device (drv_can_sign_taproot drv)) (\<lambda>supports_taproot.
     if \<not> addr_all \<and> \<not> supports_taproot \<and> addr_type = TAP
     then io_fail (UnavailableActionError ''Device does not support Taproot'')
     else
       let addr_types = (if addr_all then enum_class.enum else [addr_type]);
           addr_types = (if \<not> supports_taproot \<and> TAP \<in> set addr_types then remove1 TAP addr_types else addr_types)
       in if path = None \<and> \<not> internal then
            io_bind (io_map (\<lambda>(addr_type, internal_addr).
                getkeypool_inner cr drv None start end internal_addr keypool account addr_type)
              (concat (map (\<lambda>t. [(t, False), (t, True)]) addr_types)))
            (\<lambda>chains. io_ret (concat chains))
          else if length addr_types \<noteq> 1 then io_fail AssertionErr
          else getkeypool_inner cr drv path start end internal keypool account (hd addr_types))"

definition unavailable :: "exn \<Rightarrow> bool" where
  "unavailable e \<longleftrightarrow> (case e of HWWErr msg code \<Rightarrow> code = UNAVAILABLE_ACTION | _ \<Rightarrow> False)"

text \<open>The inner loop of \<open>getdescriptors\<close>: address types that are not available are skipped.\<close>

fun descriptors_loop ::
    "crypto \<Rightarrow> 'w driver \<Rightarrow> bytes \<Rightarrow> bool \<Rightarrow> int \<Rightarrow> AddressType list \<Rightarrow> ('w client, string list) io" where
  "descriptors_loop cr drv master_fpr internal account [] = io_ret []"
| "descriptors_loop cr drv master_fpr internal account (addr_type # addr_types) =
     io_bind (io_catch (io_bind (getdescriptor cr drv master_fpr None internal addr_type account) (\<lambda>d. io_ret (Some d)))
        unavailable (io_ret None)) (\<lambda>desc.
     case desc of
       None \<Rightarrow> descriptors_loop cr drv master_fpr internal account addr_types
     | Some desc \<Rightarrow>
         io_bind (io_lift (to_string ''h'' desc)) (\<lambda>s.
         io_bind (descriptors_loop cr drv master_fpr internal account addr_types) (\<lambda>ss. io_ret (s # ss))))"

definition getdescriptors :: "crypto \<Rightarrow> 'w driver \<Rightarrow> int \<Rightarrow> ('w client, (string, pyval) dict) io" where
  "getdescriptors cr drv account =
     io_bind (on_device (drv_master_fingerprint drv)) (\<lambda>master_fpr.
     io_bind (descriptors_loop cr drv master_fpr False account enum_class.enum) (\<lambda>receive.
     io_bind (descriptors_loop cr drv master_fpr True account enum_class.enum) (\<lambda>internal.
     io_ret [(''receive'', VList (map VStr receive)), (''internal'', VList (map VStr internal))])))"

section \<open>Addresses\<close>

text \<open>The descriptor inside \<open>sh()\<close> and \<open>wsh()\<close>, and which of them it is in.\<close>

fun unwrap :: "Descriptor \<Rightarrow> bool \<times> bool \<times> Descriptor" where
  "unwrap (SHDescriptor (WSHDescriptor d)) = (True, True, d)"
| "unwrap (SHDescriptor d) = (True, False, d)"
| "unwrap (WSHDescriptor (WSHDescriptor d)) = (False, True, d)"
| "unwrap (WSHDescriptor d) = (False, True, d)"
| "unwrap d = (False, False, d)"

text \<open>
  The two branches for a descriptor that is a single key or a multisig. The keys compared are the extended key of the
  device at the origin's path and its public key in two forms, looked at only as long as none is equal.
\<close>

definition key_matches :: "string \<Rightarrow> string \<Rightarrow> bool result" where
  "key_matches pubkey xpub =
     (if pubkey = xpub then Inr True
      else
        res_bind (xpub_to_pub_hex xpub) (\<lambda>hex.
        if pubkey = hex then Inr True
        else res_bind (xpub_to_xonly_pub_hex xpub) (\<lambda>xonly. Inr (pubkey = xonly))))"

definition singlesig_type :: "bool \<Rightarrow> Descriptor \<Rightarrow> AddressType" where
  "singlesig_type is_sh descriptor =
     (case descriptor of
        WPKHDescriptor p \<Rightarrow> if is_sh then SH_WIT else WIT
      | TRDescriptor p ds depths \<Rightarrow> TAP
      | _ \<Rightarrow> LEGACY)"

definition display_singlesig ::
    "crypto \<Rightarrow> 'w driver \<Rightarrow> string \<Rightarrow> bool \<Rightarrow> Descriptor \<Rightarrow> PubkeyProvider \<Rightarrow> ('w client, (string, pyval) dict) io" where
  "display_singlesig cr drv desc is_sh descriptor pubkey =
     (case pp_origin pubkey of
        None \<Rightarrow> io_fail (BadArgumentError (''Descriptor missing origin info: '' @ desc))
      | Some origin \<Rightarrow>
          io_bind (on_device (drv_master_fingerprint drv)) (\<lambda>fpr.
          if ko_fingerprint origin \<noteq> fpr
          then io_fail (BadArgumentError (''Descriptor fingerprint does not match device: '' @ desc))
          else
            io_bind (on_device (drv_pubkey_at_path drv (get_derivation_path origin))) (\<lambda>k.
            io_bind (io_lift (xk_to_string cr k)) (\<lambda>xpub.
            io_bind (io_lift (key_matches (pp_pubkey pubkey) xpub)) (\<lambda>matches.
            if \<not> matches then io_fail (BadArgumentError (''Key in descriptor does not match device: '' @ desc))
            else
              io_bind (io_lift (get_full_derivation_path pubkey 0 0)) (\<lambda>path.
              io_bind (on_device (drv_singlesig_address drv path (singlesig_type is_sh descriptor))) (\<lambda>address.
              io_ret [(''address'', VStr address)])))))))"

definition display_descriptor :: "crypto \<Rightarrow> 'w driver \<Rightarrow> string \<Rightarrow> ('w client, (string, pyval) dict) io" where
  "display_descriptor cr drv desc =
     io_bind (io_lift (parse_descriptor desc)) (\<lambda>descriptor.
     let (is_sh, is_wsh, inner) = unwrap descriptor in
     case inner of
       MultisigDescriptor ps thresh is_sorted \<Rightarrow>
         if is_sh \<or> is_wsh then
           io_bind (on_device (drv_multisig_address drv
             (if is_sh \<and> is_wsh then SH_WIT else if is_wsh then WIT else LEGACY) inner)) (\<lambda>address.
           io_ret [(''address'', VStr address)])
         else io_fail (BadArgumentError ''Missing both path and descriptor'')
     | PKHDescriptor pubkey \<Rightarrow> display_singlesig cr drv desc is_sh inner pubkey
     | WPKHDescriptor pubkey \<Rightarrow> display_singlesig cr drv desc is_sh inner pubkey
     | TRDescriptor pubkey ds depths \<Rightarrow> display_singlesig cr drv desc is_sh inner pubkey
     | _ \<Rightarrow> io_fail (BadArgumentError ''Missing both path and descriptor''))"

definition display_policy ::
    "(nat list \<Rightarrow> Descriptor result) \<Rightarrow> 'w driver \<Rightarrow> string option \<Rightarrow> int option \<Rightarrow> int option \<Rightarrow> ('w client, (string, pyval) dict) io" where
  "display_policy parse_other drv registration index multipath_index =
     (case registration of
        None \<Rightarrow> io_fail (BadArgumentError ''Missing --registration'')
      | Some registration \<Rightarrow>
        case index of
          None \<Rightarrow> io_fail (BadArgumentError ''Missing --index'')
        | Some index \<Rightarrow>
          if index < 0 then io_fail (BadArgumentError ''Address index must be non-negative'')
          else if (case multipath_index of None \<Rightarrow> False | Some m \<Rightarrow> m < 0)
          then io_fail (BadArgumentError ''Multipath index must be non-negative'')
          else
            let multipath_index = (case multipath_index of None \<Rightarrow> 0 | Some m \<Rightarrow> m) in
            io_bind (io_lift (registered_deserialize parse_other registration)) (\<lambda>registered_descriptor.
            io_bind (on_device (drv_policy_address drv registered_descriptor index multipath_index)) (\<lambda>address.
            io_ret [(''address'', VStr address), (''index'', VInt index), (''multipath_index'', VInt multipath_index)])))"

definition displayaddress ::
    "crypto \<Rightarrow> (nat list \<Rightarrow> Descriptor result) \<Rightarrow> 'w driver \<Rightarrow> string option \<Rightarrow> string option \<Rightarrow> AddressType
     \<Rightarrow> string option \<Rightarrow> int option \<Rightarrow> int option \<Rightarrow> ('w client, (string, pyval) dict) io" where
  "displayaddress cr parse_other drv path desc addr_type registration index multipath_index =
     (if index \<noteq> None \<or> registration \<noteq> None \<or> multipath_index \<noteq> None
      then display_policy parse_other drv registration index multipath_index
      else
        case path of
          Some path \<Rightarrow>
            io_bind (on_device (drv_singlesig_address drv path addr_type)) (\<lambda>address. io_ret [(''address'', VStr address)])
        | None \<Rightarrow>
            case desc of
              Some desc \<Rightarrow> display_descriptor cr drv desc
            | None \<Rightarrow> io_fail (BadArgumentError ''Missing both path and descriptor''))"

section \<open>Management of devices\<close>

definition success :: "('w client, bool) io \<Rightarrow> ('w client, (string, pyval) dict) io" where
  "success m = io_bind m (\<lambda>b. io_ret [(''success'', VBool b)])"

definition setup_device :: "'w driver \<Rightarrow> string \<Rightarrow> string \<Rightarrow> ('w client, (string, pyval) dict) io" where
  "setup_device drv label backup_passphrase = success (on_device (drv_setup_device drv label backup_passphrase))"

definition wipe_device :: "'w driver \<Rightarrow> ('w client, (string, pyval) dict) io" where
  "wipe_device drv = success (on_device (drv_wipe_device drv))"

definition restore_device :: "'w driver \<Rightarrow> string \<Rightarrow> int \<Rightarrow> ('w client, (string, pyval) dict) io" where
  "restore_device drv label word_count = success (on_device (drv_restore_device drv label word_count))"

definition backup_device :: "'w driver \<Rightarrow> string \<Rightarrow> string \<Rightarrow> ('w client, (string, pyval) dict) io" where
  "backup_device drv label backup_passphrase = success (on_device (drv_backup_device drv label backup_passphrase))"

definition prompt_pin :: "'w driver \<Rightarrow> ('w client, (string, pyval) dict) io" where
  "prompt_pin drv = success (on_device (drv_prompt_pin drv))"

definition send_pin :: "'w driver \<Rightarrow> string \<Rightarrow> ('w client, (string, pyval) dict) io" where
  "send_pin drv pin = success (on_device (drv_send_pin drv pin))"

definition toggle_passphrase :: "'w driver \<Rightarrow> ('w client, (string, pyval) dict) io" where
  "toggle_passphrase drv = success (on_device (drv_toggle_passphrase drv))"

definition register_descriptor ::
    "(nat list \<Rightarrow> Descriptor result) \<Rightarrow> 'w driver \<Rightarrow> nat list \<Rightarrow> nat list \<Rightarrow> ('w client, (string, pyval) dict) io" where
  "register_descriptor parse_other drv name descriptor =
     io_bind (io_lift (parse_text parse_other descriptor)) (\<lambda>d.
     io_bind (on_device (drv_register_descriptor drv name d)) (\<lambda>registered.
     io_bind (io_lift (registered_serialize registered)) (\<lambda>s. io_ret [(''registration'', VStr s)])))"

end
