(* ===== verification/Commands_Spec.thy ===== *)
theory Commands_Spec
  imports Commands
begin

text \<open>
  What the commands compute, as functions of the keys of the device: the cache of extended keys changes nothing, and
  the descriptors are those of BIP 44 and its successors.
\<close>

section \<open>Devices\<close>

text \<open>
  A device that always gives the same answers: the key at a path, whether it signs for Taproot outputs, and its
  fingerprint. The state of the device may change.
\<close>

definition answers :: "'w driver \<Rightarrow> (string \<Rightarrow> ExtendedKey result) \<Rightarrow> bool \<Rightarrow> bytes \<Rightarrow> bool" where
  "answers drv key can fpr \<longleftrightarrow> (\<forall>w path. fst (drv_pubkey_at_path drv path w) = key path)
     \<and> (\<forall>w. fst (drv_can_sign_taproot drv w) = Inr can) \<and> (\<forall>w. fst (drv_master_fingerprint drv w) = Inr fpr)"

text \<open>The cache holds what the device answers.\<close>

definition cache_ok :: "crypto \<Rightarrow> (string \<Rightarrow> ExtendedKey result) \<Rightarrow> 'w client \<Rightarrow> bool" where
  "cache_ok cr key c \<longleftrightarrow>
     (\<forall>path x. map_of (cl_xpub_cache c) path = Some x \<longrightarrow> res_bind (key path) (xk_to_string cr) = Inr x)"

lemma cache_ok_new: "cache_ok cr key (client_new chain w)"
  by (simp add: cache_ok_def client_new_def)

text \<open>
  An operation on the client computes a result, whatever the state of the device, and keeps the cache sound and the
  chain.
\<close>

definition computes :: "crypto \<Rightarrow> (string \<Rightarrow> ExtendedKey result) \<Rightarrow> Chain \<Rightarrow> ('w client, 'a) io \<Rightarrow> 'a result \<Rightarrow> bool" where
  "computes cr key chain m r \<longleftrightarrow> (\<forall>c. cache_ok cr key c \<and> cl_chain c = chain \<longrightarrow>
     (\<exists>c'. m c = (r, c') \<and> cache_ok cr key c' \<and> cl_chain c' = chain))"

named_theorems computes_intros

lemma computes_ret [computes_intros]: "computes cr key chain (io_ret x) (Inr x)"
  by (simp add: computes_def)

lemma computes_fail [computes_intros]: "computes cr key chain (io_fail e) (Inl e)"
  by (simp add: computes_def)

lemma computes_lift [computes_intros]: "computes cr key chain (io_lift r) r"
  by (simp add: computes_def)

lemma computes_bind [computes_intros]:
  fixes m :: "('w client, 'a) io"
  assumes "computes cr key chain m r" and "\<And>x. r = Inr x \<Longrightarrow> computes cr key chain (f x) (g x)"
  shows "computes cr key chain (io_bind m f) (res_bind r g)"
  unfolding computes_def
proof (intro allI impI)
  fix c :: "'w client" assume "cache_ok cr key c \<and> cl_chain c = chain"
  then obtain c1 where c1: "m c = (r, c1)" "cache_ok cr key c1 \<and> cl_chain c1 = chain"
    using assms(1) by (auto simp: computes_def)
  show "\<exists>c'. io_bind m f c = (res_bind r g, c') \<and> cache_ok cr key c' \<and> cl_chain c' = chain"
  proof (cases r)
    case (Inl e)
    then show ?thesis using c1 by (simp add: io_bind_def)
  next
    case (Inr x)
    then obtain c2 where "f x c1 = (g x, c2)" "cache_ok cr key c2 \<and> cl_chain c2 = chain"
      using assms(2) c1(2) by (auto simp: computes_def)
    then show ?thesis using c1 Inr by (simp add: io_bind_def)
  qed
qed

lemma computes_device:
  "(\<And>w. fst (m w) = r) \<Longrightarrow> computes cr key chain (on_device m) r"
  by (auto simp: computes_def on_device_def cache_ok_def split: prod.splits) (metis fst_conv)

lemma computes_answers [computes_intros]:
  assumes "answers drv key can fpr"
  shows "computes cr key chain (on_device (drv_pubkey_at_path drv path)) (key path)"
    and "computes cr key chain (on_device (drv_can_sign_taproot drv)) (Inr can)"
    and "computes cr key chain (on_device (drv_master_fingerprint drv)) (Inr fpr)"
  using assms by (auto simp: answers_def intro!: computes_device)

text \<open>A cached key is the key of the device.\<close>

lemma computes_cached:
  fixes drv :: "'w driver"
  assumes "answers drv key can fpr"
  shows "computes cr key chain (cached_xpub cr drv path) (res_bind (key path) (xk_to_string cr))"
  unfolding computes_def
proof (intro allI impI)
  fix c :: "'w client" assume c: "cache_ok cr key c \<and> cl_chain c = chain"
  show "\<exists>c'. cached_xpub cr drv path c = (res_bind (key path) (xk_to_string cr), c') \<and> cache_ok cr key c' \<and> cl_chain c' = chain"
  proof (cases "map_of (cl_xpub_cache c) path")
    case (Some x)
    then have "res_bind (key path) (xk_to_string cr) = Inr x" using c unfolding cache_ok_def by blast
    then show ?thesis using c Some by (simp add: cached_xpub_def del: res_bind_eq_Inr)
  next
    case None
    obtain w where w: "drv_pubkey_at_path drv path (cl_device c) = (key path, w)"
      using assms by (metis answers_def prod.collapse)
    have k: "on_device (drv_pubkey_at_path drv path) c = (key path, c\<lparr>cl_device := w\<rparr>)" by (simp add: on_device_def w)
    show ?thesis
    proof (cases "res_bind (key path) (xk_to_string cr)")
      case (Inl e)
      then show ?thesis using c None k
        by (cases "key path") (simp_all add: cached_xpub_def io_bind_def cache_ok_def)
    next
      case (Inr x)
      then show ?thesis using c None k
        by (cases "key path") (auto simp: cached_xpub_def io_bind_def cache_ok_def update_conv')
    qed
  qed
qed

section \<open>The descriptor, without the cache\<close>

definition wrapped :: "bool \<Rightarrow> AddressType \<Rightarrow> PubkeyProvider \<Rightarrow> Descriptor result" where
  "wrapped can addr_type pubkey =
     (case addr_type of
        LEGACY \<Rightarrow> Inr (PKHDescriptor pubkey)
      | SH_WIT \<Rightarrow> Inr (SHDescriptor (WPKHDescriptor pubkey))
      | WIT \<Rightarrow> Inr (WPKHDescriptor pubkey)
      | TAP \<Rightarrow> if can then Inr (TRDescriptor pubkey [] []) else Inl (UnavailableActionError ''Device does not support Taproot''))"

definition client_descriptor ::
    "crypto \<Rightarrow> (string \<Rightarrow> ExtendedKey result) \<Rightarrow> bool \<Rightarrow> Chain \<Rightarrow> bytes \<Rightarrow> string option \<Rightarrow> bool \<Rightarrow> AddressType \<Rightarrow> int
     \<Rightarrow> Descriptor result" where
  "client_descriptor cr key can chain fpr path internal addr_type account =
     res_bind (descriptor_path chain path internal addr_type account) (\<lambda>parsed_path.
     res_bind (origin_length parsed_path) (\<lambda>i.
     let origin = \<lparr>ko_fingerprint = fpr, ko_path = take i parsed_path\<rparr> in
     res_bind (res_bind (key (get_derivation_path origin)) (xk_to_string cr)) (\<lambda>xpub.
     res_bind (PubkeyProvider_new (Some origin) xpub (Some (map (\<lambda>p. [p]) (drop i parsed_path))) 0 True) (\<lambda>pubkey.
     wrapped can addr_type pubkey))))"

lemma computes_wrap:
  assumes "answers drv key can fpr"
  shows "computes cr key chain (wrap_descriptor drv addr_type pubkey) (wrapped can addr_type pubkey)"
proof (cases addr_type)
  case TAP
  have "computes cr key chain (wrap_descriptor drv TAP pubkey)
      (res_bind (Inr can) (\<lambda>can. if \<not> can then Inl (UnavailableActionError ''Device does not support Taproot'')
         else Inr (TRDescriptor pubkey [] [])))"
    unfolding wrap_descriptor_def AddressType.case
    by (rule computes_bind [OF computes_answers(2) [OF assms]]) (simp add: computes_intros)
  then show ?thesis by (cases can) (simp_all add: wrapped_def TAP)
qed (simp_all add: wrap_descriptor_def wrapped_def computes_intros)

lemma computes_getdescriptor [computes_intros]:
  assumes "answers drv key can fpr'"
  shows "computes cr key chain (getdescriptor cr drv fpr path internal addr_type account)
    (client_descriptor cr key can chain fpr path internal addr_type account)"
proof -
  let ?m = "\<lambda>chain. io_bind (io_lift (descriptor_path chain path internal addr_type account)) (\<lambda>parsed_path.
     io_bind (io_lift (origin_length parsed_path)) (\<lambda>i.
     let origin = \<lparr>ko_fingerprint = fpr, ko_path = take i parsed_path\<rparr>;
         path_base = get_derivation_path origin;
         path_suffix = map (\<lambda>p. [p]) (drop i parsed_path) in
     io_bind (cached_xpub cr drv path_base) (\<lambda>xpub.
     io_bind (io_lift (PubkeyProvider_new (Some origin) xpub (Some path_suffix) 0 True)) (\<lambda>pubkey.
     wrap_descriptor drv addr_type pubkey))))"
  have "computes cr key chain (?m chain) (client_descriptor cr key can chain fpr path internal addr_type account)"
    unfolding client_descriptor_def Let_def
    by (intro computes_bind computes_lift computes_cached [OF assms] computes_wrap [OF assms])
  then show ?thesis by (simp add: computes_def getdescriptor_def)
qed

text \<open>
  C18: the cache is transparent. For a device that always gives the same answers and a client whose cache holds
  answers of the device, as it does when it is new, \<open>getdescriptor\<close> gives the descriptor computed from the keys of
  the device, or the same error, and leaves the cache sound.
\<close>

theorem getdescriptor_cache:
  assumes "answers drv key can fpr" and "cache_ok cr key c"
  shows "fst (getdescriptor cr drv master_fpr path internal addr_type account c)
      = client_descriptor cr key can (cl_chain c) master_fpr path internal addr_type account
    \<and> cache_ok cr key (snd (getdescriptor cr drv master_fpr path internal addr_type account c))"
  using computes_getdescriptor [OF assms(1), of cr "cl_chain c" master_fpr path internal addr_type account] assms(2)
  by (auto simp: computes_def)

section \<open>Where the origin ends\<close>

lemma hardened_loop_eq:
  "path \<noteq> [] \<Longrightarrow> hardened_loop i (length path - 1) (rev path) =
     Some (if \<exists>p\<in>set path. is_hardened p then length (dropWhile (\<lambda>p. \<not> is_hardened p) (rev path)) - 1 else 0)"
proof (induction path arbitrary: i rule: rev_induct)
  case (snoc p path)
  then show ?case by (cases "path = []") auto
qed simp

lemma origin_length_hardened:
  assumes "list_all is_hardened hs" and "hs \<noteq> []" and "list_all (\<lambda>p. \<not> is_hardened p) us"
  shows "origin_length (hs @ us) = Inr (length hs)"
proof -
  have "dropWhile (\<lambda>p. \<not> is_hardened p) (rev (hs @ us)) = rev hs"
  proof -
    have "dropWhile (\<lambda>p. \<not> is_hardened p) (rev us @ rev hs) = dropWhile (\<lambda>p. \<not> is_hardened p) (rev hs)"
      using assms(3) by (intro dropWhile_append2) (auto simp: list_all_iff)
    also have "\<dots> = rev hs" using assms(1, 2) by (cases "rev hs") (auto simp: list_all_iff)
    finally show ?thesis by simp
  qed
  moreover have "\<exists>p\<in>set (hs @ us). is_hardened p" using assms(1, 2) by (cases hs) auto
  ultimately show ?thesis using assms(2) hardened_loop_eq [of "hs @ us" None] by (simp add: origin_length_def)
qed

text \<open>
  Where the origin of a descriptor ends. A path with a hardened step is split after its last one, so that no
  hardened step is left to the extended key; one without is split after its first step; and the empty path leaves
  the variable of the loop unbound.
\<close>

theorem origin_length_split:
  "origin_length [] = Inl (OtherErr ''UnboundLocalError'')
   \<and> (path \<noteq> [] \<longrightarrow> (\<exists>i. origin_length path = Inr i \<and> 1 \<le> i \<and> i \<le> length path
        \<and> (if \<exists>p\<in>set path. is_hardened p then is_hardened (path ! (i - 1)) else i = 1)
        \<and> list_all (\<lambda>p. \<not> is_hardened p) (drop i path)))"
proof (intro conjI impI)
  show "origin_length [] = Inl (OtherErr ''UnboundLocalError'')" by (simp add: origin_length_def)
  assume ne: "path \<noteq> []"
  show "\<exists>i. origin_length path = Inr i \<and> 1 \<le> i \<and> i \<le> length path
        \<and> (if \<exists>p\<in>set path. is_hardened p then is_hardened (path ! (i - 1)) else i = 1)
        \<and> list_all (\<lambda>p. \<not> is_hardened p) (drop i path)"
  proof (cases "\<exists>p\<in>set path. is_hardened p")
    case True
    then obtain hs p us where p: "path = hs @ p # us" "is_hardened p" "\<forall>q\<in>set us. \<not> is_hardened q"
      using split_list_last_prop [of path is_hardened] by blast
    have "dropWhile (\<lambda>p. \<not> is_hardened p) (rev us @ p # rev hs) = p # rev hs"
      using p(2, 3) by (subst dropWhile_append2) auto
    then have "origin_length path = Inr (length hs + 1)"
      using True ne hardened_loop_eq [OF ne, of None] by (simp add: origin_length_def p(1))
    with p True show ?thesis by (auto simp: nth_append list_all_iff)
  next
    case False
    then have "origin_length path = Inr 1" using ne hardened_loop_eq [OF ne, of None] by (simp add: origin_length_def)
    with False ne show ?thesis by (cases path) (auto simp: list_all_iff dest: in_set_dropD)
  qed
qed

theorem origin_length_split_witness: "\<exists>i. origin_length [harden 84, 0] = Inr i \<and> 1 \<le> i \<and> i \<le> 2"
  using conjunct2 [OF origin_length_split [of "[harden 84, 0]"]] by auto

section \<open>Standard descriptors\<close>

definition account_path :: "AddressType \<Rightarrow> Chain \<Rightarrow> int \<Rightarrow> int list" where
  "account_path t chain account = [harden (get_bip44_purpose t), harden (get_bip44_chain chain), harden account]"

lemma purpose_bounds: "0 \<le> get_bip44_purpose t" "get_bip44_purpose t < 2 ^ 31" "0 \<le> get_bip44_chain chain" "get_bip44_chain chain < 2 ^ 31"
  by (cases t; simp add: get_bip44_chain_def)+

lemma harden_bounds: "0 \<le> i \<Longrightarrow> i < 2 ^ 31 \<Longrightarrow> 0 \<le> harden i \<and> harden i < 2 ^ 32"
  by (simp add: harden_eq)

lemma b58_decode_digits: "b58_decode s = Inr b \<Longrightarrow> set s \<subseteq> set b58_digits"
  using b58_value_invalid [of s 0] by (cases "s = []"; cases "set s \<subseteq> set b58_digits") (auto simp: b58_decode_def)

lemma b58_digit_plain: "c \<in> set b58_digits \<Longrightarrow> c \<notin> delimiters"
  by (auto simp: b58_digits_def delimiters_def)

text \<open>The key of a standard descriptor is well-formed, when its extended key is one that can be read.\<close>

lemma client_key_ok:
  assumes "crypto_ok cr" and "xk_from_bytes data = Inr k" and "xk_serialize k = Inr data"
    and "length fpr = 4" and "list_all (\<lambda>i. 0 \<le> i \<and> i < 2 ^ 32) hs" and "list_all (\<lambda>i. 0 \<le> i) us" and "us \<noteq> []"
  shows "\<exists>p x. xk_to_string cr k = Inr x
    \<and> PubkeyProvider_new (Some \<lparr>ko_fingerprint = fpr, ko_path = hs\<rparr>) x (Some (map (\<lambda>p. [p]) us)) 0 True = Inr p
    \<and> key_ok p \<and> pp_origin p = Some \<lparr>ko_fingerprint = fpr, ko_path = hs\<rparr> \<and> pp_pubkey p = x
    \<and> pp_deriv_path p = Some (map (\<lambda>p. [p]) us) \<and> pp_ranged p \<and> pp_expr_index p = 0"
proof -
  let ?x = "b58_encode (data @ take 4 (hash256 cr data))"
  note x = xk_string_deserialize [OF assms(3, 2, 1)]
  have digits: "set ?x \<subseteq> set b58_digits" using b58_decode_digits b58_decode_encode by blast
  have "data \<noteq> []" using assms(2) by (auto simp: xk_from_bytes_def Let_def py_slice_def split: if_split_asm)
  then have "data @ take 4 (hash256 cr data) \<noteq> []" by simp
  moreover have "b58_encode [] = []" using b58_encode_decode [of "[]"] by (auto simp: b58_decode_def)
  ultimately have ne: "?x \<noteq> []" using b58_encode_inj by metis
  obtain p where p: "PubkeyProvider_new (Some \<lparr>ko_fingerprint = fpr, ko_path = hs\<rparr>) ?x (Some (map (\<lambda>p. [p]) us)) 0 True = Inr p"
    using x(2) by (cases "unhexlify ?x") (simp_all add: PubkeyProvider_new_def)
  then have f: "pp_origin p = Some \<lparr>ko_fingerprint = fpr, ko_path = hs\<rparr>" "pp_pubkey p = ?x"
    "pp_deriv_path p = Some (map (\<lambda>p. [p]) us)" "pp_ranged p" "pp_expr_index p = 0"
    by (auto simp: PubkeyProvider_new_def Let_def split: sum.splits)
  moreover have "set ?x \<inter> delimiters = {}" using digits b58_digit_plain by blast
  moreover have "path_ok (map (\<lambda>p. [p]) us)" using assms(6) by (simp add: path_ok_def multi_count_def list_all_iff)
  ultimately have "key_ok p"
    using PubkeyProvider_new_made [OF p] ne assms(4, 5, 7) by (simp add: key_ok_def keyorigin_ok_def)
  with x(1) p f show ?thesis by blast
qed

definition descriptor_key :: "Descriptor \<Rightarrow> PubkeyProvider" where
  "descriptor_key d = hd (get_pubkey_providers d)"

lemma wrapped_shape:
  assumes "key_ok p" and "pp_expr_index p = 0" and "wrapped can t p = Inr d"
  shows "descriptor_shape key_ok TOP d \<and> keys_numbered 0 (get_pubkey_providers d) \<and> get_address_type d = Some t
    \<and> get_pubkey_providers d = [p]"
proof -
  have "same_paths [p]" by (auto simp: same_paths_def)
  then show ?thesis using assms by (cases t) (auto simp: wrapped_def tree_shaped_def split: if_split_asm)
qed

definition has_type :: "bool \<Rightarrow> AddressType \<Rightarrow> bool" where
  "has_type can t \<longleftrightarrow> t = TAP \<longrightarrow> can"

lemma client_standard:
  assumes "crypto_ok cr" and "has_type can addr_type" and "length fpr = 4" and "0 \<le> account" and "account < 2 ^ 31"
    and "hs = account_path addr_type chain account" and "key (''m'' @ path_to_string hs ''h'') = Inr k"
    and "length data = 78" and "xk_from_bytes data = Inr k" and "xk_is_private k \<longrightarrow> data ! 45 = 0"
  shows "\<exists>d p s. client_descriptor cr key can chain fpr None internal addr_type account = Inr d
    \<and> get_address_type d = Some addr_type \<and> get_pubkey_providers d = [p]
    \<and> pp_origin p = Some \<lparr>ko_fingerprint = fpr, ko_path = hs\<rparr> \<and> xk_to_string cr k = Inr (pp_pubkey p)
    \<and> pp_deriv_path p = Some [[if internal then 1 else 0]] \<and> pp_ranged p
    \<and> (\<forall>pos. 0 \<le> pos \<and> pos < 2 ^ 31 \<longrightarrow> is_standard_path (hs @ [if internal then 1 else 0, pos]) addr_type chain)
    \<and> to_string ''h'' d = Inr s \<and> parse_descriptor s = Inr d"
proof -
  let ?b = "if internal then 1 else 0 :: int"
  have hard: "list_all (\<lambda>i. 0 \<le> i \<and> i < 2 ^ 32) hs" "list_all is_hardened hs" "hs \<noteq> []"
    using harden_bounds purpose_bounds assms(4, 5) by (simp_all add: assms(6) account_path_def)
  have "0 \<le> ?b" "?b < 2 ^ 31" by simp_all
  then have b: "\<not> is_hardened ?b" by (rule not_hardened_small)
  have "xk_serialize k = Inr data" using assms(9, 10) by (intro xk_serialize_from_bytes [OF assms(8)]) blast
  moreover have "list_all (\<lambda>i. 0 \<le> i) [?b]" by simp
  ultimately obtain p x where p: "xk_to_string cr k = Inr x"
    "PubkeyProvider_new (Some \<lparr>ko_fingerprint = fpr, ko_path = hs\<rparr>) x (Some [[?b]]) 0 True = Inr p"
    "key_ok p" "pp_origin p = Some \<lparr>ko_fingerprint = fpr, ko_path = hs\<rparr>" "pp_pubkey p = x"
    "pp_deriv_path p = Some [[?b]]" "pp_ranged p" "pp_expr_index p = 0"
    using client_key_ok [OF assms(1, 9) _ assms(3) hard(1), of "[?b]"] by auto
  obtain d where d: "wrapped can addr_type p = Inr d" using assms(2) by (cases addr_type) (simp_all add: wrapped_def has_type_def)
  note shape = wrapped_shape [OF p(3, 8) d]
  have path: "descriptor_path chain None internal addr_type account = Inr (hs @ [?b])"
    by (simp add: descriptor_path_def assms(6) account_path_def)
  have "origin_length (hs @ [?b]) = Inr (length hs)" using origin_length_hardened [OF hard(2, 3), of "[?b]"] b by simp
  then have "client_descriptor cr key can chain fpr None internal addr_type account = Inr d"
    using p(1, 2) d assms(7) by (simp add: client_descriptor_def path get_derivation_path_def)
  moreover obtain s where "to_string ''h'' d = Inr s" "parse_descriptor s = Inr d"
    using descriptor_read_back [of "''h''" d] shape by (auto simp: hardened_marks_def)
  moreover have "is_standard_path (hs @ [?b, pos]) addr_type chain" if "0 \<le> pos" "pos < 2 ^ 31" for pos
    using b not_hardened_small [OF that]
    by (simp add: is_standard_path_def assms(6) account_path_def purpose_inverse)
  ultimately show ?thesis using shape p by blast
qed

text \<open>
  The standard descriptors. Without a path, for an account below 2^31 and a type of address the device has,
  \<open>getdescriptor\<close> gives a descriptor of that type with one key: its origin is the device's fingerprint and the
  hardened account path, its extended key the one the device gives at that path, and after it comes the branch;
  every address of the descriptor lies on a standard path of the type and chain. Its string is
  written without error and parsed back as the descriptor.
\<close>

theorem getdescriptor_standard:
  assumes "crypto_ok cr" and "answers drv key can fpr'" and "cache_ok cr key c" and "addr_type = TAP \<longrightarrow> can"
    and "length fpr = 4" and "0 \<le> account" and "account < 2 ^ 31"
    and "hs = account_path addr_type (cl_chain c) account" and "key (''m'' @ path_to_string hs ''h'') = Inr k"
    and "length data = 78" and "xk_from_bytes data = Inr k" and "xk_is_private k \<longrightarrow> data ! 45 = 0"
  shows "\<exists>d p s. fst (getdescriptor cr drv fpr None internal addr_type account c) = Inr d
    \<and> get_address_type d = Some addr_type \<and> get_pubkey_providers d = [p]
    \<and> pp_origin p = Some \<lparr>ko_fingerprint = fpr, ko_path = hs\<rparr> \<and> xk_to_string cr k = Inr (pp_pubkey p)
    \<and> pp_deriv_path p = Some [[if internal then 1 else 0]] \<and> pp_ranged p
    \<and> (\<forall>pos. 0 \<le> pos \<and> pos < 2 ^ 31 \<longrightarrow> is_standard_path (hs @ [if internal then 1 else 0, pos]) addr_type (cl_chain c))
    \<and> to_string ''h'' d = Inr s \<and> parse_descriptor s = Inr d"
proof -
  have "fst (getdescriptor cr drv fpr None internal addr_type account c)
      = client_descriptor cr key can (cl_chain c) fpr None internal addr_type account"
    using computes_getdescriptor [OF assms(2), of cr "cl_chain c" fpr None internal addr_type account] assms(3)
    by (auto simp: computes_def)
  then show ?thesis
    using client_standard [of cr can addr_type fpr account hs "cl_chain c" key k data internal] assms by (simp add: has_type_def)
qed

text \<open>A device with one key, for the witnesses.\<close>

definition example_driver :: "ExtendedKey \<Rightarrow> bytes \<Rightarrow> unit driver" where
  "example_driver k fpr =
     \<lparr>drv_pubkey_at_path = (\<lambda>path. io_ret k), drv_master_fingerprint = io_ret fpr, drv_can_sign_taproot = io_ret True,
      drv_sign_tx = (\<lambda>tx rs. io_ret tx), drv_sign_message = (\<lambda>m path. io_ret m),
      drv_singlesig_address = (\<lambda>path t. io_ret path), drv_multisig_address = (\<lambda>t d. io_ret []),
      drv_policy_address = (\<lambda>d i m. io_ret []), drv_setup_device = (\<lambda>l p. io_ret True), drv_wipe_device = io_ret True,
      drv_restore_device = (\<lambda>l n. io_ret True), drv_backup_device = (\<lambda>l p. io_ret True), drv_prompt_pin = io_ret True,
      drv_send_pin = (\<lambda>p. io_ret True), drv_toggle_passphrase = io_ret True,
      drv_register_descriptor = (\<lambda>name d. io_ret (RegisteredDescriptor_new name d [] [])), drv_close = io_ret ()\<rparr>"

lemma example_answers: "answers (example_driver k fpr) (\<lambda>path. Inr k) True fpr"
  by (simp add: answers_def example_driver_def)

lemma example_key_bytes: "\<exists>k. xk_from_bytes (TESTNET_PUBLIC @ replicate 74 9) = Inr k \<and> \<not> xk_is_private k"
  using versions_distinct
  by (simp add: xk_from_bytes_def Let_def py_slice_def unpack_be_def ExtendedKey_new_def)

theorem getdescriptor_cache_witness:
  "\<exists>k. xk_from_bytes (TESTNET_PUBLIC @ replicate 74 9) = Inr k
     \<and> fst (getdescriptor pad_crypto (example_driver k [1, 2, 3, 4]) [1, 2, 3, 4] None True WIT 0 (client_new MAIN ()))
       = client_descriptor pad_crypto (\<lambda>path. Inr k) True MAIN [1, 2, 3, 4] None True WIT 0"
proof -
  obtain k where k: "xk_from_bytes (TESTNET_PUBLIC @ replicate 74 9) = Inr k" using example_key_bytes by blast
  show ?thesis
    using k getdescriptor_cache [OF example_answers cache_ok_new [of pad_crypto _ MAIN "()"], of k "[1, 2, 3, 4]" "[1, 2, 3, 4]" None True WIT 0]
    by (auto simp: client_new_def)
qed

theorem getdescriptor_standard_witness:
  "\<exists>k d s. fst (getdescriptor pad_crypto (example_driver k [1, 2, 3, 4]) [1, 2, 3, 4] None False TAP 5 (client_new TEST ())) = Inr d
     \<and> to_string ''h'' d = Inr s \<and> parse_descriptor s = Inr d"
proof -
  let ?d = "TESTNET_PUBLIC @ replicate 74 9 :: bytes"
  obtain k where k: "xk_from_bytes ?d = Inr k" "\<not> xk_is_private k" using example_key_bytes by blast
  have "length ?d = 78" by (simp add: versions_distinct)
  from getdescriptor_standard [OF crypto_ok_pad_crypto example_answers cache_ok_new _ _ _ _ refl refl this k(1),
      where fpr = "[1, 2, 3, 4]" and account = 5 and addr_type = TAP and internal = False] k(2)
  show ?thesis by fastforce
qed

section \<open>All descriptors of an account\<close>

lemma computes_catch [computes_intros]:
  assumes "computes cr key chain m r" and "computes cr key chain h q"
  shows "computes cr key chain (io_catch m caught h) (case r of Inl e \<Rightarrow> if caught e then q else Inl e | Inr x \<Rightarrow> Inr x)"
  using assms unfolding computes_def io_catch_def
  by (fastforce split: sum.splits prod.splits)

definition standard_string ::
    "crypto \<Rightarrow> (string \<Rightarrow> ExtendedKey result) \<Rightarrow> bool \<Rightarrow> Chain \<Rightarrow> bytes \<Rightarrow> int \<Rightarrow> AddressType \<Rightarrow> bool \<Rightarrow> string result" where
  "standard_string cr key can chain fpr account t internal =
     res_bind (client_descriptor cr key can chain fpr None internal t account) (to_string ''h'')"

lemma computes_descriptors_loop:
  assumes a: "answers drv key can fpr"
    and "\<And>t. t \<in> set ts \<Longrightarrow> has_type can t \<Longrightarrow> standard_string cr key can chain fpr account t internal = Inr (str t)"
    and "\<And>t. t \<in> set ts \<Longrightarrow> \<not> has_type can t \<Longrightarrow>
      \<exists>e. client_descriptor cr key can chain fpr None internal t account = Inl e \<and> unavailable e"
  shows "computes cr key chain (descriptors_loop cr drv fpr internal account ts) (Inr (map str (filter (has_type can) ts)))"
  using assms(2-)
proof (induction ts)
  case Nil
  then show ?case by (simp add: computes_ret del: io_simps)
next
  case (Cons t ts)
  let ?d = "client_descriptor cr key can chain fpr None internal t account" and ?rest = "map str (filter (has_type can) ts)"
  have IH: "computes cr key chain (descriptors_loop cr drv fpr internal account ts) (Inr ?rest)"
    using Cons by simp
  have body: "computes cr key chain (io_bind (io_lift (to_string ''h'' d)) (\<lambda>s.
      io_bind (descriptors_loop cr drv fpr internal account ts) (\<lambda>ss. io_ret (s # ss))))
      (res_bind (to_string ''h'' d) (\<lambda>s. res_bind (Inr ?rest) (\<lambda>ss. Inr (s # ss))))" for d
    by (intro computes_bind computes_lift computes_ret IH)
  have "computes cr key chain (descriptors_loop cr drv fpr internal account (t # ts))
      (res_bind (case res_bind ?d (\<lambda>d. Inr (Some d)) of Inl e \<Rightarrow> if unavailable e then Inr None else Inl e | Inr x \<Rightarrow> Inr x)
        (\<lambda>x. case x of None \<Rightarrow> Inr ?rest | Some d \<Rightarrow> res_bind (to_string ''h'' d) (\<lambda>s. res_bind (Inr ?rest) (\<lambda>ss. Inr (s # ss)))))"
    unfolding descriptors_loop.simps
  proof (rule computes_bind)
    show "computes cr key chain (io_catch (io_bind (getdescriptor cr drv fpr None internal t account) (\<lambda>d. io_ret (Some d)))
        unavailable (io_ret None))
      (case res_bind ?d (\<lambda>d. Inr (Some d)) of Inl e \<Rightarrow> if unavailable e then Inr None else Inl e | Inr x \<Rightarrow> Inr x)"
      by (intro computes_catch computes_bind computes_getdescriptor [OF a] computes_ret)
  next
    fix x
    show "computes cr key chain
        (case x of None \<Rightarrow> descriptors_loop cr drv fpr internal account ts
         | Some desc \<Rightarrow> io_bind (io_lift (to_string ''h'' desc)) (\<lambda>s.
             io_bind (descriptors_loop cr drv fpr internal account ts) (\<lambda>ss. io_ret (s # ss))))
        (case x of None \<Rightarrow> Inr ?rest | Some d \<Rightarrow> res_bind (to_string ''h'' d) (\<lambda>s. res_bind (Inr ?rest) (\<lambda>ss. Inr (s # ss))))"
      using IH body by (cases x) simp_all
  qed
  moreover have "?d = Inr d \<and> to_string ''h'' d = Inr (str t)"
    if "has_type can t" "?d = Inr d" for d using that Cons.prems(1) [of t] by (simp add: standard_string_def)
  moreover have "\<exists>d. ?d = Inr d" if "has_type can t" using that Cons.prems(1) [of t] by (auto simp: standard_string_def)
  ultimately show ?case using Cons.prems(2) [of t] by (cases "has_type can t") auto
qed

definition import_request :: "int \<Rightarrow> int \<Rightarrow> bool \<Rightarrow> bool \<Rightarrow> string \<Rightarrow> (string, pyval) dict" where
  "import_request start end keypool internal s =
     [(''desc'', VStr s), (''range'', VList [VInt start, VInt end]), (''timestamp'', VStr ''now''),
      (''internal'', VBool internal), (''keypool'', VBool keypool), (''active'', VBool keypool), (''watchonly'', VBool True)]"

lemma computes_inner:
  assumes a: "answers drv key can fpr" and "standard_string cr key can chain fpr account t internal = Inr s"
  shows "computes cr key chain (getkeypool_inner cr drv None start end internal keypool account t)
    (Inr [import_request start end keypool internal s])"
proof -
  have "computes cr key chain (getkeypool_inner cr drv None start end internal keypool account t)
      (res_bind (Inr fpr) (\<lambda>fpr. res_bind (client_descriptor cr key can chain fpr None internal t account) (\<lambda>d.
       res_bind (to_string ''h'' d) (\<lambda>s. Inr [import_request start end keypool internal s]))))"
    unfolding getkeypool_inner_def import_request_def
    by (intro computes_bind computes_answers [OF a] computes_getdescriptor [OF a] computes_lift computes_ret)
  moreover have "res_bind (client_descriptor cr key can chain fpr None internal t account) (\<lambda>d.
       res_bind (to_string ''h'' d) (\<lambda>s. Inr [import_request start end keypool internal s]))
     = Inr [import_request start end keypool internal s]"
    using assms(2) by (auto simp: standard_string_def)
  ultimately show ?thesis by simp
qed

lemma computes_map:
  "(\<And>x. x \<in> set xs \<Longrightarrow> computes cr key chain (f x) (Inr (g x))) \<Longrightarrow> computes cr key chain (io_map f xs) (Inr (map g xs))"
proof (induction xs)
  case Nil
  then show ?case by (simp add: computes_ret del: io_simps)
next
  case (Cons x xs)
  have "computes cr key chain (io_map f (x # xs)) (res_bind (Inr (g x)) (\<lambda>y. res_bind (Inr (map g xs)) (\<lambda>ys. Inr (y # ys))))"
    unfolding io_map.simps by (intro computes_bind computes_ret Cons) auto
  then show ?case by simp
qed

lemma standard_string_can:
  assumes "standard_string cr key True chain fpr account t internal = Inr s"
  shows "has_type can t \<Longrightarrow> standard_string cr key can chain fpr account t internal = Inr s"
    and "\<not> has_type can t \<Longrightarrow>
      client_descriptor cr key can chain fpr None internal t account = Inl (UnavailableActionError ''Device does not support Taproot'')"
  using assms by (cases t; auto simp: standard_string_def client_descriptor_def wrapped_def has_type_def Let_def split: if_splits)+

lemma unavailable_taproot [simp]: "unavailable (UnavailableActionError msg)"
  by (simp add: unavailable_def UnavailableActionError_def)

lemma getkeypool_all:
  "getkeypool cr drv None start end False keypool account addr_type True =
     io_bind (on_device (drv_can_sign_taproot drv)) (\<lambda>can.
     io_bind (io_map (\<lambda>(t, internal). getkeypool_inner cr drv None start end internal keypool account t)
       (concat (map (\<lambda>t. [(t, False), (t, True)]) (filter (has_type can) enum_class.enum))))
     (\<lambda>chains. io_ret (concat chains)))"
proof -
  have "(if \<not> can \<and> TAP \<in> set enum_class.enum then remove1 TAP enum_class.enum else enum_class.enum)
      = filter (has_type can) enum_class.enum" for can
    by (cases can) (simp_all add: enum_AddressType_def has_type_def)
  then show ?thesis by (simp add: getkeypool_def Let_def del: io_simps)
qed

text \<open>
  All descriptors of an account. When the device gives every key, \<open>getdescriptors\<close> lists the standard
  descriptors of all types of address the device has, in the order of \<open>AddressType\<close>, once for receiving and once for
  change, and skips Taproot on a device that does not sign for it; and \<open>getkeypool\<close> with \<open>--all\<close> asks to import
  exactly the same descriptors, for each type the one for receiving and then the one for change.
\<close>

theorem account_descriptors:
  assumes "answers drv key can fpr" and "cache_ok cr key c"
    and "\<And>t internal. standard_string cr key True (cl_chain c) fpr account t internal = Inr (str t internal)"
    and "types = filter (\<lambda>t. t = TAP \<longrightarrow> can) [LEGACY, WIT, SH_WIT, TAP]"
  shows "fst (getdescriptors cr drv account c)
      = Inr [(''receive'', VList (map (\<lambda>t. VStr (str t False)) types)), (''internal'', VList (map (\<lambda>t. VStr (str t True)) types))]
    \<and> fst (getkeypool cr drv None start end False keypool account addr_type True c)
      = Inr (concat (map (\<lambda>t. [import_request start end keypool False (str t False), import_request start end keypool True (str t True)]) types))"
proof -
  let ?chain = "cl_chain c"
  have types: "filter (has_type can) enum_class.enum = types"
    by (simp add: assms(4) enum_AddressType_def has_type_def)
  have loop: "computes cr key ?chain (descriptors_loop cr drv fpr internal account enum_class.enum) (Inr (map (\<lambda>t. str t internal) types))" for internal
    unfolding types [symmetric] using standard_string_can [OF assms(3)]
    by (intro computes_descriptors_loop [OF assms(1)]) auto
  have "computes cr key ?chain (getdescriptors cr drv account)
      (res_bind (Inr fpr) (\<lambda>fpr. res_bind (Inr (map (\<lambda>t. str t False) types)) (\<lambda>receive.
       res_bind (Inr (map (\<lambda>t. str t True) types)) (\<lambda>internal.
       Inr [(''receive'', VList (map VStr receive)), (''internal'', VList (map VStr internal))]))))"
    unfolding getdescriptors_def using loop
    by (intro computes_bind computes_answers [OF assms(1)] computes_ret) auto
  then have 1: "fst (getdescriptors cr drv account c)
      = Inr [(''receive'', VList (map (\<lambda>t. VStr (str t False)) types)), (''internal'', VList (map (\<lambda>t. VStr (str t True)) types))]"
    using assms(2) by (auto simp: computes_def comp_def)
  let ?kinds = "concat (map (\<lambda>t. [(t, False), (t, True)]) types)"
  have "computes cr key ?chain (io_map (\<lambda>(t, internal). getkeypool_inner cr drv None start end internal keypool account t) ?kinds)
      (Inr (map (\<lambda>(t, internal). [import_request start end keypool internal (str t internal)]) ?kinds))"
  proof (rule computes_map)
    fix x assume "x \<in> set ?kinds"
    then obtain t internal where x: "x = (t, internal)" "has_type can t" by (auto simp: assms(4) has_type_def split: if_splits)
    then show "computes cr key ?chain ((\<lambda>(t, internal). getkeypool_inner cr drv None start end internal keypool account t) x)
        (Inr ((\<lambda>(t, internal). [import_request start end keypool internal (str t internal)]) x))"
      using computes_inner [OF assms(1) standard_string_can(1) [OF assms(3)]] by simp
  qed
  then have "computes cr key ?chain (getkeypool cr drv None start end False keypool account addr_type True)
      (res_bind (Inr can) (\<lambda>can. res_bind (Inr (map (\<lambda>(t, internal). [import_request start end keypool internal (str t internal)]) ?kinds))
        (\<lambda>chains. Inr (concat chains))))"
    unfolding getkeypool_all
    by (intro computes_bind [OF computes_answers(2) [OF assms(1)]]) (auto simp: types computes_ret simp del: io_simps res_bind_simps intro!: computes_bind)
  then have 2: "fst (getkeypool cr drv None start end False keypool account addr_type True c)
      = Inr (concat (map (\<lambda>(t, internal). [import_request start end keypool internal (str t internal)]) ?kinds))"
    using assms(2) by (auto simp: computes_def)
  have "concat (map (\<lambda>(t, internal). [f t internal]) (concat (map (\<lambda>t. [(t, False), (t, True)]) ts)))
      = concat (map (\<lambda>t. [f t False, f t True]) ts)" for f :: "AddressType \<Rightarrow> bool \<Rightarrow> (string, pyval) dict" and ts
    by (induction ts) simp_all
  with 1 2 show ?thesis by simp
qed

theorem account_descriptors_witness:
  "\<exists>k str. fst (getdescriptors pad_crypto (example_driver k [1, 2, 3, 4]) 0 (client_new MAIN ()))
     = Inr [(''receive'', VList (map (\<lambda>t. VStr (str t False)) [LEGACY, WIT, SH_WIT, TAP])),
            (''internal'', VList (map (\<lambda>t. VStr (str t True)) [LEGACY, WIT, SH_WIT, TAP]))]"
proof -
  let ?d = "TESTNET_PUBLIC @ replicate 74 9 :: bytes" and ?fpr = "[1, 2, 3, 4] :: bytes"
  obtain k where k: "xk_from_bytes ?d = Inr k" "\<not> xk_is_private k" using example_key_bytes by blast
  have l: "length ?d = 78" by (simp add: versions_distinct)
  have "\<exists>s. standard_string pad_crypto (\<lambda>path. Inr k) True MAIN ?fpr 0 t internal = Inr s" for t internal
    using client_standard [OF crypto_ok_pad_crypto _ _ _ _ refl refl l k(1), of True t ?fpr 0 MAIN internal] k(2)
    by (auto simp: standard_string_def has_type_def)
  then obtain str where "\<And>t internal. standard_string pad_crypto (\<lambda>path. Inr k) True MAIN ?fpr 0 t internal = Inr (str t internal)"
    by metis
  then show ?thesis
    using account_descriptors [OF example_answers cache_ok_new [of _ _ MAIN "()"] _ refl, of pad_crypto k ?fpr 0 str]
    by (fastforce simp: client_new_def)
qed

section \<open>Addresses\<close>

text \<open>
  What the device was asked and answered before it displays the address of a descriptor with one key: the key of the
  descriptor has an origin with the fingerprint of the device, and is the extended key the device gives at the path
  of the origin or the public key of it, in one of two forms.
\<close>

definition key_of_device :: "crypto \<Rightarrow> bytes \<Rightarrow> ExtendedKey \<Rightarrow> PubkeyProvider \<Rightarrow> bool" where
  "key_of_device cr fpr k p \<longleftrightarrow> (\<exists>x. xk_to_string cr k = Inr x \<and> pred_option (\<lambda>ko. ko_fingerprint ko = fpr) (pp_origin p) \<and> pp_origin p \<noteq> None
     \<and> (pp_pubkey p = x \<or> xpub_to_pub_hex x = Inr (pp_pubkey p) \<or> xpub_to_xonly_pub_hex x = Inr (pp_pubkey p)))"

lemma key_matches_True:
  "key_matches pubkey x = Inr True \<Longrightarrow> pubkey = x \<or> xpub_to_pub_hex x = Inr pubkey \<or> xpub_to_xonly_pub_hex x = Inr pubkey"
  by (auto simp: key_matches_def split: if_split_asm)

lemma on_device_Inr: "on_device m c = (Inr x, c') \<longleftrightarrow> (\<exists>w. m (cl_device c) = (Inr x, w) \<and> c' = c\<lparr>cl_device := w\<rparr>)"
  by (auto simp: on_device_def split: prod.splits)

lemma display_singlesig_checked:
  assumes "answers drv key can fpr" and "display_singlesig cr drv desc is_sh d p c = (Inr r, c')"
  shows "\<exists>ko k path address w w'. pp_origin p = Some ko \<and> key (get_derivation_path ko) = Inr k \<and> key_of_device cr fpr k p
    \<and> get_full_derivation_path p 0 0 = Inr path \<and> drv_singlesig_address drv path (singlesig_type is_sh d) w = (Inr address, w')
    \<and> r = [(''address'', VStr address)]"
proof -
  obtain ko where ko: "pp_origin p = Some ko" using assms(2) by (cases "pp_origin p") (simp_all add: display_singlesig_def)
  obtain fpr' c1 k c2 x path address c3 where 1: "on_device (drv_master_fingerprint drv) c = (Inr fpr', c1)" "ko_fingerprint ko = fpr'"
    "on_device (drv_pubkey_at_path drv (get_derivation_path ko)) c1 = (Inr k, c2)" "xk_to_string cr k = Inr x"
    "key_matches (pp_pubkey p) x = Inr True" "get_full_derivation_path p 0 0 = Inr path"
    "on_device (drv_singlesig_address drv path (singlesig_type is_sh d)) c2 = (Inr address, c3)" "r = [(''address'', VStr address)]"
    using assms(2) by (auto simp: display_singlesig_def ko io_bind_Inr split: if_split_asm)
  have "fpr' = fpr" using 1(1) assms(1) by (auto simp: on_device_Inr answers_def) (metis fst_conv sum.inject(2))
  then have "key_of_device cr fpr k p" using 1(2, 4) key_matches_True [OF 1(5)] ko by (auto simp: key_of_device_def)
  moreover have "key (get_derivation_path ko) = Inr k" using 1(3) assms(1) by (auto simp: on_device_Inr answers_def) (metis fst_conv)
  moreover obtain w w' where "drv_singlesig_address drv path (singlesig_type is_sh d) w = (Inr address, w')"
    using 1(7) by (auto simp: on_device_Inr)
  ultimately show ?thesis using ko 1(6, 8) by blast
qed

text \<open>
  C19: the address of a descriptor is displayed only for a key of the device. When \<open>displayaddress\<close> with a descriptor
  returns, the descriptor was parsed, and either it is a multisig inside sh() or wsh(), handed to the device with the
  type of that nesting, or it has one key, which is the key of the device at the path of its origin, and the address
  is the one the device gives at the full path of the key, at position 0, for the type of the function.
\<close>

theorem display_descriptor_checked:
  assumes "answers drv key can fpr" and "displayaddress cr parse_other drv None (Some desc) addr_type None None None c = (Inr r, c')"
  shows "\<exists>d is_sh is_wsh inner address. parse_descriptor desc = Inr d \<and> unwrap d = (is_sh, is_wsh, inner) \<and> r = [(''address'', VStr address)]
    \<and> ((\<exists>ps thresh is_sorted w w'. inner = MultisigDescriptor ps thresh is_sorted \<and> (is_sh \<or> is_wsh)
          \<and> drv_multisig_address drv (if is_sh \<and> is_wsh then SH_WIT else if is_wsh then WIT else LEGACY) inner w = (Inr address, w'))
      \<or> (\<exists>p ko k path w w'. get_pubkey_providers inner ! 0 = p \<and> pp_origin p = Some ko \<and> key (get_derivation_path ko) = Inr k
          \<and> key_of_device cr fpr k p \<and> get_full_derivation_path p 0 0 = Inr path
          \<and> drv_singlesig_address drv path (singlesig_type is_sh inner) w = (Inr address, w')))"
proof -
  obtain d where d: "parse_descriptor desc = Inr d" using assms(2)
    by (cases "parse_descriptor desc") (simp_all add: displayaddress_def display_descriptor_def)
  obtain is_sh is_wsh inner where u: "unwrap d = (is_sh, is_wsh, inner)" by (cases "unwrap d") auto
  note run = assms(2) [unfolded displayaddress_def display_descriptor_def, simplified, unfolded d, simplified, unfolded u, simplified]
  have single: "\<exists>ko k path address w w'. pp_origin p = Some ko \<and> key (get_derivation_path ko) = Inr k \<and> key_of_device cr fpr k p
      \<and> get_full_derivation_path p 0 0 = Inr path \<and> drv_singlesig_address drv path (singlesig_type is_sh inner) w = (Inr address, w')
      \<and> r = [(''address'', VStr address)]" if "display_singlesig cr drv desc is_sh inner p c = (Inr r, c')" for p
    by (rule display_singlesig_checked [OF assms(1) that])
  show ?thesis
  proof (cases inner)
    case (MultisigDescriptor ps thresh is_sorted)
    with run show ?thesis using d u by (auto simp: io_bind_Inr on_device_Inr split: if_split_asm)
  next
    case (PKHDescriptor p)
    with run single [of p] show ?thesis using d u by fastforce
  next
    case (WPKHDescriptor p)
    with run single [of p] show ?thesis using d u by fastforce
  next
    case (TRDescriptor p ds depths)
    with run single [of p] show ?thesis using d u by fastforce
  qed (use run in simp_all)
qed

theorem display_descriptor_checked_witness:
  "\<exists>k desc d r c'. displayaddress pad_crypto (\<lambda>_. Inl TypeErr) (example_driver k [1, 2, 3, 4]) None (Some desc) WIT None None None
       (client_new MAIN ()) = (Inr r, c') \<and> parse_descriptor desc = Inr d \<and> r = [(''address'', VStr [])]"
proof -
  let ?p = "\<lparr>pp_origin = None, pp_pubkey = ''02aa'', pp_deriv_path = None, pp_expr_index = 0, pp_ranged = False,
        pp_multipath_len = 1, pp_extkey = None\<rparr>"
  let ?d = "WSHDescriptor (MultisigDescriptor [?p] 1 False)"
  have "key_ok ?p"
    by (simp add: key_ok_def key_made_def PubkeyProvider_new_def delimiters_def hex_val_def lower_char_def hex_digits_def)
  then have "descriptor_shape key_ok TOP ?d" "keys_numbered 0 (get_pubkey_providers ?d)" by (simp_all add: same_paths_def)
  then obtain s where s: "parse_descriptor s = Inr ?d"
    using descriptor_read_back [of "''h''" ?d] by (auto simp: hardened_marks_def)
  obtain k where k: "xk_from_bytes (TESTNET_PUBLIC @ replicate 74 9) = Inr k" using example_key_bytes by blast
  have run: "displayaddress pad_crypto (\<lambda>_. Inl TypeErr) (example_driver k [1, 2, 3, 4]) None (Some s) WIT None None None (client_new MAIN ())
      = (Inr [(''address'', VStr [])], client_new MAIN ())"
    by (simp add: displayaddress_def display_descriptor_def s io_bind_def on_device_def example_driver_def client_new_def)
  from display_descriptor_checked [OF example_answers run] run show ?thesis by auto
qed

text \<open>The leaves of a \<open>tr()\<close> descriptor play no part in the address that is displayed.\<close>

lemma display_tree_ignored:
  "display_singlesig cr drv desc is_sh (TRDescriptor p ds depths) p = display_singlesig cr drv desc is_sh (TRDescriptor p [] []) p"
  by (simp only: display_singlesig_def singlesig_type_def Descriptor.case)

text \<open>Nor does a wrapper around \<open>pkh()\<close>.\<close>

lemma display_wrapper_ignored: "singlesig_type is_sh (PKHDescriptor p) = LEGACY"
  by (simp add: singlesig_type_def)

end
