(* ===== verification/Dispatch.thy ===== *)
theory Dispatch
  imports Commands
begin

text \<open>
  The choice of the device in \<open>hwilib/commands.py\<close> (\<open>get_client\<close>, \<open>enumerate\<close>, \<open>find_device\<close>) and the main
  function of \<open>hwilib/_cli.py\<close>, \<open>process_commands\<close>. The modules of the devices, with the constructors and methods of
  their clients, are a parameter; the arguments are those \<open>argparse\<close> returns.
\<close>

section \<open>Finding a device\<close>

text \<open>
  What the modules of the devices offer: the constructor of a class in a module, which may fail to import, the
  list of devices of a module, and two methods of a client.
\<close>

record ('e, 'h) host =
  host_construct :: "string \<Rightarrow> string \<Rightarrow> string \<Rightarrow> string option \<Rightarrow> bool \<Rightarrow> Chain \<Rightarrow> ('e, 'h) io"
  host_enumerate :: "string \<Rightarrow> string option \<Rightarrow> bool \<Rightarrow> Chain \<Rightarrow> bool \<Rightarrow> ('e, (string, pyval option) dict list) io"
  host_fingerprint :: "'h \<Rightarrow> ('e, bytes) io"
  host_close :: "'h \<Rightarrow> ('e, unit) io"

definition import_error :: "exn \<Rightarrow> bool" where
  "import_error e \<longleftrightarrow> (\<exists>msg. e = ImportErr msg)"

lemma import_error_simps [simp]:
  "import_error (ImportErr msg)" "\<not> import_error (HWWErr m c)" "\<not> import_error KeyErr" "\<not> import_error AssertionErr"
  by (simp_all add: import_error_def)

definition capitalize :: "string \<Rightarrow> string" where
  "capitalize s = (case s of [] \<Rightarrow> [] | c # cs \<Rightarrow> upper_char c # py_lower cs)"

definition get_client :: "('e, 'h) host \<Rightarrow> string \<Rightarrow> string \<Rightarrow> string option \<Rightarrow> bool \<Rightarrow> Chain \<Rightarrow> ('e, 'h) io" where
  "get_client host device_type device_path password expert chain =
     (let device_type = hd (py_split CHR ''_'' device_type);
          class_name = capitalize device_type;
          module = py_lower device_type
      in io_catch (host_construct host module (class_name @ ''Client'') device_path password expert chain)
           import_error (io_fail (UnknownDeviceError ''Unknown device type specified'')))"

definition all_devs :: "string list" where
  "all_devs = [''trezor'', ''ledger'', ''keepkey'', ''digitalbitbox'', ''coldcard'', ''bitbox02'', ''jade'']"

fun enumerate_loop ::
    "('e, 'h) host \<Rightarrow> string option \<Rightarrow> bool \<Rightarrow> Chain \<Rightarrow> bool \<Rightarrow> string list \<Rightarrow> ('e, (string, pyval option) dict list) io" where
  "enumerate_loop host password expert chain allow_emulators [] = io_ret []"
| "enumerate_loop host password expert chain allow_emulators (m # ms) =
     io_bind (io_catch (host_enumerate host m password expert chain allow_emulators) import_error (io_ret [])) (\<lambda>ds.
     io_bind (enumerate_loop host password expert chain allow_emulators ms) (\<lambda>rest. io_ret (ds @ rest)))"

definition enumerate_devices ::
    "('e, 'h) host \<Rightarrow> string option \<Rightarrow> bool \<Rightarrow> Chain \<Rightarrow> bool \<Rightarrow> ('e, (string, pyval option) dict list) io" where
  "enumerate_devices host password expert chain allow_emulators =
     enumerate_loop host password expert chain allow_emulators all_devs"

definition dict_item :: "(string, pyval option) dict \<Rightarrow> string \<Rightarrow> pyval option result" where
  "dict_item d k = (case map_of d k of None \<Rightarrow> Inl KeyErr | Some v \<Rightarrow> Inr v)"

text \<open>\<open>device_type is not None and d['type'] != device_type and d['model'] != device_type\<close>, from left to right.\<close>

definition other_type :: "string option \<Rightarrow> (string, pyval option) dict \<Rightarrow> bool result" where
  "other_type device_type d =
     (case device_type of
        None \<Rightarrow> Inr False
      | Some t \<Rightarrow>
          res_bind (dict_item d ''type'') (\<lambda>v.
          if v = Some (VStr t) then Inr False
          else res_bind (dict_item d ''model'') (\<lambda>v. Inr (v \<noteq> Some (VStr t)))))"

definition item_str :: "(string, pyval option) dict \<Rightarrow> string \<Rightarrow> string result" where
  "item_str d k = res_bind (dict_item d k) (\<lambda>v. case v of Some (VStr s) \<Rightarrow> Inr s | _ \<Rightarrow> Inl AssertionErr)"

text \<open>
  The body of the \<open>try\<close> after the client is there: whether it is the one wanted. A client with another fingerprint
  is closed in the body, and again by the handler when closing raised.
\<close>

definition wanted_fingerprint ::
    "('e, 'h) host \<Rightarrow> string option \<Rightarrow> (string, pyval option) dict \<Rightarrow> 'h \<Rightarrow> ('e, bool) io" where
  "wanted_fingerprint host fingerprint d client =
     (case fingerprint of
        None \<Rightarrow> io_ret True
      | Some fpr \<Rightarrow>
          if fpr = [] then io_ret True
          else
            io_bind (case map_of d ''fingerprint'' of
                Some (Some v) \<Rightarrow> io_ret v
              | _ \<Rightarrow> io_bind (host_fingerprint host client) (\<lambda>b. io_ret (VStr (hexlify b)))) (\<lambda>master_fpr.
            if master_fpr \<noteq> VStr fpr then io_bind (host_close host client) (\<lambda>_. io_ret False) else io_ret True))"

definition try_device ::
    "('e, 'h) host \<Rightarrow> string option \<Rightarrow> string option \<Rightarrow> bool \<Rightarrow> Chain \<Rightarrow> (string, pyval option) dict \<Rightarrow> ('e, 'h option) io" where
  "try_device host password fingerprint expert chain d =
     io_bind (io_catch
         (io_bind (io_lift (item_str d ''type'')) (\<lambda>type.
          io_bind (io_lift (item_str d ''path'')) (\<lambda>path.
          io_bind (get_client host type path password expert chain) (\<lambda>client. io_ret (Some client)))))
         (\<lambda>e. True) (io_ret None)) (\<lambda>client.
     case client of
       None \<Rightarrow> io_ret None
     | Some client \<Rightarrow>
         io_bind (io_catch (wanted_fingerprint host fingerprint d client) (\<lambda>e. True)
           (io_bind (host_close host client) (\<lambda>_. io_ret False))) (\<lambda>wanted.
         io_ret (if wanted then Some client else None)))"

fun find_loop ::
    "('e, 'h) host \<Rightarrow> string option \<Rightarrow> string option \<Rightarrow> string option \<Rightarrow> bool \<Rightarrow> Chain \<Rightarrow> (string, pyval option) dict list
     \<Rightarrow> ('e, 'h option) io" where
  "find_loop host password device_type fingerprint expert chain [] = io_ret None"
| "find_loop host password device_type fingerprint expert chain (d # ds) =
     io_bind (io_lift (other_type device_type d)) (\<lambda>other.
     if other then find_loop host password device_type fingerprint expert chain ds
     else
       io_bind (try_device host password fingerprint expert chain d) (\<lambda>client.
       case client of
         Some c \<Rightarrow> io_ret (Some c)
       | None \<Rightarrow> find_loop host password device_type fingerprint expert chain ds))"

definition find_device ::
    "('e, 'h) host \<Rightarrow> string option \<Rightarrow> string option \<Rightarrow> string option \<Rightarrow> bool \<Rightarrow> Chain \<Rightarrow> bool \<Rightarrow> ('e, 'h option) io" where
  "find_device host password device_type fingerprint expert chain allow_emulators =
     io_bind (enumerate_devices host password expert chain allow_emulators)
       (find_loop host password device_type fingerprint expert chain)"

section \<open>The command line\<close>

text \<open>What a command returns, and the arguments after parsing.\<close>

datatype answer = Dict "(string, pyval) dict" | DictList "(string, pyval option) dict list" | Requests "(string, pyval) dict list"

record cli_args =
  arg_device_path :: "string option"
  arg_device_type :: "string option"
  arg_fingerprint :: "string option"
  arg_password :: "string option"
  arg_command :: string
  arg_expert :: bool
  arg_chain :: Chain
  arg_allow_emulators :: bool
  arg_stdinpass :: bool

definition truthy :: "string option \<Rightarrow> bool" where
  "truthy s \<longleftrightarrow> s \<noteq> None \<and> s \<noteq> Some []"

text \<open>
  A block inside \<open>handle_errors\<close> that replaces the dictionary when it ends normally: an exception goes to the
  dictionary there was before. Assigning to a key of a list raises \<open>TypeError\<close>.
\<close>

definition handled :: "int \<Rightarrow> answer \<Rightarrow> ('e, answer) io \<Rightarrow> ('e, answer) io" where
  "handled code result m s =
     (case m s of
        (Inr r, s') \<Rightarrow> (Inr r, s')
      | (Inl e, s') \<Rightarrow>
          ((case result of Dict d \<Rightarrow> Inr (Dict (handle_errors None d code (Inl e))) | _ \<Rightarrow> Inl TypeErr), s'))"

definition run_command :: "('e, 'h) host \<Rightarrow> ('h \<Rightarrow> ('e, answer) io) \<Rightarrow> 'h \<Rightarrow> ('e, answer) io" where
  "run_command host func client =
     io_bind (handled UNKNOWN_ERROR (Dict []) (func client)) (\<lambda>result.
     handled UNKNOWN_ERROR result (io_bind (host_close host client) (\<lambda>_. io_ret result)))"

definition error_answer :: "string \<Rightarrow> int \<Rightarrow> answer" where
  "error_answer msg code = Dict [(''error'', VStr msg), (''code'', VInt code)]"

definition process_commands ::
    "('e, 'h) host \<Rightarrow> string \<Rightarrow> ('h \<Rightarrow> ('e, answer) io) \<Rightarrow> ('e, answer) io \<Rightarrow> cli_args \<Rightarrow> ('e, answer) io" where
  "process_commands host typed_password func udev args =
     (let password = (if arg_stdinpass args then Some typed_password else arg_password args) in
      if arg_command args = ''enumerate'' then
        io_bind (enumerate_devices host password (arg_expert args) (arg_chain args) (arg_allow_emulators args))
          (\<lambda>ds. io_ret (DictList ds))
      else if arg_command args = ''installudevrules'' then
        (\<lambda>s. case udev s of
           (Inr r, s') \<Rightarrow> (Inr r, s')
         | (Inl e, s') \<Rightarrow> (Inr (Dict (handle_errors (Some ''installudevrules failed:'') [] UNKNOWN_ERROR (Inl e))), s'))
      else if truthy (arg_fingerprint args) \<or> (truthy (arg_device_type args) \<and> \<not> truthy (arg_device_path args)) then
        io_bind (find_device host password (arg_device_type args) (arg_fingerprint args) (arg_expert args) (arg_chain args)
            (arg_allow_emulators args)) (\<lambda>client.
        case client of
          None \<Rightarrow> io_ret (error_answer ''Could not find device with specified fingerprint or type'' DEVICE_CONN_ERROR)
        | Some client \<Rightarrow> run_command host func client)
      else if truthy (arg_device_type args) \<and> truthy (arg_device_path args) then
        (\<lambda>s. case get_client host (the (arg_device_type args)) (the (arg_device_path args)) password (arg_expert args)
              (arg_chain args) s of
           (Inr client, s') \<Rightarrow> run_command host func client s'
         | (Inl e, s') \<Rightarrow> (Inr (Dict (handle_errors None [] DEVICE_CONN_ERROR (Inl e))), s'))
      else io_ret (error_answer ''You must specify a device type or fingerprint for all commands except enumerate'' NO_DEVICE_TYPE))"

end
