(* ===== verification/Dispatch_Spec.thy ===== *)
theory Dispatch_Spec
  imports Dispatch
begin

text \<open>
  What \<open>hwilib/_cli.py\<close> does with the clients it opens: every one is closed again before the next is opened and
  before the answer is given, whatever fails, and errors become entries of the answer.
\<close>

section \<open>Clients opened and closed\<close>

text \<open>
  A host with a log: which clients were opened, and which were asked to close, whether or not closing raised.
\<close>

datatype 'h event = Opened 'h | Closed 'h

definition with_log :: "('e, 'a) io \<Rightarrow> ('h event list \<times> 'e, 'a) io" where
  "with_log m s = (case m (snd s) of (r, e) \<Rightarrow> (r, (fst s, e)))"

definition logged :: "('e, 'h) host \<Rightarrow> ('h event list \<times> 'e, 'h) host" where
  "logged host =
     \<lparr>host_construct = (\<lambda>m cls path password expert chain s.
        case host_construct host m cls path password expert chain (snd s) of
          (Inr h, e) \<Rightarrow> (Inr h, (fst s @ [Opened h], e))
        | (Inl x, e) \<Rightarrow> (Inl x, (fst s, e))),
      host_enumerate = (\<lambda>m password expert chain emulators. with_log (host_enumerate host m password expert chain emulators)),
      host_fingerprint = (\<lambda>h. with_log (host_fingerprint host h)),
      host_close = (\<lambda>h s. with_log (host_close host h) (fst s @ [Closed h], snd s))\<rparr>"

text \<open>
  A log of sessions: a client is opened when no other is open, and closed once or twice before the next is opened.
\<close>

inductive sessions :: "'h event list \<Rightarrow> bool" where
  sessions_none: "sessions []"
| sessions_once: "sessions log \<Longrightarrow> sessions (Opened h # Closed h # log)"
| sessions_twice: "sessions log \<Longrightarrow> sessions (Opened h # Closed h # Closed h # log)"

declare sessions.intros [simp, intro]

inductive_simps sessions_simps: "sessions [x]" "sessions (Closed h # log)"

lemma sessions_append: "sessions a \<Longrightarrow> sessions b \<Longrightarrow> sessions (a @ b)"
  by (induction rule: sessions.induct) auto

lemma sessions_one: "sessions [Opened h, Closed h]" "sessions [Opened h, Closed h, Closed h]"
  using sessions_none by blast+

text \<open>What an operation adds to the log, for every outcome.\<close>

definition adds :: "('h event list \<times> 'e, 'a) io \<Rightarrow> ('a result \<Rightarrow> 'h event list \<Rightarrow> bool) \<Rightarrow> bool" where
  "adds m P \<longleftrightarrow> (\<forall>log e. \<exists>r new e'. m (log, e) = (r, (log @ new, e')) \<and> P r new)"

lemma addsI:
  "(\<And>log e. \<exists>r new e'. m (log, e) = (r, (log @ new, e')) \<and> P r new) \<Longrightarrow> adds m P"
  by (simp add: adds_def)

lemma adds_mono: "adds m P \<Longrightarrow> (\<And>r new. P r new \<Longrightarrow> Q r new) \<Longrightarrow> adds m Q"
  unfolding adds_def by blast

lemma adds_bind:
  assumes "adds m P" and "\<And>x. adds (f x) (R x)"
    and "\<And>e new. P (Inl e) new \<Longrightarrow> Q (Inl e) new"
    and "\<And>x new r new'. P (Inr x) new \<Longrightarrow> R x r new' \<Longrightarrow> Q r (new @ new')"
  shows "adds (io_bind m f) Q"
proof (rule addsI)
  fix log e
  obtain r new e1 where 1: "m (log, e) = (r, (log @ new, e1))" "P r new" using assms(1) unfolding adds_def by blast
  show "\<exists>r new e'. io_bind m f (log, e) = (r, (log @ new, e')) \<and> Q r new"
  proof (cases r)
    case (Inl x)
    then show ?thesis using 1 assms(3) by (auto simp: io_bind_def)
  next
    case (Inr x)
    obtain r2 new2 e2 where "f x (log @ new, e1) = (r2, ((log @ new) @ new2, e2))" "R x r2 new2"
      using assms(2) unfolding adds_def by blast
    then show ?thesis using 1 Inr assms(4) by (auto simp: io_bind_def)
  qed
qed

lemma adds_catch:
  assumes "adds m P" and "adds h R"
    and "\<And>x new. P (Inr x) new \<Longrightarrow> Q (Inr x) new"
    and "\<And>e new. P (Inl e) new \<Longrightarrow> \<not> caught e \<Longrightarrow> Q (Inl e) new"
    and "\<And>e new r new'. P (Inl e) new \<Longrightarrow> caught e \<Longrightarrow> R r new' \<Longrightarrow> Q r (new @ new')"
  shows "adds (io_catch m caught h) Q"
proof (rule addsI)
  fix log e
  obtain r new e1 where 1: "m (log, e) = (r, (log @ new, e1))" "P r new" using assms(1) unfolding adds_def by blast
  obtain r2 new2 e2 where 2: "h (log @ new, e1) = (r2, ((log @ new) @ new2, e2))" "R r2 new2"
    using assms(2) unfolding adds_def by blast
  show "\<exists>r new e'. io_catch m caught h (log, e) = (r, (log @ new, e')) \<and> Q r new"
    using 1 2 assms(3-5) by (cases r) (auto simp: io_catch_def)
qed

lemma adds_pure:
  "(\<And>r. P r []) \<Longrightarrow> adds (io_lift q) P" "P (Inr x) [] \<Longrightarrow> adds (io_ret x) P" "P (Inl e) [] \<Longrightarrow> adds (io_fail e) P"
  by (auto simp: adds_def)

lemma adds_with_log: "(\<And>r. P r []) \<Longrightarrow> adds (with_log m) P"
  by (auto simp: adds_def with_log_def split: prod.splits)

lemma adds_lift_bind:
  assumes "\<And>x. adds (f x) Q" and "\<And>e. Q (Inl e) []"
  shows "adds (io_bind (io_lift q) f) Q"
  using assms by (cases q) (auto intro: adds_pure simp del: io_simps)

text \<open>The three methods that touch the log.\<close>

lemma adds_construct:
  "adds (host_construct (logged host) m cls path password expert chain)
     (\<lambda>r new. case r of Inr h \<Rightarrow> new = [Opened h] | Inl e \<Rightarrow> new = [])"
  by (auto simp: adds_def logged_def split: prod.splits sum.splits)

lemma adds_close: "adds (host_close (logged host) h) (\<lambda>r new. new = [Closed h])"
  by (auto simp: adds_def logged_def with_log_def split: prod.splits)

lemma adds_enumerate: "adds (enumerate_devices (logged host) password expert chain emulators) (\<lambda>r new. new = [])"
proof -
  have "adds (enumerate_loop (logged host) password expert chain emulators ms) (\<lambda>r new. new = [])" for ms
  proof (induction ms)
    case (Cons m ms)
    have "adds (io_catch (host_enumerate (logged host) m password expert chain emulators) import_error (io_ret [])) (\<lambda>r new. new = [])"
      by (rule adds_catch [where P = "\<lambda>r new. new = []" and R = "\<lambda>r new. new = []"])
        (auto simp: logged_def intro: adds_with_log adds_pure simp del: io_simps)
    then show ?case unfolding enumerate_loop.simps
      by (rule adds_bind [where R = "\<lambda>x r new. new = []"])
        (auto intro!: adds_bind [OF Cons, where R = "\<lambda>x r new. new = []"] adds_pure)
  qed (simp add: adds_pure del: io_simps)
  then show ?thesis by (simp add: enumerate_devices_def)
qed

section \<open>The loop over the devices\<close>

lemma adds_get_client:
  "adds (get_client (logged host) type path password expert chain)
     (\<lambda>r new. case r of Inr h \<Rightarrow> new = [Opened h] | Inl e \<Rightarrow> new = [])"
  unfolding get_client_def Let_def
  by (rule adds_catch [OF adds_construct, where R = "\<lambda>r new. r = Inl (UnknownDeviceError ''Unknown device type specified'') \<and> new = []"])
    (auto intro: adds_pure simp del: io_simps)

lemma adds_fingerprint: "adds (host_fingerprint (logged host) h) (\<lambda>r new. new = [])"
  by (auto simp: logged_def intro: adds_with_log)

text \<open>A client that is not wanted is closed; one that raised may or may not be.\<close>

lemma adds_wanted:
  "adds (wanted_fingerprint (logged host) fingerprint d h)
     (\<lambda>r new. case r of Inr True \<Rightarrow> new = [] | Inr False \<Rightarrow> new = [Closed h] | Inl e \<Rightarrow> new = [] \<or> new = [Closed h])"
    (is "adds _ ?Q")
proof -
  have check: "adds (if v \<noteq> VStr fpr then io_bind (host_close (logged host) h) (\<lambda>_. io_ret False) else io_ret True) ?Q" for v fpr
    by (auto intro!: adds_pure adds_bind [OF adds_close, where R = "\<lambda>x r new. r = Inr False \<and> new = []"] simp del: io_simps)
  have read: "adds (io_bind (host_fingerprint (logged host) h) (\<lambda>b. io_ret (VStr (hexlify b)))) (\<lambda>r new. new = [])"
    by (rule adds_bind [OF adds_fingerprint, where R = "\<lambda>x r new. new = []"]) (auto intro: adds_pure simp del: io_simps)
  have seen: "adds (case map_of d ''fingerprint'' of Some (Some v) \<Rightarrow> io_ret v
      | _ \<Rightarrow> io_bind (host_fingerprint (logged host) h) (\<lambda>b. io_ret (VStr (hexlify b)))) (\<lambda>r new. new = [])"
    using read by (auto intro: adds_pure split: option.split simp del: io_simps)
  show ?thesis
  proof (cases "fingerprint = None \<or> fingerprint = Some []")
    case True
    then show ?thesis by (auto simp: wanted_fingerprint_def intro!: adds_pure simp del: io_simps)
  next
    case False
    then obtain fpr where "fingerprint = Some fpr" "fpr \<noteq> []" by auto
    then show ?thesis unfolding wanted_fingerprint_def by (simp only: option.case if_False) (rule adds_bind [OF seen check], auto split: sum.splits bool.splits)
  qed
qed

definition opens_one :: "'h option result \<Rightarrow> 'h event list \<Rightarrow> bool" where
  "opens_one r new \<longleftrightarrow>
     (case r of Inr (Some h) \<Rightarrow> (\<exists>before. sessions before \<and> new = before @ [Opened h]) | _ \<Rightarrow> sessions new)"

lemma opens_one_simps [simp]:
  "opens_one (Inr (Some h)) new \<longleftrightarrow> (\<exists>before. sessions before \<and> new = before @ [Opened h])"
  "opens_one (Inr None) new \<longleftrightarrow> sessions new" "opens_one (Inl e) new \<longleftrightarrow> sessions new"
  by (simp_all add: opens_one_def)

lemma opens_one_after: "sessions a \<Longrightarrow> opens_one r b \<Longrightarrow> opens_one r (a @ b)"
  by (auto simp: opens_one_def sessions_append split: sum.split option.split) 

lemma adds_try_device: "adds (try_device (logged host) password fingerprint expert chain d) opens_one"
proof -
  have opened: "adds (io_catch
         (io_bind (io_lift (item_str d ''type'')) (\<lambda>type.
          io_bind (io_lift (item_str d ''path'')) (\<lambda>path.
          io_bind (get_client (logged host) type path password expert chain) (\<lambda>client. io_ret (Some client)))))
         (\<lambda>e. True) (io_ret None))
      (\<lambda>r new. case r of Inr (Some h) \<Rightarrow> new = [Opened h] | _ \<Rightarrow> new = [])" (is "adds (io_catch ?m _ _) ?P")
  proof (rule adds_catch [where P = ?P and R = "\<lambda>r new. r = Inr None \<and> new = []"])
    have "adds (io_bind (get_client (logged host) type path password expert chain) (\<lambda>client. io_ret (Some client))) ?P" for type path
      by (rule adds_bind [OF adds_get_client, where R = "\<lambda>x r new. r = Inr (Some x) \<and> new = []"])
        (auto intro: adds_pure simp del: io_simps)
    then show "adds ?m ?P"
      by (intro adds_lift_bind) auto
  qed (auto intro: adds_pure simp del: io_simps)
  let ?kept = "\<lambda>h. io_catch (wanted_fingerprint (logged host) fingerprint d h) (\<lambda>e. True)
           (io_bind (host_close (logged host) h) (\<lambda>_. io_ret False))"
  have shut: "adds (io_bind (host_close (logged host) h) (\<lambda>_. io_ret False)) (\<lambda>r new. (r = Inr False \<or> (\<exists>e. r = Inl e)) \<and> new = [Closed h])" for h
    by (rule adds_bind [OF adds_close, where R = "\<lambda>x r new. r = Inr False \<and> new = []"]) (auto intro: adds_pure simp del: io_simps)
  have kept: "adds (?kept h) (\<lambda>r new. if r = Inr True then new = [] else new = [Closed h] \<or> new = [Closed h, Closed h])" for h
    by (rule adds_catch [OF adds_wanted shut]) (auto split: bool.splits)
  have chosen: "adds (io_bind (?kept h) (\<lambda>wanted. io_ret (if wanted then Some h else None)))
      (\<lambda>r new. if r = Inr (Some h) then new = [] else (\<forall>h'. r \<noteq> Inr (Some h')) \<and> (new = [Closed h] \<or> new = [Closed h, Closed h]))" for h
    by (rule adds_bind [OF kept, where R = "\<lambda>x r new. r = Inr (if x then Some h else None) \<and> new = []"])
      (auto intro: adds_pure simp del: io_simps split: if_split_asm)
  let ?R = "\<lambda>c r new. case c of None \<Rightarrow> r = Inr None \<and> new = []
    | Some h \<Rightarrow> if r = Inr (Some h) then new = [] else (\<forall>h'. r \<noteq> Inr (Some h')) \<and> (new = [Closed h] \<or> new = [Closed h, Closed h])"
  show ?thesis unfolding try_device_def
  proof (rule adds_bind [OF opened, where R = ?R])
    show "adds (case c of None \<Rightarrow> io_ret None | Some client \<Rightarrow> io_bind (?kept client) (\<lambda>wanted. io_ret (if wanted then Some client else None))) (?R c)" for c
      using chosen by (cases c) (auto intro: adds_pure simp del: io_simps)
  qed (auto simp: opens_one_def sessions_one sessions_none split: option.splits sum.splits if_split_asm)
qed

lemma adds_find_loop: "adds (find_loop (logged host) password type fingerprint expert chain ds) opens_one"
proof (induction ds)
  case Nil
  then show ?case by (simp add: adds_pure sessions_none del: io_simps)
next
  case (Cons d ds)
  have tried: "adds (io_bind (try_device (logged host) password fingerprint expert chain d) (\<lambda>client.
       case client of
         Some c \<Rightarrow> io_ret (Some c)
       | None \<Rightarrow> find_loop (logged host) password type fingerprint expert chain ds)) opens_one"
  proof (rule adds_bind [OF adds_try_device, where R = "\<lambda>c r new. case c of None \<Rightarrow> opens_one r new | Some h \<Rightarrow> r = Inr c \<and> new = []"])
    show "adds (case c of Some c \<Rightarrow> io_ret (Some c) | None \<Rightarrow> find_loop (logged host) password type fingerprint expert chain ds)
        (\<lambda>r new. case c of None \<Rightarrow> opens_one r new | Some h \<Rightarrow> r = Inr c \<and> new = [])" for c
      using Cons by (cases c) (auto intro: adds_pure simp del: io_simps)
  qed (auto simp: opens_one_after split: option.splits)
  show ?case unfolding find_loop.simps
    using tried Cons by (auto intro!: adds_lift_bind simp: sessions_none simp del: io_simps)
qed

lemma adds_find_device:
  "adds (find_device (logged host) password type fingerprint expert chain emulators) opens_one"
  unfolding find_device_def
  by (rule adds_bind [OF adds_enumerate adds_find_loop]) (auto simp: sessions_none)

section \<open>Every client is closed\<close>

text \<open>
  C20: the device that \<open>find_device\<close> returns is the only one it leaves open. Whatever the devices answer and whichever
  call raises, every client opened before it was closed, once or twice, before the next was opened; when none is
  returned, all were closed.
\<close>

theorem find_device_closes:
  "case find_device (logged host) password type fingerprint expert chain emulators ([], e) of
     (r, log, e') \<Rightarrow> (case r of Inr (Some h) \<Rightarrow> \<exists>before. sessions before \<and> log = before @ [Opened h] | _ \<Rightarrow> sessions log)"
proof -
  obtain r new e' where "find_device (logged host) password type fingerprint expert chain emulators ([], e) = (r, ([] @ new, e'))"
    "opens_one r new"
    using adds_find_device [of host password type fingerprint expert chain emulators] unfolding adds_def by blast
  then show ?thesis by (simp add: opens_one_def)
qed

lemma adds_handled: "adds m P \<Longrightarrow> (\<And>r r' new. P r new \<Longrightarrow> Q r' new) \<Longrightarrow> adds (handled code result m) Q"
  unfolding adds_def handled_def by (metis (mono_tags, lifting) prod.case_eq_if sum.case_eq_if prod.sel surjective_pairing)

text \<open>A handler does not open or close clients.\<close>

lemma adds_run_command: "adds (run_command (logged host) (\<lambda>h. with_log (func h)) h) (\<lambda>r new. new = [Closed h])"
proof -
  have one: "adds (handled UNKNOWN_ERROR (Dict []) (with_log (func h))) (\<lambda>r new. new = [] \<and> (\<exists>x. r = Inr x))"
    by (auto simp: adds_def handled_def with_log_def split: sum.split prod.split)
  have two: "adds (handled UNKNOWN_ERROR x (io_bind (host_close (logged host) h) (\<lambda>_. io_ret x))) (\<lambda>r new. new = [Closed h])" for x
    by (rule adds_handled [OF adds_bind [OF adds_close, where R = "\<lambda>x r new. new = []" and Q = "\<lambda>r new. new = [Closed h]"]])
      (auto intro: adds_pure simp del: io_simps)
  show ?thesis unfolding run_command_def by (rule adds_bind [OF one two]) auto
qed

lemma adds_if: "adds a P \<Longrightarrow> adds b P \<Longrightarrow> adds (if c then a else b) P"
  by simp

lemma adds_process_commands:
  "adds (process_commands (logged host) typed (\<lambda>h. with_log (func h)) (with_log udev) args) (\<lambda>r new. sessions new)"
proof -
  let ?run = "run_command (logged host) (\<lambda>h. with_log (func h))"
  have listed: "adds (io_bind (enumerate_devices (logged host) password expert chain emulators) (\<lambda>ds. io_ret (DictList ds)))
      (\<lambda>r new. sessions new)" for password expert chain emulators
    by (rule adds_bind [OF adds_enumerate, where R = "\<lambda>x r new. new = []"]) (auto intro: adds_pure simp del: io_simps)
  have rules: "adds (\<lambda>s. case with_log udev s of (Inr r, s') \<Rightarrow> (Inr r, s') | (Inl x, s') \<Rightarrow> (Inr (f x), s')) (\<lambda>r new. sessions new)" for f
    by (auto simp: adds_def with_log_def split: prod.split sum.split)
  have found: "adds (io_bind (find_device (logged host) password type fingerprint expert chain emulators) (\<lambda>client.
        case client of None \<Rightarrow> io_ret x | Some client \<Rightarrow> ?run client)) (\<lambda>r new. sessions new)"
    for password type fingerprint expert chain emulators x
  proof (rule adds_bind [OF adds_find_device, where R = "\<lambda>c r new. case c of None \<Rightarrow> new = [] | Some h \<Rightarrow> new = [Closed h]"])
    show "adds (case c of None \<Rightarrow> io_ret x | Some client \<Rightarrow> ?run client)
        (\<lambda>r new. case c of None \<Rightarrow> new = [] | Some h \<Rightarrow> new = [Closed h])" for c
      using adds_run_command by (cases c) (auto intro: adds_pure simp del: io_simps)
  qed (auto simp: sessions_append sessions_one split: option.splits)
  have direct: "adds (\<lambda>s. case get_client (logged host) type path password expert chain s of
        (Inr client, s') \<Rightarrow> ?run client s' | (Inl x, s') \<Rightarrow> (Inr (f x), s')) (\<lambda>r new. sessions new)"
    for type path password expert chain f
  proof (rule addsI)
    fix log e
    obtain r new e1 where 1: "get_client (logged host) type path password expert chain (log, e) = (r, (log @ new, e1))"
      "case r of Inr h \<Rightarrow> new = [Opened h] | Inl e \<Rightarrow> new = []"
      using adds_get_client [of host type path password expert chain] unfolding adds_def by blast
    show "\<exists>r new e'. (case get_client (logged host) type path password expert chain (log, e) of
        (Inr client, s') \<Rightarrow> ?run client s' | (Inl x, s') \<Rightarrow> (Inr (f x), s')) = (r, (log @ new, e')) \<and> sessions new"
    proof (cases r)
      case (Inr h)
      obtain r2 e2 where "?run h ((log @ new), e1) = (r2, ((log @ new) @ [Closed h], e2))"
        using adds_run_command [of host func h] unfolding adds_def by blast
      then show ?thesis using 1 Inr sessions_one(1) [of h] by auto
    qed (use 1 in auto)
  qed
  show ?thesis unfolding process_commands_def Let_def
    by (intro adds_if listed rules found direct adds_pure sessions_none)
qed

text \<open>
  C21: no client outlives a run of the program. For every command, every way of choosing the device, and whatever the
  devices and the handler of the command do, each client that is opened is closed before the next is opened and
  before \<open>process_commands\<close> returns or raises.
\<close>

theorem process_commands_closes:
  "sessions (fst (snd (process_commands (logged host) typed (\<lambda>h. with_log (func h)) (with_log udev) args ([], e))))"
proof -
  obtain r new e' where "process_commands (logged host) typed (\<lambda>h. with_log (func h)) (with_log udev) args ([], e) = (r, ([] @ new, e'))"
    "sessions new"
    using adds_process_commands [of host typed func udev args] unfolding adds_def by blast
  then show ?thesis by simp
qed

section \<open>What is reported\<close>

definition with_error :: "(string, pyval) dict \<Rightarrow> int \<Rightarrow> exn \<Rightarrow> (string, pyval) dict" where
  "with_error d code e = handle_errors None d code (Inl e)"

text \<open>
  What is answered for a device given by type and path. When the client cannot be made, its error, with the code
  of a connection error unless it has its own; otherwise the client is closed after the handler, and the answer is the
  dictionary of the handler or its error, to which the error of closing is added. Only when the handler returned a
  list and closing raises is there no answer but a \<open>TypeError\<close>.
\<close>

theorem process_commands_reports:
  assumes "arg_command args \<notin> {''enumerate'', ''installudevrules''}" and "\<not> truthy (arg_fingerprint args)"
    and "arg_device_type args = Some type" and "type \<noteq> []" and "arg_device_path args = Some path" and "path \<noteq> []"
    and "\<not> arg_stdinpass args"
  shows "process_commands host typed func udev args s =
    (case get_client host type path (arg_password args) (arg_expert args) (arg_chain args) s of
       (Inl e, s1) \<Rightarrow> (Inr (Dict (with_error [] DEVICE_CONN_ERROR e)), s1)
     | (Inr client, s1) \<Rightarrow>
         (case func client s1 of (r, s2) \<Rightarrow>
          case host_close host client s2 of (closed, s3) \<Rightarrow>
            let reply = (case r of Inr x \<Rightarrow> x | Inl e \<Rightarrow> Dict (with_error [] UNKNOWN_ERROR e)) in
            (case closed of Inr _ \<Rightarrow> Inr reply
             | Inl e \<Rightarrow> (case reply of Dict d \<Rightarrow> Inr (Dict (with_error d UNKNOWN_ERROR e)) | _ \<Rightarrow> Inl TypeErr), s3)))"
proof -
  have type: "truthy (Some type)" "truthy (Some path)" using assms(4, 6) by (simp_all add: truthy_def)
  show ?thesis using assms type
    by (auto simp: process_commands_def run_command_def handled_def io_bind_def with_error_def split: prod.split sum.split answer.split)
qed

text \<open>A device whose handler and whose close raise: the answer holds the error of closing.\<close>

definition example_host :: "(unit, unit) host" where
  "example_host =
     \<lparr>host_construct = (\<lambda>m cls path password expert chain. io_ret ()), host_enumerate = (\<lambda>m password expert chain emulators. io_ret []),
      host_fingerprint = (\<lambda>h. io_ret []), host_close = (\<lambda>h. io_fail (DeviceFailureError ''close''))\<rparr>"

definition example_args :: cli_args where
  "example_args = \<lparr>arg_device_path = Some ''usb'', arg_device_type = Some ''trezor'', arg_fingerprint = None, arg_password = None,
     arg_command = ''wipe'', arg_expert = False, arg_chain = MAIN, arg_allow_emulators = False, arg_stdinpass = False\<rparr>"

theorem process_commands_reports_witness:
  "fst (process_commands example_host [] (\<lambda>h. io_fail (ActionCanceledError ''no'')) (io_ret (Dict [])) example_args ())
    = Inr (Dict [(''error'', VStr ''close''), (''code'', VInt UNKNOWN_ERROR)])"
proof -
  have run: "get_client example_host ''trezor'' ''usb'' None False MAIN () = (Inr (), ())"
    by (simp add: get_client_def example_host_def io_catch_def Let_def)
  show ?thesis
    by (subst process_commands_reports [where type = "''trezor''" and path = "''usb''"])
      (simp_all add: example_args_def truthy_def run [simplified] example_host_def with_error_def handle_errors_def error_classes Let_def
        get_client_def io_catch_def)
qed

end
