(* ===== verification/Merkle.thy ===== *)
theory Merkle
  imports Complex_Main "HOL-Library.While_Combinator" Effects Serialize Common
begin

text \<open>
  \<open>hwilib/devices/ledger_bitcoin/merkle.py\<close>: the Merkle trees of the Ledger protocol. The nodes are objects with
  references to their children and to their parent that the program changes in place, so they live in a store: a
  reference is a position in the list of nodes allocated so far.
\<close>

section \<open>Powers of two\<close>

text \<open>Loops of the source on \<open>(t, r)\<close>, from \<open>(1, 0)\<close>.\<close>

definition floor_lg :: "nat \<Rightarrow> nat result" where
  "floor_lg n =
     (if n = 0 then Inl AssertionErr
      else Inr (snd (while (\<lambda>(t, r). 2 * t \<le> n) (\<lambda>(t, r). (2 * t, r + 1)) (1, 0))))"

definition ceil_lg :: "nat \<Rightarrow> nat result" where
  "ceil_lg n =
     (if n = 0 then Inl AssertionErr
      else Inr (snd (while (\<lambda>(t, r). t < n) (\<lambda>(t, r). (2 * t, r + 1)) (1, 0))))"

text \<open>The numbers of \<open>MerkleTree.add\<close>, where \<open>/=\<close> turns an integer into a floating-point number. Its values are exact there.\<close>

datatype pynum = PInt int | PFloat rat

definition num_sub :: "pynum \<Rightarrow> pynum \<Rightarrow> pynum" where
  "num_sub a b =
     (case a of
        PInt m \<Rightarrow> (case b of PInt n \<Rightarrow> PInt (m - n) | PFloat y \<Rightarrow> PFloat (of_int m - y))
      | PFloat x \<Rightarrow> (case b of PInt n \<Rightarrow> PFloat (x - of_int n) | PFloat y \<Rightarrow> PFloat (x - y)))"

definition num_half :: "pynum \<Rightarrow> pynum" where
  "num_half a = (case a of PInt m \<Rightarrow> PFloat (of_int m / 2) | PFloat x \<Rightarrow> PFloat (x / 2))"

text \<open>The operator \<open>&\<close> is not defined for floating-point numbers.\<close>

definition is_power_of_2 :: "pynum \<Rightarrow> bool result" where
  "is_power_of_2 a =
     (case a of
        PInt n \<Rightarrow> if \<not> 1 \<le> n then Inl AssertionErr else Inr (n AND (n - 1) = 0)
      | PFloat x \<Rightarrow> if \<not> 1 \<le> x then Inl AssertionErr else Inl TypeErr)"

definition largest_power_of_2_less_than :: "nat \<Rightarrow> nat result" where
  "largest_power_of_2_less_than n =
     (if \<not> 1 < n then Inl AssertionErr
      else
        res_bind (is_power_of_2 (PInt (int n))) (\<lambda>power.
        if power then Inr (n div 2) else res_bind (floor_lg n) (\<lambda>k. Inr (2 ^ k))))"

section \<open>Hashes\<close>

definition NIL :: bytes where
  "NIL = replicate 32 0"

definition element_hash :: "crypto \<Rightarrow> bytes \<Rightarrow> bytes" where
  "element_hash cr element_preimage = sha256 cr ([0] @ element_preimage)"

definition combine_hashes :: "crypto \<Rightarrow> bytes \<Rightarrow> bytes \<Rightarrow> bytes result" where
  "combine_hashes cr left right =
     (if length left \<noteq> 32 \<or> length right \<noteq> 32 then Inl (ValueErr ''The elements must be 32-bytes sha256 outputs.'')
      else Inr (sha256 cr ([1] @ left @ right)))"

section \<open>Nodes\<close>

record node =
  nd_left :: "nat option"
  nd_right :: "nat option"
  nd_parent :: "nat option"
  nd_value :: "bytes option"

type_synonym store = "node list"

definition alloc :: "node \<Rightarrow> (store, nat) io" where
  "alloc n h = (Inr (length h), h @ [n])"

definition update_node :: "nat \<Rightarrow> (node \<Rightarrow> node) \<Rightarrow> (store, unit) io" where
  "update_node a f h = (Inr (), h[a := f (h ! a)])"

definition Node :: "nat option \<Rightarrow> nat option \<Rightarrow> nat option \<Rightarrow> bytes option \<Rightarrow> node" where
  "Node left right parent val = \<lparr>nd_left = left, nd_right = right, nd_parent = parent, nd_value = val\<rparr>"

text \<open>\<open>len(None)\<close> raises \<open>TypeError\<close>.\<close>

definition recompute_value :: "crypto \<Rightarrow> nat \<Rightarrow> (store, unit) io" where
  "recompute_value cr a h =
     (case (nd_left (h ! a), nd_right (h ! a)) of
        (Some l, Some r) \<Rightarrow>
          (case (nd_value (h ! l), nd_value (h ! r)) of
             (Some left, Some right) \<Rightarrow>
               io_bind (io_lift (combine_hashes cr left right)) (\<lambda>v. update_node a (nd_value_update (\<lambda>_. Some v))) h
           | _ \<Rightarrow> (Inl TypeErr, h))
      | _ \<Rightarrow> (Inl AssertionErr, h))"

text \<open>Two nodes are equal when they are the same object.\<close>

definition sibling :: "store \<Rightarrow> nat \<Rightarrow> nat option result" where
  "sibling h a =
     (case nd_parent (h ! a) of
        None \<Rightarrow> Inl IndexErr
      | Some p \<Rightarrow>
          if nd_left (h ! p) = Some a then Inr (nd_right (h ! p))
          else if nd_right (h ! p) = Some a then Inr (nd_left (h ! p))
          else Inl IndexErr)"

section \<open>Trees\<close>

text \<open>The largest power of two below a size is at least one and below the size, so both calls are on fewer leaves.\<close>

lemma two_power_while:
  fixes n :: nat
  assumes "0 < n"
  shows "\<exists>r. while (\<lambda>(t, r). 2 * t \<le> n) (\<lambda>(t, r). (2 * t, r + 1)) (1, 0::nat) = (2 ^ r, r) \<and> 2 ^ r \<le> n \<and> n < 2 ^ Suc r"
proof -
  let ?b = "\<lambda>(t, r::nat). 2 * t \<le> n" and ?c = "\<lambda>(t, r). (2 * t, r + 1::nat)"
  have "\<exists>r. while ?b ?c (1, 0) = (2 ^ r, r) \<and> 2 ^ r \<le> n \<and> \<not> 2 * 2 ^ r \<le> n"
  proof (rule while_rule [where P = "\<lambda>(t, r). t = 2 ^ r \<and> t \<le> n" and r = "measure (\<lambda>(t, r). n - t)"])
    fix s :: "nat \<times> nat" assume "case s of (t, r) \<Rightarrow> t = 2 ^ r \<and> t \<le> n" "?b s"
    moreover have "n - 2 * 2 ^ r < n - 2 ^ r" if "2 * 2 ^ r \<le> n" for r :: nat
      using that zero_less_power [of "2::nat" r] by linarith
    ultimately show "(?c s, s) \<in> measure (\<lambda>(t, r). n - t)" by (auto simp: in_measure)
  qed (use assms in auto)
  then show ?thesis by auto
qed

lemma floor_lg_bounds: "0 < n \<Longrightarrow> \<exists>r. floor_lg n = Inr r \<and> 2 ^ r \<le> n \<and> n < 2 ^ Suc r"
  using two_power_while [of n] by (auto simp: floor_lg_def)

lemma ceil_lg_bounds:
  assumes "0 < n"
  shows "\<exists>r. ceil_lg n = Inr r \<and> n \<le> 2 ^ r \<and> (\<forall>q. n \<le> 2 ^ q \<longrightarrow> r \<le> q)"
proof -
  let ?b = "\<lambda>(t, r::nat). t < n" and ?c = "\<lambda>(t, r). (2 * t, r + 1::nat)"
  have "\<exists>r. while ?b ?c (1, 0) = (2 ^ r, r) \<and> (\<forall>q. n \<le> 2 ^ q \<longrightarrow> r \<le> q) \<and> \<not> 2 ^ r < n"
  proof (rule while_rule [where P = "\<lambda>(t, r). t = 2 ^ r \<and> (\<forall>q. n \<le> 2 ^ q \<longrightarrow> r \<le> q)" and r = "measure (\<lambda>(t, r). n - t)"])
    fix s :: "nat \<times> nat" assume P: "case s of (t, r) \<Rightarrow> t = 2 ^ r \<and> (\<forall>q. n \<le> 2 ^ q \<longrightarrow> r \<le> q)" "?b s"
    have "Suc r \<le> q" if "(2::nat) ^ r < n" "n \<le> 2 ^ q" for r q :: nat
      using that power_strict_increasing_iff [of "2::nat" r q] by linarith
    then show "case ?c s of (t, r) \<Rightarrow> t = 2 ^ r \<and> (\<forall>q. n \<le> 2 ^ q \<longrightarrow> r \<le> q)" using P by (cases s) simp
    have "n - 2 * 2 ^ r < n - 2 ^ r" if "2 ^ r < n" for r :: nat
      using that zero_less_power [of "2::nat" r] by linarith
    with P show "(?c s, s) \<in> measure (\<lambda>(t, r). n - t)" by (auto simp: in_measure)
  qed (auto simp: not_less)
  then show ?thesis using assms by (auto simp: ceil_lg_def)
qed

lemma power_of_2_and: "0 < n \<Longrightarrow> n AND (n - 1) = 0 \<longleftrightarrow> (\<exists>k. n = 2 ^ k)" for n :: nat
proof
  assume n: "0 < n" and z: "n AND (n - 1) = 0"
  from floor_lg_bounds [OF n] obtain k where k: "2 ^ k \<le> n" "n < 2 ^ Suc k" by blast
  show "\<exists>k. n = 2 ^ k"
  proof (rule ccontr)
    assume "\<nexists>k. n = 2 ^ k"
    then have "2 ^ k < n" using k le_neq_implies_less by metis
    then have "n div 2 ^ k = 1" "(n - 1) div 2 ^ k = 1" using k by (auto intro!: div_nat_eqI)
    then have "bit n k" "bit (n - 1) k" by (simp_all add: bit_iff_odd)
    then have "bit (n AND (n - 1)) k" by (simp only: bit_and_iff)
    with z show False by simp
  qed
next
  assume "\<exists>k. n = 2 ^ k"
  then obtain k where "n = 2 ^ k" by blast
  then show "n AND (n - 1) = 0"
    using take_bit_eq_mask [of k "2 ^ k :: nat"] by (simp add: mask_eq_exp_minus_1)
qed

lemma is_power_of_2_nat: "0 < n \<Longrightarrow> is_power_of_2 (PInt (int n)) = Inr (\<exists>k. n = 2 ^ k)"
proof -
  assume "0 < n"
  then have "int n - 1 = int (n - 1)" by simp
  then have "int n AND (int n - 1) = int (n AND (n - 1))" by (simp only: of_nat_and_eq)
  then show ?thesis using \<open>0 < n\<close> power_of_2_and [of n] by (simp add: is_power_of_2_def)
qed

lemma largest_power_bounds:
  assumes "1 < n"
  shows "\<exists>k. largest_power_of_2_less_than n = Inr (2 ^ k) \<and> 2 ^ k < n \<and> n \<le> 2 * 2 ^ k"
proof (cases "\<exists>k. n = 2 ^ k")
  case True
  then obtain k where "n = 2 ^ Suc k" using assms by (metis nat_power_eq_Suc_0_iff not_less_iff_gr_or_eq old.nat.exhaust power_0)
  moreover have "is_power_of_2 (PInt (int n)) = Inr True" using True assms is_power_of_2_nat [of n] by simp
  ultimately show ?thesis using assms by (auto simp: largest_power_of_2_less_than_def)
next
  case False
  obtain k where k: "floor_lg n = Inr k" "2 ^ k \<le> n" "n < 2 ^ Suc k" using floor_lg_bounds [of n] assms by auto
  then have "2 ^ k < n" using False le_neq_implies_less by metis
  then show ?thesis using k False assms is_power_of_2_nat [of n] by (auto simp: largest_power_of_2_less_than_def)
qed

lemma largest_power_less: "largest_power_of_2_less_than n = Inr p \<Longrightarrow> 0 < p \<and> p < n"
  using largest_power_bounds [of n] by (cases "1 < n") (auto simp: largest_power_of_2_less_than_def)

function make_tree :: "crypto \<Rightarrow> nat list \<Rightarrow> nat \<Rightarrow> nat \<Rightarrow> (store, nat option) io" where
  "make_tree cr leaves begin n =
     (if n = 0 then io_ret None
      else if n = 1 then io_ret (Some (leaves ! begin))
      else
        (case largest_power_of_2_less_than n of
           Inl e \<Rightarrow> io_fail e
         | Inr lchild_size \<Rightarrow>
             io_bind (make_tree cr leaves begin lchild_size) (\<lambda>lchild.
             io_bind (make_tree cr leaves (begin + lchild_size) (n - lchild_size)) (\<lambda>rchild.
             io_bind (alloc (Node lchild rchild None None)) (\<lambda>root.
             io_bind (recompute_value cr root) (\<lambda>_.
             io_bind (update_node (the lchild) (nd_parent_update (\<lambda>_. Some root))) (\<lambda>_.
             io_bind (update_node (the rchild) (nd_parent_update (\<lambda>_. Some root))) (\<lambda>_.
             io_ret (Some root)))))))))"
  by pat_completeness auto
termination by (relation "measure (\<lambda>(cr, leaves, begin, n). n)") (auto dest: largest_power_less)

declare make_tree.simps [simp del]

text \<open>
  A tree with the store of its nodes, which no other tree shares. The references of the leaves are in the order of the
  elements.
\<close>

record MerkleTree =
  mt_store :: store
  mt_leaves :: "nat list"
  mt_root_node :: "nat option"
  mt_depth :: "nat option"

definition on_store :: "(store, 'a) io \<Rightarrow> (MerkleTree, 'a) io" where
  "on_store m t = (case m (mt_store t) of (r, h) \<Rightarrow> (r, t\<lparr>mt_store := h\<rparr>))"

definition MerkleTree_new :: "crypto \<Rightarrow> bytes list \<Rightarrow> MerkleTree result" where
  "MerkleTree_new cr elements =
     (let leaves = [0..<length elements];
          h = map (\<lambda>el. Node None None None (Some el)) elements;
          n_elements = length leaves
      in if 0 < n_elements then
           (case make_tree cr leaves 0 n_elements h of
              (Inl e, _) \<Rightarrow> Inl e
            | (Inr root_node, h) \<Rightarrow>
                res_bind (ceil_lg n_elements) (\<lambda>depth.
                Inr \<lparr>mt_store = h, mt_leaves = leaves, mt_root_node = root_node, mt_depth = Some depth\<rparr>))
         else Inr \<lparr>mt_store = h, mt_leaves = leaves, mt_root_node = None, mt_depth = None\<rparr>)"

definition mt_length :: "MerkleTree \<Rightarrow> nat" where
  "mt_length t = length (mt_leaves t)"

text \<open>A value that is missing is no value \<open>bytes\<close> can be.\<close>

definition mt_root :: "MerkleTree \<Rightarrow> bytes option" where
  "mt_root t = (case mt_root_node t of None \<Rightarrow> Some NIL | Some a \<Rightarrow> nd_value (mt_store t ! a))"

definition mt_copy :: "crypto \<Rightarrow> MerkleTree \<Rightarrow> MerkleTree result" where
  "mt_copy cr t = MerkleTree_new cr (map (\<lambda>a. the (nd_value (mt_store t ! a))) (mt_leaves t))"

text \<open>
  \<open>while node is not None\<close>: up to the root. The fuel is the number of nodes, which is enough when no node is its own
  ancestor.
\<close>

fun fix_up_loop :: "crypto \<Rightarrow> nat \<Rightarrow> nat option \<Rightarrow> (store, unit) io" where
  "fix_up_loop cr 0 a = (case a of None \<Rightarrow> io_ret () | Some _ \<Rightarrow> io_fail OutOfFuel)"
| "fix_up_loop cr (Suc fuel) a =
     (case a of
        None \<Rightarrow> io_ret ()
      | Some a \<Rightarrow> io_bind (recompute_value cr a) (\<lambda>_ h. fix_up_loop cr fuel (nd_parent (h ! a)) h))"

definition fix_up :: "crypto \<Rightarrow> nat option \<Rightarrow> (store, unit) io" where
  "fix_up cr a h = fix_up_loop cr (length h) a h"

text \<open>
  The descent of \<open>add\<close>. The size of the left subtree is a floating-point number after the first step, and the size of
  the tree after the second, for which \<open>is_power_of_2\<close> raises.
\<close>

lemma is_power_of_2_float [simp]: "is_power_of_2 (PFloat x) \<noteq> Inr b"
  by (simp add: is_power_of_2_def)

function add_descend :: "store \<Rightarrow> nat \<Rightarrow> pynum \<Rightarrow> pynum \<Rightarrow> nat result" where
  "add_descend h cur_root cur_root_size ltree_size =
     res_bind (is_power_of_2 cur_root_size) (\<lambda>power.
     if power then Inr cur_root
     else
       (case nd_right (h ! cur_root) of
          None \<Rightarrow> Inl (OtherErr ''AttributeError'')
        | Some right \<Rightarrow> add_descend h right (num_sub cur_root_size ltree_size) (num_half ltree_size)))"
  by pat_completeness auto
termination
proof (relation "measure (\<lambda>(h, cur, a, b). (case a of PInt _ \<Rightarrow> 1 | PFloat _ \<Rightarrow> 0) + (case b of PInt _ \<Rightarrow> 1 | PFloat _ \<Rightarrow> 0))")
  fix h cur a b p right assume "is_power_of_2 a = Inr p" "\<not> p" "nd_right (h ! cur) = Some right"
  then obtain n where "a = PInt n" by (cases a) auto
  then show "((h, right, num_sub a b, num_half b), (h, cur, a, b))
      \<in> measure (\<lambda>(h, cur, a, b). (case a of PInt _ \<Rightarrow> 1 | PFloat _ \<Rightarrow> 0) + (case b of PInt _ \<Rightarrow> 1 | PFloat _ \<Rightarrow> 0))"
    by (cases b) (simp_all add: num_sub_def num_half_def)
qed simp

declare add_descend.simps [simp del]

text \<open>The new leaf and a subtree below a new node, in the place of the subtree.\<close>

definition mt_insert :: "crypto \<Rightarrow> nat \<Rightarrow> nat \<Rightarrow> nat \<Rightarrow> (MerkleTree, unit) io" where
  "mt_insert cr depth new_leaf cur_root t =
     (let parent = nd_parent (mt_store t ! cur_root) in
      io_bind (on_store (alloc (Node (Some cur_root) (Some new_leaf) parent None))) (\<lambda>new_node.
      io_bind (case parent of
          None \<Rightarrow> (\<lambda>t. (Inr (), t\<lparr>mt_depth := Some (depth + 1), mt_root_node := Some new_node\<rparr>))
        | Some p \<Rightarrow>
            (\<lambda>t. if nd_right (mt_store t ! p) \<noteq> Some cur_root then (Inl AssertionErr, t)
                 else on_store (update_node p (nd_right_update (\<lambda>_. Some new_node))) t)) (\<lambda>_.
      io_bind (on_store (update_node cur_root (nd_parent_update (\<lambda>_. Some new_node)))) (\<lambda>_.
      io_bind (on_store (update_node new_leaf (nd_parent_update (\<lambda>_. Some new_node)))) (\<lambda>_.
      on_store (fix_up cr (Some new_node)))))) t)"

text \<open>The new leaf is in the list of leaves before the search for its place.\<close>

definition mt_add :: "crypto \<Rightarrow> bytes \<Rightarrow> (MerkleTree, unit) io" where
  "mt_add cr x =
     (if length x \<noteq> 32 then io_fail (ValueErr ''Inserted elements must be exactly 32 bytes long'')
      else
        io_bind (on_store (alloc (Node None None None (Some x)))) (\<lambda>new_leaf.
        io_bind (\<lambda>t. (Inr (), t\<lparr>mt_leaves := mt_leaves t @ [new_leaf]\<rparr>)) (\<lambda>_ t.
        if length (mt_leaves t) = 1 then (Inr (), t\<lparr>mt_root_node := Some new_leaf, mt_depth := Some 0\<rparr>)
        else
          (case (mt_depth t, mt_root_node t) of
             (Some depth, Some root_node) \<Rightarrow>
               (let ltree_size = (if depth = 0 then 0 else 2 ^ (depth - 1)) in
                io_bind (io_lift (add_descend (mt_store t) root_node (PInt (int (length (mt_leaves t)) - 1)) (PInt ltree_size)))
                  (mt_insert cr depth new_leaf) t)
           | _ \<Rightarrow> (Inl TypeErr, t)))))"

definition mt_set :: "crypto \<Rightarrow> nat \<Rightarrow> bytes \<Rightarrow> (MerkleTree, unit) io" where
  "mt_set cr index x t =
     (if \<not> index \<le> length (mt_leaves t) then (Inl AssertionErr, t)
      else if length x \<noteq> 32 then (Inl (ValueErr ''Inserted elements must be exactly 32 bytes long.''), t)
      else if index = length (mt_leaves t) then mt_add cr x t
      else
        io_bind (on_store (update_node (mt_leaves t ! index) (nd_value_update (\<lambda>_. Some x)))) (\<lambda>_ t.
        on_store (fix_up cr (nd_parent (mt_store t ! (mt_leaves t ! index)))) t) t)"

definition mt_get :: "MerkleTree \<Rightarrow> nat \<Rightarrow> bytes option result" where
  "mt_get t i = (if i < length (mt_leaves t) then Inr (nd_value (mt_store t ! (mt_leaves t ! i))) else Inl IndexErr)"

function leaf_index_loop :: "MerkleTree \<Rightarrow> bytes \<Rightarrow> nat \<Rightarrow> nat result" where
  "leaf_index_loop t x idx =
     (if idx < mt_length t then
        if nd_value (mt_store t ! (mt_leaves t ! idx)) = Some x then Inr idx else leaf_index_loop t x (idx + 1)
      else Inl (ValueErr ''Leaf not found''))"
  by pat_completeness auto
termination by (relation "measure (\<lambda>(t, x, idx). mt_length t - idx)") auto

declare leaf_index_loop.simps [simp del]

definition mt_leaf_index :: "MerkleTree \<Rightarrow> bytes \<Rightarrow> nat result" where
  "mt_leaf_index t x = leaf_index_loop t x 0"

text \<open>The values of the siblings, from the leaf to the root, with the same fuel.\<close>

fun prove_loop :: "nat \<Rightarrow> store \<Rightarrow> nat \<Rightarrow> bytes option list result" where
  "prove_loop 0 h a = (case nd_parent (h ! a) of None \<Rightarrow> Inr [] | Some _ \<Rightarrow> Inl OutOfFuel)"
| "prove_loop (Suc fuel) h a =
     (case nd_parent (h ! a) of
        None \<Rightarrow> Inr []
      | Some p \<Rightarrow>
          res_bind (sibling h a) (\<lambda>sib.
          case sib of
            None \<Rightarrow> Inl AssertionErr
          | Some s \<Rightarrow> res_bind (prove_loop fuel h p) (\<lambda>rest. Inr (nd_value (h ! s) # rest))))"

definition mt_prove_leaf :: "MerkleTree \<Rightarrow> nat \<Rightarrow> bytes option list result" where
  "mt_prove_leaf t index =
     (if index < length (mt_leaves t) then prove_loop (length (mt_store t)) (mt_store t) (mt_leaves t ! index) else Inl IndexErr)"

definition root_of :: "crypto \<Rightarrow> bytes list \<Rightarrow> bytes result" where
  "root_of cr elements = res_bind (MerkleTree_new cr elements) (\<lambda>t. case mt_root t of None \<Rightarrow> Inl TypeErr | Some v \<Rightarrow> Inr v)"

definition get_merkleized_map_commitment :: "crypto \<Rightarrow> (bytes, bytes) dict \<Rightarrow> bytes result" where
  "get_merkleized_map_commitment cr mapping =
     (let items_sorted = sorted_items mapping;
          keys_hashes = map (\<lambda>i. element_hash cr (fst i)) items_sorted;
          values_hashes = map (\<lambda>i. element_hash cr (snd i)) items_sorted
      in res_concat [ser_compact_size (int (length mapping)), root_of cr keys_hashes, root_of cr values_hashes])"

end
