(* ===== verification/Ledger_Interpreter.thy ===== *)
theory Ledger_Interpreter
  imports Merkle PyLib
begin

text \<open>
  \<open>hwilib/devices/ledger_bitcoin/client_command.py\<close>: while a Ledger device works on a command it asks the host for
  preimages, leaves of Merkle trees and their proofs. The interpreter answers from what it was given before; what does
  not fit an answer waits in a queue that the commands share.
\<close>

section \<open>Reading requests\<close>

text \<open>\<open>int.to_bytes(n, 'big')\<close> raises when the integer does not fit.\<close>

definition to_bytes :: "nat \<Rightarrow> int \<Rightarrow> bytes result" where
  "to_bytes n i = (if 0 \<le> i \<and> i < 256 ^ n then Inr (be_bytes n (nat i)) else Inl OverflowErr)"

definition assert_empty :: "unit reader" where
  "assert_empty = rd_bind (py_read 1) (\<lambda>b.
     if b \<noteq> [] then rd_fail (ValueErr ''Byte stream was expected to be empty'') else rd_ret ())"

definition read_bytes :: "nat \<Rightarrow> bytes reader" where
  "read_bytes n = rd_bind (py_read n) (\<lambda>b. if length b < n then rd_fail (ValueErr ''Byte stream exhausted'') else rd_ret b)"

definition read_uint :: "nat \<Rightarrow> bool \<Rightarrow> nat reader" where
  "read_uint n little = rd_bind (read_bytes n) (\<lambda>b. rd_ret (if little then le_val b else be_val b))"

definition read_varint :: "nat reader" where
  "read_varint = rd_bind (read_uint 1 False) (\<lambda>prefix.
     if prefix = 253 then read_uint 2 True
     else if prefix = 254 then read_uint 4 True
     else if prefix = 255 then read_uint 8 True
     else rd_ret prefix)"

section \<open>The state\<close>

text \<open>The known preimages by their hash, the known trees by their root, the yielded values and the queue.\<close>

record interpreter =
  ci_known_preimages :: "(bytes, bytes) dict"
  ci_known_trees :: "(bytes, MerkleTree) dict"
  ci_yielded :: "bytes list"
  ci_queue :: "bytes list"

definition interpreter_new :: interpreter where
  "interpreter_new = \<lparr>ci_known_preimages = [], ci_known_trees = [], ci_yielded = [], ci_queue = []\<rparr>"

text \<open>A request is parsed before the state is touched.\<close>

definition parsed :: "bytes \<Rightarrow> 'a reader \<Rightarrow> ('a \<Rightarrow> (interpreter, bytes) io) \<Rightarrow> (interpreter, bytes) io" where
  "parsed request r f = (case fst (r (drop 1 request)) of Inl e \<Rightarrow> io_fail e | Inr x \<Rightarrow> f x)"

section \<open>Commands of the device\<close>

definition yield_execute :: "bytes \<Rightarrow> (interpreter, bytes) io" where
  "yield_execute request ci = (Inr [], ci\<lparr>ci_yielded := ci_yielded ci @ [drop 1 request]\<rparr>)"

definition get_preimage_execute :: "bytes \<Rightarrow> (interpreter, bytes) io" where
  "get_preimage_execute request =
     parsed request
       (rd_bind (read_bytes 1) (\<lambda>first.
        if first \<noteq> [0] then rd_fail (RuntimeErr ''Unsupported request: the first byte should be 0'')
        else rd_bind (read_bytes 32) (\<lambda>req_hash. rd_bind assert_empty (\<lambda>_. rd_ret req_hash))))
     (\<lambda>req_hash ci.
        case map_of (ci_known_preimages ci) req_hash of
          None \<Rightarrow> (Inl (RuntimeErr (''Requested unknown preimage for: '' @ hexlify req_hash)), ci)
        | Some known_preimage \<Rightarrow>
            io_bind (io_lift (ser_compact_size (int (length known_preimage)))) (\<lambda>preimage_len_out ci.
            let max_payload_size = 255 - length preimage_len_out - 1;
                payload_size = min max_payload_size (length known_preimage);
                ci = (if payload_size < length known_preimage
                      then ci\<lparr>ci_queue := ci_queue ci @ map (\<lambda>b. [b]) (drop payload_size known_preimage)\<rparr> else ci)
            in io_lift (res_concat [Inr preimage_len_out, to_bytes 1 (int payload_size), Inr (take payload_size known_preimage)]) ci) ci)"

text \<open>Joining a value that is missing raises \<open>TypeError\<close>.\<close>

definition present :: "bytes option \<Rightarrow> bytes result" where
  "present v = (case v of None \<Rightarrow> Inl TypeErr | Some b \<Rightarrow> Inr b)"

definition get_merkle_leaf_proof_execute :: "bytes \<Rightarrow> (interpreter, bytes) io" where
  "get_merkle_leaf_proof_execute request =
     parsed request
       (rd_bind (read_bytes 32) (\<lambda>root_hash. rd_bind read_varint (\<lambda>tree_size. rd_bind read_varint (\<lambda>leaf_index.
        rd_bind assert_empty (\<lambda>_. rd_ret (root_hash, tree_size, leaf_index))))))
     (\<lambda>(root_hash, tree_size, leaf_index) ci.
        case map_of (ci_known_trees ci) root_hash of
          None \<Rightarrow> (Inl (ValueErr (''Unknown Merkle root: '' @ hexlify root_hash @ ''.'')), ci)
        | Some mt \<Rightarrow>
            if tree_size \<le> leaf_index \<or> mt_length mt \<noteq> tree_size then (Inl (ValueErr ''Invalid index or tree size.''), ci)
            else if ci_queue ci \<noteq> [] then (Inl (RuntimeErr ''This command should not execute when the queue is not empty.''), ci)
            else
              io_bind (io_lift (res_bind (mt_prove_leaf mt leaf_index) (res_map present))) (\<lambda>siblings ci.
              let n_response_elements = min ((255 - 32 - 1 - 1) div 32) (length siblings);
                  n_leftover_elements = length siblings - n_response_elements;
                  ci = (if 0 < n_leftover_elements
                        then ci\<lparr>ci_queue := ci_queue ci @ drop (length siblings - n_leftover_elements) siblings\<rparr> else ci)
              in io_lift (res_concat ([res_bind (mt_get mt leaf_index) present, to_bytes 1 (int (length siblings)),
                   to_bytes 1 (int n_response_elements)] @ map Inr (take n_response_elements siblings))) ci) ci)"

definition get_merkle_leaf_index_execute :: "bytes \<Rightarrow> (interpreter, bytes) io" where
  "get_merkle_leaf_index_execute request =
     parsed request
       (rd_bind (read_bytes 32) (\<lambda>root_hash. rd_bind (read_bytes 32) (\<lambda>leaf_hash. rd_bind assert_empty (\<lambda>_. rd_ret (root_hash, leaf_hash)))))
     (\<lambda>(root_hash, leaf_hash) ci.
        case map_of (ci_known_trees ci) root_hash of
          None \<Rightarrow> (Inl (ValueErr (''Unknown Merkle root: '' @ hexlify root_hash @ ''.'')), ci)
        | Some mt \<Rightarrow>
            (case (case mt_leaf_index mt leaf_hash of Inr i \<Rightarrow> Inr (i, 1) | Inl (ValueErr msg) \<Rightarrow> Inr (0, 0) | Inl e \<Rightarrow> Inl e) of
               Inl e \<Rightarrow> (Inl e, ci)
             | Inr (leaf_index, found) \<Rightarrow> (res_concat [to_bytes 1 found, ser_compact_size (int leaf_index)], ci)))"

text \<open>Elements are taken from the front of the queue as long as the answer has at most 253 bytes of them.\<close>

fun more_loop :: "nat \<Rightarrow> bytes list \<Rightarrow> bytes \<Rightarrow> nat \<Rightarrow> bytes list \<times> bytes \<times> nat" where
  "more_loop element_len [] response n = ([], response, n)"
| "more_loop element_len (el # queue) response n =
     (if length response + element_len \<le> 253 then more_loop element_len queue (response @ el) (n + 1)
      else (el # queue, response, n))"

definition get_more_elements_execute :: "bytes \<Rightarrow> (interpreter, bytes) io" where
  "get_more_elements_execute request ci =
     (if length request \<noteq> 1 then (Inl (ValueErr ''Wrong request length.''), ci)
      else
        (case ci_queue ci of
           [] \<Rightarrow> (Inl (ValueErr ''No elements to get.''), ci)
         | el # queue \<Rightarrow>
             let element_len = length el in
             if \<exists>el\<in>set (ci_queue ci). length el \<noteq> element_len
             then (Inl (ValueErr ''The queue contains elements of different byte length, which is not expected.''), ci)
             else
               (case more_loop element_len (ci_queue ci) [] 0 of
                  (queue, response_elements, n_added_elements) \<Rightarrow>
                    (res_concat [to_bytes 1 (int n_added_elements), to_bytes 1 (int element_len), Inr response_elements],
                     ci\<lparr>ci_queue := queue\<rparr>))))"

definition YIELD :: byte where "YIELD = 0x10"

definition GET_PREIMAGE :: byte where "GET_PREIMAGE = 0x40"

definition GET_MERKLE_LEAF_PROOF :: byte where "GET_MERKLE_LEAF_PROOF = 0x41"

definition GET_MERKLE_LEAF_INDEX :: byte where "GET_MERKLE_LEAF_INDEX = 0x42"

definition GET_MORE_ELEMENTS :: byte where "GET_MORE_ELEMENTS = 0xA0"

lemmas command_codes = YIELD_def GET_PREIMAGE_def GET_MERKLE_LEAF_PROOF_def GET_MERKLE_LEAF_INDEX_def GET_MORE_ELEMENTS_def

definition interpreter_execute :: "bytes \<Rightarrow> (interpreter, bytes) io" where
  "interpreter_execute hw_response =
     (case hw_response of
        [] \<Rightarrow> io_fail (RuntimeErr ''Unexpected empty SW_INTERRUPTED_EXECUTION response from hardware wallet.'')
      | cmd_code # _ \<Rightarrow>
          if cmd_code = YIELD then yield_execute hw_response
          else if cmd_code = GET_PREIMAGE then get_preimage_execute hw_response
          else if cmd_code = GET_MERKLE_LEAF_INDEX then get_merkle_leaf_index_execute hw_response
          else if cmd_code = GET_MERKLE_LEAF_PROOF then get_merkle_leaf_proof_execute hw_response
          else if cmd_code = GET_MORE_ELEMENTS then get_more_elements_execute hw_response
          else io_fail (RuntimeErr (''Unexpected command code: 0x'' @ map upper_char (hexlify [cmd_code]))))"

section \<open>What is known\<close>

definition add_known_preimage :: "crypto \<Rightarrow> bytes \<Rightarrow> interpreter \<Rightarrow> interpreter" where
  "add_known_preimage cr element ci =
     ci\<lparr>ci_known_preimages := AList.update (sha256 cr element) element (ci_known_preimages ci)\<rparr>"

text \<open>The root of a tree is always a value.\<close>

definition add_known_list :: "crypto \<Rightarrow> bytes list \<Rightarrow> (interpreter, unit) io" where
  "add_known_list cr elements ci =
     (let ci = foldl (\<lambda>ci el. add_known_preimage cr ([0] @ el) ci) ci elements in
      case MerkleTree_new cr (map (element_hash cr) elements) of
        Inl e \<Rightarrow> (Inl e, ci)
      | Inr mt \<Rightarrow>
          (case mt_root mt of
             None \<Rightarrow> (Inl TypeErr, ci)
           | Some top_hash \<Rightarrow> (Inr (), ci\<lparr>ci_known_trees := AList.update top_hash mt (ci_known_trees ci)\<rparr>)))"

definition add_known_mapping :: "crypto \<Rightarrow> (bytes, bytes) dict \<Rightarrow> (interpreter, unit) io" where
  "add_known_mapping cr mapping =
     (let items_sorted = sorted_items mapping in
      io_bind (add_known_list cr (map fst items_sorted)) (\<lambda>_. add_known_list cr (map snd items_sorted)))"

end
