(* ===== verification/Merkle_Nodes.thy ===== *)
theory Merkle_Nodes
  imports Merkle
begin

text \<open>
  The trees of \<open>merkle.py\<close> as what they stand for: a list of hashes, with the root and the proofs computed from it.
  Trees of nodes in the store, with a hole where an operation works, relate the two.
\<close>

section \<open>Specification\<close>

definition split_size :: "nat \<Rightarrow> nat" where
  "split_size n = (case largest_power_of_2_less_than n of Inl e \<Rightarrow> 0 | Inr p \<Rightarrow> p)"

lemma split_size_bounds: "1 < n \<Longrightarrow> 0 < split_size n \<and> split_size n < n"
  using largest_power_bounds [of n] by (auto simp: split_size_def)

lemma split_size_power: "1 < n \<Longrightarrow> \<exists>k. split_size n = 2 ^ k \<and> 2 ^ k < n \<and> n \<le> 2 * 2 ^ k"
  using largest_power_bounds [of n] by (auto simp: split_size_def)

lemma largest_power_split: "1 < n \<Longrightarrow> largest_power_of_2_less_than n = Inr (split_size n)"
  using largest_power_bounds [of n] by (auto simp: split_size_def)

definition parent_hash :: "crypto \<Rightarrow> bytes \<Rightarrow> bytes \<Rightarrow> bytes" where
  "parent_hash cr a b = sha256 cr ([1] @ a @ b)"

lemma length_parent_hash [simp]: "crypto_ok cr \<Longrightarrow> length (parent_hash cr a b) = 32"
  by (simp add: parent_hash_def crypto_ok_def)

text \<open>The root of the left-complete tree over a list: the left part has the largest power of two below the size.\<close>

function merkle_root :: "crypto \<Rightarrow> bytes list \<Rightarrow> bytes" where
  "merkle_root cr xs =
     (if xs = [] then NIL
      else if length xs = 1 then hd xs
      else parent_hash cr (merkle_root cr (take (split_size (length xs)) xs)) (merkle_root cr (drop (split_size (length xs)) xs)))"
  by pat_completeness auto
termination
proof (relation "measure (\<lambda>(cr, xs). length xs)")
  fix cr and xs :: "bytes list" assume "xs \<noteq> []" "length xs \<noteq> 1"
  then have "1 < length xs" by (cases xs) auto
  from split_size_bounds [OF this]
  show "((cr, take (split_size (length xs)) xs), cr, xs) \<in> measure (\<lambda>(cr, xs). length xs)"
    and "((cr, drop (split_size (length xs)) xs), cr, xs) \<in> measure (\<lambda>(cr, xs). length xs)" by auto
qed simp

declare merkle_root.simps [simp del]

lemma merkle_root_small [simp]: "merkle_root cr [] = NIL" "merkle_root cr [x] = x"
  by (simp_all add: merkle_root.simps)

lemma merkle_root_append:
  "xs \<noteq> [] \<Longrightarrow> ys \<noteq> [] \<Longrightarrow> split_size (length xs + length ys) = length xs
   \<Longrightarrow> merkle_root cr (xs @ ys) = parent_hash cr (merkle_root cr xs) (merkle_root cr ys)"
  by (subst merkle_root.simps) (cases xs; cases ys; simp)

text \<open>What a proof shows: the root reached from a leaf at a position, with the siblings from the leaf upwards.\<close>

function proof_root :: "crypto \<Rightarrow> nat \<Rightarrow> nat \<Rightarrow> bytes \<Rightarrow> bytes list \<Rightarrow> bytes option" where
  "proof_root cr n i x siblings =
     (if n \<le> 1 then if siblings = [] then Some x else None
      else if siblings = [] then None
      else if i < split_size n
      then map_option (\<lambda>v. parent_hash cr v (last siblings)) (proof_root cr (split_size n) i x (butlast siblings))
      else map_option (\<lambda>v. parent_hash cr (last siblings) v)
        (proof_root cr (n - split_size n) (i - split_size n) x (butlast siblings)))"
  by pat_completeness auto
termination by (relation "measure (\<lambda>(cr, n, i, x, siblings). n)") (use split_size_bounds in \<open>auto simp: not_le\<close>)

declare proof_root.simps [simp del]

section \<open>Trees of nodes\<close>

datatype mtree = Tip nat bytes | Join nat mtree mtree

fun tr_ref :: "mtree \<Rightarrow> nat" where
  "tr_ref (Tip a v) = a"
| "tr_ref (Join a l r) = a"

fun tr_refs :: "mtree \<Rightarrow> nat list" where
  "tr_refs (Tip a v) = [a]"
| "tr_refs (Join a l r) = a # tr_refs l @ tr_refs r"

fun tr_leaves :: "mtree \<Rightarrow> (nat \<times> bytes) list" where
  "tr_leaves (Tip a v) = [(a, v)]"
| "tr_leaves (Join a l r) = tr_leaves l @ tr_leaves r"

abbreviation tr_values :: "mtree \<Rightarrow> bytes list" where
  "tr_values t \<equiv> map snd (tr_leaves t)"

abbreviation tr_count :: "mtree \<Rightarrow> nat" where
  "tr_count t \<equiv> length (tr_leaves t)"

fun tr_hash :: "crypto \<Rightarrow> mtree \<Rightarrow> bytes" where
  "tr_hash cr (Tip a v) = v"
| "tr_hash cr (Join a l r) = parent_hash cr (tr_hash cr l) (tr_hash cr r)"

fun left_complete :: "mtree \<Rightarrow> bool" where
  "left_complete (Tip a v) = True"
| "left_complete (Join a l r) \<longleftrightarrow>
     split_size (tr_count l + tr_count r) = tr_count l \<and> left_complete l \<and> left_complete r"

lemma tr_leaves_ne [simp]: "tr_leaves t \<noteq> []"
  by (induction t) auto

lemma tr_ref_in [simp]: "tr_ref t \<in> set (tr_refs t)"
  by (cases t) auto

lemma tr_leaves_refs: "(a, v) \<in> set (tr_leaves t) \<Longrightarrow> a \<in> set (tr_refs t)"
  by (induction t) auto

lemma tr_hash_root: "left_complete t \<Longrightarrow> tr_hash cr t = merkle_root cr (tr_values t)"
  by (induction t) (simp_all add: merkle_root_append)

definition hashes_ok :: "mtree \<Rightarrow> bool" where
  "hashes_ok t \<longleftrightarrow> (\<forall>v\<in>set (tr_values t). length v = 32)"

lemma hashes_ok_simps [simp]:
  "hashes_ok (Tip a v) \<longleftrightarrow> length v = 32" "hashes_ok (Join a l r) \<longleftrightarrow> hashes_ok l \<and> hashes_ok r"
  by (auto simp: hashes_ok_def)

lemma length_tr_hash [simp]: "crypto_ok cr \<Longrightarrow> hashes_ok t \<Longrightarrow> length (tr_hash cr t) = 32"
  by (induction t) auto

text \<open>The nodes of the store that make up a tree below a parent.\<close>

fun linked :: "crypto \<Rightarrow> store \<Rightarrow> nat option \<Rightarrow> mtree \<Rightarrow> bool" where
  "linked cr h p (Tip a v) \<longleftrightarrow> a < length h \<and> h ! a = Node None None p (Some v)"
| "linked cr h p (Join a l r) \<longleftrightarrow> a < length h
     \<and> h ! a = Node (Some (tr_ref l)) (Some (tr_ref r)) p (Some (tr_hash cr (Join a l r)))
     \<and> linked cr h (Some a) l \<and> linked cr h (Some a) r"

lemma node_sel [simp]:
  "nd_left (Node l r p v) = l" "nd_right (Node l r p v) = r" "nd_parent (Node l r p v) = p" "nd_value (Node l r p v) = v"
  "nd_left_update f (Node l r p v) = Node (f l) r p v" "nd_right_update f (Node l r p v) = Node l (f r) p v"
  "nd_parent_update f (Node l r p v) = Node l r (f p) v" "nd_value_update g (Node l r p v) = Node l r p (g v)"
  by (simp_all add: Node_def)

lemma Node_inject [simp]: "Node l r p v = Node l' r' p' v' \<longleftrightarrow> l = l' \<and> r = r' \<and> p = p' \<and> v = v'"
  by (simp add: Node_def)

lemma linked_value: "linked cr h p t \<Longrightarrow> nd_value (h ! tr_ref t) = Some (tr_hash cr t) \<and> nd_parent (h ! tr_ref t) = p \<and> tr_ref t < length h"
  by (cases t) auto

lemma linked_refs: "linked cr h p t \<Longrightarrow> a \<in> set (tr_refs t) \<Longrightarrow> a < length h"
  by (induction t arbitrary: p) auto

lemma linked_frame:
  "linked cr h p t \<Longrightarrow> (\<And>a. a \<in> set (tr_refs t) \<Longrightarrow> a < length h' \<and> h' ! a = h ! a) \<Longrightarrow> linked cr h' p t"
  by (induction t arbitrary: p) auto

lemma linked_other [simp]: "linked cr h p t \<Longrightarrow> a \<notin> set (tr_refs t) \<Longrightarrow> linked cr (h[a := n]) p t"
  by (rule linked_frame [of cr h], assumption) (metis length_list_update linked_refs nth_list_update_neq)

lemma linked_alloc [simp]: "linked cr h p t \<Longrightarrow> linked cr (h @ ns) p t"
  by (rule linked_frame [of cr h]) (auto dest: linked_refs simp: nth_append)

text \<open>Only the parent of its root ties a tree to what is above it.\<close>

lemma linked_reparent:
  assumes "linked cr h p t" and "distinct (tr_refs t)"
  shows "linked cr (h[tr_ref t := nd_parent_update (\<lambda>_. q) (h ! tr_ref t)]) q t"
proof (cases t)
  case (Join a l r)
  with assms show ?thesis by auto
qed (use assms in simp)

section \<open>Building\<close>

lemma recompute_linked:
  assumes "crypto_ok cr" and "h ! a = Node (Some (tr_ref l)) (Some (tr_ref r)) p v" and "a < length h"
    and "linked cr h q l" and "linked cr h q' r" and "hashes_ok l" and "hashes_ok r"
  shows "recompute_value cr a h = (Inr (), h[a := Node (Some (tr_ref l)) (Some (tr_ref r)) p (Some (tr_hash cr (Join a l r)))])"
  using assms linked_value [OF assms(4)] linked_value [OF assms(5)]
  by (simp add: recompute_value_def combine_hashes_def io_bind_def update_node_def parent_hash_def)

text \<open>The leaves of a part of a list of references.\<close>

definition fresh_leaves :: "store \<Rightarrow> (nat \<times> bytes) list \<Rightarrow> bool" where
  "fresh_leaves h ps \<longleftrightarrow> distinct (map fst ps)
     \<and> (\<forall>(a, v)\<in>set ps. a < length h \<and> h ! a = Node None None None (Some v) \<and> length v = 32)"

lemma fresh_leaves_append: "fresh_leaves h (ps @ qs) \<Longrightarrow> fresh_leaves h ps \<and> fresh_leaves h qs"
  by (auto simp: fresh_leaves_def)

lemma fresh_leaves_frame:
  assumes "fresh_leaves h ps" and "\<And>a. a \<in> fst ` set ps \<Longrightarrow> a < length h' \<and> h' ! a = h ! a"
  shows "fresh_leaves h' ps"
  unfolding fresh_leaves_def
proof (intro conjI ballI)
  fix q assume q: "q \<in> set ps"
  then have "fst q < length h' \<and> h' ! fst q = h ! fst q" using assms(2) by blast
  then show "case q of (a, v) \<Rightarrow> a < length h' \<and> h' ! a = Node None None None (Some v) \<and> length v = 32"
    using assms(1) q by (auto simp: fresh_leaves_def)
qed (use assms(1) in \<open>simp add: fresh_leaves_def\<close>)

text \<open>The new node over two trees.\<close>

lemma join_nodes:
  assumes cr: "crypto_ok cr" "hashes_ok l" "hashes_ok r"
    and l: "linked cr h None l" and r: "linked cr h None r" and d: "distinct (tr_refs l @ tr_refs r)"
  shows "\<exists>h'. io_bind (alloc (Node (Some (tr_ref l)) (Some (tr_ref r)) None None)) (\<lambda>root.
             io_bind (recompute_value cr root) (\<lambda>_.
             io_bind (update_node (the (Some (tr_ref l))) (nd_parent_update (\<lambda>_. Some root))) (\<lambda>_.
             io_bind (update_node (the (Some (tr_ref r))) (nd_parent_update (\<lambda>_. Some root))) (\<lambda>_.
             io_ret (Some root))))) h = (Inr (Some (length h)), h')
    \<and> linked cr h' None (Join (length h) l r) \<and> length h' = Suc (length h)
    \<and> (\<forall>a<length h. a \<noteq> tr_ref l \<longrightarrow> a \<noteq> tr_ref r \<longrightarrow> h' ! a = h ! a)"
proof -
  let ?p = "length h"
  let ?h2 = "h @ [Node (Some (tr_ref l)) (Some (tr_ref r)) None (Some (tr_hash cr (Join ?p l r)))]"
  let ?h3 = "?h2[tr_ref l := nd_parent_update (\<lambda>_. Some ?p) (?h2 ! tr_ref l)]"
  let ?h4 = "?h3[tr_ref r := nd_parent_update (\<lambda>_. Some ?p) (?h3 ! tr_ref r)]"
  have new: "?p \<notin> set (tr_refs l)" "?p \<notin> set (tr_refs r)" using linked_refs [OF l] linked_refs [OF r] by blast+
  have apart: "tr_ref r \<notin> set (tr_refs l)" "tr_ref l \<notin> set (tr_refs r)" using d tr_ref_in [of l] tr_ref_in [of r] by (auto simp del: tr_ref_in)
  have "recompute_value cr ?p (h @ [Node (Some (tr_ref l)) (Some (tr_ref r)) None None]) = (Inr (), ?h2)"
    by (subst recompute_linked [OF cr(1) _ _ linked_alloc [OF l] linked_alloc [OF r] cr(2, 3)]) auto
  then have run: "io_bind (alloc (Node (Some (tr_ref l)) (Some (tr_ref r)) None None)) (\<lambda>root.
             io_bind (recompute_value cr root) (\<lambda>_.
             io_bind (update_node (the (Some (tr_ref l))) (nd_parent_update (\<lambda>_. Some root))) (\<lambda>_.
             io_bind (update_node (the (Some (tr_ref r))) (nd_parent_update (\<lambda>_. Some root))) (\<lambda>_.
             io_ret (Some root))))) h = (Inr (Some ?p), ?h4)"
    by (simp add: io_bind_def alloc_def update_node_def)
  have "linked cr ?h3 (Some ?p) l" "linked cr ?h3 None r"
    using linked_reparent [of cr ?h2 None l] l r d apart by auto
  then have "linked cr ?h4 (Some ?p) l" "linked cr ?h4 (Some ?p) r"
    using linked_reparent [of cr ?h3 None r] d apart by auto
  moreover have "?h4 ! ?p = ?h2 ! ?p" using new tr_ref_in [of l] tr_ref_in [of r] by (metis nth_list_update_neq)
  moreover have "\<forall>a<?p. a \<noteq> tr_ref l \<longrightarrow> a \<noteq> tr_ref r \<longrightarrow> ?h4 ! a = h ! a" by (simp add: nth_append)
  ultimately show ?thesis using run by (intro exI [of _ ?h4]) auto
qed

definition built :: "crypto \<Rightarrow> store \<Rightarrow> (nat \<times> bytes) list \<Rightarrow> nat option result \<times> store \<Rightarrow> bool" where
  "built cr h ps outcome \<longleftrightarrow> (\<exists>t h'. outcome = (Inr (Some (tr_ref t)), h') \<and> linked cr h' None t \<and> tr_leaves t = ps
     \<and> left_complete t \<and> distinct (tr_refs t) \<and> length h \<le> length h'
     \<and> set (tr_refs t) \<subseteq> fst ` set ps \<union> {length h..<length h'}
     \<and> (\<forall>a<length h. a \<notin> fst ` set ps \<longrightarrow> h' ! a = h ! a))"

lemma make_tree_built:
  assumes cr: "crypto_ok cr"
  shows "0 < n \<Longrightarrow> fresh_leaves h (take n (drop pos ps)) \<Longrightarrow> pos + n \<le> length ps
    \<Longrightarrow> built cr h (take n (drop pos ps)) (make_tree cr (map fst ps) pos n h)"
proof (induction n arbitrary: pos h rule: less_induct)
  case (less n)
  show ?case
  proof (cases "n = 1")
    case True
    have "take n (drop pos ps) = [ps ! pos]" using less.prems True by (simp add: take_Suc_conv_app_nth hd_drop_conv_nth take_Suc)
    moreover obtain a v where "ps ! pos = (a, v)" by (cases "ps ! pos")
    ultimately show ?thesis using less.prems True
      by (auto simp: built_def make_tree.simps fresh_leaves_def intro!: exI [of _ "Tip a v"])
  next
    case False
    let ?k = "split_size n" and ?b = "pos + split_size n" and ?m = "n - split_size n"
    have n: "1 < n" using False less.prems(1) by simp
    have k: "0 < ?k" "?k < n" using split_size_bounds [OF n] by auto
    let ?ps = "take ?k (drop pos ps)" and ?qs = "take ?m (drop ?b ps)"
    have split: "take n (drop pos ps) = ?ps @ ?qs"
      using k take_add [of ?k ?m "drop pos ps"] by (simp add: add.commute)
    then have fresh: "fresh_leaves h ?ps" "fresh_leaves h ?qs" "fst ` set ?ps \<inter> fst ` set ?qs = {}"
      using less.prems(2) fresh_leaves_append [of h ?ps ?qs] by (auto simp: fresh_leaves_def)
    have sizes: "length ?ps = ?k" "length ?qs = ?m" using less.prems(3) k by auto
    have "built cr h ?ps (make_tree cr (map fst ps) pos ?k h)" using less.IH [of ?k h pos] k fresh(1) less.prems(3) by simp
    then obtain l h1 where l: "make_tree cr (map fst ps) pos ?k h = (Inr (Some (tr_ref l)), h1)" "linked cr h1 None l"
      "tr_leaves l = ?ps" "left_complete l" "distinct (tr_refs l)" "length h \<le> length h1"
      "set (tr_refs l) \<subseteq> fst ` set ?ps \<union> {length h..<length h1}" "\<forall>a<length h. a \<notin> fst ` set ?ps \<longrightarrow> h1 ! a = h ! a"
      unfolding built_def by blast
    have low: "a < length h" if "a \<in> fst ` set ?qs" for a using that fresh(2) by (auto simp: fresh_leaves_def)
    have "fresh_leaves h1 ?qs"
      by (rule fresh_leaves_frame [OF fresh(2)]) (use low l(6, 8) fresh(3) in force)
    then have "built cr h1 ?qs (make_tree cr (map fst ps) ?b ?m h1)" using less.IH [of ?m h1 ?b] k less.prems(3) by simp
    then obtain r h2 where r: "make_tree cr (map fst ps) ?b ?m h1 = (Inr (Some (tr_ref r)), h2)" "linked cr h2 None r"
      "tr_leaves r = ?qs" "left_complete r" "distinct (tr_refs r)" "length h1 \<le> length h2"
      "set (tr_refs r) \<subseteq> fst ` set ?qs \<union> {length h1..<length h2}" "\<forall>a<length h1. a \<notin> fst ` set ?qs \<longrightarrow> h2 ! a = h1 ! a"
      unfolding built_def by blast
    have apart: "a \<notin> fst ` set ?qs \<and> a < length h1" if "a \<in> set (tr_refs l)" for a
    proof -
      from that have "a < length h1" "a \<in> fst ` set ?ps \<or> length h \<le> a" using l(7) linked_refs [OF l(2)] by auto
      then show ?thesis using low [of a] fresh(3) by (meson disjoint_iff not_less)
    qed
    have l2: "linked cr h2 None l"
      by (rule linked_frame [OF l(2)]) (use apart r(6, 8) in force)
    have d: "distinct (tr_refs l @ tr_refs r)" using l(5) r(5, 7) apart by force
    have ok: "hashes_ok l" "hashes_ok r" using l(3) r(3) fresh(1, 2) by (auto simp: hashes_ok_def fresh_leaves_def)
    obtain h3 where h3: "io_bind (alloc (Node (Some (tr_ref l)) (Some (tr_ref r)) None None)) (\<lambda>root.
             io_bind (recompute_value cr root) (\<lambda>_.
             io_bind (update_node (the (Some (tr_ref l))) (nd_parent_update (\<lambda>_. Some root))) (\<lambda>_.
             io_bind (update_node (the (Some (tr_ref r))) (nd_parent_update (\<lambda>_. Some root))) (\<lambda>_.
             io_ret (Some root))))) h2 = (Inr (Some (length h2)), h3)"
      "linked cr h3 None (Join (length h2) l r)" "length h3 = Suc (length h2)"
      "\<forall>a<length h2. a \<noteq> tr_ref l \<longrightarrow> a \<noteq> tr_ref r \<longrightarrow> h3 ! a = h2 ! a"
      using join_nodes [OF cr ok l2 r(2) d] by blast
    have "make_tree cr (map fst ps) pos n h = (Inr (Some (length h2)), h3)"
    proof -
      have "io_bind (make_tree cr (map fst ps) pos ?k) f h = f (Some (tr_ref l)) h1"
        and "io_bind (make_tree cr (map fst ps) ?b ?m) f h1 = f (Some (tr_ref r)) h2" for f :: "nat option \<Rightarrow> (store, nat option) io"
        using l(1) r(1) by (simp_all add: io_bind_def)
      then show ?thesis using n k h3(1) by (simp add: make_tree.simps [of cr _ _ n] largest_power_split [OF n])
    qed
    moreover have "left_complete (Join (length h2) l r)" using l(3, 4) r(3, 4) sizes k by simp
    moreover have "distinct (tr_refs (Join (length h2) l r))" using d linked_refs [OF l2] linked_refs [OF r(2)] by auto
    moreover have "set (tr_refs (Join (length h2) l r)) \<subseteq> fst ` set (?ps @ ?qs) \<union> {length h..<length h3}"
      using l(6, 7) r(6, 7) h3(3) by force
    moreover have "\<forall>a<length h. a \<notin> fst ` set (?ps @ ?qs) \<longrightarrow> h3 ! a = h ! a"
    proof (intro allI impI)
      fix a assume a: "a < length h" "a \<notin> fst ` set (?ps @ ?qs)"
      then have "a \<notin> fst ` set ?ps" "a \<notin> fst ` set ?qs" "a < length h1" "a < length h2" using l(6) r(6) by auto
      moreover from this a(1) have "a \<noteq> tr_ref l" "a \<noteq> tr_ref r"
        using l(7) r(7) tr_ref_in [of l] tr_ref_in [of r] by (auto simp del: tr_ref_in)
      ultimately show "h3 ! a = h ! a" using a(1) l(8) r(8) h3(4) by simp
    qed
    ultimately show ?thesis using h3(2, 3) l(3, 6) r(3, 6) unfolding built_def split
      by (intro exI [of _ "Join (length h2) l r"] exI [of _ h3]) auto
  qed
qed

section \<open>A tree with a hole\<close>

text \<open>
  What is above a node, from its parent to the root: whether the node is the left child, the reference of the parent,
  and the other child.
\<close>

type_synonym crumbs = "(bool \<times> nat \<times> mtree) list"

fun plug :: "mtree \<Rightarrow> crumbs \<Rightarrow> mtree" where
  "plug t [] = t"
| "plug t ((is_left, p, s) # c) = plug (if is_left then Join p t s else Join p s t) c"

definition up_ref :: "crumbs \<Rightarrow> nat option" where
  "up_ref c = (case c of [] \<Rightarrow> None | (is_left, p, s) # c \<Rightarrow> Some p)"

lemma up_ref_simps [simp]: "up_ref [] = None" "up_ref ((is_left, p, s) # c) = Some p"
  by (simp_all add: up_ref_def)

text \<open>The references above a node are right, whatever the values of its ancestors.\<close>

fun linked_up :: "crypto \<Rightarrow> store \<Rightarrow> nat \<Rightarrow> crumbs \<Rightarrow> bool" where
  "linked_up cr h a [] = True"
| "linked_up cr h a ((is_left, p, s) # c) \<longleftrightarrow> p < length h
     \<and> (\<exists>v. h ! p = Node (Some (if is_left then a else tr_ref s)) (Some (if is_left then tr_ref s else a)) (up_ref c) v)
     \<and> linked cr h (Some p) s \<and> linked_up cr h p c"

lemma plug_append: "plug t (c @ d) = plug (plug t c) d"
  by (induction t c rule: plug.induct) auto

lemma tr_ref_plug: "tr_ref t = tr_ref t' \<Longrightarrow> tr_ref (plug t c) = tr_ref (plug t' c)"
proof (induction c arbitrary: t t')
  case (Cons x c)
  obtain is_left p s where "x = (is_left, p, s)" by (cases x)
  then show ?case using Cons.IH [of "if is_left then Join p t s else Join p s t" "if is_left then Join p t' s else Join p s t'"] by simp
qed simp

fun above_refs :: "crumbs \<Rightarrow> nat list" where
  "above_refs [] = []"
| "above_refs ((is_left, p, s) # c) = p # tr_refs s @ above_refs c"

lemma refs_plug: "mset (tr_refs (plug t c)) = mset (tr_refs t) + mset (above_refs c)"
  by (induction t c rule: plug.induct) auto

lemma set_refs_plug [simp]: "set (tr_refs (plug t c)) = set (tr_refs t) \<union> set (above_refs c)"
  using arg_cong [OF refs_plug [of t c], of set_mset] by simp

lemma distinct_refs_plug [simp]:
  "distinct (tr_refs (plug t c)) \<longleftrightarrow> distinct (tr_refs t) \<and> distinct (above_refs c) \<and> set (tr_refs t) \<inter> set (above_refs c) = {}"
  using mset_eq_imp_distinct_iff [of "tr_refs (plug t c)" "tr_refs t @ above_refs c"] refs_plug [of t c] by auto

lemma hashes_ok_plug [simp]: "hashes_ok (plug t c) \<longleftrightarrow> hashes_ok t \<and> (\<forall>(is_left, p, s)\<in>set c. hashes_ok s)"
  by (induction t c rule: plug.induct) auto

lemma linked_plug: "linked cr h None (plug t c) \<Longrightarrow> linked cr h (up_ref c) t \<and> linked_up cr h (tr_ref t) c"
proof (induction t c rule: plug.induct)
  case (2 t is_left p s c)
  then show ?case by (cases is_left) auto
qed simp

lemma linked_up_frame:
  "linked_up cr h a c \<Longrightarrow> (\<And>b. b \<in> set (above_refs c) \<Longrightarrow> b < length h' \<and> h' ! b = h ! b) \<Longrightarrow> linked_up cr h' a c"
  by (induction c arbitrary: a rule: above_refs.induct) (auto intro: linked_frame)

lemma linked_up_refs: "linked_up cr h a c \<Longrightarrow> b \<in> set (above_refs c) \<Longrightarrow> b < length h"
  by (induction c arbitrary: a rule: above_refs.induct) (auto dest: linked_refs)

lemma linked_up_other [simp]: "linked_up cr h a c \<Longrightarrow> b \<notin> set (above_refs c) \<Longrightarrow> linked_up cr (h[b := n]) a c"
  by (rule linked_up_frame [of cr h], assumption) (metis length_list_update linked_up_refs nth_list_update_neq)

lemma linked_up_alloc [simp]: "linked_up cr h a c \<Longrightarrow> linked_up cr (h @ ns) a c"
  by (rule linked_up_frame [of cr h], assumption) (auto dest: linked_up_refs simp: nth_append)

text \<open>What \<open>fix_up\<close> does above a tree whose values are right.\<close>

lemma fix_up_loop_links:
  assumes "crypto_ok cr"
  shows "linked cr h (up_ref c) t \<Longrightarrow> linked_up cr h (tr_ref t) c \<Longrightarrow> distinct (tr_refs (plug t c)) \<Longrightarrow> hashes_ok (plug t c)
    \<Longrightarrow> length c \<le> fuel \<Longrightarrow> \<exists>h'. fix_up_loop cr fuel (up_ref c) h = (Inr (), h') \<and> linked cr h' None (plug t c) \<and> length h' = length h"
proof (induction c arbitrary: t h fuel)
  case Nil
  then show ?case by (cases fuel) auto
next
  case (Cons x c)
  obtain is_left p s where x: "x = (is_left, p, s)" by (cases x)
  let ?t = "if is_left then Join p t s else Join p s t"
  let ?h = "h[p := Node (Some (if is_left then tr_ref t else tr_ref s)) (Some (if is_left then tr_ref s else tr_ref t)) (up_ref c) (Some (tr_hash cr ?t))]"
  have t: "linked cr h (Some p) t" "linked cr h (Some p) s" "p < length h" "linked_up cr h p c" "hashes_ok t" "hashes_ok s"
    using Cons.prems x by (cases is_left; auto)+
  obtain v where v: "h ! p = Node (Some (if is_left then tr_ref t else tr_ref s)) (Some (if is_left then tr_ref s else tr_ref t)) (up_ref c) v"
    using Cons.prems(2) x by auto
  obtain f where f: "fuel = Suc f" "length c \<le> f" using Cons.prems(5) by (cases fuel) auto
  have run: "recompute_value cr p h = (Inr (), ?h)"
  proof (cases is_left)
    case True
    then show ?thesis using recompute_linked [OF assms, of h p t s "up_ref c" v "Some p" "Some p"] v t by simp
  next
    case False
    then show ?thesis using recompute_linked [OF assms, of h p s t "up_ref c" v "Some p" "Some p"] v t by simp
  qed
  have apart: "p \<notin> set (tr_refs t)" "p \<notin> set (tr_refs s)" "p \<notin> set (above_refs c)" using Cons.prems(3) x by (cases is_left; auto)+
  have "linked cr ?h (up_ref c) ?t" using t apart by auto
  moreover have "linked_up cr ?h (tr_ref ?t) c" using t(4) apart(3) by simp
  ultimately obtain h' where "fix_up_loop cr f (up_ref c) ?h = (Inr (), h')" "linked cr h' None (plug ?t c)" "length h' = length ?h"
    using Cons.IH [of ?h ?t f] Cons.prems(3, 4) x f(2) by auto
  moreover have "nd_parent (?h ! p) = up_ref c" using t(3) by simp
  ultimately show ?case using run by (auto simp: x f(1) io_bind_def)
qed

text \<open>The number of nodes is fuel enough.\<close>

lemma crumbs_fuel:
  assumes "linked_up cr h a c" and "distinct (above_refs c)"
  shows "length c \<le> length h"
proof -
  have "length c \<le> length (above_refs c)" by (induction c rule: above_refs.induct) auto
  also have "\<dots> = card (set (above_refs c))" using assms(2) by (simp add: distinct_card)
  also have "\<dots> \<le> card {..<length h}" by (rule card_mono) (use linked_up_refs [OF assms(1)] in auto)
  finally show ?thesis by simp
qed

lemma fix_up_links:
  assumes "crypto_ok cr" and "linked cr h (up_ref c) t" and "linked_up cr h (tr_ref t) c"
    and "distinct (tr_refs (plug t c))" and "hashes_ok (plug t c)"
  shows "\<exists>h'. fix_up cr (up_ref c) h = (Inr (), h') \<and> linked cr h' None (plug t c)"
  using fix_up_loop_links [OF assms crumbs_fuel [OF assms(3)]] assms(4) by (auto simp: fix_up_def)

lemma prove_loop_values:
  "linked_up cr h a c \<Longrightarrow> nd_parent (h ! a) = up_ref c \<Longrightarrow> distinct (a # above_refs c) \<Longrightarrow> length c \<le> fuel
   \<Longrightarrow> prove_loop fuel h a = Inr (map (\<lambda>(is_left, p, s). Some (tr_hash cr s)) c)"
proof (induction c arbitrary: a fuel)
  case Nil
  then show ?case by (cases fuel) auto
next
  case (Cons x c)
  obtain is_left p s where x: "x = (is_left, p, s)" by (cases x)
  obtain f where f: "fuel = Suc f" "length c \<le> f" using Cons.prems(4) by (cases fuel) auto
  have s: "a \<noteq> tr_ref s" "nd_value (h ! tr_ref s) = Some (tr_hash cr s)"
    using Cons.prems(1, 3) x linked_value [of cr h "Some p" s] tr_ref_in [of s] by (auto simp del: tr_ref_in)
  then have "sibling h a = Inr (Some (tr_ref s))"
    using Cons.prems(1, 2) x by (cases is_left) (auto simp: sibling_def)
  moreover have "prove_loop f h p = Inr (map (\<lambda>(is_left, p, s). Some (tr_hash cr s)) c)"
    using Cons.prems x f(2) by (intro Cons.IH) auto
  ultimately show ?case using Cons.prems(2) x s(2) by (simp add: f(1))
qed

section \<open>Leaves and their proofs\<close>

text \<open>Every leaf with what is above it, the leaf it can be replaced by, and what the hashes beside the path prove.\<close>

definition focused :: "mtree \<Rightarrow> nat \<Rightarrow> crumbs \<Rightarrow> bool" where
  "focused t i c \<longleftrightarrow>
     (\<forall>x. tr_leaves (plug (Tip (fst (tr_leaves t ! i)) x) c) = (tr_leaves t)[i := (fst (tr_leaves t ! i), x)]
        \<and> left_complete (plug (Tip (fst (tr_leaves t ! i)) x) c) = left_complete t)
     \<and> plug (Tip (fst (tr_leaves t ! i)) (snd (tr_leaves t ! i))) c = t"

lemma left_complete_Join_cong:
  "tr_count l' = tr_count l \<Longrightarrow> left_complete l' = left_complete l \<Longrightarrow> left_complete (Join a l' r) = left_complete (Join a l r)"
  "tr_count r' = tr_count r \<Longrightarrow> left_complete r' = left_complete r \<Longrightarrow> left_complete (Join a l r') = left_complete (Join a l r)"
  by simp_all

lemma focus_exists:
  "i < tr_count t \<Longrightarrow> \<exists>c. focused t i c \<and> (left_complete t \<longrightarrow>
     proof_root cr (tr_count t) i (snd (tr_leaves t ! i)) (map (\<lambda>(is_left, p, s). tr_hash cr s) c) = Some (tr_hash cr t))"
proof (induction t arbitrary: i)
  case (Tip a v)
  then show ?case by (intro exI [of _ "[]"]) (simp add: focused_def proof_root.simps)
next
  case (Join a l r)
  have n: "1 < tr_count l + tr_count r" by (cases "tr_leaves l"; cases "tr_leaves r") auto
  show ?case
  proof (cases "i < tr_count l")
    case True
    obtain c where c: "focused l i c" "left_complete l \<longrightarrow>
        proof_root cr (tr_count l) i (snd (tr_leaves l ! i)) (map (\<lambda>(is_left, p, s). tr_hash cr s) c) = Some (tr_hash cr l)"
      using Join.IH(1) [OF True] by blast
    have "focused (Join a l r) i (c @ [(True, a, r)])"
      using c(1) True unfolding focused_def
      by (auto simp: plug_append nth_append list_update_append1 simp del: left_complete.simps intro!: left_complete_Join_cong)
    then show ?thesis using c(2) True n
      by (intro exI [of _ "c @ [(True, a, r)]"]) (auto simp: proof_root.simps [of _ "tr_count l + tr_count r"] nth_append)
  next
    case False
    obtain c where c: "focused r (i - tr_count l) c" "left_complete r \<longrightarrow>
        proof_root cr (tr_count r) (i - tr_count l) (snd (tr_leaves r ! (i - tr_count l))) (map (\<lambda>(is_left, p, s). tr_hash cr s) c)
          = Some (tr_hash cr r)"
      using Join.IH(2) [of "i - tr_count l"] Join.prems False by fastforce
    have "focused (Join a l r) i (c @ [(False, a, l)])"
      using c(1) False unfolding focused_def
      by (auto simp: plug_append nth_append list_update_append simp del: left_complete.simps intro!: left_complete_Join_cong)
    then show ?thesis using c(2) False n
      by (intro exI [of _ "c @ [(False, a, l)]"]) (auto simp: proof_root.simps [of _ "tr_count l + tr_count r"] nth_append)
  qed
qed

section \<open>The object and the list\<close>

definition represents :: "crypto \<Rightarrow> MerkleTree \<Rightarrow> bytes list \<Rightarrow> bool" where
  "represents cr m xs \<longleftrightarrow> (\<forall>x\<in>set xs. length x = 32) \<and> length (mt_leaves m) = length xs
     \<and> (if xs = [] then mt_root_node m = None
        else (\<exists>t d. mt_root_node m = Some (tr_ref t) \<and> linked cr (mt_store m) None t \<and> distinct (tr_refs t) \<and> left_complete t
          \<and> tr_leaves t = zip (mt_leaves m) xs \<and> mt_depth m = Some d \<and> ceil_lg (length xs) = Inr d))"

lemma represents_root: "represents cr m xs \<Longrightarrow> mt_root m = Some (merkle_root cr xs)"
  by (cases "xs = []") (auto simp: represents_def mt_root_def tr_hash_root dest!: linked_value)

lemma represents_hashes: "tr_leaves t = zip as xs \<Longrightarrow> length as = length xs \<Longrightarrow> hashes_ok t \<longleftrightarrow> (\<forall>x\<in>set xs. length x = 32)"
  by (simp add: hashes_ok_def)

lemma new_represents:
  assumes "crypto_ok cr" and "\<forall>x\<in>set xs. length x = 32"
  shows "\<exists>m. MerkleTree_new cr xs = Inr m \<and> represents cr m xs"
proof (cases "xs = []")
  case True
  then show ?thesis by (simp add: MerkleTree_new_def represents_def)
next
  case False
  let ?n = "length xs" and ?h = "map (\<lambda>el. Node None None None (Some el)) xs"
  let ?ps = "zip [0..<length xs] xs"
  have "fresh_leaves ?h ?ps" using assms(2) by (auto simp: fresh_leaves_def set_zip)
  then have "built cr ?h ?ps (make_tree cr [0..<?n] 0 ?n ?h)"
    using make_tree_built [OF assms(1), of ?n ?h 0 ?ps] False by simp
  then obtain t h' where t: "make_tree cr [0..<?n] 0 ?n ?h = (Inr (Some (tr_ref t)), h')" "linked cr h' None t" "tr_leaves t = ?ps"
    "left_complete t" "distinct (tr_refs t)"
    unfolding built_def by blast
  obtain d where "ceil_lg ?n = Inr d" using ceil_lg_bounds [of ?n] False by auto
  then show ?thesis using False t assms(2) by (auto simp: MerkleTree_new_def represents_def)
qed

lemma set_represents:
  assumes "crypto_ok cr" and m: "represents cr m xs" and i: "i < length xs" and x: "length x = 32"
  shows "\<exists>m'. mt_set cr i x m = (Inr (), m') \<and> represents cr m' (xs[i := x])"
proof -
  have ne: "xs \<noteq> []" using i by auto
  obtain t d where t: "mt_root_node m = Some (tr_ref t)" "linked cr (mt_store m) None t" "distinct (tr_refs t)" "left_complete t"
    "tr_leaves t = zip (mt_leaves m) xs" "mt_depth m = Some d" "ceil_lg (length xs) = Inr d" "length (mt_leaves m) = length xs"
    using m ne by (auto simp: represents_def)
  have at: "tr_leaves t ! i = (mt_leaves m ! i, xs ! i)" "i < tr_count t" using i t(5, 8) by simp_all
  obtain c where c: "focused t i c" using focus_exists [OF at(2)] by blast
  let ?a = "mt_leaves m ! i"
  let ?h = "(mt_store m)[?a := nd_value_update (\<lambda>_. Some x) (mt_store m ! ?a)]"
  have plug: "plug (Tip ?a (xs ! i)) c = t" using c at by (simp add: focused_def)
  have links: "linked cr (mt_store m) (up_ref c) (Tip ?a (xs ! i))" "linked_up cr (mt_store m) ?a c"
    using linked_plug [of cr "mt_store m" "Tip ?a (xs ! i)" c] t(2) plug by auto
  have refs: "distinct (tr_refs (plug (Tip ?a x) c))" "?a \<notin> set (above_refs c)" using t(3) plug by auto
  have leaves: "tr_leaves (plug (Tip ?a x) c) = zip (mt_leaves m) (xs[i := x])" "left_complete (plug (Tip ?a x) c)"
    using c at t(4, 5, 8) by (auto simp: focused_def zip_update [symmetric])
  have "hashes_ok (plug (Tip ?a x) c)"
    using m x by (subst represents_hashes [OF leaves(1)]) (auto simp: t(8) represents_def dest: set_update_subset_insert [THEN subsetD])
  then obtain h' where h': "fix_up cr (up_ref c) ?h = (Inr (), h')" "linked cr h' None (plug (Tip ?a x) c)"
    using fix_up_links [OF assms(1), of ?h c "Tip ?a x"] links refs by auto
  have top: "tr_ref (plug (Tip ?a x) c) = tr_ref t" using tr_ref_plug [of "Tip ?a x" "Tip ?a (xs ! i)" c] plug by simp
  have "mt_set cr i x m = (Inr (), m\<lparr>mt_store := h'\<rparr>)"
    using i x t(8) h'(1) links(1) by (simp add: mt_set_def io_bind_def on_store_def update_node_def)
  moreover have "represents cr (m\<lparr>mt_store := h'\<rparr>) (xs[i := x])"
    using m t ne h'(2) leaves refs(1) top x unfolding represents_def
    by (auto dest: set_update_subset_insert [THEN subsetD] intro!: exI [of _ "plug (Tip ?a x) c"])
  ultimately show ?thesis by blast
qed

lemma prove_represents:
  assumes cr: "crypto_ok cr" and m: "represents cr m xs" and i: "i < length xs"
  shows "\<exists>siblings. mt_prove_leaf m i = Inr (map Some siblings) \<and> (\<forall>s\<in>set siblings. length s = 32)
    \<and> proof_root cr (length xs) i (xs ! i) siblings = Some (merkle_root cr xs)"
proof -
  have ne: "xs \<noteq> []" using i by auto
  obtain t where t: "linked cr (mt_store m) None t" "distinct (tr_refs t)" "left_complete t"
    "tr_leaves t = zip (mt_leaves m) xs" "length (mt_leaves m) = length xs"
    using m ne by (auto simp: represents_def)
  have at: "tr_leaves t ! i = (mt_leaves m ! i, xs ! i)" "i < tr_count t" using i t(4, 5) by simp_all
  obtain c where c: "focused t i c"
      "proof_root cr (tr_count t) i (xs ! i) (map (\<lambda>(is_left, p, s). tr_hash cr s) c) = Some (tr_hash cr t)"
    using focus_exists [OF at(2)] t(3) at(1) by fastforce
  let ?a = "mt_leaves m ! i"
  have plug: "plug (Tip ?a (xs ! i)) c = t" using c(1) at by (simp add: focused_def)
  have links: "linked cr (mt_store m) (up_ref c) (Tip ?a (xs ! i))" "linked_up cr (mt_store m) ?a c"
    using linked_plug [of cr "mt_store m" "Tip ?a (xs ! i)" c] t(1) plug by auto
  have "distinct (?a # above_refs c)" using t(2) plug by auto
  then have "prove_loop (length (mt_store m)) (mt_store m) ?a = Inr (map (\<lambda>(is_left, p, s). Some (tr_hash cr s)) c)"
    using prove_loop_values [OF links(2)] links crumbs_fuel [OF links(2)] by simp
  then have "mt_prove_leaf m i = Inr (map Some (map (\<lambda>(is_left, p, s). tr_hash cr s) c))"
    using i t(5) by (simp add: mt_prove_leaf_def comp_def case_prod_unfold)
  moreover have "tr_count t = length xs" "tr_hash cr t = merkle_root cr xs" using t(4, 5) tr_hash_root [OF t(3), of cr] by simp_all
  moreover have "hashes_ok (plug (Tip ?a (xs ! i)) c)" using m plug by (simp add: represents_hashes [OF t(4, 5)] represents_def)
  then have "\<forall>s\<in>set (map (\<lambda>(is_left, p, s). tr_hash cr s) c). length s = 32" using cr by auto
  ultimately show ?thesis using c(2) by metis
qed

text \<open>A proof is no longer than the depth of the tree.\<close>

lemma proof_root_length:
  "proof_root cr n i x siblings = Some v \<Longrightarrow> n \<le> 2 ^ d \<Longrightarrow> length siblings \<le> d"
proof (induction cr n i x siblings arbitrary: v d rule: proof_root.induct)
  case (1 cr n i x siblings)
  show ?case
  proof (cases "n \<le> 1")
    case True
    then show ?thesis using 1 by (simp add: proof_root.simps split: if_split_asm)
  next
    case False
    have ne: "siblings \<noteq> []" using 1(3) False by (auto simp: proof_root.simps)
    obtain k where k: "split_size n = 2 ^ k" "2 ^ k < n" "n \<le> 2 * 2 ^ k" using split_size_power [of n] False by auto
    have "(2::nat) ^ k < 2 ^ d" using k(2) 1(4) by linarith
    then have d: "k < d" by simp
    then obtain e where e: "d = Suc e" by (cases d) auto
    have "(2::nat) ^ k \<le> 2 ^ e" using d e by simp
    then have small: "split_size n \<le> 2 ^ e" "n - split_size n \<le> 2 ^ e" using k by linarith+
    have "length (butlast siblings) \<le> e"
      using 1(3) 1(1) [OF False ne _ _ small(1)] 1(2) [OF False ne _ _ small(2)] False ne
      by (subst (asm) proof_root.simps) (auto split: if_split_asm)
    then show ?thesis using e by simp
  qed
qed

text \<open>
  The messages that are hashed on the way to a root: one for each inner node of the tree over a list, and one for each
  sibling of a proof. What a root binds rests on the hash function being injective on these messages, and on no others.
\<close>

function tree_messages :: "crypto \<Rightarrow> bytes list \<Rightarrow> bytes set" where
  "tree_messages cr xs =
     (if length xs \<le> 1 then {}
      else let k = split_size (length xs)
        in insert ([1] @ merkle_root cr (take k xs) @ merkle_root cr (drop k xs))
          (tree_messages cr (take k xs) \<union> tree_messages cr (drop k xs)))"
  by pat_completeness auto
termination
proof (relation "measure (\<lambda>(cr, xs). length xs)")
  fix cr k and xs :: "bytes list" assume "\<not> length xs \<le> 1" and k: "k = split_size (length xs)"
  then have "1 < length xs" by simp
  from split_size_bounds [OF this]
  show "((cr, take k xs), cr, xs) \<in> measure (\<lambda>(cr, xs). length xs)"
    and "((cr, drop k xs), cr, xs) \<in> measure (\<lambda>(cr, xs). length xs)" by (auto simp: k)
qed simp

function proof_messages :: "crypto \<Rightarrow> nat \<Rightarrow> nat \<Rightarrow> bytes \<Rightarrow> bytes list \<Rightarrow> bytes set" where
  "proof_messages cr n i x siblings =
     (if n \<le> 1 \<or> siblings = [] then {}
      else if i < split_size n
      then (case proof_root cr (split_size n) i x (butlast siblings) of None \<Rightarrow> {}
          | Some v \<Rightarrow> insert ([1] @ v @ last siblings) (proof_messages cr (split_size n) i x (butlast siblings)))
      else (case proof_root cr (n - split_size n) (i - split_size n) x (butlast siblings) of None \<Rightarrow> {}
          | Some v \<Rightarrow> insert ([1] @ last siblings @ v) (proof_messages cr (n - split_size n) (i - split_size n) x (butlast siblings))))"
  by pat_completeness auto
termination by (relation "measure (\<lambda>(cr, n, i, x, siblings). n)") (use split_size_bounds in \<open>auto simp: not_le\<close>)

declare tree_messages.simps [simp del] and proof_messages.simps [simp del]

lemma tree_messages_split:
  assumes "1 < length xs"
  defines "k \<equiv> split_size (length xs)"
  shows "tree_messages cr xs = insert ([1] @ merkle_root cr (take k xs) @ merkle_root cr (drop k xs))
    (tree_messages cr (take k xs) \<union> tree_messages cr (drop k xs))"
  using assms by (subst tree_messages.simps) (simp add: Let_def)

lemma parent_hash_inject:
  assumes "inj_on (sha256 cr) M" and "[1] @ a @ b \<in> M" and "[1] @ a' @ b' \<in> M"
    and "parent_hash cr a b = parent_hash cr a' b'" and "length a = length a'"
  shows "a = a' \<and> b = b'"
  using inj_onD [OF assms(1) _ assms(2, 3)] assms(4, 5) by (simp add: parent_hash_def)

text \<open>The roots of lists of the same length.\<close>

lemma merkle_root_length:
  assumes "crypto_ok cr" and "\<forall>x\<in>set xs. length x = 32"
  shows "length (merkle_root cr xs) = 32"
proof (cases "1 < length xs")
  case True
  then show ?thesis using assms(1) by (subst merkle_root.simps) auto
next
  case False
  then show ?thesis using assms(2) by (cases xs) (auto simp: NIL_def)
qed

lemma merkle_root_split:
  assumes "1 < length xs"
  shows "merkle_root cr xs = parent_hash cr (merkle_root cr (take (split_size (length xs)) xs)) (merkle_root cr (drop (split_size (length xs)) xs))"
  using assms by (subst merkle_root.simps) auto

lemma merkle_root_inject:
  assumes "crypto_ok cr" and "inj_on (sha256 cr) M" and "tree_messages cr xs \<subseteq> M" and "tree_messages cr ys \<subseteq> M"
    and "length xs = length ys" and "\<forall>x\<in>set xs. length x = 32" and "\<forall>y\<in>set ys. length y = 32"
    and "merkle_root cr xs = merkle_root cr ys"
  shows "xs = ys"
  using assms(3-)
proof (induction "length xs" arbitrary: xs ys rule: less_induct)
  case less
  show ?case
  proof (cases "1 < length xs")
    case False
    then show ?thesis using less.prems by (cases xs; cases ys) auto
  next
    case True
    let ?k = "split_size (length xs)"
    have k: "0 < ?k" "?k < length xs" using split_size_bounds [OF True] by auto
    have parts: "\<forall>x\<in>set (take n zs). length x = 32" "\<forall>x\<in>set (drop n zs). length x = 32"
      if "\<forall>x\<in>set zs. length x = 32" for zs :: "bytes list" and n
      using that by (auto dest: in_set_takeD in_set_dropD)
    have True': "1 < length ys" using True less.prems(3) by simp
    note m = less.prems(1) [unfolded tree_messages_split [OF True]]
      less.prems(2) [unfolded tree_messages_split [OF True'], folded less.prems(3)]
    have "merkle_root cr (take ?k xs) = merkle_root cr (take ?k ys) \<and> merkle_root cr (drop ?k xs) = merkle_root cr (drop ?k ys)"
      using parent_hash_inject [OF assms(2), of "merkle_root cr (take ?k xs)" "merkle_root cr (drop ?k xs)"
          "merkle_root cr (take ?k ys)" "merkle_root cr (drop ?k ys)"] m less.prems(6)
        merkle_root_split [OF True, of cr] merkle_root_split [OF True', of cr] less.prems(3)
        merkle_root_length [OF assms(1) parts(1) [OF less.prems(4)]] merkle_root_length [OF assms(1) parts(1) [OF less.prems(5)]] by simp
    moreover have "take ?k xs = take ?k ys" if "merkle_root cr (take ?k xs) = merkle_root cr (take ?k ys)"
      by (rule less.hyps) (use that k m less.prems(3) parts(1) [OF less.prems(4)] parts(1) [OF less.prems(5)] in auto)
    moreover have "drop ?k xs = drop ?k ys" if "merkle_root cr (drop ?k xs) = merkle_root cr (drop ?k ys)"
      by (rule less.hyps) (use that k m less.prems(3) parts(2) [OF less.prems(4)] parts(2) [OF less.prems(5)] in auto)
    ultimately show ?thesis by (metis append_take_drop_id)
  qed
qed

lemma length_proof_root:
  assumes "crypto_ok cr" and "length x = 32" and "proof_root cr n i x siblings = Some v"
  shows "length v = 32"
proof (cases "n \<le> 1 \<or> siblings = []")
  case True
  then show ?thesis using assms(2, 3) by (subst (asm) proof_root.simps) (auto split: if_split_asm)
next
  case False
  then show ?thesis using assms(1, 3) by (subst (asm) proof_root.simps) (auto split: if_split_asm)
qed

text \<open>Nor is there a proof for anything but the element at the position.\<close>

lemma proof_root_sound:
  assumes "crypto_ok cr" and "inj_on (sha256 cr) M" and "tree_messages cr xs \<subseteq> M" and "proof_messages cr (length xs) i x siblings \<subseteq> M"
    and "i < length xs" and "\<forall>x\<in>set xs. length x = 32" and "length x = 32" and "\<forall>s\<in>set siblings. length s = 32"
    and "proof_root cr (length xs) i x siblings = Some (merkle_root cr xs)"
  shows "x = xs ! i"
  using assms(3-)
proof (induction "length xs" arbitrary: xs i siblings rule: less_induct)
  case less
  show ?case
  proof (cases "1 < length xs")
    case False
    then show ?thesis using less.prems by (cases xs) (auto simp: proof_root.simps split: if_split_asm)
  next
    case True
    let ?k = "split_size (length xs)" and ?s = "last siblings" and ?ss = "butlast siblings"
    let ?l = "merkle_root cr (take ?k xs)" and ?r = "merkle_root cr (drop ?k xs)"
    have k: "0 < ?k" "?k < length xs" using split_size_bounds [OF True] by auto
    have ne: "siblings \<noteq> []" using less.prems(7) True by (auto simp: proof_root.simps)
    have ok: "\<forall>x\<in>set (take ?k xs). length x = 32" "\<forall>x\<in>set (drop ?k xs). length x = 32" "\<forall>s\<in>set ?ss. length s = 32" "length ?s = 32"
      using less.prems(4, 6) ne by (auto dest: in_set_takeD in_set_dropD in_set_butlastD)
    note lengths = merkle_root_length [OF assms(1) ok(1)] merkle_root_length [OF assms(1) ok(2)]
    note m = less.prems(1) [unfolded tree_messages_split [OF True]]
    note top = merkle_root_split [OF True, of cr]
    show ?thesis
    proof (cases "i < ?k")
      case left: True
      then obtain v where v: "proof_root cr ?k i x ?ss = Some v" "parent_hash cr v ?s = merkle_root cr xs"
        using less.prems(7) True ne by (subst (asm) proof_root.simps) auto
      have "insert ([1] @ v @ ?s) (proof_messages cr ?k i x ?ss) \<subseteq> M"
        using less.prems(2) True ne left v(1) by (subst (asm) proof_messages.simps) auto
      moreover have "length v = 32" by (rule length_proof_root [OF assms(1) less.prems(5) v(1)])
      ultimately have "v = ?l" "proof_messages cr ?k i x ?ss \<subseteq> M"
        using parent_hash_inject [OF assms(2), of v ?s ?l ?r] m v(2) top lengths by auto
      then show ?thesis
        using less.hyps [of "take ?k xs" i ?ss] v(1) k left ok less.prems(5) m by auto
    next
      case right: False
      then obtain v where v: "proof_root cr (length xs - ?k) (i - ?k) x ?ss = Some v" "parent_hash cr ?s v = merkle_root cr xs"
        using less.prems(7) True ne by (subst (asm) proof_root.simps) auto
      have "insert ([1] @ ?s @ v) (proof_messages cr (length xs - ?k) (i - ?k) x ?ss) \<subseteq> M"
        using less.prems(2) True ne right v(1) by (subst (asm) proof_messages.simps) auto
      then have "v = ?r" "proof_messages cr (length xs - ?k) (i - ?k) x ?ss \<subseteq> M"
        using parent_hash_inject [OF assms(2), of ?s v ?l ?r] m v(2) top lengths ok(4) by auto
      then show ?thesis
        using less.hyps [of "drop ?k xs" "i - ?k" ?ss] v(1) k right ok less.prems(3, 5) m by auto
    qed
  qed
qed

end
