(* ===== verification/Merkle_Spec.thy ===== *)
theory Merkle_Spec
  imports Merkle_Nodes
begin

text \<open>
  What the trees of \<open>merkle.py\<close> guarantee: the operations on nodes in place refine those on a list, the proofs of
  membership hold and only for the elements, and commitments to maps bind.
\<close>

section \<open>Adding a leaf\<close>

lemma split_size_eq:
  assumes "2 ^ k < n" and "n \<le> 2 * 2 ^ k"
  shows "split_size n = 2 ^ k"
proof -
  have "1 < n" using assms(1) one_le_power [of "2::nat" k] by linarith
  then obtain j where j: "split_size n = 2 ^ j" "2 ^ j < n" "n \<le> 2 * 2 ^ j" using split_size_power by blast
  have "(2::nat) ^ j < 2 ^ Suc k" "(2::nat) ^ k < 2 ^ Suc j" using assms j by simp_all
  then have "j < Suc k" "k < Suc j" by (simp_all only: power_strict_increasing_iff one_less_numeral_iff semiring_norm)
  then show ?thesis using j(1) by simp
qed

lemma ceil_lg_eq:
  assumes "2 ^ k < n" and "n \<le> 2 * 2 ^ k"
  shows "ceil_lg n = Inr (Suc k)"
proof -
  obtain r where r: "ceil_lg n = Inr r" "n \<le> 2 ^ r" "\<forall>q. n \<le> 2 ^ q \<longrightarrow> r \<le> q" using ceil_lg_bounds [of n] assms(1) by auto
  have "r \<le> Suc k" using r(3) assms(2) by simp
  moreover have "(2::nat) ^ k < 2 ^ r" using assms(1) r(2) by linarith
  then have "k < r" by simp
  ultimately show ?thesis using r(1) by simp
qed

lemma ceil_lg_power: "ceil_lg (2 ^ k) = Inr k"
proof -
  obtain r where r: "ceil_lg (2 ^ k) = Inr r" "2 ^ k \<le> (2::nat) ^ r" "\<forall>q. 2 ^ k \<le> (2::nat) ^ q \<longrightarrow> r \<le> q"
    using ceil_lg_bounds [of "2 ^ k"] by auto
  then show ?thesis by (auto intro: antisym)
qed

text \<open>The store before \<open>fix_up\<close>: the new node is allocated, and tied to what is above and below it.\<close>

definition tied :: "store \<Rightarrow> nat option \<Rightarrow> nat \<Rightarrow> nat \<Rightarrow> store" where
  "tied h q cur leaf =
     (let new = length h;
          h2 = h @ [Node (Some cur) (Some leaf) q None];
          h3 = (case q of None \<Rightarrow> h2 | Some p \<Rightarrow> h2[p := nd_right_update (\<lambda>_. Some new) (h2 ! p)]);
          h4 = h3[cur := nd_parent_update (\<lambda>_. Some new) (h3 ! cur)]
      in h4[leaf := nd_parent_update (\<lambda>_. Some new) (h4 ! leaf)])"

lemma mt_insert_run:
  assumes "nd_parent (mt_store m ! cur) = q"
    and "\<And>p. q = Some p \<Longrightarrow> nd_right ((mt_store m @ [Node (Some cur) (Some leaf) q None]) ! p) = Some cur"
    and "fix_up cr (Some (length (mt_store m))) (tied (mt_store m) q cur leaf) = (Inr (), h')"
  shows "mt_insert cr depth leaf cur m = (Inr (), m\<lparr>mt_store := h',
      mt_root_node := (if q = None then Some (length (mt_store m)) else mt_root_node m),
      mt_depth := (if q = None then Some (depth + 1) else mt_depth m)\<rparr>)"
  using assms by (cases q) (simp_all add: mt_insert_def Let_def io_bind_def on_store_def alloc_def update_node_def tied_def)

lemma insert_links:
  assumes cr: "crypto_ok cr" and x: "length x = 32"
    and t: "linked cr h None (plug u c)" "distinct (tr_refs (plug u c))" "hashes_ok (plug u c)"
    and c: "\<forall>is_left p s d. c = (is_left, p, s) # d \<longrightarrow> \<not> is_left"
    and m: "mt_store m = h @ [Node None None None (Some x)]" "mt_root_node m = Some (tr_ref (plug u c))"
  shows "\<exists>h'. mt_insert cr depth (length h) (tr_ref u) m
      = (Inr (), m\<lparr>mt_store := h', mt_root_node := Some (tr_ref (plug (Join (Suc (length h)) u (Tip (length h) x)) c)),
          mt_depth := (if c = [] then Some (depth + 1) else mt_depth m)\<rparr>)
    \<and> linked cr h' None (plug (Join (Suc (length h)) u (Tip (length h) x)) c)"
proof -
  let ?a = "length h" and ?new = "Suc (length h)"
  let ?h1 = "h @ [Node None None None (Some x)]"
  let ?h2 = "?h1 @ [Node (Some (tr_ref u)) (Some ?a) (up_ref c) None]"
  let ?h3 = "case up_ref c of None \<Rightarrow> ?h2 | Some p \<Rightarrow> ?h2[p := nd_right_update (\<lambda>_. Some ?new) (?h2 ! p)]"
  let ?h4 = "?h3[tr_ref u := nd_parent_update (\<lambda>_. Some ?new) (?h3 ! tr_ref u)]"
  let ?h5 = "?h4[?a := nd_parent_update (\<lambda>_. Some ?new) (?h4 ! ?a)]"
  let ?c = "(True, ?new, Tip ?a x) # c"
  have u: "linked cr h (up_ref c) u" "linked_up cr h (tr_ref u) c" using linked_plug [OF t(1)] by auto
  have refs: "distinct (tr_refs u)" "distinct (above_refs c)" "set (tr_refs u) \<inter> set (above_refs c) = {}" using t(2) by auto
  have old: "b < ?a" if "b \<in> set (tr_refs u) \<union> set (above_refs c)" for b
    using that linked_refs [OF u(1)] linked_up_refs [OF u(2)] by blast
  then have fresh: "?a \<notin> set (tr_refs u)" "?a \<notin> set (above_refs c)" "?new \<notin> set (tr_refs u)" "?new \<notin> set (above_refs c)" by force+
  have low: "tr_ref u < ?a" "tr_ref u \<noteq> ?a" "tr_ref u \<noteq> ?new" using old [of "tr_ref u"] by auto
  have h3: "linked cr ?h3 (up_ref c) u \<and> linked_up cr ?h3 ?new c \<and> ?h3 ! ?a = Node None None None (Some x)
      \<and> ?h3 ! ?new = Node (Some (tr_ref u)) (Some ?a) (up_ref c) None \<and> length ?h3 = Suc ?new
      \<and> (\<forall>p. up_ref c = Some p \<longrightarrow> nd_right (?h2 ! p) = Some (tr_ref u))"
  proof (cases c)
    case Nil
    then show ?thesis using u by (simp add: nth_append)
  next
    case (Cons y d)
    then obtain p s where y: "c = (False, p, s) # d" using c by (cases y) auto
    then obtain v where v: "h ! p = Node (Some (tr_ref s)) (Some (tr_ref u)) (up_ref d) v" "p < ?a" "linked cr h (Some p) s" "linked_up cr h p d"
      using u(2) by auto
    have "p \<notin> set (tr_refs u)" "p \<notin> set (tr_refs s)" "p \<notin> set (above_refs d)" using refs y by auto
    then show ?thesis using u(1) v by (simp add: y nth_append)
  qed
  have up: "linked cr ?h5 (Some ?new) u" using linked_reparent [of cr ?h3 "up_ref c" u "Some ?new"] h3 refs fresh by simp
  have "tr_ref u \<notin> set (above_refs c)" using refs(3) tr_ref_in [of u] by blast
  then have "linked_up cr ?h5 ?new c" using h3 fresh by simp
  moreover have "?h5 ! ?a = Node None None (Some ?new) (Some x)" "?h5 ! ?new = Node (Some (tr_ref u)) (Some ?a) (up_ref c) None"
    using h3 low by auto
  ultimately have "linked_up cr ?h5 (tr_ref u) ?c" using h3 by simp
  moreover have "distinct (tr_refs (plug u ?c))" using refs fresh by auto
  moreover have "hashes_ok (plug u ?c)" using t(3) x by simp
  ultimately obtain h' where h': "fix_up cr (Some ?new) ?h5 = (Inr (), h')" "linked cr h' None (plug u ?c)"
    using fix_up_links [OF cr, of ?h5 ?c u] up by auto
  have parent: "nd_parent (mt_store m ! tr_ref u) = up_ref c" using linked_value [OF u(1)] m(1) by (simp add: nth_append)
  have top: "tr_ref (plug u c) = tr_ref (plug (Join ?new u (Tip ?a x)) c)" if "c \<noteq> []"
  proof -
    obtain is_left p s d where "c = (is_left, p, s) # d" using \<open>c \<noteq> []\<close> by (cases c) auto
    then show ?thesis by (cases is_left) (auto intro: tr_ref_plug)
  qed
  have "tied (mt_store m) (up_ref c) (tr_ref u) ?a = ?h5" by (simp only: tied_def m(1) Let_def length_append_singleton)
  then have "mt_insert cr depth ?a (tr_ref u) m = (Inr (), m\<lparr>mt_store := h',
      mt_root_node := (if up_ref c = None then Some ?new else mt_root_node m),
      mt_depth := (if up_ref c = None then Some (depth + 1) else mt_depth m)\<rparr>)"
    using mt_insert_run [OF parent, of ?a cr h' depth] h3 h' (1) by (simp add: m(1))
  moreover have "up_ref c = None \<longleftrightarrow> c = []" by (cases c) auto
  ultimately show ?thesis using h'(2) m(2) top by auto
qed

text \<open>The sizes \<open>add\<close> can handle: at most two bits are set.\<close>

definition two_bits :: "nat \<Rightarrow> bool" where
  "two_bits n \<longleftrightarrow> n = 0 \<or> (\<exists>k. n = 2 ^ k) \<or> (\<exists>j k. j < k \<and> n = 2 ^ k + 2 ^ j)"

lemma size_cases: "0 < n \<Longrightarrow> (\<exists>k. n = 2 ^ k) \<or> (\<exists>k. 2 ^ k < n \<and> n < 2 * 2 ^ k)" for n :: nat
  using floor_lg_bounds [of n] le_neq_implies_less by fastforce

lemma power_between: "2 ^ k < 2 * (2::nat) ^ i \<Longrightarrow> 2 ^ i < 2 * (2::nat) ^ k \<Longrightarrow> i = k"
  using power_less_imp_less_exp [of "2::nat" k "Suc i"] power_less_imp_less_exp [of "2::nat" i "Suc k"] by simp

lemma no_power_between: "2 ^ k < n \<Longrightarrow> n < 2 * 2 ^ k \<Longrightarrow> n \<noteq> 2 ^ i" for n :: nat
proof
  assume n: "2 ^ k < n" "n < 2 * 2 ^ k" "n = 2 ^ i"
  then have "(2::nat) ^ k < 2 * 2 ^ i" by linarith
  then have "i = k" using power_between [of k i] n(2, 3) by blast
  then show False using n(1, 3) by simp
qed

lemma two_bits_between:
  assumes "2 ^ k < n" and "n < 2 * 2 ^ k"
  shows "two_bits n \<longleftrightarrow> (\<exists>j. n - 2 ^ k = 2 ^ j)"
proof
  assume "two_bits n"
  then obtain i j where ij: "j < i" "n = 2 ^ i + 2 ^ j" using no_power_between [OF assms] assms by (auto simp: two_bits_def)
  then have "(2::nat) ^ j < 2 ^ i" by simp
  then have "(2::nat) ^ k < 2 * 2 ^ i" "(2::nat) ^ i < 2 * 2 ^ k" using assms ij(2) by linarith+
  then have "i = k" by (rule power_between)
  then show "\<exists>j. n - 2 ^ k = 2 ^ j" using ij by auto
next
  assume "\<exists>j. n - 2 ^ k = 2 ^ j"
  then obtain j where j: "n = 2 ^ k + 2 ^ j" using assms(1) by (metis le_add_diff_inverse less_imp_le)
  then have "j < k" using assms(2) by simp
  with j show "two_bits n" by (auto simp: two_bits_def)
qed

text \<open>The steps of the descent.\<close>

lemma descend_stop: "is_power_of_2 s = Inr True \<Longrightarrow> add_descend h a s b = Inr a"
  by (simp add: add_descend.simps)

lemma descend_step:
  "is_power_of_2 s = Inr False \<Longrightarrow> nd_right (h ! a) = Some r \<Longrightarrow> add_descend h a s b = add_descend h r (num_sub s b) (num_half b)"
  by (simp add: add_descend.simps [of h a])

lemma descend_float: "\<exists>e\<in>{AssertionErr, TypeErr}. add_descend h a (PFloat x) b = Inl e"
  by (simp add: add_descend.simps is_power_of_2_def)

lemma descend_join:
  assumes t: "linked cr h p (Join a l r)" and k: "2 ^ k < n" "n < 2 * 2 ^ k" and r: "tr_count r = n - 2 ^ k"
  shows "if \<exists>j. n - 2 ^ k = 2 ^ j then add_descend h a (PInt (int n)) (PInt (2 ^ k)) = Inr (tr_ref r)
    else \<exists>e\<in>{AssertionErr, TypeErr}. add_descend h a (PInt (int n)) (PInt (2 ^ k)) = Inl e"
proof -
  have "\<nexists>j. n = 2 ^ j" using no_power_between [OF k] by blast
  then have "is_power_of_2 (PInt (int n)) = Inr False" using is_power_of_2_nat [of n] k by simp
  moreover have "nd_right (h ! a) = Some (tr_ref r)" using t by simp
  moreover have "num_sub (PInt (int n)) (PInt (2 ^ k)) = PInt (int (n - 2 ^ k))" using k by (simp add: num_sub_def)
  ultimately have one: "add_descend h a (PInt (int n)) (PInt (2 ^ k)) = add_descend h (tr_ref r) (PInt (int (n - 2 ^ k))) (num_half (PInt (2 ^ k)))"
    by (simp add: descend_step)
  have power: "is_power_of_2 (PInt (int (n - 2 ^ k))) = Inr (\<exists>j. n - 2 ^ k = 2 ^ j)" using is_power_of_2_nat [of "n - 2 ^ k"] k by simp
  show ?thesis
  proof (cases "\<exists>j. n - 2 ^ k = 2 ^ j")
    case True
    then show ?thesis using one power by (simp add: descend_stop)
  next
    case False
    then obtain q where "nd_right (h ! tr_ref r) = Some q" using t r by (cases r) (auto dest: spec [of _ 0])
    moreover have "num_sub (PInt (int (n - 2 ^ k))) (num_half (PInt (2 ^ k))) = PFloat (of_int (int (n - 2 ^ k)) - 2 ^ k / 2)"
      by (simp add: num_sub_def num_half_def)
    ultimately have "add_descend h (tr_ref r) (PInt (int (n - 2 ^ k))) (num_half (PInt (2 ^ k)))
        = add_descend h q (PFloat (of_int (int (n - 2 ^ k)) - 2 ^ k / 2)) (num_half (num_half (PInt (2 ^ k))))"
      using False power by (simp add: descend_step)
    then show ?thesis using False one descend_float [of h q] by (simp only: if_False)
  qed
qed

lemma leaf_value:
  assumes "represents cr m xs" and "i < length xs"
  shows "nd_value (mt_store m ! (mt_leaves m ! i)) = Some (xs ! i)"
proof -
  obtain t where t: "linked cr (mt_store m) None t" "tr_leaves t = zip (mt_leaves m) xs" "length (mt_leaves m) = length xs"
    using assms by (auto simp: represents_def split: if_split_asm)
  have "nd_value (mt_store m ! a) = Some v" if "linked cr (mt_store m) p t" "(a, v) \<in> set (tr_leaves t)" for a v t p
    using that by (induction t arbitrary: p) auto
  then show ?thesis using t assms(2) by (metis length_zip min.idem nth_mem nth_zip)
qed

lemma node_refs:
  assumes "represents cr m xs"
  shows "\<forall>a\<in>set (mt_leaves m). a < length (mt_store m)" and "\<forall>a. mt_root_node m = Some a \<longrightarrow> a < length (mt_store m)"
proof -
  have "xs = [] \<longrightarrow> mt_leaves m = [] \<and> mt_root_node m = None" using assms by (auto simp: represents_def)
  moreover have "(\<forall>a\<in>set (mt_leaves m). a < length (mt_store m)) \<and> (\<forall>a. mt_root_node m = Some a \<longrightarrow> a < length (mt_store m))" if "xs \<noteq> []"
  proof -
    obtain t where t: "mt_root_node m = Some (tr_ref t)" "linked cr (mt_store m) None t" "tr_leaves t = zip (mt_leaves m) xs"
      "length (mt_leaves m) = length xs"
      using assms \<open>xs \<noteq> []\<close> by (auto simp: represents_def)
    have "mt_leaves m = map fst (tr_leaves t)" using t(3, 4) by simp
    then have "set (mt_leaves m) \<subseteq> set (tr_refs t)" using tr_leaves_refs by force
    then show ?thesis using linked_refs [OF t(2)] t(1) by auto
  qed
  ultimately show "\<forall>a\<in>set (mt_leaves m). a < length (mt_store m)" and "\<forall>a. mt_root_node m = Some a \<longrightarrow> a < length (mt_store m)"
    by (cases "xs = []"; simp)+
qed

lemma get_represents: "represents cr m xs \<Longrightarrow> mt_get m i = (if i < length xs then Inr (Some (xs ! i)) else Inl IndexErr)"
  using leaf_value [of cr m xs i] by (auto simp: mt_get_def represents_def)

text \<open>
  The first thing \<open>add\<close> does is to put the new leaf into the list of leaves: it is there, above the old tree, even
  when nothing more comes of it.
\<close>

definition leaf_appended :: "MerkleTree \<Rightarrow> bytes list \<Rightarrow> bytes \<Rightarrow> MerkleTree \<Rightarrow> bool" where
  "leaf_appended m xs x m' \<longleftrightarrow> mt_length m' = Suc (length xs) \<and> (\<forall>i\<le>length xs. mt_get m' i = Inr (Some ((xs @ [x]) ! i)))
     \<and> mt_root_node m' = mt_root_node m \<and> mt_root m' = mt_root m"

lemma leaf_appended:
  assumes "represents cr m xs"
  shows "leaf_appended m xs x (m\<lparr>mt_store := mt_store m @ [Node None None None (Some x)], mt_leaves := mt_leaves m @ [length (mt_store m)]\<rparr>)"
proof -
  have n: "length (mt_leaves m) = length xs" using assms by (simp add: represents_def)
  show ?thesis
    using n node_refs [OF assms] leaf_value [OF assms]
    by (auto simp: leaf_appended_def mt_length_def mt_get_def mt_root_def nth_append split: option.split)
qed

lemma add_represents:
  assumes cr: "crypto_ok cr" and m: "represents cr m xs" and x: "length x = 32"
  shows "if two_bits (length xs) then \<exists>m'. mt_add cr x m = (Inr (), m') \<and> represents cr m' (xs @ [x])
    else \<exists>e\<in>{AssertionErr, TypeErr}. \<exists>m'. mt_add cr x m = (Inl e, m') \<and> leaf_appended m xs x m'"
proof (cases "xs = []")
  case True
  then show ?thesis using m x ceil_lg_power [of 0]
    by (auto simp: two_bits_def mt_add_def represents_def io_bind_def on_store_def alloc_def intro!: exI [of _ "Tip (length (mt_store m)) x"])
next
  case False
  let ?n = "length xs" and ?h = "mt_store m" and ?a = "length (mt_store m)"
  obtain t d where t: "mt_root_node m = Some (tr_ref t)" "linked cr ?h None t" "distinct (tr_refs t)" "left_complete t"
    "tr_leaves t = zip (mt_leaves m) xs" "mt_depth m = Some d" "ceil_lg ?n = Inr d" "length (mt_leaves m) = ?n"
    using m False by (auto simp: represents_def)
  let ?m = "m\<lparr>mt_store := ?h @ [Node None None None (Some x)], mt_leaves := mt_leaves m @ [?a]\<rparr>"
  let ?h1 = "?h @ [Node None None None (Some x)]"
  have ok: "hashes_ok t" using m by (simp add: represents_hashes [OF t(5, 8)] represents_def)
  have run: "mt_add cr x m = io_bind (io_lift (add_descend ?h1 (tr_ref t) (PInt (int ?n)) (PInt (if d = 0 then 0 else 2 ^ (d - 1)))))
      (mt_insert cr d ?a) ?m"
  proof -
    have "mt_leaves m \<noteq> []" using False t(8) by auto
    then show ?thesis using x t(1, 6, 8) by (simp add: mt_add_def io_bind_def on_store_def alloc_def Let_def)
  qed
  text \<open>When the descent ends at a subtree on the right side.\<close>
  have put: "\<exists>m'. mt_add cr x m = (Inr (), m') \<and> represents cr m' (xs @ [x])"
    if u: "plug u c = t" "\<forall>is_left p s e. c = (is_left, p, s) # e \<longrightarrow> \<not> is_left"
      "add_descend ?h1 (tr_ref t) (PInt (int ?n)) (PInt (if d = 0 then 0 else 2 ^ (d - 1))) = Inr (tr_ref u)"
      "left_complete (plug (Join (Suc ?a) u (Tip ?a x)) c)" "tr_leaves (plug (Join (Suc ?a) u (Tip ?a x)) c) = tr_leaves t @ [(?a, x)]"
      "ceil_lg (Suc ?n) = Inr (if c = [] then d + 1 else d)" for u c
  proof -
    obtain h' where h': "mt_insert cr d ?a (tr_ref u) ?m
      = (Inr (), ?m\<lparr>mt_store := h', mt_root_node := Some (tr_ref (plug (Join (Suc ?a) u (Tip ?a x)) c)),
          mt_depth := (if c = [] then Some (d + 1) else mt_depth ?m)\<rparr>)"
      "linked cr h' None (plug (Join (Suc ?a) u (Tip ?a x)) c)"
      using insert_links [OF cr x, of ?h u c ?m d] u(1, 2) t(1, 2, 3) ok by auto
    have "distinct (tr_refs (plug (Join (Suc ?a) u (Tip ?a x)) c))"
      using t(3) linked_refs [OF t(2)] u(1) by force
    then show ?thesis using run u(3-6) h' m x t(5, 6, 8)
      by (auto simp: represents_def intro!: exI [of _ "plug (Join (Suc ?a) u (Tip ?a x)) c"])
  qed
  consider k where "?n = 2 ^ k" | k where "2 ^ k < ?n" "?n < 2 * 2 ^ k"
    using size_cases [of ?n] False by auto
  then show ?thesis
  proof cases
    case 1
    have "ceil_lg (Suc ?n) = Inr (Suc k)" using ceil_lg_eq [of k "Suc ?n"] 1 by simp
    moreover have "d = k" using t(7) 1 ceil_lg_power [of k] by simp
    moreover have "is_power_of_2 (PInt (int ?n)) = Inr True" using is_power_of_2_nat [of ?n] 1 by auto
    moreover have "split_size (Suc ?n) = ?n" using split_size_eq [of k "Suc ?n"] 1 by simp
    moreover have "tr_count t = ?n" using t(5, 8) by simp
    moreover have "two_bits ?n" using 1 by (auto simp: two_bits_def)
    ultimately show ?thesis using put [of t "[]"] t(4) by (simp add: descend_stop)
  next
    case 2
    have d: "d = Suc k" using t(7) ceil_lg_eq [of k ?n] 2 by simp
    have n: "tr_count t = ?n" using t(5, 8) by simp
    have "1 < ?n" using 2(1) one_le_power [of "2::nat" k] by linarith
    then obtain a l r where join: "t = Join a l r" using n by (cases t) auto
    then have sizes: "tr_count l = 2 ^ k" "tr_count r = ?n - 2 ^ k" using t(4) n split_size_eq [of k ?n] 2 by auto
    have l: "linked cr ?h1 None (Join a l r)" using linked_alloc [OF t(2), of "[Node None None None (Some x)]"] join by simp
    note descent = descend_join [OF l 2 sizes(2)]
    show ?thesis
    proof (cases "\<exists>j. ?n - 2 ^ k = 2 ^ j")
      case True
      then obtain j where j: "?n = 2 ^ k + 2 ^ j" using 2(1) by (metis le_add_diff_inverse less_imp_le)
      have jk: "j < k" using 2(2) j by simp
      have "ceil_lg (Suc ?n) = Inr (Suc k)" using ceil_lg_eq [of k "Suc ?n"] 2 by simp
      moreover have "split_size (Suc ?n) = 2 ^ k" using split_size_eq [of k "Suc ?n"] 2 by simp
      moreover have "split_size (Suc (2 ^ j)) = 2 ^ j" using split_size_eq [of j "Suc (2 ^ j)"] by simp
      moreover have "two_bits ?n" using j jk by (auto simp: two_bits_def)
      ultimately show ?thesis using put [of r "[(False, a, l)]"] join t(4) sizes d j descent True by simp
    next
      case no: False
      then have "\<not> two_bits ?n" using two_bits_between [OF 2] by simp
      then show ?thesis using run descent no d join leaf_appended [OF m, of x] by (auto simp: io_bind_def)
    qed
  qed
qed

section \<open>The tree as a vector\<close>

text \<open>
  C22: a new tree stands for the list of its elements, and its root is the root computed from the list.
\<close>

theorem merkle_tree_new:
  assumes "crypto_ok cr" and "\<forall>x\<in>set xs. length x = 32"
  shows "\<exists>m. MerkleTree_new cr xs = Inr m \<and> represents cr m xs \<and> mt_root m = Some (merkle_root cr xs)"
  using new_represents [OF assms] represents_root by blast

theorem merkle_tree_new_witness:
  "\<exists>m. MerkleTree_new pad_crypto [replicate 32 1, replicate 32 2, replicate 32 3] = Inr m
     \<and> mt_root m = Some (merkle_root pad_crypto [replicate 32 1, replicate 32 2, replicate 32 3])"
  using merkle_tree_new [of pad_crypto "[replicate 32 1, replicate 32 2, replicate 32 3]"] by auto

text \<open>
  C23: setting an element changes the list at its position and nowhere else, and the values of all nodes are right
  again: the root is that of the changed list.
\<close>

theorem merkle_set_refines:
  assumes "crypto_ok cr" and "represents cr m xs" and "length x = 32" and "i < length xs"
  shows "\<exists>m'. mt_set cr i x m = (Inr (), m') \<and> represents cr m' (xs[i := x]) \<and> mt_root m' = Some (merkle_root cr (xs[i := x]))"
  using set_represents [OF assms(1, 2, 4, 3)] represents_root by blast

theorem merkle_set_refines_witness:
  "\<exists>m m'. MerkleTree_new pad_crypto [replicate 32 1, replicate 32 2, replicate 32 3] = Inr m
     \<and> mt_set pad_crypto 2 (replicate 32 4) m = (Inr (), m')
     \<and> mt_root m' = Some (merkle_root pad_crypto [replicate 32 1, replicate 32 2, replicate 32 4])"
proof -
  let ?xs = "[replicate 32 1, replicate 32 2, replicate 32 3] :: bytes list"
  obtain m where m: "MerkleTree_new pad_crypto ?xs = Inr m" "represents pad_crypto m ?xs"
    using new_represents [of pad_crypto ?xs] by auto
  from merkle_set_refines [OF crypto_ok_pad_crypto m(2), of "replicate 32 4" 2] m(1) show ?thesis
    by (auto simp: numeral_2_eq_2)
qed

text \<open>
  C24: adding an element appends it to the list and brings the root up to date, when at most two bits of the length are
  set. For any other length it raises: the size of the left subtree is divided with \<open>/\<close>, which gives a
  floating-point number, and it is not the size of the left subtree of the next tree either. The error leaves the tree
  behind with the new leaf in the list, one longer, and with the old root above it.
\<close>

theorem merkle_add_refines:
  assumes "crypto_ok cr" and "represents cr m xs" and "length x = 32"
  shows "if two_bits (length xs)
    then \<exists>m'. mt_add cr x m = (Inr (), m') \<and> represents cr m' (xs @ [x]) \<and> mt_root m' = Some (merkle_root cr (xs @ [x]))
    else \<exists>e\<in>{AssertionErr, TypeErr}. \<exists>m'. mt_add cr x m = (Inl e, m') \<and> leaf_appended m xs x m'"
proof (cases "two_bits (length xs)")
  case True
  then obtain m' where "mt_add cr x m = (Inr (), m')" "represents cr m' (xs @ [x])" using add_represents [OF assms] by auto
  with True show ?thesis using represents_root by auto
qed (use add_represents [OF assms] in simp)

theorem merkle_add_refines_witness:
  "\<exists>m e m'. MerkleTree_new pad_crypto (replicate 7 (replicate 32 1)) = Inr m
     \<and> mt_add pad_crypto (replicate 32 4) m = (Inl e, m') \<and> e \<in> {AssertionErr, TypeErr}
     \<and> mt_length m' = 8 \<and> mt_get m' 7 = Inr (Some (replicate 32 4)) \<and> mt_root m' = mt_root m"
proof -
  let ?xs = "replicate 7 (replicate 32 1) :: bytes list"
  obtain m where m: "MerkleTree_new pad_crypto ?xs = Inr m" "represents pad_crypto m ?xs"
    using new_represents [of pad_crypto ?xs] by auto
  have "\<nexists>j. (3::nat) = 2 ^ j" using no_power_between [of 1 3] by auto
  then have "\<not> two_bits 7" using two_bits_between [of 2 7] by simp
  with merkle_add_refines [OF crypto_ok_pad_crypto m(2), of "replicate 32 4"]
  obtain e m' where "mt_add pad_crypto (replicate 32 4) m = (Inl e, m')" "e \<in> {AssertionErr, TypeErr}"
    "leaf_appended m ?xs (replicate 32 4) m'" by auto
  then show ?thesis using m(1) by (auto simp: leaf_appended_def nth_append)
qed

text \<open>
  C25: proofs of membership. The siblings that \<open>prove_leaf\<close> returns for a position lead from the element there to the
  root, and there are no more of them than the depth of the tree. No siblings lead from another element at that
  position to the root, as long as the hash function is injective on the messages that are hashed for the tree and
  for this proof: a forged proof is a collision among them.
\<close>

theorem merkle_proofs:
  assumes "crypto_ok cr" and "represents cr m xs" and "i < length xs"
  shows "(\<exists>siblings d. mt_prove_leaf m i = Inr (map Some siblings) \<and> mt_depth m = Some d \<and> length siblings \<le> d
      \<and> proof_root cr (length xs) i (xs ! i) siblings = mt_root m)
    \<and> (\<forall>x siblings. length x = 32 \<and> (\<forall>s\<in>set siblings. length s = 32) \<and> proof_root cr (length xs) i x siblings = mt_root m
        \<and> inj_on (sha256 cr) (tree_messages cr xs \<union> proof_messages cr (length xs) i x siblings) \<longrightarrow> x = xs ! i)"
proof -
  note top = represents_root [OF assms(2)]
  have xs: "xs \<noteq> []" using assms(3) by auto
  have hashes: "\<forall>x\<in>set xs. length x = 32" using assms(2) by (simp add: represents_def)
  obtain d where d: "mt_depth m = Some d" "ceil_lg (length xs) = Inr d" using assms(2) xs by (auto simp: represents_def)
  have "length xs \<le> 2 ^ d" using ceil_lg_bounds [of "length xs"] d(2) xs by auto
  moreover obtain siblings where "mt_prove_leaf m i = Inr (map Some siblings)"
    "proof_root cr (length xs) i (xs ! i) siblings = Some (merkle_root cr xs)"
    using prove_represents [OF assms] by blast
  ultimately have "\<exists>siblings d. mt_prove_leaf m i = Inr (map Some siblings) \<and> mt_depth m = Some d \<and> length siblings \<le> d
      \<and> proof_root cr (length xs) i (xs ! i) siblings = mt_root m"
    using d(1) top proof_root_length [of cr "length xs" i "xs ! i" siblings] by auto
  moreover have "x = xs ! i"
    if "length x = 32" "\<forall>s\<in>set siblings. length s = 32" "proof_root cr (length xs) i x siblings = mt_root m"
      "inj_on (sha256 cr) (tree_messages cr xs \<union> proof_messages cr (length xs) i x siblings)" for x siblings
    using proof_root_sound [OF assms(1) that(4) Un_upper1 Un_upper2 assms(3) hashes that(1, 2)] that(3) top by simp
  ultimately show ?thesis by blast
qed

theorem merkle_proofs_witness:
  "\<exists>m siblings. MerkleTree_new pad_crypto [replicate 32 5, replicate 32 2, replicate 32 3] = Inr m
     \<and> mt_prove_leaf m 1 = Inr (map Some siblings)
     \<and> proof_root pad_crypto 3 1 (replicate 32 2) siblings = mt_root m
     \<and> proof_root pad_crypto 3 0 (replicate 32 9) [replicate 32 2, replicate 32 3] \<noteq> mt_root m"
proof -
  let ?xs = "[replicate 32 5, replicate 32 2, replicate 32 3] :: bytes list" and ?s = "[replicate 32 2, replicate 32 3] :: bytes list"
  obtain m where m: "MerkleTree_new pad_crypto ?xs = Inr m" "represents pad_crypto m ?xs"
    using new_represents [of pad_crypto ?xs] by auto
  have inj: "inj_on (sha256 pad_crypto) (tree_messages pad_crypto ?xs \<union> proof_messages pad_crypto (length ?xs) 0 (replicate 32 9) ?s)"
    unfolding inj_on_def by code_simp
  note first = merkle_proofs [OF crypto_ok_pad_crypto m(2), of 1, THEN conjunct1]
  note second = merkle_proofs [OF crypto_ok_pad_crypto m(2), of 0, THEN conjunct2, rule_format, of "replicate 32 9" ?s]
  have "(replicate 32 9 :: bytes) \<noteq> ?xs ! 0" by simp
  then have "proof_root pad_crypto 3 0 (replicate 32 9) ?s \<noteq> mt_root m" using second inj by (auto simp: numeral_3_eq_3)
  then show ?thesis using first m(1) by (auto simp: numeral_3_eq_3)
qed

section \<open>Reading the vector\<close>

text \<open>The first position of an element.\<close>

fun first_index :: "'a \<Rightarrow> 'a list \<Rightarrow> nat option" where
  "first_index x [] = None"
| "first_index x (y # ys) = (if y = x then Some 0 else map_option Suc (first_index x ys))"

lemma leaf_index_loop_first:
  assumes m: "represents cr m xs"
  shows "leaf_index_loop m x i = (case first_index x (drop i xs) of None \<Rightarrow> Inl (ValueErr ''Leaf not found'') | Some k \<Rightarrow> Inr (i + k))"
proof (induction "length xs - i" arbitrary: i)
  case 0
  then show ?case using m by (subst leaf_index_loop.simps) (simp add: mt_length_def represents_def)
next
  case (Suc n)
  then have i: "i < mt_length m" "i < length xs" using m by (simp_all add: mt_length_def represents_def)
  have "drop i xs = xs ! i # drop (Suc i) xs" using i(2) by (simp add: Cons_nth_drop_Suc)
  moreover have "leaf_index_loop m x (Suc i) =
      (case first_index x (drop (Suc i) xs) of None \<Rightarrow> Inl (ValueErr ''Leaf not found'') | Some k \<Rightarrow> Inr (Suc i + k))"
    using Suc by simp
  ultimately show ?case using i leaf_value [OF m i(2)] by (subst leaf_index_loop.simps) (auto split: option.split)
qed

lemma leaf_index_represents:
  "represents cr m xs \<Longrightarrow> mt_leaf_index m x = (case first_index x xs of None \<Rightarrow> Inl (ValueErr ''Leaf not found'') | Some k \<Rightarrow> Inr k)"
  using leaf_index_loop_first [of cr m xs x 0] by (simp add: mt_leaf_index_def split: option.split)

lemma first_index_Some: "first_index x xs = Some i \<longleftrightarrow> i < length xs \<and> xs ! i = x \<and> (\<forall>j<i. xs ! j \<noteq> x)"
proof (induction xs arbitrary: i)
  case (Cons y ys)
  then show ?case by (cases i) (auto simp: less_Suc_eq_0_disj)
qed simp

lemma first_index_None: "first_index x xs = None \<longleftrightarrow> x \<notin> set xs"
  by (induction xs) auto

section \<open>Commitments to maps\<close>

lemma root_of_hashes: "crypto_ok cr \<Longrightarrow> \<forall>x\<in>set xs. length x = 32 \<Longrightarrow> root_of cr xs = Inr (merkle_root cr xs)"
  using new_represents [of cr xs] represents_root by (auto simp: root_of_def)

lemma length_element_hash [simp]: "crypto_ok cr \<Longrightarrow> length (element_hash cr x) = 32"
  by (simp add: element_hash_def crypto_ok_def)

lemma element_hash_inject:
  "inj_on (sha256 cr) M \<Longrightarrow> [0] @ x \<in> M \<Longrightarrow> [0] @ y \<in> M \<Longrightarrow> element_hash cr x = element_hash cr y \<Longrightarrow> x = y"
  unfolding element_hash_def by (drule (3) inj_onD) simp

lemma element_hashes_inject:
  assumes "inj_on (sha256 cr) M" and "(@) [0] ` set xs \<subseteq> M" and "(@) [0] ` set ys \<subseteq> M" and "length xs = length ys"
    and "map (element_hash cr) xs = map (element_hash cr) ys"
  shows "xs = ys"
  using assms(4, 2, 3, 5)
proof (induction xs ys rule: list_induct2)
  case (Cons x xs y ys)
  then show ?case using element_hash_inject [OF assms(1), of x y] by simp
qed simp

text \<open>The messages hashed for the root over a list of elements: the elements behind their zero bytes, and the nodes.\<close>

definition root_messages :: "crypto \<Rightarrow> bytes list \<Rightarrow> bytes set" where
  "root_messages cr es = (@) [0] ` set es \<union> tree_messages cr (map (element_hash cr) es)"

lemma root_of_elements_inject:
  assumes "crypto_ok cr" and "inj_on (sha256 cr) M" and "root_messages cr xs \<subseteq> M" and "root_messages cr ys \<subseteq> M"
    and "length xs = length ys"
    and "merkle_root cr (map (element_hash cr) xs) = merkle_root cr (map (element_hash cr) ys)"
  shows "xs = ys"
  using merkle_root_inject [OF assms(1, 2) _ _ _ _ _ assms(6)] element_hashes_inject [OF assms(2)] assms(1, 3, 4, 5)
  by (simp add: root_messages_def)

definition map_hashes :: "crypto \<Rightarrow> ('a \<Rightarrow> bytes) \<Rightarrow> 'a list \<Rightarrow> bytes" where
  "map_hashes cr f items = merkle_root cr (map (\<lambda>i. element_hash cr (f i)) items)"

lemma commitment_eq:
  "crypto_ok cr \<Longrightarrow> get_merkleized_map_commitment cr d = res_bind (ser_compact_size (int (length d))) (\<lambda>b.
      Inr (b @ map_hashes cr fst (sorted_items d) @ map_hashes cr snd (sorted_items d)))"
  by (cases "ser_compact_size (int (length d))")
    (simp_all add: get_merkleized_map_commitment_def root_of_hashes map_hashes_def Let_def)

text \<open>The messages hashed for the commitment to a map.\<close>

definition map_messages :: "crypto \<Rightarrow> (bytes \<times> bytes) list \<Rightarrow> bytes set" where
  "map_messages cr d = root_messages cr (map fst (sorted_items d)) \<union> root_messages cr (map snd (sorted_items d))"

text \<open>
  C26: the commitment to a map binds. Two maps, whatever their order, with the same entries have the same commitment;
  and two maps with the same commitment have the same entries, as long as the hash function is injective on the messages
  hashed for the two: their keys and values, and the nodes of their trees.
\<close>

theorem map_commitment_binds:
  assumes "crypto_ok cr" and "dict_ok d" and "dict_ok d'" and "length d < 2 ^ 64" and "length d' < 2 ^ 64"
  shows "(map_of d = map_of d' \<longrightarrow> get_merkleized_map_commitment cr d = get_merkleized_map_commitment cr d')
    \<and> (get_merkleized_map_commitment cr d = get_merkleized_map_commitment cr d'
        \<and> inj_on (sha256 cr) (map_messages cr d \<union> map_messages cr d') \<longrightarrow> map_of d = map_of d')"
proof (intro conjI impI)
  assume "map_of d = map_of d'"
  then have "set d = set d'" using assms(2, 3) unfolding dict_ok_def by (metis map_of_inject_set)
  then have "sorted_items d = sorted_items d'"
    using assms(2, 3) unfolding sorted_items_def dict_ok_def
    by (intro map_sorted_distinct_set_unique) (auto simp: distinct_map)
  moreover from this have "length d = length d'" by (metis mset_sorted_items size_mset)
  ultimately show "get_merkleized_map_commitment cr d = get_merkleized_map_commitment cr d'"
    by (simp add: get_merkleized_map_commitment_def)
next
  assume "get_merkleized_map_commitment cr d = get_merkleized_map_commitment cr d' \<and> inj_on (sha256 cr) (map_messages cr d \<union> map_messages cr d')"
  then have eq: "get_merkleized_map_commitment cr d = get_merkleized_map_commitment cr d'"
    and inj: "inj_on (sha256 cr) (map_messages cr d \<union> map_messages cr d')" by simp_all
  have ok: "compact_ok (int (length d))" "compact_ok (int (length d'))" using assms(4, 5) by (simp_all add: compact_ok_def)
  then obtain b b' where b: "ser_compact_size (int (length d)) = Inr b" "ser_compact_size (int (length d')) = Inr b'"
    using ser_compact_size_ok by blast
  let ?s = "sorted_items d" and ?s' = "sorted_items d'"
  have n: "length d = length d'" and roots: "map_hashes cr fst ?s @ map_hashes cr snd ?s = map_hashes cr fst ?s' @ map_hashes cr snd ?s'"
    using compact.prefix_free [OF ok b] eq b by (auto simp: commitment_eq [OF assms(1)])
  have "length ?s = length ?s'" using n by (simp add: sorted_items_def)
  moreover have "length (map_hashes cr fst ?s) = 32" "length (map_hashes cr fst ?s') = 32"
    unfolding map_hashes_def by (rule merkle_root_length; use assms(1) in auto)+
  ultimately have "map_hashes cr fst ?s = map_hashes cr fst ?s'" "map_hashes cr snd ?s = map_hashes cr snd ?s'"
    using roots by simp_all
  then have "map fst ?s = map fst ?s'" "map snd ?s = map snd ?s'"
    using root_of_elements_inject [OF assms(1) inj] \<open>length ?s = length ?s'\<close>
    by (simp_all add: map_hashes_def map_messages_def comp_def le_supI1 le_supI2)
  then have "?s = ?s'" by (metis zip_map_fst_snd)
  then show "map_of d = map_of d'" using map_of_sorted_items assms(2, 3) by metis
qed

theorem map_commitment_binds_witness:
  "get_merkleized_map_commitment pad_crypto [([1], [2]), ([0], [3])] = get_merkleized_map_commitment pad_crypto [([0], [3]), ([1], [2])]
    \<and> get_merkleized_map_commitment pad_crypto [([1], [2]), ([0], [3])] \<noteq> get_merkleized_map_commitment pad_crypto [([0], [4]), ([1], [2])]"
proof -
  let ?d = "[([1], [2]), ([0], [3])] :: (bytes \<times> bytes) list" and ?p = "[([0], [3]), ([1], [2])] :: (bytes \<times> bytes) list"
    and ?d' = "[([0], [4]), ([1], [2])] :: (bytes \<times> bytes) list"
  have inj: "inj_on (sha256 pad_crypto) (map_messages pad_crypto ?d \<union> map_messages pad_crypto ?d')"
    unfolding inj_on_def by code_simp
  have ok: "dict_ok ?d" "dict_ok ?p" "dict_ok ?d'" by (simp_all add: dict_ok_def)
  have n: "length ?d < 2 ^ 64" "length ?p < 2 ^ 64" "length ?d' < 2 ^ 64" by simp_all
  have "map_of ?d = map_of ?p" by (simp add: fun_upd_twist)
  moreover have "map_of ?d [0] \<noteq> map_of ?d' [0]" by simp
  then have "map_of ?d \<noteq> map_of ?d'" by metis
  ultimately show ?thesis
    using map_commitment_binds [OF crypto_ok_pad_crypto ok(1, 2) n(1, 2), THEN conjunct1]
      map_commitment_binds [OF crypto_ok_pad_crypto ok(1, 3) n(1, 3), THEN conjunct2] inj by blast
qed

end
