(* ===== verification/Ledger_Spec.thy ===== *)
theory Ledger_Spec
  imports Ledger_Interpreter Merkle_Spec
begin

text \<open>
  What a Ledger device can read from the interpreter of its commands: preimages, leaves and proofs of what the host
  made known, piece by piece, and nothing else.
\<close>

section \<open>The invariant\<close>

text \<open>Preimages are known under their hash, trees under their root.\<close>

definition interpreter_ok :: "crypto \<Rightarrow> interpreter \<Rightarrow> bool" where
  "interpreter_ok cr ci \<longleftrightarrow>
     (\<forall>h p. map_of (ci_known_preimages ci) h = Some p \<longrightarrow> h = sha256 cr p)
     \<and> (\<forall>r mt. map_of (ci_known_trees ci) r = Some mt \<longrightarrow> (\<exists>xs. represents cr mt xs \<and> r = merkle_root cr xs))"

lemma interpreter_tree: "interpreter_ok cr ci \<Longrightarrow> map_of (ci_known_trees ci) r = Some mt \<Longrightarrow> \<exists>xs. represents cr mt xs \<and> r = merkle_root cr xs"
  and interpreter_preimage: "interpreter_ok cr ci \<Longrightarrow> map_of (ci_known_preimages ci) h = Some p \<Longrightarrow> h = sha256 cr p"
  by (auto simp: interpreter_ok_def)

lemma interpreter_ok_new: "interpreter_ok cr interpreter_new"
  by (simp add: interpreter_ok_def interpreter_new_def)

lemma add_known_preimage_ok: "interpreter_ok cr ci \<Longrightarrow> interpreter_ok cr (add_known_preimage cr el ci)"
  by (auto simp: interpreter_ok_def add_known_preimage_def update_conv' split: if_split_asm)

text \<open>What a list of elements adds.\<close>

definition known_preimages :: "crypto \<Rightarrow> bytes list \<Rightarrow> interpreter \<Rightarrow> interpreter" where
  "known_preimages cr elements ci = foldl (\<lambda>ci el. add_known_preimage cr (0 # el) ci) ci elements"

lemma known_preimages_simps [simp]:
  "known_preimages cr [] ci = ci"
  "known_preimages cr (el # els) ci = known_preimages cr els (add_known_preimage cr (0 # el) ci)"
  by (simp_all add: known_preimages_def)

lemma known_preimages_keeps [simp]:
  "ci_known_trees (known_preimages cr els ci) = ci_known_trees ci"
  "ci_yielded (known_preimages cr els ci) = ci_yielded ci" "ci_queue (known_preimages cr els ci) = ci_queue ci"
  by (induction els arbitrary: ci) (simp_all add: add_known_preimage_def)

lemma known_preimages_ok: "interpreter_ok cr ci \<Longrightarrow> interpreter_ok cr (known_preimages cr els ci)"
  by (induction els arbitrary: ci) (simp_all add: add_known_preimage_ok)

text \<open>A hash stays known, though another preimage of it may take its place.\<close>

lemma known_preimages_mono:
  "map_of (ci_known_preimages ci) h \<noteq> None \<Longrightarrow> map_of (ci_known_preimages (known_preimages cr els ci)) h \<noteq> None"
proof (induction els arbitrary: ci)
  case (Cons el els)
  show ?case unfolding known_preimages_simps
    by (rule Cons.IH) (use Cons.prems in \<open>simp add: add_known_preimage_def update_conv'\<close>)
qed simp

lemma known_preimages_element:
  "el \<in> set els \<Longrightarrow> map_of (ci_known_preimages (known_preimages cr els ci)) (element_hash cr el) \<noteq> None"
proof (induction els arbitrary: ci)
  case (Cons a els)
  show ?case
  proof (cases "el = a")
    case True
    show ?thesis unfolding known_preimages_simps
      by (rule known_preimages_mono) (simp add: True add_known_preimage_def update_conv' element_hash_def)
  qed (use Cons in simp)
qed simp

lemma add_known_list_eq:
  assumes "crypto_ok cr"
  shows "\<exists>mt. represents cr mt (map (element_hash cr) els)
    \<and> add_known_list cr els ci = (Inr (), (known_preimages cr els ci)\<lparr>ci_known_trees :=
        AList.update (merkle_root cr (map (element_hash cr) els)) mt (ci_known_trees ci)\<rparr>)"
proof -
  have "\<forall>x\<in>set (map (element_hash cr) els). length x = 32" using assms by simp
  then obtain mt where mt: "MerkleTree_new cr (map (element_hash cr) els) = Inr mt" "represents cr mt (map (element_hash cr) els)"
    using new_represents [OF assms] by blast
  then show ?thesis
    by (intro exI [of _ mt]) (simp add: add_known_list_def known_preimages_def [symmetric] Let_def represents_root)
qed

lemma add_known_list_ok:
  assumes "crypto_ok cr" and "interpreter_ok cr ci"
  shows "fst (add_known_list cr els ci) = Inr () \<and> interpreter_ok cr (snd (add_known_list cr els ci))"
proof -
  obtain mt where "represents cr mt (map (element_hash cr) els)"
    "add_known_list cr els ci = (Inr (), (known_preimages cr els ci)\<lparr>ci_known_trees :=
        AList.update (merkle_root cr (map (element_hash cr) els)) mt (ci_known_trees ci)\<rparr>)"
    using add_known_list_eq [OF assms(1)] by blast
  then show ?thesis using known_preimages_ok [OF assms(2), of els]
    by (auto simp: interpreter_ok_def update_conv')
qed

lemma add_known_mapping_ok:
  assumes "crypto_ok cr" and "interpreter_ok cr ci"
  shows "fst (add_known_mapping cr d ci) = Inr () \<and> interpreter_ok cr (snd (add_known_mapping cr d ci))"
proof -
  obtain ci' where one: "add_known_list cr (map fst (sorted_items d)) ci = (Inr (), ci')" "interpreter_ok cr ci'"
    using add_known_list_ok [OF assms, of "map fst (sorted_items d)"] by (metis prod.collapse)
  then show ?thesis
    using add_known_list_ok [OF assms(1) one(2), of "map snd (sorted_items d)"] by (simp add: add_known_mapping_def io_bind_def Let_def)
qed

section \<open>What a request changes\<close>

definition keeps_known :: "(interpreter, 'a) io \<Rightarrow> bool" where
  "keeps_known m \<longleftrightarrow> (\<forall>ci. ci_known_preimages (snd (m ci)) = ci_known_preimages ci \<and> ci_known_trees (snd (m ci)) = ci_known_trees ci)"

lemma keeps_parsed: "(\<And>x. keeps_known (f x)) \<Longrightarrow> keeps_known (parsed request r f)"
  by (auto simp: keeps_known_def parsed_def split: sum.split)

lemma keeps_commands:
  "keeps_known (yield_execute request)" "keeps_known (get_preimage_execute request)"
  "keeps_known (get_merkle_leaf_proof_execute request)" "keeps_known (get_merkle_leaf_index_execute request)"
  "keeps_known (get_more_elements_execute request)"
proof -
  show "keeps_known (yield_execute request)" by (simp add: keeps_known_def yield_execute_def)
  show "keeps_known (get_preimage_execute request)" unfolding get_preimage_execute_def
    by (intro keeps_parsed) (auto simp: keeps_known_def Let_def io_bind_def split: option.split sum.split)
  show "keeps_known (get_merkle_leaf_proof_execute request)" unfolding get_merkle_leaf_proof_execute_def
    by (intro keeps_parsed) (auto simp: keeps_known_def Let_def io_bind_def split: option.split sum.split)
  show "keeps_known (get_merkle_leaf_index_execute request)" unfolding get_merkle_leaf_index_execute_def
    by (intro keeps_parsed) (auto simp: keeps_known_def split: option.split sum.split)
  show "keeps_known (get_more_elements_execute request)"
    by (auto simp: keeps_known_def get_more_elements_execute_def Let_def split: list.split prod.split)
qed

lemma execute_keeps: "keeps_known (interpreter_execute request)"
  using keeps_commands [of request] by (auto simp: interpreter_execute_def keeps_known_def split: list.split)

section \<open>Answers fit one message\<close>

lemma length_res_concat_bound:
  "res_concat ms = Inr b \<Longrightarrow> (\<And>m x. m \<in> set ms \<Longrightarrow> m = Inr x \<Longrightarrow> length x \<le> k) \<Longrightarrow> length b \<le> k * length ms"
proof (induction ms arbitrary: b)
  case (Cons m ms)
  then obtain x r where "m = Inr x" "res_concat ms = Inr r" "b = x @ r" by (cases m) auto
  moreover from this have "length r \<le> k * length ms" "length x \<le> k" using Cons by simp_all
  ultimately show ?case by simp
qed simp

lemma length_to_bytes: "to_bytes n i = Inr b \<Longrightarrow> length b = n"
  by (auto simp: to_bytes_def split: if_split_asm)

lemma more_loop_bound:
  "more_loop k qs response n = (qs', response', n') \<Longrightarrow> \<forall>q\<in>set qs. length q = k \<Longrightarrow> length response \<le> 253
   \<Longrightarrow> length response' \<le> 253 \<and> (\<exists>taken. qs = taken @ qs' \<and> response' = response @ concat taken \<and> n' = n + length taken)"
proof (induction k qs response n rule: more_loop.induct)
  case (2 k q qs response n)
  show ?case
  proof (cases "length response + k \<le> 253")
    case True
    then obtain taken where "length response' \<le> 253" "qs = taken @ qs'" "response' = (response @ q) @ concat taken" "n' = n + 1 + length taken"
      using 2 by auto
    then show ?thesis by (auto intro!: exI [of _ "q # taken"])
  qed (use 2 in auto)
qed auto

lemma represented_hashes: "represents cr mt xs \<Longrightarrow> i < length xs \<Longrightarrow> length (xs ! i) = 32"
  by (simp add: represents_def)

lemma present_siblings [simp]: "res_map present (map Some xs) = Inr xs"
  by (induction xs) (simp_all add: present_def)

lemma to_bytes_byte [simp]: "n < 256 \<Longrightarrow> to_bytes (Suc 0) (int n) = Inr [of_nat n]"
  by (simp add: to_bytes_def be_bytes_def)

text \<open>The answers, once the request is parsed.\<close>

definition preimage_request :: "bytes reader" where
  "preimage_request = rd_bind (read_bytes 1) (\<lambda>first.
        if first \<noteq> [0] then rd_fail (RuntimeErr ''Unsupported request: the first byte should be 0'')
        else rd_bind (read_bytes 32) (\<lambda>req_hash. rd_bind assert_empty (\<lambda>_. rd_ret req_hash)))"

definition payload_size :: "bytes \<Rightarrow> bytes \<Rightarrow> nat" where
  "payload_size b p = min (254 - length b) (length p)"

lemma payload_size_bounds: "payload_size b p \<le> length p" "payload_size b p < 256" "payload_size b p \<le> 254 - length b"
  by (simp_all add: payload_size_def)

lemma get_preimage_eval:
  "get_preimage_execute request ci =
     (case fst (preimage_request (drop 1 request)) of
        Inl e \<Rightarrow> (Inl e, ci)
      | Inr h \<Rightarrow>
          (case map_of (ci_known_preimages ci) h of
             None \<Rightarrow> (Inl (RuntimeErr (''Requested unknown preimage for: '' @ hexlify h)), ci)
           | Some p \<Rightarrow>
               (case ser_compact_size (int (length p)) of
                  Inl e \<Rightarrow> (Inl e, ci)
                | Inr b \<Rightarrow> (Inr (b @ [of_nat (payload_size b p)] @ take (payload_size b p) p),
                    ci\<lparr>ci_queue := ci_queue ci @ map (\<lambda>x. [x]) (drop (payload_size b p) p)\<rparr>))))"
proof -
  have "to_bytes (Suc 0) (int (min (254 - length b) (length p))) = Inr [of_nat (min (254 - length b) (length p))]" for b p :: bytes
    by (rule to_bytes_byte) simp
  then show ?thesis
    by (auto simp: get_preimage_execute_def preimage_request_def parsed_def Let_def io_bind_def payload_size_def
        split: sum.split option.split)
qed

lemma preimage_bound:
  assumes "fst (get_preimage_execute request ci) = Inr answer"
  shows "length answer \<le> 255"
proof -
  have "length b \<le> 9" if "ser_compact_size n = Inr b" for n b using ser_compact_size_length [OF that] by (simp split: if_split_asm)
  then show ?thesis using assms
    by (auto simp: get_preimage_eval payload_size_def split: sum.split_asm option.split_asm) fastforce
qed

definition leaf_proof_request :: "(bytes \<times> nat \<times> nat) reader" where
  "leaf_proof_request = rd_bind (read_bytes 32) (\<lambda>root_hash. rd_bind read_varint (\<lambda>tree_size. rd_bind read_varint (\<lambda>leaf_index.
        rd_bind assert_empty (\<lambda>_. rd_ret (root_hash, tree_size, leaf_index)))))"

lemma leaf_proof_eval:
  assumes "crypto_ok cr" and "map_of (ci_known_trees ci) r = Some mt" and "represents cr mt xs" and "i < length xs"
    and "fst (leaf_proof_request (drop 1 request)) = Inr (r, length xs, i)" and "ci_queue ci = []" and "length xs < 2 ^ 64"
  shows "\<exists>siblings. proof_root cr (length xs) i (xs ! i) siblings = Some (merkle_root cr xs)
    \<and> (\<forall>s\<in>set siblings. length s = 32)
    \<and> get_merkle_leaf_proof_execute request ci =
        (Inr (xs ! i @ [of_nat (length siblings), of_nat (min 6 (length siblings))] @ concat (take 6 siblings)),
         ci\<lparr>ci_queue := drop 6 siblings\<rparr>)"
proof -
  obtain siblings where s: "mt_prove_leaf mt i = Inr (map Some siblings)" "\<forall>s\<in>set siblings. length s = 32"
    "proof_root cr (length xs) i (xs ! i) siblings = Some (merkle_root cr xs)"
    using prove_represents [OF assms(1, 3, 4)] by blast
  have few: "length siblings < 256" using proof_root_length [OF s(3), of 64] assms(7) by simp
  have get: "res_bind (mt_get mt i) present = Inr (xs ! i)" using get_represents [OF assms(3), of i] assms(4) by (simp add: present_def)
  have "mt_length mt = length xs" using assms(3) by (simp add: mt_length_def represents_def)
  moreover have "length siblings - (length siblings - min 6 (length siblings)) = min 6 (length siblings)" by simp
  moreover have "drop (min 6 (length siblings)) siblings = drop 6 siblings" "take (min 6 (length siblings)) siblings = take 6 siblings"
    by (simp_all add: min_def)
  moreover have "to_bytes (Suc 0) (int (min 6 (length siblings))) = Inr [of_nat (min 6 (length siblings))]"
    by (rule to_bytes_byte) simp
  ultimately have "get_merkle_leaf_proof_execute request ci =
        (Inr (xs ! i @ [of_nat (length siblings), of_nat (min 6 (length siblings))] @ concat (take 6 siblings)),
         ci\<lparr>ci_queue := drop 6 siblings\<rparr>)"
    using assms(2, 4, 5, 6) s(1) few get res_concat_map_Inr [of "take 6 siblings" Inr "\<lambda>x. x"]
    by (auto simp: get_merkle_leaf_proof_execute_def leaf_proof_request_def [symmetric] parsed_def Let_def io_bind_def)
  then show ?thesis using s(2, 3) by blast
qed

lemma read_bytes_Inr: "read_bytes n s = (Inr b, s') \<longleftrightarrow> n < 2 ^ 63 \<and> n \<le> length s \<and> b = take n s \<and> s' = drop n s"
  by (auto simp: read_bytes_def rd_bind_def py_read_def)

lemma read_varint_bound: "read_varint s = (Inr n, s') \<Longrightarrow> n < 2 ^ 64"
proof -
  assume r: "read_varint s = (Inr n, s')"
  have u: "v < 256 ^ k" if "read_uint k little t = (Inr v, t')" for v k little t t'
    using that le_val_less [of "take k t"] le_val_less [of "rev (take k t)"]
    by (auto simp: read_uint_def rd_bind_eq_Inr read_bytes_Inr be_val_def split: if_split_asm)
  from r obtain p t where "read_uint 1 False s = (Inr p, t)"
    "n = p \<or> read_uint 2 True t = (Inr n, s') \<or> read_uint 4 True t = (Inr n, s') \<or> read_uint 8 True t = (Inr n, s')"
    by (auto simp: read_varint_def rd_bind_eq_Inr split: if_split_asm)
  then have "n < 256 ^ 1 \<or> n < 256 ^ 2 \<or> n < 256 ^ 4 \<or> n < 256 ^ 8" using u by metis
  then show ?thesis by auto
qed

lemma read_varint_compact:
  assumes "ser_compact_size (int n) = Inr b"
  shows "read_varint (b @ rest) = (Inr n, rest)"
proof -
  have one: "read_uint 1 False (x # s) = (Inr (unat x), s)" for x s
    by (simp add: read_uint_def rd_bind_def read_bytes_def py_read_def be_val_def)
  have more: "read_uint k True (le_bytes k n @ s) = (Inr n, s)" if "n < 256 ^ k" "k < 2 ^ 63" for k s
    using that by (simp add: read_uint_def rd_bind_def read_bytes_def py_read_def del: le_bytes.simps)
  consider "n < 253" | "253 \<le> n" "n < 0x10000" | "0x10000 \<le> n" "n < 0x100000000" | "0x100000000 \<le> n" by linarith
  then show ?thesis
  proof cases
    case 1
    then have "b = [of_nat n]" using assms by (simp add: ser_compact_size_def)
    then show ?thesis using 1 one [of "of_nat n" rest] by (simp add: read_varint_def rd_bind_def)
  next
    case 2
    then have "b = 253 # le_bytes 2 n" using assms by (auto simp: ser_compact_size_def res_concat_Cons simp del: le_bytes.simps)
    then show ?thesis using 2 one [of 253] more [of 2 rest] by (simp add: read_varint_def rd_bind_def del: le_bytes.simps)
  next
    case 3
    then have "b = 254 # le_bytes 4 n" using assms by (auto simp: ser_compact_size_def res_concat_Cons simp del: le_bytes.simps)
    then show ?thesis using 3 one [of 254] more [of 4 rest] by (simp add: read_varint_def rd_bind_def del: le_bytes.simps)
  next
    case 4
    then have "b = 255 # le_bytes 8 n" "n < 256 ^ 8" using assms by (auto simp: ser_compact_size_def res_concat_Cons simp del: le_bytes.simps split: if_split_asm)
    then show ?thesis using 4 one [of 255] more [of 8 rest] by (simp add: read_varint_def rd_bind_def del: le_bytes.simps)
  qed
qed

lemma leaf_proof_bound:
  assumes "crypto_ok cr" and "interpreter_ok cr ci" and "fst (get_merkle_leaf_proof_execute request ci) = Inr answer"
  shows "length answer \<le> 255"
proof -
  obtain r n i where req: "fst (leaf_proof_request (drop 1 request)) = Inr (r, n, i)"
    using assms(3) by (cases "fst (leaf_proof_request (drop 1 request))")
      (auto simp: get_merkle_leaf_proof_execute_def leaf_proof_request_def [symmetric] parsed_def)
  have n: "n < 2 ^ 64"
  proof -
    obtain s' where "leaf_proof_request (drop 1 request) = (Inr (r, n, i), s')" using req by (metis prod.collapse)
    then show ?thesis by (auto simp: leaf_proof_request_def rd_bind_eq_Inr dest: read_varint_bound)
  qed
  have known: "\<exists>mt. map_of (ci_known_trees ci) r = Some mt \<and> i < mt_length mt \<and> n = mt_length mt \<and> ci_queue ci = []"
    using assms(3) req
    by (auto simp: get_merkle_leaf_proof_execute_def leaf_proof_request_def [symmetric] parsed_def split: option.split_asm if_split_asm)
  then obtain mt xs where mt: "map_of (ci_known_trees ci) r = Some mt" "represents cr mt xs" "i < mt_length mt" "n = mt_length mt" "ci_queue ci = []"
    using interpreter_tree [OF assms(2)] by blast
  then have xs: "i < length xs" "n = length xs" by (simp_all add: mt_length_def represents_def)
  obtain siblings where s: "\<forall>s\<in>set siblings. length s = 32"
      "answer = xs ! i @ [of_nat (length siblings), of_nat (min 6 (length siblings))] @ concat (take 6 siblings)"
    using leaf_proof_eval [OF assms(1) mt(1, 2) xs(1) req [unfolded xs(2)] mt(5)] n xs(2) assms(3) by auto
  have "length (concat (take 6 siblings)) = 32 * min 6 (length siblings)"
  proof -
    have "map length (take 6 siblings) = replicate (min 6 (length siblings)) 32"
      using s(1) by (intro nth_equalityI) auto
    then show ?thesis by (simp add: length_concat sum_list_replicate)
  qed
  then show ?thesis using s(2) represented_hashes [OF mt(2) xs(1)] by simp
qed

lemma more_elements_eval:
  assumes "ci_queue ci = qs" and "qs \<noteq> []" and "\<forall>q\<in>set qs. length q = k" and "k \<le> 253"
  shows "\<exists>taken rest. qs = taken @ rest \<and> taken \<noteq> [] \<and> length (concat taken) \<le> 253
    \<and> get_more_elements_execute [c] ci = (res_concat [to_bytes 1 (int (length taken)), Inr [of_nat k], Inr (concat taken)], ci\<lparr>ci_queue := rest\<rparr>)"
proof -
  obtain q qs' where q: "qs = q # qs'" using assms(2) by (cases qs) auto
  obtain rest response n where loop: "more_loop k qs [] 0 = (rest, response, n)" by (cases "more_loop k qs [] 0") auto
  obtain taken where t: "length response \<le> 253" "qs = taken @ rest" "response = concat taken" "n = length taken"
    using more_loop_bound [OF loop assms(3)] by auto
  have "rest \<noteq> qs" using loop more_loop_bound [of k qs' q 1] assms(3, 4) q by fastforce
  then have "taken \<noteq> []" using t(2) by auto
  moreover have "get_more_elements_execute [c] ci
      = (res_concat [to_bytes 1 (int (length taken)), Inr [of_nat k], Inr (concat taken)], ci\<lparr>ci_queue := rest\<rparr>)"
    using assms q loop t by (auto simp: get_more_elements_execute_def Let_def)
  ultimately show ?thesis using t by blast
qed

lemma length_concat3: "res_concat [a, b, Inr c] = Inr r \<Longrightarrow> \<exists>x y. a = Inr x \<and> b = Inr y \<and> length r = length x + length y + length c"
  by (cases a; cases b) auto

lemma more_elements_bound:
  assumes "fst (get_more_elements_execute request ci) = Inr answer"
  shows "length answer \<le> 255"
proof -
  have len: "length request = 1" using assms by (simp add: get_more_elements_execute_def split: if_split_asm)
  then have one: "\<not> (length request \<noteq> 1)" by simp
  from len obtain q qs where queue: "ci_queue ci = q # qs" using assms by (cases "ci_queue ci") (simp_all add: get_more_elements_execute_def)
  have differ: "\<not> (\<exists>x\<in>set (ci_queue ci). length x \<noteq> length q)"
    using assms len queue by (simp add: get_more_elements_execute_def Let_def split: if_split_asm)
  then have same: "\<forall>x\<in>set (q # qs). length x = length q" using queue by (metis (no_types))
  obtain rest response n where loop: "more_loop (length q) (q # qs) [] 0 = (rest, response, n)" by (cases "more_loop (length q) (q # qs) [] 0") auto
  have "length response \<le> 253" by (rule conjunct1 [OF more_loop_bound [OF loop same]]) simp
  moreover have fst: "fst (get_more_elements_execute request ci) = res_concat [to_bytes 1 (int n), to_bytes 1 (int (length q)), Inr response]"
  proof -
    have "get_more_elements_execute request ci = (res_concat [to_bytes 1 (int n), to_bytes 1 (int (length q)), Inr response], ci\<lparr>ci_queue := rest\<rparr>)"
      unfolding get_more_elements_execute_def Let_def queue list.case loop prod.case
        if_not_P [OF one] if_not_P [OF differ [unfolded queue]] ..
    then show ?thesis by simp
  qed
  from fst assms have "res_concat [to_bytes 1 (int n), to_bytes 1 (int (length q)), Inr response] = Inr answer" by (rule trans [OF sym])
  then obtain x y where xy: "to_bytes 1 (int n) = Inr x" "to_bytes 1 (int (length q)) = Inr y" "length answer = length x + length y + length response"
    using length_concat3 by blast
  ultimately show ?thesis using length_to_bytes [OF xy(1)] length_to_bytes [OF xy(2)] by simp
qed

lemma leaf_index_bound:
  assumes "fst (get_merkle_leaf_index_execute request ci) = Inr answer"
  shows "length answer \<le> 255"
proof -
  have small: "length b \<le> 254" if "ser_compact_size n = Inr b" for n b using ser_compact_size_length [OF that] by (simp split: if_split_asm)
  have one: "length b = 1" if "to_bytes (Suc 0) n = Inr b" for n b using length_to_bytes [of 1] that by simp
  have "\<exists>f i x y. to_bytes (Suc 0) f = Inr x \<and> ser_compact_size i = Inr y \<and> answer = x @ y"
    using assms
    by (auto simp: get_merkle_leaf_index_execute_def parsed_def res_concat_Cons split: sum.split_asm option.split_asm prod.split_asm)
  then show ?thesis using small one by fastforce
qed

text \<open>
  C27: every answer of the interpreter fits one message: it has at most 255 bytes, whatever the device requests and in
  whatever state of the queue; and no request changes what is known.
\<close>

theorem interpreter_answers_fit:
  assumes "crypto_ok cr" and "interpreter_ok cr ci"
  shows "(\<forall>answer. fst (interpreter_execute request ci) = Inr answer \<longrightarrow> length answer \<le> 255)
    \<and> interpreter_ok cr (snd (interpreter_execute request ci))"
proof
  show "\<forall>answer. fst (interpreter_execute request ci) = Inr answer \<longrightarrow> length answer \<le> 255"
    using leaf_proof_bound [OF assms] preimage_bound leaf_index_bound more_elements_bound
    by (auto simp: interpreter_execute_def yield_execute_def split: list.split)
  show "interpreter_ok cr (snd (interpreter_execute request ci))"
    using execute_keeps [of request] assms(2) by (simp add: keeps_known_def interpreter_ok_def)
qed

definition example_interpreter :: interpreter where
  "example_interpreter = snd (add_known_list pad_crypto [[7], [8]] interpreter_new)"

lemma example_interpreter_ok: "interpreter_ok pad_crypto example_interpreter"
  unfolding example_interpreter_def using add_known_list_ok [OF crypto_ok_pad_crypto interpreter_ok_new] by simp

theorem interpreter_answers_fit_witness:
  "interpreter_ok pad_crypto (snd (interpreter_execute [0x40, 0] example_interpreter))"
  using interpreter_answers_fit [OF crypto_ok_pad_crypto example_interpreter_ok] by blast

section \<open>Reading in pieces\<close>

lemma execute_more: "interpreter_execute [GET_MORE_ELEMENTS] = get_more_elements_execute [GET_MORE_ELEMENTS]"
  by (simp add: interpreter_execute_def command_codes)

text \<open>The queue is read with as many requests as it takes; each answer starts with the number and the length of its elements.\<close>

lemma queue_read:
  assumes "0 < k" and "k \<le> 253"
  shows "ci_queue ci = qs \<Longrightarrow> \<forall>q\<in>set qs. length q = k \<Longrightarrow>
    \<exists>m answers. io_map interpreter_execute (replicate m [GET_MORE_ELEMENTS]) ci = (Inr answers, ci\<lparr>ci_queue := []\<rparr>)
      \<and> concat (map (drop 2) answers) = concat qs"
proof (induction "length qs" arbitrary: qs ci rule: less_induct)
  case less
  show ?case
  proof (cases "qs = []")
    case True
    then show ?thesis using less.prems(1) by (intro exI [of _ 0] exI [of _ "[]"]) simp
  next
    case False
    obtain taken rest where t: "qs = taken @ rest" "taken \<noteq> []" "length (concat taken) \<le> 253"
      "get_more_elements_execute [GET_MORE_ELEMENTS] ci
        = (res_concat [to_bytes 1 (int (length taken)), Inr [of_nat k], Inr (concat taken)], ci\<lparr>ci_queue := rest\<rparr>)"
      using more_elements_eval [OF less.prems(1) False less.prems(2) assms(2)] by blast
    have "length taken * k = length (concat taken)"
      using less.prems(2) t(1) by (induction taken arbitrary: qs) auto
    then have "length taken \<le> 253" using t(3) assms(1) by (metis le_trans mult.right_neutral mult_le_mono2 One_nat_def Suc_leI)
    then have one: "interpreter_execute [GET_MORE_ELEMENTS] ci = (Inr ([of_nat (length taken), of_nat k] @ concat taken), ci\<lparr>ci_queue := rest\<rparr>)"
      using t(4) by (simp add: execute_more)
    obtain m answers where IH: "io_map interpreter_execute (replicate m [GET_MORE_ELEMENTS]) (ci\<lparr>ci_queue := rest\<rparr>) = (Inr answers, ci\<lparr>ci_queue := []\<rparr>)"
      "concat (map (drop 2) answers) = concat rest"
      using less.hyps [of rest "ci\<lparr>ci_queue := rest\<rparr>"] less.prems(2) t(1, 2) by auto
    show ?thesis
      by (intro exI [of _ "Suc m"] exI [of _ "([of_nat (length taken), of_nat k] @ concat taken) # answers"])
        (use one IH t(1) in \<open>simp add: io_bind_def\<close>)
  qed
qed

lemma preimage_request_parse:
  assumes "length h = 32"
  shows "fst (preimage_request (0 # h)) = Inr h"
  using assms by (simp add: preimage_request_def read_bytes_def assert_empty_def rd_bind_def py_read_def)

text \<open>
  C28: a device can read every preimage that is known. After the request for its hash, with nothing left in the queue,
  enough requests for more elements give the rest; the payloads of the answers, after their headers, are the preimage,
  which has that hash, and the queue is empty again.
\<close>

theorem preimage_read:
  assumes "interpreter_ok cr ci" and "ci_queue ci = []" and "length h = 32"
    and "map_of (ci_known_preimages ci) h = Some p" and "length p < 2 ^ 64"
  shows "\<exists>m header first answers. io_map interpreter_execute ((GET_PREIMAGE # 0 # h) # replicate m [GET_MORE_ELEMENTS]) ci
      = (Inr (first # answers), ci)
    \<and> ser_compact_size (int (length p)) = Inr header \<and> take (length header) first = header
    \<and> drop (length header + 1) first @ concat (map (drop 2) answers) = p \<and> sha256 cr p = h"
proof -
  obtain b where b: "ser_compact_size (int (length p)) = Inr b"
    using ser_compact_size_ok [of "int (length p)"] assms(5) by (auto simp: compact_ok_def)
  let ?n = "payload_size b p" and ?ci = "ci\<lparr>ci_queue := map (\<lambda>x. [x]) (drop (payload_size b p) p)\<rparr>"
  have "get_preimage_execute (GET_PREIMAGE # 0 # h) ci = (Inr (b @ [of_nat ?n] @ take ?n p), ?ci)"
    using assms(2, 4) b by (simp add: get_preimage_eval preimage_request_parse [OF assms(3)])
  then have first: "interpreter_execute (GET_PREIMAGE # 0 # h) ci = (Inr (b @ [of_nat ?n] @ take ?n p), ?ci)"
    by (simp add: interpreter_execute_def command_codes)
  obtain m answers where more: "io_map interpreter_execute (replicate m [GET_MORE_ELEMENTS]) ?ci = (Inr answers, ?ci\<lparr>ci_queue := []\<rparr>)"
    "concat (map (drop 2) answers) = concat (map (\<lambda>x. [x]) (drop ?n p))"
    using queue_read [of 1 ?ci] by auto
  have "?ci\<lparr>ci_queue := []\<rparr> = ci" using assms(2) by simp
  then have "io_map interpreter_execute ((GET_PREIMAGE # 0 # h) # replicate m [GET_MORE_ELEMENTS]) ci
      = (Inr ((b @ [of_nat ?n] @ take ?n p) # answers), ci)"
    using first more(1) by (simp add: io_bind_def)
  moreover have "concat (map (\<lambda>x. [x]) xs) = xs" for xs :: bytes by (induction xs) simp_all
  then have "drop (length b + 1) (b @ [of_nat ?n] @ take ?n p) @ concat (map (drop 2) answers) = p" using more(2) by simp
  ultimately show ?thesis using b interpreter_preimage [OF assms(1, 4)]
    by (intro exI [of _ m] exI [of _ b] exI [of _ "b @ [of_nat ?n] @ take ?n p"] exI [of _ answers]) simp
qed

theorem preimage_read_witness:
  "\<exists>m first answers. io_map interpreter_execute ((GET_PREIMAGE # 0 # sha256 pad_crypto (replicate 300 5)) # replicate m [GET_MORE_ELEMENTS])
      (add_known_preimage pad_crypto (replicate 300 5) interpreter_new)
    = (Inr (first # answers), add_known_preimage pad_crypto (replicate 300 5) interpreter_new)
    \<and> drop 4 first @ concat (map (drop 2) answers) = replicate 300 5"
proof -
  let ?p = "replicate 300 5 :: bytes" and ?ci = "add_known_preimage pad_crypto (replicate 300 5) interpreter_new"
  have ok: "interpreter_ok pad_crypto ?ci" by (rule add_known_preimage_ok [OF interpreter_ok_new])
  have known: "map_of (ci_known_preimages ?ci) (sha256 pad_crypto ?p) = Some ?p" "ci_queue ?ci = []" "length (sha256 pad_crypto ?p) = 32"
    using crypto_ok_pad_crypto by (simp_all add: add_known_preimage_def interpreter_new_def update_conv' crypto_ok_def)
  obtain m header first answers where read: "io_map interpreter_execute ((GET_PREIMAGE # 0 # sha256 pad_crypto ?p) # replicate m [GET_MORE_ELEMENTS]) ?ci
      = (Inr (first # answers), ?ci)"
    "ser_compact_size (int (length ?p)) = Inr header" "drop (length header + 1) first @ concat (map (drop 2) answers) = ?p"
    using preimage_read [OF ok known(2, 3, 1)] by auto
  have "length header = 3" using ser_compact_size_length [OF read(2)] by simp
  then show ?thesis using read(1, 3) by auto
qed

lemma leaf_proof_request_parse:
  assumes "length r = 32" and "ser_compact_size (int n) = Inr bn" and "ser_compact_size (int i) = Inr bi"
  shows "fst (leaf_proof_request (r @ bn @ bi)) = Inr (r, n, i)"
  using assms(1) read_varint_compact [OF assms(2), of bi] read_varint_compact [OF assms(3), of "[]"]
  by (simp add: leaf_proof_request_def read_bytes_def assert_empty_def rd_bind_def py_read_def)

text \<open>A leaf and its siblings, in pieces.\<close>

lemma leaf_read:
  assumes "crypto_ok cr" and "map_of (ci_known_trees ci) r = Some mt" and "represents cr mt xs" and "r = merkle_root cr xs"
    and "i < length xs" and "length xs < 2 ^ 64" and "ci_queue ci = []"
    and "ser_compact_size (int (length xs)) = Inr bn" and "ser_compact_size (int i) = Inr bi"
  shows "\<exists>m first answers siblings. io_map interpreter_execute ((GET_MERKLE_LEAF_PROOF # r @ bn @ bi) # replicate m [GET_MORE_ELEMENTS]) ci
      = (Inr (first # answers), ci)
    \<and> take 32 first = xs ! i \<and> unat (first ! 32) = length siblings \<and> drop 34 first @ concat (map (drop 2) answers) = concat siblings
    \<and> (\<forall>s\<in>set siblings. length s = 32) \<and> proof_root cr (length xs) i (xs ! i) siblings = Some r"
proof -
  have len: "length r = 32" using merkle_root_length [OF assms(1), of xs] assms(3, 4) by (simp add: represents_def)
  obtain siblings where s: "proof_root cr (length xs) i (xs ! i) siblings = Some (merkle_root cr xs)" "\<forall>s\<in>set siblings. length s = 32"
    "get_merkle_leaf_proof_execute (GET_MERKLE_LEAF_PROOF # r @ bn @ bi) ci =
        (Inr (xs ! i @ [of_nat (length siblings), of_nat (min 6 (length siblings))] @ concat (take 6 siblings)), ci\<lparr>ci_queue := drop 6 siblings\<rparr>)"
    using leaf_proof_eval [OF assms(1, 2, 3, 5) _ assms(7, 6), of "GET_MERKLE_LEAF_PROOF # r @ bn @ bi"]
      leaf_proof_request_parse [OF len assms(8, 9)] by auto
  let ?first = "xs ! i @ [of_nat (length siblings), of_nat (min 6 (length siblings))] @ concat (take 6 siblings)"
  have first: "interpreter_execute (GET_MERKLE_LEAF_PROOF # r @ bn @ bi) ci = (Inr ?first, ci\<lparr>ci_queue := drop 6 siblings\<rparr>)"
    using s(3) by (simp add: interpreter_execute_def command_codes)
  obtain m answers where more: "io_map interpreter_execute (replicate m [GET_MORE_ELEMENTS]) (ci\<lparr>ci_queue := drop 6 siblings\<rparr>)
      = (Inr answers, ci\<lparr>ci_queue := []\<rparr>)" "concat (map (drop 2) answers) = concat (drop 6 siblings)"
    using queue_read [of 32 "ci\<lparr>ci_queue := drop 6 siblings\<rparr>" "drop 6 siblings"] s(2) by (auto dest: in_set_dropD)
  have "ci\<lparr>ci_queue := []\<rparr> = ci" using assms(7) by simp
  then have "io_map interpreter_execute ((GET_MERKLE_LEAF_PROOF # r @ bn @ bi) # replicate m [GET_MORE_ELEMENTS]) ci = (Inr (?first # answers), ci)"
    using first more(1) by (simp add: io_bind_def)
  moreover have "length (xs ! i) = 32" using represented_hashes [OF assms(3, 5)] .
  moreover have "length siblings < 256" using proof_root_length [OF s(1), of 64] assms(6) by simp
  moreover have "concat (take 6 siblings) @ concat (drop 6 siblings) = concat siblings" by (simp flip: concat_append)
  ultimately show ?thesis using s(1, 2) more(2) assms(4)
    by (intro exI [of _ m] exI [of _ ?first] exI [of _ answers] exI [of _ siblings]) (simp add: nth_append)
qed

text \<open>
  A device can read a list it has the commitment to. After \<open>add_known_list\<close> it gets the leaf at each position
  with siblings that lead to the root, which is computed from the elements alone; and the preimage it then gets for the
  leaf is the element behind a zero byte, unless that is another message with the same hash.
\<close>

theorem list_read:
  assumes "crypto_ok cr" and "interpreter_ok cr ci" and "ci_queue ci = []" and "i < length els" and "length els < 2 ^ 64"
    and "add_known_list cr els ci = (Inr (), ci')"
    and "ser_compact_size (int (length els)) = Inr bn" and "ser_compact_size (int i) = Inr bi"
  shows "\<exists>m first answers siblings p. io_map interpreter_execute
        ((GET_MERKLE_LEAF_PROOF # merkle_root cr (map (element_hash cr) els) @ bn @ bi) # replicate m [GET_MORE_ELEMENTS]) ci'
      = (Inr (first # answers), ci')
    \<and> take 32 first = element_hash cr (els ! i) \<and> drop 34 first @ concat (map (drop 2) answers) = concat siblings
    \<and> proof_root cr (length els) i (element_hash cr (els ! i)) siblings = Some (merkle_root cr (map (element_hash cr) els))
    \<and> map_of (ci_known_preimages ci') (element_hash cr (els ! i)) = Some p
    \<and> sha256 cr p = sha256 cr (0 # els ! i)"
proof -
  let ?xs = "map (element_hash cr) els"
  obtain mt where mt: "represents cr mt ?xs" "ci' = (known_preimages cr els ci)\<lparr>ci_known_trees :=
        AList.update (merkle_root cr ?xs) mt (ci_known_trees ci)\<rparr>"
    using add_known_list_eq [OF assms(1), of els ci] assms(6) by auto
  have ok: "interpreter_ok cr ci'" using add_known_list_ok [OF assms(1, 2), of els] assms(6) by simp
  have "map_of (ci_known_trees ci') (merkle_root cr ?xs) = Some mt" "ci_queue ci' = []" using mt(2) assms(3) by (simp_all add: update_conv')
  from leaf_read [OF assms(1) this(1) mt(1) refl _ _ this(2), of i bn bi] assms(4, 5, 7, 8)
  obtain m first answers siblings where read: "io_map interpreter_execute
        ((GET_MERKLE_LEAF_PROOF # merkle_root cr ?xs @ bn @ bi) # replicate m [GET_MORE_ELEMENTS]) ci' = (Inr (first # answers), ci')"
    "take 32 first = element_hash cr (els ! i)" "drop 34 first @ concat (map (drop 2) answers) = concat siblings"
    "proof_root cr (length els) i (element_hash cr (els ! i)) siblings = Some (merkle_root cr ?xs)"
    by auto
  obtain p where p: "map_of (ci_known_preimages ci') (element_hash cr (els ! i)) = Some p"
    using known_preimages_element [of "els ! i" els cr ci] assms(4) mt(2) by auto
  then have "sha256 cr p = sha256 cr (0 # els ! i)" using interpreter_preimage [OF ok p] by (simp add: element_hash_def)
  then show ?thesis using read p by blast
qed

theorem list_read_witness:
  "\<exists>ci' m answers siblings. add_known_list pad_crypto [[7], [8], [9]] interpreter_new = (Inr (), ci')
    \<and> io_map interpreter_execute
        ((GET_MERKLE_LEAF_PROOF # merkle_root pad_crypto (map (element_hash pad_crypto) [[7], [8], [9]]) @ [3] @ [1]) # replicate m [GET_MORE_ELEMENTS]) ci'
      = (Inr answers, ci')
    \<and> proof_root pad_crypto 3 1 (element_hash pad_crypto [8]) siblings = Some (merkle_root pad_crypto (map (element_hash pad_crypto) [[7], [8], [9]]))"
proof -
  obtain ci' where ci': "add_known_list pad_crypto [[7], [8], [9]] interpreter_new = (Inr (), ci')"
    using add_known_list_eq [OF crypto_ok_pad_crypto, of "[[7], [8], [9]]" interpreter_new] by auto
  have sizes: "ser_compact_size (int (length [[7::byte], [8], [9]])) = Inr [3]" "ser_compact_size (int 1) = Inr [1]"
    by (simp_all add: ser_compact_size_def)
  have empty: "ci_queue interpreter_new = []" by (simp add: interpreter_new_def)
  have "1 < length [[7::byte], [8], [9]]" "length [[7::byte], [8], [9]] < 2 ^ 64" by simp_all
  from list_read [OF crypto_ok_pad_crypto interpreter_ok_new empty this ci' sizes]
  obtain m first answers siblings where read: "io_map interpreter_execute
        ((GET_MERKLE_LEAF_PROOF # merkle_root pad_crypto (map (element_hash pad_crypto) [[7], [8], [9]]) @ [3] @ [1]) # replicate m [GET_MORE_ELEMENTS]) ci'
      = (Inr (first # answers), ci')"
    "proof_root pad_crypto (length [[7::byte], [8], [9]]) 1 (element_hash pad_crypto ([[7], [8], [9]] ! 1)) siblings
      = Some (merkle_root pad_crypto (map (element_hash pad_crypto) [[7], [8], [9]]))"
    by blast
  have "length [[7::byte], [8], [9]] = 3" "[[7::byte], [8], [9]] ! 1 = [8]" by simp_all
  then show ?thesis using ci' read(1) read(2) by metis
qed

text \<open>
  The position of a leaf. A device that asks for a leaf of a known tree gets its first position, or the answer that
  it is not there, and nothing changes.
\<close>

theorem leaf_index_read:
  assumes "crypto_ok cr" and "map_of (ci_known_trees ci) (merkle_root cr xs) = Some mt" and "represents cr mt xs"
    and "length xs < 2 ^ 64" and "length x = 32"
  shows "\<exists>b. interpreter_execute (GET_MERKLE_LEAF_INDEX # merkle_root cr xs @ x) ci
      = (Inr ((case first_index x xs of None \<Rightarrow> 0 | Some i \<Rightarrow> 1) # b), ci)
    \<and> ser_compact_size (int (case first_index x xs of None \<Rightarrow> 0 | Some i \<Rightarrow> i)) = Inr b"
proof -
  let ?i = "case first_index x xs of None \<Rightarrow> 0 | Some i \<Rightarrow> i"
  have len: "length (merkle_root cr xs) = 32" using merkle_root_length [OF assms(1), of xs] assms(3) by (simp add: represents_def)
  have "?i < 2 ^ 64" using assms(4) by (auto simp: first_index_Some split: option.split)
  then obtain b where b: "ser_compact_size (int ?i) = Inr b"
    using ser_compact_size_ok [of "int ?i"] by (auto simp: compact_ok_def)
  have "fst ((rd_bind (read_bytes 32) (\<lambda>root_hash. rd_bind (read_bytes 32) (\<lambda>leaf_hash. rd_bind assert_empty (\<lambda>_. rd_ret (root_hash, leaf_hash)))))
      (merkle_root cr xs @ x)) = Inr (merkle_root cr xs, x)"
    using len assms(5) by (simp add: read_bytes_def assert_empty_def rd_bind_def py_read_def)
  then have "get_merkle_leaf_index_execute (GET_MERKLE_LEAF_INDEX # merkle_root cr xs @ x) ci
      = (Inr ((case first_index x xs of None \<Rightarrow> 0 | Some i \<Rightarrow> 1) # b), ci)"
    using assms(2) leaf_index_represents [OF assms(3), of x] b to_bytes_byte [of 0] to_bytes_byte [of 1]
    by (auto simp: get_merkle_leaf_index_execute_def parsed_def split: option.split_asm)
  then show ?thesis using b by (simp add: interpreter_execute_def command_codes)
qed

theorem leaf_index_read_witness:
  "\<exists>ci'. add_known_list pad_crypto [[7], [8], [9]] interpreter_new = (Inr (), ci')
    \<and> interpreter_execute (GET_MERKLE_LEAF_INDEX # merkle_root pad_crypto (map (element_hash pad_crypto) [[7], [8], [9]]) @ element_hash pad_crypto [7]) ci'
      = (Inr [1, 0], ci')"
proof -
  let ?xs = "map (element_hash pad_crypto) [[7], [8], [9]]"
  obtain mt where mt: "represents pad_crypto mt ?xs" "add_known_list pad_crypto [[7], [8], [9]] interpreter_new
      = (Inr (), (known_preimages pad_crypto [[7], [8], [9]] interpreter_new)\<lparr>ci_known_trees :=
        AList.update (merkle_root pad_crypto ?xs) mt (ci_known_trees interpreter_new)\<rparr>)"
    using add_known_list_eq [OF crypto_ok_pad_crypto, of "[[7], [8], [9]]" interpreter_new] by blast
  define ci' where "ci' = (known_preimages pad_crypto [[7], [8], [9]] interpreter_new)\<lparr>ci_known_trees :=
        AList.update (merkle_root pad_crypto ?xs) mt (ci_known_trees interpreter_new)\<rparr>"
  have known: "map_of (ci_known_trees ci') (merkle_root pad_crypto ?xs) = Some mt" by (simp only: ci'_def) (simp add: update_conv')
  have index: "first_index (element_hash pad_crypto [7]) ?xs = Some 0" "ser_compact_size (int 0) = Inr [0]" by (simp_all add: ser_compact_size_def)
  have "length ?xs < 2 ^ 64" "length (element_hash pad_crypto [7]) = 32" by simp_all
  from leaf_index_read [OF crypto_ok_pad_crypto known mt(1) this]
  have "interpreter_execute (GET_MERKLE_LEAF_INDEX # merkle_root pad_crypto ?xs @ element_hash pad_crypto [7]) ci' = (Inr [1, 0], ci')"
    unfolding index option.case by auto
  then show ?thesis using mt(2) unfolding ci'_def by blast
qed

end
