(* ===== verification/Ledger_Wallet.thy ===== *)
theory Ledger_Wallet
  imports Ledger_Interpreter Merkle_Spec Registration
begin

text \<open>
  \<open>hwilib/devices/ledger_bitcoin/wallet.py\<close>: the wallet policies a Ledger device registers, and their serialization,
  whose hash is the id of the wallet.
\<close>

section \<open>Strings\<close>

text \<open>A string encoded in UTF-8; and the text of a name, a list of code points, in Latin-1 with its length before it.\<close>

definition encode :: "string \<Rightarrow> bytes result" where
  "encode s = utf8_encode (code_points s)"

definition serialize_str :: "nat list \<Rightarrow> bytes result" where
  "serialize_str s =
     res_concat [to_bytes 1 (int (length s)),
       if list_all (\<lambda>n. n < 256) s then Inr (map of_nat s) else Inl (ValueErr ''ordinal not in range(256)'')]"

text \<open>\<open>s.replace(old, new)\<close> from left to right, for a string \<open>old\<close> that is not empty.\<close>

function replace_all :: "string \<Rightarrow> string \<Rightarrow> string \<Rightarrow> string" where
  "replace_all old new s =
     (case s of
        [] \<Rightarrow> []
      | c # cs \<Rightarrow>
          if old \<noteq> [] \<and> prefix old s then new @ replace_all old new (drop (length old) s)
          else c # replace_all old new cs)"
  by pat_completeness auto
termination by (relation "measure (\<lambda>(old, new, s). length s)") auto

declare replace_all.simps [simp del]

text \<open>\<open>re.sub\<close> of \<open>/<(\d+);(\d+)>\<close> by a slash and the second or the first group.\<close>

definition match_multipath :: "string \<Rightarrow> (string \<times> string \<times> string) option" where
  "match_multipath s =
     (if \<not> prefix ''/<'' s then None
      else
        let first = takeWhile is_digit (drop 2 s); rest = dropWhile is_digit (drop 2 s) in
        if first = [] \<or> \<not> prefix '';'' rest then None
        else
          let second = takeWhile is_digit (drop 1 rest); rest = dropWhile is_digit (drop 1 rest) in
          if second = [] \<or> \<not> prefix ''>'' rest then None else Some (first, second, drop 1 rest))"

lemma match_multipath_shorter: "match_multipath s = Some (a, b, rest) \<Longrightarrow> length rest < length s"
proof -
  assume m: "match_multipath s = Some (a, b, rest)"
  have d: "length (dropWhile P t) \<le> length t" for P and t :: string by (rule length_dropWhile_le)
  obtain r where r: "r = dropWhile is_digit (drop 2 s)" by blast
  have "rest = drop 1 (dropWhile is_digit (drop 1 r))" "prefix ''/<'' s"
    using m by (auto simp: match_multipath_def r Let_def split: if_split_asm)
  moreover have "length r \<le> length s - 2" using d [of is_digit "drop 2 s"] r by simp
  moreover have "length (dropWhile is_digit (drop 1 r)) \<le> length r - 1" using d [of is_digit "drop 1 r"] by simp
  ultimately show ?thesis by (cases s) auto
qed

function sub_multipath :: "bool \<Rightarrow> string \<Rightarrow> string" where
  "sub_multipath change s =
     (case s of
        [] \<Rightarrow> []
      | c # cs \<Rightarrow>
          (case match_multipath s of
             Some (first, second, rest) \<Rightarrow> ''/'' @ (if change then second else first) @ sub_multipath change rest
           | None \<Rightarrow> c # sub_multipath change cs))"
  by pat_completeness auto
termination by (relation "measure (\<lambda>(change, s). length s)") (auto dest: match_multipath_shorter)

declare sub_multipath.simps [simp del]

section \<open>Policies\<close>

datatype WalletType = WALLET_POLICY_V1 | WALLET_POLICY_V2

definition version_value :: "WalletType \<Rightarrow> int" where
  "version_value v = (case v of WALLET_POLICY_V1 \<Rightarrow> 1 | WALLET_POLICY_V2 \<Rightarrow> 2)"

record WalletPolicy =
  wp_name :: "nat list"
  wp_version :: WalletType
  wp_descriptor_template :: string
  wp_keys_info :: "string list"

definition WalletPolicy_new :: "nat list \<Rightarrow> string \<Rightarrow> string list \<Rightarrow> WalletType \<Rightarrow> WalletPolicy" where
  "WalletPolicy_new name descriptor_template keys_info version =
     \<lparr>wp_name = name, wp_version = version, wp_descriptor_template = descriptor_template, wp_keys_info = keys_info\<rparr>"

definition base_serialize :: "WalletPolicy \<Rightarrow> bytes result" where
  "base_serialize w = res_concat [to_bytes 1 (version_value (wp_version w)), serialize_str (wp_name w)]"

definition wallet_serialize :: "crypto \<Rightarrow> WalletPolicy \<Rightarrow> bytes result" where
  "wallet_serialize cr w =
     res_bind (encode (wp_descriptor_template w)) (\<lambda>template.
     res_concat
       [base_serialize w,
        ser_compact_size (int (length template)),
        Inr (if wp_version w = WALLET_POLICY_V1 then template else sha256 cr template),
        ser_compact_size (int (length (wp_keys_info w))),
        res_bind (res_map (\<lambda>k. res_bind (encode k) (\<lambda>b. Inr (element_hash cr b))) (wp_keys_info w)) (root_of cr)])"

definition wallet_id :: "crypto \<Rightarrow> WalletPolicy \<Rightarrow> bytes result" where
  "wallet_id cr w = res_bind (wallet_serialize cr w) (\<lambda>b. Inr (sha256 cr b))"

definition get_descriptor :: "WalletPolicy \<Rightarrow> bool \<Rightarrow> string" where
  "get_descriptor w change =
     (let desc = foldl (\<lambda>desc i. replace_all (''@'' @ show_nat i) (wp_keys_info w ! i) desc) (wp_descriptor_template w)
            (rev [0..<length (wp_keys_info w)]);
          desc = replace_all ''/**'' (''/'' @ (if change then ''1'' else ''0'') @ ''/*'') desc
      in if wp_version w = WALLET_POLICY_V2 then sub_multipath change desc else desc)"

text \<open>The constructor of \<open>MultisigWallet\<close>; the threshold is kept beside the policy.\<close>

definition MultisigWallet_new ::
    "nat list \<Rightarrow> AddressType \<Rightarrow> int \<Rightarrow> string list \<Rightarrow> bool \<Rightarrow> WalletType \<Rightarrow> (WalletPolicy \<times> int) result" where
  "MultisigWallet_new name address_type threshold keys_info sorted_keys version =
     (let n_keys = length keys_info;
          multisig_op = (if sorted_keys then ''sortedmulti'' else ''multi'') in
      if \<not> (1 \<le> threshold \<and> threshold \<le> int n_keys \<and> n_keys \<le> 16)
      then Inl (ValueErr ''Invalid threshold or number of keys'')
      else
        res_bind (case address_type of
            LEGACY \<Rightarrow> Inr (''sh('' @ multisig_op @ ''('', ''))'')
          | WIT \<Rightarrow> Inr (''wsh('' @ multisig_op @ ''('', ''))'')
          | SH_WIT \<Rightarrow> Inr (''sh(wsh('' @ multisig_op @ ''('', '')))'')
          | TAP \<Rightarrow> Inl (ValueErr ''Unexpected address type: tap'')) (\<lambda>(policy_prefix, policy_suffix).
        let key_placeholder_suffix = (if version = WALLET_POLICY_V2 then ''/**'' else []);
            descriptor_template = concat
              [policy_prefix, show_int threshold @ '','',
               py_join '','' (map (\<lambda>k. ''@'' @ show_nat k @ key_placeholder_suffix) [0..<n_keys]), policy_suffix]
        in Inr (WalletPolicy_new name descriptor_template keys_info version, threshold)))"

section \<open>The id binds the policy\<close>

lemma utf8_char_length: "utf8_char n = Inr b \<Longrightarrow> b \<noteq> []"
  by (auto simp: utf8_char_def split: if_split_asm)

lemma code_points_scalar: "list_all scalar (code_points s)"
proof -
  have "scalar (of_char c)" for c :: char using nat_of_char_less_256 [of c] unfolding scalar_def by linarith
  then show ?thesis by (simp add: code_points_def list_all_iff)
qed

lemma encode_ok: "\<exists>b. encode s = Inr b"
  using utf8_decode_encode [OF code_points_scalar, of s] by (auto simp: encode_def)

lemma encode_inject: "encode s = encode t \<longleftrightarrow> s = t"
proof
  assume "encode s = encode t"
  then have "code_points s = code_points t"
    using utf8_decode_encode [OF code_points_scalar, of s] utf8_decode_encode [OF code_points_scalar, of t] by (auto simp: encode_def)
  then show "s = t" unfolding code_points_def by (rule map_injective) (simp add: inj_on_def)
qed simp

lemma serialize_str_Inr:
  "serialize_str s = Inr b \<longleftrightarrow> length s < 256 \<and> (\<forall>n\<in>set s. n < 256) \<and> b = of_nat (length s) # map of_nat s"
  by (auto simp: serialize_str_def res_concat_Cons to_bytes_def be_bytes_def list_all_iff split: if_split_asm)

lemma map_bytes_inject: "\<forall>n\<in>set s. n < 256 \<Longrightarrow> \<forall>n\<in>set t. n < 256 \<Longrightarrow> map (of_nat :: nat \<Rightarrow> byte) s = map of_nat t \<Longrightarrow> s = t"
proof (induction s arbitrary: t)
  case (Cons n s)
  then obtain m t' where t: "t = m # t'" by (cases t) auto
  have "(of_nat n :: byte) = of_nat m" using Cons.prems(3) t by simp
  then have "unat (of_nat n :: byte) = unat (of_nat m :: byte)" by (rule arg_cong)
  then have "n = m" using Cons.prems(1, 2) t by simp
  moreover have "s = t'" using Cons.IH [of t'] Cons.prems t by simp
  ultimately show ?case using t by simp
qed simp

lemma base_serialize_inject:
  assumes "base_serialize w = Inr a" and "base_serialize w' = Inr a'" and "a @ r = a' @ r'"
  shows "wp_version w = wp_version w' \<and> wp_name w = wp_name w' \<and> r = r'"
proof -
  have v: "to_bytes 1 (version_value v) = Inr [if v = WALLET_POLICY_V1 then 1 else 2]" for v
    by (cases v) (simp_all add: version_value_def to_bytes_def be_bytes_def)
  obtain n n' where n: "serialize_str (wp_name w) = Inr n" "serialize_str (wp_name w') = Inr n'"
    "a = (if wp_version w = WALLET_POLICY_V1 then 1 else 2) # n" "a' = (if wp_version w' = WALLET_POLICY_V1 then 1 else 2) # n'"
    using assms(1, 2) v by (auto simp: base_serialize_def res_concat_Cons)
  have version: "wp_version w = wp_version w'" and rest: "n @ r = n' @ r'"
    using assms(3) n(3, 4) by (cases "wp_version w"; cases "wp_version w'"; simp)+
  have "(of_nat (length (wp_name w)) :: byte) = of_nat (length (wp_name w'))"
    using rest n(1, 2) by (auto simp: serialize_str_Inr)
  then have "unat (of_nat (length (wp_name w)) :: byte) = unat (of_nat (length (wp_name w')) :: byte)" by simp
  then have len: "length (wp_name w) = length (wp_name w')" using n(1, 2) by (simp add: serialize_str_Inr)
  then have "map (of_nat :: nat \<Rightarrow> byte) (wp_name w) = map of_nat (wp_name w') \<and> r = r'"
    using rest n(1, 2) by (simp add: serialize_str_Inr)
  then show ?thesis using version n(1, 2) map_bytes_inject by (simp add: serialize_str_Inr)
qed

lemma key_hashes: "\<exists>bs. res_map (\<lambda>k. res_bind (encode k) (\<lambda>b. Inr (element_hash cr b))) ks = Inr (map (element_hash cr) bs)
    \<and> res_map encode ks = Inr bs \<and> length bs = length ks"
proof (induction ks)
  case (Cons k ks)
  then obtain b bs where "encode k = Inr b" "res_map (\<lambda>k. res_bind (encode k) (\<lambda>b. Inr (element_hash cr b))) ks = Inr (map (element_hash cr) bs)"
    "res_map encode ks = Inr bs" "length bs = length ks" using encode_ok by meson
  then show ?case by (intro exI [of _ "b # bs"]) simp
qed simp

lemma encodes_inject: "res_map encode ks = Inr bs \<Longrightarrow> res_map encode ks' = Inr bs \<Longrightarrow> ks = ks'"
proof (induction ks arbitrary: ks' bs)
  case Nil
  then show ?case by (cases ks') auto
next
  case (Cons k ks)
  then obtain k' ks'' where ks': "ks' = k' # ks''" by (cases ks') auto
  have "encode k = encode k'" using Cons.prems ks' by auto
  then show ?case using Cons ks' encode_inject by auto
qed

text \<open>What a serialization is made of.\<close>

lemma wallet_serialize_Inr:
  assumes "crypto_ok cr" and "wallet_serialize cr w = Inr b"
  shows "\<exists>a t n k bs. base_serialize w = Inr a \<and> encode (wp_descriptor_template w) = Inr t
    \<and> ser_compact_size (int (length t)) = Inr n \<and> ser_compact_size (int (length (wp_keys_info w))) = Inr k
    \<and> res_map encode (wp_keys_info w) = Inr bs \<and> length bs = length (wp_keys_info w)
    \<and> b = a @ n @ (if wp_version w = WALLET_POLICY_V1 then t else sha256 cr t) @ k @ merkle_root cr (map (element_hash cr) bs)"
proof -
  obtain bs where bs: "res_map (\<lambda>k. res_bind (encode k) (\<lambda>b. Inr (element_hash cr b))) (wp_keys_info w) = Inr (map (element_hash cr) bs)"
    "res_map encode (wp_keys_info w) = Inr bs" "length bs = length (wp_keys_info w)" using key_hashes by blast
  have "root_of cr (map (element_hash cr) bs) = Inr (merkle_root cr (map (element_hash cr) bs))"
    using root_of_hashes [OF assms(1)] assms(1) by simp
  then obtain t a n k where parts: "encode (wp_descriptor_template w) = Inr t" "base_serialize w = Inr a"
    "ser_compact_size (int (length t)) = Inr n" "ser_compact_size (int (length (wp_keys_info w))) = Inr k"
    "b = a @ n @ (if wp_version w = WALLET_POLICY_V1 then t else sha256 cr t) @ k @ merkle_root cr (map (element_hash cr) bs)"
    using assms(2) bs(1) by (auto simp: wallet_serialize_def res_concat_Cons simp del: if_split)
  then show ?thesis using bs(2, 3) by blast
qed

text \<open>
  The messages hashed for an id: the serialization itself, the template when the second version hashes it, and those
  for the root over the keys.
\<close>

definition wallet_messages :: "crypto \<Rightarrow> WalletPolicy \<Rightarrow> bytes set" where
  "wallet_messages cr w =
     (case wallet_serialize cr w of Inl e \<Rightarrow> {} | Inr b \<Rightarrow> {b})
     \<union> (case encode (wp_descriptor_template w) of Inl e \<Rightarrow> {} | Inr t \<Rightarrow> if wp_version w = WALLET_POLICY_V1 then {} else {t})
     \<union> (case res_map encode (wp_keys_info w) of Inl e \<Rightarrow> {} | Inr bs \<Rightarrow> root_messages cr bs)"

text \<open>The serialization alone binds the policy.\<close>

lemma wallet_serialize_inject:
  assumes "crypto_ok cr" and "wallet_serialize cr w = Inr b" and "wallet_serialize cr w' = Inr b"
    and inj: "inj_on (sha256 cr) (wallet_messages cr w \<union> wallet_messages cr w')"
  shows "w = w'"
proof -
  obtain a t n k bs where w: "base_serialize w = Inr a" "encode (wp_descriptor_template w) = Inr t"
    "ser_compact_size (int (length t)) = Inr n" "ser_compact_size (int (length (wp_keys_info w))) = Inr k"
    "res_map encode (wp_keys_info w) = Inr bs" "length bs = length (wp_keys_info w)"
    "b = a @ n @ (if wp_version w = WALLET_POLICY_V1 then t else sha256 cr t) @ k @ merkle_root cr (map (element_hash cr) bs)"
    using wallet_serialize_Inr [OF assms(1, 2)] by blast
  obtain a' t' n' k' bs' where w': "base_serialize w' = Inr a'" "encode (wp_descriptor_template w') = Inr t'"
    "ser_compact_size (int (length t')) = Inr n'" "ser_compact_size (int (length (wp_keys_info w'))) = Inr k'"
    "res_map encode (wp_keys_info w') = Inr bs'" "length bs' = length (wp_keys_info w')"
    "b = a' @ n' @ (if wp_version w' = WALLET_POLICY_V1 then t' else sha256 cr t') @ k' @ merkle_root cr (map (element_hash cr) bs')"
    using wallet_serialize_Inr [OF assms(1, 3)] by blast
  note compact = compact.prefix_free [OF ser_compact_size_ok [THEN iffD1, OF exI] ser_compact_size_ok [THEN iffD1, OF exI]]
  have head: "wp_version w = wp_version w'" "wp_name w = wp_name w'"
    and r1: "n @ (if wp_version w = WALLET_POLICY_V1 then t else sha256 cr t) @ k @ merkle_root cr (map (element_hash cr) bs)
      = n' @ (if wp_version w = WALLET_POLICY_V1 then t' else sha256 cr t') @ k' @ merkle_root cr (map (element_hash cr) bs')"
    using base_serialize_inject [OF w(1) w'(1) trans [OF w(7) [symmetric] w'(7)]] by auto
  have len: "length t = length t'"
    and r2: "(if wp_version w = WALLET_POLICY_V1 then t else sha256 cr t) @ k @ merkle_root cr (map (element_hash cr) bs)
      = (if wp_version w = WALLET_POLICY_V1 then t' else sha256 cr t') @ k' @ merkle_root cr (map (element_hash cr) bs')"
    using compact [OF w(3) w'(3) w(3) w'(3) r1] by simp_all
  have template: "t = t'" and r3: "k @ merkle_root cr (map (element_hash cr) bs) = k' @ merkle_root cr (map (element_hash cr) bs')"
  proof -
    have "wp_version w \<noteq> WALLET_POLICY_V1 \<Longrightarrow> {t, t'} \<subseteq> wallet_messages cr w \<union> wallet_messages cr w'"
      using w(2) w'(2) head(1) by (simp add: wallet_messages_def)
    then show "t = t'" and "k @ merkle_root cr (map (element_hash cr) bs) = k' @ merkle_root cr (map (element_hash cr) bs')"
      using r2 len assms(1) inj_onD [OF inj, of t t'] by (cases "wp_version w"; auto simp: crypto_ok_def)+
  qed
  have keys: "length (wp_keys_info w) = length (wp_keys_info w')" and r4: "merkle_root cr (map (element_hash cr) bs) = merkle_root cr (map (element_hash cr) bs')"
    using compact [OF w(4) w'(4) w(4) w'(4) r3] by simp_all
  have "root_messages cr bs \<subseteq> wallet_messages cr w \<union> wallet_messages cr w'" "root_messages cr bs' \<subseteq> wallet_messages cr w \<union> wallet_messages cr w'"
    using w(5) w'(5) by (auto simp: wallet_messages_def)
  then have "bs = bs'" using root_of_elements_inject [OF assms(1) inj _ _ _ r4] keys w(6) w'(6) by simp
  then have "wp_keys_info w = wp_keys_info w'" using encodes_inject w(5) w'(5) by blast
  moreover have "wp_descriptor_template w = wp_descriptor_template w'" using template w(2) w'(2) encode_inject by metis
  ultimately show "w = w'" using head by simp
qed

text \<open>
  C29: the id of a wallet binds its policy. Two policies, of whichever version, have the same id only if they have the
  same version, name, template and keys, as long as the hash function is injective on the messages hashed for the two
  ids: the serializations, the templates, and the keys and the nodes of their trees.
\<close>

theorem wallet_id_binds:
  assumes "crypto_ok cr" and "wallet_id cr w = Inr i" and "wallet_id cr w' = Inr i'"
    and "inj_on (sha256 cr) (wallet_messages cr w \<union> wallet_messages cr w')"
  shows "i = i' \<longleftrightarrow> w = w'"
proof
  assume "i = i'"
  then obtain b b' where b: "wallet_serialize cr w = Inr b" "wallet_serialize cr w' = Inr b'" "sha256 cr b = sha256 cr b'"
    using assms(2, 3) by (auto simp: wallet_id_def)
  then have "b = b'" using inj_onD [OF assms(4), of b b'] by (simp add: wallet_messages_def)
  then show "w = w'" using wallet_serialize_inject [OF assms(1) _ _ assms(4)] b(1, 2) by simp
qed (use assms(2, 3) in simp)

text \<open>Two policies that differ in their names only have different ids.\<close>

theorem wallet_id_binds_witness:
  "\<exists>i i'. wallet_id pad_crypto (WalletPolicy_new [] [] [''k''] WALLET_POLICY_V2) = Inr i
    \<and> wallet_id pad_crypto (WalletPolicy_new [97] [] [''k''] WALLET_POLICY_V2) = Inr i' \<and> i \<noteq> i'"
proof -
  let ?w = "WalletPolicy_new [] [] [''k''] WALLET_POLICY_V2" and ?w' = "WalletPolicy_new [97] [] [''k''] WALLET_POLICY_V2"
  have codes: "encode [] = Inr []" "encode ''k'' = Inr [0x6B]"
    by (simp_all add: encode_def utf8_encode_def code_points_def utf8_char_def)
  have base: "base_serialize ?w = Inr [2, 0]" "base_serialize ?w' = Inr [2, 1, 97]"
    by (simp_all add: base_serialize_def serialize_str_def version_value_def to_bytes_def be_bytes_def WalletPolicy_new_def)
  let ?k = "element_hash pad_crypto [0x6B]"
  have sha: "sha256 pad_crypto = pad_to 32" "pad_to 32 [] = replicate 32 0" "pad_to 32 [0, 0x6B] = 0 # 0x6B # replicate 30 0"
    "pad_to 32 (2 # b) = 2 # take 31 (b @ replicate 32 0)" for b
    by (simp_all add: pad_crypto_def pad_to_def)
  have zeros: "(replicate 32 0 :: bytes) = 0 # 0 # replicate 30 0" by (simp add: numeral_eq_Suc)
  have top: "root_of pad_crypto [?k] = Inr ?k" using root_of_hashes [OF crypto_ok_pad_crypto, of "[?k]"] by simp
  have sizes: "ser_compact_size 0 = Inr [0]" "ser_compact_size 1 = Inr [1]" by (simp_all add: ser_compact_size_def)
  have b: "wallet_serialize pad_crypto ?w = Inr ([2, 0, 0] @ sha256 pad_crypto [] @ [1] @ ?k)"
    "wallet_serialize pad_crypto ?w' = Inr ([2, 1, 97, 0] @ sha256 pad_crypto [] @ [1] @ ?k)"
    using base codes top sizes by (simp_all add: wallet_serialize_def WalletPolicy_new_def)
  then obtain i i' where i: "wallet_id pad_crypto ?w = Inr i" "wallet_id pad_crypto ?w' = Inr i'" by (simp add: wallet_id_def)
  have "wallet_messages pad_crypto ?w \<union> wallet_messages pad_crypto ?w'
      = {[2, 0, 0] @ sha256 pad_crypto [] @ [1] @ ?k, [2, 1, 97, 0] @ sha256 pad_crypto [] @ [1] @ ?k, [], [0, 0x6B]}"
    using b codes by (auto simp: wallet_messages_def root_messages_def WalletPolicy_new_def tree_messages.simps)
  then have "inj_on (sha256 pad_crypto) (wallet_messages pad_crypto ?w \<union> wallet_messages pad_crypto ?w')"
    using zeros by (simp add: sha)
  moreover have "?w \<noteq> ?w'" by (simp add: WalletPolicy_new_def)
  ultimately show ?thesis using wallet_id_binds [OF crypto_ok_pad_crypto i] i by blast
qed

end
