(* ===== verification/Trezor_Protocol.thy ===== *)
theory Trezor_Protocol
  imports Effects PyLib
begin

text \<open>
  \<open>hwilib/devices/trezorlib/transport/protocol.py\<close>: messages on the wire, in chunks of 64 bytes. What reads and writes
  chunks, over USB or otherwise, is a record of operations on a state.
\<close>

section \<open>Handles\<close>

record 's handle =
  hd_open :: "('s, unit) io"
  hd_close :: "('s, unit) io"
  hd_read_chunk :: "('s, bytes) io"
  hd_write_chunk :: "bytes \<Rightarrow> ('s, unit) io"

section \<open>Sessions\<close>

text \<open>The number of sessions beside the state of the handle.\<close>

definition on_handle :: "('s, 'a) io \<Rightarrow> (nat \<times> 's, 'a) io" where
  "on_handle m = (\<lambda>(n, s). case m s of (r, s) \<Rightarrow> (r, n, s))"

definition begin_session :: "'s handle \<Rightarrow> (nat \<times> 's, unit) io" where
  "begin_session hdl = (\<lambda>(session_counter, s).
     io_bind (if session_counter = 0 then on_handle (hd_open hdl) else io_ret ())
       (\<lambda>_ (n, s). (Inr (), n + 1, s)) (session_counter, s))"

definition end_session :: "'s handle \<Rightarrow> (nat \<times> 's, unit) io" where
  "end_session hdl = (\<lambda>(session_counter, s).
     let session_counter = session_counter - 1 in
     (if session_counter = 0 then on_handle (hd_close hdl) else io_ret ()) (session_counter, s))"

section \<open>Version 1 of the protocol\<close>

definition REPLEN :: nat where "REPLEN = 64"

definition HEADER_LEN :: nat where "HEADER_LEN = 6"

text \<open>The characters of chunks: a question mark first, and two number signs before a message.\<close>

abbreviation "question_mark \<equiv> (63 :: byte)"

abbreviation "number_sign \<equiv> (35 :: byte)"

definition ljust :: "nat \<Rightarrow> bytes \<Rightarrow> bytes" where
  "ljust n b = b @ replicate (n - length b) 0"

function write_chunks :: "'s handle \<Rightarrow> bytes \<Rightarrow> ('s, unit) io" where
  "write_chunks hdl buffer =
     (if buffer = [] then io_ret ()
      else
        io_bind (hd_write_chunk hdl (ljust REPLEN (question_mark # take (REPLEN - 1) buffer)))
          (\<lambda>_. write_chunks hdl (drop 63 buffer)))"
  by pat_completeness auto
termination by (relation "measure (\<lambda>(hdl, buffer). length buffer)") auto

declare write_chunks.simps [simp del]

definition protocol_write :: "'s handle \<Rightarrow> nat \<Rightarrow> bytes \<Rightarrow> ('s, unit) io" where
  "protocol_write hdl message_type message_data =
     io_bind (io_lift (res_concat [pack_be 2 (int message_type), pack_be 4 (int (length message_data))])) (\<lambda>header.
     write_chunks hdl ([number_sign, number_sign] @ header @ message_data))"

definition read_first :: "'s handle \<Rightarrow> ('s, nat \<times> nat \<times> bytes) io" where
  "read_first hdl =
     io_bind (hd_read_chunk hdl) (\<lambda>chunk.
     if take 3 chunk \<noteq> [question_mark, number_sign, number_sign] then io_fail (RuntimeErr ''Unexpected magic characters'')
     else
       (let header = take HEADER_LEN (drop 3 chunk) in
        if length header \<noteq> HEADER_LEN then io_fail (RuntimeErr ''Cannot parse header'')
        else io_ret (be_val (take 2 header), be_val (drop 2 header), drop (3 + HEADER_LEN) chunk)))"

definition read_next :: "'s handle \<Rightarrow> ('s, bytes) io" where
  "read_next hdl =
     io_bind (hd_read_chunk hdl) (\<lambda>chunk.
     if take 1 chunk \<noteq> [question_mark] then io_fail (RuntimeErr ''Unexpected magic characters'') else io_ret (drop 1 chunk))"

text \<open>
  The rest of a message. A handle that returns chunks of one byte would be read forever; one round for each byte is
  enough for handles whose chunks are longer.
\<close>

fun read_rest :: "nat \<Rightarrow> 's handle \<Rightarrow> nat \<Rightarrow> bytes \<Rightarrow> ('s, bytes) io" where
  "read_rest 0 hdl datalen buffer = (if length buffer < datalen then io_fail OutOfFuel else io_ret buffer)"
| "read_rest (Suc fuel) hdl datalen buffer =
     (if length buffer < datalen
      then io_bind (read_next hdl) (\<lambda>b. read_rest fuel hdl datalen (buffer @ b))
      else io_ret buffer)"

definition protocol_read :: "'s handle \<Rightarrow> ('s, nat \<times> bytes) io" where
  "protocol_read hdl =
     io_bind (read_first hdl) (\<lambda>(msg_type, datalen, first_chunk).
     io_bind (read_rest datalen hdl datalen first_chunk) (\<lambda>buffer. io_ret (msg_type, take datalen buffer)))"

section \<open>Sessions are balanced\<close>

text \<open>The handle is open exactly while there is a session.\<close>

lemma begin_session_first:
  "hd_open hdl s = (r, s') \<Longrightarrow> begin_session hdl (0, s) = (case r of Inl e \<Rightarrow> (Inl e, 0, s') | Inr _ \<Rightarrow> (Inr (), 1, s'))"
  by (simp add: begin_session_def on_handle_def io_bind_def split: sum.split)

lemma begin_session_again: "begin_session hdl (Suc n, s) = (Inr (), Suc (Suc n), s)"
  by (simp add: begin_session_def)

lemma end_session_last: "end_session hdl (1, s) = (case hd_close hdl s of (r, s') \<Rightarrow> (r, 0, s'))"
  by (simp add: end_session_def on_handle_def)

lemma end_session_inner: "end_session hdl (Suc (Suc n), s) = (Inr (), Suc n, s)"
  by (simp add: end_session_def)

section \<open>The chunks of a message\<close>

function chunks :: "bytes \<Rightarrow> bytes list" where
  "chunks buffer = (if buffer = [] then [] else ljust REPLEN (question_mark # take (REPLEN - 1) buffer) # chunks (drop 63 buffer))"
  by pat_completeness auto
termination by (relation "measure length") auto

declare chunks.simps [simp del]

lemma chunks_Nil [simp]: "chunks [] = []"
  by (simp add: chunks.simps)

text \<open>A handle on a queue of chunks: what is written is put behind it, what is read is taken from its front.\<close>

definition queue_handle :: "(bytes list) handle" where
  "queue_handle =
     \<lparr>hd_open = io_ret (), hd_close = io_ret (),
      hd_read_chunk = (\<lambda>q. case q of [] \<Rightarrow> (Inl (OtherErr ''TransportException''), []) | c # q \<Rightarrow> (Inr c, q)),
      hd_write_chunk = (\<lambda>c q. (Inr (), q @ [c]))\<rparr>"

lemma write_chunks_queue: "write_chunks queue_handle buffer q = (Inr (), q @ chunks buffer)"
proof (induction buffer arbitrary: q rule: chunks.induct)
  case (1 buffer)
  then show ?case
    by (subst write_chunks.simps, subst chunks.simps) (simp add: io_bind_def queue_handle_def)
qed

lemma chunk_length: "c \<in> set (chunks buffer) \<Longrightarrow> length c = REPLEN"
proof (induction buffer rule: chunks.induct)
  case (1 buffer)
  then show ?case by (cases "buffer = []") (auto simp: chunks.simps [of buffer] ljust_def REPLEN_def)
qed

lemma chunks_nonempty: "buffer \<noteq> [] \<Longrightarrow> chunks buffer = ljust REPLEN (question_mark # take 63 buffer) # chunks (drop 63 buffer)"
  by (subst chunks.simps) (simp add: REPLEN_def)

text \<open>Reading on where a chunk ended.\<close>

lemma read_rest_chunks:
  "n = length buffer + length rest \<Longrightarrow> length rest \<le> fuel \<Longrightarrow>
    \<exists>padding. read_rest fuel queue_handle n buffer (chunks rest @ q) = (Inr (buffer @ rest @ padding), q)"
proof (induction rest arbitrary: buffer fuel rule: chunks.induct)
  case (1 rest)
  show ?case
  proof (cases "rest = []")
    case True
    with "1.prems" show ?thesis by (cases fuel) (simp_all add: chunks.simps)
  next
    case False
    then obtain k where k: "fuel = Suc k" using "1.prems"(2) by (cases fuel) auto
    let ?c = "ljust REPLEN (question_mark # take 63 rest)"
    have nxt: "read_next queue_handle (chunks rest @ q) = (Inr (drop 1 ?c), chunks (drop 63 rest) @ q)"
      by (simp add: read_next_def chunks_nonempty [OF False] queue_handle_def io_bind_def ljust_def)
    show ?thesis
    proof (cases "length rest < 63")
      case True
      then have "drop 1 ?c = rest @ replicate (63 - length rest) 0" "drop 63 rest = []" by (simp_all add: ljust_def REPLEN_def)
      with nxt k False "1.prems"(1) show ?thesis
        by (cases k) (auto simp: io_bind_def chunks.simps)
    next
      case long: False
      then have c: "drop 1 ?c = take 63 rest" by (simp add: ljust_def REPLEN_def)
      have len: "n = length (buffer @ take 63 rest) + length (drop 63 rest)" using "1.prems"(1) long by simp
      have fuel: "length (drop 63 rest) \<le> k" using "1.prems"(2) k by simp
      from "1.IH" [OF False len fuel] obtain padding
        where "read_rest k queue_handle n (buffer @ take 63 rest) (chunks (drop 63 rest) @ q)
          = (Inr (buffer @ rest @ padding), q)" by (metis append.assoc append_take_drop_id)
      with nxt k c False "1.prems"(1) show ?thesis by (auto simp: io_bind_def)
    qed
  qed
qed

text \<open>
  C32: a message is framed without loss. Its type and its length fit the header, or nothing is written; what is written
  are chunks of 64 bytes, and from them the same type and the same bytes are read, with nothing of what follows.
\<close>

theorem trezor_frames_round_trip:
  assumes "message_type < 2 ^ 16" and "length message_data < 2 ^ 32"
  shows "\<exists>cs. protocol_write queue_handle message_type message_data q = (Inr (), q @ cs) \<and> (\<forall>c\<in>set cs. length c = REPLEN)
    \<and> protocol_read queue_handle (cs @ q') = (Inr (message_type, message_data), q')"
proof -
  let ?n = "length message_data"
  define header where "header = be_bytes 2 message_type @ be_bytes 4 ?n"
  have header: "length header = 6" "take 2 header = be_bytes 2 message_type" "drop 2 header = be_bytes 4 ?n"
    by (simp_all add: header_def)
  let ?buffer = "[number_sign, number_sign] @ header @ message_data"
  have "res_concat [pack_be 2 (int message_type), pack_be 4 (int ?n)] = Inr header"
    using assms by (simp add: res_concat_Cons pack_be_def header_def)
  then have wr: "protocol_write queue_handle message_type message_data q = (Inr (), q @ chunks ?buffer)"
    by (simp add: protocol_write_def io_bind_def write_chunks_queue)
  define c where "c = ljust REPLEN (question_mark # take 63 ?buffer)"
  define first where "first = take 55 message_data @ replicate (55 - ?n) 0"
  have c: "c = question_mark # number_sign # number_sign # header @ first"
    using header(1) by (simp add: c_def first_def ljust_def REPLEN_def take_Cons')
  have rest: "drop 63 ?buffer = drop 55 message_data" using header(1) by (simp add: drop_Cons')
  have cs: "chunks ?buffer = c # chunks (drop 55 message_data)"
    using chunks_nonempty [of ?buffer] rest by (simp add: c_def)
  have bounds: "be_val (be_bytes 2 message_type) = message_type" "be_val (be_bytes 4 ?n) = ?n" using assms by simp_all
  have head: "read_first queue_handle (chunks ?buffer @ q') = (Inr (message_type, ?n, first), chunks (drop 55 message_data) @ q')"
    unfolding cs using header bounds by (simp add: read_first_def io_bind_def queue_handle_def c HEADER_LEN_def take_Cons')
  have "\<exists>padding. read_rest ?n queue_handle ?n first (chunks (drop 55 message_data) @ q') = (Inr (message_data @ padding), q')"
  proof (cases "?n \<le> 55")
    case True
    then show ?thesis by (cases ?n) (simp_all add: first_def)
  next
    case False
    then have first: "first = take 55 message_data" by (simp add: first_def)
    from read_rest_chunks [of ?n first "drop 55 message_data" ?n q'] False show ?thesis
      by (simp add: first) (metis append.assoc append_take_drop_id)
  qed
  then have "protocol_read queue_handle (chunks ?buffer @ q') = (Inr (message_type, message_data), q')"
    using head by (auto simp: protocol_read_def io_bind_def)
  with wr chunk_length show ?thesis by blast
qed

theorem trezor_frames_round_trip_witness:
  "\<exists>cs. protocol_write queue_handle 11 (replicate 100 7) [] = (Inr (), cs)
    \<and> protocol_read queue_handle cs = (Inr (11, replicate 100 7), [])"
  using trezor_frames_round_trip [of 11 "replicate 100 7" "[]" "[]"] by auto

end
