(* ===== verification/Trezor_Protobuf.thy ===== *)
theory Trezor_Protobuf
  imports Effects PyLib Registration
begin

unbundle bit_operations_syntax

text \<open>
  \<open>hwilib/devices/trezorlib/protobuf.py\<close>: the messages a Trezor device and the host exchange, as objects with the
  fields of their class, and their encoding. The classes are the module \<open>messages\<close>, a table here.
\<close>

section \<open>Streams\<close>

text \<open>A stream of bytes, or a part of one that ends early. \<open>readinto\<close> of \<open>n\<close> bytes may give fewer.\<close>

datatype stream = BytesIO bytes | LimitedReader stream nat

fun readinto :: "nat \<Rightarrow> stream \<Rightarrow> bytes \<times> stream" where
  "readinto n (BytesIO b) = (take n b, BytesIO (drop n b))"
| "readinto n (LimitedReader reader limit) =
     (if limit < n then ([], LimitedReader reader limit)
      else (case readinto n reader of (bs, reader) \<Rightarrow> (bs, LimitedReader reader (limit - length bs))))"

text \<open>The bytes that single reads give until the end, and the stream after the first \<open>n\<close> of them.\<close>

fun available :: "stream \<Rightarrow> bytes" where
  "available (BytesIO b) = b"
| "available (LimitedReader reader limit) = take limit (available reader)"

fun advance :: "nat \<Rightarrow> stream \<Rightarrow> stream" where
  "advance n (BytesIO b) = BytesIO (drop n b)"
| "advance n (LimitedReader reader limit) = LimitedReader (advance n reader) (limit - n)"

fun unlimited :: "stream \<Rightarrow> stream" where
  "unlimited (LimitedReader reader limit) = reader"
| "unlimited (BytesIO b) = BytesIO b"

lemma readinto_available:
  "n \<le> length (available r) \<Longrightarrow> readinto n r = (take n (available r), advance n r)"
proof (induction r)
  case (LimitedReader r limit)
  then have "n \<le> limit" "n \<le> length (available r)" by simp_all
  with LimitedReader.IH show ?case by (simp add: min_def)
qed simp

lemma available_advance [simp]: "available (advance n r) = drop n (available r)"
  by (induction r) (simp_all add: drop_take)

lemma advance_advance [simp]: "advance m (advance n r) = advance (n + m) r"
  by (induction r) (simp_all add: add.commute)

lemma advance_0 [simp]: "advance 0 r = r"
  by (induction r) simp_all

lemma unlimited_advance [simp]: "unlimited (advance n (LimitedReader r limit)) = advance n r"
  by simp

lemma readinto_one:
  "readinto 1 r = (case available r of [] \<Rightarrow> ([], r) | b # bs \<Rightarrow> ([b], advance 1 r))"
proof (induction r)
  case (BytesIO b)
  then show ?case by (cases b) simp_all
next
  case (LimitedReader r limit)
  then show ?case by (cases "available r"; cases limit) simp_all
qed

text \<open>Whatever is read is what comes next, or nothing.\<close>

lemma readinto_reads:
  "readinto n r = (bs, r') \<Longrightarrow> r' = advance (length bs) r \<and> length bs \<le> n \<and> bs = take (length bs) (available r)"
proof (induction r arbitrary: bs r')
  case (BytesIO b)
  then show ?case by (cases "n \<le> length b") auto
next
  case (LimitedReader r limit)
  then show ?case by (auto simp: min_absorb1 split: if_splits prod.splits)
qed

section \<open>Numbers\<close>

definition EOFError :: exn where "EOFError = OtherErr ''EOFError''"

definition InterruptedUVarint :: exn where "InterruptedUVarint = OtherErr ''OSError: Interrupted UVarint''"

text \<open>The lowest seven bits come first; the eighth bit of a byte tells that another one follows.\<close>

function uvarint_loop :: "nat \<Rightarrow> nat \<Rightarrow> nat \<Rightarrow> (stream, nat) io" where
  "uvarint_loop result shift bytes_read reader =
     (case readinto 1 reader of
        ([], reader) \<Rightarrow> (Inl (if 0 < bytes_read then InterruptedUVarint else EOFError), reader)
      | (byte # _, reader) \<Rightarrow>
          let result = result + push_bit shift (unat (byte AND 0x7F)) in
          if byte AND 0x80 \<noteq> 0 then uvarint_loop result (shift + 7) (bytes_read + 1) reader else (Inr result, reader))"
  by pat_completeness auto
termination
  by (relation "measure (\<lambda>(result, shift, bytes_read, reader). length (available reader))")
    (auto simp: readinto_one[unfolded One_nat_def] split: list.splits)

declare uvarint_loop.simps [simp del]

definition load_uvarint :: "(stream, nat) io" where
  "load_uvarint = uvarint_loop 0 0 0"

function uvarint_bytes :: "nat \<Rightarrow> bytes" where
  "uvarint_bytes n =
     (let shifted = drop_bit 7 n in
      of_nat (n AND 0x7F OR (if shifted \<noteq> 0 then 0x80 else 0)) # (if shifted \<noteq> 0 then uvarint_bytes shifted else []))"
  by pat_completeness auto
termination by (relation "measure id") (auto simp: drop_bit_eq_div)

declare uvarint_bytes.simps [simp del]

definition dump_uvarint :: "int \<Rightarrow> bytes result" where
  "dump_uvarint n =
     (if n < 0 then Inl (ValueErr ''Cannot dump signed value, convert it to unsigned first.'') else Inr (uvarint_bytes (nat n)))"

text \<open>The sign is kept in the lowest bit.\<close>

definition sint_to_uint :: "int \<Rightarrow> int" where
  "sint_to_uint n = (let res = push_bit 1 n in if n < 0 then NOT res else res)"

definition uint_to_sint :: "int \<Rightarrow> int" where
  "uint_to_sint n = (let sign = n AND 1; res = drop_bit 1 n in if sign \<noteq> 0 then NOT res else res)"

text \<open>Numbers survive.\<close>

lemma low_bits: "unat (b AND 0x7F :: byte) = unat b mod 128"
proof -
  have m: "(0x7F :: byte) = mask 7" by (simp add: mask_eq_exp_minus_1)
  have "unat (b AND mask 7) = take_bit 7 (unat b)" by (simp only: take_bit_eq_mask [symmetric] unsigned_take_bit_eq)
  also have "\<dots> = unat b mod 128" by (simp add: take_bit_eq_mod)
  finally show ?thesis by (simp only: m)
qed

lemma low_bits_nat: "(n AND 0x7F :: nat) = n mod 128"
proof -
  have m: "(0x7F :: nat) = mask 7" by (simp add: mask_eq_exp_minus_1)
  have "n AND mask 7 = take_bit 7 n" by (simp only: take_bit_eq_mask)
  also have "\<dots> = n mod 128" by (simp add: take_bit_eq_mod)
  finally show ?thesis by (simp only: m)
qed

lemma high_bit: "(b AND 0x80 :: byte) \<noteq> 0 \<longleftrightarrow> 128 \<le> unat b"
proof -
  have "(0x80 :: byte) = 2 ^ 7" by simp
  then have "b AND 0x80 \<noteq> 0 \<longleftrightarrow> bit b 7" using and_exp_eq_0_iff_not_bit [of b 7] by simp
  also have "\<dots> \<longleftrightarrow> bit (unat b) 7" by (simp add: bit_unsigned_iff)
  also have "\<dots> \<longleftrightarrow> odd (unat b div 128)" by (simp add: bit_iff_odd)
  also have "\<dots> \<longleftrightarrow> 128 \<le> unat b"
  proof -
    have "unat b div 128 < 2" using less_mult_imp_div_less [of "unat b" 2 128] unat_byte_less [of b] by simp
    then consider "unat b div 128 = 0" | "unat b div 128 = 1" by linarith
    then show ?thesis by cases (simp_all add: div_eq_0_iff div_nat_eqI)
  qed
  finally show ?thesis .
qed

lemma or_high_bit: "(n AND 0x7F OR 0x80 :: nat) = n mod 128 + 128"
proof -
  have "\<not> bit (take_bit 7 n) k \<or> \<not> bit (2 ^ 7 :: nat) k" for k by (simp only: bit_take_bit_iff bit_exp_iff) simp
  from disjunctive_add [OF this] have "take_bit 7 n + 2 ^ 7 = take_bit 7 n OR 2 ^ 7" .
  then show ?thesis by (simp add: low_bits_nat take_bit_eq_mod)
qed

lemma uvarint_bytes_eq:
  "uvarint_bytes n = (if n < 128 then [of_nat n] else of_nat (n mod 128 + 128) # uvarint_bytes (n div 128))"
proof -
  have "drop_bit 7 n = n div 128" by (simp add: drop_bit_eq_div)
  then show ?thesis using or_high_bit [of n] low_bits_nat [of n]
    by (subst uvarint_bytes.simps) (simp add: div_eq_0_iff Let_def del: of_nat_add)
qed

lemma uvarint_bytes_nonempty [simp]: "uvarint_bytes n \<noteq> []"
  by (subst uvarint_bytes_eq) simp

lemma uvarint_loop_bytes:
  "available r = uvarint_bytes n @ rest \<Longrightarrow>
    uvarint_loop result shift k r = (Inr (result + push_bit shift n), advance (length (uvarint_bytes n)) r)"
proof (induction n arbitrary: result shift k r rule: less_induct)
  case (less n)
  show ?case
  proof (cases "n < 128")
    case True
    then have "available r = of_nat n # rest" using less.prems by (simp add: uvarint_bytes_eq)
    with True show ?thesis by (subst uvarint_loop.simps) (simp add: readinto_one [unfolded One_nat_def] low_bits high_bit uvarint_bytes_eq)
  next
    case False
    then have bs: "uvarint_bytes n = of_nat (n mod 128 + 128) # uvarint_bytes (n div 128)" by (simp add: uvarint_bytes_eq)
    define m where "m = n mod 128"
    define q where "q = n div 128"
    have n: "n = 128 * q + m" and m: "m < 128" by (simp_all add: m_def q_def)
    have step: "uvarint_loop result shift k r = uvarint_loop (result + push_bit shift m) (shift + 7) (k + 1) (advance 1 r)"
      using less.prems m by (subst uvarint_loop.simps) (simp add: readinto_one [unfolded One_nat_def] low_bits high_bit bs m_def [symmetric] del: of_nat_add)
    have "q < n" using False by (simp add: q_def)
    from less.IH [OF this, of "advance 1 r"] less.prems
    have "uvarint_loop (result + push_bit shift m) (shift + 7) (k + 1) (advance 1 r)
        = (Inr (result + push_bit shift m + push_bit (shift + 7) q), advance (length (uvarint_bytes n)) r)"
      by (simp add: bs q_def)
    moreover have "push_bit shift m + push_bit (shift + 7) q = push_bit shift n"
      by (simp add: n push_bit_eq_mult power_add algebra_simps)
    ultimately show ?thesis using step by (simp add: add.assoc)
  qed
qed

lemma load_uvarint_bytes:
  "available r = uvarint_bytes n @ rest \<Longrightarrow> load_uvarint r = (Inr n, advance (length (uvarint_bytes n)) r)"
  by (simp add: load_uvarint_def uvarint_loop_bytes)

lemma load_uvarint_end: "available r = [] \<Longrightarrow> load_uvarint r = (Inl EOFError, r)"
  by (simp add: load_uvarint_def uvarint_loop.simps readinto_one [unfolded One_nat_def])

lemma uvarint_loop_reads:
  "uvarint_loop result shift k r = (x, r') \<Longrightarrow>
    \<exists>n. r' = advance n r \<and> n \<le> length (available r) \<and> (\<forall>v. x = Inr v \<longrightarrow> 0 < n) \<and> x \<noteq> Inl OutOfFuel
      \<and> (x = Inl EOFError \<longrightarrow> k = 0 \<and> available r = [])"
proof (induction result shift k r arbitrary: x r' rule: uvarint_loop.induct)
  case (1 result shift k r)
  show ?case
  proof (cases "available r")
    case Nil
    with "1.prems" have "x = Inl (if 0 < k then InterruptedUVarint else EOFError)" "r' = r"
      by (subst (asm) uvarint_loop.simps, simp add: readinto_one [unfolded One_nat_def])+
    with Nil show ?thesis by (intro exI [of _ 0]) (simp add: EOFError_def InterruptedUVarint_def)
  next
    case (Cons b bs)
    then have r: "readinto 1 r = ([b], advance 1 r)" by (simp add: readinto_one [unfolded One_nat_def])
    show ?thesis
    proof (cases "b AND 0x80 \<noteq> 0")
      case True
      with "1.prems" r have "uvarint_loop (result + push_bit shift (unat (b AND 0x7F))) (shift + 7) (k + 1) (advance 1 r) = (x, r')"
        by (subst (asm) uvarint_loop.simps) (simp add: Let_def)
      from "1.IH" [OF r [symmetric] refl refl True this] Cons obtain n
        where "r' = advance (1 + n) r" "n \<le> length bs" "\<forall>v. x = Inr v \<longrightarrow> 0 < n" "x \<noteq> Inl OutOfFuel" "x \<noteq> Inl EOFError"
        by auto
      with Cons show ?thesis by (intro exI [of _ "1 + n"]) auto
    next
      case False
      with "1.prems" r have "x = Inr (result + push_bit shift (unat (b AND 0x7F)))" "r' = advance 1 r"
        by (subst (asm) uvarint_loop.simps, simp add: Let_def)+
      with Cons show ?thesis by (intro exI [of _ 1]) auto
    qed
  qed
qed

lemma load_uvarint_reads:
  assumes "load_uvarint r = (x, r')"
  obtains n where "r' = advance n r" "n \<le> length (available r)" "\<forall>v. x = Inr v \<longrightarrow> 0 < n" "x \<noteq> Inl OutOfFuel"
    "x = Inl EOFError \<Longrightarrow> available r = []"
  using uvarint_loop_reads [OF assms [unfolded load_uvarint_def]] by auto

lemma sint_to_uint_eq: "sint_to_uint n = (if n < 0 then - 2 * n - 1 else 2 * n)"
  by (simp add: sint_to_uint_def not_int_def push_bit_eq_mult)

lemma uint_to_sint_eq: "uint_to_sint n = (if odd n then - (n div 2) - 1 else n div 2)"
  by (simp add: uint_to_sint_def Let_def and_one_eq odd_iff_mod_2_eq_one not_int_def drop_bit_eq_div)

lemma sint_round_trip [simp]: "uint_to_sint (sint_to_uint n) = n"
proof (cases "n < 0")
  case True
  then have "sint_to_uint n = 2 * (- n - 1) + 1" by (simp add: sint_to_uint_eq)
  then show ?thesis by (simp only: uint_to_sint_eq) simp
qed (simp add: sint_to_uint_eq uint_to_sint_eq)

lemma sint_to_uint_nonneg [simp]: "0 \<le> sint_to_uint n"
  by (simp add: sint_to_uint_eq)

section \<open>Messages\<close>

text \<open>
  The values of attributes: \<open>None\<close>, the placeholder of a required field, integers (with the members of an
  \<open>IntEnum\<close>, which equal theirs), booleans, bytes, text as code points, lists, and messages with their class and
  attributes.
\<close>

datatype pbval =
    PbNone
  | PbPlaceholder
  | PbInt int
  | PbBool bool
  | PbBytes bytes
  | PbStr "nat list"
  | PbList "pbval list"
  | PbMsg string "(string \<times> pbval) list"

record pb_field =
  fd_name :: string
  fd_type :: string
  fd_repeated :: bool
  fd_required :: bool
  fd_default :: pbval

text \<open>The classes of the module \<open>messages\<close>, and \<open>str\<close> of values in the text of exceptions.\<close>

datatype type_object = EnumObj "int list" | MessageObj "(nat \<times> pb_field) list"

record schema =
  sc_types :: "(string, type_object) dict"
  sc_str :: "pbval \<Rightarrow> string"

definition WIRE_TYPE_INT :: nat where "WIRE_TYPE_INT = 0"

definition WIRE_TYPE_LENGTH :: nat where "WIRE_TYPE_LENGTH = 2"

definition WIRE_TYPES :: "(string, nat) dict" where
  "WIRE_TYPES =
     [(''uint32'', WIRE_TYPE_INT), (''uint64'', WIRE_TYPE_INT), (''sint32'', WIRE_TYPE_INT), (''sint64'', WIRE_TYPE_INT),
      (''bool'', WIRE_TYPE_INT), (''bytes'', WIRE_TYPE_LENGTH), (''string'', WIRE_TYPE_LENGTH)]"

definition get_field_type_object :: "schema \<Rightarrow> pb_field \<Rightarrow> type_object option" where
  "get_field_type_object sc f = map_of (sc_types sc) (fd_type f)"

definition field_wire_type :: "schema \<Rightarrow> pb_field \<Rightarrow> nat result" where
  "field_wire_type sc f =
     (case map_of WIRE_TYPES (fd_type f) of
        Some w \<Rightarrow> Inr w
      | None \<Rightarrow>
          (case get_field_type_object sc f of
             Some (MessageObj _) \<Rightarrow> Inr WIRE_TYPE_LENGTH
           | Some (EnumObj _) \<Rightarrow> Inr WIRE_TYPE_INT
           | None \<Rightarrow> Inl (ValueErr (''Unrecognized type for field '' @ fd_name f))))"

text \<open>Only numbers can be compared with numbers.\<close>

definition number_of :: "pbval \<Rightarrow> int result" where
  "number_of v = (case v of PbInt i \<Rightarrow> Inr i | PbBool b \<Rightarrow> Inr (of_bool b) | _ \<Rightarrow> Inl TypeErr)"

definition value_fits :: "pb_field \<Rightarrow> pbval \<Rightarrow> bool result" where
  "value_fits f v =
     (if fd_type f = ''uint32'' then res_bind (number_of v) (\<lambda>n. Inr (0 \<le> n \<and> n < 2 ^ 32))
      else if fd_type f = ''uint64'' then res_bind (number_of v) (\<lambda>n. Inr (0 \<le> n \<and> n < 2 ^ 64))
      else if fd_type f = ''sint32'' then res_bind (number_of v) (\<lambda>n. Inr (- (2 ^ 31) \<le> n \<and> n < 2 ^ 31))
      else if fd_type f = ''sint64'' then res_bind (number_of v) (\<lambda>n. Inr (- (2 ^ 63) \<le> n \<and> n < 2 ^ 63))
      else Inl (ValueErr (''Cannot check range bounds for '' @ fd_type f)))"

text \<open>The attributes a constructor sets, from the positional and the named arguments.\<close>

fun init_attributes :: "(nat \<times> pb_field) list \<Rightarrow> pbval list \<Rightarrow> (string, pbval) dict \<Rightarrow> (string \<times> pbval) list result" where
  "init_attributes [] [] kwargs = Inr []"
| "init_attributes [] (v # args) kwargs = Inl TypeErr"
| "init_attributes ((tag, f) # flds) args kwargs =
     res_bind
       (case (map_of kwargs (fd_name f), args) of
          (Some _, _ # _) \<Rightarrow> Inl TypeErr
        | (Some v, []) \<Rightarrow> Inr v
        | (None, v # _) \<Rightarrow> Inr v
        | (None, []) \<Rightarrow> Inr (if fd_repeated f then PbList [] else if fd_required f then PbPlaceholder else fd_default f)) (\<lambda>v.
     res_bind (init_attributes flds (drop 1 args) kwargs) (\<lambda>attrs. Inr ((fd_name f, v) # attrs)))"

section \<open>Decoding\<close>

text \<open>A field with a number in it. A number that is out of range, or no member of the enumeration, is only logged.\<close>

definition decode_varint_field :: "schema \<Rightarrow> pb_field \<Rightarrow> (stream, pbval) io" where
  "decode_varint_field sc f =
     io_bind (io_lift (field_wire_type sc f)) (\<lambda>w.
     if w \<noteq> WIRE_TYPE_INT then io_fail AssertionErr
     else
       io_bind load_uvarint (\<lambda>value.
       case get_field_type_object sc f of
         Some (EnumObj _) \<Rightarrow> io_ret (PbInt (int value))
       | _ \<Rightarrow>
           if prefix ''uint'' (fd_type f) then
             io_bind (io_lift (value_fits f (PbInt (int value)))) (\<lambda>_. io_ret (PbInt (int value)))
           else if prefix ''sint'' (fd_type f) then
             (let value = uint_to_sint (int value) in
              io_bind (io_lift (value_fits f (PbInt value))) (\<lambda>_. io_ret (PbInt value)))
           else if fd_type f = ''bool'' then io_ret (PbBool (value \<noteq> 0))
           else io_fail TypeErr))"

text \<open>What an operation on the next \<open>n\<close> bytes does to the stream.\<close>

definition limited :: "nat \<Rightarrow> (stream, 'a) io \<Rightarrow> (stream, 'a) io" where
  "limited n m reader = (case m (LimitedReader reader n) of (x, reader) \<Rightarrow> (x, unlimited reader))"

text \<open>An operation reads on, and does not run out of fuel when fewer than \<open>k\<close> bytes are left.\<close>

definition reads :: "nat \<Rightarrow> (stream, 'a) io \<Rightarrow> bool" where
  "reads k m \<longleftrightarrow> (\<forall>r x r'. length (available r) < k \<longrightarrow> m r = (x, r') \<longrightarrow>
     x \<noteq> Inl OutOfFuel \<and> (\<exists>n. r' = advance n r \<and> n \<le> length (available r)))"

lemma readsD:
  assumes "reads k m" and "length (available r) < k" and "m r = (x, r')"
  shows "x \<noteq> Inl OutOfFuel \<and> (\<exists>n. r' = advance n r \<and> n \<le> length (available r))"
  using assms unfolding reads_def by blast

named_theorems reads_intros

lemma reads_ret [reads_intros]: "reads k (io_ret x)"
  unfolding reads_def by (auto intro!: exI [of _ 0])

lemma reads_fail [reads_intros]: "e \<noteq> OutOfFuel \<Longrightarrow> reads k (io_fail e)"
  unfolding reads_def by (auto intro!: exI [of _ 0])

lemma reads_lift [reads_intros]: "x \<noteq> Inl OutOfFuel \<Longrightarrow> reads k (io_lift x)"
  unfolding reads_def by (auto intro!: exI [of _ 0])

lemma reads_bind [reads_intros]:
  assumes "reads k m" and "\<And>x. reads k (f x)"
  shows "reads k (io_bind m f)"
  unfolding reads_def
proof (intro allI impI)
  fix r x r' assume short: "length (available r) < k" and run: "io_bind m f r = (x, r')"
  obtain y r1 where y: "m r = (y, r1)" by fastforce
  from readsD [OF assms(1) short this] obtain n where n: "r1 = advance n r" "n \<le> length (available r)" "y \<noteq> Inl OutOfFuel" by blast
  show "x \<noteq> Inl OutOfFuel \<and> (\<exists>n. r' = advance n r \<and> n \<le> length (available r))"
  proof (cases y)
    case (Inl e)
    with run y n show ?thesis by (auto simp: io_bind_def)
  next
    case (Inr z)
    with run y have "f z r1 = (x, r')" by (simp add: io_bind_def)
    moreover have "length (available r1) < k" using short n(1) by simp
    ultimately show ?thesis using readsD [OF assms(2)] n by (fastforce intro: exI [of _ "_ + _"])
  qed
qed

lemma reads_if [reads_intros]: "reads k m \<Longrightarrow> reads k m' \<Longrightarrow> reads k (if P then m else m')"
  by simp

lemma reads_uvarint [reads_intros]: "reads k load_uvarint"
  unfolding reads_def by (blast elim: load_uvarint_reads)

lemma reads_limited [reads_intros]:
  assumes "reads k m"
  shows "reads k (limited n m)"
  unfolding reads_def
proof (intro allI impI)
  fix r x r' assume short: "length (available r) < k" and run: "limited n m r = (x, r')"
  obtain r1 where r1: "m (LimitedReader r n) = (x, r1)" "r' = unlimited r1"
    using run by (auto simp: limited_def split: prod.splits)
  have "length (available (LimitedReader r n)) < k" using short by simp
  from readsD [OF assms this r1(1)] r1(2)
  show "x \<noteq> Inl OutOfFuel \<and> (\<exists>n. r' = advance n r \<and> n \<le> length (available r))" by auto
qed

lemma value_fits_fuel [simp]: "value_fits f v \<noteq> Inl OutOfFuel"
  by (auto simp: value_fits_def res_bind_eq_Inl number_of_def split: pbval.splits)

lemma field_wire_type_fuel [simp]: "field_wire_type sc f \<noteq> Inl OutOfFuel"
  by (simp add: field_wire_type_def split: option.split type_object.split)

lemma reads_varint_field [reads_intros]: "reads k (decode_varint_field sc f)"
  unfolding decode_varint_field_def Let_def
  by (intro reads_intros) (auto intro!: reads_intros split: option.split type_object.split)

text \<open>A number is never read from nothing.\<close>

lemma varint_field_Inr:
  assumes "decode_varint_field sc f r = (Inr v, r')"
  shows "length (available r') < length (available r)"
proof -
  have "\<exists>value r1. load_uvarint r = (Inr value, r1) \<and> r' = r1"
    using assms unfolding decode_varint_field_def io_bind_Inr
    by (auto simp: io_bind_Inr io_ret_def io_fail_def io_lift_def Let_def split: if_splits option.splits type_object.splits)
  then show ?thesis by (auto elim!: load_uvarint_reads)
qed

text \<open>A packed list ends where the stream ends.\<close>

function packed_loop :: "schema \<Rightarrow> pb_field \<Rightarrow> (stream, pbval list) io" where
  "packed_loop sc f r =
     (case decode_varint_field sc f r of
        (Inl e, r) \<Rightarrow> if e = EOFError then (Inr [], r) else (Inl e, r)
      | (Inr v, r) \<Rightarrow>
          (case packed_loop sc f r of (Inl e, r) \<Rightarrow> (Inl e, r) | (Inr values, r) \<Rightarrow> (Inr (v # values), r)))"
  by pat_completeness auto
termination
  by (relation "measure (\<lambda>(sc, f, r). length (available r))") (auto dest: varint_field_Inr [OF sym])

declare packed_loop.simps [simp del]

definition decode_packed_array_field :: "schema \<Rightarrow> pb_field \<Rightarrow> (stream, pbval list) io" where
  "decode_packed_array_field sc f =
     (if \<not> fd_repeated f then io_fail AssertionErr
      else io_bind load_uvarint (\<lambda>n. limited n (packed_loop sc f)))"

text \<open>
  A buffer of \<open>n\<close> zeros, of which \<open>readinto\<close> overwrites as many as it gets; what it returns is not looked at. A
  buffer of \<open>2 ^ 63\<close> bytes or more cannot be made.
\<close>

definition read_buffer :: "nat \<Rightarrow> (stream, bytes) io" where
  "read_buffer n r =
     (if 2 ^ 63 \<le> n then (Inl OverflowErr, r)
      else (case readinto n r of (bs, r) \<Rightarrow> (Inr (bs @ replicate (n - length bs) 0), r)))"

text \<open>\<open>load\<close> is \<open>load_message\<close>.\<close>

definition decode_length_delimited_field ::
    "schema \<Rightarrow> (string \<Rightarrow> (stream, pbval) io) \<Rightarrow> pb_field \<Rightarrow> (stream, pbval) io" where
  "decode_length_delimited_field sc load f =
     io_bind load_uvarint (\<lambda>value.
     if fd_type f = ''bytes'' then io_bind (read_buffer value) (\<lambda>buf. io_ret (PbBytes buf))
     else if fd_type f = ''string'' then
       io_bind (read_buffer value) (\<lambda>buf. io_bind (io_lift (utf8_decode buf)) (\<lambda>s. io_ret (PbStr s)))
     else
       (case get_field_type_object sc f of
          Some (MessageObj _) \<Rightarrow> limited value (load (fd_type f))
        | _ \<Rightarrow> io_fail TypeErr))"

text \<open>What the dictionary holds before anything is read.\<close>

definition preseed :: "(nat \<times> pb_field) list \<Rightarrow> (string, pbval) dict" where
  "preseed flds =
     foldl (\<lambda>d (tag, f). if fd_repeated f then AList.update (fd_name f) (PbList []) d
        else if \<not> fd_required f then AList.update (fd_name f) (fd_default f) d else d) [] flds"

definition skip_field :: "nat \<Rightarrow> (stream, unit) io" where
  "skip_field wtype =
     (if wtype = WIRE_TYPE_INT then io_bind load_uvarint (\<lambda>_. io_ret ())
      else if wtype = WIRE_TYPE_LENGTH then
        io_bind load_uvarint (\<lambda>ivalue. io_bind (read_buffer ivalue) (\<lambda>_. io_ret ()))
      else io_fail (ValueErr []))"

definition decode_field :: "schema \<Rightarrow> (string \<Rightarrow> (stream, pbval) io) \<Rightarrow> pb_field \<Rightarrow> nat \<Rightarrow> (stream, pbval list) io" where
  "decode_field sc load f wtype =
     io_bind (io_lift (field_wire_type sc f)) (\<lambda>w.
     if wtype = WIRE_TYPE_LENGTH \<and> w = WIRE_TYPE_INT \<and> fd_repeated f then decode_packed_array_field sc f
     else if wtype \<noteq> w then io_fail (ValueErr (''Field '' @ fd_name f @ '' received value does not match schema''))
     else if wtype = WIRE_TYPE_LENGTH then io_bind (decode_length_delimited_field sc load f) (\<lambda>v. io_ret [v])
     else if wtype = WIRE_TYPE_INT then io_bind (decode_varint_field sc f) (\<lambda>v. io_ret [v])
     else io_fail TypeErr)"

definition store_field :: "pb_field \<Rightarrow> pbval list \<Rightarrow> (string, pbval) dict \<Rightarrow> (string, pbval) dict result" where
  "store_field f fvalues d =
     (if fd_repeated f then
        (case map_of d (fd_name f) of
           None \<Rightarrow> Inl KeyErr
         | Some (PbList vs) \<Rightarrow> Inr (AList.update (fd_name f) (PbList (vs @ fvalues)) d)
         | Some _ \<Rightarrow> Inl (OtherErr ''AttributeError''))
      else
        (case fvalues of
           [v] \<Rightarrow> Inr (AList.update (fd_name f) v d)
         | _ \<Rightarrow> Inl (ValueErr ''Unexpected multiple values in non-repeating field'')))"

definition check_required :: "(nat \<times> pb_field) list \<Rightarrow> (string, pbval) dict \<Rightarrow> unit result" where
  "check_required flds d =
     (case find (\<lambda>(tag, f). fd_required f \<and> map_of d (fd_name f) = None) flds of
        Some (tag, f) \<Rightarrow> Inl (ValueErr (''Did not receive value for field '' @ fd_name f))
      | None \<Rightarrow> Inr ())"

text \<open>
  The loop over the fields in the stream and the messages within messages. Every round reads at least one byte, so one
  more than the number of bytes is enough fuel.
\<close>

fun load_message :: "schema \<Rightarrow> nat \<Rightarrow> string \<Rightarrow> (stream, pbval) io"
  and load_loop :: "schema \<Rightarrow> nat \<Rightarrow> (nat \<times> pb_field) list \<Rightarrow> (string, pbval) dict \<Rightarrow> (stream, (string, pbval) dict) io"
where
  "load_message sc fuel msg_type r =
     (case map_of (sc_types sc) msg_type of
        Some (MessageObj flds) \<Rightarrow>
          io_bind (load_loop sc fuel flds (preseed flds)) (\<lambda>d.
          io_bind (io_lift (check_required flds d)) (\<lambda>_.
          io_bind (io_lift (init_attributes flds [] d)) (\<lambda>attrs. io_ret (PbMsg msg_type attrs)))) r
      | _ \<Rightarrow> (Inl TypeErr, r))"
| "load_loop sc 0 flds d r = (Inl OutOfFuel, r)"
| "load_loop sc (Suc fuel) flds d r =
     (case load_uvarint r of
        (Inl e, r) \<Rightarrow> if e = EOFError then (Inr d, r) else (Inl e, r)
      | (Inr fkey, r) \<Rightarrow>
          let ftag = drop_bit 3 fkey;
              wtype = fkey AND 7
          in (case map_of flds ftag of
                None \<Rightarrow> io_bind (skip_field wtype) (\<lambda>_. load_loop sc fuel flds d) r
              | Some f \<Rightarrow>
                  io_bind (decode_field sc (\<lambda>ty r. load_message sc fuel ty r) f wtype) (\<lambda>fvalues.
                  io_bind (io_lift (store_field f fvalues d)) (\<lambda>d. load_loop sc fuel flds d)) r))"

declare load_message.simps [simp del] load_loop.simps [simp del]

definition decode_message :: "schema \<Rightarrow> string \<Rightarrow> bytes \<Rightarrow> pbval result" where
  "decode_message sc msg_type bs = fst (load_message sc (length bs + 1) msg_type (BytesIO bs))"

section \<open>Encoding\<close>

text \<open>How deep a value nests, for termination.\<close>

fun nesting :: "pbval \<Rightarrow> nat" where
  "nesting (PbList vs) = foldr max (map nesting vs) 0"
| "nesting (PbMsg c attrs) = Suc (foldr max (map (nesting \<circ> snd) attrs) 0)"
| "nesting v = 0"

lemma nesting_le: "v \<in> set vs \<Longrightarrow> nesting v \<le> foldr max (map nesting vs) 0"
  by (induction vs) auto

lemma nesting_attr: "map_of attrs n = Some v \<Longrightarrow> nesting v \<le> foldr max (map (nesting \<circ> snd) attrs) 0"
  by (induction attrs) (auto split: if_splits)

text \<open>The values of a field that is repeated or not. Bytes and text can be iterated as well.\<close>

definition field_values :: "pb_field \<Rightarrow> pbval \<Rightarrow> pbval list result" where
  "field_values f v =
     (if \<not> fd_repeated f then Inr [v]
      else
        (case v of
           PbList vs \<Rightarrow> Inr vs
         | PbBytes bs \<Rightarrow> Inr (map (\<lambda>b. PbInt (int (unat b))) bs)
         | PbStr s \<Rightarrow> Inr (map (\<lambda>c. PbStr [c]) s)
         | _ \<Rightarrow> Inl TypeErr))"

lemma foldr_max_zero [simp]: "foldr max (map (\<lambda>x. 0 :: nat) xs) 0 = 0"
  by (induction xs) simp_all

text \<open>\<open>getattr\<close> with \<open>None\<close> for an attribute that is missing.\<close>

definition attribute :: "(string \<times> pbval) list \<Rightarrow> string \<Rightarrow> pbval" where
  "attribute attrs name = (case map_of attrs name of None \<Rightarrow> PbNone | Some v \<Rightarrow> v)"

lemma nesting_attribute: "nesting (attribute attrs n) \<le> foldr max (map (nesting \<circ> snd) attrs) 0"
  by (simp add: attribute_def nesting_attr split: option.split)

lemma field_values_nesting: "field_values f v = Inr vs \<Longrightarrow> foldr max (map nesting vs) 0 \<le> nesting v"
  by (cases v) (auto simp: field_values_def comp_def split: if_splits)

text \<open>A value with its length before it.\<close>

definition dump_delimited :: "bytes \<Rightarrow> bytes result" where
  "dump_delimited bs = res_bind (dump_uvarint (int (length bs))) (\<lambda>n. Inr (n @ bs))"

definition value_error :: "schema \<Rightarrow> pb_field \<Rightarrow> pbval \<Rightarrow> string \<Rightarrow> exn" where
  "value_error sc f v what = ValueErr (''Value '' @ sc_str sc v @ '' in field '' @ fd_name f @ what)"

text \<open>A value whose type is no message. \<open>int\<close> reads the text of a number too.\<close>

definition dump_scalar :: "schema \<Rightarrow> pb_field \<Rightarrow> pbval \<Rightarrow> bytes result" where
  "dump_scalar sc f v =
     (case get_field_type_object sc f of
        Some (EnumObj members) \<Rightarrow>
          (case number_of v of
             Inr n \<Rightarrow> if n \<in> set members then dump_uvarint n else Inl (value_error sc f v ('' unknown for '' @ fd_type f))
           | Inl _ \<Rightarrow> Inl (value_error sc f v ('' unknown for '' @ fd_type f)))
      | _ \<Rightarrow>
          if prefix ''uint'' (fd_type f) then
            res_bind (value_fits f v) (\<lambda>fits.
            if fits then res_bind (number_of v) dump_uvarint
            else Inl (value_error sc f v ('' does not fit into '' @ fd_type f)))
          else if prefix ''sint'' (fd_type f) then
            res_bind (value_fits f v) (\<lambda>fits.
            if fits then res_bind (number_of v) (\<lambda>n. dump_uvarint (sint_to_uint n))
            else Inl (value_error sc f v ('' does not fit into '' @ fd_type f)))
          else if fd_type f = ''bool'' then
            res_bind (case v of
                PbStr s \<Rightarrow> if \<forall>c\<in>set s. c < 128 then py_int (map char_of s) else Inl (ValueErr ''invalid literal for int()'')
              | PbBytes bs \<Rightarrow> py_int (map (\<lambda>b. char_of (unat b)) bs)
              | _ \<Rightarrow> number_of v) dump_uvarint
          else if fd_type f = ''bytes'' then (case v of PbBytes bs \<Rightarrow> dump_delimited bs | _ \<Rightarrow> Inl AssertionErr)
          else if fd_type f = ''string'' then
            (case v of PbStr s \<Rightarrow> res_bind (utf8_encode s) dump_delimited | _ \<Rightarrow> Inl AssertionErr)
          else Inl TypeErr)"

text \<open>
  A message within a message is dumped twice, once only for its length. An attribute that is \<open>None\<close> is not sent.
\<close>

function dump_message :: "schema \<Rightarrow> pbval \<Rightarrow> bytes result"
  and dump_fields :: "schema \<Rightarrow> (nat \<times> pb_field) list \<Rightarrow> (string \<times> pbval) list \<Rightarrow> bytes result"
  and dump_values :: "schema \<Rightarrow> pb_field \<Rightarrow> nat \<Rightarrow> pbval list \<Rightarrow> bytes result"
  and dump_value :: "schema \<Rightarrow> pb_field \<Rightarrow> pbval \<Rightarrow> bytes result"
where
  "dump_message sc msg =
     (case msg of
        PbMsg c attrs \<Rightarrow>
          (case map_of (sc_types sc) c of
             Some (MessageObj flds) \<Rightarrow> dump_fields sc flds attrs
           | _ \<Rightarrow> Inl TypeErr)
      | _ \<Rightarrow> Inl (OtherErr ''AttributeError''))"
| "dump_fields sc [] attrs = Inr []"
| "dump_fields sc ((ftag, f) # flds) attrs =
     (let fvalue = attribute attrs (fd_name f) in
      if fvalue = PbPlaceholder then Inl (ValueErr (''Required value of field '' @ fd_name f @ '' was not provided''))
      else if fvalue = PbNone then dump_fields sc flds attrs
      else
        res_bind (field_wire_type sc f) (\<lambda>w.
        let fkey = push_bit 3 ftag OR w in
        case field_values f fvalue of
          Inl e \<Rightarrow> Inl e
        | Inr vs \<Rightarrow>
            res_bind (dump_values sc f fkey vs) (\<lambda>bs. res_bind (dump_fields sc flds attrs) (\<lambda>bs'. Inr (bs @ bs')))))"
| "dump_values sc f fkey [] = Inr []"
| "dump_values sc f fkey (v # vs) =
     res_bind (dump_uvarint (int fkey)) (\<lambda>key.
     res_bind (dump_value sc f v) (\<lambda>bs. res_bind (dump_values sc f fkey vs) (\<lambda>bs'. Inr (key @ bs @ bs'))))"
| "dump_value sc f v =
     (case get_field_type_object sc f of
        Some (MessageObj _) \<Rightarrow>
          (case v of
             PbMsg c _ \<Rightarrow>
               if c = fd_type f then res_bind (dump_message sc v) dump_delimited
               else Inl (value_error sc f v ('' is not '' @ fd_type f))
           | _ \<Rightarrow> Inl (value_error sc f v ('' is not '' @ fd_type f)))
      | _ \<Rightarrow> dump_scalar sc f v)"
  by pat_completeness auto
termination
  by (relation "inv_image (less_than <*lex*> less_than <*lex*> less_than) (\<lambda>x. case x of
      Inl (Inl (sc, msg)) \<Rightarrow> (nesting msg, 0, 0)
    | Inl (Inr (sc, flds, attrs)) \<Rightarrow> (foldr max (map (nesting \<circ> snd) attrs) 0, 3, length flds)
    | Inr (Inl (sc, f, fkey, vs)) \<Rightarrow> (foldr max (map nesting vs) 0, 2, length vs)
    | Inr (Inr (sc, f, v)) \<Rightarrow> (nesting v, 1, 0))")
    (auto dest!: field_values_nesting intro: le_neq_implies_less order_trans [OF _ nesting_attribute])

end
