(* ===== verification/Trezor_Protobuf_Spec.thy ===== *)
theory Trezor_Protobuf_Spec
  imports Trezor_Protobuf
begin

text \<open>
  What the encoding of Trezor messages guarantees: decoding ends with a message of the class or an exception, and a
  message whose attributes have the types of its class is encoded without error and decoded to itself.
\<close>

section \<open>Decoding ends\<close>

lemma reads_packed_loop [reads_intros]: "reads k (packed_loop sc f)"
proof -
  have "packed_loop sc f r = (x, r') \<Longrightarrow> x \<noteq> Inl OutOfFuel \<and> (\<exists>n. r' = advance n r \<and> n \<le> length (available r))" for r x r'
  proof (induction sc f r arbitrary: x r' rule: packed_loop.induct)
    case (1 sc f r)
    obtain y r1 where y: "decode_varint_field sc f r = (y, r1)" by fastforce
    from readsD [OF reads_varint_field [of "Suc (length (available r))"] _ y]
    obtain n where n: "r1 = advance n r" "n \<le> length (available r)" "y \<noteq> Inl OutOfFuel" by auto
    show ?case
    proof (cases y)
      case (Inl e)
      with 1(2) y n show ?thesis by (auto simp: packed_loop.simps [of sc f r] split: if_splits)
    next
      case (Inr v)
      obtain z r2 where z: "packed_loop sc f r1 = (z, r2)" by fastforce
      from "1.IH" [OF y [symmetric] Inr this] obtain m
        where m: "z \<noteq> Inl OutOfFuel" "r2 = advance m r1" "m \<le> length (available r1)" by blast
      have "r' = r2" "x = (case z of Inl e \<Rightarrow> Inl e | Inr vs \<Rightarrow> Inr (v # vs))"
        using 1(2) y z Inr by (auto simp: packed_loop.simps [of sc f r] split: sum.splits)
      with m n show ?thesis by (auto intro!: exI [of _ "n + m"] split: sum.split)
    qed
  qed
  then show ?thesis unfolding reads_def by blast
qed

lemma reads_packed [reads_intros]: "reads k (decode_packed_array_field sc f)"
  unfolding decode_packed_array_field_def by (intro reads_intros) simp

lemma reads_buffer [reads_intros]: "reads k (read_buffer n)"
  unfolding reads_def
proof (intro allI impI)
  fix r x r' assume run: "read_buffer n r = (x, r')"
  obtain bs r1 where r1: "readinto n r = (bs, r1)" by fastforce
  from readinto_reads [OF this] have "r1 = advance (length bs) r" "length bs \<le> length (available r)"
    by (simp, metis length_take min.cobounded1)
  then show "x \<noteq> Inl OutOfFuel \<and> (\<exists>n. r' = advance n r \<and> n \<le> length (available r))"
    using run r1 by (auto simp: read_buffer_def intro: exI [of _ 0] split: if_splits)
qed

lemma utf8_decode_fuel [simp]: "utf8_decode bs \<noteq> Inl OutOfFuel"
  by (induction bs rule: utf8_decode.induct) (subst utf8_decode.simps, auto simp: res_bind_eq_Inl split: option.splits)

lemma reads_delimited [reads_intros]:
  "(\<And>ty. reads k (load ty)) \<Longrightarrow> reads k (decode_length_delimited_field sc load f)"
  unfolding decode_length_delimited_field_def
  by (intro reads_intros) (auto intro!: reads_intros split: option.split type_object.split)

lemma reads_skip [reads_intros]: "reads k (skip_field wtype)"
  unfolding skip_field_def by (intro reads_intros) simp

lemma reads_field [reads_intros]: "(\<And>ty. reads k (load ty)) \<Longrightarrow> reads k (decode_field sc load f wtype)"
  unfolding decode_field_def by (intro reads_intros) simp_all

lemma store_field_fuel [simp]: "store_field f vs d \<noteq> Inl OutOfFuel"
  by (auto simp: store_field_def split: option.split pbval.split list.split)

lemma init_attributes_fuel [simp]: "init_attributes flds args kwargs \<noteq> Inl OutOfFuel"
  by (induction flds args kwargs rule: init_attributes.induct) (auto simp: res_bind_eq_Inl split: option.splits list.splits if_splits)

lemma check_required_fuel [simp]: "check_required flds d \<noteq> Inl OutOfFuel"
  by (auto simp: check_required_def split: option.split)

lemma reads_message_by_loop:
  assumes "\<And>flds d. reads k (load_loop sc k flds d)"
  shows "reads k (load_message sc k ty)"
proof -
  have "reads k (\<lambda>r. io_bind (load_loop sc k flds (preseed flds)) (\<lambda>d.
      io_bind (io_lift (check_required flds d)) (\<lambda>_.
      io_bind (io_lift (init_attributes flds [] d)) (\<lambda>attrs. io_ret (PbMsg ty attrs)))) r)" for flds
    by (intro reads_intros assms) simp_all
  then show ?thesis unfolding reads_def load_message.simps
    by (auto split: option.splits type_object.splits intro!: exI [of _ 0])
qed

lemma reads_loop: "reads fuel (load_loop sc fuel flds d)"
proof (induction fuel arbitrary: flds d)
  case 0
  then show ?case by (simp add: reads_def)
next
  case (Suc fuel)
  show ?case
    unfolding reads_def
  proof (intro allI impI)
    fix r x r' assume short: "length (available r) < Suc fuel" and run: "load_loop sc (Suc fuel) flds d r = (x, r')"
    obtain y r1 where y: "load_uvarint r = (y, r1)" by fastforce
    then obtain n where n: "r1 = advance n r" "n \<le> length (available r)" "\<forall>v. y = Inr v \<longrightarrow> 0 < n" "y \<noteq> Inl OutOfFuel"
      by (rule load_uvarint_reads)
    show "x \<noteq> Inl OutOfFuel \<and> (\<exists>n. r' = advance n r \<and> n \<le> length (available r))"
    proof (cases y)
      case (Inl e)
      with run y n show ?thesis by (auto simp: load_loop.simps split: if_splits)
    next
      case (Inr fkey)
      with n short have fewer: "length (available r1) < fuel" by simp
      have "\<exists>m. reads fuel m \<and> m r1 = (x, r')"
      proof (cases "map_of flds (drop_bit 3 fkey)")
        case None
        have "reads fuel (io_bind (skip_field (fkey AND 7)) (\<lambda>_. load_loop sc fuel flds d))" by (intro reads_intros Suc)
        with None run y Inr show ?thesis by (auto simp: load_loop.simps Let_def)
      next
        case (Some f)
        have "reads fuel (io_bind (decode_field sc (\<lambda>ty r. load_message sc fuel ty r) f (fkey AND 7)) (\<lambda>fvalues.
            io_bind (io_lift (store_field f fvalues d)) (\<lambda>d. load_loop sc fuel flds d)))"
          by (intro reads_intros Suc reads_message_by_loop) simp
        with Some run y Inr show ?thesis by (auto simp: load_loop.simps Let_def)
      qed
      with readsD [OF _ fewer] n show ?thesis by (fastforce intro: exI [of _ "_ + _"])
    qed
  qed
qed

lemma reads_message: "reads fuel (load_message sc fuel ty)"
  by (intro reads_message_by_loop reads_loop)

section \<open>Types\<close>

text \<open>A table of classes as \<open>messages.py\<close> has them: tags and names of fields differ, and every type exists.\<close>

definition fields_ok :: "schema \<Rightarrow> (nat \<times> pb_field) list \<Rightarrow> bool" where
  "fields_ok sc flds \<longleftrightarrow> distinct (map fst flds) \<and> distinct (map (fd_name \<circ> snd) flds)
     \<and> (\<forall>(tag, f)\<in>set flds. fd_type f \<in> dom (map_of WIRE_TYPES) \<or> fd_type f \<in> dom (map_of (sc_types sc)))"

definition schema_ok :: "schema \<Rightarrow> bool" where
  "schema_ok sc \<longleftrightarrow> (\<forall>(ty, t)\<in>set (sc_types sc). ty \<notin> dom (map_of WIRE_TYPES) \<and>
     (case t of EnumObj members \<Rightarrow> \<forall>m\<in>set members. 0 \<le> m | MessageObj flds \<Rightarrow> fields_ok sc flds))"

text \<open>
  The values of a type. In the strict sense numbers are in range, members of their enumeration, and texts and bytes
  not too long; what is read has the type in the weak sense only.
\<close>

definition in_range :: "string \<Rightarrow> int \<Rightarrow> bool" where
  "in_range ty n \<longleftrightarrow>
     (if ty = ''uint32'' then 0 \<le> n \<and> n < 2 ^ 32 else if ty = ''uint64'' then 0 \<le> n \<and> n < 2 ^ 64
      else if ty = ''sint32'' then - (2 ^ 31) \<le> n \<and> n < 2 ^ 31 else - (2 ^ 63) \<le> n \<and> n < 2 ^ 63)"

definition field_holds :: "(string \<Rightarrow> pbval \<Rightarrow> bool) \<Rightarrow> bool \<Rightarrow> pb_field \<Rightarrow> pbval \<Rightarrow> bool" where
  "field_holds P strict f v \<longleftrightarrow>
     (if fd_repeated f then \<exists>vs. v = PbList vs \<and> (\<forall>x\<in>set vs. P (fd_type f) x)
      else (\<not> fd_required f \<and> v = fd_default f \<and> (strict \<longrightarrow> v = PbNone)) \<or> P (fd_type f) v)"

lemma field_holds_mono [mono]: "P \<le> Q \<Longrightarrow> field_holds P strict f v \<longrightarrow> field_holds Q strict f v"
  by (auto simp: field_holds_def le_fun_def)

inductive typed :: "schema \<Rightarrow> bool \<Rightarrow> string \<Rightarrow> pbval \<Rightarrow> bool" for sc strict where
  unsigned: "ty \<in> {''uint32'', ''uint64''} \<Longrightarrow> 0 \<le> n \<Longrightarrow> (strict \<Longrightarrow> in_range ty n) \<Longrightarrow> typed sc strict ty (PbInt n)"
| signed: "ty \<in> {''sint32'', ''sint64''} \<Longrightarrow> (strict \<Longrightarrow> in_range ty n) \<Longrightarrow> typed sc strict ty (PbInt n)"
| boolean: "typed sc strict ''bool'' (PbBool b)"
| bytes: "(strict \<Longrightarrow> length bs < 2 ^ 63) \<Longrightarrow> typed sc strict ''bytes'' (PbBytes bs)"
| string: "list_all scalar s \<Longrightarrow> (strict \<Longrightarrow> 4 * length s < 2 ^ 63) \<Longrightarrow> typed sc strict ''string'' (PbStr s)"
| enum: "map_of (sc_types sc) ty = Some (EnumObj members) \<Longrightarrow> 0 \<le> n \<Longrightarrow> (strict \<Longrightarrow> n \<in> set members) \<Longrightarrow> typed sc strict ty (PbInt n)"
| message: "map_of (sc_types sc) ty = Some (MessageObj flds) \<Longrightarrow> map fst attrs = map (fd_name \<circ> snd) flds \<Longrightarrow>
    \<forall>x\<in>set (zip flds attrs). field_holds (typed sc strict) strict (snd (fst x)) (snd (snd x)) \<Longrightarrow>
    typed sc strict ty (PbMsg ty attrs)"

abbreviation field_typed :: "schema \<Rightarrow> bool \<Rightarrow> pb_field \<Rightarrow> pbval \<Rightarrow> bool" where
  "field_typed sc strict \<equiv> field_holds (typed sc strict) strict"

lemma wire_types_dom: "fd_type f \<in> dom (map_of WIRE_TYPES) \<longleftrightarrow>
    fd_type f \<in> {''uint32'', ''uint64'', ''sint32'', ''sint64'', ''bool'', ''bytes'', ''string''}"
  by (auto simp: WIRE_TYPES_def)

lemma schema_classes:
  assumes "schema_ok sc" and "map_of (sc_types sc) ty = Some (MessageObj flds)"
  shows "fields_ok sc flds"
  using assms by (fastforce simp: schema_ok_def dest: map_of_SomeD)

lemma class_same:
  assumes "fields_ok sc flds" and "(tag, f) \<in> set flds" and "(t, g) \<in> set flds" and "fd_name g = fd_name f"
  shows "t = tag \<and> g = f"
proof -
  have "inj_on (fd_name \<circ> snd) (set flds)" using assms(1) by (simp add: fields_ok_def distinct_map)
  from inj_onD [OF this, of "(t, g)" "(tag, f)"] assms(2-4) have "(t, g) = (tag, f)" by simp
  then show ?thesis by simp
qed

lemma schema_names: "schema_ok sc \<Longrightarrow> map_of (sc_types sc) ty = Some t \<Longrightarrow> ty \<notin> dom (map_of WIRE_TYPES)"
  by (fastforce simp: schema_ok_def dest: map_of_SomeD)

section \<open>What is read has the type of its field\<close>

lemma utf8_tail_bound: "utf8_tail k acc s = Some (c, s') \<Longrightarrow> c < (acc + 1) * 64 ^ k"
proof (induction k acc s rule: utf8_tail.induct)
  case (3 k acc b s)
  then have b: "128 \<le> unat b" "unat b < 192" and "utf8_tail k (acc * 64 + (unat b - 128)) s = Some (c, s')"
    by (auto split: if_splits)
  with 3 have "c < (acc * 64 + (unat b - 128) + 1) * 64 ^ k" by auto
  also have "\<dots> \<le> (acc + 1) * 64 * 64 ^ k" using b by (intro mult_right_mono) auto
  finally show ?case by (simp only: power_Suc mult.assoc)
qed auto

lemma utf8_next_scalar: "utf8_next bs = Some (c, bs') \<Longrightarrow> scalar c"
proof (induction bs rule: utf8_next.induct)
  case (2 b s)
  consider "unat b < 128" | "192 \<le> unat b" "unat b < 224" | "224 \<le> unat b" "unat b < 240" | "240 \<le> unat b" "unat b < 245"
    using 2 by (fastforce simp: Let_def split: if_splits)
  then show ?case
  proof cases
    case 1
    with 2 show ?thesis by (simp add: scalar_def)
  next
    case 2
    with "2.prems" have "utf8_tail 1 (unat b - 192) s = Some (c, bs')" by (auto simp: Let_def split: if_splits)
    from utf8_tail_bound [OF this] 2 have "c < 2048" by simp
    then show ?thesis by (simp add: scalar_def)
  next
    case 3
    with "2.prems" have t: "utf8_tail 2 (unat b - 224) s = Some (c, bs')" and "\<not> (0xD800 \<le> c \<and> c < 0xE000)"
      by (auto simp: Let_def simp del: utf8_tail_numeral split: if_splits option.splits)
    moreover have "c < 16 * 4096" using less_le_trans [OF utf8_tail_bound [OF t]] 3 by (auto simp: power2_eq_square)
    ultimately show ?thesis by (auto simp: scalar_def)
  next
    case 4
    with "2.prems" have "c < 0x110000" "0x10000 \<le> c"
      by (auto simp: Let_def simp del: utf8_tail_numeral split: if_splits option.splits)
    then show ?thesis by (simp add: scalar_def)
  qed
qed simp

lemma utf8_decode_scalar: "utf8_decode bs = Inr s \<Longrightarrow> list_all scalar s"
proof (induction bs arbitrary: s rule: utf8_decode.induct)
  case (1 bs)
  then show ?case
    using utf8_next_scalar [of bs] by (cases "utf8_next bs") (auto simp: utf8_decode.simps [of bs] split: if_splits)
qed

lemma varint_field_typed:
  assumes "schema_ok sc" and "decode_varint_field sc f r = (Inr v, r')"
  shows "typed sc False (fd_type f) v"
proof -
  have w: "field_wire_type sc f = Inr WIRE_TYPE_INT" and
    v: "case get_field_type_object sc f of Some (EnumObj _) \<Rightarrow> \<exists>n. v = PbInt (int n)
      | _ \<Rightarrow> if prefix ''uint'' (fd_type f) then \<exists>n. v = PbInt (int n) \<and> value_fits f v \<noteq> Inl (ValueErr (''Cannot check range bounds for '' @ fd_type f))
          else if prefix ''sint'' (fd_type f) then \<exists>n. v = PbInt n \<and> value_fits f v \<noteq> Inl (ValueErr (''Cannot check range bounds for '' @ fd_type f))
          else fd_type f = ''bool'' \<and> (\<exists>b. v = PbBool b)"
    using assms(2) unfolding decode_varint_field_def
    by (auto simp: io_bind_Inr io_ret_def io_fail_def io_lift_def Let_def split: if_splits option.splits type_object.splits)
  show ?thesis
  proof (cases "get_field_type_object sc f")
    case None
    then have "fd_type f \<in> {''uint32'', ''uint64'', ''sint32'', ''sint64'', ''bool''}"
      using w by (auto simp: field_wire_type_def WIRE_TYPES_def WIRE_TYPE_INT_def WIRE_TYPE_LENGTH_def split: if_splits)
    with None v show ?thesis
      by (elim insertE) (auto intro: typed.boolean typed.signed typed.unsigned [of "''uint32''"] typed.unsigned [of "''uint64''"])
  next
    case (Some t)
    then show ?thesis
    proof (cases t)
      case (EnumObj members)
      with Some v show ?thesis by (auto simp: get_field_type_object_def intro!: typed.enum)
    next
      case (MessageObj flds)
      with w Some schema_names [OF assms(1)] show ?thesis
        by (auto simp: field_wire_type_def get_field_type_object_def WIRE_TYPE_INT_def WIRE_TYPE_LENGTH_def split: option.splits)
    qed
  qed
qed

lemma packed_loop_typed:
  "packed_loop sc f r = (Inr vs, r') \<Longrightarrow> schema_ok sc \<Longrightarrow> v \<in> set vs \<Longrightarrow> typed sc False (fd_type f) v"
proof (induction sc f r arbitrary: vs r' rule: packed_loop.induct)
  case (1 sc f r)
  obtain y r1 where y: "decode_varint_field sc f r = (y, r1)" by fastforce
  show ?case
  proof (cases y)
    case (Inl e)
    with 1 y show ?thesis by (auto simp: packed_loop.simps [of sc f r] split: if_splits)
  next
    case (Inr w)
    with "1.prems"(1) y obtain ws where "packed_loop sc f r1 = (Inr ws, r')" "vs = w # ws"
      by (auto simp: packed_loop.simps [of sc f r] split: prod.splits sum.splits)
    then show ?thesis using "1.IH" [OF y [symmetric] Inr] "1.prems"(2, 3) varint_field_typed [of sc f r w r1] y Inr by auto
  qed
qed

lemma limited_Inr: "limited n m r = (Inr v, r') \<longleftrightarrow> (\<exists>r2. m (LimitedReader r n) = (Inr v, r2) \<and> r' = unlimited r2)"
  by (auto simp: limited_def split: prod.split)

lemma delimited_typed:
  assumes "\<And>r v r'. load (fd_type f) r = (Inr v, r') \<Longrightarrow> typed sc False (fd_type f) v"
    and "decode_length_delimited_field sc load f r = (Inr v, r')"
  shows "typed sc False (fd_type f) v"
proof -
  consider (bytes) bs where "fd_type f = ''bytes''" "v = PbBytes bs"
    | (string) bs s where "fd_type f = ''string''" "utf8_decode bs = Inr s" "v = PbStr s"
    | (msg) r1 n where "limited n (load (fd_type f)) r1 = (Inr v, r')"
    using assms(2) unfolding decode_length_delimited_field_def
    by (auto simp: io_bind_Inr io_ret_def io_fail_def io_lift_def split: if_splits option.splits type_object.splits)
  then show ?thesis
  proof cases
    case msg
    then show ?thesis using assms(1) by (auto simp: limited_Inr)
  qed (auto intro: typed.bytes typed.string utf8_decode_scalar)
qed

lemma decode_field_typed:
  assumes "schema_ok sc" and "\<And>ty r v r'. load ty r = (Inr v, r') \<Longrightarrow> typed sc False ty v"
    and "decode_field sc load f wtype r = (Inr vs, r')" and "v \<in> set vs"
  shows "typed sc False (fd_type f) v"
proof -
  consider (packed) n r1 where "limited n (packed_loop sc f) r1 = (Inr vs, r')"
    | (one) r1 where "decode_length_delimited_field sc load f r1 = (Inr v, r')"
    | (num) r1 where "decode_varint_field sc f r1 = (Inr v, r')"
    using assms(3, 4) unfolding decode_field_def decode_packed_array_field_def
    by (auto simp: io_bind_Inr io_ret_def io_fail_def io_lift_def split: if_splits)
  then show ?thesis
  proof cases
    case packed
    then obtain r2 where "packed_loop sc f (LimitedReader r1 n) = (Inr vs, r2)" by (auto simp: limited_Inr)
    from packed_loop_typed [OF this assms(1, 4)] show ?thesis .
  next
    case one
    from delimited_typed [OF assms(2) this] show ?thesis .
  next
    case num
    from varint_field_typed [OF assms(1) this] show ?thesis .
  qed
qed

text \<open>What the dictionary of a class holds while its fields are read: only a required field may be missing.\<close>

definition dict_typed :: "schema \<Rightarrow> (nat \<times> pb_field) list \<Rightarrow> (string, pbval) dict \<Rightarrow> bool" where
  "dict_typed sc flds d \<longleftrightarrow> (\<forall>(tag, f)\<in>set flds.
     case map_of d (fd_name f) of None \<Rightarrow> fd_required f \<and> \<not> fd_repeated f | Some v \<Rightarrow> field_typed sc False f v)"

lemma map_of_foldl_update:
  assumes "distinct (map key xs)"
  shows "map_of (foldl (\<lambda>d x. case val x of None \<Rightarrow> d | Some v \<Rightarrow> AList.update (key x) v d) d xs) k =
    (case find (\<lambda>x. key x = k \<and> val x \<noteq> None) xs of None \<Rightarrow> map_of d k | Some x \<Rightarrow> val x)"
  using assms
proof (induction xs arbitrary: d)
  case (Cons x xs)
  have "find (\<lambda>y. key y = key x \<and> val y \<noteq> None) xs = None" using Cons.prems by (auto simp: find_None_iff image_iff)
  with Cons show ?case by (auto simp: update_conv' split: option.split)
qed simp

definition seed :: "pb_field \<Rightarrow> pbval option" where
  "seed f = (if fd_repeated f then Some (PbList []) else if \<not> fd_required f then Some (fd_default f) else None)"

lemma preseed_eq: "preseed flds = foldl (\<lambda>d x. case seed (snd x) of None \<Rightarrow> d | Some v \<Rightarrow> AList.update (fd_name (snd x)) v d) [] flds"
proof -
  have "(\<lambda>d (tag :: nat, f). if fd_repeated f then AList.update (fd_name f) (PbList []) d
        else if \<not> fd_required f then AList.update (fd_name f) (fd_default f) d else d)
     = (\<lambda>d x. case seed (snd x) of None \<Rightarrow> d | Some v \<Rightarrow> AList.update (fd_name (snd x)) v d)"
    by (auto simp: fun_eq_iff seed_def)
  then show ?thesis by (simp only: preseed_def)
qed

lemma map_of_preseed:
  assumes "fields_ok sc flds" and "(tag, f) \<in> set flds"
  shows "map_of (preseed flds) (fd_name f) = seed f"
proof -
  have d: "distinct (map (\<lambda>x. fd_name (snd x)) flds)" using assms(1) by (simp add: fields_ok_def comp_def)
  have same: "x = (tag, f)" if "x \<in> set flds" "fd_name (snd x) = fd_name f" for x
    using class_same [OF assms, of "fst x" "snd x"] that by (cases x) simp
  show ?thesis
  proof (cases "seed f")
    case None
    then have "find (\<lambda>x. fd_name (snd x) = fd_name f \<and> seed (snd x) \<noteq> None) flds = None"
      using same by (fastforce simp: find_None_iff)
    with None show ?thesis by (simp add: preseed_eq map_of_foldl_update [OF d])
  next
    case (Some v)
    then obtain x where x: "find (\<lambda>x. fd_name (snd x) = fd_name f \<and> seed (snd x) \<noteq> None) flds = Some x"
      using assms(2) by (cases "find (\<lambda>x. fd_name (snd x) = fd_name f \<and> seed (snd x) \<noteq> None) flds")
        (fastforce simp: find_None_iff)+
    then have "x \<in> set flds" "fd_name (snd x) = fd_name f" by (auto simp: find_Some_iff)
    then have "x = (tag, f)" by (rule same)
    with x Some show ?thesis by (simp add: preseed_eq map_of_foldl_update [OF d])
  qed
qed

lemma preseed_typed: "fields_ok sc flds \<Longrightarrow> dict_typed sc flds (preseed flds)"
  by (auto simp: dict_typed_def map_of_preseed seed_def field_holds_def)

lemma store_field_typed:
  assumes "fields_ok sc flds" and "(tag, f) \<in> set flds" and "dict_typed sc flds d"
    and "\<forall>v\<in>set vs. typed sc False (fd_type f) v" and "store_field f vs d = Inr d'"
  shows "dict_typed sc flds d'"
proof -
  have same: "g = f" if "(t, g) \<in> set flds" "fd_name g = fd_name f" for t g
    using class_same [OF assms(1, 2) that] by simp
  obtain v where v: "d' = AList.update (fd_name f) v d" "field_typed sc False f v"
    using assms(2-5) unfolding store_field_def dict_typed_def
    by (fastforce simp: field_holds_def split: if_splits option.splits pbval.splits list.splits)
  have "case map_of d' (fd_name g) of None \<Rightarrow> fd_required g \<and> \<not> fd_repeated g | Some v \<Rightarrow> field_typed sc False g v"
    if "(t, g) \<in> set flds" for t g
  proof (cases "fd_name g = fd_name f")
    case True
    with same [OF that] v show ?thesis by (simp add: update_conv')
  next
    case False
    with that assms(3) v(1) show ?thesis by (auto simp: dict_typed_def update_conv')
  qed
  then show ?thesis by (auto simp: dict_typed_def)
qed

lemma init_attributes_named:
  "\<forall>(tag, f)\<in>set flds. map_of d (fd_name f) \<noteq> None \<Longrightarrow>
    init_attributes flds [] d = Inr (map (\<lambda>(tag, f). (fd_name f, the (map_of d (fd_name f)))) flds)"
  by (induction flds) auto

lemma message_typed:
  assumes "map_of (sc_types sc) ty = Some (MessageObj flds)" and "dict_typed sc flds d"
    and "check_required flds d = Inr ()" and "init_attributes flds [] d = Inr attrs"
  shows "typed sc False ty (PbMsg ty attrs)"
proof -
  have all: "\<forall>(tag, f)\<in>set flds. map_of d (fd_name f) \<noteq> None"
    using assms(2, 3) by (fastforce simp: dict_typed_def check_required_def find_None_iff split: option.splits)
  then have attrs: "attrs = map (\<lambda>(tag, f). (fd_name f, the (map_of d (fd_name f)))) flds"
    using init_attributes_named [OF all] assms(4) by simp
  show ?thesis
  proof (rule typed.message [OF assms(1)])
    show "map fst attrs = map (fd_name \<circ> snd) flds" by (simp add: attrs split_def)
    show "\<forall>x\<in>set (zip flds attrs). field_typed sc False (snd (fst x)) (snd (snd x))"
    proof -
      have "zip flds attrs = map (\<lambda>x. (x, fd_name (snd x), the (map_of d (fd_name (snd x))))) flds"
        by (simp add: attrs split_def zip_map2 zip_same_conv_map)
      moreover have "field_typed sc False (snd x) (the (map_of d (fd_name (snd x))))" if "x \<in> set flds" for x
        using that all assms(2) by (fastforce simp: dict_typed_def)
      ultimately show ?thesis by simp
    qed
  qed
qed

lemma load_typed:
  "load_message sc fuel ty r = (Inr v, r') \<Longrightarrow> schema_ok sc \<Longrightarrow> typed sc False ty v"
  "load_loop sc fuel flds d r = (Inr d', r') \<Longrightarrow> schema_ok sc \<Longrightarrow> fields_ok sc flds \<Longrightarrow> dict_typed sc flds d \<Longrightarrow> dict_typed sc flds d'"
proof (induction sc fuel ty r and sc fuel flds d r arbitrary: v r' and d' r' rule: load_message_load_loop.induct)
  case (1 sc fuel ty r)
  then obtain flds d attrs r1 where m: "map_of (sc_types sc) ty = Some (MessageObj flds)"
      and "load_loop sc fuel flds (preseed flds) r = (Inr d, r1)" "check_required flds d = Inr ()"
      and "init_attributes flds [] d = Inr attrs" "v = PbMsg ty attrs"
    by (auto simp add: load_message.simps io_bind_Inr split: option.splits type_object.splits)
  note run = this
  have "fields_ok sc flds" using schema_classes [OF "1.prems"(2) m] .
  from "1.IH" [OF m refl run(2) "1.prems"(2) this preseed_typed [OF this]] have "dict_typed sc flds d" .
  from message_typed [OF m this run(3, 4)] run(5) show ?case by simp
next
  case (2 sc flds d r)
  then show ?case by (simp add: load_loop.simps)
next
  case (3 sc fuel flds d r)
  obtain y r1 where y: "load_uvarint r = (y, r1)" by fastforce
  show ?case
  proof (cases y)
    case (Inl e)
    with 3 y show ?thesis by (auto simp: load_loop.simps split: if_splits)
  next
    case (Inr fkey)
    show ?thesis
    proof (cases "map_of flds (drop_bit 3 fkey)")
      case None
      with "3.prems"(1) y Inr obtain r2 where "load_loop sc fuel flds d r2 = (Inr d', r')"
        by (auto simp: load_loop.simps Let_def io_bind_Inr)
      with "3.IH"(1) [OF y [symmetric] Inr refl refl None] "3.prems" show ?thesis by blast
    next
      case (Some f)
      with "3.prems"(1) y Inr obtain vs d1 r2
        where field: "decode_field sc (\<lambda>ty r. load_message sc fuel ty r) f (fkey AND 7) r1 = (Inr vs, r2)"
          and stored: "store_field f vs d = Inr d1" and rest: "load_loop sc fuel flds d1 r2 = (Inr d', r')"
        by (auto simp: load_loop.simps Let_def io_bind_Inr io_lift_def)
      have "typed sc False (fd_type f) v" if "v \<in> set vs" for v
        using decode_field_typed [OF "3.prems"(2) _ field that] "3.IH"(2) [OF y [symmetric] Inr refl refl Some] "3.prems"(2) by blast
      then have "dict_typed sc flds d1"
        using store_field_typed [OF "3.prems"(3) map_of_SomeD [OF Some] "3.prems"(4) _ stored] by blast
      with "3.IH"(3) [OF y [symmetric] Inr refl refl Some] rest "3.prems" show ?thesis by blast
    qed
  qed
qed

section \<open>What is written is read\<close>

definition decode_value :: "schema \<Rightarrow> nat \<Rightarrow> pb_field \<Rightarrow> (stream, pbval) io" where
  "decode_value sc fuel f =
     (if field_wire_type sc f = Inr WIRE_TYPE_LENGTH
      then decode_length_delimited_field sc (\<lambda>ty r. load_message sc fuel ty r) f else decode_varint_field sc f)"

text \<open>A value is written, and where it stands it is read back.\<close>

definition survives :: "schema \<Rightarrow> string \<Rightarrow> pbval \<Rightarrow> bool" where
  "survives sc ty v \<longleftrightarrow> v \<noteq> PbNone \<and> v \<noteq> PbPlaceholder \<and> (\<forall>f. fd_type f = ty \<longrightarrow> (\<exists>bs. dump_value sc f v = Inr bs \<and>
     (\<forall>r rest fuel. available r = bs @ rest \<longrightarrow> length bs \<le> fuel \<longrightarrow> decode_value sc fuel f r = (Inr v, advance (length bs) r))))"

lemma dump_uvarint_nat [simp]: "dump_uvarint (int n) = Inr (uvarint_bytes n)"
  by (simp add: dump_uvarint_def)

lemma dump_uvarint_nonneg: "0 \<le> n \<Longrightarrow> dump_uvarint n = Inr (uvarint_bytes (nat n))"
  by (simp add: dump_uvarint_def)

lemma survivesI:
  assumes "v \<noteq> PbNone" and "v \<noteq> PbPlaceholder"
    and "\<And>f. fd_type f = ty \<Longrightarrow> dump_value sc f v = Inr bs"
    and "\<And>f r rest fuel. fd_type f = ty \<Longrightarrow> available r = bs @ rest \<Longrightarrow> length bs \<le> fuel \<Longrightarrow>
      decode_value sc fuel f r = (Inr v, advance (length bs) r)"
  shows "survives sc ty v"
  using assms unfolding survives_def by blast

lemma not_a_type: "schema_ok sc \<Longrightarrow> ty \<in> dom (map_of WIRE_TYPES) \<Longrightarrow> map_of (sc_types sc) ty = None"
  by (cases "map_of (sc_types sc) ty") (auto dest: schema_names)

lemma survives_number:
  assumes "v \<noteq> PbNone" and "v \<noteq> PbPlaceholder"
    and "\<And>f :: pb_field. fd_type f = ty \<Longrightarrow> field_wire_type sc f = Inr WIRE_TYPE_INT"
    and "\<And>f :: pb_field. fd_type f = ty \<Longrightarrow> dump_value sc f v = Inr (uvarint_bytes n)"
    and "\<And>(f :: pb_field) r r'. fd_type f = ty \<Longrightarrow> load_uvarint r = (Inr n, r') \<Longrightarrow> decode_varint_field sc f r = (Inr v, r')"
  shows "survives sc ty v"
proof (rule survivesI [OF assms(1, 2)])
  fix f :: pb_field assume f: "fd_type f = ty"
  show "dump_value sc f v = Inr (uvarint_bytes n)" by (rule assms(4) [OF f])
  fix r rest and fuel :: nat assume "available r = uvarint_bytes n @ rest"
  from assms(5) [OF f load_uvarint_bytes [OF this]] show "decode_value sc fuel f r = (Inr v, advance (length (uvarint_bytes n)) r)"
    by (simp add: decode_value_def assms(3) [OF f] WIRE_TYPE_INT_def WIRE_TYPE_LENGTH_def)
qed

lemma survives_int:
  assumes "schema_ok sc" and "ty \<in> {''uint32'', ''uint64'', ''sint32'', ''sint64''}" and "in_range ty n"
  shows "survives sc ty (PbInt n)"
proof (rule survives_number)
  have t: "map_of (sc_types sc) ty = None" using not_a_type [OF assms(1), of ty] assms(2) by (auto simp: WIRE_TYPES_def)
  fix f :: pb_field assume f: "fd_type f = ty"
  have fits: "value_fits f (PbInt n) = Inr True" using f assms(2, 3) by (auto simp: value_fits_def number_of_def in_range_def)
  show w: "field_wire_type sc f = Inr WIRE_TYPE_INT" using f assms(2) by (auto simp: field_wire_type_def WIRE_TYPES_def)
  show "dump_value sc f (PbInt n) = Inr (uvarint_bytes (nat (if prefix ''uint'' ty then n else sint_to_uint n)))"
    using f assms(2, 3) t fits
    by (auto simp: dump_scalar_def get_field_type_object_def number_of_def dump_uvarint_nonneg in_range_def)
  fix r r' assume "load_uvarint r = (Inr (nat (if prefix ''uint'' ty then n else sint_to_uint n)), r')"
  then show "decode_varint_field sc f r = (Inr (PbInt n), r')"
    using f assms(2, 3) t fits w
    by (auto simp: decode_varint_field_def get_field_type_object_def io_bind_def in_range_def)
qed simp_all

lemma survives_bool:
  assumes "schema_ok sc"
  shows "survives sc ''bool'' (PbBool b)"
proof (rule survives_number)
  have t: "map_of (sc_types sc) ''bool'' = None" using not_a_type [OF assms, of "''bool''"] by (auto simp: WIRE_TYPES_def)
  fix f :: pb_field assume f: "fd_type f = ''bool''"
  show w: "field_wire_type sc f = Inr WIRE_TYPE_INT" using f by (auto simp: field_wire_type_def WIRE_TYPES_def)
  show "dump_value sc f (PbBool b) = Inr (uvarint_bytes (of_bool b))"
    using f t by (auto simp: dump_scalar_def get_field_type_object_def number_of_def dump_uvarint_nonneg)
  fix r r' assume "load_uvarint r = (Inr (of_bool b), r')"
  then show "decode_varint_field sc f r = (Inr (PbBool b), r')"
    using f t w by (simp add: decode_varint_field_def get_field_type_object_def io_bind_def)
qed simp_all

lemma survives_enum:
  assumes "schema_ok sc" and "map_of (sc_types sc) ty = Some (EnumObj members)" and "0 \<le> n" and "n \<in> set members"
  shows "survives sc ty (PbInt n)"
proof (rule survives_number)
  have t: "map_of WIRE_TYPES ty = None" using schema_names [OF assms(1, 2)] by (auto simp: domIff)
  fix f :: pb_field assume f: "fd_type f = ty"
  show w: "field_wire_type sc f = Inr WIRE_TYPE_INT" using f t assms(2) by (simp add: field_wire_type_def get_field_type_object_def)
  show "dump_value sc f (PbInt n) = Inr (uvarint_bytes (nat n))"
    using f assms by (simp add: dump_scalar_def get_field_type_object_def number_of_def dump_uvarint_nonneg)
  fix r r' assume "load_uvarint r = (Inr (nat n), r')"
  then show "decode_varint_field sc f r = (Inr (PbInt n), r')"
    using f assms w by (simp add: decode_varint_field_def get_field_type_object_def io_bind_def)
qed simp_all

text \<open>Values with their length.\<close>

lemma read_buffer_all:
  assumes "available r = bs @ rest" and "length bs < 2 ^ 63"
  shows "read_buffer (length bs) r = (Inr bs, advance (length bs) r)"
  using readinto_available [of "length bs" r] assms by (simp add: read_buffer_def)

lemma delimited_payload:
  assumes "available r = (uvarint_bytes (length b) @ b) @ rest"
  shows "load_uvarint r = (Inr (length b), advance (length (uvarint_bytes (length b))) r)"
    and "available (advance (length (uvarint_bytes (length b))) r) = b @ rest"
  using load_uvarint_bytes [of r "length b" "b @ rest"] assms by simp_all

lemma survives_bytes:
  assumes "schema_ok sc" and "length b < 2 ^ 63"
  shows "survives sc ''bytes'' (PbBytes b)"
proof (rule survivesI)
  have t: "map_of (sc_types sc) ''bytes'' = None" using not_a_type [OF assms(1), of "''bytes''"] by (auto simp: WIRE_TYPES_def)
  fix f :: pb_field assume f: "fd_type f = ''bytes''"
  show "dump_value sc f (PbBytes b) = Inr (uvarint_bytes (length b) @ b)"
    using f t by (simp add: dump_scalar_def get_field_type_object_def dump_delimited_def)
  have w: "field_wire_type sc f = Inr WIRE_TYPE_LENGTH" using f by (simp add: field_wire_type_def WIRE_TYPES_def)
  fix r rest and fuel :: nat assume "available r = (uvarint_bytes (length b) @ b) @ rest"
  note payload = delimited_payload [OF this]
  show "decode_value sc fuel f r = (Inr (PbBytes b), advance (length (uvarint_bytes (length b) @ b)) r)"
    using f w payload(1) read_buffer_all [OF payload(2) assms(2)]
    by (simp add: decode_value_def decode_length_delimited_field_def io_bind_def)
qed simp_all

lemma survives_string:
  assumes "schema_ok sc" and "list_all scalar s" and "4 * length s < 2 ^ 63"
  shows "survives sc ''string'' (PbStr s)"
proof -
  obtain b where b: "utf8_encode s = Inr b" "utf8_decode b = Inr s" using utf8_decode_encode [OF assms(2)] by blast
  have short: "length b < 2 ^ 63" using utf8_length [OF b(1)] assms(3) by linarith
  have t: "map_of (sc_types sc) ''string'' = None" using not_a_type [OF assms(1), of "''string''"] by (auto simp: WIRE_TYPES_def)
  show ?thesis
  proof (rule survivesI)
    fix f :: pb_field assume f: "fd_type f = ''string''"
    show "dump_value sc f (PbStr s) = Inr (uvarint_bytes (length b) @ b)"
      using f t b by (simp add: dump_scalar_def get_field_type_object_def dump_delimited_def)
    have w: "field_wire_type sc f = Inr WIRE_TYPE_LENGTH" using f by (simp add: field_wire_type_def WIRE_TYPES_def)
    fix r rest and fuel :: nat assume "available r = (uvarint_bytes (length b) @ b) @ rest"
    note payload = delimited_payload [OF this]
    show "decode_value sc fuel f r = (Inr (PbStr s), advance (length (uvarint_bytes (length b) @ b)) r)"
      using f w b payload(1) read_buffer_all [OF payload(2) short]
      by (simp add: decode_value_def decode_length_delimited_field_def io_bind_def)
  qed simp_all
qed

text \<open>A key in front of a value leads to its field.\<close>

lemma field_key:
  assumes "w = WIRE_TYPE_INT \<or> w = WIRE_TYPE_LENGTH"
  shows "drop_bit 3 (push_bit 3 tag OR w) = (tag :: nat)" and "(push_bit 3 tag OR w) AND 7 = w"
proof -
  have w: "w < 2 ^ 3" using assms by (auto simp: WIRE_TYPE_INT_def WIRE_TYPE_LENGTH_def)
  then have t: "take_bit 3 w = w" "drop_bit 3 w = 0" by (simp_all add: take_bit_eq_mod drop_bit_eq_div)
  show "drop_bit 3 (push_bit 3 tag OR w) = tag" by (simp add: drop_bit_or t(2) drop_bit_push_bit)
  have "(7 :: nat) = mask 3" by (simp add: mask_eq_exp_minus_1)
  then have "(push_bit 3 tag OR w) AND 7 = take_bit 3 (push_bit 3 tag OR w)" by (simp add: take_bit_eq_mask)
  also have "\<dots> = w" by (simp add: take_bit_or t(1) take_bit_push_bit)
  finally show "(push_bit 3 tag OR w) AND 7 = w" .
qed

lemma wire_type_cases: "field_wire_type sc f = Inr w \<Longrightarrow> w = WIRE_TYPE_INT \<or> w = WIRE_TYPE_LENGTH"
  by (auto simp: field_wire_type_def WIRE_TYPES_def split: if_splits option.splits type_object.splits)

lemma decode_field_value:
  assumes "field_wire_type sc f = Inr w" and "decode_value sc k f r = (Inr v, r')"
  shows "decode_field sc (\<lambda>ty r. load_message sc k ty r) f w r = (Inr [v], r')"
  using assms wire_type_cases [OF assms(1)]
  by (auto simp: decode_field_def decode_value_def io_bind_def WIRE_TYPE_INT_def WIRE_TYPE_LENGTH_def)

lemma load_loop_value:
  assumes "map_of flds tag = Some f" and "field_wire_type sc f = Inr w" and "survives sc (fd_type f) v"
    and "dump_value sc f v = Inr bs" and "available r = uvarint_bytes (push_bit 3 tag OR w) @ bs @ rest"
    and "length (available r) < Suc k" and "store_field f [v] d = Inr d'"
  shows "load_loop sc (Suc k) flds d r = load_loop sc k flds d' (advance (length (uvarint_bytes (push_bit 3 tag OR w) @ bs)) r)"
proof -
  let ?key = "uvarint_bytes (push_bit 3 tag OR w)"
  let ?r1 = "advance (length ?key) r"
  from load_uvarint_bytes [OF assms(5)] have key: "load_uvarint r = (Inr (push_bit 3 tag OR w), ?r1)" .
  have r1: "available ?r1 = bs @ rest" "length bs \<le> k" using assms(5, 6) by simp_all
  then have "decode_value sc k f ?r1 = (Inr v, advance (length bs) ?r1)"
    using assms(3, 4) unfolding survives_def by fastforce
  from decode_field_value [OF assms(2) this]
  show ?thesis using key assms(1, 7) field_key [OF wire_type_cases [OF assms(2)], of tag]
    by (simp add: load_loop.simps Let_def io_bind_def)
qed

lemma uvarint_key_pos: "0 < length (uvarint_bytes n)"
  by simp

text \<open>The values of a repeated field are collected in order.\<close>

lemma load_loop_values:
  assumes "map_of flds tag = Some f" and "field_wire_type sc f = Inr w" and "fd_repeated f"
  shows "\<forall>v\<in>set vs. survives sc (fd_type f) v \<Longrightarrow> map_of d (fd_name f) = Some (PbList us) \<Longrightarrow>
    \<exists>bs. dump_values sc f (push_bit 3 tag OR w) vs = Inr bs \<and>
      (\<forall>r rest fuel. available r = bs @ rest \<longrightarrow> length (available r) < fuel \<longrightarrow>
        (\<exists>fuel' d'. length rest < fuel' \<and> load_loop sc fuel flds d r = load_loop sc fuel' flds d' (advance (length bs) r)
          \<and> map_of d' = (map_of d)(fd_name f \<mapsto> PbList (us @ vs))))"
proof (induction vs arbitrary: d us)
  case Nil
  then have "map_of d = (map_of d)(fd_name f \<mapsto> PbList (us @ []))" by (auto simp: fun_eq_iff)
  then show ?case by (auto intro: exI [of _ d])
next
  case (Cons v vs)
  let ?key = "uvarint_bytes (push_bit 3 tag OR w)" and ?d = "AList.update (fd_name f) (PbList (us @ [v])) d"
  obtain b where b: "dump_value sc f v = Inr b" using Cons.prems(1) by (auto simp: survives_def)
  have d: "map_of ?d (fd_name f) = Some (PbList (us @ [v]))" by (simp add: update_conv')
  have store: "store_field f [v] d = Inr ?d" using Cons.prems(2) assms(3) by (simp add: store_field_def)
  from Cons.IH [OF _ d] Cons.prems(1) obtain bs where bs: "dump_values sc f (push_bit 3 tag OR w) vs = Inr bs"
    and run: "\<And>r rest fuel. available r = bs @ rest \<Longrightarrow> length (available r) < fuel \<Longrightarrow>
        \<exists>fuel' d'. length rest < fuel' \<and> load_loop sc fuel flds ?d r = load_loop sc fuel' flds d' (advance (length bs) r)
          \<and> map_of d' = (map_of ?d)(fd_name f \<mapsto> PbList ((us @ [v]) @ vs))" by fastforce
  show ?case
  proof (intro exI [of _ "?key @ b @ bs"] conjI allI impI)
    show "dump_values sc f (push_bit 3 tag OR w) (v # vs) = Inr (?key @ b @ bs)" using b bs by simp
    fix r rest fuel assume r: "available r = (?key @ b @ bs) @ rest" and fuel: "length (available r) < fuel"
    obtain k where k: "fuel = Suc k" using fuel by (cases fuel) auto
    let ?r = "advance (length (?key @ b)) r"
    have step: "load_loop sc fuel flds d r = load_loop sc k flds ?d ?r"
      using load_loop_value [OF assms(1, 2) _ b _ _ store, of r "bs @ rest" k] Cons.prems(1) r fuel k by simp
    have "available ?r = bs @ rest" using r by simp
    moreover have "length (available ?r) < k" 
      using r fuel k uvarint_key_pos [of "push_bit 3 tag OR w"] by (simp del: length_greater_0_conv)
    ultimately obtain fuel' d' where "length rest < fuel'" "load_loop sc k flds ?d ?r = load_loop sc fuel' flds d' (advance (length bs) ?r)"
      "map_of d' = (map_of ?d)(fd_name f \<mapsto> PbList ((us @ [v]) @ vs))" using run by blast
    with step show "\<exists>fuel' d'. length rest < fuel' \<and>
        load_loop sc fuel flds d r = load_loop sc fuel' flds d' (advance (length (?key @ b @ bs)) r)
        \<and> map_of d' = (map_of d)(fd_name f \<mapsto> PbList (us @ v # vs))"
      by (intro exI [of _ fuel'] exI [of _ d']) (auto simp: update_conv' add.assoc)
  qed
qed

lemma class_wire_type:
  assumes "schema_ok sc" and "fields_ok sc flds" and "(tag, f) \<in> set flds"
  obtains w where "field_wire_type sc f = Inr w"
proof -
  have "fd_type f \<in> dom (map_of WIRE_TYPES) \<or> fd_type f \<in> dom (map_of (sc_types sc))"
    using assms(2, 3) by (auto simp: fields_ok_def)
  then have "\<exists>w. field_wire_type sc f = Inr w"
    by (auto simp: field_wire_type_def get_field_type_object_def split: option.split type_object.split)
  with that show thesis by blast
qed

lemma load_loop_field:
  assumes "schema_ok sc" and "fields_ok sc flds" and "(tag, f) \<in> set flds"
    and "field_holds (survives sc) True f v" and "map_of d (fd_name f) = seed f"
  shows "\<exists>bs. (\<forall>fs attrs bs'. attribute attrs (fd_name f) = v \<longrightarrow> dump_fields sc fs attrs = Inr bs' \<longrightarrow>
        dump_fields sc ((tag, f) # fs) attrs = Inr (bs @ bs'))
      \<and> (\<forall>r rest fuel. available r = bs @ rest \<longrightarrow> length (available r) < fuel \<longrightarrow>
        (\<exists>fuel' d'. length rest < fuel' \<and> load_loop sc fuel flds d r = load_loop sc fuel' flds d' (advance (length bs) r)
          \<and> map_of d' = (map_of d)(fd_name f \<mapsto> v)))"
proof -
  have tag: "map_of flds tag = Some f" using assms(2, 3) by (simp add: fields_ok_def)
  obtain w where w: "field_wire_type sc f = Inr w" using class_wire_type [OF assms(1-3)] .
  consider (repeated) vs where "fd_repeated f" "v = PbList vs" "\<forall>v\<in>set vs. survives sc (fd_type f) v"
    | (none) "\<not> fd_repeated f" "\<not> fd_required f" "v = PbNone" "fd_default f = PbNone"
    | (one) "\<not> fd_repeated f" "survives sc (fd_type f) v"
    using assms(4) by (auto simp: field_holds_def split: if_splits)
  then show ?thesis
  proof cases
    case repeated
    then have "map_of d (fd_name f) = Some (PbList [])" using assms(5) by (simp add: seed_def)
    from load_loop_values [OF tag w repeated(1, 3) this] obtain bs where bs: "dump_values sc f (push_bit 3 tag OR w) vs = Inr bs"
      "\<forall>r rest fuel. available r = bs @ rest \<longrightarrow> length (available r) < fuel \<longrightarrow>
        (\<exists>fuel' d'. length rest < fuel' \<and> load_loop sc fuel flds d r = load_loop sc fuel' flds d' (advance (length bs) r)
          \<and> map_of d' = (map_of d)(fd_name f \<mapsto> PbList vs))" by auto
    with repeated w show ?thesis by (intro exI [of _ bs]) (simp add: field_values_def)
  next
    case none
    then have "map_of d = (map_of d)(fd_name f \<mapsto> v)" using assms(5) by (auto simp: seed_def fun_eq_iff)
    with none show ?thesis by (intro exI [of _ "[]"]) (auto intro!: exI [of _ d])
  next
    case one
    then obtain b where b: "dump_value sc f v = Inr b" and v: "v \<noteq> PbNone" "v \<noteq> PbPlaceholder" by (auto simp: survives_def)
    let ?key = "uvarint_bytes (push_bit 3 tag OR w)" and ?d = "AList.update (fd_name f) v d"
    have store: "store_field f [v] d = Inr ?d" using one by (simp add: store_field_def)
    show ?thesis
    proof (intro exI [of _ "?key @ b"] conjI allI impI)
      show "dump_fields sc ((tag, f) # fs) attrs = Inr ((?key @ b) @ bs')"
        if "attribute attrs (fd_name f) = v" "dump_fields sc fs attrs = Inr bs'" for fs attrs bs'
        using that v w b one by (simp add: field_values_def)
      fix r rest fuel assume r: "available r = (?key @ b) @ rest" and fuel: "length (available r) < fuel"
      obtain k where k: "fuel = Suc k" using fuel by (cases fuel) auto
      have "load_loop sc fuel flds d r = load_loop sc k flds ?d (advance (length (?key @ b)) r)"
        using load_loop_value [OF tag w one(2) b _ _ store, of r rest k] r fuel k by simp
      moreover have "length rest < k" using r fuel k uvarint_key_pos [of "push_bit 3 tag OR w"] by (simp del: length_greater_0_conv)
      ultimately show "\<exists>fuel' d'. length rest < fuel' \<and>
          load_loop sc fuel flds d r = load_loop sc fuel' flds d' (advance (length (?key @ b)) r) \<and> map_of d' = (map_of d)(fd_name f \<mapsto> v)"
        by (intro exI [of _ k] exI [of _ ?d]) (simp add: update_conv')
    qed
  qed
qed

text \<open>The fields of a class in their order, from a dictionary that holds none of them yet.\<close>

lemma load_loop_fields:
  assumes "schema_ok sc" and "fields_ok sc flds"
  shows "set fs \<subseteq> set flds \<Longrightarrow> distinct (map (fd_name \<circ> snd) fs) \<Longrightarrow>
    \<forall>(tag, f)\<in>set fs. field_holds (survives sc) True f (attribute attrs (fd_name f)) \<and> map_of d (fd_name f) = seed f \<Longrightarrow>
    \<exists>bs. dump_fields sc fs attrs = Inr bs \<and>
      (\<forall>r rest fuel. available r = bs @ rest \<longrightarrow> length (available r) < fuel \<longrightarrow>
        (\<exists>fuel' d'. length rest < fuel' \<and> load_loop sc fuel flds d r = load_loop sc fuel' flds d' (advance (length bs) r)
          \<and> (\<forall>(tag, f)\<in>set fs. map_of d' (fd_name f) = Some (attribute attrs (fd_name f)))
          \<and> (\<forall>n. n \<notin> (fd_name \<circ> snd) ` set fs \<longrightarrow> map_of d' n = map_of d n)))"
proof (induction fs arbitrary: d)
  case Nil
  then show ?case by (auto intro: exI [of _ d])
next
  case (Cons x fs)
  obtain tag f where x: "x = (tag, f)" by (cases x)
  let ?v = "attribute attrs (fd_name f)"
  have f: "(tag, f) \<in> set flds" "field_holds (survives sc) True f ?v" "map_of d (fd_name f) = seed f"
    using Cons.prems x by auto
  from load_loop_field [OF assms f] obtain bs where dump: "\<And>fs bs'. dump_fields sc fs attrs = Inr bs' \<Longrightarrow>
        dump_fields sc ((tag, f) # fs) attrs = Inr (bs @ bs')"
    and run: "\<And>r rest fuel. available r = bs @ rest \<Longrightarrow> length (available r) < fuel \<Longrightarrow>
        \<exists>fuel' d'. length rest < fuel' \<and> load_loop sc fuel flds d r = load_loop sc fuel' flds d' (advance (length bs) r)
          \<and> map_of d' = (map_of d)(fd_name f \<mapsto> ?v)" by blast
  have "fd_name f \<notin> (fd_name \<circ> snd) ` set fs" using Cons.prems(2) x by simp
  then have other: "fd_name g \<noteq> fd_name f" if "(t, g) \<in> set fs" for t g
    using that by (metis comp_apply image_eqI snd_conv)
  have tail: "set fs \<subseteq> set flds" "distinct (map (fd_name \<circ> snd) fs)" using Cons.prems(1, 2) by (simp_all add: comp_def)
  have "\<forall>(tag, f)\<in>set fs. field_holds (survives sc) True f (attribute attrs (fd_name f)) \<and> map_of d (fd_name f) = seed f"
    using Cons.prems(3) by auto
  from Cons.IH [OF tail this] obtain bs' where bs': "dump_fields sc fs attrs = Inr bs'" by blast
  show ?case
  proof (intro exI [of _ "bs @ bs'"] conjI allI impI)
    show "dump_fields sc (x # fs) attrs = Inr (bs @ bs')" unfolding x by (rule dump [OF bs'])
    fix r rest fuel assume r: "available r = (bs @ bs') @ rest" and fuel: "length (available r) < fuel"
    from run [of r "bs' @ rest" fuel] r fuel obtain k d1 where k: "length (bs' @ rest) < k"
      and first: "load_loop sc fuel flds d r = load_loop sc k flds d1 (advance (length bs) r)"
      and d1: "map_of d1 = (map_of d)(fd_name f \<mapsto> ?v)" by auto
    have "\<forall>(tag, f)\<in>set fs. field_holds (survives sc) True f (attribute attrs (fd_name f)) \<and> map_of d1 (fd_name f) = seed f"
      using Cons.prems(3) other by (fastforce simp: d1)
    from Cons.IH [OF tail this] bs' have rest_runs: "\<forall>r rest fuel. available r = bs' @ rest \<longrightarrow> length (available r) < fuel \<longrightarrow>
        (\<exists>fuel' d'. length rest < fuel' \<and> load_loop sc fuel flds d1 r = load_loop sc fuel' flds d' (advance (length bs') r)
          \<and> (\<forall>(tag, f)\<in>set fs. map_of d' (fd_name f) = Some (attribute attrs (fd_name f)))
          \<and> (\<forall>n. n \<notin> (fd_name \<circ> snd) ` set fs \<longrightarrow> map_of d' n = map_of d1 n))" by auto
    have "available (advance (length bs) r) = bs' @ rest" "length (available (advance (length bs) r)) < k" using r k by simp_all
    with rest_runs obtain fuel' d' where "length rest < fuel'"
      "load_loop sc k flds d1 (advance (length bs) r) = load_loop sc fuel' flds d' (advance (length bs') (advance (length bs) r))"
      "\<forall>(tag, f)\<in>set fs. map_of d' (fd_name f) = Some (attribute attrs (fd_name f))"
      "\<forall>n. n \<notin> (fd_name \<circ> snd) ` set fs \<longrightarrow> map_of d' n = map_of d1 n" by blast
    moreover have "fd_name f \<notin> (fd_name \<circ> snd) ` set fs" using Cons.prems(2) x by auto
    ultimately show "\<exists>fuel' d'. length rest < fuel' \<and>
        load_loop sc fuel flds d r = load_loop sc fuel' flds d' (advance (length (bs @ bs')) r) \<and>
        (\<forall>(tag, f)\<in>set (x # fs). map_of d' (fd_name f) = Some (attribute attrs (fd_name f))) \<and>
        (\<forall>n. n \<notin> (fd_name \<circ> snd) ` set (x # fs) \<longrightarrow> map_of d' n = map_of d n)"
      using first d1 x by (intro exI [of _ fuel'] exI [of _ d']) auto
  qed
qed

text \<open>Whole messages, and with them every value.\<close>

lemma zip_attribute:
  assumes "map fst attrs = map (fd_name \<circ> snd) flds" and "distinct (map (fd_name \<circ> snd) flds)" and "x \<in> set (zip flds attrs)"
  shows "attribute attrs (fd_name (snd (fst x))) = snd (snd x)"
proof -
  obtain i where i: "i < length flds" "i < length attrs" "x = (flds ! i, attrs ! i)" using assms(3) by (auto simp: set_zip)
  then have "fst (attrs ! i) = fd_name (snd (flds ! i))" using assms(1) by (metis comp_apply nth_map)
  then have "(fd_name (snd (flds ! i)), snd (attrs ! i)) \<in> set attrs" using i(2) nth_mem [of i attrs] by (metis prod.collapse)
  moreover have "distinct (map fst attrs)" using assms(1, 2) by simp
  ultimately show ?thesis using i(3) by (simp add: attribute_def)
qed

lemma check_required_ok:
  assumes "\<forall>(tag, f)\<in>set flds. map_of d (fd_name f) \<noteq> None"
  shows "check_required flds d = Inr ()"
proof -
  have "find (\<lambda>(tag, f). fd_required f \<and> map_of d (fd_name f) = None) flds = None"
    using assms by (auto simp: find_None_iff)
  then show ?thesis by (simp add: check_required_def)
qed

lemma init_attributes_back:
  assumes "map fst attrs = map (fd_name \<circ> snd) flds" and "distinct (map (fd_name \<circ> snd) flds)"
    and "\<forall>(tag, f)\<in>set flds. map_of d (fd_name f) = Some (attribute attrs (fd_name f))"
  shows "init_attributes flds [] d = Inr attrs"
proof -
  have len: "length attrs = length flds" using assms(1) by (metis length_map)
  have "map (\<lambda>(tag, f). (fd_name f, attribute attrs (fd_name f))) flds = attrs"
  proof (rule nth_equalityI)
    fix i assume "i < length (map (\<lambda>(tag, f). (fd_name f, attribute attrs (fd_name f))) flds)"
    then have i: "i < length flds" by simp
    then have "(flds ! i, attrs ! i) \<in> set (zip flds attrs)" using len by (auto simp: set_zip)
    from zip_attribute [OF assms(1, 2) this] have "attribute attrs (fd_name (snd (flds ! i))) = snd (attrs ! i)" by simp
    moreover have "fst (attrs ! i) = fd_name (snd (flds ! i))" using assms(1) i len by (metis comp_apply nth_map)
    ultimately show "map (\<lambda>(tag, f). (fd_name f, attribute attrs (fd_name f))) flds ! i = attrs ! i"
      using i by (simp add: case_prod_beta prod_eq_iff)
  qed (simp add: len)
  moreover have "map (\<lambda>(tag, f). (fd_name f, the (map_of d (fd_name f)))) flds
      = map (\<lambda>(tag, f). (fd_name f, attribute attrs (fd_name f))) flds" using assms(3) by (intro map_cong) auto
  ultimately show ?thesis using init_attributes_named [of flds d] assms(3) by fastforce
qed

lemma message_round_trip:
  assumes "schema_ok sc" and "map_of (sc_types sc) ty = Some (MessageObj flds)" and "map fst attrs = map (fd_name \<circ> snd) flds"
    and "\<forall>x\<in>set (zip flds attrs). field_holds (survives sc) True (snd (fst x)) (snd (snd x))"
  shows "\<exists>bs. dump_message sc (PbMsg ty attrs) = Inr bs \<and>
    (\<forall>r fuel. available r = bs \<longrightarrow> length bs < fuel \<longrightarrow> load_message sc fuel ty r = (Inr (PbMsg ty attrs), advance (length bs) r))"
proof -
  have cls: "fields_ok sc flds" using schema_classes [OF assms(1, 2)] .
  then have dist: "distinct (map (fd_name \<circ> snd) flds)" by (simp add: fields_ok_def)
  have len: "length attrs = length flds" using assms(3) by (metis length_map)
  have hold: "\<forall>(tag, f)\<in>set flds. field_holds (survives sc) True f (attribute attrs (fd_name f)) \<and> map_of (preseed flds) (fd_name f) = seed f"
  proof (safe)
    fix tag f assume f: "(tag, f) \<in> set flds"
    then obtain i where i: "i < length flds" "flds ! i = (tag, f)" by (auto simp: in_set_conv_nth)
    then have x: "((tag, f), attrs ! i) \<in> set (zip flds attrs)" using len by (auto simp: set_zip intro!: exI [of _ i])
    from bspec [OF assms(4) x] zip_attribute [OF assms(3) dist x]
    show "field_holds (survives sc) True f (attribute attrs (fd_name f))" by simp
    show "map_of (preseed flds) (fd_name f) = seed f" by (rule map_of_preseed [OF cls f])
  qed
  from load_loop_fields [OF assms(1) cls order_refl dist hold] obtain bs where bs: "dump_fields sc flds attrs = Inr bs"
    and run: "\<And>r rest fuel. available r = bs @ rest \<Longrightarrow> length (available r) < fuel \<Longrightarrow>
        \<exists>fuel' d'. length rest < fuel' \<and> load_loop sc fuel flds (preseed flds) r = load_loop sc fuel' flds d' (advance (length bs) r)
          \<and> (\<forall>(tag, f)\<in>set flds. map_of d' (fd_name f) = Some (attribute attrs (fd_name f)))" by blast
  show ?thesis
  proof (intro exI [of _ bs] conjI allI impI)
    show "dump_message sc (PbMsg ty attrs) = Inr bs" using assms(2) bs by simp
    fix r fuel assume r: "available r = bs" and fuel: "length bs < fuel"
    then obtain fuel' d' where d': "0 < fuel'" "load_loop sc fuel flds (preseed flds) r = load_loop sc fuel' flds d' (advance (length bs) r)"
      "\<forall>(tag, f)\<in>set flds. map_of d' (fd_name f) = Some (attribute attrs (fd_name f))" using run [of r "[]" fuel] by auto
    have "load_loop sc fuel' flds d' (advance (length bs) r) = (Inr d', advance (length bs) r)"
      using d'(1) r load_uvarint_end [of "advance (length bs) r"] by (cases fuel') (simp_all add: load_loop.simps)
    moreover have "check_required flds d' = Inr ()" using check_required_ok [of flds d'] d'(3) by fastforce
    moreover have "init_attributes flds [] d' = Inr attrs" by (rule init_attributes_back [OF assms(3) dist d'(3)])
    ultimately show "load_message sc fuel ty r = (Inr (PbMsg ty attrs), advance (length bs) r)"
      using assms(2) d'(2) by (simp add: load_message.simps io_bind_def)
  qed
qed

lemma survives_message:
  assumes "schema_ok sc" and "map_of (sc_types sc) ty = Some (MessageObj flds)" and "map fst attrs = map (fd_name \<circ> snd) flds"
    and "\<forall>x\<in>set (zip flds attrs). field_holds (survives sc) True (snd (fst x)) (snd (snd x))"
  shows "survives sc ty (PbMsg ty attrs)"
proof -
  from message_round_trip [OF assms] obtain b where b: "dump_message sc (PbMsg ty attrs) = Inr b"
    and run: "\<And>r fuel. available r = b \<Longrightarrow> length b < fuel \<Longrightarrow> load_message sc fuel ty r = (Inr (PbMsg ty attrs), advance (length b) r)"
    by blast
  have t: "map_of WIRE_TYPES ty = None" using schema_names [OF assms(1, 2)] by (auto simp: domIff)
  then have n: "ty \<noteq> ''bytes''" "ty \<noteq> ''string''" by (auto simp: WIRE_TYPES_def)
  show ?thesis
  proof (rule survivesI)
    fix f :: pb_field assume f: "fd_type f = ty"
    show "dump_value sc f (PbMsg ty attrs) = Inr (uvarint_bytes (length b) @ b)"
      using f b assms(2) by (simp add: get_field_type_object_def dump_delimited_def del: dump_message.simps)
    have w: "field_wire_type sc f = Inr WIRE_TYPE_LENGTH" using f t assms(2) by (simp add: field_wire_type_def get_field_type_object_def)
    fix r rest and fuel :: nat
    assume r: "available r = (uvarint_bytes (length b) @ b) @ rest" and fuel: "length (uvarint_bytes (length b) @ b) \<le> fuel"
    let ?r = "advance (length (uvarint_bytes (length b))) r"
    note payload = delimited_payload [OF r]
    have "length b < fuel" using fuel uvarint_key_pos [of "length b"] by (simp del: length_greater_0_conv)
    moreover have "available (LimitedReader ?r (length b)) = b" using payload(2) by simp
    ultimately have "load_message sc fuel ty (LimitedReader ?r (length b)) = (Inr (PbMsg ty attrs), advance (length b) (LimitedReader ?r (length b)))"
      using run by blast
    then have "limited (length b) (load_message sc fuel ty) ?r = (Inr (PbMsg ty attrs), advance (length b) ?r)"
      by (simp add: limited_def)
    then show "decode_value sc fuel f r = (Inr (PbMsg ty attrs), advance (length (uvarint_bytes (length b) @ b)) r)"
      using f w n assms(2) payload(1)
      by (simp add: decode_value_def decode_length_delimited_field_def io_bind_def get_field_type_object_def)
  qed simp_all
qed

lemma typed_survives: "typed sc strict ty v \<Longrightarrow> strict \<Longrightarrow> schema_ok sc \<Longrightarrow> survives sc ty v"
proof (induction rule: typed.induct)
  case (message ty flds attrs)
  have "\<forall>x\<in>set (zip flds attrs). field_holds (survives sc) True (snd (fst x)) (snd (snd x))"
    using message.IH message.prems by (fastforce simp: field_holds_def)
  with message show ?case by (intro survives_message) auto
qed (auto intro: survives_int survives_bool survives_bytes survives_string survives_enum)

text \<open>A field that is cut off by the end of the stream is filled up with zeros instead of being refused.\<close>

lemma short_field_padded:
  assumes "length b < n" and "n < 2 ^ 63"
  shows "read_buffer n (BytesIO b) = (Inr (b @ replicate (n - length b) 0), BytesIO [])"
  using assms by (simp add: read_buffer_def)

section \<open>Properties of the codec\<close>

text \<open>
  C31: decoding is safe on every input. It always ends, and what it returns is a message of the class: every attribute
  has the type of its field, lists where a field is repeated, and required fields are there. Numbers may be out of
  range and members of enumerations unknown, which is only logged.
\<close>

theorem trezor_decode_typed:
  assumes "schema_ok sc"
  shows "decode_message sc cls bs \<noteq> Inl OutOfFuel \<and> (\<forall>msg. decode_message sc cls bs = Inr msg \<longrightarrow> typed sc False cls msg)"
proof -
  obtain x r where x: "load_message sc (length bs + 1) cls (BytesIO bs) = (x, r)" by fastforce
  then have "decode_message sc cls bs = x" by (simp add: decode_message_def)
  moreover have "x \<noteq> Inl OutOfFuel" using readsD [OF reads_message _ x] by simp
  ultimately show ?thesis using load_typed(1) [of sc "length bs + 1" cls "BytesIO bs"] x assms by auto
qed

lemma typed_round_trip:
  assumes "schema_ok sc" and "typed sc True cls msg" and "map_of (sc_types sc) cls = Some (MessageObj flds)"
  shows "\<exists>bs attrs. msg = PbMsg cls attrs \<and> dump_message sc msg = Inr bs \<and> decode_message sc cls bs = Inr msg"
  using assms(2)
proof (cases rule: typed.cases)
  case (message flds' attrs)
  have "\<forall>x\<in>set (zip flds' attrs). field_holds (survives sc) True (snd (fst x)) (snd (snd x))"
    using message(4) typed_survives [OF _ _ assms(1)] by (fastforce simp: field_holds_def)
  from message_round_trip [OF assms(1) message(2, 3) this] obtain bs where "dump_message sc msg = Inr bs"
    "load_message sc (length bs + 1) cls (BytesIO bs) = (Inr msg, advance (length bs) (BytesIO bs))"
    using message(1) by auto
  with message(1) show ?thesis by (auto simp: decode_message_def)
qed (use assms(3) not_a_type [OF assms(1), of cls] in \<open>auto simp: WIRE_TYPES_def\<close>)

end
