(* ===== verification/Trezor_Messages.thy ===== *)
theory Trezor_Messages
  imports Trezor_Protobuf_Spec
begin

text \<open>
  \<open>hwilib/devices/trezorlib/messages.py\<close>: the enumerations and the classes of messages with their wire type and
  their fields, and the mapping between wire types and classes of \<open>mapping.py\<close>.
\<close>

section \<open>Enumerations\<close>

definition MessageType_members :: "(string \<times> int) list" where
  "MessageType_members =
    [(''Initialize'', 0), (''Ping'', 1), (''Success'', 2), (''Failure'', 3), (''ChangePin'', 4), (''WipeDevice'', 5),
     (''GetEntropy'', 9), (''Entropy'', 10), (''LoadDevice'', 13), (''ResetDevice'', 14), (''Features'', 17),
     (''PinMatrixRequest'', 18), (''PinMatrixAck'', 19), (''Cancel'', 20), (''LockDevice'', 24),
     (''ApplySettings'', 25), (''ButtonRequest'', 26), (''ButtonAck'', 27), (''ApplyFlags'', 28),
     (''BackupDevice'', 34), (''EntropyRequest'', 35), (''EntropyAck'', 36), (''PassphraseRequest'', 41),
     (''PassphraseAck'', 42), (''RecoveryDevice'', 45), (''WordRequest'', 46), (''WordAck'', 47),
     (''GetFeatures'', 55), (''SdProtect'', 79), (''ChangeWipeCode'', 82), (''EndSession'', 83),
     (''DoPreauthorized'', 84), (''PreauthorizedRequest'', 85), (''CancelAuthorization'', 86),
     (''RebootToBootloader'', 87), (''Deprecated_PassphraseStateRequest'', 77),
     (''Deprecated_PassphraseStateAck'', 78), (''FirmwareErase'', 6), (''FirmwareUpload'', 7),
     (''FirmwareRequest'', 8), (''SelfTest'', 32), (''GetPublicKey'', 11), (''PublicKey'', 12), (''SignTx'', 15),
     (''TxRequest'', 21), (''TxAck'', 22), (''GetAddress'', 29), (''Address'', 30), (''SignMessage'', 38),
     (''VerifyMessage'', 39), (''MessageSignature'', 40), (''GetOwnershipId'', 43), (''OwnershipId'', 44),
     (''GetOwnershipProof'', 49), (''OwnershipProof'', 50), (''AuthorizeCoinJoin'', 51),
     (''DebugLinkDecision'', 100), (''DebugLinkGetState'', 101), (''DebugLinkState'', 102), (''DebugLinkStop'', 103),
     (''DebugLinkLog'', 104), (''DebugLinkMemoryRead'', 110), (''DebugLinkMemory'', 111),
     (''DebugLinkMemoryWrite'', 112), (''DebugLinkFlashErase'', 113), (''DebugLinkLayout'', 9001),
     (''DebugLinkReseedRandom'', 9002), (''DebugLinkRecordScreen'', 9003), (''DebugLinkEraseSdCard'', 9005),
     (''DebugLinkWatchLayout'', 9006)]"

definition FailureType_members :: "(string \<times> int) list" where
  "FailureType_members =
    [(''UnexpectedMessage'', 1), (''ButtonExpected'', 2), (''DataError'', 3), (''ActionCancelled'', 4),
     (''PinExpected'', 5), (''PinCancelled'', 6), (''PinInvalid'', 7), (''InvalidSignature'', 8),
     (''ProcessError'', 9), (''NotEnoughFunds'', 10), (''NotInitialized'', 11), (''PinMismatch'', 12),
     (''WipeCodeMismatch'', 13), (''InvalidSession'', 14), (''FirmwareError'', 99)]"

definition ButtonRequestType_members :: "(string \<times> int) list" where
  "ButtonRequestType_members =
    [(''Other'', 1), (''FeeOverThreshold'', 2), (''ConfirmOutput'', 3), (''ResetDevice'', 4), (''ConfirmWord'', 5),
     (''WipeDevice'', 6), (''ProtectCall'', 7), (''SignTx'', 8), (''FirmwareCheck'', 9), (''Address'', 10),
     (''PublicKey'', 11), (''MnemonicWordCount'', 12), (''MnemonicInput'', 13),
     (''_Deprecated_ButtonRequest_PassphraseType'', 14), (''UnknownDerivationPath'', 15), (''RecoveryHomepage'', 16),
     (''Success'', 17), (''Warning'', 18), (''PassphraseEntry'', 19), (''PinEntry'', 20)]"

definition PinMatrixRequestType_members :: "(string \<times> int) list" where
  "PinMatrixRequestType_members =
    [(''Current'', 1), (''NewFirst'', 2), (''NewSecond'', 3), (''WipeCodeFirst'', 4), (''WipeCodeSecond'', 5)]"

definition InputScriptType_members :: "(string \<times> int) list" where
  "InputScriptType_members =
    [(''SPENDADDRESS'', 0), (''SPENDMULTISIG'', 1), (''EXTERNAL'', 2), (''SPENDWITNESS'', 3),
     (''SPENDP2SHWITNESS'', 4), (''SPENDTAPROOT'', 5)]"

definition OutputScriptType_members :: "(string \<times> int) list" where
  "OutputScriptType_members =
    [(''PAYTOADDRESS'', 0), (''PAYTOSCRIPTHASH'', 1), (''PAYTOMULTISIG'', 2), (''PAYTOOPRETURN'', 3),
     (''PAYTOWITNESS'', 4), (''PAYTOP2SHWITNESS'', 5), (''PAYTOTAPROOT'', 6)]"

definition DecredStakingSpendType_members :: "(string \<times> int) list" where
  "DecredStakingSpendType_members =
    [(''SSGen'', 0), (''SSRTX'', 1)]"

definition AmountUnit_members :: "(string \<times> int) list" where
  "AmountUnit_members =
    [(''BITCOIN'', 0), (''MILLIBITCOIN'', 1), (''MICROBITCOIN'', 2), (''SATOSHI'', 3)]"

definition RequestType_members :: "(string \<times> int) list" where
  "RequestType_members =
    [(''TXINPUT'', 0), (''TXOUTPUT'', 1), (''TXMETA'', 2), (''TXFINISHED'', 3), (''TXEXTRADATA'', 4),
     (''TXORIGINPUT'', 5), (''TXORIGOUTPUT'', 6)]"

definition BackupType_members :: "(string \<times> int) list" where
  "BackupType_members =
    [(''Bip39'', 0), (''Slip39_Basic'', 1), (''Slip39_Advanced'', 2)]"

definition SafetyCheckLevel_members :: "(string \<times> int) list" where
  "SafetyCheckLevel_members =
    [(''Strict'', 0), (''PromptAlways'', 1), (''PromptTemporarily'', 2)]"

definition Capability_members :: "(string \<times> int) list" where
  "Capability_members =
    [(''Bitcoin'', 1), (''Bitcoin_like'', 2), (''Binance'', 3), (''Cardano'', 4), (''Crypto'', 5), (''EOS'', 6),
     (''Ethereum'', 7), (''Lisk'', 8), (''Monero'', 9), (''NEM'', 10), (''Ripple'', 11), (''Stellar'', 12),
     (''Tezos'', 13), (''U2F'', 14), (''Shamir'', 15), (''ShamirGroups'', 16), (''PassphraseEntry'', 17)]"

definition SdProtectOperationType_members :: "(string \<times> int) list" where
  "SdProtectOperationType_members =
    [(''DISABLE'', 0), (''ENABLE'', 1), (''REFRESH'', 2)]"

definition RecoveryDeviceType_members :: "(string \<times> int) list" where
  "RecoveryDeviceType_members =
    [(''ScrambledWords'', 0), (''Matrix'', 1)]"

definition WordRequestType_members :: "(string \<times> int) list" where
  "WordRequestType_members =
    [(''Plain'', 0), (''Matrix9'', 1), (''Matrix6'', 2)]"

definition DebugSwipeDirection_members :: "(string \<times> int) list" where
  "DebugSwipeDirection_members =
    [(''UP'', 0), (''DOWN'', 1), (''LEFT'', 2), (''RIGHT'', 3)]"

section \<open>Classes\<close>

text \<open>No field has a default.\<close>

definition field :: "string \<Rightarrow> string \<Rightarrow> bool \<Rightarrow> bool \<Rightarrow> pb_field" where
  "field name ty repeated required =
     \<lparr>fd_name = name, fd_type = ty, fd_repeated = repeated, fd_required = required, fd_default = PbNone\<rparr>"

text \<open>The wire type, if the class has one, and the fields.\<close>

type_synonym message_class = "nat option \<times> (nat \<times> pb_field) list"

definition Success_class :: message_class where
  "Success_class = (Some 2,
    [(1, field ''message'' ''string'' False False)])"

definition Failure_class :: message_class where
  "Failure_class = (Some 3,
    [(1, field ''code'' ''FailureType'' False False),
     (2, field ''message'' ''string'' False False)])"

definition ButtonRequest_class :: message_class where
  "ButtonRequest_class = (Some 26,
    [(1, field ''code'' ''ButtonRequestType'' False False),
     (2, field ''pages'' ''uint32'' False False)])"

definition ButtonAck_class :: message_class where
  "ButtonAck_class = (Some 27, [])"

definition PinMatrixRequest_class :: message_class where
  "PinMatrixRequest_class = (Some 18,
    [(1, field ''type'' ''PinMatrixRequestType'' False False)])"

definition PinMatrixAck_class :: message_class where
  "PinMatrixAck_class = (Some 19,
    [(1, field ''pin'' ''string'' False True)])"

definition PassphraseRequest_class :: message_class where
  "PassphraseRequest_class = (Some 41,
    [(1, field ''_on_device'' ''bool'' False False)])"

definition PassphraseAck_class :: message_class where
  "PassphraseAck_class = (Some 42,
    [(1, field ''passphrase'' ''string'' False False),
     (2, field ''_state'' ''bytes'' False False),
     (3, field ''on_device'' ''bool'' False False)])"

definition Deprecated_PassphraseStateRequest_class :: message_class where
  "Deprecated_PassphraseStateRequest_class = (Some 77,
    [(1, field ''state'' ''bytes'' False False)])"

definition Deprecated_PassphraseStateAck_class :: message_class where
  "Deprecated_PassphraseStateAck_class = (Some 78, [])"

definition HDNodeType_class :: message_class where
  "HDNodeType_class = (None,
    [(1, field ''depth'' ''uint32'' False True),
     (2, field ''fingerprint'' ''uint32'' False True),
     (3, field ''child_num'' ''uint32'' False True),
     (4, field ''chain_code'' ''bytes'' False True),
     (5, field ''private_key'' ''bytes'' False False),
     (6, field ''public_key'' ''bytes'' False True)])"

definition MultisigRedeemScriptType_class :: message_class where
  "MultisigRedeemScriptType_class = (None,
    [(1, field ''pubkeys'' ''HDNodePathType'' True False),
     (2, field ''signatures'' ''bytes'' True False),
     (3, field ''m'' ''uint32'' False True),
     (4, field ''nodes'' ''HDNodeType'' True False),
     (5, field ''address_n'' ''uint32'' True False)])"

definition GetPublicKey_class :: message_class where
  "GetPublicKey_class = (Some 11,
    [(1, field ''address_n'' ''uint32'' True False),
     (2, field ''ecdsa_curve_name'' ''string'' False False),
     (3, field ''show_display'' ''bool'' False False),
     (4, field ''coin_name'' ''string'' False False),
     (5, field ''script_type'' ''InputScriptType'' False False),
     (6, field ''ignore_xpub_magic'' ''bool'' False False)])"

definition PublicKey_class :: message_class where
  "PublicKey_class = (Some 12,
    [(1, field ''node'' ''HDNodeType'' False True),
     (2, field ''xpub'' ''string'' False True),
     (3, field ''root_fingerprint'' ''uint32'' False False)])"

definition GetAddress_class :: message_class where
  "GetAddress_class = (Some 29,
    [(1, field ''address_n'' ''uint32'' True False),
     (2, field ''coin_name'' ''string'' False False),
     (3, field ''show_display'' ''bool'' False False),
     (4, field ''multisig'' ''MultisigRedeemScriptType'' False False),
     (5, field ''script_type'' ''InputScriptType'' False False),
     (6, field ''ignore_xpub_magic'' ''bool'' False False)])"

definition Address_class :: message_class where
  "Address_class = (Some 30,
    [(1, field ''address'' ''string'' False True)])"

definition GetOwnershipId_class :: message_class where
  "GetOwnershipId_class = (Some 43,
    [(1, field ''address_n'' ''uint32'' True False),
     (2, field ''coin_name'' ''string'' False False),
     (3, field ''multisig'' ''MultisigRedeemScriptType'' False False),
     (4, field ''script_type'' ''InputScriptType'' False False)])"

definition OwnershipId_class :: message_class where
  "OwnershipId_class = (Some 44,
    [(1, field ''ownership_id'' ''bytes'' False True)])"

definition SignMessage_class :: message_class where
  "SignMessage_class = (Some 38,
    [(1, field ''address_n'' ''uint32'' True False),
     (2, field ''message'' ''bytes'' False True),
     (3, field ''coin_name'' ''string'' False False),
     (4, field ''script_type'' ''InputScriptType'' False False),
     (5, field ''no_script_type'' ''bool'' False False)])"

definition MessageSignature_class :: message_class where
  "MessageSignature_class = (Some 40,
    [(1, field ''address'' ''string'' False True),
     (2, field ''signature'' ''bytes'' False True)])"

definition VerifyMessage_class :: message_class where
  "VerifyMessage_class = (Some 39,
    [(1, field ''address'' ''string'' False True),
     (2, field ''signature'' ''bytes'' False True),
     (3, field ''message'' ''bytes'' False True),
     (4, field ''coin_name'' ''string'' False False)])"

definition SignTx_class :: message_class where
  "SignTx_class = (Some 15,
    [(1, field ''outputs_count'' ''uint32'' False True),
     (2, field ''inputs_count'' ''uint32'' False True),
     (3, field ''coin_name'' ''string'' False False),
     (4, field ''version'' ''uint32'' False False),
     (5, field ''lock_time'' ''uint32'' False False),
     (6, field ''expiry'' ''uint32'' False False),
     (7, field ''overwintered'' ''bool'' False False),
     (8, field ''version_group_id'' ''uint32'' False False),
     (9, field ''timestamp'' ''uint32'' False False),
     (10, field ''branch_id'' ''uint32'' False False),
     (11, field ''amount_unit'' ''AmountUnit'' False False),
     (12, field ''decred_staking_ticket'' ''bool'' False False),
     (13, field ''serialize'' ''bool'' False False)])"

definition TxRequest_class :: message_class where
  "TxRequest_class = (Some 21,
    [(1, field ''request_type'' ''RequestType'' False False),
     (2, field ''details'' ''TxRequestDetailsType'' False False),
     (3, field ''serialized'' ''TxRequestSerializedType'' False False)])"

definition TxAck_class :: message_class where
  "TxAck_class = (Some 22,
    [(1, field ''tx'' ''TransactionType'' False False)])"

definition TxInput_class :: message_class where
  "TxInput_class = (None,
    [(1, field ''address_n'' ''uint32'' True False),
     (2, field ''prev_hash'' ''bytes'' False True),
     (3, field ''prev_index'' ''uint32'' False True),
     (4, field ''script_sig'' ''bytes'' False False),
     (5, field ''sequence'' ''uint32'' False False),
     (6, field ''script_type'' ''InputScriptType'' False False),
     (7, field ''multisig'' ''MultisigRedeemScriptType'' False False),
     (8, field ''amount'' ''uint64'' False True),
     (9, field ''decred_tree'' ''uint32'' False False),
     (13, field ''witness'' ''bytes'' False False),
     (14, field ''ownership_proof'' ''bytes'' False False),
     (15, field ''commitment_data'' ''bytes'' False False),
     (16, field ''orig_hash'' ''bytes'' False False),
     (17, field ''orig_index'' ''uint32'' False False),
     (18, field ''decred_staking_spend'' ''DecredStakingSpendType'' False False),
     (19, field ''script_pubkey'' ''bytes'' False False)])"

definition TxOutput_class :: message_class where
  "TxOutput_class = (None,
    [(1, field ''address'' ''string'' False False),
     (2, field ''address_n'' ''uint32'' True False),
     (3, field ''amount'' ''uint64'' False True),
     (4, field ''script_type'' ''OutputScriptType'' False False),
     (5, field ''multisig'' ''MultisigRedeemScriptType'' False False),
     (6, field ''op_return_data'' ''bytes'' False False),
     (10, field ''orig_hash'' ''bytes'' False False),
     (11, field ''orig_index'' ''uint32'' False False)])"

definition PrevTx_class :: message_class where
  "PrevTx_class = (None,
    [(1, field ''version'' ''uint32'' False True),
     (4, field ''lock_time'' ''uint32'' False True),
     (6, field ''inputs_count'' ''uint32'' False True),
     (7, field ''outputs_count'' ''uint32'' False True),
     (9, field ''extra_data_len'' ''uint32'' False False),
     (10, field ''expiry'' ''uint32'' False False),
     (12, field ''version_group_id'' ''uint32'' False False),
     (13, field ''timestamp'' ''uint32'' False False),
     (14, field ''branch_id'' ''uint32'' False False)])"

definition PrevInput_class :: message_class where
  "PrevInput_class = (None,
    [(2, field ''prev_hash'' ''bytes'' False True),
     (3, field ''prev_index'' ''uint32'' False True),
     (4, field ''script_sig'' ''bytes'' False True),
     (5, field ''sequence'' ''uint32'' False True),
     (9, field ''decred_tree'' ''uint32'' False False)])"

definition PrevOutput_class :: message_class where
  "PrevOutput_class = (None,
    [(1, field ''amount'' ''uint64'' False True),
     (2, field ''script_pubkey'' ''bytes'' False True),
     (3, field ''decred_script_version'' ''uint32'' False False)])"

definition TxAckInput_class :: message_class where
  "TxAckInput_class = (Some 22,
    [(1, field ''tx'' ''TxAckInputWrapper'' False True)])"

definition TxAckOutput_class :: message_class where
  "TxAckOutput_class = (Some 22,
    [(1, field ''tx'' ''TxAckOutputWrapper'' False True)])"

definition TxAckPrevMeta_class :: message_class where
  "TxAckPrevMeta_class = (Some 22,
    [(1, field ''tx'' ''PrevTx'' False True)])"

definition TxAckPrevInput_class :: message_class where
  "TxAckPrevInput_class = (Some 22,
    [(1, field ''tx'' ''TxAckPrevInputWrapper'' False True)])"

definition TxAckPrevOutput_class :: message_class where
  "TxAckPrevOutput_class = (Some 22,
    [(1, field ''tx'' ''TxAckPrevOutputWrapper'' False True)])"

definition TxAckPrevExtraData_class :: message_class where
  "TxAckPrevExtraData_class = (Some 22,
    [(1, field ''tx'' ''TxAckPrevExtraDataWrapper'' False True)])"

definition GetOwnershipProof_class :: message_class where
  "GetOwnershipProof_class = (Some 49,
    [(1, field ''address_n'' ''uint32'' True False),
     (2, field ''coin_name'' ''string'' False False),
     (3, field ''script_type'' ''InputScriptType'' False False),
     (4, field ''multisig'' ''MultisigRedeemScriptType'' False False),
     (5, field ''user_confirmation'' ''bool'' False False),
     (6, field ''ownership_ids'' ''bytes'' True False),
     (7, field ''commitment_data'' ''bytes'' False False)])"

definition OwnershipProof_class :: message_class where
  "OwnershipProof_class = (Some 50,
    [(1, field ''ownership_proof'' ''bytes'' False True),
     (2, field ''signature'' ''bytes'' False True)])"

definition AuthorizeCoinJoin_class :: message_class where
  "AuthorizeCoinJoin_class = (Some 51,
    [(1, field ''coordinator'' ''string'' False True),
     (2, field ''max_total_fee'' ''uint64'' False True),
     (3, field ''fee_per_anonymity'' ''uint32'' False False),
     (4, field ''address_n'' ''uint32'' True False),
     (5, field ''coin_name'' ''string'' False False),
     (6, field ''script_type'' ''InputScriptType'' False False),
     (11, field ''amount_unit'' ''AmountUnit'' False False)])"

definition HDNodePathType_class :: message_class where
  "HDNodePathType_class = (None,
    [(1, field ''node'' ''HDNodeType'' False True),
     (2, field ''address_n'' ''uint32'' True False)])"

definition TxRequestDetailsType_class :: message_class where
  "TxRequestDetailsType_class = (None,
    [(1, field ''request_index'' ''uint32'' False False),
     (2, field ''tx_hash'' ''bytes'' False False),
     (3, field ''extra_data_len'' ''uint32'' False False),
     (4, field ''extra_data_offset'' ''uint32'' False False)])"

definition TxRequestSerializedType_class :: message_class where
  "TxRequestSerializedType_class = (None,
    [(1, field ''signature_index'' ''uint32'' False False),
     (2, field ''signature'' ''bytes'' False False),
     (3, field ''serialized_tx'' ''bytes'' False False)])"

definition TransactionType_class :: message_class where
  "TransactionType_class = (None,
    [(1, field ''version'' ''uint32'' False False),
     (2, field ''inputs'' ''TxInputType'' True False),
     (3, field ''bin_outputs'' ''TxOutputBinType'' True False),
     (4, field ''lock_time'' ''uint32'' False False),
     (5, field ''outputs'' ''TxOutputType'' True False),
     (6, field ''inputs_cnt'' ''uint32'' False False),
     (7, field ''outputs_cnt'' ''uint32'' False False),
     (8, field ''extra_data'' ''bytes'' False False),
     (9, field ''extra_data_len'' ''uint32'' False False),
     (10, field ''expiry'' ''uint32'' False False),
     (11, field ''overwintered'' ''bool'' False False),
     (12, field ''version_group_id'' ''uint32'' False False),
     (13, field ''timestamp'' ''uint32'' False False),
     (14, field ''branch_id'' ''uint32'' False False)])"

definition TxInputType_class :: message_class where
  "TxInputType_class = (None,
    [(1, field ''address_n'' ''uint32'' True False),
     (2, field ''prev_hash'' ''bytes'' False True),
     (3, field ''prev_index'' ''uint32'' False True),
     (4, field ''script_sig'' ''bytes'' False False),
     (5, field ''sequence'' ''uint32'' False False),
     (6, field ''script_type'' ''InputScriptType'' False False),
     (7, field ''multisig'' ''MultisigRedeemScriptType'' False False),
     (8, field ''amount'' ''uint64'' False False),
     (9, field ''decred_tree'' ''uint32'' False False),
     (13, field ''witness'' ''bytes'' False False),
     (14, field ''ownership_proof'' ''bytes'' False False),
     (15, field ''commitment_data'' ''bytes'' False False),
     (16, field ''orig_hash'' ''bytes'' False False),
     (17, field ''orig_index'' ''uint32'' False False),
     (18, field ''decred_staking_spend'' ''DecredStakingSpendType'' False False),
     (19, field ''script_pubkey'' ''bytes'' False False)])"

definition TxOutputBinType_class :: message_class where
  "TxOutputBinType_class = (None,
    [(1, field ''amount'' ''uint64'' False True),
     (2, field ''script_pubkey'' ''bytes'' False True),
     (3, field ''decred_script_version'' ''uint32'' False False)])"

definition TxOutputType_class :: message_class where
  "TxOutputType_class = (None,
    [(1, field ''address'' ''string'' False False),
     (2, field ''address_n'' ''uint32'' True False),
     (3, field ''amount'' ''uint64'' False True),
     (4, field ''script_type'' ''OutputScriptType'' False False),
     (5, field ''multisig'' ''MultisigRedeemScriptType'' False False),
     (6, field ''op_return_data'' ''bytes'' False False),
     (10, field ''orig_hash'' ''bytes'' False False),
     (11, field ''orig_index'' ''uint32'' False False)])"

definition TxAckInputWrapper_class :: message_class where
  "TxAckInputWrapper_class = (None,
    [(2, field ''input'' ''TxInput'' False True)])"

definition TxAckOutputWrapper_class :: message_class where
  "TxAckOutputWrapper_class = (None,
    [(5, field ''output'' ''TxOutput'' False True)])"

definition TxAckPrevInputWrapper_class :: message_class where
  "TxAckPrevInputWrapper_class = (None,
    [(2, field ''input'' ''PrevInput'' False True)])"

definition TxAckPrevOutputWrapper_class :: message_class where
  "TxAckPrevOutputWrapper_class = (None,
    [(3, field ''output'' ''PrevOutput'' False True)])"

definition TxAckPrevExtraDataWrapper_class :: message_class where
  "TxAckPrevExtraDataWrapper_class = (None,
    [(8, field ''extra_data_chunk'' ''bytes'' False True)])"

definition FirmwareErase_class :: message_class where
  "FirmwareErase_class = (Some 6,
    [(1, field ''length'' ''uint32'' False False)])"

definition FirmwareRequest_class :: message_class where
  "FirmwareRequest_class = (Some 8,
    [(1, field ''offset'' ''uint32'' False False),
     (2, field ''length'' ''uint32'' False False)])"

definition FirmwareUpload_class :: message_class where
  "FirmwareUpload_class = (Some 7,
    [(1, field ''payload'' ''bytes'' False True),
     (2, field ''hash'' ''bytes'' False False)])"

definition SelfTest_class :: message_class where
  "SelfTest_class = (Some 32,
    [(1, field ''payload'' ''bytes'' False False)])"

definition IdentityType_class :: message_class where
  "IdentityType_class = (None,
    [(1, field ''proto'' ''string'' False False),
     (2, field ''user'' ''string'' False False),
     (3, field ''host'' ''string'' False False),
     (4, field ''port'' ''string'' False False),
     (5, field ''path'' ''string'' False False),
     (6, field ''index'' ''uint32'' False False)])"

definition Initialize_class :: message_class where
  "Initialize_class = (Some 0,
    [(1, field ''session_id'' ''bytes'' False False),
     (3, field ''derive_cardano'' ''bool'' False False)])"

definition GetFeatures_class :: message_class where
  "GetFeatures_class = (Some 55, [])"

definition Features_class :: message_class where
  "Features_class = (Some 17,
    [(1, field ''vendor'' ''string'' False False),
     (2, field ''major_version'' ''uint32'' False True),
     (3, field ''minor_version'' ''uint32'' False True),
     (4, field ''patch_version'' ''uint32'' False True),
     (5, field ''bootloader_mode'' ''bool'' False False),
     (6, field ''device_id'' ''string'' False False),
     (7, field ''pin_protection'' ''bool'' False False),
     (8, field ''passphrase_protection'' ''bool'' False False),
     (9, field ''language'' ''string'' False False),
     (10, field ''label'' ''string'' False False),
     (12, field ''initialized'' ''bool'' False False),
     (13, field ''revision'' ''bytes'' False False),
     (14, field ''bootloader_hash'' ''bytes'' False False),
     (15, field ''imported'' ''bool'' False False),
     (16, field ''unlocked'' ''bool'' False False),
     (18, field ''firmware_present'' ''bool'' False False),
     (19, field ''needs_backup'' ''bool'' False False),
     (20, field ''flags'' ''uint32'' False False),
     (21, field ''model'' ''string'' False False),
     (22, field ''fw_major'' ''uint32'' False False),
     (23, field ''fw_minor'' ''uint32'' False False),
     (24, field ''fw_patch'' ''uint32'' False False),
     (25, field ''fw_vendor'' ''string'' False False),
     (26, field ''fw_vendor_keys'' ''bytes'' False False),
     (27, field ''unfinished_backup'' ''bool'' False False),
     (28, field ''no_backup'' ''bool'' False False),
     (29, field ''recovery_mode'' ''bool'' False False),
     (30, field ''capabilities'' ''Capability'' True False),
     (31, field ''backup_type'' ''BackupType'' False False),
     (32, field ''sd_card_present'' ''bool'' False False),
     (33, field ''sd_protection'' ''bool'' False False),
     (34, field ''wipe_code_protection'' ''bool'' False False),
     (35, field ''session_id'' ''bytes'' False False),
     (36, field ''passphrase_always_on_device'' ''bool'' False False),
     (37, field ''safety_checks'' ''SafetyCheckLevel'' False False),
     (38, field ''auto_lock_delay_ms'' ''uint32'' False False),
     (39, field ''display_rotation'' ''uint32'' False False),
     (40, field ''experimental_features'' ''bool'' False False)])"

definition LockDevice_class :: message_class where
  "LockDevice_class = (Some 24, [])"

definition EndSession_class :: message_class where
  "EndSession_class = (Some 83, [])"

definition ApplySettings_class :: message_class where
  "ApplySettings_class = (Some 25,
    [(1, field ''language'' ''string'' False False),
     (2, field ''label'' ''string'' False False),
     (3, field ''use_passphrase'' ''bool'' False False),
     (4, field ''homescreen'' ''bytes'' False False),
     (6, field ''auto_lock_delay_ms'' ''uint32'' False False),
     (7, field ''display_rotation'' ''uint32'' False False),
     (8, field ''passphrase_always_on_device'' ''bool'' False False),
     (9, field ''safety_checks'' ''SafetyCheckLevel'' False False),
     (10, field ''experimental_features'' ''bool'' False False)])"

definition ApplyFlags_class :: message_class where
  "ApplyFlags_class = (Some 28,
    [(1, field ''flags'' ''uint32'' False True)])"

definition ChangePin_class :: message_class where
  "ChangePin_class = (Some 4,
    [(1, field ''remove'' ''bool'' False False)])"

definition ChangeWipeCode_class :: message_class where
  "ChangeWipeCode_class = (Some 82,
    [(1, field ''remove'' ''bool'' False False)])"

definition SdProtect_class :: message_class where
  "SdProtect_class = (Some 79,
    [(1, field ''operation'' ''SdProtectOperationType'' False True)])"

definition Ping_class :: message_class where
  "Ping_class = (Some 1,
    [(1, field ''message'' ''string'' False False),
     (2, field ''button_protection'' ''bool'' False False)])"

definition Cancel_class :: message_class where
  "Cancel_class = (Some 20, [])"

definition GetEntropy_class :: message_class where
  "GetEntropy_class = (Some 9,
    [(1, field ''size'' ''uint32'' False True)])"

definition Entropy_class :: message_class where
  "Entropy_class = (Some 10,
    [(1, field ''entropy'' ''bytes'' False True)])"

definition WipeDevice_class :: message_class where
  "WipeDevice_class = (Some 5, [])"

definition LoadDevice_class :: message_class where
  "LoadDevice_class = (Some 13,
    [(1, field ''mnemonics'' ''string'' True False),
     (3, field ''pin'' ''string'' False False),
     (4, field ''passphrase_protection'' ''bool'' False False),
     (5, field ''language'' ''string'' False False),
     (6, field ''label'' ''string'' False False),
     (7, field ''skip_checksum'' ''bool'' False False),
     (8, field ''u2f_counter'' ''uint32'' False False),
     (9, field ''needs_backup'' ''bool'' False False),
     (10, field ''no_backup'' ''bool'' False False)])"

definition ResetDevice_class :: message_class where
  "ResetDevice_class = (Some 14,
    [(1, field ''display_random'' ''bool'' False False),
     (2, field ''strength'' ''uint32'' False False),
     (3, field ''passphrase_protection'' ''bool'' False False),
     (4, field ''pin_protection'' ''bool'' False False),
     (5, field ''language'' ''string'' False False),
     (6, field ''label'' ''string'' False False),
     (7, field ''u2f_counter'' ''uint32'' False False),
     (8, field ''skip_backup'' ''bool'' False False),
     (9, field ''no_backup'' ''bool'' False False),
     (10, field ''backup_type'' ''BackupType'' False False)])"

definition BackupDevice_class :: message_class where
  "BackupDevice_class = (Some 34, [])"

definition EntropyRequest_class :: message_class where
  "EntropyRequest_class = (Some 35, [])"

definition EntropyAck_class :: message_class where
  "EntropyAck_class = (Some 36,
    [(1, field ''entropy'' ''bytes'' False True)])"

definition RecoveryDevice_class :: message_class where
  "RecoveryDevice_class = (Some 45,
    [(1, field ''word_count'' ''uint32'' False False),
     (2, field ''passphrase_protection'' ''bool'' False False),
     (3, field ''pin_protection'' ''bool'' False False),
     (4, field ''language'' ''string'' False False),
     (5, field ''label'' ''string'' False False),
     (6, field ''enforce_wordlist'' ''bool'' False False),
     (8, field ''type'' ''RecoveryDeviceType'' False False),
     (9, field ''u2f_counter'' ''uint32'' False False),
     (10, field ''dry_run'' ''bool'' False False)])"

definition WordRequest_class :: message_class where
  "WordRequest_class = (Some 46,
    [(1, field ''type'' ''WordRequestType'' False True)])"

definition WordAck_class :: message_class where
  "WordAck_class = (Some 47,
    [(1, field ''word'' ''string'' False True)])"

definition DoPreauthorized_class :: message_class where
  "DoPreauthorized_class = (Some 84, [])"

definition PreauthorizedRequest_class :: message_class where
  "PreauthorizedRequest_class = (Some 85, [])"

definition CancelAuthorization_class :: message_class where
  "CancelAuthorization_class = (Some 86, [])"

definition RebootToBootloader_class :: message_class where
  "RebootToBootloader_class = (Some 87, [])"

definition DebugLinkDecision_class :: message_class where
  "DebugLinkDecision_class = (Some 100,
    [(1, field ''yes_no'' ''bool'' False False),
     (2, field ''swipe'' ''DebugSwipeDirection'' False False),
     (3, field ''input'' ''string'' False False),
     (4, field ''x'' ''uint32'' False False),
     (5, field ''y'' ''uint32'' False False),
     (6, field ''wait'' ''bool'' False False),
     (7, field ''hold_ms'' ''uint32'' False False)])"

definition DebugLinkLayout_class :: message_class where
  "DebugLinkLayout_class = (Some 9001,
    [(1, field ''lines'' ''string'' True False)])"

definition DebugLinkReseedRandom_class :: message_class where
  "DebugLinkReseedRandom_class = (Some 9002,
    [(1, field ''value'' ''uint32'' False False)])"

definition DebugLinkRecordScreen_class :: message_class where
  "DebugLinkRecordScreen_class = (Some 9003,
    [(1, field ''target_directory'' ''string'' False False)])"

definition DebugLinkGetState_class :: message_class where
  "DebugLinkGetState_class = (Some 101,
    [(1, field ''wait_word_list'' ''bool'' False False),
     (2, field ''wait_word_pos'' ''bool'' False False),
     (3, field ''wait_layout'' ''bool'' False False)])"

definition DebugLinkState_class :: message_class where
  "DebugLinkState_class = (Some 102,
    [(1, field ''layout'' ''bytes'' False False),
     (2, field ''pin'' ''string'' False False),
     (3, field ''matrix'' ''string'' False False),
     (4, field ''mnemonic_secret'' ''bytes'' False False),
     (5, field ''node'' ''HDNodeType'' False False),
     (6, field ''passphrase_protection'' ''bool'' False False),
     (7, field ''reset_word'' ''string'' False False),
     (8, field ''reset_entropy'' ''bytes'' False False),
     (9, field ''recovery_fake_word'' ''string'' False False),
     (10, field ''recovery_word_pos'' ''uint32'' False False),
     (11, field ''reset_word_pos'' ''uint32'' False False),
     (12, field ''mnemonic_type'' ''BackupType'' False False),
     (13, field ''layout_lines'' ''string'' True False)])"

definition DebugLinkStop_class :: message_class where
  "DebugLinkStop_class = (Some 103, [])"

definition DebugLinkLog_class :: message_class where
  "DebugLinkLog_class = (Some 104,
    [(1, field ''level'' ''uint32'' False False),
     (2, field ''bucket'' ''string'' False False),
     (3, field ''text'' ''string'' False False)])"

definition DebugLinkMemoryRead_class :: message_class where
  "DebugLinkMemoryRead_class = (Some 110,
    [(1, field ''address'' ''uint32'' False False),
     (2, field ''length'' ''uint32'' False False)])"

definition DebugLinkMemory_class :: message_class where
  "DebugLinkMemory_class = (Some 111,
    [(1, field ''memory'' ''bytes'' False False)])"

definition DebugLinkMemoryWrite_class :: message_class where
  "DebugLinkMemoryWrite_class = (Some 112,
    [(1, field ''address'' ''uint32'' False False),
     (2, field ''memory'' ''bytes'' False False),
     (3, field ''flash'' ''bool'' False False)])"

definition DebugLinkFlashErase_class :: message_class where
  "DebugLinkFlashErase_class = (Some 113,
    [(1, field ''sector'' ''uint32'' False False)])"

definition DebugLinkEraseSdCard_class :: message_class where
  "DebugLinkEraseSdCard_class = (Some 9005,
    [(1, field ''format'' ''bool'' False False)])"

definition DebugLinkWatchLayout_class :: message_class where
  "DebugLinkWatchLayout_class = (Some 9006,
    [(1, field ''watch'' ''bool'' False False)])"

definition message_classes :: "(string \<times> message_class) list" where
  "message_classes =
    [(''Success'', Success_class), (''Failure'', Failure_class), (''ButtonRequest'', ButtonRequest_class),
     (''ButtonAck'', ButtonAck_class), (''PinMatrixRequest'', PinMatrixRequest_class),
     (''PinMatrixAck'', PinMatrixAck_class), (''PassphraseRequest'', PassphraseRequest_class),
     (''PassphraseAck'', PassphraseAck_class),
     (''Deprecated_PassphraseStateRequest'', Deprecated_PassphraseStateRequest_class),
     (''Deprecated_PassphraseStateAck'', Deprecated_PassphraseStateAck_class), (''HDNodeType'', HDNodeType_class),
     (''MultisigRedeemScriptType'', MultisigRedeemScriptType_class), (''GetPublicKey'', GetPublicKey_class),
     (''PublicKey'', PublicKey_class), (''GetAddress'', GetAddress_class), (''Address'', Address_class),
     (''GetOwnershipId'', GetOwnershipId_class), (''OwnershipId'', OwnershipId_class),
     (''SignMessage'', SignMessage_class), (''MessageSignature'', MessageSignature_class),
     (''VerifyMessage'', VerifyMessage_class), (''SignTx'', SignTx_class), (''TxRequest'', TxRequest_class),
     (''TxAck'', TxAck_class), (''TxInput'', TxInput_class), (''TxOutput'', TxOutput_class),
     (''PrevTx'', PrevTx_class), (''PrevInput'', PrevInput_class), (''PrevOutput'', PrevOutput_class),
     (''TxAckInput'', TxAckInput_class), (''TxAckOutput'', TxAckOutput_class),
     (''TxAckPrevMeta'', TxAckPrevMeta_class), (''TxAckPrevInput'', TxAckPrevInput_class),
     (''TxAckPrevOutput'', TxAckPrevOutput_class), (''TxAckPrevExtraData'', TxAckPrevExtraData_class),
     (''GetOwnershipProof'', GetOwnershipProof_class), (''OwnershipProof'', OwnershipProof_class),
     (''AuthorizeCoinJoin'', AuthorizeCoinJoin_class), (''HDNodePathType'', HDNodePathType_class),
     (''TxRequestDetailsType'', TxRequestDetailsType_class),
     (''TxRequestSerializedType'', TxRequestSerializedType_class), (''TransactionType'', TransactionType_class),
     (''TxInputType'', TxInputType_class), (''TxOutputBinType'', TxOutputBinType_class),
     (''TxOutputType'', TxOutputType_class), (''TxAckInputWrapper'', TxAckInputWrapper_class),
     (''TxAckOutputWrapper'', TxAckOutputWrapper_class), (''TxAckPrevInputWrapper'', TxAckPrevInputWrapper_class),
     (''TxAckPrevOutputWrapper'', TxAckPrevOutputWrapper_class),
     (''TxAckPrevExtraDataWrapper'', TxAckPrevExtraDataWrapper_class), (''FirmwareErase'', FirmwareErase_class),
     (''FirmwareRequest'', FirmwareRequest_class), (''FirmwareUpload'', FirmwareUpload_class),
     (''SelfTest'', SelfTest_class), (''IdentityType'', IdentityType_class), (''Initialize'', Initialize_class),
     (''GetFeatures'', GetFeatures_class), (''Features'', Features_class), (''LockDevice'', LockDevice_class),
     (''EndSession'', EndSession_class), (''ApplySettings'', ApplySettings_class),
     (''ApplyFlags'', ApplyFlags_class), (''ChangePin'', ChangePin_class),
     (''ChangeWipeCode'', ChangeWipeCode_class), (''SdProtect'', SdProtect_class), (''Ping'', Ping_class),
     (''Cancel'', Cancel_class), (''GetEntropy'', GetEntropy_class), (''Entropy'', Entropy_class),
     (''WipeDevice'', WipeDevice_class), (''LoadDevice'', LoadDevice_class), (''ResetDevice'', ResetDevice_class),
     (''BackupDevice'', BackupDevice_class), (''EntropyRequest'', EntropyRequest_class),
     (''EntropyAck'', EntropyAck_class), (''RecoveryDevice'', RecoveryDevice_class),
     (''WordRequest'', WordRequest_class), (''WordAck'', WordAck_class),
     (''DoPreauthorized'', DoPreauthorized_class), (''PreauthorizedRequest'', PreauthorizedRequest_class),
     (''CancelAuthorization'', CancelAuthorization_class), (''RebootToBootloader'', RebootToBootloader_class),
     (''DebugLinkDecision'', DebugLinkDecision_class), (''DebugLinkLayout'', DebugLinkLayout_class),
     (''DebugLinkReseedRandom'', DebugLinkReseedRandom_class),
     (''DebugLinkRecordScreen'', DebugLinkRecordScreen_class), (''DebugLinkGetState'', DebugLinkGetState_class),
     (''DebugLinkState'', DebugLinkState_class), (''DebugLinkStop'', DebugLinkStop_class),
     (''DebugLinkLog'', DebugLinkLog_class), (''DebugLinkMemoryRead'', DebugLinkMemoryRead_class),
     (''DebugLinkMemory'', DebugLinkMemory_class), (''DebugLinkMemoryWrite'', DebugLinkMemoryWrite_class),
     (''DebugLinkFlashErase'', DebugLinkFlashErase_class), (''DebugLinkEraseSdCard'', DebugLinkEraseSdCard_class),
     (''DebugLinkWatchLayout'', DebugLinkWatchLayout_class)]"

definition enumerations :: "(string \<times> (string \<times> int) list) list" where
  "enumerations =
    [(''MessageType'', MessageType_members), (''FailureType'', FailureType_members),
     (''ButtonRequestType'', ButtonRequestType_members), (''PinMatrixRequestType'', PinMatrixRequestType_members),
     (''InputScriptType'', InputScriptType_members), (''OutputScriptType'', OutputScriptType_members),
     (''DecredStakingSpendType'', DecredStakingSpendType_members), (''AmountUnit'', AmountUnit_members),
     (''RequestType'', RequestType_members), (''BackupType'', BackupType_members),
     (''SafetyCheckLevel'', SafetyCheckLevel_members), (''Capability'', Capability_members),
     (''SdProtectOperationType'', SdProtectOperationType_members),
     (''RecoveryDeviceType'', RecoveryDeviceType_members), (''WordRequestType'', WordRequestType_members),
     (''DebugSwipeDirection'', DebugSwipeDirection_members)]"

lemmas enumeration_defs =
  MessageType_members_def FailureType_members_def ButtonRequestType_members_def PinMatrixRequestType_members_def
  InputScriptType_members_def OutputScriptType_members_def DecredStakingSpendType_members_def
  AmountUnit_members_def RequestType_members_def BackupType_members_def SafetyCheckLevel_members_def
  Capability_members_def SdProtectOperationType_members_def RecoveryDeviceType_members_def
  WordRequestType_members_def DebugSwipeDirection_members_def

lemmas class_defs =
  Success_class_def Failure_class_def ButtonRequest_class_def ButtonAck_class_def PinMatrixRequest_class_def
  PinMatrixAck_class_def PassphraseRequest_class_def PassphraseAck_class_def
  Deprecated_PassphraseStateRequest_class_def Deprecated_PassphraseStateAck_class_def HDNodeType_class_def
  MultisigRedeemScriptType_class_def GetPublicKey_class_def PublicKey_class_def GetAddress_class_def
  Address_class_def GetOwnershipId_class_def OwnershipId_class_def SignMessage_class_def
  MessageSignature_class_def VerifyMessage_class_def SignTx_class_def TxRequest_class_def TxAck_class_def
  TxInput_class_def TxOutput_class_def PrevTx_class_def PrevInput_class_def PrevOutput_class_def
  TxAckInput_class_def TxAckOutput_class_def TxAckPrevMeta_class_def TxAckPrevInput_class_def
  TxAckPrevOutput_class_def TxAckPrevExtraData_class_def GetOwnershipProof_class_def OwnershipProof_class_def
  AuthorizeCoinJoin_class_def HDNodePathType_class_def TxRequestDetailsType_class_def
  TxRequestSerializedType_class_def TransactionType_class_def TxInputType_class_def TxOutputBinType_class_def
  TxOutputType_class_def TxAckInputWrapper_class_def TxAckOutputWrapper_class_def TxAckPrevInputWrapper_class_def
  TxAckPrevOutputWrapper_class_def TxAckPrevExtraDataWrapper_class_def FirmwareErase_class_def
  FirmwareRequest_class_def FirmwareUpload_class_def SelfTest_class_def IdentityType_class_def
  Initialize_class_def GetFeatures_class_def Features_class_def LockDevice_class_def EndSession_class_def
  ApplySettings_class_def ApplyFlags_class_def ChangePin_class_def ChangeWipeCode_class_def SdProtect_class_def
  Ping_class_def Cancel_class_def GetEntropy_class_def Entropy_class_def WipeDevice_class_def
  LoadDevice_class_def ResetDevice_class_def BackupDevice_class_def EntropyRequest_class_def
  EntropyAck_class_def RecoveryDevice_class_def WordRequest_class_def WordAck_class_def
  DoPreauthorized_class_def PreauthorizedRequest_class_def CancelAuthorization_class_def
  RebootToBootloader_class_def DebugLinkDecision_class_def DebugLinkLayout_class_def
  DebugLinkReseedRandom_class_def DebugLinkRecordScreen_class_def DebugLinkGetState_class_def
  DebugLinkState_class_def DebugLinkStop_class_def DebugLinkLog_class_def DebugLinkMemoryRead_class_def
  DebugLinkMemory_class_def DebugLinkMemoryWrite_class_def DebugLinkFlashErase_class_def
  DebugLinkEraseSdCard_class_def DebugLinkWatchLayout_class_def

definition messages_types :: "(string, type_object) dict" where
  "messages_types = map (\<lambda>(n, members). (n, EnumObj (map snd members))) enumerations
     @ map (\<lambda>(n, c). (n, MessageObj (snd c))) message_classes"

definition messages_schema :: "(pbval \<Rightarrow> string) \<Rightarrow> schema" where
  "messages_schema py_str = \<lparr>sc_types = messages_types, sc_str = py_str\<rparr>"

section \<open>The tables are as the codec needs them\<close>

lemma field_sel [simp]: "fd_name (field n ty r q) = n" "fd_type (field n ty r q) = ty"
  by (simp_all add: field_def)

lemma distinct_tags: "list_all (\<lambda>(n, c). distinct (map fst (snd c))) message_classes"
  by (simp add: message_classes_def class_defs)

lemma distinct_names: "list_all (\<lambda>(n, c). distinct (map (fd_name \<circ> snd) (snd c))) message_classes"
  by (simp add: message_classes_def class_defs)

text \<open>Every type of a field is a type of numbers or bytes, an enumeration or a class.\<close>

definition known_types :: "string list" where
  "known_types = map fst WIRE_TYPES @ map fst enumerations @ map fst message_classes"

definition known :: "string \<Rightarrow> bool" where
  "known ty \<longleftrightarrow> ty \<in> set known_types"

lemma known_all: "list_all known known_types"
  by (simp add: list_all_iff known_def)

lemmas known_names = known_all [unfolded known_types_def enumerations_def WIRE_TYPES_def message_classes_def, simplified]

lemma fields_known: "list_all (\<lambda>(n, c). list_all (\<lambda>x. known (fd_type (snd x))) (snd c)) message_classes"
  by (simp add: message_classes_def class_defs known_names)

lemma distinct_known: "distinct known_types"
  by (simp add: known_types_def WIRE_TYPES_def enumerations_def message_classes_def)

lemma members_nonneg: "list_all (\<lambda>(n, members). list_all (\<lambda>m. 0 \<le> snd m) members) enumerations"
  by (simp add: enumerations_def enumeration_defs)

lemma types_names: "map fst messages_types = map fst enumerations @ map fst message_classes"
  by (simp add: messages_types_def comp_def split_def)

lemma messages_ok: "schema_ok (messages_schema py_str)"
proof -
  have disjoint: "n \<notin> dom (map_of WIRE_TYPES)" if "n \<in> fst ` set messages_types" for n
  proof -
    have "n \<in> set (map fst enumerations @ map fst message_classes)" using that types_names by (metis set_map)
    then show ?thesis using distinct_known by (auto simp: known_types_def dom_map_of_conv_image_fst)
  qed
  have dom: "known ty \<longleftrightarrow> ty \<in> dom (map_of WIRE_TYPES) \<or> ty \<in> dom (map_of messages_types)" for ty
  proof -
    have "fst ` set messages_types = set (map fst enumerations @ map fst message_classes)" using types_names by (metis set_map)
    then show ?thesis by (auto simp: known_def known_types_def dom_map_of_conv_image_fst)
  qed
  have "fields_ok (messages_schema py_str) (snd c)" if "(n, c) \<in> set message_classes" for n c
    unfolding fields_ok_def
  proof (intro conjI)
    show "distinct (map fst (snd c))" using distinct_tags that by (auto simp: list_all_iff)
    show "distinct (map (fd_name \<circ> snd) (snd c))" using distinct_names that by (fastforce simp: list_all_iff)
    show "\<forall>(tag, f)\<in>set (snd c). fd_type f \<in> dom (map_of WIRE_TYPES) \<or> fd_type f \<in> dom (map_of (sc_types (messages_schema py_str)))"
    proof -
      have "\<forall>x\<in>set (snd c). known (fd_type (snd x))" using fields_known that by (fastforce simp: list_all_iff)
      then show ?thesis by (auto simp: messages_schema_def dom)
    qed
  qed
  moreover have "\<forall>m\<in>snd ` set members. 0 \<le> m" if "(n, members) \<in> set enumerations" for n members
    using members_nonneg that by (fastforce simp: list_all_iff)
  ultimately show ?thesis using disjoint
    by (force simp: schema_ok_def messages_schema_def messages_types_def)
qed

section \<open>Wire types\<close>

text \<open>The class of each wire type, and wire types that are not those of their class.\<close>

record mapping =
  pm_type_to_class :: "(nat, string) dict"
  pm_class_to_type_override :: "(string, nat) dict"

definition class_wire_type :: "string \<Rightarrow> nat option" where
  "class_wire_type cls = (case map_of message_classes cls of Some (w, _) \<Rightarrow> w | None \<Rightarrow> None)"

definition mapping_register :: "string \<Rightarrow> nat option \<Rightarrow> mapping \<Rightarrow> mapping result" where
  "mapping_register msg_class msg_wire_type pm =
     (case msg_wire_type of
        Some w \<Rightarrow>
          Inr (pm\<lparr>pm_class_to_type_override := AList.update msg_class w (pm_class_to_type_override pm),
                 pm_type_to_class := AList.update w msg_class (pm_type_to_class pm)\<rparr>)
      | None \<Rightarrow>
          (case class_wire_type msg_class of
             None \<Rightarrow> Inl (ValueErr ''Cannot register class without wire type'')
           | Some w \<Rightarrow> Inr (pm\<lparr>pm_type_to_class := AList.update w msg_class (pm_type_to_class pm)\<rparr>)))"

definition mapping_encode :: "schema \<Rightarrow> mapping \<Rightarrow> pbval \<Rightarrow> (nat \<times> bytes) result" where
  "mapping_encode sc pm msg =
     (case msg of
        PbMsg cls attrs \<Rightarrow>
          (case (case map_of (pm_class_to_type_override pm) cls of Some w \<Rightarrow> Some w | None \<Rightarrow> class_wire_type cls) of
             None \<Rightarrow> Inl (ValueErr ''Cannot encode class without wire type'')
           | Some w \<Rightarrow> res_bind (dump_message sc msg) (\<lambda>bs. Inr (w, bs)))
      | _ \<Rightarrow> Inl (OtherErr ''AttributeError''))"

definition mapping_decode :: "schema \<Rightarrow> mapping \<Rightarrow> nat \<Rightarrow> bytes \<Rightarrow> pbval result" where
  "mapping_decode sc pm msg_wire_type msg_bytes =
     (case map_of (pm_type_to_class pm) msg_wire_type of
        None \<Rightarrow> Inl KeyErr
      | Some cls \<Rightarrow> decode_message sc cls msg_bytes)"

text \<open>Every member of the enumeration \<open>MessageType\<close> has its class, with its value as the wire type.\<close>

definition register_entry :: "string \<times> int \<Rightarrow> mapping \<Rightarrow> mapping result" where
  "register_entry entry pm =
     (case map_of message_classes (fst entry) of
        None \<Rightarrow> Inl (ValueErr (''Implementation of protobuf message '' @ [CHR 0x27] @ fst entry @ [CHR 0x27] @ '' is missing''))
      | Some (w, _) \<Rightarrow>
          if map_option int w \<noteq> Some (snd entry)
          then Inl (ValueErr (''Inconsistent wire type and MessageType record for '' @ [CHR 0x27] @ fst entry @ [CHR 0x27]))
          else mapping_register (fst entry) None pm)"

definition from_module :: "mapping result" where
  "from_module = res_fold register_entry MessageType_members \<lparr>pm_type_to_class = [], pm_class_to_type_override = []\<rparr>"

lemma classes_found: "list_all (\<lambda>(n, c). map_of message_classes n = Some c) message_classes"
proof -
  have "distinct (map fst message_classes)" using distinct_known by (simp add: known_types_def)
  then show ?thesis by (auto simp: list_all_iff)
qed

lemmas class_lookup = classes_found [unfolded message_classes_def list.pred_inject, folded message_classes_def, simplified]

lemma entries_consistent:
  "list_all (\<lambda>entry. \<exists>flds n. map_of message_classes (fst entry) = Some (Some n, flds) \<and> int n = snd entry) MessageType_members"
  by (simp add: MessageType_members_def class_lookup class_defs)

lemma register_entries:
  assumes "list_all (\<lambda>entry. \<exists>flds n. map_of message_classes (fst entry) = Some (Some n, flds) \<and> int n = snd entry) entries"
    and "distinct (map snd entries)"
  shows "\<exists>pm'. res_fold register_entry entries pm = Inr pm' \<and> pm_class_to_type_override pm' = pm_class_to_type_override pm
    \<and> (\<forall>w. map_of (pm_type_to_class pm') w = (case map_of (map prod.swap entries) (int w) of
        Some n \<Rightarrow> Some n | None \<Rightarrow> map_of (pm_type_to_class pm) w))"
  using assms
proof (induction entries arbitrary: pm)
  case (Cons entry entries)
  obtain name w where entry: "entry = (name, int w)" "class_wire_type name = Some w" "\<exists>flds. map_of message_classes name = Some (Some w, flds)"
    using Cons.prems(1) by (cases entry) (auto simp: class_wire_type_def)
  let ?pm = "pm\<lparr>pm_type_to_class := AList.update w name (pm_type_to_class pm)\<rparr>"
  have step: "register_entry entry pm = Inr ?pm" using entry by (auto simp: register_entry_def mapping_register_def)
  have "map_of (map prod.swap entries) (int w) = None"
    using Cons.prems(2) entry(1) by (auto simp: map_of_eq_None_iff image_iff)
  with Cons.IH [of ?pm] Cons.prems step entry(1) show ?case by (auto simp: update_conv' split: option.split)
qed simp

lemma distinct_wire_types: "distinct (map snd MessageType_members)"
  by (simp add: MessageType_members_def)

lemma default_mapping:
  "\<exists>pm. from_module = Inr pm \<and> pm_class_to_type_override pm = [] \<and>
    (\<forall>(name, code)\<in>set MessageType_members. map_of (pm_type_to_class pm) (nat code) = Some name \<and> class_wire_type name = Some (nat code))"
proof -
  obtain pm where pm: "from_module = Inr pm" "pm_class_to_type_override pm = []"
    "\<And>w. map_of (pm_type_to_class pm) w = map_of (map prod.swap MessageType_members) (int w)"
    using register_entries [OF entries_consistent distinct_wire_types]
    by (fastforce simp: from_module_def split: option.splits)
  have "map_of (pm_type_to_class pm) (nat code) = Some name \<and> class_wire_type name = Some (nat code)"
    if "(name, code) \<in> set MessageType_members" for name code
  proof -
    have "\<exists>flds n. map_of message_classes name = Some (Some n, flds) \<and> int n = code"
      using entries_consistent [unfolded list_all_iff, rule_format, OF that] by simp
    then obtain flds n where n: "map_of message_classes name = Some (Some n, flds)" "int n = code" by blast
    have "distinct (map fst (map prod.swap MessageType_members))" using distinct_wire_types by (simp add: comp_def)
    then have "map_of (map prod.swap MessageType_members) code = Some name" using that by (intro map_of_is_SomeI) auto
    with n pm(3) show ?thesis by (auto simp: class_wire_type_def)
  qed
  with pm(1, 2) show ?thesis by blast
qed

lemma class_type:
  assumes "map_of message_classes cls = Some c"
  shows "map_of messages_types cls = Some (MessageObj (snd c))"
proof -
  have "(cls, MessageObj (snd c)) \<in> set messages_types" using map_of_SomeD [OF assms] by (force simp: messages_types_def)
  moreover have "distinct (map fst messages_types)" using distinct_known by (simp add: types_names known_types_def)
  ultimately show ?thesis by simp
qed

lemma enum_type:
  assumes "map_of enumerations n = Some members"
  shows "map_of (sc_types (messages_schema py_str)) n = Some (EnumObj (map snd members))"
proof -
  have "(n, EnumObj (map snd members)) \<in> set messages_types" using map_of_SomeD [OF assms] by (force simp: messages_types_def)
  moreover have "distinct (map fst messages_types)" using distinct_known by (simp add: types_names known_types_def)
  ultimately show ?thesis by (simp add: messages_schema_def)
qed

text \<open>The mapping of the module, for every message of a class that has a wire type.\<close>

lemma messages_mapping:
  "\<exists>pm. from_module = Inr pm \<and> (\<forall>cls msg code. typed (messages_schema py_str) True cls msg \<longrightarrow> (cls, code) \<in> set MessageType_members \<longrightarrow>
     (\<exists>bs. mapping_encode (messages_schema py_str) pm msg = Inr (nat code, bs)
        \<and> mapping_decode (messages_schema py_str) pm (nat code) bs = Inr msg))"
proof -
  obtain pm where pm: "from_module = Inr pm" "pm_class_to_type_override pm = []" and
    known: "\<And>cls code. (cls, code) \<in> set MessageType_members \<Longrightarrow>
      map_of (pm_type_to_class pm) (nat code) = Some cls \<and> class_wire_type cls = Some (nat code)"
    using default_mapping by blast
  have "\<exists>bs. mapping_encode (messages_schema py_str) pm msg = Inr (nat code, bs)
      \<and> mapping_decode (messages_schema py_str) pm (nat code) bs = Inr msg"
    if typed: "typed (messages_schema py_str) True cls msg" and code: "(cls, code) \<in> set MessageType_members" for cls msg code
  proof -
    obtain c where "map_of message_classes cls = Some c"
      using known [OF code] by (auto simp: class_wire_type_def split: option.splits)
    then have "map_of (sc_types (messages_schema py_str)) cls = Some (MessageObj (snd c))"
      using class_type by (simp add: messages_schema_def)
    from typed_round_trip [OF messages_ok typed this] pm known [OF code] show ?thesis
      by (auto simp: mapping_encode_def mapping_decode_def)
  qed
  with pm(1) show ?thesis by blast
qed

text \<open>
  C30: the messages of the module survive the way to the device and back. The mapping between wire types and classes
  can be built, and a message of a class it holds, whose attributes have the types of their fields, is encoded without
  error; what is decoded from its wire type and its bytes is the message.
\<close>

theorem trezor_message_round_trip:
  assumes "typed (messages_schema py_str) True cls msg" and "(cls, code) \<in> set MessageType_members"
  shows "\<exists>pm bs. from_module = Inr pm \<and> mapping_encode (messages_schema py_str) pm msg = Inr (nat code, bs)
    \<and> mapping_decode (messages_schema py_str) pm (nat code) bs = Inr msg"
  using messages_mapping [of py_str] assms by blast

text \<open>A message within a message.\<close>

definition example_public_key :: pbval where
  "example_public_key =
     PbMsg ''PublicKey''
       [(''node'', PbMsg ''HDNodeType''
          [(''depth'', PbInt 1), (''fingerprint'', PbInt 305419896), (''child_num'', PbInt 2147483732),
           (''chain_code'', PbBytes [1, 2]), (''private_key'', PbNone), (''public_key'', PbBytes [2, 255])]),
        (''xpub'', PbStr [120, 8364]),
        (''root_fingerprint'', PbNone)]"

lemma example_typed: "typed (messages_schema py_str) True ''PublicKey'' example_public_key"
proof -
  have lookup: "map_of (sc_types (messages_schema py_str)) ''PublicKey'' = Some (MessageObj (snd PublicKey_class))"
    "map_of (sc_types (messages_schema py_str)) ''HDNodeType'' = Some (MessageObj (snd HDNodeType_class))"
    using class_type class_lookup by (simp_all add: messages_schema_def)
  have numbers: "typed (messages_schema py_str) True ''uint32'' (PbInt n)" if "0 \<le> n" "n < 2 ^ 32" for n
    using that by (intro typed.unsigned) (simp_all add: in_range_def)
  have node: "typed (messages_schema py_str) True ''HDNodeType'' (PbMsg ''HDNodeType''
      [(''depth'', PbInt 1), (''fingerprint'', PbInt 305419896), (''child_num'', PbInt 2147483732),
       (''chain_code'', PbBytes [1, 2]), (''private_key'', PbNone), (''public_key'', PbBytes [2, 255])])"
    by (rule typed.message [OF lookup(2)]) (simp_all add: HDNodeType_class_def field_def field_holds_def numbers typed.bytes)
  show ?thesis unfolding example_public_key_def
    by (rule typed.message [OF lookup(1)]) (simp_all add: PublicKey_class_def field_def field_holds_def node typed.string scalar_def)
qed

theorem trezor_message_round_trip_witness:
  "\<exists>pm bs. from_module = Inr pm \<and> mapping_encode (messages_schema (\<lambda>_. [])) pm example_public_key = Inr (12, bs)
    \<and> mapping_decode (messages_schema (\<lambda>_. [])) pm 12 bs = Inr example_public_key"
  using trezor_message_round_trip [OF example_typed, of 12 "\<lambda>_. []"] by (simp add: MessageType_members_def)

theorem trezor_decode_typed_witness:
  "decode_message (messages_schema (\<lambda>_. [])) ''PublicKey'' [8, 255] \<noteq> Inl OutOfFuel"
  using trezor_decode_typed [OF messages_ok, of "\<lambda>_. []" "''PublicKey''" "[8, 255]"] by blast

end
