(* ===== verification/Trezor_Objects.thy ===== *)
theory Trezor_Objects
  imports Trezor_Messages
begin

text \<open>
  The objects of the classes of \<open>hwilib/devices/trezorlib/messages.py\<close> as the rest of the library uses them: what their
  constructors make of the attributes that are left out, and the operations on their values.
\<close>

section \<open>Constructors\<close>

text \<open>
  What the constructors of the classes give to the attributes that are left out: usually nothing, or an empty list to a
  repeated field. These have other defaults.
\<close>

definition Success_init :: "(string \<times> pbval) list" where
  "Success_init =
    [(''message'', PbStr [])]"

definition GetPublicKey_init :: "(string \<times> pbval) list" where
  "GetPublicKey_init =
    [(''coin_name'', PbStr (map of_char ''Bitcoin'')), (''script_type'', PbInt 0)]"

definition GetAddress_init :: "(string \<times> pbval) list" where
  "GetAddress_init =
    [(''coin_name'', PbStr (map of_char ''Bitcoin'')), (''script_type'', PbInt 0)]"

definition GetOwnershipId_init :: "(string \<times> pbval) list" where
  "GetOwnershipId_init =
    [(''coin_name'', PbStr (map of_char ''Bitcoin'')), (''script_type'', PbInt 0)]"

definition SignMessage_init :: "(string \<times> pbval) list" where
  "SignMessage_init =
    [(''coin_name'', PbStr (map of_char ''Bitcoin'')), (''script_type'', PbInt 0)]"

definition VerifyMessage_init :: "(string \<times> pbval) list" where
  "VerifyMessage_init =
    [(''coin_name'', PbStr (map of_char ''Bitcoin''))]"

definition SignTx_init :: "(string \<times> pbval) list" where
  "SignTx_init =
    [(''coin_name'', PbStr (map of_char ''Bitcoin'')), (''version'', PbInt 1), (''lock_time'', PbInt 0),
     (''amount_unit'', PbInt 0), (''decred_staking_ticket'', PbBool False), (''serialize'', PbBool True)]"

definition TxInput_init :: "(string \<times> pbval) list" where
  "TxInput_init =
    [(''sequence'', PbInt 4294967295), (''script_type'', PbInt 0)]"

definition TxOutput_init :: "(string \<times> pbval) list" where
  "TxOutput_init =
    [(''script_type'', PbInt 0)]"

definition PrevTx_init :: "(string \<times> pbval) list" where
  "PrevTx_init =
    [(''extra_data_len'', PbInt 0)]"

definition GetOwnershipProof_init :: "(string \<times> pbval) list" where
  "GetOwnershipProof_init =
    [(''coin_name'', PbStr (map of_char ''Bitcoin'')), (''script_type'', PbInt 3),
     (''user_confirmation'', PbBool False), (''commitment_data'', PbBytes [])]"

definition AuthorizeCoinJoin_init :: "(string \<times> pbval) list" where
  "AuthorizeCoinJoin_init =
    [(''fee_per_anonymity'', PbInt 0), (''coin_name'', PbStr (map of_char ''Bitcoin'')), (''script_type'', PbInt 0),
     (''amount_unit'', PbInt 0)]"

definition TxInputType_init :: "(string \<times> pbval) list" where
  "TxInputType_init =
    [(''sequence'', PbInt 4294967295), (''script_type'', PbInt 0)]"

definition TxOutputType_init :: "(string \<times> pbval) list" where
  "TxOutputType_init =
    [(''script_type'', PbInt 0)]"

definition IdentityType_init :: "(string \<times> pbval) list" where
  "IdentityType_init =
    [(''index'', PbInt 0)]"

definition Ping_init :: "(string \<times> pbval) list" where
  "Ping_init =
    [(''message'', PbStr [])]"

definition LoadDevice_init :: "(string \<times> pbval) list" where
  "LoadDevice_init =
    [(''language'', PbStr (map of_char ''en-US''))]"

definition ResetDevice_init :: "(string \<times> pbval) list" where
  "ResetDevice_init =
    [(''strength'', PbInt 256), (''language'', PbStr (map of_char ''en-US'')), (''backup_type'', PbInt 0)]"

definition constructor_defaults :: "(string \<times> (string \<times> pbval) list) list" where
  "constructor_defaults =
    [(''Success'', Success_init), (''GetPublicKey'', GetPublicKey_init), (''GetAddress'', GetAddress_init),
     (''GetOwnershipId'', GetOwnershipId_init), (''SignMessage'', SignMessage_init),
     (''VerifyMessage'', VerifyMessage_init), (''SignTx'', SignTx_init), (''TxInput'', TxInput_init),
     (''TxOutput'', TxOutput_init), (''PrevTx'', PrevTx_init), (''GetOwnershipProof'', GetOwnershipProof_init),
     (''AuthorizeCoinJoin'', AuthorizeCoinJoin_init), (''TxInputType'', TxInputType_init),
     (''TxOutputType'', TxOutputType_init), (''IdentityType'', IdentityType_init), (''Ping'', Ping_init),
     (''LoadDevice'', LoadDevice_init), (''ResetDevice'', ResetDevice_init)]"

section \<open>Attributes\<close>

definition is_a :: "string \<Rightarrow> pbval \<Rightarrow> bool" where
  "is_a cls v = (case v of PbMsg c _ \<Rightarrow> c = cls | _ \<Rightarrow> False)"

definition AttributeError :: exn where "AttributeError = OtherErr ''AttributeError''"

definition get_attr :: "pbval \<Rightarrow> string \<Rightarrow> pbval result" where
  "get_attr v name =
     (case v of
        PbMsg _ attrs \<Rightarrow> (case map_of attrs name of Some x \<Rightarrow> Inr x | None \<Rightarrow> Inl AttributeError)
      | _ \<Rightarrow> Inl AttributeError)"

definition set_attr :: "string \<Rightarrow> pbval \<Rightarrow> pbval \<Rightarrow> pbval" where
  "set_attr name x v = (case v of PbMsg c attrs \<Rightarrow> PbMsg c (AList.update name x attrs) | _ \<Rightarrow> v)"

text \<open>
  A message of a class, with some of its attributes; the required ones are always among them. Lists stand for repeated
  fields that are not given.
\<close>

definition new_message :: "string \<Rightarrow> (string \<times> pbval) list \<Rightarrow> pbval" where
  "new_message cls kwargs =
     (let defaults = (case map_of constructor_defaults cls of Some d \<Rightarrow> d | None \<Rightarrow> []) in
      PbMsg cls (map (\<lambda>(tag, f). (fd_name f,
           case map_of (kwargs @ defaults) (fd_name f) of
             Some v \<Rightarrow> if fd_repeated f \<and> v = PbNone then PbList [] else v
           | None \<Rightarrow> if fd_repeated f then PbList [] else PbNone))
         (case map_of message_classes cls of Some c \<Rightarrow> snd c | None \<Rightarrow> [])))"

text \<open>The number of a member of an enumeration.\<close>

definition member :: "(string \<times> int) list \<Rightarrow> string \<Rightarrow> pbval" where
  "member members name = (case map_of members name of Some n \<Rightarrow> PbInt n | None \<Rightarrow> PbNone)"

text \<open>What counts as true in a condition.\<close>

definition truthy :: "pbval \<Rightarrow> bool" where
  "truthy v =
     (case v of
        PbNone \<Rightarrow> False | PbInt n \<Rightarrow> n \<noteq> 0 | PbBool b \<Rightarrow> b | PbBytes b \<Rightarrow> b \<noteq> [] | PbStr s \<Rightarrow> s \<noteq> [] | PbList vs \<Rightarrow> vs \<noteq> []
      | _ \<Rightarrow> True)"

definition py_len :: "pbval \<Rightarrow> nat result" where
  "py_len v =
     (case v of PbBytes b \<Rightarrow> Inr (length b) | PbStr s \<Rightarrow> Inr (length s) | PbList vs \<Rightarrow> Inr (length vs) | _ \<Rightarrow> Inl TypeErr)"

text \<open>Positions count from the end when they are negative.\<close>

definition position :: "nat \<Rightarrow> pbval \<Rightarrow> nat result" where
  "position n v =
     res_bind (number_of v) (\<lambda>i.
     if 0 \<le> i \<and> i < int n then Inr (nat i)
     else if - int n \<le> i \<and> i < 0 then Inr (nat (int n + i))
     else Inl IndexErr)"

definition get_item :: "pbval \<Rightarrow> pbval \<Rightarrow> pbval result" where
  "get_item v i = (case v of PbList vs \<Rightarrow> res_bind (position (length vs) i) (\<lambda>k. Inr (vs ! k)) | _ \<Rightarrow> Inl TypeErr)"

definition clamp :: "nat \<Rightarrow> int \<Rightarrow> nat" where
  "clamp n i = nat (min (int n) (if i < 0 then max 0 (int n + i) else i))"

definition get_slice :: "pbval \<Rightarrow> int \<Rightarrow> int \<Rightarrow> pbval result" where
  "get_slice v i j =
     (case v of
        PbBytes b \<Rightarrow> Inr (PbBytes (take (clamp (length b) j - clamp (length b) i) (drop (clamp (length b) i) b)))
      | _ \<Rightarrow> Inl TypeErr)"

end
