(* ===== verification/Trezor_Client.thy ===== *)
theory Trezor_Client
  imports Trezor_Objects
begin

text \<open>
  \<open>hwilib/devices/trezorlib/client.py\<close>: the calls of a host to a Trezor device, during which the device asks for a PIN, a
  passphrase or a press of its button. The transport and the user are operations on a state.
\<close>

section \<open>Models\<close>

text \<open>\<open>models.py\<close>. Text is compared with that of messages.\<close>

record TrezorModel =
  tm_name :: string
  tm_internal_name :: string
  tm_minimum_version :: "int list"
  tm_vendors :: "string list"

definition text_of :: "string \<Rightarrow> pbval" where
  "text_of s = PbStr (map of_char s)"

definition VENDORS :: "string list" where "VENDORS = [''bitcointrezor.com'', ''trezor.io'']"

definition T1B1 :: TrezorModel where
  "T1B1 = \<lparr>tm_name = ''1'', tm_internal_name = ''T1B1'', tm_minimum_version = [1, 8, 0], tm_vendors = VENDORS\<rparr>"

definition T2T1 :: TrezorModel where
  "T2T1 = \<lparr>tm_name = ''T'', tm_internal_name = ''T2T1'', tm_minimum_version = [2, 1, 0], tm_vendors = VENDORS\<rparr>"

definition T2B1 :: TrezorModel where
  "T2B1 = \<lparr>tm_name = ''Safe 3'', tm_internal_name = ''T2B1'', tm_minimum_version = [2, 1, 0], tm_vendors = VENDORS\<rparr>"

definition T3T1 :: TrezorModel where
  "T3T1 = \<lparr>tm_name = ''Safe 5'', tm_internal_name = ''T3T1'', tm_minimum_version = [2, 1, 0], tm_vendors = VENDORS\<rparr>"

definition T3B1 :: TrezorModel where
  "T3B1 = \<lparr>tm_name = ''Safe 3'', tm_internal_name = ''T3B1'', tm_minimum_version = [2, 1, 0], tm_vendors = VENDORS\<rparr>"

definition DISC1 :: TrezorModel where
  "DISC1 = \<lparr>tm_name = ''DISC1'', tm_internal_name = ''D001'', tm_minimum_version = [2, 1, 0], tm_vendors = VENDORS\<rparr>"

definition DISC2 :: TrezorModel where
  "DISC2 = \<lparr>tm_name = ''DISC2'', tm_internal_name = ''D002'', tm_minimum_version = [2, 1, 0], tm_vendors = VENDORS\<rparr>"

definition TREZORS :: "TrezorModel list" where
  "TREZORS = [T1B1, T2T1, T2B1, T3T1, T3B1, DISC1, DISC2]"

text \<open>\<open>models\<close> is the set of models in the order in which it is gone through.\<close>

definition by_name :: "TrezorModel list \<Rightarrow> pbval \<Rightarrow> TrezorModel option" where
  "by_name models name = (if name = PbNone then Some T1B1 else find (\<lambda>m. text_of (tm_name m) = name) models)"

section \<open>The client\<close>

definition Cancelled :: exn where "Cancelled = OtherErr ''Cancelled''"

definition TrezorFailure :: exn where "TrezorFailure = OtherErr ''TrezorFailure''"

definition PinException :: exn where "PinException = OtherErr ''PinException''"

definition TrezorException :: "string \<Rightarrow> exn" where "TrezorException s = OtherErr (''TrezorException: '' @ s)"

definition OutdatedFirmwareError :: exn where "OutdatedFirmwareError = OtherErr ''OutdatedFirmwareError''"

definition MAX_PASSPHRASE_LENGTH :: nat where "MAX_PASSPHRASE_LENGTH = 50"

definition MAX_PIN_LENGTH :: nat where "MAX_PIN_LENGTH = 50"

text \<open>The user answers with text, or asks to enter the passphrase on the device.\<close>

datatype passphrase = PASSPHRASE_ON_DEVICE | Passphrase "nat list"

text \<open>
  The transport and the user; the messages with their wire types; the normal form of passphrases, which is a library's;
  and the set of models in some order.
\<close>

record 's trezor =
  tz_begin_session :: "('s, unit) io"
  tz_end_session :: "('s, unit) io"
  tz_write :: "nat \<Rightarrow> bytes \<Rightarrow> ('s, unit) io"
  tz_read :: "('s, nat \<times> bytes) io"
  tz_get_pin :: "pbval \<Rightarrow> ('s, nat list) io"
  tz_get_passphrase :: "bool \<Rightarrow> ('s, passphrase) io"
  tz_button_request :: "pbval \<Rightarrow> ('s, unit) io"
  tz_schema :: schema
  tz_mapping :: mapping
  tz_normalize :: "nat list \<Rightarrow> nat list"
  tz_models :: "TrezorModel list"

record 's trezor_client =
  tc_session_counter :: nat
  tc_session_id :: pbval
  tc_model :: "TrezorModel option"
  tc_features :: pbval
  tc_version :: "pbval list"
  tc_world :: 's

definition on_world :: "('s, 'a) io \<Rightarrow> ('s trezor_client, 'a) io" where
  "on_world m c = (case m (tc_world c) of (r, s) \<Rightarrow> (r, c\<lparr>tc_world := s\<rparr>))"

definition client_open :: "'s trezor \<Rightarrow> ('s trezor_client, unit) io" where
  "client_open tz c =
     io_bind (if tc_session_counter c = 0 then on_world (tz_begin_session tz) else io_ret ())
       (\<lambda>_ c. (Inr (), c\<lparr>tc_session_counter := tc_session_counter c + 1\<rparr>)) c"

definition client_close :: "'s trezor \<Rightarrow> ('s trezor_client, unit) io" where
  "client_close tz c =
     (let c = c\<lparr>tc_session_counter := tc_session_counter c - 1\<rparr> in
      (if tc_session_counter c = 0 then on_world (tz_end_session tz) else io_ret ()) c)"

text \<open>The session is closed whatever happens; an exception of closing wins. The decorator \<open>session\<close> opens it before.\<close>

definition closing :: "'s trezor \<Rightarrow> ('s trezor_client, 'a) io \<Rightarrow> ('s trezor_client, 'a) io" where
  "closing tz m c = (case m c of (r, c) \<Rightarrow> (case client_close tz c of (Inl e, c) \<Rightarrow> (Inl e, c) | (Inr _, c) \<Rightarrow> (r, c)))"

definition session :: "'s trezor \<Rightarrow> ('s trezor_client, 'a) io \<Rightarrow> ('s trezor_client, 'a) io" where
  "session tz m = io_bind (client_open tz) (\<lambda>_. closing tz m)"

definition raw_write :: "'s trezor \<Rightarrow> pbval \<Rightarrow> ('s trezor_client, unit) io" where
  "raw_write tz msg =
     io_bind (io_lift (mapping_encode (tz_schema tz) (tz_mapping tz) msg)) (\<lambda>(msg_type, msg_bytes).
     on_world (tz_write tz msg_type msg_bytes))"

definition raw_read :: "'s trezor \<Rightarrow> ('s trezor_client, pbval) io" where
  "raw_read tz =
     io_bind (on_world (tz_read tz)) (\<lambda>(msg_type, msg_bytes).
     io_lift (mapping_decode (tz_schema tz) (tz_mapping tz) msg_type msg_bytes))"

definition call_raw :: "'s trezor \<Rightarrow> pbval \<Rightarrow> ('s trezor_client, pbval) io" where
  "call_raw tz msg = io_bind (raw_write tz msg) (\<lambda>_. raw_read tz)"

text \<open>A message that ends the dialogue, before an exception.\<close>

definition cancel_and_raise :: "'s trezor \<Rightarrow> exn \<Rightarrow> ('s trezor_client, 'a) io" where
  "cancel_and_raise tz e = io_bind (call_raw tz (new_message ''Cancel'' [])) (\<lambda>_. io_fail e)"

text \<open>\<open>ask\<close> the user; when the user cancels, the device is told so.\<close>

definition ask :: "'s trezor \<Rightarrow> ('s, 'b) io \<Rightarrow> ('b \<Rightarrow> ('s trezor_client, 'a) io) \<Rightarrow> ('s trezor_client, 'a) io" where
  "ask tz m f c =
     (case on_world m c of
        (Inl e, c) \<Rightarrow> if e = Cancelled then cancel_and_raise tz Cancelled c else (Inl e, c)
      | (Inr x, c) \<Rightarrow> f x c)"

text \<open>The digits one to nine.\<close>

definition valid_pin :: "nat list \<Rightarrow> bool" where
  "valid_pin pin \<longleftrightarrow> (\<forall>d\<in>set pin. 49 \<le> d \<and> d \<le> 57) \<and> 1 \<le> length pin \<and> length pin \<le> MAX_PIN_LENGTH"

definition callback_pin :: "'s trezor \<Rightarrow> pbval \<Rightarrow> ('s trezor_client, pbval) io" where
  "callback_pin tz msg =
     io_bind (io_lift (get_attr msg ''type'')) (\<lambda>ty.
     ask tz (tz_get_pin tz ty) (\<lambda>pin.
     if \<not> valid_pin pin then cancel_and_raise tz (ValueErr ''Invalid PIN provided'')
     else
       io_bind (call_raw tz (new_message ''PinMatrixAck'' [(''pin'', PbStr pin)])) (\<lambda>resp.
       if is_a ''Failure'' resp then
         io_bind (io_lift (get_attr resp ''code'')) (\<lambda>code.
         if code \<in> {member FailureType_members ''PinInvalid'', member FailureType_members ''PinCancelled'',
              member FailureType_members ''PinExpected''}
         then io_bind (io_lift (get_attr resp ''message'')) (\<lambda>_. io_fail PinException)
         else io_ret resp)
       else io_ret resp)))"

definition send_passphrase :: "'s trezor \<Rightarrow> pbval \<Rightarrow> pbval \<Rightarrow> ('s trezor_client, pbval) io" where
  "send_passphrase tz passphrase on_device =
     io_bind (call_raw tz (new_message ''PassphraseAck'' [(''passphrase'', passphrase), (''on_device'', on_device)])) (\<lambda>resp.
     if is_a ''Deprecated_PassphraseStateRequest'' resp then
       io_bind (io_lift (get_attr resp ''state'')) (\<lambda>st.
       io_bind (\<lambda>c. (Inr (), c\<lparr>tc_session_id := st\<rparr>)) (\<lambda>_.
       call_raw tz (new_message ''Deprecated_PassphraseStateAck'' [])))
     else io_ret resp)"

definition callback_passphrase :: "'s trezor \<Rightarrow> pbval \<Rightarrow> ('s trezor_client, pbval) io" where
  "callback_passphrase tz msg =
     io_bind (\<lambda>c. (get_attr (tc_features c) ''capabilities'', c)) (\<lambda>capabilities.
     let available_on_device = (case capabilities of PbList vs \<Rightarrow> member Capability_members ''PassphraseEntry'' \<in> set vs | _ \<Rightarrow> False) in
     io_bind (io_lift (get_attr msg ''_on_device'')) (\<lambda>on_device.
     if on_device = PbBool True then send_passphrase tz PbNone PbNone
     else
       ask tz (tz_get_passphrase tz available_on_device) (\<lambda>passphrase.
       case passphrase of
         PASSPHRASE_ON_DEVICE \<Rightarrow>
           if \<not> available_on_device then cancel_and_raise tz (RuntimeErr ''Device is not capable of entering passphrase'')
           else send_passphrase tz PbNone (PbBool True)
       | Passphrase s \<Rightarrow>
           (let s = tz_normalize tz s in
            if MAX_PASSPHRASE_LENGTH < length s then cancel_and_raise tz (ValueErr ''Passphrase too long'')
            else send_passphrase tz (PbStr s) (PbBool False)))))"

definition callback_button :: "'s trezor \<Rightarrow> pbval \<Rightarrow> ('s trezor_client, pbval) io" where
  "callback_button tz msg =
     io_bind (raw_write tz (new_message ''ButtonAck'' [])) (\<lambda>_.
     io_bind (on_world (tz_button_request tz msg)) (\<lambda>_. raw_read tz))"

text \<open>Versions are compared part by part, up to the first part in which they differ.\<close>

fun tuple_less :: "pbval list \<Rightarrow> int list \<Rightarrow> bool result" where
  "tuple_less [] ys = Inr (ys \<noteq> [])"
| "tuple_less (x # xs) [] = Inr False"
| "tuple_less (x # xs) (y # ys) =
     (if number_of x = Inr y then tuple_less xs ys else res_bind (number_of x) (\<lambda>x. Inr (x < y)))"

definition is_outdated :: "'s trezor_client \<Rightarrow> bool result" where
  "is_outdated c =
     res_bind (get_attr (tc_features c) ''bootloader_mode'') (\<lambda>b.
     if truthy b then Inr False
     else (case tc_model c of None \<Rightarrow> Inl AssertionErr | Some m \<Rightarrow> tuple_less (tc_version c) (tm_minimum_version m)))"

definition check_firmware_version :: "('s trezor_client, unit) io" where
  "check_firmware_version c =
     (case is_outdated c of
        Inl e \<Rightarrow> (Inl e, c)
      | Inr outdated \<Rightarrow> (if outdated then Inl OutdatedFirmwareError else Inr (), c))"

text \<open>The requests of the device, as long as it has any. A device can go on forever, so the rounds are bounded here.\<close>

fun call_loop :: "nat \<Rightarrow> 's trezor \<Rightarrow> pbval \<Rightarrow> ('s trezor_client, pbval) io" where
  "call_loop fuel tz resp =
     (let again = (\<lambda>m. case fuel of 0 \<Rightarrow> io_fail OutOfFuel | Suc fuel \<Rightarrow> io_bind m (call_loop fuel tz)) in
      if is_a ''PinMatrixRequest'' resp then again (callback_pin tz resp)
      else if is_a ''PassphraseRequest'' resp then again (callback_passphrase tz resp)
      else if is_a ''ButtonRequest'' resp then again (callback_button tz resp)
      else if is_a ''Failure'' resp then
        io_bind (io_lift (get_attr resp ''code'')) (\<lambda>code.
        io_fail (if code = member FailureType_members ''ActionCancelled'' then Cancelled else TrezorFailure))
      else io_ret resp)"

declare call_loop.simps [simp del]

definition client_call :: "nat \<Rightarrow> 's trezor \<Rightarrow> pbval \<Rightarrow> bool \<Rightarrow> ('s trezor_client, pbval) io" where
  "client_call fuel tz msg check_fw =
     session tz
       (io_bind (if check_fw then check_firmware_version else io_ret ()) (\<lambda>_.
        io_bind (call_raw tz msg) (call_loop fuel tz)))"

section \<open>The device behind the client\<close>

text \<open>What the device tells of itself. The model is looked up unless it is known; an old version is only warned of.\<close>

definition known_model :: "'s trezor \<Rightarrow> pbval \<Rightarrow> ('s trezor_client, TrezorModel) io" where
  "known_model tz features c =
     (case tc_model c of
        Some m \<Rightarrow> (Inr m, c)
      | None \<Rightarrow>
          (case get_attr features ''model'' of
             Inl e \<Rightarrow> (Inl e, c)
           | Inr name \<Rightarrow>
               (case by_name (tz_models tz) (if truthy name then name else text_of ''1'') of
                  None \<Rightarrow> (Inl (RuntimeErr ''Unsupported Trezor model''), c)
                | Some m \<Rightarrow> (Inr m, c\<lparr>tc_model := Some m\<rparr>))))"

definition refresh_features_with :: "'s trezor \<Rightarrow> pbval \<Rightarrow> ('s trezor_client, unit) io" where
  "refresh_features_with tz features =
     io_bind (known_model tz features) (\<lambda>m.
     io_bind (io_lift (get_attr features ''vendor'')) (\<lambda>vendor.
     if vendor \<notin> text_of ` set (tm_vendors m) then io_fail (RuntimeErr ''Unsupported device'')
     else
       io_bind (\<lambda>c. (Inr (), c\<lparr>tc_features := features\<rparr>)) (\<lambda>_.
       io_bind (io_lift (res_map (get_attr features) [''major_version'', ''minor_version'', ''patch_version''])) (\<lambda>version.
       io_bind (\<lambda>c. (Inr (), c\<lparr>tc_version := version\<rparr>)) (\<lambda>_.
       io_bind (\<lambda>c. (case is_outdated c of Inl e \<Rightarrow> Inl e | Inr _ \<Rightarrow> Inr (), c)) (\<lambda>_.
       io_bind (io_lift (get_attr features ''session_id'')) (\<lambda>session_id.
       if session_id = PbNone then io_ret ()
       else (\<lambda>c. (Inr (), c\<lparr>tc_session_id := session_id, tc_features := set_attr ''session_id'' PbNone features\<rparr>)))))))))"

definition refresh_features :: "'s trezor \<Rightarrow> ('s trezor_client, pbval) io" where
  "refresh_features tz =
     session tz
       (io_bind (call_raw tz (new_message ''GetFeatures'' [])) (\<lambda>resp.
        if \<not> is_a ''Features'' resp then io_fail (TrezorException ''Unexpected response to GetFeatures'')
        else io_bind (refresh_features_with tz resp) (\<lambda>_ c. (Inr (tc_features c), c))))"

definition init_device :: "'s trezor \<Rightarrow> pbval \<Rightarrow> bool \<Rightarrow> pbval \<Rightarrow> ('s trezor_client, pbval) io" where
  "init_device tz session_id new_session derive_cardano =
     session tz
       (io_bind (\<lambda>c. (Inr (), if new_session then c\<lparr>tc_session_id := PbNone\<rparr>
            else if session_id \<noteq> PbNone then c\<lparr>tc_session_id := session_id\<rparr> else c)) (\<lambda>_.
        io_bind (\<lambda>c. call_raw tz (new_message ''Initialize''
            [(''session_id'', tc_session_id c), (''derive_cardano'', derive_cardano)]) c) (\<lambda>resp.
        if is_a ''Failure'' resp then io_fail TrezorFailure
        else if \<not> is_a ''Features'' resp then io_fail (TrezorException ''Unexpected response to Initialize'')
        else
          io_bind (io_lift (get_attr resp ''session_id'')) (\<lambda>reported_session_id.
          io_bind (refresh_features_with tz resp) (\<lambda>_. io_ret reported_session_id)))))"

definition client_lock :: "nat \<Rightarrow> 's trezor \<Rightarrow> bool \<Rightarrow> ('s trezor_client, unit) io" where
  "client_lock fuel tz refresh =
     session tz
       (io_bind (client_call fuel tz (new_message ''LockDevice'' []) True) (\<lambda>_.
        if refresh then io_bind (refresh_features tz) (\<lambda>_. io_ret ()) else io_ret ()))"

text \<open>A failure to end the session is passed over.\<close>

definition client_end_session :: "nat \<Rightarrow> 's trezor \<Rightarrow> ('s trezor_client, unit) io" where
  "client_end_session fuel tz =
     io_bind (io_catch
         (io_bind (\<lambda>c. (get_attr (tc_features c) ''bootloader_mode'', c)) (\<lambda>b.
            if truthy b then io_ret ()
            else io_bind (client_call fuel tz (new_message ''EndSession'' []) True) (\<lambda>_. io_ret ())))
         (\<lambda>e. e = TrezorFailure) (io_ret ())) (\<lambda>_ c.
     (Inr (), c\<lparr>tc_session_id := PbNone\<rparr>))"

definition clear_session :: "nat \<Rightarrow> 's trezor \<Rightarrow> ('s trezor_client, unit) io" where
  "clear_session fuel tz =
     session tz
       (io_bind (client_lock fuel tz False) (\<lambda>_.
        io_bind (client_end_session fuel tz) (\<lambda>_.
        io_bind (init_device tz PbNone True PbNone) (\<lambda>_. io_ret ()))))"

definition client_cancel :: "'s trezor \<Rightarrow> ('s trezor_client, unit) io" where
  "client_cancel tz = raw_write tz (new_message ''Cancel'' [])"

definition get_device_id :: "('s trezor_client, pbval) io" where
  "get_device_id c = (get_attr (tc_features c) ''device_id'', c)"

text \<open>A client before anything is sent, and the constructor, which initializes the device unless it is told not to.\<close>

definition unconnected :: "pbval \<Rightarrow> TrezorModel option \<Rightarrow> 's \<Rightarrow> 's trezor_client" where
  "unconnected session_id model s =
     \<lparr>tc_session_counter = 0, tc_session_id = session_id, tc_model = model, tc_features = PbNone, tc_version = [], tc_world = s\<rparr>"

definition TrezorClient :: "'s trezor \<Rightarrow> pbval \<Rightarrow> pbval \<Rightarrow> TrezorModel option \<Rightarrow> bool \<Rightarrow> ('s, 's trezor_client) io" where
  "TrezorClient tz session_id derive_cardano model init s =
     (case (if init then init_device tz session_id False derive_cardano else io_ret PbNone) (unconnected session_id model s) of
        (Inl e, c) \<Rightarrow> (Inl e, tc_world c)
      | (Inr _, c) \<Rightarrow> (Inr c, tc_world c))"

section \<open>Expected answers\<close>

text \<open>The decorator \<open>expect\<close>, and the text of a class in its exception.\<close>

definition class_text :: "string \<Rightarrow> string" where
  "class_text cls = ''<class '' @ [CHR 0x27] @ ''hwilib.devices.trezorlib.messages.'' @ cls @ [CHR 0x27] @ ''>''"

definition expect :: "string \<Rightarrow> string option \<Rightarrow> ('s, pbval) io \<Rightarrow> ('s, pbval) io" where
  "expect expected fld f =
     io_bind f (\<lambda>ret.
     if \<not> is_a expected ret
     then io_fail (RuntimeErr (''Got '' @ class_text (case ret of PbMsg c _ \<Rightarrow> c | _ \<Rightarrow> []) @ '', expected '' @ class_text expected))
     else (case fld of None \<Rightarrow> io_ret ret | Some name \<Rightarrow> io_lift (get_attr ret name)))"

text \<open>The session is closed even when it could not be opened.\<close>

definition ping :: "nat \<Rightarrow> 's trezor \<Rightarrow> pbval \<Rightarrow> pbval \<Rightarrow> ('s trezor_client, pbval) io" where
  "ping fuel tz msg button_protection =
     expect ''Success'' (Some ''message'')
       (if \<not> truthy button_protection then
          closing tz
            (io_bind (client_open tz) (\<lambda>_.
             io_bind (call_raw tz (new_message ''Ping'' [(''message'', msg)])) (\<lambda>resp.
             if is_a ''ButtonRequest'' resp then callback_button tz resp else io_ret resp)))
        else client_call fuel tz (new_message ''Ping'' [(''message'', msg), (''button_protection'', button_protection)]) True)"

end
