(* ===== verification/Trezor_Device.thy ===== *)
theory Trezor_Device
  imports Trezor_Client
begin

text \<open>
  \<open>hwilib/devices/trezorlib/device.py\<close>: the calls that change the settings of a Trezor device, and the dialogues that set
  it up or restore it. Randomness, time and the words a user types are parameters.
\<close>

section \<open>Settings\<close>

text \<open>A call after which the features are read again; the session is inside of the check of the answer.\<close>

definition call_and_refresh :: "nat \<Rightarrow> 's trezor \<Rightarrow> pbval \<Rightarrow> ('s trezor_client, pbval) io" where
  "call_and_refresh fuel tz msg =
     expect ''Success'' (Some ''message'')
       (session tz (io_bind (client_call fuel tz msg True) (\<lambda>out. io_bind (refresh_features tz) (\<lambda>_. io_ret out))))"

definition apply_settings :: "nat \<Rightarrow> 's trezor \<Rightarrow> (string \<times> pbval) list \<Rightarrow> ('s trezor_client, pbval) io" where
  "apply_settings fuel tz settings = call_and_refresh fuel tz (new_message ''ApplySettings'' settings)"

definition apply_flags :: "nat \<Rightarrow> 's trezor \<Rightarrow> pbval \<Rightarrow> ('s trezor_client, pbval) io" where
  "apply_flags fuel tz flags = call_and_refresh fuel tz (new_message ''ApplyFlags'' [(''flags'', flags)])"

definition change_pin :: "nat \<Rightarrow> 's trezor \<Rightarrow> pbval \<Rightarrow> ('s trezor_client, pbval) io" where
  "change_pin fuel tz remove = call_and_refresh fuel tz (new_message ''ChangePin'' [(''remove'', remove)])"

definition change_wipe_code :: "nat \<Rightarrow> 's trezor \<Rightarrow> pbval \<Rightarrow> ('s trezor_client, pbval) io" where
  "change_wipe_code fuel tz remove = call_and_refresh fuel tz (new_message ''ChangeWipeCode'' [(''remove'', remove)])"

definition sd_protect :: "nat \<Rightarrow> 's trezor \<Rightarrow> pbval \<Rightarrow> ('s trezor_client, pbval) io" where
  "sd_protect fuel tz operation = call_and_refresh fuel tz (new_message ''SdProtect'' [(''operation'', operation)])"

definition trezor_backup :: "nat \<Rightarrow> 's trezor \<Rightarrow> ('s trezor_client, pbval) io" where
  "trezor_backup fuel tz = call_and_refresh fuel tz (new_message ''BackupDevice'' [])"

definition trezor_wipe :: "nat \<Rightarrow> 's trezor \<Rightarrow> ('s trezor_client, pbval) io" where
  "trezor_wipe fuel tz =
     expect ''Success'' (Some ''message'')
       (session tz
         (io_bind (client_call fuel tz (new_message ''WipeDevice'' []) True) (\<lambda>ret.
          io_bind (init_device tz PbNone False PbNone) (\<lambda>_. io_ret ret))))"

definition cancel_authorization :: "nat \<Rightarrow> 's trezor \<Rightarrow> ('s trezor_client, pbval) io" where
  "cancel_authorization fuel tz =
     expect ''Success'' (Some ''message'') (client_call fuel tz (new_message ''CancelAuthorization'' []) True)"

definition reboot_to_bootloader :: "nat \<Rightarrow> 's trezor \<Rightarrow> ('s trezor_client, pbval) io" where
  "reboot_to_bootloader fuel tz =
     session tz (expect ''Success'' (Some ''message'') (client_call fuel tz (new_message ''RebootToBootloader'' []) True))"

section \<open>Setting up and restoring\<close>

definition feature :: "string \<Rightarrow> ('s trezor_client, pbval) io" where
  "feature name c = (get_attr (tc_features c) name, c)"

text \<open>Words, as long as the device asks for them; a user who gives up cancels.\<close>

fun recover_loop :: "nat \<Rightarrow> 's trezor \<Rightarrow> (pbval \<Rightarrow> ('s trezor_client, pbval) io) \<Rightarrow> pbval \<Rightarrow> ('s trezor_client, pbval) io" where
  "recover_loop fuel tz input_callback res =
     (if \<not> is_a ''WordRequest'' res then io_ret res
      else
        (case fuel of
           0 \<Rightarrow> io_fail OutOfFuel
         | Suc fuel \<Rightarrow>
             io_bind (io_catch
                 (io_bind (io_lift (get_attr res ''type'')) (\<lambda>ty.
                  io_bind (input_callback ty) (\<lambda>inp. client_call fuel tz (new_message ''WordAck'' [(''word'', inp)]) True)))
                 (\<lambda>e. e = Cancelled)
                 (client_call fuel tz (new_message ''Cancel'' []) True))
               (recover_loop fuel tz input_callback)))"

declare recover_loop.simps [simp del]

definition trezor_recover :: "nat \<Rightarrow> 's trezor \<Rightarrow> int \<Rightarrow> pbval \<Rightarrow> pbval \<Rightarrow> pbval \<Rightarrow> pbval \<Rightarrow>
    (pbval \<Rightarrow> ('s trezor_client, pbval) io) option \<Rightarrow> pbval \<Rightarrow> bool \<Rightarrow> pbval \<Rightarrow> ('s, int) io \<Rightarrow> ('s trezor_client, pbval) io" where
  "trezor_recover fuel tz word_count passphrase_protection pin_protection label language input_callback ty dry_run u2f_counter time =
     session tz
       (io_bind (feature ''model'') (\<lambda>model.
        if model = text_of ''1'' \<and> input_callback = None then io_fail (RuntimeErr ''Input callback required for Trezor One'')
        else if word_count \<notin> {12, 18, 24} then io_fail (ValueErr ''Invalid word count. Use 12/18/24'')
        else
          io_bind (feature ''initialized'') (\<lambda>initialized.
          if truthy initialized \<and> \<not> dry_run then io_fail (RuntimeErr ''Device already initialized. Call device.wipe() and try again.'')
          else
            io_bind (if u2f_counter = PbNone then io_bind (on_world time) (\<lambda>t. io_ret (PbInt t)) else io_ret u2f_counter) (\<lambda>u2f_counter.
            let msg = new_message ''RecoveryDevice''
                  [(''word_count'', PbInt word_count), (''enforce_wordlist'', PbBool True), (''type'', ty), (''dry_run'', PbBool dry_run)];
                msg = (if \<not> dry_run
                  then set_attr ''u2f_counter'' u2f_counter (set_attr ''language'' language (set_attr ''label'' label
                    (set_attr ''pin_protection'' pin_protection (set_attr ''passphrase_protection'' passphrase_protection msg))))
                  else msg) in
            io_bind (client_call fuel tz msg True) (\<lambda>res.
            io_bind (case input_callback of
                Some f \<Rightarrow> recover_loop fuel tz f res
              | None \<Rightarrow> if is_a ''WordRequest'' res then io_fail AssertionErr else io_ret res) (\<lambda>res.
            io_bind (init_device tz PbNone False PbNone) (\<lambda>_. io_ret res)))))))"

definition trezor_reset :: "nat \<Rightarrow> 's trezor \<Rightarrow> ('s, bytes) io \<Rightarrow> bool \<Rightarrow> pbval \<Rightarrow> bool \<Rightarrow> bool \<Rightarrow> pbval \<Rightarrow> pbval \<Rightarrow> pbval \<Rightarrow> bool \<Rightarrow> bool \<Rightarrow> pbval \<Rightarrow>
    ('s trezor_client, pbval) io" where
  "trezor_reset fuel tz urandom display_random strength passphrase_protection pin_protection label language u2f_counter
       skip_backup no_backup backup_type =
     expect ''Success'' (Some ''message'')
       (session tz
         (io_bind (feature ''initialized'') (\<lambda>initialized.
          if truthy initialized then io_fail (RuntimeErr ''Device is initialized already. Call wipe_device() and try again.'')
          else
            io_bind (if strength = PbNone
                then io_bind (feature ''model'') (\<lambda>model. io_ret (PbInt (if model = text_of ''1'' then 256 else 128)))
                else io_ret strength) (\<lambda>strength.
            io_bind (client_call fuel tz (new_message ''ResetDevice''
                [(''display_random'', PbBool display_random), (''strength'', strength),
                 (''passphrase_protection'', PbBool passphrase_protection), (''pin_protection'', PbBool pin_protection),
                 (''language'', language), (''label'', label), (''u2f_counter'', u2f_counter), (''skip_backup'', PbBool skip_backup),
                 (''no_backup'', PbBool no_backup), (''backup_type'', backup_type)]) True) (\<lambda>resp.
            if \<not> is_a ''EntropyRequest'' resp then io_fail (RuntimeErr ''Invalid response, expected EntropyRequest'')
            else
              io_bind (on_world urandom) (\<lambda>external_entropy.
              io_bind (client_call fuel tz (new_message ''EntropyAck'' [(''entropy'', PbBytes external_entropy)]) True) (\<lambda>ret.
              io_bind (init_device tz PbNone False PbNone) (\<lambda>_. io_ret ret))))))))"

end
