(* ===== verification/Trezor_Tools.thy ===== *)
theory Trezor_Tools
  imports Base58 Key Descriptor
begin

text \<open>
  \<open>hwilib/devices/trezorlib/tools.py\<close>: the library for Trezor devices has functions of its own for hashes, addresses,
  Base 58, derivation paths and the checksum of descriptors. What they have in common with those of HWI is proved here.
\<close>

section \<open>Hashes and addresses\<close>

definition tools_H :: "int \<Rightarrow> int" where
  "tools_H x = x OR 2 ^ 31"

definition btc_hash :: "crypto \<Rightarrow> bytes \<Rightarrow> bytes" where
  "btc_hash cr data = sha256 cr (sha256 cr data)"

definition tools_tx_hash :: "crypto \<Rightarrow> bytes \<Rightarrow> bytes" where
  "tools_tx_hash cr data = rev (btc_hash cr data)"

definition hash_160 :: "crypto \<Rightarrow> bytes \<Rightarrow> bytes" where
  "hash_160 cr public_key = ripemd160 cr (sha256 cr public_key)"

text \<open>\<open>bytes(n)\<close> of a number is \<open>n\<close> zeros.\<close>

definition compress_pubkey :: "bytes \<Rightarrow> bytes result" where
  "compress_pubkey public_key =
     res_bind (py_nth public_key 0) (\<lambda>header.
     if header = 4 then
       res_bind (py_nth public_key 64) (\<lambda>last_byte.
       Inr (replicate (unat (last_byte AND 1) + 2) 0 @ py_slice 1 33 public_key))
     else Inl (ValueErr ''Pubkey is already compressed''))"

section \<open>Base 58\<close>

definition b58chars :: string where
  "b58chars = ''123456789ABCDEFGHJKLMNPQRSTUVWXYZabcdefghijkmnopqrstuvwxyz''"

fun b58_while :: "nat \<Rightarrow> string \<Rightarrow> string" where
  "b58_while long_value res =
     (if 58 \<le> long_value then b58_while (long_value div 58) (b58chars ! (long_value mod 58) # res)
      else b58chars ! long_value # res)"

declare b58_while.simps [simp del]

definition b58encode :: "bytes \<Rightarrow> string" where
  "b58encode v =
     (let long_value = foldl (\<lambda>n c. n * 256 + unat c) 0 v;
          nPad = length (takeWhile (\<lambda>c. c = 0) v)
      in replicate nPad (b58chars ! 0) @ b58_while long_value [])"

definition b58_number :: "string \<Rightarrow> nat" where
  "b58_number s =
     sum_list (map (\<lambda>(i, c). (case list_index c b58chars of Some d \<Rightarrow> d | None \<Rightarrow> 0) * 58 ^ i) (enumerate 0 (rev s)))"

fun byte_while :: "nat \<Rightarrow> bytes \<Rightarrow> bytes" where
  "byte_while long_value res =
     (if 256 \<le> long_value then byte_while (long_value div 256) (of_nat (long_value mod 256) # res)
      else of_nat long_value # res)"

declare byte_while.simps [simp del]

definition b58decode :: "string \<Rightarrow> nat option \<Rightarrow> bytes result" where
  "b58decode s len =
     (if \<not> set s \<subseteq> set b58chars then Inl (ValueErr ''invalid Base58 string'')
      else
        (let nPad = length (takeWhile (\<lambda>c. c = b58chars ! 0) s);
             res = replicate nPad 0 @ byte_while (b58_number s) []
         in if len \<noteq> None \<and> len \<noteq> Some (length res) then Inl (ValueErr ''Result length does not match expected_length'')
            else Inr res))"

definition b58check_encode :: "crypto \<Rightarrow> bytes \<Rightarrow> string" where
  "b58check_encode cr v = (let checksum = take 4 (btc_hash cr v) in b58encode (v @ checksum))"

definition b58check_decode :: "crypto \<Rightarrow> string \<Rightarrow> nat option \<Rightarrow> bytes result" where
  "b58check_decode cr s len =
     res_bind (b58decode s len) (\<lambda>dec.
     let data = drop_end 4 dec; checksum = take_end 4 dec in
     if take 4 (btc_hash cr data) \<noteq> checksum then Inl (ValueErr ''invalid checksum'') else Inr data)"

definition hash_160_to_bc_address :: "crypto \<Rightarrow> bytes \<Rightarrow> int \<Rightarrow> string result" where
  "hash_160_to_bc_address cr h160 address_type =
     res_bind (pack_le 1 address_type) (\<lambda>p.
     let vh160 = p @ h160; h = btc_hash cr vh160; addr = vh160 @ take 4 h in Inr (b58encode addr))"

text \<open>A byte is compared with a character, so the key is never compressed.\<close>

definition public_key_to_bc_address :: "crypto \<Rightarrow> bytes \<Rightarrow> int \<Rightarrow> string result" where
  "public_key_to_bc_address cr public_key address_type =
     res_bind (py_nth public_key 0) (\<lambda>_. hash_160_to_bc_address cr (hash_160 cr public_key) address_type)"

section \<open>Derivation paths\<close>

definition tools_str_to_harden :: "string \<Rightarrow> int result" where
  "tools_str_to_harden x =
     (if prefix ''-'' x then res_bind (py_int x) (\<lambda>i. Inr (tools_H \<bar>i\<bar>))
      else if x \<noteq> [] \<and> (last x = CHR ''h'' \<or> last x = CHR 0x27) then res_bind (py_int (drop_end 1 x)) (\<lambda>i. Inr (tools_H i))
      else py_int x)"

text \<open>Every exception is replaced; the string is its second argument.\<close>

definition tools_parse_path :: "string \<Rightarrow> int list result" where
  "tools_parse_path nstr =
     (if nstr = [] then Inr []
      else
        (let n = py_split (CHR ''/'') nstr; n = (if hd n = ''m'' then tl n else n) in
         case res_map tools_str_to_harden n of
           Inr path \<Rightarrow> Inr path
         | Inl e \<Rightarrow> Inl (ValueErr (''Invalid BIP32 path, '' @ nstr))))"

section \<open>The checksum of descriptors\<close>

definition tools_polymod :: "int \<Rightarrow> int \<Rightarrow> int" where
  "tools_polymod c val =
     (let c0 = drop_bit 35 c;
          c = push_bit 5 (c AND 0x7FFFFFFFF) XOR val;
          c = (if c0 AND 1 \<noteq> 0 then c XOR 0xF5DEE51989 else c);
          c = (if c0 AND 2 \<noteq> 0 then c XOR 0xA9FDCA3312 else c);
          c = (if c0 AND 4 \<noteq> 0 then c XOR 0x1BAB10E32D else c);
          c = (if c0 AND 8 \<noteq> 0 then c XOR 0x3706B1677A else c);
          c = (if c0 AND 16 \<noteq> 0 then c XOR 0x644D626FFD else c)
      in c)"

definition tools_input_charset :: string where
  "tools_input_charset =
     ''0123456789()[],'' @ [CHR 0x27] @ ''/*abcdefgh@:$%{}IJKLMNOPQRSTUVWXYZ&+-.;<=>?!^_|~ijklmnopqrstuvwxyzABCDEFGH`#''
       @ [CHR 0x22, CHR 0x5C] @ '' ''"

definition tools_checksum_charset :: string where
  "tools_checksum_charset = ''qpzry9x8gf2tvdw0s3jn54khce6mua7l''"

fun tools_checksum_loop :: "string \<Rightarrow> int \<Rightarrow> int \<Rightarrow> nat \<Rightarrow> (int \<times> int \<times> nat) option" where
  "tools_checksum_loop [] c cls clscount = Some (c, cls, clscount)"
| "tools_checksum_loop (ch # desc) c cls clscount =
     (case list_index ch tools_input_charset of
        None \<Rightarrow> None
      | Some pos \<Rightarrow>
          let c = tools_polymod c (int pos AND 31);
              cls = cls * 3 + drop_bit 5 (int pos);
              clscount = clscount + 1
          in if clscount = 3 then tools_checksum_loop desc (tools_polymod c cls) 0 0
             else tools_checksum_loop desc c cls clscount)"

definition descriptor_checksum :: "string \<Rightarrow> string" where
  "descriptor_checksum desc =
     (case tools_checksum_loop desc 1 0 0 of
        None \<Rightarrow> []
      | Some (c, cls, clscount) \<Rightarrow>
          let c = (if 0 < clscount then tools_polymod c cls else c);
              c = foldl (\<lambda>c j. tools_polymod c 0) c [0..<8];
              c = c XOR 1
          in map (\<lambda>j. tools_checksum_charset ! nat (drop_bit (5 * (7 - j)) c AND 31)) [0..<8])"

section \<open>Agreement with the functions of HWI\<close>

lemma b58_while_digits: "0 < n \<Longrightarrow> b58_while n res = map b58_char (digs 58 n) @ res"
proof (induction n res rule: b58_while.induct)
  case (1 n res)
  show ?case
  proof (cases "58 \<le> n")
    case True
    then have "0 < n div 58" by (simp add: div_greater_zero_iff)
    with True 1 show ?thesis
      by (subst b58_while.simps, subst digs.simps) (simp add: b58_char_def b58_digits_def b58chars_def)
  next
    case False
    with 1 show ?thesis
      by (subst b58_while.simps, subst digs.simps) (simp add: b58_char_def b58_digits_def b58chars_def)
  qed
qed

lemma byte_while_bytes: "0 < n \<Longrightarrow> byte_while n res = min_bytes n @ res"
proof (induction n res rule: byte_while.induct)
  case (1 n res)
  show ?case
  proof (cases "256 \<le> n")
    case True
    then have "0 < n div 256" by (simp add: div_greater_zero_iff)
    with True 1 show ?thesis by (subst byte_while.simps) (simp add: min_bytes_def digs.simps [of 256 n])
  next
    case False
    with 1 show ?thesis by (subst byte_while.simps) (simp add: min_bytes_def digs.simps [of 256 n])
  qed
qed

lemma foldl_be_val: "foldl (\<lambda>n c. n * 256 + unat c) 0 v = be_val v"
  by (induction v rule: rev_induct) (simp_all add: be_val_append)

lemma b58_number_chars: "\<forall>d\<in>set ds. d < 58 \<Longrightarrow> b58_number (map b58_char ds) = bval 58 ds"
proof -
  assume ds: "\<forall>d\<in>set ds. d < 58"
  have "sum_list (map (\<lambda>(i, c). (case list_index c b58_digits of Some d \<Rightarrow> d | None \<Rightarrow> 0) * 58 ^ i) (enumerate 0 (rev (map b58_char ds)))) = bval 58 ds"
    using ds by (induction ds) (simp_all add: enumerate_append_eq bval_Cons)
  then show ?thesis by (simp add: b58_number_def b58chars_def b58_digits_def)
qed

lemma be_val_zero: "be_val v = 0 \<longleftrightarrow> set v \<subseteq> {0}"
  by (induction v) (auto simp: unat_eq_0)

text \<open>
  The two versions of Base 58 agree on every string of bytes with a byte that is not zero, in both directions. Zeros
  get one digit too many from the encoder, and one byte too many from the decoder.
\<close>

theorem trezor_base58:
  "b58encode v = (if set v \<subseteq> {0} then replicate (length v + 1) CHR ''1'' else b58_encode v)
   \<and> b58decode (b58_encode v) None = Inr (if set v \<subseteq> {0} then v @ [0] else v)"
proof -
  let ?pad = "length (takeWhile (\<lambda>c. c = 0) v)" and ?ds = "digs 58 (be_val v)"
  have one: "b58chars ! 0 = CHR ''1''" by (simp add: b58chars_def)
  have ds: "\<forall>d\<in>set ?ds. d < 58" by (simp add: digs_less)
  have ds_hd: "?ds = [] \<or> hd ?ds \<noteq> 0" using digs_hd [of 58 "be_val v"] by linarith
  have s: "b58_encode v = map b58_char (replicate ?pad 0 @ ?ds)" by (simp add: b58_encode_eq)
  have "CHR ''1'' \<in> set b58_digits" by (simp add: b58_digits_def)
  then have "set (b58_encode v) \<subseteq> set b58chars"
    using ds(1) unfolding s by (auto simp: b58_char_def b58chars_def [folded b58_digits_def] b58_digits_facts intro: nth_mem)
  moreover have "takeWhile (\<lambda>c. c = CHR ''1'') (b58_encode v) = replicate ?pad CHR ''1''"
    using ds ds_hd by (cases ?ds) (auto simp: b58_encode_eq takeWhile_append)
  moreover have "b58_number (b58_encode v) = be_val v"
    unfolding s using ds by (subst b58_number_chars) auto
  ultimately have dec: "b58decode (b58_encode v) None = Inr (replicate ?pad 0 @ byte_while (be_val v) [])"
    by (simp add: b58decode_def one)
  have enc: "b58encode v = replicate ?pad CHR ''1'' @ b58_while (be_val v) []"
    by (simp add: b58encode_def foldl_be_val one)
  show ?thesis
  proof (cases "set v \<subseteq> {0}")
    case True
    then have v: "v = replicate (length v) 0" by (auto intro: replicate_eqI)
    have pad: "?pad = length v" by (subst v) simp
    have "be_val v = 0" using True by (simp add: be_val_zero)
    then show ?thesis unfolding dec enc pad using True v
      by (simp add: b58_while.simps byte_while.simps one flip: replicate_append_same)
  next
    case False
    then have n: "0 < be_val v" using be_val_zero by auto
    then have "replicate ?pad 0 @ min_bytes (be_val v) = v"
      using min_bytes_be_val [OF hd_dropWhile_zero, of v] leading_zeros [of v] by (simp add: be_val_dropWhile)
    with n False show ?thesis unfolding dec enc by (simp add: b58_while_digits byte_while_bytes b58_encode_eq)
  qed
qed

text \<open>Paths: a multipath step is no number.\<close>

lemma py_int_angle: "\<exists>e. py_int (CHR ''<'' # cs) = Inl e"
proof -
  have "\<not> is_space CHR ''<''" by (simp add: is_space_def)
  then have "py_strip (CHR ''<'' # cs) = CHR ''<'' # rev (if list_all is_space cs then [] else dropWhile is_space (rev cs))"
    by (auto simp: py_strip_def dropWhile_append list_all_iff)
  then show ?thesis by (simp add: py_int_def digit_val_def)
qed

lemma py_int_nil: "\<exists>e. py_int [] = Inl e"
  by (simp add: py_int_def py_strip_def)

lemma tools_str_to_harden_eq: "tools_str_to_harden = str_to_harden"
  by (simp add: fun_eq_iff tools_str_to_harden_def str_to_harden_def ends_hardened_def tools_H_def harden_def HARDENED_FLAG_def)

lemma angle_no_number:
  assumes "prefix ''<'' x" shows "str_to_harden x \<noteq> Inr i"
proof -
  obtain cs where x: "x = CHR ''<'' # cs" using assms by (auto simp: prefix_def)
  have "drop_end 1 x = [] \<or> drop_end 1 x = CHR ''<'' # drop_end 1 cs" by (cases cs) (simp_all add: x drop_end_def)
  then show ?thesis using py_int_angle [of cs] py_int_angle [of "drop_end 1 cs"] py_int_nil
    by (auto simp: x str_to_harden_def)
qed

lemma parse_indices_single:
  "parse_indices False n False = Inr path \<longleftrightarrow> (\<exists>ps. res_map str_to_harden n = Inr ps \<and> path = map (\<lambda>i. [i]) ps)"
proof (induction n arbitrary: path)
  case (Cons x n)
  show ?case using angle_no_number [of x] by (auto simp: parse_index_def Cons ex_bool_eq)
qed auto

text \<open>
  The two parsers of derivation paths accept the same strings, with the same indexes.
\<close>

theorem trezor_parse_path: "tools_parse_path s = Inr path \<longleftrightarrow> parse_path s = Inr path"
proof -
  have "res_map (\<lambda>i. py_nth i 0) (map (\<lambda>i. [i]) ps) = Inr ps" for ps :: "int list"
    by (induction ps) (simp_all add: py_nth_def)
  then show ?thesis
    by (auto simp: tools_parse_path_def parse_path_def parse_path_str_def tools_str_to_harden_eq Let_def parse_indices_single
        split: sum.splits)
qed

lemma tools_checksum_loop_eq: "tools_checksum_loop desc c cls n = checksum_loop desc c cls n"
proof (induction desc c cls n rule: checksum_loop.induct)
  case (2 ch desc c cls n)
  have "tools_input_charset = INPUT_CHARSET" by (simp add: tools_input_charset_def INPUT_CHARSET_def)
  moreover have "tools_polymod = PolyMod" by (simp add: fun_eq_iff tools_polymod_def PolyMod_def)
  ultimately show ?case using 2 by (simp add: Let_def split: option.split)
qed simp

text \<open>
  The checksum of a descriptor is the same for the library as for HWI, whatever the string.
\<close>

theorem trezor_descriptor_checksum: "descriptor_checksum desc = DescriptorChecksum desc"
proof -
  have "tools_polymod = PolyMod" by (simp add: fun_eq_iff tools_polymod_def PolyMod_def)
  moreover have "foldl (\<lambda>c j. PolyMod c 0) c [0..<n] = foldl PolyMod c (replicate n 0)" for c n
    by (induction n) (simp_all flip: replicate_append_same)
  ultimately show ?thesis
    by (simp add: descriptor_checksum_def DescriptorChecksum_def tools_checksum_loop_eq tools_checksum_charset_def
        CHECKSUM_CHARSET_def Let_def del: upt_Suc split: option.split)
qed

end
