(* ===== verification/Trezor_Btc.thy ===== *)
theory Trezor_Btc
  imports Trezor_Client Trezor_Tools
begin

text \<open>
  \<open>hwilib/devices/trezorlib/btc.py\<close>: the calls for keys, addresses and signatures of messages, and the signing of a
  transaction, during which the device asks for the parts of the transaction.
\<close>

section \<open>Keys, addresses and messages\<close>

definition get_public_node :: "nat \<Rightarrow> 's trezor \<Rightarrow> pbval \<Rightarrow> pbval \<Rightarrow> pbval \<Rightarrow> pbval \<Rightarrow> pbval \<Rightarrow> pbval \<Rightarrow> ('s trezor_client, pbval) io" where
  "get_public_node fuel tz n ecdsa_curve_name show_display coin_name script_type ignore_xpub_magic =
     expect ''PublicKey'' None
       (client_call fuel tz (new_message ''GetPublicKey''
          [(''address_n'', n), (''ecdsa_curve_name'', ecdsa_curve_name), (''show_display'', show_display), (''coin_name'', coin_name),
           (''script_type'', script_type), (''ignore_xpub_magic'', ignore_xpub_magic)]) True)"

definition get_address :: "nat \<Rightarrow> 's trezor \<Rightarrow> pbval \<Rightarrow> pbval \<Rightarrow> pbval \<Rightarrow> pbval \<Rightarrow> pbval \<Rightarrow> pbval \<Rightarrow> ('s trezor_client, pbval) io" where
  "get_address fuel tz coin_name n show_display multisig script_type ignore_xpub_magic =
     expect ''Address'' (Some ''address'')
       (client_call fuel tz (new_message ''GetAddress''
          [(''address_n'', n), (''coin_name'', coin_name), (''show_display'', show_display), (''multisig'', multisig),
           (''script_type'', script_type), (''ignore_xpub_magic'', ignore_xpub_magic)]) True)"

definition get_ownership_id :: "nat \<Rightarrow> 's trezor \<Rightarrow> pbval \<Rightarrow> pbval \<Rightarrow> pbval \<Rightarrow> pbval \<Rightarrow> ('s trezor_client, pbval) io" where
  "get_ownership_id fuel tz coin_name n multisig script_type =
     expect ''OwnershipId'' (Some ''ownership_id'')
       (client_call fuel tz (new_message ''GetOwnershipId''
          [(''address_n'', n), (''coin_name'', coin_name), (''multisig'', multisig), (''script_type'', script_type)]) True)"

text \<open>A call that was authorized before is announced.\<close>

definition announce :: "bool \<Rightarrow> (pbval \<Rightarrow> ('s, pbval) io) \<Rightarrow> ('s, unit) io" where
  "announce preauthorized call =
     (if preauthorized
      then io_bind (call (new_message ''DoPreauthorized'' [])) (\<lambda>res.
        if \<not> is_a ''PreauthorizedRequest'' res then io_fail (TrezorException ''Unexpected message'') else io_ret ())
      else io_ret ())"

definition get_ownership_proof :: "nat \<Rightarrow> 's trezor \<Rightarrow> pbval \<Rightarrow> pbval \<Rightarrow> pbval \<Rightarrow> pbval \<Rightarrow> pbval \<Rightarrow> pbval \<Rightarrow> pbval \<Rightarrow> bool \<Rightarrow>
    ('s trezor_client, pbval \<times> pbval) io" where
  "get_ownership_proof fuel tz coin_name n multisig script_type user_confirmation ownership_ids commitment_data preauthorized =
     io_bind (announce preauthorized (\<lambda>msg. client_call fuel tz msg True)) (\<lambda>_.
     io_bind (client_call fuel tz (new_message ''GetOwnershipProof''
          [(''address_n'', n), (''coin_name'', coin_name), (''script_type'', script_type), (''multisig'', multisig),
           (''user_confirmation'', user_confirmation), (''ownership_ids'', ownership_ids), (''commitment_data'', commitment_data)]) True) (\<lambda>res.
     if \<not> is_a ''OwnershipProof'' res then io_fail (TrezorException ''Unexpected message'')
     else
       io_lift (res_bind (get_attr res ''ownership_proof'') (\<lambda>proof. res_bind (get_attr res ''signature'') (\<lambda>sig. Inr (proof, sig))))))"

text \<open>The normal form is Unicode's, which is a parameter.\<close>

definition normalize_nfc :: "(nat list \<Rightarrow> nat list) \<Rightarrow> pbval \<Rightarrow> bytes result" where
  "normalize_nfc nfc txt =
     res_bind (case txt of PbBytes b \<Rightarrow> utf8_decode b | PbStr s \<Rightarrow> Inr s | _ \<Rightarrow> Inl TypeErr) (\<lambda>str_txt. utf8_encode (nfc str_txt))"

definition sign_message :: "nat \<Rightarrow> 's trezor \<Rightarrow> (nat list \<Rightarrow> nat list) \<Rightarrow> pbval \<Rightarrow> pbval \<Rightarrow> pbval \<Rightarrow> pbval \<Rightarrow> pbval \<Rightarrow>
    ('s trezor_client, pbval) io" where
  "sign_message fuel tz nfc coin_name n message script_type no_script_type =
     expect ''MessageSignature'' None
       (io_bind (io_lift (normalize_nfc nfc message)) (\<lambda>m.
        client_call fuel tz (new_message ''SignMessage''
          [(''coin_name'', coin_name), (''address_n'', n), (''message'', PbBytes m), (''script_type'', script_type),
           (''no_script_type'', no_script_type)]) True))"

definition verify_message :: "nat \<Rightarrow> 's trezor \<Rightarrow> (nat list \<Rightarrow> nat list) \<Rightarrow> pbval \<Rightarrow> pbval \<Rightarrow> pbval \<Rightarrow> pbval \<Rightarrow>
    ('s trezor_client, bool) io" where
  "verify_message fuel tz nfc coin_name address signature message =
     io_catch
       (io_bind (io_lift (normalize_nfc nfc message)) (\<lambda>m.
        io_bind (client_call fuel tz (new_message ''VerifyMessage''
            [(''address'', address), (''signature'', signature), (''message'', PbBytes m), (''coin_name'', coin_name)]) True) (\<lambda>resp.
        io_ret (is_a ''Success'' resp))))
       (\<lambda>e. e = TrezorFailure) (io_ret False)"

definition authorize_coinjoin :: "nat \<Rightarrow> 's trezor \<Rightarrow> pbval \<Rightarrow> pbval \<Rightarrow> pbval \<Rightarrow> pbval \<Rightarrow> pbval \<Rightarrow> pbval \<Rightarrow> ('s trezor_client, pbval) io" where
  "authorize_coinjoin fuel tz coordinator max_total_fee n coin_name fee_per_anonymity script_type =
     expect ''Success'' (Some ''message'')
       (client_call fuel tz (new_message ''AuthorizeCoinJoin''
          [(''coordinator'', coordinator), (''max_total_fee'', max_total_fee), (''address_n'', n), (''coin_name'', coin_name),
           (''fee_per_anonymity'', fee_per_anonymity), (''script_type'', script_type)]) True)"

text \<open>\<open>client.py\<close> asks for an address to have the device unlocked.\<close>

definition PASSPHRASE_TEST_PATH :: pbval where
  "PASSPHRASE_TEST_PATH = (case tools_parse_path ''44h/1h/0h/0/0'' of Inr path \<Rightarrow> PbList (map PbInt path) | Inl e \<Rightarrow> PbNone)"

definition ensure_unlocked :: "nat \<Rightarrow> 's trezor \<Rightarrow> ('s trezor_client, unit) io" where
  "ensure_unlocked fuel tz =
     session tz
       (io_bind (get_address fuel tz (text_of ''Testnet'') PASSPHRASE_TEST_PATH (PbBool False) PbNone
            (member InputScriptType_members ''SPENDADDRESS'') (PbBool False)) (\<lambda>_.
        io_bind (refresh_features tz) (\<lambda>_. io_ret ())))"

section \<open>Signing a transaction\<close>

definition EXTERNAL :: pbval where "EXTERNAL = member InputScriptType_members ''EXTERNAL''"

abbreviation request_type :: "string \<Rightarrow> pbval" where
  "request_type \<equiv> member RequestType_members"

text \<open>A copy of a transaction with the counts of its parts in their place.\<close>

definition copy_tx_meta :: "pbval \<Rightarrow> pbval result" where
  "copy_tx_meta tx =
     res_bind (res_bind (get_attr tx ''inputs'') py_len) (\<lambda>inputs_cnt.
     res_bind (get_attr tx ''bin_outputs'') (\<lambda>bin_outputs.
     res_bind (get_attr tx ''outputs'') (\<lambda>outputs.
     res_bind (py_len (if truthy bin_outputs then bin_outputs else outputs)) (\<lambda>outputs_cnt.
     res_bind (get_attr tx ''extra_data'') (\<lambda>extra_data.
     res_bind (py_len (if truthy extra_data then extra_data else PbBytes [])) (\<lambda>extra_data_len.
     Inr (set_attr ''extra_data'' PbNone (set_attr ''extra_data_len'' (PbInt (int extra_data_len))
       (set_attr ''bin_outputs'' (PbList []) (set_attr ''outputs'' (PbList []) (set_attr ''outputs_cnt'' (PbInt (int outputs_cnt))
       (set_attr ''inputs'' (PbList []) (set_attr ''inputs_cnt'' (PbInt (int inputs_cnt)) tx)))))))))))))"

text \<open>A part of the signed transaction or a signature that comes with a request.\<close>

definition take_serialized :: "pbval \<Rightarrow> pbval list \<times> bytes \<Rightarrow> (pbval list \<times> bytes) result" where
  "take_serialized res = (\<lambda>(signatures, serialized_tx).
     res_bind (get_attr res ''serialized'') (\<lambda>ser.
     if \<not> truthy ser then Inr (signatures, serialized_tx)
     else
       res_bind (get_attr ser ''serialized_tx'') (\<lambda>part.
       res_bind (if truthy part then (case part of PbBytes b \<Rightarrow> Inr (serialized_tx @ b) | _ \<Rightarrow> Inl TypeErr) else Inr serialized_tx) (\<lambda>serialized_tx.
       res_bind (get_attr ser ''signature_index'') (\<lambda>idx.
       if idx = PbNone then Inr (signatures, serialized_tx)
       else
         res_bind (get_attr ser ''signature'') (\<lambda>sig.
         res_bind (position (length signatures) idx) (\<lambda>k.
         if signatures ! k \<noteq> PbNone
         then Inl (ValueErr (''Signature for index '' @ (case idx of PbInt n \<Rightarrow> show_int n | _ \<Rightarrow> []) @ '' already filled''))
         else Inr (signatures[k := sig], serialized_tx))))))))"

definition assert_given :: "pbval \<Rightarrow> pbval result" where
  "assert_given v = (if v = PbNone then Inl AssertionErr else Inr v)"

text \<open>The transaction a request is about: this one, or a previous one by its hash.\<close>

definition requested_tx :: "pbval \<Rightarrow> (bytes, pbval) dict \<Rightarrow> pbval \<Rightarrow> pbval result" where
  "requested_tx this_tx prev_txes details =
     res_bind (get_attr details ''tx_hash'') (\<lambda>tx_hash.
     if tx_hash = PbNone then Inr this_tx
     else
       (case tx_hash of
          PbBytes h \<Rightarrow>
            (case map_of prev_txes h of
               None \<Rightarrow> Inl (ValueErr (''Previous transaction '' @ hexlify h @ '' not available''))
             | Some tx \<Rightarrow> Inr tx)
        | _ \<Rightarrow> Inl AttributeError))"

text \<open>The part of it that is asked for, in an empty transaction.\<close>

definition empty_tx :: pbval where "empty_tx = new_message ''TransactionType'' []"

definition one_of :: "string \<Rightarrow> pbval \<Rightarrow> pbval \<Rightarrow> pbval result" where
  "one_of name tx i =
     res_bind (get_attr tx name) (\<lambda>vs. res_bind (get_item vs i) (\<lambda>v. Inr (set_attr name (PbList [v]) empty_tx)))"

definition requested_part :: "pbval \<Rightarrow> pbval \<Rightarrow> pbval \<Rightarrow> pbval result" where
  "requested_part ty details current_tx =
     (if ty = request_type ''TXMETA'' then copy_tx_meta current_tx
      else if ty = request_type ''TXINPUT'' \<or> ty = request_type ''TXORIGINPUT'' then
        res_bind (res_bind (get_attr details ''request_index'') assert_given) (one_of ''inputs'' current_tx)
      else if ty = request_type ''TXOUTPUT'' then
        res_bind (res_bind (get_attr details ''request_index'') assert_given) (\<lambda>i.
        res_bind (get_attr details ''tx_hash'') (\<lambda>tx_hash.
        one_of (if truthy tx_hash then ''bin_outputs'' else ''outputs'') current_tx i))
      else if ty = request_type ''TXORIGOUTPUT'' then
        res_bind (res_bind (get_attr details ''request_index'') assert_given) (one_of ''outputs'' current_tx)
      else if ty = request_type ''TXEXTRADATA'' then
        res_bind (res_bind (get_attr details ''extra_data_offset'') assert_given) (\<lambda>off.
        res_bind (res_bind (get_attr details ''extra_data_len'') assert_given) (\<lambda>len.
        res_bind (res_bind (get_attr current_tx ''extra_data'') assert_given) (\<lambda>extra_data.
        res_bind (number_of off) (\<lambda>off. res_bind (number_of len) (\<lambda>len.
        res_bind (get_slice extra_data off (off + len)) (\<lambda>d. Inr (set_attr ''extra_data'' d empty_tx)))))))
      else Inl (TrezorException (''Unknown request type - '' @ (case ty of PbInt n \<Rightarrow> show_int n | _ \<Rightarrow> ''None'') @ ''.'')))"

text \<open>One round: \<open>None\<close> when the device has finished, otherwise the answer to its request.\<close>

definition sign_step :: "pbval \<Rightarrow> (bytes, pbval) dict \<Rightarrow> pbval \<Rightarrow> pbval option result" where
  "sign_step this_tx prev_txes res =
     res_bind (get_attr res ''request_type'') (\<lambda>ty.
     if ty = request_type ''TXFINISHED'' then Inr None
     else
       res_bind (res_bind (get_attr res ''details'') assert_given) (\<lambda>details.
       res_bind (requested_tx this_tx prev_txes details) (\<lambda>current_tx.
       res_bind (requested_part ty details current_tx) (\<lambda>msg.
       Inr (Some (new_message ''TxAck'' [(''tx'', msg)]))))))"

text \<open>\<open>call\<close> is \<open>client.call\<close>. The loop returns the last message of the device with what was collected.\<close>

fun sign_loop :: "nat \<Rightarrow> (pbval \<Rightarrow> ('s, pbval) io) \<Rightarrow> pbval \<Rightarrow> (bytes, pbval) dict \<Rightarrow> pbval \<Rightarrow> pbval list \<times> bytes \<Rightarrow>
    ('s, pbval \<times> pbval list \<times> bytes) io" where
  "sign_loop fuel call this_tx prev_txes res collected =
     (if \<not> is_a ''TxRequest'' res then io_ret (res, collected)
      else
        io_bind (io_lift (take_serialized res collected)) (\<lambda>collected.
        io_bind (io_lift (sign_step this_tx prev_txes res)) (\<lambda>step.
        case step of
          None \<Rightarrow> io_ret (res, collected)
        | Some msg \<Rightarrow>
            (case fuel of
               0 \<Rightarrow> io_fail OutOfFuel
             | Suc fuel \<Rightarrow> io_bind (call msg) (\<lambda>res. sign_loop fuel call this_tx prev_txes res collected)))))"

declare sign_loop.simps [simp del]

text \<open>The request to sign, with the arguments that are attributes of its class.\<close>

definition sign_request :: "nat list \<Rightarrow> pbval list \<Rightarrow> pbval list \<Rightarrow> pbval option \<Rightarrow> (string \<times> pbval) list \<Rightarrow> pbval" where
  "sign_request coin_name inputs outputs details kwargs =
     (let counts = [(''coin_name'', PbStr coin_name), (''inputs_count'', PbInt (int (length inputs))), (''outputs_count'', PbInt (int (length outputs)))] in
      case details of
        Some d \<Rightarrow> foldl (\<lambda>d (n, v). set_attr n v d) d counts
      | None \<Rightarrow>
          foldl (\<lambda>d (n, v). case get_attr d n of Inl _ \<Rightarrow> d | Inr _ \<Rightarrow> set_attr n v d) (new_message ''SignTx'' counts) kwargs)"

definition missing_signature :: "pbval \<times> pbval \<Rightarrow> bool result" where
  "missing_signature = (\<lambda>(i, sig).
     res_bind (get_attr i ''script_type'') (\<lambda>ty. Inr (ty \<noteq> EXTERNAL \<and> sig = PbNone)))"

fun check_signatures :: "(pbval \<times> pbval) list \<Rightarrow> unit result" where
  "check_signatures [] = Inr ()"
| "check_signatures (p # ps) =
     res_bind (missing_signature p) (\<lambda>missing.
     if missing then Inl (TrezorException ''Some signatures are missing!'') else check_signatures ps)"

definition sign_tx_body :: "nat \<Rightarrow> (pbval \<Rightarrow> ('s, pbval) io) \<Rightarrow> nat list \<Rightarrow> pbval list \<Rightarrow> pbval list \<Rightarrow> pbval option \<Rightarrow>
    (bytes, pbval) dict \<Rightarrow> bool \<Rightarrow> (string \<times> pbval) list \<Rightarrow> ('s, pbval list \<times> bytes) io" where
  "sign_tx_body fuel call coin_name inputs outputs details prev_txes preauthorized kwargs =
     (let signtx = sign_request coin_name inputs outputs details kwargs in
      io_bind (announce preauthorized call) (\<lambda>_.
      io_bind (call signtx) (\<lambda>res.
      io_bind (io_lift (get_attr signtx ''version'')) (\<lambda>version.
      let this_tx = new_message ''TransactionType'' [(''inputs'', PbList inputs), (''outputs'', PbList outputs),
            (''inputs_cnt'', PbInt (int (length inputs))), (''outputs_cnt'', PbInt (int (length outputs))), (''version'', version)] in
      io_bind (sign_loop fuel call this_tx prev_txes res (replicate (length inputs) PbNone, [])) (\<lambda>(res, signatures, serialized_tx).
      if \<not> is_a ''TxRequest'' res then io_fail (TrezorException ''Unexpected message'')
      else io_bind (io_lift (check_signatures (zip inputs signatures))) (\<lambda>_. io_ret (signatures, serialized_tx)))))))"

definition sign_tx :: "nat \<Rightarrow> 's trezor \<Rightarrow> nat list \<Rightarrow> pbval list \<Rightarrow> pbval list \<Rightarrow> pbval option \<Rightarrow>
    (bytes, pbval) dict \<Rightarrow> bool \<Rightarrow> (string \<times> pbval) list \<Rightarrow> ('s trezor_client, pbval list \<times> bytes) io" where
  "sign_tx fuel tz coin_name inputs outputs details prev_txes preauthorized kwargs =
     session tz (sign_tx_body fuel (\<lambda>msg. client_call fuel tz msg True) coin_name inputs outputs details prev_txes preauthorized kwargs)"

end
