(* ===== verification/Trezor_Signing.thy ===== *)
theory Trezor_Signing
  imports Trezor_Btc Psbt Bech32
begin

text \<open>
  The pure part of \<open>sign_tx\<close> in \<open>hwilib/devices/trezor.py\<close>: what a Trezor device is told of the inputs, the outputs and
  the previous transactions of a PSBT, and how the signatures it returns are put into the PSBT.
\<close>

section \<open>Multisig scripts\<close>

definition HDNodeType :: "int \<Rightarrow> int \<Rightarrow> int \<Rightarrow> bytes \<Rightarrow> bytes \<Rightarrow> pbval" where
  "HDNodeType depth fingerprint child_num chain_code public_key =
     new_message ''HDNodeType'' [(''depth'', PbInt depth), (''fingerprint'', PbInt fingerprint), (''child_num'', PbInt child_num),
       (''chain_code'', PbBytes chain_code), (''public_key'', PbBytes public_key)]"

definition path_value :: "int list \<Rightarrow> pbval" where
  "path_value path = PbList (map PbInt path)"

definition HDNodePathType :: "pbval \<Rightarrow> int list \<Rightarrow> pbval" where
  "HDNodePathType node address_n = new_message ''HDNodePathType'' [(''node'', node), (''address_n'', path_value address_n)]"

text \<open>
  The extended key of the global map from which a key was derived, by the fingerprint and a prefix of the path; every
  extended key that is looked at must be readable.
\<close>

fun derived_node :: "crypto \<Rightarrow> (bytes, KeyOriginInfo) dict \<Rightarrow> KeyOriginInfo \<Rightarrow> pbval \<Rightarrow> pbval result" where
  "derived_node cr [] derivation node = Inr node"
| "derived_node cr ((xpub, origin) # tx_xpubs) derivation node =
     res_bind (xk_deserialize (b58_encode (xpub @ take 4 (hash256 cr xpub)))) (\<lambda>hd.
     if ko_fingerprint origin = ko_fingerprint derivation \<and> ko_path origin = take (length (ko_path origin)) (ko_path derivation)
     then Inr (HDNodePathType
       (HDNodeType (xk_depth hd) (int (be_val (xk_parent_fingerprint hd))) (xk_child_num hd) (xk_chaincode hd) (xk_pubkey hd))
       (drop (length (ko_path origin)) (ko_path derivation)))
     else derived_node cr tx_xpubs derivation node)"

definition multisig_node :: "crypto \<Rightarrow> (bytes, KeyOriginInfo) dict \<Rightarrow> (bytes, KeyOriginInfo) dict \<Rightarrow> bytes \<Rightarrow> pbval result" where
  "multisig_node cr tx_xpubs hd_keypaths key =
     (let node = HDNodePathType (HDNodeType 0 0 0 (replicate 32 0) key) [] in
      case map_of hd_keypaths key of
        None \<Rightarrow> Inr node
      | Some derivation \<Rightarrow> derived_node cr tx_xpubs derivation node)"

text \<open>The loop over the keys is that of the parser in \<open>_script.py\<close>.\<close>

definition trezor_parse_multisig :: "crypto \<Rightarrow> bytes \<Rightarrow> (bytes, KeyOriginInfo) dict \<Rightarrow> (bytes, KeyOriginInfo) dict \<Rightarrow> pbval option result" where
  "trezor_parse_multisig cr script tx_xpubs hd_keypaths =
     (if length script < 37 then Inr None
      else
        (let m = int (unat (script ! 0)) - 80 in
         if m < 1 \<or> 15 < m then Inr None
         else
           res_bind (multisig_keys script 1 []) (\<lambda>(pubkeys, offset).
           res_bind (py_nth script offset) (\<lambda>b.
           let n = int (unat b) - 80 in
           if n \<noteq> int (length pubkeys) then Inr None
           else
             res_bind (py_nth script (offset + 1)) (\<lambda>op_cms.
             if op_cms \<noteq> 174 then Inr None
             else
               res_bind (res_map (multisig_node cr tx_xpubs hd_keypaths) pubkeys) (\<lambda>pubkeys.
               Inr (Some (new_message ''MultisigRedeemScriptType''
                 [(''m'', PbInt m), (''signatures'', PbList (replicate (nat n) (PbBytes []))), (''pubkeys'', PbList pubkeys)]))))))))"

section \<open>Inputs\<close>

abbreviation spend :: "string \<Rightarrow> pbval" where
  "spend \<equiv> member InputScriptType_members"

definition ECDSA_SCRIPT_TYPES :: "pbval list" where
  "ECDSA_SCRIPT_TYPES = [spend ''SPENDADDRESS'', spend ''SPENDMULTISIG'', spend ''SPENDWITNESS'', spend ''SPENDP2SHWITNESS'']"

definition SCHNORR_SCRIPT_TYPES :: "pbval list" where
  "SCHNORR_SCRIPT_TYPES = [spend ''SPENDTAPROOT'']"

text \<open>The output that is spent, \<open>None\<close> when the PSBT does not tell.\<close>

definition spent_output :: "nat \<Rightarrow> int \<Rightarrow> PartiallySignedInput \<Rightarrow> CTxOut option result" where
  "spent_output input_num prev_out psbt_in =
     (case pi_non_witness_utxo psbt_in of
        None \<Rightarrow> Inr (pi_witness_utxo psbt_in)
      | Some tx \<Rightarrow>
          if Some (pi_prev_txid psbt_in) \<noteq> tx_hash tx
          then Inl (BadArgumentError (''Input '' @ show_nat input_num @ '' has a non_witness_utxo with the wrong hash''))
          else res_bind (py_index (vout tx) prev_out) (\<lambda>out. Inr (Some out)))"

text \<open>The script behind a hash, \<open>None\<close> when the PSBT does not have it, and whether there was a hash.\<close>

definition behind_hash :: "(bytes \<Rightarrow> bool) \<Rightarrow> bytes \<Rightarrow> bytes \<Rightarrow> (bytes \<times> bool) option" where
  "behind_hash is_hash inner scriptcode =
     (if is_hash scriptcode then (if length inner = 0 then None else Some (inner, True)) else Some (scriptcode, False))"

definition input_script_type :: "bool \<Rightarrow> int \<Rightarrow> bool \<Rightarrow> pbval \<Rightarrow> pbval" where
  "input_script_type is_wit wit_ver p2sh txin =
     (if is_wit then
        if wit_ver = 0 then set_attr ''script_type'' (spend (if p2sh then ''SPENDP2SHWITNESS'' else ''SPENDWITNESS'')) txin
        else if wit_ver = 1 then set_attr ''script_type'' (spend ''SPENDTAPROOT'') txin
        else txin
      else set_attr ''script_type'' (spend ''SPENDADDRESS'') txin)"

text \<open>What is found among the keys of an input: the path to sign with, whether a key of ours has signed, and so on.\<close>

record key_search =
  ks_address_n :: "int list option"
  ks_found_in_sigs :: bool
  ks_our_keys :: nat
  ks_path_last_ours :: "int list option"

fun ecdsa_search :: "bytes \<Rightarrow> (bytes, bytes) dict \<Rightarrow> (bytes, KeyOriginInfo) dict \<Rightarrow> key_search \<Rightarrow> key_search" where
  "ecdsa_search master_fp partial_sigs [] ks = ks"
| "ecdsa_search master_fp partial_sigs ((key, keypath) # hd_keypaths) ks =
     ecdsa_search master_fp partial_sigs hd_keypaths
       (if ko_fingerprint keypath = master_fp then
          let ks = ks\<lparr>ks_path_last_ours := Some (ko_path keypath)\<rparr> in
          if dict_has partial_sigs key then ks\<lparr>ks_found_in_sigs := True\<rparr>
          else ks\<lparr>ks_address_n := (case ks_address_n ks of None \<Rightarrow> Some (ko_path keypath) | Some p \<Rightarrow> Some p),
                  ks_our_keys := ks_our_keys ks + 1\<rparr>
        else ks)"

definition taproot_search :: "bytes \<Rightarrow> PartiallySignedInput \<Rightarrow> key_search" where
  "taproot_search master_fp psbt_in =
     (let ks = \<lparr>ks_address_n = None, ks_found_in_sigs = 0 < length (pi_tap_key_sig psbt_in), ks_our_keys = 0, ks_path_last_ours = None\<rparr> in
      case find (\<lambda>(key, leaf_hashes, origin). key = pi_tap_internal_key psbt_in \<and> ko_fingerprint origin = master_fp) (pi_tap_bip32_paths psbt_in) of
        None \<Rightarrow> ks
      | Some (key, leaf_hashes, origin) \<Rightarrow>
          ks\<lparr>ks_path_last_ours := Some (ko_path origin), ks_address_n := Some (ko_path origin), ks_our_keys := 1\<rparr>)"

definition key_search_of :: "bytes \<Rightarrow> PartiallySignedInput \<Rightarrow> pbval \<Rightarrow> key_search" where
  "key_search_of master_fp psbt_in script_type =
     (let none = \<lparr>ks_address_n = None, ks_found_in_sigs = False, ks_our_keys = 0, ks_path_last_ours = None\<rparr> in
      if script_type \<in> set ECDSA_SCRIPT_TYPES then ecdsa_search master_fp (pi_partial_sigs psbt_in) (pi_hd_keypaths psbt_in) none
      else if script_type \<in> set SCHNORR_SCRIPT_TYPES then taproot_search master_fp psbt_in
      else none)"

text \<open>An input that is signed for nothing: the device gets a path of its own, and the signature is ignored.\<close>

definition ignore_input :: "Chain \<Rightarrow> pbval \<Rightarrow> pbval" where
  "ignore_input chain txin =
     set_attr ''script_type'' (spend ''SPENDWITNESS'') (set_attr ''multisig'' PbNone
       (set_attr ''address_n'' (path_value [harden 84, harden (if chain = MAIN then 0 else 1), harden 0, 0, 0]) txin))"

text \<open>What an input becomes: the message, whether its signature is ignored, and the number of signatures it still needs.\<close>

type_synonym prepared = "pbval \<times> bool \<times> nat"

text \<open>Whether inputs of others are supported is asked only when there is one.\<close>

definition external_input :: "Chain \<Rightarrow> bool result \<Rightarrow> string \<Rightarrow> pbval \<Rightarrow> prepared result" where
  "external_input chain supports_external message txin =
     res_bind supports_external (\<lambda>s. if \<not> s then Inl (BadArgumentError message) else Inr (ignore_input chain txin, True, 0))"

definition choose_key :: "Chain \<Rightarrow> bool result \<Rightarrow> bytes \<Rightarrow> PartiallySignedInput \<Rightarrow> pbval \<Rightarrow> prepared result" where
  "choose_key chain supports_external master_fp psbt_in txin =
     res_bind (get_attr txin ''script_type'') (\<lambda>script_type.
     let ks = key_search_of master_fp psbt_in script_type in
     case ks_address_n ks of
       Some path \<Rightarrow> Inr (set_attr ''address_n'' (path_value path) txin, False, ks_our_keys ks)
     | None \<Rightarrow>
         if \<not> ks_found_in_sigs ks then external_input chain supports_external ''Cannot sign external inputs'' txin
         else (case ks_path_last_ours ks of
             None \<Rightarrow> Inl AssertionErr
           | Some path \<Rightarrow> Inr (set_attr ''address_n'' (path_value path) txin, True, ks_our_keys ks)))"

text \<open>The kind of the script decides whether a key of ours is looked for.\<close>

definition spend_input :: "Chain \<Rightarrow> bool result \<Rightarrow> bytes \<Rightarrow> PartiallySignedInput \<Rightarrow> bool \<Rightarrow> bool \<Rightarrow> bool \<Rightarrow> bytes \<Rightarrow> pbval option \<Rightarrow> pbval \<Rightarrow>
    prepared result" where
  "spend_input chain supports_external master_fp psbt_in utxo_is_p2sh is_wit p2wsh scriptcode multisig txin =
     (case multisig of
        Some ms \<Rightarrow>
          (let txin = set_attr ''multisig'' ms txin in
           if is_wit then choose_key chain supports_external master_fp psbt_in txin
           else if utxo_is_p2sh
           then choose_key chain supports_external master_fp psbt_in (set_attr ''script_type'' (spend ''SPENDMULTISIG'') txin)
           else external_input chain supports_external ''Cannot sign bare multisig'' txin)
      | None \<Rightarrow>
          if \<not> is_wit \<and> \<not> is_p2pkh scriptcode then external_input chain supports_external ''Cannot sign unknown scripts'' txin
          else if is_wit \<and> p2wsh then external_input chain supports_external ''Cannot sign unknown witness versions'' txin
          else choose_key chain supports_external master_fp psbt_in txin)"

definition prepare_input :: "crypto \<Rightarrow> Chain \<Rightarrow> bool result \<Rightarrow> bytes \<Rightarrow> (bytes, KeyOriginInfo) dict \<Rightarrow> nat \<Rightarrow> PartiallySignedInput \<Rightarrow>
    prepared option result" where
  "prepare_input cr chain supports_external master_fp xpubs input_num psbt_in =
     (case (pi_prev_out psbt_in, pi_sequence psbt_in) of
        (Some prev_out, Some sequence) \<Rightarrow>
          (let txin = new_message ''TxInputType'' [(''prev_hash'', PbBytes (rev (pi_prev_txid psbt_in))),
                 (''prev_index'', PbInt prev_out), (''sequence'', PbInt sequence)] in
           res_bind (spent_output input_num prev_out psbt_in) (\<lambda>utxo.
           case utxo of None \<Rightarrow> Inr None | Some utxo \<Rightarrow>
           case behind_hash is_p2sh (pi_redeem_script psbt_in) (scriptPubKey utxo) of None \<Rightarrow> Inr None | Some (scriptcode, p2sh) \<Rightarrow>
           case is_witness scriptcode of (is_wit, wit_ver, _) \<Rightarrow>
           let txin = set_attr ''amount'' (PbInt (nValue utxo)) (input_script_type is_wit wit_ver p2sh txin) in
           case behind_hash is_p2wsh (pi_witness_script psbt_in) scriptcode of None \<Rightarrow> Inr None | Some (scriptcode, p2wsh) \<Rightarrow>
           res_bind (trezor_parse_multisig cr scriptcode xpubs (pi_hd_keypaths psbt_in)) (\<lambda>multisig.
           res_bind (spend_input chain supports_external master_fp psbt_in (txout_is_p2sh utxo) is_wit p2wsh scriptcode multisig txin)
             (\<lambda>p. Inr (Some p)))))
      | _ \<Rightarrow> Inl AssertionErr)"

text \<open>The inputs for the device, the numbers of those whose signature is ignored, and the number of passes needed.\<close>

fun prepare_inputs :: "(nat \<Rightarrow> PartiallySignedInput \<Rightarrow> prepared option result) \<Rightarrow> nat \<Rightarrow> PartiallySignedInput list \<Rightarrow>
    pbval list \<times> nat list \<times> nat \<Rightarrow> (pbval list \<times> nat list \<times> nat) result" where
  "prepare_inputs prepare input_num [] acc = Inr acc"
| "prepare_inputs prepare input_num (psbt_in # ins) (inputs, to_ignore, passes) =
     res_bind (prepare input_num psbt_in) (\<lambda>p.
     prepare_inputs prepare (input_num + 1) ins
       (case p of
          None \<Rightarrow> (inputs, to_ignore, passes)
        | Some (txin, ignored, our_keys) \<Rightarrow>
            (inputs @ [txin], if ignored then to_ignore @ [input_num] else to_ignore, max passes our_keys)))"

section \<open>Outputs\<close>

abbreviation pay_to :: "string \<Rightarrow> pbval" where
  "pay_to \<equiv> member OutputScriptType_members"

text \<open>A change output has a path instead of its address.\<close>

definition change_output :: "string \<Rightarrow> int list \<Rightarrow> pbval \<Rightarrow> pbval" where
  "change_output script_type path txoutput =
     set_attr ''address'' PbNone (set_attr ''address_n'' (path_value path)
       (if script_type = [] then txoutput else set_attr ''script_type'' (pay_to script_type) txoutput))"

text \<open>One of the keys of an output that are ours; the second component is the variable \<open>wit\<close>, which the loop assigns.\<close>

definition change_step :: "CTxOut \<Rightarrow> PartiallySignedOutput \<Rightarrow> int list \<Rightarrow> pbval \<times> bool \<Rightarrow> pbval \<times> bool" where
  "change_step out psbt_out path = (\<lambda>(txoutput, _).
     let is_wit = fst (txout_is_witness out) in
     if txout_is_p2pkh out then (change_output [] path txoutput, is_wit)
     else if is_wit then (change_output ''PAYTOWITNESS'' path txoutput, is_wit)
     else if txout_is_p2sh out \<and> po_redeem_script psbt_out \<noteq> [] then
       (case txout_is_witness (txout_new 0 (po_redeem_script psbt_out)) of (is_wit, ver, prog) \<Rightarrow>
         (if is_wit \<and> length prog \<in> {20, 32} then change_output ''PAYTOP2SHWITNESS'' path txoutput else txoutput, is_wit))
     else (txoutput, is_wit))"

definition output_change :: "bytes \<Rightarrow> CTxOut \<Rightarrow> PartiallySignedOutput \<Rightarrow> pbval \<Rightarrow> pbval \<times> bool" where
  "output_change master_fp out psbt_out txoutput =
     (case txout_is_witness out of (is_wit, ver, prog) \<Rightarrow>
        if \<not> is_wit \<or> ver = 0 then
          foldl (\<lambda>acc (key, keypath). if ko_fingerprint keypath \<noteq> master_fp then acc else change_step out psbt_out (ko_path keypath) acc)
            (txoutput, is_wit) (po_hd_keypaths psbt_out)
        else if ver = 1 then
          (case find (\<lambda>(key, leaf_hashes, origin). key = po_tap_internal_key psbt_out \<and> ko_fingerprint origin = master_fp)
              (po_tap_bip32_paths psbt_out) of
             None \<Rightarrow> (txoutput, is_wit)
           | Some (key, leaf_hashes, origin) \<Rightarrow> (change_output ''PAYTOTAPROOT'' (ko_path origin) txoutput, is_wit))
        else (txoutput, is_wit))"

definition output_address :: "crypto \<Rightarrow> Chain \<Rightarrow> CTxOut \<Rightarrow> pbval \<Rightarrow> pbval result" where
  "output_address cr chain out txoutput =
     (let p2pkh_version = (if chain \<noteq> MAIN then [0x6f] else [0x00]);
          p2sh_version = (if chain \<noteq> MAIN then [0xc4] else [0x05]);
          bech32_hrp = (if chain \<noteq> MAIN then ''tb'' else ''bc'') in
      case txout_is_witness out of (is_wit, ver, prog) \<Rightarrow>
      if is_wit then
        res_bind (segwit_encode bech32_hrp ver prog) (\<lambda>address.
        Inr (set_attr ''address'' (case address of None \<Rightarrow> PbNone | Some a \<Rightarrow> text_of a) txoutput))
      else if txout_is_p2pkh out then Inr (set_attr ''address'' (text_of (to_address cr (py_slice 3 23 (scriptPubKey out)) p2pkh_version)) txoutput)
      else if txout_is_p2sh out then Inr (set_attr ''address'' (text_of (to_address cr (py_slice 2 22 (scriptPubKey out)) p2sh_version)) txoutput)
      else
        res_bind (txout_is_opreturn out) (\<lambda>opreturn.
        if opreturn then
          Inr (set_attr ''op_return_data'' (PbBytes (drop 2 (scriptPubKey out))) (set_attr ''script_type'' (pay_to ''PAYTOOPRETURN'') txoutput))
        else Inl (BadArgumentError ''Output is not an address'')))"

definition prepare_output :: "crypto \<Rightarrow> Chain \<Rightarrow> bytes \<Rightarrow> (bytes, KeyOriginInfo) dict \<Rightarrow> PartiallySignedOutput \<Rightarrow> pbval result" where
  "prepare_output cr chain master_fp xpubs psbt_out =
     res_bind (get_txout psbt_out) (\<lambda>out.
     let txoutput = set_attr ''script_type'' (pay_to ''PAYTOADDRESS'') (new_message ''TxOutputType'' [(''amount'', PbInt (nValue out))]) in
     res_bind (output_address cr chain out txoutput) (\<lambda>txoutput.
     case output_change master_fp out psbt_out txoutput of (txoutput, is_wit) \<Rightarrow>
     if po_witness_script psbt_out \<noteq> [] \<or> po_redeem_script psbt_out \<noteq> [] then
       res_bind (trezor_parse_multisig cr
           (if po_witness_script psbt_out \<noteq> [] then po_witness_script psbt_out else po_redeem_script psbt_out)
           xpubs (po_hd_keypaths psbt_out)) (\<lambda>multisig.
       Inr (case multisig of
          None \<Rightarrow> txoutput
        | Some ms \<Rightarrow>
            let txoutput = set_attr ''multisig'' ms txoutput in
            if \<not> is_wit then set_attr ''script_type'' (pay_to ''PAYTOMULTISIG'') txoutput else txoutput))
     else Inr txoutput))"

section \<open>Previous transactions\<close>

definition prev_input :: "CTxIn \<Rightarrow> pbval result" where
  "prev_input txin =
     res_bind (ser_uint256 (op_hash (prevout txin))) (\<lambda>h.
     Inr (new_message ''TxInputType'' [(''prev_hash'', PbBytes (rev h)), (''prev_index'', PbInt (op_n (prevout txin))),
       (''script_sig'', PbBytes (scriptSig txin)), (''sequence'', PbInt (nSequence txin))]))"

definition prev_output :: "CTxOut \<Rightarrow> pbval" where
  "prev_output out = new_message ''TxOutputBinType'' [(''amount'', PbInt (nValue out)), (''script_pubkey'', PbBytes (scriptPubKey out))]"

definition prev_tx :: "CTransaction \<Rightarrow> pbval result" where
  "prev_tx prev =
     res_bind (res_map prev_input (vin prev)) (\<lambda>ins.
     Inr (set_attr ''bin_outputs'' (PbList (map prev_output (vout prev))) (set_attr ''inputs'' (PbList ins)
       (set_attr ''lock_time'' (PbInt (nLockTime prev)) (set_attr ''version'' (PbInt (nVersion prev)) (new_message ''TransactionType'' []))))))"

definition add_prev_tx :: "PartiallySignedInput \<Rightarrow> (bytes, pbval) dict \<Rightarrow> (bytes, pbval) dict result" where
  "add_prev_tx psbt_in prevtxs =
     (case pi_non_witness_utxo psbt_in of
        None \<Rightarrow> Inr prevtxs
      | Some prev \<Rightarrow>
          res_bind (prev_tx prev) (\<lambda>t.
          case (tx_hash prev, tx_sha256 prev) of
            (Some h, Some sha) \<Rightarrow> res_bind (ser_uint256 sha) (\<lambda>s. Inr (AList.update (rev s) t prevtxs))
          | _ \<Rightarrow> Inl AssertionErr))"

section \<open>The signatures\<close>

text \<open>A signature is stored with the first key of ours that has none, and as the key path signature of a Taproot input.\<close>

definition store_signature :: "bytes \<Rightarrow> bytes \<Rightarrow> PartiallySignedInput \<Rightarrow> PartiallySignedInput" where
  "store_signature master_fp sig psbt_in =
     (let psbt_in = (case find (\<lambda>(pubkey, origin). ko_fingerprint origin = master_fp \<and> \<not> dict_has (pi_partial_sigs psbt_in) pubkey)
            (pi_hd_keypaths psbt_in) of
          None \<Rightarrow> psbt_in
        | Some (pubkey, origin) \<Rightarrow> psbt_in\<lparr>pi_partial_sigs := AList.update pubkey (sig @ [1]) (pi_partial_sigs psbt_in)\<rparr>) in
      if 0 < length (pi_tap_internal_key psbt_in) \<and> length (pi_tap_key_sig psbt_in) = 0 then psbt_in\<lparr>pi_tap_key_sig := sig\<rparr> else psbt_in)"

text \<open>The signatures come in the order of the inputs the device was given. One that is missing cannot be stored.\<close>

fun store_signatures :: "bytes \<Rightarrow> nat list \<Rightarrow> nat \<Rightarrow> PartiallySignedInput list \<Rightarrow> pbval list \<Rightarrow> PartiallySignedInput list result" where
  "store_signatures master_fp to_ignore input_num (psbt_in # ins) (sig # sigs) =
     res_bind (if input_num \<in> set to_ignore then Inr psbt_in
         else (case sig of PbBytes b \<Rightarrow> Inr (store_signature master_fp b psbt_in) | _ \<Rightarrow> Inl TypeErr)) (\<lambda>psbt_in.
     res_bind (store_signatures master_fp to_ignore (input_num + 1) ins sigs) (\<lambda>ins. Inr (psbt_in # ins)))"
| "store_signatures master_fp to_ignore input_num ins sigs = Inr ins"

section \<open>The device signs with the key the signature is stored for\<close>

abbreviation unsigned_key :: "bytes \<Rightarrow> (bytes, bytes) dict \<Rightarrow> bytes \<times> KeyOriginInfo \<Rightarrow> bool" where
  "unsigned_key master_fp partial_sigs \<equiv> \<lambda>(key, origin). ko_fingerprint origin = master_fp \<and> \<not> dict_has partial_sigs key"

lemma ecdsa_search_found:
  "ks_address_n (ecdsa_search master_fp partial_sigs kps ks) =
     (case ks_address_n ks of Some p \<Rightarrow> Some p
      | None \<Rightarrow> map_option (\<lambda>(key, origin). ko_path origin) (find (unsigned_key master_fp partial_sigs) kps))"
  "ks_our_keys (ecdsa_search master_fp partial_sigs kps ks) =
     ks_our_keys ks + length (filter (unsigned_key master_fp partial_sigs) kps)"
  by (induction master_fp partial_sigs kps ks rule: ecdsa_search.induct) (simp_all add: Let_def split: option.splits)

lemma get_attr_set_attr: "get_attr v n = Inr x \<Longrightarrow> get_attr (set_attr m y v) k = (if k = m then Inr y else get_attr v k)"
  by (auto simp: get_attr_def set_attr_def update_conv' split: pbval.splits option.splits)

lemma external_input_ignored [simp]: "external_input chain supports_external message txin \<noteq> Inr (txin', False, k)"
  by (simp add: external_input_def split: if_splits)

lemma spend_input_chosen:
  assumes "spend_input chain supports_external master_fp psbt_in u w p scriptcode multisig txin' = Inr (txin, False, k)"
  shows "\<exists>txin'. choose_key chain supports_external master_fp psbt_in txin' = Inr (txin, False, k)"
  using assms by (cases multisig) (auto simp: spend_input_def Let_def split: if_splits)

lemma prepare_input_spend:
  assumes "prepare_input cr chain supports_external master_fp xpubs n psbt_in = Inr (Some p)"
  shows "\<exists>u w ps scriptcode multisig txin. spend_input chain supports_external master_fp psbt_in u w ps scriptcode multisig txin = Inr p"
proof -
  obtain prev_out sq where io: "pi_prev_out psbt_in = Some prev_out" "pi_sequence psbt_in = Some sq"
    using assms by (auto simp: prepare_input_def split: option.splits)
  then obtain utxo where utxo: "spent_output n prev_out psbt_in = Inr (Some utxo)"
    using assms by (cases "spent_output n prev_out psbt_in") (auto simp: prepare_input_def Let_def split: option.splits)
  then obtain code p2sh where code: "behind_hash is_p2sh (pi_redeem_script psbt_in) (scriptPubKey utxo) = Some (code, p2sh)"
    using assms io by (cases "behind_hash is_p2sh (pi_redeem_script psbt_in) (scriptPubKey utxo)") (auto simp: prepare_input_def Let_def)
  obtain is_wit wit_ver prog where w: "is_witness code = (is_wit, wit_ver, prog)" by (cases "is_witness code")
  then obtain scriptcode p2wsh where "behind_hash is_p2wsh (pi_witness_script psbt_in) code = Some (scriptcode, p2wsh)"
    using assms io utxo code by (cases "behind_hash is_p2wsh (pi_witness_script psbt_in) code") (auto simp: prepare_input_def Let_def)
  with assms io utxo code w have "\<exists>ps multisig txin. spend_input chain supports_external master_fp psbt_in (txout_is_p2sh utxo) is_wit ps scriptcode multisig txin = Inr p"
    by (auto simp: prepare_input_def Let_def)
  then show ?thesis by blast
qed

lemma choose_key_found:
  assumes "choose_key chain supports_external master_fp psbt_in txin' = Inr (txin, False, k)"
  shows "\<exists>ty path. get_attr txin ''script_type'' = Inr ty \<and> get_attr txin ''address_n'' = Inr (path_value path)
    \<and> ks_address_n (key_search_of master_fp psbt_in ty) = Some path"
  using assms by (auto simp: choose_key_def Let_def get_attr_set_attr split: option.splits if_splits)

text \<open>
  C38: for an input that is not ignored and whose script type is one signed with ECDSA, the signature goes to the key the
  device signed with. The path the input is sent with is that of a key of the input with the fingerprint of the device and
  without a signature, and the signature that comes back is stored as the signature of this key and of no other, behind the
  signatures there were. (The path of an ignored input need not be that of such a key, and its signature is not stored; the
  signature of a Taproot input goes to the key path signature.)
\<close>

theorem trezor_signature_attribution:
  assumes "prepare_input cr chain supports_external master_fp xpubs n psbt_in = Inr (Some (txin, False, k))"
    and "get_attr txin ''script_type'' = Inr ty" and "ty \<in> set ECDSA_SCRIPT_TYPES"
  shows "\<exists>key origin. (key, origin) \<in> set (pi_hd_keypaths psbt_in) \<and> ko_fingerprint origin = master_fp
    \<and> \<not> dict_has (pi_partial_sigs psbt_in) key \<and> get_attr txin ''address_n'' = Inr (path_value (ko_path origin))
    \<and> pi_partial_sigs (store_signature master_fp sig psbt_in) = pi_partial_sigs psbt_in @ [(key, sig @ [1])]"
proof -
  obtain path where path: "get_attr txin ''address_n'' = Inr (path_value path)"
    and search: "ks_address_n (key_search_of master_fp psbt_in ty) = Some path"
    using prepare_input_spend [OF assms(1)] spend_input_chosen choose_key_found assms(2) by (metis Inr_inject)
  then obtain key origin where found: "find (unsigned_key master_fp (pi_partial_sigs psbt_in)) (pi_hd_keypaths psbt_in) = Some (key, origin)"
    and origin: "path = ko_path origin"
    using assms(3) by (auto simp: key_search_of_def ecdsa_search_found)
  then have "(key, origin) \<in> set (pi_hd_keypaths psbt_in)" "ko_fingerprint origin = master_fp" "\<not> dict_has (pi_partial_sigs psbt_in) key"
    by (auto simp: find_Some_iff in_set_conv_nth)
  moreover from this(3) have "AList.update key (sig @ [1]) (pi_partial_sigs psbt_in) = pi_partial_sigs psbt_in @ [(key, sig @ [1])]"
    by (simp add: update_fresh)
  ultimately show ?thesis using path origin found by (auto simp: store_signature_def Let_def)
qed

text \<open>An input with one key, which the driver looks at as an example.\<close>

definition sample_input :: PartiallySignedInput where
  "sample_input = psbt_input_new 2\<lparr>pi_witness_utxo := Some (txout_new 1000 ([0, 20] @ replicate 20 7)),
     pi_hd_keypaths := [([2, 1], \<lparr>ko_fingerprint = [1, 2, 3, 4], ko_path = [harden 84, 5]\<rparr>)],
     pi_prev_txid := replicate 32 9, pi_prev_out := Some 3, pi_sequence := Some 4294967295\<rparr>"

definition sample_message :: pbval where
  "sample_message = new_message ''TxInputType'' [(''address_n'', path_value [harden 84, 5]), (''prev_hash'', PbBytes (replicate 32 9)),
     (''prev_index'', PbInt 3), (''sequence'', PbInt 4294967295), (''script_type'', spend ''SPENDWITNESS''), (''amount'', PbInt 1000)]"

lemmas sample_eval = new_message_def class_lookup TxInputType_class_def Let_def field_def get_attr_def set_attr_def constructor_defaults_def
  member_def InputScriptType_members_def

lemma sample_prepared:
  "prepare_input cr chain se [1, 2, 3, 4] xpubs n sample_input = Inr (Some (sample_message, False, 1))"
  by (simp add: prepare_input_def sample_input_def psbt_input_new_def sample_message_def spent_output_def behind_hash_def is_p2sh_def
      is_p2wsh_def is_witness_def txout_new_def input_script_type_def trezor_parse_multisig_def spend_input_def choose_key_def
      key_search_of_def ECDSA_SCRIPT_TYPES_def dict_has_def path_value_def sample_eval)

lemma sample_script_type: "get_attr sample_message ''script_type'' = Inr (spend ''SPENDWITNESS'')"
  by (simp add: sample_message_def sample_eval)

theorem trezor_signature_attribution_witness:
  "\<exists>key origin. (key, origin) \<in> set (pi_hd_keypaths sample_input) \<and> ko_fingerprint origin = [1, 2, 3, 4]
    \<and> \<not> dict_has (pi_partial_sigs sample_input) key \<and> get_attr sample_message ''address_n'' = Inr (path_value (ko_path origin))
    \<and> pi_partial_sigs (store_signature [1, 2, 3, 4] [48] sample_input) = pi_partial_sigs sample_input @ [(key, [48] @ [1])]"
  by (rule trezor_signature_attribution [OF sample_prepared sample_script_type]) (simp add: ECDSA_SCRIPT_TYPES_def)

section \<open>Inputs and signatures are in the same order\<close>

text \<open>When no input is left out, the messages are those of the inputs, and the inputs that are ignored are the numbers noted.\<close>

lemma prepare_inputs_aligned:
  assumes "prepare_inputs prepare m ins (acc, ign, passes) = Inr (inputs, to_ignore, passes')"
    and "\<And>j. j < length ins \<Longrightarrow> prepare (m + j) (ins ! j) \<noteq> Inr None" and "\<forall>j\<in>set ign. j < m"
  shows "\<exists>new. inputs = acc @ new \<and> length new = length ins \<and> (\<forall>j<m. j \<in> set to_ignore \<longleftrightarrow> j \<in> set ign)
    \<and> (\<forall>j<length ins. \<exists>ignored our_keys. prepare (m + j) (ins ! j) = Inr (Some (new ! j, ignored, our_keys))
        \<and> (ignored \<longleftrightarrow> m + j \<in> set to_ignore))"
  using assms
proof (induction ins arbitrary: m acc ign passes)
  case Nil
  then show ?case by auto
next
  case (Cons i ins)
  from Cons.prems(1) Cons.prems(2) [of 0] obtain txin ignored our_keys
    where p: "prepare m i = Inr (Some (txin, ignored, our_keys))"
      and rest: "prepare_inputs prepare (m + 1) ins (acc @ [txin], if ignored then ign @ [m] else ign, max passes our_keys) = Inr (inputs, to_ignore, passes')"
    by (cases "prepare m i") (auto split: option.splits)
  have none_skipped: "prepare (m + 1 + j) (ins ! j) \<noteq> Inr None" if "j < length ins" for j
    using Cons.prems(2) [of "Suc j"] that by simp
  have ign: "\<forall>j\<in>set (if ignored then ign @ [m] else ign). j < m + 1" using Cons.prems(3) by auto
  obtain new where new: "inputs = (acc @ [txin]) @ new" "length new = length ins"
      "\<forall>j<m + 1. j \<in> set to_ignore \<longleftrightarrow> j \<in> set (if ignored then ign @ [m] else ign)"
      "\<forall>j<length ins. \<exists>ignored our_keys. prepare (m + 1 + j) (ins ! j) = Inr (Some (new ! j, ignored, our_keys))
        \<and> (ignored \<longleftrightarrow> m + 1 + j \<in> set to_ignore)"
    using Cons.IH [OF rest none_skipped ign] by blast
  have "\<exists>ignored our_keys. prepare (m + j) ((i # ins) ! j) = Inr (Some ((txin # new) ! j, ignored, our_keys)) \<and> (ignored \<longleftrightarrow> m + j \<in> set to_ignore)"
    if "j < length (i # ins)" for j
    using new(3, 4) p that Cons.prems(3) by (cases j) auto
  with new Cons.prems(3) show ?case by (intro exI [of _ "txin # new"]) auto
qed

text \<open>When an input is left out, the signature of the next one goes to it.\<close>

lemma skipped_input_shifts:
  assumes "prepare m psbt_in = Inr None" and "prepare (m + 1) psbt_in' = Inr (Some (txin, False, k))"
  shows "prepare_inputs prepare m [psbt_in, psbt_in'] ([], [], passes) = Inr ([txin], [], max passes k)"
    and "store_signatures master_fp [] m [psbt_in, psbt_in'] [PbBytes sig] = Inr [store_signature master_fp sig psbt_in, psbt_in']"
  using assms by simp_all

section \<open>Nothing but signatures is added\<close>

definition only_signed :: "PartiallySignedInput \<Rightarrow> PartiallySignedInput \<Rightarrow> bool" where
  "only_signed i i' \<longleftrightarrow> i' = i\<lparr>pi_partial_sigs := pi_partial_sigs i', pi_tap_key_sig := pi_tap_key_sig i'\<rparr>
     \<and> map_of (pi_partial_sigs i) \<subseteq>\<^sub>m map_of (pi_partial_sigs i') \<and> (pi_tap_key_sig i \<noteq> [] \<longrightarrow> pi_tap_key_sig i' = pi_tap_key_sig i)"

lemma only_signed_refl [simp, intro]: "only_signed i i"
  by (simp add: only_signed_def)

lemma only_signed_trans:
  assumes "only_signed i i'" and "only_signed i' i''" shows "only_signed i i''"
proof -
  have "i' = i\<lparr>pi_partial_sigs := pi_partial_sigs i', pi_tap_key_sig := pi_tap_key_sig i'\<rparr>"
    "i'' = i'\<lparr>pi_partial_sigs := pi_partial_sigs i'', pi_tap_key_sig := pi_tap_key_sig i''\<rparr>"
    using assms by (simp_all add: only_signed_def)
  then have "i'' = i\<lparr>pi_partial_sigs := pi_partial_sigs i'', pi_tap_key_sig := pi_tap_key_sig i''\<rparr>" by (cases i; cases i'; cases i'') simp
  with assms show ?thesis unfolding only_signed_def by (auto intro: map_le_trans)
qed

lemma update_new_le: "\<not> dict_has d k \<Longrightarrow> map_of d \<subseteq>\<^sub>m map_of (AList.update k v d)"
  by (auto simp: map_le_def update_conv' dict_has_def dom_map_of_conv_image_fst)

lemma store_signature_only: "only_signed i (store_signature master_fp sig i)"
  using update_new_le [of "pi_partial_sigs i"]
  by (auto simp: only_signed_def store_signature_def Let_def find_Some_iff split: option.splits)

lemma store_signatures_only:
  "store_signatures master_fp to_ignore n ins sigs = Inr ins' \<Longrightarrow> list_all2 only_signed ins ins'"
  by (induction master_fp to_ignore n ins sigs arbitrary: ins' rule: store_signatures.induct)
    (auto simp: store_signature_only list_all2_refl split: if_splits pbval.splits)

end
