(* ===== verification/Trezor_Driver.thy ===== *)
theory Trezor_Driver
  imports Trezor_Device Trezor_Signing Client
begin

text \<open>
  \<open>hwilib/devices/trezor.py\<close>: the driver for Trezor devices, on the client of \<open>Trezor_Client\<close>. It is the record of methods
  the commands use.
\<close>

section \<open>The user\<close>

text \<open>What the driver asks of the computer: lines of input, hidden or not, random bytes and the time.\<close>

record 's computer =
  cp_getpass :: "string \<Rightarrow> ('s, nat list) io"
  cp_input :: "('s, nat list) io"
  cp_urandom :: "('s, bytes) io"
  cp_time :: "('s, int) io"

text \<open>The object that answers for the user. \<open>ui_interactive\<close> is set when its method \<open>get_pin\<close> is replaced.\<close>

record PassphraseUI =
  ui_passphrase :: "nat list"
  ui_pinmatrix_shown :: bool
  ui_prompt_shown :: bool
  ui_always_prompt :: bool
  ui_return_passphrase :: bool
  ui_interactive :: bool

definition PassphraseUI_new :: "nat list \<Rightarrow> PassphraseUI" where
  "PassphraseUI_new passphrase =
     \<lparr>ui_passphrase = passphrase, ui_pinmatrix_shown = False, ui_prompt_shown = False, ui_always_prompt = False,
      ui_return_passphrase = True, ui_interactive = False\<rparr>"

text \<open>The world of the client is this object and the world outside.\<close>

type_synonym 's ui = "PassphraseUI \<times> 's"

definition outside :: "('s, 'a) io \<Rightarrow> ('s ui, 'a) io" where
  "outside m = (\<lambda>(ui, s). case m s of (r, s) \<Rightarrow> (r, ui, s))"

definition ui_button_request :: "('s ui, unit) io" where
  "ui_button_request = (\<lambda>(ui, s). (Inr (), if ui_always_prompt ui then ui else ui\<lparr>ui_prompt_shown := True\<rparr>, s))"

definition ui_get_passphrase :: "bool \<Rightarrow> ('s ui, passphrase) io" where
  "ui_get_passphrase available_on_device = (\<lambda>(ui, s).
     (if available_on_device then Inr PASSPHRASE_ON_DEVICE
      else if ui_return_passphrase ui then Inr (Passphrase (ui_passphrase ui))
      else Inl (ValueErr ''Passphrase from Host is not allowed for Trezor T''), ui, s))"

definition disallow_passphrase :: "('s ui, unit) io" where
  "disallow_passphrase = (\<lambda>(ui, s). (Inr (), ui\<lparr>ui_return_passphrase := False\<rparr>, s))"

definition pin_digits :: "nat list \<Rightarrow> bool" where
  "pin_digits pin \<longleftrightarrow> pin \<noteq> [] \<and> (\<forall>d\<in>set pin. 48 \<le> d \<and> d \<le> 57)"

text \<open>Lines until one is a number; the user may never give one, so the tries are bounded here.\<close>

fun ask_pin :: "nat \<Rightarrow> ('s, nat list) io \<Rightarrow> ('s, nat list) io" where
  "ask_pin 0 getpass = io_fail OutOfFuel"
| "ask_pin (Suc tries) getpass = io_bind getpass (\<lambda>pin. if \<not> pin_digits pin then ask_pin tries getpass else io_ret pin)"

definition interactive_get_pin :: "nat \<Rightarrow> 's computer \<Rightarrow> pbval \<Rightarrow> ('s, nat list) io" where
  "interactive_get_pin tries cp code =
     (let desc = (if code = member PinMatrixRequestType_members ''Current'' then ''current PIN''
        else if code = member PinMatrixRequestType_members ''NewFirst'' then ''new PIN''
        else if code = member PinMatrixRequestType_members ''NewSecond'' then ''new PIN again''
        else ''PIN'') in
      ask_pin tries (cp_getpass cp (''Please entire '' @ desc @ '':'' @ [CHR 10])))"

definition ui_get_pin :: "nat \<Rightarrow> 's computer \<Rightarrow> pbval \<Rightarrow> ('s ui, nat list) io" where
  "ui_get_pin tries cp code = (\<lambda>(ui, s).
     if ui_interactive ui then outside (interactive_get_pin tries cp code) (ui, s)
     else (Inl (OtherErr ''NotImplementedError: get_pin is not needed''), ui, s))"

text \<open>The transport of \<open>tz\<close> with the user that is this object.\<close>

definition with_ui :: "nat \<Rightarrow> 's computer \<Rightarrow> 's trezor \<Rightarrow> 's ui trezor" where
  "with_ui tries cp tz =
     \<lparr>tz_begin_session = outside (tz_begin_session tz), tz_end_session = outside (tz_end_session tz),
      tz_write = (\<lambda>ty bs. outside (tz_write tz ty bs)), tz_read = outside (tz_read tz),
      tz_get_pin = ui_get_pin tries cp, tz_get_passphrase = ui_get_passphrase, tz_button_request = (\<lambda>_. ui_button_request),
      tz_schema = tz_schema tz, tz_mapping = tz_mapping tz, tz_normalize = tz_normalize tz, tz_models = tz_models tz\<rparr>"

text \<open>The words for a recovery are passed on as they are typed; anything but an answer cancels.\<close>

definition mnemonic_words :: "'s computer \<Rightarrow> pbval \<Rightarrow> ('s ui trezor_client, pbval) io" where
  "mnemonic_words cp ty =
     (if ty \<noteq> member WordRequestType_members ''Plain'' then io_fail AssertionErr
      else io_catch (io_bind (on_world (outside (cp_input cp))) (\<lambda>word. io_ret (PbStr word))) (\<lambda>e. True) (io_fail Cancelled))"

section \<open>The driver\<close>

text \<open>The parameters of the driver: the bounds on dialogues, what the libraries compute, and the world outside.\<close>

record 's trezor_host =
  th_fuel :: nat
  th_cr :: crypto
  th_nfc :: "nat list \<Rightarrow> nat list"
  th_computer :: "'s computer"
  th_trezor :: "'s ui trezor"

record 's trezor_device =
  td_client :: "'s ui trezor_client"
  td_chain :: Chain
  td_coin_name :: "nat list"
  td_password :: "nat list option"
  td_simulator :: bool
  td_type :: string

abbreviation fuel_of :: "'s trezor_host \<Rightarrow> nat" where "fuel_of \<equiv> th_fuel"

definition on_trezor :: "('s ui trezor_client, 'a) io \<Rightarrow> ('s trezor_device, 'a) io" where
  "on_trezor m d = (case m (td_client d) of (r, c) \<Rightarrow> (r, d\<lparr>td_client := c\<rparr>))"

definition on_ui :: "('s ui, 'a) io \<Rightarrow> ('s trezor_device, 'a) io" where
  "on_ui m = on_trezor (on_world m)"

definition USBErrorNoDevice :: exn where "USBErrorNoDevice = OtherErr ''USBErrorNoDevice''"

text \<open>The decorator of the methods.\<close>

definition trezor_exception :: "string \<Rightarrow> ('s, 'a) io \<Rightarrow> ('s, 'a) io" where
  "trezor_exception name f s =
     (case f s of
        (Inl e, s) \<Rightarrow>
          (Inl (case e of
             ValueErr msg \<Rightarrow> BadArgumentError msg
           | _ \<Rightarrow> if e = Cancelled then ActionCanceledError (name @ '' canceled'')
               else if e = USBErrorNoDevice then DeviceConnectionError ''Device disconnected''
               else e), s)
      | (Inr x, s) \<Rightarrow> (Inr x, s))"

text \<open>The transport is found already; a path of a simulator is not modelled.\<close>

definition trezor_device_new :: "nat list option \<Rightarrow> Chain \<Rightarrow> TrezorModel option \<Rightarrow> 's \<Rightarrow> 's trezor_device" where
  "trezor_device_new password chain model s =
     (let password = (case password of None \<Rightarrow> [] | Some p \<Rightarrow> p) in
      \<lparr>td_client = unconnected PbNone model (PassphraseUI_new password, s), td_chain = chain, td_coin_name = [],
       td_password = Some password, td_simulator = False, td_type = ''Trezor''\<rparr>)"

definition codes :: "string \<Rightarrow> nat list" where "codes s = map of_char s"

definition set_coin_name :: "('s trezor_device, unit) io" where
  "set_coin_name d = (Inr (), d\<lparr>td_coin_name := codes (if td_chain d = MAIN then ''Bitcoin'' else ''Testnet'')\<rparr>)"

definition prepare_device :: "'s trezor_host \<Rightarrow> ('s trezor_device, unit) io" where
  "prepare_device th =
     io_bind set_coin_name (\<lambda>_.
     io_bind (on_trezor (refresh_features (th_trezor th))) (\<lambda>resp.
     io_bind (io_lift (get_attr resp ''model'')) (\<lambda>model.
     let init = io_bind (on_trezor (init_device (th_trezor th) PbNone False PbNone)) (\<lambda>_. io_ret ()) in
     if model \<in> {text_of ''1'', text_of ''K1-14AM''} then init
     else io_catch (on_trezor (ensure_unlocked (fuel_of th) (th_trezor th))) (\<lambda>e. e = TrezorFailure) init)))"

definition device_feature :: "string \<Rightarrow> ('s trezor_device, pbval) io" where
  "device_feature name = on_trezor (feature name)"

definition check_unlocked :: "'s trezor_host \<Rightarrow> ('s trezor_device, unit) io" where
  "check_unlocked th =
     io_bind (prepare_device th) (\<lambda>_.
     io_bind (device_feature ''capabilities'') (\<lambda>capabilities.
     io_bind (if (case capabilities of PbList vs \<Rightarrow> member Capability_members ''PassphraseEntry'' \<in> set vs | _ \<Rightarrow> False)
         then on_ui disallow_passphrase else io_ret ()) (\<lambda>_.
     io_bind (device_feature ''pin_protection'') (\<lambda>pin_protection.
     io_bind (device_feature ''unlocked'') (\<lambda>unlocked.
     if truthy pin_protection \<and> \<not> truthy unlocked
     then (\<lambda>d. (Inl (DeviceNotReadyError (td_type d @ '' is locked. Unlock by using '' @ [CHR 0x27] @ ''promptpin'' @ [CHR 0x27]
       @ '' and then '' @ [CHR 0x27] @ ''sendpin'' @ [CHR 0x27] @ ''.'')), d))
     else
       io_bind (device_feature ''passphrase_protection'') (\<lambda>passphrase_protection d.
       if truthy passphrase_protection \<and> td_password d = None
       then (Inl (NoPasswordError ''Passphrase protection is enabled, passphrase must be provided''), d)
       else (Inr (), d)))))))"

text \<open>Comparison of versions: the first part that differs decides.\<close>

fun tuple_le :: "pbval list \<Rightarrow> int list \<Rightarrow> bool result" where
  "tuple_le [] ys = Inr True"
| "tuple_le (x # xs) [] = Inr False"
| "tuple_le (x # xs) (y # ys) =
     (if number_of x = Inr y then tuple_le xs ys else res_bind (number_of x) (\<lambda>x. Inr (x \<le> y)))"

definition version_at_least :: "pbval list \<Rightarrow> int list \<Rightarrow> bool result" where
  "version_at_least version v = res_bind (tuple_less version v) (\<lambda>less. Inr (\<not> less))"

definition supports_external :: "'s trezor_device \<Rightarrow> bool result" where
  "supports_external d =
     (let version = tc_version (td_client d) in
      res_bind (get_attr (tc_features (td_client d)) ''model'') (\<lambda>model.
      res_bind (if model = text_of ''1'' then tuple_le version [1, 10, 5] else Inr False) (\<lambda>old_one.
      if old_one then Inr True
      else
        res_bind (if model = text_of ''T'' then tuple_le version [2, 4, 3] else Inr False) (\<lambda>old_t.
        if old_t then Inr True else Inr (model = text_of ''K1-14AM'')))))"

section \<open>Keys\<close>

text \<open>The text of an extended key; a character outside Base 58 is refused where the text is read.\<close>

definition ascii_text :: "pbval \<Rightarrow> string result" where
  "ascii_text v =
     (case v of
        PbStr s \<Rightarrow> if \<forall>c\<in>set s. c < 128 then Inr (map char_of s) else Inl (BadArgumentError ''Character is not a valid base58 character'')
      | _ \<Rightarrow> Inl TypeErr)"

definition public_node :: "'s trezor_host \<Rightarrow> int list \<Rightarrow> nat list \<Rightarrow> ('s trezor_device, string) io" where
  "public_node th path coin_name =
     io_bind (on_trezor (get_public_node (fuel_of th) (th_trezor th) (path_value path) PbNone (PbBool False) (PbStr coin_name)
         (spend ''SPENDADDRESS'') (PbBool False))) (\<lambda>output.
     io_lift (res_bind (get_attr output ''xpub'') ascii_text))"

definition trezor_pubkey_at_path :: "'s trezor_host \<Rightarrow> string \<Rightarrow> ('s trezor_device, ExtendedKey) io" where
  "trezor_pubkey_at_path th path =
     trezor_exception ''get_pubkey_at_path''
       (io_bind (check_unlocked th) (\<lambda>_.
        io_bind (io_lift (case parse_path path of Inl (ValueErr msg) \<Rightarrow> Inl (BadArgumentError msg) | r \<Rightarrow> r)) (\<lambda>expanded_path d.
        io_bind (public_node th expanded_path (td_coin_name d)) (\<lambda>xpub.
        io_bind (io_lift (xk_deserialize xpub)) (\<lambda>k d.
        (Inr (if td_chain d \<noteq> MAIN then k\<lparr>xk_version := TESTNET_PUBLIC\<rparr> else k), d))) d)))"

section \<open>Signing\<close>

text \<open>One pass over the inputs; the number of passes grows to the number of signatures an input needs.\<close>

definition sign_pass :: "'s trezor_host \<Rightarrow> bytes \<Rightarrow> nat \<Rightarrow> PSBT \<Rightarrow> ('s trezor_device, nat \<times> PSBT) io" where
  "sign_pass th master_fp passes psbt d =
     io_bind (io_lift (prepare_inputs
         (prepare_input (th_cr th) (td_chain d) (supports_external d) master_fp (ps_xpub psbt)) 0 (ps_inputs psbt) ([], [], passes)))
       (\<lambda>(inputs, to_ignore, passes).
     io_bind (io_lift (res_map (prepare_output (th_cr th) (td_chain d) master_fp (ps_xpub psbt)) (ps_outputs psbt))) (\<lambda>outputs.
     io_bind (io_lift (res_fold add_prev_tx (ps_inputs psbt) [])) (\<lambda>prevtxs.
     io_bind (io_lift (case ps_tx_version psbt of None \<Rightarrow> Inl AssertionErr | Some v \<Rightarrow> Inr v)) (\<lambda>version.
     io_bind (io_lift (compute_lock_time psbt)) (\<lambda>lock_time.
     io_bind (on_trezor (sign_tx (fuel_of th) (th_trezor th) (td_coin_name d) inputs outputs None prevtxs False
         [(''version'', PbInt version), (''lock_time'', PbInt lock_time), (''serialize'', PbBool False)])) (\<lambda>signed_tx.
     io_bind (io_lift (store_signatures master_fp to_ignore 0 (ps_inputs psbt) (fst signed_tx))) (\<lambda>ins.
     io_ret (passes, psbt\<lparr>ps_inputs := ins\<rparr>)))))))) d"

fun sign_passes :: "nat \<Rightarrow> 's trezor_host \<Rightarrow> bytes \<Rightarrow> nat \<Rightarrow> nat \<Rightarrow> PSBT \<Rightarrow> ('s trezor_device, PSBT) io" where
  "sign_passes 0 th master_fp p passes psbt = (if p < passes then io_fail OutOfFuel else io_ret psbt)"
| "sign_passes (Suc n) th master_fp p passes psbt =
     (if p < passes then io_bind (sign_pass th master_fp passes psbt) (\<lambda>(passes, psbt). sign_passes n th master_fp (p + 1) passes psbt)
      else io_ret psbt)"

text \<open>More passes than an input has keys are never needed.\<close>

definition pass_bound :: "PSBT \<Rightarrow> nat" where
  "pass_bound psbt = foldr max (map (\<lambda>i. length (pi_hd_keypaths i)) (ps_inputs psbt)) 1"

definition trezor_sign_psbt :: "'s trezor_host \<Rightarrow> PSBT \<Rightarrow> RegisteredDescriptor list \<Rightarrow> ('s trezor_device, PSBT) io" where
  "trezor_sign_psbt th psbt registered_descriptors =
     trezor_exception ''sign_tx''
       (if registered_descriptors \<noteq> [] then io_fail (UnavailableActionError ''The Trezor does not support BIP388 policy signing'')
        else
          io_bind (check_unlocked th) (\<lambda>_.
          io_bind (public_node th [0x80000000] (codes ''Bitcoin'')) (\<lambda>master_key.
          io_bind (io_lift (get_xpub_fingerprint master_key)) (\<lambda>master_fp.
          sign_passes (pass_bound psbt) th master_fp 0 1 psbt))))"

definition trezor_sign_message :: "'s trezor_host \<Rightarrow> string \<Rightarrow> string \<Rightarrow> ('s trezor_device, string) io" where
  "trezor_sign_message th message keypath =
     trezor_exception ''sign_message''
       (io_bind (check_unlocked th) (\<lambda>_.
        io_bind (io_lift (parse_path keypath)) (\<lambda>path d.
        io_bind (on_trezor (sign_message (fuel_of th) (th_trezor th) (th_nfc th) (PbStr (td_coin_name d)) (path_value path)
            (PbStr (codes message)) (spend ''SPENDADDRESS'') (PbBool False))) (\<lambda>res.
        io_lift (res_bind (get_attr res ''signature'') (\<lambda>sig. case sig of PbBytes b \<Rightarrow> Inr (b64encode b) | _ \<Rightarrow> Inl TypeErr))) d)))"

section \<open>Addresses\<close>

definition can_sign_taproot :: "'s trezor_host \<Rightarrow> ('s trezor_device, bool) io" where
  "can_sign_taproot th =
     trezor_exception ''can_sign_taproot''
       (io_bind (prepare_device th) (\<lambda>_.
        io_bind (device_feature ''model'') (\<lambda>model d.
        (if model = text_of ''T'' then version_at_least (tc_version (td_client d)) [2, 4, 3]
         else if model = text_of ''1'' then version_at_least (tc_version (td_client d)) [1, 10, 4]
         else Inr True, d))))"

text \<open>An address, which must be text; here it must be ASCII.\<close>

definition shown_address :: "'s trezor_host \<Rightarrow> pbval \<Rightarrow> pbval \<Rightarrow> int list \<Rightarrow> ('s trezor_device, string) io" where
  "shown_address th script_type multisig path d =
     io_bind (on_trezor (get_address (fuel_of th) (th_trezor th) (PbStr (td_coin_name d)) (path_value path) (PbBool True) multisig
         script_type (PbBool False))) (\<lambda>address.
     io_lift (case address of PbStr s \<Rightarrow> if \<forall>c\<in>set s. c < 128 then Inr (map char_of s) else Inl (OtherErr ''not ASCII'') | _ \<Rightarrow> Inl AssertionErr)) d"

text \<open>Every exception but the bound of the model is passed over.\<close>

abbreviation passed_over :: "exn \<Rightarrow> bool" where
  "passed_over e \<equiv> e \<noteq> OutOfFuel"

definition no_path :: exn where "no_path = BadArgumentError ''No path supplied matched device keys''"

definition trezor_singlesig_address :: "'s trezor_host \<Rightarrow> string \<Rightarrow> AddressType \<Rightarrow> ('s trezor_device, string) io" where
  "trezor_singlesig_address th keypath addr_type =
     trezor_exception ''display_singlesig_address''
       (io_bind (check_unlocked th) (\<lambda>_.
        io_bind (case addr_type of
            SH_WIT \<Rightarrow> io_ret (spend ''SPENDP2SHWITNESS'')
          | WIT \<Rightarrow> io_ret (spend ''SPENDWITNESS'')
          | LEGACY \<Rightarrow> io_ret (spend ''SPENDADDRESS'')
          | TAP \<Rightarrow> io_bind (can_sign_taproot th) (\<lambda>can.
              if \<not> can then io_fail (UnavailableActionError ''This device does not support displaying Taproot addresses'')
              else io_ret (spend ''SPENDTAPROOT''))) (\<lambda>script_type.
        io_bind (io_lift (parse_path keypath)) (\<lambda>expanded_path.
        io_catch (shown_address th script_type PbNone expanded_path) passed_over (io_fail no_path)))))"

text \<open>The keys of a multisig in the order of the script, as far as it is sorted by the keys.\<close>

definition sorted_keys :: "(bytes \<times> PubkeyProvider) list \<Rightarrow> (bytes \<times> PubkeyProvider) list" where
  "sorted_keys der_pks = sort_key fst (sort_key (\<lambda>(pk, p). pp_pubkey p) der_pks)"

definition multisig_member :: "bytes \<times> PubkeyProvider \<Rightarrow> pbval result" where
  "multisig_member = (\<lambda>(pk, p).
     case pp_extkey p of
       Some xpub \<Rightarrow>
         res_bind (get_deriv_path p 0 0) (\<lambda>path.
         Inr (HDNodePathType (HDNodeType (xk_depth xpub) (int (be_val (xk_parent_fingerprint xpub))) (xk_child_num xpub)
           (xk_chaincode xpub) (xk_pubkey xpub)) path))
     | None \<Rightarrow> Inr (HDNodePathType (HDNodeType 0 0 0 (replicate 32 0) pk) []))"

fun first_address :: "'s trezor_host \<Rightarrow> pbval \<Rightarrow> pbval \<Rightarrow> PubkeyProvider list \<Rightarrow> ('s trezor_device, string) io" where
  "first_address th script_type multisig [] = io_fail no_path"
| "first_address th script_type multisig (p # ps) =
     io_bind (io_lift (res_bind (get_full_derivation_path p 0 0) parse_path)) (\<lambda>path.
     io_catch (shown_address th script_type multisig path) passed_over (first_address th script_type multisig ps))"

definition trezor_multisig_address :: "'s trezor_host \<Rightarrow> AddressType \<Rightarrow> Descriptor \<Rightarrow> ('s trezor_device, string) io" where
  "trezor_multisig_address th addr_type multisig =
     trezor_exception ''display_multisig_address''
       (io_bind (check_unlocked th) (\<lambda>_.
        case multisig of
          MultisigDescriptor ps thresh is_sorted \<Rightarrow>
            io_bind (io_lift (res_map (\<lambda>p. res_bind (get_pubkey_bytes (th_cr th) p 0 0) (\<lambda>pk. Inr (pk, p))) ps)) (\<lambda>der_pks.
            let der_pks = (if is_sorted then sorted_keys der_pks else der_pks) in
            io_bind (io_lift (res_map multisig_member der_pks)) (\<lambda>pubkey_objs.
            let trezor_ms = new_message ''MultisigRedeemScriptType'' [(''m'', PbInt thresh),
                  (''signatures'', PbList (replicate (length pubkey_objs) (PbBytes []))), (''pubkeys'', PbList pubkey_objs)] in
            io_bind (case addr_type of
                SH_WIT \<Rightarrow> io_ret (spend ''SPENDP2SHWITNESS'')
              | WIT \<Rightarrow> io_ret (spend ''SPENDWITNESS'')
              | LEGACY \<Rightarrow> io_ret (spend ''SPENDMULTISIG'')
              | TAP \<Rightarrow> io_fail (BadArgumentError ''Unknown address type'')) (\<lambda>script_type.
            first_address th script_type trezor_ms ps)))
        | _ \<Rightarrow> io_fail AttributeError))"

section \<open>Setting up\<close>

definition bool_of :: "'a list option \<Rightarrow> bool" where
  "bool_of v = (case v of None \<Rightarrow> False | Some s \<Rightarrow> s \<noteq> [])"

definition use_interactive_pin :: "('s trezor_device, unit) io" where
  "use_interactive_pin d =
     (if td_simulator d then (Inr (), d) else on_ui (\<lambda>(ui, s). (Inr (), ui\<lparr>ui_interactive := True\<rparr>, s)) d)"

definition label_value :: "string \<Rightarrow> pbval" where
  "label_value label = (if label = [] then PbNone else text_of label)"

definition trezor_setup_device :: "'s trezor_host \<Rightarrow> string \<Rightarrow> string \<Rightarrow> ('s trezor_device, bool) io" where
  "trezor_setup_device th label passphrase =
     trezor_exception ''setup_device''
       (io_bind (prepare_device th) (\<lambda>_.
        io_bind use_interactive_pin (\<lambda>_.
        io_bind (device_feature ''initialized'') (\<lambda>initialized d.
        if truthy initialized then (Inl (DeviceAlreadyInitError ''Device is already initialized. Use wipe first and try again''), d)
        else
          io_bind (on_trezor (trezor_reset (fuel_of th) (th_trezor th) (outside (cp_urandom (th_computer th))) False PbNone
              (bool_of (td_password d)) True (label_value label) (text_of ''en-US'') (PbInt 0) False False
              (member BackupType_members ''Bip39''))) (\<lambda>_. io_ret True) d))))"

definition trezor_wipe_device :: "'s trezor_host \<Rightarrow> ('s trezor_device, bool) io" where
  "trezor_wipe_device th =
     trezor_exception ''wipe_device''
       (io_bind (check_unlocked th) (\<lambda>_. io_bind (on_trezor (trezor_wipe (fuel_of th) (th_trezor th))) (\<lambda>_. io_ret True)))"

definition trezor_restore_device :: "'s trezor_host \<Rightarrow> string \<Rightarrow> int \<Rightarrow> ('s trezor_device, bool) io" where
  "trezor_restore_device th label word_count =
     trezor_exception ''restore_device''
       (io_bind (prepare_device th) (\<lambda>_.
        io_bind use_interactive_pin (\<lambda>_ d.
        io_bind (on_trezor (trezor_recover (fuel_of th) (th_trezor th) word_count (PbBool (bool_of (td_password d))) (PbBool True)
            (label_value label) (text_of ''en-US'') (Some (mnemonic_words (th_computer th)))
            (member RecoveryDeviceType_members ''ScrambledWords'') False PbNone (outside (cp_time (th_computer th))))) (\<lambda>_. io_ret True) d)))"

definition trezor_backup_device :: "string \<Rightarrow> string \<Rightarrow> ('s trezor_device, bool) io" where
  "trezor_backup_device label passphrase d =
     (Inl (UnavailableActionError (''The '' @ td_type d @ '' does not support creating a backup via software'')), d)"

definition trezor_close :: "'s trezor_host \<Rightarrow> ('s trezor_device, unit) io" where
  "trezor_close th = trezor_exception ''close'' (on_trezor (client_close (th_trezor th)))"

section \<open>The PIN\<close>

text \<open>The session that is opened here is left open.\<close>

definition already_unlocked :: "('s trezor_device, unit) io" where
  "already_unlocked =
     io_bind (device_feature ''pin_protection'') (\<lambda>pin_protection.
     if \<not> truthy pin_protection then io_fail (DeviceAlreadyUnlockedError ''This device does not need a PIN'')
     else
       io_bind (device_feature ''unlocked'') (\<lambda>unlocked.
       if truthy unlocked then io_fail (DeviceAlreadyUnlockedError ''The PIN has already been sent to this device'') else io_ret ()))"

definition trezor_prompt_pin :: "'s trezor_host \<Rightarrow> ('s trezor_device, bool) io" where
  "trezor_prompt_pin th =
     trezor_exception ''prompt_pin''
       (io_bind set_coin_name (\<lambda>_.
        io_bind (on_trezor (client_open (th_trezor th))) (\<lambda>_.
        io_bind (prepare_device th) (\<lambda>_.
        io_bind already_unlocked (\<lambda>_ d.
        io_bind (on_trezor (call_raw (th_trezor th) (new_message ''GetPublicKey''
            [(''address_n'', path_value [0x8000002c, 0x80000001, 0x80000000]), (''ecdsa_curve_name'', PbNone), (''show_display'', PbBool False),
             (''coin_name'', PbStr (td_coin_name d)), (''script_type'', spend ''SPENDADDRESS'')]))) (\<lambda>_. io_ret True) d)))))"

text \<open>A passphrase that is asked for is sent as it is.\<close>

definition trezor_send_pin :: "'s trezor_host \<Rightarrow> string \<Rightarrow> ('s trezor_device, bool) io" where
  "trezor_send_pin th pin =
     trezor_exception ''send_pin''
       (io_bind (on_trezor (client_open (th_trezor th))) (\<lambda>_.
        if \<not> pin_digits (codes pin) then io_fail (BadArgumentError ''Non-numeric PIN provided'')
        else
          io_bind (on_trezor (call_raw (th_trezor th) (new_message ''PinMatrixAck'' [(''pin'', PbStr (codes pin))]))) (\<lambda>resp.
          if is_a ''Failure'' resp then
            io_bind (on_trezor (call_raw (th_trezor th) (new_message ''GetFeatures'' []))) (\<lambda>features.
            io_bind (on_trezor (\<lambda>c. (Inr (), c\<lparr>tc_features := features\<rparr>))) (\<lambda>_.
            io_bind (if is_a ''Features'' features then already_unlocked else io_ret ()) (\<lambda>_. io_ret False)))
          else if is_a ''PassphraseRequest'' resp then
            io_bind (on_ui (ui_get_passphrase False)) (\<lambda>passphrase.
            io_bind (on_trezor (client_call (fuel_of th) (th_trezor th) (new_message ''PassphraseAck''
                [(''passphrase'', case passphrase of Passphrase s \<Rightarrow> PbStr s | PASSPHRASE_ON_DEVICE \<Rightarrow> PbNone), (''on_device'', PbBool False)]) False))
              (\<lambda>pass_resp.
            if is_a ''Deprecated_PassphraseStateRequest'' pass_resp then
              io_bind (on_trezor (call_raw (th_trezor th) (new_message ''Deprecated_PassphraseStateAck'' []))) (\<lambda>_. io_ret True)
            else io_ret True))
          else io_ret True)))"

text \<open>Whatever goes wrong, the answer is that it worked.\<close>

definition trezor_toggle_passphrase :: "'s trezor_host \<Rightarrow> ('s trezor_device, bool) io" where
  "trezor_toggle_passphrase th =
     trezor_exception ''toggle_passphrase''
       (io_bind (check_unlocked th) (\<lambda>_.
        io_catch
          (io_bind (device_feature ''passphrase_protection'') (\<lambda>passphrase_protection.
           io_bind (on_trezor (apply_settings (fuel_of th) (th_trezor th) [(''use_passphrase'', PbBool (\<not> truthy passphrase_protection))]))
             (\<lambda>_. io_ret True)))
          passed_over (io_ret True)))"

section \<open>The methods\<close>

text \<open>The method that displays the address of a policy is that of the base class; it raises the exception of Python.\<close>

definition trezor_driver :: "'s trezor_host \<Rightarrow> 's trezor_device driver" where
  "trezor_driver th =
     \<lparr>drv_pubkey_at_path = trezor_pubkey_at_path th,
      drv_master_fingerprint = io_bind (trezor_pubkey_at_path th ''m/0h'') (\<lambda>k. io_ret (xk_parent_fingerprint k)),
      drv_can_sign_taproot = can_sign_taproot th,
      drv_sign_tx = trezor_sign_psbt th,
      drv_sign_message = trezor_sign_message th,
      drv_singlesig_address = trezor_singlesig_address th,
      drv_multisig_address = trezor_multisig_address th,
      drv_policy_address = (\<lambda>_ _ _. io_fail (OtherErr ''NotImplementedError: This device does not support BIP388 policy address display or it is not yet implemented'')),
      drv_setup_device = trezor_setup_device th,
      drv_wipe_device = trezor_wipe_device th,
      drv_restore_device = trezor_restore_device th,
      drv_backup_device = trezor_backup_device,
      drv_prompt_pin = trezor_prompt_pin th,
      drv_send_pin = trezor_send_pin th,
      drv_toggle_passphrase = trezor_toggle_passphrase th,
      drv_register_descriptor = (\<lambda>_ _. io_fail (UnavailableActionError ''The Trezor does not support registering descriptors'')),
      drv_close = trezor_close th\<rparr>"

end
