(* ===== verification/Trezor_Client_Spec.thy ===== *)
theory Trezor_Client_Spec
  imports Trezor_Btc
begin

text \<open>
  What a host discloses to a Trezor device: every message is sent in a session of the transport, and is one the dialogue
  calls for; and what a host gets: a signature for every input of its own.
\<close>

section \<open>What the dialogue calls for\<close>

text \<open>The messages of the dialogue: a PIN of digits, a passphrase that is short enough, and those without content.\<close>

definition dialogue :: "pbval \<Rightarrow> bool" where
  "dialogue msg \<longleftrightarrow> msg \<in> {new_message ''ButtonAck'' [], new_message ''Cancel'' [], new_message ''Deprecated_PassphraseStateAck'' []}
     \<or> (\<exists>pin. valid_pin pin \<and> msg = new_message ''PinMatrixAck'' [(''pin'', PbStr pin)])
     \<or> (\<exists>p d. (p = PbNone \<or> (\<exists>s. p = PbStr s \<and> length s \<le> MAX_PASSPHRASE_LENGTH))
          \<and> msg = new_message ''PassphraseAck'' [(''passphrase'', p), (''on_device'', d)])"

text \<open>The parts of a transaction.\<close>

definition tx_part :: "pbval \<Rightarrow> pbval \<Rightarrow> bool" where
  "tx_part tx part \<longleftrightarrow> copy_tx_meta tx = Inr part
     \<or> (\<exists>name\<in>{''inputs'', ''outputs'', ''bin_outputs''}. \<exists>i. one_of name tx i = Inr part)
     \<or> (\<exists>x i j d. get_attr tx ''extra_data'' = Inr x \<and> get_slice x i j = Inr d \<and> part = set_attr ''extra_data'' d empty_tx)"

lemma dialogue_intros [intro, simp]:
  "dialogue (new_message ''ButtonAck'' [])" "dialogue (new_message ''Cancel'' [])"
  "dialogue (new_message ''Deprecated_PassphraseStateAck'' [])"
  "valid_pin pin \<Longrightarrow> dialogue (new_message ''PinMatrixAck'' [(''pin'', PbStr pin)])"
  "dialogue (new_message ''PassphraseAck'' [(''passphrase'', PbNone), (''on_device'', d)])"
  "length s \<le> MAX_PASSPHRASE_LENGTH \<Longrightarrow> dialogue (new_message ''PassphraseAck'' [(''passphrase'', PbStr s), (''on_device'', d)])"
  by (auto simp: dialogue_def)

text \<open>What is sent to sign a transaction.\<close>

definition tx_answer :: "pbval \<Rightarrow> (bytes, pbval) dict \<Rightarrow> pbval \<Rightarrow> bool" where
  "tx_answer this_tx prev_txes msg \<longleftrightarrow>
     (\<exists>tx part. (tx = this_tx \<or> (\<exists>h. map_of prev_txes h = Some tx)) \<and> tx_part tx part \<and> msg = new_message ''TxAck'' [(''tx'', part)])"

text \<open>What signing may send besides the dialogue.\<close>

definition signing_message :: "nat list \<Rightarrow> pbval list \<Rightarrow> pbval list \<Rightarrow> pbval option \<Rightarrow> (bytes, pbval) dict \<Rightarrow>
    (string \<times> pbval) list \<Rightarrow> pbval \<Rightarrow> bool" where
  "signing_message coin_name inputs outputs details prev_txes kwargs msg \<longleftrightarrow>
     msg = new_message ''DoPreauthorized'' [] \<or> msg = sign_request coin_name inputs outputs details kwargs
        \<or> (\<exists>version. tx_answer (new_message ''TransactionType'' [(''inputs'', PbList inputs), (''outputs'', PbList outputs),
            (''inputs_cnt'', PbInt (int (length inputs))), (''outputs_cnt'', PbInt (int (length outputs))), (''version'', version)]) prev_txes msg)"

lemma assert_given_Inr [simp]: "assert_given v = Inr w \<longleftrightarrow> w = v \<and> v \<noteq> PbNone"
  by (auto simp: assert_given_def)

lemma tx_part_intros:
  "copy_tx_meta tx = Inr part \<Longrightarrow> tx_part tx part"
  "one_of ''inputs'' tx i = Inr part \<Longrightarrow> tx_part tx part"
  "one_of ''outputs'' tx i = Inr part \<Longrightarrow> tx_part tx part"
  "one_of ''bin_outputs'' tx i = Inr part \<Longrightarrow> tx_part tx part"
  "get_attr tx ''extra_data'' = Inr x \<Longrightarrow> get_slice x j k = Inr d \<Longrightarrow> tx_part tx (set_attr ''extra_data'' d empty_tx)"
  unfolding tx_part_def by blast+

lemma requested_part_tx:
  assumes "requested_part ty details tx = Inr part"
  shows "tx_part tx part"
  using assms unfolding requested_part_def
  by (auto split: if_splits intro: tx_part_intros)

lemma sign_step_answer:
  assumes "sign_step this_tx prev_txes res = Inr (Some msg)"
  shows "tx_answer this_tx prev_txes msg"
proof -
  obtain details tx part where "requested_tx this_tx prev_txes details = Inr tx" and part: "tx_part tx part"
    and msg: "msg = new_message ''TxAck'' [(''tx'', part)]"
    using assms requested_part_tx by (fastforce simp: sign_step_def split: if_splits)
  then have "tx = this_tx \<or> (\<exists>h. map_of prev_txes h = Some tx)"
    by (auto simp: requested_tx_def split: if_splits pbval.splits option.splits)
  with part msg show ?thesis by (auto simp: tx_answer_def)
qed

section \<open>Two transports that cannot be told apart\<close>

text \<open>
  The client as the user of a transport: what its operations must guarantee for a relation between the states of two
  transports, so that the client cannot tell them apart. Only some messages need be sent alike, and only in a session.
\<close>

locale transports =
  fixes tz :: "'s trezor" and tz' :: "'t trezor" and rel :: "'s trezor_client \<Rightarrow> 't trezor_client \<Rightarrow> bool" and allowed :: "pbval \<Rightarrow> bool"
  assumes same_normalize: "tz_normalize tz' = tz_normalize tz"
    and dialogue_allowed: "dialogue msg \<Longrightarrow> allowed msg"
    and rel_counter: "rel c c' \<Longrightarrow> tc_session_counter c' = tc_session_counter c"
    and rel_features: "rel c c' \<Longrightarrow> tc_features c' = tc_features c"
    and rel_outdated: "rel c c' \<Longrightarrow> is_outdated c' = is_outdated c"
    and rel_session_id: "rel c c' \<Longrightarrow> rel (c\<lparr>tc_session_id := x\<rparr>) (c'\<lparr>tc_session_id := x\<rparr>)"
    and open_alike: "rel c c' \<Longrightarrow> client_open tz c = (r, d) \<Longrightarrow> \<exists>d'. client_open tz' c' = (r, d') \<and> rel d d'
      \<and> tc_session_counter d = tc_session_counter c + (case r of Inl _ \<Rightarrow> 0 | Inr _ \<Rightarrow> 1)"
    and close_alike: "rel c c' \<Longrightarrow> 0 < tc_session_counter c \<Longrightarrow> client_close tz c = (r, d) \<Longrightarrow> \<exists>d'. client_close tz' c' = (r, d') \<and> rel d d'
      \<and> tc_session_counter d = tc_session_counter c - 1"
    and write_alike: "rel c c' \<Longrightarrow> 0 < tc_session_counter c \<Longrightarrow> allowed msg \<Longrightarrow> raw_write tz msg c = (ru, d) \<Longrightarrow>
      \<exists>d'. raw_write tz' msg c' = (ru, d') \<and> rel d d' \<and> tc_session_counter d = tc_session_counter c"
    and read_alike: "rel c c' \<Longrightarrow> 0 < tc_session_counter c \<Longrightarrow> raw_read tz c = (rm, d) \<Longrightarrow>
      \<exists>d'. raw_read tz' c' = (rm, d') \<and> rel d d' \<and> tc_session_counter d = tc_session_counter c"
    and pin_alike: "rel c c' \<Longrightarrow> on_world (tz_get_pin tz ty) c = (rp, d) \<Longrightarrow>
      \<exists>d'. on_world (tz_get_pin tz' ty) c' = (rp, d') \<and> rel d d' \<and> tc_session_counter d = tc_session_counter c"
    and passphrase_alike: "rel c c' \<Longrightarrow> on_world (tz_get_passphrase tz b) c = (rs, d) \<Longrightarrow>
      \<exists>d'. on_world (tz_get_passphrase tz' b) c' = (rs, d') \<and> rel d d' \<and> tc_session_counter d = tc_session_counter c"
    and button_alike: "rel c c' \<Longrightarrow> on_world (tz_button_request tz msg) c = (ru, d) \<Longrightarrow>
      \<exists>d'. on_world (tz_button_request tz' msg) c' = (ru, d') \<and> rel d d' \<and> tc_session_counter d = tc_session_counter c"
begin

text \<open>Operations in a session that cannot be told apart, and keep the number of sessions.\<close>

definition alike :: "('s trezor_client, 'a) io \<Rightarrow> ('t trezor_client, 'a) io \<Rightarrow> bool" where
  "alike m m' \<longleftrightarrow> (\<forall>c c' x d. rel c c' \<longrightarrow> 0 < tc_session_counter c \<longrightarrow> m c = (x, d) \<longrightarrow>
     (\<exists>d'. m' c' = (x, d') \<and> rel d d' \<and> tc_session_counter d = tc_session_counter c))"

lemma alikeI:
  assumes "\<And>c c' x d. rel c c' \<Longrightarrow> 0 < tc_session_counter c \<Longrightarrow> m c = (x, d) \<Longrightarrow>
     \<exists>d'. m' c' = (x, d') \<and> rel d d' \<and> tc_session_counter d = tc_session_counter c"
  shows "alike m m'"
  using assms unfolding alike_def by blast

lemma alikeD:
  assumes "alike m m'" and "rel c c'" and "0 < tc_session_counter c" and "m c = (x, d)"
  obtains d' where "m' c' = (x, d')" "rel d d'" "tc_session_counter d = tc_session_counter c"
  using assms unfolding alike_def by blast

lemma alike_pure: "alike (io_lift x) (io_lift x)" "alike (io_fail e) (io_fail e)" "alike (io_ret y) (io_ret y)"
  by (auto intro!: alikeI)

lemma alike_bind:
  assumes "alike m m'" and "\<And>x. alike (f x) (f' x)"
  shows "alike (io_bind m f) (io_bind m' f')"
proof (rule alikeI)
  fix c c' x d assume rel: "rel c c'" and n: "0 < tc_session_counter c" and run: "io_bind m f c = (x, d)"
  obtain y e where y: "m c = (y, e)" by fastforce
  from alikeD [OF assms(1) rel n this] obtain e' where e': "m' c' = (y, e')" "rel e e'" "tc_session_counter e = tc_session_counter c" .
  show "\<exists>d'. io_bind m' f' c' = (x, d') \<and> rel d d' \<and> tc_session_counter d = tc_session_counter c"
  proof (cases y)
    case (Inl err)
    with run y e' show ?thesis by (auto simp: io_bind_def)
  next
    case (Inr z)
    with run y have "f z e = (x, d)" by (simp add: io_bind_def)
    moreover have "0 < tc_session_counter e" using n e'(3) by simp
    ultimately obtain d' where "f' z e' = (x, d')" "rel d d'" "tc_session_counter d = tc_session_counter e"
      using alikeD [OF assms(2) e'(2)] by blast
    with Inr e' show ?thesis by (auto simp: io_bind_def)
  qed
qed

lemma alike_if: "(P \<Longrightarrow> alike m m') \<Longrightarrow> (\<not> P \<Longrightarrow> alike n n') \<Longrightarrow> alike (if P then m else n) (if P then m' else n')"
  by simp

lemma alike_write: "allowed msg \<Longrightarrow> alike (raw_write tz msg) (raw_write tz' msg)"
  by (rule alikeI) (rule write_alike)

lemma alike_read: "alike (raw_read tz) (raw_read tz')"
  by (rule alikeI) (rule read_alike)

lemma alike_call_raw: "allowed msg \<Longrightarrow> alike (call_raw tz msg) (call_raw tz' msg)"
  unfolding call_raw_def by (intro alike_bind alike_write alike_read)

lemma alike_session:
  assumes "alike m m'" and "rel c c'" and "session tz m c = (x, d)"
  shows "\<exists>d'. session tz' m' c' = (x, d') \<and> rel d d' \<and> tc_session_counter d = tc_session_counter c"
proof -
  obtain r e where opened: "client_open tz c = (r, e)" by fastforce
  from open_alike [OF assms(2) this] obtain e' where e': "client_open tz' c' = (r, e')" "rel e e'"
    "tc_session_counter e = tc_session_counter c + (case r of Inl _ \<Rightarrow> 0 | Inr _ \<Rightarrow> 1)" by blast
  show ?thesis
  proof (cases r)
    case (Inl err)
    with opened e' assms(3) show ?thesis by (auto simp: session_def closing_def io_bind_def)
  next
    case (Inr u)
    obtain y f where y: "m e = (y, f)" by fastforce
    have "0 < tc_session_counter e" using e'(3) Inr by simp
    from alikeD [OF assms(1) e'(2) this y] obtain f' where f': "m' e' = (y, f')" "rel f f'" "tc_session_counter f = tc_session_counter e" .
    obtain z g where z: "client_close tz f = (z, g)" by fastforce
    have "0 < tc_session_counter f" using f'(3) e'(3) Inr by simp
    from close_alike [OF f'(2) this z] obtain g' where "client_close tz' f' = (z, g')" "rel g g'"
      "tc_session_counter g = tc_session_counter f - 1" by blast
    with opened y z e' f' Inr assms(3) show ?thesis by (auto simp: session_def closing_def io_bind_def split: sum.splits)
  qed
qed

lemma alike_session_within: "alike m m' \<Longrightarrow> alike (session tz m) (session tz' m')"
  by (rule alikeI) (rule alike_session)

lemma alike_cancel: "alike (cancel_and_raise tz e) (cancel_and_raise tz' e)"
  unfolding cancel_and_raise_def by (intro alike_bind alike_call_raw alike_pure dialogue_allowed dialogue_intros)

lemma alike_ask:
  assumes "alike (on_world m) (on_world m')" and "\<And>x. alike (f x) (f' x)"
  shows "alike (ask tz m f) (ask tz' m' f')"
proof (rule alikeI)
  fix c c' x d assume rel: "rel c c'" and n: "0 < tc_session_counter c" and run: "ask tz m f c = (x, d)"
  obtain y e where y: "on_world m c = (y, e)" by fastforce
  from alikeD [OF assms(1) rel n this] obtain e' where e': "on_world m' c' = (y, e')" "rel e e'" "tc_session_counter e = tc_session_counter c" .
  then have n': "0 < tc_session_counter e" using n by simp
  show "\<exists>d'. ask tz' m' f' c' = (x, d') \<and> rel d d' \<and> tc_session_counter d = tc_session_counter c"
  proof (cases y)
    case (Inr z)
    with run y have "f z e = (x, d)" by (simp add: ask_def)
    then obtain d' where "f' z e' = (x, d')" "rel d d'" "tc_session_counter d = tc_session_counter e"
      by (rule alikeD [OF assms(2) e'(2) n'])
    with e' Inr show ?thesis by (auto simp: ask_def)
  next
    case (Inl err)
    show ?thesis
    proof (cases "err = Cancelled")
      case True
      with run y Inl have "cancel_and_raise tz Cancelled e = (x, d)" by (simp add: ask_def)
      then obtain d' where "cancel_and_raise tz' Cancelled e' = (x, d')" "rel d d'" "tc_session_counter d = tc_session_counter e"
        by (rule alikeD [OF alike_cancel e'(2) n'])
      with e' Inl True show ?thesis by (auto simp: ask_def)
    next
      case False
      with run y Inl e' show ?thesis by (auto simp: ask_def)
    qed
  qed
qed

lemma alike_asked:
  "alike (on_world (tz_get_pin tz ty)) (on_world (tz_get_pin tz' ty))"
  "alike (on_world (tz_get_passphrase tz b)) (on_world (tz_get_passphrase tz' b))"
  "alike (on_world (tz_button_request tz msg)) (on_world (tz_button_request tz' msg))"
  by (rule alikeI, erule (1) pin_alike passphrase_alike button_alike)+

lemma alike_features: "alike (\<lambda>c. (f (tc_features c), c)) (\<lambda>c. (f (tc_features c), c))"
  by (rule alikeI) (auto dest: rel_features)

lemma alike_session_id: "alike (\<lambda>c. (Inr (), c\<lparr>tc_session_id := st\<rparr>)) (\<lambda>c. (Inr (), c\<lparr>tc_session_id := st\<rparr>))"
  by (rule alikeI) (auto intro: rel_session_id)

lemmas alike_intros = alike_bind alike_pure alike_ask alike_if alike_cancel alike_call_raw alike_write alike_read
  alike_asked alike_features alike_session_id dialogue_allowed

lemma alike_pin: "alike (callback_pin tz msg) (callback_pin tz' msg)"
  unfolding callback_pin_def by (intro alike_intros) simp_all

lemma alike_send_passphrase:
  "p = PbNone \<or> (\<exists>s. p = PbStr s \<and> length s \<le> MAX_PASSPHRASE_LENGTH) \<Longrightarrow> alike (send_passphrase tz p b) (send_passphrase tz' p b)"
  unfolding send_passphrase_def by (intro alike_intros) auto

lemma alike_passphrase: "alike (callback_passphrase tz msg) (callback_passphrase tz' msg)"
proof -
  have "alike (case p of
         PASSPHRASE_ON_DEVICE \<Rightarrow>
           if \<not> available then cancel_and_raise tz (RuntimeErr ''Device is not capable of entering passphrase'')
           else send_passphrase tz PbNone (PbBool True)
       | Passphrase s \<Rightarrow>
           (let s = tz_normalize tz s in
            if MAX_PASSPHRASE_LENGTH < length s then cancel_and_raise tz (ValueErr ''Passphrase too long'')
            else send_passphrase tz (PbStr s) (PbBool False)))
     (case p of
         PASSPHRASE_ON_DEVICE \<Rightarrow>
           if \<not> available then cancel_and_raise tz' (RuntimeErr ''Device is not capable of entering passphrase'')
           else send_passphrase tz' PbNone (PbBool True)
       | Passphrase s \<Rightarrow>
           (let s = tz_normalize tz' s in
            if MAX_PASSPHRASE_LENGTH < length s then cancel_and_raise tz' (ValueErr ''Passphrase too long'')
            else send_passphrase tz' (PbStr s) (PbBool False)))" for p available
    by (cases p) (auto simp: Let_def same_normalize intro!: alike_cancel alike_send_passphrase)
  then show ?thesis unfolding callback_passphrase_def Let_def [of "case _ of PbList vs \<Rightarrow> _ vs | _ \<Rightarrow> False"]
    by (intro alike_intros alike_send_passphrase) simp_all
qed

lemma alike_button: "alike (callback_button tz msg) (callback_button tz' msg)"
  unfolding callback_button_def by (intro alike_intros) simp_all

lemma alike_call_loop: "alike (call_loop fuel tz resp) (call_loop fuel tz' resp)"
proof (induction fuel arbitrary: resp)
  case 0
  show ?case by (simp add: call_loop.simps alike_intros)
next
  case (Suc fuel)
  then show ?case
    by (simp add: call_loop.simps [of "Suc fuel"] alike_intros alike_pin alike_passphrase alike_button)
qed

lemma alike_check_firmware: "alike check_firmware_version check_firmware_version"
  unfolding check_firmware_version_def
  by (rule alikeI) (auto dest: rel_outdated split: sum.splits)

lemma alike_call: "allowed msg \<Longrightarrow> alike (client_call fuel tz msg fw) (client_call fuel tz' msg fw)"
  unfolding client_call_def
  by (intro alike_session_within alike_bind alike_if alike_pure alike_check_firmware alike_call_raw alike_call_loop)

lemma alike_sign_loop:
  assumes "\<And>msg. tx_answer this_tx prev_txes msg \<Longrightarrow> alike (call msg) (call' msg)"
  shows "alike (sign_loop fuel call this_tx prev_txes res collected) (sign_loop fuel call' this_tx prev_txes res collected)"
proof (induction fuel arbitrary: res collected)
  case 0
  have end_or_fail: "alike (case s of None \<Rightarrow> io_ret (res, col) | Some msg \<Rightarrow> io_fail OutOfFuel)
      (case s of None \<Rightarrow> io_ret (res, col) | Some msg \<Rightarrow> io_fail OutOfFuel)" for s :: "pbval option" and res :: pbval and col :: "pbval list \<times> bytes"
    by (cases s) (simp_all add: alike_pure)
  show ?case unfolding sign_loop.simps [of 0] nat.case by (intro alike_if alike_pure alike_bind end_or_fail)
next
  case (Suc fuel)
  have answer: "alike (io_bind (io_lift (sign_step this_tx prev_txes res)) (\<lambda>step. f step))
      (io_bind (io_lift (sign_step this_tx prev_txes res)) (\<lambda>step. f' step))"
    if "alike (f None) (f' None)" "\<And>msg. tx_answer this_tx prev_txes msg \<Longrightarrow> alike (f (Some msg)) (f' (Some msg))"
    for f :: "pbval option \<Rightarrow> ('s trezor_client, pbval \<times> pbval list \<times> bytes) io" and f'
  proof (cases "sign_step this_tx prev_txes res")
    case (Inr step)
    with that sign_step_answer show ?thesis by (cases step) (auto simp: alike_pure)
  qed (simp add: alike_pure)
  show ?case
    unfolding sign_loop.simps [of "Suc fuel"]
    by (intro alike_if alike_pure alike_bind answer) (simp_all add: alike_pure alike_bind assms Suc)
qed

lemma alike_sign_body:
  assumes "\<And>msg. signing_message coin_name inputs outputs details prev_txes kwargs msg \<Longrightarrow> alike (call msg) (call' msg)"
  shows "alike (sign_tx_body fuel call coin_name inputs outputs details prev_txes preauthorized kwargs)
    (sign_tx_body fuel call' coin_name inputs outputs details prev_txes preauthorized kwargs)"
  unfolding sign_tx_body_def announce_def Let_def case_prod_unfold
  by (intro alike_bind alike_if alike_pure alike_sign_loop assms; unfold signing_message_def; blast)

lemma call_alike:
  assumes "allowed msg" and "rel c c'" and "client_call fuel tz msg fw c = (x, d)"
  shows "\<exists>d'. client_call fuel tz' msg fw c' = (x, d') \<and> rel d d' \<and> tc_session_counter d = tc_session_counter c"
proof -
  have "alike (io_bind (if fw then check_firmware_version else io_ret ()) (\<lambda>_. io_bind (call_raw tz msg) (call_loop fuel tz)))
    (io_bind (if fw then check_firmware_version else io_ret ()) (\<lambda>_. io_bind (call_raw tz' msg) (call_loop fuel tz')))"
    by (intro alike_bind alike_if alike_pure alike_check_firmware alike_call_raw alike_call_loop assms(1))
  from alike_session [OF this assms(2)] assms(3) show ?thesis by (simp add: client_call_def)
qed

lemma sign_alike:
  assumes "\<And>msg. signing_message coin_name inputs outputs details prev_txes kwargs msg \<Longrightarrow> allowed msg"
    and "rel c c'" and "sign_tx fuel tz coin_name inputs outputs details prev_txes preauthorized kwargs c = (x, d)"
  shows "\<exists>d'. sign_tx fuel tz' coin_name inputs outputs details prev_txes preauthorized kwargs c' = (x, d') \<and> rel d d'
    \<and> tc_session_counter d = tc_session_counter c"
proof -
  have "alike (sign_tx_body fuel (\<lambda>msg. client_call fuel tz msg True) coin_name inputs outputs details prev_txes preauthorized kwargs)
    (sign_tx_body fuel (\<lambda>msg. client_call fuel tz' msg True) coin_name inputs outputs details prev_txes preauthorized kwargs)"
    by (intro alike_sign_body alike_call assms(1))
  from alike_session [OF this assms(2)] assms(3) show ?thesis by (simp add: sign_tx_def)
qed

end

section \<open>A supervised transport\<close>

text \<open>
  A transport that knows whether its session is open, and refuses a second one, anything outside a session, and every
  message but those of the dialogue and those that are expected.
\<close>

definition supervised :: "(pbval \<Rightarrow> bool) \<Rightarrow> 's trezor \<Rightarrow> ('s \<times> bool) trezor" where
  "supervised expected tz =
     \<lparr>tz_begin_session = (\<lambda>(s, opened). if opened then (Inl AssertionErr, s, opened)
         else (case tz_begin_session tz s of (r, s) \<Rightarrow> (r, s, r = Inr ()))),
      tz_end_session = (\<lambda>(s, opened). if \<not> opened then (Inl AssertionErr, s, opened)
         else (case tz_end_session tz s of (r, s) \<Rightarrow> (r, s, False))),
      tz_write = (\<lambda>msg_type msg_bytes (s, opened).
         if opened \<and> (\<exists>msg. (dialogue msg \<or> expected msg) \<and> mapping_encode (tz_schema tz) (tz_mapping tz) msg = Inr (msg_type, msg_bytes))
         then (case tz_write tz msg_type msg_bytes s of (r, s) \<Rightarrow> (r, s, opened)) else (Inl AssertionErr, s, opened)),
      tz_read = (\<lambda>(s, opened). if opened then (case tz_read tz s of (r, s) \<Rightarrow> (r, s, opened)) else (Inl AssertionErr, s, opened)),
      tz_get_pin = (\<lambda>ty (s, opened). case tz_get_pin tz ty s of (r, s) \<Rightarrow> (r, s, opened)),
      tz_get_passphrase = (\<lambda>b (s, opened). case tz_get_passphrase tz b s of (r, s) \<Rightarrow> (r, s, opened)),
      tz_button_request = (\<lambda>msg (s, opened). case tz_button_request tz msg s of (r, s) \<Rightarrow> (r, s, opened)),
      tz_schema = tz_schema tz, tz_mapping = tz_mapping tz, tz_normalize = tz_normalize tz, tz_models = tz_models tz\<rparr>"

text \<open>The same client on it: the session of the transport is open while the client counts any.\<close>

definition watched :: "'s trezor_client \<Rightarrow> ('s \<times> bool) trezor_client" where
  "watched c =
     \<lparr>tc_session_counter = tc_session_counter c, tc_session_id = tc_session_id c, tc_model = tc_model c, tc_features = tc_features c,
      tc_version = tc_version c, tc_world = (tc_world c, 0 < tc_session_counter c)\<rparr>"

lemmas supervised_defs = supervised_def watched_def on_world_def io_bind_def

interpretation supervision: transports tz "supervised expected tz" "\<lambda>c c'. c' = watched c" "\<lambda>msg. dialogue msg \<or> expected msg"
  for tz :: "'s trezor" and expected
proof (unfold_locales, goal_cases)
  case (7 c c' r d)
  then show ?case
    by (cases "tc_session_counter c = 0"; cases "tz_begin_session tz (tc_world c)"; cases r)
      (auto simp: client_open_def supervised_defs split: sum.splits)
next
  case (8 c c' r d)
  then show ?case
    by (cases "tc_session_counter c = 1"; cases "tz_end_session tz (tc_world c)")
      (auto simp: client_close_def Let_def supervised_defs)
next
  case (9 c c' msg r d)
  then show ?case
    by (cases "mapping_encode (tz_schema tz) (tz_mapping tz) msg")
      (auto simp: raw_write_def supervised_defs split: prod.splits)
next
  case (10 c c' r d)
  then show ?case
    by (cases "tz_read tz (tc_world c)")
      (auto simp: raw_read_def supervised_defs split: prod.splits sum.splits)
qed (auto simp: supervised_defs is_outdated_def split: prod.splits cong: option.case_cong if_cong)

text \<open>
  C34: a call sends nothing but its message and the dialogue. On a transport that refuses everything outside a session, a
  second session, and every message but the one of the call, the acknowledgements, the cancellation, PINs of digits and
  short passphrases, the call does what it does without the supervision, whatever the device answers and the user does; it
  ends with as many sessions open as it began with.
\<close>

theorem trezor_call_supervised:
  "client_call fuel (supervised (\<lambda>m. m = msg) tz) msg check_fw (watched c) =
      map_prod id watched (client_call fuel tz msg check_fw c)
   \<and> tc_session_counter (snd (client_call fuel tz msg check_fw c)) = tc_session_counter c"
proof -
  obtain x d where run: "client_call fuel tz msg check_fw c = (x, d)" by fastforce
  from supervision.call_alike [OF _ refl run, of "\<lambda>m. m = msg"] show ?thesis by (simp add: run)
qed

text \<open>
  C35: signing discloses only the transactions that are signed or spent. On the supervised transport, where a part of the
  transaction or of one of the previous transactions may be sent besides the request to sign and the dialogue, signing does
  what it does without the supervision, whichever parts the device asks for, in whichever order.
\<close>

theorem trezor_sign_supervised:
  "sign_tx fuel (supervised (signing_message coin_name inputs outputs details prev_txes kwargs) tz)
      coin_name inputs outputs details prev_txes preauthorized kwargs (watched c) =
      map_prod id watched (sign_tx fuel tz coin_name inputs outputs details prev_txes preauthorized kwargs c)
   \<and> tc_session_counter (snd (sign_tx fuel tz coin_name inputs outputs details prev_txes preauthorized kwargs c)) = tc_session_counter c"
proof -
  obtain x d where run: "sign_tx fuel tz coin_name inputs outputs details prev_txes preauthorized kwargs c = (x, d)" by fastforce
  from supervision.sign_alike [OF _ refl run, of "signing_message coin_name inputs outputs details prev_txes kwargs"]
  show ?thesis by (simp add: run)
qed

section \<open>What a signed transaction has\<close>

lemma take_serialized_signatures:
  "take_serialized res collected = Inr collected' \<Longrightarrow> length (fst collected') = length (fst collected)"
  by (auto simp: take_serialized_def split: prod.splits if_splits)

lemmas take_serialized_length = take_serialized_signatures [of _ _ "(sigs, tx)" for sigs tx, unfolded fst_conv]

lemma sign_loop_length:
  "sign_loop fuel call this_tx prev_txes res collected s = (Inr (res', sigs, tx), s') \<Longrightarrow> length sigs = length (fst collected)"
proof (induction fuel arbitrary: res collected s)
  case 0
  then show ?case
    by (subst (asm) sign_loop.simps) (auto simp: io_bind_Inr split: if_splits option.splits simp: take_serialized_length)
next
  case (Suc fuel)
  from Suc.prems show ?case
    by (simp only: sign_loop.simps [of "Suc fuel"])
      (auto simp: io_bind_Inr split: if_splits option.splits simp: take_serialized_length dest!: Suc.IH)
qed

lemma check_signatures_given:
  "check_signatures ps = Inr u \<Longrightarrow> (i, sig) \<in> set ps \<Longrightarrow> get_attr i ''script_type'' \<noteq> Inr EXTERNAL \<Longrightarrow> sig \<noteq> PbNone"
  by (induction ps rule: check_signatures.induct) (auto simp: missing_signature_def split: if_splits)

lemma sign_tx_body_length:
  "sign_tx_body fuel call coin_name inputs outputs details prev_txes preauthorized kwargs s = (Inr (sigs, tx), s') \<Longrightarrow>
     length sigs = length inputs"
  by (auto simp: sign_tx_body_def announce_def Let_def io_bind_Inr split: if_splits dest!: sign_loop_length)

text \<open>
  C36: a transaction is signed in full or not at all. Whatever the calls answer, when signing returns there is one entry for
  every input, and one that is a signature for every input that is not external.
\<close>

theorem trezor_sign_complete:
  assumes "sign_tx_body fuel call coin_name inputs outputs details prev_txes preauthorized kwargs s = (Inr (sigs, tx), s')"
  shows "length sigs = length inputs
    \<and> (\<forall>k<length inputs. get_attr (inputs ! k) ''script_type'' \<noteq> Inr EXTERNAL \<longrightarrow> sigs ! k \<noteq> PbNone)"
proof -
  from assms have n: "length sigs = length inputs" and "check_signatures (zip inputs sigs) = Inr ()"
    by (auto simp: sign_tx_body_def announce_def Let_def io_bind_Inr split: if_splits dest!: sign_loop_length)
  with check_signatures_given [OF this(2)] show ?thesis by (auto simp: set_zip)
qed

theorem trezor_sign_complete_witness:
  "let input = PbMsg ''TxInputType'' [(''script_type'', PbInt 0)];
       request = PbMsg ''SignTx'' [(''version'', PbInt 2)];
       finished = PbMsg ''TxRequest'' [(''request_type'', PbInt 3), (''details'', PbNone), (''serialized'',
         PbMsg ''TxRequestSerializedType'' [(''signature_index'', PbInt 0), (''signature'', PbBytes [48]), (''serialized_tx'', PbBytes [2, 0])])]
   in sign_tx_body 0 (\<lambda>_. io_ret finished) [] [input] [] (Some request) [] False [] () = (Inr ([PbBytes [48]], [2, 0]), ())
     \<and> length [PbBytes [48]] = length [input] \<and> [PbBytes [48]] ! 0 \<noteq> PbNone"
proof -
  let ?input = "PbMsg ''TxInputType'' [(''script_type'', PbInt 0)]"
  let ?request = "PbMsg ''SignTx'' [(''version'', PbInt 2)]"
  let ?finished = "PbMsg ''TxRequest'' [(''request_type'', PbInt 3), (''details'', PbNone), (''serialized'',
    PbMsg ''TxRequestSerializedType'' [(''signature_index'', PbInt 0), (''signature'', PbBytes [48]), (''serialized_tx'', PbBytes [2, 0])])]"
  have own: "get_attr ?input ''script_type'' \<noteq> Inr EXTERNAL"
    by (simp add: get_attr_def EXTERNAL_def member_def InputScriptType_members_def)
  have run: "sign_tx_body 0 (\<lambda>_. io_ret ?finished) [] [?input] [] (Some ?request) [] False [] () = (Inr ([PbBytes [48]], [2, 0]), ())"
    by (simp add: sign_tx_body_def announce_def sign_request_def sign_loop.simps Let_def io_bind_def is_a_def take_serialized_def sign_step_def
        get_attr_def set_attr_def truthy_def position_def number_of_def member_def RequestType_members_def missing_signature_def
        EXTERNAL_def InputScriptType_members_def)
  from trezor_sign_complete [OF run] own run show ?thesis by (simp add: Let_def)
qed

section \<open>What a new client knows of its device\<close>

text \<open>The model is known, and the vendor is one of the model.\<close>

definition genuine :: "TrezorModel \<Rightarrow> 's trezor_client \<Rightarrow> bool" where
  "genuine m c \<longleftrightarrow> tc_model c = Some m \<and> (\<exists>v\<in>set (tm_vendors m). get_attr (tc_features c) ''vendor'' = Inr (text_of v))"

lemma get_set_attr: "get_attr v n = Inr x \<Longrightarrow> n \<noteq> m \<Longrightarrow> get_attr (set_attr m y v) n = Inr x"
  by (auto simp: get_attr_def set_attr_def update_conv' split: pbval.splits option.splits)

lemma by_name_known: "by_name models name = Some m \<Longrightarrow> name \<noteq> PbNone \<Longrightarrow> m \<in> set models"
  by (auto simp: by_name_def find_Some_iff)

lemma known_model_Inr:
  assumes "known_model tz features c = (Inr m, c')"
  shows "c' = c\<lparr>tc_model := Some m\<rparr>" and "case tc_model c of Some m' \<Rightarrow> m = m' | None \<Rightarrow> m \<in> set (tz_models tz)"
proof -
  have named: "(if truthy name then name else text_of ''1'') \<noteq> PbNone" for name
    by (auto simp: truthy_def text_of_def)
  show "c' = c\<lparr>tc_model := Some m\<rparr>"
    using assms by (cases "tc_model c") (auto simp: known_model_def split: sum.splits option.splits)
  show "case tc_model c of Some m' \<Rightarrow> m = m' | None \<Rightarrow> m \<in> set (tz_models tz)"
    using assms by (cases "tc_model c") (auto simp: known_model_def dest: by_name_known [OF _ named] split: sum.splits option.splits)
qed

lemma refresh_genuine:
  assumes "refresh_features_with tz features c = (Inr u, c')"
  shows "\<exists>m. genuine m c' \<and> (case tc_model c of Some m' \<Rightarrow> m = m' | None \<Rightarrow> m \<in> set (tz_models tz))
    \<and> tc_session_counter c' = tc_session_counter c"
proof -
  have "\<exists>m e. known_model tz features c = (Inr m, e) \<and> (\<exists>v\<in>set (tm_vendors m). get_attr features ''vendor'' = Inr (text_of v))
    \<and> tc_features c' \<in> {features, set_attr ''session_id'' PbNone features}
    \<and> tc_model c' = tc_model e \<and> tc_session_counter c' = tc_session_counter e"
    using assms by (auto simp: refresh_features_with_def io_bind_Inr split: if_splits sum.splits)
  then obtain m e where m: "known_model tz features c = (Inr m, e)" "\<exists>v\<in>set (tm_vendors m). get_attr features ''vendor'' = Inr (text_of v)"
    and c': "tc_features c' \<in> {features, set_attr ''session_id'' PbNone features}" "tc_model c' = tc_model e"
      "tc_session_counter c' = tc_session_counter e" by blast
  have "genuine m c'" using m(2) c' known_model_Inr(1) [OF m(1)] by (auto simp: genuine_def get_set_attr)
  with known_model_Inr [OF m(1)] c' show ?thesis by auto
qed

lemma closing_Inr: "closing tz m d = (Inr x, c') \<longleftrightarrow> (\<exists>e. m d = (Inr x, e) \<and> client_close tz e = (Inr (), c'))"
proof -
  obtain r e q f where "m d = (r, e)" "client_close tz e = (q, f)" by fastforce
  then show ?thesis by (auto simp: closing_def split: sum.splits)
qed

lemma session_Inr:
  "session tz m c = (Inr x, c') \<longleftrightarrow> (\<exists>d e. client_open tz c = (Inr (), d) \<and> m d = (Inr x, e) \<and> client_close tz e = (Inr (), c'))"
  by (auto simp: session_def io_bind_Inr closing_Inr)

lemma call_raw_keeps:
  "call_raw tz msg c = (r, d) \<Longrightarrow> tc_model d = tc_model c \<and> tc_session_counter d = tc_session_counter c"
  by (auto simp: call_raw_def raw_write_def raw_read_def on_world_def io_bind_def split: prod.splits sum.splits)

lemma init_genuine:
  assumes "init_device tz session_id False derive_cardano c = (Inr x, c')" and "tc_session_counter c = 0"
  shows "\<exists>m. genuine m c' \<and> (case tc_model c of Some m' \<Rightarrow> m = m' | None \<Rightarrow> m \<in> set (tz_models tz)) \<and> tc_session_counter c' = 0"
proof -
  obtain d d' e f where opened: "client_open tz c = (Inr (), d)" and refreshed: "refresh_features_with tz f d' = (Inr (), e)"
    and closed: "client_close tz e = (Inr (), c')" and called: "tc_model d' = tc_model d" "tc_session_counter d' = tc_session_counter d"
    using assms(1)
    by (auto simp: init_device_def session_Inr io_bind_Inr dest!: call_raw_keeps split: if_splits)
  have d: "tc_model d = tc_model c" "tc_session_counter d = 1"
    using opened assms(2) by (auto simp: client_open_def on_world_def io_bind_Inr split: prod.splits)
  obtain m where "genuine m e" "case tc_model c of Some m' \<Rightarrow> m = m' | None \<Rightarrow> m \<in> set (tz_models tz)" "tc_session_counter e = 1"
    using refresh_genuine [OF refreshed] called d by auto
  moreover have "tc_model c' = tc_model e" "tc_features c' = tc_features e" "tc_session_counter c' = tc_session_counter e - 1"
    using closed by (auto simp: client_close_def on_world_def Let_def split: prod.splits if_splits)
  ultimately show ?thesis by (auto simp: genuine_def)
qed

text \<open>
  C33: a client that was connected has a device of a known vendor. The constructor returns only when the device told its
  vendor and it is one of its model, and when the model was given or is one of the list; no session is left open.
\<close>

theorem trezor_client_genuine:
  assumes "TrezorClient tz session_id derive_cardano model True s = (Inr c, s')"
  shows "\<exists>m. genuine m c \<and> (case model of Some m' \<Rightarrow> m = m' | None \<Rightarrow> m \<in> set (tz_models tz)) \<and> tc_session_counter c = 0"
proof -
  let ?c = "unconnected session_id model s"
  obtain x where x: "init_device tz session_id False derive_cardano ?c = (Inr x, c)"
    using assms by (auto simp: TrezorClient_def split: prod.splits sum.splits)
  from init_genuine [OF this] show ?thesis by (simp add: unconnected_def)
qed

text \<open>A transport on which every message is answered with features, which are the defaults of their fields.\<close>

definition told :: "string \<Rightarrow> pbval \<Rightarrow> pb_field" where
  "told name v = \<lparr>fd_name = name, fd_type = ''bytes'', fd_repeated = False, fd_required = False, fd_default = v\<rparr>"

definition example_trezor :: "unit trezor" where
  "example_trezor =
     \<lparr>tz_begin_session = io_ret (), tz_end_session = io_ret (), tz_write = (\<lambda>_ _. io_ret ()), tz_read = io_ret (17, []),
      tz_get_pin = (\<lambda>_. io_fail Cancelled), tz_get_passphrase = (\<lambda>_. io_fail Cancelled), tz_button_request = (\<lambda>_. io_ret ()),
      tz_schema = \<lparr>sc_types = [(''Initialize'', MessageObj []), (''Features'', MessageObj
        [(1, told ''vendor'' (text_of ''trezor.io'')), (2, told ''major_version'' (PbInt 2)), (3, told ''minor_version'' (PbInt 1)),
         (4, told ''patch_version'' (PbInt 0)), (5, told ''bootloader_mode'' (PbBool False)), (21, told ''model'' (text_of ''T'')),
         (35, told ''session_id'' (PbBytes [7]))])], sc_str = (\<lambda>_. [])\<rparr>,
      tz_mapping = \<lparr>pm_type_to_class = [(17, ''Features'')], pm_class_to_type_override = []\<rparr>, tz_normalize = id,
      tz_models = TREZORS\<rparr>"

lemma features_told:
  "decode_message (tz_schema example_trezor) ''Features'' [] = Inr (PbMsg ''Features''
     [(''vendor'', text_of ''trezor.io''), (''major_version'', PbInt 2), (''minor_version'', PbInt 1), (''patch_version'', PbInt 0),
      (''bootloader_mode'', PbBool False), (''model'', text_of ''T''), (''session_id'', PbBytes [7])])"
  by (simp add: example_trezor_def told_def decode_message_def load_message.simps load_loop.simps load_uvarint_def uvarint_loop.simps
      preseed_def check_required_def io_bind_def EOFError_def)

lemma initialize_sent: "mapping_encode (tz_schema example_trezor) (tz_mapping example_trezor) (new_message ''Initialize'' kwargs) = Inr (0, [])"
  by (simp add: example_trezor_def mapping_encode_def new_message_def class_wire_type_def class_lookup Initialize_class_def dump_message.simps Let_def)

lemma example_connected: "\<exists>c. TrezorClient example_trezor PbNone PbNone None True () = (Inr c, ())"
proof -
  have step: "tz_begin_session example_trezor = io_ret ()" "tz_end_session example_trezor = io_ret ()" "tz_write example_trezor = (\<lambda>_ _. io_ret ())"
    "tz_read example_trezor = io_ret (17, [])" "map_of (pm_type_to_class (tz_mapping example_trezor)) 17 = Some ''Features''"
    "tz_models example_trezor = TREZORS"
    by (simp_all add: example_trezor_def)
  have model: "by_name TREZORS (text_of ''T'') = Some T2T1"
    by (simp add: by_name_def TREZORS_def T1B1_def T2T1_def text_of_def)
  have vendor: "text_of ''trezor.io'' \<in> text_of ` set (tm_vendors T2T1)" by (simp add: T2T1_def VENDORS_def)
  have version: "tuple_less [PbInt 2, PbInt 1, PbInt 0] (tm_minimum_version T2T1) = Inr False"
    by (simp add: T2T1_def number_of_def)
  have "truthy (text_of ''T'')" by (simp add: truthy_def text_of_def)
  with model vendor version show ?thesis
    by (simp add: TrezorClient_def init_device_def session_def closing_def client_open_def client_close_def on_world_def
      io_bind_def unconnected_def call_raw_def raw_write_def raw_read_def initialize_sent refresh_features_with_def known_model_def
      mapping_decode_def step features_told get_attr_def is_a_def is_outdated_def truthy_def)
qed

theorem trezor_client_genuine_witness:
  "\<exists>m c. TrezorClient example_trezor PbNone PbNone None True () = (Inr c, ()) \<and> genuine m c \<and> m \<in> set TREZORS \<and> tc_session_counter c = 0"
proof -
  obtain c where run: "TrezorClient example_trezor PbNone PbNone None True () = (Inr c, ())" using example_connected by blast
  from trezor_client_genuine [OF this] run show ?thesis by (auto simp: example_trezor_def)
qed

end
