(* ===== verification/Trezor_Driver_Spec.thy ===== *)
theory Trezor_Driver_Spec
  imports Trezor_Driver Trezor_Client_Spec
begin

text \<open>
  What \<open>sign_tx\<close> of the driver for Trezor devices does to a PSBT: its loop ends, it adds signatures and nothing else, and
  it adds all that the device can make.
\<close>

section \<open>The number of passes\<close>

text \<open>The loop as it is written: it ends when the passes are done or one raises.\<close>

inductive passes_run :: "'s trezor_host \<Rightarrow> bytes \<Rightarrow> nat \<Rightarrow> nat \<Rightarrow> PSBT \<Rightarrow> 's trezor_device \<Rightarrow> PSBT result \<Rightarrow> 's trezor_device \<Rightarrow> bool"
  for th :: "'s trezor_host" and master_fp :: bytes
where
  finished: "\<not> p < passes \<Longrightarrow> passes_run th master_fp p passes psbt d (Inr psbt) d"
| raised: "p < passes \<Longrightarrow> sign_pass th master_fp passes psbt d = (Inl e, d') \<Longrightarrow> passes_run th master_fp p passes psbt d (Inl e) d'"
| again: "p < passes \<Longrightarrow> sign_pass th master_fp passes psbt d = (Inr (passes', psbt'), d') \<Longrightarrow>
    passes_run th master_fp (p + 1) passes' psbt' d' r d'' \<Longrightarrow> passes_run th master_fp p passes psbt d r d''"

text \<open>What the driver knows of an input before it looks for a key; signatures play no part in it.\<close>

definition before_spend :: "crypto \<Rightarrow> (bytes, KeyOriginInfo) dict \<Rightarrow> nat \<Rightarrow> PartiallySignedInput \<Rightarrow>
    (bool \<times> bool \<times> bool \<times> bytes \<times> pbval option \<times> pbval) option result" where
  "before_spend cr xpubs input_num psbt_in =
     (case (pi_prev_out psbt_in, pi_sequence psbt_in) of
        (Some prev_out, Some sequence) \<Rightarrow>
          (let txin = new_message ''TxInputType'' [(''prev_hash'', PbBytes (rev (pi_prev_txid psbt_in))),
                 (''prev_index'', PbInt prev_out), (''sequence'', PbInt sequence)] in
           res_bind (spent_output input_num prev_out psbt_in) (\<lambda>utxo.
           case utxo of None \<Rightarrow> Inr None | Some utxo \<Rightarrow>
           case behind_hash is_p2sh (pi_redeem_script psbt_in) (scriptPubKey utxo) of None \<Rightarrow> Inr None | Some (scriptcode, p2sh) \<Rightarrow>
           case is_witness scriptcode of (is_wit, wit_ver, _) \<Rightarrow>
           let txin = set_attr ''amount'' (PbInt (nValue utxo)) (input_script_type is_wit wit_ver p2sh txin) in
           case behind_hash is_p2wsh (pi_witness_script psbt_in) scriptcode of None \<Rightarrow> Inr None | Some (scriptcode, p2wsh) \<Rightarrow>
           res_bind (trezor_parse_multisig cr scriptcode xpubs (pi_hd_keypaths psbt_in)) (\<lambda>multisig.
           Inr (Some (txout_is_p2sh utxo, is_wit, p2wsh, scriptcode, multisig, txin)))))
      | _ \<Rightarrow> Inl AssertionErr)"

lemma before_spend_signed [simp]: "before_spend cr xpubs n (i\<lparr>pi_partial_sigs := a, pi_tap_key_sig := b\<rparr>) = before_spend cr xpubs n i"
  by (simp add: before_spend_def spent_output_def cong del: option.case_cong_weak prod.case_cong_weak)

lemma prepare_input_split:
  "prepare_input cr chain se master_fp xpubs n i =
     res_bind (before_spend cr xpubs n i) (\<lambda>x. case x of None \<Rightarrow> Inr None
       | Some (u, w, ps, scriptcode, multisig, txin) \<Rightarrow>
           res_bind (spend_input chain se master_fp i u w ps scriptcode multisig txin) (\<lambda>p. Inr (Some p)))"
proof (cases "pi_prev_out i"; cases "pi_sequence i")
  fix prev_out sq assume io: "pi_prev_out i = Some prev_out" "pi_sequence i = Some sq"
  show ?thesis
  proof (cases "spent_output n prev_out i")
    case (Inr utxo)
    with io show ?thesis
      by (cases utxo) (auto simp: prepare_input_def before_spend_def Let_def res_bind_assoc split: option.split prod.split)
  qed (use io in \<open>simp add: prepare_input_def before_spend_def\<close>)
qed (simp_all add: prepare_input_def before_spend_def)

lemma spend_input_cases:
  assumes "spend_input chain se master_fp i u w ps scriptcode multisig txin' = Inr (txin, ignored, k)"
  obtains "k = 0" | txin'' where "choose_key chain se master_fp i txin'' = Inr (txin, ignored, k)"
  using assms by (cases multisig) (auto simp: spend_input_def Let_def external_input_def split: if_splits)

lemma key_search_bound: "ks_our_keys (key_search_of master_fp i ty) \<le> max 1 (length (pi_hd_keypaths i))"
proof -
  have taproot: "ks_our_keys (taproot_search master_fp i) \<le> 1" by (simp add: taproot_search_def Let_def split: option.split)
  have ecdsa: "length (filter P (pi_hd_keypaths i)) \<le> max 1 (length (pi_hd_keypaths i))" for P
    using length_filter_le [of P "pi_hd_keypaths i"] by linarith
  consider "ty \<in> set ECDSA_SCRIPT_TYPES" | "ty \<notin> set ECDSA_SCRIPT_TYPES" "ty \<in> set SCHNORR_SCRIPT_TYPES"
    | "ty \<notin> set ECDSA_SCRIPT_TYPES" "ty \<notin> set SCHNORR_SCRIPT_TYPES" by blast
  then show ?thesis
  proof cases
    case 1
    then have "ks_our_keys (key_search_of master_fp i ty) = length (filter (unsigned_key master_fp (pi_partial_sigs i)) (pi_hd_keypaths i))"
      by (simp only: key_search_of_def Let_def if_True ecdsa_search_found key_search.simps add_0)
    with ecdsa show ?thesis by metis
  next
    case 2
    then have "key_search_of master_fp i ty = taproot_search master_fp i" by (simp only: key_search_of_def Let_def if_True if_False)
    with taproot show ?thesis by (metis max.coboundedI1)
  next
    case 3
    then show ?thesis by (simp only: key_search_of_def Let_def if_False key_search.simps)
  qed
qed

lemma our_keys_bound:
  assumes "prepare_input cr chain se master_fp xpubs n i = Inr (Some (txin, ignored, k))"
  shows "k \<le> max 1 (length (pi_hd_keypaths i))"
proof -
  obtain u w ps scriptcode multisig txin' where "spend_input chain se master_fp i u w ps scriptcode multisig txin' = Inr (txin, ignored, k)"
    using prepare_input_spend [OF assms] by blast
  then show ?thesis
  proof (cases rule: spend_input_cases)
    case (2 txin'')
    then obtain ty where "k = 0 \<or> k = ks_our_keys (key_search_of master_fp i ty)"
      by (auto simp: choose_key_def Let_def external_input_def split: option.splits if_splits)
    then show ?thesis using key_search_bound [of master_fp i ty] by auto
  qed simp
qed

lemma prepare_inputs_Cons:
  assumes "prepare_inputs prepare m (i # ins) (inputs, ign, passes) = Inr (inputs', ign', passes')"
  obtains "prepare m i = Inr None" "prepare_inputs prepare (m + 1) ins (inputs, ign, passes) = Inr (inputs', ign', passes')"
  | txin g k where "prepare m i = Inr (Some (txin, g, k))"
      "prepare_inputs prepare (m + 1) ins (inputs @ [txin], if g then ign @ [m] else ign, max passes k) = Inr (inputs', ign', passes')"
  using assms by (cases "prepare m i") (auto split: option.splits)

lemma prepare_inputs_passes:
  "prepare_inputs prepare m ins (inputs, ign, passes) = Inr (inputs', ign', passes') \<Longrightarrow> passes \<le> passes'"
proof (induction ins arbitrary: m inputs ign passes)
  case (Cons i ins)
  from Cons.prems show ?case
  proof (cases rule: prepare_inputs_Cons)
    case (2 txin g k)
    from Cons.IH [OF this(2)] show ?thesis by simp
  qed (rule Cons.IH)
qed simp

lemma prepare_inputs_most:
  "prepare_inputs prepare m ins (inputs, ign, passes) = Inr (inputs', ign', passes') \<Longrightarrow> j < length ins \<Longrightarrow>
     prepare (m + j) (ins ! j) = Inr (Some (txin, g, k)) \<Longrightarrow> k \<le> passes'"
proof (induction ins arbitrary: m inputs ign passes j)
  case (Cons i ins)
  from Cons.prems(1) show ?case
  proof (cases rule: prepare_inputs_Cons)
    case 1
    with Cons.prems(2, 3) show ?thesis using Cons.IH [OF 1(2), of "j - 1"] by (cases j) auto
  next
    case (2 txin' g' k')
    show ?thesis
    proof (cases j)
      case 0
      with 2(1) Cons.prems(3) prepare_inputs_passes [OF 2(2)] show ?thesis by simp
    next
      case (Suc j')
      with Cons.prems(2, 3) show ?thesis using Cons.IH [OF 2(2), of j'] by simp
    qed
  qed
qed simp

lemma prepare_inputs_bound:
  assumes "prepare_inputs prepare m ins (inputs, ign, passes) = Inr (inputs', ign', passes')"
    and "\<And>i n txin g k. i \<in> set ins \<Longrightarrow> prepare n i = Inr (Some (txin, g, k)) \<Longrightarrow> k \<le> b" and "passes \<le> b"
  shows "passes' \<le> b"
  using assms
proof (induction ins arbitrary: m inputs ign passes)
  case (Cons i ins)
  have bound: "\<And>i n txin g k. i \<in> set ins \<Longrightarrow> prepare n i = Inr (Some (txin, g, k)) \<Longrightarrow> k \<le> b"
    using Cons.prems(2) by (metis list.set_intros(2))
  from Cons.prems(1) show ?case
  proof (cases rule: prepare_inputs_Cons)
    case 1
    from Cons.IH [OF 1(2) bound Cons.prems(3)] show ?thesis .
  next
    case (2 txin g k)
    with Cons.prems(2) [of i m txin g k] Cons.prems(3) have "max passes k \<le> b" by simp
    from Cons.IH [OF 2(2) bound this] show ?thesis .
  qed
qed simp

lemma foldr_max_least: "b \<le> foldr max xs b" for b :: nat
  by (induction xs) (simp_all add: le_max_iff_disj)

lemma foldr_max: "x \<in> set xs \<Longrightarrow> max b x \<le> foldr max xs b" for b :: nat
proof (induction xs)
  case (Cons y ys)
  with foldr_max_least [of b ys] show ?case by (auto simp: le_max_iff_disj)
qed simp

lemma pass_bound_positive: "1 \<le> pass_bound psbt"
  unfolding pass_bound_def by (rule foldr_max_least)

lemma pass_bound_keys: "i \<in> set (ps_inputs psbt) \<Longrightarrow> max 1 (length (pi_hd_keypaths i)) \<le> pass_bound psbt"
  unfolding pass_bound_def by (rule foldr_max) simp

section \<open>One pass\<close>

lemma on_trezor_Inr: "on_trezor m d = (Inr x, d') \<longleftrightarrow> (\<exists>c. m (td_client d) = (Inr x, c) \<and> d' = d\<lparr>td_client := c\<rparr>)"
  by (auto simp: on_trezor_def split: prod.split)

lemma sign_tx_length: "sign_tx fuel tz coin_name inputs outputs details prev_txes preauthorized kwargs c = (Inr (sigs, tx), c') \<Longrightarrow>
    length sigs = length inputs"
  by (auto simp: sign_tx_def session_Inr dest: sign_tx_body_length)

lemma sign_pass_Inr:
  assumes "sign_pass th master_fp passes psbt d = (Inr (passes', psbt'), d')"
  obtains inputs to_ignore sigs ins where
    "prepare_inputs (prepare_input (th_cr th) (td_chain d) (supports_external d) master_fp (ps_xpub psbt)) 0 (ps_inputs psbt) ([], [], passes)
       = Inr (inputs, to_ignore, passes')"
    "length sigs = length inputs" "store_signatures master_fp to_ignore 0 (ps_inputs psbt) sigs = Inr ins" "psbt' = psbt\<lparr>ps_inputs := ins\<rparr>"
  using assms unfolding sign_pass_def io_bind_Inr io_simps prod.case_eq_if on_trezor_Inr Pair_inject
  apply (elim exE conjE)
  subgoal premises run for x s1 outputs s2 prevtxs s3 version s4 lock_time s5 signed s6 c ins
  proof (rule that)
    show "length (fst signed) = length (fst x)" using run by (metis prod.collapse sign_tx_length)
  qed (use run in \<open>auto simp: prod_eq_iff\<close>)
  done

text \<open>What stays the same.\<close>

definition psbt_only_signed :: "PSBT \<Rightarrow> PSBT \<Rightarrow> bool" where
  "psbt_only_signed psbt psbt' \<longleftrightarrow> psbt' = psbt\<lparr>ps_inputs := ps_inputs psbt'\<rparr> \<and> list_all2 only_signed (ps_inputs psbt) (ps_inputs psbt')"

lemma psbt_only_signed_refl: "psbt_only_signed psbt psbt"
  by (simp add: psbt_only_signed_def list_all2_refl)

lemma psbt_only_signed_trans:
  assumes "psbt_only_signed a b" and "psbt_only_signed b c" shows "psbt_only_signed a c"
proof -
  have "c = a\<lparr>ps_inputs := ps_inputs c\<rparr>" using assms unfolding psbt_only_signed_def by (cases a; cases b; cases c) simp
  with assms show ?thesis unfolding psbt_only_signed_def using list_all2_trans [of only_signed only_signed only_signed] only_signed_trans by blast
qed

lemma sign_pass_only_signed:
  assumes "sign_pass th master_fp passes psbt d = (Inr (passes', psbt'), d')" shows "psbt_only_signed psbt psbt'"
  using assms by (rule sign_pass_Inr) (simp add: psbt_only_signed_def store_signatures_only)

lemma only_signed_keypaths: "only_signed i i' \<Longrightarrow> pi_hd_keypaths i' = pi_hd_keypaths i"
  by (cases i; cases i') (simp add: only_signed_def)

lemma pass_bound_only_signed: "psbt_only_signed psbt psbt' \<Longrightarrow> pass_bound psbt' = pass_bound psbt"
proof -
  assume "psbt_only_signed psbt psbt'"
  then have "list_all2 only_signed (ps_inputs psbt) (ps_inputs psbt')" by (simp add: psbt_only_signed_def)
  then have "map (\<lambda>i. length (pi_hd_keypaths i)) (ps_inputs psbt') = map (\<lambda>i. length (pi_hd_keypaths i)) (ps_inputs psbt)"
    by (induction rule: list_all2_induct) (simp_all add: only_signed_keypaths)
  then show ?thesis by (simp add: pass_bound_def)
qed

lemma sign_pass_bounded:
  assumes "sign_pass th master_fp passes psbt d = (Inr (passes', psbt'), d')" and "passes \<le> pass_bound psbt"
  shows "passes \<le> passes'" and "passes' \<le> pass_bound psbt'"
proof -
  have keys: "k \<le> pass_bound psbt" if "i \<in> set (ps_inputs psbt)"
      "prepare_input (th_cr th) (td_chain d) (supports_external d) master_fp (ps_xpub psbt) n i = Inr (Some (txin, g, k))" for i n txin g k
    using our_keys_bound [OF that(2)] pass_bound_keys [OF that(1)] by linarith
  have same: "pass_bound psbt' = pass_bound psbt" using sign_pass_only_signed [OF assms(1)] by (rule pass_bound_only_signed)
  obtain inputs to_ignore where
    run: "prepare_inputs (prepare_input (th_cr th) (td_chain d) (supports_external d) master_fp (ps_xpub psbt)) 0 (ps_inputs psbt) ([], [], passes)
       = Inr (inputs, to_ignore, passes')" using assms(1) by (rule sign_pass_Inr)
  show "passes \<le> passes'" using run by (rule prepare_inputs_passes)
  show "passes' \<le> pass_bound psbt'" unfolding same by (rule prepare_inputs_bound [OF run keys assms(2)])
qed

section \<open>The loop ends\<close>

lemma sign_passes_again:
  assumes "p < passes"
  shows "sign_passes (Suc n) th master_fp p passes psbt d =
    (case sign_pass th master_fp passes psbt d of
       (Inl e, d') \<Rightarrow> (Inl e, d') | (Inr (passes', psbt'), d') \<Rightarrow> sign_passes n th master_fp (p + 1) passes' psbt' d')"
  using assms by (simp add: io_bind_def split: prod.split sum.split)

lemma sign_passes_run:
  assumes "passes \<le> pass_bound psbt" and "pass_bound psbt \<le> p + n"
  shows "passes_run th master_fp p passes psbt d (fst (sign_passes n th master_fp p passes psbt d)) (snd (sign_passes n th master_fp p passes psbt d))"
  using assms
proof (induction n arbitrary: p passes psbt d)
  case 0
  then show ?case by (simp add: passes_run.finished)
next
  case (Suc n)
  show ?case
  proof (cases "p < passes")
    case True
    note unfold = sign_passes_again [OF True, of n th master_fp psbt d]
    obtain r d' where pass: "sign_pass th master_fp passes psbt d = (r, d')" by fastforce
    show ?thesis
    proof (cases r)
      case (Inl e)
      then show ?thesis using passes_run.raised [OF True] pass unfold by simp
    next
      case (Inr x)
      then obtain passes' psbt' where x: "sign_pass th master_fp passes psbt d = (Inr (passes', psbt'), d')" using pass by (cases x) simp
      note b = sign_pass_bounded [OF x Suc.prems(1)] pass_bound_only_signed [OF sign_pass_only_signed [OF x]]
      have "passes_run th master_fp (p + 1) passes' psbt' d'
          (fst (sign_passes n th master_fp (p + 1) passes' psbt' d')) (snd (sign_passes n th master_fp (p + 1) passes' psbt' d'))"
        by (rule Suc.IH) (use b Suc.prems(2) in simp_all)
      then show ?thesis using passes_run.again [OF True x] x unfold by simp
    qed
  qed (simp add: passes_run.finished)
qed

inductive_cases passes_runE: "passes_run th master_fp p passes psbt d r d'"

lemma passes_run_unique:
  "passes_run th master_fp p passes psbt d r d' \<Longrightarrow> passes_run th master_fp p passes psbt d r2 d2 \<Longrightarrow> r2 = r \<and> d2 = d'"
proof (induction arbitrary: r2 d2 rule: passes_run.induct)
  case (finished p passes psbt d)
  then show ?case by (auto elim: passes_runE)
next
  case (raised p passes psbt d e d')
  from raised.prems show ?case by (rule passes_runE) (use raised.hyps in auto)
next
  case (again p passes psbt d passes' psbt' d' r d'')
  from again.prems have "passes_run th master_fp (p + 1) passes' psbt' d' r2 d2"
    by (rule passes_runE) (use again.hyps in auto)
  then show ?case by (rule again.IH)
qed

text \<open>
  C40: the loop of \<open>sign_tx\<close> ends, whatever the device answers. The number of passes is raised while it runs, but never above
  the greatest number of keys of an input, so the loop with this many rounds does what the loop as it is written does.
\<close>

theorem trezor_passes_end:
  "passes_run th master_fp 0 1 psbt d r d' \<longleftrightarrow> sign_passes (pass_bound psbt) th master_fp 0 1 psbt d = (r, d')"
proof -
  have "passes_run th master_fp 0 1 psbt d (fst (sign_passes (pass_bound psbt) th master_fp 0 1 psbt d))
      (snd (sign_passes (pass_bound psbt) th master_fp 0 1 psbt d))"
    by (rule sign_passes_run) (simp_all add: pass_bound_positive [unfolded One_nat_def])
  then show ?thesis by (metis passes_run_unique prod.collapse fst_conv snd_conv)
qed

section \<open>Nothing but signatures is added\<close>

lemma passes_run_only_signed: "passes_run th master_fp p passes psbt d r d' \<Longrightarrow> r = Inr psbt' \<Longrightarrow> psbt_only_signed psbt psbt'"
  by (induction arbitrary: psbt' rule: passes_run.induct)
    (auto intro: psbt_only_signed_refl psbt_only_signed_trans [OF sign_pass_only_signed])

lemma sign_passes_only_signed:
  assumes "sign_passes (pass_bound psbt) th master_fp 0 1 psbt d = (Inr psbt', d')" shows "psbt_only_signed psbt psbt'"
proof -
  have "passes_run th master_fp 0 1 psbt d (Inr psbt') d'"
    using sign_passes_run [of 1 psbt 0 "pass_bound psbt" th master_fp d] assms by (simp add: pass_bound_positive [unfolded One_nat_def])
  then show ?thesis by (rule passes_run_only_signed) simp
qed

lemma trezor_exception_Inr: "trezor_exception name f s = (Inr x, s') \<longleftrightarrow> f s = (Inr x, s')"
  by (auto simp: trezor_exception_def split: prod.splits sum.splits)

text \<open>
  C39: signing adds signatures and nothing else. A PSBT that \<open>sign_tx\<close> returns differs from the one it was given only in the
  inputs, these only in their signatures, and the signatures that were there are kept.
\<close>

theorem trezor_sign_keeps:
  "case fst (trezor_sign_psbt th psbt registered_descriptors d) of Inl e \<Rightarrow> True | Inr psbt' \<Rightarrow> psbt_only_signed psbt psbt'"
proof (cases "fst (trezor_sign_psbt th psbt registered_descriptors d)")
  case (Inr psbt')
  then obtain d' where "trezor_sign_psbt th psbt registered_descriptors d = (Inr psbt', d')" by (metis prod.collapse)
  then have "\<exists>master_fp d d'. sign_passes (pass_bound psbt) th master_fp 0 1 psbt d = (Inr psbt', d')"
    unfolding trezor_sign_psbt_def trezor_exception_Inr by (auto simp: io_bind_Inr split: if_splits)
  with Inr show ?thesis using sign_passes_only_signed by auto
qed simp

section \<open>All signatures are made\<close>

text \<open>The number of keys of the device an input has no signature for.\<close>

definition missing :: "bytes \<Rightarrow> PartiallySignedInput \<Rightarrow> nat" where
  "missing master_fp i = length (filter (unsigned_key master_fp (pi_partial_sigs i)) (pi_hd_keypaths i))"

lemma missing_0:
  "missing master_fp i = 0 \<longleftrightarrow> (\<forall>(key, origin)\<in>set (pi_hd_keypaths i). ko_fingerprint origin = master_fp \<longrightarrow> dict_has (pi_partial_sigs i) key)"
  by (auto simp: missing_def filter_empty_conv)

lemma map_le_dict_has: "map_of d \<subseteq>\<^sub>m map_of d' \<Longrightarrow> dict_has d k \<Longrightarrow> dict_has d' k"
  using map_le_implies_dom_le [of "map_of d" "map_of d'"] by (auto simp: dict_has_def dom_map_of_conv_image_fst)

lemma missing_only_signed:
  assumes "only_signed i i'" and "missing master_fp i = 0" shows "missing master_fp i' = 0"
proof -
  have "map_of (pi_partial_sigs i) \<subseteq>\<^sub>m map_of (pi_partial_sigs i')" using assms(1) by (simp add: only_signed_def)
  from map_le_dict_has [OF this] assms(2) show ?thesis unfolding missing_0 only_signed_keypaths [OF assms(1)] by blast
qed

text \<open>A signature that is stored is one of the missing ones.\<close>

lemma missing_store:
  assumes "0 < missing master_fp i"
  shows "missing master_fp (store_signature master_fp sig i) < missing master_fp i"
proof -
  let ?P = "unsigned_key master_fp (pi_partial_sigs i)"
  have "find ?P (pi_hd_keypaths i) \<noteq> None" using assms by (auto simp: missing_def find_None_iff filter_empty_conv)
  then obtain key origin where found: "find ?P (pi_hd_keypaths i) = Some (key, origin)" by auto
  then have key: "(key, origin) \<in> set (pi_hd_keypaths i)" "?P (key, origin)" by (auto simp: find_Some_iff in_set_conv_nth)
  let ?Q = "unsigned_key master_fp (AList.update key (sig @ [1]) (pi_partial_sigs i))"
  have Q: "?Q = (\<lambda>x. ?P x \<and> fst x \<noteq> key)" by (auto simp: dict_has_def dom_update fun_eq_iff)
  have "missing master_fp (store_signature master_fp sig i) = length (filter ?Q (pi_hd_keypaths i))"
    using found by (simp add: missing_def store_signature_def Let_def)
  also have "\<dots> = length (filter (\<lambda>x. fst x \<noteq> key) (filter ?P (pi_hd_keypaths i)))"
    unfolding Q by (simp add: conj_commute)
  also have "\<dots> < missing master_fp i"
    unfolding missing_def by (rule length_filter_less [of "(key, origin)"]) (use key in auto)
  finally show ?thesis .
qed

text \<open>An input that is not one of others, and is signed with ECDSA: only its signatures decide what is sent for it.\<close>

definition signable :: "crypto \<Rightarrow> (bytes, KeyOriginInfo) dict \<Rightarrow> nat \<Rightarrow> PartiallySignedInput \<Rightarrow> bool" where
  "signable cr xpubs n i \<longleftrightarrow> (\<exists>txin ty. get_attr txin ''script_type'' = Inr ty \<and> ty \<in> set ECDSA_SCRIPT_TYPES
     \<and> (\<forall>chain se master_fp a b. prepare_input cr chain se master_fp xpubs n (i\<lparr>pi_partial_sigs := a, pi_tap_key_sig := b\<rparr>)
          = res_bind (choose_key chain se master_fp (i\<lparr>pi_partial_sigs := a, pi_tap_key_sig := b\<rparr>) txin) (\<lambda>p. Inr (Some p))))"

lemma signable_only_signed:
  assumes "signable cr xpubs n i" and "only_signed i i'" shows "signable cr xpubs n i'"
proof -
  from assms(2) have "i' = i\<lparr>pi_partial_sigs := pi_partial_sigs i', pi_tap_key_sig := pi_tap_key_sig i'\<rparr>" by (simp add: only_signed_def)
  then have "i'\<lparr>pi_partial_sigs := a, pi_tap_key_sig := b\<rparr> = i\<lparr>pi_partial_sigs := a, pi_tap_key_sig := b\<rparr>" for a b
    by (cases i; cases i') simp
  with assms(1) show ?thesis unfolding signable_def by metis
qed

lemma spend_input_same:
  assumes "spend_input chain se master_fp i u w ps scriptcode multisig txin' = Inr (txin, False, k)"
  obtains txin'' where "\<And>chain se master_fp i. spend_input chain se master_fp i u w ps scriptcode multisig txin'
     = choose_key chain se master_fp i txin''"
  using assms by (cases multisig) (auto simp: spend_input_def Let_def split: if_splits)

lemma signable_prepared:
  assumes "prepare_input cr chain se master_fp xpubs n i = Inr (Some (txin, False, k))"
    and "get_attr txin ''script_type'' = Inr ty" and "ty \<in> set ECDSA_SCRIPT_TYPES"
  shows "signable cr xpubs n i"
proof -
  obtain u w ps scriptcode multisig txin' where before: "before_spend cr xpubs n i = Inr (Some (u, w, ps, scriptcode, multisig, txin'))"
      and spent: "spend_input chain se master_fp i u w ps scriptcode multisig txin' = Inr (txin, False, k)"
    using assms(1) by (auto simp: prepare_input_split split: option.splits)
  from spent obtain txin'' where same: "\<And>chain se master_fp i. spend_input chain se master_fp i u w ps scriptcode multisig txin'
     = choose_key chain se master_fp i txin''" by (rule spend_input_same) blast
  have "get_attr txin'' ''script_type'' = Inr ty"
    using spent assms(2) unfolding same
    by (auto simp: choose_key_def Let_def get_attr_set_attr split: option.splits if_splits)
  then show ?thesis unfolding signable_def prepare_input_split before_spend_signed using assms(3) before same by auto
qed

lemma signable_missing:
  assumes "signable cr xpubs n i" and "0 < missing master_fp i"
  shows "\<exists>txin. prepare_input cr chain se master_fp xpubs n i = Inr (Some (txin, False, missing master_fp i))"
proof -
  obtain txin ty where ty: "get_attr txin ''script_type'' = Inr ty" "ty \<in> set ECDSA_SCRIPT_TYPES"
    and same: "\<And>a b. prepare_input cr chain se master_fp xpubs n (i\<lparr>pi_partial_sigs := a, pi_tap_key_sig := b\<rparr>)
          = res_bind (choose_key chain se master_fp (i\<lparr>pi_partial_sigs := a, pi_tap_key_sig := b\<rparr>) txin) (\<lambda>p. Inr (Some p))"
    using assms(1) unfolding signable_def by blast
  from same [of "pi_tap_key_sig i" "pi_partial_sigs i"]
  have prepare: "prepare_input cr chain se master_fp xpubs n i = res_bind (choose_key chain se master_fp i txin) (\<lambda>p. Inr (Some p))" by simp
  have "find (unsigned_key master_fp (pi_partial_sigs i)) (pi_hd_keypaths i) \<noteq> None"
    using assms(2) by (auto simp: missing_def find_None_iff filter_empty_conv)
  then show ?thesis unfolding prepare using ty by (auto simp: choose_key_def key_search_of_def ecdsa_search_found Let_def missing_def)
qed

lemma store_signatures_nth:
  "store_signatures master_fp to_ignore m ins sigs = Inr ins' \<Longrightarrow> length sigs = length ins \<Longrightarrow> j < length ins \<Longrightarrow>
     m + j \<notin> set to_ignore \<Longrightarrow> \<exists>sig. ins' ! j = store_signature master_fp sig (ins ! j)"
proof (induction ins arbitrary: m sigs ins' j)
  case (Cons i ins)
  then obtain sig sigs' where sigs: "sigs = sig # sigs'" by (cases sigs) auto
  with Cons.prems(1) obtain i' rest where rest: "store_signatures master_fp to_ignore (m + 1) ins sigs' = Inr rest" "ins' = i' # rest"
    and i': "m \<notin> set to_ignore \<Longrightarrow> \<exists>b. i' = store_signature master_fp b i"
    by (auto split: if_splits pbval.splits)
  show ?case
  proof (cases j)
    case 0
    with i' rest Cons.prems(4) show ?thesis by simp
  next
    case (Suc k)
    with Cons.IH [OF rest(1), of k] Cons.prems(2-4) sigs rest(2) show ?thesis by simp
  qed
qed simp

text \<open>No input is left out.\<close>

definition none_skipped :: "crypto \<Rightarrow> PSBT \<Rightarrow> bool" where
  "none_skipped cr psbt \<longleftrightarrow> (\<forall>n<length (ps_inputs psbt). before_spend cr (ps_xpub psbt) n (ps_inputs psbt ! n) \<noteq> Inr None)"

lemma prepare_input_None: "prepare_input cr chain se master_fp xpubs n i = Inr None \<longleftrightarrow> before_spend cr xpubs n i = Inr None"
  by (auto simp: prepare_input_split split: option.splits)

lemma none_skipped_only_signed:
  assumes "none_skipped cr psbt" and "psbt_only_signed psbt psbt'" shows "none_skipped cr psbt'"
proof -
  have "ps_xpub psbt' = ps_xpub psbt" using assms(2) unfolding psbt_only_signed_def by (cases psbt; cases psbt') simp
  moreover have all: "list_all2 only_signed (ps_inputs psbt) (ps_inputs psbt')" using assms(2) by (simp add: psbt_only_signed_def)
  moreover have "before_spend cr xpubs n i' = before_spend cr xpubs n i" if "only_signed i i'" for xpubs n i i'
    using that before_spend_signed unfolding only_signed_def by metis
  ultimately show ?thesis
    using assms(1) list_all2_lengthD [OF all] list_all2_nthD [OF all] unfolding none_skipped_def by metis
qed

lemma sign_pass_missing:
  assumes "sign_pass th master_fp passes psbt d = (Inr (passes', psbt'), d')" and "none_skipped (th_cr th) psbt"
    and "n < length (ps_inputs psbt)" and "signable (th_cr th) (ps_xpub psbt) n (ps_inputs psbt ! n)"
  shows "passes \<le> passes'"
    and "missing master_fp (ps_inputs psbt' ! n) \<le> missing master_fp (ps_inputs psbt ! n) - 1"
    and "missing master_fp (ps_inputs psbt ! n) \<le> passes'"
proof -
  let ?prepare = "prepare_input (th_cr th) (td_chain d) (supports_external d) master_fp (ps_xpub psbt)" and ?i = "ps_inputs psbt ! n"
  obtain inputs to_ignore sigs ins where run: "prepare_inputs ?prepare 0 (ps_inputs psbt) ([], [], passes) = Inr (inputs, to_ignore, passes')"
    "length sigs = length inputs" "store_signatures master_fp to_ignore 0 (ps_inputs psbt) sigs = Inr ins" "psbt' = psbt\<lparr>ps_inputs := ins\<rparr>"
    using assms(1) by (rule sign_pass_Inr)
  show "passes \<le> passes'" using run(1) by (rule prepare_inputs_passes)
  have "length inputs = length (ps_inputs psbt) \<and> (\<forall>j<length (ps_inputs psbt). \<exists>ignored our_keys.
      ?prepare j (ps_inputs psbt ! j) = Inr (Some (inputs ! j, ignored, our_keys)) \<and> (ignored \<longleftrightarrow> j \<in> set to_ignore))"
    using prepare_inputs_aligned [OF run(1)] assms(2) by (auto simp: none_skipped_def prepare_input_None)
  then have aligned: "length sigs = length (ps_inputs psbt)"
    and ignored: "?prepare n ?i = Inr (Some (txin, g, k)) \<Longrightarrow> g \<longleftrightarrow> n \<in> set to_ignore" for txin g k
    using run(2) assms(3) by auto
  have only: "only_signed ?i (ins ! n)"
    using store_signatures_only [OF run(3)] assms(3) by (simp add: list_all2_conv_all_nth)
  have *: "missing master_fp (ins ! n) \<le> missing master_fp ?i - 1 \<and> missing master_fp ?i \<le> passes'"
  proof (cases "missing master_fp ?i = 0")
    case True
    with missing_only_signed [OF only] show ?thesis by simp
  next
    case False
    then obtain txin where txin: "?prepare n ?i = Inr (Some (txin, False, missing master_fp ?i))"
      using signable_missing [OF assms(4)] by blast
    then have "n \<notin> set to_ignore" using ignored by blast
    then obtain sig where "ins ! n = store_signature master_fp sig ?i"
      using store_signatures_nth [OF run(3) aligned assms(3)] by auto
    moreover have "missing master_fp ?i \<le> passes'" using prepare_inputs_most [OF run(1) assms(3), of txin False] txin by simp
    ultimately show ?thesis using missing_store [of master_fp ?i sig] False by simp
  qed
  then show "missing master_fp (ps_inputs psbt' ! n) \<le> missing master_fp ?i - 1" "missing master_fp ?i \<le> passes'"
    by (simp_all add: run(4))
qed

lemma signable_pass:
  assumes "sign_pass th master_fp passes psbt d = (Inr (passes', psbt'), d')" and "none_skipped (th_cr th) psbt"
    and "n < length (ps_inputs psbt)" and "signable (th_cr th) (ps_xpub psbt) n (ps_inputs psbt ! n)"
  shows "none_skipped (th_cr th) psbt'" and "n < length (ps_inputs psbt')" and "signable (th_cr th) (ps_xpub psbt') n (ps_inputs psbt' ! n)"
proof -
  note only = sign_pass_only_signed [OF assms(1)]
  then have all: "list_all2 only_signed (ps_inputs psbt) (ps_inputs psbt')" by (simp add: psbt_only_signed_def)
  have "ps_xpub psbt' = ps_xpub psbt" using only unfolding psbt_only_signed_def by (cases psbt; cases psbt') simp
  with signable_only_signed [OF assms(4) list_all2_nthD [OF all assms(3)]]
  show "signable (th_cr th) (ps_xpub psbt') n (ps_inputs psbt' ! n)" by simp
  show "none_skipped (th_cr th) psbt'" using assms(2) only by (rule none_skipped_only_signed)
  show "n < length (ps_inputs psbt')" using list_all2_lengthD [OF all] assms(3) by simp
qed

lemma passes_run_missing:
  "passes_run th master_fp p passes psbt d r d' \<Longrightarrow> r = Inr psbt' \<Longrightarrow> none_skipped (th_cr th) psbt \<Longrightarrow> n < length (ps_inputs psbt) \<Longrightarrow>
     signable (th_cr th) (ps_xpub psbt) n (ps_inputs psbt ! n) \<Longrightarrow> missing master_fp (ps_inputs psbt ! n) \<le> passes - p \<Longrightarrow>
     missing master_fp (ps_inputs psbt' ! n) = 0"
proof (induction rule: passes_run.induct)
  case (again p passes psbt d passes' psbt' d' r d'')
  note pass = sign_pass_missing [OF again.hyps(2) again.prems(2-4)] signable_pass [OF again.hyps(2) again.prems(2-4)]
  have "missing master_fp (ps_inputs psbt' ! n) \<le> passes' - (p + 1)"
    using pass(1, 2) again.prems(5) by linarith
  then show ?case using again.IH again.prems(1) pass(4-6) by blast
qed simp_all

text \<open>
  C37: the driver makes all the signatures it can. When no input lacks what \<open>sign_tx\<close> must know of it, then after the passes
  every key with the fingerprint of the device has a signature, in every input that is signed with ECDSA and not treated
  as one of others.
\<close>

theorem trezor_signs_all:
  assumes "sign_passes (pass_bound psbt) th master_fp 0 1 psbt d = (Inr psbt', d')"
    and "\<forall>n<length (ps_inputs psbt).
      prepare_input (th_cr th) (td_chain d) (supports_external d) master_fp (ps_xpub psbt) n (ps_inputs psbt ! n) \<noteq> Inr None"
    and "n < length (ps_inputs psbt)"
    and "prepare_input (th_cr th) (td_chain d) (supports_external d) master_fp (ps_xpub psbt) n (ps_inputs psbt ! n)
      = Inr (Some (txin, False, k))"
    and "get_attr txin ''script_type'' = Inr ty" and "ty \<in> set ECDSA_SCRIPT_TYPES"
    and "(key, origin) \<in> set (pi_hd_keypaths (ps_inputs psbt ! n))" and "ko_fingerprint origin = master_fp"
  shows "dict_has (pi_partial_sigs (ps_inputs psbt' ! n)) key"
proof -
  have none: "none_skipped (th_cr th) psbt" using assms(2) by (simp add: none_skipped_def prepare_input_None)
  have signable: "signable (th_cr th) (ps_xpub psbt) n (ps_inputs psbt ! n)" using assms(4-6) by (rule signable_prepared)
  have run: "passes_run th master_fp 0 1 psbt d (Inr psbt') d'"
    using sign_passes_run [of 1 psbt 0 "pass_bound psbt" th master_fp d] assms(1) by (simp add: pass_bound_positive [unfolded One_nat_def])
  then obtain passes' psbt1 d1 where pass: "sign_pass th master_fp 1 psbt d = (Inr (passes', psbt1), d1)"
      and rest: "passes_run th master_fp (0 + 1) passes' psbt1 d1 (Inr psbt') d'"
    by (auto elim: passes_runE)
  note first = sign_pass_missing [OF pass none assms(3) signable] signable_pass [OF pass none assms(3) signable]
  have "missing master_fp (ps_inputs psbt1 ! n) \<le> passes' - (0 + 1)" using first(2, 3) by linarith
  from passes_run_missing [OF rest refl first(4-6) this] have "missing master_fp (ps_inputs psbt' ! n) = 0" .
  moreover have "psbt_only_signed psbt psbt'" using run by (rule passes_run_only_signed) simp
  then have "pi_hd_keypaths (ps_inputs psbt' ! n) = pi_hd_keypaths (ps_inputs psbt ! n)"
    using assms(3) list_all2_nthD only_signed_keypaths unfolding psbt_only_signed_def by metis
  ultimately show ?thesis using assms(7, 8) unfolding missing_0 by auto
qed

section \<open>A device that signs\<close>

text \<open>The messages of a device that signs the first input at once.\<close>

definition sample_request :: pbval where
  "sample_request = new_message ''SignTx'' [(''coin_name'', PbStr []), (''inputs_count'', PbInt 1), (''outputs_count'', PbInt 0),
     (''version'', PbInt 2), (''lock_time'', PbInt 0), (''serialize'', PbBool False)]"

definition sample_answer :: pbval where
  "sample_answer = PbMsg ''TxRequest'' [(''request_type'', PbInt 3), (''details'', PbNone),
     (''serialized'', PbMsg ''TxRequestSerializedType'' [(''signature_index'', PbInt 0), (''signature'', PbBytes [48]), (''serialized_tx'', PbNone)])]"

lemma sample_request_eval:
  "sample_request = PbMsg ''SignTx'' [(''outputs_count'', PbInt 0), (''inputs_count'', PbInt 1), (''coin_name'', PbStr []), (''version'', PbInt 2),
     (''lock_time'', PbInt 0), (''expiry'', PbNone), (''overwintered'', PbNone), (''version_group_id'', PbNone), (''timestamp'', PbNone),
     (''branch_id'', PbNone), (''amount_unit'', PbInt 0), (''decred_staking_ticket'', PbBool False), (''serialize'', PbBool False)]"
  by (simp add: sample_request_def new_message_def class_lookup SignTx_class_def field_def constructor_defaults_def Let_def
      SignTx_init_def member_def AmountUnit_members_def)

lemma signing_typed:
  "typed (messages_schema py_str) True ''SignTx'' sample_request" "typed (messages_schema py_str) True ''TxRequest'' sample_answer"
proof -
  have lookup: "map_of (sc_types (messages_schema py_str)) ''SignTx'' = Some (MessageObj (snd SignTx_class))"
    "map_of (sc_types (messages_schema py_str)) ''TxRequest'' = Some (MessageObj (snd TxRequest_class))"
    "map_of (sc_types (messages_schema py_str)) ''TxRequestSerializedType'' = Some (MessageObj (snd TxRequestSerializedType_class))"
    using class_type class_lookup by (simp_all add: messages_schema_def)
  have numbers: "typed (messages_schema py_str) True ''uint32'' (PbInt n)" if "0 \<le> n" "n < 2 ^ 32" for n
    using that by (intro typed.unsigned) (simp_all add: in_range_def)
  have enums: "map_of (sc_types (messages_schema py_str)) ''AmountUnit'' = Some (EnumObj (map snd AmountUnit_members))"
    "map_of (sc_types (messages_schema py_str)) ''RequestType'' = Some (EnumObj (map snd RequestType_members))"
    by (rule enum_type, simp add: enumerations_def)+
  have "typed (messages_schema py_str) True ''AmountUnit'' (PbInt 0)"
    by (rule typed.enum [OF enums(1)]) (simp_all add: AmountUnit_members_def)
  then show "typed (messages_schema py_str) True ''SignTx'' sample_request"
    unfolding sample_request_eval
    by (intro typed.message [OF lookup(1)]) (simp_all add: SignTx_class_def field_def field_holds_def numbers typed.boolean typed.string)
  have part: "typed (messages_schema py_str) True ''TxRequestSerializedType''
      (PbMsg ''TxRequestSerializedType'' [(''signature_index'', PbInt 0), (''signature'', PbBytes [48]), (''serialized_tx'', PbNone)])"
    by (rule typed.message [OF lookup(3)]) (simp_all add: TxRequestSerializedType_class_def field_def field_holds_def numbers typed.bytes)
  have "typed (messages_schema py_str) True ''RequestType'' (PbInt 3)"
    by (rule typed.enum [OF enums(2)]) (simp_all add: RequestType_members_def)
  then show "typed (messages_schema py_str) True ''TxRequest'' sample_answer"
    unfolding sample_answer_def
    by (intro typed.message [OF lookup(2)]) (simp_all add: TxRequest_class_def field_def field_holds_def part)
qed

definition sample_host :: "mapping \<Rightarrow> bytes \<Rightarrow> unit trezor_host" where
  "sample_host pm bs =
     \<lparr>th_fuel = 0, th_cr = pad_crypto, th_nfc = id,
      th_computer = \<lparr>cp_getpass = (\<lambda>_. io_ret []), cp_input = io_ret [], cp_urandom = io_ret [], cp_time = io_ret 0\<rparr>,
      th_trezor = \<lparr>tz_begin_session = io_ret (), tz_end_session = io_ret (), tz_write = (\<lambda>_ _. io_ret ()), tz_read = io_ret (21, bs),
        tz_get_pin = (\<lambda>_. io_fail Cancelled), tz_get_passphrase = (\<lambda>_. io_fail Cancelled), tz_button_request = (\<lambda>_. io_ret ()),
        tz_schema = messages_schema (\<lambda>_. []), tz_mapping = pm, tz_normalize = id, tz_models = TREZORS\<rparr>\<rparr>"

definition sample_device :: "unit trezor_device" where
  "sample_device =
     \<lparr>td_client = \<lparr>tc_session_counter = 0, tc_session_id = PbNone, tc_model = Some T2T1,
        tc_features = PbMsg ''Features'' [(''bootloader_mode'', PbBool False)], tc_version = [PbInt 2, PbInt 8, PbInt 0],
        tc_world = (PassphraseUI_new [], ())\<rparr>,
      td_chain = MAIN, td_coin_name = [], td_password = None, td_simulator = False, td_type = ''Trezor''\<rparr>"

definition sample_psbt :: PSBT where
  "sample_psbt = (PSBT_new None)\<lparr>ps_inputs := [sample_input], ps_tx_version := Some 2, ps_version := 2\<rparr>"

lemma sample_call:
  assumes "mapping_encode (messages_schema (\<lambda>_. [])) pm sample_request = Inr (15, bs')"
    and "mapping_decode (messages_schema (\<lambda>_. [])) pm 21 bs = Inr sample_answer"
  shows "client_call 0 (th_trezor (sample_host pm bs)) sample_request True ((td_client sample_device)\<lparr>tc_session_counter := Suc 0\<rparr>)
    = (Inr sample_answer, (td_client sample_device)\<lparr>tc_session_counter := Suc 0\<rparr>)"
proof -
  have answer: "\<not> is_a ''PinMatrixRequest'' sample_answer" "\<not> is_a ''PassphraseRequest'' sample_answer" "\<not> is_a ''ButtonRequest'' sample_answer"
    "\<not> is_a ''Failure'' sample_answer"
    by (simp_all add: is_a_def sample_answer_def)
  show ?thesis
    by (simp add: client_call_def session_def closing_def client_open_def client_close_def check_firmware_version_def is_outdated_def io_bind_def
        call_raw_def raw_write_def raw_read_def on_world_def call_loop.simps answer assms sample_host_def sample_device_def get_attr_def truthy_def
        T2T1_def number_of_def Let_def)
qed

lemma sample_sign_tx:
  assumes "mapping_encode (messages_schema (\<lambda>_. [])) pm sample_request = Inr (15, bs')"
    and "mapping_decode (messages_schema (\<lambda>_. [])) pm 21 bs = Inr sample_answer"
  shows "sign_tx 0 (th_trezor (sample_host pm bs)) [] [sample_message] [] None [] False
      [(''version'', PbInt 2), (''lock_time'', PbInt 0), (''serialize'', PbBool False)] (td_client sample_device)
    = (Inr ([PbBytes [48]], []), td_client sample_device)"
proof -
  have request: "sign_request [] [sample_message] [] None [(''version'', PbInt 2), (''lock_time'', PbInt 0), (''serialize'', PbBool False)] = sample_request"
    unfolding sample_request_eval
    by (simp add: sign_request_def new_message_def class_lookup SignTx_class_def field_def constructor_defaults_def Let_def
      SignTx_init_def member_def AmountUnit_members_def get_attr_def set_attr_def)
  have version: "get_attr sample_request ''version'' = Inr (PbInt 2)" by (simp add: sample_request_eval get_attr_def)
  have finished: "sign_loop 0 call this_tx [] sample_answer ([PbNone], []) c = (Inr (sample_answer, [PbBytes [48]], []), c)"
    for call :: "pbval \<Rightarrow> ('s, pbval) io" and this_tx c
    by (simp add: sign_loop.simps sample_answer_def is_a_def take_serialized_def sign_step_def get_attr_def truthy_def position_def number_of_def
        member_def RequestType_members_def Let_def)
  have signed: "missing_signature (sample_message, PbBytes [48]) = Inr False" and tx: "is_a ''TxRequest'' sample_answer"
    by (simp_all add: missing_signature_def sample_script_type is_a_def sample_answer_def)
  have client: "client_open (th_trezor (sample_host pm bs)) (td_client sample_device) = (Inr (), (td_client sample_device)\<lparr>tc_session_counter := Suc 0\<rparr>)"
    "client_close (th_trezor (sample_host pm bs)) ((td_client sample_device)\<lparr>tc_session_counter := Suc 0\<rparr>) = (Inr (), td_client sample_device)"
    by (simp_all add: client_open_def client_close_def on_world_def io_bind_def sample_host_def sample_device_def Let_def)
  show ?thesis
    by (simp add: sign_tx_def session_def closing_def io_bind_def client sign_tx_body_def announce_def request sample_call [OF assms] version finished
        signed tx Let_def)
qed

lemma sample_pass:
  assumes "mapping_encode (messages_schema (\<lambda>_. [])) pm sample_request = Inr (15, bs')"
    and "mapping_decode (messages_schema (\<lambda>_. [])) pm 21 bs = Inr sample_answer"
  shows "sign_pass (sample_host pm bs) [1, 2, 3, 4] 1 sample_psbt sample_device
    = (Inr (1, sample_psbt\<lparr>ps_inputs := [store_signature [1, 2, 3, 4] [48] sample_input]\<rparr>), sample_device)"
proof -
  have psbt: "ps_inputs sample_psbt = [sample_input]" "ps_outputs sample_psbt = []" "ps_tx_version sample_psbt = Some 2"
    by (simp_all add: sample_psbt_def PSBT_new_def)
  have input: "pi_non_witness_utxo sample_input = None" by (simp add: sample_input_def psbt_input_new_def)
  have lock: "compute_lock_time sample_psbt = Inr 0"
    by (simp add: compute_lock_time_def lock_time_step_def sample_psbt_def PSBT_new_def sample_input_def psbt_input_new_def)
  have host: "fuel_of (sample_host pm bs) = 0" "td_coin_name sample_device = []"
    by (simp_all add: sample_host_def sample_device_def)
  show ?thesis
    by (simp add: sign_pass_def psbt sample_prepared add_prev_tx_def input lock io_bind_def on_trezor_def host sample_sign_tx [OF assms])
qed

theorem trezor_signs_all_witness:
  "\<exists>pm bs psbt'. sign_passes (pass_bound sample_psbt) (sample_host pm bs) [1, 2, 3, 4] 0 1 sample_psbt sample_device = (Inr psbt', sample_device)
    \<and> \<not> dict_has (pi_partial_sigs (ps_inputs sample_psbt ! 0)) [2, 1] \<and> dict_has (pi_partial_sigs (ps_inputs psbt' ! 0)) [2, 1]"
proof -
  have "(''SignTx'', 15) \<in> set MessageType_members" "(''TxRequest'', 21) \<in> set MessageType_members" by (simp_all add: MessageType_members_def)
  moreover obtain pm where pm: "\<And>cls msg code. typed (messages_schema (\<lambda>_. [])) True cls msg \<Longrightarrow> (cls, code) \<in> set MessageType_members \<Longrightarrow>
     \<exists>bs. mapping_encode (messages_schema (\<lambda>_. [])) pm msg = Inr (nat code, bs)
        \<and> mapping_decode (messages_schema (\<lambda>_. [])) pm (nat code) bs = Inr msg"
    using messages_mapping by blast
  ultimately obtain bs' bs where "mapping_encode (messages_schema (\<lambda>_. [])) pm sample_request = Inr (15, bs')"
      "mapping_decode (messages_schema (\<lambda>_. [])) pm 21 bs = Inr sample_answer"
    using pm [OF signing_typed(1), of 15] pm [OF signing_typed(2), of 21] by auto
  note pass = sample_pass [OF this]
  let ?psbt = "sample_psbt\<lparr>ps_inputs := [store_signature [1, 2, 3, 4] [48] sample_input]\<rparr>"
  have psbt: "ps_inputs sample_psbt = [sample_input]" by (simp add: sample_psbt_def)
  have keys: "pi_hd_keypaths sample_input = [([2, 1], \<lparr>ko_fingerprint = [1, 2, 3, 4], ko_path = [harden 84, 5]\<rparr>)]"
    "pi_partial_sigs sample_input = []"
    by (simp_all add: sample_input_def psbt_input_new_def)
  then have bound: "pass_bound sample_psbt = Suc 0" by (simp add: pass_bound_def psbt)
  have run: "sign_passes (pass_bound sample_psbt) (sample_host pm bs) [1, 2, 3, 4] 0 1 sample_psbt sample_device = (Inr ?psbt, sample_device)"
    using pass by (simp add: bound io_bind_def)
  have "dict_has (pi_partial_sigs (ps_inputs ?psbt ! 0)) [2, 1]"
    by (rule trezor_signs_all [OF run, where n = 0 and txin = sample_message and k = 1 and key = "[2, 1]" and ty = "spend ''SPENDWITNESS''"
          and origin = "\<lparr>ko_fingerprint = [1, 2, 3, 4], ko_path = [harden 84, 5]\<rparr>"])
      (simp_all add: psbt sample_prepared sample_script_type ECDSA_SCRIPT_TYPES_def keys)
  moreover have "\<not> dict_has (pi_partial_sigs (ps_inputs sample_psbt ! 0)) [2, 1]" by (simp add: psbt keys)
  ultimately show ?thesis using run by blast
qed

end
