(* ===== verification/Spec2Isabelle.thy ===== *)
theory Spec2Isabelle
  imports Errors Script Base58 Bech32 Psbt_Spec Commands_Spec Dispatch_Spec Ledger_Spec Ledger_Wallet Trezor_Protocol Trezor_Driver_Spec
begin

text \<open>
  HWI, the Hardware Wallet Interface, talks to hardware wallets on behalf of Bitcoin software. This library models
  the part of \<open>src/hwilib\<close> that is the same for every device, and the driver for Trezor devices with its library. The
  former has the data formats (serialization, Base 58, Bech32,
  scripts, transactions, extended keys and paths, PSBTs, output descriptors), the errors, and the commands on a device
  up to the main function of the command line.

  \<^bold>\<open>The parts and how they interact.\<close> A caller hands HWI a PSBT in Base 64, a derivation path or a descriptor.
  \<open>commands.py\<close> parses it with \<open>psbt.py\<close>, \<open>key.py\<close> or \<open>descriptor.py\<close>, gives the object to the driver of the device
  and writes the answer back. \<open>psbt.py\<close> is built on \<open>tx.py\<close> and both on \<open>_serialize.py\<close>; \<open>descriptor.py\<close> on \<open>key.py\<close>,
  which is built on \<open>_base58.py\<close>; all raise the exceptions of \<open>errors.py\<close>, which \<open>handle_errors\<close> turns into what the
  command line prints.

  \<^bold>\<open>Theories.\<close> Each imports the ones it calls; this one imports them all.
  \<^item> \<open>Prelude\<close>: bytes as 8-bit words, exceptions as values (\<open>exn\<close>), results (\<open>exn + 'a\<close>), readers of a byte stream,
    \<open>struct\<close> and dictionaries. \<open>PyLib\<close>: the string, \<open>binascii\<close> and \<open>base64\<close> functions of Python.
  \<^item> \<open>Errors\<close> (\<open>errors.py\<close>), \<open>Common\<close> (\<open>common.py\<close>, with the hash functions of \<open>hashlib\<close> as the parameter
    \<open>crypto\<close>), \<open>Serialize\<close> (\<open>_serialize.py\<close>), \<open>Script\<close> (\<open>_script.py\<close>), \<open>Base58\<close> (\<open>_base58.py\<close>),
    \<open>Bech32\<close> (\<open>_bech32.py\<close>), \<open>Tx\<close> (\<open>tx.py\<close>), \<open>Key\<close> (\<open>key.py\<close>).
  \<^item> \<open>Checksum\<close>: the interface \<open>checksum_register\<close> of the two error-detecting checksums, with interpretations in
    \<open>Bech32\<close> and \<open>Descriptor_Checksum\<close>.
  \<^item> \<open>Psbt_Map\<close>, \<open>Psbt_Input\<close>, \<open>Psbt_Output\<close>, \<open>Psbt\<close> (\<open>psbt.py\<close>): the read loop of key-value maps as a client of a handler
    for one pair (locale \<open>kv_handler\<close>, interpreted for inputs, outputs and the global map), the three maps, and whole
    PSBTs. \<open>Psbt_Round_Trip\<close> and \<open>Psbt_Spec\<close> hold what is proved of whole PSBTs.
  \<^item> \<open>Descriptor\<close>, \<open>Descriptor_Parser\<close> (\<open>descriptor.py\<close>): checksum, key expressions, descriptor classes, and the parser.
    \<open>Descriptor_Shape\<close> is the grammar as a specification, with the parser's soundness; \<open>Descriptor_Checksum\<close> what the
    checksum notices; \<open>Descriptor_Round_Trip\<close> and \<open>Descriptor_Spec\<close> the round trip, derivation and wallet policies.

  \<^item> \<open>Registration\<close> (the registered descriptors of \<open>descriptor.py\<close>, with UTF-8), \<open>Client\<close> (\<open>hwwclient.py\<close>),
    \<open>Commands\<close> (\<open>commands.py\<close>), \<open>Dispatch\<close> (the choice of the device, and \<open>_cli.py\<close>). \<open>Commands_Spec\<close> gives the
    commands as functions of the keys of the device, \<open>Dispatch_Spec\<close> the clients opened and closed.
  \<^item> \<open>Merkle\<close>, \<open>Ledger_Interpreter\<close>, \<open>Ledger_Wallet\<close> (\<open>merkle.py\<close>, \<open>client_command.py\<close> and \<open>wallet.py\<close> in
    \<open>devices/ledger_bitcoin\<close>): what a host tells a Ledger device about a PSBT and a wallet policy. \<open>Merkle_Nodes\<close>
    relates trees of nodes in a store to lists of hashes, \<open>Merkle_Spec\<close> and \<open>Ledger_Spec\<close> hold what is proved.
  \<^item> \<open>Trezor_Protobuf\<close>, \<open>Trezor_Messages\<close>, \<open>Trezor_Objects\<close>, \<open>Trezor_Protocol\<close>, \<open>Trezor_Client\<close>,
    \<open>Trezor_Tools\<close>, \<open>Trezor_Btc\<close> (\<open>protobuf.py\<close>, \<open>messages.py\<close> with \<open>mapping.py\<close>, \<open>transport/protocol.py\<close>, \<open>client.py\<close>,
    \<open>tools.py\<close> and \<open>btc.py\<close> in \<open>devices/trezorlib\<close>): the messages
    a host exchanges with a Trezor device, their bytes and their chunks, the calls with the requests the device makes in
    between, and the signing of a transaction the device asks for part by part. The classes of messages are a table, and
    the codec interprets it as the code does the attribute \<open>FIELDS\<close>. \<open>Trezor_Protobuf_Spec\<close> and \<open>Trezor_Client_Spec\<close> hold
    what is proved; the locale \<open>transports\<close> is the interface of the client to its transport and user.
  \<^item> \<open>Trezor_Device\<close> (\<open>trezorlib/device.py\<close>), \<open>Trezor_Signing\<close> and \<open>Trezor_Driver\<close> (\<open>devices/trezor.py\<close>): the settings of
    a Trezor device, what it is told of a PSBT with what becomes of its signatures, and the driver, a value of the record
    \<open>driver\<close> on which the commands run. \<open>Trezor_Driver_Spec\<close> shows that the passes of \<open>sign_tx\<close> end, add signatures
    and nothing else, and add all that the device can make.

  \<^bold>\<open>The device.\<close> The methods a driver implements are the record \<open>driver\<close>, functions on a state the program does not
  see; the constructors and lists of devices of the driver modules are the record \<open>host\<close>. Operations on them are
  functions from a state to a result and a state (\<open>io\<close>); an exception keeps the changes made before it. Theorems on
  commands assume a driver that always answers the same (\<open>answers\<close>); those on the command line assume nothing.

  \<^bold>\<open>How the code is rendered.\<close> A class is a record of its attributes (a datatype for the descriptor classes), a method
  a function of that record that returns the changed one. A definition has the name of its function, with a prefix
  where Python has methods of the same name (\<open>tx_deserialize\<close>, \<open>psbt_deserialize\<close>, \<open>xk_serialize\<close>). Every
  \<open>raise\<close> is a value \<open>Inl\<close> with the class and the message; an index out of range is \<open>IndexErr\<close>, a failed \<open>assert\<close>, an
  overflow of \<open>struct.pack\<close> and so on likewise. Readers return the rest of the stream whether or not they failed.
  Dictionaries are association lists in insertion order; sets are lists without the order, which is a parameter of
  the writers (\<open>iteration_ok\<close>). Integers are Python's unbounded ones, bytes 8-bit words.

  \<^bold>\<open>Abstract specifications.\<close> Canonical serializations (\<open>tx_pieces\<close>, \<open>input_pieces\<close>, \<open>output_pieces\<close>), normal forms
  and invariants of PSBTs (\<open>psbt_normal\<close>, \<open>psbt_inv\<close>), BIP 370's lock time (\<open>max_lock\<close>), Base 58 as numbers
  (\<open>b58_value\<close>), script trees behind lists of depths (\<open>script_tree\<close>, \<open>tree_depths\<close>), the grammar of descriptors
  (\<open>descriptor_shape\<close>), the form of a descriptor around its keys (\<open>write_descriptor\<close>).

  \<^bold>\<open>Hash functions.\<close> Of a hash function only the length of its digests is known (\<open>crypto_ok\<close>), so it has collisions. What
  a commitment binds is stated for the messages at hand: the hash function is injective on those that are hashed for
  the roots, proofs, maps and wallet policies compared (\<open>tree_messages\<close>, \<open>proof_messages\<close>, \<open>map_messages\<close>,
  \<open>wallet_messages\<close>), and on no others. Arithmetic on the curve is that of \<open>key.py\<close>, as it is written.

  \<^bold>\<open>Loops and fuel.\<close> Loops are recursive functions with a measure, the length of what is left to read. The read
  loop of a PSBT map runs on the handler's result and uses fuel, one round for each remaining byte and one more, which
  is enough because every round reads at least one byte; \<open>psbt_input_reader_ends\<close> and \<open>psbt_reader_ends\<close> state that
  the fuel never runs out. The decoder of Trezor messages uses the number of bytes and one more, for the same reason
  (\<open>trezor_decode_typed\<close>). The dialogues with a device, \<open>call_loop\<close>, \<open>sign_loop\<close> and \<open>read_rest\<close>, last as long as the device
  wants; their fuel is a bound on its requests, and what is proved holds for every bound. The passes of \<open>sign_tx\<close> are bounded by \<open>pass_bound\<close>, and \<open>trezor_passes_end\<close> states that this is the loop as it is
  written (\<open>passes_run\<close>). The counts of inputs and outputs bound the other loops.

  \<^bold>\<open>Not modelled.\<close> What is left in an object after its reader raised, since every caller drops the object;
  debug output (\<open>__repr__\<close>); aliasing between the transaction of a PSBT and the one \<open>get_unsigned_tx\<close> returns in
  version 0; descriptors with characters outside ASCII, for which registered descriptors take the parser as a
  parameter; \<open>install_udev_rules\<close>, \<open>argparse\<close>, reading arguments from standard input and the graphical interface;
  of the library for Trezor devices, the text of its exceptions for failures, conversions of messages to text and
  dictionaries, and digits outside ASCII in paths; of the driver for Trezor devices, the simulator with its debug link,
  the lists of USB devices (\<open>enumerate\<close>, \<open>get_path_transport\<close>), and addresses and PINs outside ASCII; the other device
  drivers with their vendored libraries, which exchange messages with hardware.
\<close>

end
